(* ===== verification/Prelude.thy ===== *)
theory Prelude
  imports Main "HOL-Library.Word" "HOL-Library.Monad_Syntax" "HOL-Library.Signed_Division"
begin

text \<open>
  Shared by every component: the C integer types, C's truncating division, the facts on
  words, lists and options that the component proofs use, and the collections they are
  gathered in.

  Conventions. An unsigned C integer is a word of its width (\<open>u8\<close>, \<open>u16\<close>, \<open>u32\<close>: the
  arithmetic wraps around as in C). A signed \<open>int\<close>/\<open>int32_t\<close> is an HOL \<open>int\<close>: its
  overflow is undefined in C, none of the modelled code relies on it, and every conversion
  from signed to unsigned is written out with \<open>word_of_int\<close>. A computation that can raise a
  processor exception (an access to an unmapped page, a null dereference, an index outside
  its array) has an option result, with \<open>None\<close> for the exception.
\<close>

unbundle bit_operations_syntax

type_synonym u8 = "8 word"
type_synonym u16 = "16 word"
type_synonym u32 = "32 word"

text \<open>The collections: definitions the simplifier may open, laws of memory accesses, and
  the preservation lemmas of the kernel invariant.\<close>

named_theorems step_defs "definitions of small operations that proofs may open"
named_theorems mem_laws "laws of memory reads after writes"
named_theorems inv_rules "preservation of the kernel invariant, one rule per operation"

text \<open>The two results of the kernel functions that only succeed or fail (lib.h).\<close>

abbreviation (input) SUCCESS :: int where "SUCCESS \<equiv> 0"
abbreviation (input) FAILURE :: int where "FAILURE \<equiv> -1"

subsection \<open>Division on signed integers\<close>

lemma sdiv_nonneg: "0 \<le> a \<Longrightarrow> 0 < b \<Longrightarrow> (a::int) sdiv b = a div b"
  by (simp add: signed_divide_int_def sgn_if)

lemma smod_nonneg: "0 \<le> a \<Longrightarrow> 0 < b \<Longrightarrow> (a::int) smod b = a mod b"
  by (cases "a = 0") (auto simp: signed_modulo_int_def)

subsection \<open>Options as computations that may fault\<close>

lemma bind_Some_iff: "(Option.bind x f = Some y) = (\<exists>a. x = Some a \<and> f a = Some y)"
  by (cases x) auto

definition assert_opt :: "bool \<Rightarrow> unit option" where
  "assert_opt b = (if b then Some () else None)"

lemma assert_opt_simps [simp]:
  "assert_opt True = Some ()" "assert_opt False = None"
  "(assert_opt b = Some u) = b"
  by (auto simp: assert_opt_def)

text \<open>Arrays with the bounds of C: an index outside is a fault.\<close>

definition arr_get :: "'b list \<Rightarrow> int \<Rightarrow> 'b option" where
  "arr_get xs i = (if 0 \<le> i \<and> i < int (length xs) then Some (xs ! nat i) else None)"

definition arr_set :: "'b list \<Rightarrow> int \<Rightarrow> 'b \<Rightarrow> 'b list option" where
  "arr_set xs i v = (if 0 \<le> i \<and> i < int (length xs) then Some (xs[nat i := v]) else None)"

lemma arr_get_Some [simp]: "i < length xs \<Longrightarrow> arr_get xs (int i) = Some (xs ! i)"
  by (simp add: arr_get_def)

lemma arr_set_Some [simp]: "i < length xs \<Longrightarrow> arr_set xs (int i) v = Some (xs[i := v])"
  by (simp add: arr_set_def)

lemma arr_getE:
  assumes "arr_get xs i = Some v"
  obtains n where "i = int n" "n < length xs" "v = xs ! n"
proof
  show "i = int (nat i)" "nat i < length xs" "v = xs ! nat i"
    using assms by (auto simp: arr_get_def split: if_splits)
qed

lemma all_ge_Suc: "(\<forall>k\<ge>(i::nat). P k) \<longleftrightarrow> P i \<and> (\<forall>k\<ge>Suc i. P k)"
  by (metis Suc_leD Suc_leI le_less order_refl)

lemma takeWhile_nth_distinct:
  assumes "distinct xs" "i < length xs"
  shows "length (takeWhile (\<lambda>x. x \<noteq> xs ! i) xs) = i"
proof -
  have "takeWhile (\<lambda>x. x \<noteq> xs ! i) xs = take i xs"
    by (rule takeWhile_eq_take_P_nth) (use assms in \<open>auto simp: nth_eq_iff_index_eq\<close>)
  then show ?thesis using assms by simp
qed

subsection \<open>Addresses: a base and an offset\<close>

lemma word_add_of_nat_eq_iff:
  fixes a :: u32
  assumes "i < 2 ^ 32" "j < 2 ^ 32"
  shows "(a + of_nat i = a + of_nat j) = (i = j)"
  using assms by (simp add: word_of_nat_eq_iff take_bit_nat_eq_self)

lemma unat_of_nat_u32: "k < 2 ^ 32 \<Longrightarrow> unat (of_nat k :: u32) = k"
  by (simp add: unat_of_nat take_bit_nat_eq_self)

lemma u32_div_nat: "(a :: u32) div b = of_nat (unat a div unat b)"
proof -
  have "of_nat (unat (a div b)) = (of_nat (unat a div unat b) :: u32)" by (simp only: unat_div)
  then show ?thesis by simp
qed

lemma u32_mod_nat: "(a :: u32) mod b = of_nat (unat a mod unat b)"
proof -
  have "of_nat (unat (a mod b)) = (of_nat (unat a mod unat b) :: u32)" by (simp only: unat_mod)
  then show ?thesis by simp
qed

lemma takeWhile_take: "takeWhile P (take n xs) = take n (takeWhile P xs)"
  by (induction xs arbitrary: n) (auto simp: take_Cons split: nat.splits)

lemma takeWhile_hit:
  assumes "a < length xs" "\<not> P (xs ! a)"
  shows "length (takeWhile P xs) < length xs" "\<not> P (xs ! length (takeWhile P xs))"
proof -
  show "length (takeWhile P xs) < length xs"
    using assms by (induction xs arbitrary: a) (auto simp: nth_Cons split: nat.splits)
  then show "\<not> P (xs ! length (takeWhile P xs))" by (rule nth_length_takeWhile)
qed

subsection \<open>Invariants of step relations\<close>

text \<open>A state predicate that every step keeps holds in all states that can be reached.\<close>

locale step_invariant =
  fixes step :: "'s \<Rightarrow> 's \<Rightarrow> bool" and inv :: "'s \<Rightarrow> bool"
  assumes keeps: "step s t \<Longrightarrow> inv s \<Longrightarrow> inv t"
begin

lemma reachable: "step\<^sup>*\<^sup>* s t \<Longrightarrow> inv s \<Longrightarrow> inv t"
  by (induction rule: rtranclp_induct) (auto intro: keeps)

end

subsection \<open>Lists of lists of one length\<close>

lemma concat_nth:
  assumes "\<And>xs. xs \<in> set xss \<Longrightarrow> length xs = n" "i < length xss" "j < n"
  shows "concat xss ! (i * n + j) = xss ! i ! j"
  using assms(1,2)
proof (induction xss arbitrary: i)
  case (Cons xs xss)
  have xs: "length xs = n" using Cons.prems(1) by simp
  show ?case
  proof (cases i)
    case 0
    then show ?thesis using xs assms(3) by (simp add: nth_append)
  next
    case (Suc k)
    have "concat xss ! (k * n + j) = xss ! k ! j" using Cons.IH [of k] Cons.prems Suc by simp
    then show ?thesis using xs Suc by (simp add: nth_append add.assoc)
  qed
qed simp

lemma concat_length:
  assumes "\<And>xs. xs \<in> set xss \<Longrightarrow> length xs = n"
  shows "length (concat xss) = length xss * n"
  using assms by (induction xss) simp_all

end
