(* ===== verification/Machine.thy ===== *)
theory Machine
  imports Prelude
begin

text \<open>
  The processor as the kernel sees it (lib.h, and the paging structures declared in
  paging.c). The state is the physical memory, the page directory and the one page table of
  the kernel, the control registers, the interrupt flag, the I/O ports: the bytes written
  are kept as a log, the byte a read finds is whatever the device has put there
  (\<open>port_in\<close>). The record is extended by every component, so an operation of a component
  runs on the state of the whole kernel.
\<close>

record machine =
  phys :: "u32 \<Rightarrow> u8"
  page_directory :: "u32 \<Rightarrow> u32"
  page_table_0 :: "u32 \<Rightarrow> u32"
  pd_addr :: u32          \<comment> \<open>link-time address of \<open>page_directory\<close>\<close>
  pt0_addr :: u32         \<comment> \<open>link-time address of \<open>page_table_0\<close>\<close>
  cr0 :: u32
  cr3 :: u32
  cr4 :: u32
  eflags_if :: bool
  port_in :: "u16 \<Rightarrow> u8"
  port_out :: "(u16 \<times> u8) list"

subsection \<open>Port I/O and the interrupt flag (the macros of lib.h)\<close>

definition inb :: "u16 \<Rightarrow> 'a machine_scheme \<Rightarrow> u32" where
  "inb port s = ucast (port_in s port)"

definition outb :: "u8 \<Rightarrow> u16 \<Rightarrow> 'a machine_scheme \<Rightarrow> 'a machine_scheme" where
  "outb data port s = s\<lparr>port_out := port_out s @ [(port, data)]\<rparr>"

definition cli :: "'a machine_scheme \<Rightarrow> 'a machine_scheme" where
  "cli s = s\<lparr>eflags_if := False\<rparr>"

definition sti :: "'a machine_scheme \<Rightarrow> 'a machine_scheme" where
  "sti s = s\<lparr>eflags_if := True\<rparr>"

definition cli_and_save :: "'a machine_scheme \<Rightarrow> bool \<times> 'a machine_scheme" where
  "cli_and_save s = (eflags_if s, s\<lparr>eflags_if := False\<rparr>)"

definition restore_flags :: "bool \<Rightarrow> 'a machine_scheme \<Rightarrow> 'a machine_scheme" where
  "restore_flags flags s = s\<lparr>eflags_if := flags\<rparr>"

lemmas cpu_defs [step_defs] =
  inb_def outb_def cli_def sti_def cli_and_save_def restore_flags_def

subsection \<open>The flags and masks of paging.h\<close>

abbreviation (input) PDE_PAGE_SIZE :: u32 where "PDE_PAGE_SIZE \<equiv> 0x80"
abbreviation (input) PDE_USER_SUPERVISOR :: u32 where "PDE_USER_SUPERVISOR \<equiv> 0x4"
abbreviation (input) PDE_READ_WRITE :: u32 where "PDE_READ_WRITE \<equiv> 0x2"
abbreviation (input) PDE_PRESENT :: u32 where "PDE_PRESENT \<equiv> 0x1"
abbreviation (input) ALIGN_MB :: u32 where "ALIGN_MB \<equiv> 0xFFC00000"
abbreviation (input) FLAG_MASK :: u32 where "FLAG_MASK \<equiv> 0xFFFFF000"
abbreviation (input) PT_MASK :: u32 where "PT_MASK \<equiv> 0x03FF"

subsection \<open>Address translation\<close>

text \<open>
  The two-level walk of the x86 with page-size extensions, over the kernel's own tables. The
  only page table there is sits at \<open>pt0_addr\<close>; a directory entry for a 4 KB region that
  points anywhere else is not one the kernel builds, and faults here.
\<close>

definition translate :: "'a machine_scheme \<Rightarrow> u32 \<Rightarrow> u32 option" where
  "translate s v =
     (let pde = page_directory s (drop_bit 22 v) in
      if pde AND PDE_PRESENT = 0 then None
      else if pde AND PDE_PAGE_SIZE \<noteq> 0 then Some ((pde AND ALIGN_MB) OR (v AND 0x3FFFFF))
      else if pde AND FLAG_MASK \<noteq> pt0_addr s AND FLAG_MASK then None
      else let pte = page_table_0 s (drop_bit 12 v AND PT_MASK) in
           if pte AND PDE_PRESENT = 0 then None
           else Some ((pte AND FLAG_MASK) OR (v AND 0xFFF)))"

text \<open>In user mode every level must carry the user/supervisor bit.\<close>

definition user_page :: "'a machine_scheme \<Rightarrow> u32 \<Rightarrow> bool" where
  "user_page s v =
     (let pde = page_directory s (drop_bit 22 v) in
      pde AND PDE_USER_SUPERVISOR \<noteq> 0 \<and>
      (pde AND PDE_PAGE_SIZE \<noteq> 0 \<or>
       page_table_0 s (drop_bit 12 v AND PT_MASK) AND PDE_USER_SUPERVISOR \<noteq> 0))"

definition user_translate :: "'a machine_scheme \<Rightarrow> u32 \<Rightarrow> u32 option" where
  "user_translate s v = (if user_page s v then translate s v else None)"

subsection \<open>Memory accesses\<close>

definition load8 :: "'a machine_scheme \<Rightarrow> u32 \<Rightarrow> u8 option" where
  "load8 s a = map_option (phys s) (translate s a)"

definition store8 :: "u32 \<Rightarrow> u8 \<Rightarrow> 'a machine_scheme \<Rightarrow> 'a machine_scheme option" where
  "store8 a b s = map_option (\<lambda>p. s\<lparr>phys := (phys s)(p := b)\<rparr>) (translate s a)"

definition load32 :: "'a machine_scheme \<Rightarrow> u32 \<Rightarrow> u32 option" where
  "load32 s a = do {
     b0 \<leftarrow> load8 s a; b1 \<leftarrow> load8 s (a + 1); b2 \<leftarrow> load8 s (a + 2); b3 \<leftarrow> load8 s (a + 3);
     Some (ucast b0 OR push_bit 8 (ucast b1) OR push_bit 16 (ucast b2) OR push_bit 24 (ucast b3))
   }"

lemma translate_cong:
  assumes "page_directory t = page_directory s" "page_table_0 t = page_table_0 s" "pt0_addr t = pt0_addr s"
  shows "translate t v = translate s v" "user_translate t v = user_translate s v"
  unfolding user_translate_def user_page_def translate_def assms by (rule refl)+

lemma translate_phys [simp]: "translate (s\<lparr>phys := f\<rparr>) v = translate s v"
  by (simp add: translate_def Let_def cong: if_cong)

lemma user_translate_phys [simp]: "user_translate (s\<lparr>phys := f\<rparr>) v = user_translate s v"
  by (simp add: user_translate_def user_page_def Let_def)

lemma store8_Some:
  "store8 a b s = Some s' \<Longrightarrow>
     \<exists>p. translate s a = Some p \<and> s' = s\<lparr>phys := (phys s)(p := b)\<rparr>"
  by (auto simp: store8_def)

lemma translate_store8 [mem_laws]: "store8 a b s = Some s' \<Longrightarrow> translate s' v = translate s v"
  by (auto dest: store8_Some)

lemma load8_store8 [mem_laws]:
  "store8 a b s = Some s' \<Longrightarrow>
     load8 s' v = (if translate s v = translate s a then Some b else load8 s v)"
  by (auto dest!: store8_Some simp: load8_def map_option_case split: option.splits)

lemma load32_cong:
  assumes "load8 t a = load8 s a" "load8 t (a + 1) = load8 s (a + 1)"
    and "load8 t (a + 2) = load8 s (a + 2)" "load8 t (a + 3) = load8 s (a + 3)"
  shows "load32 t a = load32 s a"
  using assms by (simp add: load32_def)

fun store_bytes :: "u32 \<Rightarrow> u8 list \<Rightarrow> 'a machine_scheme \<Rightarrow> 'a machine_scheme option" where
  "store_bytes a [] s = Some s"
| "store_bytes a (b # bs) s = do { s' \<leftarrow> store8 a b s; store_bytes (a + 1) bs s' }"

fun load_bytes :: "'a machine_scheme \<Rightarrow> u32 \<Rightarrow> nat \<Rightarrow> u8 list option" where
  "load_bytes s a 0 = Some []"
| "load_bytes s a (Suc n) = do { b \<leftarrow> load8 s a; bs \<leftarrow> load_bytes s (a + 1) n; Some (b # bs) }"

text \<open>The string of a C pointer, as a reader from offsets to bytes: \<open>None\<close> is a fault.\<close>

type_synonym reader = "nat \<Rightarrow> u8 option"

definition mem_at :: "'a machine_scheme \<Rightarrow> u32 \<Rightarrow> reader" where
  "mem_at s a = (\<lambda>i. load8 s (a + of_nat i))"

definition literal :: "u8 list \<Rightarrow> reader" where
  "literal xs = (\<lambda>i. if i < length xs then Some (xs ! i)
                     else if i = length xs then Some 0 else None)"

text \<open>A reader sees the string \<open>xs\<close>: no NUL inside, and a NUL right after it.\<close>

definition c_string :: "reader \<Rightarrow> u8 list \<Rightarrow> bool" where
  "c_string rd xs \<longleftrightarrow>
     (\<forall>i<length xs. rd i = Some (xs ! i)) \<and> rd (length xs) = Some 0 \<and> 0 \<notin> set xs"

lemma c_string_literal: "0 \<notin> set xs \<Longrightarrow> c_string (literal xs) xs"
  by (simp add: c_string_def literal_def)

end
