(* ===== verification/CLib.thy ===== *)
theory CLib
  imports Machine
begin

text \<open>
  The string and memory routines of lib.c. A pointer that is only read is a reader of
  Machine (offset to byte); a pointer that is written is an address of the machine's memory;
  the stack buffers of \<open>itoa\<close> and \<open>printf\<close> are lists, with an access outside the list
  written out as \<open>None\<close>. The hand-written assembler of \<open>memset\<close>, \<open>memcpy\<close> and \<open>memmove\<close>
  is kept as the loops it runs.
\<close>

subsection \<open>Reading strings\<close>

partial_function (option) strlen_from :: "reader \<Rightarrow> nat \<Rightarrow> nat option" where
  "strlen_from s len = do { c \<leftarrow> s len; if c \<noteq> 0 then strlen_from s (len + 1) else Some len }"

declare strlen_from.simps [code]

definition strlen :: "reader \<Rightarrow> nat option" where
  "strlen s = strlen_from s 0"

function strncmp_from :: "reader \<Rightarrow> reader \<Rightarrow> nat \<Rightarrow> nat \<Rightarrow> int option" where
  "strncmp_from s1 s2 n i =
     (if i < n then do {
        a \<leftarrow> s1 i; b \<leftarrow> s2 i;
        if a \<noteq> b \<or> a = 0 then Some (sint a - sint b) else strncmp_from s1 s2 n (i + 1)
      } else Some 0)"
  by pat_completeness auto
termination by (relation "measure (\<lambda>(s1, s2, n, i). n - i)") auto

declare strncmp_from.simps [simp del]

definition strncmp :: "reader \<Rightarrow> reader \<Rightarrow> nat \<Rightarrow> int option" where
  "strncmp s1 s2 n = strncmp_from s1 s2 n 0"

lemma strlen_from_c_string:
  assumes "c_string rd xs" "i \<le> length xs"
  shows "strlen_from rd i = Some (length xs)"
  using assms(2)
proof (induction "length xs - i" arbitrary: i)
  case 0
  then have "i = length xs" by simp
  then show ?case using assms(1) by (simp add: c_string_def strlen_from.simps)
next
  case (Suc k)
  then have i: "i < length xs" by simp
  then have "rd i = Some (xs ! i)" "xs ! i \<noteq> 0"
    using assms(1) by (auto simp: c_string_def in_set_conv_nth)
  moreover have "strlen_from rd (i + 1) = Some (length xs)"
    using Suc.hyps(1) [of "i + 1"] Suc.hyps(2) i by simp
  ultimately show ?case by (simp add: strlen_from.simps [of rd i])
qed

lemma strlen_c_string [mem_laws]: "c_string rd xs \<Longrightarrow> strlen rd = Some (length xs)"
  by (simp add: strlen_def strlen_from_c_string)

text \<open>
  \<open>strncmp\<close> answers 0 exactly when the two strings agree up to the first NUL of the first or
  up to \<open>n\<close> bytes, whichever comes first. It reads no byte past that point.
\<close>

lemma sint_eq_u8: "(sint (a :: u8) = sint b) = (a = b)"
  by (auto intro: signed_word_eqI)

lemma strncmp_from_zero_iff:
  assumes "\<And>j. i \<le> j \<Longrightarrow> j < n \<Longrightarrow> (\<And>k. i \<le> k \<Longrightarrow> k < j \<Longrightarrow> s1 k \<noteq> Some 0) \<Longrightarrow>
             s1 j \<noteq> None \<and> s2 j \<noteq> None"
  shows "strncmp_from s1 s2 n i = Some 0 \<longleftrightarrow>
           (\<forall>j. i \<le> j \<longrightarrow> j < n \<longrightarrow> (\<forall>k. i \<le> k \<longrightarrow> k < j \<longrightarrow> s1 k \<noteq> Some 0) \<longrightarrow> s1 j = s2 j)"
  using assms
proof (induction "n - i" arbitrary: i)
  case 0
  then show ?case by (auto simp: strncmp_from.simps)
next
  case (Suc m)
  then have lt: "i < n" by simp
  with Suc.prems [of i] obtain a b where ab: "s1 i = Some a" "s2 i = Some b" by auto
  show ?case
  proof (cases "a \<noteq> b \<or> a = 0")
    case True
    then have res: "strncmp_from s1 s2 n i = Some (sint a - sint b)"
      using lt ab by (simp add: strncmp_from.simps [of _ _ _ i])
    show ?thesis
    proof (cases "a = b")
      case True
      with \<open>a \<noteq> b \<or> a = 0\<close> ab have "\<forall>j. i < j \<longrightarrow> \<not> (\<forall>k. i \<le> k \<longrightarrow> k < j \<longrightarrow> s1 k \<noteq> Some 0)"
        by auto
      then show ?thesis using True res ab by (auto simp: le_less)
    next
      case False
      then have "sint a \<noteq> sint b" by (simp add: sint_eq_u8)
      moreover have "s1 i \<noteq> s2 i" using ab False by simp
      ultimately show ?thesis using res lt by force
    qed
  next
    case False
    then have step: "strncmp_from s1 s2 n i = strncmp_from s1 s2 n (Suc i)"
      using lt ab by (simp add: strncmp_from.simps [of _ _ _ i])
    have nz: "(\<forall>k. i \<le> k \<longrightarrow> k < j \<longrightarrow> s1 k \<noteq> Some 0) \<longleftrightarrow> (\<forall>k. Suc i \<le> k \<longrightarrow> k < j \<longrightarrow> s1 k \<noteq> Some 0)" for j
      using False ab by (subst all_ge_Suc) auto
    have "m = n - Suc i" using Suc.hyps(2) by simp
    then have "strncmp_from s1 s2 n (Suc i) = Some 0 \<longleftrightarrow>
        (\<forall>j. Suc i \<le> j \<longrightarrow> j < n \<longrightarrow> (\<forall>k. Suc i \<le> k \<longrightarrow> k < j \<longrightarrow> s1 k \<noteq> Some 0) \<longrightarrow> s1 j = s2 j)"
    proof (rule Suc.hyps(1))
      fix j
      assume j: "Suc i \<le> j" "j < n" "\<And>k. Suc i \<le> k \<Longrightarrow> k < j \<Longrightarrow> s1 k \<noteq> Some 0"
      then have "\<forall>k. i \<le> k \<longrightarrow> k < j \<longrightarrow> s1 k \<noteq> Some 0" using nz [of j] by blast
      then show "s1 j \<noteq> None \<and> s2 j \<noteq> None" using Suc.prems [of j] j(1,2) by simp
    qed
    also have "\<dots> \<longleftrightarrow> (i < n \<longrightarrow> (\<forall>k. Suc i \<le> k \<longrightarrow> k < i \<longrightarrow> s1 k \<noteq> Some 0) \<longrightarrow> s1 i = s2 i) \<and> \<dots>"
      using False ab by simp
    also have "\<dots> \<longleftrightarrow> (\<forall>j. i \<le> j \<longrightarrow> j < n \<longrightarrow> (\<forall>k. Suc i \<le> k \<longrightarrow> k < j \<longrightarrow> s1 k \<noteq> Some 0) \<longrightarrow> s1 j = s2 j)"
      by (rule all_ge_Suc [symmetric])
    also have "\<dots> \<longleftrightarrow> (\<forall>j. i \<le> j \<longrightarrow> j < n \<longrightarrow> (\<forall>k. i \<le> k \<longrightarrow> k < j \<longrightarrow> s1 k \<noteq> Some 0) \<longrightarrow> s1 j = s2 j)"
      by (simp only: nz)
    finally show ?thesis using step by simp
  qed
qed

lemma strncmp_zero_iff:
  assumes "\<And>j. j < n \<Longrightarrow> (\<And>k. k < j \<Longrightarrow> s1 k \<noteq> Some 0) \<Longrightarrow> s1 j \<noteq> None \<and> s2 j \<noteq> None"
  shows "strncmp s1 s2 n = Some 0 \<longleftrightarrow>
           (\<forall>j<n. (\<forall>k<j. s1 k \<noteq> Some 0) \<longrightarrow> s1 j = s2 j)"
  unfolding strncmp_def by (subst strncmp_from_zero_iff) (use assms in auto)

lemma strncmp_from_defined:
  assumes "\<And>j. i \<le> j \<Longrightarrow> j < n \<Longrightarrow> (\<And>k. i \<le> k \<Longrightarrow> k < j \<Longrightarrow> s1 k \<noteq> Some 0) \<Longrightarrow>
             s1 j \<noteq> None \<and> s2 j \<noteq> None"
  shows "strncmp_from s1 s2 n i \<noteq> None"
  using assms
proof (induction "n - i" arbitrary: i)
  case 0
  then show ?case by (auto simp: strncmp_from.simps)
next
  case (Suc m)
  then have lt: "i < n" by simp
  with Suc.prems [of i] obtain a b where ab: "s1 i = Some a" "s2 i = Some b" by auto
  show ?case
  proof (cases "a \<noteq> b \<or> a = 0")
    case False
    have "strncmp_from s1 s2 n (Suc i) \<noteq> None"
    proof (rule Suc.hyps(1))
      show "m = n - Suc i" using Suc.hyps(2) by simp
      fix j assume j: "Suc i \<le> j" "j < n" "\<And>k. Suc i \<le> k \<Longrightarrow> k < j \<Longrightarrow> s1 k \<noteq> Some 0"
      have "s1 k \<noteq> Some 0" if "i \<le> k" "k < j" for k
        using j(3) [of k] that False ab by (cases "k = i") auto
      then show "s1 j \<noteq> None \<and> s2 j \<noteq> None" using Suc.prems [of j] j(1,2) by simp
    qed
    then show ?thesis using lt ab False by (simp add: strncmp_from.simps [of _ _ _ i])
  qed (use lt ab in \<open>auto simp: strncmp_from.simps [of _ _ _ i]\<close>)
qed

lemma strncmp_defined:
  assumes "\<And>j. j < n \<Longrightarrow> (\<And>k. k < j \<Longrightarrow> s1 k \<noteq> Some 0) \<Longrightarrow> s1 j \<noteq> None \<and> s2 j \<noteq> None"
  shows "strncmp s1 s2 n \<noteq> None"
  unfolding strncmp_def
proof (rule strncmp_from_defined)
  fix j assume "j < n" and nz: "\<And>k. 0 \<le> k \<Longrightarrow> k < j \<Longrightarrow> s1 k \<noteq> Some 0"
  then show "s1 j \<noteq> None \<and> s2 j \<noteq> None" by (intro assms) simp_all
qed

text \<open>Comparing a string with the bytes \<open>f\<close>, over at most \<open>n\<close> of them.\<close>

lemma strncmp_c_string:
  assumes str: "c_string s1 xs" and rd: "\<And>j. j < n \<Longrightarrow> j \<le> length xs \<Longrightarrow> s2 j = Some (f j)"
  shows "\<exists>r. strncmp s1 s2 n = Some r \<and>
     (r = 0) = (\<forall>j<n. j \<le> length xs \<longrightarrow> (if j < length xs then xs ! j else 0) = f j)"
proof -
  have nul: "(\<forall>k<j. s1 k \<noteq> Some 0) = (j \<le> length xs)" for j
  proof
    assume "\<forall>k<j. s1 k \<noteq> Some 0"
    then show "j \<le> length xs" using str by (auto simp: c_string_def intro: leI)
  next
    assume "j \<le> length xs"
    have "s1 k \<noteq> Some 0" if "k < length xs" for k
    proof -
      have "xs ! k \<noteq> 0" using str nth_mem [OF that] by (auto simp: c_string_def)
      then show ?thesis using str that by (simp add: c_string_def)
    qed
    then show "\<forall>k<j. s1 k \<noteq> Some 0" using \<open>j \<le> length xs\<close> by simp
  qed
  have s1: "s1 j = Some (if j < length xs then xs ! j else 0)" if "j \<le> length xs" for j
    using str that by (auto simp: c_string_def le_less)
  have def: "s1 j \<noteq> None \<and> s2 j \<noteq> None" if "j < n" "\<And>k. k < j \<Longrightarrow> s1 k \<noteq> Some 0" for j
  proof -
    have "\<forall>k<j. s1 k \<noteq> Some 0" by (intro allI impI that(2))
    then have le: "j \<le> length xs" by (rule iffD1 [OF nul])
    show ?thesis unfolding s1 [OF le] rd [OF that(1) le] by simp
  qed
  have "strncmp s1 s2 n \<noteq> None" by (rule strncmp_defined) (rule def)
  then obtain r where r: "strncmp s1 s2 n = Some r" by blast
  moreover have "(r = 0) = (\<forall>j<n. j \<le> length xs \<longrightarrow> s1 j = s2 j)"
  proof -
    have "strncmp s1 s2 n = Some 0 \<longleftrightarrow> (\<forall>j<n. (\<forall>k<j. s1 k \<noteq> Some 0) \<longrightarrow> s1 j = s2 j)"
      by (rule strncmp_zero_iff) (rule def)
    then show ?thesis unfolding nul r by blast
  qed
  moreover have "(s1 j = s2 j) = ((if j < length xs then xs ! j else 0) = f j)"
    if "j < n" "j \<le> length xs" for j
    using s1 [OF that(2)] rd [OF that] by simp
  ultimately have "(r = 0) = (\<forall>j<n. j \<le> length xs \<longrightarrow> (if j < length xs then xs ! j else 0) = f j)"
    by simp
  with r show ?thesis by simp
qed

subsection \<open>Copying strings\<close>

text \<open>The source byte is read before the count is checked, as the loop condition does.\<close>

function strncpy_copy :: "u32 \<Rightarrow> u32 \<Rightarrow> nat \<Rightarrow> nat \<Rightarrow> 'a machine_scheme \<Rightarrow> (nat \<times> 'a machine_scheme) option" where
  "strncpy_copy dest src n i s = do {
     c \<leftarrow> load8 s (src + of_nat i);
     if c \<noteq> 0 \<and> i < n
     then do { s' \<leftarrow> store8 (dest + of_nat i) c s; strncpy_copy dest src n (i + 1) s' }
     else Some (i, s)
   }"
  by pat_completeness auto
termination by (relation "measure (\<lambda>(dest, src, n, i, s). n - i)") auto

function strncpy_pad :: "u32 \<Rightarrow> nat \<Rightarrow> nat \<Rightarrow> 'a machine_scheme \<Rightarrow> 'a machine_scheme option" where
  "strncpy_pad dest n i s =
     (if i < n then do { s' \<leftarrow> store8 (dest + of_nat i) 0 s; strncpy_pad dest n (i + 1) s' }
      else Some s)"
  by pat_completeness auto
termination by (relation "measure (\<lambda>(dest, n, i, s). n - i)") auto

declare strncpy_copy.simps [simp del] strncpy_pad.simps [simp del]

definition strncpy :: "u32 \<Rightarrow> u32 \<Rightarrow> nat \<Rightarrow> 'a machine_scheme \<Rightarrow> 'a machine_scheme option" where
  "strncpy dest src n s = do { (i, s') \<leftarrow> strncpy_copy dest src n 0 s; strncpy_pad dest n i s' }"

partial_function (option) strcpy_from :: "u32 \<Rightarrow> u32 \<Rightarrow> nat \<Rightarrow> 'a machine_scheme \<Rightarrow> 'a machine_scheme option" where
  "strcpy_from dest src i s = do {
     c \<leftarrow> load8 s (src + of_nat i);
     if c \<noteq> 0
     then do { s' \<leftarrow> store8 (dest + of_nat i) c s; strcpy_from dest src (i + 1) s' }
     else store8 (dest + of_nat i) 0 s
   }"

declare strcpy_from.simps [code]

definition strcpy :: "u32 \<Rightarrow> u32 \<Rightarrow> 'a machine_scheme \<Rightarrow> 'a machine_scheme option" where
  "strcpy dest src s = strcpy_from dest src 0 s"

subsection \<open>Buffers, string reversal and \<open>itoa\<close>\<close>

definition buf_get :: "'b list \<Rightarrow> nat \<Rightarrow> 'b option" where
  "buf_get b i = (if i < length b then Some (b ! i) else None)"

definition buf_set :: "'b list \<Rightarrow> nat \<Rightarrow> 'b \<Rightarrow> 'b list option" where
  "buf_set b i v = (if i < length b then Some (b[i := v]) else None)"

lemma buf_get_Some [simp]: "i < length b \<Longrightarrow> buf_get b i = Some (b ! i)"
  by (simp add: buf_get_def)

lemma buf_set_Some [simp]: "i < length b \<Longrightarrow> buf_set b i v = Some (b[i := v])"
  by (simp add: buf_set_def)

function strrev_loop :: "u8 list \<Rightarrow> nat \<Rightarrow> int \<Rightarrow> u8 list option" where
  "strrev_loop s beg end =
     (if int beg < end then do {
        tmp \<leftarrow> buf_get s (nat end);
        x \<leftarrow> buf_get s beg;
        s1 \<leftarrow> buf_set s (nat end) x;
        s2 \<leftarrow> buf_set s1 beg tmp;
        strrev_loop s2 (beg + 1) (end - 1)
      } else Some s)"
  by pat_completeness auto
termination by (relation "measure (\<lambda>(s, beg, end). nat (end - int beg))") auto

declare strrev_loop.simps [simp del]

definition strrev :: "u8 list \<Rightarrow> u8 list option" where
  "strrev s = do { n \<leftarrow> strlen (buf_get s); strrev_loop s 0 (int n - 1) }"

definition itoa_lookup :: "u8 list" where
  "itoa_lookup = map of_nat [48, 49, 50, 51, 52, 53, 54, 55, 56, 57,
     65, 66, 67, 68, 69, 70, 71, 72, 73, 74, 75, 76, 77, 78, 79, 80, 81, 82, 83, 84, 85, 86, 87,
     88, 89, 90]"

partial_function (option) itoa_digits :: "u32 \<Rightarrow> u8 list \<Rightarrow> nat \<Rightarrow> u32 \<Rightarrow> (u8 list \<times> nat) option" where
  "itoa_digits newval buf k radix =
     (if newval > 0 then
        if radix = 0 then None
        else do {
          c \<leftarrow> buf_get (itoa_lookup @ [0]) (unat (newval mod radix));
          buf' \<leftarrow> buf_set buf k c;
          itoa_digits (newval div radix) buf' (k + 1) radix
        }
      else Some (buf, k))"

declare itoa_digits.simps [code]

definition itoa :: "u32 \<Rightarrow> u8 list \<Rightarrow> u32 \<Rightarrow> u8 list option" where
  "itoa value buf radix =
     (if value = 0 then do { b \<leftarrow> buf_set buf 0 48; buf_set b 1 0 }
      else do {
        (b, k) \<leftarrow> itoa_digits value buf 0 radix;
        b' \<leftarrow> buf_set b k 0;
        strrev b'
      })"

subsection \<open>The memory routines\<close>

text \<open>\<open>rep stosl\<close> stores the four bytes of EAX, lowest first, ECX times.\<close>

definition dword_bytes :: "u32 \<Rightarrow> u8 list" where
  "dword_bytes w = [ucast w, ucast (drop_bit 8 w), ucast (drop_bit 16 w), ucast (drop_bit 24 w)]"

fun rep_stosl :: "u32 \<Rightarrow> u32 \<Rightarrow> nat \<Rightarrow> 'a machine_scheme \<Rightarrow> (u32 \<times> 'a machine_scheme) option" where
  "rep_stosl eax edi 0 s = Some (edi, s)"
| "rep_stosl eax edi (Suc ecx) s = do {
     s' \<leftarrow> store_bytes edi (dword_bytes eax) s;
     rep_stosl eax (edi + 4) ecx s'
   }"

fun memset_bottom :: "u32 \<Rightarrow> u32 \<Rightarrow> nat \<Rightarrow> 'a machine_scheme \<Rightarrow> 'a machine_scheme option" where
  "memset_bottom eax edi 0 s = Some s"
| "memset_bottom eax edi (Suc edx) s = do {
     s' \<leftarrow> store8 edi (ucast eax) s;
     memset_bottom eax (edi + 1) edx s'
   }"

definition memset_aligned :: "u32 \<Rightarrow> u32 \<Rightarrow> nat \<Rightarrow> 'a machine_scheme \<Rightarrow> 'a machine_scheme option" where
  "memset_aligned eax edi ecx s = do {
     (edi', s') \<leftarrow> rep_stosl eax edi (ecx div 4) s;
     memset_bottom eax edi' (ecx mod 4) s'
   }"

fun memset_top :: "u32 \<Rightarrow> u32 \<Rightarrow> nat \<Rightarrow> 'a machine_scheme \<Rightarrow> 'a machine_scheme option" where
  "memset_top eax edi 0 s = Some s"
| "memset_top eax edi (Suc ecx) s =
     (if edi AND 3 = 0 then memset_aligned eax edi (Suc ecx) s
      else do { s' \<leftarrow> store8 edi (ucast eax) s; memset_top eax (edi + 1) ecx s' })"

definition memset :: "u32 \<Rightarrow> u32 \<Rightarrow> nat \<Rightarrow> 'a machine_scheme \<Rightarrow> 'a machine_scheme option" where
  "memset dest c n s =
     (let c = c AND 0xFF
      in memset_top (push_bit 24 c OR push_bit 16 c OR push_bit 8 c OR c) dest n s)"

fun rep_movsl :: "u32 \<Rightarrow> u32 \<Rightarrow> nat \<Rightarrow> 'a machine_scheme \<Rightarrow> (u32 \<times> u32 \<times> 'a machine_scheme) option" where
  "rep_movsl edi esi 0 s = Some (edi, esi, s)"
| "rep_movsl edi esi (Suc ecx) s = do {
     bs \<leftarrow> load_bytes s esi 4;
     s' \<leftarrow> store_bytes edi bs s;
     rep_movsl (edi + 4) (esi + 4) ecx s'
   }"

fun memcpy_bottom :: "u32 \<Rightarrow> u32 \<Rightarrow> nat \<Rightarrow> 'a machine_scheme \<Rightarrow> 'a machine_scheme option" where
  "memcpy_bottom edi esi 0 s = Some s"
| "memcpy_bottom edi esi (Suc edx) s = do {
     al \<leftarrow> load8 s esi;
     s' \<leftarrow> store8 edi al s;
     memcpy_bottom (edi + 1) (esi + 1) edx s'
   }"

definition memcpy_aligned :: "u32 \<Rightarrow> u32 \<Rightarrow> nat \<Rightarrow> 'a machine_scheme \<Rightarrow> 'a machine_scheme option" where
  "memcpy_aligned edi esi ecx s = do {
     (edi', esi', s') \<leftarrow> rep_movsl edi esi (ecx div 4) s;
     memcpy_bottom edi' esi' (ecx mod 4) s'
   }"

fun memcpy_top :: "u32 \<Rightarrow> u32 \<Rightarrow> nat \<Rightarrow> 'a machine_scheme \<Rightarrow> 'a machine_scheme option" where
  "memcpy_top edi esi 0 s = Some s"
| "memcpy_top edi esi (Suc ecx) s =
     (if edi AND 3 = 0 then memcpy_aligned edi esi (Suc ecx) s
      else do {
        al \<leftarrow> load8 s esi;
        s' \<leftarrow> store8 edi al s;
        memcpy_top (edi + 1) (esi + 1) ecx s'
      })"

definition memcpy :: "u32 \<Rightarrow> u32 \<Rightarrow> nat \<Rightarrow> 'a machine_scheme \<Rightarrow> 'a machine_scheme option" where
  "memcpy dest src n s = memcpy_top dest src n s"

text \<open>\<open>rep movsb\<close>, upwards or downwards by the direction flag.\<close>

fun rep_movsb :: "bool \<Rightarrow> u32 \<Rightarrow> u32 \<Rightarrow> nat \<Rightarrow> 'a machine_scheme \<Rightarrow> 'a machine_scheme option" where
  "rep_movsb df edi esi 0 s = Some s"
| "rep_movsb df edi esi (Suc ecx) s = do {
     al \<leftarrow> load8 s esi;
     s' \<leftarrow> store8 edi al s;
     if df then rep_movsb df (edi - 1) (esi - 1) ecx s'
     else rep_movsb df (edi + 1) (esi + 1) ecx s'
   }"

definition memmove :: "u32 \<Rightarrow> u32 \<Rightarrow> nat \<Rightarrow> 'a machine_scheme \<Rightarrow> 'a machine_scheme option" where
  "memmove dest src n s =
     (if src \<ge> dest then rep_movsb False dest src n s
      else rep_movsb True (dest + of_nat n - 1) (src + of_nat n - 1) n s)"

subsection \<open>What the assembler routines compute\<close>

lemma store_bytes_append [mem_laws]:
  "store_bytes a (xs @ ys) s =
     do { s' \<leftarrow> store_bytes a xs s; store_bytes (a + of_nat (length xs)) ys s' }"
  by (induction xs arbitrary: a s) (auto simp: algebra_simps split: Option.bind_split)

lemma translate_store_bytes [mem_laws]:
  "store_bytes a bs s = Some s' \<Longrightarrow> translate s' v = translate s v"
  by (induction bs arbitrary: a s) (auto simp: bind_Some_iff translate_store8)

lemma load8_store_bytes_other [mem_laws]:
  assumes "store_bytes a bs s = Some s'"
    and "\<And>i. i < length bs \<Longrightarrow> translate s (a + of_nat i) \<noteq> translate s v"
  shows "load8 s' v = load8 s v"
  using assms
proof (induction bs arbitrary: a s)
  case Nil
  then show ?case by simp
next
  case (Cons b bs)
  from Cons.prems(1) obtain t where t: "store8 a b s = Some t" "store_bytes (a + 1) bs t = Some s'"
    by (auto simp: bind_Some_iff)
  have "load8 s' v = load8 t v"
  proof (rule Cons.IH [OF t(2)])
    fix i assume "i < length bs"
    then show "translate t (a + 1 + of_nat i) \<noteq> translate t v"
      using Cons.prems(2) [of "Suc i"] by (simp add: translate_store8 [OF t(1)] algebra_simps)
  qed
  also have "\<dots> = load8 s v"
    using Cons.prems(2) [of 0] by (simp add: load8_store8 [OF t(1)])
  finally show ?case .
qed

lemma rep_stosl_eq:
  "rep_stosl eax edi n s =
     map_option (\<lambda>s'. (edi + 4 * of_nat n, s')) (store_bytes edi (concat (replicate n (dword_bytes eax))) s)"
proof (induction n arbitrary: edi s)
  case 0
  then show ?case by simp
next
  case (Suc n)
  have "length (dword_bytes eax) = 4" by (simp add: dword_bytes_def)
  then show ?case
    by (auto simp: store_bytes_append Suc.IH algebra_simps map_option_case split: Option.bind_split option.splits)
qed

lemma memset_bottom_eq: "memset_bottom eax edi n s = store_bytes edi (replicate n (ucast eax)) s"
  by (induction n arbitrary: edi s) (auto split: Option.bind_split)

lemma concat_replicate_replicate: "concat (replicate n (replicate m x)) = replicate (n * m) x"
  by (induction n) (auto simp: replicate_add)

lemma memset_top_eq:
  assumes "dword_bytes eax = replicate 4 c" "ucast eax = c"
  shows "memset_top eax edi n s = store_bytes edi (replicate n c) s"
proof (induction n arbitrary: edi s)
  case 0
  then show ?case by simp
next
  case (Suc n)
  have "Suc n = (Suc n div 4) * 4 + Suc n mod 4" by simp
  then have "replicate (Suc n) c = replicate ((Suc n div 4) * 4) c @ replicate (Suc n mod 4) c"
    by (metis replicate_add)
  then have "memset_aligned eax edi (Suc n) s = store_bytes edi (replicate (Suc n) c) s"
    by (auto simp: memset_aligned_def rep_stosl_eq assms concat_replicate_replicate memset_bottom_eq
        store_bytes_append map_option_case algebra_simps simp del: replicate.simps
        split: Option.bind_split option.splits)
  then show ?case by (auto simp: assms Suc.IH split: Option.bind_split)
qed

lemma replicate_4: "replicate 4 x = [x, x, x, x]"
  by (simp add: numeral_eq_Suc)

lemma dword_of_byte:
  fixes c :: u32
  assumes "c = c AND 0xFF"
  shows "dword_bytes (push_bit 24 c OR push_bit 16 c OR push_bit 8 c OR c) = replicate 4 (ucast c)"
proof -
  have hi: "\<not> bit c n" if "8 \<le> n" for n
  proof -
    have "bit c n = (bit c n \<and> bit (0xFF :: u32) n)" by (subst (1) assms) (simp add: bit_and_iff)
    moreover have "\<not> bit (0xFF :: u32) n"
    proof -
      have "(0xFF :: u32) = mask 8" by (simp add: mask_eq_exp_minus_1)
      then show ?thesis using that by (simp only: bit_mask_iff) simp

    qed
    ultimately show ?thesis by blast
  qed
  show ?thesis
    unfolding dword_bytes_def replicate_4
    by (intro arg_cong2 [where f = Cons] refl; rule bit_word_eqI) (auto simp: bit_simps hi not_le)
qed

lemma memset_eq: "memset dest c n s = store_bytes dest (replicate n (ucast c)) s"
proof -
  define c' :: u32 where "c' = c AND 0xFF"
  define eax where "eax = push_bit 24 c' OR push_bit 16 c' OR push_bit 8 c' OR c'"
  have c': "c' = c' AND 0xFF" by (simp add: c'_def and.assoc)
  have u: "(ucast c' :: u8) = ucast c"
    by (rule bit_word_eqI) (auto simp: c'_def bit_simps less_Suc_eq numeral_eq_Suc)
  have d: "dword_bytes eax = replicate 4 (ucast c)"
    unfolding eax_def u [symmetric] by (rule dword_of_byte [OF c'])
  then have "ucast eax = (ucast c :: u8)" by (simp add: dword_bytes_def numeral_eq_Suc)
  then show ?thesis
    using memset_top_eq [OF d, of dest n s] by (simp add: memset_def Let_def eax_def c'_def)
qed

text \<open>Two address ranges that no two offsets map to the same physical byte.\<close>

definition separate :: "'a machine_scheme \<Rightarrow> u32 \<Rightarrow> nat \<Rightarrow> u32 \<Rightarrow> nat \<Rightarrow> bool" where
  "separate s a m b n \<longleftrightarrow>
     (\<forall>i<m. \<forall>j<n. translate s (a + of_nat i) = None \<or>
        translate s (a + of_nat i) \<noteq> translate s (b + of_nat j))"

lemma separate_store8: "store8 a b s = Some s' \<Longrightarrow> separate s' c m d n = separate s c m d n"
  by (simp add: separate_def translate_store8)

lemma separate_Suc:
  assumes "separate s a (Suc m) b (Suc n)"
  shows "separate s (a + 1) m (b + 1) n"
  unfolding separate_def
proof (intro allI impI)
  fix i j assume "i < m" "j < n"
  then show "translate s (a + 1 + of_nat i) = None \<or>
      translate s (a + 1 + of_nat i) \<noteq> translate s (b + 1 + of_nat j)"
    using assms [unfolded separate_def, rule_format, of "Suc i" "Suc j"] by (simp add: algebra_simps)
qed

lemma load_bytes_store8:
  assumes "store8 a b s = Some s'"
    and "\<And>j. j < n \<Longrightarrow> translate s (c + of_nat j) \<noteq> translate s a"
  shows "load_bytes s' c n = load_bytes s c n"
  using assms(2)
proof (induction n arbitrary: c)
  case 0
  then show ?case by simp
next
  case (Suc n)
  have "load8 s' c = load8 s c" using Suc.prems [of 0] by (simp add: load8_store8 [OF assms(1)])
  moreover have "load_bytes s' (c + 1) n = load_bytes s (c + 1) n"
  proof (rule Suc.IH)
    fix j assume "j < n"
    then show "translate s (c + 1 + of_nat j) \<noteq> translate s a"
      using Suc.prems [of "Suc j"] by (simp add: algebra_simps)
  qed
  ultimately show ?case by simp
qed

lemma separate_store8_load:
  assumes "separate s a (Suc m) b n" "store8 a v s = Some s'"
  shows "load_bytes s' b n = load_bytes s b n"
  using assms(2)
proof (rule load_bytes_store8)
  fix j assume "j < n"
  moreover obtain p where "translate s a = Some p" using assms(2) by (auto dest: store8_Some)
  ultimately show "translate s (b + of_nat j) \<noteq> translate s a"
    using assms(1) [unfolded separate_def, rule_format, of 0 j] by auto
qed

text \<open>Byte by byte, forward, over separate ranges: load the whole source, store it.\<close>

lemma memcpy_bottom_eq:
  "separate s edi n esi n \<Longrightarrow>
     memcpy_bottom edi esi n s = do { bs \<leftarrow> load_bytes s esi n; store_bytes edi bs s }"
proof (induction n arbitrary: edi esi s)
  case 0
  then show ?case by simp
next
  case (Suc n)
  have sep: "separate s (edi + 1) n (esi + 1) n" using Suc.prems by (rule separate_Suc)
  show ?case
  proof (cases "load8 s esi")
    case (Some al)
    show ?thesis
    proof (cases "store8 edi al s")
      case None
      then show ?thesis using Some by (auto split: Option.bind_split)
    next
      case st: (Some s')
      have "separate s edi (Suc n) (esi + 1) n"
        unfolding separate_def
      proof (intro allI impI)
        fix i j assume "i < Suc n" "j < n"
        then show "translate s (edi + of_nat i) = None \<or>
            translate s (edi + of_nat i) \<noteq> translate s (esi + 1 + of_nat j)"
          using Suc.prems [unfolded separate_def, rule_format, of i "Suc j"] by (simp add: algebra_simps)
      qed
      then have "load_bytes s' (esi + 1) n = load_bytes s (esi + 1) n"
        using st by (rule separate_store8_load)
      moreover have "memcpy_bottom (edi + 1) (esi + 1) n s' =
          do { bs \<leftarrow> load_bytes s' (esi + 1) n; store_bytes (edi + 1) bs s' }"
        by (rule Suc.IH) (use sep separate_store8 [OF st] in simp)
      ultimately show ?thesis using Some st by (auto split: Option.bind_split)
    qed
  qed simp
qed

lemma memcpy_bottom_add:
  "memcpy_bottom edi esi (m + n) s =
     do { s' \<leftarrow> memcpy_bottom edi esi m s; memcpy_bottom (edi + of_nat m) (esi + of_nat m) n s' }"
  by (induction m arbitrary: edi esi s) (auto simp: algebra_simps split: Option.bind_split)

lemma translate_memcpy_bottom:
  "memcpy_bottom edi esi n s = Some s' \<Longrightarrow> translate s' v = translate s v"
  by (induction n arbitrary: edi esi s) (auto simp: bind_Some_iff translate_store8)

lemma separate_shift:
  assumes "separate s a (k + m) b (k + n)"
  shows "separate s (a + of_nat k) m (b + of_nat k) n"
  unfolding separate_def
proof (intro allI impI)
  fix i j assume "i < m" "j < n"
  then show "translate s (a + of_nat k + of_nat i) = None \<or>
      translate s (a + of_nat k + of_nat i) \<noteq> translate s (b + of_nat k + of_nat j)"
    using assms [unfolded separate_def, rule_format, of "k + i" "k + j"] by (simp add: algebra_simps)
qed

lemma separate_mono: "separate s a m b n \<Longrightarrow> m' \<le> m \<Longrightarrow> n' \<le> n \<Longrightarrow> separate s a m' b n'"
  by (auto simp: separate_def)

lemma separate_cong: "(\<And>v. translate t v = translate s v) \<Longrightarrow> separate t a m b n = separate s a m b n"
  by (simp add: separate_def)

lemma rep_movsl_eq:
  "separate s edi (4 * n) esi (4 * n) \<Longrightarrow>
     rep_movsl edi esi n s =
       map_option (\<lambda>s'. (edi + 4 * of_nat n, esi + 4 * of_nat n, s')) (memcpy_bottom edi esi (4 * n) s)"
proof (induction n arbitrary: edi esi s)
  case 0
  then show ?case by simp
next
  case (Suc n)
  have four: "do { bs \<leftarrow> load_bytes s esi 4; store_bytes edi bs s } = memcpy_bottom edi esi 4 s"
    by (rule memcpy_bottom_eq [symmetric]) (use Suc.prems in \<open>auto intro: separate_mono\<close>)
  have IH: "rep_movsl (edi + 4) (esi + 4) n t =
      map_option (\<lambda>s'. (edi + 4 + 4 * of_nat n, esi + 4 + 4 * of_nat n, s'))
        (memcpy_bottom (edi + 4) (esi + 4) (4 * n) t)"
    if "memcpy_bottom edi esi 4 s = Some t" for t
    by (rule Suc.IH)
      (use Suc.prems separate_shift [of s edi 4 "4 * n" esi "4 * n"] in
        \<open>simp add: separate_cong [OF translate_memcpy_bottom [OF that]] algebra_simps\<close>)
  have "rep_movsl edi esi (Suc n) s =
      do { s' \<leftarrow> memcpy_bottom edi esi 4 s; rep_movsl (edi + 4) (esi + 4) n s' }"
    by (simp flip: four)
  also have "\<dots> = do { s' \<leftarrow> memcpy_bottom edi esi 4 s;
      map_option (\<lambda>s'. (edi + 4 + 4 * of_nat n, esi + 4 + 4 * of_nat n, s'))
        (memcpy_bottom (edi + 4) (esi + 4) (4 * n) s') }"
    by (cases "memcpy_bottom edi esi 4 s") (auto simp: IH)
  finally show ?case
    using memcpy_bottom_add [of edi esi 4 "4 * n" s]
    by (cases "memcpy_bottom edi esi 4 s") (auto simp: algebra_simps)
qed

lemma memcpy_aligned_eq:
  assumes "separate s edi n esi n"
  shows "memcpy_aligned edi esi n s = memcpy_bottom edi esi n s"
proof -
  obtain q r where qr: "n div 4 = q" "n mod 4 = r" "n = 4 * q + r"
    by (metis mult_div_mod_eq)
  have "separate s edi (4 * q) esi (4 * q)"
    using assms by (rule separate_mono) (simp_all add: qr(3))
  then show ?thesis
    unfolding memcpy_aligned_def qr(1,2) unfolding qr(3) memcpy_bottom_add
    by (auto simp: rep_movsl_eq split: Option.bind_split)
qed

lemma memcpy_top_eq:
  "separate s edi n esi n \<Longrightarrow> memcpy_top edi esi n s = memcpy_bottom edi esi n s"
proof (induction n arbitrary: edi esi s)
  case 0
  then show ?case by simp
next
  case (Suc n)
  have "memcpy_top (edi + 1) (esi + 1) n t = memcpy_bottom (edi + 1) (esi + 1) n t"
    if "store8 edi v s = Some t" for v t
    by (rule Suc.IH) (use separate_Suc [OF Suc.prems] separate_store8 [OF that] in simp)
  then show ?case using memcpy_aligned_eq [OF Suc.prems] by (auto split: Option.bind_split)
qed

lemma memcpy_eq:
  assumes "separate s dest n src n"
  shows "memcpy dest src n s = do { bs \<leftarrow> load_bytes s src n; store_bytes dest bs s }"
  using assms by (simp add: memcpy_def memcpy_top_eq memcpy_bottom_eq)

subsection \<open>\<open>strncpy\<close>: the string, cut or padded to \<open>n\<close> bytes\<close>

definition padded :: "nat \<Rightarrow> u8 list \<Rightarrow> u8 list" where
  "padded n bs = (let xs = takeWhile (\<lambda>c. c \<noteq> 0) (take n bs) in xs @ replicate (n - length xs) 0)"

lemma length_padded [simp]: "length (padded n bs) = n"
proof -
  have "length (takeWhile (\<lambda>c. c \<noteq> 0) (take n bs)) \<le> n"
    by (metis length_take length_takeWhile_le min.boundedE)
  then show ?thesis by (simp add: padded_def Let_def)
qed

lemma strncpy_pad_eq:
  "i \<le> n \<Longrightarrow> strncpy_pad dest n i s = store_bytes (dest + of_nat i) (replicate (n - i) 0) s"
proof (induction "n - i" arbitrary: i s)
  case 0
  then show ?case by (simp add: strncpy_pad.simps)
next
  case (Suc k)
  then have "i < n" "k = n - Suc i"
    and rep: "replicate (n - i) (0::u8) = 0 # replicate (n - Suc i) 0"
    by (simp_all flip: replicate_Suc add: Suc_diff_Suc)
  then show ?case
    using Suc.hyps(1) [of "Suc i"] unfolding rep
    by (subst strncpy_pad.simps) (auto simp: algebra_simps split: Option.bind_split)
qed

lemma strncpy_copy_eq:
  assumes "load_bytes s (src + of_nat i) (Suc (n - i)) = Some bs" "i \<le> n"
    and "separate s (dest + of_nat i) (n - i) (src + of_nat i) (Suc (n - i))"
  shows "strncpy_copy dest src n i s =
     (let xs = takeWhile (\<lambda>c. c \<noteq> 0) (take (n - i) bs)
      in map_option (\<lambda>s'. (i + length xs, s')) (store_bytes (dest + of_nat i) xs s))"
  using assms
proof (induction "n - i" arbitrary: i s bs)
  case 0
  then show ?case by (auto simp: strncpy_copy.simps [of _ _ _ i] bind_Some_iff)
next
  case (Suc k)
  then have lt: "i < n" and k: "k = n - Suc i" by simp_all
  then have ni: "n - i = Suc (n - Suc i)" by simp
  from Suc.prems(1) obtain c cs where c: "load8 s (src + of_nat i) = Some c" and bs: "bs = c # cs"
    and cs: "load_bytes s (src + of_nat i + 1) (Suc (n - Suc i)) = Some cs"
    by (auto simp: ni bind_Some_iff simp del: load_bytes.simps(2))
      (auto simp: load_bytes.simps(2) [of s _ "Suc (n - Suc i)"] bind_Some_iff)
  show ?case
  proof (cases "c = 0")
    case True
    then show ?thesis using c bs ni by (simp add: strncpy_copy.simps [of _ _ _ i])
  next
    case nz: False
    have sep: "separate s (dest + of_nat (Suc i)) (n - Suc i) (src + of_nat (Suc i)) (Suc (n - Suc i))"
      using separate_Suc [OF Suc.prems(3) [unfolded ni]] by (simp add: algebra_simps)
    show ?thesis
    proof (cases "store8 (dest + of_nat i) c s")
      case None
      then show ?thesis using nz c lt bs ni by (simp add: strncpy_copy.simps [of _ _ _ i] Let_def)
    next
      case (Some t)
      have "load_bytes t (src + of_nat (Suc i)) (Suc (n - Suc i)) =
          load_bytes s (src + of_nat (Suc i)) (Suc (n - Suc i))"
      proof (rule load_bytes_store8 [OF Some])
        fix j assume "j < Suc (n - Suc i)"
        then have "j < n - i" using lt by linarith
        moreover obtain p where "translate s (dest + of_nat i) = Some p"
          using Some by (auto dest: store8_Some)
        ultimately show "translate s (src + of_nat (Suc i) + of_nat j) \<noteq> translate s (dest + of_nat i)"
          using Suc.prems(3) [unfolded separate_def, rule_format, of 0 "Suc j"] lt
          by (auto simp: algebra_simps)
      qed
      then have "strncpy_copy dest src n (Suc i) t =
          (let xs = takeWhile (\<lambda>c. c \<noteq> 0) (take (n - Suc i) cs)
           in map_option (\<lambda>s'. (Suc i + length xs, s')) (store_bytes (dest + of_nat (Suc i)) xs t))"
        by (intro Suc.hyps(1)) (use k lt cs sep separate_store8 [OF Some] in \<open>auto simp: algebra_simps\<close>)
      then show ?thesis
        using nz c lt bs ni Some
        by (subst strncpy_copy.simps) (simp add: Let_def algebra_simps)
    qed
  qed
qed

lemma strncpy_eq:
  assumes "load_bytes s src (Suc n) = Some bs" and "separate s dest n src (Suc n)"
  shows "strncpy dest src n s = store_bytes dest (padded n bs) s"
proof -
  let ?xs = "takeWhile (\<lambda>c. c \<noteq> 0) (take n bs)"
  have "length ?xs \<le> n"
    by (metis length_take length_takeWhile_le min.boundedE)
  then have pad: "strncpy_pad dest n (length ?xs) t =
      store_bytes (dest + of_nat (length ?xs)) (replicate (n - length ?xs) 0) t" for t
    by (rule strncpy_pad_eq)
  have "strncpy_copy dest src n 0 s =
      map_option (\<lambda>s'. (length ?xs, s')) (store_bytes dest ?xs s)"
    using strncpy_copy_eq [of s src 0 n bs dest] assms by (simp add: Let_def del: load_bytes.simps)
  then show ?thesis
    by (auto simp: strncpy_def padded_def Let_def store_bytes_append pad split: Option.bind_split)
qed

subsection \<open>Reversal\<close>

lemma strrev_loop_eq:
  "strrev_loop (as @ mid @ bs) (length as) (int (length as) + int (length mid) - 1) =
     Some (as @ rev mid @ bs)"
proof (induction "length mid" arbitrary: as mid bs rule: less_induct)
  case less
  show ?case
  proof (cases "length mid < 2")
    case True
    then have "rev mid = mid" by (cases mid) auto
    then show ?thesis using True by (subst strrev_loop.simps) auto
  next
    case False
    then obtain x m y where mid: "mid = x # m @ [y]"
      by (metis append_butlast_last_id length_Cons lessI list.exhaust list.size(3) numeral_2_eq_2
          not_less_eq zero_less_Suc length_0_conv append_Nil not_less One_nat_def)
    let ?a = "length as" and ?n = "length m"
    have g1: "buf_get (as @ mid @ bs) (?a + Suc ?n) = Some y"
      and g2: "buf_get (as @ mid @ bs) ?a = Some x"
      by (simp_all add: mid nth_append)
    have s1: "buf_set (as @ mid @ bs) (?a + Suc ?n) x = Some (as @ (x # m @ [x]) @ bs)"
      by (simp add: mid list_update_append)
    have s2: "buf_set (as @ (x # m @ [x]) @ bs) ?a y = Some ((as @ [y]) @ m @ (x # bs))"
      by (simp add: list_update_append)
    have "strrev_loop ((as @ [y]) @ m @ (x # bs)) (length (as @ [y])) (int (length (as @ [y])) + int ?n - 1)
        = Some ((as @ [y]) @ rev m @ (x # bs))"
      by (rule less) (simp add: mid)
    moreover have "nat (int ?a + int (length mid) - 1) = ?a + Suc ?n" by (simp add: mid nat_add_distrib)
    ultimately show ?thesis
      using g1 g2 s1 s2 by (subst strrev_loop.simps) (simp add: mid algebra_simps)
  qed
qed

lemma c_string_buf_get: "0 \<notin> set xs \<Longrightarrow> c_string (buf_get (xs @ 0 # ys)) xs"
  by (simp add: c_string_def buf_get_def nth_append)

lemma strrev_eq: "0 \<notin> set xs \<Longrightarrow> strrev (xs @ 0 # ys) = Some (rev xs @ 0 # ys)"
  using strrev_loop_eq [of "[]" xs "0 # ys"]
  by (simp add: strrev_def strlen_c_string [OF c_string_buf_get])

subsection \<open>\<open>itoa\<close> prints the number in the given base\<close>

fun digits_lsb :: "nat \<Rightarrow> nat \<Rightarrow> nat list" where
  "digits_lsb r v = (if v = 0 \<or> r < 2 then [] else v mod r # digits_lsb r (v div r))"

declare digits_lsb.simps [simp del]

lemma digits_lsb_0 [simp]: "digits_lsb r 0 = []"
  by (simp add: digits_lsb.simps)

lemma digits_lsb_pos: "0 < v \<Longrightarrow> 2 \<le> r \<Longrightarrow> digits_lsb r v = v mod r # digits_lsb r (v div r)"
  by (simp add: digits_lsb.simps)

lemma digits_lsb_less: "d \<in> set (digits_lsb r v) \<Longrightarrow> d < r"
  by (induction r v rule: digits_lsb.induct)
    (subst (asm) (2) digits_lsb.simps, auto split: if_splits)

lemma digits_lsb_value: "2 \<le> r \<Longrightarrow> foldr (\<lambda>d acc. acc * r + d) (digits_lsb r v) 0 = v"
  by (induction r v rule: digits_lsb.induct) (subst digits_lsb.simps, auto)

lemma length_digits_lsb: "2 \<le> r \<Longrightarrow> v < r ^ n \<Longrightarrow> length (digits_lsb r v) \<le> n"
proof (induction n arbitrary: v)
  case 0
  then show ?case by simp
next
  case (Suc n)
  then have "v div r < r ^ n" by (simp add: less_mult_imp_div_less mult.commute)
  then show ?case using Suc by (subst digits_lsb.simps) auto
qed

definition digit_char :: "nat \<Rightarrow> u8" where
  "digit_char d = itoa_lookup ! d"

lemma length_itoa_lookup [simp]: "length itoa_lookup = 36"
  by (simp add: itoa_lookup_def)

lemma digit_char_nonzero: "d < 36 \<Longrightarrow> digit_char d \<noteq> 0"
proof -
  have "list_all (\<lambda>c. c \<noteq> 0) itoa_lookup" by (simp add: itoa_lookup_def)
  then show "d < 36 \<Longrightarrow> digit_char d \<noteq> 0"
    by (simp add: digit_char_def list_all_length)
qed

lemma itoa_digits_eq:
  assumes "2 \<le> unat r" "unat r \<le> 36"
  shows "k + length (digits_lsb (unat r) (unat v)) \<le> length buf \<Longrightarrow>
     itoa_digits v buf k r =
       (let ds = digits_lsb (unat r) (unat v)
        in Some (take k buf @ map digit_char ds @ drop (k + length ds) buf, k + length ds))"
proof (induction "unat v" arbitrary: v buf k rule: less_induct)
  case less
  show ?case
  proof (cases "v = 0")
    case True
    then show ?thesis by (simp add: itoa_digits.simps)
  next
    case False
    then have v0: "0 < unat v" "v > 0" by (auto simp: unat_gt_0 word_neq_0_conv)
    let ?ds = "digits_lsb (unat r) (unat (v div r))"
    have ds: "digits_lsb (unat r) (unat v) = (unat v mod unat r) # ?ds"
      using v0 assms by (simp add: digits_lsb_pos unat_div)
    have "unat v mod unat r < unat r" by (rule mod_less_divisor) (use assms in linarith)
    then have "unat v mod unat r < 36" using assms by linarith
    then have c: "buf_get (itoa_lookup @ [0]) (unat (v mod r)) = Some (digit_char (unat v mod unat r))"
      by (simp add: unat_mod nth_append digit_char_def)
    have k: "k < length buf" using less.prems ds by simp
    let ?buf = "buf[k := digit_char (unat v mod unat r)]"
    have smaller: "unat (v div r) < unat v" using v0 assms by (simp add: unat_div)
    have "itoa_digits (v div r) ?buf (k + 1) r =
        Some (take (k + 1) ?buf @ map digit_char ?ds @ drop (k + 1 + length ?ds) ?buf, k + 1 + length ?ds)"
      using less.hyps [OF smaller, of "k + 1" ?buf] less.prems ds by (simp add: Let_def)
    moreover have "r \<noteq> 0" using assms by auto
    ultimately show ?thesis
      using v0 c k ds by (subst itoa_digits.simps) (simp add: Let_def take_Suc_conv_app_nth)
  qed
qed

text \<open>The printed string: the digits, most significant first, and a single 0 for zero.\<close>

definition numeral_string :: "nat \<Rightarrow> nat \<Rightarrow> u8 list" where
  "numeral_string r v = (if v = 0 then [48] else map digit_char (rev (digits_lsb r v)))"

lemma numeral_string_nonzero:
  assumes "r \<le> 36" shows "0 \<notin> set (numeral_string r v)"
proof -
  have "0 \<noteq> digit_char d" if "d \<in> set (digits_lsb r v)" for d
    using digit_char_nonzero [of d] digits_lsb_less [OF that] assms by simp
  then show ?thesis by (auto simp: numeral_string_def)
qed

lemma length_numeral_string:
  "2 \<le> r \<Longrightarrow> v < r ^ n \<Longrightarrow> 0 < n \<Longrightarrow> length (numeral_string r v) \<le> n"
  using length_digits_lsb [of r v n] by (auto simp: numeral_string_def)

lemma itoa_eq:
  assumes r: "2 \<le> unat r" "unat r \<le> 36"
    and room: "length (numeral_string (unat r) (unat v)) < length buf"
  shows "itoa v buf r =
     Some (numeral_string (unat r) (unat v) @ 0 # drop (Suc (length (numeral_string (unat r) (unat v)))) buf)"
proof (cases "v = 0")
  case True
  then obtain x y zs where "buf = x # y # zs"
    using room by (cases buf; cases "tl buf") (auto simp: numeral_string_def)
  then show ?thesis using True by (simp add: itoa_def numeral_string_def)
next
  case False
  then have nz: "unat v \<noteq> 0" by (simp add: unat_eq_0)
  let ?ds = "digits_lsb (unat r) (unat v)"
  let ?n = "length ?ds"
  have n: "?n < length buf" using room nz by (simp add: numeral_string_def)
  have digs: "itoa_digits v buf 0 r = Some (map digit_char ?ds @ drop ?n buf, ?n)"
    using itoa_digits_eq [OF r, of 0 v buf] n by (simp add: Let_def)
  obtain x zs where "drop ?n buf = x # zs" using n by (cases "drop ?n buf") auto
  then have dr: "drop ?n buf = x # drop (Suc ?n) buf" by (metis drop_Suc tl_drop list.sel(3))
  then have "buf_set (map digit_char ?ds @ drop ?n buf) ?n 0 = Some (map digit_char ?ds @ 0 # drop (Suc ?n) buf)"
    by (simp add: list_update_append)
  moreover have "0 \<notin> set (map digit_char ?ds)"
    using numeral_string_nonzero [of "unat r" "unat v"] r nz by (simp add: numeral_string_def)
  ultimately show ?thesis
    using False nz digs strrev_eq by (simp add: itoa_def numeral_string_def rev_map)
qed

text \<open>Only the numeral of zero starts with the digit 0.\<close>

lemma digit_char_zero: "d < 36 \<Longrightarrow> (digit_char d = 48) = (d = 0)"
proof -
  have "distinct itoa_lookup" "itoa_lookup ! 0 = 48" by (simp_all add: itoa_lookup_def)
  then show "d < 36 \<Longrightarrow> ?thesis"
    using nth_eq_iff_index_eq [of itoa_lookup d 0] by (simp add: digit_char_def)
qed

lemma digits_lsb_last: "2 \<le> r \<Longrightarrow> 0 < v \<Longrightarrow> last (digits_lsb r v) \<noteq> 0"
proof (induction r v rule: digits_lsb.induct)
  case (1 r v)
  then show ?case
    by (cases "v < r") (auto simp: digits_lsb_pos div_greater_zero_iff)
qed

lemma numeral_string_zero:
  assumes "2 \<le> r" "r \<le> 36" "hd (numeral_string r v) = 48" shows "numeral_string r v = [48]"
proof (cases "v = 0")
  case False
  then have ne: "digits_lsb r v \<noteq> []" using assms(1) by (simp add: digits_lsb_pos)
  then have "last (digits_lsb r v) < 36" using digits_lsb_less [of _ r v] assms(2) last_in_set by fastforce
  then show ?thesis
    using assms False ne digits_lsb_last [of r v] digit_char_zero [of "last (digits_lsb r v)"]
    by (simp add: numeral_string_def hd_map hd_rev)
qed (simp add: numeral_string_def)

text \<open>Reading a numeral back.\<close>

definition char_digit :: "u8 \<Rightarrow> nat" where
  "char_digit c = length (takeWhile (\<lambda>d. d \<noteq> c) itoa_lookup)"

definition parse_numeral :: "nat \<Rightarrow> u8 list \<Rightarrow> nat" where
  "parse_numeral r cs = foldl (\<lambda>acc c. acc * r + char_digit c) 0 cs"

lemma char_digit_char: "d < 36 \<Longrightarrow> char_digit (digit_char d) = d"
proof -
  have "distinct itoa_lookup" by (simp add: itoa_lookup_def)
  then show "d < 36 \<Longrightarrow> char_digit (digit_char d) = d"
    by (simp add: char_digit_def digit_char_def takeWhile_nth_distinct)
qed

lemma parse_numeral_string:
  assumes "2 \<le> r" "r \<le> 36" shows "parse_numeral r (numeral_string r v) = v"
proof (cases "v = 0")
  case True
  have "char_digit 48 = 0" by (simp add: char_digit_def itoa_lookup_def)
  then show ?thesis using True by (simp add: parse_numeral_def numeral_string_def)
next
  case False
  have "foldr (\<lambda>d acc. acc * r + char_digit (digit_char d)) ds 0 = foldr (\<lambda>d acc. acc * r + d) ds (0 :: nat)"
    if "\<forall>d\<in>set ds. d < 36" for ds
    using that by (induction ds) (simp_all add: char_digit_char)
  moreover have "\<forall>d\<in>set (digits_lsb r v). d < 36" using digits_lsb_less assms(2) by fastforce
  ultimately show ?thesis
    using False digits_lsb_value [OF assms(1)]
    by (simp add: parse_numeral_def numeral_string_def foldl_conv_foldr rev_map foldr_map o_def)
qed

end
