(* ===== verification/Console.thy ===== *)
theory Console
  imports CLib
begin

text \<open>
  The text console of lib.c: the cursor, the character cells in video memory, \<open>putc\<close>,
  \<open>puts\<close> and \<open>printf\<close>. \<open>video_mem\<close> points at the screen that is drawn to: the
  visible page at 0xB8000 or the save page of a terminal in the background. All four pages
  are mapped onto themselves by \<open>paging_init\<close> (theory Paging), so the model writes the
  physical byte directly.
\<close>

abbreviation (input) NUM_COLS :: int where "NUM_COLS \<equiv> 80"
abbreviation (input) NUM_ROWS :: int where "NUM_ROWS \<equiv> 25"
abbreviation (input) ATTRIB :: u8 where "ATTRIB \<equiv> 0x7"

record console = machine +
  screen_x :: int
  screen_y :: int
  video_mem :: u32

definition poke :: "u32 \<Rightarrow> u8 \<Rightarrow> 'a machine_scheme \<Rightarrow> 'a machine_scheme" where
  "poke a b s = s\<lparr>phys := (phys s)(a := b)\<rparr>"

text \<open>Address of cell \<open>i\<close> of the screen: \<open>video_mem + (i << 1)\<close>.\<close>

definition cell :: "'a console_scheme \<Rightarrow> int \<Rightarrow> u32" where
  "cell s i = video_mem s + word_of_int (i * 2)"

definition put_cell :: "int \<Rightarrow> u8 \<Rightarrow> 'a console_scheme \<Rightarrow> 'a console_scheme" where
  "put_cell i c s = poke (cell s i + 1) ATTRIB (poke (cell s i) c s)"

definition update_cursor_position :: "'a console_scheme \<Rightarrow> 'a console_scheme" where
  "update_cursor_position s =
     (let pos = (word_of_int (screen_y s * NUM_COLS + screen_x s) :: u16)
      in outb (ucast (drop_bit 8 pos AND 0xFF)) 0x3D5
         (outb 0x0E 0x3D4
         (outb (ucast (pos AND 0xFF)) 0x3D5
         (outb 0x0F 0x3D4 s))))"

fun fill_cells :: "nat \<Rightarrow> nat \<Rightarrow> 'a console_scheme \<Rightarrow> 'a console_scheme" where
  "fill_cells i 0 s = s"
| "fill_cells i (Suc k) s = fill_cells (Suc i) k (put_cell (int i) 32 s)"

definition clear :: "'a console_scheme \<Rightarrow> 'a console_scheme" where
  "clear s = update_cursor_position ((fill_cells 0 (25 * 80) s)\<lparr>screen_x := 0, screen_y := 0\<rparr>)"

text \<open>The copy loop runs over rows and columns; cell \<open>i * NUM_COLS + k\<close> takes the character
  of the cell one row below.\<close>

fun scroll_cells :: "nat \<Rightarrow> nat \<Rightarrow> 'a console_scheme \<Rightarrow> 'a console_scheme" where
  "scroll_cells i 0 s = s"
| "scroll_cells i (Suc k) s =
     scroll_cells (Suc i) k (put_cell (int i) (phys s (cell s (int i + NUM_COLS))) s)"

definition scroll_up :: "'a console_scheme \<Rightarrow> 'a console_scheme" where
  "scroll_up s = fill_cells (24 * 80) 80 (scroll_cells 0 (24 * 80) s)"

definition get_video_mem :: "'a console_scheme \<Rightarrow> u32" where
  "get_video_mem s = video_mem s"

definition set_video_mem :: "u32 \<Rightarrow> 'a console_scheme \<Rightarrow> 'a console_scheme" where
  "set_video_mem video s = s\<lparr>video_mem := video\<rparr>"

definition get_cursor :: "'a console_scheme \<Rightarrow> int \<times> int" where
  "get_cursor s = (screen_x s, screen_y s)"

definition set_cursor :: "int \<Rightarrow> int \<Rightarrow> 'a console_scheme \<Rightarrow> 'a console_scheme" where
  "set_cursor x y s =
     update_cursor_position (s\<lparr>screen_x := x smod NUM_COLS, screen_y := y smod NUM_COLS\<rparr>)"

text \<open>The character codes \<open>putc\<close> distinguishes: newline, carriage return, backspace.\<close>

definition putc :: "u8 \<Rightarrow> 'a console_scheme \<Rightarrow> 'a console_scheme" where
  "putc c s =
     (if c = 10 \<or> c = 13 then
        let s = s\<lparr>screen_y := screen_y s + 1\<rparr>;
            s = (if screen_y s \<ge> NUM_ROWS then (scroll_up s)\<lparr>screen_y := NUM_ROWS - 1\<rparr> else s)
        in s\<lparr>screen_x := 0\<rparr>
      else if c = 8 then
        let s = s\<lparr>screen_x := screen_x s - 1\<rparr>
        in if screen_x s < 0 then
             let s = s\<lparr>screen_y := screen_y s - 1, screen_x := NUM_COLS - 1\<rparr>
             in if screen_y s < 0 then s\<lparr>screen_y := 0, screen_x := 0\<rparr> else s
           else s
      else
        let s = put_cell (NUM_COLS * screen_y s + screen_x s) c s;
            s = s\<lparr>screen_x := screen_x s + 1\<rparr>;
            s = (if (screen_y s + screen_x s sdiv NUM_COLS) sdiv NUM_ROWS \<noteq> 0 then scroll_up s
                 else s\<lparr>screen_y := (screen_y s + screen_x s sdiv NUM_COLS) smod NUM_ROWS\<rparr>)
        in s\<lparr>screen_x := screen_x s smod NUM_COLS\<rparr>)"

text \<open>\<open>puts\<close> on the bytes of a string (up to its NUL), one \<open>putc\<close> each.\<close>

fun putcs :: "u8 list \<Rightarrow> 'a console_scheme \<Rightarrow> 'a console_scheme" where
  "putcs [] s = s"
| "putcs (c # cs) s = putcs cs (putc c s)"

definition puts :: "u8 list \<Rightarrow> 'a console_scheme \<Rightarrow> int \<times> 'a console_scheme" where
  "puts str s =
     (let cs = takeWhile (\<lambda>c. c \<noteq> 0) str
      in (int (length cs), update_cursor_position (putcs cs s)))"

subsection \<open>\<open>printf\<close>\<close>

text \<open>
  The variable arguments are the words above \<open>format\<close> on the stack. A word is read as a
  number, or (\<open>%s\<close>) as the address of a string, given here by its bytes. Reading an argument
  that was not passed, or running past the end of the format string after a trailing
  \<open>%\<close>, has no defined result: \<open>None\<close>.
\<close>

datatype printf_arg = ArgWord u32 | ArgStr "u8 list"

definition hex8 :: "u32 \<Rightarrow> u8 list option" where
  "hex8 w = do {
     low \<leftarrow> itoa w (replicate 56 0) 16;
     i \<leftarrow> strlen (buf_get low);
     Some (drop i (replicate (min i 8) 0 @ replicate (8 - i) 48 @ low))
   }"

definition format_decimal :: "u32 \<Rightarrow> u8 list option" where
  "format_decimal w =
     (if sint w < 0
      then do { b \<leftarrow> itoa (- w) (replicate 35 0) 10; Some (45 # b) }
      else itoa w (replicate 36 0) 10)"

text \<open>One conversion after \<open>%\<close>, with the alternate flag: what is printed and the arguments
  left.\<close>

fun convert :: "bool \<Rightarrow> u8 \<Rightarrow> printf_arg list \<Rightarrow> 'a console_scheme
    \<Rightarrow> (printf_arg list \<times> 'a console_scheme) option" where
  "convert alt c args s =
     (if c = 37 then Some (args, putc 37 s)
      else if c = 120 then
        (case args of ArgWord w # rest \<Rightarrow> do {
             b \<leftarrow> (if alt then hex8 w else itoa w (replicate 64 0) 16);
             Some (rest, snd (puts b s)) }
         | _ \<Rightarrow> None)
      else if c = 117 then
        (case args of ArgWord w # rest \<Rightarrow> do {
             b \<leftarrow> itoa w (replicate 36 0) 10; Some (rest, snd (puts b s)) }
         | _ \<Rightarrow> None)
      else if c = 100 then
        (case args of ArgWord w # rest \<Rightarrow> do {
             b \<leftarrow> format_decimal w; Some (rest, snd (puts b s)) }
         | _ \<Rightarrow> None)
      else if c = 99 then
        (case args of ArgWord w # rest \<Rightarrow> Some (rest, putc (ucast w) s) | _ \<Rightarrow> None)
      else if c = 115 then
        (case args of ArgStr str # rest \<Rightarrow> Some (rest, snd (puts str s)) | _ \<Rightarrow> None)
      else Some (args, s))"

fun printf_spec :: "bool \<Rightarrow> u8 list \<Rightarrow> printf_arg list \<Rightarrow> 'a console_scheme
    \<Rightarrow> (u8 list \<times> printf_arg list \<times> 'a console_scheme) option" where
  "printf_spec alt [] args s = None"
| "printf_spec alt (c # cs) args s =
     (if c = 35 then printf_spec True cs args s
      else map_option (\<lambda>(args', s'). (cs, args', s')) (convert alt c args s))"

lemma printf_spec_shorter:
  "printf_spec alt cs args s = Some (cs', args', s') \<Longrightarrow> length cs' < length cs"
  by (induction alt cs args s rule: printf_spec.induct) (auto split: if_splits)

function printf_loop :: "u8 list \<Rightarrow> printf_arg list \<Rightarrow> 'a console_scheme \<Rightarrow> 'a console_scheme option" where
  "printf_loop [] args s = Some s"
| "printf_loop (c # cs) args s =
     (if c = 37 then
        case printf_spec False cs args s of
          None \<Rightarrow> None
        | Some (cs', args', s') \<Rightarrow> printf_loop cs' args' s'
      else printf_loop cs args (putc c s))"
  by pat_completeness auto
termination
  by (relation "measure (\<lambda>(cs, args, s). length cs)") (auto dest: printf_spec_shorter)

definition printf :: "u8 list \<Rightarrow> printf_arg list \<Rightarrow> 'a console_scheme \<Rightarrow> (int \<times> 'a console_scheme) option" where
  "printf fmt args s =
     map_option (\<lambda>s'. (int (length fmt), update_cursor_position s')) (printf_loop fmt args s)"

definition test_interrupts :: "'a console_scheme \<Rightarrow> 'a console_scheme" where
  "test_interrupts s =
     foldl (\<lambda>s i. poke (cell s (int i)) (phys s (cell s (int i)) + 1) s) s [0..<25 * 80]"

subsection \<open>The cells of a screen\<close>

lemma word_of_int_u32_eq_iff:
  assumes "0 \<le> a" "a < 2 ^ 32" "0 \<le> b" "b < 2 ^ 32"
  shows "((word_of_int a :: u32) = word_of_int b) = (a = b)"
  unfolding word_of_int_eq_iff using assms by (simp add: take_bit_int_eq_self)

lemma cell_eq_iff:
  assumes "0 \<le> i" "i < 2 ^ 30" "0 \<le> j" "j < 2 ^ 30"
  shows "(cell s i = cell s j) = (i = j)"
  using assms word_of_int_u32_eq_iff [of "i * 2" "j * 2"] by (simp add: cell_def)

lemma cell_Suc_eq_iff:
  assumes "0 \<le> i" "i < 2 ^ 30" "0 \<le> j" "j < 2 ^ 30"
  shows "(cell s i + 1 = cell s j + 1) = (i = j)"
  using cell_eq_iff [OF assms, of s] by simp

lemma cell_neq_attr:
  assumes "0 \<le> i" "i < 2 ^ 30" "0 \<le> j" "j < 2 ^ 30"
  shows "cell s i \<noteq> cell s j + 1" and "cell s j + 1 \<noteq> cell s i"
proof -
  have "i * 2 \<noteq> j * 2 + 1" by presburger
  then have "(word_of_int (i * 2) :: u32) \<noteq> word_of_int (j * 2 + 1)"
    using assms word_of_int_u32_eq_iff [of "i * 2" "j * 2 + 1"] by simp
  then have "(word_of_int (i * 2) :: u32) \<noteq> word_of_int (j * 2) + 1" by simp
  then show "cell s i \<noteq> cell s j + 1" by (simp add: cell_def add.assoc)
  then show "cell s j + 1 \<noteq> cell s i" by metis
qed

lemma cell_update [simp]:
  "cell (poke a b s) i = cell s i" "cell (put_cell j c s) i = cell s i"
  by (simp_all add: cell_def poke_def put_cell_def)

lemma phys_poke: "phys (poke a b s) = (phys s)(a := b)"
  by (simp add: poke_def)

lemma phys_put_cell:
  "phys (put_cell i c s) = (phys s)(cell s i := c, cell s i + 1 := ATTRIB)"
  by (simp add: put_cell_def phys_poke)

text \<open>Drawing never moves the cursor or the screen, and touches nothing else of the state.\<close>

definition same_but_phys :: "'a console_scheme \<Rightarrow> 'a console_scheme \<Rightarrow> bool" where
  "same_but_phys s t \<longleftrightarrow> (\<exists>f. t = s\<lparr>phys := f\<rparr>)"

lemma same_but_phys_refl [simp]: "same_but_phys s s"
  by (auto simp: same_but_phys_def intro: exI [of _ "phys s"])

lemma same_but_phys_trans: "same_but_phys s t \<Longrightarrow> same_but_phys t u \<Longrightarrow> same_but_phys s u"
  by (auto simp: same_but_phys_def)

lemma same_but_phys_put_cell [simp]: "same_but_phys s (put_cell i c s)"
  by (auto simp: same_but_phys_def put_cell_def poke_def)

lemma same_but_phys_fill [simp]: "same_but_phys s (fill_cells i k s)"
  by (induction i k s rule: fill_cells.induct)
    (auto intro: same_but_phys_trans [OF same_but_phys_put_cell])

lemma same_but_phys_scroll_cells [simp]: "same_but_phys s (scroll_cells i k s)"
  by (induction i k s rule: scroll_cells.induct)
    (auto intro: same_but_phys_trans [OF same_but_phys_put_cell])

lemma same_but_phys_scroll [simp]: "same_but_phys s (scroll_up s)"
  unfolding scroll_up_def
  by (rule same_but_phys_trans [OF same_but_phys_scroll_cells same_but_phys_fill])

lemma same_but_phys_fields:
  assumes "same_but_phys s t"
  shows "screen_x t = screen_x s" "screen_y t = screen_y s" "video_mem t = video_mem s"
    and "page_directory t = page_directory s" "page_table_0 t = page_table_0 s"
    and "pt0_addr t = pt0_addr s" "eflags_if t = eflags_if s" "port_out t = port_out s"
    and "cell t i = cell s i"
  using assms by (auto simp: same_but_phys_def cell_def)

text \<open>The characters on the screen, row by row, and the bytes that belong to it.\<close>

definition screen_text :: "'a console_scheme \<Rightarrow> u8 list" where
  "screen_text s = map (\<lambda>i. phys s (cell s (int i))) [0..<2000]"

definition on_screen :: "'a console_scheme \<Rightarrow> u32 \<Rightarrow> bool" where
  "on_screen s a \<longleftrightarrow> (\<exists>j<2000. a = cell s (int j) \<or> a = cell s (int j) + 1)"

lemma length_screen_text [simp]: "length (screen_text s) = 2000"
  by (simp add: screen_text_def)

lemma screen_text_nth: "i < 2000 \<Longrightarrow> screen_text s ! i = phys s (cell s (int i))"
  by (simp add: screen_text_def)

lemma on_screen_same: "same_but_phys s t \<Longrightarrow> on_screen t a = on_screen s a"
  by (simp add: on_screen_def same_but_phys_fields)

lemmas on_screen_drawn [simp] =
  on_screen_same [OF same_but_phys_put_cell] on_screen_same [OF same_but_phys_fill]
  on_screen_same [OF same_but_phys_scroll_cells] on_screen_same [OF same_but_phys_scroll]

lemma screen_text_cong:
  "phys t = phys s \<Longrightarrow> video_mem t = video_mem s \<Longrightarrow> screen_text t = screen_text s"
  by (simp add: screen_text_def cell_def)

lemma screen_text_put_cell [simp]:
  assumes "i < 2000"
  shows "screen_text (put_cell (int i) c s) = (screen_text s)[i := c]"
proof (rule nth_equalityI)
  fix j assume "j < length (screen_text (put_cell (int i) c s))"
  then have "j < 2000" by simp
  then show "screen_text (put_cell (int i) c s) ! j = (screen_text s)[i := c] ! j"
    using assms by (simp add: screen_text_nth nth_list_update phys_put_cell cell_eq_iff cell_neq_attr)
qed simp

lemma phys_put_cell_other:
  "i < 2000 \<Longrightarrow> \<not> on_screen s a \<Longrightarrow> phys (put_cell (int i) c s) a = phys s a"
  by (auto simp: phys_put_cell on_screen_def)

lemma screen_text_fill_cells:
  "i + k \<le> 2000 \<Longrightarrow>
     screen_text (fill_cells i k s) = take i (screen_text s) @ replicate k 32 @ drop (i + k) (screen_text s)"
  by (induction i k s rule: fill_cells.induct) (auto simp: take_Suc_conv_app_nth)

lemma phys_fill_cells_other:
  "i + k \<le> 2000 \<Longrightarrow> \<not> on_screen s a \<Longrightarrow> phys (fill_cells i k s) a = phys s a"
  by (induction i k s rule: fill_cells.induct) (auto simp: phys_put_cell_other)

lemma screen_text_scroll_cells:
  "i + k + 80 \<le> 2000 \<Longrightarrow>
     screen_text (scroll_cells i k s) =
       take i (screen_text s) @ take k (drop (i + 80) (screen_text s)) @ drop (i + k) (screen_text s)"
proof (induction i k s rule: scroll_cells.induct)
  case (1 i s)
  then show ?case by simp
next
  case (2 i k s)
  have "phys s (cell s (int i + NUM_COLS)) = screen_text s ! (i + 80)"
    using "2.prems" by (simp add: screen_text_nth)
  moreover have "drop (i + 80) (screen_text s) = screen_text s ! (i + 80) # drop (Suc (i + 80)) (screen_text s)"
    using "2.prems" by (intro Cons_nth_drop_Suc [symmetric]) simp
  ultimately show ?case
    using 2 by (simp add: take_Suc_conv_app_nth)
qed

lemma phys_scroll_cells_other:
  "i + k + 80 \<le> 2000 \<Longrightarrow> \<not> on_screen s a \<Longrightarrow> phys (scroll_cells i k s) a = phys s a"
  by (induction i k s rule: scroll_cells.induct) (auto simp: phys_put_cell_other)

lemma screen_text_scroll_up:
  "screen_text (scroll_up s) = drop 80 (screen_text s) @ replicate 80 32"
  by (simp add: scroll_up_def screen_text_fill_cells screen_text_scroll_cells)

lemma phys_scroll_up_other: "\<not> on_screen s a \<Longrightarrow> phys (scroll_up s) a = phys s a"
  by (simp add: scroll_up_def phys_fill_cells_other phys_scroll_cells_other)

subsection \<open>The console as a text terminal\<close>

text \<open>What \<open>putc\<close> promises, on the text and the cursor alone.\<close>

type_synonym terminal = "u8 list \<times> nat \<times> nat"

fun terminal_put :: "u8 \<Rightarrow> terminal \<Rightarrow> terminal" where
  "terminal_put c (text, x, y) =
     (let next_line = (\<lambda>text. if y < 24 then (text, 0, y + 1)
                              else (drop 80 text @ replicate 80 32, 0, 24))
      in if c = 10 \<or> c = 13 then next_line text
         else if c = 8 then
           (if 0 < x then (text, x - 1, y) else if 0 < y then (text, 79, y - 1) else (text, 0, 0))
         else if x < 79 then (text[80 * y + x := c], x + 1, y)
         else next_line (text[80 * y + x := c]))"

definition terminal_of :: "'a console_scheme \<Rightarrow> terminal" where
  "terminal_of s = (screen_text s, nat (screen_x s), nat (screen_y s))"

definition cursor_ok :: "'a console_scheme \<Rightarrow> bool" where
  "cursor_ok s \<longleftrightarrow> 0 \<le> screen_x s \<and> screen_x s < 80 \<and> 0 \<le> screen_y s \<and> screen_y s < 25"

lemma put_cell_fields [simp]:
  "screen_x (put_cell i c s) = screen_x s" "screen_y (put_cell i c s) = screen_y s"
  "video_mem (put_cell i c s) = video_mem s"
  by (simp_all add: same_but_phys_fields [OF same_but_phys_put_cell])

lemma scroll_up_fields [simp]:
  "screen_x (scroll_up s) = screen_x s" "screen_y (scroll_up s) = screen_y s"
  "video_mem (scroll_up s) = video_mem s"
  by (simp_all add: same_but_phys_fields [OF same_but_phys_scroll])

lemma screen_text_cursor [simp]:
  "screen_text (s\<lparr>screen_x := x\<rparr>) = screen_text s"
  "screen_text (s\<lparr>screen_y := y\<rparr>) = screen_text s"
  "screen_text (outb d p s) = screen_text s"
  by (simp_all add: screen_text_def cell_def outb_def)

text \<open>The cursor as natural numbers, for case analysis.\<close>

lemma cursor_okE:
  assumes "cursor_ok s"
  obtains x y where "screen_x s = int x" "screen_y s = int y" "x < 80" "y < 25"
  using assms that [of "nat (screen_x s)" "nat (screen_y s)"]
  by (simp add: cursor_ok_def nat_less_iff)

lemma putc_newline:
  assumes "c = 10 \<or> c = 13"
  shows "putc c s =
    (if screen_y s + 1 \<ge> 25 then (scroll_up (s\<lparr>screen_y := screen_y s + 1\<rparr>))\<lparr>screen_y := 24, screen_x := 0\<rparr>
     else s\<lparr>screen_y := screen_y s + 1, screen_x := 0\<rparr>)"
  using assms by (auto simp: putc_def Let_def)

lemma putc_backspace:
  "putc 8 s =
    (if screen_x s - 1 < 0 then
       if screen_y s - 1 < 0 then s\<lparr>screen_x := 0, screen_y := 0\<rparr>
       else s\<lparr>screen_x := 79, screen_y := screen_y s - 1\<rparr>
     else s\<lparr>screen_x := screen_x s - 1\<rparr>)"
  by (auto simp: putc_def Let_def)

lemma putc_char:
  assumes "c \<noteq> 10" "c \<noteq> 13" "c \<noteq> 8" and xy: "screen_x s = int x" "screen_y s = int y" "x < 80" "y < 25"
  shows "putc c s =
    (let t = put_cell (int (80 * y + x)) c s
     in if x < 79 then t\<lparr>screen_x := int x + 1\<rparr>
        else if y < 24 then t\<lparr>screen_x := 0, screen_y := int y + 1\<rparr>
        else (scroll_up (t\<lparr>screen_x := 80\<rparr>))\<lparr>screen_x := 0\<rparr>)"
proof -
  have cell_no: "80 * int y + int x = int (80 * y + x)" by simp
  consider "x < 79" | "x = 79" "y < 24" | "x = 79" "y = 24" using xy by linarith
  then show ?thesis
  proof cases
    case 1
    then have "(int x + 1) sdiv 80 = 0" "(int x + 1) smod 80 = int x + 1"
      by (simp_all add: sdiv_nonneg smod_nonneg)
    moreover have "(int y) sdiv 25 = 0" "int y smod 25 = int y"
      using xy by (simp_all add: sdiv_nonneg smod_nonneg)
    ultimately show ?thesis
      using 1 assms(1-3) xy by (simp add: putc_def Let_def cell_no flip: of_nat_add of_nat_mult)
  next
    case 2
    have "(int y + 1) sdiv 25 = 0" "(int y + 1) smod 25 = int y + 1"
      using 2 by (simp_all add: sdiv_nonneg smod_nonneg)
    then show ?thesis
      using 2 assms(1-3) xy by (simp add: putc_def Let_def sdiv_nonneg smod_nonneg)
  next
    case 3
    then show ?thesis
      using assms(1-3) xy by (simp add: putc_def Let_def sdiv_nonneg smod_nonneg)
  qed
qed

lemma terminal_of_putc:
  assumes "cursor_ok s"
  shows "terminal_of (putc c s) = terminal_put c (terminal_of s)"
  using assms
proof (rule cursor_okE)
  fix x y assume xy: "screen_x s = int x" "screen_y s = int y" "x < 80" "y < 25"
  consider "c = 10 \<or> c = 13" | "c = 8" | "c \<noteq> 10" "c \<noteq> 13" "c \<noteq> 8" by blast
  then show ?thesis
  proof cases
    case 1
    then show ?thesis using xy
      by (auto simp: putc_newline terminal_of_def Let_def screen_text_scroll_up nat_add_distrib)
  next
    case 2
    then show ?thesis using xy
      by (auto simp: putc_backspace terminal_of_def Let_def nat_diff_distrib)
  next
    case 3
    have "80 * y + x < 2000" using xy by simp
    then have "screen_text (put_cell (int (80 * y + x)) c s) = (screen_text s)[80 * y + x := c]"
      by (rule screen_text_put_cell)
    then show ?thesis using 3 xy
      by (auto simp: putc_char [OF 3 xy] terminal_of_def Let_def screen_text_scroll_up nat_add_distrib
          simp del: of_nat_add of_nat_mult)
  qed
qed

lemma cursor_ok_putc:
  assumes "cursor_ok s" shows "cursor_ok (putc c s)"
  using assms
proof (rule cursor_okE)
  fix x y assume xy: "screen_x s = int x" "screen_y s = int y" "x < 80" "y < 25"
  consider "c = 10 \<or> c = 13" | "c = 8" | "c \<noteq> 10" "c \<noteq> 13" "c \<noteq> 8" by blast
  then show ?thesis
    by cases (use xy in \<open>auto simp: putc_newline putc_backspace putc_char cursor_ok_def Let_def\<close>)
qed

lemma phys_putc_other:
  assumes "cursor_ok s" "\<not> on_screen s a"
  shows "phys (putc c s) a = phys s a"
  using assms(1)
proof (rule cursor_okE)
  fix x y assume xy: "screen_x s = int x" "screen_y s = int y" "x < 80" "y < 25"
  then have i: "80 * y + x < 2000" by simp
  have other: "\<not> on_screen (t\<lparr>screen_x := u\<rparr>) a \<and> \<not> on_screen (t\<lparr>screen_y := u\<rparr>) a"
    if "\<not> on_screen t a" for t :: "'a console_scheme" and u
    using that by (simp add: on_screen_def cell_def)
  consider "c = 10 \<or> c = 13" | "c = 8" | "c \<noteq> 10" "c \<noteq> 13" "c \<noteq> 8" by blast
  then show ?thesis
    by cases (use xy assms(2) other phys_put_cell_other [OF i assms(2)] in
        \<open>auto simp: putc_newline putc_backspace putc_char Let_def phys_scroll_up_other\<close>)
qed

subsection \<open>Strings and formats\<close>

text \<open>Whatever is printed, only the screen, the cursor and the cursor port are written.\<close>

definition con_rest :: "'a console_scheme \<Rightarrow> 'a console_scheme" where
  "con_rest s = s\<lparr>phys := (\<lambda>_. 0), screen_x := 0, screen_y := 0, port_out := []\<rparr>"

lemma con_rest_simps [simp]:
  "con_rest (s\<lparr>phys := f\<rparr>) = con_rest s" "con_rest (s\<lparr>screen_x := x\<rparr>) = con_rest s"
  "con_rest (s\<lparr>screen_y := y\<rparr>) = con_rest s" "con_rest (s\<lparr>port_out := p\<rparr>) = con_rest s"
  by (simp_all add: con_rest_def)

lemma con_rest_put_cell [simp]: "con_rest (put_cell i c s) = con_rest s"
  by (simp add: put_cell_def poke_def)

lemma con_rest_fill_cells [simp]: "con_rest (fill_cells i k s) = con_rest s"
  by (induction i k s rule: fill_cells.induct) auto

lemma con_rest_scroll_cells [simp]: "con_rest (scroll_cells i k s) = con_rest s"
  by (induction i k s rule: scroll_cells.induct) auto

lemma con_rest_scroll_up [simp]: "con_rest (scroll_up s) = con_rest s"
  by (simp add: scroll_up_def)

lemma con_rest_update_cursor [simp]: "con_rest (update_cursor_position s) = con_rest s"
  by (simp add: update_cursor_position_def outb_def Let_def)

lemma con_rest_putc [simp]: "con_rest (putc c s) = con_rest s"
  by (simp add: putc_def Let_def)

lemma con_rest_clear [simp]: "con_rest (clear s) = con_rest s"
  by (simp add: clear_def)

lemma con_rest_set_cursor [simp]: "con_rest (set_cursor x y s) = con_rest s"
  by (simp add: set_cursor_def)

lemma con_rest_fields:
  assumes "con_rest t = con_rest s"
  shows "video_mem t = video_mem s" "console.more t = console.more s"
    and "page_directory t = page_directory s" "page_table_0 t = page_table_0 s"
    and "pd_addr t = pd_addr s" "pt0_addr t = pt0_addr s" "eflags_if t = eflags_if s"
    and "cr0 t = cr0 s" "cr3 t = cr3 s" "cr4 t = cr4 s" "port_in t = port_in s"
proof -
  have f: "g (con_rest t) = g (con_rest s)" for g :: "'a console_scheme \<Rightarrow> 'b"
    using assms by simp
  show "video_mem t = video_mem s" "console.more t = console.more s"
    "page_directory t = page_directory s" "page_table_0 t = page_table_0 s"
    "pd_addr t = pd_addr s" "pt0_addr t = pt0_addr s" "eflags_if t = eflags_if s"
    "cr0 t = cr0 s" "cr3 t = cr3 s" "cr4 t = cr4 s" "port_in t = port_in s"
    using f [of video_mem] f [of console.more] f [of page_directory] f [of page_table_0]
      f [of pd_addr] f [of pt0_addr] f [of eflags_if] f [of cr0] f [of cr3] f [of cr4] f [of port_in]
    by (simp_all add: con_rest_def)
qed

text \<open>The frame of the printing functions: the rest of the state is untouched, and a cursor
  inside the screen stays inside, with no byte outside the screen written.\<close>

definition con_frame :: "'a console_scheme \<Rightarrow> 'a console_scheme \<Rightarrow> bool" where
  "con_frame s t \<longleftrightarrow> con_rest t = con_rest s \<and>
     (cursor_ok s \<longrightarrow> cursor_ok t \<and> (\<forall>a. \<not> on_screen s a \<longrightarrow> phys t a = phys s a))"

lemma translate_con_frame:
  assumes "con_frame s t" shows "translate t v = translate s v" "user_translate t v = user_translate s v"
proof -
  have r: "con_rest t = con_rest s" using assms by (simp add: con_frame_def)
  show "translate t v = translate s v" "user_translate t v = user_translate s v"
    by (rule translate_cong; rule con_rest_fields [OF r])+
qed

lemma on_screen_con_frame: "con_frame s t \<Longrightarrow> on_screen t a = on_screen s a"
  using con_rest_fields(1) [of t s] by (simp add: con_frame_def on_screen_def cell_def)

lemma con_frame_refl [simp]: "con_frame s s"
  by (simp add: con_frame_def)

lemma con_frame_trans:
  assumes "con_frame s t" "con_frame t u" shows "con_frame s u"
proof -
  have "on_screen t a = on_screen s a" for a
    using assms(1) con_rest_fields(1) [of t s] by (simp add: con_frame_def on_screen_def cell_def)
  then show ?thesis using assms by (simp add: con_frame_def)
qed

lemma con_frame_putc [simp]: "con_frame s (putc c s)"
  by (simp add: con_frame_def cursor_ok_putc phys_putc_other)

lemma con_frame_update_cursor [simp]: "con_frame s (update_cursor_position s)"
  by (simp add: con_frame_def) (simp add: update_cursor_position_def cursor_ok_def outb_def Let_def)

lemma con_frame_putcs [simp]: "con_frame s (putcs cs s)"
  by (induction cs s rule: putcs.induct) (auto intro: con_frame_trans [OF con_frame_putc])

lemma con_frame_puts [simp]: "con_frame s (snd (puts str s))"
  unfolding puts_def Let_def snd_conv
  by (rule con_frame_trans [OF con_frame_putcs con_frame_update_cursor])

lemma con_frame_convert: "convert alt c args s = Some (args', s') \<Longrightarrow> con_frame s s'"
  by (auto simp: bind_Some_iff split: if_splits list.splits printf_arg.splits)

lemma con_frame_printf_spec: "printf_spec alt cs args s = Some (cs', args', s') \<Longrightarrow> con_frame s s'"
  by (induction alt cs args s rule: printf_spec.induct) (auto simp: con_frame_convert split: if_splits)

lemma con_frame_printf_loop: "printf_loop cs args s = Some s' \<Longrightarrow> con_frame s s'"
proof (induction cs args s rule: printf_loop.induct)
  case (2 c cs args s)
  show ?case
  proof (cases "c = 37")
    case True
    with "2.prems" obtain cs' args' t where
      sp: "printf_spec False cs args s = Some (cs', args', t)" and "printf_loop cs' args' t = Some s'"
      by (auto split: option.splits)
    then have "con_frame t s'" using "2.IH"(1) [OF True sp refl refl] by blast
    then show ?thesis by (rule con_frame_trans [OF con_frame_printf_spec [OF sp]])
  next
    case False
    then show ?thesis using 2 by (auto intro: con_frame_trans [OF con_frame_putc])
  qed
qed simp

lemma con_frame_printf: "printf fmt args s = Some (n, s') \<Longrightarrow> con_frame s s'"
  by (auto simp: printf_def intro: con_frame_trans [OF con_frame_printf_loop con_frame_update_cursor])

lemma con_frame_clear: "cursor_ok (clear s)" "\<not> on_screen s a \<Longrightarrow> phys (clear s) a = phys s a"
  by (simp_all add: clear_def update_cursor_position_def cursor_ok_def outb_def Let_def phys_fill_cells_other)

lemma terminal_of_update_cursor [simp]: "terminal_of (update_cursor_position s) = terminal_of s"
  by (simp add: terminal_of_def screen_text_def cell_def update_cursor_position_def outb_def Let_def)

lemma terminal_of_putcs:
  "cursor_ok s \<Longrightarrow> terminal_of (putcs cs s) = fold terminal_put cs (terminal_of s)"
  by (induction cs arbitrary: s) (auto simp: terminal_of_putc cursor_ok_putc simp del: terminal_put.simps)

subsection \<open>The hexadecimal conversion with zero padding\<close>

lemma length_numeral_string_hex: "length (numeral_string 16 (unat (w :: u32))) \<le> 8"
  by (rule length_numeral_string) (use unsigned_less [of w, where 'a = nat] in simp_all)

lemma hex8_eq:
  fixes w :: u32
  shows "\<exists>pad. hex8 w = Some (replicate (8 - length (numeral_string 16 (unat w))) 48
     @ numeral_string 16 (unat w) @ 0 # pad)"
proof -
  let ?str = "numeral_string 16 (unat w)"
  have len: "length ?str \<le> 8" by (rule length_numeral_string_hex)
  have nz: "0 \<notin> set ?str" by (rule numeral_string_nonzero) simp
  let ?low = "?str @ 0 # drop (Suc (length ?str)) (replicate 56 0)"
  have "itoa w (replicate 56 0) 16 = Some ?low"
    using itoa_eq [of 16 w "replicate 56 0"] len by simp
  moreover have "strlen (buf_get ?low) = Some (length ?str)"
    by (rule strlen_c_string [OF c_string_buf_get [OF nz]])
  ultimately have "hex8 w = Some (drop (length ?str) (replicate (min (length ?str) 8) 0
      @ replicate (8 - length ?str) 48 @ ?low))"
    unfolding hex8_def by (simp only: Option.bind.bind_lunit)
  moreover have "drop (length ?str) (replicate (min (length ?str) 8) 0 @ replicate (8 - length ?str) 48 @ ?low)
      = replicate (8 - length ?str) 48 @ ?low"
    using len by (simp only: drop_append) (simp add: min_def)
  ultimately have "hex8 w = Some (replicate (8 - length ?str) 48 @ ?low)" by (simp only:)
  then show ?thesis by blast
qed

end
