(* ===== verification/Pic.thy ===== *)
theory Pic
  imports Console
begin

text \<open>
  The interrupt controllers (i8259.c) and the timer chip (pit.c). The kernel keeps a copy of
  the two mask registers; the registers themselves are the last bytes written to the data
  ports 0x21 and 0xA1.
\<close>

record pic = console +
  master_mask :: u8
  slave_mask :: u8

abbreviation (input) LINES_ON_PIC :: u32 where "LINES_ON_PIC \<equiv> 8"
abbreviation (input) SLAVE_IRQ_LINE :: nat where "SLAVE_IRQ_LINE \<equiv> 2"
abbreviation (input) EOI :: u32 where "EOI \<equiv> 0x60"

definition i8259_init :: "'a pic_scheme \<Rightarrow> 'a pic_scheme" where
  "i8259_init s =
     (let (flags, s) = cli_and_save s;
          s = s\<lparr>master_mask := 0xFF, slave_mask := 0xFF\<rparr>;
          s = outb 0xFF 0x21 s; s = outb 0xFF 0xA1 s;
          s = outb 0x11 0x20 s; s = outb 0x20 0x21 s; s = outb 0x04 0x21 s; s = outb 0x01 0x21 s;
          s = outb 0x11 0xA0 s; s = outb 0x28 0xA1 s; s = outb 0x02 0xA1 s; s = outb 0x01 0xA1 s;
          s = outb (master_mask s) 0x21 s; s = outb (slave_mask s) 0xA1 s
      in restore_flags flags (sti s))"

text \<open>\<open>0x01 << n\<close> is computed on 32 bits and cut to the eight of the mask.\<close>

definition line_bit :: "nat \<Rightarrow> u8" where
  "line_bit n = ucast (push_bit n (1 :: u32))"

definition line_clear :: "nat \<Rightarrow> u8" where
  "line_clear n = ucast (NOT (push_bit n (1 :: u32)))"

definition enable_irq :: "u32 \<Rightarrow> 'a pic_scheme \<Rightarrow> 'a pic_scheme" where
  "enable_irq irq_num s =
     (let (flags, s) = cli_and_save s;
          s = (if irq_num AND LINES_ON_PIC \<noteq> 0 then
                 let s = s\<lparr>slave_mask := slave_mask s AND line_clear (unat (irq_num - LINES_ON_PIC)),
                           master_mask := master_mask s AND line_clear SLAVE_IRQ_LINE\<rparr>;
                     s = outb (slave_mask s) 0xA1 s
                 in outb (master_mask s) 0x21 s
               else
                 let s = s\<lparr>master_mask := master_mask s AND line_clear (unat irq_num)\<rparr>
                 in outb (master_mask s) 0x21 s)
      in restore_flags flags (sti s))"

definition disable_irq :: "u32 \<Rightarrow> 'a pic_scheme \<Rightarrow> 'a pic_scheme" where
  "disable_irq irq_num s =
     (let (flags, s) = cli_and_save s;
          s = (if irq_num AND LINES_ON_PIC \<noteq> 0 then
                 let s = s\<lparr>slave_mask := slave_mask s OR line_bit (unat (irq_num - LINES_ON_PIC))\<rparr>
                 in outb (slave_mask s) 0xA1 s
               else
                 let s = s\<lparr>master_mask := master_mask s OR line_bit (unat irq_num)\<rparr>
                 in outb (master_mask s) 0x21 s)
      in restore_flags flags (sti s))"

definition send_eoi :: "u32 \<Rightarrow> 'a pic_scheme \<Rightarrow> 'a pic_scheme" where
  "send_eoi irq_num s =
     (let (flags, s) = cli_and_save s;
          s = (if irq_num AND LINES_ON_PIC \<noteq> 0 then
                 outb (ucast (EOI + of_nat SLAVE_IRQ_LINE)) 0x20
                   (outb (ucast (EOI + (irq_num AND 7))) 0xA0 s)
               else outb (ucast (EOI + irq_num)) 0x20 s)
      in restore_flags flags (sti s))"

text \<open>\<open>pit_init\<close>: the reload value 40, then the mode word. The source writes the mode as
  \<open>00010110\<close>, an octal literal in C (4168, cut to 0x48 by the byte store).\<close>

abbreviation (input) RELOAD_VAL :: u8 where "RELOAD_VAL \<equiv> 40"

definition MODE_COMMAND :: u32 where
  "MODE_COMMAND = 8 ^ 4 + 8 ^ 2 + 8"

definition pit_init :: "'a pic_scheme \<Rightarrow> 'a pic_scheme" where
  "pit_init s = enable_irq 0 (sti (outb (ucast MODE_COMMAND) 0x43 (outb RELOAD_VAL 0x40 (cli s))))"

subsection \<open>Which lines are open\<close>

definition irq_enabled :: "'a pic_scheme \<Rightarrow> nat \<Rightarrow> bool" where
  "irq_enabled s n =
     (if n < 8 then \<not> bit (master_mask s) n
      else \<not> bit (slave_mask s) (n - 8) \<and> \<not> bit (master_mask s) SLAVE_IRQ_LINE)"

text \<open>The last byte written to a port: what a data register holds.\<close>

definition last_out :: "u16 \<Rightarrow> 'a pic_scheme \<Rightarrow> u8 option" where
  "last_out port s = map_option snd (List.find (\<lambda>(p, _). p = port) (rev (port_out s)))"

definition pic_synced :: "'a pic_scheme \<Rightarrow> bool" where
  "pic_synced s \<longleftrightarrow> last_out 0x21 s = Some (master_mask s) \<and> last_out 0xA1 s = Some (slave_mask s)"

lemma bit_line_bit: "bit (line_bit n) k \<longleftrightarrow> n = k \<and> k < 8"
  by (auto simp: line_bit_def bit_simps)

lemma bit_line_clear: "k < 8 \<Longrightarrow> bit (line_clear n) k \<longleftrightarrow> n \<noteq> k"
  by (auto simp: line_clear_def bit_simps)

lemma irq_on_slave: "n < 16 \<Longrightarrow> (of_nat n AND LINES_ON_PIC \<noteq> 0) = (8 \<le> n)"
proof -
  have "list_all (\<lambda>n. (of_nat n AND LINES_ON_PIC \<noteq> 0) = (8 \<le> n)) [0..<16]" by code_simp
  then show "n < 16 \<Longrightarrow> ?thesis" by (simp add: list_all_iff)
qed

lemma unat_irq: "n < 16 \<Longrightarrow> unat (of_nat n :: u32) = n"
  by (simp add: unat_of_nat_u32)

lemma unat_irq_slave: "8 \<le> n \<Longrightarrow> n < 16 \<Longrightarrow> unat (of_nat n - LINES_ON_PIC) = n - 8"
  using unat_of_nat_u32 [of "n - 8"] by (simp add: of_nat_diff)

lemma enable_irq_masks:
  assumes "n < 16"
  shows "master_mask (enable_irq (of_nat n) s) =
      master_mask s AND line_clear (if 8 \<le> n then SLAVE_IRQ_LINE else n)"
    and "slave_mask (enable_irq (of_nat n) s) =
      (if 8 \<le> n then slave_mask s AND line_clear (n - 8) else slave_mask s)"
  using assms irq_on_slave [OF assms]
  by (auto simp: enable_irq_def cpu_defs unat_irq unat_irq_slave)

lemma disable_irq_masks:
  assumes "n < 16"
  shows "master_mask (disable_irq (of_nat n) s) =
      (if 8 \<le> n then master_mask s else master_mask s OR line_bit n)"
    and "slave_mask (disable_irq (of_nat n) s) =
      (if 8 \<le> n then slave_mask s OR line_bit (n - 8) else slave_mask s)"
  using assms irq_on_slave [OF assms]
  by (auto simp: disable_irq_def cpu_defs unat_irq unat_irq_slave)

lemma last_out_outb:
  "last_out port (outb d p s) = (if p = port then Some d else last_out port s)"
  by (simp add: last_out_def outb_def)

lemma last_out_other [simp]:
  "last_out port (s\<lparr>eflags_if := f\<rparr>) = last_out port s"
  "last_out port (s\<lparr>master_mask := m\<rparr>) = last_out port s"
  "last_out port (s\<lparr>slave_mask := m\<rparr>) = last_out port s"
  by (simp_all add: last_out_def)

lemma outb_masks [simp]:
  "master_mask (outb d p s) = master_mask s" "slave_mask (outb d p s) = slave_mask s"
  "eflags_if (outb d p s) = eflags_if s"
  by (simp_all add: outb_def)

lemmas pic_flag_defs = cli_and_save_def sti_def cli_def restore_flags_def

lemma pic_synced_init: "pic_synced (i8259_init s)"
  by (simp add: pic_synced_def i8259_init_def pic_flag_defs last_out_outb)

lemma pic_synced_enable: "pic_synced s \<Longrightarrow> pic_synced (enable_irq n s)"
  by (auto simp: pic_synced_def enable_irq_def pic_flag_defs last_out_outb Let_def)

lemma pic_synced_disable: "pic_synced s \<Longrightarrow> pic_synced (disable_irq n s)"
  by (auto simp: pic_synced_def disable_irq_def pic_flag_defs last_out_outb Let_def)

lemma pic_synced_eoi: "pic_synced s \<Longrightarrow> pic_synced (send_eoi n s)"
  by (auto simp: pic_synced_def send_eoi_def pic_flag_defs last_out_outb Let_def)

lemma pic_synced_pit: "pic_synced s \<Longrightarrow> pic_synced (pit_init s)"
  unfolding pit_init_def
  by (rule pic_synced_enable) (simp add: pic_synced_def pic_flag_defs last_out_outb)

lemma eflags_pic [simp]:
  "eflags_if (i8259_init s) = eflags_if s" "eflags_if (enable_irq n s) = eflags_if s"
  "eflags_if (disable_irq n s) = eflags_if s" "eflags_if (send_eoi n s) = eflags_if s"
  by (simp_all add: i8259_init_def enable_irq_def disable_irq_def send_eoi_def pic_flag_defs Let_def)

lemma irq_enabled_enable:
  assumes "n < 16" "k < 16"
  shows "irq_enabled (enable_irq (of_nat n) s) k \<longleftrightarrow>
     k = n \<or> irq_enabled s k
     \<or> (8 \<le> n \<and> (k = SLAVE_IRQ_LINE \<or> 8 \<le> k \<and> \<not> bit (slave_mask s) (k - 8)))
     \<or> (n = SLAVE_IRQ_LINE \<and> 8 \<le> k \<and> \<not> bit (slave_mask s) (k - 8))"
  using assms
  by (auto simp: irq_enabled_def enable_irq_masks bit_and_iff bit_line_clear split: if_splits)

lemma irq_enabled_disable:
  assumes "n < 16" "k < 16"
  shows "irq_enabled (disable_irq (of_nat n) s) k \<longleftrightarrow>
     k \<noteq> n \<and> \<not> (n = SLAVE_IRQ_LINE \<and> 8 \<le> k) \<and> irq_enabled s k"
  using assms
  by (auto simp: irq_enabled_def disable_irq_masks bit_or_iff bit_line_bit split: if_splits)

text \<open>Nothing but the masks, the ports and the interrupt flag is touched.\<close>

definition pic_rest :: "'a pic_scheme \<Rightarrow> 'a pic_scheme" where
  "pic_rest s = s\<lparr>eflags_if := False, port_out := [], master_mask := 0, slave_mask := 0\<rparr>"

lemma pic_rest_ops [simp]:
  "pic_rest (i8259_init s) = pic_rest s" "pic_rest (enable_irq n s) = pic_rest s"
  "pic_rest (disable_irq n s) = pic_rest s" "pic_rest (send_eoi n s) = pic_rest s"
  "pic_rest (pit_init s) = pic_rest s"
  by (simp_all add: pic_rest_def i8259_init_def enable_irq_def disable_irq_def send_eoi_def
      pit_init_def cpu_defs Let_def)

end
