(* ===== verification/Paging.thy ===== *)
theory Paging
  imports Pic
begin

text \<open>
  paging.c: the page directory and the page table of the first 4 MB, and the three functions
  that change them. Reloading CR3 (\<open>__flush_tlb\<close>) has no effect on the state, because
  \<open>translate\<close> always reads the tables and never a cached entry: every change of the tables
  in the source is followed by the flush.
\<close>

abbreviation (input) VIDEO_KERNEL :: u32 where "VIDEO_KERNEL \<equiv> 0xB8000"
abbreviation (input) VIDEO_USER :: u32 where "VIDEO_USER \<equiv> 0xB9000"
abbreviation (input) VIDEO_GROUP_1 :: u32 where "VIDEO_GROUP_1 \<equiv> 0xBA000"
abbreviation (input) VIDEO_GROUP_2 :: u32 where "VIDEO_GROUP_2 \<equiv> 0xBB000"
abbreviation (input) VIDEO_GROUP_3 :: u32 where "VIDEO_GROUP_3 \<equiv> 0xBC000"
abbreviation (input) KERNEL_LOC :: u32 where "KERNEL_LOC \<equiv> 0x400000"
abbreviation (input) KERNEL_LOC_END :: u32 where "KERNEL_LOC_END \<equiv> 0x800000"
abbreviation (input) PROG_PAGE_SIZE :: u32 where "PROG_PAGE_SIZE \<equiv> 0x400000"
abbreviation (input) SPACE :: u32 where "SPACE \<equiv> 0x07200720"

definition flush_tlb :: "'a machine_scheme \<Rightarrow> 'a machine_scheme" where
  "flush_tlb s = s\<lparr>cr3 := cr3 s\<rparr>"

definition pd_index :: "u32 \<Rightarrow> u32" where
  "pd_index virtual_loc = drop_bit 22 (virtual_loc AND FLAG_MASK)"

definition pt_index :: "u32 \<Rightarrow> u32" where
  "pt_index virtual_loc = drop_bit 12 (virtual_loc AND FLAG_MASK) AND PT_MASK"

definition page_entry :: "u32 \<Rightarrow> u8 \<Rightarrow> u8 \<Rightarrow> u8 \<Rightarrow> u32" where
  "page_entry phys_loc read_write user page_size =
     (if page_size \<noteq> 0 then phys_loc AND ALIGN_MB else phys_loc AND FLAG_MASK)
     OR (if page_size \<noteq> 0 then PDE_PAGE_SIZE else 0)
     OR (if read_write \<noteq> 0 then PDE_READ_WRITE else 0)
     OR (if user \<noteq> 0 then PDE_USER_SUPERVISOR else 0)
     OR PDE_PRESENT"

definition map_page :: "u32 \<Rightarrow> u32 \<Rightarrow> u8 \<Rightarrow> u8 \<Rightarrow> u8 \<Rightarrow> 'a machine_scheme \<Rightarrow> 'a machine_scheme" where
  "map_page virtual_loc phys_loc read_write user page_size s =
     (let entry = page_entry phys_loc read_write user page_size
      in flush_tlb
        (if page_size \<noteq> 0
         then s\<lparr>page_directory := (page_directory s)(pd_index virtual_loc := entry)\<rparr>
         else s\<lparr>page_table_0 := (page_table_0 s)(pt_index virtual_loc := entry)\<rparr>))"

definition unmap_page :: "u32 \<Rightarrow> u8 \<Rightarrow> 'a machine_scheme \<Rightarrow> 'a machine_scheme" where
  "unmap_page virtual_loc page_size s =
     flush_tlb
       (if page_size \<noteq> 0
        then s\<lparr>page_directory := (page_directory s)(pd_index virtual_loc := 0)\<rparr>
        else s\<lparr>page_table_0 := (page_table_0 s)(pt_index virtual_loc := 0)\<rparr>)"

text \<open>The clearing loop runs before paging is on: the stores are to physical memory.\<close>

definition poke32 :: "u32 \<Rightarrow> u32 \<Rightarrow> 'a machine_scheme \<Rightarrow> 'a machine_scheme" where
  "poke32 a w s = poke (a + 3) (ucast (drop_bit 24 w)) (poke (a + 2) (ucast (drop_bit 16 w))
     (poke (a + 1) (ucast (drop_bit 8 w)) (poke a (ucast w) s)))"

fun clear_save_pages :: "nat \<Rightarrow> nat \<Rightarrow> 'a machine_scheme \<Rightarrow> 'a machine_scheme" where
  "clear_save_pages i 0 s = s"
| "clear_save_pages i (Suc k) s =
     clear_save_pages (Suc i) k
       (poke32 (VIDEO_GROUP_3 + 4 * of_nat i) SPACE
       (poke32 (VIDEO_GROUP_2 + 4 * of_nat i) SPACE
       (poke32 (VIDEO_GROUP_1 + 4 * of_nat i) SPACE s)))"

definition paging_tables :: "'a machine_scheme \<Rightarrow> 'a machine_scheme" where
  "paging_tables s =
     (let s = s\<lparr>cr4 := cr4 s OR 0x10\<rparr>;
          s = s\<lparr>page_directory := (\<lambda>_. 0)\<rparr>;
          s = s\<lparr>page_directory := (page_directory s)(0 := pt0_addr s AND FLAG_MASK)\<rparr>;
          s = s\<lparr>page_directory := (page_directory s)(0 := page_directory s 0
                  OR (PDE_READ_WRITE OR PDE_USER_SUPERVISOR OR PDE_PRESENT))\<rparr>;
          s = s\<lparr>page_directory := (page_directory s)(1 := KERNEL_LOC AND FLAG_MASK)\<rparr>;
          s = s\<lparr>page_directory := (page_directory s)(1 := page_directory s 1
                  OR (PDE_PAGE_SIZE OR PDE_READ_WRITE OR PDE_PRESENT))\<rparr>;
          s = s\<lparr>page_table_0 := (\<lambda>_. 0)\<rparr>;
          s = s\<lparr>page_table_0 := (page_table_0 s)(184 := VIDEO_KERNEL AND FLAG_MASK)\<rparr>;
          s = s\<lparr>page_table_0 := (page_table_0 s)(184 := page_table_0 s 184
                  OR (PDE_READ_WRITE OR PDE_PRESENT))\<rparr>;
          s = map_page VIDEO_GROUP_1 VIDEO_GROUP_1 1 0 0 s;
          s = map_page VIDEO_GROUP_2 VIDEO_GROUP_2 1 0 0 s
      in map_page VIDEO_GROUP_3 VIDEO_GROUP_3 1 0 0 s)"

definition paging_init :: "'a machine_scheme \<Rightarrow> 'a machine_scheme" where
  "paging_init s =
     (let s = clear_save_pages 0 1024 (paging_tables s);
          s = s\<lparr>cr3 := pd_addr s\<rparr>
      in s\<lparr>cr0 := cr0 s OR 0x80000001\<rparr>)"

subsection \<open>Page numbers\<close>

lemma flush_tlb_id [simp]: "flush_tlb s = s"
  by (simp add: flush_tlb_def)

lemma align_masks:
  "ALIGN_MB = NOT (mask 22)" "FLAG_MASK = NOT (mask 12)" "PT_MASK = mask 10"
  "(0x3FFFFF :: u32) = mask 22" "(0xFFF :: u32) = mask 12"
  by (simp_all add: mask_eq_exp_minus_1)

lemma pd_index_eq: "pd_index v = drop_bit 22 v"
  unfolding pd_index_def align_masks
  by (rule bit_word_eqI) (auto simp: bit_simps dest: bit_imp_le_length)

lemma page_number_of: "drop_bit 12 v = (w :: u32) \<Longrightarrow> drop_bit 22 v = drop_bit 10 w"
  by (auto simp: drop_bit_drop_bit)

lemma pt_index_eq: "pt_index v = drop_bit 12 v AND PT_MASK"
  unfolding pt_index_def align_masks
  by (rule bit_word_eqI) (auto simp: bit_simps)

text \<open>The address with frame \<open>p\<close> and the offset of \<open>v\<close>, for both page sizes.\<close>

definition big_frame :: "u32 \<Rightarrow> u32 \<Rightarrow> u32" where
  "big_frame p v = (p AND ALIGN_MB) OR (v AND 0x3FFFFF)"

definition small_frame :: "u32 \<Rightarrow> u32 \<Rightarrow> u32" where
  "small_frame p v = (p AND FLAG_MASK) OR (v AND 0xFFF)"

lemma big_frame_same: "drop_bit 22 v = drop_bit 22 p \<Longrightarrow> big_frame p v = v"
proof -
  assume "drop_bit 22 v = drop_bit 22 p"
  then have eq: "bit v (22 + n) = bit p (22 + n)" for n
    by (metis bit_drop_bit_eq comp_apply)
  show ?thesis
    unfolding big_frame_def align_masks
  proof (rule bit_word_eqI)
    fix n assume "n < LENGTH(32)"
    then show "bit (p AND NOT (mask 22) OR v AND mask 22) n = bit v n"
      using eq [of "n - 22"] by (cases "n < 22") (auto simp: bit_simps)
  qed
qed

lemma small_frame_same: "drop_bit 12 v = drop_bit 12 p \<Longrightarrow> small_frame p v = v"
proof -
  assume "drop_bit 12 v = drop_bit 12 p"
  then have eq: "bit v (12 + n) = bit p (12 + n)" for n
    by (metis bit_drop_bit_eq comp_apply)
  show ?thesis
    unfolding small_frame_def align_masks
  proof (rule bit_word_eqI)
    fix n assume "n < LENGTH(32)"
    then show "bit (p AND NOT (mask 12) OR v AND mask 12) n = bit v n"
      using eq [of "n - 12"] by (cases "n < 12") (auto simp: bit_simps)
  qed
qed

lemma page_number_split:
  "(drop_bit 12 v = (w :: u32)) = (drop_bit 22 v = drop_bit 10 w \<and> drop_bit 12 v AND PT_MASK = w AND PT_MASK)"
proof -
  have "drop_bit 22 v = drop_bit 10 (drop_bit 12 v)" by simp
  moreover have "x = w" if "drop_bit 10 x = drop_bit 10 w" "x AND PT_MASK = w AND PT_MASK" for x
  proof -
    have "take_bit 10 x = take_bit 10 w"
      using that(2) unfolding align_masks by (simp add: take_bit_eq_mask)
    then show ?thesis using that(1) by (metis bits_ident)
  qed
  ultimately show ?thesis by metis
qed

subsection \<open>Entries\<close>

lemma and_zero_chain: "x AND y = 0 \<Longrightarrow> (p AND x) AND y = (0 :: u32)"
  by (simp add: and.assoc)

lemma page_entry_big:
  assumes "page_size \<noteq> 0"
  shows "page_entry p rw us page_size AND PDE_PRESENT \<noteq> 0"
    and "page_entry p rw us page_size AND PDE_PAGE_SIZE \<noteq> 0"
    and "page_entry p rw us page_size AND PDE_USER_SUPERVISOR \<noteq> 0 \<longleftrightarrow> us \<noteq> 0"
    and "page_entry p rw us page_size AND PDE_READ_WRITE \<noteq> 0 \<longleftrightarrow> rw \<noteq> 0"
    and "page_entry p rw us page_size AND ALIGN_MB = p AND ALIGN_MB"
  using assms by (auto simp: page_entry_def bit.conj_disj_distrib2 and.assoc)

lemma page_entry_small:
  "page_entry p rw us 0 AND PDE_PRESENT \<noteq> 0"
  "page_entry p rw us 0 AND PDE_USER_SUPERVISOR \<noteq> 0 \<longleftrightarrow> us \<noteq> 0"
  "page_entry p rw us 0 AND PDE_READ_WRITE \<noteq> 0 \<longleftrightarrow> rw \<noteq> 0"
  "page_entry p rw us 0 AND FLAG_MASK = p AND FLAG_MASK"
  by (auto simp: page_entry_def bit.conj_disj_distrib2 and.assoc)

subsection \<open>Mapping and unmapping\<close>

text \<open>The kernel's page table is installed and open to the 4 KB pages mapped in it.\<close>

definition table_installed :: "'a machine_scheme \<Rightarrow> bool" where
  "table_installed s \<longleftrightarrow>
     page_directory s 0 = (pt0_addr s AND FLAG_MASK) OR (PDE_READ_WRITE OR PDE_USER_SUPERVISOR OR PDE_PRESENT)"

lemma table_installedD:
  assumes "table_installed s"
  shows "page_directory s 0 AND PDE_PRESENT \<noteq> 0" "page_directory s 0 AND PDE_PAGE_SIZE = 0"
    and "page_directory s 0 AND PDE_USER_SUPERVISOR \<noteq> 0"
    and "page_directory s 0 AND FLAG_MASK = pt0_addr s AND FLAG_MASK"
  using assms by (auto simp: table_installed_def bit.conj_disj_distrib2 and.assoc)

lemma translate_map_big:
  assumes "page_size \<noteq> 0"
  shows "translate (map_page a p rw us page_size s) v =
      (if drop_bit 22 v = drop_bit 22 a then Some (big_frame p v) else translate s v)"
    and "user_translate (map_page a p rw us page_size s) v =
      (if drop_bit 22 v = drop_bit 22 a then (if us \<noteq> 0 then Some (big_frame p v) else None)
       else user_translate s v)"
  using assms page_entry_big [OF assms]
  by (auto simp: map_page_def translate_def user_translate_def user_page_def Let_def pd_index_eq
      big_frame_def)

lemma map_page_small_tables:
  "page_directory (map_page a p rw us 0 s) = page_directory s"
  "page_table_0 (map_page a p rw us 0 s) = (page_table_0 s)(drop_bit 12 a AND PT_MASK := page_entry p rw us 0)"
  "pt0_addr (map_page a p rw us 0 s) = pt0_addr s"
  by (simp_all add: map_page_def pt_index_eq Let_def)

lemma unmap_page_small_tables:
  "page_directory (unmap_page a 0 s) = page_directory s"
  "page_table_0 (unmap_page a 0 s) = (page_table_0 s)(drop_bit 12 a AND PT_MASK := 0)"
  "pt0_addr (unmap_page a 0 s) = pt0_addr s"
  by (simp_all add: unmap_page_def pt_index_eq)

lemma translate_low:
  assumes "table_installed s" "drop_bit 22 v = 0"
  shows "translate s v =
      (let pte = page_table_0 s (drop_bit 12 v AND PT_MASK)
       in if pte AND PDE_PRESENT = 0 then None else Some (small_frame pte v))"
    and "user_translate s v =
      (if page_table_0 s (drop_bit 12 v AND PT_MASK) AND PDE_USER_SUPERVISOR \<noteq> 0 then translate s v else None)"
  using table_installedD [OF assms(1)] assms(2)
  by (simp_all add: translate_def user_translate_def user_page_def Let_def small_frame_def)

lemma table_installed_map_small [simp]:
  "table_installed (map_page a p rw us 0 s) = table_installed s"
  "table_installed (unmap_page a 0 s) = table_installed s"
  by (simp_all add: table_installed_def map_page_small_tables unmap_page_small_tables)

lemma translate_high_cong:
  assumes "page_directory t = page_directory s" "pt0_addr t = pt0_addr s"
    and "drop_bit 22 v \<noteq> 0" "\<forall>i. i \<noteq> 0 \<longrightarrow> page_directory s i AND PDE_PRESENT \<noteq> 0 \<longrightarrow>
          page_directory s i AND PDE_PAGE_SIZE \<noteq> 0"
  shows "translate t v = translate s v" "user_translate t v = user_translate s v"
  using assms by (auto simp: translate_def user_translate_def user_page_def Let_def)

lemma low_page_of: "drop_bit 22 a = 0 \<Longrightarrow> drop_bit 22 v = 0 \<Longrightarrow>
    (drop_bit 12 v AND PT_MASK = drop_bit 12 (a :: u32) AND PT_MASK) = (drop_bit 12 v = drop_bit 12 a)"
  using page_number_split [of v "drop_bit 12 a"] by simp

lemma translate_map_small:
  assumes inst: "table_installed s" and "drop_bit 22 a = 0" "drop_bit 22 v = 0"
  shows "translate (map_page a p rw us 0 s) v =
      (if drop_bit 12 v = drop_bit 12 a then Some (small_frame p v) else translate s v)"
    and "user_translate (map_page a p rw us 0 s) v =
      (if drop_bit 12 v = drop_bit 12 a then (if us \<noteq> 0 then Some (small_frame p v) else None)
       else user_translate s v)"
  using assms page_entry_small [of p rw us]
  by (auto simp: translate_low map_page_small_tables Let_def low_page_of small_frame_def)

lemma translate_unmap_small:
  assumes "table_installed s" "drop_bit 22 a = 0" "drop_bit 22 v = 0"
  shows "translate (unmap_page a 0 s) v = (if drop_bit 12 v = drop_bit 12 a then None else translate s v)"
    and "user_translate (unmap_page a 0 s) v =
      (if drop_bit 12 v = drop_bit 12 a then None else user_translate s v)"
  using assms by (auto simp: translate_low unmap_page_small_tables Let_def low_page_of)

lemma translate_unmap_big:
  assumes "page_size \<noteq> 0"
  shows "translate (unmap_page a page_size s) v =
      (if drop_bit 22 v = drop_bit 22 a then None else translate s v)"
    and "user_translate (unmap_page a page_size s) v =
      (if drop_bit 22 v = drop_bit 22 a then None else user_translate s v)"
  using assms
  by (auto simp: unmap_page_def translate_def user_translate_def user_page_def Let_def pd_index_eq)

subsection \<open>The address space after \<open>paging_init\<close>\<close>

lemma clear_save_pages_same:
  "\<exists>f. clear_save_pages i k s = s\<lparr>phys := f\<rparr>"
proof (induction i k s rule: clear_save_pages.induct)
  case (1 i s)
  show ?case by (rule exI [of _ "phys s"]) simp
next
  case (2 i k s)
  then show ?case by (auto simp: poke32_def poke_def)
qed

lemma paging_init_tables:
  "page_directory (paging_init s) = page_directory (paging_tables s)"
  "page_table_0 (paging_init s) = page_table_0 (paging_tables s)"
  "pt0_addr (paging_init s) = pt0_addr s"
proof -
  obtain f where "clear_save_pages 0 1024 (paging_tables s) = (paging_tables s)\<lparr>phys := f\<rparr>"
    using clear_save_pages_same by blast
  moreover have "pt0_addr (paging_tables s) = pt0_addr s"
    by (simp add: paging_tables_def Let_def map_page_def)
  ultimately show "page_directory (paging_init s) = page_directory (paging_tables s)"
    "page_table_0 (paging_init s) = page_table_0 (paging_tables s)"
    "pt0_addr (paging_init s) = pt0_addr s"
    by (simp_all add: paging_init_def Let_def)
qed

lemma paging_tables_directory:
  "page_directory (paging_tables s) = (\<lambda>_. 0)(0 := (pt0_addr s AND FLAG_MASK) OR 7, 1 := 0x400083)"
  by (simp add: paging_tables_def map_page_def Let_def)

lemma paging_tables_table:
  "page_table_0 (paging_tables s) = (\<lambda>_. 0)(0xB8 := 0xB8003, 0xBA := 0xBA003, 0xBB := 0xBB003, 0xBC := 0xBC003)"
  by (simp add: paging_tables_def map_page_def Let_def pt_index_eq page_entry_def)

lemma paging_init_installed: "table_installed (paging_init s)"
  by (simp add: table_installed_def paging_init_tables paging_tables_directory)

definition boot_mapped :: "u32 \<Rightarrow> bool" where
  "boot_mapped v \<longleftrightarrow> drop_bit 22 v = 1 \<or> drop_bit 12 v \<in> {0xB8, 0xBA, 0xBB, 0xBC}"

lemma small_page_iff:
  assumes "drop_bit 22 v = (0 :: u32)" "drop_bit 10 w = 0" "w AND PT_MASK = w"
  shows "(drop_bit 12 v AND PT_MASK = w) = (drop_bit 12 v = w)"
  using page_number_split [of v w] assms by simp

lemma paging_init_translate:
  "translate (paging_init s) v = (if boot_mapped v then Some v else None)"
proof (cases "drop_bit 22 v = 0")
  case True
  have pt: "(drop_bit 12 v AND PT_MASK = w) = (drop_bit 12 v = w)" if "w \<in> {0xB8, 0xBA, 0xBB, 0xBC}" for w
    using that by (intro small_page_iff [OF True]) (auto simp: drop_bit_eq_div)
  have fr: "small_frame p v = v" if "drop_bit 12 v = drop_bit 12 p" for p
    by (rule small_frame_same [OF that])
  show ?thesis
    using True paging_init_installed [of s]
    by (auto simp: translate_low paging_init_tables paging_tables_table Let_def pt boot_mapped_def
        intro: fr)
next
  case False
  then have hi: "drop_bit 12 v \<notin> {0xB8, 0xBA, 0xBB, 0xBC}"
    using page_number_of [of v] False by fastforce
  show ?thesis
  proof (cases "drop_bit 22 v = 1")
    case True
    then have "big_frame 0x400083 v = v" by (intro big_frame_same) simp
    then show ?thesis
      using True hi by (simp add: translate_def paging_init_tables paging_tables_directory boot_mapped_def big_frame_def)
  next
    case F2: False
    then show ?thesis
      using False hi by (simp add: translate_def paging_init_tables paging_tables_directory boot_mapped_def)
  qed
qed

lemma paging_init_user: "user_translate (paging_init s) v = None"
proof -
  have "(pt0_addr s AND FLAG_MASK OR 7) AND PDE_PAGE_SIZE = 0"
    by (simp add: bit.conj_disj_distrib2 and.assoc)
  then show ?thesis
    by (auto simp: user_translate_def user_page_def Let_def paging_init_tables
        paging_tables_directory paging_tables_table)
qed

end
