(* ===== verification/FileSys.thy ===== *)
theory FileSys
  imports Paging
begin

text \<open>
  The read-only file system of file_sys.c: \<open>read_dentry_by_name\<close> and \<open>read_data\<close>, which
  walk the image in memory through the pointer \<open>boot_blk\<close>. The image is a boot block of
  64-byte directory entries, one 4096-byte block per inode, then the data blocks. The code
  does not check the image, so a read outside mapped memory is a fault here as there.

  The second half states what the two functions promise over the image as a list of bytes: a
  directory lookup, and a slice of the file.
\<close>

record fs = pic +
  boot_blk :: u32

abbreviation (input) FILENAME_LEN :: nat where "FILENAME_LEN \<equiv> 32"
abbreviation (input) BLOCK_SIZE :: u32 where "BLOCK_SIZE \<equiv> 4096"
abbreviation (input) RTC_TYPE :: int where "RTC_TYPE \<equiv> 0"
abbreviation (input) DIR_TYPE :: int where "DIR_TYPE \<equiv> 1"
abbreviation (input) FILE_TYPE :: int where "FILE_TYPE \<equiv> 2"

record dentry =
  filename :: "u8 list"
  filetype :: int
  inode_num :: int

subsection \<open>The fields of the image, through \<open>boot_blk\<close>\<close>

definition dir_count :: "'a fs_scheme \<Rightarrow> int option" where
  "dir_count s = map_option sint (load32 s (boot_blk s))"

definition inode_count :: "'a fs_scheme \<Rightarrow> u32 option" where
  "inode_count s = load32 s (boot_blk s + 4)"

definition dentry_addr :: "'a fs_scheme \<Rightarrow> int \<Rightarrow> u32" where
  "dentry_addr s i = boot_blk s + 64 + 64 * word_of_int i"

definition load_dentry :: "'a fs_scheme \<Rightarrow> int \<Rightarrow> dentry option" where
  "load_dentry s i = do {
     name \<leftarrow> load_bytes s (dentry_addr s i) FILENAME_LEN;
     ty \<leftarrow> load32 s (dentry_addr s i + 32);
     ino \<leftarrow> load32 s (dentry_addr s i + 36);
     Some \<lparr>filename = name, filetype = sint ty, inode_num = sint ino\<rparr>
   }"

subsection \<open>Directory lookup\<close>

definition dentry_matches :: "reader \<Rightarrow> nat \<Rightarrow> int \<Rightarrow> 'a fs_scheme \<Rightarrow> bool option" where
  "dentry_matches fname name_len i s = do {
     ino \<leftarrow> load32 s (dentry_addr s i + 36);
     count \<leftarrow> inode_count s;
     if sint ino < sint count then do {
       l \<leftarrow> strlen (mem_at s (dentry_addr s i));
       let entry_length = (if l > FILENAME_LEN then FILENAME_LEN else l);
       c1 \<leftarrow> strncmp fname (mem_at s (dentry_addr s i)) name_len;
       if c1 = 0 then do {
         c2 \<leftarrow> strncmp fname (mem_at s (dentry_addr s i)) entry_length;
         Some (c2 = 0)
       } else Some False
     } else Some False
   }"

text \<open>The search loop. The result is the return value and the entry copied out, if any.\<close>

function dentry_search :: "reader \<Rightarrow> nat \<Rightarrow> int \<Rightarrow> 'a fs_scheme \<Rightarrow> (int \<times> dentry option) option" where
  "dentry_search fname name_len i s =
     (case dir_count s of
        None \<Rightarrow> None
      | Some count \<Rightarrow>
          if i < count then do {
            found \<leftarrow> dentry_matches fname name_len i s;
            if found then do { d \<leftarrow> load_dentry s i; Some (SUCCESS, Some d) }
            else dentry_search fname name_len (i + 1) s
          } else Some (FAILURE, None))"
  by pat_completeness auto
termination
  by (relation "measure (\<lambda>(fname, name_len, i, s). nat (the (dir_count s) - i))") auto

declare dentry_search.simps [simp del]

definition read_dentry_by_name :: "reader \<Rightarrow> 'a fs_scheme \<Rightarrow> (int \<times> dentry option) option" where
  "read_dentry_by_name fname s = do {
     name_len \<leftarrow> strlen fname;
     if name_len > FILENAME_LEN then Some (FAILURE, None)
     else dentry_search fname name_len 0 s
   }"

subsection \<open>Reading the data of an inode\<close>

definition data_block_num :: "u32 \<Rightarrow> u32 \<Rightarrow> 'a fs_scheme \<Rightarrow> u32 option" where
  "data_block_num inode dnode_num s = load32 s (inode + 4 + 4 * dnode_num)"

text \<open>One round of the loop: the next data block when the current one is exhausted, then the
  byte. \<open>dnode\<close> is the address of the current block.\<close>

definition read_step :: "u32 \<Rightarrow> u32 \<Rightarrow> u32 \<Rightarrow> u32 \<times> u32 \<times> u32 \<Rightarrow> 'a fs_scheme
    \<Rightarrow> ((u32 \<times> u32 \<times> u32) \<times> 'a fs_scheme) option" where
  "read_step inode dnodes_start dest blk s = do {
     let (dnode_num, dnode, pos) = blk;
     (dnode_num, dnode, pos) \<leftarrow>
       (if pos \<ge> BLOCK_SIZE then do {
          idx \<leftarrow> data_block_num inode (dnode_num + 1) s;
          Some (dnode_num + 1, dnodes_start + idx * BLOCK_SIZE, 0)
        } else Some (dnode_num, dnode, pos));
     b \<leftarrow> load8 s (dnode + pos);
     s' \<leftarrow> store8 dest b s;
     Some ((dnode_num, dnode, pos + 1), s')
   }"

function read_loop :: "u32 \<Rightarrow> u32 \<Rightarrow> u32 \<Rightarrow> u32 \<Rightarrow> nat \<Rightarrow> nat \<Rightarrow> u32 \<times> u32 \<times> u32 \<Rightarrow> 'a fs_scheme
    \<Rightarrow> (int \<times> 'a fs_scheme) option" where
  "read_loop inode dnodes_start offset buf len buf_idx blk s =
     (if buf_idx < len then do {
        flen \<leftarrow> load32 s inode;
        if offset + of_nat buf_idx < flen then do {
          (blk', s') \<leftarrow> read_step inode dnodes_start (buf + of_nat buf_idx) blk s;
          read_loop inode dnodes_start offset buf len (buf_idx + 1) blk' s'
        } else Some (int buf_idx, s)
      } else Some (int buf_idx, s))"
  by pat_completeness auto
termination
  by (relation "measure (\<lambda>(inode, dnodes_start, offset, buf, len, buf_idx, blk, s). len - buf_idx)") auto

declare read_loop.simps [simp del]

definition read_data :: "u32 \<Rightarrow> u32 \<Rightarrow> u32 \<Rightarrow> u32 \<Rightarrow> 'a fs_scheme \<Rightarrow> (int \<times> 'a fs_scheme) option" where
  "read_data inode_idx offset buf len s =
     (if len = 0 then Some (0, s)
      else do {
        count \<leftarrow> inode_count s;
        if inode_idx \<ge> count then Some (FAILURE, s)
        else do {
          let inode = boot_blk s + (inode_idx + 1) * BLOCK_SIZE;
          let dnodes_start = boot_blk s + (count + 1) * BLOCK_SIZE;
          flen \<leftarrow> load32 s inode;
          if offset \<ge> flen then Some (0, s)
          else do {
            let dnode_num = offset div BLOCK_SIZE;
            dnode_idx \<leftarrow> data_block_num inode dnode_num s;
            read_loop inode dnodes_start offset buf (unat len) 0
              (dnode_num, dnodes_start + dnode_idx * BLOCK_SIZE, offset mod BLOCK_SIZE) s
          }
        }
      })"

subsection \<open>The image as a list of bytes\<close>

definition word_at :: "u8 list \<Rightarrow> nat \<Rightarrow> u32 option" where
  "word_at img a =
     (if a + 4 \<le> length img then
        Some (ucast (img ! a) OR push_bit 8 (ucast (img ! (a + 1)))
              OR push_bit 16 (ucast (img ! (a + 2))) OR push_bit 24 (ucast (img ! (a + 3))))
      else None)"

definition byte_at :: "u8 list \<Rightarrow> nat \<Rightarrow> u8 option" where
  "byte_at img a = (if a < length img then Some (img ! a) else None)"

text \<open>Byte \<open>p\<close> of the data of inode \<open>ino\<close>, and the whole file.\<close>

definition file_byte :: "u8 list \<Rightarrow> nat \<Rightarrow> nat \<Rightarrow> u8 option" where
  "file_byte img ino p = do {
     count \<leftarrow> word_at img 4;
     idx \<leftarrow> word_at img ((ino + 1) * 4096 + 4 + 4 * (p div 4096));
     byte_at img ((unat count + 1) * 4096 + unat idx * 4096 + p mod 4096)
   }"

definition file_length :: "u8 list \<Rightarrow> nat \<Rightarrow> nat option" where
  "file_length img ino = do {
     count \<leftarrow> word_at img 4;
     if ino < unat count then map_option unat (word_at img ((ino + 1) * 4096)) else None
   }"

definition file_bytes :: "u8 list \<Rightarrow> nat \<Rightarrow> u8 list option" where
  "file_bytes img ino = do {
     n \<leftarrow> file_length img ino;
     those (map (file_byte img ino) [0..<n])
   }"

text \<open>The directory: the name of an entry is its 32 bytes up to the first NUL.\<close>

definition dir_entry :: "u8 list \<Rightarrow> nat \<Rightarrow> dentry option" where
  "dir_entry img i = do {
     ty \<leftarrow> word_at img (64 + 64 * i + 32);
     ino \<leftarrow> word_at img (64 + 64 * i + 36);
     Some \<lparr>filename = take 32 (drop (64 + 64 * i) img), filetype = sint ty, inode_num = sint ino\<rparr>
   }"

definition entry_name :: "dentry \<Rightarrow> u8 list" where
  "entry_name d = takeWhile (\<lambda>c. c \<noteq> 0) (filename d)"

definition directory :: "u8 list \<Rightarrow> dentry list option" where
  "directory img = do {
     n \<leftarrow> word_at img 0;
     those (map (dir_entry img) [0..<nat (sint n)])
   }"

text \<open>The lookup that \<open>read_dentry_by_name\<close> promises: the first entry of that name whose
  inode number is in range.\<close>

definition lookup_name :: "u8 list \<Rightarrow> u8 list \<Rightarrow> dentry option" where
  "lookup_name img name = do {
     ds \<leftarrow> directory img;
     count \<leftarrow> word_at img 4;
     List.find (\<lambda>d. inode_num d < sint count \<and> entry_name d = name) ds
   }"

text \<open>The image sits in memory at \<open>boot_blk\<close>, and the addresses do not wrap around.\<close>

definition holds_image :: "'a fs_scheme \<Rightarrow> u8 list \<Rightarrow> bool" where
  "holds_image s img \<longleftrightarrow> length img < 2 ^ 32 \<and>
     (\<forall>a<length img. load8 s (boot_blk s + of_nat a) = Some (img ! a))"

text \<open>A buffer shares no physical byte with the image.\<close>

definition apart_from_image :: "'a fs_scheme \<Rightarrow> u8 list \<Rightarrow> u32 \<Rightarrow> nat \<Rightarrow> bool" where
  "apart_from_image s img buf n \<longleftrightarrow>
     (\<forall>k<n. \<forall>a<length img. translate s (buf + of_nat k) \<noteq> translate s (boot_blk s + of_nat a))"

subsection \<open>Reads of the image\<close>

lemma load8_image:
  "holds_image s img \<Longrightarrow> byte_at img a = Some b \<Longrightarrow> load8 s (boot_blk s + of_nat a) = Some b"
  by (auto simp: holds_image_def byte_at_def split: if_splits)

lemma load32_image:
  assumes "holds_image s img" "word_at img a = Some w"
  shows "load32 s (boot_blk s + of_nat a) = Some w"
proof -
  have a: "a + 4 \<le> length img" using assms(2) by (simp add: word_at_def split: if_splits)
  then have "load8 s (boot_blk s + of_nat (a + j)) = Some (img ! (a + j))" if "j < 4" for j
    using assms(1) that by (simp add: holds_image_def del: of_nat_add)
  from this [of 0] this [of 1] this [of 2] this [of 3] show ?thesis
    using assms(2) a by (simp add: load32_def word_at_def ac_simps)
qed

lemma holds_image_store8:
  assumes "store8 (buf + of_nat k) b s = Some s'" "apart_from_image s img buf n" "k < n"
  shows "boot_blk s' = boot_blk s" "holds_image s' img = holds_image s img"
    and "apart_from_image s' img buf n"
proof -
  show bb: "boot_blk s' = boot_blk s"
    using assms(1) by (auto dest: store8_Some)
  have "load8 s' (boot_blk s + of_nat a) = load8 s (boot_blk s + of_nat a)" if "a < length img" for a
  proof -
    have "translate s (buf + of_nat k) \<noteq> translate s (boot_blk s + of_nat a)"
      using assms(2,3) that by (simp add: apart_from_image_def)
    then show ?thesis by (simp add: load8_store8 [OF assms(1)] not_sym)
  qed
  then show "holds_image s' img = holds_image s img"
    by (simp add: holds_image_def bb)
  show "apart_from_image s' img buf n"
    using assms(2) by (simp add: apart_from_image_def bb translate_store8 [OF assms(1)])
qed

subsection \<open>\<open>read_data\<close> reads a slice of the file\<close>

definition inode_addr :: "'a fs_scheme \<Rightarrow> nat \<Rightarrow> u32" where
  "inode_addr s ino = boot_blk s + of_nat ((ino + 1) * 4096)"

text \<open>The walker stands before byte \<open>q\<close>: block number \<open>N\<close>, that block's address, position.\<close>

definition blk_ok :: "u8 list \<Rightarrow> nat \<Rightarrow> u32 \<Rightarrow> nat \<Rightarrow> u32 \<times> u32 \<times> u32 \<Rightarrow> bool" where
  "blk_ok img ino dnodes_start q blk \<longleftrightarrow>
     (\<exists>N P idx. blk = (of_nat N, dnodes_start + idx * BLOCK_SIZE, of_nat P) \<and> N * 4096 + P = q \<and>
        P \<le> 4096 \<and> word_at img ((ino + 1) * 4096 + 4 + 4 * N) = Some idx)"

lemma blk_okI:
  "N * 4096 + P = q \<Longrightarrow> P \<le> 4096 \<Longrightarrow> word_at img ((ino + 1) * 4096 + 4 + 4 * N) = Some idx \<Longrightarrow>
     blk_ok img ino dnodes_start q (of_nat N, dnodes_start + idx * BLOCK_SIZE, of_nat P)"
  by (auto simp: blk_ok_def)

lemma file_byteE:
  assumes "file_byte img ino q = Some b"
  obtains count idx where "word_at img 4 = Some count"
    and "word_at img ((ino + 1) * 4096 + 4 + 4 * (q div 4096)) = Some idx"
    and "byte_at img ((unat count + 1) * 4096 + unat idx * 4096 + q mod 4096) = Some b"
  using assms by (auto simp: file_byte_def bind_Some_iff)

lemma data_block_num_image:
  assumes "holds_image s img" "word_at img ((ino + 1) * 4096 + 4 + 4 * N) = Some idx"
  shows "data_block_num (inode_addr s ino) (of_nat N) s = Some idx"
  using load32_image [OF assms] by (simp add: data_block_num_def inode_addr_def algebra_simps)

lemma load8_block:
  assumes "holds_image s img"
    and "byte_at img ((unat count + 1) * 4096 + unat idx * 4096 + P) = Some b"
  shows "load8 s (boot_blk s + (count + 1) * BLOCK_SIZE + idx * BLOCK_SIZE + of_nat P) = Some b"
  using load8_image [OF assms] by (simp add: algebra_simps)

lemma read_step_image:
  assumes img: "holds_image s img" and fb: "file_byte img ino q = Some b"
    and count: "word_at img 4 = Some count"
    and blk: "blk_ok img ino (boot_blk s + (count + 1) * BLOCK_SIZE) q blk"
  shows "\<exists>blk'. read_step (inode_addr s ino) (boot_blk s + (count + 1) * BLOCK_SIZE) dest blk s =
      map_option (\<lambda>s'. (blk', s')) (store8 dest b s)
      \<and> blk_ok img ino (boot_blk s + (count + 1) * BLOCK_SIZE) (q + 1) blk'"
proof -
  let ?d = "boot_blk s + (count + 1) * BLOCK_SIZE"
  obtain idx' where idx': "word_at img ((ino + 1) * 4096 + 4 + 4 * (q div 4096)) = Some idx'"
    and b: "byte_at img ((unat count + 1) * 4096 + unat idx' * 4096 + q mod 4096) = Some b"
    using file_byteE [OF fb] count by auto
  obtain N P idx where NP: "blk = (of_nat N, ?d + idx * BLOCK_SIZE, of_nat P)" "N * 4096 + P = q"
    "P \<le> 4096" "word_at img ((ino + 1) * 4096 + 4 + 4 * N) = Some idx"
    using blk by (auto simp: blk_ok_def)
  show ?thesis
  proof (cases "P = 4096")
    case True
    then have q: "q div 4096 = N + 1" "q mod 4096 = 0" "(N + 1) * 4096 + 1 = q + 1" using NP by auto
    have "data_block_num (inode_addr s ino) (of_nat N + 1) s = Some idx'"
      using data_block_num_image [OF img idx'] q by (simp add: add.commute)
    moreover have "load8 s (?d + idx' * BLOCK_SIZE) = Some b"
      using load8_block [OF img b] q by simp
    ultimately have "read_step (inode_addr s ino) ?d dest blk s =
        map_option (\<lambda>s'. ((of_nat (N + 1), ?d + idx' * BLOCK_SIZE, of_nat 1), s')) (store8 dest b s)"
      using NP True by (cases "store8 dest b s") (simp_all add: read_step_def add.commute)
    moreover have "blk_ok img ino ?d (q + 1) (of_nat (N + 1), ?d + idx' * BLOCK_SIZE, of_nat 1)"
      by (rule blk_okI) (use q idx' in auto)
    ultimately show ?thesis by blast
  next
    case False
    then have q: "q div 4096 = N" "q mod 4096 = P" "P < 4096" using NP by auto
    then have "idx' = idx" using idx' NP by simp
    then have "load8 s (?d + idx * BLOCK_SIZE + of_nat P) = Some b"
      using load8_block [OF img b] q by simp
    moreover have "\<not> (of_nat P :: u32) \<ge> BLOCK_SIZE"
      using q by (simp add: word_le_nat_alt unat_of_nat_u32)
    ultimately have "read_step (inode_addr s ino) ?d dest blk s =
        map_option (\<lambda>s'. ((of_nat N, ?d + idx * BLOCK_SIZE, of_nat (P + 1)), s')) (store8 dest b s)"
      using NP by (cases "store8 dest b s") (simp_all add: read_step_def add.commute)
    moreover have "blk_ok img ino ?d (q + 1) (of_nat N, ?d + idx * BLOCK_SIZE, of_nat (P + 1))"
      by (rule blk_okI) (use q NP in auto)
    ultimately show ?thesis by blast
  qed
qed

lemma those_upt_Cons:
  assumes "those (map f [i..<j]) = Some bs" "i < j"
  obtains b bs' where "f i = Some b" "bs = b # bs'" "those (map f [Suc i..<j]) = Some bs'"
  using assms by (auto simp: upt_conv_Cons split: option.splits)

lemma read_loop_image:
  assumes count: "word_at img 4 = Some count"
    and flen: "word_at img ((ino + 1) * 4096) = Some flen"
  shows "holds_image s img \<Longrightarrow> apart_from_image s img buf len \<Longrightarrow> k \<le> len \<Longrightarrow> len < 2 ^ 32 \<Longrightarrow>
     unat offset + k \<le> unat flen \<Longrightarrow>
     blk_ok img ino (boot_blk s + (count + 1) * BLOCK_SIZE) (unat offset + k) blk \<Longrightarrow>
     those (map (file_byte img ino) [unat offset + k..<min (unat offset + len) (unat flen)]) = Some bs \<Longrightarrow>
     read_loop (inode_addr s ino) (boot_blk s + (count + 1) * BLOCK_SIZE) offset buf len k blk s =
       map_option (\<lambda>s'. (int (k + length bs), s')) (store_bytes (buf + of_nat k) bs s)"
proof (induction "min (unat offset + len) (unat flen) - (unat offset + k)" arbitrary: k blk s bs)
  case 0
  have "load32 s (inode_addr s ino) = Some flen"
    using load32_image [OF 0(2) flen] by (simp add: inode_addr_def)
  moreover have "offset + of_nat k = flen" if "k < len"
  proof -
    have "unat flen = unat offset + k" using 0 that by linarith
    then have "(of_nat (unat flen) :: u32) = of_nat (unat offset) + of_nat k" by simp
    then show ?thesis by simp
  qed
  moreover have "bs = []" using 0 by simp
  ultimately show ?case by (auto simp: read_loop.simps)
next
  case (Suc m)
  let ?q = "unat offset + k" and ?top = "min (unat offset + len) (unat flen)"
  have k: "k < len" and q: "?q < unat flen" "?q < ?top" using Suc(2,5) by linarith+
  have fl: "load32 s (inode_addr s ino) = Some flen"
    using load32_image [OF Suc(3) flen] by (simp add: inode_addr_def)
  have "unat flen < 2 ^ 32" using unsigned_less [of flen, where 'a = nat] by simp
  then have off: "offset + of_nat k < flen"
  proof -
    have "unat (offset + of_nat k) = ?q"
      using q \<open>unat flen < 2 ^ 32\<close> unat_of_nat_u32 [of ?q] by simp
    then show ?thesis using q by (simp add: word_less_nat_alt)
  qed
  obtain b bs' where b: "file_byte img ino ?q = Some b" and bs: "bs = b # bs'"
    and bs': "those (map (file_byte img ino) [Suc ?q..<?top]) = Some bs'"
    using those_upt_Cons [OF Suc(9) q(2)] by blast
  let ?d = "boot_blk s + (count + 1) * BLOCK_SIZE"
  obtain blk' where step: "read_step (inode_addr s ino) ?d (buf + of_nat k) blk s =
      map_option (\<lambda>s'. (blk', s')) (store8 (buf + of_nat k) b s)"
    and blk': "blk_ok img ino ?d (?q + 1) blk'"
    using read_step_image [OF Suc(3) b count Suc(8)] by blast
  show ?case
  proof (cases "store8 (buf + of_nat k) b s")
    case None
    then show ?thesis using k fl off step bs by (simp add: read_loop.simps [of _ _ _ _ _ k])
  next
    case (Some t)
    note keep = holds_image_store8 [OF Some Suc(4) k]
    have "inode_addr t ino = inode_addr s ino" by (simp add: inode_addr_def keep)
    then have "read_loop (inode_addr s ino) ?d offset buf len (k + 1) blk' t =
        map_option (\<lambda>s'. (int (k + 1 + length bs'), s')) (store_bytes (buf + of_nat (k + 1)) bs' t)"
      using Suc(1) [of "k + 1" t blk' bs'] Suc(2,3,5,6) k q keep blk' bs' by simp
    then show ?thesis
      using k fl off step bs Some
      by (subst read_loop.simps) (simp add: ac_simps)
  qed
qed

lemma those_file_bytes_slice:
  assumes "those (map f [0..<n]) = Some bs"
  shows "those (map f [i..<min (i + m) n]) = Some (take m (drop i bs))"
proof -
  have all: "length bs = n \<and> (\<forall>j<n. f j = Some (bs ! j))"
    using assms
  proof (induction n arbitrary: bs)
    case (Suc n)
    have app: "those (xs @ [x]) = Some ys \<longleftrightarrow> (\<exists>zs z. those xs = Some zs \<and> x = Some z \<and> ys = zs @ [z])"
      for xs :: "'a option list" and x ys
      by (induction xs arbitrary: ys) (auto split: option.splits simp: Cons_eq_append_conv)
    show ?case using Suc by (auto simp: app nth_append less_Suc_eq)
  qed simp
  have some: "(\<And>j. j \<in> set js \<Longrightarrow> f j = Some (bs ! j)) \<Longrightarrow> those (map f js) = Some (map ((!) bs) js)" for js
    by (induction js) auto
  have "those (map f [i..<min (i + m) n]) = Some (map ((!) bs) [i..<min (i + m) n])"
    by (rule some) (use all in auto)
  also have "map ((!) bs) [i..<min (i + m) n] = take m (drop i bs)"
    by (rule nth_equalityI) (use all in \<open>auto simp: less_diff_conv add.commute\<close>)
  finally show ?thesis .
qed

lemma those_map_member: "those (map f xs) = Some ys \<Longrightarrow> y \<in> set ys \<Longrightarrow> \<exists>x\<in>set xs. f x = Some y"
  by (induction xs arbitrary: ys) (auto split: option.splits)

lemma length_those: "those xs = Some ys \<Longrightarrow> length ys = length xs"
  by (induction xs arbitrary: ys) (auto split: option.splits)

text \<open>The contract of \<open>read_data\<close>: the bytes of the file from \<open>offset\<close> on, at most \<open>len\<close> of
  them, are stored at \<open>buf\<close>, and their number is returned.\<close>

lemma read_data_slice:
  assumes img: "holds_image s img" and apart: "apart_from_image s img buf (unat len)"
    and bytes: "file_bytes img (unat ino) = Some bytes"
  shows "read_data ino offset buf len s =
     (let out = take (unat len) (drop (unat offset) bytes)
      in map_option (\<lambda>s'. (int (length out), s')) (store_bytes buf out s))"
proof (cases "len = 0")
  case True
  then show ?thesis by (simp add: read_data_def)
next
  case False
  obtain count flen where count: "word_at img 4 = Some count" and ino: "unat ino < unat count"
    and flen: "word_at img ((unat ino + 1) * 4096) = Some flen"
    and those: "those (map (file_byte img (unat ino)) [0..<unat flen]) = Some bytes"
    using bytes by (auto simp: file_bytes_def file_length_def bind_Some_iff split: if_splits)
  have lb: "length bytes = unat flen" using length_those [OF those] by simp
  have inode: "boot_blk s + (ino + 1) * BLOCK_SIZE = inode_addr s (unat ino)"
    by (simp add: inode_addr_def algebra_simps)
  have pre: "inode_count s = Some count" "\<not> ino \<ge> count" "load32 s (inode_addr s (unat ino)) = Some flen"
    using load32_image [OF img count] load32_image [OF img flen] ino
    by (simp_all add: inode_count_def inode_addr_def word_le_nat_alt)
  show ?thesis
  proof (cases "offset \<ge> flen")
    case True
    then have "drop (unat offset) bytes = []" using lb by (simp add: word_le_nat_alt)
    then show ?thesis using False pre True unfolding read_data_def inode by simp
  next
    case off: False
    then have lt: "unat offset < unat flen" by (simp add: word_le_nat_alt)
    let ?d = "boot_blk s + (count + 1) * BLOCK_SIZE"
    have "file_byte img (unat ino) (unat offset) \<noteq> None"
    proof -
      have "those (map (file_byte img (unat ino)) [unat offset..<min (unat offset + 1) (unat flen)]) =
          Some (take 1 (drop (unat offset) bytes))"
        by (rule those_file_bytes_slice [OF those])
      then show ?thesis using lt by (auto split: option.splits)
    qed
    then obtain idx where idx: "word_at img ((unat ino + 1) * 4096 + 4 + 4 * (unat offset div 4096)) = Some idx"
      by (auto elim: file_byteE)
    note dn = u32_div_nat [of offset BLOCK_SIZE, simplified]
    note dm = u32_mod_nat [of offset BLOCK_SIZE, simplified]
    have blk: "blk_ok img (unat ino) ?d (unat offset + 0)
        (offset div BLOCK_SIZE, ?d + idx * BLOCK_SIZE, offset mod BLOCK_SIZE)"
      unfolding dn dm by (rule blk_okI) (use idx in auto)
    have "data_block_num (inode_addr s (unat ino)) (offset div BLOCK_SIZE) s = Some idx"
      unfolding dn by (rule data_block_num_image [OF img idx])
    moreover have "read_loop (inode_addr s (unat ino)) ?d offset buf (unat len) 0
        (offset div BLOCK_SIZE, ?d + idx * BLOCK_SIZE, offset mod BLOCK_SIZE) s =
        map_option (\<lambda>s'. (int (0 + length (take (unat len) (drop (unat offset) bytes))), s'))
          (store_bytes (buf + of_nat 0) (take (unat len) (drop (unat offset) bytes)) s)"
      using those_file_bytes_slice [OF those, of "unat offset" "unat len"] lt unsigned_less [of len, where 'a = nat]
      by (intro read_loop_image [OF count flen img apart _ _ _ blk]) auto
    ultimately show ?thesis
      using False pre off unfolding read_data_def Let_def inode by simp
  qed
qed

subsection \<open>\<open>read_dentry_by_name\<close> is a lookup in the directory\<close>

lemma mem_at_dentry:
  assumes "holds_image s img" "64 + 64 * i + j < length img"
  shows "mem_at s (dentry_addr s (int i)) j = Some (img ! (64 + 64 * i + j))"
proof -
  have eq: "boot_blk s + of_nat (64 + 64 * i + j) = dentry_addr s (int i) + of_nat j"
    by (simp add: dentry_addr_def algebra_simps)
  show ?thesis
    using load8_image [OF assms(1), of "64 + 64 * i + j"] assms(2)
    unfolding eq by (simp add: mem_at_def byte_at_def)
qed

lemma dentry_fields:
  assumes "holds_image s img"
  shows "word_at img (64 + 64 * i + k) = Some w \<Longrightarrow> load32 s (dentry_addr s (int i) + of_nat k) = Some w"
  using load32_image [OF assms, of "64 + 64 * i + k"] by (simp add: dentry_addr_def algebra_simps)

lemma load_bytes_nth:
  "load_bytes s a n = Some bs \<longleftrightarrow> length bs = n \<and> (\<forall>i<n. load8 s (a + of_nat i) = Some (bs ! i))"
proof (induction n arbitrary: a bs)
  case (Suc n)
  show ?case
    by (cases bs) (auto simp: bind_Some_iff Suc algebra_simps less_Suc_eq_0_disj)
qed auto

lemma load_dentry_image:
  assumes img: "holds_image s img" and d: "dir_entry img i = Some d"
  shows "load_dentry s (int i) = Some d"
proof -
  obtain ty ino where f: "word_at img (64 + 64 * i + 32) = Some ty" "word_at img (64 + 64 * i + 36) = Some ino"
    "d = \<lparr>filename = take 32 (drop (64 + 64 * i) img), filetype = sint ty, inode_num = sint ino\<rparr>"
    using d by (auto simp: dir_entry_def bind_Some_iff)
  have "64 + 64 * i + 40 \<le> length img" using f(2) by (simp add: word_at_def split: if_splits)
  then have "load_bytes s (dentry_addr s (int i)) 32 = Some (take 32 (drop (64 + 64 * i) img))"
    unfolding load_bytes_nth using mem_at_dentry [OF img, of i] by (auto simp: mem_at_def)
  then show ?thesis
    using dentry_fields [OF img f(1)] dentry_fields [OF img f(2)] f(3) by (simp add: load_dentry_def)
qed

lemma name_prefix_iff:
  assumes "length xs \<le> 32" "0 \<notin> set xs" and m: "m = length (takeWhile (\<lambda>c. c \<noteq> 0) (take 32 bs))"
    and "32 \<le> length bs"
  shows "(\<forall>j<length xs. xs ! j = bs ! j) \<and> (\<forall>j<m. j \<le> length xs \<longrightarrow> (if j < length xs then xs ! j else 0) = bs ! j)
     \<longleftrightarrow> takeWhile (\<lambda>c. c \<noteq> (0 :: u8)) (take 32 bs) = xs" (is "?L \<longleftrightarrow> ?name = xs")
proof
  have name: "?name = take m bs" "m \<le> 32"
  proof -
    show "m \<le> 32" using length_takeWhile_le [of "\<lambda>c. c \<noteq> 0" "take 32 bs"] m by simp
    then show "?name = take m bs"
      using takeWhile_eq_take [of "\<lambda>c. c \<noteq> 0" "take 32 bs"] m by (simp add: min_def)
  qed
  have nz: "bs ! j \<noteq> 0" if "j < m" for j
  proof -
    have "?name ! j \<in> set ?name" using that m by (intro nth_mem) simp
    then have "?name ! j \<noteq> 0" using set_takeWhileD by fastforce
    then show ?thesis using that name by simp
  qed
  assume L: ?L
  have "length xs \<le> m"
  proof (rule ccontr)
    assume "\<not> length xs \<le> m"
    then have lt: "m < length xs" by simp
    have "m < length (take 32 bs)" using lt assms(1,4) by simp
    then have "take 32 bs ! m = 0"
      using nth_length_takeWhile [of "\<lambda>c. c \<noteq> 0" "take 32 bs"] m by simp
    then have "xs ! m = 0" using L lt assms(1) by simp
    then show False using lt assms(2) nth_mem by fastforce
  qed
  moreover have "m \<le> length xs"
  proof (rule ccontr)
    assume "\<not> m \<le> length xs"
    moreover from L have "length xs < m \<longrightarrow> length xs \<le> length xs \<longrightarrow>
        (if length xs < length xs then xs ! length xs else 0) = bs ! length xs" by blast
    ultimately have "bs ! length xs = 0" by simp
    then show False using nz [of "length xs"] \<open>\<not> m \<le> length xs\<close> by simp
  qed
  ultimately have "m = length xs" by simp
  then show "?name = xs"
    using L name assms(4) by (intro nth_equalityI) auto
next
  assume n: "?name = xs"
  then have "m = length xs" using m by simp
  moreover have "xs ! j = bs ! j" if "j < length xs" for j
    using takeWhile_nth [of j "\<lambda>c. c \<noteq> 0" "take 32 bs"] that n assms(1,4) by simp
  ultimately show ?L by simp
qed

lemma dentry_matches_image:
  assumes img: "holds_image s img" and str: "c_string fname xs" and len: "length xs \<le> 32"
    and d: "dir_entry img i = Some d" and count: "word_at img 4 = Some count"
    and nul: "a < length img" "64 + 64 * i \<le> a" "img ! a = 0"
  shows "dentry_matches fname (length xs) (int i) s =
     Some (inode_num d < sint count \<and> entry_name d = xs)"
proof -
  let ?e = "64 + 64 * i" and ?M = "mem_at s (dentry_addr s (int i))"
  let ?bs = "drop ?e img"
  obtain ty ino where ty: "word_at img (?e + 32) = Some ty" and f: "word_at img (?e + 36) = Some ino"
    "d = \<lparr>filename = take 32 ?bs, filetype = sint ty, inode_num = sint ino\<rparr>"
    using d by (auto simp: dir_entry_def bind_Some_iff)
  have room: "?e + 40 \<le> length img" using f(1) by (simp add: word_at_def split: if_splits)
  have M: "?M j = Some (?bs ! j)" if "?e + j < length img" for j
    using mem_at_dentry [OF img that] that by simp
  let ?l = "length (takeWhile (\<lambda>c. c \<noteq> 0) ?bs)"
  have hit: "a - ?e < length ?bs" "\<not> ?bs ! (a - ?e) \<noteq> 0" using nul by auto
  have "c_string ?M (takeWhile (\<lambda>c. c \<noteq> 0) ?bs)"
    unfolding c_string_def
  proof (intro conjI allI impI)
    note th = takeWhile_hit [where P = "\<lambda>c. c \<noteq> 0", OF hit]
    show "?M j = Some (takeWhile (\<lambda>c. c \<noteq> 0) ?bs ! j)" if "j < ?l" for j
      using M [of j] that th(1) by (simp add: takeWhile_nth)
    show "?M ?l = Some 0" using M [of ?l] th by simp
    show "0 \<notin> set (takeWhile (\<lambda>c. c \<noteq> 0) ?bs)" using set_takeWhileD by fastforce
  qed
  then have sl: "strlen ?M = Some ?l" by (rule strlen_c_string)
  let ?m = "length (takeWhile (\<lambda>c. c \<noteq> 0) (take 32 ?bs))"
  have m: "(if ?l > FILENAME_LEN then FILENAME_LEN else ?l) = ?m"
    by (simp add: takeWhile_take)
  have m32: "?m \<le> 32" by (simp add: takeWhile_take)
  obtain c1 where c1: "strncmp fname ?M (length xs) = Some c1"
    "(c1 = 0) = (\<forall>j<length xs. xs ! j = ?bs ! j)"
    using strncmp_c_string [OF str, of "length xs" ?M "\<lambda>j. ?bs ! j"] M room len by auto
  obtain c2 where c2: "strncmp fname ?M ?m = Some c2"
    "(c2 = 0) = (\<forall>j<?m. j \<le> length xs \<longrightarrow> (if j < length xs then xs ! j else 0) = ?bs ! j)"
    using strncmp_c_string [OF str, of ?m ?M "\<lambda>j. ?bs ! j"] M room m32 by auto
  have iff: "(c1 = 0 \<and> c2 = 0) = (entry_name d = xs)"
    unfolding c1(2) c2(2) entry_name_def
    using name_prefix_iff [OF len _ refl, of ?bs] str room f(2) by (simp add: c_string_def)
  have "load32 s (dentry_addr s (int i) + 36) = Some ino" "inode_count s = Some count"
    using dentry_fields [OF img f(1)] load32_image [OF img count] by (simp_all add: inode_count_def)
  then show ?thesis
    using sl m c1(1) c2(1) iff f(2) unfolding dentry_matches_def Let_def by (auto simp del: length_drop)
qed

definition lookup_result :: "dentry option \<Rightarrow> int \<times> dentry option" where
  "lookup_result r = (case r of None \<Rightarrow> (FAILURE, None) | Some d \<Rightarrow> (SUCCESS, Some d))"

text \<open>Every entry has a NUL somewhere behind its name (in a formatted image, in its own
  reserved bytes), so \<open>strlen\<close> stays inside the image.\<close>

definition names_end :: "u8 list \<Rightarrow> bool" where
  "names_end img \<longleftrightarrow> (\<forall>n. word_at img 0 = Some n \<longrightarrow>
     (\<forall>i<nat (sint n). \<exists>a<length img. 64 + 64 * i \<le> a \<and> img ! a = 0))"

lemma dentry_search_image:
  assumes img: "holds_image s img" and str: "c_string fname xs" and len: "length xs \<le> 32"
    and n: "word_at img 0 = Some n" and count: "word_at img 4 = Some count" and nul: "names_end img"
  shows "i \<le> nat (sint n) \<Longrightarrow> those (map (dir_entry img) [i..<nat (sint n)]) = Some ds \<Longrightarrow>
     dentry_search fname (length xs) (int i) s =
       Some (lookup_result (List.find (\<lambda>d. inode_num d < sint count \<and> entry_name d = xs) ds))"
proof (induction "nat (sint n) - i" arbitrary: i ds)
  have dc: "dir_count s = Some (sint n)" using load32_image [OF img n] by (simp add: dir_count_def)
  {
    case 0
    then show ?case using dc by (subst dentry_search.simps) (auto simp: lookup_result_def)
  next
    case (Suc k)
    then have lt: "i < nat (sint n)" by simp
    obtain d ds' where d: "dir_entry img i = Some d" "ds = d # ds'"
      and ds': "those (map (dir_entry img) [Suc i..<nat (sint n)]) = Some ds'"
      using those_upt_Cons [OF Suc.prems(2) lt] by blast
    obtain a where "a < length img" "64 + 64 * i \<le> a" "img ! a = 0"
      using nul n lt by (auto simp: names_end_def)
    then have m: "dentry_matches fname (length xs) (int i) s =
        Some (inode_num d < sint count \<and> entry_name d = xs)"
      by (rule dentry_matches_image [OF img str len d(1) count])
    have "dentry_search fname (length xs) (int (Suc i)) s =
        Some (lookup_result (List.find (\<lambda>d. inode_num d < sint count \<and> entry_name d = xs) ds'))"
      by (rule Suc.hyps(1)) (use Suc.hyps(2) lt ds' in auto)
    moreover have "int i < sint n" using lt by linarith
    ultimately show ?case
      using dc m load_dentry_image [OF img d(1)] d(2)
      by (subst dentry_search.simps) (simp add: lookup_result_def add.commute)
  }
qed

lemma read_dentry_by_name_lookup:
  assumes img: "holds_image s img" and str: "c_string fname xs" and nul: "names_end img"
    and dir: "directory img = Some ds" and count: "word_at img 4 = Some count"
  shows "read_dentry_by_name fname s = Some (lookup_result (lookup_name img xs))"
proof -
  obtain n where n: "word_at img 0 = Some n" and ds: "those (map (dir_entry img) [0..<nat (sint n)]) = Some ds"
    using dir by (auto simp: directory_def bind_Some_iff)
  show ?thesis
  proof (cases "length xs \<le> 32")
    case True
    then show ?thesis
      using dentry_search_image [OF img str True n count nul, of 0 ds] ds
      by (simp add: read_dentry_by_name_def strlen_c_string [OF str] lookup_name_def dir count)
  next
    case False
    have "length (entry_name d) \<le> 32" if mem: "d \<in> set ds" for d
    proof -
      obtain i where "dir_entry img i = Some d"
        using those_map_member [OF ds mem] by blast
      then have "length (filename d) \<le> 32" by (auto simp: dir_entry_def bind_Some_iff)
      then show ?thesis using length_takeWhile_le [of "\<lambda>c. c \<noteq> 0" "filename d"] by (simp add: entry_name_def)
    qed
    then have "List.find (\<lambda>d. inode_num d < sint count \<and> entry_name d = xs) ds = None"
      using False by (auto simp: find_None_iff)
    then show ?thesis
      using False by (simp add: read_dentry_by_name_def strlen_c_string [OF str] lookup_name_def dir count
          lookup_result_def)
  qed
qed

end
