(* ===== verification/Pcb.thy ===== *)
theory Pcb
  imports FileSys
begin

text \<open>
  Process control blocks (pcb.h, pcb.c), file descriptors and the tables of file operations
  (file.h), and the state of the processes. A PCB lies at a fixed address at the top of the
  kernel page, \<open>pid_array\<close> holds these addresses with NULL for a free PID, and
  \<open>active_pid\<close> the PID that runs in each of the three process groups. A null pointer
  dereference and an index outside an array give \<open>None\<close>.

  The PCBs are kept as records at their addresses, apart from the bytes of \<open>phys\<close>; the field
  names carry a prefix (\<open>p_\<close> for \<open>pcb_t\<close>, \<open>f_\<close> for \<open>file_t\<close>, \<open>op_\<close> for
  \<open>file_op_table_t\<close>).
\<close>

text \<open>The functions that op tables point to, and the five tables of the kernel.\<close>

datatype read_fn = Term_read | File_read | Dir_read | Rtc_read
datatype write_fn = Term_write | File_write | Dir_write | Rtc_write
datatype open_fn = Term_open | File_open | Dir_open | Rtc_open
datatype close_fn = Term_close | File_close | Dir_close | Rtc_close

record file_op_table =
  op_read :: "read_fn option"
  op_write :: "write_fn option"
  op_open :: "open_fn option"
  op_close :: "close_fn option"

datatype op_table = Stdin_ops | Stdout_ops | File_type_ops | Dir_type_ops | Rtc_type_ops

record file_t =
  f_ops :: "op_table option"
  f_inode :: u32
  f_position :: u32
  f_flags :: u32

record pcb =
  p_pid :: int
  p_parent_pid :: int
  p_esp :: u32
  p_ebp :: u32
  p_eip :: u32
  p_kernel_esp :: u32
  p_kernel_ebp :: u32
  p_tss_esp0 :: u32
  p_fd_table :: "file_t list"
  p_args :: "u8 list"
  p_args_len :: u8
  p_vid_map_called :: u8

abbreviation (input) MAX_PROCESS_GROUPS :: nat where "MAX_PROCESS_GROUPS \<equiv> 3"
abbreviation (input) MAX_PID :: nat where "MAX_PID \<equiv> 7"
abbreviation (input) FD_ARRAY_SIZE :: nat where "FD_ARRAY_SIZE \<equiv> 8"
abbreviation (input) PCB_BLK_SIZE :: u32 where "PCB_BLK_SIZE \<equiv> 0x2000"
abbreviation (input) NOT_IN_USE :: u32 where "NOT_IN_USE \<equiv> 0"
abbreviation (input) IN_USE :: u32 where "IN_USE \<equiv> 1"
abbreviation (input) TERM_BUFFER_SIZE :: nat where "TERM_BUFFER_SIZE \<equiv> 128"

text \<open>A PCB after \<open>memset(pcb, 0, sizeof(pcb_t))\<close>.\<close>

definition zero_file :: file_t where
  "zero_file = \<lparr>f_ops = None, f_inode = 0, f_position = 0, f_flags = NOT_IN_USE\<rparr>"

definition zero_pcb :: pcb where
  "zero_pcb = \<lparr>p_pid = 0, p_parent_pid = 0, p_esp = 0, p_ebp = 0, p_eip = 0, p_kernel_esp = 0,
     p_kernel_ebp = 0, p_tss_esp0 = 0, p_fd_table = replicate FD_ARRAY_SIZE zero_file,
     p_args = replicate TERM_BUFFER_SIZE 0, p_args_len = 0, p_vid_map_called = 0\<rparr>"

record procs = fs +
  pid_array :: "u32 list"
  active_pid :: "int list"
  pcb_mem :: "u32 \<Rightarrow> pcb"
  current_group :: int
  visible_group :: int
  tss_ss0 :: u32
  tss_esp0 :: u32
  op_tables :: "op_table \<Rightarrow> file_op_table"

subsection \<open>Pointers\<close>

definition get_pcb :: "u32 \<Rightarrow> 'a procs_scheme \<Rightarrow> pcb option" where
  "get_pcb p s = (if p = 0 then None else Some (pcb_mem s p))"

definition put_pcb :: "u32 \<Rightarrow> (pcb \<Rightarrow> pcb) \<Rightarrow> 'a procs_scheme \<Rightarrow> 'a procs_scheme option" where
  "put_pcb p f s =
     (if p = 0 then None else Some (s\<lparr>pcb_mem := (pcb_mem s)(p := f (pcb_mem s p))\<rparr>))"

definition get_fd :: "u32 \<Rightarrow> int \<Rightarrow> 'a procs_scheme \<Rightarrow> file_t option" where
  "get_fd p fd s = do { pcb \<leftarrow> get_pcb p s; arr_get (p_fd_table pcb) fd }"

definition put_fd :: "u32 \<Rightarrow> int \<Rightarrow> (file_t \<Rightarrow> file_t) \<Rightarrow> 'a procs_scheme \<Rightarrow> 'a procs_scheme option" where
  "put_fd p fd f s = do {
     pcb \<leftarrow> get_pcb p s;
     file \<leftarrow> arr_get (p_fd_table pcb) fd;
     tab \<leftarrow> arr_set (p_fd_table pcb) fd (f file);
     put_pcb p (\<lambda>pcb. pcb\<lparr>p_fd_table := tab\<rparr>) s
   }"

subsection \<open>The functions of pcb.c and scheduler.c that only read the state\<close>

definition get_current_group :: "'a procs_scheme \<Rightarrow> int" where
  "get_current_group s = current_group s"

definition set_current_group :: "int \<Rightarrow> 'a procs_scheme \<Rightarrow> 'a procs_scheme" where
  "set_current_group pid s = s\<lparr>current_group := pid\<rparr>"

definition scheduler_init :: "'a procs_scheme \<Rightarrow> 'a procs_scheme" where
  "scheduler_init s = s\<lparr>current_group := 0\<rparr>"

definition get_current_pcb :: "'a procs_scheme \<Rightarrow> u32 option" where
  "get_current_pcb s = do {
     pid \<leftarrow> arr_get (active_pid s) (get_current_group s);
     arr_get (pid_array s) pid
   }"

definition get_pcb_addr :: "int \<Rightarrow> u32" where
  "get_pcb_addr pid =
     (if pid < 0 \<or> pid \<ge> int MAX_PID then 0
      else KERNEL_LOC_END - PCB_BLK_SIZE * word_of_int (pid + 1))"

definition get_kstack_addr :: "int \<Rightarrow> u32" where
  "get_kstack_addr pid =
     (if pid < 0 \<or> pid \<ge> int MAX_PID then 0
      else KERNEL_LOC_END - PCB_BLK_SIZE * word_of_int pid - 4)"

text \<open>The two allocation loops, from index \<open>i\<close> on.\<close>

fun new_fd_from :: "nat \<Rightarrow> nat \<Rightarrow> 'a procs_scheme \<Rightarrow> int option" where
  "new_fd_from fd 0 s = Some FAILURE"
| "new_fd_from fd (Suc k) s = do {
     p \<leftarrow> get_current_pcb s;
     file \<leftarrow> get_fd p (int fd) s;
     if f_flags file = NOT_IN_USE then Some (int fd) else new_fd_from (Suc fd) k s
   }"

definition get_new_fd :: "'a procs_scheme \<Rightarrow> int option" where
  "get_new_fd s = new_fd_from 0 FD_ARRAY_SIZE s"

fun new_pid_from :: "nat \<Rightarrow> nat \<Rightarrow> 'a procs_scheme \<Rightarrow> int option" where
  "new_pid_from pid 0 s = Some FAILURE"
| "new_pid_from pid (Suc k) s = do {
     p \<leftarrow> arr_get (pid_array s) (int pid);
     if p = 0 then Some (int pid) else new_pid_from (Suc pid) k s
   }"

definition get_new_pid :: "'a procs_scheme \<Rightarrow> int option" where
  "get_new_pid s = new_pid_from 0 MAX_PID s"

subsection \<open>Pointer lemmas\<close>

lemma get_put_pcb: "put_pcb p f s = Some s' \<Longrightarrow>
    get_pcb q s' = (if q = p then map_option f (get_pcb q s) else get_pcb q s)"
  by (auto simp: put_pcb_def get_pcb_def split: if_splits)

text \<open>Everything but the contents of the PCBs.\<close>

definition procs_rest :: "'a procs_scheme \<Rightarrow> 'a procs_scheme" where
  "procs_rest s = s\<lparr>pcb_mem := (\<lambda>_. zero_pcb)\<rparr>"

lemma procs_rest_pcb_mem [simp]: "procs_rest (s\<lparr>pcb_mem := m\<rparr>) = procs_rest s"
  by (simp add: procs_rest_def)

lemma procs_rest_put_pcb: "put_pcb p f s = Some s' \<Longrightarrow> procs_rest s' = procs_rest s"
  by (auto simp: put_pcb_def split: if_splits)

lemma procs_rest_put_fd: "put_fd p fd f s = Some s' \<Longrightarrow> procs_rest s' = procs_rest s"
  by (auto simp: put_fd_def bind_Some_iff procs_rest_put_pcb)

lemma procs_rest_fields:
  assumes "procs_rest t = procs_rest s"
  shows "pid_array t = pid_array s" "active_pid t = active_pid s" "current_group t = current_group s"
    and "visible_group t = visible_group s" "op_tables t = op_tables s" "boot_blk t = boot_blk s"
    and "phys t = phys s" "procs.more t = procs.more s" "tss_esp0 t = tss_esp0 s"
    and "page_directory t = page_directory s" "page_table_0 t = page_table_0 s" "pt0_addr t = pt0_addr s"
proof -
  have f: "g (procs_rest t) = g (procs_rest s)" for g :: "'a procs_scheme \<Rightarrow> 'b"
    using assms by simp
  show "pid_array t = pid_array s" "active_pid t = active_pid s" "current_group t = current_group s"
    "visible_group t = visible_group s" "op_tables t = op_tables s" "boot_blk t = boot_blk s"
    "phys t = phys s" "procs.more t = procs.more s" "tss_esp0 t = tss_esp0 s"
    "page_directory t = page_directory s" "page_table_0 t = page_table_0 s" "pt0_addr t = pt0_addr s"
    using f [of pid_array] f [of active_pid] f [of current_group] f [of visible_group]
      f [of op_tables] f [of boot_blk] f [of phys] f [of procs.more] f [of tss_esp0]
      f [of page_directory] f [of page_table_0] f [of pt0_addr]
    by (simp_all add: procs_rest_def)
qed

lemma get_current_pcb_rest:
  assumes "procs_rest t = procs_rest s"
  shows "get_current_pcb t = get_current_pcb s"
  by (simp add: get_current_pcb_def get_current_group_def procs_rest_fields [OF assms])

subsection \<open>Where PCBs and kernel stacks lie\<close>

lemma pid_cases: "0 \<le> pid \<Longrightarrow> pid < 7 \<Longrightarrow> pid \<in> {0, 1, 2, 3, 4, 5, 6 :: int}"
  by (simp only: insert_iff empty_iff) presburger

lemma get_pcb_addr_nonzero: "0 \<le> pid \<Longrightarrow> pid < 7 \<Longrightarrow> get_pcb_addr pid \<noteq> 0"
  using pid_cases [of pid] by (auto simp: get_pcb_addr_def)

lemma get_pcb_addr_inj:
  "0 \<le> i \<Longrightarrow> i < 7 \<Longrightarrow> 0 \<le> j \<Longrightarrow> j < 7 \<Longrightarrow> (get_pcb_addr i = get_pcb_addr j) = (i = j)"
  using pid_cases [of i] pid_cases [of j] by (auto simp: get_pcb_addr_def)

text \<open>The 8 KB block of a PID: the PCB at its lower end, the kernel stack growing down from its
  upper end. Blocks of different PIDs share no address.\<close>

lemma block_layout:
  assumes "0 \<le> pid" "pid < 7"
  shows "uint (get_pcb_addr pid) = 0x800000 - 0x2000 * (pid + 1)"
    and "uint (get_kstack_addr pid) = 0x800000 - 0x2000 * pid - 4"
  using pid_cases [OF assms] by (auto simp: get_pcb_addr_def get_kstack_addr_def)

subsection \<open>Allocation of PIDs and descriptors\<close>

text \<open>Both loops find the first free slot. The client works with the interface: a table, a
  notion of a free slot, and the number of the first one.\<close>

fun first_free :: "('b \<Rightarrow> bool) \<Rightarrow> 'b list \<Rightarrow> nat \<Rightarrow> int" where
  "first_free free [] i = FAILURE"
| "first_free free (x # xs) i = (if free x then int i else first_free free xs (Suc i))"

lemma new_pid_from_eq:
  "new_pid_from i (length (pid_array s) - i) s = Some (first_free (\<lambda>p. p = 0) (drop i (pid_array s)) i)"
proof (induction "length (pid_array s) - i" arbitrary: i)
  case 0
  then show ?case by simp
next
  case (Suc k)
  then have i: "i < length (pid_array s)" and k: "length (pid_array s) - Suc i = k" by simp_all
  have "new_pid_from (Suc i) k s = Some (first_free (\<lambda>p. p = 0) (drop (Suc i) (pid_array s)) (Suc i))"
    using Suc.hyps(1) [of "Suc i"] k by simp
  then show ?case
    unfolding Suc.hyps(2) [symmetric] using i by (simp add: Cons_nth_drop_Suc [symmetric])
qed

lemma get_new_pid_eq:
  "length (pid_array s) = MAX_PID \<Longrightarrow> get_new_pid s = Some (first_free (\<lambda>p. p = 0) (pid_array s) 0)"
  using new_pid_from_eq [of 0 s] by (simp add: get_new_pid_def)

lemma new_fd_from_eq:
  assumes "get_current_pcb s = Some p" "get_pcb p s = Some pcb"
  shows "new_fd_from i (length (p_fd_table pcb) - i) s =
     Some (first_free (\<lambda>f. f_flags f = NOT_IN_USE) (drop i (p_fd_table pcb)) i)"
proof (induction "length (p_fd_table pcb) - i" arbitrary: i)
  case 0
  then show ?case by simp
next
  case (Suc k)
  then have i: "i < length (p_fd_table pcb)" and k: "length (p_fd_table pcb) - Suc i = k" by simp_all
  have "new_fd_from (Suc i) k s =
      Some (first_free (\<lambda>f. f_flags f = NOT_IN_USE) (drop (Suc i) (p_fd_table pcb)) (Suc i))"
    using Suc.hyps(1) [of "Suc i"] k by simp
  then show ?case
    unfolding Suc.hyps(2) [symmetric]
    using i assms by (simp add: Cons_nth_drop_Suc [symmetric] get_fd_def)
qed

lemma get_new_fd_eq:
  assumes "get_current_pcb s = Some p" "get_pcb p s = Some pcb" "length (p_fd_table pcb) = FD_ARRAY_SIZE"
  shows "get_new_fd s = Some (first_free (\<lambda>f. f_flags f = NOT_IN_USE) (p_fd_table pcb) 0)"
  using new_fd_from_eq [OF assms(1,2), of 0] assms(3) by (simp add: get_new_fd_def)

lemma first_free_cases:
  "first_free free xs i = FAILURE \<and> (\<forall>x\<in>set xs. \<not> free x) \<or>
   (\<exists>k<length xs. first_free free xs i = int (i + k) \<and> free (xs ! k) \<and> (\<forall>j<k. \<not> free (xs ! j)))"
proof (induction free xs i rule: first_free.induct)
  case (2 free x xs i)
  show ?case
  proof (cases "free x")
    case False
    from 2 [OF False] show ?thesis
    proof
      assume "\<exists>k<length xs. first_free free xs (Suc i) = int (Suc i + k) \<and> free (xs ! k) \<and> (\<forall>j<k. \<not> free (xs ! j))"
      then obtain k where "k < length xs" "first_free free xs (Suc i) = int (Suc i + k)" "free (xs ! k)"
        "\<forall>j<k. \<not> free (xs ! j)" by blast
      then have "Suc k < length (x # xs)" "first_free free (x # xs) i = int (i + Suc k)"
        "free ((x # xs) ! Suc k)" "\<forall>j<Suc k. \<not> free ((x # xs) ! j)"
        using False by (auto simp: less_Suc_eq_0_disj)
      then show ?thesis by blast
    qed (use False in simp)
  qed (auto intro!: exI [of _ 0])
qed simp

end
