(* ===== verification/Files.thy ===== *)
theory Files
  imports Pcb
begin

text \<open>
  The operations of regular files and of the directory on a file descriptor (file_sys.c), and
  the contract that the \<open>close\<close> functions of all drivers keep (the locale \<open>fd_closer\<close>).
\<close>

definition file_type_table :: file_op_table where
  "file_type_table = \<lparr>op_read = Some File_read, op_write = Some File_write, op_open = Some File_open,
     op_close = Some File_close\<rparr>"

definition dir_type_table :: file_op_table where
  "dir_type_table = \<lparr>op_read = Some Dir_read, op_write = Some Dir_write, op_open = Some Dir_open,
     op_close = Some Dir_close\<rparr>"

definition file_sys_init :: "u32 \<Rightarrow> 'a procs_scheme \<Rightarrow> 'a procs_scheme" where
  "file_sys_init file_sys_img s =
     (let s = s\<lparr>boot_blk := file_sys_img\<rparr>;
          s = s\<lparr>op_tables := (op_tables s)(File_type_ops := file_type_table)\<rparr>
      in s\<lparr>op_tables := (op_tables s)(Dir_type_ops := dir_type_table)\<rparr>)"

definition file_open :: "'a procs_scheme \<Rightarrow> (int \<times> 'a procs_scheme) option" where
  "file_open s = Some (SUCCESS, s)"

definition file_read :: "int \<Rightarrow> u32 \<Rightarrow> int \<Rightarrow> 'a procs_scheme \<Rightarrow> (int \<times> 'a procs_scheme) option" where
  "file_read fd buf nbytes s = do {
     p \<leftarrow> get_current_pcb s;
     if fd < 0 \<or> fd \<ge> int FD_ARRAY_SIZE then Some (FAILURE, s)
     else do {
       file \<leftarrow> get_fd p fd s;
       if f_flags file = NOT_IN_USE \<or> buf = 0 \<or> nbytes < 0 then Some (FAILURE, s)
       else do {
         (bytes_read, s) \<leftarrow> read_data (f_inode file) (f_position file) buf (word_of_int nbytes) s;
         if bytes_read = FAILURE then Some (FAILURE, s)
         else do {
           s \<leftarrow> put_fd p fd (\<lambda>f. f\<lparr>f_position := f_position f + word_of_int bytes_read\<rparr>) s;
           Some (bytes_read, s)
         }
       }
     }
   }"

definition file_write :: "int \<Rightarrow> u32 \<Rightarrow> int \<Rightarrow> 'a procs_scheme \<Rightarrow> (int \<times> 'a procs_scheme) option" where
  "file_write fd buf nbytes s = Some (FAILURE, s)"

definition clear_fd :: "file_t \<Rightarrow> file_t" where
  "clear_fd f = f\<lparr>f_ops := None, f_flags := NOT_IN_USE\<rparr>"

definition file_close :: "int \<Rightarrow> 'a procs_scheme \<Rightarrow> (int \<times> 'a procs_scheme) option" where
  "file_close fd s = do {
     p \<leftarrow> get_current_pcb s;
     if fd < 0 \<or> fd \<ge> int FD_ARRAY_SIZE then Some (FAILURE, s)
     else do {
       file \<leftarrow> get_fd p fd s;
       if f_flags file = NOT_IN_USE then Some (FAILURE, s)
       else do { s \<leftarrow> put_fd p fd clear_fd s; Some (SUCCESS, s) }
     }
   }"

definition dir_open :: "'a procs_scheme \<Rightarrow> (int \<times> 'a procs_scheme) option" where
  "dir_open s = Some (SUCCESS, s)"

definition dir_read :: "int \<Rightarrow> u32 \<Rightarrow> int \<Rightarrow> 'a procs_scheme \<Rightarrow> (int \<times> 'a procs_scheme) option" where
  "dir_read fd buf nbytes s =
     (if fd < 0 \<or> fd \<ge> int FD_ARRAY_SIZE \<or> buf = 0 \<or> nbytes < 0 then Some (FAILURE, s)
      else do {
        let num_bytes = (if nbytes < int FILENAME_LEN then nat nbytes else FILENAME_LEN);
        p \<leftarrow> get_current_pcb s;
        file \<leftarrow> get_fd p fd s;
        let dentry_num = f_position file;
        count \<leftarrow> dir_count s;
        if dentry_num \<ge> word_of_int count then Some (0, s)
        else do {
          s \<leftarrow> strncpy buf (dentry_addr s (uint dentry_num)) num_bytes s;
          s \<leftarrow> put_fd p fd (\<lambda>f. f\<lparr>f_position := f_position f + 1\<rparr>) s;
          Some (int num_bytes, s)
        }
      })"

definition dir_write :: "int \<Rightarrow> u32 \<Rightarrow> int \<Rightarrow> 'a procs_scheme \<Rightarrow> (int \<times> 'a procs_scheme) option" where
  "dir_write fd buf nbytes s = file_write fd buf nbytes s"

definition dir_close :: "int \<Rightarrow> 'a procs_scheme \<Rightarrow> (int \<times> 'a procs_scheme) option" where
  "dir_close fd s = file_close fd s"

subsection \<open>Descriptors of the current process\<close>

text \<open>The current process is sound: its PCB exists and has its eight descriptors.\<close>

definition current_ok :: "'a procs_scheme \<Rightarrow> u32 \<Rightarrow> bool" where
  "current_ok s p \<longleftrightarrow> get_current_pcb s = Some p \<and> p \<noteq> 0 \<and>
     length (p_fd_table (pcb_mem s p)) = FD_ARRAY_SIZE"

definition fd_at :: "'a procs_scheme \<Rightarrow> u32 \<Rightarrow> nat \<Rightarrow> file_t" where
  "fd_at s p fd = p_fd_table (pcb_mem s p) ! fd"

text \<open>The state with one descriptor of \<open>p\<close> replaced.\<close>

definition with_fd :: "u32 \<Rightarrow> nat \<Rightarrow> (file_t \<Rightarrow> file_t) \<Rightarrow> 'a procs_scheme \<Rightarrow> 'a procs_scheme" where
  "with_fd p fd f s = s\<lparr>pcb_mem := (pcb_mem s)(p := (pcb_mem s p)
     \<lparr>p_fd_table := (p_fd_table (pcb_mem s p))[fd := f (fd_at s p fd)]\<rparr>)\<rparr>"

lemma get_fd_current: "current_ok s p \<Longrightarrow> fd < 8 \<Longrightarrow> get_fd p (int fd) s = Some (fd_at s p fd)"
  by (simp add: get_fd_def get_pcb_def current_ok_def fd_at_def)

lemma put_fd_current: "current_ok s p \<Longrightarrow> fd < 8 \<Longrightarrow> put_fd p (int fd) f s = Some (with_fd p fd f s)"
  by (simp add: put_fd_def get_pcb_def put_pcb_def current_ok_def fd_at_def with_fd_def)

lemma procs_rest_with_fd [simp]: "procs_rest (with_fd p fd f s) = procs_rest s"
  by (simp add: with_fd_def)

lemma fd_at_with_fd:
  "current_ok s p \<Longrightarrow> i < 8 \<Longrightarrow> j < 8 \<Longrightarrow>
     fd_at (with_fd p i f s) p j = (if i = j then f (fd_at s p i) else fd_at s p j)"
  by (simp add: fd_at_def with_fd_def current_ok_def)

lemma current_ok_with_fd [simp]: "current_ok (with_fd p fd f s) q = current_ok s q"
  by (auto simp: current_ok_def with_fd_def get_current_pcb_def get_current_group_def)

lemma current_ok_frame:
  assumes "procs_rest t = procs_rest s" "length (p_fd_table (pcb_mem t p)) = length (p_fd_table (pcb_mem s p))"
  shows "current_ok t p = current_ok s p"
  by (simp add: current_ok_def get_current_pcb_rest [OF assms(1)] assms(2))

text \<open>The lowest descriptor that is free is the one allocated.\<close>

definition lowest_free :: "'a procs_scheme \<Rightarrow> u32 \<Rightarrow> nat \<Rightarrow> bool" where
  "lowest_free s p fd \<longleftrightarrow> fd < 8 \<and> f_flags (fd_at s p fd) = NOT_IN_USE \<and>
     (\<forall>j<fd. f_flags (fd_at s p j) \<noteq> NOT_IN_USE)"

lemma get_new_fd_lowest:
  assumes cur: "current_ok s p" and fd: "lowest_free s p k"
  shows "get_new_fd s = Some (int k)"
proof -
  let ?tab = "p_fd_table (pcb_mem s p)"
  have len: "length ?tab = 8" and gp: "get_current_pcb s = Some p" "get_pcb p s = Some (pcb_mem s p)"
    using cur by (simp_all add: current_ok_def get_pcb_def)
  have k: "k < 8" "f_flags (?tab ! k) = NOT_IN_USE" "\<forall>j<k. f_flags (?tab ! j) \<noteq> NOT_IN_USE"
    using fd by (simp_all add: lowest_free_def fd_at_def)
  have "first_free (\<lambda>f. f_flags f = NOT_IN_USE) ?tab 0 = int k"
    using first_free_cases [of "\<lambda>f. f_flags f = NOT_IN_USE" ?tab 0]
  proof
    assume "\<exists>j<length ?tab. first_free (\<lambda>f. f_flags f = NOT_IN_USE) ?tab 0 = int (0 + j) \<and>
        f_flags (?tab ! j) = NOT_IN_USE \<and> (\<forall>i<j. f_flags (?tab ! i) \<noteq> NOT_IN_USE)"
    then obtain j where "first_free (\<lambda>f. f_flags f = NOT_IN_USE) ?tab 0 = int j"
      "f_flags (?tab ! j) = NOT_IN_USE" "\<forall>i<j. f_flags (?tab ! i) \<noteq> NOT_IN_USE" by auto
    then show ?thesis using k by (metis linorder_neqE_nat)
  qed (use k len in simp)
  then show ?thesis using get_new_fd_eq [OF gp len] by simp
qed

subsection \<open>Reading a file through its descriptor\<close>

lemma store_bytes_same_but_phys:
  "store_bytes a bs s = Some s' \<Longrightarrow> \<exists>f. s' = s\<lparr>phys := f\<rparr>"
proof (induction bs arbitrary: a s)
  case Nil
  then show ?case by (auto intro: exI [of _ "phys s"])
next
  case (Cons b bs)
  then obtain t where "store8 a b s = Some t" "store_bytes (a + 1) bs t = Some s'"
    by (auto simp: bind_Some_iff)
  then show ?case using Cons.IH [of "a + 1" t] by (auto dest!: store8_Some)
qed

lemma current_ok_phys [simp]: "current_ok (s\<lparr>phys := f\<rparr>) p = current_ok s p"
  by (simp add: current_ok_def get_current_pcb_def get_current_group_def)

lemma file_read_slice:
  assumes cur: "current_ok s p" and fd: "fd < 8" "f_flags (fd_at s p fd) \<noteq> NOT_IN_USE"
    and args: "buf \<noteq> 0" "0 \<le> n" "n < 2 ^ 31"
    and img: "holds_image s img" "apart_from_image s img buf (nat n)"
    and content: "file_bytes img (unat (f_inode (fd_at s p fd))) = Some bytes"
  shows "file_read (int fd) buf n s =
     (let out = take (nat n) (drop (unat (f_position (fd_at s p fd))) bytes)
      in map_option (\<lambda>t. (int (length out), with_fd p fd (\<lambda>f. f\<lparr>f_position := f_position f + of_nat (length out)\<rparr>) t))
           (store_bytes buf out s))"
proof -
  have n: "unat (word_of_int n :: u32) = nat n"
    using args unat_of_nat_u32 [of "nat n"] by simp
  define out where "out = take (nat n) (drop (unat (f_position (fd_at s p fd))) bytes)"
  have rd: "read_data (f_inode (fd_at s p fd)) (f_position (fd_at s p fd)) buf (word_of_int n) s =
      map_option (\<lambda>t. (int (length out), t)) (store_bytes buf out s)"
    using read_data_slice [OF img(1) _ content, of buf "word_of_int n"] img(2) n
    by (simp add: out_def Let_def)
  have gp: "get_current_pcb s = Some p" using cur by (simp add: current_ok_def)
  show ?thesis
  proof (cases "store_bytes buf out s")
    case None
    then show ?thesis using gp fd args rd get_fd_current [OF cur fd(1)]
      by (simp add: file_read_def out_def [symmetric] Let_def)
  next
    case (Some t)
    then obtain m where t: "t = s\<lparr>phys := m\<rparr>" using store_bytes_same_but_phys by blast
    then have "current_ok t p" using cur by simp
    then show ?thesis using gp fd args rd get_fd_current [OF cur fd(1)] Some
      by (simp add: file_read_def out_def [symmetric] Let_def put_fd_current)
  qed
qed

subsection \<open>Closing: the contract of a driver\<close>

text \<open>Closing a descriptor in use succeeds and frees that descriptor and nothing else.\<close>

locale fd_closer =
  fixes close :: "int \<Rightarrow> 'a procs_scheme \<Rightarrow> (int \<times> 'a procs_scheme) option"
  assumes close_in_use: "current_ok s p \<Longrightarrow> fd < 8 \<Longrightarrow> f_flags (fd_at s p fd) \<noteq> NOT_IN_USE \<Longrightarrow>
      close (int fd) s = Some (SUCCESS, with_fd p fd clear_fd s)"
    and close_range: "current_ok s p \<Longrightarrow> k < 0 \<or> k \<ge> 8 \<Longrightarrow> close k s = Some (FAILURE, s)"
begin

lemma close_frees:
  assumes "current_ok s p" "fd < 8" "f_flags (fd_at s p fd) \<noteq> NOT_IN_USE"
  shows "\<exists>t. close (int fd) s = Some (SUCCESS, t) \<and> f_flags (fd_at t p fd) = NOT_IN_USE \<and>
     (\<forall>j<8. j \<noteq> fd \<longrightarrow> fd_at t p j = fd_at s p j) \<and> procs_rest t = procs_rest s"
  using close_in_use [OF assms] assms by (auto simp: fd_at_with_fd clear_fd_def)

end

lemma file_close_in_use:
  assumes "current_ok s p" "fd < 8" "f_flags (fd_at s p fd) \<noteq> NOT_IN_USE"
  shows "file_close (int fd) s = Some (SUCCESS, with_fd p fd clear_fd s)"
  using assms get_fd_current [OF assms(1,2)] put_fd_current [OF assms(1,2)]
  by (simp add: file_close_def current_ok_def)

lemma file_close_range: "current_ok s p \<Longrightarrow> fd < 0 \<or> fd \<ge> 8 \<Longrightarrow> file_close fd s = Some (FAILURE, s)"
  by (auto simp: file_close_def current_ok_def)

interpretation file_closer: fd_closer file_close
  by unfold_locales (simp_all add: file_close_in_use file_close_range)

interpretation dir_closer: fd_closer dir_close
  by unfold_locales (simp_all add: dir_close_def file_close_in_use file_close_range)

end
