(* ===== verification/Term.thy ===== *)
theory Term
  imports Files
begin

text \<open>
  The terminals (term.c): one line buffer and saved cursor per process group, the terminal that
  is on the screen (\<open>visible_group\<close>), and the driver behind stdin and stdout.

  A busy-wait loop is \<open>spin\<close>: the parameter \<open>idle\<close> is what the machine does between two
  iterations (interrupt handlers, other processes); a loop that never ends has the value
  \<open>None\<close>.
\<close>

record term_struct =
  read_in_progress :: u8
  newline_seen :: u8
  term_buff :: "u8 list"
  term_buff_size :: nat
  cursor_x :: int
  cursor_y :: int

record terminals = procs +
  terms :: "term_struct list"

abbreviation (input) TAB_SIZE :: nat where "TAB_SIZE \<equiv> 4"
abbreviation (input) PAGE_SIZE :: nat where "PAGE_SIZE \<equiv> 4096"

definition get_term :: "int \<Rightarrow> 'a terminals_scheme \<Rightarrow> term_struct option" where
  "get_term g s = arr_get (terms s) g"

definition put_term :: "int \<Rightarrow> (term_struct \<Rightarrow> term_struct) \<Rightarrow> 'a terminals_scheme \<Rightarrow> 'a terminals_scheme option" where
  "put_term g f s = do {
     t \<leftarrow> arr_get (terms s) g;
     ts \<leftarrow> arr_set (terms s) g (f t);
     Some (s\<lparr>terms := ts\<rparr>)
   }"

partial_function (option) spin :: "('s \<Rightarrow> bool option) \<Rightarrow> ('s \<Rightarrow> 's option) \<Rightarrow> 's \<Rightarrow> 's option" where
  "spin cond idle s = do { b \<leftarrow> cond s; if b then Some s else do { s' \<leftarrow> idle s; spin cond idle s' } }"

declare spin.simps [code]

subsection \<open>Initialisation\<close>

definition stdin_table :: file_op_table where
  "stdin_table = \<lparr>op_read = Some Term_read, op_write = None, op_open = Some Term_open, op_close = Some Term_close\<rparr>"

definition stdout_table :: file_op_table where
  "stdout_table = \<lparr>op_read = None, op_write = Some Term_write, op_open = Some Term_open, op_close = Some Term_close\<rparr>"

definition term_init :: "'a terminals_scheme \<Rightarrow> 'a terminals_scheme" where
  "term_init s =
     (let s = s\<lparr>op_tables := (op_tables s)(Stdin_ops := stdin_table)\<rparr>;
          s = s\<lparr>op_tables := (op_tables s)(Stdout_ops := stdout_table)\<rparr>;
          s = s\<lparr>terms := map (\<lambda>t. t\<lparr>read_in_progress := 0, newline_seen := 0, term_buff_size := 0,
                  cursor_x := 0, cursor_y := 0\<rparr>) (terms s)\<rparr>
      in s\<lparr>visible_group := 0\<rparr>)"

subsection \<open>Printing\<close>

definition print_char :: "u8 \<Rightarrow> 'a terminals_scheme \<Rightarrow> 'a terminals_scheme option" where
  "print_char c s =
     (if c = 8 then map_option snd (printf [8, 32, 8] [] s)
      else map_option snd (printf [37, 99] [ArgWord (scast c)] s))"

subsection \<open>The line buffer\<close>

definition backspace_term :: "'a terminals_scheme \<Rightarrow> 'a terminals_scheme option" where
  "backspace_term s = do {
     let (flags, s) = cli_and_save s;
     t \<leftarrow> get_term (visible_group s) s;
     s \<leftarrow> (if term_buff_size t > 0 then do {
            s \<leftarrow> put_term (visible_group s) (\<lambda>t. t\<lparr>term_buff_size := term_buff_size t - 1\<rparr>) s;
            print_char 8 s
          } else Some s);
     Some (restore_flags flags (sti s))
   }"

text \<open>Store \<open>c\<close> at the end of the buffer of group \<open>g\<close> and print it.\<close>

definition push_char :: "int \<Rightarrow> u8 \<Rightarrow> 'a terminals_scheme \<Rightarrow> 'a terminals_scheme option" where
  "push_char g c s = do {
     t \<leftarrow> get_term g s;
     buff \<leftarrow> arr_set (term_buff t) (int (term_buff_size t)) c;
     s \<leftarrow> put_term g (\<lambda>t. t\<lparr>term_buff := buff, term_buff_size := term_buff_size t + 1\<rparr>) s;
     print_char c s
   }"

fun push_tab :: "nat \<Rightarrow> int \<Rightarrow> 'a terminals_scheme \<Rightarrow> 'a terminals_scheme option" where
  "push_tab 0 g s = Some s"
| "push_tab (Suc k) g s = do {
     s \<leftarrow> push_char g 32 s;
     t \<leftarrow> get_term g s;
     if term_buff_size t = TERM_BUFFER_SIZE - 1 \<or> term_buff_size t mod TAB_SIZE = 0 then Some s
     else push_tab k g s
   }"

definition add_char_to_term :: "u8 \<Rightarrow> 'a terminals_scheme \<Rightarrow> (int \<times> 'a terminals_scheme) option" where
  "add_char_to_term c s = do {
     let (flags, s) = cli_and_save s;
     let g = visible_group s;
     t \<leftarrow> get_term g s;
     if term_buff_size t < TERM_BUFFER_SIZE then
       if term_buff_size t = TERM_BUFFER_SIZE - 1 \<and> c \<noteq> 10 then Some (-1, restore_flags flags (sti s))
       else do {
         s \<leftarrow> (if c = 9 then push_tab TAB_SIZE g s else push_char g c s);
         s \<leftarrow> (if c = 10 then do {
                s \<leftarrow> put_term g (\<lambda>t. t\<lparr>newline_seen := 1\<rparr>) s;
                t \<leftarrow> get_term g s;
                if read_in_progress t = 0 then put_term g (\<lambda>t. t\<lparr>term_buff_size := 0\<rparr>) s
                else Some s
              } else Some s);
         Some (0, restore_flags flags (sti s))
       }
     else Some (-1, restore_flags flags (sti s))
   }"

definition add_char_term :: "u8 \<Rightarrow> 'a terminals_scheme \<Rightarrow> (int \<times> 'a terminals_scheme) option" where
  "add_char_term c s =
     (if c = 8 then do { s \<leftarrow> backspace_term s; Some (0, s) } else add_char_to_term c s)"

definition clear_term :: "'a terminals_scheme \<Rightarrow> 'a terminals_scheme" where
  "clear_term s = (let s = clear s; (flags, s) = cli_and_save s in restore_flags flags s)"

subsection \<open>Switching terminals\<close>

definition get_video_save_page :: "int \<Rightarrow> u32" where
  "get_video_save_page group_num =
     (if group_num < 0 \<or> group_num > int MAX_PROCESS_GROUPS then word_of_int FAILURE
      else VIDEO_GROUP_1 + word_of_int group_num * of_nat PAGE_SIZE)"

definition switch_term :: "int \<Rightarrow> 'a terminals_scheme \<Rightarrow> (int \<times> 'a terminals_scheme) option" where
  "switch_term group_num s = do {
     let (flags, s) = cli_and_save s;
     if group_num < 0 \<or> group_num \<ge> int MAX_PROCESS_GROUPS then Some (FAILURE, s)
     else do {
       let (x, y) = get_cursor s;
       s \<leftarrow> put_term (visible_group s) (\<lambda>t. t\<lparr>cursor_x := x, cursor_y := y\<rparr>) s;
       s \<leftarrow> memcpy (get_video_save_page (visible_group s)) VIDEO_KERNEL PAGE_SIZE s;
       let s = s\<lparr>visible_group := group_num\<rparr>;
       t \<leftarrow> get_term (visible_group s) s;
       let s = set_cursor (cursor_x t) (cursor_y t) s;
       s \<leftarrow> memcpy VIDEO_KERNEL (get_video_save_page (visible_group s)) PAGE_SIZE s;
       Some (visible_group s, restore_flags flags (sti s))
     }
   }"

subsection \<open>The driver of stdin and stdout\<close>

text \<open>\<open>nbytes\<close> is compared with the unsigned buffer size, so a negative count is a large one.\<close>

definition term_read :: "('a terminals_scheme \<Rightarrow> 'a terminals_scheme option) \<Rightarrow> int \<Rightarrow> u32 \<Rightarrow> int
    \<Rightarrow> 'a terminals_scheme \<Rightarrow> (int \<times> 'a terminals_scheme) option" where
  "term_read idle fd buf nbytes s =
     (if buf = 0 then Some (-1, s)
      else do {
        let g = get_current_group s;
        s \<leftarrow> spin (\<lambda>s. map_option (\<lambda>t. read_in_progress t = 0) (get_term g s)) idle s;
        s \<leftarrow> put_term g (\<lambda>t. t\<lparr>read_in_progress := 1\<rparr>) s;
        s \<leftarrow> put_term g (\<lambda>t. t\<lparr>newline_seen := 0\<rparr>) s;
        s \<leftarrow> spin (\<lambda>s. map_option (\<lambda>t. newline_seen t \<noteq> 0) (get_term g s)) idle s;
        let (flags, s) = cli_and_save s;
        t \<leftarrow> get_term g s;
        let bytes_to_read = (if (word_of_int nbytes :: u32) < of_nat (term_buff_size t)
                             then nat nbytes else term_buff_size t);
        s \<leftarrow> store_bytes buf (take bytes_to_read (term_buff t)) s;
        s \<leftarrow> put_term g (\<lambda>t. t\<lparr>term_buff_size := 0\<rparr>) s;
        let s = restore_flags flags (sti s);
        s \<leftarrow> put_term g (\<lambda>t. t\<lparr>read_in_progress := 0\<rparr>) s;
        Some (int bytes_to_read, s)
      })"

fun print_chars :: "u32 \<Rightarrow> nat \<Rightarrow> 'a terminals_scheme \<Rightarrow> 'a terminals_scheme option" where
  "print_chars buf 0 s = Some s"
| "print_chars buf (Suc k) s = do {
     c \<leftarrow> load8 s buf;
     s \<leftarrow> print_char c s;
     print_chars (buf + 1) k s
   }"

definition term_write :: "int \<Rightarrow> u32 \<Rightarrow> int \<Rightarrow> 'a terminals_scheme \<Rightarrow> (int \<times> 'a terminals_scheme) option" where
  "term_write fd buf nbytes s =
     (if buf = 0 then Some (-1, s)
      else do {
        let g = get_current_group s;
        let (flags, s) = cli_and_save s;
        s \<leftarrow>
          (if visible_group s = g then print_chars buf (nat nbytes) s
           else do {
             let saved_video_mem = get_video_mem s;
             let (saved_x, saved_y) = get_cursor s;
             let s = set_video_mem (get_video_save_page g) s;
             t \<leftarrow> get_term g s;
             let s = set_cursor (cursor_x t) (cursor_y t) s;
             s \<leftarrow> print_chars buf (nat nbytes) s;
             let (x, y) = get_cursor s;
             s \<leftarrow> put_term g (\<lambda>t. t\<lparr>cursor_x := x, cursor_y := y\<rparr>) s;
             let s = set_video_mem saved_video_mem s;
             Some (set_cursor saved_x saved_y s)
           });
        Some (int (nat nbytes), restore_flags flags (sti s))
      })"

text \<open>\<open>term_open\<close> compares only as many bytes as the given name has.\<close>

definition stdin_name :: "u8 list" where "stdin_name = [115, 116, 100, 105, 110]"
definition stdout_name :: "u8 list" where "stdout_name = [115, 116, 100, 111, 117, 116]"

definition fill_fd :: "op_table \<Rightarrow> 'a terminals_scheme \<Rightarrow> (int \<times> 'a terminals_scheme) option" where
  "fill_fd table s = do {
     fd \<leftarrow> get_new_fd s;
     if fd = FAILURE then Some (FAILURE, s)
     else do {
       p \<leftarrow> get_current_pcb s;
       s \<leftarrow> put_fd p fd (\<lambda>f. f\<lparr>f_ops := Some table, f_inode := 0, f_position := 0, f_flags := IN_USE\<rparr>) s;
       Some (fd, s)
     }
   }"

definition term_open :: "reader \<Rightarrow> 'a terminals_scheme \<Rightarrow> (int \<times> 'a terminals_scheme) option" where
  "term_open name s = do {
     n \<leftarrow> strlen name;
     c \<leftarrow> strncmp name (literal stdin_name) n;
     if c = SUCCESS then fill_fd Stdin_ops s
     else do {
       c \<leftarrow> strncmp name (literal stdout_name) n;
       if c = SUCCESS then fill_fd Stdout_ops s else Some (FAILURE, s)
     }
   }"

definition term_close :: "int \<Rightarrow> 'a procs_scheme \<Rightarrow> (int \<times> 'a procs_scheme) option" where
  "term_close fd s = do {
     p \<leftarrow> get_current_pcb s;
     if fd < 0 \<or> fd \<ge> int FD_ARRAY_SIZE then Some (FAILURE, s)
     else do {
       file \<leftarrow> get_fd p fd s;
       if f_flags file = NOT_IN_USE then Some (FAILURE, s)
       else do { s \<leftarrow> put_fd p fd clear_fd s; Some (SUCCESS, s) }
     }
   }"

lemma term_close_eq: "term_close fd s = file_close fd s"
  by (simp add: term_close_def file_close_def)

interpretation term_closer: fd_closer term_close
  by unfold_locales (simp_all add: term_close_eq file_close_in_use file_close_range)

subsection \<open>Printing never fails\<close>

lemma scast_back: "(ucast (scast (c :: u8) :: u32) :: u8) = c"
  by (rule bit_word_eqI) (auto simp: bit_simps)

lemma print_char_eq:
  "print_char c s = Some (update_cursor_position (putcs (if c = 8 then [8, 32, 8] else [c]) s))"
  by (simp add: print_char_def printf_def scast_back)

lemma con_frame_print_char: "print_char c s = Some t \<Longrightarrow> con_frame s t"
  unfolding print_char_eq
  by (auto simp: con_frame_putcs intro: con_frame_trans [OF con_frame_putcs con_frame_update_cursor])

end
