(* ===== verification/TermProps.thy ===== *)
theory TermProps
  imports Term
begin

text \<open>
  What the terminal driver promises. Typing edits a line of at most 128 bytes
  (\<open>edit_line\<close> is the specification), reading hands the line over, writing from a process
  group in the background stays inside the save page of that group, and switching terminals
  swaps screens without losing either.
\<close>

subsection \<open>Frames\<close>

lemma con_frame_more:
  assumes "con_frame s t"
  shows "con_frame (s\<lparr>terms := ts\<rparr>) (t\<lparr>terms := ts\<rparr>)" "con_frame (s\<lparr>eflags_if := b\<rparr>) (t\<lparr>eflags_if := b\<rparr>)"
proof -
  have r: "con_rest t = con_rest s" using assms by (simp add: con_frame_def)
  have "con_rest (t\<lparr>terms := ts\<rparr>) = (con_rest t)\<lparr>terms := ts\<rparr>"
    and "con_rest (s\<lparr>terms := ts\<rparr>) = (con_rest s)\<lparr>terms := ts\<rparr>" by (simp_all add: con_rest_def)
  moreover have "con_rest (t\<lparr>eflags_if := b\<rparr>) = (con_rest t)\<lparr>eflags_if := b\<rparr>"
    and "con_rest (s\<lparr>eflags_if := b\<rparr>) = (con_rest s)\<lparr>eflags_if := b\<rparr>" by (simp_all add: con_rest_def)
  ultimately show "con_frame (s\<lparr>terms := ts\<rparr>) (t\<lparr>terms := ts\<rparr>)"
    "con_frame (s\<lparr>eflags_if := b\<rparr>) (t\<lparr>eflags_if := b\<rparr>)"
    using assms r by (simp_all add: con_frame_def cursor_ok_def on_screen_def cell_def)
qed

text \<open>Apart from the terminals, only the screen and the cursor change.\<close>

definition term_frame :: "'a terminals_scheme \<Rightarrow> 'a terminals_scheme \<Rightarrow> bool" where
  "term_frame s t \<longleftrightarrow> con_frame (s\<lparr>terms := terms t\<rparr>) t"

lemma terms_con_frame: "con_frame s t \<Longrightarrow> terms t = terms s"
proof -
  assume "con_frame s t"
  then have "terms (con_rest t) = terms (con_rest s)" by (simp add: con_frame_def)
  then show ?thesis by (simp add: con_rest_def)
qed

lemma procs_con_frame:
  assumes "con_frame s t"
  shows "visible_group t = visible_group s" "current_group t = current_group s"
    "active_pid t = active_pid s" "pid_array t = pid_array s" "pcb_mem t = pcb_mem s"
    "op_tables t = op_tables s" "boot_blk t = boot_blk s" "tss_esp0 t = tss_esp0 s"
    "master_mask t = master_mask s" "slave_mask t = slave_mask s"
proof -
  have f: "g (con_rest t) = g (con_rest s)" for g :: "'a procs_scheme \<Rightarrow> 'b"
    using assms by (simp add: con_frame_def)
  show "visible_group t = visible_group s" "current_group t = current_group s"
    "active_pid t = active_pid s" "pid_array t = pid_array s" "pcb_mem t = pcb_mem s"
    "op_tables t = op_tables s" "boot_blk t = boot_blk s" "tss_esp0 t = tss_esp0 s"
    "master_mask t = master_mask s" "slave_mask t = slave_mask s"
    using f [of visible_group] f [of current_group] f [of active_pid] f [of pid_array] f [of pcb_mem]
      f [of op_tables] f [of boot_blk] f [of tss_esp0] f [of master_mask] f [of slave_mask]
    by (simp_all add: con_rest_def)
qed

lemma visible_term_frame: "term_frame s t \<Longrightarrow> visible_group t = visible_group s"
  using procs_con_frame(1) [of "s\<lparr>terms := terms t\<rparr>" t] by (simp add: term_frame_def)

lemma term_frame_refl [simp]: "term_frame s s"
  by (simp add: term_frame_def)

lemma term_frame_trans: "term_frame s t \<Longrightarrow> term_frame t u \<Longrightarrow> term_frame s u"
  using con_frame_trans con_frame_more(1) [of "s\<lparr>terms := terms t\<rparr>" t "terms u"]
  by (fastforce simp: term_frame_def)

lemma term_frame_con: "con_frame s t \<Longrightarrow> term_frame s t"
  using terms_con_frame [of s t] by (simp add: term_frame_def)

lemma term_frame_terms [simp]: "term_frame s (s\<lparr>terms := ts\<rparr>)"
  by (simp add: term_frame_def)

lemma term_frame_put_term: "put_term g f s = Some t \<Longrightarrow> term_frame s t"
  by (auto simp: put_term_def bind_Some_iff)

lemma term_frame_print_char: "print_char c s = Some t \<Longrightarrow> term_frame s t"
  by (rule term_frame_con [OF con_frame_print_char])

text \<open>A body that runs with interrupts off between \<open>cli_and_save\<close> and \<open>restore_flags\<close>.\<close>

lemma term_frame_critical:
  assumes "term_frame (s\<lparr>eflags_if := b\<rparr>) t"
  shows "term_frame s (t\<lparr>eflags_if := eflags_if s\<rparr>)"
  using con_frame_more(2) [OF assms [unfolded term_frame_def], of "eflags_if s"]
  by (simp add: term_frame_def)

subsection \<open>Line editing\<close>

definition term_ok :: "term_struct \<Rightarrow> bool" where
  "term_ok t \<longleftrightarrow> length (term_buff t) = TERM_BUFFER_SIZE \<and> term_buff_size t \<le> TERM_BUFFER_SIZE"

definition terms_ok :: "'a terminals_scheme \<Rightarrow> bool" where
  "terms_ok s \<longleftrightarrow> length (terms s) = MAX_PROCESS_GROUPS \<and> (\<forall>t\<in>set (terms s). term_ok t)"

definition line :: "term_struct \<Rightarrow> u8 list" where
  "line t = take (term_buff_size t) (term_buff t)"

text \<open>The line after a character. A line of 127 bytes only takes a newline; a tab fills up with
  blanks to the next multiple of four; a newline that nobody waits for drops the line.\<close>

definition edit_line :: "bool \<Rightarrow> u8 \<Rightarrow> u8 list \<Rightarrow> u8 list" where
  "edit_line reading c l =
     (if c = 8 then butlast l
      else if length l = 128 \<or> length l = 127 \<and> c \<noteq> 10 then l
      else if c = 9 then l @ replicate (min (4 - length l mod 4) (127 - length l)) 32
      else if c = 10 \<and> \<not> reading then []
      else l @ [c])"

lemma length_edit_line: "length l \<le> 128 \<Longrightarrow> length (edit_line reading c l) \<le> 128"
  by (auto simp: edit_line_def min_def)

lemma length_line: "term_ok t \<Longrightarrow> length (line t) = term_buff_size t"
  by (simp add: term_ok_def line_def)

lemma terms_ok_nth: "terms_ok s \<Longrightarrow> g < 3 \<Longrightarrow> term_ok (terms s ! g)"
  by (simp add: terms_ok_def)

lemma get_term_ok: "terms_ok s \<Longrightarrow> g < 3 \<Longrightarrow> get_term (int g) s = Some (terms s ! g)"
  by (simp add: get_term_def terms_ok_def)

lemma put_term_ok: "terms_ok s \<Longrightarrow> g < 3 \<Longrightarrow>
    put_term (int g) f s = Some (s\<lparr>terms := (terms s)[g := f (terms s ! g)]\<rparr>)"
  by (simp add: put_term_def terms_ok_def)

lemma terms_ok_update:
  "terms_ok s \<Longrightarrow> g < 3 \<Longrightarrow> term_ok t \<Longrightarrow> terms_ok (s\<lparr>terms := (terms s)[g := t]\<rparr>)"
  by (auto simp: terms_ok_def dest: set_update_subset_insert [THEN subsetD])

lemma terms_ok_cong: "terms t = terms s \<Longrightarrow> terms_ok t = terms_ok s"
  by (simp add: terms_ok_def)

lemma line_append:
  "term_ok t \<Longrightarrow> term_buff_size t < 128 \<Longrightarrow>
     line (t\<lparr>term_buff := (term_buff t)[term_buff_size t := c], term_buff_size := Suc (term_buff_size t)\<rparr>)
       = line t @ [c]"
  by (simp add: line_def term_ok_def take_Suc_conv_app_nth)

text \<open>What an edit of the line of terminal \<open>g\<close> leaves alone: the other terminals and whether
  somebody reads.\<close>

definition edited :: "nat \<Rightarrow> (u8 list \<Rightarrow> u8 list) \<Rightarrow> 'a terminals_scheme \<Rightarrow> 'a terminals_scheme \<Rightarrow> bool" where
  "edited g f s t \<longleftrightarrow> terms_ok t \<and> line (terms t ! g) = f (line (terms s ! g)) \<and>
     read_in_progress (terms t ! g) = read_in_progress (terms s ! g) \<and>
     (\<forall>h<3. h \<noteq> g \<longrightarrow> terms t ! h = terms s ! h) \<and> term_frame s t"

lemma print_char_terms:
  "print_char c s = Some (update_cursor_position (putcs (if c = 8 then [8, 32, 8] else [c]) s))"
  "terms (update_cursor_position (putcs cs s)) = terms s"
  using terms_con_frame [OF con_frame_trans [OF con_frame_putcs con_frame_update_cursor], of cs s]
  by (simp_all add: print_char_eq)

lemma edited_print:
  assumes "edited g f s t" shows "edited g f s (update_cursor_position (putcs cs t))"
proof -
  have fr: "con_frame t (update_cursor_position (putcs cs t))"
    by (rule con_frame_trans [OF con_frame_putcs con_frame_update_cursor])
  then have "terms (update_cursor_position (putcs cs t)) = terms t" by (rule terms_con_frame)
  then show ?thesis
    using assms terms_ok_cong term_frame_trans [OF _ term_frame_con [OF fr]] by (auto simp: edited_def)
qed

lemma edited_update:
  assumes "terms_ok s" "g < 3" "term_ok u" "line u = f (line (terms s ! g))"
    and "read_in_progress u = read_in_progress (terms s ! g)"
  shows "edited g f s (s\<lparr>terms := (terms s)[g := u]\<rparr>)"
  using assms terms_ok_update [OF assms(1-3)] by (simp add: edited_def terms_ok_def)

lemma edited_trans:
  "edited g f s t \<Longrightarrow> edited g h t u \<Longrightarrow> edited g (h \<circ> f) s u"
  by (auto simp: edited_def intro: term_frame_trans)

lemma push_char_edited:
  assumes ok: "terms_ok s" "g < 3" and room: "term_buff_size (terms s ! g) < 128"
  shows "\<exists>t. push_char (int g) c s = Some t \<and> edited g (\<lambda>l. l @ [c]) s t"
proof -
  let ?t = "terms s ! g"
  let ?u = "?t\<lparr>term_buff := (term_buff ?t)[term_buff_size ?t := c], term_buff_size := Suc (term_buff_size ?t)\<rparr>"
  have tok: "term_ok ?t" by (rule terms_ok_nth [OF ok])
  then have "edited g (\<lambda>l. l @ [c]) s (s\<lparr>terms := (terms s)[g := ?u]\<rparr>)"
    by (intro edited_update ok line_append room) (use room in \<open>auto simp: term_ok_def\<close>)
  moreover have "arr_set (term_buff ?t) (int (term_buff_size ?t)) c =
      Some ((term_buff ?t)[term_buff_size ?t := c])"
    using tok room by (simp add: term_ok_def)
  ultimately show ?thesis
    by (simp add: push_char_def get_term_ok [OF ok] put_term_ok [OF ok] print_char_terms(1) edited_print)
qed

lemma edited_size:
  "edited g f s t \<Longrightarrow> terms_ok s \<Longrightarrow> g < 3 \<Longrightarrow> term_buff_size (terms t ! g) = length (f (line (terms s ! g)))"
  using length_line [OF terms_ok_nth, of t g] by (simp add: edited_def)

lemma push_tab_edited:
  assumes "terms_ok s" "g < 3" "term_buff_size (terms s ! g) = n" "n < 127" "0 < k" "4 - n mod 4 \<le> k"
  shows "\<exists>t. push_tab k (int g) s = Some t \<and>
     edited g (\<lambda>l. l @ replicate (min (4 - n mod 4) (127 - n)) 32) s t"
  using assms
proof (induction k arbitrary: s n)
  case 0
  then show ?case by simp
next
  case (Suc k)
  then obtain t where t: "push_char (int g) 32 s = Some t" and ed: "edited g (\<lambda>l. l @ [32]) s t"
    using push_char_edited [of s g 32] by auto
  have size: "term_buff_size (terms t ! g) = Suc n"
    using edited_size [OF ed] Suc.prems(1-3) length_line [OF terms_ok_nth [OF Suc.prems(1,2)]] by simp
  have ok: "terms_ok t" using ed by (simp add: edited_def)
  have step: "push_tab (Suc k) (int g) s = (if Suc n = 127 \<or> Suc n mod 4 = 0 then Some t else push_tab k (int g) t)"
    using t size get_term_ok [OF ok Suc.prems(2)] by simp
  show ?case
  proof (cases "Suc n = 127 \<or> Suc n mod 4 = 0")
    case True
    then have "Suc n = 127 \<or> n mod 4 = 3" by (auto simp: mod_Suc split: if_splits)
    moreover have "n mod 4 < 4" by simp
    ultimately have "min (4 - n mod 4) (127 - n) = 1" using Suc.prems(4) by (auto simp: min_def)
    then show ?thesis using step True ed by auto
  next
    case False
    then have "n mod 4 < 3" "Suc n mod 4 = Suc (n mod 4)"
      by (auto simp: mod_Suc split: if_splits)
    then have more: "Suc n < 127" "4 - Suc n mod 4 = 3 - n mod 4" "4 - n mod 4 = Suc (3 - n mod 4)" "0 < 3 - n mod 4"
      using Suc.prems(4) False by linarith+
    then obtain u where u: "push_tab k (int g) t = Some u"
      and ed': "edited g (\<lambda>l. l @ replicate (min (4 - Suc n mod 4) (127 - Suc n)) 32) t u"
    proof -
      have "4 - Suc n mod 4 \<le> k" "0 < k" using Suc.prems(6) more by linarith+
      then show thesis using Suc.IH [OF ok Suc.prems(2) size more(1)] that by blast
    qed
    have "min (4 - n mod 4) (127 - n) = Suc (min (4 - Suc n mod 4) (127 - Suc n))"
    proof -
      have min: "min (4 - m) (127 - i) = Suc (min (3 - m) (127 - Suc i))" if "m < 3" "i < 126" for m i :: nat
        using that by (auto simp: min_def)
      show ?thesis unfolding more(2) by (rule min) (use more(1,4) in linarith)+
    qed
    then have "((\<lambda>l. l @ replicate (min (4 - Suc n mod 4) (127 - Suc n)) (32 :: u8)) \<circ> (\<lambda>l. l @ [32])) =
        (\<lambda>l. l @ replicate (min (4 - n mod 4) (127 - n)) 32)"
      by (simp only: comp_def replicate_Suc append_assoc append_Cons append_Nil)
    then show ?thesis using edited_trans [OF ed ed'] step False u by simp
  qed
qed

lemma edited_critical:
  assumes "edited g f (s\<lparr>eflags_if := b\<rparr>) t"
  shows "edited g f s (t\<lparr>eflags_if := eflags_if s\<rparr>)"
  using assms term_frame_critical by (auto simp: edited_def terms_ok_def)

lemma backspace_edited:
  assumes ok: "terms_ok s" "g < 3" and vis: "visible_group s = int g"
  shows "\<exists>t. backspace_term s = Some t \<and> edited g butlast s t"
proof -
  let ?s = "s\<lparr>eflags_if := False\<rparr>" and ?t = "terms s ! g"
  have ok': "terms_ok ?s" "g < 3" using ok by (simp_all add: terms_ok_def)
  have tok: "term_ok ?t" by (rule terms_ok_nth [OF ok])
  have "\<exists>u. (if term_buff_size ?t > 0 then do {
            s \<leftarrow> put_term (int g) (\<lambda>t. t\<lparr>term_buff_size := term_buff_size t - 1\<rparr>) ?s;
            print_char 8 s } else Some ?s) = Some u \<and> edited g butlast ?s u"
  proof (cases "term_buff_size ?t > 0")
    case True
    have "edited g butlast ?s (?s\<lparr>terms := (terms s)[g := ?t\<lparr>term_buff_size := term_buff_size ?t - 1\<rparr>]\<rparr>)"
    proof -
      have "term_ok (?t\<lparr>term_buff_size := term_buff_size ?t - 1\<rparr>)" using tok by (auto simp: term_ok_def)
      moreover have "line (?t\<lparr>term_buff_size := term_buff_size ?t - 1\<rparr>) = butlast (line ?t)"
        using tok by (simp add: term_ok_def line_def butlast_take)
      ultimately show ?thesis
        using edited_update [OF ok', of "?t\<lparr>term_buff_size := term_buff_size ?t - 1\<rparr>" butlast] by simp
    qed
    then show ?thesis using True
      by (simp add: put_term_ok [OF ok'] print_char_terms(1) edited_print del: putcs.simps)
  next
    case False
    then have "line ?t = []" by (simp add: line_def)
    then show ?thesis using False ok' by (simp add: edited_def)
  qed
  then obtain u where u: "(if term_buff_size ?t > 0 then do {
            s \<leftarrow> put_term (int g) (\<lambda>t. t\<lparr>term_buff_size := term_buff_size t - 1\<rparr>) ?s;
            print_char 8 s } else Some ?s) = Some u" and ed: "edited g butlast ?s u" by blast
  have "backspace_term s = do {
      u \<leftarrow> (if term_buff_size ?t > 0 then do {
            s \<leftarrow> put_term (int g) (\<lambda>t. t\<lparr>term_buff_size := term_buff_size t - 1\<rparr>) ?s;
            print_char 8 s } else Some ?s);
      Some (u\<lparr>eflags_if := eflags_if s\<rparr>) }"
    using vis get_term_ok [OF ok']
    by (simp add: backspace_term_def cli_and_save_def restore_flags_def sti_def)
  then show ?thesis using edited_critical [OF ed] unfolding u by simp
qed

lemma add_char_edited:
  assumes ok: "terms_ok s" "g < 3" and vis: "visible_group s = int g" and c: "c \<noteq> 8"
  shows "\<exists>r t. add_char_to_term c s = Some (r, t) \<and>
     edited g (edit_line (read_in_progress (terms s ! g) \<noteq> 0) c) s t"
proof -
  let ?s = "s\<lparr>eflags_if := False\<rparr>" and ?t = "terms s ! g"
  let ?n = "term_buff_size ?t" and ?rd = "read_in_progress ?t \<noteq> 0"
  have ok': "terms_ok ?s" "g < 3" using ok by (simp_all add: terms_ok_def)
  have tok: "term_ok ?t" by (rule terms_ok_nth [OF ok])
  have len: "length (line ?t) = ?n" by (rule length_line [OF tok])
  have crit: "edited g f s (u\<lparr>eflags_if := eflags_if s\<rparr>)" if "edited g f ?s u" for f u
    using edited_critical [OF that] by simp
  have id: "edited g f ?s ?s" if "f (line ?t) = line ?t" for f
    using ok' that by (simp add: edited_def)
  note start = add_char_to_term_def cli_and_save_def restore_flags_def sti_def vis get_term_ok [OF ok']
  consider "?n = 128 \<or> ?n = 127 \<and> c \<noteq> 10" | "?n < 127" "c = 9"
    | "?n < 128" "c = 10" | "?n < 127" "c \<noteq> 9" "c \<noteq> 10"
    using tok by (fastforce simp: term_ok_def)
  then show ?thesis
  proof cases
    case 1
    then have "edit_line ?rd c (line ?t) = line ?t" using c by (simp add: edit_line_def len)
    then have "edited g (edit_line ?rd c) s (?s\<lparr>eflags_if := eflags_if s\<rparr>)" by (intro crit id)
    then show ?thesis using 1 by (auto simp: start)
  next
    case 2
    obtain u where u: "push_tab 4 (int g) ?s = Some u"
      "edited g (\<lambda>l. l @ replicate (min (4 - ?n mod 4) (127 - ?n)) 32) ?s u"
      using push_tab_edited [OF ok', of ?n 4] 2 by auto
    then have "edited g (edit_line ?rd c) ?s u"
      using 2 len by (simp add: edited_def edit_line_def)
    then show ?thesis using 2 u(1) crit by (simp add: start)
  next
    case 3
    obtain u where u: "push_char (int g) 10 ?s = Some u" "edited g (\<lambda>l. l @ [10]) ?s u"
      using push_char_edited [OF ok', of 10] 3 by auto
    have oku: "terms_ok u" "g < 3" using u(2) ok by (simp_all add: edited_def)
    let ?u = "terms u ! g"
    have rdu: "read_in_progress ?u = read_in_progress ?t" using u(2) by (simp add: edited_def)
    have toku: "term_ok ?u" by (rule terms_ok_nth [OF oku])
    have nl: "edited g (\<lambda>l. l) u (u\<lparr>terms := (terms u)[g := ?u\<lparr>newline_seen := 1\<rparr>]\<rparr>)"
      using toku by (intro edited_update oku) (simp_all add: term_ok_def line_def)
    have drop: "edited g (\<lambda>l. []) u (u\<lparr>terms := (terms u)[g := ?u\<lparr>newline_seen := 1, term_buff_size := 0\<rparr>]\<rparr>)"
      using toku by (intro edited_update oku) (simp_all add: term_ok_def line_def)
    have okn: "terms_ok (u\<lparr>terms := (terms u)[g := ?u\<lparr>newline_seen := 1\<rparr>]\<rparr>)"
      using nl by (simp add: edited_def)
    have lt: "g < length (terms u)" using oku by (simp add: terms_ok_def)
    show ?thesis
    proof (cases ?rd)
      case True
      have "edited g (edit_line ?rd c) ?s (u\<lparr>terms := (terms u)[g := ?u\<lparr>newline_seen := 1\<rparr>]\<rparr>)"
        using edited_trans [OF u(2) nl] 3 True len by (simp add: edited_def edit_line_def)
      from crit [OF this] show ?thesis
        using 3 u(1) True rdu lt
        by (simp add: start put_term_ok [OF oku] get_term_ok [OF okn ok(2)])
    next
      case False
      have "edited g (edit_line ?rd c) ?s
          (u\<lparr>terms := (terms u)[g := ?u\<lparr>newline_seen := 1, term_buff_size := 0\<rparr>]\<rparr>)"
        using edited_trans [OF u(2) drop] 3 False len by (simp add: edited_def edit_line_def)
      from crit [OF this] show ?thesis
        using 3 u(1) False rdu lt
        by (simp add: start put_term_ok [OF oku] get_term_ok [OF okn ok(2)] put_term_ok [OF okn ok(2)])
    qed
  next
    case 4
    obtain u where u: "push_char (int g) c ?s = Some u" "edited g (\<lambda>l. l @ [c]) ?s u"
      using push_char_edited [OF ok', of c] 4 by auto
    then have "edited g (edit_line ?rd c) ?s u"
      using 4 len c by (simp add: edited_def edit_line_def)
    then show ?thesis using 4 u(1) crit by (simp add: start)
  qed
qed

lemma add_char_term_edited:
  assumes ok: "terms_ok s" "g < 3" and vis: "visible_group s = int g"
  shows "\<exists>r t. add_char_term c s = Some (r, t) \<and>
     edited g (edit_line (read_in_progress (terms s ! g) \<noteq> 0) c) s t"
proof (cases "c = 8")
  case True
  then show ?thesis
    using backspace_edited [OF ok vis]
    by (auto simp: add_char_term_def edit_line_def edited_def)
next
  case False
  then show ?thesis using add_char_edited [OF ok vis False] by (simp add: add_char_term_def)
qed

subsection \<open>The three terminals as texts\<close>

text \<open>The text of a screen page, and the terminal of a process group: the screen if the group is
  visible, its save page and saved cursor otherwise.\<close>

definition page_text :: "'a terminals_scheme \<Rightarrow> u32 \<Rightarrow> u8 list" where
  "page_text s base = map (\<lambda>i. phys s (base + of_nat (2 * i))) [0..<2000]"

definition save_page :: "nat \<Rightarrow> u32" where
  "save_page g = VIDEO_GROUP_1 + of_nat g * 4096"

definition group_terminal :: "'a terminals_scheme \<Rightarrow> nat \<Rightarrow> terminal" where
  "group_terminal s g =
     (if visible_group s = int g then terminal_of s
      else (page_text s (save_page g), nat (cursor_x (terms s ! g)), nat (cursor_y (terms s ! g))))"

definition echo :: "u8 list \<Rightarrow> u8 list" where
  "echo bs = concat (map (\<lambda>c. if c = 8 then [8, 32, 8] else [c]) bs)"

text \<open>The screens are in order: the visible one is at 0xB8000, every cursor is on its screen,
  and the four pages are mapped onto themselves.\<close>

definition video_mapped :: "'a machine_scheme \<Rightarrow> bool" where
  "video_mapped s \<longleftrightarrow> (\<forall>v. drop_bit 12 v \<in> {0xB8, 0xBA, 0xBB, 0xBC} \<longrightarrow> translate s v = Some v)"

definition saved_cursor_ok :: "term_struct \<Rightarrow> bool" where
  "saved_cursor_ok t \<longleftrightarrow> 0 \<le> cursor_x t \<and> cursor_x t < 80 \<and> 0 \<le> cursor_y t \<and> cursor_y t < 25"

definition screens_ok :: "'a terminals_scheme \<Rightarrow> bool" where
  "screens_ok s \<longleftrightarrow> terms_ok s \<and> cursor_ok s \<and> video_mem s = VIDEO_KERNEL \<and>
     (\<forall>t\<in>set (terms s). saved_cursor_ok t) \<and> (\<exists>g<3. visible_group s = int g)"

lemma terminal_of_page: "terminal_of s = (page_text s (video_mem s), nat (screen_x s), nat (screen_y s))"
  by (simp add: terminal_of_def screen_text_def page_text_def cell_def mult.commute)

lemma get_video_save_page_eq: "g < 3 \<Longrightarrow> get_video_save_page (int g) = save_page g"
  by (simp add: get_video_save_page_def save_page_def)

lemma on_screen_range: "on_screen s a \<Longrightarrow> unat (a - video_mem s) < 4000"
proof -
  assume "on_screen s a"
  then obtain j where j: "j < 2000" "a = video_mem s + of_nat (2 * j) \<or> a = video_mem s + of_nat (2 * j + 1)"
    by (auto simp: on_screen_def cell_def algebra_simps)
  then have "a - video_mem s = of_nat (2 * j) \<or> a - video_mem s = of_nat (2 * j + 1)" by auto
  moreover have "unat (of_nat (2 * j) :: u32) < 4000" "unat (of_nat (2 * j + 1) :: u32) < 4000"
    using j(1) unat_of_nat_u32 [of "2 * j"] unat_of_nat_u32 [of "2 * j + 1"] by simp_all
  ultimately show ?thesis by metis
qed

text \<open>The four screen pages are far enough apart.\<close>

definition screen_bases :: "u32 list" where
  "screen_bases = [0xB8000, 0xBA000, 0xBB000, 0xBC000]"

lemma screen_bases_apart:
  "p \<in> set screen_bases \<Longrightarrow> q \<in> set screen_bases \<Longrightarrow> p \<noteq> q \<Longrightarrow>
     4096 \<le> unat (q - p) \<and> unat (q - p) + 4096 \<le> 2 ^ 32"
proof -
  have "list_all (\<lambda>p. list_all (\<lambda>q. p \<noteq> q \<longrightarrow> 4096 \<le> unat (q - p) \<and> unat (q - p) + 4096 \<le> 2 ^ 32)
      screen_bases) screen_bases" by (simp add: screen_bases_def)
  then show "p \<in> set screen_bases \<Longrightarrow> q \<in> set screen_bases \<Longrightarrow> p \<noteq> q \<Longrightarrow> ?thesis"
    by (simp add: list_all_iff)
qed

lemma save_page_values: "save_page 0 = 0xBA000" "save_page 1 = 0xBB000" "save_page 2 = 0xBC000"
  by (simp_all add: save_page_def)

lemma below_3: "(g :: nat) < 3 \<Longrightarrow> g = 0 \<or> g = 1 \<or> g = 2"
  by arith

lemma save_page_base: "g < 3 \<Longrightarrow> save_page g \<in> set screen_bases"
  using below_3 [of g] save_page_values by (auto simp: screen_bases_def)

lemma kernel_page_base: "VIDEO_KERNEL \<in> set screen_bases"
  by (simp add: screen_bases_def)

lemma save_page_inj: "g < 3 \<Longrightarrow> h < 3 \<Longrightarrow> (save_page g = save_page h) = (g = h)"
  using below_3 [of g] below_3 [of h] save_page_values by auto

lemma save_page_not_kernel: "g < 3 \<Longrightarrow> save_page g \<noteq> VIDEO_KERNEL"
  using below_3 [of g] save_page_values by auto

lemma page_offset:
  assumes "p \<in> set screen_bases" "q \<in> set screen_bases" "p \<noteq> q" "k < 4096"
  shows "4096 \<le> unat (q + of_nat k - p)"
proof -
  have c: "4096 \<le> unat (q - p)" "unat (q - p) + 4096 \<le> 2 ^ 32"
    using screen_bases_apart [OF assms(1-3)] by simp_all
  have "q + of_nat k - p = of_nat (unat (q - p) + k)" by simp
  then have "unat (q + of_nat k - p) = unat (q - p) + k"
    using unat_of_nat_u32 [of "unat (q - p) + k"] c assms(4) by (simp only:)
  then show ?thesis using c by simp
qed

lemma page_text_other:
  assumes "con_frame s t" "cursor_ok s" "video_mem s \<in> set screen_bases" "q \<in> set screen_bases"
    and "q \<noteq> video_mem s"
  shows "page_text t q = page_text s q"
proof -
  have "phys t (q + of_nat (2 * i)) = phys s (q + of_nat (2 * i))" if "i < 2000" for i
  proof -
    have "4096 \<le> unat (q + of_nat (2 * i) - video_mem s)"
      by (rule page_offset [OF assms(3,4) assms(5) [symmetric]]) (use that in simp)
    then have "\<not> on_screen s (q + of_nat (2 * i))"
      using on_screen_range [of s "q + of_nat (2 * i)"] by linarith
    then show ?thesis using assms(1,2) by (simp add: con_frame_def)
  qed
  then show ?thesis by (simp add: page_text_def)
qed

subsection \<open>\<open>term_write\<close> writes to the terminal of the running group\<close>

lemma terminal_of_print_char:
  "cursor_ok s \<Longrightarrow> print_char c s = Some t \<Longrightarrow> terminal_of t = fold terminal_put (echo [c]) (terminal_of s)"
  by (auto simp: print_char_eq terminal_of_putcs echo_def simp del: terminal_put.simps putcs.simps)

lemma echo_Cons: "echo (c # cs) = echo [c] @ echo cs"
  by (simp add: echo_def)

lemma print_chars_spec:
  "cursor_ok s \<Longrightarrow> load_bytes s buf (length bs) = Some bs \<Longrightarrow>
     (\<And>i. i < length bs \<Longrightarrow> \<exists>p. translate s (buf + of_nat i) = Some p \<and> \<not> on_screen s p) \<Longrightarrow>
     \<exists>t. print_chars buf (length bs) s = Some t \<and> con_frame s t \<and>
       terminal_of t = fold terminal_put (echo bs) (terminal_of s)"
proof (induction bs arbitrary: buf s)
  case Nil
  then show ?case by (simp add: echo_def)
next
  case (Cons b bs)
  obtain t where t: "print_char b s = Some t" by (simp add: print_char_eq)
  have fr: "con_frame s t" using con_frame_print_char [OF t] .
  have b: "load8 s buf = Some b" and bs: "load_bytes s (buf + 1) (length bs) = Some bs"
    using Cons.prems(2) by (auto simp: bind_Some_iff)
  note tr = translate_con_frame(1) [OF fr] and on = on_screen_con_frame [OF fr]
  have rest: "\<exists>p. translate t (buf + 1 + of_nat i) = Some p \<and> \<not> on_screen t p" if "i < length bs" for i
    using Cons.prems(3) [of "Suc i"] that by (simp add: tr on algebra_simps)
  have "load8 t (buf + 1 + of_nat i) = load8 s (buf + 1 + of_nat i)" if lt: "i < length bs" for i
  proof -
    obtain p where p: "translate s (buf + 1 + of_nat i) = Some p" "\<not> on_screen s p"
      using rest [OF lt] by (auto simp: tr on)
    then have "phys t p = phys s p" using fr Cons.prems(1) by (simp add: con_frame_def)
    then show ?thesis using p by (simp add: load8_def tr)
  qed
  then have "load_bytes t (buf + 1) (length bs) = Some bs"
    using bs by (simp add: load_bytes_nth)
  moreover have "cursor_ok t" using fr Cons.prems(1) by (simp add: con_frame_def)
  ultimately obtain u where u: "print_chars (buf + 1) (length bs) t = Some u" "con_frame t u"
      "terminal_of u = fold terminal_put (echo bs) (terminal_of t)"
    using Cons.IH [of t "buf + 1"] rest by blast
  have "terminal_of u = fold terminal_put (echo (b # bs)) (terminal_of s)"
    using u(3) terminal_of_print_char [OF Cons.prems(1) t] by (subst echo_Cons) simp
  then show ?case using t u(1) b con_frame_trans [OF fr u(2)] by simp
qed

lemma set_cursor_state:
  "\<exists>p. set_cursor x y s = s\<lparr>screen_x := x smod 80, screen_y := y smod 80, port_out := p\<rparr>"
  by (simp add: set_cursor_def update_cursor_position_def outb_def Let_def) (blast intro: arg_cong)

lemma cursor_in_range: "0 \<le> x \<Longrightarrow> x < 80 \<Longrightarrow> x smod 80 = (x :: int)"
  by (simp add: smod_nonneg)

lemma page_text_cong: "phys t = phys s \<Longrightarrow> page_text t = page_text s"
  by (simp add: page_text_def fun_eq_iff)

lemma group_terminal_cong:
  assumes "visible_group t = visible_group s" "terms t = terms s" "phys t = phys s"
    and "video_mem t = video_mem s" "screen_x t = screen_x s" "screen_y t = screen_y s"
  shows "group_terminal t g = group_terminal s g"
  using assms page_text_cong [OF assms(3)] by (simp add: group_terminal_def terminal_of_page)

lemma screens_ok_cong:
  assumes "visible_group t = visible_group s" "terms t = terms s"
    and "video_mem t = video_mem s" "screen_x t = screen_x s" "screen_y t = screen_y s"
  shows "screens_ok t = screens_ok s"
  using assms by (simp add: screens_ok_def terms_ok_def cursor_ok_def)

text \<open>A source buffer that lies outside the four screen pages.\<close>

definition off_screens :: "'a terminals_scheme \<Rightarrow> u32 \<Rightarrow> nat \<Rightarrow> bool" where
  "off_screens s buf n \<longleftrightarrow> (\<forall>i<n. \<exists>p. translate s (buf + of_nat i) = Some p \<and>
     (\<forall>b\<in>set screen_bases. 4096 \<le> unat (p - b)))"

lemma off_screens_not_on:
  assumes "off_screens s buf n" "i < n" "video_mem t \<in> set screen_bases"
  shows "\<exists>p. translate s (buf + of_nat i) = Some p \<and> \<not> on_screen t p"
proof -
  obtain p where p: "translate s (buf + of_nat i) = Some p" "4096 \<le> unat (p - video_mem t)"
    using assms by (auto simp: off_screens_def)
  then show ?thesis using on_screen_range [of t p] by fastforce
qed

text \<open>Printing on the terminal that \<open>video_mem\<close> and the cursor select.\<close>

lemma print_on_page:
  assumes "cursor_ok s" "video_mem s \<in> set screen_bases"
    and "load_bytes s buf (length bs) = Some bs" "off_screens s buf (length bs)"
  shows "\<exists>t. print_chars buf (length bs) s = Some t \<and> con_frame s t \<and> cursor_ok t \<and>
     terminal_of t = fold terminal_put (echo bs) (terminal_of s) \<and>
     (\<forall>q\<in>set screen_bases. q \<noteq> video_mem s \<longrightarrow> page_text t q = page_text s q)"
proof -
  obtain t where t: "print_chars buf (length bs) s = Some t" "con_frame s t"
    "terminal_of t = fold terminal_put (echo bs) (terminal_of s)"
    using print_chars_spec [OF assms(1,3)] off_screens_not_on [OF assms(4) _ assms(2)] by blast
  moreover have "cursor_ok t" using t(2) assms(1) by (simp add: con_frame_def)
  moreover have "\<forall>q\<in>set screen_bases. q \<noteq> video_mem s \<longrightarrow> page_text t q = page_text s q"
    using page_text_other [OF t(2) assms(1,2)] by blast
  ultimately show ?thesis by blast
qed

lemma term_write_visible:
  assumes ok: "screens_ok s" and g: "g < 3" "current_group s = int g" "visible_group s = int g"
    and buf: "buf \<noteq> 0" "load_bytes s buf (length bs) = Some bs" "off_screens s buf (length bs)"
  shows "\<exists>t. term_write fd buf (int (length bs)) s = Some (int (length bs), t) \<and> screens_ok t \<and>
     group_terminal t g = fold terminal_put (echo bs) (group_terminal s g) \<and>
     (\<forall>h<3. h \<noteq> g \<longrightarrow> group_terminal t h = group_terminal s h)"
proof -
  let ?s = "s\<lparr>eflags_if := False\<rparr>"
  have tr: "translate ?s v = translate s v" for v by (rule translate_cong) simp_all
  have l8: "load8 ?s v = load8 s v" for v by (simp add: load8_def tr)
  have s: "cursor_ok ?s" "video_mem ?s \<in> set screen_bases" "video_mem s = VIDEO_KERNEL"
    "load_bytes ?s buf (length bs) = Some bs" "off_screens ?s buf (length bs)"
    using ok buf kernel_page_base
    by (simp_all add: screens_ok_def cursor_ok_def load_bytes_nth l8 off_screens_def tr)
  obtain t where t: "print_chars buf (length bs) ?s = Some t" "con_frame ?s t" "cursor_ok t"
    "terminal_of t = fold terminal_put (echo bs) (terminal_of ?s)"
    and pages: "\<forall>q\<in>set screen_bases. q \<noteq> VIDEO_KERNEL \<longrightarrow> page_text t q = page_text ?s q"
    using print_on_page [OF s(1,2,4,5)] s(3) by auto
  let ?t = "t\<lparr>eflags_if := eflags_if s\<rparr>"
  have f: "terms t = terms s" "visible_group t = visible_group s" "video_mem t = video_mem s"
    using terms_con_frame [OF t(2)] procs_con_frame [OF t(2)] con_rest_fields(1) [of t ?s] t(2)
    by (simp_all add: con_frame_def)
  have "term_write fd buf (int (length bs)) s = Some (int (length bs), ?t)"
    using t(1) g buf(1)
    by (simp add: term_write_def get_current_group_def cli_and_save_def restore_flags_def sti_def)
  moreover have "screens_ok ?t"
    using ok t(3) f by (simp add: screens_ok_def terms_ok_def cursor_ok_def)
  moreover have "page_text ?t (save_page h) = page_text s (save_page h)" if "h < 3" for h
    using pages save_page_base [OF that] save_page_not_kernel [OF that]
      page_text_cong [of ?s s] page_text_cong [of ?t t] by simp
  moreover have "terminal_of ?t = terminal_of t" "terminal_of ?s = terminal_of s"
    by (simp_all add: terminal_of_page page_text_def)
  ultimately show ?thesis
    using t(4) f g by (auto simp: group_terminal_def)
qed

lemma term_write_background:
  assumes ok: "screens_ok s" and g: "g < 3" "current_group s = int g" "visible_group s \<noteq> int g"
    and buf: "buf \<noteq> 0" "load_bytes s buf (length bs) = Some bs" "off_screens s buf (length bs)"
  shows "\<exists>t. term_write fd buf (int (length bs)) s = Some (int (length bs), t) \<and> screens_ok t \<and>
     group_terminal t g = fold terminal_put (echo bs) (group_terminal s g) \<and>
     (\<forall>h<3. h \<noteq> g \<longrightarrow> group_terminal t h = group_terminal s h)"
proof -
  let ?tg = "terms s ! g"
  have tok: "terms_ok s" using ok by (simp add: screens_ok_def)
  have mem: "?tg \<in> set (terms s)" using tok g by (simp add: terms_ok_def)
  then have cur: "saved_cursor_ok ?tg" using ok by (simp add: screens_ok_def)
  obtain po where s1: "set_cursor (cursor_x ?tg) (cursor_y ?tg) (s\<lparr>eflags_if := False, video_mem := save_page g\<rparr>) =
      s\<lparr>eflags_if := False, video_mem := save_page g, screen_x := cursor_x ?tg, screen_y := cursor_y ?tg, port_out := po\<rparr>"
    (is "_ = ?s")
    using set_cursor_state [of "cursor_x ?tg" "cursor_y ?tg" "s\<lparr>eflags_if := False, video_mem := save_page g\<rparr>"]
      cur by (auto simp: saved_cursor_ok_def cursor_in_range)
  have tr: "translate ?s v = translate s v" for v by (rule translate_cong) simp_all
  have l8: "load8 ?s v = load8 s v" for v by (simp add: load8_def tr)
  have s: "cursor_ok ?s" "video_mem ?s \<in> set screen_bases"
    "load_bytes ?s buf (length bs) = Some bs" "off_screens ?s buf (length bs)"
    using cur buf save_page_base [OF g(1)]
    by (simp_all add: saved_cursor_ok_def cursor_ok_def load_bytes_nth l8 off_screens_def tr)
  obtain t where t: "print_chars buf (length bs) ?s = Some t" "con_frame ?s t" "cursor_ok t"
    "terminal_of t = fold terminal_put (echo bs) (terminal_of ?s)"
    and pages: "\<forall>q\<in>set screen_bases. q \<noteq> save_page g \<longrightarrow> page_text t q = page_text ?s q"
    using print_on_page [OF s] by auto
  let ?ts = "(terms s)[g := ?tg\<lparr>cursor_x := screen_x t, cursor_y := screen_y t\<rparr>]"
  have f: "terms t = terms s" "visible_group t = visible_group s" "video_mem t = save_page g"
    using terms_con_frame [OF t(2)] procs_con_frame [OF t(2)] con_rest_fields(1) [of t ?s] t(2)
    by (simp_all add: con_frame_def)
  have tokt: "terms_ok t" using tok f by (simp add: terms_ok_def)
  have vk: "video_mem s = VIDEO_KERNEL" and cs: "cursor_ok s" using ok by (simp_all add: screens_ok_def)
  obtain po' where s2: "set_cursor (screen_x s) (screen_y s) (t\<lparr>terms := ?ts, video_mem := VIDEO_KERNEL\<rparr>) =
      t\<lparr>terms := ?ts, video_mem := VIDEO_KERNEL, screen_x := screen_x s, screen_y := screen_y s, port_out := po'\<rparr>"
    (is "_ = ?u")
    using set_cursor_state [of "screen_x s" "screen_y s" "t\<lparr>terms := ?ts, video_mem := VIDEO_KERNEL\<rparr>"]
      cs by (auto simp: cursor_ok_def cursor_in_range)
  let ?t = "?u\<lparr>eflags_if := eflags_if s\<rparr>"
  have run: "term_write fd buf (int (length bs)) s = Some (int (length bs), ?t)"
    using t(1) g buf(1) get_term_ok [OF tok g(1)] put_term_ok [OF tokt g(1)] s1 s2 f(1) vk
    by (simp add: term_write_def get_current_group_def cli_and_save_def restore_flags_def sti_def
        get_video_mem_def set_video_mem_def get_cursor_def get_term_def get_video_save_page_eq)
  have sok: "screens_ok ?t"
    using ok t(3) f tok tokt g cs
    by (auto simp: screens_ok_def terms_ok_def cursor_ok_def saved_cursor_ok_def term_ok_def
        dest!: set_update_subset_insert [THEN subsetD])
  have pt: "page_text ?t = page_text t" "page_text ?s = page_text s"
    by (simp_all add: page_text_def fun_eq_iff)
  have page: "page_text ?t q = page_text s q" if "q \<in> set screen_bases" "q \<noteq> save_page g" for q
    using pages that pt by simp
  have vis: "terminal_of ?t = terminal_of s"
    using page [OF kernel_page_base] save_page_not_kernel [OF g(1)] vk by (simp add: terminal_of_page)
  have other: "group_terminal ?t h = group_terminal s h" if h: "h < 3" "h \<noteq> g" for h
  proof -
    have "page_text ?t (save_page h) = page_text s (save_page h)"
      by (rule page [OF save_page_base [OF h(1)]]) (use save_page_inj h g in auto)
    moreover have "visible_group ?t = visible_group s" "terms ?t ! h = terms s ! h"
      using f(2) h(2) by simp_all
    ultimately show ?thesis using vis by (simp add: group_terminal_def)
  qed
  have lt: "g < length (terms s)" using tok g by (simp add: terms_ok_def)
  have "terms ?t ! g = ?tg\<lparr>cursor_x := screen_x t, cursor_y := screen_y t\<rparr>"
    "visible_group ?t \<noteq> int g" using f(2) g lt by simp_all
  then have "group_terminal ?t g = terminal_of t"
    unfolding group_terminal_def using f(3) pt by (simp add: terminal_of_page)
  also have "\<dots> = fold terminal_put (echo bs) (group_terminal s g)"
    using t(4) pt g(3) by (simp add: group_terminal_def terminal_of_page)
  finally show ?thesis using run sok other by blast
qed

subsection \<open>Switching keeps all three terminals\<close>

text \<open>Storing to addresses that are mapped onto themselves.\<close>

lemma store_bytes_direct:
  assumes "\<And>i. i < length bs \<Longrightarrow> translate s (a + of_nat i) = Some (a + of_nat i)" "length bs < 2 ^ 32"
  shows "\<exists>f. store_bytes a bs s = Some (s\<lparr>phys := f\<rparr>) \<and>
     (\<forall>i<length bs. f (a + of_nat i) = bs ! i) \<and>
     (\<forall>v. length bs \<le> unat (v - a) \<longrightarrow> f v = phys s v)"
  using assms
proof (induction bs arbitrary: a s)
  case Nil
  show ?case by (auto intro: exI [of _ "phys s"])
next
  case (Cons b bs)
  let ?s = "s\<lparr>phys := (phys s)(a := b)\<rparr>"
  have st: "store8 a b s = Some ?s" using Cons.prems(1) [of 0] by (simp add: store8_def)
  have "translate ?s (a + 1 + of_nat i) = Some (a + 1 + of_nat i)" if "i < length bs" for i
    using Cons.prems(1) [of "Suc i"] that by (simp add: algebra_simps)
  then obtain f where f: "store_bytes (a + 1) bs ?s = Some (?s\<lparr>phys := f\<rparr>)"
    "\<forall>i<length bs. f (a + 1 + of_nat i) = bs ! i"
    "\<forall>v. length bs \<le> unat (v - (a + 1)) \<longrightarrow> f v = phys ?s v"
    using Cons.IH [of ?s "a + 1"] Cons.prems(2) by auto
  have fa: "f a = b"
  proof -
    have "unat (a - (a + 1)) = 2 ^ 32 - 1"
      by (simp add: unsigned_minus_1_eq_mask mask_eq_exp_minus_1)
    then have "length bs \<le> unat (a - (a + 1))" using Cons.prems(2) by simp
    then show ?thesis using f(3) by simp
  qed
  have "f (a + of_nat i) = (b # bs) ! i" if "i < length (b # bs)" for i
    using fa f(2) that by (cases i) (auto simp: algebra_simps)
  moreover have "f v = phys s v" if v: "length (b # bs) \<le> unat (v - a)" for v
  proof -
    have "v - a \<noteq> 0" using v by auto
    then have "unat (v - a - 1) = unat (v - a) - 1" by (simp add: unat_minus_one)
    moreover have "v - a - 1 = v - (a + 1)" by simp
    ultimately have "length bs \<le> unat (v - (a + 1))" using v by simp
    moreover have "v \<noteq> a" using v by auto
    ultimately show ?thesis using f(3) by simp
  qed
  ultimately show ?case using st f(1) by auto
qed

lemma screen_page_mapped:
  assumes "video_mapped s" "p \<in> set screen_bases" "i < 4096"
  shows "translate s (p + of_nat i) = Some (p + of_nat i)"
proof -
  have "drop_bit 12 (p + of_nat i) \<in> {0xB8, 0xBA, 0xBB, 0xBC}"
  proof -
    have "unat p + i < 2 ^ 32" using assms(2,3) by (auto simp: screen_bases_def)
    then have "unat (p + of_nat i) = unat p + i"
      using unat_of_nat_u32 [of "unat p + i"] by simp
    moreover have "(unat p + i) div 4096 \<in> {0xB8, 0xBA, 0xBB, 0xBC}"
      using assms(2,3) by (auto simp: screen_bases_def)
    ultimately have "unat (drop_bit 12 (p + of_nat i)) \<in> {0xB8, 0xBA, 0xBB, 0xBC}"
      by (simp add: unat_drop_bit_eq drop_bit_eq_div unat_div)
    then show ?thesis by (auto simp: word_unat_eq_iff simp del: unat_drop_bit_eq)
  qed
  then show ?thesis using assms(1) by (simp only: video_mapped_def) 
qed

lemma copy_page:
  assumes vm: "video_mapped s" and pq: "p \<in> set screen_bases" "q \<in> set screen_bases" "p \<noteq> q"
  shows "\<exists>f. memcpy p q 4096 s = Some (s\<lparr>phys := f\<rparr>) \<and>
     (\<forall>i<4096. f (p + of_nat i) = phys s (q + of_nat i)) \<and>
     (\<forall>v. 4096 \<le> unat (v - p) \<longrightarrow> f v = phys s v)"
proof -
  note tp = screen_page_mapped [OF vm pq(1)] and tq = screen_page_mapped [OF vm pq(2)]
  let ?bs = "map (\<lambda>i. phys s (q + of_nat i)) [0..<4096]"
  have "p + of_nat i \<noteq> q + of_nat j" if "i < 4096" "j < 4096" for i j
  proof
    assume "p + of_nat i = q + of_nat j"
    then have "q + of_nat j - p = of_nat i" by (simp add: algebra_simps)
    then show False using page_offset [OF pq that(2)] that(1) by (simp add: unat_of_nat_u32)
  qed
  then have "separate s p 4096 q 4096"
    using tp tq by (simp add: separate_def)
  moreover have "load_bytes s q 4096 = Some ?bs"
    unfolding load_bytes_nth by (simp add: load8_def tq)
  moreover obtain f where "store_bytes p ?bs s = Some (s\<lparr>phys := f\<rparr>)"
    "\<forall>i<length ?bs. f (p + of_nat i) = ?bs ! i" "\<forall>v. length ?bs \<le> unat (v - p) \<longrightarrow> f v = phys s v"
    using store_bytes_direct [of ?bs s p] tp by auto
  ultimately show ?thesis by (auto simp: memcpy_eq)
qed

lemma copy_page_text:
  assumes vm: "video_mapped s" and pq: "p \<in> set screen_bases" "q \<in> set screen_bases" "p \<noteq> q"
  shows "\<exists>f. memcpy p q 4096 s = Some (s\<lparr>phys := f\<rparr>) \<and>
     page_text (s\<lparr>phys := f\<rparr>) p = page_text s q \<and>
     (\<forall>r\<in>set screen_bases. r \<noteq> p \<longrightarrow> page_text (s\<lparr>phys := f\<rparr>) r = page_text s r)"
proof -
  obtain f where f: "memcpy p q 4096 s = Some (s\<lparr>phys := f\<rparr>)"
    "\<forall>i<4096. f (p + of_nat i) = phys s (q + of_nat i)"
    "\<forall>v. 4096 \<le> unat (v - p) \<longrightarrow> f v = phys s v"
    using copy_page [OF assms] by blast
  have "f (p + of_nat (2 * i)) = phys s (q + of_nat (2 * i))" if "i < 2000" for i
    using f(2) that by (simp del: of_nat_mult)
  moreover have "f (r + of_nat (2 * i)) = phys s (r + of_nat (2 * i))"
    if "i < 2000" "r \<in> set screen_bases" "r \<noteq> p" for i r
  proof -
    have "4096 \<le> unat (r + of_nat (2 * i) - p)"
      by (rule page_offset [OF pq(1) that(2)]) (use that in auto)
    then show ?thesis using f(3) by blast
  qed
  ultimately show ?thesis using f(1) by (intro exI [of _ f]) (simp add: page_text_def)
qed

lemma switch_term_keeps:
  assumes ok: "screens_ok s" and vm: "video_mapped s" and g: "g < 3"
  shows "\<exists>t. switch_term (int g) s = Some (int g, t) \<and> screens_ok t \<and> visible_group t = int g \<and>
     eflags_if t = eflags_if s \<and> (\<forall>h<3. group_terminal t h = group_terminal s h)"
proof -
  obtain v where v: "v < 3" "visible_group s = int v" using ok by (auto simp: screens_ok_def)
  have tok: "terms_ok s" and vk: "video_mem s = VIDEO_KERNEL" and cs: "cursor_ok s"
    using ok by (simp_all add: screens_ok_def)
  let ?tv = "(terms s ! v)\<lparr>cursor_x := screen_x s, cursor_y := screen_y s\<rparr>"
  let ?s1 = "s\<lparr>eflags_if := False, terms := (terms s)[v := ?tv]\<rparr>"
  have lens: "length (terms s) = 3" using tok by (simp add: terms_ok_def)
  have tr1: "video_mapped ?s1"
  proof -
    have "translate ?s1 a = translate s a" for a by (rule translate_cong) simp_all
    then show ?thesis using vm by (simp add: video_mapped_def)
  qed
  have tok1: "terms_ok ?s1"
    using tok terms_ok_nth [OF tok v(1)]
    by (auto simp: terms_ok_def term_ok_def dest!: set_update_subset_insert [THEN subsetD])
  have pt1: "page_text ?s1 = page_text s" by (simp add: page_text_def fun_eq_iff)
  obtain f where f: "memcpy (save_page v) VIDEO_KERNEL 4096 ?s1 = Some (?s1\<lparr>phys := f\<rparr>)"
    and f1: "page_text (?s1\<lparr>phys := f\<rparr>) (save_page v) = page_text s VIDEO_KERNEL"
    and f2: "\<forall>r\<in>set screen_bases. r \<noteq> save_page v \<longrightarrow> page_text (?s1\<lparr>phys := f\<rparr>) r = page_text s r"
    using copy_page_text [OF tr1 save_page_base [OF v(1)] kernel_page_base save_page_not_kernel [OF v(1)]]
    unfolding pt1 by blast
  let ?tg = "(terms s)[v := ?tv] ! g"
  let ?s2 = "?s1\<lparr>phys := f, visible_group := int g\<rparr>"
  have cur: "saved_cursor_ok ?tg"
  proof (cases "v = g")
    case True
    then show ?thesis using cs lens g by (simp add: saved_cursor_ok_def cursor_ok_def)
  next
    case False
    then have "?tg \<in> set (terms s)" using lens g by simp
    then show ?thesis using ok by (simp add: screens_ok_def)
  qed
  obtain po where s3: "set_cursor (cursor_x ?tg) (cursor_y ?tg) ?s2 =
      ?s2\<lparr>screen_x := cursor_x ?tg, screen_y := cursor_y ?tg, port_out := po\<rparr>" (is "_ = ?s3")
    using set_cursor_state [of "cursor_x ?tg" "cursor_y ?tg" ?s2] cur
    by (auto simp: saved_cursor_ok_def cursor_in_range)
  have tr3: "video_mapped ?s3"
  proof -
    have "translate ?s3 a = translate s a" for a by (rule translate_cong) simp_all
    then show ?thesis using vm by (simp add: video_mapped_def)
  qed
  have pt3: "page_text ?s3 = page_text (?s1\<lparr>phys := f\<rparr>)" by (simp add: page_text_def fun_eq_iff)
  obtain h where h: "memcpy VIDEO_KERNEL (save_page g) 4096 ?s3 = Some (?s3\<lparr>phys := h\<rparr>)"
    and h1: "page_text (?s3\<lparr>phys := h\<rparr>) VIDEO_KERNEL = page_text (?s1\<lparr>phys := f\<rparr>) (save_page g)"
    and h2: "\<forall>r\<in>set screen_bases. r \<noteq> VIDEO_KERNEL \<longrightarrow>
        page_text (?s3\<lparr>phys := h\<rparr>) r = page_text (?s1\<lparr>phys := f\<rparr>) r"
    using copy_page_text [OF tr3 kernel_page_base save_page_base [OF g] not_sym [OF save_page_not_kernel [OF g]]]
    unfolding pt3 by blast
  let ?t = "?s3\<lparr>phys := h, eflags_if := eflags_if s\<rparr>"
  have tok0: "terms_ok (s\<lparr>eflags_if := False\<rparr>)" using tok by (simp add: terms_ok_def)
  have "get_term (int g) ?s2 = Some ?tg"
    using lens g by (simp add: get_term_def)
  then have run: "switch_term (int g) s = Some (int g, ?t)"
    using g v f h s3 put_term_ok [OF tok0 v(1)]
    by (simp add: switch_term_def cli_and_save_def restore_flags_def sti_def get_cursor_def
        get_video_save_page_eq)
  have ptt: "page_text ?t = page_text (?s3\<lparr>phys := h\<rparr>)" by (simp add: page_text_def fun_eq_iff)
  have page: "page_text ?t (save_page k) = (if k = v then page_text s VIDEO_KERNEL else page_text s (save_page k))"
    if "k < 3" for k
    using h2 f1 f2 save_page_base [OF that] save_page_not_kernel [OF that] save_page_inj [OF that v(1)]
    unfolding ptt by simp
  have "page_text ?t VIDEO_KERNEL = (if g = v then page_text s VIDEO_KERNEL else page_text s (save_page g))"
    using h1 f1 f2 save_page_base [OF g] save_page_inj [OF g v(1)] unfolding ptt by simp
  then have vis: "terminal_of ?t = group_terminal s g"
    using v vk lens by (auto simp: terminal_of_page group_terminal_def)
  have "group_terminal ?t k = group_terminal s k" if k: "k < 3" for k
  proof (cases "k = g")
    case True
    then show ?thesis using vis by (simp add: group_terminal_def)
  next
    case False
    then show ?thesis using page [OF k] v vk lens by (auto simp: group_terminal_def terminal_of_page)
  qed
  moreover have "screens_ok ?t"
    using ok tok1 g vk cur cs
    by (auto simp: screens_ok_def terms_ok_def cursor_ok_def saved_cursor_ok_def
        dest!: set_update_subset_insert [THEN subsetD])
  ultimately show ?thesis using run by auto
qed

subsection \<open>\<open>term_read\<close> hands over the line\<close>

fun iterate :: "('s \<Rightarrow> 's option) \<Rightarrow> nat \<Rightarrow> 's \<Rightarrow> 's option" where
  "iterate idle 0 s = Some s"
| "iterate idle (Suc k) s = Option.bind (idle s) (iterate idle k)"

lemma spin_iterate:
  "iterate idle k s = Some t \<Longrightarrow> cond t = Some True \<Longrightarrow>
     (\<And>j u. j < k \<Longrightarrow> iterate idle j s = Some u \<Longrightarrow> cond u = Some False) \<Longrightarrow>
     spin cond idle s = Some t"
proof (induction k arbitrary: s)
  case 0
  then show ?case by (simp add: spin.simps)
next
  case (Suc k)
  then obtain v where v: "idle s = Some v" "iterate idle k v = Some t"
    by (auto simp: bind_Some_iff)
  have "spin cond idle v = Some t"
  proof (rule Suc.IH [OF v(2) Suc.prems(2)])
    fix j u assume "j < k" "iterate idle j v = Some u"
    then show "cond u = Some False" using Suc.prems(3) [of "Suc j" u] v(1) by simp
  qed
  moreover have "cond s = Some False" using Suc.prems(3) [of 0 s] by simp
  ultimately show ?case using v(1) by (simp add: spin.simps [of cond idle s])
qed

lemma store_bytes_eflags:
  "store_bytes a bs (s\<lparr>eflags_if := b\<rparr>) = map_option (\<lambda>t. t\<lparr>eflags_if := b\<rparr>) (store_bytes a bs s)"
proof (induction bs arbitrary: a s)
  case (Cons c bs)
  have "translate (s\<lparr>eflags_if := b\<rparr>) a = translate s a" by (rule translate_cong) simp_all
  then have "store8 a c (s\<lparr>eflags_if := b\<rparr>) = map_option (\<lambda>t. t\<lparr>eflags_if := b\<rparr>) (store8 a c s)"
    by (cases "translate s a") (simp_all add: store8_def)
  then show ?case using Cons.IH by (cases "store8 a c s") simp_all
qed simp

text \<open>The state in which \<open>term_read\<close> waits: the reader is registered, no newline yet.\<close>

definition waiting :: "nat \<Rightarrow> 'a terminals_scheme \<Rightarrow> 'a terminals_scheme" where
  "waiting g s = s\<lparr>terms := (terms s)[g := (terms s ! g)\<lparr>read_in_progress := 1, newline_seen := 0\<rparr>]\<rparr>"

lemma term_read_line:
  assumes buf: "buf \<noteq> 0" and g: "current_group s = int g" "g < 3"
    and ok: "terms_ok s" "read_in_progress (terms s ! g) = 0"
    and run: "iterate idle k (waiting g s) = Some u" and u: "terms_ok u" "newline_seen (terms u ! g) \<noteq> 0"
    and before: "\<And>j w. j < k \<Longrightarrow> iterate idle j (waiting g s) = Some w \<Longrightarrow>
          terms_ok w \<and> newline_seen (terms w ! g) = 0"
    and n: "0 \<le> n" "n < 2 ^ 31"
    and st: "store_bytes buf (take (nat n) (line (terms u ! g))) u = Some v"
  shows "term_read idle fd buf n s = Some (int (length (take (nat n) (line (terms u ! g)))),
     v\<lparr>terms := (terms u)[g := (terms u ! g)\<lparr>term_buff_size := 0, read_in_progress := 0\<rparr>]\<rparr>)"
proof -
  let ?t = "terms u ! g" and ?s1 = "s\<lparr>terms := (terms s)[g := (terms s ! g)\<lparr>read_in_progress := 1\<rparr>]\<rparr>"
  have lens: "length (terms s) = 3" "length (terms u) = 3" using ok u by (simp_all add: terms_ok_def)
  have ok1: "terms_ok ?s1"
    using ok(1) terms_ok_nth [OF ok(1) g(2)] by (intro terms_ok_update g(2)) (auto simp: term_ok_def)
  have w: "waiting g s = ?s1\<lparr>terms := (terms ?s1)[g := (terms ?s1 ! g)\<lparr>newline_seen := 0\<rparr>]\<rparr>"
    using lens g by (simp add: waiting_def)
  have spin1: "spin (\<lambda>s. map_option (\<lambda>t. read_in_progress t = 0) (get_term (int g) s)) idle s = Some s"
    using ok g by (subst spin.simps) (simp add: get_term_ok)
  have spin2: "spin (\<lambda>s. map_option (\<lambda>t. newline_seen t \<noteq> 0) (get_term (int g) s)) idle (waiting g s) = Some u"
  proof (rule spin_iterate [OF run])
    show "map_option (\<lambda>t. newline_seen t \<noteq> 0) (get_term (int g) u) = Some True"
      using u g by (simp add: get_term_ok)
    fix j w assume "j < k" "iterate idle j (waiting g s) = Some w"
    then show "map_option (\<lambda>t. newline_seen t \<noteq> 0) (get_term (int g) w) = Some False"
      using before [of j w] g by (simp add: get_term_ok)
  qed
  have tok: "term_ok ?t" by (rule terms_ok_nth [OF u(1) g(2)])
  define m where "m = (if (word_of_int n :: u32) < of_nat (term_buff_size ?t) then nat n else term_buff_size ?t)"
  have "(word_of_int n :: u32) = of_nat (nat n)" using n by simp
  then have m: "m = min (nat n) (term_buff_size ?t)"
    using n tok unat_of_nat_u32 [of "nat n"] unat_of_nat_u32 [of "term_buff_size ?t"]
    by (auto simp: m_def term_ok_def word_less_nat_alt min_def)
  have out: "take m (term_buff ?t) = take (nat n) (line ?t)" "int m = int (length (take (nat n) (line ?t)))"
    using tok by (auto simp: m line_def term_ok_def min_def)
  have u': "terms_ok (u\<lparr>eflags_if := False\<rparr>)" using u(1) by (simp add: terms_ok_def)
  obtain h where v: "v = u\<lparr>phys := h\<rparr>" using store_bytes_same_but_phys [OF st] by blast
  have okv: "terms_ok (u\<lparr>phys := h, eflags_if := False\<rparr>)" using u(1) by (simp add: terms_ok_def)
  have "store_bytes buf (take m (term_buff ?t)) (u\<lparr>eflags_if := False\<rparr>) = Some (u\<lparr>phys := h, eflags_if := False\<rparr>)"
    using st by (simp add: out(1) store_bytes_eflags v)
  moreover have "terms_ok (u\<lparr>phys := h, eflags_if := eflags_if u,
      terms := (terms u)[g := ?t\<lparr>term_buff_size := 0\<rparr>]\<rparr>)"
    using u(1) tok by (auto simp: terms_ok_def term_ok_def dest!: set_update_subset_insert [THEN subsetD])
  ultimately show ?thesis
    using buf g spin1 spin2 put_term_ok [OF ok(1) g(2)] put_term_ok [OF ok1 g(2)] w lens
      get_term_ok [OF u' g(2)] put_term_ok [OF okv g(2)] out(2) v
    by (simp add: term_read_def get_current_group_def cli_and_save_def restore_flags_def sti_def
        m_def [symmetric] put_term_def)
qed

end
