(* ===== verification/Rtc.thy ===== *)
theory Rtc
  imports TermProps
begin

text \<open>
  The real-time clock driver (rtc.c). The chip runs at one fixed rate; every process group has a
  virtual clock, made of a divider, a count of interrupts since its last read and a waiting
  flag.
\<close>

record rtc = terminals +
  rtc_read_waiting :: "int list"
  rtc_intr_count :: "int list"
  rtc_freq_divider :: "int list"

abbreviation (input) RTC_FREQ :: int where "RTC_FREQ \<equiv> 1024"
abbreviation (input) RTC_WAITING :: int where "RTC_WAITING \<equiv> 1"
abbreviation (input) RTC_NOT_WAITING :: int where "RTC_NOT_WAITING \<equiv> 0"
abbreviation (input) RTC_REG_A_NMI :: u8 where "RTC_REG_A_NMI \<equiv> 0x8A"
abbreviation (input) RTC_REG_B_NMI :: u8 where "RTC_REG_B_NMI \<equiv> 0x8B"
abbreviation (input) RTC_PORT0 :: u16 where "RTC_PORT0 \<equiv> 0x70"
abbreviation (input) RTC_PORT1 :: u16 where "RTC_PORT1 \<equiv> 0x71"

definition rtc_type_table :: file_op_table where
  "rtc_type_table = \<lparr>op_read = Some Rtc_read, op_write = Some Rtc_write, op_open = Some Rtc_open,
     op_close = Some Rtc_close\<rparr>"

definition set_waiting :: "int \<Rightarrow> int \<Rightarrow> 'a rtc_scheme \<Rightarrow> 'a rtc_scheme option" where
  "set_waiting g v s = map_option (\<lambda>xs. s\<lparr>rtc_read_waiting := xs\<rparr>) (arr_set (rtc_read_waiting s) g v)"

definition set_count :: "int \<Rightarrow> int \<Rightarrow> 'a rtc_scheme \<Rightarrow> 'a rtc_scheme option" where
  "set_count g v s = map_option (\<lambda>xs. s\<lparr>rtc_intr_count := xs\<rparr>) (arr_set (rtc_intr_count s) g v)"

definition set_divider :: "int \<Rightarrow> int \<Rightarrow> 'a rtc_scheme \<Rightarrow> 'a rtc_scheme option" where
  "set_divider g v s = map_option (\<lambda>xs. s\<lparr>rtc_freq_divider := xs\<rparr>) (arr_set (rtc_freq_divider s) g v)"

definition rtc_init :: "'a rtc_scheme \<Rightarrow> 'a rtc_scheme" where
  "rtc_init s =
     (let (flags, s) = cli_and_save s;
          s = s\<lparr>op_tables := (op_tables s)(Rtc_type_ops := rtc_type_table)\<rparr>;
          s = outb RTC_REG_B_NMI RTC_PORT0 s;
          prevB = (ucast (inb RTC_PORT1 s) :: u8);
          s = outb RTC_REG_B_NMI RTC_PORT0 s;
          s = outb (prevB OR 0x40) RTC_PORT1 s
      in enable_irq 8 (sti s))"

text \<open>The interrupt handler: one step for a group, then the loop over the groups. A zero divider
  is a divide error.\<close>

definition rtc_tick :: "int \<Rightarrow> 'a rtc_scheme \<Rightarrow> 'a rtc_scheme option" where
  "rtc_tick g s = do {
     w \<leftarrow> arr_get (rtc_read_waiting s) g;
     if w = 1 then do {
       n \<leftarrow> arr_get (rtc_intr_count s) g;
       s \<leftarrow> set_count g (n + 1) s;
       d \<leftarrow> arr_get (rtc_freq_divider s) g;
       assert_opt (d \<noteq> 0);
       if n + 1 \<ge> RTC_FREQ sdiv d then set_waiting g RTC_NOT_WAITING s else Some s
     } else Some s
   }"

fun rtc_ticks :: "nat \<Rightarrow> nat \<Rightarrow> 'a rtc_scheme \<Rightarrow> 'a rtc_scheme option" where
  "rtc_ticks g 0 s = Some s"
| "rtc_ticks g (Suc k) s = do { s \<leftarrow> rtc_tick (int g) s; rtc_ticks (Suc g) k s }"

definition rtc_wrapper :: "'a rtc_scheme \<Rightarrow> 'a rtc_scheme option" where
  "rtc_wrapper s = do {
     s \<leftarrow> rtc_ticks 0 MAX_PROCESS_GROUPS (send_eoi 8 (disable_irq 8 s));
     Some (enable_irq 8 (outb 0x0C RTC_PORT0 s))
   }"

definition rtc_read :: "('a rtc_scheme \<Rightarrow> 'a rtc_scheme option) \<Rightarrow> int \<Rightarrow> u32 \<Rightarrow> int
    \<Rightarrow> 'a rtc_scheme \<Rightarrow> (int \<times> 'a rtc_scheme) option" where
  "rtc_read idle fd buf nbytes s = do {
     let g = get_current_group s;
     s \<leftarrow> set_waiting g RTC_WAITING s;
     s \<leftarrow> set_count g 0 s;
     s \<leftarrow> spin (\<lambda>s. map_option (\<lambda>w. w = RTC_NOT_WAITING) (arr_get (rtc_read_waiting s) g)) idle s;
     Some (SUCCESS, s)
   }"

definition rtc_write :: "int \<Rightarrow> u32 \<Rightarrow> int \<Rightarrow> 'a rtc_scheme \<Rightarrow> (int \<times> 'a rtc_scheme) option" where
  "rtc_write fd buf nbytes s = do {
     let (flags, s) = cli_and_save s;
     w \<leftarrow> load32 s buf;
     let input = sint w;
     if w AND (w - 1) = 0 \<and> input \<ge> 2 \<and> input \<le> 32768 then do {
       s \<leftarrow> set_divider (get_current_group s) (input * 4) s;
       Some (SUCCESS, sti s)
     } else Some (FAILURE, sti s)
   }"

definition rtc_open :: "'a rtc_scheme \<Rightarrow> (int \<times> 'a rtc_scheme) option" where
  "rtc_open s = do {
     let s = outb RTC_REG_A_NMI RTC_PORT0 s;
     let prevA = (ucast (inb RTC_PORT1 s) :: u8) AND 0xF0;
     let s = outb RTC_REG_A_NMI RTC_PORT0 s;
     let s = outb (prevA OR 6) RTC_PORT1 s;
     let g = get_current_group s;
     s \<leftarrow> set_divider g 2 s;
     s \<leftarrow> set_waiting g 0 s;
     s \<leftarrow> set_count g 0 s;
     Some (SUCCESS, s)
   }"

definition rtc_close :: "int \<Rightarrow> 'a procs_scheme \<Rightarrow> (int \<times> 'a procs_scheme) option" where
  "rtc_close fd s =
     (if fd < 0 \<or> fd \<ge> int FD_ARRAY_SIZE then Some (FAILURE, s)
      else do {
        p \<leftarrow> get_current_pcb s;
        s \<leftarrow> put_fd p fd clear_fd s;
        Some (SUCCESS, s)
      })"

interpretation rtc_closer: fd_closer rtc_close
proof unfold_locales
  fix s :: "'a procs_scheme" and p fd
  assume "current_ok s p" "fd < 8" "f_flags (fd_at s p fd) \<noteq> NOT_IN_USE"
  then show "rtc_close (int fd) s = Some (SUCCESS, with_fd p fd clear_fd s)"
    using put_fd_current [of s p fd clear_fd] by (simp add: rtc_close_def current_ok_def)
next
  fix s :: "'a procs_scheme" and p k
  assume "k < 0 \<or> k \<ge> (8 :: int)"
  then show "rtc_close k s = Some (FAILURE, s)" by (auto simp: rtc_close_def)
qed

subsection \<open>The virtual clocks\<close>

text \<open>The clock of one group, apart from the machine: waiting flag, count and divider.\<close>

type_synonym vclock = "int \<times> int \<times> int"

fun clock_tick :: "vclock \<Rightarrow> vclock" where
  "clock_tick (w, n, d) =
     (if w = 1 then (if n + 1 \<ge> RTC_FREQ sdiv d then 0 else 1, n + 1, d) else (w, n, d))"

definition clock :: "nat \<Rightarrow> 'a rtc_scheme \<Rightarrow> vclock" where
  "clock g s = (rtc_read_waiting s ! g, rtc_intr_count s ! g, rtc_freq_divider s ! g)"

definition clocks_ok :: "'a rtc_scheme \<Rightarrow> bool" where
  "clocks_ok s \<longleftrightarrow> length (rtc_read_waiting s) = 3 \<and> length (rtc_intr_count s) = 3 \<and>
     length (rtc_freq_divider s) = 3 \<and>
     (\<forall>g<3. rtc_read_waiting s ! g = 1 \<longrightarrow> 0 < rtc_freq_divider s ! g)"

lemma rtc_tick_clock:
  assumes "clocks_ok s" "g < 3"
  shows "\<exists>t. rtc_tick (int g) s = Some t \<and> clocks_ok t \<and>
     (\<forall>h<3. clock h t = (if h = g then clock_tick (clock h s) else clock h s))"
proof (cases "rtc_read_waiting s ! g = 1")
  case False
  then show ?thesis using assms by (auto simp: rtc_tick_def clocks_ok_def clock_def)
next
  case True
  then have d: "0 < rtc_freq_divider s ! g" using assms by (simp add: clocks_ok_def)
  then have dz: "rtc_freq_divider s ! g \<noteq> 0" by simp
  show ?thesis
    using assms True
    by (auto simp: dz rtc_tick_def clocks_ok_def clock_def set_count_def set_waiting_def nth_list_update)
qed

lemma rtc_ticks_clock:
  assumes "clocks_ok s"
  shows "\<exists>t. rtc_ticks 0 3 s = Some t \<and> clocks_ok t \<and> (\<forall>h<3. clock h t = clock_tick (clock h s))"
proof -
  obtain t0 where t0: "rtc_tick (int 0) s = Some t0" "clocks_ok t0"
    "\<forall>h<3. clock h t0 = (if h = 0 then clock_tick (clock h s) else clock h s)"
    using rtc_tick_clock [OF assms, of 0] by auto
  obtain t1 where t1: "rtc_tick (int 1) t0 = Some t1" "clocks_ok t1"
    "\<forall>h<3. clock h t1 = (if h = 1 then clock_tick (clock h t0) else clock h t0)"
    using rtc_tick_clock [OF t0(2), of 1] by auto
  obtain t2 where t2: "rtc_tick (int 2) t1 = Some t2" "clocks_ok t2"
    "\<forall>h<3. clock h t2 = (if h = 2 then clock_tick (clock h t1) else clock h t1)"
    using rtc_tick_clock [OF t1(2), of 2] by auto
  have "rtc_ticks 0 3 s = Some t2"
    using t0(1) t1(1) t2(1) by (simp add: numeral_3_eq_3)
  moreover have "clock h t2 = clock_tick (clock h s)" if "h < 3" for h
    using below_3 [OF that] t0(3) t1(3) t2(3) by auto
  ultimately show ?thesis using t2(2) by blast
qed

lemma clock_machine [simp]:
  "clock g (send_eoi n s) = clock g s" "clock g (enable_irq n s) = clock g s"
  "clock g (disable_irq n s) = clock g s" "clock g (outb d p s) = clock g s"
  "clocks_ok (send_eoi n s) = clocks_ok s" "clocks_ok (enable_irq n s) = clocks_ok s"
  "clocks_ok (disable_irq n s) = clocks_ok s" "clocks_ok (outb d p s) = clocks_ok s"
  by (simp_all add: clock_def clocks_ok_def send_eoi_def enable_irq_def disable_irq_def cpu_defs Let_def)

lemma rtc_wrapper_clock:
  assumes "clocks_ok s"
  shows "\<exists>t. rtc_wrapper s = Some t \<and> clocks_ok t \<and> (\<forall>h<3. clock h t = clock_tick (clock h s))"
  using rtc_ticks_clock [of "send_eoi 8 (disable_irq 8 s)"] assms
  by (auto simp: rtc_wrapper_def)

text \<open>After \<open>k\<close> interrupts a reader that started waiting at count 0 is still waiting exactly as
  long as \<open>k\<close> is below \<open>RTC_FREQ div d\<close> (and always until the first one).\<close>

lemma clock_ticks:
  assumes d: "0 < d"
  shows "(clock_tick ^^ k) (1, 0, d) =
     (if k = 0 \<or> int k < RTC_FREQ div d then (1, int k, d) else (0, max 1 (RTC_FREQ div d), d))"
proof (induction k)
  case 0
  then show ?case by simp
next
  case (Suc k)
  have q: "RTC_FREQ sdiv d = RTC_FREQ div d" "0 \<le> RTC_FREQ div d"
    using d by (simp_all add: sdiv_nonneg pos_imp_zdiv_nonneg_iff)
  show ?case
  proof (cases "k = 0 \<or> int k < RTC_FREQ div d")
    case True
    then show ?thesis using Suc q by (cases "k = 0") auto
  next
    case False
    then show ?thesis using Suc q by auto
  qed
qed

subsection \<open>Waiting and setting the rate\<close>

lemma iterate_rtc:
  "clocks_ok s \<Longrightarrow> \<exists>t. iterate rtc_wrapper k s = Some t \<and> clocks_ok t \<and>
     (\<forall>h<3. clock h t = (clock_tick ^^ k) (clock h s))"
proof (induction k arbitrary: s)
  case (Suc k)
  obtain u where u: "rtc_wrapper s = Some u" "clocks_ok u" "\<forall>h<3. clock h u = clock_tick (clock h s)"
    using rtc_wrapper_clock [OF Suc.prems] by blast
  then show ?case using Suc.IH [OF u(2)] by (auto simp: funpow_swap1)
qed simp

definition rtc_armed :: "nat \<Rightarrow> 'a rtc_scheme \<Rightarrow> 'a rtc_scheme" where
  "rtc_armed g s = s\<lparr>rtc_read_waiting := (rtc_read_waiting s)[g := RTC_WAITING],
     rtc_intr_count := (rtc_intr_count s)[g := 0]\<rparr>"

lemma rtc_read_returns:
  assumes ok: "clocks_ok s" and g: "current_group s = int g" "g < 3" and d: "rtc_freq_divider s ! g = d" "0 < d"
  shows "\<exists>t. iterate rtc_wrapper (nat (max 1 (RTC_FREQ div d))) (rtc_armed g s) = Some t \<and>
    rtc_read rtc_wrapper fd buf n s = Some (SUCCESS, t) \<and> clock g t = (0, max 1 (RTC_FREQ div d), d)"
proof -
  let ?a = "rtc_armed g s" and ?n = "nat (max 1 (RTC_FREQ div d))"
  let ?cond = "\<lambda>s. map_option (\<lambda>w. w = RTC_NOT_WAITING) (arr_get (rtc_read_waiting s) (int g))"
  have len: "length (rtc_read_waiting s) = 3" "length (rtc_intr_count s) = 3" using ok by (simp_all add: clocks_ok_def)
  have oka: "clocks_ok ?a" using ok d g by (auto simp: clocks_ok_def rtc_armed_def nth_list_update)
  have cla: "clock g ?a = (1, 0, d)" using len g d by (simp add: clock_def rtc_armed_def)
  have cond: "?cond t = Some (fst (clock g t) = 0)" if "clocks_ok t" for t :: "'a rtc_scheme"
    using that g(2) by (simp add: clocks_ok_def clock_def)
  obtain t where t: "iterate rtc_wrapper ?n ?a = Some t" "clocks_ok t" "clock g t = (clock_tick ^^ ?n) (1, 0, d)"
    using iterate_rtc [OF oka, of ?n] cla g(2) by auto
  have n: "int ?n = max 1 (RTC_FREQ div d)" by simp
  then have ct: "clock g t = (0, max 1 (RTC_FREQ div d), d)"
    using t(3) clock_ticks [OF d(2), of ?n] by auto
  have "spin ?cond rtc_wrapper ?a = Some t"
  proof (rule spin_iterate [OF t(1)])
    show "?cond t = Some True" using cond [OF t(2)] ct by simp
    fix j u assume j: "j < ?n" and u: "iterate rtc_wrapper j ?a = Some u"
    then have cu: "clocks_ok u" "clock g u = (clock_tick ^^ j) (1, 0, d)"
      using iterate_rtc [OF oka, of j] cla g(2) by auto
    have "j = 0 \<or> int j < RTC_FREQ div d" using j by linarith
    then have "fst (clock g u) = 1" using cu(2) clock_ticks [OF d(2), of j] by simp
    then show "?cond u = Some False" using cond [OF cu(1)] by simp
  qed
  then have "rtc_read rtc_wrapper fd buf n s = Some (SUCCESS, t)"
    using g len by (simp add: rtc_read_def get_current_group_def set_waiting_def set_count_def rtc_armed_def)
  then show ?thesis using t(1) ct by blast
qed

text \<open>The test \<open>w & (w - 1)\<close> for powers of two.\<close>

lemma nat_power_test: "0 < n \<Longrightarrow> ((n :: nat) AND (n - 1) = 0) = (\<exists>k. n = 2 ^ k)"
proof (induction n rule: nat_bit_induct)
  case (even n)
  have m: "2 * n - 1 = Suc (2 * (n - 1))" using even.hyps by simp
  have "2 * n AND (2 * n - 1) = 2 * (n AND (n - 1))" unfolding m by (subst and_nat_rec) simp
  moreover have "(\<exists>k. 2 * n = 2 ^ k) = (\<exists>k. n = 2 ^ k)"
  proof
    assume "\<exists>k. 2 * n = 2 ^ k"
    then obtain k where k: "2 * n = 2 ^ k" by blast
    then show "\<exists>k. n = 2 ^ k" by (cases k) auto
  qed (metis power_Suc)
  ultimately show ?case using even by simp
next
  case (odd n)
  have "Suc (2 * n) AND 2 * n = 2 * n" by (subst and_nat_rec) simp
  moreover have "(\<exists>k. Suc (2 * n) = 2 ^ k) = (n = 0)"
  proof
    assume "\<exists>k. Suc (2 * n) = 2 ^ k"
    then obtain k where k: "Suc (2 * n) = 2 ^ k" by blast
    then have "odd ((2 :: nat) ^ k)" by (metis even_Suc dvd_triv_left)
    then show "n = 0" using k by simp
  qed (auto intro: exI [of _ 0])
  ultimately show ?case by simp
qed simp

lemma unat_power_u32: "k < 32 \<Longrightarrow> unat (2 ^ k :: u32) = 2 ^ k"
proof -
  assume "k < 32"
  then have "(2 :: nat) ^ k < 2 ^ 32" by (simp only: power_strict_increasing_iff)
  then show ?thesis using unat_of_nat_u32 [of "2 ^ k"] by simp
qed

lemma word_power_test: "(w AND (w - 1) = 0) = ((w :: u32) = 0 \<or> (\<exists>k<32. w = 2 ^ k))"
proof (cases "w = 0")
  case False
  then have pos: "0 < unat w" by (simp add: unat_gt_0)
  have "unat (w - 1) = unat w - 1" using False by (simp add: unat_minus_one)
  then have "unat (w AND (w - 1)) = unat w AND (unat w - 1)" by (simp add: unsigned_and_eq)
  then have "(w AND (w - 1) = 0) = (\<exists>k. unat w = 2 ^ k)"
    using nat_power_test [OF pos] by (simp add: unat_eq_0 [symmetric] del: unat_eq_0)
  also have "\<dots> = (\<exists>k<32. w = 2 ^ k)"
  proof
    assume "\<exists>k. unat w = 2 ^ k"
    then obtain k where k: "unat w = 2 ^ k" by blast
    have "unat w < 2 ^ 32" using unsigned_less [of w] by simp
    then have "(2 :: nat) ^ k < 2 ^ 32" using k by simp
    then have k32: "k < 32" by (simp only: power_strict_increasing_iff)
    have "unat (2 ^ k :: u32) = 2 ^ k" by (rule unat_power_u32 [OF k32])
    then have "w = 2 ^ k" using k by (intro word_unat_eq_iff [THEN iffD2]) simp
    then show "\<exists>k<32. w = 2 ^ k" using k32 by blast
  next
    assume "\<exists>k<32. w = 2 ^ k"
    then obtain k where "k < 32" "w = 2 ^ k" by blast
    then have "unat w = 2 ^ k" using unat_power_u32 [of k] by simp
    then show "\<exists>k. unat w = 2 ^ k" by blast
  qed
  finally show ?thesis using False by simp
qed simp

lemma rtc_write_rate:
  assumes g: "current_group s = int g" "g < 3" "length (rtc_freq_divider s) = 3" and w: "load32 s buf = Some w"
  shows "rtc_write fd buf n s =
    (if \<exists>k. 1 \<le> k \<and> k \<le> 15 \<and> w = 2 ^ k
     then Some (SUCCESS, s\<lparr>rtc_freq_divider := (rtc_freq_divider s)[g := 4 * sint w], eflags_if := True\<rparr>)
     else Some (FAILURE, s\<lparr>eflags_if := True\<rparr>))"
proof -
  have si: "sint (2 ^ k :: u32) = (if k = 31 then - (2 ^ 31) else 2 ^ k)" if "k < 32" for k
  proof -
    have "list_all (\<lambda>k. sint (2 ^ k :: u32) = (if k = 31 then - (2 ^ 31) else 2 ^ k)) [0..<32]"
      by (simp add: upt_rec)
    then show ?thesis using that by (simp add: list_all_iff)
  qed
  have "(w AND (w - 1) = 0 \<and> 2 \<le> sint w \<and> sint w \<le> 32768) = (\<exists>k. 1 \<le> k \<and> k \<le> 15 \<and> w = 2 ^ k)"
    (is "?l = ?r")
  proof
    assume l: ?l
    then have "w \<noteq> 0" by auto
    then obtain k where k: "k < 32" "w = 2 ^ k" using l word_power_test [of w] by blast
    have "k \<noteq> 31" using l k si [of 31] by auto
    then have p: "(2 :: int) ^ 1 \<le> 2 ^ k" "(2 :: int) ^ k \<le> 2 ^ 15" using l k si [OF k(1)] by simp_all
    have "1 \<le> k" by (rule power_le_imp_le_exp [OF _ p(1)]) simp
    moreover have "k \<le> 15" by (rule power_le_imp_le_exp [OF _ p(2)]) simp
    ultimately show ?r using k by blast
  next
    assume ?r
    then obtain k where k: "1 \<le> k" "k \<le> 15" "w = 2 ^ k" by blast
    have "(2 :: int) ^ 1 \<le> 2 ^ k" "(2 :: int) ^ k \<le> 2 ^ 15"
      by (rule power_increasing; use k in simp)+
    then have "2 \<le> sint w" "sint w \<le> 32768" using k si [of k] by simp_all
    moreover have "\<exists>k<32. w = 2 ^ k" using k by (intro exI [of _ k]) simp
    then have "w AND (w - 1) = 0" by (simp only: word_power_test) blast
    ultimately show ?l by blast
  qed
  moreover have "load32 (s\<lparr>eflags_if := False\<rparr>) buf = Some w"
    using w load32_cong [of "s\<lparr>eflags_if := False\<rparr>" buf s] by (simp add: load8_def translate_def Let_def)
  ultimately show ?thesis
    using g by (simp add: rtc_write_def cli_and_save_def Let_def sti_def set_divider_def get_current_group_def
        mult.commute cong: conj_cong)
qed

end
