(* ===== verification/Fifo.thy ===== *)
theory Fifo
  imports Prelude
begin

text \<open>
  Ring buffers. A buffer of \<open>n\<close> slots with a start and an end index holds up to \<open>n - 1\<close> bytes;
  \<open>ring_list\<close> is what it holds, in order. The drivers use their ring buffers through the
  interface \<open>byte_fifo\<close>, a queue of bytes of bounded capacity.
\<close>

subsection \<open>The contents of a ring\<close>

definition ring_used :: "nat \<Rightarrow> nat \<Rightarrow> nat \<Rightarrow> nat" where
  "ring_used n a b = (if a \<le> b then b - a else n + b - a)"

definition ring_ok :: "'b list \<Rightarrow> nat \<Rightarrow> nat \<Rightarrow> bool" where
  "ring_ok buf a b \<longleftrightarrow> a < length buf \<and> b < length buf"

definition ring_list :: "'b list \<Rightarrow> nat \<Rightarrow> nat \<Rightarrow> 'b list" where
  "ring_list buf a b = map (\<lambda>i. buf ! ((a + i) mod length buf)) [0..<ring_used (length buf) a b]"

lemma length_ring_list [simp]: "length (ring_list buf a b) = ring_used (length buf) a b"
  by (simp add: ring_list_def)

lemma ring_used_mod: "a < n \<Longrightarrow> b < n \<Longrightarrow> ring_used n a b < n \<and> (a + ring_used n a b) mod n = b"
  by (auto simp: ring_used_def mod_if)

lemma ring_used_unique: "a < n \<Longrightarrow> b < n \<Longrightarrow> k < n \<Longrightarrow> (a + k) mod n = b \<Longrightarrow> ring_used n a b = k"
  by (auto simp: ring_used_def mod_if split: if_splits)

lemma ring_list_empty: "ring_ok buf a b \<Longrightarrow> (ring_list buf a b = []) = (a = b)"
  using length_0_conv [of "ring_list buf a b"] by (auto simp: ring_ok_def ring_used_def split: if_splits)

lemma ring_full: "ring_ok buf a b \<Longrightarrow> (Suc b mod length buf = a) = (Suc (length (ring_list buf a b)) = length buf)"
  by (auto simp: ring_ok_def ring_used_def mod_if)

lemma ring_push:
  assumes ok: "ring_ok buf a b" and room: "Suc b mod length buf \<noteq> a"
  shows "ring_ok (buf[b := x]) a (Suc b mod length buf)"
    "ring_list (buf[b := x]) a (Suc b mod length buf) = ring_list buf a b @ [x]"
proof -
  let ?n = "length buf" and ?k = "ring_used (length buf) a b"
  have ab: "a < ?n" "b < ?n" using ok by (simp_all add: ring_ok_def)
  then have "Suc b mod ?n < ?n" by (intro mod_less_divisor) linarith
  then show "ring_ok (buf[b := x]) a (Suc b mod ?n)" using ab by (simp add: ring_ok_def)
  note u = ring_used_mod [OF ab]
  have k: "Suc ?k < ?n" using ring_full [OF ok] room u by auto
  have "Suc ((a + ?k) mod ?n) mod ?n = Suc (a + ?k) mod ?n" by (rule mod_Suc_eq)
  then have "(a + Suc ?k) mod ?n = Suc b mod ?n" using u by simp
  then have used: "ring_used ?n a (Suc b mod ?n) = Suc ?k"
    by (intro ring_used_unique ab k) (use \<open>Suc b mod ?n < ?n\<close> in simp_all)
  have keep: "b \<noteq> (a + i) mod ?n" if "i < ?k" for i
    using ring_used_unique [OF ab, of i] that u by auto
  have "ring_list (buf[b := x]) a (Suc b mod ?n) =
      map (\<lambda>i. buf[b := x] ! ((a + i) mod ?n)) [0..<?k] @ [buf[b := x] ! ((a + ?k) mod ?n)]"
    by (simp add: ring_list_def used)
  also have "map (\<lambda>i. buf[b := x] ! ((a + i) mod ?n)) [0..<?k] = ring_list buf a b"
    using keep by (simp add: ring_list_def)
  finally show "ring_list (buf[b := x]) a (Suc b mod ?n) = ring_list buf a b @ [x]" using u ab by simp
qed

lemma ring_pop:
  assumes ok: "ring_ok buf a b" and ne: "a \<noteq> b"
  shows "ring_ok buf (Suc a mod length buf) b"
    "ring_list buf a b = buf ! a # ring_list buf (Suc a mod length buf) b"
proof -
  let ?n = "length buf" and ?k = "ring_used (length buf) a b"
  have ab: "a < ?n" "b < ?n" using ok by (simp_all add: ring_ok_def)
  then have sa: "Suc a mod ?n < ?n" by (intro mod_less_divisor) linarith
  then show "ring_ok buf (Suc a mod ?n) b" using ab by (simp add: ring_ok_def)
  note u = ring_used_mod [OF ab]
  obtain m where m: "?k = Suc m" using u ne ab by (cases ?k) auto
  have "(Suc a mod ?n + m) mod ?n = (Suc a + m) mod ?n" by (rule mod_add_left_eq)
  then have used: "ring_used ?n (Suc a mod ?n) b = m"
    by (intro ring_used_unique sa ab) (use u m in simp_all)
  have "ring_list buf a b = buf ! (a mod ?n) # map (\<lambda>i. buf ! ((a + Suc i) mod ?n)) [0..<m]"
    unfolding ring_list_def m by (simp add: upt_conv_Cons map_Suc_upt [symmetric] del: upt_Suc)
  then show "ring_list buf a b = buf ! a # ring_list buf (Suc a mod ?n) b"
    using ab by (simp add: ring_list_def used mod_simps)
qed

subsection \<open>A bounded queue of bytes\<close>

locale byte_fifo =
  fixes ok :: "'s \<Rightarrow> bool" and content :: "'s \<Rightarrow> u8 list" and capacity :: nat
    and enq :: "u8 list \<Rightarrow> 's \<Rightarrow> 's" and deq :: "'s \<Rightarrow> 's"
  assumes enq_room: "ok s \<Longrightarrow> length (content s) + length bs \<le> capacity \<Longrightarrow>
      ok (enq bs s) \<and> content (enq bs s) = content s @ bs"
    and deq_tl: "ok s \<Longrightarrow> ok (deq s) \<and> content (deq s) = tl (content s)"
begin

lemma deq_many: "ok s \<Longrightarrow> ok ((deq ^^ k) s) \<and> content ((deq ^^ k) s) = drop k (content s)"
proof (induction k)
  case (Suc k)
  then show ?case using deq_tl [of "(deq ^^ k) s"] by (simp add: drop_Suc tl_drop)
qed simp

text \<open>First in, first out: behind what was queued before, the bytes come out in order.\<close>

lemma fifo:
  assumes "ok s" "length (content s) + length bs \<le> capacity" "i < length bs"
  shows "hd (content ((deq ^^ (length (content s) + i)) (enq bs s))) = bs ! i"
  using deq_many [of "enq bs s"] enq_room [OF assms(1,2)] assms(3)
  by (simp add: hd_drop_conv_nth nth_append)

end

end
