(* ===== verification/Keyboard.thy ===== *)
theory Keyboard
  imports Rtc Fifo
begin

text \<open>
  The keyboard driver (device/keyboard.c and the tables of device/keyboard.h): the ring buffer
  of command bytes, the decoding of scan codes, the modifier and lock keys, and the actions of
  the interrupt handler on the terminals.

  The ring buffer is used through the interface \<open>byte_fifo\<close> of Fifo.
\<close>

record keyboard = rtc +
  cmd_queue :: "u8 list"
  q_start :: nat          \<comment> \<open>\<open>start\<close>\<close>
  q_end :: nat            \<comment> \<open>\<open>end\<close>\<close>
  scan_code_extended :: u8
  scan_code_break :: u8
  lock_states :: u8
  keys :: "u8 list"

abbreviation (input) CMD_QUEUE_SIZE :: nat where "CMD_QUEUE_SIZE \<equiv> 50"
abbreviation (input) NUMBER_OF_KEYCODES :: nat where "NUMBER_OF_KEYCODES \<equiv> 125"
abbreviation (input) KEY_PORT :: u16 where "KEY_PORT \<equiv> 0x60"
abbreviation (input) KEY_IRQ :: u32 where "KEY_IRQ \<equiv> 1"
abbreviation (input) NON_PRINTABLE :: u8 where "NON_PRINTABLE \<equiv> 0xFF"
abbreviation (input) CAPS_LOCK :: u8 where "CAPS_LOCK \<equiv> 0x04"

text \<open>The key codes that the handler names.\<close>

abbreviation (input) KEY_BACKSPACE :: nat where "KEY_BACKSPACE \<equiv> 13"
abbreviation (input) KEY_LCTRL :: nat where "KEY_LCTRL \<equiv> 28"
abbreviation (input) KEY_RCTRL :: nat where "KEY_RCTRL \<equiv> 88"
abbreviation (input) KEY_L :: nat where "KEY_L \<equiv> 37"
abbreviation (input) KEY_LSHIFT :: nat where "KEY_LSHIFT \<equiv> 41"
abbreviation (input) KEY_RSHIFT :: nat where "KEY_RSHIFT \<equiv> 53"
abbreviation (input) KEY_LALT :: nat where "KEY_LALT \<equiv> 55"
abbreviation (input) KEY_RALT :: nat where "KEY_RALT \<equiv> 99"
abbreviation (input) KEY_CAPS_LOCK :: nat where "KEY_CAPS_LOCK \<equiv> 57"
abbreviation (input) KEY_NUM_LOCK :: nat where "KEY_NUM_LOCK \<equiv> 68"
abbreviation (input) KEY_SCROLL_LOCK :: nat where "KEY_SCROLL_LOCK \<equiv> 69"
abbreviation (input) KEY_F1 :: nat where "KEY_F1 \<equiv> 58"
abbreviation (input) KEY_F2 :: nat where "KEY_F2 \<equiv> 59"
abbreviation (input) KEY_F3 :: nat where "KEY_F3 \<equiv> 60"

text \<open>Scan code set 1 to key codes; the second half is for extended codes.\<close>

definition scan_map :: "nat list" where
  "scan_map =
    [0, 0, 1, 2, 3, 4, 5, 6, 7, 8, 9, 10, 11, 12, 13, 14, 15, 16, 17, 18, 19, 20, 21, 22, 23, 24, 25, 26, 27, 28, 29, 30,
     31, 32, 33, 34, 35, 36, 37, 38, 39, 40, 41, 42, 43, 44, 45, 46, 47, 48, 49, 50, 51, 52, 53, 54, 55, 56, 57, 58, 59, 60, 61, 62,
     63, 64, 65, 66, 67, 68, 69, 70, 71, 72, 73, 74, 75, 76, 77, 78, 79, 80, 81, 82, 0, 0, 0, 83, 84, 0, 0, 0, 0, 0, 0, 0,
     0, 0, 0, 0, 0, 0, 0, 0, 0, 0, 0, 0, 0, 0, 0, 0, 0, 0, 0, 0, 0, 0, 0, 0, 0, 0, 0, 0, 0, 0, 0, 0,
     0, 0, 0, 0, 0, 0, 0, 0, 0, 0, 0, 0, 0, 0, 0, 0, 0, 0, 0, 0, 0, 0, 0, 0, 0, 0, 0, 0, 0, 0, 0, 0,
     0, 0, 0, 0, 0, 0, 0, 0, 0, 0, 0, 0, 0, 0, 0, 0, 0, 0, 0, 0, 0, 0, 0, 0, 0, 0, 0, 0, 0, 0, 0, 0,
     0, 0, 0, 0, 0, 0, 0, 0, 0, 0, 0, 0, 0, 0, 0, 0, 0, 0, 0, 0, 0, 0, 0, 0, 0, 0, 0, 0, 0, 0, 0, 0,
     0, 0, 0, 0, 0, 0, 0, 0, 0, 0, 0, 0, 0, 0, 0, 0, 0, 0, 0, 0, 0, 0, 0, 0, 0, 0, 0, 0, 0, 0, 0, 0,
     0, 0, 0, 0, 0, 0, 0, 0, 0, 0, 0, 0, 0, 0, 0, 0, 85, 0, 0, 0, 0, 0, 0, 0, 0, 86, 0, 0, 87, 88, 0, 0,
     89, 90, 91, 0, 92, 0, 0, 0, 0, 0, 93, 0, 0, 0, 94, 0, 95, 0, 96, 0, 0, 97, 0, 93, 99, 0, 0, 0, 0, 0, 0, 0,
     0, 0, 0, 0, 0, 0, 0, 100, 101, 102, 0, 103, 0, 104, 0, 105, 106, 107, 108, 109, 0, 0, 0, 0, 0, 0, 0, 110, 111, 112, 113, 114,
     0, 0, 0, 115, 0, 116, 117, 118, 119, 120, 121, 122, 123, 124, 0, 0, 0, 0, 0, 0, 0, 0, 0, 0, 0, 0, 0, 0, 0, 0, 0, 0,
     0, 0, 0, 0, 0, 0, 0, 0, 0, 0, 0, 0, 0, 0, 0, 0, 0, 0, 0, 0, 0, 0, 0, 0, 0, 0, 0, 0, 0, 0, 0, 0,
     0, 0, 0, 0, 0, 0, 0, 0, 0, 0, 0, 0, 0, 0, 0, 0, 0, 0, 0, 0, 0, 0, 0, 0, 0, 0, 0, 0, 0, 0, 0, 0,
     0, 0, 0, 0, 0, 0, 0, 0, 0, 0, 0, 0, 0, 0, 0, 0, 0, 0, 0, 0, 0, 0, 0, 0, 0, 0, 0, 0, 0, 0, 0, 0,
     0, 0, 0, 0, 0, 0, 0, 0, 0, 0, 0, 0, 0, 0, 0, 0, 0, 0, 0, 0, 0, 0, 0, 0, 0, 0, 0, 0, 0, 0, 0, 0]"

text \<open>Key codes to characters; the second half is with SHIFT.\<close>

definition ascii_lookup :: "u8 list" where
  "ascii_lookup =
    [27, 49, 50, 51, 52, 53, 54, 55, 56, 57, 48, 45, 61, 8, 9, 113, 119, 101, 114, 116, 121, 117, 105, 111, 112,
     91, 93, 10, 0, 97, 115, 100, 102, 103, 104, 106, 107, 108, 59, 39, 96, 0, 92, 122, 120, 99, 118, 98, 110, 109,
     44, 46, 47, 0, 42, 0, 32, 0, 0, 0, 0, 0, 0, 0, 0, 0, 0, 0, 0, 0, 55, 56, 57, 45, 52,
     53, 54, 43, 49, 50, 51, 48, 46, 0, 0, 0, 0, 10, 0, 0, 0, 0, 0, 0, 0, 0, 0, 47, 0, 0,
     0, 0, 0, 0, 0, 0, 0, 0, 0, 127, 0, 0, 0, 0, 0, 0, 0, 0, 0, 0, 0, 0, 0, 0, 0,
     27, 33, 64, 35, 36, 37, 94, 38, 42, 40, 41, 95, 43, 8, 9, 81, 87, 69, 82, 84, 89, 85, 73, 79, 80,
     123, 125, 10, 0, 65, 83, 68, 70, 71, 72, 74, 75, 76, 58, 34, 126, 0, 124, 90, 88, 67, 86, 66, 78, 77,
     60, 62, 63, 0, 42, 0, 32, 0, 0, 0, 0, 0, 0, 0, 0, 0, 0, 0, 0, 0, 55, 56, 57, 45, 52,
     53, 54, 43, 49, 50, 51, 48, 46, 0, 0, 0, 0, 10, 0, 0, 0, 0, 0, 0, 0, 0, 0, 47, 0, 0,
     0, 0, 0, 0, 0, 0, 0, 0, 0, 127, 0, 0, 0, 0, 0, 0, 0, 0, 0, 0, 0, 0, 0, 0, 0]"

subsection \<open>The command queue\<close>

definition queue_empty :: "'a keyboard_scheme \<Rightarrow> bool" where
  "queue_empty s \<longleftrightarrow> q_start s = q_end s"

definition queue_used :: "'a keyboard_scheme \<Rightarrow> nat" where
  "queue_used s = (if q_start s \<le> q_end s then q_end s - q_start s
                   else CMD_QUEUE_SIZE + q_end s - q_start s)"

definition queue_room :: "'a keyboard_scheme \<Rightarrow> nat" where
  "queue_room s = CMD_QUEUE_SIZE - queue_used s - 1"

fun queue_bytes :: "u8 list \<Rightarrow> 'a keyboard_scheme \<Rightarrow> 'a keyboard_scheme" where
  "queue_bytes [] s = s"
| "queue_bytes (b # bs) s =
     queue_bytes bs (s\<lparr>cmd_queue := (cmd_queue s)[q_end s := b], q_end := (q_end s + 1) mod CMD_QUEUE_SIZE\<rparr>)"

definition send_cmd :: "u8 list \<Rightarrow> 'a keyboard_scheme \<Rightarrow> u8 \<times> 'a keyboard_scheme" where
  "send_cmd cmd s =
     (let (flags, s) = cli_and_save s;
          s = (if queue_empty s then outb (hd cmd) KEY_PORT s else s);
          (ret, s) = (if queue_room s > length cmd then (0, queue_bytes cmd s) else (-1, s))
      in (ret, restore_flags flags (sti s)))"

definition send_head :: "'a keyboard_scheme \<Rightarrow> 'a keyboard_scheme" where
  "send_head s = (if \<not> queue_empty s then outb (cmd_queue s ! 0) KEY_PORT s else s)"

definition pop_head :: "'a keyboard_scheme \<Rightarrow> 'a keyboard_scheme" where
  "pop_head s = (if \<not> queue_empty s then s\<lparr>q_start := (q_start s + 1) mod CMD_QUEUE_SIZE\<rparr> else s)"

definition keyboard_init :: "'a keyboard_scheme \<Rightarrow> 'a keyboard_scheme" where
  "keyboard_init s = snd (send_cmd [0xF4] (snd (send_cmd [0xF5] (enable_irq KEY_IRQ s))))"

subsection \<open>Characters\<close>

definition is_alpha :: "u8 \<Rightarrow> bool" where
  "is_alpha c \<longleftrightarrow> (sint c \<ge> 65 \<and> sint c \<le> 90) \<or> (sint c \<ge> 97 \<and> sint c \<le> 122)"

definition is_printable_ascii :: "u8 \<Rightarrow> bool" where
  "is_printable_ascii c \<longleftrightarrow> c = 9 \<or> c = 10 \<or> (sint c \<ge> 32 \<and> sint c \<le> 126)"

definition pressed :: "nat \<Rightarrow> 'a keyboard_scheme \<Rightarrow> bool" where
  "pressed k s \<longleftrightarrow> keys s ! k \<noteq> 0"

definition get_character :: "nat \<Rightarrow> 'a keyboard_scheme \<Rightarrow> u8" where
  "get_character code s =
     (if code \<ge> NUMBER_OF_KEYCODES \<or> pressed KEY_LCTRL s \<or> pressed KEY_RCTRL s then NON_PRINTABLE
      else
        let offset = (if pressed KEY_LSHIFT s \<or> pressed KEY_RSHIFT s then NUMBER_OF_KEYCODES else 0);
            ret = ascii_lookup ! (code + offset);
            ret = (if is_alpha ret \<and> lock_states s AND CAPS_LOCK \<noteq> 0
                   then ascii_lookup ! (code + NUMBER_OF_KEYCODES) else ret)
        in if is_printable_ascii ret then ret else NON_PRINTABLE)"

subsection \<open>The interrupt handler\<close>

text \<open>A lock key toggles its bit (scroll 1, num 2, caps 4) and sends the new LED state.\<close>

definition handle_locks :: "nat \<Rightarrow> 'a keyboard_scheme \<Rightarrow> 'a keyboard_scheme" where
  "handle_locks mapping s =
     (let toggle = (\<lambda>b s. let s = s\<lparr>lock_states := lock_states s XOR b\<rparr>
                          in snd (send_cmd [0xED, lock_states s] s))
      in if mapping = KEY_SCROLL_LOCK then toggle 1 s
         else if mapping = KEY_CAPS_LOCK then toggle 4 s
         else if mapping = KEY_NUM_LOCK then toggle 2 s
         else s)"

definition handle_press :: "nat \<Rightarrow> 'a keyboard_scheme \<Rightarrow> 'a keyboard_scheme option" where
  "handle_press mapping s = do {
     let s = s\<lparr>keys := (keys s)[mapping := 1]\<rparr>;
     let s = handle_locks mapping s;
     let c = get_character mapping s;
     s \<leftarrow> (if c \<noteq> NON_PRINTABLE then map_option snd (add_char_term c s)
          else if mapping = KEY_BACKSPACE then map_option snd (add_char_term 8 s)
          else Some s);
     let s = (if pressed KEY_L s \<and> (pressed KEY_LCTRL s \<or> pressed KEY_RCTRL s) then clear_term s else s);
     if pressed KEY_RALT s \<or> pressed KEY_LALT s then
       if pressed KEY_F1 s then map_option snd (switch_term 0 s)
       else if pressed KEY_F2 s then map_option snd (switch_term 1 s)
       else if pressed KEY_F3 s then map_option snd (switch_term 2 s)
       else Some s
     else Some s
   }"

definition handle_scan_code :: "u32 \<Rightarrow> 'a keyboard_scheme \<Rightarrow> 'a keyboard_scheme option" where
  "handle_scan_code resp s = do {
     let (resp, s) = (if resp \<ge> 0x80 then (resp - 0x80, s\<lparr>scan_code_break := 1\<rparr>) else (resp, s));
     let mapping = (if scan_code_extended s \<noteq> 0 then scan_map ! (unat resp + 256)
                    else scan_map ! unat resp);
     s \<leftarrow> (if scan_code_break s \<noteq> 0 then Some (s\<lparr>keys := (keys s)[mapping := 0]\<rparr>)
          else handle_press mapping s);
     Some (s\<lparr>scan_code_extended := 0, scan_code_break := 0\<rparr>)
   }"

definition echo_text :: "u8 list" where
  "echo_text = [69, 67, 72, 79, 32, 69, 99, 104, 111, 32, 101, 99, 104, 111, 10]"

definition handle_interrupt :: "'a keyboard_scheme \<Rightarrow> 'a keyboard_scheme option" where
  "handle_interrupt s =
     (let resp = inb KEY_PORT s
      in if resp = 0xFA then
           let (flags, s) = cli_and_save s; s = send_head (pop_head s) in Some (restore_flags flags (sti s))
         else if resp = 0xFE then
           let (flags, s) = cli_and_save s; s = send_head s in Some (restore_flags flags (sti s))
         else if resp = 0xEE then map_option snd (printf echo_text [] s)
         else if resp = 0xE0 then Some (s\<lparr>scan_code_extended := 1\<rparr>)
         else handle_scan_code resp s)"

definition keyboard_handler :: "'a keyboard_scheme \<Rightarrow> 'a keyboard_scheme option" where
  "keyboard_handler s = do {
     s \<leftarrow> handle_interrupt (send_eoi KEY_IRQ (disable_irq KEY_IRQ s));
     Some (enable_irq KEY_IRQ s)
   }"

subsection \<open>The command queue is a queue\<close>

definition queue_ok :: "'a keyboard_scheme \<Rightarrow> bool" where
  "queue_ok s \<longleftrightarrow> length (cmd_queue s) = CMD_QUEUE_SIZE \<and> q_start s < CMD_QUEUE_SIZE \<and> q_end s < CMD_QUEUE_SIZE"

definition queue_content :: "'a keyboard_scheme \<Rightarrow> u8 list" where
  "queue_content s = ring_list (cmd_queue s) (q_start s) (q_end s)"

lemma queue_ring: "queue_ok s \<Longrightarrow> ring_ok (cmd_queue s) (q_start s) (q_end s) \<and> length (cmd_queue s) = 50"
  by (simp add: queue_ok_def ring_ok_def)

lemma length_queue_content: "queue_ok s \<Longrightarrow> length (queue_content s) = queue_used s \<and> queue_used s < 50"
  by (auto simp: queue_content_def queue_ok_def queue_used_def ring_used_def)

lemma queue_byte:
  assumes "queue_ok s" "length (queue_content s) < 49"
  shows "queue_ok (queue_bytes [b] s)" "queue_content (queue_bytes [b] s) = queue_content s @ [b]"
proof -
  have "Suc (q_end s) mod 50 \<noteq> q_start s"
    using ring_full [of "cmd_queue s" "q_start s" "q_end s"] queue_ring [OF assms(1)] assms(2)
    by (auto simp: queue_content_def)
  then show "queue_content (queue_bytes [b] s) = queue_content s @ [b]" "queue_ok (queue_bytes [b] s)"
    using ring_push [of "cmd_queue s" "q_start s" "q_end s" b] queue_ring [OF assms(1)] assms(1)
    by (simp_all add: queue_content_def queue_ok_def)
qed

lemma queue_bytes_content:
  "queue_ok s \<Longrightarrow> length (queue_content s) + length bs \<le> 49 \<Longrightarrow>
     queue_ok (queue_bytes bs s) \<and> queue_content (queue_bytes bs s) = queue_content s @ bs"
proof (induction bs arbitrary: s)
  case (Cons b bs)
  have q: "queue_bytes (b # bs) s = queue_bytes bs (queue_bytes [b] s)" by simp
  have "length (queue_content s) < 49" using Cons.prems by simp
  note b = queue_byte [OF Cons.prems(1) this]
  have "queue_ok (queue_bytes bs (queue_bytes [b] s)) \<and>
      queue_content (queue_bytes bs (queue_bytes [b] s)) = queue_content (queue_bytes [b] s) @ bs"
    by (rule Cons.IH [OF b(1)]) (use b(2) Cons.prems(2) in simp)
  then show ?case unfolding q b(2) by simp
qed simp

lemma pop_head_content:
  assumes "queue_ok s"
  shows "queue_ok (pop_head s) \<and> queue_content (pop_head s) = tl (queue_content s)"
  using queue_ring [OF assms] ring_list_empty [of "cmd_queue s" "q_start s" "q_end s"]
    ring_pop [of "cmd_queue s" "q_start s" "q_end s"] assms
  by (cases "queue_empty s") (auto simp: pop_head_def queue_empty_def queue_content_def queue_ok_def)

interpretation cmd_fifo: byte_fifo queue_ok queue_content 49 queue_bytes pop_head
  by unfold_locales (simp_all add: queue_bytes_content pop_head_content)

end
