(* ===== verification/Process.thy ===== *)
theory Process
  imports Keyboard
begin

text \<open>
  Creating and destroying processes (pcb.c): \<open>pcb_init\<close>, \<open>pcb_setup\<close> and
  \<open>pcb_teardown\<close>, with the invariant of the process table. The PIDs that are in use form a
  tree rooted at the kernel (PID 0): the parent of a process stays alive as long as the process
  does, and no process that runs in a group has a child.
\<close>

definition run_close :: "close_fn \<Rightarrow> int \<Rightarrow> 'a procs_scheme \<Rightarrow> (int \<times> 'a procs_scheme) option" where
  "run_close f fd s =
     (case f of
        Term_close \<Rightarrow> term_close fd s
      | File_close \<Rightarrow> file_close fd s
      | Dir_close \<Rightarrow> dir_close fd s
      | Rtc_close \<Rightarrow> rtc_close fd s)"

fun clear_flags :: "u32 \<Rightarrow> nat \<Rightarrow> nat \<Rightarrow> 'a procs_scheme \<Rightarrow> 'a procs_scheme option" where
  "clear_flags p i 0 s = Some s"
| "clear_flags p i (Suc k) s = do {
     s \<leftarrow> put_fd p (int i) (\<lambda>f. f\<lparr>f_flags := NOT_IN_USE\<rparr>) s;
     clear_flags p (Suc i) k s
   }"

definition pcb_init :: "'a terminals_scheme \<Rightarrow> 'a terminals_scheme option" where
  "pcb_init s = do {
     let s = s\<lparr>pid_array := replicate MAX_PID 0\<rparr>;
     let s = s\<lparr>active_pid := replicate MAX_PROCESS_GROUPS 0\<rparr>;
     pid \<leftarrow> arr_get (active_pid s) (get_current_group s);
     let p = get_pcb_addr pid;
     arr \<leftarrow> arr_set (pid_array s) pid p;
     let s = s\<lparr>pid_array := arr\<rparr>;
     s \<leftarrow> put_pcb p (\<lambda>pcb. pcb\<lparr>p_pid := pid\<rparr>) s;
     s \<leftarrow> put_pcb p (\<lambda>pcb. pcb\<lparr>p_parent_pid := -1\<rparr>) s;
     (_, s) \<leftarrow> term_open (literal stdin_name) s;
     (_, s) \<leftarrow> term_open (literal stdout_name) s;
     s \<leftarrow> clear_flags p 2 6 s;
     put_pcb p (\<lambda>pcb. pcb\<lparr>p_args_len := 0\<rparr>) s
   }"

definition pcb_setup :: "int \<Rightarrow> 'a terminals_scheme \<Rightarrow> (u32 \<times> 'a terminals_scheme) option" where
  "pcb_setup child_pid s = do {
     let current_group = get_current_group s;
     if child_pid = FAILURE then Some (0, s)
     else do {
       let p = get_pcb_addr child_pid;
       arr \<leftarrow> arr_set (pid_array s) child_pid p;
       let s = s\<lparr>pid_array := arr\<rparr>;
       parent_pid \<leftarrow> arr_get (active_pid s) current_group;
       act \<leftarrow> arr_set (active_pid s) current_group child_pid;
       let s = s\<lparr>active_pid := act\<rparr>;
       s \<leftarrow> put_pcb p (\<lambda>_. zero_pcb) s;
       s \<leftarrow> put_pcb p (\<lambda>pcb. pcb\<lparr>p_pid := child_pid\<rparr>) s;
       s \<leftarrow> put_pcb p (\<lambda>pcb. pcb\<lparr>p_parent_pid := parent_pid\<rparr>) s;
       (_, s) \<leftarrow> term_open (literal stdin_name) s;
       (_, s) \<leftarrow> term_open (literal stdout_name) s;
       s \<leftarrow> clear_flags p 2 6 s;
       s \<leftarrow> put_pcb p (\<lambda>pcb. pcb\<lparr>p_args_len := 0\<rparr>) s;
       Some (p, s)
     }
   }"

text \<open>The loop of \<open>pcb_teardown\<close> over the descriptors of the PCB at \<open>p\<close>.\<close>

fun close_all :: "u32 \<Rightarrow> nat \<Rightarrow> nat \<Rightarrow> 'a procs_scheme \<Rightarrow> 'a procs_scheme option" where
  "close_all p i 0 s = Some s"
| "close_all p i (Suc k) s = do {
     f \<leftarrow> get_fd p (int i) s;
     s \<leftarrow> (if f_flags f = IN_USE then do {
            table \<leftarrow> f_ops f;
            case op_close (op_tables s table) of
              None \<Rightarrow> Some s
            | Some close \<Rightarrow> map_option snd (run_close close (int i) s)
          } else Some s);
     close_all p (Suc i) k s
   }"

definition pcb_teardown :: "'a procs_scheme \<Rightarrow> 'a procs_scheme option" where
  "pcb_teardown s = do {
     p \<leftarrow> get_current_pcb s;
     s \<leftarrow> close_all p 0 FD_ARRAY_SIZE s;
     pid \<leftarrow> arr_get (active_pid s) (get_current_group s);
     arr \<leftarrow> arr_set (pid_array s) pid 0;
     let s = s\<lparr>pid_array := arr\<rparr>;
     pcb \<leftarrow> get_pcb p s;
     act \<leftarrow> arr_set (active_pid s) (get_current_group s) (p_parent_pid pcb);
     let s = s\<lparr>active_pid := act\<rparr>;
     pid \<leftarrow> arr_get (active_pid s) (get_current_group s);
     let s = s\<lparr>tss_esp0 := get_kstack_addr pid\<rparr>;
     put_pcb p (\<lambda>_. zero_pcb) s
   }"

subsection \<open>Closing everything\<close>

text \<open>All four close functions meet the contract \<open>fd_closer\<close>.\<close>

lemma run_close_in_use:
  assumes "current_ok s p" "fd < 8" "f_flags (fd_at s p fd) \<noteq> NOT_IN_USE"
  shows "run_close f (int fd) s = Some (SUCCESS, with_fd p fd clear_fd s)"
  using assms
  by (cases f) (simp_all add: run_close_def term_closer.close_in_use file_closer.close_in_use
      dir_closer.close_in_use rtc_closer.close_in_use)

interpretation any_closer: fd_closer "run_close f" for f
proof unfold_locales
  fix s :: "'a procs_scheme" and p k
  assume "current_ok s p" "k < 0 \<or> k \<ge> (8 :: int)"
  then show "run_close f k s = Some (FAILURE, s)"
    by (cases f) (simp_all add: run_close_def term_closer.close_range file_closer.close_range
        dir_closer.close_range rtc_closer.close_range)
qed (rule run_close_in_use)

text \<open>Descriptors are sound: the flag is 0 or 1, and one in use has an operations table.\<close>

definition fd_ok :: "file_t \<Rightarrow> bool" where
  "fd_ok f \<longleftrightarrow> f_flags f = NOT_IN_USE \<or> f_flags f = IN_USE \<and> f_ops f \<noteq> None"

definition tables_ready :: "'a procs_scheme \<Rightarrow> bool" where
  "tables_ready s \<longleftrightarrow> op_tables s Stdin_ops = stdin_table \<and> op_tables s Stdout_ops = stdout_table \<and>
     op_tables s File_type_ops = file_type_table \<and> op_tables s Dir_type_ops = dir_type_table \<and>
     op_tables s Rtc_type_ops = rtc_type_table"

lemma tables_ready_close: "tables_ready s \<Longrightarrow> \<exists>c. op_close (op_tables s table) = Some c"
  by (cases table) (simp_all add: tables_ready_def stdin_table_def stdout_table_def
      file_type_table_def dir_type_table_def rtc_type_table_def)

lemma tables_ready_rest: "procs_rest t = procs_rest s \<Longrightarrow> tables_ready t = tables_ready s"
  using procs_rest_fields(5) [of t s] by (simp add: tables_ready_def)

lemma close_all_frees:
  assumes "tables_ready s" "current_ok s p" "i + k \<le> 8" "\<forall>j<8. fd_ok (fd_at s p j)"
  shows "\<exists>t. close_all p i k s = Some t \<and> procs_rest t = procs_rest s \<and> current_ok t p \<and>
     (\<forall>j. i \<le> j \<longrightarrow> j < i + k \<longrightarrow> f_flags (fd_at t p j) = NOT_IN_USE) \<and>
     (\<forall>q. q \<noteq> p \<longrightarrow> pcb_mem t q = pcb_mem s q) \<and>
     pcb_mem t p = (pcb_mem s p)\<lparr>p_fd_table := p_fd_table (pcb_mem t p)\<rparr> \<and>
     (\<forall>j<8. j < i \<longrightarrow> fd_at t p j = fd_at s p j)"
  using assms
proof (induction k arbitrary: i s)
  case 0
  then show ?case by simp
next
  case (Suc k)
  have i: "i < 8" using Suc.prems by simp
  have g: "get_fd p (int i) s = Some (fd_at s p i)" by (rule get_fd_current [OF Suc.prems(2) i])
  show ?case
  proof (cases "f_flags (fd_at s p i) = IN_USE")
    case False
    then have z: "f_flags (fd_at s p i) = NOT_IN_USE"
      using Suc.prems(4) i by (auto simp: fd_ok_def)
    obtain t where t: "close_all p (Suc i) k s = Some t" "procs_rest t = procs_rest s" "current_ok t p"
      "\<forall>j. Suc i \<le> j \<longrightarrow> j < Suc i + k \<longrightarrow> f_flags (fd_at t p j) = NOT_IN_USE"
      "\<forall>q. q \<noteq> p \<longrightarrow> pcb_mem t q = pcb_mem s q"
      "pcb_mem t p = (pcb_mem s p)\<lparr>p_fd_table := p_fd_table (pcb_mem t p)\<rparr>"
      "\<forall>j<8. j < Suc i \<longrightarrow> fd_at t p j = fd_at s p j"
      using Suc.IH [OF Suc.prems(1,2) _ Suc.prems(4), of "Suc i"] Suc.prems(3) by auto
    have "f_flags (fd_at t p j) = NOT_IN_USE" if "i \<le> j" "j < i + Suc k" for j
      using that t(4,7) z i by (cases "j = i") auto
    then show ?thesis using g False t by (intro exI [of _ t]) auto
  next
    case True
    obtain tab where tab: "f_ops (fd_at s p i) = Some tab"
      using Suc.prems(4) i True by (auto simp: fd_ok_def)
    obtain c where c: "op_close (op_tables s tab) = Some c"
      using tables_ready_close [OF Suc.prems(1)] by blast
    let ?s = "with_fd p i clear_fd s"
    have run: "run_close c (int i) s = Some (SUCCESS, ?s)"
      by (rule run_close_in_use [OF Suc.prems(2) i]) (simp add: True)
    have fd: "fd_at ?s p j = (if i = j then clear_fd (fd_at s p i) else fd_at s p j)" if "j < 8" for j
      by (rule fd_at_with_fd [OF Suc.prems(2) i that])
    have ok: "\<forall>j<8. fd_ok (fd_at ?s p j)"
      using Suc.prems(4) fd by (auto simp: fd_ok_def clear_fd_def)
    have "tables_ready ?s" using Suc.prems(1) tables_ready_rest [of ?s s] by simp
    then obtain t where t: "close_all p (Suc i) k ?s = Some t" "procs_rest t = procs_rest ?s" "current_ok t p"
      "\<forall>j. Suc i \<le> j \<longrightarrow> j < Suc i + k \<longrightarrow> f_flags (fd_at t p j) = NOT_IN_USE"
      "\<forall>q. q \<noteq> p \<longrightarrow> pcb_mem t q = pcb_mem ?s q"
      "pcb_mem t p = (pcb_mem ?s p)\<lparr>p_fd_table := p_fd_table (pcb_mem t p)\<rparr>"
      "\<forall>j<8. j < Suc i \<longrightarrow> fd_at t p j = fd_at ?s p j"
      using Suc.IH [of ?s "Suc i"] Suc.prems(2,3) ok by auto
    have "f_flags (fd_at t p j) = NOT_IN_USE" if "i \<le> j" "j < i + Suc k" for j
      using that t(4,7) fd [of i] i by (cases "j = i") (auto simp: clear_fd_def)
    moreover have "pcb_mem t p = (pcb_mem s p)\<lparr>p_fd_table := p_fd_table (pcb_mem t p)\<rparr>"
      using t(6) by (simp add: with_fd_def)
    moreover have "\<forall>q. q \<noteq> p \<longrightarrow> pcb_mem t q = pcb_mem s q"
      using t(5) by (simp add: with_fd_def)
    moreover have "\<forall>j<8. j < i \<longrightarrow> fd_at t p j = fd_at s p j"
      using t(7) fd by auto
    ultimately show ?thesis
      using g True tab c run t(1,2,3) by (intro exI [of _ t]) auto
  qed
qed

text \<open>Whatever the descriptors hold, closing them changes nothing else.\<close>

lemma close_all_keeps:
  assumes "current_ok s p" "i + k \<le> 8" "close_all p i k s = Some t"
  shows "procs_rest t = procs_rest s \<and> (\<forall>q. q \<noteq> p \<longrightarrow> pcb_mem t q = pcb_mem s q) \<and>
     pcb_mem t p = (pcb_mem s p)\<lparr>p_fd_table := p_fd_table (pcb_mem t p)\<rparr>"
  using assms
proof (induction k arbitrary: i s)
  case 0
  then show ?case by simp
next
  case (Suc k)
  have i: "i < 8" using Suc.prems by simp
  have g: "get_fd p (int i) s = Some (fd_at s p i)" by (rule get_fd_current [OF Suc.prems(1) i])
  obtain u where u: "close_all p (Suc i) k u = Some t" "u = s \<or> u = with_fd p i clear_fd s"
  proof (cases "f_flags (fd_at s p i) = IN_USE")
    case False
    then have "close_all p (Suc i) k s = Some t" using Suc.prems(3) g by simp
    then show ?thesis by (rule that) simp
  next
    case True
    then obtain tab where tab: "f_ops (fd_at s p i) = Some tab"
      using Suc.prems(3) g by (cases "f_ops (fd_at s p i)") auto
    show ?thesis
    proof (cases "op_close (op_tables s tab)")
      case None
      then have "close_all p (Suc i) k s = Some t" using Suc.prems(3) g True tab by simp
      then show ?thesis by (rule that) simp
    next
      case (Some c)
      have "run_close c (int i) s = Some (SUCCESS, with_fd p i clear_fd s)"
        by (rule run_close_in_use [OF Suc.prems(1) i]) (simp add: True)
      then have "close_all p (Suc i) k (with_fd p i clear_fd s) = Some t"
        using Suc.prems(3) g True tab Some by simp
      then show ?thesis by (rule that) simp
    qed
  qed
  have "current_ok u p" using u(2) Suc.prems(1) by auto
  then have "procs_rest t = procs_rest u \<and> (\<forall>q. q \<noteq> p \<longrightarrow> pcb_mem t q = pcb_mem u q) \<and>
     pcb_mem t p = (pcb_mem u p)\<lparr>p_fd_table := p_fd_table (pcb_mem t p)\<rparr>"
    using Suc.IH [OF _ _ u(1)] Suc.prems(2) by simp
  then show ?case using u(2) by (auto simp: with_fd_def)
qed

end
