(* ===== verification/ProcessProps.thy ===== *)
theory ProcessProps
  imports Process
begin

text \<open>
  The invariant of the process table, and what creating and destroying a process does to it.
  \<open>tree_ok\<close> speaks of PIDs only: the set in use, the parent of each, the PID that runs in each
  group. \<open>procs_ok\<close> adds what the table and the PCBs must hold.
\<close>

subsection \<open>The tree of processes\<close>

definition tree_ok :: "int set \<Rightarrow> (int \<Rightarrow> int) \<Rightarrow> int list \<Rightarrow> bool" where
  "tree_ok L par act \<longleftrightarrow>
     0 \<in> L \<and> L \<subseteq> {0..<7} \<and> length act = 3 \<and> set act \<subseteq> L \<and>
     (\<forall>i\<in>L. i \<noteq> 0 \<longrightarrow> par i \<in> L \<and> par i \<noteq> i) \<and>
     (\<forall>i\<in>L. i \<noteq> 0 \<longrightarrow> par i \<noteq> 0 \<longrightarrow> par i \<notin> set act) \<and>
     distinct (filter (\<lambda>a. a \<noteq> 0) act) \<and>
     (\<forall>i\<in>L. \<forall>j\<in>L. i \<noteq> 0 \<longrightarrow> j \<noteq> 0 \<longrightarrow> par i = par j \<longrightarrow> par i \<noteq> 0 \<longrightarrow> i = j)"

text \<open>A list of three, by its elements and its indices.\<close>

lemma three_cases:
  assumes "length xs = 3" "g < (3 :: nat)"
  obtains x y z where "xs = [x, y, z]" "g = 0 \<or> g = 1 \<or> g = 2"
proof -
  obtain x y z where "xs = [x, y, z]"
    using assms(1) by (auto simp: numeral_3_eq_3 length_Suc_conv)
  moreover have "g = 0 \<or> g = 1 \<or> g = 2" using assms(2) by auto
  ultimately show thesis by (rule that)
qed

lemma distinct_update:
  assumes "length act = 3" "g < 3" "distinct (filter (\<lambda>a. a \<noteq> (0 :: int)) act)" "c = 0 \<or> c \<notin> set act"
  shows "distinct (filter (\<lambda>a. a \<noteq> 0) (act[g := c]))"
proof -
  obtain x y z where "act = [x, y, z]" "g = 0 \<or> g = 1 \<or> g = 2" using three_cases [OF assms(1,2)] .
  then show ?thesis using assms(3,4) by (elim disjE) (simp_all split: if_splits)
qed

lemma distinct_replaced:
  assumes "length act = 3" "g < 3" "distinct (filter (\<lambda>a. a \<noteq> (0 :: int)) act)" "act ! g \<noteq> 0" "c \<noteq> act ! g"
  shows "act ! g \<notin> set (act[g := c])"
proof -
  obtain x y z where "act = [x, y, z]" "g = 0 \<or> g = 1 \<or> g = 2" using three_cases [OF assms(1,2)] .
  then show ?thesis using assms(3,4,5) by (elim disjE) (simp_all split: if_splits)
qed

lemma tree_okD:
  assumes "tree_ok L par act"
  shows "0 \<in> L" "L \<subseteq> {0..<7}" "length act = 3" "set act \<subseteq> L"
    and "\<And>i. i \<in> L \<Longrightarrow> i \<noteq> 0 \<Longrightarrow> par i \<in> L" "\<And>i. i \<in> L \<Longrightarrow> i \<noteq> 0 \<Longrightarrow> par i \<noteq> i"
    and "\<And>i. i \<in> L \<Longrightarrow> i \<noteq> 0 \<Longrightarrow> par i \<noteq> 0 \<Longrightarrow> par i \<notin> set act"
    and "distinct (filter (\<lambda>a. a \<noteq> 0) act)"
    and "\<And>i j. i \<in> L \<Longrightarrow> j \<in> L \<Longrightarrow> i \<noteq> 0 \<Longrightarrow> j \<noteq> 0 \<Longrightarrow> par i = par j \<Longrightarrow> par i \<noteq> 0 \<Longrightarrow> i = j"
  using assms by (auto simp: tree_ok_def)

lemma tree_cong:
  assumes "tree_ok L par act" "\<And>i. i \<in> L \<Longrightarrow> par' i = par i"
  shows "tree_ok L par' act"
proof -
  note D = tree_okD [OF assms(1)]
  show ?thesis
    unfolding tree_ok_def
  proof (intro conjI ballI impI)
    fix i j assume "i \<in> L" "j \<in> L" "i \<noteq> 0" "j \<noteq> 0" "par' i = par' j" "par' i \<noteq> 0"
    then show "i = j" using D(9) [of i j] assms(2) by simp
  next
    fix i assume "i \<in> L" "i \<noteq> 0" "par' i \<noteq> 0"
    then show "par' i \<notin> set act" using D(7) [of i] assms(2) by simp
  qed (use D(1-6,8) assms(2) in auto)
qed

lemma tree_fork:
  assumes t: "tree_ok L par act" and g: "g < 3" and c: "c \<notin> L" "0 \<le> c" "c < 7"
  shows "tree_ok (insert c L) (par(c := act ! g)) (act[g := c])"
proof -
  note D = tree_okD [OF t]
  have ag: "act ! g \<in> set act" using g D(3) by simp
  then have agL: "act ! g \<in> L" using D(4) by blast
  have cact: "c \<notin> set act" using c D(4) by blast
  have ne: "c \<noteq> act ! g" using c agL by blast
  have up: "set (act[g := c]) \<subseteq> insert c (set act)" by (rule set_update_subset_insert)
  have gone: "act ! g \<notin> set (act[g := c])" if "act ! g \<noteq> 0"
    by (rule distinct_replaced [OF D(3) g D(8) that ne])
  have dist: "distinct (filter (\<lambda>a. a \<noteq> 0) (act[g := c]))"
    by (rule distinct_update [OF D(3) g D(8)]) (use cact in simp)
  have noag: "par i \<noteq> act ! g" if "i \<in> L" "i \<noteq> 0" "act ! g \<noteq> 0" for i
    using D(7) [OF that(1,2)] that(3) ag by auto
  show ?thesis
    unfolding tree_ok_def
  proof (intro conjI ballI impI)
    show "0 \<in> insert c L" using D(1) by simp
    show "insert c L \<subseteq> {0..<7}" using D(2) c by simp
    show "length (act[g := c]) = 3" using D(3) by simp
    show "set (act[g := c]) \<subseteq> insert c L" using up D(4) by blast
    show "distinct (filter (\<lambda>a. a \<noteq> 0) (act[g := c]))" by (rule dist)
  next
    fix i assume i: "i \<in> insert c L" "i \<noteq> 0"
    show "(par(c := act ! g)) i \<in> insert c L"
      by (cases "i = c") (use i agL D(5) in simp_all)
    show "(par(c := act ! g)) i \<noteq> i"
      by (cases "i = c") (use i ne D(6) in simp_all)
    assume nz: "(par(c := act ! g)) i \<noteq> 0"
    show "(par(c := act ! g)) i \<notin> set (act[g := c])"
    proof (cases "i = c")
      case True
      then show ?thesis using gone nz by simp
    next
      case False
      then have "i \<in> L" "par i \<noteq> 0" using i nz by simp_all
      then have "par i \<notin> set act" "par i \<in> L" using D(5,7) i by blast+
      then have "par i \<notin> insert c (set act)" using c by blast
      then show ?thesis using up False by auto
    qed
  next
    fix i j assume ij: "i \<in> insert c L" "j \<in> insert c L" "i \<noteq> 0" "j \<noteq> 0"
      "(par(c := act ! g)) i = (par(c := act ! g)) j" "(par(c := act ! g)) i \<noteq> 0"
    show "i = j"
    proof (cases "i = c \<or> j = c")
      case True
      then show ?thesis using ij noag by (auto split: if_splits)
    next
      case False
      then show ?thesis using ij D(9) [of i j] by simp
    qed
  qed
qed

lemma tree_exit:
  assumes t: "tree_ok L par act" and g: "g < 3" and a: "act ! g = a" "a \<noteq> 0"
  shows "tree_ok (L - {a}) (par(a := x)) (act[g := par a])"
proof -
  note D = tree_okD [OF t]
  have aact: "a \<in> set act" using a g D(3) by auto
  then have aL: "a \<in> L" using D(4) by blast
  have pa: "par a \<in> L" "par a \<noteq> a" using D(5,6) [OF aL a(2)] by simp_all
  have up: "set (act[g := par a]) \<subseteq> insert (par a) (set act)" by (rule set_update_subset_insert)
  have agone: "a \<notin> set (act[g := par a])"
    using distinct_replaced [OF D(3) g D(8), of "par a"] a pa(2) by simp
  have noa: "par i \<noteq> a" if "i \<in> L" "i \<noteq> 0" for i
    using D(7) [OF that] a(2) aact by auto
  have dist: "distinct (filter (\<lambda>a. a \<noteq> 0) (act[g := par a]))"
    by (rule distinct_update [OF D(3) g D(8)]) (use D(7) [OF aL a(2)] in blast)
  show ?thesis
    unfolding tree_ok_def
  proof (intro conjI ballI impI)
    show "0 \<in> L - {a}" using D(1) a by simp
    show "L - {a} \<subseteq> {0..<7}" using D(2) by blast
    show "length (act[g := par a]) = 3" using D(3) by simp
    show "set (act[g := par a]) \<subseteq> L - {a}" using up D(4) pa agone by blast
    show "distinct (filter (\<lambda>a. a \<noteq> 0) (act[g := par a]))" by (rule dist)
  next
    fix i assume i: "i \<in> L - {a}" "i \<noteq> 0"
    then have iL: "i \<in> L" "i \<noteq> a" by simp_all
    show "(par(a := x)) i \<in> L - {a}" using D(5) [OF iL(1) i(2)] noa [OF iL(1) i(2)] iL(2) by simp
    show "(par(a := x)) i \<noteq> i" using D(6) [OF iL(1) i(2)] iL(2) by simp
    assume "(par(a := x)) i \<noteq> 0"
    then have nz: "par i \<noteq> 0" using iL by simp
    have "par i \<noteq> par a" using D(9) [OF iL(1) aL i(2) a(2)] nz iL(2) by blast
    moreover have "par i \<notin> set act" by (rule D(7) [OF iL(1) i(2) nz])
    ultimately show "(par(a := x)) i \<notin> set (act[g := par a])" using up iL(2) by auto
  next
    fix i j assume "i \<in> L - {a}" "j \<in> L - {a}" "i \<noteq> 0" "j \<noteq> 0" "(par(a := x)) i = (par(a := x)) j"
      "(par(a := x)) i \<noteq> 0"
    then show "i = j" using D(9) [of i j] by simp
  qed
qed

text \<open>The start of the system, and moving a fresh process to the group it was made for
  (\<open>static_start_shell\<close> resets group 0 and sets the other group).\<close>

lemma tree_boot: "tree_ok {0} par [0, 0, 0]"
  by (simp add: tree_ok_def)

lemma tree_move:
  assumes t: "tree_ok L par act" and b: "b < 3" "b \<noteq> 0" "act ! b = 0"
  shows "tree_ok L par (act[0 := 0, b := act ! 0])"
proof -
  note D = tree_okD [OF t]
  obtain x y z where act: "act = [x, y, z]" "b = 0 \<or> b = 1 \<or> b = 2" using three_cases [OF D(3) b(1)] .
  have sets: "set (act[0 := 0, b := act ! 0]) \<subseteq> insert 0 (set act)"
    using act b by (elim disjE) auto
  have "distinct (filter (\<lambda>a. a \<noteq> 0) (act[0 := 0, b := act ! 0]))"
    using D(8) act b by (elim disjE) (simp_all split: if_splits)
  moreover have "set (act[0 := 0, b := act ! 0]) \<subseteq> L" using sets D(1,4) by blast
  moreover have "par i \<notin> set (act[0 := 0, b := act ! 0])" if "i \<in> L" "i \<noteq> 0" "par i \<noteq> 0" for i
    using D(7) [OF that] sets that(3) by blast
  ultimately show ?thesis
    unfolding tree_ok_def using D(1,2,3,5,6,9) by simp
qed

subsection \<open>The process table\<close>

definition live :: "'a procs_scheme \<Rightarrow> int set" where
  "live s = {i. 0 \<le> i \<and> i < 7 \<and> pid_array s ! nat i \<noteq> 0}"

definition pcb_of :: "'a procs_scheme \<Rightarrow> int \<Rightarrow> pcb" where
  "pcb_of s i = pcb_mem s (get_pcb_addr i)"

definition parent_of :: "'a procs_scheme \<Rightarrow> int \<Rightarrow> int" where
  "parent_of s i = p_parent_pid (pcb_of s i)"

definition pcb_ok :: "int \<Rightarrow> pcb \<Rightarrow> bool" where
  "pcb_ok i p \<longleftrightarrow> p_pid p = i \<and> length (p_fd_table p) = FD_ARRAY_SIZE \<and>
     length (p_args p) = TERM_BUFFER_SIZE"

definition fds_ok :: "pcb \<Rightarrow> bool" where
  "fds_ok p \<longleftrightarrow> (\<forall>f\<in>set (p_fd_table p). fd_ok f)"

definition procs_ok :: "'a procs_scheme \<Rightarrow> bool" where
  "procs_ok s \<longleftrightarrow> length (pid_array s) = MAX_PID \<and> 0 \<le> current_group s \<and> current_group s < 3 \<and>
     (\<forall>i\<in>live s. pid_array s ! nat i = get_pcb_addr i) \<and>
     (\<forall>i\<in>live s. pcb_ok i (pcb_of s i)) \<and>
     tree_ok (live s) (parent_of s) (active_pid s)"

text \<open>The process that runs in the current group.\<close>

definition running :: "'a procs_scheme \<Rightarrow> int" where
  "running s = active_pid s ! nat (current_group s)"

lemma running_live: "procs_ok s \<Longrightarrow> running s \<in> live s"
  by (auto simp: procs_ok_def running_def tree_ok_def)

lemma live_range: "i \<in> live s \<Longrightarrow> 0 \<le> i \<and> i < 7"
  by (simp add: live_def)

lemma arr_get_running:
  assumes "procs_ok s"
  shows "arr_get (active_pid s) (current_group s) = Some (running s)"
  using assms by (simp add: procs_ok_def tree_ok_def arr_get_def running_def)

lemma current_pcb_running:
  assumes "procs_ok s"
  shows "get_current_pcb s = Some (get_pcb_addr (running s))"
proof -
  have "running s \<in> live s" by (rule running_live [OF assms])
  then have "arr_get (pid_array s) (running s) = Some (get_pcb_addr (running s))"
    using assms live_range [of "running s" s] by (simp add: procs_ok_def arr_get_def)
  then show ?thesis
    using arr_get_running [OF assms] by (simp add: get_current_pcb_def get_current_group_def)
qed

lemma current_ok_running:
  assumes "procs_ok s"
  shows "current_ok s (get_pcb_addr (running s))"
proof -
  have r: "running s \<in> live s" by (rule running_live [OF assms])
  then have "pcb_ok (running s) (pcb_of s (running s))" using assms by (simp add: procs_ok_def)
  then show ?thesis
    using current_pcb_running [OF assms] get_pcb_addr_nonzero live_range [OF r]
    by (simp add: current_ok_def pcb_ok_def pcb_of_def)
qed

lemma procs_ok_cong:
  assumes "pid_array t = pid_array s" "active_pid t = active_pid s" "pcb_mem t = pcb_mem s"
    and "current_group t = current_group s"
  shows "procs_ok t = procs_ok s"
proof -
  have "live t = live s" "pcb_of t = pcb_of s" "parent_of t = parent_of s"
    using assms by (auto simp: live_def pcb_of_def parent_of_def fun_eq_iff)
  then show ?thesis using assms by (simp add: procs_ok_def)
qed

subsection \<open>A new process\<close>

definition std_file :: "op_table \<Rightarrow> file_t" where
  "std_file table = \<lparr>f_ops = Some table, f_inode = 0, f_position = 0, f_flags = IN_USE\<rparr>"

definition fresh_pcb :: "int \<Rightarrow> int \<Rightarrow> pcb" where
  "fresh_pcb pid parent = zero_pcb\<lparr>p_pid := pid, p_parent_pid := parent,
     p_fd_table := [std_file Stdin_ops, std_file Stdout_ops] @ replicate 6 zero_file\<rparr>"

lemma strlen_literal: "0 \<notin> set xs \<Longrightarrow> strlen (literal xs) = Some (length xs)"
  by (rule strlen_c_string [OF c_string_literal])

lemma stdin_stdout_names:
  "strncmp (literal stdin_name) (literal stdin_name) 5 = Some 0"
  "strncmp (literal stdout_name) (literal stdin_name) 6 = Some 6"
  "strncmp (literal stdout_name) (literal stdout_name) 6 = Some 0"
  by code_simp+

lemma term_open_stdin: "term_open (literal stdin_name) s = fill_fd Stdin_ops s"
proof -
  have "strlen (literal stdin_name) = Some 5" using strlen_literal [of stdin_name] by (simp add: stdin_name_def)
  then show ?thesis by (simp add: term_open_def stdin_stdout_names)
qed

lemma term_open_stdout: "term_open (literal stdout_name) s = fill_fd Stdout_ops s"
proof -
  have "strlen (literal stdout_name) = Some 6" using strlen_literal [of stdout_name] by (simp add: stdout_name_def)
  then show ?thesis by (simp add: term_open_def stdin_stdout_names)
qed

lemma fill_fd_free:
  assumes cur: "current_ok s p" and k: "k < 8" "f_flags (fd_at s p k) = NOT_IN_USE"
    and used: "\<forall>j<k. f_flags (fd_at s p j) \<noteq> NOT_IN_USE"
  shows "fill_fd table s = Some (int k, with_fd p k (\<lambda>f. f\<lparr>f_ops := Some table, f_inode := 0, f_position := 0,
           f_flags := IN_USE\<rparr>) s)"
proof -
  have gp: "get_current_pcb s = Some p" using cur by (simp add: current_ok_def)
  have "get_new_fd s = Some (int k)"
    by (rule get_new_fd_lowest [OF cur]) (use k used in \<open>simp add: lowest_free_def\<close>)
  then show ?thesis using gp put_fd_current [OF cur k(1)] by (simp add: fill_fd_def)
qed

lemma clear_flags_idle:
  assumes "current_ok s p" "i + k \<le> 8" "\<forall>j<8. i \<le> j \<longrightarrow> f_flags (fd_at s p j) = NOT_IN_USE"
  shows "clear_flags p i k s = Some s"
  using assms
proof (induction k arbitrary: i)
  case (Suc k)
  have "(fd_at s p i)\<lparr>f_flags := NOT_IN_USE\<rparr> = fd_at s p i" using Suc.prems by simp
  then have "with_fd p i (\<lambda>f. f\<lparr>f_flags := NOT_IN_USE\<rparr>) s = s"
    by (simp add: with_fd_def) (simp add: fd_at_def)
  then show ?case using Suc put_fd_current [OF Suc.prems(1), of i] by simp
qed simp

text \<open>The tail that \<open>pcb_init\<close> and \<open>pcb_setup\<close> share: the two standard descriptors of the current
  process, all others free, no arguments.\<close>

lemma open_standard:
  assumes cur: "current_ok s p" and tab: "p_fd_table (pcb_mem s p) = replicate 8 zero_file"
  shows "do { (_, s) \<leftarrow> fill_fd Stdin_ops s; (_, s) \<leftarrow> fill_fd Stdout_ops s; s \<leftarrow> clear_flags p 2 6 s;
       put_pcb p (\<lambda>pcb. pcb\<lparr>p_args_len := 0\<rparr>) s } =
     Some (s\<lparr>pcb_mem := (pcb_mem s)(p := (pcb_mem s p)
       \<lparr>p_fd_table := [std_file Stdin_ops, std_file Stdout_ops] @ replicate 6 zero_file, p_args_len := 0\<rparr>)\<rparr>)"
proof -
  have fd1: "fd_at s p j = zero_file" if "j < 8" for j
    using that by (simp add: fd_at_def tab)
  let ?fill = "\<lambda>t f. f\<lparr>f_ops := Some t, f_inode := 0, f_position := 0, f_flags := IN_USE\<rparr>"
  have fill0: "?fill t zero_file = std_file t" for t by (simp add: zero_file_def std_file_def)
  let ?s2 = "with_fd p 0 (?fill Stdin_ops) s"
  have o1: "fill_fd Stdin_ops s = Some (0, ?s2)"
    using fill_fd_free [OF cur, of 0 Stdin_ops] fd1 by (simp add: zero_file_def)
  have cur2: "current_ok ?s2 p" using cur by simp
  have fd2: "fd_at ?s2 p j = (if j = 0 then std_file Stdin_ops else zero_file)" if "j < 8" for j
    using fd_at_with_fd [OF cur, of 0 j "?fill Stdin_ops"] that fd1 fill0 by auto
  let ?s3 = "with_fd p 1 (?fill Stdout_ops) ?s2"
  have o2: "fill_fd Stdout_ops ?s2 = Some (1, ?s3)"
    using fill_fd_free [OF cur2, of 1 Stdout_ops] fd2 by (simp add: zero_file_def std_file_def)
  have cur3: "current_ok ?s3 p" using cur2 by simp
  have fd3: "fd_at ?s3 p j = (if j = 0 then std_file Stdin_ops else if j = 1 then std_file Stdout_ops else zero_file)"
    if "j < 8" for j
    using fd_at_with_fd [OF cur2, of 1 j "?fill Stdout_ops"] that fd2 fill0 by auto
  have o3: "clear_flags p 2 6 ?s3 = Some ?s3"
    by (rule clear_flags_idle [OF cur3]) (use fd3 in \<open>auto simp: zero_file_def\<close>)
  have s3: "?s3 = s\<lparr>pcb_mem := (pcb_mem s)(p := (pcb_mem s p)
       \<lparr>p_fd_table := [std_file Stdin_ops, std_file Stdout_ops] @ replicate 6 zero_file\<rparr>)\<rparr>"
    by (simp add: with_fd_def fd_at_def tab fill0 numeral_nat)
  have "put_pcb p (\<lambda>pcb. pcb\<lparr>p_args_len := 0\<rparr>) ?s3 = Some (s\<lparr>pcb_mem := (pcb_mem s)(p := (pcb_mem s p)
       \<lparr>p_fd_table := [std_file Stdin_ops, std_file Stdout_ops] @ replicate 6 zero_file, p_args_len := 0\<rparr>)\<rparr>)"
    unfolding s3 using cur by (simp add: put_pcb_def current_ok_def)
  then show ?thesis by (simp only: o1 o2 o3 Option.bind.bind_lunit prod.case)
qed

lemma pcb_setup_eq:
  assumes ok: "procs_ok s" and c: "0 \<le> c" "c < 7"
  shows "pcb_setup c s = Some (get_pcb_addr c,
     s\<lparr>pid_array := (pid_array s)[nat c := get_pcb_addr c],
       active_pid := (active_pid s)[nat (current_group s) := c],
       pcb_mem := (pcb_mem s)(get_pcb_addr c := fresh_pcb c (running s))\<rparr>)"
proof -
  let ?p = "get_pcb_addr c"
  let ?s0 = "s\<lparr>pid_array := (pid_array s)[nat c := ?p], active_pid := (active_pid s)[nat (current_group s) := c]\<rparr>"
  let ?s1 = "?s0\<lparr>pcb_mem := (pcb_mem s)(?p := zero_pcb\<lparr>p_pid := c, p_parent_pid := running s\<rparr>)\<rparr>"
  have len: "length (pid_array s) = 7" "length (active_pid s) = 3" "0 \<le> current_group s" "current_group s < 3"
    using ok by (simp_all add: procs_ok_def tree_ok_def)
  have pz: "?p \<noteq> 0" by (rule get_pcb_addr_nonzero [OF c])
  have cur: "current_ok ?s1 ?p"
    using len c pz by (simp add: current_ok_def get_current_pcb_def get_current_group_def arr_get_def zero_pcb_def)
  have "arr_set (pid_array s) c ?p = Some ((pid_array s)[nat c := ?p])"
    "arr_get (active_pid s) (current_group s) = Some (running s)"
    "arr_set (active_pid s) (current_group s) c = Some ((active_pid s)[nat (current_group s) := c])"
    using len c arr_get_running [OF ok] by (simp_all add: arr_set_def)
  then have "pcb_setup c s = map_option (\<lambda>t. (?p, t)) (do {
      (_, s) \<leftarrow> fill_fd Stdin_ops ?s1; (_, s) \<leftarrow> fill_fd Stdout_ops s;
      s \<leftarrow> clear_flags ?p 2 6 s; put_pcb ?p (\<lambda>pcb. pcb\<lparr>p_args_len := 0\<rparr>) s })"
    using c pz by (simp add: pcb_setup_def Let_def get_current_group_def put_pcb_def term_open_stdin term_open_stdout
        map_option_bind o_def case_prod_unfold)
  also have "\<dots> = Some (?p, ?s0\<lparr>pcb_mem := (pcb_mem s)(?p := fresh_pcb c (running s))\<rparr>)"
    by (subst open_standard [OF cur]) (simp_all add: zero_pcb_def fresh_pcb_def)
  finally show ?thesis by simp
qed

lemma pcb_ok_fresh: "pcb_ok c (fresh_pcb c par)"
  by (simp add: pcb_ok_def fresh_pcb_def zero_pcb_def)

lemma fds_ok_fresh: "fds_ok (fresh_pcb c par)"
  by (simp add: fds_ok_def fresh_pcb_def fd_ok_def std_file_def zero_pcb_def zero_file_def)

lemma procs_ok_fork:
  assumes ok: "procs_ok s" and c: "0 \<le> c" "c < 7" "c \<notin> live s"
    and t: "pid_array t = (pid_array s)[nat c := get_pcb_addr c]"
      "active_pid t = (active_pid s)[nat (current_group s) := c]"
      "pcb_mem t = (pcb_mem s)(get_pcb_addr c := fresh)" "current_group t = current_group s"
    and fresh: "pcb_ok c fresh" "p_parent_pid fresh = running s"
  shows "procs_ok t \<and> live t = insert c (live s) \<and> running t = c \<and> parent_of t c = running s \<and>
     (\<forall>i\<in>live s. pcb_of t i = pcb_of s i)"
proof -
  have len: "length (pid_array s) = 7" "length (active_pid s) = 3" "0 \<le> current_group s" "current_group s < 3"
    using ok by (simp_all add: procs_ok_def tree_ok_def)
  have arr: "pid_array t ! nat i = (if i = c then get_pcb_addr c else pid_array s ! nat i)"
    if "0 \<le> i" "i < 7" for i
    using that c(1,2) len(1) eq_nat_nat_iff [OF c(1) that(1)] by (simp add: t(1) nth_list_update)
  have lv: "live t = insert c (live s)"
  proof (rule set_eqI)
    fix i show "i \<in> live t \<longleftrightarrow> i \<in> insert c (live s)"
      using arr [of i] c(1,2) get_pcb_addr_nonzero [OF c(1,2)]
      by (cases "0 \<le> i \<and> i < 7") (auto simp: live_def)
  qed
  have run: "running t = c" using len by (simp add: running_def t)
  have pcb: "pcb_of t i = (if i = c then fresh else pcb_of s i)" if "0 \<le> i" "i < 7" for i
    using get_pcb_addr_inj [OF that c(1,2)] by (simp add: pcb_of_def t(3))
  have par: "parent_of t i = ((parent_of s)(c := running s)) i" if "i \<in> insert c (live s)" for i
    using that c live_range [of i s] fresh(2) by (auto simp: parent_of_def pcb)
  have "tree_ok (insert c (live s)) ((parent_of s)(c := running s)) (active_pid t)"
    unfolding t(2) running_def
    by (rule tree_fork) (use ok c len in \<open>auto simp: procs_ok_def\<close>)
  then have tree: "tree_ok (live t) (parent_of t) (active_pid t)"
    unfolding lv by (rule tree_cong) (rule par)
  have "pid_array t ! nat i = get_pcb_addr i" "pcb_ok i (pcb_of t i)" if "i \<in> live t" for i
  proof -
    have i: "0 \<le> i" "i < 7" using live_range [OF that] by simp_all
    have "i = c \<or> i \<in> live s" using that lv by blast
    then show "pid_array t ! nat i = get_pcb_addr i" "pcb_ok i (pcb_of t i)"
      using ok fresh(1) by (auto simp: procs_ok_def arr [OF i] pcb [OF i])
  qed
  then have "procs_ok t" using ok tree by (simp add: procs_ok_def t)
  moreover have "pcb_of t i = pcb_of s i" if "i \<in> live s" for i
    using that c(3) live_range [OF that] by (auto simp: pcb)
  moreover have "parent_of t c = running s" using fresh(2) c by (simp add: parent_of_def pcb)
  ultimately show ?thesis using lv run by blast
qed

subsection \<open>The end of a process\<close>

definition torn_down :: "'a procs_scheme \<Rightarrow> 'a procs_scheme" where
  "torn_down s = s\<lparr>pid_array := (pid_array s)[nat (running s) := 0],
     active_pid := (active_pid s)[nat (current_group s) := parent_of s (running s)],
     tss_esp0 := get_kstack_addr (parent_of s (running s)),
     pcb_mem := (pcb_mem s)(get_pcb_addr (running s) := zero_pcb)\<rparr>"

lemma pcb_teardown_close_all:
  assumes ok: "procs_ok s"
  shows "pcb_teardown s = map_option (\<lambda>_. torn_down s) (close_all (get_pcb_addr (running s)) 0 8 s)"
proof (cases "close_all (get_pcb_addr (running s)) 0 8 s")
  case None
  then show ?thesis using current_pcb_running [OF ok] by (simp add: pcb_teardown_def)
next
  case (Some t)
  let ?a = "running s" and ?p = "get_pcb_addr (running s)"
  have r: "?a \<in> live s" by (rule running_live [OF ok])
  note rng = live_range [OF r]
  have len: "length (pid_array s) = 7" "length (active_pid s) = 3" "0 \<le> current_group s" "current_group s < 3"
    using ok by (simp_all add: procs_ok_def tree_ok_def)
  have cur: "current_ok s ?p" by (rule current_ok_running [OF ok])
  have rest: "procs_rest t = procs_rest s"
    and mem: "\<forall>q. q \<noteq> ?p \<longrightarrow> pcb_mem t q = pcb_mem s q"
    and par: "pcb_mem t ?p = (pcb_mem s ?p)\<lparr>p_fd_table := p_fd_table (pcb_mem t ?p)\<rparr>"
    using close_all_keeps [OF cur _ Some] by auto
  have ts: "t = s\<lparr>pcb_mem := pcb_mem t\<rparr>"
  proof -
    have "t = (procs_rest t)\<lparr>pcb_mem := pcb_mem t\<rparr>" by (simp add: procs_rest_def)
    also have "\<dots> = s\<lparr>pcb_mem := pcb_mem t\<rparr>" unfolding rest by (simp add: procs_rest_def)
    finally show ?thesis .
  qed
  have pm: "(pcb_mem t)(?p := zero_pcb) = (pcb_mem s)(?p := zero_pcb)"
    using mem by (auto simp: fun_eq_iff)
  have pz: "?p \<noteq> 0" by (rule get_pcb_addr_nonzero) (use rng in auto)
  have pp: "p_parent_pid (pcb_mem t ?p) = parent_of s ?a"
    by (subst par) (simp add: parent_of_def pcb_of_def)
  have f: "pid_array t = pid_array s" "active_pid t = active_pid s" "current_group t = current_group s"
    using procs_rest_fields [OF rest] by simp_all
  have "pcb_teardown s = do {
      s \<leftarrow> Some (t\<lparr>pid_array := (pid_array s)[nat ?a := 0],
          active_pid := (active_pid s)[nat (current_group s) := parent_of s ?a],
          tss_esp0 := get_kstack_addr (parent_of s ?a)\<rparr>);
      put_pcb ?p (\<lambda>_. zero_pcb) s }"
    using Some f len rng pz pp arr_get_running [OF ok] current_pcb_running [OF ok]
    by (simp add: pcb_teardown_def get_current_group_def get_pcb_def) (simp add: arr_get_def arr_set_def)
  also have "\<dots> = Some (t\<lparr>pid_array := (pid_array s)[nat ?a := 0],
          active_pid := (active_pid s)[nat (current_group s) := parent_of s ?a],
          tss_esp0 := get_kstack_addr (parent_of s ?a),
          pcb_mem := (pcb_mem s)(?p := zero_pcb)\<rparr>)"
    using pz pm by (simp add: put_pcb_def)
  also have "\<dots> = Some (torn_down s)"
    unfolding torn_down_def by (subst ts) simp
  finally show ?thesis by (simp add: Some)
qed

lemma pcb_teardown_Some: "procs_ok s \<Longrightarrow> pcb_teardown s = Some t \<Longrightarrow> t = torn_down s"
  by (auto simp: pcb_teardown_close_all)

lemma pcb_teardown_eq:
  assumes ok: "procs_ok s" and ready: "tables_ready s" and fds: "fds_ok (pcb_of s (running s))"
  shows "pcb_teardown s = Some (torn_down s)"
proof -
  have cur: "current_ok s (get_pcb_addr (running s))" by (rule current_ok_running [OF ok])
  then have "length (p_fd_table (pcb_of s (running s))) = 8" by (simp add: current_ok_def pcb_of_def)
  then have "\<forall>j<8. fd_ok (fd_at s (get_pcb_addr (running s)) j)"
    using fds by (simp add: fds_ok_def pcb_of_def fd_at_def)
  then have "close_all (get_pcb_addr (running s)) 0 8 s \<noteq> None"
    using close_all_frees [OF ready cur, of 0 8] by auto
  then show ?thesis by (auto simp: pcb_teardown_close_all [OF ok])
qed

lemma procs_ok_exit:
  assumes ok: "procs_ok s" and a: "running s \<noteq> 0"
    and t: "pid_array t = (pid_array s)[nat (running s) := 0]"
      "active_pid t = (active_pid s)[nat (current_group s) := parent_of s (running s)]"
      "pcb_mem t = (pcb_mem s)(get_pcb_addr (running s) := z)" "current_group t = current_group s"
  shows "procs_ok t \<and> live t = live s - {running s} \<and> running t = parent_of s (running s) \<and>
     (\<forall>i\<in>live t. pcb_of t i = pcb_of s i)"
proof -
  let ?a = "running s"
  have r: "?a \<in> live s" by (rule running_live [OF ok])
  note rng = live_range [OF r]
  have len: "length (pid_array s) = 7" "length (active_pid s) = 3" "0 \<le> current_group s" "current_group s < 3"
    using ok by (simp_all add: procs_ok_def tree_ok_def)
  have a0: "0 \<le> ?a" using rng by simp
  have arr: "pid_array t ! nat i = (if i = ?a then 0 else pid_array s ! nat i)" if "0 \<le> i" "i < 7" for i
    using that rng len(1) eq_nat_nat_iff [OF a0 that(1)] by (simp add: t(1) nth_list_update)
  have lv: "live t = live s - {?a}"
  proof (rule set_eqI)
    fix i show "i \<in> live t \<longleftrightarrow> i \<in> live s - {?a}"
      using arr [of i] by (cases "0 \<le> i \<and> i < 7") (auto simp: live_def)
  qed
  have run: "running t = parent_of s ?a" using len by (simp add: running_def t)
  have pcb: "pcb_of t i = pcb_of s i" if "i \<in> live t" for i
    using that get_pcb_addr_inj [of i ?a] rng live_range [of i s] unfolding lv by (auto simp: pcb_of_def t(3))
  have par: "parent_of t i = ((parent_of s)(?a := 0)) i" if "i \<in> live t" for i
    using that pcb [OF that] unfolding lv by (auto simp: parent_of_def)
  have "tree_ok (live s - {?a}) ((parent_of s)(?a := 0)) (active_pid t)"
    unfolding t(2)
    by (rule tree_exit) (use ok a len in \<open>auto simp: procs_ok_def running_def\<close>)
  then have tree: "tree_ok (live t) (parent_of t) (active_pid t)"
    unfolding lv by (rule tree_cong) (rule par [unfolded lv])
  have "pid_array t ! nat i = get_pcb_addr i" "pcb_ok i (pcb_of t i)" if "i \<in> live t" for i
  proof -
    have i: "0 \<le> i" "i < 7" using live_range [OF that] by simp_all
    have "i \<in> live s" "i \<noteq> ?a" using that lv by blast+
    then show "pid_array t ! nat i = get_pcb_addr i" "pcb_ok i (pcb_of t i)"
      using ok by (auto simp: procs_ok_def arr [OF i] pcb [OF that])
  qed
  then have "procs_ok t" using ok tree by (simp add: procs_ok_def t)
  then show ?thesis using lv run pcb by blast
qed

end
