(* ===== verification/System.thy ===== *)
theory System
  imports ProcessProps
begin

text \<open>
  The system calls (system.c). A call that reads or writes through a descriptor goes to the
  driver of its operations table. \<open>execute\<close> and \<open>halt\<close> do not return the usual way: entering
  the user program, jumping back to the parent and the frames they use are results of their
  own (\<open>exec_result\<close>, \<open>halt_result\<close>), and the part of \<open>system_execute\<close> after the label
  \<open>return_from_exec\<close> is \<open>execute_return\<close>. Values the C code takes from the processor or the
  linker (ESP, EBP, EFLAGS, the address of a label or of a local variable) are arguments.
\<close>

abbreviation (input) PROG_VIRT_ADDR :: u32 where "PROG_VIRT_ADDR \<equiv> 0x08000000"
abbreviation (input) PROG_OFFSET :: u32 where "PROG_OFFSET \<equiv> 0x48000"
abbreviation (input) EXEC_MAGIC :: u32 where "EXEC_MAGIC \<equiv> 0x464C457F"
abbreviation (input) KERNEL_CS :: u32 where "KERNEL_CS \<equiv> 0x10"
abbreviation (input) KERNEL_DS :: u32 where "KERNEL_DS \<equiv> 0x18"
abbreviation (input) USER_CS :: u32 where "USER_CS \<equiv> 0x23"
abbreviation (input) USER_DS :: u32 where "USER_DS \<equiv> 0x2B"

definition get_prog_phys_addr :: "int \<Rightarrow> u32" where
  "get_prog_phys_addr pid = KERNEL_LOC_END + word_of_int (pid - 1) * PROG_PAGE_SIZE"

definition validate_user_ptr :: "u32 \<Rightarrow> int" where
  "validate_user_ptr ptr =
     (if ptr \<ge> PROG_VIRT_ADDR \<and> ptr < PROG_VIRT_ADDR + PROG_PAGE_SIZE then SUCCESS else FAILURE)"

subsection \<open>Reading, writing, opening and closing\<close>

definition run_read :: "read_fn \<Rightarrow> ('a keyboard_scheme \<Rightarrow> 'a keyboard_scheme option) \<Rightarrow> int \<Rightarrow> u32 \<Rightarrow> int
    \<Rightarrow> 'a keyboard_scheme \<Rightarrow> (int \<times> 'a keyboard_scheme) option" where
  "run_read f idle fd buf nbytes s =
     (case f of
        Term_read \<Rightarrow> term_read idle fd buf nbytes s
      | File_read \<Rightarrow> file_read fd buf nbytes s
      | Dir_read \<Rightarrow> dir_read fd buf nbytes s
      | Rtc_read \<Rightarrow> rtc_read idle fd buf nbytes s)"

definition run_write :: "write_fn \<Rightarrow> int \<Rightarrow> u32 \<Rightarrow> int \<Rightarrow> 'a keyboard_scheme \<Rightarrow> (int \<times> 'a keyboard_scheme) option" where
  "run_write f fd buf nbytes s =
     (case f of
        Term_write \<Rightarrow> term_write fd buf nbytes s
      | File_write \<Rightarrow> file_write fd buf nbytes s
      | Dir_write \<Rightarrow> dir_write fd buf nbytes s
      | Rtc_write \<Rightarrow> rtc_write fd buf nbytes s)"

definition run_open :: "open_fn \<Rightarrow> reader \<Rightarrow> 'a keyboard_scheme \<Rightarrow> (int \<times> 'a keyboard_scheme) option" where
  "run_open f name s =
     (case f of
        Term_open \<Rightarrow> term_open name s
      | File_open \<Rightarrow> file_open s
      | Dir_open \<Rightarrow> dir_open s
      | Rtc_open \<Rightarrow> rtc_open s)"

definition system_read :: "('a keyboard_scheme \<Rightarrow> 'a keyboard_scheme option) \<Rightarrow> int \<Rightarrow> u32 \<Rightarrow> int
    \<Rightarrow> 'a keyboard_scheme \<Rightarrow> (int \<times> 'a keyboard_scheme) option" where
  "system_read idle fd buf nbytes s = do {
     p \<leftarrow> get_current_pcb s;
     if fd < 0 \<or> fd \<ge> int FD_ARRAY_SIZE then Some (FAILURE, s)
     else do {
       f \<leftarrow> get_fd p fd s;
       if f_flags f = NOT_IN_USE then Some (FAILURE, s)
       else do {
         table \<leftarrow> f_ops f;
         case op_read (op_tables s table) of
           None \<Rightarrow> Some (FAILURE, s)
         | Some g \<Rightarrow> run_read g idle fd buf nbytes s
       }
     }
   }"

definition system_write :: "int \<Rightarrow> u32 \<Rightarrow> int \<Rightarrow> 'a keyboard_scheme \<Rightarrow> (int \<times> 'a keyboard_scheme) option" where
  "system_write fd buf nbytes s = do {
     p \<leftarrow> get_current_pcb s;
     if fd < 0 \<or> fd \<ge> int FD_ARRAY_SIZE then Some (FAILURE, s)
     else do {
       f \<leftarrow> get_fd p fd s;
       if f_flags f = NOT_IN_USE then Some (FAILURE, s)
       else do {
         table \<leftarrow> f_ops f;
         case op_write (op_tables s table) of
           None \<Rightarrow> Some (FAILURE, s)
         | Some g \<Rightarrow> run_write g fd buf nbytes s
       }
     }
   }"

definition system_close :: "int \<Rightarrow> 'a procs_scheme \<Rightarrow> (int \<times> 'a procs_scheme) option" where
  "system_close fd s = do {
     p \<leftarrow> get_current_pcb s;
     if fd < 2 \<or> fd \<ge> int FD_ARRAY_SIZE then Some (FAILURE, s)
     else do {
       f \<leftarrow> get_fd p fd s;
       if f_flags f = NOT_IN_USE then Some (FAILURE, s)
       else do {
         table \<leftarrow> f_ops f;
         case op_close (op_tables s table) of
           None \<Rightarrow> Some (FAILURE, s)
         | Some g \<Rightarrow> run_close g fd s
       }
     }
   }"

definition table_of_type :: "int \<Rightarrow> op_table option" where
  "table_of_type ty =
     (if ty = RTC_TYPE then Some Rtc_type_ops
      else if ty = DIR_TYPE then Some Dir_type_ops
      else if ty = FILE_TYPE then Some File_type_ops
      else None)"

definition system_open :: "reader \<Rightarrow> 'a keyboard_scheme \<Rightarrow> (int \<times> 'a keyboard_scheme) option" where
  "system_open name s = do {
     (ret, d) \<leftarrow> read_dentry_by_name name s;
     case d of
       None \<Rightarrow> Some (FAILURE, s)
     | Some dentry \<Rightarrow>
         if ret \<noteq> SUCCESS then Some (FAILURE, s)
         else do {
           fd \<leftarrow> get_new_fd s;
           if fd = FAILURE then Some (FAILURE, s)
           else do {
             p \<leftarrow> get_current_pcb s;
             s \<leftarrow> put_fd p fd (\<lambda>f. f\<lparr>f_inode := word_of_int (inode_num dentry), f_position := 0, f_flags := IN_USE\<rparr>) s;
             case table_of_type (filetype dentry) of
               None \<Rightarrow> Some (FAILURE, s)
             | Some table \<Rightarrow> do {
                 s \<leftarrow> put_fd p fd (\<lambda>f. f\<lparr>f_ops := Some table\<rparr>) s;
                 case op_open (op_tables s table) of
                   None \<Rightarrow> Some (FAILURE, s)
                 | Some g \<Rightarrow> do {
                     (ret, s) \<leftarrow> run_open g name s;
                     Some (if ret \<noteq> SUCCESS then FAILURE else fd, s)
                   }
               }
           }
         }
   }"

subsection \<open>Arguments and video memory\<close>

fun copy_args :: "u32 \<Rightarrow> nat \<Rightarrow> nat \<Rightarrow> 'a procs_scheme \<Rightarrow> 'a procs_scheme option" where
  "copy_args buf i 0 s = Some s"
| "copy_args buf i (Suc k) s = do {
     p \<leftarrow> get_current_pcb s;
     pcb \<leftarrow> get_pcb p s;
     c \<leftarrow> arr_get (p_args pcb) (int i);
     s \<leftarrow> store8 (buf + of_nat i) c s;
     copy_args buf (Suc i) k s
   }"

definition system_getargs :: "u32 \<Rightarrow> int \<Rightarrow> 'a procs_scheme \<Rightarrow> (int \<times> 'a procs_scheme) option" where
  "system_getargs buf nbytes s = do {
     p \<leftarrow> get_current_pcb s;
     pcb \<leftarrow> get_pcb p s;
     if uint (p_args_len pcb) > nbytes \<or> validate_user_ptr buf = FAILURE \<or> p_args_len pcb = 0
     then Some (FAILURE, s)
     else do { s \<leftarrow> copy_args buf 0 (unat (p_args_len pcb)) s; Some (SUCCESS, s) }
   }"

definition group_video :: "int \<Rightarrow> 'a procs_scheme \<Rightarrow> u32" where
  "group_video grp s =
     (if visible_group s = grp then VIDEO_KERNEL else VIDEO_GROUP_1 + word_of_int grp * of_nat PAGE_SIZE)"

definition system_vidmap :: "u32 \<Rightarrow> 'a procs_scheme \<Rightarrow> (int \<times> 'a procs_scheme) option" where
  "system_vidmap screen_start s = do {
     let current_group = get_current_group s;
     if validate_user_ptr screen_start = FAILURE then Some (FAILURE, s)
     else do {
       p \<leftarrow> get_current_pcb s;
       s \<leftarrow> put_pcb p (\<lambda>pcb. pcb\<lparr>p_vid_map_called := 1\<rparr>) s;
       let s = map_page VIDEO_USER (group_video current_group s) 1 1 0 s;
       s \<leftarrow> store_bytes screen_start (dword_bytes VIDEO_USER) s;
       Some (SUCCESS, s)
     }
   }"

subsection \<open>Loading a program\<close>

text \<open>\<open>magic_addr\<close> is the address of the local variable \<open>magic_num\<close>. The copy loop reads one
  byte at a time until a read returns 0.\<close>

partial_function (option) load_loop :: "int \<Rightarrow> u32 \<Rightarrow> 'a keyboard_scheme \<Rightarrow> (bool \<times> 'a keyboard_scheme) option" where
  "load_loop fd prog_addr s = do {
     (ret, s) \<leftarrow> file_read fd prog_addr 1 s;
     if ret = 0 then Some (True, s)
     else if ret = FAILURE then Some (False, s)
     else load_loop fd (prog_addr + 1) s
   }"

declare load_loop.simps [code]

definition load_program :: "u32 \<Rightarrow> reader \<Rightarrow> 'a keyboard_scheme \<Rightarrow> (u32 \<times> 'a keyboard_scheme) option" where
  "load_program magic_addr name s = do {
     (fd, s) \<leftarrow> system_open name s;
     if fd = FAILURE then Some (word_of_int FAILURE, s)
     else do {
       (ret, s) \<leftarrow> file_read fd magic_addr 4 s;
       if ret = FAILURE \<or> ret < 4 then Some (word_of_int FAILURE, s)
       else do {
         magic_num \<leftarrow> load32 s magic_addr;
         if magic_num \<noteq> EXEC_MAGIC then Some (word_of_int FAILURE, s)
         else do {
           p \<leftarrow> get_current_pcb s;
           s \<leftarrow> put_fd p fd (\<lambda>f. f\<lparr>f_position := 0\<rparr>) s;
           (done, s) \<leftarrow> load_loop fd (PROG_VIRT_ADDR + PROG_OFFSET) s;
           if \<not> done then Some (word_of_int FAILURE, s)
           else do {
             (_, s) \<leftarrow> file_close fd s;
             entry \<leftarrow> load32 s (PROG_VIRT_ADDR + PROG_OFFSET + 24);
             Some (entry, s)
           }
         }
       }
     }
   }"

subsection \<open>The command line\<close>

partial_function (option) skip_spaces :: "reader \<Rightarrow> nat \<Rightarrow> nat option" where
  "skip_spaces cmd i = do { c \<leftarrow> cmd i; if c = 32 then skip_spaces cmd (i + 1) else Some i }"

declare skip_spaces.simps [code]

text \<open>One word from \<open>idx\<close> on, while the index is below 127: the word and the next index.\<close>

function copy_word :: "reader \<Rightarrow> nat \<Rightarrow> (u8 list \<times> nat) option" where
  "copy_word cmd idx =
     (if idx < TERM_BUFFER_SIZE - 1 then do {
        c \<leftarrow> cmd idx;
        if c \<noteq> 32 \<and> c \<noteq> 0 then map_option (\<lambda>(w, j). (c # w, j)) (copy_word cmd (idx + 1))
        else Some ([], idx)
      } else Some ([], idx))"
  by pat_completeness auto
termination by (relation "measure (\<lambda>(cmd, idx). 127 - idx)") auto

declare copy_word.simps [simp del]

text \<open>Writing a list of bytes to \<open>args\<close> from an index on; \<open>None\<close> past the 128 bytes.\<close>

fun put_args :: "u8 list \<Rightarrow> nat \<Rightarrow> u8 list \<Rightarrow> u8 list option" where
  "put_args args i [] = Some args"
| "put_args args i (c # cs) = do { args \<leftarrow> arr_set args (int i) c; put_args args (Suc i) cs }"

text \<open>The loop over the arguments: \<open>k\<close> is the number of arguments still allowed. The result is
  the buffer and its used length.\<close>

fun parse_args :: "reader \<Rightarrow> nat \<Rightarrow> nat \<Rightarrow> nat \<Rightarrow> u8 list \<Rightarrow> (u8 list \<times> nat) option" where
  "parse_args cmd 0 idx args_idx args = Some (args, args_idx)"
| "parse_args cmd (Suc k) idx args_idx args = do {
     c \<leftarrow> cmd idx;
     if c = 0 then do { args \<leftarrow> arr_set args 0 0; Some (args, args_idx) }
     else do {
       (word, idx) \<leftarrow> copy_word cmd idx;
       args \<leftarrow> put_args args args_idx word;
       let args_idx = args_idx + length word;
       idx \<leftarrow> skip_spaces cmd idx;
       c \<leftarrow> cmd idx;
       if c = 0 then do { args \<leftarrow> arr_set args (int args_idx) 0; Some (args, args_idx + 1) }
       else do {
         args \<leftarrow> arr_set args (int args_idx) 32;
         parse_args cmd k idx (args_idx + 1) args
       }
     }
   }"

subsection \<open>Execute and halt\<close>

record iret_frame =
  i_eip :: u32
  i_cs :: u32
  i_esp :: u32
  i_ss :: u32

datatype exec_result = Exec_failed | Exec_entered iret_frame

text \<open>The arguments go into the PCB of the child.\<close>

definition save_args :: "reader \<Rightarrow> nat \<Rightarrow> u32 \<Rightarrow> 'a procs_scheme \<Rightarrow> 'a procs_scheme option" where
  "save_args cmd idx child s = do {
     idx \<leftarrow> skip_spaces cmd idx;
     pcb \<leftarrow> get_pcb child s;
     (args, args_idx) \<leftarrow> parse_args cmd 3 idx 0 (p_args pcb);
     put_pcb child (\<lambda>pcb. pcb\<lparr>p_args := args, p_args_len := of_nat args_idx\<rparr>) s
   }"

text \<open>Map, load, switch. \<open>ret_label\<close> is the address of \<open>return_from_exec\<close>; \<open>esp\<close> and \<open>ebp\<close> are
  the registers at the context switch.\<close>

definition start_child :: "u32 \<Rightarrow> u32 \<Rightarrow> u32 \<Rightarrow> u32 \<Rightarrow> u8 list \<Rightarrow> int \<Rightarrow> u32 \<Rightarrow> u32 \<Rightarrow> 'a keyboard_scheme
    \<Rightarrow> (exec_result \<times> 'a keyboard_scheme) option" where
  "start_child magic_addr ret_label esp ebp name child_pid child parent s = do {
     pcb \<leftarrow> get_pcb child s;
     let s = map_page PROG_VIRT_ADDR (get_prog_phys_addr (p_pid pcb)) 1 1 1 s;
     (program_eip, s) \<leftarrow> load_program magic_addr (literal name) s;
     if program_eip = word_of_int FAILURE then do {
       pp \<leftarrow> get_pcb parent s;
       let s = map_page PROG_VIRT_ADDR (get_prog_phys_addr (p_pid pp)) 1 1 1 s;
       s \<leftarrow> pcb_teardown s;
       Some (Exec_failed, s)
     } else do {
       let s = s\<lparr>tss_ss0 := KERNEL_DS, tss_esp0 := get_kstack_addr child_pid\<rparr>;
       s \<leftarrow> put_pcb child (\<lambda>pcb. pcb\<lparr>p_eip := program_eip,
              p_esp := PROG_VIRT_ADDR + PROG_PAGE_SIZE - 4\<rparr>) s;
       s \<leftarrow> put_pcb parent (\<lambda>pcb. pcb\<lparr>p_esp := esp, p_ebp := ebp, p_eip := ret_label\<rparr>) s;
       pcb \<leftarrow> get_pcb child s;
       Some (Exec_entered \<lparr>i_eip = p_eip pcb, i_cs = USER_CS, i_esp = p_esp pcb, i_ss = USER_DS\<rparr>, sti s)
     }
   }"

text \<open>\<open>command\<close> is \<open>None\<close> for NULL.\<close>

definition system_execute :: "u32 \<Rightarrow> u32 \<Rightarrow> u32 \<Rightarrow> u32 \<Rightarrow> reader option \<Rightarrow> 'a keyboard_scheme
    \<Rightarrow> (exec_result \<times> 'a keyboard_scheme) option" where
  "system_execute magic_addr ret_label esp ebp command s =
     (let s = cli s
      in case command of
        None \<Rightarrow> Some (Exec_failed, s)
      | Some cmd0 \<Rightarrow> do {
          base \<leftarrow> skip_spaces cmd0 0;
          let cmd = (\<lambda>i. cmd0 (base + i));
          (name, idx) \<leftarrow> copy_word cmd 0;
          child_pid \<leftarrow> get_new_pid s;
          parent \<leftarrow> get_current_pcb s;
          (child, s) \<leftarrow> pcb_setup child_pid s;
          if child = 0 then Some (Exec_failed, s)
          else do {
            s \<leftarrow> save_args cmd idx child s;
            start_child magic_addr ret_label esp ebp name child_pid child parent s
          }
        })"

text \<open>\<open>system_halt\<close>: the status in EAX, the parent's PCB in EDX, and the jump target.\<close>

record halt_result =
  h_eax :: u32
  h_edx :: u32
  h_eip :: u32
  h_esp :: u32

definition system_halt :: "u32 \<Rightarrow> 'a procs_scheme \<Rightarrow> halt_result option" where
  "system_halt status s = do {
     p \<leftarrow> get_current_pcb s;
     pcb \<leftarrow> get_pcb p s;
     let parent = get_pcb_addr (p_parent_pid pcb);
     pp \<leftarrow> get_pcb parent s;
     Some \<lparr>h_eax = status, h_edx = parent, h_eip = p_eip pp, h_esp = p_esp pp\<rparr>
   }"

text \<open>From \<open>return_from_exec\<close> on, with the parent's PCB in \<open>parent\<close>: the value returned by
  \<open>execute\<close>, and the stack registers the parent goes on with.\<close>

definition execute_return :: "u32 \<Rightarrow> u32 \<Rightarrow> 'a procs_scheme \<Rightarrow> ((int \<times> u32 \<times> u32) \<times> 'a procs_scheme) option" where
  "execute_return ret parent s = do {
     pp \<leftarrow> get_pcb parent s;
     let s = map_page PROG_VIRT_ADDR (get_prog_phys_addr (p_pid pp)) 1 1 1 s;
     let s = (if p_vid_map_called pp = 0 then unmap_page VIDEO_USER 0 s else s);
     s \<leftarrow> pcb_teardown s;
     Some ((sint ret, p_esp pp, p_ebp pp), s)
   }"

subsection \<open>The first shells\<close>

definition store32 :: "u32 \<Rightarrow> u32 \<Rightarrow> 'a machine_scheme \<Rightarrow> 'a machine_scheme option" where
  "store32 a w s = store_bytes a (dword_bytes w) s"

definition shell_name :: "u8 list" where
  "shell_name = [115, 104, 101, 108, 108]"

definition static_start_shell :: "u32 \<Rightarrow> u32 \<Rightarrow> u32 \<Rightarrow> int \<Rightarrow> 'a keyboard_scheme
    \<Rightarrow> (int \<times> 'a keyboard_scheme) option" where
  "static_start_shell magic_addr intr_label eflags pid s =
     (if pid < 2 \<or> pid > 3 then Some (FAILURE, s)
      else do {
        (child, s) \<leftarrow> pcb_setup pid s;
        act \<leftarrow> arr_set (active_pid s) 0 0;
        let s = s\<lparr>active_pid := act\<rparr>;
        if child = 0 then Some (FAILURE, s)
        else do {
          s \<leftarrow> put_pcb child (\<lambda>pcb. pcb\<lparr>p_parent_pid := 0\<rparr>) s;
          pcb \<leftarrow> get_pcb child s;
          args \<leftarrow> arr_set (p_args pcb) 0 0;
          s \<leftarrow> put_pcb child (\<lambda>pcb. pcb\<lparr>p_args := args, p_args_len := 0\<rparr>) s;
          pcb \<leftarrow> get_pcb child s;
          let s = map_page PROG_VIRT_ADDR (get_prog_phys_addr (p_pid pcb)) 1 1 1 s;
          (program_eip, s) \<leftarrow> load_program magic_addr (literal shell_name) s;
          pcb \<leftarrow> get_pcb child s;
          if program_eip = word_of_int FAILURE then do {
            let s = map_page PROG_VIRT_ADDR (get_prog_phys_addr (p_parent_pid pcb)) 1 1 1 s;
            s \<leftarrow> pcb_teardown s;
            Some (FAILURE, s)
          } else do {
            act \<leftarrow> arr_set (active_pid s) (pid - 1) pid;
            let s = s\<lparr>active_pid := act\<rparr>;
            let esp0 = get_kstack_addr (p_pid pcb);
            s \<leftarrow> put_pcb child (\<lambda>pcb. pcb\<lparr>p_eip := program_eip,
                   p_esp := PROG_VIRT_ADDR + PROG_PAGE_SIZE - 4, p_tss_esp0 := esp0,
                   p_kernel_ebp := esp0 - 68, p_kernel_esp := esp0 - 68 - 24\<rparr>) s;
            s \<leftarrow> store32 (esp0 - 4) USER_DS s;
            s \<leftarrow> store32 (esp0 - 8) (PROG_VIRT_ADDR + PROG_PAGE_SIZE - 4) s;
            s \<leftarrow> store32 (esp0 - 12) (eflags OR 0x200) s;
            s \<leftarrow> store32 (esp0 - 16) USER_CS s;
            s \<leftarrow> store32 (esp0 - 20) program_eip s;
            s \<leftarrow> store32 (esp0 - 64) intr_label s;
            Some (SUCCESS, s)
          }
        }
      })"

end
