(* ===== verification/Scheduler.thy ===== *)
theory Scheduler
  imports System
begin

text \<open>
  The round-robin scheduler (scheduler.c). \<open>schedule_next\<close> runs in the handler of the timer
  interrupt; the registers it saves are arguments, the ones it loads are results. The video
  page of the user is remapped for the group that goes on: to the screen if that group is
  visible, to the save page of the group otherwise.
\<close>

definition schedule_next :: "u32 \<Rightarrow> u32 \<Rightarrow> u32 \<Rightarrow> u32 \<Rightarrow> 'a procs_scheme
    \<Rightarrow> ((u32 \<times> u32) \<times> 'a procs_scheme) option" where
  "schedule_next proc_push_top pushed_cs esp ebp s = do {
     let s = send_eoi 0 (cli s);
     let old_group = current_group s;
     let s = s\<lparr>current_group := current_group s + 1\<rparr>;
     let s = (if current_group s \<ge> int MAX_PROCESS_GROUPS then s\<lparr>current_group := 0\<rparr> else s);
     old_pid \<leftarrow> arr_get (active_pid s) old_group;
     let pcb_old = get_pcb_addr old_pid;
     new_pid \<leftarrow> arr_get (active_pid s) (current_group s);
     let pcb_new = get_pcb_addr new_pid;
     s \<leftarrow> put_pcb pcb_old (\<lambda>pcb. pcb\<lparr>p_tss_esp0 :=
            (if pushed_cs AND 3 = 3 then proc_push_top + 5 * 4 else proc_push_top + 3 * 4)\<rparr>) s;
     s \<leftarrow> put_pcb pcb_old (\<lambda>pcb. pcb\<lparr>p_kernel_esp := esp, p_kernel_ebp := ebp\<rparr>) s;
     pcb \<leftarrow> get_pcb pcb_new s;
     let s = (if p_vid_map_called pcb \<noteq> 0
              then map_page VIDEO_USER (group_video (current_group s) s) 1 1 0 s
              else unmap_page VIDEO_USER 0 s);
     let s = map_page PROG_VIRT_ADDR (get_prog_phys_addr (p_pid pcb)) 1 1 1 s;
     let s = s\<lparr>tss_ss0 := KERNEL_DS, tss_esp0 := p_tss_esp0 pcb\<rparr>;
     Some ((p_kernel_esp pcb, p_kernel_ebp pcb), sti s)
   }"

end
