(* ===== verification/KernelView.thy ===== *)
theory KernelView
  imports Scheduler
begin

text \<open>
  What the device drivers leave alone. \<open>kview\<close> is the part of the state that decides which
  processes there are, where their memory is and what they may reach: the process table, the
  PCBs, the page tables, the operations tables, the stack of the TSS. One lemma for every
  operation of the console, the terminal, the clock, the keyboard and the file system says that
  it keeps \<open>kview\<close>, or changes only descriptors in it (\<open>fd_frame\<close>).
\<close>

definition kview :: "'a procs_scheme \<Rightarrow> _" where
  "kview s = (pid_array s, active_pid s, current_group s, page_directory s, page_table_0 s, pt0_addr s,
     op_tables s, tss_ss0 s, tss_esp0 s, pcb_mem s)"

lemma kview_simps [simp]:
  "kview (s\<lparr>phys := f\<rparr>) = kview s" "kview (s\<lparr>eflags_if := b\<rparr>) = kview s"
  "kview (s\<lparr>port_out := ps\<rparr>) = kview s" "kview (s\<lparr>screen_x := i\<rparr>) = kview s"
  "kview (s\<lparr>screen_y := i\<rparr>) = kview s" "kview (s\<lparr>video_mem := v\<rparr>) = kview s"
  "kview (s\<lparr>master_mask := m\<rparr>) = kview s" "kview (s\<lparr>slave_mask := m\<rparr>) = kview s"
  "kview (s\<lparr>visible_group := g\<rparr>) = kview s"
  by (simp_all add: kview_def)

lemma kview_terms [simp]: "kview ((s :: 'a terminals_scheme)\<lparr>terms := ts\<rparr>) = kview s"
  by (simp add: kview_def)

lemma kview_rtc [simp]:
  "kview ((s :: 'a rtc_scheme)\<lparr>rtc_read_waiting := ws\<rparr>) = kview s"
  "kview (s\<lparr>rtc_intr_count := ws\<rparr>) = kview s" "kview (s\<lparr>rtc_freq_divider := ws\<rparr>) = kview s"
  by (simp_all add: kview_def)

lemma kview_keyboard [simp]:
  "kview ((s :: 'a keyboard_scheme)\<lparr>cmd_queue := q\<rparr>) = kview s" "kview (s\<lparr>q_start := i\<rparr>) = kview s"
  "kview (s\<lparr>q_end := i\<rparr>) = kview s" "kview (s\<lparr>scan_code_extended := e\<rparr>) = kview s"
  "kview (s\<lparr>scan_code_break := e\<rparr>) = kview s" "kview (s\<lparr>lock_states := e\<rparr>) = kview s"
  "kview (s\<lparr>keys := ks\<rparr>) = kview s"
  by (simp_all add: kview_def)

lemma kview_fields:
  assumes "kview t = kview s"
  shows "pid_array t = pid_array s" "active_pid t = active_pid s" "current_group t = current_group s"
    and "page_directory t = page_directory s" "page_table_0 t = page_table_0 s" "pt0_addr t = pt0_addr s"
    and "op_tables t = op_tables s" "tss_ss0 t = tss_ss0 s" "tss_esp0 t = tss_esp0 s" "pcb_mem t = pcb_mem s"
  using assms by (simp_all add: kview_def)

named_theorems keeps

subsection \<open>Processor, memory, interrupt controller\<close>

lemma kview_cpu [simp]:
  "kview (outb b port s) = kview s" "kview (cli s) = kview s" "kview (sti s) = kview s"
  "kview (restore_flags f s) = kview s" "kview (snd (cli_and_save s)) = kview s"
  by (simp_all add: cpu_defs)

lemma kview_store8 [keeps]: "store8 a b s = Some t \<Longrightarrow> kview t = kview s"
  by (auto dest: store8_Some)

lemma kview_store_bytes [keeps]: "store_bytes a bs s = Some t \<Longrightarrow> kview t = kview s"
  by (auto dest: store_bytes_same_but_phys)

lemma kview_pic [simp]:
  "kview (enable_irq n s) = kview s" "kview (disable_irq n s) = kview s" "kview (send_eoi n s) = kview s"
  by (auto simp: enable_irq_def disable_irq_def send_eoi_def Let_def cpu_defs split: prod.splits)

lemma kview_strncpy_copy: "strncpy_copy dest src n i s = Some (j, t) \<Longrightarrow> kview t = kview s"
proof (induction dest src n i s rule: strncpy_copy.induct)
  case (1 dest src n i s)
  show ?case
    using "1.prems" [unfolded strncpy_copy.simps [of dest src n i s]] "1.IH"
    by (auto simp: bind_Some_iff dest: kview_store8 split: if_splits)
qed

lemma kview_strncpy_pad: "strncpy_pad dest n i s = Some t \<Longrightarrow> kview t = kview s"
proof (induction dest n i s rule: strncpy_pad.induct)
  case (1 dest n i s)
  show ?case
    using "1.prems" [unfolded strncpy_pad.simps [of dest n i s]] "1.IH"
    by (auto simp: bind_Some_iff dest: kview_store8 split: if_splits)
qed

lemma kview_strncpy [keeps]: "strncpy dest src n s = Some t \<Longrightarrow> kview t = kview s"
  by (auto simp: strncpy_def bind_Some_iff dest!: kview_strncpy_copy kview_strncpy_pad)

lemma kview_memcpy_bottom: "memcpy_bottom edi esi n s = Some t \<Longrightarrow> kview t = kview s"
  by (induction edi esi n s rule: memcpy_bottom.induct) (auto simp: bind_Some_iff dest: kview_store8)

subsection \<open>The console and the terminal\<close>

lemma kview_con_rest: "con_rest t = con_rest s \<Longrightarrow> kview t = kview s"
proof -
  assume r: "con_rest t = con_rest s"
  note f = con_rest_fields [OF r]
  have p: "g (con_rest t) = g (con_rest s)" for g :: "'a procs_scheme \<Rightarrow> 'b" using r by simp
  show ?thesis
    unfolding kview_def f
    using p [of pid_array] p [of active_pid] p [of current_group] p [of op_tables] p [of tss_ss0]
      p [of tss_esp0] p [of pcb_mem]
    by (simp add: con_rest_def)
qed

lemma kview_con_frame: "con_frame s t \<Longrightarrow> kview t = kview s"
  by (rule kview_con_rest) (simp add: con_frame_def)

lemma kview_console [simp]:
  "kview (clear s) = kview s" "kview (set_cursor x y s) = kview s" "kview (putc c s) = kview s"
  "kview (set_video_mem v s) = kview s"
  by (rule kview_con_rest, simp)+ (simp add: set_video_mem_def)

lemma kview_print_char [keeps]: "print_char c s = Some t \<Longrightarrow> kview t = kview s"
  by (rule kview_con_frame) (rule con_frame_print_char)

lemma kview_printf [keeps]: "printf fmt args s = Some (n, t) \<Longrightarrow> kview t = kview s"
  by (rule kview_con_frame) (rule con_frame_printf)

lemma kview_put_term [keeps]: "put_term g f s = Some t \<Longrightarrow> kview t = kview s"
  by (auto simp: put_term_def bind_Some_iff)

lemma kview_backspace [keeps]: "backspace_term s = Some t \<Longrightarrow> kview t = kview s"
  by (auto simp: backspace_term_def bind_Some_iff cli_and_save_def Let_def dest!: keeps split: if_splits)

lemma kview_push_char [keeps]: "push_char g c s = Some t \<Longrightarrow> kview t = kview s"
  by (auto simp: push_char_def bind_Some_iff dest!: keeps)

lemma kview_push_tab [keeps]: "push_tab k g s = Some t \<Longrightarrow> kview t = kview s"
  by (induction k g s rule: push_tab.induct) (auto simp: bind_Some_iff dest: kview_push_char split: if_splits)

lemma kview_add_char_to_term [keeps]: "add_char_to_term c s = Some (r, t) \<Longrightarrow> kview t = kview s"
  by (auto simp: add_char_to_term_def bind_Some_iff cli_and_save_def Let_def dest!: keeps split: if_splits)

lemma kview_add_char_term [keeps]: "add_char_term c s = Some (r, t) \<Longrightarrow> kview t = kview s"
  by (auto simp: add_char_term_def bind_Some_iff dest!: keeps split: if_splits)

lemma kview_clear_term [simp]: "kview (clear_term s) = kview s"
  by (simp add: clear_term_def cli_and_save_def Let_def)

lemma kview_print_chars [keeps]: "print_chars buf k s = Some t \<Longrightarrow> kview t = kview s"
  by (induction buf k s rule: print_chars.induct) (auto simp: bind_Some_iff dest: kview_print_char)

lemma kview_term_write [keeps]: "term_write fd buf n s = Some (r, t) \<Longrightarrow> kview t = kview s"
  by (auto simp: term_write_def bind_Some_iff cli_and_save_def Let_def get_cursor_def dest!: keeps
      split: if_splits)

lemma kview_rep_movsl: "rep_movsl edi esi n s = Some (e, f, t) \<Longrightarrow> kview t = kview s"
  by (induction edi esi n s rule: rep_movsl.induct) (auto simp: bind_Some_iff dest: kview_store_bytes)

lemma kview_memcpy_aligned: "memcpy_aligned edi esi n s = Some t \<Longrightarrow> kview t = kview s"
  by (auto simp: memcpy_aligned_def bind_Some_iff dest!: kview_memcpy_bottom kview_rep_movsl)

lemma kview_memcpy_top: "memcpy_top edi esi n s = Some t \<Longrightarrow> kview t = kview s"
  by (induction edi esi n s rule: memcpy_top.induct)
    (auto simp: bind_Some_iff dest: kview_store8 kview_memcpy_aligned split: if_splits)

lemma kview_memcpy [keeps]: "memcpy dest src n s = Some t \<Longrightarrow> kview t = kview s"
  unfolding memcpy_def by (rule kview_memcpy_top)

lemma kview_switch_term [keeps]: "switch_term g s = Some (r, t) \<Longrightarrow> kview t = kview s"
  by (auto simp: switch_term_def bind_Some_iff cli_and_save_def Let_def get_cursor_def dest!: keeps
      split: if_splits)

subsection \<open>The clock and the keyboard\<close>

lemma kview_set_clock [keeps]:
  "set_waiting g v s = Some t \<Longrightarrow> kview t = kview s" "set_count g v s = Some t \<Longrightarrow> kview t = kview s"
  "set_divider g v s = Some t \<Longrightarrow> kview t = kview s"
  by (auto simp: set_waiting_def set_count_def set_divider_def)

lemma kview_rtc_tick [keeps]: "rtc_tick g s = Some t \<Longrightarrow> kview t = kview s"
  by (auto simp: rtc_tick_def bind_Some_iff dest!: keeps split: if_splits)

lemma kview_rtc_ticks [keeps]: "rtc_ticks g k s = Some t \<Longrightarrow> kview t = kview s"
  by (induction g k s rule: rtc_ticks.induct) (auto simp: bind_Some_iff dest: kview_rtc_tick)

lemma kview_rtc_wrapper [keeps]: "rtc_wrapper s = Some t \<Longrightarrow> kview t = kview s"
  by (auto simp: rtc_wrapper_def bind_Some_iff dest!: keeps)

lemma kview_rtc_write [keeps]: "rtc_write fd buf n s = Some (r, t) \<Longrightarrow> kview t = kview s"
  by (auto simp: rtc_write_def bind_Some_iff cli_and_save_def Let_def dest!: keeps split: if_splits)

lemma kview_rtc_open [keeps]: "rtc_open s = Some (r, t) \<Longrightarrow> kview t = kview s"
  by (auto simp: rtc_open_def bind_Some_iff Let_def dest!: keeps)

lemma kview_queue_bytes [simp]: "kview (queue_bytes bs s) = kview s"
  by (induction bs s rule: queue_bytes.induct) simp_all

lemma kview_send_cmd [simp]: "kview (snd (send_cmd cmd s)) = kview s"
  by (auto simp: send_cmd_def cli_and_save_def Let_def split: prod.splits)

lemma kview_head [simp]: "kview (send_head s) = kview s" "kview (pop_head s) = kview s"
  by (simp_all add: send_head_def pop_head_def)

lemma kview_handle_locks [simp]: "kview (handle_locks k s) = kview s"
  by (simp add: handle_locks_def Let_def)

lemma kview_handle_press [keeps]: "handle_press k s = Some t \<Longrightarrow> kview t = kview s"
  by (auto simp: handle_press_def bind_Some_iff Let_def dest!: keeps split: if_splits)

lemma kview_handle_scan_code [keeps]: "handle_scan_code w s = Some t \<Longrightarrow> kview t = kview s"
  by (auto simp: handle_scan_code_def bind_Some_iff Let_def dest!: keeps split: if_splits)

lemma kview_handle_interrupt [keeps]: "handle_interrupt s = Some t \<Longrightarrow> kview t = kview s"
  by (auto simp: handle_interrupt_def cli_and_save_def Let_def dest!: keeps split: if_splits)

lemma kview_keyboard_handler [keeps]: "keyboard_handler s = Some t \<Longrightarrow> kview t = kview s"
  by (auto simp: keyboard_handler_def bind_Some_iff dest!: keeps)

subsection \<open>Files\<close>

lemma kview_read_step: "read_step i d b blk s = Some (blk', t) \<Longrightarrow> kview t = kview s"
  by (auto simp: read_step_def bind_Some_iff dest!: kview_store8 split: if_splits prod.splits)

lemma kview_read_loop: "read_loop i d off buf n k blk s = Some (r, t) \<Longrightarrow> kview t = kview s"
proof (induction i d off buf n k blk s rule: read_loop.induct)
  case (1 i d off buf n k blk s)
  show ?case
    using "1.prems" [unfolded read_loop.simps [of i d off buf n k blk s]] "1.IH"
    by (auto simp: bind_Some_iff dest: kview_read_step split: if_splits)
qed

lemma kview_read_data [keeps]: "read_data i off buf n s = Some (r, t) \<Longrightarrow> kview t = kview s"
  by (auto simp: read_data_def bind_Some_iff Let_def dest!: kview_read_loop split: if_splits)

subsection \<open>Changing descriptors only\<close>

text \<open>Everything in \<open>kview\<close> stays, but the descriptors of the PCB at \<open>p\<close>, which keep their number.\<close>

definition fd_frame :: "u32 \<Rightarrow> 'a procs_scheme \<Rightarrow> 'a procs_scheme \<Rightarrow> bool" where
  "fd_frame p s t \<longleftrightarrow> (\<exists>tab. length tab = length (p_fd_table (pcb_mem s p)) \<and>
     kview t = kview (s\<lparr>pcb_mem := (pcb_mem s)(p := (pcb_mem s p)\<lparr>p_fd_table := tab\<rparr>)\<rparr>))"

lemma fd_frame_refl [simp]: "fd_frame p s s"
  unfolding fd_frame_def by (rule exI [of _ "p_fd_table (pcb_mem s p)"]) simp

lemma fd_frame_kview: "kview t = kview s \<Longrightarrow> fd_frame p s t"
  unfolding fd_frame_def by (rule exI [of _ "p_fd_table (pcb_mem s p)"]) simp

lemma fd_frame_trans:
  assumes "fd_frame p s t" "fd_frame p t u"
  shows "fd_frame p s u"
proof -
  obtain x y where x: "length x = length (p_fd_table (pcb_mem s p))"
      "kview t = kview (s\<lparr>pcb_mem := (pcb_mem s)(p := (pcb_mem s p)\<lparr>p_fd_table := x\<rparr>)\<rparr>)"
    and y: "length y = length (p_fd_table (pcb_mem t p))"
      "kview u = kview (t\<lparr>pcb_mem := (pcb_mem t)(p := (pcb_mem t p)\<lparr>p_fd_table := y\<rparr>)\<rparr>)"
    using assms by (auto simp: fd_frame_def)
  note f = kview_fields [OF x(2)]
  have "length y = length (p_fd_table (pcb_mem s p))" using x(1) y(1) f by simp
  moreover have "kview u = kview (s\<lparr>pcb_mem := (pcb_mem s)(p := (pcb_mem s p)\<lparr>p_fd_table := y\<rparr>)\<rparr>)"
    unfolding y(2) using f by (simp add: kview_def)
  ultimately show ?thesis by (auto simp: fd_frame_def)
qed

lemma fd_frame_fields:
  assumes "fd_frame p s t"
  shows "pid_array t = pid_array s" "active_pid t = active_pid s" "current_group t = current_group s"
    and "page_directory t = page_directory s" "page_table_0 t = page_table_0 s" "pt0_addr t = pt0_addr s"
    and "op_tables t = op_tables s" "tss_ss0 t = tss_ss0 s" "tss_esp0 t = tss_esp0 s"
    and "q \<noteq> p \<Longrightarrow> pcb_mem t q = pcb_mem s q"
    and "\<exists>tab. length tab = length (p_fd_table (pcb_mem s p)) \<and> pcb_mem t p = (pcb_mem s p)\<lparr>p_fd_table := tab\<rparr>"
proof -
  obtain tab where t: "length tab = length (p_fd_table (pcb_mem s p))"
      "kview t = kview (s\<lparr>pcb_mem := (pcb_mem s)(p := (pcb_mem s p)\<lparr>p_fd_table := tab\<rparr>)\<rparr>)"
    using assms by (auto simp: fd_frame_def)
  note f = kview_fields [OF t(2)]
  show "pid_array t = pid_array s" "active_pid t = active_pid s" "current_group t = current_group s"
    "page_directory t = page_directory s" "page_table_0 t = page_table_0 s" "pt0_addr t = pt0_addr s"
    "op_tables t = op_tables s" "tss_ss0 t = tss_ss0 s" "tss_esp0 t = tss_esp0 s"
    "q \<noteq> p \<Longrightarrow> pcb_mem t q = pcb_mem s q"
    "\<exists>tab. length tab = length (p_fd_table (pcb_mem s p)) \<and> pcb_mem t p = (pcb_mem s p)\<lparr>p_fd_table := tab\<rparr>"
    using f t(1) by auto
qed

lemma fd_frame_put_fd: "put_fd p fd f s = Some t \<Longrightarrow> fd_frame p s t"
  unfolding fd_frame_def
  by (rule exI [of _ "(p_fd_table (pcb_mem s p))[nat fd := f (p_fd_table (pcb_mem s p) ! nat fd)]"])
    (auto simp: put_fd_def put_pcb_def get_pcb_def arr_get_def arr_set_def bind_Some_iff split: if_splits)

lemma fd_frame_current: "fd_frame p s t \<Longrightarrow> get_current_pcb t = get_current_pcb s"
  using fd_frame_fields(1-3) [of p s t] by (simp add: get_current_pcb_def get_current_group_def)

text \<open>The operations that take the current PCB.\<close>

lemma fd_frame_file_read:
  assumes "file_read fd buf n s = Some (r, t)" "get_current_pcb s = Some p"
  shows "fd_frame p s t"
  using assms
  by (auto simp: file_read_def bind_Some_iff dest!: kview_read_data fd_frame_kview [of _ _ p] fd_frame_put_fd
      intro: fd_frame_trans split: if_splits)

lemma fd_frame_dir_read:
  assumes "dir_read fd buf n s = Some (r, t)" "get_current_pcb s = Some p"
  shows "fd_frame p s t"
  using assms
  by (auto simp: dir_read_def bind_Some_iff Let_def dest!: kview_strncpy fd_frame_kview [of _ _ p] fd_frame_put_fd
      intro: fd_frame_trans split: if_splits)

lemma fd_frame_file_close:
  assumes "file_close fd s = Some (r, t)" "get_current_pcb s = Some p"
  shows "fd_frame p s t"
  using assms
  by (auto simp: file_close_def bind_Some_iff dest!: fd_frame_put_fd split: if_splits)

lemma fd_frame_run_close:
  assumes "run_close f fd s = Some (r, t)" "get_current_pcb s = Some p"
  shows "fd_frame p s t"
  using assms fd_frame_file_close [OF _ assms(2)]
  by (cases f) (auto simp: run_close_def term_close_eq dir_close_def rtc_close_def bind_Some_iff
      dest!: fd_frame_put_fd split: if_splits)

lemma fd_frame_fill_fd:
  assumes "fill_fd table s = Some (r, t)" "get_current_pcb s = Some p"
  shows "fd_frame p s t"
  using assms by (auto simp: fill_fd_def bind_Some_iff dest!: fd_frame_put_fd split: if_splits)

lemma fd_frame_run_open:
  assumes "run_open f name s = Some (r, t)" "get_current_pcb s = Some p"
  shows "fd_frame p s t"
  using assms fd_frame_fill_fd [OF _ assms(2)]
  by (cases f) (auto simp: run_open_def term_open_def file_open_def dir_open_def bind_Some_iff
      dest!: kview_rtc_open intro: fd_frame_kview split: if_splits)

lemma case_option_Some_iff:
  "(case x of None \<Rightarrow> a | Some y \<Rightarrow> f y) = Some z \<longleftrightarrow> (x = None \<and> a = Some z) \<or> (\<exists>y. x = Some y \<and> f y = Some z)"
  by (cases x) simp_all

lemma if_Some_iff: "(if b then x else y) = Some z \<longleftrightarrow> (b \<and> x = Some z) \<or> (\<not> b \<and> y = Some z)"
  by simp

lemmas Some_iffs = bind_Some_iff case_option_Some_iff if_Some_iff

lemma fd_frame_system_open:
  assumes "system_open name s = Some (r, t)" "get_current_pcb s = Some p"
  shows "fd_frame p s t"
proof -
  have c: "fd_frame p u v \<Longrightarrow> fd_frame p s u \<Longrightarrow> fd_frame p s v" for u v
    by (rule fd_frame_trans)
  have o: "run_open f name u = Some (r', v) \<Longrightarrow> fd_frame p s u \<Longrightarrow> fd_frame p s v" for f u r' v
    using fd_frame_run_open [of f name u r' v p] fd_frame_current [of p s u] assms(2) c by simp
  show ?thesis
    using assms(1,2)
    by (auto simp: system_open_def Some_iffs dest!: fd_frame_put_fd intro: o c)
qed

lemma fd_frame_load_loop:
  assumes "load_loop fd a s = Some y" "get_current_pcb s = Some p"
  shows "fd_frame p s (snd y)"
  using assms(2)
proof (induction rule: load_loop.raw_induct [OF _ assms(1)])
  case (1 load_loop fd a s y)
  obtain n u where u: "file_read fd a 1 s = Some (n, u)"
    using 1(2) by (auto simp: bind_Some_iff)
  have fu: "fd_frame p s u" by (rule fd_frame_file_read [OF u 1(3)])
  then have cu: "get_current_pcb u = Some p" using fd_frame_current 1(3) by metis
  have "load_loop fd (a + 1) u = Some y \<Longrightarrow> fd_frame p u (snd y)"
    using 1(1) cu by blast
  then show ?case
    using 1(2) u fu by (auto intro: fd_frame_trans split: if_splits)
qed

lemma fd_frame_load_program:
  assumes "load_program ma name s = Some (r, t)" "get_current_pcb s = Some p"
  shows "fd_frame p s t"
proof -
  have cur: "get_current_pcb u = Some p" if "fd_frame p s u" for u
    using fd_frame_current [OF that] assms(2) by simp
  have o: "system_open name s = Some (fd, u) \<Longrightarrow> fd_frame p s u" for fd u
    by (rule fd_frame_system_open [OF _ assms(2)])
  have r: "file_read fd b n u = Some (k, v) \<Longrightarrow> fd_frame p s u \<Longrightarrow> fd_frame p s v" for fd b n u k v
    using fd_frame_file_read [OF _ cur] fd_frame_trans by blast
  have q: "put_fd w fd f u = Some v \<Longrightarrow> get_current_pcb u = Some w \<Longrightarrow> fd_frame p s u \<Longrightarrow> fd_frame p s v" for w fd f u v
    using fd_frame_put_fd fd_frame_trans cur by (metis option.inject)
  have l: "load_loop fd a u = Some (k, v) \<Longrightarrow> fd_frame p s u \<Longrightarrow> fd_frame p s v" for fd a u k v
    using fd_frame_load_loop [OF _ cur, of fd a u "(k, v)"] fd_frame_trans [of p s u v] by simp
  have cl: "file_close fd u = Some (k, v) \<Longrightarrow> fd_frame p s u \<Longrightarrow> fd_frame p s v" for fd u k v
    using fd_frame_file_close [OF _ cur] fd_frame_trans by blast
  show ?thesis
    using assms(1)
    by (auto simp: load_program_def Some_iffs cur) (blast dest: o r q l cl)+
qed

end
