(* ===== verification/SystemProps.thy ===== *)
theory SystemProps
  imports KernelView
begin

text \<open>
  What the system calls and the scheduler do to the processes and to the memory they reach:
  the process table stays a tree (\<open>procs_ok\<close>), the program page is that of the process that
  runs, and user mode reaches no memory but this page and the screens.
\<close>

subsection \<open>Steps that keep the process table\<close>

definition pcb_like :: "pcb \<Rightarrow> pcb \<Rightarrow> bool" where
  "pcb_like p q \<longleftrightarrow> p_pid q = p_pid p \<and> p_parent_pid q = p_parent_pid p \<and>
     length (p_fd_table q) = length (p_fd_table p) \<and> length (p_args q) = length (p_args p)"

definition procs_frame :: "'a procs_scheme \<Rightarrow> 'a procs_scheme \<Rightarrow> bool" where
  "procs_frame s t \<longleftrightarrow> pid_array t = pid_array s \<and> active_pid t = active_pid s \<and>
     current_group t = current_group s \<and> (\<forall>q. pcb_like (pcb_mem s q) (pcb_mem t q))"

lemma pcb_like_refl [simp]: "pcb_like p p"
  by (simp add: pcb_like_def)

lemma procs_frame_refl [simp]: "procs_frame s s"
  by (simp add: procs_frame_def)

lemma procs_frame_trans: "procs_frame s t \<Longrightarrow> procs_frame t u \<Longrightarrow> procs_frame s u"
  by (simp add: procs_frame_def pcb_like_def)

lemma procs_frame_kview: "kview t = kview s \<Longrightarrow> procs_frame s t"
  by (simp add: procs_frame_def kview_def)

lemma procs_frame_fd:
  assumes "fd_frame p s t" shows "procs_frame s t"
proof -
  note f = fd_frame_fields [OF assms]
  have "pcb_like (pcb_mem s q) (pcb_mem t q)" for q
    using f(10) [of q] f(11) by (cases "q = p") (auto simp: pcb_like_def)
  then show ?thesis using f by (simp add: procs_frame_def)
qed

lemma procs_frame_put_pcb:
  assumes "put_pcb p f s = Some t" "\<And>x. pcb_like x (f x)" shows "procs_frame s t"
  using assms by (auto simp: put_pcb_def procs_frame_def split: if_splits)

lemma procs_frame_view:
  assumes "procs_frame s t"
  shows "live t = live s" "running t = running s" "parent_of t i = parent_of s i"
    and "pcb_ok i (pcb_of t i) = pcb_ok i (pcb_of s i)"
  using assms
  by (simp_all add: procs_frame_def live_def running_def parent_of_def pcb_of_def pcb_ok_def pcb_like_def)

lemma procs_ok_frame:
  assumes "procs_frame s t" shows "procs_ok t = procs_ok s"
proof -
  note v = procs_frame_view [OF assms]
  have "tree_ok (live t) (parent_of t) (active_pid t) = tree_ok (live s) (parent_of s) (active_pid s)"
    using v(3) assms unfolding v(1) by (simp add: procs_frame_def fun_eq_iff tree_ok_def)
  then show ?thesis
    using assms by (simp add: procs_ok_def v procs_frame_def)
qed

subsection \<open>The memory of a process\<close>

definition prog_entry :: "int \<Rightarrow> u32" where
  "prog_entry pid = page_entry (get_prog_phys_addr pid) 1 1 1"

definition maps_program :: "'a machine_scheme \<Rightarrow> int \<Rightarrow> bool" where
  "maps_program s pid \<longleftrightarrow> page_directory s 32 = prog_entry pid"

definition screen_entry :: "u32 \<Rightarrow> bool" where
  "screen_entry e \<longleftrightarrow> e = 0 \<or> (\<exists>p\<in>set screen_bases. e = page_entry p 1 1 0)"

text \<open>User mode: the one 4 MB page of programs, and of the 4 KB pages at most \<open>VIDEO_USER\<close>.\<close>

definition user_space :: "'a machine_scheme \<Rightarrow> bool" where
  "user_space s \<longleftrightarrow> table_installed s \<and>
     (\<forall>i. i \<noteq> 0 \<longrightarrow> i \<noteq> 32 \<longrightarrow> page_directory s i AND PDE_USER_SUPERVISOR = 0) \<and>
     (\<forall>j. j \<noteq> 0xB9 \<longrightarrow> page_table_0 s j AND PDE_USER_SUPERVISOR = 0) \<and>
     screen_entry (page_table_0 s 0xB9)"

lemma user_space_cong:
  assumes "page_directory t = page_directory s" "page_table_0 t = page_table_0 s" "pt0_addr t = pt0_addr s"
  shows "user_space t = user_space s" "maps_program t pid = maps_program s pid"
  using assms by (simp_all add: user_space_def table_installed_def maps_program_def)

text \<open>The two page table updates the system calls make.\<close>

lemma map_program_tables:
  "page_directory (map_page PROG_VIRT_ADDR (get_prog_phys_addr pid) 1 1 1 s) = (page_directory s)(32 := prog_entry pid)"
  "page_table_0 (map_page PROG_VIRT_ADDR (get_prog_phys_addr pid) 1 1 1 s) = page_table_0 s"
  "pt0_addr (map_page PROG_VIRT_ADDR (get_prog_phys_addr pid) 1 1 1 s) = pt0_addr s"
  by (simp_all add: map_page_def pd_index_eq prog_entry_def)

lemma user_space_map_program:
  "user_space s \<Longrightarrow> user_space (map_page PROG_VIRT_ADDR (get_prog_phys_addr pid) 1 1 1 s)"
  "maps_program (map_page PROG_VIRT_ADDR (get_prog_phys_addr pid) 1 1 1 s) pid"
  by (simp_all add: user_space_def map_program_tables table_installed_def maps_program_def)

lemma user_space_video:
  "user_space s \<Longrightarrow> p \<in> set screen_bases \<Longrightarrow> user_space (map_page VIDEO_USER p 1 1 0 s)"
  "user_space s \<Longrightarrow> user_space (unmap_page VIDEO_USER 0 s)"
  "maps_program (map_page VIDEO_USER p 1 1 0 s) pid = maps_program s pid"
  "maps_program (unmap_page VIDEO_USER 0 s) pid = maps_program s pid"
  by (auto simp: user_space_def map_page_small_tables unmap_page_small_tables table_installed_def
      maps_program_def screen_entry_def)

lemma group_video_base:
  assumes "0 \<le> g" "g < 3" shows "group_video g s \<in> set screen_bases"
proof -
  have "g = 0 \<or> g = 1 \<or> g = 2" using assms by auto
  then show ?thesis by (auto simp: group_video_def screen_bases_def)
qed

lemma map_page_fields [simp]:
  "pid_array (map_page a p rw us sz s) = pid_array s" "active_pid (map_page a p rw us sz s) = active_pid s"
  "current_group (map_page a p rw us sz s) = current_group s" "pcb_mem (map_page a p rw us sz s) = pcb_mem s"
  "op_tables (map_page a p rw us sz s) = op_tables s" "tss_esp0 (map_page a p rw us sz s) = tss_esp0 s"
  "tss_ss0 (map_page a p rw us sz s) = tss_ss0 s" "phys (map_page a p rw us sz s) = phys s"
  "visible_group (map_page a p rw us sz s) = visible_group s"
  by (simp_all add: map_page_def Let_def)

lemma unmap_page_fields [simp]:
  "pid_array (unmap_page a sz s) = pid_array s" "active_pid (unmap_page a sz s) = active_pid s"
  "current_group (unmap_page a sz s) = current_group s" "pcb_mem (unmap_page a sz s) = pcb_mem s"
  "op_tables (unmap_page a sz s) = op_tables s" "tss_esp0 (unmap_page a sz s) = tss_esp0 s"
  "tss_ss0 (unmap_page a sz s) = tss_ss0 s" "phys (unmap_page a sz s) = phys s"
  by (simp_all add: unmap_page_def)

lemma procs_frame_pages [simp]:
  "procs_frame s (map_page a p rw us sz s)" "procs_frame s (unmap_page a sz s)"
  by (simp_all add: procs_frame_def)

text \<open>What user mode reaches: the program frame and the screen pages.\<close>

lemma prog_phys_addr_values:
  "get_prog_phys_addr 0 = 0x400000" "get_prog_phys_addr 1 = 0x800000" "get_prog_phys_addr 2 = 0xC00000"
  "get_prog_phys_addr 3 = 0x1000000" "get_prog_phys_addr 4 = 0x1400000" "get_prog_phys_addr 5 = 0x1800000"
  "get_prog_phys_addr 6 = 0x1C00000"
  by (simp_all add: get_prog_phys_addr_def)

lemma prog_frame_number:
  assumes "0 \<le> pid" "pid < 7"
  shows "drop_bit 22 (get_prog_phys_addr pid) = of_nat (nat pid + 1)"
    and "get_prog_phys_addr pid AND ALIGN_MB = get_prog_phys_addr pid"
  using pid_cases [OF assms] by (auto simp: prog_phys_addr_values)

lemma user_reach:
  assumes us: "user_space s" and m: "maps_program s pid" and v: "user_translate s v = Some a"
  shows "drop_bit 22 v = 32 \<and> a = big_frame (get_prog_phys_addr pid) v \<or>
     drop_bit 12 v = 0xB9 \<and> (\<exists>p\<in>set screen_bases. a = small_frame p v)"
proof -
  have inst: "table_installed s" using us by (simp add: user_space_def)
  have up: "user_page s v" and tr: "translate s v = Some a"
    using v by (simp_all add: user_translate_def split: if_splits)
  consider "drop_bit 22 v = 0" | "drop_bit 22 v = 32" | "drop_bit 22 v \<noteq> 0" "drop_bit 22 v \<noteq> 32" by blast
  then show ?thesis
  proof cases
    case 1
    let ?pte = "page_table_0 s (drop_bit 12 v AND PT_MASK)"
    have "?pte AND PDE_USER_SUPERVISOR \<noteq> 0"
      using v translate_low(2) [OF inst 1] by (simp split: if_splits)
    then have j: "drop_bit 12 v AND PT_MASK = 0xB9" and nz: "?pte \<noteq> 0"
      using us by (auto simp: user_space_def)
    then obtain p where p: "p \<in> set screen_bases" "?pte = page_entry p 1 1 0"
      using us by (auto simp: user_space_def screen_entry_def)
    have "drop_bit 12 v = 0xB9" using page_number_split [of v "0xB9"] 1 j by simp
    moreover have "a = small_frame p v"
      using tr translate_low(1) [OF inst 1] p(2) page_entry_small [of p 1 1]
      by (simp add: Let_def small_frame_def)
    ultimately show ?thesis using p(1) by blast
  next
    case 2
    then have "translate s v = Some (big_frame (get_prog_phys_addr pid) v)"
      using m page_entry_big [of 1 "get_prog_phys_addr pid" 1 1]
      by (simp add: translate_def Let_def maps_program_def prog_entry_def big_frame_def)
    then show ?thesis using tr 2 by simp
  next
    case 3
    then show ?thesis using up us by (simp add: user_page_def user_space_def Let_def)
  qed
qed

subsection \<open>\<open>execute\<close>\<close>

lemma arr_set_length: "arr_set xs i v = Some ys \<Longrightarrow> length ys = length xs"
  by (auto simp: arr_set_def split: if_splits)

lemma put_args_length: "put_args args i cs = Some args' \<Longrightarrow> length args' = length args"
  by (induction args i cs rule: put_args.induct) (auto simp: bind_Some_iff dest: arr_set_length)

lemma parse_args_length: "parse_args cmd k idx n args = Some (args', m) \<Longrightarrow> length args' = length args"
proof (induction cmd k idx n args rule: parse_args.induct)
  case (2 cmd k idx n args)
  obtain c where c: "cmd idx = Some c" using 2(2) by (auto simp: bind_Some_iff)
  show ?case
  proof (cases "c = 0")
    case True
    then show ?thesis using 2(2) c by (auto simp: bind_Some_iff arr_set_def split: if_splits)
  next
    case False
    obtain w i a j d where w: "copy_word cmd idx = Some (w, i)" "put_args args n w = Some a"
      "skip_spaces cmd i = Some j" "cmd j = Some d"
      using 2(2) c False by (auto simp: bind_Some_iff Let_def)
    have la: "length a = length args" by (rule put_args_length [OF w(2)])
    show ?thesis
    proof (cases "d = 0")
      case True
      then show ?thesis using 2(2) c False w la by (auto simp: Let_def arr_set_def split: if_splits)
    next
      case d: False
      obtain b where b: "arr_set a (int (n + length w)) 32 = Some b"
        using 2(2) c False w d by (auto simp: bind_Some_iff Let_def)
      have "length b = length a" by (rule arr_set_length [OF b])
      moreover have "parse_args cmd k j (n + length w + 1) b = Some (args', m)"
        using 2(2) c False w d b by (simp add: Let_def)
      then have "length args' = length b"
        by (rule 2(1) [OF c False w(1) refl w(2) refl w(3,4) d b, rotated])
      ultimately show ?thesis using la by simp
    qed
  qed
qed simp

lemma get_new_pid_cases:
  assumes "procs_ok s" "get_new_pid s = Some c"
  shows "c = FAILURE \<or> 0 \<le> c \<and> c < 7 \<and> c \<notin> live s"
proof -
  have len: "length (pid_array s) = 7" using assms(1) by (simp add: procs_ok_def)
  then have "c = first_free (\<lambda>p. p = 0) (pid_array s) 0"
    using get_new_pid_eq [of s] assms(2) by simp
  then show ?thesis
    using first_free_cases [of "\<lambda>p. p = 0" "pid_array s" 0] len by (auto simp: live_def)
qed

lemma save_args_cases:
  assumes "save_args cmd idx p s = Some t" "length (p_args (pcb_mem s p)) = 128"
  obtains args n where "length args = 128"
    "t = s\<lparr>pcb_mem := (pcb_mem s)(p := (pcb_mem s p)\<lparr>p_args := args, p_args_len := n\<rparr>)\<rparr>"
proof -
  obtain idx2 args n where pa: "parse_args cmd 3 idx2 0 (p_args (pcb_mem s p)) = Some (args, n)"
    and t: "t = s\<lparr>pcb_mem := (pcb_mem s)(p := (pcb_mem s p)\<lparr>p_args := args, p_args_len := of_nat n\<rparr>)\<rparr>"
    using assms(1) by (auto simp: save_args_def bind_Some_iff get_pcb_def put_pcb_def if_Some_iff)
  have "length args = 128" using parse_args_length [OF pa] assms(2) by simp
  then show thesis using t by (rule that)
qed

text \<open>A failed start: the table as before, the parent's page mapped again.\<close>

lemma start_child_cases:
  assumes ok: "procs_ok s" and par: "par \<in> live s" "par \<noteq> running s" "parent_of s (running s) = par"
    and st: "start_child ma rl esp ebp name (running s) (get_pcb_addr (running s)) (get_pcb_addr par) s = Some (r, t)"
  obtains (failed) "r = Exec_failed" "pid_array t = (pid_array s)[nat (running s) := 0]"
      "active_pid t = (active_pid s)[nat (current_group s) := par]"
      "current_group t = current_group s" "\<forall>q. q \<noteq> get_pcb_addr (running s) \<longrightarrow> pcb_mem t q = pcb_mem s q"
      "pcb_mem t (get_pcb_addr (running s)) = zero_pcb"
      "page_directory t = (page_directory s)(32 := prog_entry par)" "page_table_0 t = page_table_0 s"
      "pt0_addr t = pt0_addr s" "tss_esp0 t = get_kstack_addr par" "op_tables t = op_tables s"
  | (entered) eip tab where
      "r = Exec_entered \<lparr>i_eip = eip, i_cs = USER_CS, i_esp = PROG_VIRT_ADDR + PROG_PAGE_SIZE - 4, i_ss = USER_DS\<rparr>"
      "pid_array t = pid_array s" "active_pid t = active_pid s" "current_group t = current_group s"
      "\<forall>q. q \<noteq> get_pcb_addr (running s) \<longrightarrow> q \<noteq> get_pcb_addr par \<longrightarrow> pcb_mem t q = pcb_mem s q"
      "pcb_mem t (get_pcb_addr par) = (pcb_mem s (get_pcb_addr par))\<lparr>p_esp := esp, p_ebp := ebp, p_eip := rl\<rparr>"
      "length tab = 8"
      "pcb_mem t (get_pcb_addr (running s)) = (pcb_mem s (get_pcb_addr (running s)))
         \<lparr>p_fd_table := tab, p_eip := eip, p_esp := PROG_VIRT_ADDR + PROG_PAGE_SIZE - 4\<rparr>"
      "page_directory t = (page_directory s)(32 := prog_entry (running s))" "page_table_0 t = page_table_0 s"
      "pt0_addr t = pt0_addr s" "tss_esp0 t = get_kstack_addr (running s)" "op_tables t = op_tables s"
proof -
  let ?c = "running s" and ?p = "get_pcb_addr (running s)" and ?q = "get_pcb_addr par"
  let ?m = "map_page PROG_VIRT_ADDR (get_prog_phys_addr ?c) 1 1 1 s"
  have rl: "?c \<in> live s" by (rule running_live [OF ok])
  note rg = live_range [OF rl] and pg = live_range [OF par(1)]
  have nz: "?p \<noteq> 0" "?q \<noteq> 0" using get_pcb_addr_nonzero rg pg by auto
  have ne: "?q \<noteq> ?p" using get_pcb_addr_inj [of par ?c] rg pg par(2) by auto
  have pid: "p_pid (pcb_mem s ?p) = ?c" "p_pid (pcb_mem s ?q) = par"
    using ok rl par(1) by (auto simp: procs_ok_def pcb_ok_def pcb_of_def)
  have fl: "length (p_fd_table (pcb_mem s ?p)) = 8"
    using ok rl by (auto simp: procs_ok_def pcb_ok_def pcb_of_def)
  have okm: "procs_ok ?m" using ok by (subst procs_ok_frame [OF procs_frame_pages(1)])
  have runm: "running ?m = ?c" by (simp add: running_def)
  obtain eip u where ld: "load_program ma (literal name) ?m = Some (eip, u)"
    using st nz pid by (auto simp: start_child_def get_pcb_def bind_Some_iff)
  have fr: "fd_frame ?p ?m u"
    by (rule fd_frame_load_program [OF ld]) (use current_pcb_running [OF okm] runm in simp)
  note f = fd_frame_fields [OF fr]
  obtain tab where tab: "length tab = 8" "pcb_mem u ?p = (pcb_mem s ?p)\<lparr>p_fd_table := tab\<rparr>"
    using f(11) fl by auto
  have oth: "pcb_mem u q = pcb_mem s q" if "q \<noteq> ?p" for q using f(10) [OF that] by simp
  show thesis
  proof (cases "eip = word_of_int FAILURE")
    case True
    let ?u = "map_page PROG_VIRT_ADDR (get_prog_phys_addr par) 1 1 1 u"
    have td: "pcb_teardown ?u = Some t" "r = Exec_failed"
      using st nz pid ld True oth [OF ne] by (auto simp: start_child_def get_pcb_def bind_Some_iff)
    have "procs_frame ?m ?u" by (rule procs_frame_trans [OF procs_frame_fd [OF fr]]) simp
    then have oku: "procs_ok ?u" and vu: "running ?u = ?c" "parent_of ?u ?c = par"
      using okm procs_ok_frame procs_frame_view [of ?m ?u] runm par(3) by (auto simp: parent_of_def pcb_of_def)
    have "t = torn_down ?u" by (rule pcb_teardown_Some [OF oku td(1)])
    then show thesis
      using failed td(2) f vu oth nz by (simp add: torn_down_def map_program_tables)
  next
    case False
    let ?u = "u\<lparr>tss_ss0 := KERNEL_DS, tss_esp0 := get_kstack_addr ?c, pcb_mem := (pcb_mem u)
      (?p := (pcb_mem u ?p)\<lparr>p_eip := eip, p_esp := PROG_VIRT_ADDR + PROG_PAGE_SIZE - 4\<rparr>,
       ?q := (pcb_mem u ?q)\<lparr>p_esp := esp, p_ebp := ebp, p_eip := rl\<rparr>)\<rparr>"
    have t: "r = Exec_entered \<lparr>i_eip = eip, i_cs = USER_CS, i_esp = PROG_VIRT_ADDR + PROG_PAGE_SIZE - 4, i_ss = USER_DS\<rparr>"
      "t = sti ?u"
      using st nz pid ld False ne
      by (simp_all add: start_child_def get_pcb_def put_pcb_def fun_upd_twist)
    show thesis
      by (rule entered [of eip tab])
        (use ne in \<open>simp_all add: t f(1-9) tab oth sti_def map_program_tables\<close>)
  qed
qed

text \<open>The state in which the child starts: the table has the child, which runs.\<close>

lemma execute_cases:
  assumes ok: "procs_ok s" and ex: "system_execute ma rl esp ebp cmd s = Some (r, t)"
  obtains (none) "r = Exec_failed" "t = cli s"
  | (failed) c where "r = Exec_failed" "0 \<le> c" "c < 7" "c \<notin> live s" "pid_array t = pid_array s"
      "active_pid t = active_pid s" "current_group t = current_group s"
      "\<forall>q. q \<noteq> get_pcb_addr c \<longrightarrow> pcb_mem t q = pcb_mem s q"
      "page_directory t = (page_directory s)(32 := prog_entry (running s))" "page_table_0 t = page_table_0 s"
      "pt0_addr t = pt0_addr s" "tss_esp0 t = get_kstack_addr (running s)" "op_tables t = op_tables s"
  | (entered) c eip where "0 \<le> c" "c < 7" "c \<notin> live s"
      "r = Exec_entered \<lparr>i_eip = eip, i_cs = USER_CS, i_esp = PROG_VIRT_ADDR + PROG_PAGE_SIZE - 4, i_ss = USER_DS\<rparr>"
      "pid_array t = (pid_array s)[nat c := get_pcb_addr c]"
      "active_pid t = (active_pid s)[nat (current_group s) := c]" "current_group t = current_group s"
      "pcb_of t (running s) = (pcb_of s (running s))\<lparr>p_esp := esp, p_ebp := ebp, p_eip := rl\<rparr>"
      "\<forall>q. q \<noteq> get_pcb_addr c \<longrightarrow> q \<noteq> get_pcb_addr (running s) \<longrightarrow> pcb_mem t q = pcb_mem s q"
      "pcb_ok c (pcb_of t c)" "p_parent_pid (pcb_of t c) = running s"
      "page_directory t = (page_directory s)(32 := prog_entry c)" "page_table_0 t = page_table_0 s"
      "pt0_addr t = pt0_addr s" "tss_esp0 t = get_kstack_addr c" "op_tables t = op_tables s"
proof (cases cmd)
  case None
  then show ?thesis using ex none by (simp add: system_execute_def Let_def)
next
  case (Some cmd0)
  have ok': "procs_ok (cli s)" using ok by (subst procs_ok_frame [OF procs_frame_kview [of "cli s" s]]) simp_all
  have cli: "pid_array (cli s) = pid_array s" "active_pid (cli s) = active_pid s" "pcb_mem (cli s) = pcb_mem s"
    "current_group (cli s) = current_group s" "running (cli s) = running s" "live (cli s) = live s"
    "page_directory (cli s) = page_directory s" "page_table_0 (cli s) = page_table_0 s" "pt0_addr (cli s) = pt0_addr s"
    "op_tables (cli s) = op_tables s"
    by (simp_all add: cli_def running_def live_def)
  from ex Some obtain base name idx c par child u where
    w: "skip_spaces cmd0 0 = Some base" "copy_word (\<lambda>i. cmd0 (base + i)) 0 = Some (name, idx)"
    and c: "get_new_pid (cli s) = Some c" and par: "get_current_pcb (cli s) = Some par"
    and su: "pcb_setup c (cli s) = Some (child, u)"
    and rest: "(if child = 0 then Some (Exec_failed, u)
       else do { s \<leftarrow> save_args (\<lambda>i. cmd0 (base + i)) idx child u; start_child ma rl esp ebp name c child par s }) = Some (r, t)"
    by (auto simp: system_execute_def Let_def bind_Some_iff)
  have pr: "par = get_pcb_addr (running s)" using current_pcb_running [OF ok'] par cli by simp
  from get_new_pid_cases [OF ok' c] show ?thesis
  proof
    assume "c = FAILURE"
    then have "child = 0" "u = cli s" using su by (simp_all add: pcb_setup_def)
    then show ?thesis using rest none by simp
  next
    assume cc: "0 \<le> c \<and> c < 7 \<and> c \<notin> live (cli s)"
    have c7: "0 \<le> c" "c < 7" "c \<notin> live s" using cc cli by simp_all
    have pc: "get_pcb_addr c \<noteq> 0" by (rule get_pcb_addr_nonzero [OF c7(1,2)])
    let ?u = "(cli s)\<lparr>pid_array := (pid_array s)[nat c := get_pcb_addr c],
         active_pid := (active_pid s)[nat (current_group s) := c],
         pcb_mem := (pcb_mem s)(get_pcb_addr c := fresh_pcb c (running s))\<rparr>"
    have u: "child = get_pcb_addr c" "u = ?u"
      using pcb_setup_eq [OF ok' c7(1,2)] su cli by simp_all
    have "length (p_args (pcb_mem ?u (get_pcb_addr c))) = 128" by (simp add: fresh_pcb_def zero_pcb_def)
    then obtain args n where args: "length args = 128" and st: "start_child ma rl esp ebp name c (get_pcb_addr c) par
        (?u\<lparr>pcb_mem := (pcb_mem ?u)(get_pcb_addr c := (pcb_mem ?u (get_pcb_addr c))\<lparr>p_args := args, p_args_len := n\<rparr>)\<rparr>)
        = Some (r, t)"
      using rest u pc by (auto simp: bind_Some_iff elim!: save_args_cases)
    define v where v_def: "v = ?u\<lparr>pcb_mem := (pcb_mem ?u)(get_pcb_addr c := (pcb_mem ?u (get_pcb_addr c))\<lparr>p_args := args, p_args_len := n\<rparr>)\<rparr>"
    have v: "pid_array v = (pid_array s)[nat c := get_pcb_addr c]"
      "active_pid v = (active_pid s)[nat (current_group s) := c]" "current_group v = current_group s"
      "page_directory v = page_directory s" "page_table_0 v = page_table_0 s" "pt0_addr v = pt0_addr s"
      "op_tables v = op_tables s"
      "pcb_mem v = (pcb_mem s)(get_pcb_addr c := (fresh_pcb c (running s))\<lparr>p_args := args, p_args_len := n\<rparr>)"
      by (simp_all add: v_def cli)
    have ft: "procs_ok v \<and> live v = insert c (live s) \<and> running v = c \<and> parent_of v c = running s \<and>
       (\<forall>i\<in>live s. pcb_of v i = pcb_of s i)"
      by (rule procs_ok_fork [OF ok c7, of _ "(fresh_pcb c (running s))\<lparr>p_args := args, p_args_len := n\<rparr>"])
        (simp_all add: v args pcb_ok_def fresh_pcb_def zero_pcb_def)
    have rl': "running s \<in> live s" by (rule running_live [OF ok])
    have ne: "running s \<noteq> c" using rl' c7 by blast
    have nea: "get_pcb_addr (running s) \<noteq> get_pcb_addr c"
      using get_pcb_addr_inj [of "running s" c] live_range [OF rl'] c7 ne by auto
    note run = ft [THEN conjunct2, THEN conjunct2, THEN conjunct1]
    have st': "start_child ma rl esp ebp name (running v) (get_pcb_addr (running v)) (get_pcb_addr (running s)) v = Some (r, t)"
      using st pr run by (simp add: v_def)
    have pid0: "pid_array s ! nat c = 0" "nat c < length (pid_array s)"
      using c7 ok by (auto simp: live_def procs_ok_def)
    have act: "active_pid s ! nat (current_group s) = running s" "nat (current_group s) < length (active_pid s)"
      using ok by (auto simp: running_def procs_ok_def tree_ok_def)
    have okv: "procs_ok v" "running s \<in> live v" "running s \<noteq> running v" "parent_of v (running v) = running s"
      using ft rl' ne by simp_all
    note out_failed = failed and out_entered = entered
    show ?thesis
    proof (cases rule: start_child_cases [OF okv st', case_names failed entered])
      case failed
      show ?thesis
        by (rule out_failed [OF _ c7])
          (use failed in \<open>simp_all add: v run pid0 act list_update_same_conv\<close>)
    next
      case (entered eip tab)
      show ?thesis
        by (rule out_entered [OF c7, of eip])
          (use entered in \<open>simp_all add: v run nea pcb_of_def pcb_ok_def args fresh_pcb_def zero_pcb_def\<close>)
    qed
  qed
qed

lemma procs_ok_live_cong:
  assumes f: "pid_array t = pid_array s" "active_pid t = active_pid s" "current_group t = current_group s"
    and p: "\<forall>i\<in>live s. pcb_of t i = pcb_of s i" and ok: "procs_ok s"
  shows "procs_ok t" "live t = live s" "running t = running s" "\<forall>i\<in>live s. parent_of t i = parent_of s i"
proof -
  show l: "live t = live s" and "running t = running s" using f by (simp_all add: live_def running_def)
  show par: "\<forall>i\<in>live s. parent_of t i = parent_of s i" using p by (simp add: parent_of_def)
  have "tree_ok (live s) (parent_of t) (active_pid s)"
    by (rule tree_cong [of _ "parent_of s"]) (use ok par in \<open>auto simp: procs_ok_def\<close>)
  then show "procs_ok t" using ok f l p by (simp add: procs_ok_def)
qed

text \<open>The invariant of the kernel between two steps.\<close>

definition kinv :: "'a procs_scheme \<Rightarrow> bool" where
  "kinv s \<longleftrightarrow> procs_ok s \<and> user_space s \<and> (running s \<noteq> 0 \<longrightarrow> maps_program s (running s))"

lemma kinv_kview: "kview (t :: 'a procs_scheme) = kview (s :: 'a procs_scheme) \<Longrightarrow> kinv t = kinv s"
  using procs_ok_frame [OF procs_frame_kview, of t s] procs_frame_view(2) [OF procs_frame_kview, of t s]
    user_space_cong [of t s] kview_fields [of t s] by (simp add: kinv_def)

lemma kinv_frame:
  assumes "procs_frame s t" "page_directory t = page_directory s" "page_table_0 t = page_table_0 s"
    "pt0_addr t = pt0_addr s"
  shows "kinv t = kinv s"
  using procs_ok_frame [OF assms(1)] procs_frame_view(2) [OF assms(1)] user_space_cong [OF assms(2-4)]
  by (simp add: kinv_def)

lemma kinv_fd_frame: "fd_frame p s t \<Longrightarrow> kinv t = kinv s"
  by (rule kinv_frame) (simp_all add: procs_frame_fd fd_frame_fields(4-6))

text \<open>\<open>execute\<close>: after a failure the processes are those of before, all with the same PCB; after
  success there is one more, the child of the one that called, and it runs.\<close>

definition exec_failed_ok :: "'a procs_scheme \<Rightarrow> 'a procs_scheme \<Rightarrow> bool" where
  "exec_failed_ok s t \<longleftrightarrow> procs_ok t \<and> pid_array t = pid_array s \<and> active_pid t = active_pid s \<and>
     current_group t = current_group s \<and> (\<forall>i\<in>live s. pcb_of t i = pcb_of s i) \<and>
     (page_directory t = page_directory s \<or> page_directory t = (page_directory s)(32 := prog_entry (running s))) \<and>
     page_table_0 t = page_table_0 s \<and> pt0_addr t = pt0_addr s \<and> op_tables t = op_tables s"

definition exec_entered_ok :: "u32 \<Rightarrow> u32 \<Rightarrow> u32 \<Rightarrow> 'a procs_scheme \<Rightarrow> 'a procs_scheme \<Rightarrow> bool" where
  "exec_entered_ok rl esp ebp s t \<longleftrightarrow> procs_ok t \<and> running t \<notin> live s \<and> live t = insert (running t) (live s) \<and>
     parent_of t (running t) = running s \<and> tss_esp0 t = get_kstack_addr (running t) \<and>
     current_group t = current_group s \<and>
     pcb_of t (running s) = (pcb_of s (running s))\<lparr>p_esp := esp, p_ebp := ebp, p_eip := rl\<rparr> \<and>
     (\<forall>i\<in>live s. i \<noteq> running s \<longrightarrow> pcb_of t i = pcb_of s i) \<and>
     page_directory t = (page_directory s)(32 := prog_entry (running t)) \<and>
     page_table_0 t = page_table_0 s \<and> pt0_addr t = pt0_addr s \<and> op_tables t = op_tables s"

lemma pcb_addr_ne: "i \<in> live s \<Longrightarrow> 0 \<le> c \<Longrightarrow> c < 7 \<Longrightarrow> i \<noteq> c \<Longrightarrow> get_pcb_addr i \<noteq> get_pcb_addr c"
  using get_pcb_addr_inj [of i c] live_range [of i s] by auto

lemma execute_processes:
  assumes ok: "procs_ok s" and ex: "system_execute ma rl esp ebp cmd s = Some (r, t)"
  shows "r = Exec_failed \<and> exec_failed_ok s t \<or>
    (\<exists>eip. r = Exec_entered \<lparr>i_eip = eip, i_cs = USER_CS, i_esp = PROG_VIRT_ADDR + PROG_PAGE_SIZE - 4, i_ss = USER_DS\<rparr>) \<and>
    exec_entered_ok rl esp ebp s t"
proof (cases rule: execute_cases [OF ok ex, case_names none failed entered])
  case none
  have "procs_ok t" using ok by (subst procs_ok_frame [OF procs_frame_kview [of t s]]) (simp_all add: none)
  then show ?thesis using none by (simp add: exec_failed_ok_def cli_def pcb_of_def)
next
  case (failed c)
  have same: "\<forall>i\<in>live s. pcb_of t i = pcb_of s i"
    using failed(4,8) pcb_addr_ne [of _ s c] failed(2,3) by (auto simp: pcb_of_def)
  have "procs_ok t" by (rule procs_ok_live_cong [OF failed(5-7) same ok])
  then show ?thesis using failed same by (simp add: exec_failed_ok_def)
next
  case (entered c eip)
  let ?par = "get_pcb_addr (running s)"
  let ?s = "s\<lparr>pcb_mem := (pcb_mem s)(?par := (pcb_mem s ?par)\<lparr>p_esp := esp, p_ebp := ebp, p_eip := rl\<rparr>)\<rparr>"
  have fr: "procs_frame s ?s" by (simp add: procs_frame_def pcb_like_def)
  have ok': "procs_ok ?s" using ok by (subst procs_ok_frame [OF fr])
  have run: "running ?s = running s" "live ?s = live s" by (simp_all add: procs_frame_view [OF fr])
  have rl: "running s \<in> live s" by (rule running_live [OF ok])
  have ne: "?par \<noteq> get_pcb_addr c" using pcb_addr_ne [OF rl entered(1,2)] entered(3) rl by blast
  have mem: "pcb_mem t = (pcb_mem ?s)(get_pcb_addr c := pcb_of t c)"
    using entered(8,9) ne by (auto simp: fun_eq_iff pcb_of_def)
  have "procs_ok t \<and> live t = insert c (live ?s) \<and> running t = c \<and> parent_of t c = running ?s \<and>
     (\<forall>i\<in>live ?s. pcb_of t i = pcb_of ?s i)"
    by (rule procs_ok_fork [OF ok' entered(1,2), of t "pcb_of t c"])
      (use entered mem run in simp_all)
  moreover have "\<forall>i\<in>live s. i \<noteq> running s \<longrightarrow> pcb_of t i = pcb_of s i"
    using entered(9,3) pcb_addr_ne [of _ s c] pcb_addr_ne [of _ s "running s"] entered(1,2) live_range [OF rl]
    by (auto simp: pcb_of_def)
  ultimately show ?thesis using entered run by (simp add: exec_entered_ok_def)
qed

lemma user_space_directory:
  assumes "user_space s" "page_directory t = page_directory s \<or> page_directory t = (page_directory s)(32 := e)"
    "page_table_0 t = page_table_0 s" "pt0_addr t = pt0_addr s"
  shows "user_space t"
  using assms by (auto simp: user_space_def table_installed_def)

lemma kinv_execute:
  assumes inv: "kinv s" and ex: "system_execute ma rl esp ebp cmd s = Some (r, t)"
  shows "kinv t"
proof -
  have ok: "procs_ok s" using inv by (simp add: kinv_def)
  from execute_processes [OF ok ex] show ?thesis
  proof
    assume "r = Exec_failed \<and> exec_failed_ok s t"
    then have f: "exec_failed_ok s t" by simp
    have "user_space t"
      by (rule user_space_directory [of s]) (use f inv in \<open>auto simp: exec_failed_ok_def kinv_def\<close>)
    moreover have "running t = running s" using f by (simp add: exec_failed_ok_def running_def)
    ultimately show ?thesis using f inv by (auto simp: kinv_def exec_failed_ok_def maps_program_def)
  next
    assume "(\<exists>eip. r = Exec_entered \<lparr>i_eip = eip, i_cs = USER_CS, i_esp = PROG_VIRT_ADDR + PROG_PAGE_SIZE - 4, i_ss = USER_DS\<rparr>) \<and>
      exec_entered_ok rl esp ebp s t"
    then have e: "exec_entered_ok rl esp ebp s t" by blast
    have "user_space t"
      by (rule user_space_directory [of s]) (use e inv in \<open>auto simp: exec_entered_ok_def kinv_def\<close>)
    then show ?thesis using e by (simp add: kinv_def exec_entered_ok_def maps_program_def)
  qed
qed

subsection \<open>\<open>halt\<close> and the return of \<open>execute\<close>\<close>

definition parent_mapped :: "'a procs_scheme \<Rightarrow> 'a procs_scheme" where
  "parent_mapped s =
     (let par = parent_of s (running s);
          s' = map_page PROG_VIRT_ADDR (get_prog_phys_addr par) 1 1 1 s
      in if p_vid_map_called (pcb_of s par) = 0 then unmap_page VIDEO_USER 0 s' else s')"

lemma procs_frame_parent_mapped: "procs_frame s (parent_mapped s)"
  by (simp add: parent_mapped_def Let_def procs_frame_trans [OF procs_frame_pages(1) procs_frame_pages(2)])

lemma parent_mapped_tables:
  "page_directory (parent_mapped s) = (page_directory s)(32 := prog_entry (parent_of s (running s)))"
  "page_table_0 (parent_mapped s) = page_table_0 s \<or> page_table_0 (parent_mapped s) = (page_table_0 s)(0xB9 := 0)"
  "pt0_addr (parent_mapped s) = pt0_addr s" "op_tables (parent_mapped s) = op_tables s"
  "pcb_mem (parent_mapped s) = pcb_mem s" "current_group (parent_mapped s) = current_group s"
  "pid_array (parent_mapped s) = pid_array s" "active_pid (parent_mapped s) = active_pid s"
  by (auto simp: parent_mapped_def Let_def map_program_tables unmap_page_small_tables)

lemma parent_live: "procs_ok s \<Longrightarrow> running s \<noteq> 0 \<Longrightarrow> parent_of s (running s) \<in> live s"
  using running_live [of s] tree_okD(5) [of "live s" "parent_of s" "active_pid s" "running s"]
  by (simp add: procs_ok_def)

lemma execute_return_teardown:
  assumes ok: "procs_ok s" and a: "running s \<noteq> 0"
  shows "execute_return ret (get_pcb_addr (parent_of s (running s))) s =
    map_option (\<lambda>t. ((sint ret, p_esp (pcb_of s (parent_of s (running s))),
        p_ebp (pcb_of s (parent_of s (running s)))), t)) (pcb_teardown (parent_mapped s))"
proof -
  let ?par = "parent_of s (running s)"
  have pl: "?par \<in> live s" by (rule parent_live [OF ok a])
  then have "get_pcb_addr ?par \<noteq> 0" using get_pcb_addr_nonzero live_range by blast
  moreover have "p_pid (pcb_mem s (get_pcb_addr ?par)) = ?par"
    using ok pl by (simp add: procs_ok_def pcb_ok_def pcb_of_def)
  ultimately show ?thesis
    by (simp add: execute_return_def get_pcb_def parent_mapped_def Let_def pcb_of_def map_conv_bind_option o_def)
qed

text \<open>The process that runs is gone, its parent runs again with its own memory and registers.\<close>

definition returned_ok :: "'a procs_scheme \<Rightarrow> 'a procs_scheme \<Rightarrow> bool" where
  "returned_ok s t \<longleftrightarrow> procs_ok t \<and> live t = live s - {running s} \<and> running t = parent_of s (running s) \<and>
     (\<forall>i\<in>live t. pcb_of t i = pcb_of s i) \<and> current_group t = current_group s \<and>
     page_directory t = (page_directory s)(32 := prog_entry (running t)) \<and>
     (page_table_0 t = page_table_0 s \<or> page_table_0 t = (page_table_0 s)(0xB9 := 0)) \<and>
     pt0_addr t = pt0_addr s \<and> op_tables t = op_tables s \<and> tss_esp0 t = get_kstack_addr (running t)"

lemma execute_return_processes:
  assumes ok: "procs_ok s" and a: "running s \<noteq> 0"
    and ret: "execute_return ret (get_pcb_addr (parent_of s (running s))) s = Some (x, t)"
  shows "x = (sint ret, p_esp (pcb_of s (parent_of s (running s))), p_ebp (pcb_of s (parent_of s (running s))))"
    and "returned_ok s t"
proof -
  let ?m = "parent_mapped s"
  show "x = (sint ret, p_esp (pcb_of s (parent_of s (running s))), p_ebp (pcb_of s (parent_of s (running s))))"
    using ret by (auto simp: execute_return_teardown [OF ok a])
  have td: "pcb_teardown ?m = Some t" using ret by (auto simp: execute_return_teardown [OF ok a])
  note fr = procs_frame_parent_mapped [of s]
  have okm: "procs_ok ?m" using ok by (subst procs_ok_frame [OF fr])
  note v = procs_frame_view [OF fr]
  note t = pcb_teardown_Some [OF okm td]
  have "procs_ok t \<and> live t = live ?m - {running ?m} \<and> running t = parent_of ?m (running ?m) \<and>
     (\<forall>i\<in>live t. pcb_of t i = pcb_of ?m i)"
    by (rule procs_ok_exit [OF okm]) (simp_all add: t torn_down_def v a)
  moreover have "pcb_of ?m i = pcb_of s i" for i by (simp add: pcb_of_def parent_mapped_tables)
  moreover have "page_directory t = page_directory ?m" "page_table_0 t = page_table_0 ?m" "pt0_addr t = pt0_addr ?m"
    "op_tables t = op_tables ?m" "current_group t = current_group ?m" "tss_esp0 t = get_kstack_addr (parent_of ?m (running ?m))"
    by (simp_all add: t torn_down_def)
  ultimately show "returned_ok s t"
    by (simp add: returned_ok_def v parent_mapped_tables)
qed

lemma execute_return_total:
  assumes ok: "procs_ok s" and a: "running s \<noteq> 0" and ready: "tables_ready s" and fds: "fds_ok (pcb_of s (running s))"
  shows "\<exists>t. execute_return ret (get_pcb_addr (parent_of s (running s))) s =
    Some ((sint ret, p_esp (pcb_of s (parent_of s (running s))), p_ebp (pcb_of s (parent_of s (running s)))), t)"
proof -
  note fr = procs_frame_parent_mapped [of s]
  have okm: "procs_ok (parent_mapped s)" using ok by (subst procs_ok_frame [OF fr])
  have "tables_ready (parent_mapped s)" using ready by (simp add: tables_ready_def parent_mapped_tables)
  moreover have "fds_ok (pcb_of (parent_mapped s) (running (parent_mapped s)))"
    using fds by (simp add: procs_frame_view [OF fr] pcb_of_def parent_mapped_tables)
  ultimately show ?thesis
    using pcb_teardown_eq [OF okm] by (simp add: execute_return_teardown [OF ok a])
qed

lemma kinv_execute_return:
  assumes inv: "kinv s" and a: "running s \<noteq> 0"
    and ret: "execute_return ret (get_pcb_addr (parent_of s (running s))) s = Some (x, t)"
  shows "kinv t"
proof -
  have ok: "procs_ok s" using inv by (simp add: kinv_def)
  note r = execute_return_processes(2) [OF ok a ret]
  have "user_space t" using inv r
    by (auto simp: user_space_def kinv_def returned_ok_def table_installed_def screen_entry_def)
  then show ?thesis using r by (simp add: kinv_def returned_ok_def maps_program_def)
qed

lemma system_halt_eq:
  assumes ok: "procs_ok s" and a: "running s \<noteq> 0"
  shows "system_halt status s = Some \<lparr>h_eax = status, h_edx = get_pcb_addr (parent_of s (running s)),
    h_eip = p_eip (pcb_of s (parent_of s (running s))), h_esp = p_esp (pcb_of s (parent_of s (running s)))\<rparr>"
proof -
  have "get_pcb_addr (parent_of s (running s)) \<noteq> 0" "get_pcb_addr (running s) \<noteq> 0"
    using get_pcb_addr_nonzero live_range parent_live [OF ok a] running_live [OF ok] by blast+
  then show ?thesis
    using current_pcb_running [OF ok] by (simp add: system_halt_def get_pcb_def Let_def parent_of_def pcb_of_def)
qed

subsection \<open>The scheduler\<close>

definition next_group :: "int \<Rightarrow> int" where
  "next_group g = (g + 1) mod 3"

lemma next_group_cases: "0 \<le> g \<Longrightarrow> g < 3 \<Longrightarrow> next_group g = (if g + 1 \<ge> 3 then 0 else g + 1)"
proof -
  assume "0 \<le> g" "g < 3"
  then have "g = 0 \<or> g = 1 \<or> g = 2" by auto
  then show ?thesis by (auto simp: next_group_def)
qed

lemma next_group_range: "0 \<le> next_group g" "next_group g < 3"
  by (simp_all add: next_group_def)

text \<open>The saved context in the PCB of the process that goes, and the state the next one finds.\<close>

definition save_context :: "u32 \<Rightarrow> u32 \<Rightarrow> u32 \<Rightarrow> pcb \<Rightarrow> pcb" where
  "save_context esp0 esp ebp pcb = pcb\<lparr>p_tss_esp0 := esp0, p_kernel_esp := esp, p_kernel_ebp := ebp\<rparr>"

definition kernel_top :: "u32 \<Rightarrow> u32 \<Rightarrow> u32" where
  "kernel_top proc_push_top pushed_cs =
     (if pushed_cs AND 3 = 3 then proc_push_top + 20 else proc_push_top + 12)"

definition scheduled :: "u32 \<Rightarrow> u32 \<Rightarrow> u32 \<Rightarrow> u32 \<Rightarrow> 'a procs_scheme \<Rightarrow> 'a procs_scheme \<Rightarrow> bool" where
  "scheduled ptop cs esp ebp s t \<longleftrightarrow>
     pid_array t = pid_array s \<and> active_pid t = active_pid s \<and> current_group t = next_group (current_group s) \<and>
     pcb_mem t = (pcb_mem s)(get_pcb_addr (running s) := save_context (kernel_top ptop cs) esp ebp (pcb_of s (running s))) \<and>
     page_directory t = (page_directory s)(32 := prog_entry (running t)) \<and>
     page_table_0 t = (page_table_0 s)(0xB9 := (if p_vid_map_called (pcb_of t (running t)) \<noteq> 0
        then page_entry (group_video (current_group t) s) 1 1 0 else 0)) \<and>
     pt0_addr t = pt0_addr s \<and> op_tables t = op_tables s \<and> tss_esp0 t = p_tss_esp0 (pcb_of t (running t))"

lemma active_live: "procs_ok s \<Longrightarrow> 0 \<le> g \<Longrightarrow> g < 3 \<Longrightarrow> active_pid s ! nat g \<in> live s"
  by (auto simp: procs_ok_def tree_ok_def)

lemma schedule_next_eq:
  assumes ok: "procs_ok s"
  shows "\<exists>t. schedule_next ptop cs esp ebp s =
      Some ((p_kernel_esp (pcb_of t (running t)), p_kernel_ebp (pcb_of t (running t))), t) \<and>
    scheduled ptop cs esp ebp s t"
proof -
  let ?g = "current_group s" and ?h = "next_group (current_group s)"
  let ?old = "get_pcb_addr (running s)" and ?new = "active_pid s ! nat (next_group (current_group s))"
  have len: "length (active_pid s) = 3" "0 \<le> ?g" "?g < 3" using ok by (simp_all add: procs_ok_def tree_ok_def)
  have h: "?h = (if ?g + 1 \<ge> 3 then 0 else ?g + 1)" using len(2,3) by (rule next_group_cases)
  have nl: "?new \<in> live s" by (rule active_live [OF ok next_group_range])
  have nz: "?old \<noteq> 0" "get_pcb_addr ?new \<noteq> 0"
    using get_pcb_addr_nonzero live_range nl running_live [OF ok] by blast+
  have ag: "arr_get (active_pid s) ?g = Some (running s)" "arr_get (active_pid s) ?h = Some ?new"
    using len next_group_range [of ?g] by (simp_all add: arr_get_def running_def)
  define x where "x = send_eoi 0 (cli s)"
  have x: "kview x = kview s" by (simp add: x_def)
  note xf = kview_fields [OF x]
  have vx: "visible_group x = visible_group s" by (simp add: x_def send_eoi_def cpu_defs)
  define m where "m = (pcb_mem s)(?old := save_context (kernel_top ptop cs) esp ebp (pcb_of s (running s)))"
  define y where "y = x\<lparr>current_group := ?h, pcb_mem := m\<rparr>"
  define v where "v = (if p_vid_map_called (m (get_pcb_addr ?new)) \<noteq> 0
     then map_page VIDEO_USER (group_video ?h y) 1 1 0 y else unmap_page VIDEO_USER 0 y)"
  define t where "t = sti ((map_page PROG_VIRT_ADDR (get_prog_phys_addr ?new) 1 1 1 v)
     \<lparr>tss_ss0 := KERNEL_DS, tss_esp0 := p_tss_esp0 (m (get_pcb_addr ?new))\<rparr>)"
  have pid: "p_pid (m (get_pcb_addr ?new)) = ?new"
    using ok nl by (auto simp: m_def save_context_def pcb_of_def procs_ok_def pcb_ok_def)
  have upd: "put_pcb ?old (\<lambda>pcb. pcb\<lparr>p_tss_esp0 := kernel_top ptop cs\<rparr>) (x\<lparr>current_group := ?h\<rparr>) \<bind>
      put_pcb ?old (\<lambda>pcb. pcb\<lparr>p_kernel_esp := esp, p_kernel_ebp := ebp\<rparr>) = Some y"
    using nz(1) by (simp add: put_pcb_def y_def m_def save_context_def pcb_of_def xf)
  have yf: "pcb_mem y = m" "current_group y = ?h" "active_pid y = active_pid s" by (simp_all add: y_def xf)
  have "schedule_next ptop cs esp ebp s = do {
      s \<leftarrow> put_pcb ?old (\<lambda>pcb. pcb\<lparr>p_tss_esp0 := kernel_top ptop cs\<rparr>) (x\<lparr>current_group := ?h\<rparr>) \<bind>
        put_pcb ?old (\<lambda>pcb. pcb\<lparr>p_kernel_esp := esp, p_kernel_ebp := ebp\<rparr>);
      pcb \<leftarrow> get_pcb (get_pcb_addr ?new) s;
      let s = (if p_vid_map_called pcb \<noteq> 0
               then map_page VIDEO_USER (group_video (current_group s) s) 1 1 0 s
               else unmap_page VIDEO_USER 0 s);
      let s = map_page PROG_VIRT_ADDR (get_prog_phys_addr (p_pid pcb)) 1 1 1 s;
      let s = s\<lparr>tss_ss0 := KERNEL_DS, tss_esp0 := p_tss_esp0 pcb\<rparr>;
      Some ((p_kernel_esp pcb, p_kernel_ebp pcb), sti s) }"
    unfolding schedule_next_def x_def [symmetric]
    using ag nz h by (cases "2 \<le> ?g") (simp_all add: Let_def xf kernel_top_def)
  also have "\<dots> = Some ((p_kernel_esp (m (get_pcb_addr ?new)), p_kernel_ebp (m (get_pcb_addr ?new))), t)"
    unfolding upd using nz(2) pid yf by (simp add: get_pcb_def t_def v_def Let_def)
  finally have eq: "schedule_next ptop cs esp ebp s =
      Some ((p_kernel_esp (m (get_pcb_addr ?new)), p_kernel_ebp (m (get_pcb_addr ?new))), t)" .
  have tf: "pcb_mem t = m" "current_group t = ?h" "active_pid t = active_pid s" "pid_array t = pid_array s"
    "op_tables t = op_tables s" "pt0_addr t = pt0_addr s" "tss_esp0 t = p_tss_esp0 (m (get_pcb_addr ?new))"
    by (simp_all add: t_def v_def y_def sti_def xf)
      (simp_all add: map_page_def unmap_page_def Let_def xf)
  have run: "running t = ?new" by (simp add: running_def tf)
  have "scheduled ptop cs esp ebp s t"
    unfolding scheduled_def run
  proof (intro conjI)
    show "page_directory t = (page_directory s)(32 := prog_entry ?new)"
      by (simp add: t_def v_def y_def sti_def map_program_tables map_page_small_tables unmap_page_small_tables xf)
    show "page_table_0 t = (page_table_0 s)(0xB9 := (if p_vid_map_called (pcb_of t ?new) \<noteq> 0
        then page_entry (group_video (current_group t) s) 1 1 0 else 0))"
      by (simp add: t_def v_def y_def sti_def map_program_tables map_page_small_tables unmap_page_small_tables xf
          pcb_of_def group_video_def vx)
  qed (simp_all add: tf m_def pcb_of_def)
  then show ?thesis using eq run tf by (auto simp: pcb_of_def)
qed

lemma procs_ok_group:
  "procs_ok s \<Longrightarrow> 0 \<le> g \<Longrightarrow> g < 3 \<Longrightarrow> procs_ok (s\<lparr>current_group := g\<rparr>)"
proof -
  assume a: "procs_ok s" "0 \<le> g" "g < 3"
  have "live (s\<lparr>current_group := g\<rparr>) = live s" "parent_of (s\<lparr>current_group := g\<rparr>) = parent_of s"
    "pcb_of (s\<lparr>current_group := g\<rparr>) = pcb_of s"
    by (simp_all add: live_def parent_of_def pcb_of_def fun_eq_iff)
  then show "procs_ok (s\<lparr>current_group := g\<rparr>)" using a by (simp add: procs_ok_def)
qed

lemma scheduled_frame:
  assumes "scheduled ptop cs esp ebp s t"
  shows "procs_frame (s\<lparr>current_group := next_group (current_group s)\<rparr>) t"
  using assms by (simp add: scheduled_def procs_frame_def pcb_like_def save_context_def pcb_of_def)

lemma kinv_scheduled:
  assumes inv: "kinv s" and sc: "scheduled ptop cs esp ebp s t"
  shows "kinv t"
proof -
  have ok: "procs_ok s" using inv by (simp add: kinv_def)
  have "procs_ok (s\<lparr>current_group := next_group (current_group s)\<rparr>)"
    by (rule procs_ok_group [OF ok next_group_range])
  then have okt: "procs_ok t" by (subst procs_ok_frame [OF scheduled_frame [OF sc]])
  have "0 \<le> current_group t" "current_group t < 3" using sc by (simp_all add: scheduled_def next_group_range)
  then have "group_video (current_group t) s \<in> set screen_bases" by (rule group_video_base)
  then have "screen_entry (page_table_0 t 0xB9)"
    using sc by (auto simp: scheduled_def screen_entry_def)
  then have "user_space t"
    using sc inv by (auto simp: scheduled_def user_space_def kinv_def table_installed_def)
  then show ?thesis using okt sc by (simp add: kinv_def scheduled_def maps_program_def)
qed

lemma schedule_next_Some:
  assumes "procs_ok s" "schedule_next ptop cs esp ebp s = Some (r, t)"
  shows "scheduled ptop cs esp ebp s t" "r = (p_kernel_esp (pcb_of t (running t)), p_kernel_ebp (pcb_of t (running t)))"
  using schedule_next_eq [OF assms(1), of ptop cs esp ebp] assms(2) by auto

lemma kinv_schedule_next: "kinv s \<Longrightarrow> schedule_next ptop cs esp ebp s = Some (r, t) \<Longrightarrow> kinv t"
  using schedule_next_Some(1) [of s ptop cs esp ebp r t] kinv_scheduled [of s ptop cs esp ebp t] by (simp add: kinv_def)

lemma next_group_3: "0 \<le> g \<Longrightarrow> g < 3 \<Longrightarrow> next_group (next_group (next_group g)) = g"
  by (simp add: next_group_def mod_simps)

text \<open>Round robin: with three different processes, the third tick comes back to the first one, with
  the registers and the stack top it was saved with.\<close>

lemma schedule_round:
  assumes ok: "procs_ok s" and d: "distinct (active_pid s)"
    and s1: "schedule_next p1 c1 esp1 ebp1 s = Some (r1, t1)"
    and s2: "schedule_next p2 c2 esp2 ebp2 t1 = Some (r2, t2)"
    and s3: "schedule_next p3 c3 esp3 ebp3 t2 = Some (r3, t3)"
  shows "r3 = (esp1, ebp1)" "running t3 = running s" "tss_esp0 t3 = kernel_top p1 c1"
    and "current_group t3 = current_group s" "maps_program t3 (running s)"
proof -
  have g: "0 \<le> current_group s" "current_group s < 3" "length (active_pid s) = 3"
    using ok by (simp_all add: procs_ok_def tree_ok_def)
  have e1: "scheduled p1 c1 esp1 ebp1 s t1" by (rule schedule_next_Some(1) [OF ok s1])
  have ok1: "procs_ok t1"
    using procs_ok_group [OF ok next_group_range] by (subst procs_ok_frame [OF scheduled_frame [OF e1]])
  have e2: "scheduled p2 c2 esp2 ebp2 t1 t2" by (rule schedule_next_Some(1) [OF ok1 s2])
  have ok2: "procs_ok t2"
    using procs_ok_group [OF ok1 next_group_range] by (subst procs_ok_frame [OF scheduled_frame [OF e2]])
  have e3: "r3 = (p_kernel_esp (pcb_of t3 (running t3)), p_kernel_ebp (pcb_of t3 (running t3)))"
    "scheduled p3 c3 esp3 ebp3 t2 t3" by (rule schedule_next_Some [OF ok2 s3])+
  show grp: "current_group t3 = current_group s"
    using e1 e2 e3 next_group_3 [OF g(1,2)] by (simp add: scheduled_def)
  have act: "active_pid t1 = active_pid s" "active_pid t2 = active_pid s" "active_pid t3 = active_pid s"
    using e1 e2 e3 by (simp_all add: scheduled_def)
  show run: "running t3 = running s" by (simp add: running_def grp act)
  show "maps_program t3 (running s)" using e3(2) run by (simp add: scheduled_def maps_program_def)
  have other: "running u \<noteq> running s" if "current_group u \<noteq> current_group s" "0 \<le> current_group u"
      "current_group u < 3" "active_pid u = active_pid s" for u :: "'a procs_scheme"
    using that g d eq_nat_nat_iff by (simp add: running_def nth_eq_iff_index_eq)
  have ne: "next_group (current_group s) \<noteq> current_group s"
    "next_group (next_group (current_group s)) \<noteq> current_group s"
    using g by (auto simp: next_group_cases next_group_range)
  have r1: "running t1 \<noteq> running s" "running t1 \<in> live t1"
    using other [of t1] e1 ne next_group_range running_live [OF ok1] by (simp_all add: scheduled_def)
  have r2: "running t2 \<noteq> running s" "running t2 \<in> live t2"
    using other [of t2] e1 e2 ne next_group_range running_live [OF ok2] by (simp_all add: scheduled_def)
  have rs: "0 \<le> running s" "running s < 7" using live_range running_live [OF ok] by blast+
  have "pcb_of t3 (running s) = save_context (kernel_top p1 c1) esp1 ebp1 (pcb_of s (running s))"
    using e1 e2 e3(2) pcb_addr_ne [OF r1(2) rs r1(1)] pcb_addr_ne [OF r2(2) rs r2(1)]
    by (simp add: scheduled_def pcb_of_def)
  then show "r3 = (esp1, ebp1)" "tss_esp0 t3 = kernel_top p1 c1"
    using e3 run by (simp_all add: scheduled_def save_context_def)
qed

subsection \<open>The remaining system calls\<close>

lemma kview_copy_args: "copy_args buf i k s = Some t \<Longrightarrow> kview t = kview s"
  by (induction buf i k s rule: copy_args.induct) (auto simp: bind_Some_iff dest: kview_store8)

lemma kinv_getargs: "system_getargs buf n s = Some (r, t) \<Longrightarrow> kinv t = kinv s"
  by (rule kinv_kview) (auto simp: system_getargs_def Some_iffs dest: kview_copy_args)

lemma kinv_vidmap:
  assumes inv: "kinv s" and v: "system_vidmap a s = Some (r, t)"
  shows "kinv t"
proof (cases "validate_user_ptr a = FAILURE")
  case True
  then show ?thesis using v inv by (simp add: system_vidmap_def Let_def)
next
  case False
  have ok: "procs_ok s" using inv by (simp add: kinv_def)
  then have g: "0 \<le> current_group s" "current_group s < 3" by (simp_all add: procs_ok_def)
  obtain p u where p: "put_pcb p (\<lambda>pcb. pcb\<lparr>p_vid_map_called := 1\<rparr>) s = Some u"
    "store_bytes a (dword_bytes VIDEO_USER) (map_page VIDEO_USER (group_video (current_group s) u) 1 1 0 u) = Some t"
    using v False by (auto simp: system_vidmap_def Let_def bind_Some_iff get_current_group_def)
  have fu: "procs_frame s u" by (rule procs_frame_put_pcb [OF p(1)]) (simp add: pcb_like_def)
  have tu: "page_directory u = page_directory s" "page_table_0 u = page_table_0 s" "pt0_addr u = pt0_addr s"
    using p(1) by (auto simp: put_pcb_def split: if_splits)
  let ?m = "map_page VIDEO_USER (group_video (current_group s) u) 1 1 0 u"
  have iu: "kinv u" using inv kinv_frame [OF fu tu] by simp
  have "user_space ?m"
    by (rule user_space_video(1)) (use iu group_video_base [OF g] in \<open>simp_all add: kinv_def\<close>)
  moreover have "running ?m = running u" by (simp add: running_def)
  moreover have "procs_ok ?m" using iu by (subst procs_ok_frame [OF procs_frame_pages(1)]) (simp add: kinv_def)
  ultimately have "kinv ?m"
    using iu group_video_base [OF g, of u] user_space_video(3) [of "group_video (current_group s) u" u "running u"]
    by (simp add: kinv_def)
  then show ?thesis using kinv_kview [OF kview_store_bytes [OF p(2)]] by simp
qed

end
