(* ===== verification/Idt.thy ===== *)
theory Idt
  imports Scheduler
begin

text \<open>
  The interrupt descriptor table, the stubs and their linkage, and the dispatch of exceptions,
  interrupts and system calls (idt.c and the assembler part of system.c). The stubs are run on
  a stack of words with the value of ESP; the address of a stub, as linked, is the argument
  \<open>stub_addr\<close>.
\<close>

subsection \<open>The table\<close>

datatype stub = Exc_stub nat | Irq_stub nat | System_call_handler

record idt_entry =
  offset_15_00 :: u16
  seg_selector :: u16
  reserved4 :: u8
  reserved3 :: u8
  reserved2 :: u8
  reserved1 :: u8
  gate_size :: u8
  reserved0 :: u8
  dpl :: u8
  present :: u8
  offset_31_16 :: u16

definition SET_IDT_ENTRY :: "u32 \<Rightarrow> idt_entry \<Rightarrow> idt_entry" where
  "SET_IDT_ENTRY handler e =
     e\<lparr>offset_31_16 := ucast (drop_bit 16 (handler AND 0xFFFF0000)),
       offset_15_00 := ucast (handler AND 0xFFFF)\<rparr>"

definition SET_IDT_INTERUPT_GATE :: "u8 \<Rightarrow> u8 \<Rightarrow> u8 \<Rightarrow> idt_entry \<Rightarrow> idt_entry" where
  "SET_IDT_INTERUPT_GATE d priv_level p e =
     e\<lparr>reserved4 := 0, reserved3 := 0, reserved2 := 1, reserved1 := 1, gate_size := d,
       reserved0 := 0, dpl := priv_level, present := p, seg_selector := 0x10\<rparr>"

definition SET_IDT_TRAP_GATE :: "u8 \<Rightarrow> u8 \<Rightarrow> u8 \<Rightarrow> idt_entry \<Rightarrow> idt_entry" where
  "SET_IDT_TRAP_GATE d priv_level p e =
     e\<lparr>reserved4 := 0, reserved3 := 1, reserved2 := 1, reserved1 := 1, gate_size := d,
       reserved0 := 0, dpl := priv_level, present := p, seg_selector := 0x10\<rparr>"

fun set_idt_from :: "(stub \<Rightarrow> u32) \<Rightarrow> nat \<Rightarrow> nat \<Rightarrow> idt_entry list \<Rightarrow> idt_entry list" where
  "set_idt_from stub_addr i 0 idt = idt"
| "set_idt_from stub_addr i (Suc k) idt =
     set_idt_from stub_addr (Suc i) k
       (if i \<le> 0x13 then
          idt[i := SET_IDT_INTERUPT_GATE 1 0 1 (SET_IDT_ENTRY (stub_addr (Exc_stub i)) (idt ! i))]
        else if i \<ge> 0x20 \<and> i \<le> 0x2F then
          idt[i := SET_IDT_INTERUPT_GATE 1 0 1 (SET_IDT_ENTRY (stub_addr (Irq_stub (i - 0x20))) (idt ! i))]
        else if i = 0x80 then
          idt[i := SET_IDT_TRAP_GATE 1 3 1 (SET_IDT_ENTRY (stub_addr System_call_handler) (idt ! i))]
        else idt)"

definition set_all_idt :: "(stub \<Rightarrow> u32) \<Rightarrow> idt_entry list \<Rightarrow> idt_entry list" where
  "set_all_idt stub_addr idt = set_idt_from stub_addr 0 256 idt"

subsection \<open>Stubs and linkage\<close>

text \<open>The stack: the value of ESP and the words from there on.\<close>

type_synonym stack = "u32 \<times> u32 list"

record regs =
  r_edi :: u32
  r_esi :: u32
  r_ebp :: u32
  r_ebx :: u32
  r_edx :: u32
  r_ecx :: u32
  r_eax :: u32

fun push :: "u32 \<Rightarrow> stack \<Rightarrow> stack" where
  "push w (esp, ws) = (esp - 4, w # ws)"

fun pop :: "stack \<Rightarrow> u32 \<times> stack" where
  "pop (esp, ws) = (hd ws, (esp + 4, tl ws))"

text \<open>\<open>pushl off(%esp)\<close>, \<open>addl n, %esp\<close>, \<open>pushal\<close> and \<open>popal\<close>.\<close>

fun push_at :: "nat \<Rightarrow> stack \<Rightarrow> stack" where
  "push_at off (esp, ws) = push (ws ! (off div 4)) (esp, ws)"

fun drop_words :: "nat \<Rightarrow> stack \<Rightarrow> stack" where
  "drop_words n (esp, ws) = (esp + 4 * of_nat n, drop n ws)"

definition pushal :: "regs \<Rightarrow> stack \<Rightarrow> stack" where
  "pushal r st =
     push (r_edi r) (push (r_esi r) (push (r_ebp r) (push (fst st)
       (push (r_ebx r) (push (r_edx r) (push (r_ecx r) (push (r_eax r) st)))))))"

fun popal :: "stack \<Rightarrow> regs \<times> stack" where
  "popal (esp, ws) =
     (\<lparr>r_edi = ws ! 0, r_esi = ws ! 1, r_ebp = ws ! 2, r_ebx = ws ! 4, r_edx = ws ! 5,
       r_ecx = ws ! 6, r_eax = ws ! 7\<rparr>, (esp + 32, drop 8 ws))"

text \<open>\<open>common_interrupt\<close> up to the call of \<open>do_irq\<close>: \<open>pushl $n\<close> of the stub, the address
  above the IRQ number, all registers, then the three arguments.\<close>

definition common_interrupt_enter :: "u32 \<Rightarrow> regs \<Rightarrow> stack \<Rightarrow> stack" where
  "common_interrupt_enter irq r st =
     (let st = push irq st;
          st = (case push (fst st) st of (esp, ws) \<Rightarrow> (esp, (hd ws + 4) # tl ws));
          st = pushal r st
      in push_at 44 (push_at 36 (push_at 44 st)))"

text \<open>From the return of \<open>do_irq\<close> to the IRET frame: the arguments, the registers, the two
  words of the stub.\<close>

definition common_interrupt_leave :: "stack \<Rightarrow> regs \<times> stack" where
  "common_interrupt_leave st =
     (let (r, st) = popal (drop_words 3 st) in (r, drop_words 2 st))"

definition common_exc_enter :: "u32 \<Rightarrow> regs \<Rightarrow> stack \<Rightarrow> stack" where
  "common_exc_enter exc r st = push_at 32 (pushal r (push exc st))"

definition common_exc_leave :: "stack \<Rightarrow> regs \<times> stack" where
  "common_exc_leave st = (let (r, st) = popal (drop_words 1 st) in (r, drop_words 1 st))"

text \<open>\<open>iret_and_save_tss_esp\<close>: ESP0 becomes the stack top behind the IRET frame, which is five
  words for a return to user mode and three otherwise. The registers it uses are restored.\<close>

definition iret_and_save_tss_esp :: "stack \<Rightarrow> 'a procs_scheme \<Rightarrow> 'a procs_scheme" where
  "iret_and_save_tss_esp st s =
     s\<lparr>tss_esp0 := (if (snd st ! 1) AND 3 = 0 then fst st + 12 else fst st + 20)\<rparr>"

text \<open>\<open>system_call_handler\<close>: seven pushes, then the call, whose arguments are EBX, ECX, EDX;
  on the way back \<open>popl %esp\<close> reloads the ESP pushed before.\<close>

definition system_call_enter :: "regs \<Rightarrow> stack \<Rightarrow> stack" where
  "system_call_enter r st =
     (let st = push (r_ebp r) (push (r_esi r) (push (r_edi r) st));
          st = push (fst st) st
      in push (r_ebx r) (push (r_ecx r) (push (r_edx r) st)))"

definition system_call_leave :: "u32 \<Rightarrow> stack \<Rightarrow> regs \<times> stack" where
  "system_call_leave eax st =
     (let (ebx, st) = pop st; (ecx, st) = pop st; (edx, st) = pop st;
          (esp, st) = pop st; st = (esp, snd st);
          (ebp, st) = pop st; (esi, st) = pop st; (edi, st) = pop st
      in (\<lparr>r_edi = edi, r_esi = esi, r_ebp = ebp, r_ebx = ebx, r_edx = edx, r_ecx = ecx, r_eax = eax\<rparr>, st))"

subsection \<open>Dispatch\<close>

definition exception_codes :: "string list" where
  "exception_codes =
    [''Division Error'', ''Debug Exception'', ''NMI Interrupt'', ''Breakpoint Exception'',
     ''Overflow Exception'', ''Bound Range Exceeded Expectation'', ''Invalid Opcode Execution'',
     ''Device Not Available Exception'', ''Double Fault Exception'', ''Coprocessor Segment Overrun'',
     ''TSS Exception'', ''Segment Not Present'', ''Stack Fault Exception'',
     ''General Protection Exception'', ''Page Fault Exception'', ''Assertion Exception'',
     ''FPU Floating Point Error'', ''Alignment Check Exception'', ''Machine Check Exception'',
     ''SIMD Floating Point Exception'']"

definition str :: "string \<Rightarrow> u8 list" where
  "str xs = map of_char xs"

definition do_exc :: "nat \<Rightarrow> 'a keyboard_scheme \<Rightarrow> (halt_result \<times> 'a keyboard_scheme) option" where
  "do_exc exc_number s = do {
     name \<leftarrow> arr_get exception_codes (int exc_number);
     (_, s) \<leftarrow> printf (str ''EXCEPTION %d: %s'' @ [10]) [ArgWord (of_nat exc_number), ArgStr (str name)] s;
     let s = sti s;
     h \<leftarrow> system_halt 256 s;
     Some (h, s)
   }"

text \<open>What an interrupt leaves the processor to do: return, or go on with another stack.\<close>

datatype irq_result = Irq_return | Irq_switch u32 u32

definition do_irq :: "nat \<Rightarrow> u32 \<Rightarrow> u32 \<Rightarrow> u32 \<Rightarrow> u32 \<Rightarrow> 'a keyboard_scheme
    \<Rightarrow> (irq_result \<times> 'a keyboard_scheme) option" where
  "do_irq irq_number proc_push_top pushed_cs esp ebp s =
     (if irq_number = 1 then map_option (\<lambda>s. (Irq_return, s)) (keyboard_handler s)
      else if irq_number = 8 then map_option (\<lambda>s. (Irq_return, s)) (rtc_wrapper s)
      else if irq_number = 0 then
        map_option (\<lambda>((esp, ebp), s). (Irq_switch esp ebp, s)) (schedule_next proc_push_top pushed_cs esp ebp s)
      else Some (Irq_return, s))"

text \<open>The system call dispatcher: EAX selects the function, EBX, ECX and EDX are its arguments.
  A number outside 1 to 8 runs \<open>leave; ret\<close> with the EBP of the caller: the return address
  is then a word of the user's stack, which is \<open>Sys_leave\<close> here.\<close>

datatype sys_result =
    Sys_return int
  | Sys_exec exec_result
  | Sys_halt halt_result
  | Sys_leave

definition do_system_call :: "('a keyboard_scheme \<Rightarrow> 'a keyboard_scheme option) \<Rightarrow> u32 \<Rightarrow> u32 \<Rightarrow> u32 \<Rightarrow> u32
    \<Rightarrow> u32 \<Rightarrow> u32 \<Rightarrow> u32 \<Rightarrow> u32 \<Rightarrow> 'a keyboard_scheme \<Rightarrow> (sys_result \<times> 'a keyboard_scheme) option" where
  "do_system_call idle magic_addr ret_label esp ebp eax ebx ecx edx s =
     (let ret = map_option (\<lambda>(r, s). (Sys_return r, s))
      in if eax > 8 \<or> eax = 0 then Some (Sys_leave, s)
         else if eax = 1 then map_option (\<lambda>h. (Sys_halt h, s)) (system_halt ebx s)
         else if eax = 2 then
           map_option (\<lambda>(r, s). (Sys_exec r, s))
             (system_execute magic_addr ret_label esp ebp (if ebx = 0 then None else Some (mem_at s ebx)) s)
         else if eax = 3 then ret (system_read idle (sint ebx) ecx (sint edx) s)
         else if eax = 4 then ret (system_write (sint ebx) ecx (sint edx) s)
         else if eax = 5 then ret (system_open (mem_at s ebx) s)
         else if eax = 6 then ret (system_close (sint ebx) s)
         else if eax = 7 then ret (system_getargs ebx (sint ecx) s)
         else ret (system_vidmap ebx s))"

subsection \<open>The linkage passes the arguments and restores the registers\<close>

lemma common_interrupt_args:
  "\<exists>rest. common_interrupt_enter irq r (esp, eip # cs # ws) = (esp - 52, irq # esp # cs # rest)"
  by (simp add: common_interrupt_enter_def pushal_def Let_def)

lemma common_interrupt_restores:
  "common_interrupt_leave (common_interrupt_enter irq r (esp, eip # cs # ws)) = (r, (esp, eip # cs # ws))"
  by (cases r) (simp add: common_interrupt_enter_def common_interrupt_leave_def pushal_def Let_def)

lemma common_exc_args:
  "\<exists>rest. common_exc_enter exc r (esp, ws) = (esp - 40, exc # rest)"
  by (simp add: common_exc_enter_def pushal_def)

lemma common_exc_restores:
  "common_exc_leave (common_exc_enter exc r (esp, ws)) = (r, (esp, ws))"
  by (cases r) (simp add: common_exc_enter_def common_exc_leave_def pushal_def)

lemma system_call_args:
  "\<exists>rest. system_call_enter r (esp, ws) = (esp - 28, r_ebx r # r_ecx r # r_edx r # rest)"
  by (simp add: system_call_enter_def Let_def)

lemma system_call_restores:
  "system_call_leave eax (system_call_enter r (esp, ws)) = (r\<lparr>r_eax := eax\<rparr>, (esp, ws))"
  by (cases r) (simp add: system_call_enter_def system_call_leave_def Let_def)

subsection \<open>The gates\<close>

definition idt_gate :: "(stub \<Rightarrow> u32) \<Rightarrow> nat \<Rightarrow> idt_entry \<Rightarrow> idt_entry" where
  "idt_gate stub_addr i e =
     (if i \<le> 0x13 then SET_IDT_INTERUPT_GATE 1 0 1 (SET_IDT_ENTRY (stub_addr (Exc_stub i)) e)
      else if i \<ge> 0x20 \<and> i \<le> 0x2F then
        SET_IDT_INTERUPT_GATE 1 0 1 (SET_IDT_ENTRY (stub_addr (Irq_stub (i - 0x20))) e)
      else if i = 0x80 then SET_IDT_TRAP_GATE 1 3 1 (SET_IDT_ENTRY (stub_addr System_call_handler) e)
      else e)"

lemma set_idt_from_nth:
  "i + k \<le> length idt \<Longrightarrow> length (set_idt_from f i k idt) = length idt \<and>
     (\<forall>j<length idt. set_idt_from f i k idt ! j =
        (if i \<le> j \<and> j < i + k then idt_gate f j (idt ! j) else idt ! j))"
proof (induction k arbitrary: i idt)
  case (Suc k)
  have step: "set_idt_from f i (Suc k) idt = set_idt_from f (Suc i) k (idt[i := idt_gate f i (idt ! i)])"
    by (simp add: idt_gate_def)
  have "length (set_idt_from f (Suc i) k (idt[i := idt_gate f i (idt ! i)])) = length idt \<and>
     (\<forall>j<length idt. set_idt_from f (Suc i) k (idt[i := idt_gate f i (idt ! i)]) ! j =
        (if Suc i \<le> j \<and> j < Suc i + k then idt_gate f j (idt[i := idt_gate f i (idt ! i)] ! j)
         else idt[i := idt_gate f i (idt ! i)] ! j))"
    using Suc.IH [of "Suc i" "idt[i := idt_gate f i (idt ! i)]"] Suc.prems by simp
  then show ?case
    unfolding step using Suc.prems by (auto simp: nth_list_update)
qed auto

lemma gate_offset:
  "push_bit 16 (ucast (offset_31_16 (SET_IDT_ENTRY h e)) :: u32) OR ucast (offset_15_00 (SET_IDT_ENTRY h e)) = h"
proof (rule bit_word_eqI)
  have m: "(0xFFFF0000 :: u32) = NOT (mask 16)" "(0xFFFF :: u32) = mask 16"
    by (simp_all add: mask_eq_exp_minus_1)
  fix n assume n: "n < LENGTH(32)"
  show "bit (push_bit 16 (ucast (offset_31_16 (SET_IDT_ENTRY h e)) :: u32) OR ucast (offset_15_00 (SET_IDT_ENTRY h e))) n = bit h n"
    using n by (cases "n < 16") (auto simp: SET_IDT_ENTRY_def m bit_simps)
qed

end
