(* ===== verification/Kernel.thy ===== *)
theory Kernel
  imports Idt
begin

text \<open>
  The entry of the kernel (kernel.c): what it prints about the Multiboot information, the two
  system descriptors, the order in which the components are initialised, the three shells. The
  information is read before paging is on, so an address is a physical one. Addresses fixed by
  the linker and registers are in \<open>linkage\<close>.
\<close>

record linkage =
  lk_stub :: "stub \<Rightarrow> u32"
  lk_tss :: u32
  lk_ldt :: u32
  lk_magic :: u32            \<comment> \<open>\<open>magic_num\<close> in the frame of \<open>load_program\<close>\<close>
  lk_return_from_exec :: u32
  lk_return_from_intr :: u32
  lk_esp :: u32
  lk_ebp :: u32
  lk_eflags :: u32

subsection \<open>The descriptors of the TSS and the LDT (x86_desc.h)\<close>

record seg_desc =
  seg_lim_15_00 :: u16
  base_15_00 :: u16
  base_23_16 :: u8
  sd_type :: u8
  sd_sys :: u8
  sd_dpl :: u8
  sd_present :: u8
  seg_lim_19_16 :: u8
  sd_avail :: u8
  sd_reserved :: u8
  sd_opsize :: u8
  sd_granularity :: u8
  base_31_24 :: u8

definition SET_LDT_PARAMS :: "u32 \<Rightarrow> u32 \<Rightarrow> seg_desc \<Rightarrow> seg_desc" where
  "SET_LDT_PARAMS addr lim d =
     d\<lparr>base_31_24 := ucast (drop_bit 24 (addr AND 0xFF000000)),
       base_23_16 := ucast (drop_bit 16 (addr AND 0x00FF0000)),
       base_15_00 := ucast (addr AND 0xFFFF),
       seg_lim_19_16 := ucast (drop_bit 16 (lim AND 0x000F0000)) AND 0xF,
       seg_lim_15_00 := ucast (lim AND 0xFFFF)\<rparr>"

definition SET_TSS_PARAMS :: "u32 \<Rightarrow> u32 \<Rightarrow> seg_desc \<Rightarrow> seg_desc" where
  "SET_TSS_PARAMS addr lim d =
     d\<lparr>base_31_24 := ucast (drop_bit 24 (addr AND 0xFF000000)),
       base_23_16 := ucast (drop_bit 16 (addr AND 0x00FF0000)),
       base_15_00 := ucast (addr AND 0xFFFF),
       seg_lim_19_16 := ucast (drop_bit 16 (lim AND 0x000F0000)) AND 0xF,
       seg_lim_15_00 := ucast (lim AND 0xFFFF)\<rparr>"

record kernel = keyboard +
  ldt_desc_ptr :: seg_desc
  tss_desc_ptr :: seg_desc
  tss_ldt :: u32
  ldtr :: u32
  tr :: u32
  idt :: "idt_entry list"

abbreviation (input) KERNEL_TSS :: u32 where "KERNEL_TSS \<equiv> 0x30"
abbreviation (input) KERNEL_LDT :: u32 where "KERNEL_LDT \<equiv> 0x38"
abbreviation (input) TSS_SIZE :: u32 where "TSS_SIZE \<equiv> 104"

definition load_ldt :: "linkage \<Rightarrow> 'a kernel_scheme \<Rightarrow> 'a kernel_scheme" where
  "load_ldt lk s =
     s\<lparr>ldt_desc_ptr := SET_LDT_PARAMS (lk_ldt lk) 31
          \<lparr>seg_lim_15_00 = 0, base_15_00 = 0, base_23_16 = 0, sd_type = 2, sd_sys = 0, sd_dpl = 0,
           sd_present = 1, seg_lim_19_16 = 0, sd_avail = 0, sd_reserved = 0, sd_opsize = 1,
           sd_granularity = 0, base_31_24 = 0\<rparr>,
       ldtr := KERNEL_LDT\<rparr>"

definition load_tss :: "linkage \<Rightarrow> 'a kernel_scheme \<Rightarrow> 'a kernel_scheme" where
  "load_tss lk s =
     s\<lparr>tss_desc_ptr := SET_TSS_PARAMS (lk_tss lk) 103
          \<lparr>seg_lim_15_00 = ucast (TSS_SIZE AND 0xFFFF), base_15_00 = 0, base_23_16 = 0, sd_type = 9,
           sd_sys = 0, sd_dpl = 0, sd_present = 1, seg_lim_19_16 = ucast (TSS_SIZE AND 0x000F0000),
           sd_avail = 0, sd_reserved = 0, sd_opsize = 0, sd_granularity = 0, base_31_24 = 0\<rparr>,
       tss_ldt := KERNEL_LDT,
       tss_ss0 := KERNEL_DS,
       tss_esp0 := 0x800000,
       tr := KERNEL_TSS\<rparr>"

subsection \<open>Printing the Multiboot information\<close>

abbreviation (input) MULTIBOOT_BOOTLOADER_MAGIC :: u32 where "MULTIBOOT_BOOTLOADER_MAGIC \<equiv> 0x2BADB002"

definition phys_word :: "'a machine_scheme \<Rightarrow> u32 \<Rightarrow> u32" where
  "phys_word s a = ucast (phys s a) OR push_bit 8 (ucast (phys s (a + 1)))
     OR push_bit 16 (ucast (phys s (a + 2))) OR push_bit 24 (ucast (phys s (a + 3)))"

partial_function (option) phys_string :: "'a machine_scheme \<Rightarrow> u32 \<Rightarrow> u8 list option" where
  "phys_string s a =
     (if phys s a = 0 then Some [] else do { cs \<leftarrow> phys_string s (a + 1); Some (phys s a # cs) })"

declare phys_string.simps [code]

text \<open>The fields of \<open>multiboot_info_t\<close>, \<open>module_t\<close> and \<open>memory_map_t\<close>, as offsets.\<close>

abbreviation (input) mbi_flags :: u32 where "mbi_flags \<equiv> 0"
abbreviation (input) mbi_mem_lower :: u32 where "mbi_mem_lower \<equiv> 4"
abbreviation (input) mbi_mem_upper :: u32 where "mbi_mem_upper \<equiv> 8"
abbreviation (input) mbi_boot_device :: u32 where "mbi_boot_device \<equiv> 12"
abbreviation (input) mbi_cmdline :: u32 where "mbi_cmdline \<equiv> 16"
abbreviation (input) mbi_mods_count :: u32 where "mbi_mods_count \<equiv> 20"
abbreviation (input) mbi_mods_addr :: u32 where "mbi_mods_addr \<equiv> 24"
abbreviation (input) mbi_elf_sec :: u32 where "mbi_elf_sec \<equiv> 28"
abbreviation (input) mbi_mmap_length :: u32 where "mbi_mmap_length \<equiv> 44"
abbreviation (input) mbi_mmap_addr :: u32 where "mbi_mmap_addr \<equiv> 48"

definition CHECK_FLAG :: "u32 \<Rightarrow> nat \<Rightarrow> bool" where
  "CHECK_FLAG flags n \<longleftrightarrow> flags AND push_bit n 1 \<noteq> 0"

definition say :: "string \<Rightarrow> printf_arg list \<Rightarrow> 'a console_scheme \<Rightarrow> 'a console_scheme option" where
  "say fmt args s = map_option snd (printf (str fmt) args s)"

definition sayln :: "string \<Rightarrow> printf_arg list \<Rightarrow> 'a console_scheme \<Rightarrow> 'a console_scheme option" where
  "sayln fmt args s = map_option snd (printf (str fmt @ [10]) args s)"

fun print_first_bytes :: "u32 \<Rightarrow> nat \<Rightarrow> nat \<Rightarrow> 'a console_scheme \<Rightarrow> 'a console_scheme option" where
  "print_first_bytes mod_start i 0 s = Some s"
| "print_first_bytes mod_start i (Suc k) s = do {
     s \<leftarrow> say ''0x%x '' [ArgWord (scast (phys s (mod_start + of_nat i)))] s;
     print_first_bytes mod_start (Suc i) k s
   }"

partial_function (option) print_modules :: "u32 \<Rightarrow> u32 \<Rightarrow> u32 \<Rightarrow> 'a console_scheme \<Rightarrow> 'a console_scheme option" where
  "print_modules mbi mod_count m s =
     (if mod_count < phys_word s (mbi + mbi_mods_count) then do {
        s \<leftarrow> sayln ''Module %d loaded at address: 0x%#x'' [ArgWord mod_count, ArgWord (phys_word s m)] s;
        s \<leftarrow> sayln ''Module %d ends at address: 0x%#x'' [ArgWord mod_count, ArgWord (phys_word s (m + 4))] s;
        s \<leftarrow> sayln ''First few bytes of module:'' [] s;
        s \<leftarrow> print_first_bytes (phys_word s m) 0 16 s;
        s \<leftarrow> sayln '''' [] s;
        print_modules mbi (mod_count + 1) (m + 16) s
      } else Some s)"

declare print_modules.simps [code]

partial_function (option) print_mmap :: "u32 \<Rightarrow> u32 \<Rightarrow> 'a console_scheme \<Rightarrow> 'a console_scheme option" where
  "print_mmap mbi m s =
     (if m < phys_word s (mbi + mbi_mmap_addr) + phys_word s (mbi + mbi_mmap_length) then do {
        (_, s) \<leftarrow> printf (str ''    size = 0x%x, base_addr = 0x%#x%#x'' @ [10] @
                 str ''    type = 0x%x,  length    = 0x%#x%#x'' @ [10])
               [ArgWord (phys_word s m), ArgWord (phys_word s (m + 8)), ArgWord (phys_word s (m + 4)),
                ArgWord (phys_word s (m + 20)), ArgWord (phys_word s (m + 16)), ArgWord (phys_word s (m + 12))] s;
        print_mmap mbi (m + phys_word s m + 4) s
      } else Some s)"

declare print_mmap.simps [code]

text \<open>\<open>entry\<close> up to the descriptors; the flag is False where it returns early.\<close>

definition print_info :: "u32 \<Rightarrow> u32 \<Rightarrow> 'a kernel_scheme \<Rightarrow> (bool \<times> 'a kernel_scheme) option" where
  "print_info magic mbi s = do {
     let s = clear s;
     if magic \<noteq> MULTIBOOT_BOOTLOADER_MAGIC then do {
       s \<leftarrow> sayln ''Invalid magic number: 0x%#x'' [ArgWord magic] s;
       Some (False, s)
     } else do {
       s \<leftarrow> sayln ''flags = 0x%#x'' [ArgWord (phys_word s (mbi + mbi_flags))] s;
       s \<leftarrow> (if CHECK_FLAG (phys_word s (mbi + mbi_flags)) 0
             then sayln ''mem_lower = %uKB, mem_upper = %uKB''
                    [ArgWord (phys_word s (mbi + mbi_mem_lower)), ArgWord (phys_word s (mbi + mbi_mem_upper))] s
             else Some s);
       s \<leftarrow> (if CHECK_FLAG (phys_word s (mbi + mbi_flags)) 1
             then sayln ''boot_device = 0x%#x'' [ArgWord (phys_word s (mbi + mbi_boot_device))] s
             else Some s);
       s \<leftarrow> (if CHECK_FLAG (phys_word s (mbi + mbi_flags)) 2
             then do {
               line \<leftarrow> phys_string s (phys_word s (mbi + mbi_cmdline));
               sayln ''cmdline = %s'' [ArgStr line] s
             } else Some s);
       s \<leftarrow> (if CHECK_FLAG (phys_word s (mbi + mbi_flags)) 3
             then (let m = phys_word s (mbi + mbi_mods_addr);
                       s = file_sys_init (phys_word s m) s
                   in print_modules mbi 0 m s)
             else Some s);
       if CHECK_FLAG (phys_word s (mbi + mbi_flags)) 4 \<and> CHECK_FLAG (phys_word s (mbi + mbi_flags)) 5
       then do {
         s \<leftarrow> sayln ''Both bits 4 and 5 are set.'' [] s;
         Some (False, s)
       } else do {
         s \<leftarrow> (if CHECK_FLAG (phys_word s (mbi + mbi_flags)) 5
               then sayln ''elf_sec: num = %u, size = 0x%#x, addr = 0x%#x, shndx = 0x%#x''
                      [ArgWord (phys_word s (mbi + mbi_elf_sec)), ArgWord (phys_word s (mbi + mbi_elf_sec + 4)),
                       ArgWord (phys_word s (mbi + mbi_elf_sec + 8)), ArgWord (phys_word s (mbi + mbi_elf_sec + 12))] s
               else Some s);
         s \<leftarrow> (if CHECK_FLAG (phys_word s (mbi + mbi_flags)) 6
               then do {
                 s \<leftarrow> sayln ''mmap_addr = 0x%#x, mmap_length = 0x%x''
                        [ArgWord (phys_word s (mbi + mbi_mmap_addr)), ArgWord (phys_word s (mbi + mbi_mmap_length))] s;
                 print_mmap mbi (phys_word s (mbi + mbi_mmap_addr)) s
               } else Some s);
         Some (True, s)
       }
     }
   }"

subsection \<open>Initialisation and the first shell\<close>

definition kernel_init :: "linkage \<Rightarrow> 'a kernel_scheme \<Rightarrow> 'a kernel_scheme option" where
  "kernel_init lk s = do {
     let s = scheduler_init (paging_init (load_tss lk (load_ldt lk s)));
     s \<leftarrow> pcb_init s;
     let s = s\<lparr>idt := set_all_idt (lk_stub lk) (idt s)\<rparr>;
     let s = i8259_init s;
     let s = rtc_init s;
     let s = keyboard_init s;
     let s = term_init s;
     Some (clear (sti s))
   }"

definition start_shells :: "linkage \<Rightarrow> 'a kernel_scheme \<Rightarrow> 'a kernel_scheme option" where
  "start_shells lk s = do {
     (_, s) \<leftarrow> static_start_shell (lk_magic lk) (lk_return_from_intr lk) (lk_eflags lk) 3 s;
     (_, s) \<leftarrow> static_start_shell (lk_magic lk) (lk_return_from_intr lk) (lk_eflags lk) 2 s;
     Some (pit_init (cli s))
   }"

text \<open>The loop that runs the shell. It leaves the kernel when \<open>execute\<close> enters the program; when
  the shell halts, \<open>execute\<close> returns its status and \<open>shell_exited\<close> goes on.\<close>

partial_function (option) shell_loop :: "linkage \<Rightarrow> 'a kernel_scheme \<Rightarrow> (iret_frame \<times> 'a kernel_scheme) option" where
  "shell_loop lk s = do {
     (r, s) \<leftarrow> system_execute (lk_magic lk) (lk_return_from_exec lk) (lk_esp lk) (lk_ebp lk)
                 (Some (literal shell_name)) s;
     case r of
       Exec_entered frame \<Rightarrow> Some (frame, s)
     | Exec_failed \<Rightarrow> do {
         (_, s) \<leftarrow> printf (str ''Shell exited with code: %d'' @ [10, 10]) [ArgWord (word_of_int FAILURE)] s;
         shell_loop lk s
       }
   }"

declare shell_loop.simps [code]

definition shell_exited :: "linkage \<Rightarrow> int \<Rightarrow> 'a kernel_scheme \<Rightarrow> (iret_frame \<times> 'a kernel_scheme) option" where
  "shell_exited lk status s = do {
     (_, s) \<leftarrow> printf (str ''Shell exited with code: %d'' @ [10, 10]) [ArgWord (word_of_int status)] s;
     shell_loop lk s
   }"

text \<open>\<open>Entry_returned\<close>: the early returns of \<open>entry\<close>.\<close>

datatype entry_result = Entry_returned | Entry_user iret_frame

definition entry :: "linkage \<Rightarrow> u32 \<Rightarrow> u32 \<Rightarrow> 'a kernel_scheme \<Rightarrow> (entry_result \<times> 'a kernel_scheme) option" where
  "entry lk magic addr s = do {
     (go, s) \<leftarrow> print_info magic addr s;
     if \<not> go then Some (Entry_returned, s)
     else do {
       s \<leftarrow> kernel_init lk s;
       s \<leftarrow> start_shells lk s;
       (frame, s) \<leftarrow> shell_loop lk s;
       Some (Entry_user frame, s)
     }
   }"

end
