(* ===== verification/KernelSteps.thy ===== *)
theory KernelSteps
  imports SystemProps Kernel
begin

text \<open>
  The steps of the running system: system calls of the process that runs, interrupts, stores of
  the user program. The invariant \<open>kinv\<close> holds in every state that can be reached, and with it
  the isolation of the processes. A call that waits (\<open>read\<close> on the terminal or the clock) lets
  any number of other steps happen while it spins.
\<close>

subsection \<open>Reading and writing\<close>

lemma spin_invariant:
  assumes "spin cond idle s = Some t" "P s" "\<And>u u'. idle u = Some u' \<Longrightarrow> P u \<Longrightarrow> P u'"
  shows "P t"
  using assms(2,3)
proof (induction rule: spin.raw_induct [OF _ assms(1)])
  case (1 spin cond idle s y)
  obtain b where b: "cond s = Some b" using 1(2) by (auto simp: bind_Some_iff)
  show ?case
  proof (cases b)
    case True
    then show ?thesis using 1(2,3) b by simp
  next
    case False
    then obtain u where u: "idle s = Some u" "spin cond idle u = Some y"
      using 1(2) b by (auto simp: bind_Some_iff)
    have "P u" by (rule 1(4) [OF u(1) 1(3)])
    then show ?thesis by (rule 1(1) [OF u(2)]) (rule 1(4))
  qed
qed

locale idle_step =
  fixes idle :: "'a keyboard_scheme \<Rightarrow> 'a keyboard_scheme option"
  assumes idle_kinv: "idle u = Some u' \<Longrightarrow> kinv u \<Longrightarrow> kinv u'"
begin

lemma kinv_spin: "spin cond idle s = Some t \<Longrightarrow> kinv s \<Longrightarrow> kinv t"
  by (rule spin_invariant [of cond idle s t kinv]) (auto intro: idle_kinv)

lemma kinv_term_read:
  assumes "term_read idle fd buf n s = Some (r, t)" "kinv s"
  shows "kinv t"
proof (cases "buf = 0")
  case True
  then show ?thesis using assms by (simp add: term_read_def)
next
  case False
  obtain a c d cond cond' where st: "spin cond idle s = Some a" "kview c = kview a"
    "spin cond' idle c = Some d" "kview t = kview d"
    using assms(1) False
    by (auto simp: term_read_def Let_def bind_Some_iff cli_and_save_def dest!: kview_store_bytes kview_put_term)
  have "kinv a" by (rule kinv_spin [OF st(1) assms(2)])
  then have "kinv c" using kinv_kview [OF st(2)] by simp
  then have "kinv d" by (rule kinv_spin [OF st(3)])
  then show ?thesis using kinv_kview [OF st(4)] by simp
qed

lemma kinv_rtc_read:
  assumes "rtc_read idle fd buf n s = Some (r, t)" "kinv s"
  shows "kinv t"
proof -
  obtain a b cond where "set_waiting (get_current_group s) 1 s = Some a" "set_count (get_current_group s) 0 a = Some b"
    "spin cond idle b = Some t"
    using assms(1) by (auto simp: rtc_read_def Let_def bind_Some_iff)
  then have "kview b = kview s" "spin cond idle b = Some t" by (auto dest!: kview_set_clock)
  then show ?thesis using kinv_spin kinv_kview assms(2) by metis
qed

lemma kinv_run_read:
  assumes "run_read f idle fd buf n s = Some (r, t)" "kinv s"
  shows "kinv t"
proof -
  have g: "get_current_pcb s = Some (get_pcb_addr (running s))"
    by (rule current_pcb_running) (use assms(2) in \<open>simp add: kinv_def\<close>)
  show ?thesis
    using assms kinv_fd_frame [OF fd_frame_file_read [OF _ g]] kinv_fd_frame [OF fd_frame_dir_read [OF _ g]]
    by (cases f) (auto simp: run_read_def intro: kinv_term_read kinv_rtc_read)
qed

lemma kinv_system_read: "system_read idle fd buf n s = Some (r, t) \<Longrightarrow> kinv s \<Longrightarrow> kinv t"
  by (auto simp: system_read_def Some_iffs dest: kinv_run_read)

end

lemma kinv_system_write: "system_write fd buf n s = Some (r, t) \<Longrightarrow> kinv t = kinv s"
proof -
  have "run_write f fd buf n s = Some (r, t) \<Longrightarrow> kview t = kview s" for f
    by (cases f) (auto simp: run_write_def file_write_def dir_write_def dest: keeps)
  then show "system_write fd buf n s = Some (r, t) \<Longrightarrow> kinv t = kinv s"
    by (intro kinv_kview) (auto simp: system_write_def Some_iffs)
qed

lemma kinv_system_open: "system_open name s = Some (r, t) \<Longrightarrow> kinv s \<Longrightarrow> kinv t"
  using kinv_fd_frame [OF fd_frame_system_open, of name s r t "get_pcb_addr (running s)"] current_pcb_running [of s]
  by (simp add: kinv_def)

lemma kinv_system_close:
  assumes c: "system_close fd s = Some (r, t)" and inv: "kinv s"
  shows "kinv t"
proof -
  have g: "get_current_pcb s = Some (get_pcb_addr (running s))"
    by (rule current_pcb_running) (use inv in \<open>simp add: kinv_def\<close>)
  have "t = s \<or> (\<exists>f. run_close f fd s = Some (r, t))"
    using c by (auto simp: system_close_def Some_iffs)
  then show ?thesis using inv kinv_fd_frame [OF fd_frame_run_close [OF _ g]] by auto
qed

subsection \<open>Interrupts\<close>

lemma kinv_rtc_wrapper: "rtc_wrapper s = Some t \<Longrightarrow> kinv t = kinv s"
  by (rule kinv_kview) (rule kview_rtc_wrapper)

lemma kinv_keyboard_handler: "keyboard_handler s = Some t \<Longrightarrow> kinv t = kinv s"
  by (rule kinv_kview) (rule kview_keyboard_handler)

interpretation clock_idle: idle_step rtc_wrapper
  by unfold_locales (simp add: kinv_rtc_wrapper)

interpretation key_idle: idle_step keyboard_handler
  by unfold_locales (simp add: kinv_keyboard_handler)

subsection \<open>Steps and reachable states\<close>

inductive kstep :: "'a keyboard_scheme \<Rightarrow> 'a keyboard_scheme \<Rightarrow> bool" where
  sys_execute: "system_execute ma rl esp ebp cmd s = Some (r, t) \<Longrightarrow> kstep s t"
| sys_halt: "running s \<noteq> 0 \<Longrightarrow> system_halt status s = Some h \<Longrightarrow>
    execute_return (h_eax h) (h_edx h) s = Some (x, t) \<Longrightarrow> kstep s t"
| sys_read: "(\<forall>u u'. idle u = Some u' \<longrightarrow> kstep\<^sup>*\<^sup>* u u') \<Longrightarrow> system_read idle fd buf n s = Some (r, t) \<Longrightarrow> kstep s t"
| sys_write: "system_write fd buf n s = Some (r, t) \<Longrightarrow> kstep s t"
| sys_open: "system_open name s = Some (r, t) \<Longrightarrow> kstep s t"
| sys_close: "system_close fd s = Some (r, t) \<Longrightarrow> kstep s t"
| sys_getargs: "system_getargs buf n s = Some (r, t) \<Longrightarrow> kstep s t"
| sys_vidmap: "system_vidmap a s = Some (r, t) \<Longrightarrow> kstep s t"
| tick: "schedule_next ptop cs esp ebp s = Some (regs, t) \<Longrightarrow> kstep s t"
| clock: "rtc_wrapper s = Some t \<Longrightarrow> kstep s t"
| key: "keyboard_handler s = Some t \<Longrightarrow> kstep s t"
| device: "kstep s (s\<lparr>port_in := ports\<rparr>)"
| user_store: "user_translate s v = Some a \<Longrightarrow> kstep s (s\<lparr>phys := (phys s)(a := b)\<rparr>)"

inductive_cases kstep_E: "kstep s t"

lemma kinv_kstep: "kstep s t \<Longrightarrow> kinv s \<Longrightarrow> kinv t"
proof (induction rule: kstep.induct)
  case (sys_execute ma rl esp ebp cmd s r t)
  then show ?case using kinv_execute by blast
next
  case (sys_halt s status h x t)
  have ok: "procs_ok s" using sys_halt(4) by (simp add: kinv_def)
  have "execute_return status (get_pcb_addr (parent_of s (running s))) s = Some (x, t)"
    using sys_halt(2,3) system_halt_eq [OF ok sys_halt(1)] by auto
  then show ?case by (rule kinv_execute_return [OF sys_halt(4,1)])
next
  case (sys_read idle s fd buf n r t)
  have "kinv u'" if "(\<lambda>x y. kstep x y \<and> (kinv x \<longrightarrow> kinv y))\<^sup>*\<^sup>* u u'" "kinv u" for u u'
    using that by (induction rule: rtranclp_induct) auto
  then have "idle_step idle" using sys_read(1) by unfold_locales blast
  then show ?case by (rule idle_step.kinv_system_read [OF _ sys_read(2,3)])
next
  case (sys_write fd buf n s r t)
  then show ?case using kinv_system_write by blast
next
  case (sys_open name s r t)
  then show ?case using kinv_system_open by blast
next
  case (sys_close fd s r t)
  then show ?case using kinv_system_close by blast
next
  case (sys_getargs buf n s r t)
  then show ?case using kinv_getargs by blast
next
  case (sys_vidmap a s r t)
  then show ?case using kinv_vidmap by blast
next
  case (tick ptop cs esp ebp s regs t)
  then show ?case using kinv_schedule_next by blast
next
  case (clock s t)
  then show ?case using kinv_rtc_wrapper by blast
next
  case (key s t)
  then show ?case using kinv_keyboard_handler by blast
next
  case (device s ports)
  then show ?case using kinv_kview [of "s\<lparr>port_in := ports\<rparr>" s] by (simp add: kview_def)
next
  case (user_store s v a b)
  then show ?case using kinv_kview [of "s\<lparr>phys := (phys s)(a := b)\<rparr>" s] by simp
qed

interpretation kernel: step_invariant kstep kinv
  by unfold_locales (rule kinv_kstep)

lemmas kinv_ksteps = kernel.reachable

text \<open>The frame of a process and the screens, as sets of physical addresses.\<close>

definition prog_frame :: "int \<Rightarrow> u32 set" where
  "prog_frame pid = {a. drop_bit 22 a = drop_bit 22 (get_prog_phys_addr pid)}"

definition screen_pages :: "u32 set" where
  "screen_pages = {a. \<exists>p\<in>set screen_bases. drop_bit 12 a = drop_bit 12 p}"

lemma drop_big_frame: "drop_bit 22 (big_frame p v) = drop_bit 22 p"
  by (rule bit_word_eqI) (auto simp: big_frame_def align_masks bit_simps dest: bit_imp_le_length)

lemma drop_small_frame: "drop_bit 12 (small_frame p v) = drop_bit 12 p"
  by (rule bit_word_eqI) (auto simp: small_frame_def align_masks bit_simps dest: bit_imp_le_length)

lemma user_reach_sets:
  assumes "kinv s" "running s \<noteq> 0" "user_translate s v = Some a"
  shows "a \<in> prog_frame (running s) \<union> screen_pages"
  using user_reach [of s "running s" v a] assms
  by (auto simp: kinv_def prog_frame_def screen_pages_def drop_big_frame drop_small_frame)

lemma prog_frames_disjoint:
  assumes "0 \<le> i" "i < 7" "0 \<le> j" "j < 7" "i \<noteq> j"
  shows "prog_frame i \<inter> prog_frame j = {}"
  using pid_cases [OF assms(1,2)] pid_cases [OF assms(3,4)] assms(5)
  by (auto simp: prog_frame_def prog_phys_addr_values)

lemma prog_frame_screens:
  assumes "0 \<le> i" "i < 7"
  shows "prog_frame i \<inter> screen_pages = {}"
proof -
  have "drop_bit 22 a = 0" if "a \<in> screen_pages" for a
    using that by (auto simp: screen_pages_def screen_bases_def dest!: page_number_of)
  moreover have "drop_bit 22 a \<noteq> 0" if "a \<in> prog_frame i" for a
    using that pid_cases [OF assms] by (auto simp: prog_frame_def prog_phys_addr_values)
  ultimately show ?thesis by blast
qed

end
