(* ===== verification/LoadProps.thy ===== *)
theory LoadProps
  imports KernelSteps
begin

text \<open>
  Loading a program. A program that the directory finds as a regular file is copied byte for byte
  to 0x08048000 in the frame of the process, and the result is the entry point at offset 24 of
  the file; a name that is not found, a file shorter than four bytes and one without the ELF magic
  number fail.
\<close>

subsection \<open>Stores through a page table\<close>

text \<open>All addresses of the range are mapped, to different bytes.\<close>

definition writable_range :: "'a machine_scheme \<Rightarrow> u32 \<Rightarrow> nat \<Rightarrow> bool" where
  "writable_range s a n \<longleftrightarrow> (\<forall>i<n. translate s (a + of_nat i) \<noteq> None) \<and>
     (\<forall>i<n. \<forall>j<n. translate s (a + of_nat i) = translate s (a + of_nat j) \<longrightarrow> i = j)"

lemma writable_range_cong:
  "(\<And>v. translate t v = translate s v) \<Longrightarrow> writable_range t a n = writable_range s a n"
  by (simp add: writable_range_def)

lemma writable_range_tl:
  assumes "writable_range s a (Suc n)" shows "writable_range s (a + 1) n"
  unfolding writable_range_def
proof (intro conjI allI impI)
  fix i j assume "i < n"
  then show "translate s (a + 1 + of_nat i) \<noteq> None"
    using assms [unfolded writable_range_def, THEN conjunct1, rule_format, of "Suc i"] by (simp add: algebra_simps)
  assume "j < n" "translate s (a + 1 + of_nat i) = translate s (a + 1 + of_nat j)"
  then show "i = j"
    using assms [unfolded writable_range_def, THEN conjunct2, rule_format, of "Suc i" "Suc j"] \<open>i < n\<close>
    by (simp add: algebra_simps)
qed

lemma store_bytes_range:
  assumes "writable_range s a (length bs)"
  shows "\<exists>t. store_bytes a bs s = Some t \<and> (\<forall>i<length bs. load8 t (a + of_nat i) = Some (bs ! i))"
  using assms
proof (induction bs arbitrary: a s)
  case (Cons b bs)
  obtain p where p: "translate s a = Some p"
    using Cons.prems by (auto simp: writable_range_def dest!: spec [of _ 0])
  then obtain u where u: "store8 a b s = Some u" by (simp add: store8_def)
  note tu = translate_store8 [OF u]
  have "writable_range u (a + 1) (length bs)"
    using writable_range_tl [of s a "length bs"] Cons.prems writable_range_cong [of u s, OF tu] by simp
  then obtain t where t: "store_bytes (a + 1) bs u = Some t"
    "\<forall>i<length bs. load8 t (a + 1 + of_nat i) = Some (bs ! i)" using Cons.IH by blast
  have "load8 t a = load8 u a"
  proof (rule load8_store_bytes_other [OF t(1)])
    fix i assume "i < length bs"
    then have "translate s (a + of_nat (Suc i)) \<noteq> translate s (a + of_nat 0)"
      using Cons.prems unfolding writable_range_def by fastforce
    then show "translate u (a + 1 + of_nat i) \<noteq> translate u a" by (simp add: tu algebra_simps)
  qed
  then have "load8 t a = Some b" using load8_store8 [OF u, of a] by simp
  then have "load8 t (a + of_nat i) = Some ((b # bs) ! i)" if "i < Suc (length bs)" for i
    using that t(2) by (cases i) (auto simp: algebra_simps)
  then show ?case using u t(1) by auto
qed simp

subsection \<open>Reading on through a descriptor\<close>

text \<open>The image lies in the kernel page, which is mapped onto itself.\<close>

definition kernel_identity :: "'a machine_scheme \<Rightarrow> bool" where
  "kernel_identity s \<longleftrightarrow> (\<forall>v. drop_bit 22 v = 1 \<longrightarrow> translate s v = Some v)"

definition image_loaded :: "'a fs_scheme \<Rightarrow> u8 list \<Rightarrow> bool" where
  "image_loaded s img \<longleftrightarrow> holds_image s img \<and> kernel_identity s \<and>
     (\<forall>a<length img. drop_bit 22 (boot_blk s + of_nat a) = 1)"

lemma store_bytes_image:
  assumes "store_bytes a bs s = Some t" "apart_from_image s img a (length bs)"
  shows "holds_image t img = holds_image s img" "boot_blk t = boot_blk s"
    and "apart_from_image t img b n = apart_from_image s img b n"
proof -
  obtain f where t: "t = s\<lparr>phys := f\<rparr>" using store_bytes_same_but_phys [OF assms(1)] by blast
  have "load8 t (boot_blk s + of_nat k) = load8 s (boot_blk s + of_nat k)" if "k < length img" for k
    by (rule load8_store_bytes_other [OF assms(1)]) (use assms(2) that in \<open>auto simp: apart_from_image_def\<close>)
  then show "holds_image t img = holds_image s img" by (simp add: holds_image_def t)
  show "boot_blk t = boot_blk s" "apart_from_image t img b n = apart_from_image s img b n"
    by (simp_all add: t apart_from_image_def)
qed

definition at_position :: "nat \<Rightarrow> file_t \<Rightarrow> file_t" where
  "at_position n f = f\<lparr>f_position := of_nat n\<rparr>"

lemma with_fd_twice:
  assumes "current_ok s p" "fd < 8"
  shows "with_fd p fd f (with_fd p fd g s) = with_fd p fd (f \<circ> g) s"
  using assms by (simp add: with_fd_def fd_at_def current_ok_def fun_upd_def fun_eq_iff o_def if_distrib
      cong: if_cong)

lemma store8_with_fd: "store8 a b (with_fd p fd f s) = map_option (with_fd p fd f) (store8 a b s)"
proof -
  have "translate (with_fd p fd f s) a = translate s a" by (simp add: with_fd_def translate_def Let_def)
  then show ?thesis by (cases "translate s a") (simp_all add: store8_def with_fd_def fd_at_def)
qed

lemma store_bytes_with_fd: "store_bytes a bs (with_fd p fd f s) = map_option (with_fd p fd f) (store_bytes a bs s)"
  by (induction bs arbitrary: a s)
    (simp_all add: store8_with_fd bind_map_option map_option_bind comp_def split: Option.bind_split)

lemma with_fd_image [simp]:
  "holds_image (with_fd p fd f s) img = holds_image s img"
  "apart_from_image (with_fd p fd f s) img a n = apart_from_image s img a n"
proof -
  have t: "translate (with_fd p fd f s) v = translate s v" for v
    by (simp add: with_fd_def translate_def Let_def)
  have r: "phys (with_fd p fd f s) = phys s" "boot_blk (with_fd p fd f s) = boot_blk s"
    by (simp_all add: with_fd_def)
  show "holds_image (with_fd p fd f s) img = holds_image s img"
    by (simp add: holds_image_def load8_def t r)
  show "apart_from_image (with_fd p fd f s) img a n = apart_from_image s img a n"
    by (simp add: apart_from_image_def t r)
qed

lemma apart_from_image_mono:
  "apart_from_image s img a m \<Longrightarrow> n \<le> m \<Longrightarrow> apart_from_image s img a n"
  by (simp add: apart_from_image_def)

lemma apart_from_image_tl:
  assumes "apart_from_image s img a (Suc n)" shows "apart_from_image s img (a + 1) n"
  unfolding apart_from_image_def
proof (intro allI impI)
  fix k b assume "k < n" "b < length img"
  then show "translate s (a + 1 + of_nat k) \<noteq> translate s (boot_blk s + of_nat b)"
    using assms [unfolded apart_from_image_def, rule_format, of "Suc k" b] by (simp add: algebra_simps)
qed

lemma with_fd_same: "g (fd_at s p fd) = fd_at s p fd \<Longrightarrow> with_fd p fd g s = s"
  by (simp add: with_fd_def) (simp add: fd_at_def)

lemma load_loop_file:
  assumes "current_ok s p" "fd < 8" "f_flags (fd_at s p fd) \<noteq> NOT_IN_USE"
    and "f_position (fd_at s p fd) = of_nat q" "q \<le> length bytes" "length bytes < 2 ^ 31"
    and "holds_image s img" "file_bytes img (unat (f_inode (fd_at s p fd))) = Some bytes"
    and "apart_from_image s img addr (Suc (length bytes - q))"
    and "\<forall>k\<le>length bytes - q. addr + of_nat k \<noteq> 0"
    and "store_bytes addr (drop q bytes) s = Some t"
  shows "load_loop (int fd) addr s = Some (True, with_fd p fd (at_position (length bytes)) t)"
  using assms
proof (induction "length bytes - q" arbitrary: q addr s t)
  case 0
  then have q: "q = length bytes" by simp
  have pos: "unat (f_position (fd_at s p fd)) = length bytes"
    using 0(5,7) q by (simp add: unat_of_nat_u32)
  have nz: "addr \<noteq> 0" using 0(11) by (auto dest: spec [of _ 0])
  have ap: "apart_from_image s img addr (nat 1)" using 0(10) apart_from_image_mono [OF 0(10), of 1] by simp
  have same: "with_fd p fd (\<lambda>f. f\<lparr>f_position := f_position f + 0\<rparr>) s = s" by (rule with_fd_same) simp
  have "file_read (int fd) addr 1 s = Some (0, s)"
    using file_read_slice [OF 0(2,3,4) nz _ _ 0(8) ap 0(9)] pos same by simp
  moreover have "with_fd p fd (at_position (length bytes)) t = s"
    using 0(12) q with_fd_same [of "at_position (length bytes)" s p fd] 0(5) by (simp add: at_position_def)
  ultimately show ?case by (subst load_loop.simps) simp
next
  case (Suc n)
  let ?f = "fd_at s p fd"
  have q: "q < length bytes" "unat (f_position ?f) = q" using Suc.hyps(2) Suc.prems(4,6) by (simp_all add: unat_of_nat_u32)
  have nz: "addr \<noteq> 0" using Suc.prems(10) by (auto dest: spec [of _ 0])
  have d: "drop q bytes = bytes ! q # drop (Suc q) bytes" using q(1) by (simp add: Cons_nth_drop_Suc)
  obtain u where u: "store8 addr (bytes ! q) s = Some u" "store_bytes (addr + 1) (drop (Suc q) bytes) u = Some t"
    using Suc.prems(11) by (auto simp: d bind_Some_iff)
  have ap: "apart_from_image s img addr (nat 1)" using apart_from_image_mono [OF Suc.prems(9), of 1] by simp
  have iu: "holds_image u img" "apart_from_image u img (addr + 1) (Suc n)"
    using store_bytes_image(1) [of addr "[bytes ! q]" s u img]
      store_bytes_image(3) [of addr "[bytes ! q]" s u img "addr + 1" "Suc n"] u(1) ap Suc.prems(7)
      apart_from_image_tl [of s img addr "Suc n"] Suc.prems(9) Suc.hyps(2)
    by simp_all
  obtain m where um: "u = s\<lparr>phys := m\<rparr>" using u(1) by (auto dest: store8_Some)
  define w where "w = with_fd p fd (\<lambda>f. f\<lparr>f_position := f_position f + 1\<rparr>) u"
  have cu: "current_ok u p" "fd_at u p fd = ?f" using Suc.prems(1) by (simp_all add: um fd_at_def)
  have fw: "fd_at w p fd = ?f\<lparr>f_position := f_position ?f + 1\<rparr>"
    using fd_at_with_fd [OF cu(1) Suc.prems(2,2)] cu(2) by (simp add: w_def)
  have rd: "file_read (int fd) addr 1 s = Some (1, w)"
    using file_read_slice [OF Suc.prems(1,2,3) nz _ _ Suc.prems(7) ap Suc.prems(8)] q d u(1)
    by (simp add: w_def)
  have "load_loop (int fd) (addr + 1) w =
      Some (True, with_fd p fd (at_position (length bytes)) (with_fd p fd (\<lambda>f. f\<lparr>f_position := f_position f + 1\<rparr>) t))"
  proof (rule Suc.hyps(1) [of "Suc q"])
    show "n = length bytes - Suc q" using Suc.hyps(2) by simp
    then show "apart_from_image w img (addr + 1) (Suc (length bytes - Suc q))" using iu(2) by (simp add: w_def)
    show "current_ok w p" using cu by (simp add: w_def)
    show "f_flags (fd_at w p fd) \<noteq> NOT_IN_USE" "f_position (fd_at w p fd) = of_nat (Suc q)"
      "file_bytes img (unat (f_inode (fd_at w p fd))) = Some bytes"
      using Suc.prems(3,4,8) by (simp_all add: fw)
    show "holds_image w img" using iu by (simp add: w_def)
    show "store_bytes (addr + 1) (drop (Suc q) bytes) w =
        Some (with_fd p fd (\<lambda>f. f\<lparr>f_position := f_position f + 1\<rparr>) t)"
      using u(2) by (simp add: w_def store_bytes_with_fd)
    show "\<forall>k\<le>length bytes - Suc q. addr + 1 + of_nat k \<noteq> 0"
    proof (intro allI impI)
      fix k assume "k \<le> length bytes - Suc q"
      then show "addr + 1 + of_nat k \<noteq> 0"
        using Suc.prems(10) [rule_format, of "Suc k"] q(1) by (simp add: algebra_simps)
    qed
  qed (use Suc.prems q in auto)
  moreover obtain m' where "t = u\<lparr>phys := m'\<rparr>" using store_bytes_same_but_phys [OF u(2)] by blast
  then have ct: "current_ok t p" using cu(1) by simp
  moreover have "at_position n = f_position_update (\<lambda>_. of_nat n)" for n
    by (simp add: at_position_def fun_eq_iff)
  ultimately show ?case
    using rd by (subst load_loop.simps) (simp add: with_fd_twice [OF ct Suc.prems(2)] o_def)
qed

subsection \<open>Opening\<close>

text \<open>The descriptor of a regular file just opened.\<close>

definition opened_file :: "dentry \<Rightarrow> file_t" where
  "opened_file d = \<lparr>f_ops = Some File_type_ops, f_inode = word_of_int (inode_num d), f_position = 0,
     f_flags = IN_USE\<rparr>"

text \<open>Opening a regular file or a directory; the open functions of both do nothing.\<close>

lemma system_open_type:
  assumes cur: "current_ok s p" and fd: "lowest_free s p fd" and ready: "tables_ready s"
    and rd: "read_dentry_by_name name s = Some (SUCCESS, Some d)"
    and ty: "filetype d = FILE_TYPE \<and> table = File_type_ops \<or> filetype d = DIR_TYPE \<and> table = Dir_type_ops"
  shows "system_open name s = Some (int fd, with_fd p fd (\<lambda>_. (opened_file d)\<lparr>f_ops := Some table\<rparr>) s)"
proof -
  have fd8: "fd < 8" using fd by (simp add: lowest_free_def)
  have gp: "get_current_pcb s = Some p" using cur by (simp add: current_ok_def)
  let ?f = "\<lambda>f. f\<lparr>f_inode := word_of_int (inode_num d), f_position := 0, f_flags := IN_USE\<rparr>"
  let ?s = "with_fd p fd ?f s"
  let ?t = "with_fd p fd (\<lambda>f. f\<lparr>f_ops := Some table\<rparr>) ?s"
  have p1: "put_fd p (int fd) ?f s = Some ?s" by (rule put_fd_current [OF cur fd8])
  have p2: "put_fd p (int fd) (\<lambda>f. f\<lparr>f_ops := Some table\<rparr>) ?s = Some ?t"
    by (rule put_fd_current [OF _ fd8]) (use cur in simp)
  have t: "?t = with_fd p fd (\<lambda>_. (opened_file d)\<lparr>f_ops := Some table\<rparr>) s"
    unfolding with_fd_twice [OF cur fd8]
    by (rule arg_cong [of _ _ "\<lambda>g. with_fd p fd g s"], rule ext) (simp add: opened_file_def)
  have "op_tables ?t = op_tables s" by (simp add: with_fd_def)
  then have o: "op_open (op_tables ?t table) = Some (if table = File_type_ops then File_open else Dir_open)"
    using ready ty by (auto simp: tables_ready_def file_type_table_def dir_type_table_def)
  have "table_of_type (filetype d) = Some table" using ty by (auto simp: table_of_type_def)
  then show ?thesis
    using rd gp get_new_fd_lowest [OF cur fd] p1 p2 o t
    by (simp add: system_open_def run_open_def file_open_def dir_open_def split: if_splits)
qed

lemma system_open_file:
  assumes "current_ok s p" "lowest_free s p fd" "tables_ready s"
    and "read_dentry_by_name name s = Some (SUCCESS, Some d)" "filetype d = FILE_TYPE"
  shows "system_open name s = Some (int fd, with_fd p fd (\<lambda>_. opened_file d) s)"
proof -
  have "(opened_file d)\<lparr>f_ops := Some File_type_ops\<rparr> = opened_file d" by (simp add: opened_file_def)
  then show ?thesis using system_open_type [OF assms(1-4), of File_type_ops] assms(5) by simp
qed

lemma system_open_missing:
  assumes "read_dentry_by_name name s = Some (FAILURE, None)"
  shows "system_open name s = Some (FAILURE, s)"
  using assms by (simp add: system_open_def)

subsection \<open>The program page\<close>

lemma big_page_number:
  assumes "k < 0x400000" "n < 1024" shows "drop_bit 22 (of_nat (n * 0x400000 + k) :: u32) = of_nat n"
proof -
  have "unat (of_nat (n * 0x400000 + k) :: u32) = n * 0x400000 + k"
    by (rule unat_of_nat_u32) (use assms in simp)
  then have "unat (drop_bit 22 (of_nat (n * 0x400000 + k) :: u32)) = (n * 0x400000 + k) div 2 ^ 22"
    unfolding unat_drop_bit_eq by (simp only: drop_bit_eq_div)
  also have "\<dots> = n" using assms by simp
  also have "\<dots> = unat (of_nat n :: u32)" using assms by (simp add: unat_of_nat_u32)
  finally show ?thesis by (rule word_unat_eq_iff [THEN iffD2])
qed

lemma prog_page_number: "k < 0x400000 \<Longrightarrow> drop_bit 22 (0x8000000 + of_nat k :: u32) = 32"
  using big_page_number [of k 32] by simp

lemma kernel_page_number: "k < 0x400000 \<Longrightarrow> drop_bit 22 (0x400000 + of_nat k :: u32) = 1"
  using big_page_number [of k 1] by simp

lemma translate_program:
  "maps_program s pid \<Longrightarrow> drop_bit 22 v = 32 \<Longrightarrow> translate s v = Some (big_frame (get_prog_phys_addr pid) v)"
  using page_entry_big [of 1 "get_prog_phys_addr pid" 1 1]
  by (simp add: translate_def Let_def maps_program_def prog_entry_def big_frame_def)

lemma big_frame_inj:
  assumes "big_frame p v = big_frame p w" "drop_bit 22 v = drop_bit 22 w"
  shows "v = w"
proof -
  have "take_bit 22 (big_frame p x) = take_bit 22 x" for x
    unfolding big_frame_def align_masks by (rule bit_word_eqI) (auto simp: bit_simps)
  then have "take_bit 22 v = take_bit 22 w" using assms(1) by metis
  then show ?thesis using assms(2) by (metis bits_ident)
qed

text \<open>Ranges of the program page.\<close>

abbreviation (input) user_addr :: "nat \<Rightarrow> u32" where "user_addr k \<equiv> 0x8000000 + of_nat k"

lemma user_page: "k + n \<le> 0x400000 \<Longrightarrow> i < n \<Longrightarrow> drop_bit 22 (user_addr k + of_nat i) = 32"
  using prog_page_number [of "k + i"] by (simp add: add.assoc)

lemma user_translate_at:
  "maps_program s pid \<Longrightarrow> k + n \<le> 0x400000 \<Longrightarrow> i < n \<Longrightarrow>
     translate s (user_addr k + of_nat i) = Some (big_frame (get_prog_phys_addr pid) (user_addr k + of_nat i))"
  using translate_program user_page by blast

lemma user_range:
  assumes m: "maps_program s pid" and n: "k + n \<le> 0x400000"
  shows "writable_range s (user_addr k) n"
proof -
  have "i = j" if "i < n" "j < n" "translate s (user_addr k + of_nat i) = translate s (user_addr k + of_nat j)" for i j
  proof -
    have "user_addr k + of_nat i = user_addr k + of_nat j"
      by (rule big_frame_inj [of "get_prog_phys_addr pid"])
        (use that user_translate_at [OF m n] user_page [OF n] in simp_all)
    then show ?thesis using that n by (subst (asm) word_add_of_nat_eq_iff) auto
  qed
  then show ?thesis using user_translate_at [OF m n] by (simp add: writable_range_def)
qed

lemma program_range:
  assumes "maps_program s pid" "0x48000 + n \<le> 0x400000"
  shows "writable_range s 0x8048000 n"
    and "i < n \<Longrightarrow> translate s (0x8048000 + of_nat i) = Some (big_frame (get_prog_phys_addr pid) (0x8048000 + of_nat i))"
  using user_range [OF assms] user_translate_at [OF assms, of i] by simp_all

lemma program_apart:
  assumes m: "maps_program s pid" "1 \<le> pid" "pid < 7" and v: "drop_bit 22 v = 32"
    and w: "drop_bit 22 w = 1" "kernel_identity s"
  shows "translate s v \<noteq> translate s w"
proof -
  have "translate s w = Some w" using w by (simp add: kernel_identity_def)
  moreover have "drop_bit 22 (big_frame (get_prog_phys_addr pid) v) = of_nat (nat pid + 1)"
    using prog_frame_number(1) [of pid] m by (simp add: drop_big_frame)
  moreover have "(of_nat (nat pid + 1) :: u32) \<noteq> 1"
    using pid_cases [of pid] m by auto
  ultimately show ?thesis using translate_program [OF m(1) v] w(1) by auto
qed

text \<open>The four bytes of a word, in memory and in the file.\<close>

lemma load32_of_bytes:
  assumes "\<And>i. i < 4 \<Longrightarrow> load8 s (a + of_nat i) = Some (bytes ! (off + i))" "off + 4 \<le> length bytes"
  shows "load32 s a = word_at bytes off"
  using assms(1) [of 0] assms(1) [of 1] assms(1) [of 2] assms(1) [of 3] assms(2)
  by (simp add: load32_def word_at_def)

text \<open>The local variable \<open>magic_num\<close> lies in the kernel page, off the image.\<close>

definition scratch_word :: "'a fs_scheme \<Rightarrow> u8 list \<Rightarrow> u32 \<Rightarrow> bool" where
  "scratch_word s img a \<longleftrightarrow> (\<forall>k<4. drop_bit 22 (a + of_nat k) = 1 \<and>
     (\<forall>b<length img. a + of_nat k \<noteq> boot_blk s + of_nat b))"

definition runnable :: "u8 list \<Rightarrow> bool" where
  "runnable bytes \<longleftrightarrow> 28 \<le> length bytes \<and> 0x48000 + length bytes < 0x400000 \<and> word_at bytes 0 = Some EXEC_MAGIC \<and>
     word_at bytes 24 \<noteq> Some (word_of_int FAILURE)"

lemma scratch_word_range:
  assumes img: "image_loaded s img" and m: "scratch_word s img a"
  shows "writable_range s a 4" "apart_from_image s img a 4" "a \<noteq> 0"
proof -
  have tr: "translate s (a + of_nat k) = Some (a + of_nat k)" if "k < 4" for k
    using img m that by (simp add: image_loaded_def kernel_identity_def scratch_word_def)
  moreover have "(a + of_nat i = a + of_nat j) = (i = j)" if "i < 4" "j < 4" for i j :: nat
    by (rule word_add_of_nat_eq_iff) (use that in simp_all)
  ultimately show "writable_range s a 4" by (simp add: writable_range_def del: add_left_cancel)
  show "apart_from_image s img a 4"
    using tr img m by (auto simp: apart_from_image_def image_loaded_def kernel_identity_def scratch_word_def)
  show "a \<noteq> 0" using m by (auto simp: scratch_word_def dest!: spec [of _ 0])
qed

lemma image_loaded_store:
  assumes "store_bytes a bs s = Some t" "apart_from_image s img a (length bs)" "image_loaded s img"
  shows "image_loaded t img"
  using assms(3) store_bytes_image(1,2) [OF assms(1,2)] translate_store_bytes [OF assms(1)]
  by (simp add: image_loaded_def kernel_identity_def)

lemma load_with_fd [simp]:
  "load8 (with_fd p fd f s) v = load8 s v" "load32 (with_fd p fd f s) v = load32 s v"
proof -
  have "translate (with_fd p fd f s) v = translate s v" for v by (simp add: with_fd_def translate_def Let_def)
  then show l: "load8 (with_fd p fd f s) v = load8 s v" for v by (simp add: load8_def) (simp add: with_fd_def)
  show "load32 (with_fd p fd f s) v = load32 s v" by (rule load32_cong) (rule l)+
qed

lemma image_loaded_with_fd [simp]: "image_loaded (with_fd p fd f s) img = image_loaded s img"
proof -
  have "translate (with_fd p fd f s) v = translate s v" for v by (simp add: with_fd_def translate_def Let_def)
  then show ?thesis by (simp add: image_loaded_def kernel_identity_def) (simp add: with_fd_def)
qed

lemma program_apart_from_image:
  assumes "maps_program s pid" "1 \<le> pid" "pid < 7" "image_loaded s img" "0x48000 + n \<le> 0x400000"
  shows "apart_from_image s img 0x8048000 n"
  unfolding apart_from_image_def
proof (intro allI impI)
  fix k a assume k: "k < n" and a: "a < length img"
  have "drop_bit 22 (0x8048000 + of_nat k :: u32) = 32"
    using prog_page_number [of "0x48000 + k"] k assms(5) by simp
  then show "translate s (0x8048000 + of_nat k) \<noteq> translate s (boot_blk s + of_nat a)"
    by (rule program_apart [OF assms(1-3)]) (use assms(4) a in \<open>simp_all add: image_loaded_def\<close>)
qed

subsection \<open>\<open>load_program\<close>\<close>

lemma fd_at_opened:
  "current_ok s p \<Longrightarrow> fd < 8 \<Longrightarrow> fd_at (with_fd p fd (\<lambda>_. f) s) p fd = f"
  by (simp add: fd_at_with_fd)

text \<open>The first read: the magic number.\<close>

lemma read_magic:
  assumes cur: "current_ok s p" "fd < 8" "fd_at s p fd = opened_file d"
    and img: "image_loaded s img" and content: "file_bytes img (unat (word_of_int (inode_num d) :: u32)) = Some bytes"
    and len: "4 \<le> length bytes" and m: "scratch_word s img a"
  shows "\<exists>u. store_bytes a (take 4 bytes) s = Some u \<and> load32 u a = word_at bytes 0 \<and>
    file_read (int fd) a 4 s = Some (4, with_fd p fd (at_position 4) u)"
proof -
  note r = scratch_word_range [OF img m]
  obtain u where u: "store_bytes a (take 4 bytes) s = Some u"
    "\<forall>i<4. load8 u (a + of_nat i) = Some (bytes ! i)"
    using store_bytes_range [of s a "take 4 bytes"] r(1) len by auto
  obtain f where us: "u = s\<lparr>phys := f\<rparr>" using store_bytes_same_but_phys [OF u(1)] by blast
  have cu: "current_ok u p" "fd_at u p fd = opened_file d" using cur by (simp_all add: us fd_at_def)
  have "with_fd p fd (\<lambda>f. f\<lparr>f_position := f_position f + 4\<rparr>) u = with_fd p fd (at_position 4) u"
    using cu(2) by (simp add: with_fd_def at_position_def opened_file_def)
  moreover have "file_read (int fd) a 4 s = Some (4, with_fd p fd (\<lambda>f. f\<lparr>f_position := f_position f + 4\<rparr>) u)"
    using file_read_slice [OF cur(1,2) _ r(3), of 4 img bytes] cur(3) img r(2) content u(1) len
    by (simp add: opened_file_def image_loaded_def)
  moreover have "load32 u a = word_at bytes 0"
    by (rule load32_of_bytes) (use u(2) len in simp_all)
  ultimately show ?thesis using u(1) by auto
qed

lemma load_program_file:
  assumes cur: "current_ok s p" and fd: "lowest_free s p fd" and ready: "tables_ready s"
    and img: "image_loaded s img" and rd: "read_dentry_by_name name s = Some (SUCCESS, Some d)"
    and ty: "filetype d = FILE_TYPE"
    and content: "file_bytes img (unat (word_of_int (inode_num d) :: u32)) = Some bytes"
    and run: "runnable bytes" and pg: "maps_program s pid" "1 \<le> pid" "pid < 7" and m: "scratch_word s img a"
  shows "\<exists>f. load_program a name s = Some (the (word_at bytes 24),
        with_fd p fd (\<lambda>_. clear_fd (at_position (length bytes) (opened_file d))) (s\<lparr>phys := f\<rparr>)) \<and>
     image_loaded (s\<lparr>phys := f\<rparr>) img \<and>
     (\<forall>i<length bytes. load8 (s\<lparr>phys := f\<rparr>) (0x8048000 + of_nat i) = Some (bytes ! i))"
proof -
  have fd8: "fd < 8" using fd by (simp add: lowest_free_def)
  have len: "28 \<le> length bytes" "0x48000 + length bytes < 0x400000" "word_at bytes 0 = Some EXEC_MAGIC"
    using run by (simp_all add: runnable_def)
  have gp: "get_current_pcb s = Some p" using cur by (simp add: current_ok_def)
  define s1 where "s1 = with_fd p fd (\<lambda>_. opened_file d) s"
  have c1: "current_ok s1 p" "fd_at s1 p fd = opened_file d" "image_loaded s1 img" "scratch_word s1 img a"
    using cur img m fd_at_opened [OF cur fd8] by (simp_all add: s1_def scratch_word_def) (simp add: with_fd_def)
  obtain s2 where s2: "store_bytes a (take 4 bytes) s1 = Some s2" "load32 s2 a = Some EXEC_MAGIC"
    "file_read (int fd) a 4 s1 = Some (4, with_fd p fd (at_position 4) s2)"
    using read_magic [OF c1(1) fd8 c1(2,3) content _ c1(4)] len by auto
  obtain f2 where f2: "s2 = s1\<lparr>phys := f2\<rparr>" using store_bytes_same_but_phys [OF s2(1)] by blast
  have i2: "image_loaded s2 img"
    by (rule image_loaded_store [OF s2(1) _ c1(3)]) (use scratch_word_range(2) [OF c1(3,4)] len in simp)
  have c2: "current_ok s2 p" "fd_at s2 p fd = opened_file d" "maps_program s2 pid"
    using c1 pg by (simp_all add: f2 fd_at_def maps_program_def) (simp add: s1_def with_fd_def)
  have rng: "writable_range s2 0x8048000 (length bytes)" "apart_from_image s2 img 0x8048000 (Suc (length bytes))"
    using program_range(1) [OF c2(3)] program_apart_from_image [OF c2(3) pg(2,3) i2] len by simp_all
  obtain t where t: "store_bytes 0x8048000 bytes s2 = Some t"
    "\<forall>i<length bytes. load8 t (0x8048000 + of_nat i) = Some (bytes ! i)"
    using store_bytes_range [OF rng(1)] by blast
  obtain f where f: "t = s1\<lparr>phys := f\<rparr>" using store_bytes_same_but_phys [OF t(1)] f2 by auto
  have it: "image_loaded t img"
    by (rule image_loaded_store [OF t(1) _ i2]) (use apart_from_image_mono [OF rng(2)] in simp)
  have same: "with_fd p fd (\<lambda>f. f\<lparr>f_position := 0\<rparr>) (with_fd p fd (at_position 4) s2) = s2"
    unfolding with_fd_twice [OF c2(1) fd8]
    by (rule with_fd_same) (simp add: c2(2) opened_file_def at_position_def)
  have nz: "\<forall>k\<le>length bytes. (0x8048000 + of_nat k :: u32) \<noteq> 0"
  proof (intro allI impI)
    fix k assume "k \<le> length bytes"
    then have "drop_bit 22 (0x8048000 + of_nat k :: u32) = 32"
      using prog_page_number [of "0x48000 + k"] len(2) by simp
    then show "(0x8048000 + of_nat k :: u32) \<noteq> 0" by auto
  qed
  have loop: "load_loop (int fd) 0x8048000 s2 = Some (True, with_fd p fd (at_position (length bytes)) t)"
    by (rule load_loop_file [OF c2(1) fd8, of 0 bytes img])
      (use c2(2) i2 content len rng(2) nz t(1) in \<open>simp_all add: opened_file_def image_loaded_def\<close>)
  have ct: "current_ok t p" "fd_at t p fd = opened_file d" using c1 by (simp_all add: f fd_at_def)
  let ?u = "with_fd p fd clear_fd (with_fd p fd (at_position (length bytes)) t)"
  have close: "file_close (int fd) (with_fd p fd (at_position (length bytes)) t) = Some (SUCCESS, ?u)"
    by (rule file_close_in_use)
      (use ct fd8 fd_at_with_fd [OF ct(1) fd8 fd8] in \<open>simp_all add: at_position_def opened_file_def\<close>)
  have "load32 t (0x8048018 + of_nat 0) = word_at bytes 24"
  proof (rule load32_of_bytes)
    fix i :: nat assume "i < 4"
    then show "load8 t (0x8048018 + of_nat 0 + of_nat i) = Some (bytes ! (24 + i))"
      using t(2) [rule_format, of "24 + i"] len(1) by simp
  qed (use len(1) in simp)
  then have entry: "load32 t 0x8048018 = Some (the (word_at bytes 24))"
    using len(1) by (simp add: word_at_def)
  have cw: "current_ok (with_fd p fd (at_position 4) s2) p" using c2(1) by simp
  have gw: "get_current_pcb (with_fd p fd (at_position 4) s2) = Some p" using cw by (simp add: current_ok_def)
  have pw: "put_fd p (int fd) (\<lambda>f. f\<lparr>f_position := 0\<rparr>) (with_fd p fd (at_position 4) s2) = Some s2"
    using put_fd_current [OF cw fd8, of "\<lambda>f. f\<lparr>f_position := 0\<rparr>"] same by simp
  have prog: "load_program a name s = Some (the (word_at bytes 24), ?u)"
    using system_open_file [OF cur fd ready rd ty] s2(2,3) gw pw loop close entry
    by (simp add: load_program_def s1_def [symmetric])
  have "?u = with_fd p fd (\<lambda>_. clear_fd (at_position (length bytes) (opened_file d))) (s\<lparr>phys := f\<rparr>)"
  proof -
    have "t = with_fd p fd (\<lambda>_. opened_file d) (s\<lparr>phys := f\<rparr>)" by (simp add: f s1_def with_fd_def fd_at_def)
    then show ?thesis using with_fd_twice [of "s\<lparr>phys := f\<rparr>" p fd] cur fd8 by (simp add: o_def)
  qed
  moreover have "t = with_fd p fd (\<lambda>_. opened_file d) (s\<lparr>phys := f\<rparr>)" by (simp add: f s1_def with_fd_def fd_at_def)
  then have "image_loaded (s\<lparr>phys := f\<rparr>) img" "load8 (s\<lparr>phys := f\<rparr>) v = load8 t v" for v using it by simp_all
  ultimately show ?thesis using prog t(2) by auto
qed

end
