(* ===== verification/ArgProps.thy ===== *)
theory ArgProps
  imports System
begin

text \<open>
  The command line of \<open>execute\<close>. A command is a string of words separated by blanks; the first
  is the program, up to three more are kept as the arguments, separated by single blanks and
  with a NUL at the end. Whatever the command, the writes stay inside the 128 bytes of the
  buffer.
\<close>

subsection \<open>The scanners on a string\<close>

lemma c_string_at:
  assumes "c_string rd xs" "i \<le> length xs"
  shows "rd i = Some (if i < length xs then xs ! i else 0)"
  using assms by (auto simp: c_string_def)

lemma c_string_nonzero: "c_string rd xs \<Longrightarrow> i < length xs \<Longrightarrow> xs ! i \<noteq> 0"
  unfolding c_string_def by (metis nth_mem)

lemma skip_spaces_string:
  assumes "c_string rd xs" "i \<le> length xs"
  shows "skip_spaces rd i = Some (i + length (takeWhile (\<lambda>c. c = 32) (drop i xs)))"
  using assms(2)
proof (induction "length xs - i" arbitrary: i)
  case 0
  then show ?case using c_string_at [OF assms(1), of i] by (subst skip_spaces.simps) simp
next
  case (Suc n)
  then have i: "i < length xs" by simp
  have "skip_spaces rd (Suc i) = Some (Suc i + length (takeWhile (\<lambda>c. c = 32) (drop (Suc i) xs)))"
    by (rule Suc.hyps(1)) (use Suc.hyps(2) i in auto)
  then show ?case
    using c_string_at [OF assms(1), of i] i
    by (subst skip_spaces.simps) (simp add: Cons_nth_drop_Suc [symmetric])
qed

lemma copy_word_string:
  assumes "c_string rd xs" "i \<le> length xs"
  shows "copy_word rd i =
    (let w = take (127 - i) (takeWhile (\<lambda>c. c \<noteq> 32) (drop i xs)) in Some (w, i + length w))"
  using assms(2)
proof (induction "length xs - i" arbitrary: i)
  case 0
  then show ?case using c_string_at [OF assms(1), of i] by (subst copy_word.simps) simp
next
  case (Suc n)
  then have i: "i < length xs" by simp
  have nz: "xs ! i \<noteq> 0" by (rule c_string_nonzero [OF assms(1) i])
  have "copy_word rd (Suc i) = (let w = take (127 - Suc i) (takeWhile (\<lambda>c. c \<noteq> 32) (drop (Suc i) xs)) in Some (w, Suc i + length w))"
    by (rule Suc.hyps(1)) (use Suc.hyps(2) i in auto)
  then show ?case
    using c_string_at [OF assms(1), of i] i nz
    by (subst copy_word.simps) (auto simp: Cons_nth_drop_Suc [symmetric] Let_def take_Cons' Suc_diff_Suc)
qed

lemma put_args_room:
  "i + length w \<le> length args \<Longrightarrow> put_args args i w = Some (take i args @ w @ drop (i + length w) args)"
proof (induction w arbitrary: i args)
  case (Cons c w)
  have "arr_set args (int i) c = Some (args[i := c])" using Cons.prems by simp
  moreover have "args[i := c] = take i args @ c # drop (Suc i) args"
    using Cons.prems by (simp add: upd_conv_take_nth_drop)
  ultimately show ?case using Cons.IH [of "Suc i" "args[i := c]"] Cons.prems by (simp add: add.commute)
qed simp

subsection \<open>No write outside the buffer\<close>

lemma parse_args_total:
  assumes str: "c_string rd xs"
  shows "i \<le> length xs \<Longrightarrow> length args = 128 \<Longrightarrow> k \<le> 3 \<Longrightarrow> (i < 127 \<Longrightarrow> j + 2 \<le> i) \<Longrightarrow> j \<le> 128 - k \<Longrightarrow>
    \<exists>r. parse_args rd k i j args = Some r \<and> length (fst r) = 128 \<and> snd r \<le> 128"
proof (induction k arbitrary: i j args)
  case (Suc k)
  define w where "w = take (127 - i) (takeWhile (\<lambda>c. c \<noteq> 32) (drop i xs))"
  have cw: "copy_word rd i = Some (w, i + length w)"
    using copy_word_string [OF str Suc.prems(1)] by (simp add: w_def Let_def)
  define i1 where "i1 = i + length w"
  have i1: "i1 \<le> length xs"
    using Suc.prems(1) length_takeWhile_le [of "\<lambda>c. c \<noteq> 32" "drop i xs"] by (auto simp: i1_def w_def)
  define i2 where "i2 = i1 + length (takeWhile (\<lambda>c. c = 32) (drop i1 xs))"
  have sk: "skip_spaces rd i1 = Some i2" using skip_spaces_string [OF str i1] by (simp add: i2_def)
  have i2: "i2 \<le> length xs"
    using i1 length_takeWhile_le [of "\<lambda>c. c = 32" "drop i1 xs"] by (auto simp: i2_def)
  have j: "j + length w \<le> 127" "j + length w + 1 \<le> 128 - k"
    using Suc.prems(3-5) by (cases "i < 127"; simp add: w_def)+
  obtain args' where put: "put_args args j w = Some args'" "length args' = 128"
    using put_args_room [of j w args] j(1) Suc.prems(2) by auto
  show ?case
  proof (cases "rd i = Some 0 \<or> rd i2 = Some 0")
    case True
    then show ?thesis
      using c_string_at [OF str Suc.prems(1)] cw put sk j arr_set_Some [of 0 args 0] Suc.prems(2)
        arr_set_Some [of "j + length w" args' 0] Suc.prems(3,5)
      by (auto simp: i1_def Let_def)
  next
    case False
    obtain c c2 where c: "rd i = Some c" "rd i2 = Some c2" "c \<noteq> 0" "c2 \<noteq> 0"
      using False c_string_at [OF str Suc.prems(1)] c_string_at [OF str i2] by auto
    have "\<exists>r. parse_args rd k i2 (j + length w + 1) (args'[j + length w := 32]) = Some r \<and> length (fst r) = 128 \<and> snd r \<le> 128"
    proof (rule Suc.IH [OF i2])
      show "j + length w + 1 + 2 \<le> i2" if "i2 < 127"
      proof -
        have "i < 127" "i1 < 127" using that by (simp_all add: i1_def i2_def)
        then have "w = takeWhile (\<lambda>c. c \<noteq> 32) (drop i xs)" by (auto simp: w_def i1_def min_def split: if_splits)
        moreover have "i1 < length xs"
        proof (rule ccontr)
          assume "\<not> i1 < length xs"
          then have "i2 = length xs" using i1 i2 by (simp add: i2_def)
          then show False using c(2,4) c_string_at [OF str i2] by simp
        qed
        ultimately have "xs ! i1 = 32"
          using nth_length_takeWhile [of "\<lambda>c. c \<noteq> 32" "drop i xs"] by (auto simp: i1_def)
        then have "0 < length (takeWhile (\<lambda>c. c = 32) (drop i1 xs))"
          using \<open>i1 < length xs\<close> by (simp add: Cons_nth_drop_Suc [symmetric])
        then have "i1 + 1 \<le> i2" unfolding i2_def by linarith
        then show ?thesis using Suc.prems(4) [OF \<open>i < 127\<close>] unfolding i1_def by linarith
      qed
    qed (use put(2) Suc.prems(3) j(2) in auto)
    then show ?thesis
      using c cw put sk arr_set_Some [of "j + length w" args' 32] j(1) by (auto simp: i1_def add.assoc)
  qed
qed simp

subsection \<open>The arguments of a line\<close>

function words :: "u8 list \<Rightarrow> u8 list list" where
  "words xs = (case dropWhile (\<lambda>c. c = 32) xs of
     [] \<Rightarrow> []
   | c # cs \<Rightarrow> takeWhile (\<lambda>c. c \<noteq> 32) (c # cs) # words (dropWhile (\<lambda>c. c \<noteq> 32) (c # cs)))"
  by pat_completeness auto
termination
proof (relation "measure length")
  fix xs c cs assume "dropWhile (\<lambda>c. c = 32) xs = c # (cs :: u8 list)"
  then have "length (c # cs) \<le> length xs" "c \<noteq> 32"
    using length_dropWhile_le [of "\<lambda>c. c = 32" xs] hd_dropWhile [of "\<lambda>c. c = 32" xs] by auto
  then show "(dropWhile (\<lambda>c. c \<noteq> 32) (c # cs), xs) \<in> measure length"
    using length_dropWhile_le [of "\<lambda>c. c \<noteq> 32" cs] by simp
qed simp

declare words.simps [simp del]

text \<open>What \<open>execute\<close> stores: at most \<open>k\<close> words, a NUL after the last word of the line, a blank after
  every other one.\<close>

fun arg_text :: "nat \<Rightarrow> u8 list list \<Rightarrow> u8 list" where
  "arg_text 0 ws = []"
| "arg_text (Suc k) [] = []"
| "arg_text (Suc k) [w] = w @ [0]"
| "arg_text (Suc k) (w # v # ws) = w @ [32] @ arg_text k (v # ws)"

lemma words_skip: "words (dropWhile (\<lambda>c. c = 32) xs) = words xs"
  by (subst (1 2) words.simps) simp

lemma drop_takeWhile: "drop (length (takeWhile P xs)) xs = dropWhile P xs"
  by (metis append_eq_conv_conj takeWhile_dropWhile_id)

lemma arg_text_length: "length (arg_text k (words xs)) \<le> length xs + 1"
proof (induction "length xs" arbitrary: xs k rule: less_induct)
  case less
  show ?case
  proof (cases "dropWhile (\<lambda>c. c = 32) xs")
    case Nil
    then have "words xs = []" by (subst words.simps) (simp only: list.case)
    then show ?thesis by (cases k) auto
  next
    case (Cons c cs)
    let ?w = "takeWhile (\<lambda>c. c \<noteq> 32) (c # cs)" and ?r = "dropWhile (\<lambda>c. c \<noteq> 32) (c # cs)"
    have ws: "words xs = ?w # words ?r" using Cons by (subst words.simps) simp
    have len: "length ?w + length ?r \<le> length xs"
      using length_dropWhile_le [of "\<lambda>c. c = 32" xs] Cons
      by (metis length_append takeWhile_dropWhile_id)
    show ?thesis
    proof (cases "words ?r = [] \<or> k = 0")
      case True
      then show ?thesis using ws len by (cases k) auto
    next
      case False
      then obtain n where k: "k = Suc n" by (cases k) auto
      obtain d ds where r: "?r = d # ds" using False by (cases ?r) (auto simp: words.simps)
      then have "d = 32" using hd_dropWhile [of "\<lambda>c. c \<noteq> 32" "c # cs"] by auto
      then have w: "words ?r = words ds" unfolding r by (subst words.simps) (simp add: words.simps)
      have "length (arg_text n (words ds)) \<le> length ds + 1" by (rule less) (use len r in simp)
      then show ?thesis using ws k len r w False by (cases "words ds") auto
    qed
  qed
qed

text \<open>From index \<open>i\<close>, not at a blank, with \<open>j\<close> bytes stored so far; a line of at most 127 bytes.\<close>

lemma parse_args_words:
  assumes str: "c_string rd xs" and short: "length xs \<le> 127"
  shows "i \<le> length xs \<Longrightarrow> (i < length xs \<Longrightarrow> xs ! i \<noteq> 32) \<Longrightarrow> length args = 128 \<Longrightarrow> j \<le> i \<Longrightarrow>
     words (drop i xs) \<noteq> [] \<Longrightarrow>
     parse_args rd k i j args =
       (let out = arg_text k (words (drop i xs)) in
        Some (take j args @ out @ drop (j + length out) args, j + length out))"
proof (induction k arbitrary: i j args)
  case (Suc k)
  have i: "i < length xs"
    using Suc.prems(1,5) by (cases "i = length xs") (auto simp: words.simps)
  let ?w = "takeWhile (\<lambda>c. c \<noteq> 32) (drop i xs)"
  define i1 where "i1 = i + length ?w"
  have i1: "i1 \<le> length xs" using length_takeWhile_le [of "\<lambda>c. c \<noteq> 32" "drop i xs"] i by (simp add: i1_def)
  have w: "take (127 - i) ?w = ?w" using i1 short by (simp add: i1_def)
  have d: "drop i xs = xs ! i # drop (Suc i) xs" using i by (simp add: Cons_nth_drop_Suc)
  define i2 where "i2 = i1 + length (takeWhile (\<lambda>c. c = 32) (drop i1 xs))"
  have i2: "i2 \<le> length xs"
    using i1 length_takeWhile_le [of "\<lambda>c. c = 32" "drop i1 xs"] by (auto simp: i2_def)
  have d1: "drop i1 xs = dropWhile (\<lambda>c. c \<noteq> 32) (drop i xs)"
    unfolding i1_def by (simp add: drop_takeWhile [symmetric] add.commute)
  have d2: "drop i2 xs = dropWhile (\<lambda>c. c = 32) (drop i1 xs)"
    unfolding i2_def by (simp add: drop_takeWhile [symmetric] add.commute)
  have ws: "words (drop i xs) = ?w # words (drop i2 xs)"
    using Suc.prems(2) [OF i] by (subst words.simps) (simp add: d2 d1 words_skip d)
  have cw: "copy_word rd i = Some (?w, i1)"
    using copy_word_string [OF str Suc.prems(1)] w by (simp add: Let_def i1_def)
  have sk: "skip_spaces rd i1 = Some i2" using skip_spaces_string [OF str i1] by (simp add: i2_def)
  have nz: "rd i = Some (xs ! i)" "xs ! i \<noteq> 0"
    using c_string_at [OF str Suc.prems(1)] i c_string_nonzero [OF str i] by auto
  have room: "j + length ?w \<le> 127" using i1 short Suc.prems(4) by (simp add: i1_def)
  let ?args = "take j args @ ?w @ drop (j + length ?w) args"
  have put: "put_args args j ?w = Some ?args" by (rule put_args_room) (use room Suc.prems(3) in simp)
  have upd: "?args[j + length ?w := c] = take j args @ ?w @ c # drop (Suc (j + length ?w)) args" for c
    using room Suc.prems(3) by (simp add: list_update_append Cons_nth_drop_Suc [symmetric])
  have set: "arr_set ?args (int (j + length ?w)) c = Some (take j args @ ?w @ c # drop (Suc (j + length ?w)) args)" for c
    by (subst arr_set_Some) (use room Suc.prems(3) upd in simp_all)
  show ?case
  proof (cases "i2 = length xs")
    case True
    then have "rd i2 = Some 0" "words (drop i2 xs) = []" using str by (simp_all add: c_string_def words.simps)
    then show ?thesis using nz cw put sk set [of 0] ws by (simp add: Let_def add.assoc)
  next
    case False
    then have lt: "i2 < length xs" using i2 by simp
    have n32: "xs ! i2 \<noteq> 32"
      using d2 hd_dropWhile [of "\<lambda>c. c = 32" "drop i1 xs"] lt by (metis hd_drop_conv_nth drop_eq_Nil not_le)
    have c2: "rd i2 = Some (xs ! i2)" "xs ! i2 \<noteq> 0"
      using c_string_at [OF str i2] lt c_string_nonzero [OF str lt] by auto
    have ne: "words (drop i2 xs) \<noteq> []"
      using lt n32 by (subst words.simps) (simp add: Cons_nth_drop_Suc [symmetric])
    have "i1 \<noteq> i2"
      using d1 hd_dropWhile [of "\<lambda>c. c \<noteq> 32" "drop i xs"] lt n32 by (metis hd_drop_conv_nth drop_eq_Nil not_le)
    moreover have "i1 \<le> i2" by (simp add: i2_def)
    ultimately have "i1 + 1 \<le> i2" by linarith
    then have j2: "j + length ?w + 1 \<le> i2" using Suc.prems(4) unfolding i1_def by linarith
    let ?args2 = "take j args @ ?w @ 32 # drop (Suc (j + length ?w)) args"
    have "parse_args rd k i2 (j + length ?w + 1) ?args2 =
       (let out = arg_text k (words (drop i2 xs)) in
        Some (take (j + length ?w + 1) ?args2 @ out @ drop (j + length ?w + 1 + length out) ?args2,
          j + length ?w + 1 + length out))"
      by (rule Suc.IH [OF i2 n32 _ j2 ne]) (use room Suc.prems(3) in simp)
    then show ?thesis using nz cw put sk set [of 32] c2 ws ne room Suc.prems(3)
      by (cases "words (drop i2 xs)") (simp_all add: Let_def add_ac)
  qed
qed (simp add: Let_def)

text \<open>The whole of the argument parsing, on a buffer of zeros.\<close>

definition saved_args :: "u8 list list \<Rightarrow> pcb \<Rightarrow> pcb" where
  "saved_args ws pcb =
     (let out = arg_text 3 ws in pcb\<lparr>p_args := out @ drop (length out) (p_args pcb), p_args_len := of_nat (length out)\<rparr>)"

lemma save_args_words:
  assumes str: "c_string rd xs" "length xs \<le> 127" and i: "idx \<le> length xs"
    and p: "child \<noteq> 0" "p_args (pcb_mem s child) = replicate 128 0"
  shows "save_args rd idx child s = put_pcb child (saved_args (words (drop idx xs))) s"
proof -
  define i2 where "i2 = idx + length (takeWhile (\<lambda>c. c = 32) (drop idx xs))"
  have sk: "skip_spaces rd idx = Some i2" using skip_spaces_string [OF str(1) i] by (simp add: i2_def)
  have i2: "i2 \<le> length xs"
    using i length_takeWhile_le [of "\<lambda>c. c = 32" "drop idx xs"] by (auto simp: i2_def)
  have d2: "drop i2 xs = dropWhile (\<lambda>c. c = 32) (drop idx xs)"
    unfolding i2_def by (simp add: drop_takeWhile [symmetric] add.commute)
  have ws: "words (drop i2 xs) = words (drop idx xs)" unfolding d2 by (rule words_skip)
  have gp: "get_pcb child s = Some (pcb_mem s child)" using p(1) by (simp add: get_pcb_def)
  define out where "out = arg_text 3 (words (drop idx xs))"
  have "parse_args rd 3 i2 0 (replicate 128 0) = Some (out @ drop (length out) (replicate 128 0), length out)"
  proof (cases "words (drop idx xs) = []")
    case True
    have "i2 = length xs"
    proof (rule ccontr)
      assume "i2 \<noteq> length xs"
      then have lt: "i2 < length xs" using i2 by simp
      then have "xs ! i2 \<noteq> 32"
        using d2 hd_dropWhile [of "\<lambda>c. c = 32" "drop idx xs"] by (metis hd_drop_conv_nth drop_eq_Nil not_le)
      then show False using True lt unfolding ws [symmetric]
        by (subst (asm) words.simps) (simp add: Cons_nth_drop_Suc [symmetric])
    qed
    then show ?thesis
      using c_string_at [OF str(1) i2] arr_set_Some [of 0 "replicate 128 (0 :: u8)" 0] True
      by (simp add: numeral_3_eq_3 out_def list_update_same_conv)
  next
    case False
    have "xs ! i2 \<noteq> 32" if "i2 < length xs"
      using d2 hd_dropWhile [of "\<lambda>c. c = 32" "drop idx xs"] that by (metis hd_drop_conv_nth drop_eq_Nil not_le)
    then show ?thesis
      using parse_args_words [OF str i2, of "replicate 128 0" 0 3] False by (simp add: ws out_def Let_def)
  qed
  then show ?thesis
    using sk gp p by (simp add: save_args_def put_pcb_def saved_args_def Let_def out_def)
qed

end
