(* ===== verification/ExecProps.thy ===== *)
theory ExecProps
  imports LoadProps ArgProps
begin

text \<open>
  \<open>execute\<close> on a command line, from the line to the running program: the child is created with
  the arguments of the line, a regular file with the ELF magic number is loaded and entered, and
  everything else fails with the state of before.
\<close>

text \<open>The state in which \<open>execute\<close> loads the program: PID \<open>c\<close> is in the table, runs in the group
  of its parent, and has its arguments.\<close>

definition forked :: "int \<Rightarrow> u8 list list \<Rightarrow> 'a procs_scheme \<Rightarrow> 'a procs_scheme" where
  "forked c ws s = (cli s)\<lparr>pid_array := (pid_array s)[nat c := get_pcb_addr c],
     active_pid := (active_pid s)[nat (current_group s) := c],
     pcb_mem := (pcb_mem s)(get_pcb_addr c := saved_args ws (fresh_pcb c (running s)))\<rparr>"

lemma words_line:
  assumes "words xs = name # ws"
  defines "base \<equiv> length (takeWhile (\<lambda>c. c = 32) xs)"
  shows "name = takeWhile (\<lambda>c. c \<noteq> 32) (drop base xs)" "ws = words (drop (base + length name) xs)"
    "name \<noteq> []"
proof -
  have d: "drop base xs = dropWhile (\<lambda>c. c = 32) xs" by (simp add: base_def drop_takeWhile)
  obtain c cs where c: "dropWhile (\<lambda>c. c = 32) xs = c # cs"
    using assms(1) by (subst (asm) words.simps) (auto split: list.splits)
  then have "c \<noteq> 32" using hd_dropWhile [of "\<lambda>c. c = 32" xs] by auto
  have nw: "name = takeWhile (\<lambda>c. c \<noteq> 32) (c # cs)" "ws = words (dropWhile (\<lambda>c. c \<noteq> 32) (c # cs))"
    using assms(1) c by (subst (asm) words.simps, simp)+
  show n: "name = takeWhile (\<lambda>c. c \<noteq> 32) (drop base xs)" using nw(1) d c by simp
  show "name \<noteq> []" using nw(1) \<open>c \<noteq> 32\<close> by simp
  have "dropWhile (\<lambda>c. c \<noteq> 32) (c # cs) = drop (length name) (drop base xs)"
    unfolding nw(1) d c by (simp only: drop_takeWhile)
  then show "ws = words (drop (base + length name) xs)" using nw(2) by (simp add: add.commute)
qed

lemma execute_line:
  assumes ok: "procs_ok s" and str: "c_string cmd xs" "length xs \<le> 127" and line: "words xs = name # ws"
    and c: "get_new_pid s = Some c" "c \<noteq> FAILURE"
  shows "system_execute ma rl esp ebp (Some cmd) s =
    start_child ma rl esp ebp name c (get_pcb_addr c) (get_pcb_addr (running s)) (forked c ws s)"
proof -
  let ?base = "length (takeWhile (\<lambda>c. c = 32) xs)"
  note w = words_line [OF line]
  have base: "?base \<le> length xs" by (rule length_takeWhile_le)
  have sk: "skip_spaces cmd 0 = Some ?base" using skip_spaces_string [OF str(1), of 0] by simp
  let ?cmd = "\<lambda>i. cmd (?base + i)" and ?ys = "drop ?base xs"
  have str': "c_string ?cmd ?ys"
    using str(1) base c_string_nonzero [OF str(1)]
    by (auto simp: c_string_def in_set_conv_nth)
  have "take 127 name = name" using w(1) str(2) length_takeWhile_le [of "\<lambda>c. c \<noteq> 32" ?ys] by simp
  then have cw: "copy_word ?cmd 0 = Some (name, length name)"
    using copy_word_string [OF str', of 0] w(1) by (simp add: Let_def)
  have ok': "procs_ok (cli s)" using ok by (subst procs_ok_frame [OF procs_frame_kview [of "cli s" s]]) simp_all
  have cli: "pid_array (cli s) = pid_array s" "active_pid (cli s) = active_pid s" "pcb_mem (cli s) = pcb_mem s"
    "current_group (cli s) = current_group s" "running (cli s) = running s" "live (cli s) = live s"
    by (simp_all add: cli_def running_def live_def)
  have gp: "get_new_pid (cli s) = Some c"
  proof -
    have "new_pid_from i k (cli s) = new_pid_from i k s" for i k
      by (induction k arbitrary: i) (simp_all add: cli cong: if_cong)
    then show ?thesis using c(1) by (simp add: get_new_pid_def)
  qed
  have c7: "0 \<le> c" "c < 7" using get_new_pid_cases [OF ok' gp] c(2) by auto
  have par: "get_current_pcb (cli s) = Some (get_pcb_addr (running s))"
    using current_pcb_running [OF ok'] cli by simp
  let ?u = "(cli s)\<lparr>pid_array := (pid_array s)[nat c := get_pcb_addr c],
       active_pid := (active_pid s)[nat (current_group s) := c],
       pcb_mem := (pcb_mem s)(get_pcb_addr c := fresh_pcb c (running s))\<rparr>"
  have su: "pcb_setup c (cli s) = Some (get_pcb_addr c, ?u)" using pcb_setup_eq [OF ok' c7] cli by simp
  have nz: "get_pcb_addr c \<noteq> 0" by (rule get_pcb_addr_nonzero [OF c7])
  have "save_args ?cmd (length name) (get_pcb_addr c) ?u = put_pcb (get_pcb_addr c) (saved_args (words (drop (length name) ?ys))) ?u"
    by (rule save_args_words [OF str'])
      (use str(2) w(1) nz length_takeWhile_le [of "\<lambda>c. c \<noteq> 32" ?ys] in \<open>simp_all add: fresh_pcb_def zero_pcb_def\<close>)
  also have "words (drop (length name) ?ys) = ws" using w(2) by (simp add: add.commute)
  also have "put_pcb (get_pcb_addr c) (saved_args ws) ?u = Some (forked c ws s)"
    using nz by (simp add: put_pcb_def forked_def)
  finally have sa: "save_args ?cmd (length name) (get_pcb_addr c) ?u = Some (forked c ws s)" .
  show ?thesis
    by (simp add: system_execute_def Let_def sk cw gp par su nz sa)
qed

lemma forked_ok:
  assumes ok: "procs_ok s" and c: "0 \<le> c" "c < 7" "c \<notin> live s" and len: "length (arg_text 3 ws) \<le> 128"
  shows "procs_ok (forked c ws s)" "running (forked c ws s) = c" "live (forked c ws s) = insert c (live s)"
    and "pcb_of (forked c ws s) c = saved_args ws (fresh_pcb c (running s))"
    and "i \<in> live s \<Longrightarrow> pcb_of (forked c ws s) i = pcb_of s i"
proof -
  let ?pcb = "saved_args ws (fresh_pcb c (running s))"
  have f: "procs_ok (forked c ws s) \<and> live (forked c ws s) = insert c (live s) \<and> running (forked c ws s) = c \<and>
      parent_of (forked c ws s) c = running s \<and> (\<forall>i\<in>live s. pcb_of (forked c ws s) i = pcb_of s i)"
    by (rule procs_ok_fork [OF ok c, of _ ?pcb])
      (use len in \<open>simp_all add: forked_def cli_def saved_args_def pcb_ok_def fresh_pcb_def zero_pcb_def Let_def\<close>)
  then show "procs_ok (forked c ws s)" "running (forked c ws s) = c" "live (forked c ws s) = insert c (live s)"
    and "i \<in> live s \<Longrightarrow> pcb_of (forked c ws s) i = pcb_of s i"
    by blast+
  show "pcb_of (forked c ws s) c = ?pcb" by (simp add: pcb_of_def forked_def)
qed

lemma words_length: "words xs = name # ws \<Longrightarrow> length (arg_text 3 ws) \<le> length xs"
proof -
  assume line: "words xs = name # ws"
  note w = words_line [OF line]
  have "length (arg_text 3 ws) \<le> length (drop (length (takeWhile (\<lambda>c. c = 32) xs) + length name) xs) + 1"
    unfolding w(2) by (rule arg_text_length)
  moreover have "length name \<ge> 1" using w(3) by (cases name) auto
  moreover have "length (takeWhile (\<lambda>c. c = 32) xs) + length name \<le> length xs"
    using length_takeWhile_le [of "\<lambda>c. c = 32" xs]
      length_takeWhile_le [of "\<lambda>c. c \<noteq> 32" "drop (length (takeWhile (\<lambda>c. c = 32) xs)) xs"] w(1)
    by simp
  ultimately show ?thesis by simp
qed

lemma image_loaded_map:
  assumes "image_loaded s img" "boot_blk t = boot_blk s" "phys t = phys s" "pt0_addr t = pt0_addr s"
    and "page_directory t = (page_directory s)(32 := e)" "page_table_0 t = page_table_0 s"
  shows "image_loaded t img"
proof -
  have tr: "translate t v = translate s v" if "drop_bit 22 v = 1" for v
    using that assms(4-6) by (simp add: translate_def Let_def)
  have "load8 t v = load8 s v" if "drop_bit 22 v = 1" for v
    using tr [OF that] assms(3) by (simp add: load8_def)
  then show ?thesis
    using assms(1,2) tr by (simp add: image_loaded_def holds_image_def kernel_identity_def)
qed

text \<open>The state in which the program is loaded: its frame is behind the program page.\<close>

lemma mapped_child:
  assumes ok: "procs_ok s" and c: "0 \<le> c" "c < 7" "c \<notin> live s" and len: "length (arg_text 3 ws) \<le> 128"
    and img: "image_loaded s img" and ready: "tables_ready s"
  defines "m \<equiv> map_page PROG_VIRT_ADDR (get_prog_phys_addr c) 1 1 1 (forked c ws s)"
  shows "image_loaded m img" "tables_ready m" "maps_program m c" "current_ok m (get_pcb_addr c)"
    "lowest_free m (get_pcb_addr c) 2" "1 \<le> c" "procs_ok m" "running m = c"
proof -
  note f = forked_ok [OF ok c len]
  have fr: "procs_frame (forked c ws s) m" by (simp add: m_def)
  show "image_loaded m img"
  proof (rule image_loaded_map [OF img, of _ "prog_entry c"])
    show "boot_blk m = boot_blk s" by (simp add: m_def map_page_def Let_def forked_def cli_def)
  qed (simp_all add: m_def map_program_tables forked_def cli_def)
  show "tables_ready m" using ready by (simp add: m_def tables_ready_def forked_def cli_def)
  show "maps_program m c" by (simp add: m_def maps_program_def map_program_tables)
  show okm: "procs_ok m" using f(1) by (subst procs_ok_frame [OF fr])
  show run: "running m = c" using f(2) procs_frame_view(2) [OF fr] by simp
  show "current_ok m (get_pcb_addr c)" using current_ok_running [OF okm] run by simp
  have "p_fd_table (pcb_mem m (get_pcb_addr c)) = std_file Stdin_ops # std_file Stdout_ops # replicate 6 zero_file"
    by (simp add: m_def forked_def saved_args_def Let_def fresh_pcb_def)
  then show "lowest_free m (get_pcb_addr c) 2"
    by (auto simp: lowest_free_def fd_at_def std_file_def zero_file_def less_2_cases_iff nth_Cons split: nat.splits)
  have "0 \<in> live s" using ok by (simp add: procs_ok_def tree_ok_def)
  then show "1 \<le> c" using c by (cases "c = 0") auto
qed

text \<open>A program that is there.\<close>

lemma literal_line:
  assumes "c_string cmd xs" "words xs = name # ws"
  shows "c_string (literal name) name"
proof -
  have "set name \<subseteq> set xs"
    using words_line(1) [OF assms(2)] by (metis set_takeWhileD set_drop_subset subset_iff)
  then show ?thesis using assms(1) by (intro c_string_literal) (auto simp: c_string_def)
qed

lemma execute_program:
  assumes ok: "procs_ok s" and ready: "tables_ready s" and img: "image_loaded s img" "names_end img"
    and dir: "directory img = Some ds" "word_at img 4 = Some count"
    and str: "c_string cmd xs" "length xs \<le> 127" and line: "words xs = name # ws"
    and c: "get_new_pid s = Some c" "c \<noteq> FAILURE"
    and look: "lookup_name img name = Some d" "filetype d = FILE_TYPE"
    and content: "file_bytes img (unat (word_of_int (inode_num d) :: u32)) = Some bytes"
    and run: "runnable bytes" and ma: "scratch_word s img ma"
  shows "\<exists>t. system_execute ma rl esp ebp (Some cmd) s =
      Some (Exec_entered \<lparr>i_eip = the (word_at bytes 24), i_cs = USER_CS, i_esp = 0x83FFFFC, i_ss = USER_DS\<rparr>, t) \<and>
    running t = c \<and> (\<forall>i<length bytes. load8 t (0x8048000 + of_nat i) = Some (bytes ! i)) \<and>
    p_args (pcb_of t c) = arg_text 3 ws @ replicate (128 - length (arg_text 3 ws)) 0 \<and>
    unat (p_args_len (pcb_of t c)) = length (arg_text 3 ws) \<and> fds_ok (pcb_of t c)"
proof -
  let ?p = "get_pcb_addr c"
  have c7: "0 \<le> c" "c < 7" "c \<notin> live s" using get_new_pid_cases [OF ok c(1)] c(2) by auto
  have alen: "length (arg_text 3 ws) \<le> 127" using words_length [OF line] str(2) by simp
  define m where "m = map_page PROG_VIRT_ADDR (get_prog_phys_addr c) 1 1 1 (forked c ws s)"
  have "length (arg_text 3 ws) \<le> 128" using alen by simp
  note mc = mapped_child [OF ok c7 this img(1) ready, folded m_def]
  have bb: "boot_blk m = boot_blk s" by (simp add: m_def map_page_def Let_def forked_def cli_def)
  have rd: "read_dentry_by_name (literal name) m = Some (SUCCESS, Some d)"
    using read_dentry_by_name_lookup [of m img, OF _ literal_line [OF str(1) line] img(2) dir] mc(1) look(1)
    by (simp add: image_loaded_def lookup_result_def)
  have "scratch_word m img ma" using ma by (simp add: scratch_word_def bb)
  then obtain f where f: "load_program ma (literal name) m = Some (the (word_at bytes 24),
        with_fd ?p 2 (\<lambda>_. clear_fd (at_position (length bytes) (opened_file d))) (m\<lparr>phys := f\<rparr>))"
    "\<forall>i<length bytes. load8 (m\<lparr>phys := f\<rparr>) (0x8048000 + of_nat i) = Some (bytes ! i)"
    using load_program_file [OF mc(4,5,2,1) rd look(2) content run mc(3,6) c7(2)] by blast
  have entry: "the (word_at bytes 24) \<noteq> word_of_int FAILURE"
    using run by (auto simp: runnable_def word_at_def)
  have nz: "?p \<noteq> 0" "get_pcb_addr (running s) \<noteq> 0"
    using get_pcb_addr_nonzero c7 live_range [OF running_live [OF ok]] by blast+
  have ne: "?p \<noteq> get_pcb_addr (running s)"
    using get_pcb_addr_inj [of c "running s"] live_range [OF running_live [OF ok]] running_live [OF ok] c7 by auto
  have pid: "p_pid (pcb_mem (forked c ws s) ?p) = c"
    by (simp add: forked_def saved_args_def Let_def fresh_pcb_def)
  define w where "w = with_fd ?p 2 (\<lambda>_. clear_fd (at_position (length bytes) (opened_file d))) (m\<lparr>phys := f\<rparr>)"
  define child where "child = (pcb_mem w ?p)\<lparr>p_eip := the (word_at bytes 24), p_esp := 0x83FFFFC\<rparr>"
  define t where "t = sti (w\<lparr>tss_ss0 := KERNEL_DS, tss_esp0 := get_kstack_addr c,
     pcb_mem := (pcb_mem w)(?p := child, get_pcb_addr (running s) :=
       (pcb_mem w (get_pcb_addr (running s)))\<lparr>p_esp := esp, p_ebp := ebp, p_eip := rl\<rparr>)\<rparr>)"
  have ex: "system_execute ma rl esp ebp (Some cmd) s =
      Some (Exec_entered \<lparr>i_eip = the (word_at bytes 24), i_cs = USER_CS, i_esp = 0x83FFFFC, i_ss = USER_DS\<rparr>, t)"
    using nz ne pid entry f(1)
    by (simp add: execute_line [OF ok str line c] start_child_def get_pcb_def put_pcb_def m_def [symmetric]
        w_def [symmetric] t_def child_def)
  have tr: "translate t v = translate (m\<lparr>phys := f\<rparr>) v" for v
    by (simp add: t_def w_def with_fd_def sti_def translate_def Let_def)
  have "load8 t v = load8 (m\<lparr>phys := f\<rparr>) v" for v
    by (simp add: load8_def tr) (simp add: t_def w_def with_fd_def sti_def)
  then have mem: "\<forall>i<length bytes. load8 t (0x8048000 + of_nat i) = Some (bytes ! i)" using f(2) by simp
  have "running t = running m" by (simp add: running_def t_def w_def with_fd_def sti_def)
  moreover have "p_args (pcb_of t c) = p_args (saved_args ws (fresh_pcb c (running s)))"
    "p_args_len (pcb_of t c) = p_args_len (saved_args ws (fresh_pcb c (running s)))"
    using ne by (simp_all add: pcb_of_def t_def child_def w_def with_fd_def sti_def m_def forked_def)
  moreover have "fds_ok (pcb_of t c)"
  proof -
    have "p_fd_table (pcb_of t c) = (p_fd_table (pcb_mem m ?p))[2 := clear_fd (at_position (length bytes) (opened_file d))]"
      using ne by (simp add: pcb_of_def t_def child_def w_def with_fd_def sti_def)
    moreover have "p_fd_table (pcb_mem m ?p) = p_fd_table (fresh_pcb c (running s))"
      by (simp add: m_def forked_def saved_args_def Let_def)
    moreover have "fd_ok (clear_fd (at_position (length bytes) (opened_file d)))"
      by (simp add: fd_ok_def clear_fd_def)
    ultimately show ?thesis
      using fds_ok_fresh [of c "running s"] set_update_subset_insert
      unfolding fds_ok_def by fastforce
  qed
  ultimately show ?thesis
    using ex mem mc(8) alen
    by (auto simp: saved_args_def Let_def fresh_pcb_def zero_pcb_def unat_of_nat take_bit_nat_eq_self)
qed

text \<open>A program that is not there.\<close>

lemma load_program_missing:
  "read_dentry_by_name name s = Some (FAILURE, None) \<Longrightarrow> load_program a name s = Some (word_of_int FAILURE, s)"
  by (simp add: load_program_def system_open_missing)

lemma execute_missing:
  assumes ok: "procs_ok s" and ready: "tables_ready s" and img: "image_loaded s img" "names_end img"
    and dir: "directory img = Some ds" "word_at img 4 = Some count"
    and str: "c_string cmd xs" "length xs \<le> 127" and line: "words xs = name # ws"
    and c: "get_new_pid s = Some c" "c \<noteq> FAILURE"
    and look: "lookup_name img name = None"
  shows "\<exists>t. system_execute ma rl esp ebp (Some cmd) s = Some (Exec_failed, t) \<and> exec_failed_ok s t"
proof -
  have c7: "0 \<le> c" "c < 7" "c \<notin> live s" using get_new_pid_cases [OF ok c(1)] c(2) by auto
  have alen: "length (arg_text 3 ws) \<le> 128" using words_length [OF line] str(2) by simp
  define m where "m = map_page PROG_VIRT_ADDR (get_prog_phys_addr c) 1 1 1 (forked c ws s)"
  note mc = mapped_child [OF ok c7 alen img(1) ready, folded m_def]
  have "read_dentry_by_name (literal name) m = Some (FAILURE, None)"
    using read_dentry_by_name_lookup [of m img, OF _ literal_line [OF str(1) line] img(2) dir] mc(1) look
    by (simp add: image_loaded_def lookup_result_def)
  then have load: "load_program ma (literal name) m = Some (word_of_int FAILURE, m)" by (rule load_program_missing)
  have nz: "get_pcb_addr c \<noteq> 0" "get_pcb_addr (running s) \<noteq> 0"
    using get_pcb_addr_nonzero c7 live_range [OF running_live [OF ok]] by blast+
  have pid: "p_pid (pcb_mem (forked c ws s) (get_pcb_addr c)) = c"
    by (simp add: forked_def saved_args_def Let_def fresh_pcb_def)
  define u where "u = map_page PROG_VIRT_ADDR (get_prog_phys_addr (p_pid (pcb_mem m (get_pcb_addr (running s))))) 1 1 1 m"
  have fr: "procs_frame m u" by (simp add: u_def)
  have "procs_ok u" using mc(7) by (subst procs_ok_frame [OF fr])
  moreover have "tables_ready u" using mc(2) by (simp add: u_def tables_ready_def)
  moreover have "fds_ok (pcb_of u (running u))"
  proof -
    have "pcb_of u c = saved_args ws (fresh_pcb c (running s))"
      by (simp add: u_def m_def pcb_of_def forked_def)
    then show ?thesis
      using fds_ok_fresh [of c "running s"] mc(8) procs_frame_view(2) [OF fr]
      by (simp add: fds_ok_def saved_args_def Let_def)
  qed
  ultimately have td: "pcb_teardown u = Some (torn_down u)" by (rule pcb_teardown_eq)
  have "system_execute ma rl esp ebp (Some cmd) s = Some (Exec_failed, torn_down u)"
    using nz pid load td
    by (simp add: execute_line [OF ok str line c] start_child_def get_pcb_def m_def [symmetric] u_def [symmetric])
  then show ?thesis using execute_processes [OF ok] by blast
qed

end
