(* ===== verification/Demo.thy ===== *)
theory Demo
  imports ExecProps Kernel
begin

text \<open>
  A concrete machine on which the properties of the kernel are tried out: three shells that run
  in the three groups (PIDs 1, 2, 3, children of the kernel), the address space of
  \<open>paging_init\<close> with the program page of PID 1, and a file system image with two directory
  entries, the program \<open>hi\<close> of 28 bytes - the ELF magic number, the entry point at offset 24 - and the
  directory itself.
\<close>

subsection \<open>The image\<close>

definition demo_dir :: "u8 list" where
  "demo_dir = [2, 0, 0, 0, 1, 0, 0, 0, 1, 0, 0, 0] @ replicate 52 0 @
     [104, 105] @ replicate 30 0 @ [2, 0, 0, 0, 0, 0, 0, 0] @ replicate 24 0 @
     [46] @ replicate 31 0 @ [1, 0, 0, 0, 0, 0, 0, 0] @ replicate 24 0"

definition demo_text :: "u8 list" where
  "demo_text = [0x7F, 0x45, 0x4C, 0x46] @ replicate 20 0 @ [0x18, 0x80, 0x04, 0x08]"

definition demo_img :: "u8 list" where
  "demo_img = demo_dir @ replicate 3904 0 @ [28, 0, 0, 0, 0, 0, 0, 0] @ replicate 4088 0 @ demo_text"

lemma demo_dir_length [simp]: "length demo_dir = 192"
  by (simp add: demo_dir_def)

lemma demo_img_length [simp]: "length demo_img = 8220"
  by (simp add: demo_img_def demo_text_def)

lemma demo_img_low: "a < 192 \<Longrightarrow> demo_img ! a = demo_dir ! a"
  by (simp add: demo_img_def nth_append)

lemma demo_img_inode: "k < 8 \<Longrightarrow> demo_img ! (4096 + k) = [28, 0, 0, 0, 0, 0, 0, 0] ! k"
  using nth_append_length_plus [of "demo_dir @ replicate 3904 0"
      "[28, 0, 0, 0, 0, 0, 0, 0] @ replicate 4088 0 @ demo_text" k]
  by (simp add: demo_img_def nth_append nth_Cons split: nat.splits del: nth_append_length_plus)

lemma demo_img_data: "demo_img ! (8192 + k) = demo_text ! k"
  using nth_append_length_plus [of "demo_dir @ replicate 3904 0 @ [28, 0, 0, 0, 0, 0, 0, 0] @ replicate 4088 0" demo_text k]
  by (simp add: demo_img_def del: nth_append_length_plus)

lemma demo_img_words:
  "word_at demo_img 0 = Some 2" "word_at demo_img 4 = Some 1" "word_at demo_img 160 = Some 1" "word_at demo_img 164 = Some 0"
  "word_at demo_img 96 = Some 2" "word_at demo_img 100 = Some 0"
  "word_at demo_img 4096 = Some 28" "word_at demo_img 4100 = Some 0"
  using demo_img_inode [of 0] demo_img_inode [of 1] demo_img_inode [of 2] demo_img_inode [of 3]
    demo_img_inode [of 4] demo_img_inode [of 5] demo_img_inode [of 6] demo_img_inode [of 7]
  by (simp_all add: word_at_def demo_img_low demo_dir_def nth_append)

lemma those_map_Some: "those (map Some xs) = Some xs"
  by (induction xs) simp_all

lemma demo_file_bytes: "file_bytes demo_img 0 = Some demo_text"
proof -
  have l: "length demo_text = 28" by (simp add: demo_text_def)
  have "file_byte demo_img 0 p = Some (demo_text ! p)" if "p < 28" for p
    using that by (simp add: file_byte_def demo_img_words byte_at_def demo_img_data)
  then have "map (file_byte demo_img 0) [0..<28] = map Some demo_text"
    by (intro nth_equalityI) (simp_all add: l)
  then show ?thesis
    by (simp add: file_bytes_def file_length_def demo_img_words those_map_Some)
qed

lemma demo_runnable: "runnable demo_text" "word_at demo_text 24 = Some 0x8048018"
  by (simp_all add: runnable_def word_at_def demo_text_def nth_append)

lemma demo_directory:
  "directory demo_img = Some [\<lparr>filename = [104, 105] @ replicate 30 0, filetype = 2, inode_num = 0\<rparr>,
     \<lparr>filename = [46] @ replicate 31 0, filetype = 1, inode_num = 0\<rparr>]"
proof -
  have "take 32 (drop 64 demo_img) = [104, 105] @ replicate 30 0" "take 32 (drop 128 demo_img) = [46] @ replicate 31 0"
    by (simp_all add: demo_img_def demo_dir_def)
  moreover have "[0..<nat (sint (2 :: u32))] = [0, 1]" by (simp add: upt_rec)
  ultimately show ?thesis
    by (simp add: directory_def dir_entry_def demo_img_words)
qed

lemma demo_lookup:
  "lookup_name demo_img [104, 105] = Some \<lparr>filename = [104, 105] @ replicate 30 0, filetype = 2, inode_num = 0\<rparr>"
  "lookup_name demo_img [120] = None"
  "lookup_name demo_img [46] = Some \<lparr>filename = [46] @ replicate 31 0, filetype = 1, inode_num = 0\<rparr>"
  by (simp_all add: lookup_name_def demo_directory demo_img_words entry_name_def)

lemma demo_names_end: "names_end demo_img"
  unfolding names_end_def demo_img_words
  by (auto intro!: exI [of _ 190] simp: demo_img_low demo_dir_def nth_append)

subsection \<open>The machine\<close>

definition demo_boot :: u32 where
  "demo_boot = 0x410000"

definition demo_phys :: "u32 \<Rightarrow> u8" where
  "demo_phys a =
     (if demo_boot \<le> a \<and> unat (a - demo_boot) < length demo_img then demo_img ! unat (a - demo_boot) else 0)"

definition demo_pcb :: "int \<Rightarrow> int \<Rightarrow> pcb" where
  "demo_pcb pid par = (fresh_pcb pid par)\<lparr>p_kernel_esp := 0x7F0000 + word_of_int pid, p_esp := 0x83FFFFC\<rparr>"

definition demo_term :: term_struct where
  "demo_term = \<lparr>read_in_progress = 0, newline_seen = 0, term_buff = replicate 128 0, term_buff_size = 0,
     cursor_x = 0, cursor_y = 0\<rparr>"

definition demo :: keyboard where
  "demo =
    \<lparr>phys = demo_phys,
     page_directory = (\<lambda>_. 0)(0 := 0x404007, 1 := 0x400083, 32 := prog_entry 1),
     page_table_0 = (\<lambda>_. 0)(0xB8 := 0xB8003, 0xBA := 0xBA003, 0xBB := 0xBB003, 0xBC := 0xBC003),
     pd_addr = 0x403000, pt0_addr = 0x404000, cr0 = 0x80000001, cr3 = 0x403000, cr4 = 0x10,
     eflags_if = True, port_in = (\<lambda>_. 0), port_out = [],
     screen_x = 0, screen_y = 0, video_mem = 0xB8000,
     master_mask = 0xFF, slave_mask = 0xFF,
     boot_blk = demo_boot,
     pid_array = [get_pcb_addr 0, get_pcb_addr 1, get_pcb_addr 2, get_pcb_addr 3, 0, 0, 0],
     active_pid = [1, 2, 3],
     pcb_mem = (\<lambda>_. zero_pcb)(get_pcb_addr 0 := demo_pcb 0 (-1), get_pcb_addr 1 := demo_pcb 1 0,
       get_pcb_addr 2 := demo_pcb 2 0, get_pcb_addr 3 := demo_pcb 3 0),
     current_group = 0, visible_group = 0, tss_ss0 = 0x18, tss_esp0 = get_kstack_addr 1,
     op_tables = (\<lambda>t. case t of Stdin_ops \<Rightarrow> stdin_table | Stdout_ops \<Rightarrow> stdout_table
       | File_type_ops \<Rightarrow> file_type_table | Dir_type_ops \<Rightarrow> dir_type_table | Rtc_type_ops \<Rightarrow> rtc_type_table),
     terms = [demo_term, demo_term, demo_term],
     rtc_read_waiting = [0, 0, 0], rtc_intr_count = [0, 0, 0], rtc_freq_divider = [2, 2, 2],
     cmd_queue = replicate 50 0, q_start = 0, q_end = 0,
     scan_code_extended = 0, scan_code_break = 0, lock_states = 0, keys = replicate 125 0\<rparr>"

lemma demo_fields [simp]:
  "phys demo = demo_phys" "boot_blk demo = demo_boot" "pt0_addr demo = 0x404000"
  "page_directory demo = (\<lambda>_. 0)(0 := 0x404007, 1 := 0x400083, 32 := prog_entry 1)"
  "page_table_0 demo = (\<lambda>_. 0)(0xB8 := 0xB8003, 0xBA := 0xBA003, 0xBB := 0xBB003, 0xBC := 0xBC003)"
  "pid_array demo = [get_pcb_addr 0, get_pcb_addr 1, get_pcb_addr 2, get_pcb_addr 3, 0, 0, 0]"
  "pcb_mem demo = (\<lambda>_. zero_pcb)(get_pcb_addr 0 := demo_pcb 0 (-1), get_pcb_addr 1 := demo_pcb 1 0,
       get_pcb_addr 2 := demo_pcb 2 0, get_pcb_addr 3 := demo_pcb 3 0)"
  "active_pid demo = [1, 2, 3]" "current_group demo = 0" "visible_group demo = 0"
  "video_mem demo = 0xB8000" "screen_x demo = 0" "screen_y demo = 0"
  "master_mask demo = 0xFF" "slave_mask demo = 0xFF" "eflags_if demo = True"
  "terms demo = [demo_term, demo_term, demo_term]"
  "rtc_read_waiting demo = [0, 0, 0]" "rtc_intr_count demo = [0, 0, 0]" "rtc_freq_divider demo = [2, 2, 2]"
  "cmd_queue demo = replicate 50 0" "q_start demo = 0" "q_end demo = 0" "keys demo = replicate 125 0"
  by (simp_all only: demo_def machine.simps console.simps pic.simps fs.simps procs.simps
      terminals.simps rtc.simps keyboard.simps)

lemma demo_tables_ready: "tables_ready demo"
  by (simp add: tables_ready_def demo_def)

lemma demo_pids: "live demo = {0, 1, 2, 3}"
proof (rule set_eqI)
  fix i
  have nz: "get_pcb_addr 0 \<noteq> 0" "get_pcb_addr 1 \<noteq> 0" "get_pcb_addr 2 \<noteq> 0" "get_pcb_addr 3 \<noteq> 0"
    by (simp_all add: get_pcb_addr_def)
  show "i \<in> live demo \<longleftrightarrow> i \<in> {0, 1, 2, 3}"
  proof (cases "0 \<le> i \<and> i < 7")
    case True
    then have "i \<in> {0, 1, 2, 3, 4, 5, 6}" using pid_cases by blast
    then show ?thesis using nz by (auto simp: live_def)
  next
    case False
    then show ?thesis by (auto simp: live_def)
  qed
qed

lemma pcb_addr_values:
  "get_pcb_addr 0 = 0x7FE000" "get_pcb_addr 1 = 0x7FC000" "get_pcb_addr 2 = 0x7FA000" "get_pcb_addr 3 = 0x7F8000"
  "get_pcb_addr 4 = 0x7F6000" "get_pcb_addr 5 = 0x7F4000" "get_pcb_addr 6 = 0x7F2000"
  by (simp_all add: get_pcb_addr_def)

lemma demo_pcbs: "i \<in> {0, 1, 2, 3} \<Longrightarrow> pcb_of demo i = demo_pcb i (if i = 0 then -1 else 0)"
  by (auto simp: pcb_of_def pcb_addr_values)

lemma demo_procs_ok: "procs_ok demo"
proof -
  have p: "pcb_ok i (pcb_of demo i)" if "i \<in> live demo" for i
    using that demo_pcbs [of i] pcb_ok_fresh unfolding demo_pids
    by (simp add: demo_pcb_def pcb_ok_def)
  have a: "\<forall>i\<in>live demo. pid_array demo ! nat i = get_pcb_addr i"
    by (simp add: demo_pids)
  have par: "parent_of demo i = (if i = 0 then -1 else 0)" if "i \<in> live demo" for i
    using that demo_pcbs [of i] unfolding demo_pids by (simp add: parent_of_def demo_pcb_def fresh_pcb_def)
  have "tree_ok {0, 1, 2, 3} (\<lambda>i. if i = 0 then -1 else 0) [1, 2, 3]"
    by (simp add: tree_ok_def)
  then have "tree_ok (live demo) (parent_of demo) (active_pid demo)"
    using tree_cong [of "{0, 1, 2, 3}" "\<lambda>i. if i = 0 then -1 else 0" "[1, 2, 3]" "parent_of demo"] par
    by (simp add: demo_pids)
  then show ?thesis using p a by (simp add: procs_ok_def)
qed

lemma demo_running: "running demo = 1"
  by (simp add: running_def)

lemma demo_user_space: "user_space demo"
  by (simp add: user_space_def table_installed_def screen_entry_def)

lemma demo_kinv: "kinv demo"
  using demo_procs_ok demo_user_space by (simp add: kinv_def demo_running maps_program_def)

lemma demo_translate:
  "drop_bit 22 v = 1 \<Longrightarrow> translate demo v = Some v"
  "drop_bit 22 v = 32 \<Longrightarrow> translate demo v = Some (big_frame (get_prog_phys_addr 1) v)"
  using big_frame_same [of v "0x400083"] page_entry_big [of 1 "get_prog_phys_addr 1" 1 1]
  by (simp_all add: translate_def prog_entry_def big_frame_def Let_def)

lemma demo_image_loaded: "image_loaded demo demo_img"
proof -
  have pg: "drop_bit 22 (demo_boot + of_nat a) = 1" if "a < 8220" for a
    using kernel_page_number [of "0x10000 + a"] that by (simp add: demo_boot_def)
  have "load8 demo (demo_boot + of_nat a) = Some (demo_img ! a)" if "a < 8220" for a
  proof -
    have "demo_boot \<le> demo_boot + of_nat a"
      using that by (simp add: demo_boot_def word_le_nat_alt unat_word_ariths unat_of_nat take_bit_nat_eq_self)
    then show ?thesis
      using that demo_translate(1) [OF pg [OF that]]
      by (simp add: load8_def demo_phys_def unat_of_nat_u32)
  qed
  then show ?thesis using pg demo_translate(1) by (simp add: image_loaded_def holds_image_def kernel_identity_def)
qed

lemma demo_new_pid: "get_new_pid demo = Some 4"
  using get_new_pid_eq [of demo] by (simp add: pcb_addr_values)

lemma demo_scratch: "scratch_word demo demo_img 0x7F0000"
proof -
  have "(0x7F0000 + of_nat k :: u32) \<noteq> demo_boot + of_nat b" if "k < 4" "b < 8220" for k b
  proof
    assume "(0x7F0000 + of_nat k :: u32) = demo_boot + of_nat b"
    then have "(of_nat (0x3E0000 + k) :: u32) = of_nat b" by (simp add: demo_boot_def algebra_simps)
    then show False using that by (subst (asm) word_of_nat_eq_iff) (simp add: take_bit_nat_eq_self)
  qed
  moreover have "drop_bit 22 (0x7F0000 + of_nat k :: u32) = 1" if "k < 4" for k
    using kernel_page_number [of "0x3F0000 + k"] that by simp
  ultimately show ?thesis by (simp add: scratch_word_def)
qed

text \<open>The line \<open>hi  a bc\<close>.\<close>

definition demo_line :: "u8 list" where
  "demo_line = [104, 105, 32, 32, 97, 32, 98, 99]"

lemma demo_words: "words demo_line = [[104, 105], [97], [98, 99]]" "words [120] = [[120]]"
  by (simp_all add: demo_line_def words.simps)

end
