(* ===== verification/SyscallProps.thy ===== *)
theory SyscallProps
  imports ExecProps
begin

text \<open>
  The functional behaviour of the system calls on descriptors, of \<open>getargs\<close> and of \<open>vidmap\<close>.
\<close>

subsection \<open>Descriptors\<close>

lemma bad_descriptor:
  assumes "current_ok s p" "fd < 0 \<or> fd \<ge> 8 \<or> f_flags (fd_at s p (nat fd)) = NOT_IN_USE"
  shows "system_read idle fd buf n s = Some (FAILURE, s)" "system_write fd buf n s = Some (FAILURE, s)"
    "system_close fd s = Some (FAILURE, s)"
proof -
  have gp: "get_current_pcb s = Some p" using assms(1) by (simp add: current_ok_def)
  have "get_fd p fd s = Some (fd_at s p (nat fd))" if "0 \<le> fd" "fd < 8"
    using get_fd_current [OF assms(1), of "nat fd"] that by simp
  then show "system_read idle fd buf n s = Some (FAILURE, s)" "system_write fd buf n s = Some (FAILURE, s)"
    "system_close fd s = Some (FAILURE, s)"
    using gp assms(2) by (auto simp: system_read_def system_write_def system_close_def)
qed

lemma close_standard: "current_ok s p \<Longrightarrow> fd < 2 \<Longrightarrow> system_close fd s = Some (FAILURE, s)"
  by (simp add: system_close_def current_ok_def)

lemma system_close_in_use:
  assumes cur: "current_ok s p" and ready: "tables_ready s" and fd: "2 \<le> fd" "fd < 8"
    and f: "f_flags (fd_at s p fd) \<noteq> NOT_IN_USE" "f_ops (fd_at s p fd) = Some table"
  shows "system_close (int fd) s = Some (SUCCESS, with_fd p fd clear_fd s)"
proof -
  have gp: "get_current_pcb s = Some p" using cur by (simp add: current_ok_def)
  obtain c where c: "op_close (op_tables s table) = Some c" using tables_ready_close [OF ready] by blast
  then show ?thesis
    using gp fd f get_fd_current [OF cur fd(2)] run_close_in_use [OF cur fd(2) f(1)]
    by (simp add: system_close_def)
qed

lemma open_close:
  assumes cur: "current_ok s p" and fd: "lowest_free s p fd" "2 \<le> fd" and ready: "tables_ready s"
    and rd: "read_dentry_by_name name s = Some (SUCCESS, Some d)" and ty: "filetype d = FILE_TYPE"
  shows "\<exists>t u. system_open name s = Some (int fd, t) \<and> fd_at t p fd = opened_file d \<and>
    system_close (int fd) t = Some (SUCCESS, u) \<and> lowest_free u p fd \<and>
    (\<forall>j<8. j \<noteq> fd \<longrightarrow> fd_at u p j = fd_at s p j) \<and> procs_rest u = procs_rest s \<and> (\<forall>q. q \<noteq> p \<longrightarrow> pcb_mem u q = pcb_mem s q)"
proof -
  let ?t = "with_fd p fd (\<lambda>_. opened_file d) s"
  let ?u = "with_fd p fd clear_fd ?t"
  have fd8: "fd < 8" using fd by (simp add: lowest_free_def)
  have o: "system_open name s = Some (int fd, ?t)" by (rule system_open_file [OF cur fd(1) ready rd ty])
  have ct: "current_ok ?t p" using cur by simp
  have at: "fd_at ?t p fd = opened_file d" by (rule fd_at_opened [OF cur fd8])
  have rt: "tables_ready ?t" using ready tables_ready_rest [of ?t s] by simp
  have c: "system_close (int fd) ?t = Some (SUCCESS, ?u)"
    by (rule system_close_in_use [OF ct rt fd(2) fd8]; subst at; simp add: opened_file_def)
  have other: "fd_at ?u p j = (if j = fd then clear_fd (opened_file d) else fd_at s p j)" if "j < 8" for j
    using fd_at_with_fd [OF ct fd8 that] fd_at_with_fd [OF cur fd8 that] fd_at_with_fd [OF cur fd8 fd8] by auto
  then have "lowest_free ?u p fd" using fd(1) fd8 by (auto simp: lowest_free_def clear_fd_def)
  moreover have "pcb_mem ?u q = pcb_mem s q" if "q \<noteq> p" for q using that by (simp add: with_fd_def)
  ultimately show ?thesis using o at c other by (intro exI [of _ ?t] exI [of _ ?u]) auto
qed

subsection \<open>\<open>getargs\<close>\<close>

lemma copy_args_eq:
  assumes "current_ok s p" "i + k \<le> length (p_args (pcb_mem s p))"
  shows "copy_args buf i k s = store_bytes (buf + of_nat i) (take k (drop i (p_args (pcb_mem s p)))) s"
  using assms
proof (induction k arbitrary: i s)
  case (Suc k)
  let ?c = "p_args (pcb_mem s p) ! i"
  have gp: "get_current_pcb s = Some p" "get_pcb p s = Some (pcb_mem s p)"
    using Suc.prems(1) by (simp_all add: current_ok_def get_pcb_def)
  have d: "take (Suc k) (drop i (p_args (pcb_mem s p))) = ?c # take k (drop (Suc i) (p_args (pcb_mem s p)))"
    using Suc.prems(2) by (simp add: Cons_nth_drop_Suc [symmetric])
  have st: "copy_args buf (Suc i) k t = store_bytes (buf + of_nat i + 1) (take k (drop (Suc i) (p_args (pcb_mem s p)))) t"
    if t: "store8 (buf + of_nat i) ?c s = Some t" for t
  proof -
    obtain f where "t = s\<lparr>phys := f\<rparr>" using t by (auto dest: store8_Some)
    then show ?thesis using Suc.IH [of t "Suc i"] Suc.prems by (simp add: algebra_simps)
  qed
  show ?case
    using gp Suc.prems(2) st by (cases "store8 (buf + of_nat i) ?c s") (simp_all add: d del: of_nat_Suc)
qed simp

lemma getargs_eq:
  assumes ok: "procs_ok s" and buf: "validate_user_ptr buf = SUCCESS"
    and len: "p_args_len (pcb_of s (running s)) \<noteq> 0" "unat (p_args_len (pcb_of s (running s))) \<le> 128"
      "uint (p_args_len (pcb_of s (running s))) \<le> n"
  shows "system_getargs buf n s = map_option (\<lambda>t. (SUCCESS, t))
    (store_bytes buf (take (unat (p_args_len (pcb_of s (running s)))) (p_args (pcb_of s (running s)))) s)"
proof -
  let ?p = "get_pcb_addr (running s)"
  have cur: "current_ok s ?p" by (rule current_ok_running [OF ok])
  then have gp: "get_current_pcb s = Some ?p" "get_pcb ?p s = Some (pcb_mem s ?p)"
    by (simp_all add: current_ok_def get_pcb_def)
  have "length (p_args (pcb_mem s ?p)) = 128"
    using ok running_live [OF ok] by (auto simp: procs_ok_def pcb_ok_def pcb_of_def)
  then have "copy_args buf 0 (unat (p_args_len (pcb_mem s ?p))) s =
      store_bytes buf (take (unat (p_args_len (pcb_mem s ?p))) (p_args (pcb_mem s ?p))) s"
    using copy_args_eq [OF cur, of 0 "unat (p_args_len (pcb_mem s ?p))" buf] len by (simp add: pcb_of_def)
  then show ?thesis
    using gp buf len by (simp add: system_getargs_def pcb_of_def map_conv_bind_option o_def)
qed

lemma getargs_fails:
  assumes ok: "procs_ok s"
    and "uint (p_args_len (pcb_of s (running s))) > n \<or> validate_user_ptr buf = FAILURE \<or> p_args_len (pcb_of s (running s)) = 0"
  shows "system_getargs buf n s = Some (FAILURE, s)"
  using current_ok_running [OF ok] assms(2) by (simp add: system_getargs_def get_pcb_def current_ok_def pcb_of_def)

subsection \<open>\<open>vidmap\<close>\<close>

text \<open>The page at \<open>VIDEO_USER\<close> shows the screen of the group of the process, or the page its
  screen is saved in while another group is visible.\<close>

lemma vidmap_eq:
  assumes inv: "kinv s" and pid: "1 \<le> running s" and a: "0x8000000 \<le> a" "a \<le> 0x83FFFFC"
  shows "\<exists>t. system_vidmap a s = Some (SUCCESS, t) \<and> load32 t a = Some VIDEO_USER \<and>
    (\<forall>v. drop_bit 12 v = 0xB9 \<longrightarrow> user_translate t v = Some (small_frame (group_video (current_group s) s) v)) \<and>
    p_vid_map_called (pcb_of t (running s)) = 1"
proof -
  have ok: "procs_ok s" and us: "user_space s" and mp: "maps_program s (running s)"
    using inv pid by (auto simp: kinv_def)
  let ?p = "get_pcb_addr (running s)"
  have cur: "current_ok s ?p" by (rule current_ok_running [OF ok])
  define u where "u = s\<lparr>pcb_mem := (pcb_mem s)(?p := (pcb_mem s ?p)\<lparr>p_vid_map_called := 1\<rparr>)\<rparr>"
  define m where "m = map_page VIDEO_USER (group_video (current_group s) u) 1 1 0 u"
  have gv: "group_video (current_group s) u = group_video (current_group s) s" by (simp add: u_def group_video_def)
  have put: "put_pcb ?p (\<lambda>pcb. pcb\<lparr>p_vid_map_called := 1\<rparr>) s = Some u"
    using cur by (simp add: put_pcb_def u_def current_ok_def)
  have inst: "table_installed u" using us by (simp add: u_def user_space_def table_installed_def)
  have mm: "maps_program m (running s)" using mp by (simp add: m_def maps_program_def map_page_small_tables u_def)
  obtain k where k: "a = 0x8000000 + of_nat k" "k + 4 \<le> 0x400000"
  proof
    have "unat a - 0x8000000 + 4 \<le> 0x400000" "0x8000000 \<le> unat a" using a by (simp_all add: word_le_nat_alt)
    then show "unat a - 0x8000000 + 4 \<le> 0x400000" "a = 0x8000000 + of_nat (unat a - 0x8000000)"
      by (simp_all add: of_nat_diff)
  qed
  have "writable_range m a 4" unfolding k(1) by (rule user_range [OF mm k(2)])
  moreover have len: "length (dword_bytes VIDEO_USER) = 4" by (simp add: dword_bytes_def)
  ultimately obtain t where t: "store_bytes a (dword_bytes VIDEO_USER) m = Some t"
    "\<forall>i<4. load8 t (a + of_nat i) = Some (dword_bytes VIDEO_USER ! i)"
    using store_bytes_range [of m a "dword_bytes VIDEO_USER"] unfolding len by blast
  have "load32 t a = word_at (dword_bytes VIDEO_USER) 0"
    by (rule load32_of_bytes) (use t(2) len in simp_all)
  then have ptr: "load32 t a = Some VIDEO_USER" by (simp add: word_at_def dword_bytes_def)
  obtain f where f: "t = m\<lparr>phys := f\<rparr>" using store_bytes_same_but_phys [OF t(1)] by blast
  have "user_translate t v = Some (small_frame (group_video (current_group s) s) v)" if v: "drop_bit 12 v = 0xB9" for v
  proof -
    have "drop_bit 22 v = 0" using page_number_of [OF v] by simp
    then show ?thesis using translate_map_small(2) [OF inst, of VIDEO_USER v] v gv by (simp add: f m_def)
  qed
  moreover have "system_vidmap a s = Some (SUCCESS, t)"
    using cur put t(1) a by (simp add: system_vidmap_def get_current_group_def current_ok_def validate_user_ptr_def
        m_def Let_def word_le_nat_alt word_less_nat_alt)
  moreover have "p_vid_map_called (pcb_of t (running s)) = 1"
    by (simp add: f m_def u_def pcb_of_def)
  ultimately show ?thesis using ptr by blast
qed

end
