(* ===== verification/BootProps.thy ===== *)
theory BootProps
  imports KernelSteps Kernel
begin

text \<open>
  What \<open>kernel_init\<close> sets up: one process, the kernel as PID 0, in all three groups, the tables of
  file operations, an address space without user pages. The invariant of the kernel holds from
  there on.
\<close>

lemma pcb_init_eq:
  assumes g: "current_group s = 0" and z: "pcb_mem s (get_pcb_addr 0) = zero_pcb"
  shows "pcb_init s = Some (s\<lparr>active_pid := replicate 3 0, pid_array := (replicate 7 0)[0 := get_pcb_addr 0],
    pcb_mem := (pcb_mem s)(get_pcb_addr 0 := fresh_pcb 0 (-1))\<rparr>)"
proof -
  let ?p = "get_pcb_addr 0"
  let ?s0 = "s\<lparr>active_pid := replicate 3 0, pid_array := (replicate 7 0)[0 := ?p]\<rparr>"
  let ?s1 = "?s0\<lparr>pcb_mem := (pcb_mem s)(?p := zero_pcb\<lparr>p_pid := 0, p_parent_pid := -1\<rparr>)\<rparr>"
  have pz: "?p \<noteq> 0" by (simp add: get_pcb_addr_def)
  have cur: "current_ok ?s1 ?p"
    using g pz by (simp add: current_ok_def get_current_pcb_def get_current_group_def arr_get_def zero_pcb_def)
  have "arr_get (replicate 3 (0 :: int)) 0 = Some 0" "arr_set (replicate 7 0) 0 ?p = Some ((replicate 7 0)[0 := ?p])"
    by (simp_all add: arr_get_def arr_set_def)
  then have "pcb_init s = do {
      (_, s) \<leftarrow> fill_fd Stdin_ops ?s1; (_, s) \<leftarrow> fill_fd Stdout_ops s;
      s \<leftarrow> clear_flags ?p 2 6 s; put_pcb ?p (\<lambda>pcb. pcb\<lparr>p_args_len := 0\<rparr>) s }"
    using g z pz by (simp add: pcb_init_def Let_def get_current_group_def put_pcb_def term_open_stdin term_open_stdout)
  also have "\<dots> = Some (?s0\<lparr>pcb_mem := (pcb_mem s)(?p := fresh_pcb 0 (-1))\<rparr>)"
    by (subst open_standard [OF cur]) (simp_all add: zero_pcb_def fresh_pcb_def)
  finally show ?thesis .
qed

lemma procs_ok_boot:
  assumes "pid_array t = (replicate 7 0)[0 := get_pcb_addr 0]" "active_pid t = replicate 3 0" "current_group t = 0"
    and "pcb_mem t (get_pcb_addr 0) = fresh_pcb 0 (-1)"
  shows "procs_ok t" "live t = {0}" "running t = 0"
proof -
  have nz: "get_pcb_addr 0 \<noteq> 0" by (simp add: get_pcb_addr_def)
  show lv: "live t = {0}"
  proof (rule set_eqI)
    fix i
    show "i \<in> live t \<longleftrightarrow> i \<in> {0}"
    proof (cases "0 \<le> i \<and> i < 7")
      case True
      then have "i \<in> {0, 1, 2, 3, 4, 5, 6}" using pid_cases by blast
      then show ?thesis using nz assms(1) by (auto simp: live_def numeral_eq_Suc)
    next
      case False
      then show ?thesis by (auto simp: live_def)
    qed
  qed
  show "running t = 0" using assms(2,3) by (simp add: running_def)
  have "pcb_ok 0 (pcb_of t 0)" using assms(4) pcb_ok_fresh by (simp add: pcb_of_def)
  then show "procs_ok t"
    using lv assms tree_boot [of "parent_of t"] by (simp add: procs_ok_def numeral_3_eq_3)
qed

text \<open>The fields that \<open>kernel_init\<close> decides; what the drivers do afterwards leaves them alone.\<close>

definition boot_fields :: "'a procs_scheme \<Rightarrow> _" where
  "boot_fields s = (pid_array s, active_pid s, current_group s, page_directory s, page_table_0 s, pt0_addr s, pcb_mem s)"

lemma boot_fields_kview: "kview t = kview s \<Longrightarrow> boot_fields t = boot_fields s"
  by (simp add: kview_def boot_fields_def)

lemma boot_fields_op_tables [simp]: "boot_fields (s\<lparr>op_tables := f\<rparr>) = boot_fields s"
  by (simp add: boot_fields_def)

lemma kview_i8259_init: "kview (i8259_init s) = kview s"
  by (auto simp: i8259_init_def Let_def cpu_defs split: prod.splits)

lemma op_tables_kview: "kview t = kview s \<Longrightarrow> op_tables t = op_tables s"
  by (simp add: kview_def)

lemma rtc_init_frame:
  "boot_fields (rtc_init s) = boot_fields s" "op_tables (rtc_init s) = (op_tables s)(Rtc_type_ops := rtc_type_table)"
proof -
  have e: "boot_fields (enable_irq 8 u) = boot_fields u" "op_tables (enable_irq 8 u) = op_tables u" for u :: "'a rtc_scheme"
    using boot_fields_kview op_tables_kview kview_pic by blast+
  show "boot_fields (rtc_init s) = boot_fields s" "op_tables (rtc_init s) = (op_tables s)(Rtc_type_ops := rtc_type_table)"
    by (simp_all add: rtc_init_def Let_def cpu_defs e) (simp_all add: boot_fields_def)
qed

lemma term_init_frame:
  "boot_fields (term_init s) = boot_fields s"
  "op_tables (term_init s) = (op_tables s)(Stdin_ops := stdin_table, Stdout_ops := stdout_table)"
  by (simp_all add: term_init_def Let_def) (simp_all add: boot_fields_def)

lemma kview_keyboard_init: "kview (keyboard_init s) = kview s"
  by (simp add: keyboard_init_def)

lemma paging_init_fields:
  "pcb_mem (paging_init s) = pcb_mem s" "op_tables (paging_init s) = op_tables s"
proof -
  obtain f where f: "clear_save_pages 0 1024 (paging_tables s) = (paging_tables s)\<lparr>phys := f\<rparr>"
    using clear_save_pages_same by blast
  have "pcb_mem (paging_tables s) = pcb_mem s" "op_tables (paging_tables s) = op_tables s"
    by (simp_all add: paging_tables_def Let_def)
  then show "pcb_mem (paging_init s) = pcb_mem s" "op_tables (paging_init s) = op_tables s"
    by (simp_all add: paging_init_def f Let_def)
qed

lemma user_space_paging_init:
  assumes "page_directory t = page_directory (paging_init s)" "page_table_0 t = page_table_0 (paging_init s)"
    "pt0_addr t = pt0_addr (paging_init s)"
  shows "user_space t"
proof -
  have "user_space (paging_init s)"
    using paging_init_installed [of s]
    by (simp add: user_space_def paging_init_tables paging_tables_directory paging_tables_table screen_entry_def)
  then show ?thesis using user_space_cong(1) [OF assms] by simp
qed

lemma kernel_init_state:
  assumes z: "pcb_mem s (get_pcb_addr 0) = zero_pcb"
  shows "\<exists>t. kernel_init lk s = Some t \<and> kinv t \<and> live t = {0} \<and> active_pid t = [0, 0, 0] \<and>
    pcb_of t 0 = fresh_pcb 0 (-1) \<and> current_group t = 0 \<and>
    op_tables t = (op_tables s)(Rtc_type_ops := rtc_type_table, Stdin_ops := stdin_table, Stdout_ops := stdout_table)"
proof -
  define p where "p = load_tss lk (load_ldt lk s)"
  have p: "pcb_mem p = pcb_mem s" "op_tables p = op_tables s" by (simp_all add: p_def load_tss_def load_ldt_def)
  define s1 where "s1 = scheduler_init (paging_init p)"
  have s1: "current_group s1 = 0" "pcb_mem s1 = pcb_mem s" "op_tables s1 = op_tables s"
    "page_directory s1 = page_directory (paging_init p)" "page_table_0 s1 = page_table_0 (paging_init p)"
    "pt0_addr s1 = pt0_addr (paging_init p)"
    by (simp_all add: s1_def scheduler_init_def paging_init_fields p)
  define s2 where "s2 = s1\<lparr>active_pid := replicate 3 0, pid_array := (replicate 7 0)[0 := get_pcb_addr 0],
    pcb_mem := (pcb_mem s1)(get_pcb_addr 0 := fresh_pcb 0 (-1))\<rparr>"
  have i: "pcb_init s1 = Some s2" unfolding s2_def by (rule pcb_init_eq) (simp_all add: s1 z)
  define j where "j = s2\<lparr>idt := set_all_idt (lk_stub lk) (idt s2)\<rparr>"
  have j: "boot_fields j = boot_fields s2" "op_tables j = op_tables s"
    by (simp_all add: j_def boot_fields_def s2_def s1)
  have ij: "boot_fields (i8259_init j) = boot_fields j" "op_tables (i8259_init j) = op_tables j"
    by (rule boot_fields_kview op_tables_kview, rule kview_i8259_init)+
  define r where "r = rtc_init (i8259_init j)"
  have r: "boot_fields r = boot_fields s2" "op_tables r = (op_tables s)(Rtc_type_ops := rtc_type_table)"
    by (simp_all add: r_def rtc_init_frame ij j)
  define k where "k = term_init (keyboard_init r)"
  have k: "boot_fields k = boot_fields s2"
    "op_tables k = (op_tables s)(Rtc_type_ops := rtc_type_table, Stdin_ops := stdin_table, Stdout_ops := stdout_table)"
    using r boot_fields_kview [OF kview_keyboard_init, of r] op_tables_kview [OF kview_keyboard_init, of r]
    by (simp_all add: k_def term_init_frame)
  define t where "t = clear (sti k)"
  have kv: "kview t = kview k" by (simp add: t_def sti_def)
  have t: "boot_fields t = boot_fields s2" "op_tables t = op_tables k"
    using k boot_fields_kview [OF kv] op_tables_kview [OF kv] by simp_all
  have f: "pid_array t = (replicate 7 0)[0 := get_pcb_addr 0]" "active_pid t = replicate 3 0" "current_group t = 0"
    "pcb_mem t (get_pcb_addr 0) = fresh_pcb 0 (-1)" "page_directory t = page_directory (paging_init p)"
    "page_table_0 t = page_table_0 (paging_init p)" "pt0_addr t = pt0_addr (paging_init p)"
    using t(1) s1 by (simp_all add: boot_fields_def s2_def)
  have "kernel_init lk s = Some t"
    by (simp add: kernel_init_def s1_def [symmetric, unfolded p_def] i j_def [symmetric] r_def [symmetric] k_def [symmetric] t_def [symmetric])
  moreover have "kinv t"
    using procs_ok_boot [OF f(1-4)] user_space_paging_init [OF f(5-7)] by (simp add: kinv_def)
  ultimately show ?thesis
    using procs_ok_boot(2) [OF f(1-4)] f t(2) k(2) by (auto simp: pcb_of_def numeral_3_eq_3)
qed

end
