(* ===== verification/ProcessTheorems.thy ===== *)
theory ProcessTheorems
  imports Demo SyscallProps BootProps
begin

text \<open>
  The properties of processes, system calls and the scheduler, each with a run on the machine of
  \<open>Demo\<close>.
\<close>

subsection \<open>Isolation\<close>


text \<open>A tick of the scheduler on the demo machine: PID 2 goes on, with its own frame.\<close>

lemma demo_tick: "\<exists>t. schedule_next 0x7FBF00 0x23 0x7FBE00 0x7FBE40 demo = Some ((0x7F0002, 0), t) \<and>
    scheduled 0x7FBF00 0x23 0x7FBE00 0x7FBE40 demo t \<and> running t = 2"
proof -
  obtain t where t: "schedule_next 0x7FBF00 0x23 0x7FBE00 0x7FBE40 demo =
      Some ((p_kernel_esp (pcb_of t (running t)), p_kernel_ebp (pcb_of t (running t))), t)"
    "scheduled 0x7FBF00 0x23 0x7FBE00 0x7FBE40 demo t"
    using schedule_next_eq [OF demo_procs_ok] by blast
  have r: "running t = 2" using t(2) by (simp add: scheduled_def running_def next_group_def)
  moreover have "pcb_of t 2 = demo_pcb 2 0"
    using t(2) demo_pcbs [of 2] by (simp add: scheduled_def pcb_of_def demo_running pcb_addr_values)
  ultimately show ?thesis using t by (auto simp: demo_pcb_def fresh_pcb_def zero_pcb_def)
qed




subsection \<open>The scheduler\<close>

text \<open>A tick saves the context of the process that runs in its PCB, moves on to the next of the
  three groups and finds there the saved registers, the stack top, the program page and the video
  page of that group; nothing else of the processes changes.\<close>

theorem schedule_next_switches:
  assumes "procs_ok s"
  shows "\<exists>t. schedule_next ptop cs esp ebp s =
      Some ((p_kernel_esp (pcb_of t (running t)), p_kernel_ebp (pcb_of t (running t))), t) \<and>
    scheduled ptop cs esp ebp s t"
  by (rule schedule_next_eq [OF assms])

lemma schedule_next_switches_witness:
  "\<exists>t. schedule_next 0x7FBF00 0x23 0x7FBE00 0x7FBE40 demo =
      Some ((p_kernel_esp (pcb_of t (running t)), p_kernel_ebp (pcb_of t (running t))), t) \<and> running t = 2"
proof -
  obtain t where "schedule_next 0x7FBF00 0x23 0x7FBE00 0x7FBE40 demo =
      Some ((p_kernel_esp (pcb_of t (running t)), p_kernel_ebp (pcb_of t (running t))), t)"
    "scheduled 0x7FBF00 0x23 0x7FBE00 0x7FBE40 demo t"
    using schedule_next_switches [OF demo_procs_ok] by blast
  then show ?thesis by (intro exI [of _ t]) (simp add: scheduled_def running_def next_group_def)
qed

text \<open>C3. Round robin: when the three groups run three different processes, the third tick comes
  back to the first one with the registers and the stack top it was left with, in its own
  group and with its own memory.\<close>

theorem schedule_round_robin:
  assumes "procs_ok s" "distinct (active_pid s)"
    and "schedule_next p1 c1 esp1 ebp1 s = Some (r1, t1)"
    and "schedule_next p2 c2 esp2 ebp2 t1 = Some (r2, t2)"
    and "schedule_next p3 c3 esp3 ebp3 t2 = Some (r3, t3)"
  shows "r3 = (esp1, ebp1) \<and> running t3 = running s \<and> tss_esp0 t3 = kernel_top p1 c1 \<and>
    current_group t3 = current_group s \<and> maps_program t3 (running s)"
  using schedule_round [OF assms] by blast

lemma schedule_round_robin_witness:
  "\<exists>t1 t2 t3 r1 r2. schedule_next 0x7FBF00 0x23 0x7FBE00 0x7FBE40 demo = Some (r1, t1) \<and>
    schedule_next 0x7F9F00 0x10 0x7F9E00 0x7F9E40 t1 = Some (r2, t2) \<and>
    schedule_next 0x7F7F00 0x23 0x7F7E00 0x7F7E40 t2 = Some ((0x7FBE00, 0x7FBE40), t3) \<and>
    running t3 = 1 \<and> tss_esp0 t3 = 0x7FBF14"
proof -
  obtain r1 t1 where t1: "schedule_next 0x7FBF00 0x23 0x7FBE00 0x7FBE40 demo = Some (r1, t1)"
    using demo_tick by blast
  have ok1: "procs_ok t1" using kinv_schedule_next [OF demo_kinv t1] by (simp add: kinv_def)
  obtain r2 t2 where t2: "schedule_next 0x7F9F00 0x10 0x7F9E00 0x7F9E40 t1 = Some (r2, t2)"
    using schedule_next_eq [OF ok1] by blast
  have ok2: "procs_ok t2"
    using kinv_schedule_next [OF kinv_schedule_next [OF demo_kinv t1] t2] by (simp add: kinv_def)
  obtain r3 t3 where t3: "schedule_next 0x7F7F00 0x23 0x7F7E00 0x7F7E40 t2 = Some (r3, t3)"
    using schedule_next_eq [OF ok2] by blast
  have "r3 = (0x7FBE00, 0x7FBE40) \<and> running t3 = running demo \<and> tss_esp0 t3 = kernel_top 0x7FBF00 0x23 \<and>
      current_group t3 = current_group demo \<and> maps_program t3 (running demo)"
    by (rule schedule_round_robin [OF demo_procs_ok _ t1 t2 t3]) simp
  then show ?thesis using t1 t2 t3 by (auto simp: demo_running kernel_top_def)
qed

subsection \<open>\<open>execute\<close> and \<open>halt\<close>\<close>



text \<open>C6. \<open>execute\<close> of a name that is not in the directory fails, and leaves the processes as they
  were: the same table, the same PIDs in the groups, the same PCB for every live process.\<close>

theorem execute_missing_program:
  assumes "procs_ok s" "tables_ready s" "image_loaded s img" "names_end img"
    and "directory img = Some ds" "word_at img 4 = Some count"
    and "c_string cmd xs" "length xs \<le> 127" "words xs = name # ws"
    and "get_new_pid s = Some c" "c \<noteq> FAILURE" "lookup_name img name = None"
  shows "\<exists>t. system_execute ma rl esp ebp (Some cmd) s = Some (Exec_failed, t) \<and> exec_failed_ok s t"
  by (rule execute_missing [OF assms])

lemma execute_missing_program_witness:
  "\<exists>t. system_execute 0x7F0000 0x401000 0x7FBF00 0x7FBF40 (Some (literal [120])) demo = Some (Exec_failed, t) \<and>
    exec_failed_ok demo t"
  by (rule execute_missing_program [OF demo_procs_ok demo_tables_ready demo_image_loaded demo_names_end
      demo_directory demo_img_words(2) c_string_literal [of "[120]"] _ demo_words(2) demo_new_pid _ demo_lookup(2)]) simp_all

text \<open>Whatever the command and the file system hold, when \<open>execute\<close> comes to an end it has either
  failed, with the processes unchanged, or entered user mode in exactly one new process: a child
  of the one that called, whose registers and return address are saved in its PCB; all other
  PCBs are untouched.\<close>

theorem execute_outcomes:
  assumes "procs_ok s" "system_execute ma rl esp ebp cmd s = Some (r, t)"
  shows "r = Exec_failed \<and> exec_failed_ok s t \<or>
    (\<exists>eip. r = Exec_entered \<lparr>i_eip = eip, i_cs = USER_CS, i_esp = PROG_VIRT_ADDR + PROG_PAGE_SIZE - 4, i_ss = USER_DS\<rparr>) \<and>
    exec_entered_ok rl esp ebp s t"
  by (rule execute_processes [OF assms])

text \<open>The program of the demo image, started.\<close>

lemma demo_execute:
  "\<exists>t. system_execute 0x7F0000 0x401000 0x7FBF00 0x7FBF40 (Some (literal demo_line)) demo =
      Some (Exec_entered \<lparr>i_eip = 0x8048018, i_cs = USER_CS, i_esp = 0x83FFFFC, i_ss = USER_DS\<rparr>, t) \<and>
    running t = 4 \<and> fds_ok (pcb_of t 4)"
proof -
  have str: "c_string (literal demo_line) demo_line" by (rule c_string_literal) (simp add: demo_line_def)
  show ?thesis
    using execute_program [OF demo_procs_ok demo_tables_ready demo_image_loaded demo_names_end
        demo_directory demo_img_words(2) str _ demo_words(1) demo_new_pid _ demo_lookup(1) _ _ demo_runnable(1) demo_scratch,
        of "0x401000" "0x7FBF00" "0x7FBF40"] demo_file_bytes demo_runnable(2)
    by (auto simp: demo_line_def)
qed

lemma execute_outcomes_witness:
  "\<exists>t. system_execute 0x7F0000 0x401000 0x7FBF00 0x7FBF40 (Some (literal demo_line)) demo =
      Some (Exec_entered \<lparr>i_eip = 0x8048018, i_cs = USER_CS, i_esp = 0x83FFFFC, i_ss = USER_DS\<rparr>, t) \<and>
    live t = {0, 1, 2, 3, 4} \<and> parent_of t 4 = 1"
proof -
  obtain t where t: "system_execute 0x7F0000 0x401000 0x7FBF00 0x7FBF40 (Some (literal demo_line)) demo =
      Some (Exec_entered \<lparr>i_eip = 0x8048018, i_cs = USER_CS, i_esp = 0x83FFFFC, i_ss = USER_DS\<rparr>, t)"
    "running t = 4" using demo_execute by blast
  have "exec_entered_ok 0x401000 0x7FBF00 0x7FBF40 demo t"
    using execute_outcomes [OF demo_procs_ok t(1)] by simp
  then show ?thesis using t by (auto simp: exec_entered_ok_def demo_pids demo_running)
qed





text \<open>C9. A system call on a descriptor that is out of range or not in use fails and changes nothing;
  the standard descriptors cannot be closed.\<close>

theorem system_calls_reject_descriptors:
  assumes "procs_ok s"
  shows "(fd < 0 \<or> fd \<ge> 8 \<or> f_flags (fd_at s (get_pcb_addr (running s)) (nat fd)) = NOT_IN_USE \<longrightarrow>
      system_read idle fd buf n s = Some (FAILURE, s) \<and> system_write fd buf n s = Some (FAILURE, s) \<and>
      system_close fd s = Some (FAILURE, s)) \<and>
    (fd < 2 \<longrightarrow> system_close fd s = Some (FAILURE, s))"
  using bad_descriptor [OF current_ok_running [OF assms]] close_standard [OF current_ok_running [OF assms]] by blast

lemma system_calls_reject_descriptors_witness:
  "system_read (\<lambda>s. Some s) 5 0x8048000 10 demo = Some (FAILURE, demo) \<and> system_close 1 demo = Some (FAILURE, demo)"
proof -
  have "fd_at demo (get_pcb_addr 1) 5 = zero_file"
    using demo_pcbs [of 1] by (simp add: fd_at_def pcb_of_def demo_pcb_def fresh_pcb_def)
  then show ?thesis
    using system_calls_reject_descriptors [OF demo_procs_ok, of 5 "\<lambda>s. Some s" "0x8048000" 10]
      system_calls_reject_descriptors [OF demo_procs_ok, of 1 "\<lambda>s. Some s" "0x8048000" 10]
    by (simp add: demo_running zero_file_def)
qed

text \<open>C8. Opening a regular file takes the lowest free descriptor, with the inode of the directory
  entry and position 0; closing it gives the descriptor back, with every other descriptor and
  every other process as before.\<close>

theorem open_close_round_trip:
  assumes "current_ok s p" "lowest_free s p fd" "2 \<le> fd" "tables_ready s"
    and "read_dentry_by_name name s = Some (SUCCESS, Some d)" "filetype d = FILE_TYPE"
  shows "\<exists>t u. system_open name s = Some (int fd, t) \<and> fd_at t p fd = opened_file d \<and>
    system_close (int fd) t = Some (SUCCESS, u) \<and> lowest_free u p fd \<and>
    (\<forall>j<8. j \<noteq> fd \<longrightarrow> fd_at u p j = fd_at s p j) \<and> procs_rest u = procs_rest s \<and>
    (\<forall>q. q \<noteq> p \<longrightarrow> pcb_mem u q = pcb_mem s q)"
  by (rule open_close [OF assms])

lemma demo_open:
  "current_ok demo (get_pcb_addr 1)" "lowest_free demo (get_pcb_addr 1) 2"
  "read_dentry_by_name (literal [104, 105]) demo =
     Some (SUCCESS, Some \<lparr>filename = [104, 105] @ replicate 30 0, filetype = 2, inode_num = 0\<rparr>)"
proof -
  show "current_ok demo (get_pcb_addr 1)" using current_ok_running [OF demo_procs_ok] by (simp add: demo_running)
  have "p_fd_table (pcb_mem demo (get_pcb_addr 1)) = std_file Stdin_ops # std_file Stdout_ops # replicate 6 zero_file"
    using demo_pcbs [of 1] by (simp add: pcb_of_def demo_pcb_def fresh_pcb_def)
  then show "lowest_free demo (get_pcb_addr 1) 2"
    by (auto simp: lowest_free_def fd_at_def std_file_def zero_file_def less_2_cases_iff)
  show "read_dentry_by_name (literal [104, 105]) demo =
     Some (SUCCESS, Some \<lparr>filename = [104, 105] @ replicate 30 0, filetype = 2, inode_num = 0\<rparr>)"
    using read_dentry_by_name_lookup [of demo demo_img, OF _ c_string_literal demo_names_end demo_directory demo_img_words(2),
        of "[104, 105]"] demo_image_loaded demo_lookup(1)
    by (simp add: image_loaded_def lookup_result_def)
qed

lemma open_close_round_trip_witness:
  "\<exists>t u. system_open (literal [104, 105]) demo = Some (2, t) \<and> system_close 2 t = Some (SUCCESS, u) \<and>
    lowest_free u (get_pcb_addr 1) 2"
  using open_close_round_trip [OF demo_open(1,2) _ demo_tables_ready demo_open(3)] by auto

text \<open>\<open>getargs\<close> stores exactly the bytes of the arguments, with their NUL, at an address in the
  program page; without arguments, with a buffer that is too short or with an address outside
  the page it fails and stores nothing.\<close>

theorem getargs_copies_arguments:
  assumes "procs_ok s" "p_args_len (pcb_of s (running s)) \<le> 128"
  shows "system_getargs buf n s =
    (if p_args_len (pcb_of s (running s)) = 0 \<or> uint (p_args_len (pcb_of s (running s))) > n \<or>
        validate_user_ptr buf = FAILURE
     then Some (FAILURE, s)
     else map_option (\<lambda>t. (SUCCESS, t)) (store_bytes buf
       (take (unat (p_args_len (pcb_of s (running s)))) (p_args (pcb_of s (running s)))) s))"
proof -
  have "validate_user_ptr buf = SUCCESS \<or> validate_user_ptr buf = FAILURE" by (simp add: validate_user_ptr_def)
  moreover have "unat (p_args_len (pcb_of s (running s))) \<le> 128"
    using assms(2) by (simp add: word_le_nat_alt)
  ultimately show ?thesis
    using getargs_eq [OF assms(1), of buf n] getargs_fails [OF assms(1), of n buf] by auto
qed

lemma getargs_copies_arguments_witness:
  "\<exists>t :: keyboard. running t = 4 \<and> system_getargs 0x8048100 64 t =
     map_option (\<lambda>u. (SUCCESS, u)) (store_bytes 0x8048100 [97, 32, 98, 99, 0] t)"
proof -
  have str: "c_string (literal demo_line) demo_line" by (rule c_string_literal) (simp add: demo_line_def)
  obtain t where t: "system_execute 0x7F0000 0x401000 0x7FBF00 0x7FBF40 (Some (literal demo_line)) demo =
      Some (Exec_entered \<lparr>i_eip = the (word_at demo_text 24), i_cs = USER_CS, i_esp = 0x83FFFFC, i_ss = USER_DS\<rparr>, t)"
    "running t = 4"
    "p_args (pcb_of t 4) = arg_text 3 [[97], [98, 99]] @ replicate (128 - length (arg_text 3 [[97], [98, 99 :: u8]])) 0"
    "unat (p_args_len (pcb_of t 4)) = length (arg_text 3 [[97], [98, 99 :: u8]])"
    using execute_program [OF demo_procs_ok demo_tables_ready demo_image_loaded demo_names_end
        demo_directory demo_img_words(2) str _ demo_words(1) demo_new_pid _ demo_lookup(1) _ _ demo_runnable(1) demo_scratch,
        of "0x401000" "0x7FBF00" "0x7FBF40"] demo_file_bytes
    by (auto simp: demo_line_def)
  have len: "p_args_len (pcb_of t 4) = 5"
    using t(4) by (intro word_unat_eq_iff [THEN iffD2]) (simp add: numeral_3_eq_3)
  have "procs_ok t" using kinv_execute [OF demo_kinv t(1)] by (simp add: kinv_def)
  then have "system_getargs 0x8048100 64 t =
     map_option (\<lambda>u. (SUCCESS, u)) (store_bytes 0x8048100 (take 5 (p_args (pcb_of t 4))) t)"
    using getargs_copies_arguments [of t "0x8048100" 64] len t(2) by (simp add: validate_user_ptr_def)
  moreover have "take 5 (p_args (pcb_of t 4)) = [97, 32, 98, 99, 0]"
    using t(3) by (simp add: numeral_3_eq_3 take_Cons')
  ultimately show ?thesis using t(2) by (intro exI [of _ t]) simp
qed



subsection \<open>Boot\<close>

text \<open>C17. \<open>kernel_init\<close>, on a machine whose PCB block of PID 0 is zero, sets up the kernel as the only
  process, in all three groups, and the three tables of the drivers; the invariant of the kernel
  holds from there on.\<close>

theorem kernel_init_establishes_invariant:
  assumes "pcb_mem s (get_pcb_addr 0) = zero_pcb"
  shows "\<exists>t. kernel_init lk s = Some t \<and> kinv t \<and> live t = {0} \<and> active_pid t = [0, 0, 0] \<and>
    pcb_of t 0 = fresh_pcb 0 (-1) \<and> current_group t = 0 \<and>
    op_tables t = (op_tables s)(Rtc_type_ops := rtc_type_table, Stdin_ops := stdin_table, Stdout_ops := stdout_table)"
  by (rule kernel_init_state [OF assms])

definition demo_linkage :: linkage where
  "demo_linkage = \<lparr>lk_stub = (\<lambda>_. 0x400800), lk_tss = 0x405000, lk_ldt = 0x405100, lk_magic = 0x7F0000,
     lk_return_from_exec = 0x401000, lk_return_from_intr = 0x401100, lk_esp = 0x7FFF00, lk_ebp = 0x7FFF40,
     lk_eflags = 0x202\<rparr>"

definition demo_cold :: kernel where
  "demo_cold = (let d = \<lparr>seg_lim_15_00 = 0, base_15_00 = 0, base_23_16 = 0, sd_type = 0, sd_sys = 0, sd_dpl = 0,
        sd_present = 0, seg_lim_19_16 = 0, sd_avail = 0, sd_reserved = 0, sd_opsize = 0, sd_granularity = 0,
        base_31_24 = 0\<rparr>
     in keyboard.extend (demo\<lparr>pcb_mem := (\<lambda>_. zero_pcb)\<rparr>)
          \<lparr>ldt_desc_ptr = d, tss_desc_ptr = d, tss_ldt = 0, ldtr = 0, tr = 0, idt = []\<rparr>)"

lemma kernel_init_establishes_invariant_witness:
  "\<exists>t. kernel_init demo_linkage demo_cold = Some t \<and> kinv t \<and> live t = {0}"
proof -
  have "pcb_mem demo_cold (get_pcb_addr 0) = zero_pcb"
    by (simp add: demo_cold_def Let_def keyboard.extend_def)
  then show ?thesis using kernel_init_establishes_invariant [of demo_cold demo_linkage] by blast
qed

end
