(* ===== verification/DriverTheorems.thy ===== *)
theory DriverTheorems
  imports Demo
begin

text \<open>
  The properties of the library routines, of paging and of the drivers, each with a run on
  concrete data.
\<close>

subsection \<open>The file system\<close>

text \<open>\<open>read_data\<close> copies into the buffer exactly the bytes of the file from the offset on, as many
  as asked for or as there are, across the data blocks, and returns their number.\<close>

theorem read_data_reads_slice:
  assumes "holds_image s img" "apart_from_image s img buf (unat len)"
    and "file_bytes img (unat ino) = Some bytes"
  shows "read_data ino offset buf len s =
    (let out = take (unat len) (drop (unat offset) bytes)
     in map_option (\<lambda>t. (int (length out), t)) (store_bytes buf out s))"
  by (rule read_data_slice [OF assms])

lemma demo_apart: "a + n \<le> 0x10000 \<Longrightarrow> apart_from_image demo demo_img (0x400000 + of_nat a) n"
  unfolding apart_from_image_def
proof (intro allI impI)
  fix k b assume a: "a + n \<le> 0x10000" and k: "k < n" and b: "b < length demo_img"
  have "translate demo (0x400000 + of_nat (a + k)) = Some (0x400000 + of_nat (a + k))"
    by (rule demo_translate(1)) (use kernel_page_number [of "a + k"] a k in simp)
  moreover have "translate demo (boot_blk demo + of_nat b) = Some (0x400000 + of_nat (0x10000 + b))"
    using demo_translate(1) [OF kernel_page_number, of "0x10000 + b"] b by (simp add: demo_boot_def)
  moreover have "(0x400000 + of_nat (a + k) :: u32) \<noteq> 0x400000 + of_nat (0x10000 + b)"
    using a k b by (subst word_add_of_nat_eq_iff) simp_all
  ultimately show "translate demo (0x400000 + of_nat a + of_nat k) \<noteq> translate demo (boot_blk demo + of_nat b)"
    by (simp add: add.assoc)
qed

lemma read_data_reads_slice_witness:
  "read_data 0 24 0x401000 100 demo =
     map_option (\<lambda>t. (4, t)) (store_bytes 0x401000 [0x18, 0x80, 0x04, 0x08] demo)"
proof -
  have "apart_from_image demo demo_img 0x401000 (unat (100 :: u32))" using demo_apart [of "0x1000" 100] by simp
  then show ?thesis
    using read_data_reads_slice [of demo demo_img "0x401000" 100 0 demo_text 24] demo_image_loaded demo_file_bytes
    by (simp add: image_loaded_def demo_text_def)
qed

text \<open>\<open>read_dentry_by_name\<close> finds the first entry of the directory whose name is the string, all 32
  bytes of it if need be, and whose inode number is in range, and fails if there is none.\<close>

theorem read_dentry_by_name_finds:
  assumes "holds_image s img" "c_string fname xs" "names_end img"
    and "directory img = Some ds" "word_at img 4 = Some count"
  shows "read_dentry_by_name fname s = Some (lookup_result (lookup_name img xs))"
  by (rule read_dentry_by_name_lookup [OF assms])

lemma read_dentry_by_name_finds_witness:
  "read_dentry_by_name (literal [120]) demo = Some (FAILURE, None) \<and>
   map_option fst (read_dentry_by_name (literal [104, 105]) demo) = Some SUCCESS"
  using read_dentry_by_name_finds [of demo demo_img, OF _ c_string_literal demo_names_end demo_directory demo_img_words(2)]
    demo_image_loaded demo_lookup
  by (simp add: image_loaded_def lookup_result_def)

text \<open>\<open>file_read\<close> through a descriptor reads on from its position: it stores the next bytes of the
  file, moves the position by as many, and returns 0 at the end of the file.\<close>

theorem file_read_continues:
  assumes "current_ok s p" "fd < 8" "f_flags (fd_at s p fd) \<noteq> NOT_IN_USE"
    and "buf \<noteq> 0" "0 \<le> n" "n < 2 ^ 31" "holds_image s img" "apart_from_image s img buf (nat n)"
    and "file_bytes img (unat (f_inode (fd_at s p fd))) = Some bytes"
  shows "file_read (int fd) buf n s =
    (let out = take (nat n) (drop (unat (f_position (fd_at s p fd))) bytes)
     in map_option (\<lambda>t. (int (length out), with_fd p fd (\<lambda>f. f\<lparr>f_position := f_position f + of_nat (length out)\<rparr>) t))
          (store_bytes buf out s))"
  by (rule file_read_slice [OF assms])

lemma file_read_continues_witness:
  "file_read 1 0x401000 3 demo =
     map_option (\<lambda>t. (3, with_fd (get_pcb_addr 1) 1 (\<lambda>f. f\<lparr>f_position := f_position f + 3\<rparr>) t))
       (store_bytes 0x401000 [0x7F, 0x45, 0x4C] demo)"
proof -
  have f: "fd_at demo (get_pcb_addr 1) 1 = std_file Stdout_ops"
    using demo_pcbs [of 1] by (simp add: fd_at_def pcb_of_def demo_pcb_def fresh_pcb_def)
  have cur: "current_ok demo (get_pcb_addr 1)"
    using current_ok_running [OF demo_procs_ok] by (simp add: demo_running)
  have "apart_from_image demo demo_img 0x401000 (nat 3)" using demo_apart [of "0x1000" 3] by simp
  then show ?thesis
    using file_read_continues [OF cur, of 1 "0x401000" 3 demo_img demo_text] f demo_image_loaded demo_file_bytes
    by (simp add: image_loaded_def std_file_def demo_text_def)
qed

subsection \<open>Terminals\<close>

text \<open>C20. Every key edits the line of the visible terminal as a line editor does: a backspace removes
  the last byte, a tab fills up with blanks to the next multiple of four, a line of 127 bytes
  takes only a newline, a newline that nobody waits for drops the line; the other terminals
  keep theirs.\<close>

theorem add_char_edits_line:
  assumes "terms_ok s" "g < 3" "visible_group s = int g"
  shows "\<exists>r t. add_char_term c s = Some (r, t) \<and>
    edited g (edit_line (read_in_progress (terms s ! g) \<noteq> 0) c) s t"
  by (rule add_char_term_edited [OF assms])

lemma demo_terms_ok: "terms_ok demo"
  by (simp add: terms_ok_def demo_term_def term_ok_def)

lemma add_char_edits_line_witness:
  "\<exists>r t. add_char_term 97 demo = Some (r, t) \<and> line (terms t ! 0) = [97]"
proof -
  obtain r t where "add_char_term 97 demo = Some (r, t)"
    "edited 0 (edit_line (read_in_progress (terms demo ! 0) \<noteq> 0) 97) demo t"
    using add_char_edits_line [OF demo_terms_ok, of 0 97] by auto
  then show ?thesis by (auto simp: edited_def edit_line_def line_def demo_term_def)
qed


lemma demo_screens_ok: "screens_ok demo"
  using demo_terms_ok by (auto simp: screens_ok_def demo_term_def saved_cursor_ok_def cursor_ok_def intro: exI [of _ 0])

lemma demo_image_byte: "a < 8220 \<Longrightarrow> load8 demo (0x410000 + of_nat a) = Some (demo_img ! a)"
  using demo_image_loaded by (simp add: image_loaded_def holds_image_def demo_boot_def)


text \<open>C19. Switching the visible terminal shows the chosen one and loses nothing: text and cursor of all
  three terminals are the same afterwards.\<close>

theorem switch_term_keeps_all:
  assumes "screens_ok s" "video_mapped s" "g < 3"
  shows "\<exists>t. switch_term (int g) s = Some (int g, t) \<and> screens_ok t \<and> visible_group t = int g \<and>
    eflags_if t = eflags_if s \<and> (\<forall>h<3. group_terminal t h = group_terminal s h)"
  by (rule switch_term_keeps [OF assms])

lemma demo_video_mapped: "video_mapped demo"
  unfolding video_mapped_def
proof (intro allI impI)
  fix v :: u32 assume v: "drop_bit 12 v \<in> {0xB8, 0xBA, 0xBB, 0xBC}"
  have z: "drop_bit 22 v = 0" using v page_number_of [of v] by (auto simp: drop_bit_eq_div)
  have inst: "table_installed demo" by (simp add: table_installed_def)
  have pt: "(drop_bit 12 v AND PT_MASK = w) = (drop_bit 12 v = w)" if "w \<in> {0xB8, 0xBA, 0xBB, 0xBC}" for w
    using that by (intro small_page_iff [OF z]) (auto simp: drop_bit_eq_div)
  show "translate demo v = Some v"
    using v translate_low(1) [OF inst z] small_frame_same [of v "0xB8003"] small_frame_same [of v "0xBA003"]
      small_frame_same [of v "0xBB003"] small_frame_same [of v "0xBC003"]
    by (auto simp: Let_def pt small_frame_def drop_bit_eq_div)
qed

lemma switch_term_keeps_all_witness:
  "\<exists>t. switch_term 2 demo = Some (2, t) \<and> visible_group t = 2 \<and> group_terminal t 0 = group_terminal demo 0"
  using switch_term_keeps_all [OF demo_screens_ok demo_video_mapped, of 2] by auto






subsection \<open>The real-time clock\<close>

text \<open>C23. A \<open>rtc_read\<close> of a group whose divider is \<open>d\<close> returns after exactly \<open>RTC_FREQ / d\<close> interrupts
  of the chip (one if that is 0), whatever the clocks of the other groups do.\<close>

theorem rtc_read_waits:
  assumes "clocks_ok s" "current_group s = int g" "g < 3" "rtc_freq_divider s ! g = d" "0 < d"
  shows "\<exists>t. iterate rtc_wrapper (nat (max 1 (RTC_FREQ div d))) (rtc_armed g s) = Some t \<and>
    rtc_read rtc_wrapper fd buf n s = Some (SUCCESS, t) \<and> clock g t = (0, max 1 (RTC_FREQ div d), d)"
  by (rule rtc_read_returns [OF assms])

lemma rtc_read_waits_witness:
  "\<exists>t :: keyboard. rtc_read rtc_wrapper 2 0 4 demo = Some (0, t) \<and> clock 0 t = (0, 512, 2)"
  using rtc_read_waits [of demo 0 2 2 0 4] by (auto simp: clocks_ok_def less_Suc_eq numeral_eq_Suc)

text \<open>\<open>rtc_write\<close> accepts exactly the powers of two from 2 to 32768 and sets the divider of the
  group of the process to four times the rate; any other word is refused without a change.\<close>

theorem rtc_write_sets_rate:
  assumes "current_group s = int g" "g < 3" "length (rtc_freq_divider s) = 3" "load32 s buf = Some w"
  shows "rtc_write fd buf n s =
    (if \<exists>k. 1 \<le> k \<and> k \<le> 15 \<and> w = 2 ^ k
     then Some (SUCCESS, s\<lparr>rtc_freq_divider := (rtc_freq_divider s)[g := 4 * sint w], eflags_if := True\<rparr>)
     else Some (FAILURE, s\<lparr>eflags_if := True\<rparr>))"
  by (rule rtc_write_rate [OF assms])

lemma rtc_write_sets_rate_witness:
  "rtc_write 2 0x410060 4 demo = Some (0, demo\<lparr>rtc_freq_divider := [8, 2, 2], eflags_if := True\<rparr>) \<and>
   rtc_write 2 0x410004 4 demo = Some (-1, demo\<lparr>eflags_if := True\<rparr>)"
proof -
  have b: "load8 demo (0x410000 + of_nat a) = Some (demo_dir ! a)" if "a < 128" for a
    using demo_image_byte [of a] that by (simp add: demo_img_low)
  have w: "load32 demo 0x410060 = Some 2" "load32 demo 0x410004 = Some 1"
    using b [of 96] b [of 97] b [of 98] b [of 99] b [of 4] b [of 5] b [of 6] b [of 7]
    by (simp_all add: load32_def demo_dir_def nth_append)
  have two: "\<exists>k. 1 \<le> k \<and> k \<le> 15 \<and> (2 :: u32) = 2 ^ k" by (rule exI [of _ 1]) simp
  have one: "\<not> (\<exists>k. 1 \<le> k \<and> k \<le> 15 \<and> (1 :: u32) = 2 ^ k)"
  proof
    assume "\<exists>k. 1 \<le> k \<and> k \<le> 15 \<and> (1 :: u32) = 2 ^ k"
    then obtain k where k: "1 \<le> k" "k \<le> 15" "(1 :: u32) = 2 ^ k" by blast
    then have "(2 :: nat) ^ k = 1" using unat_power_u32 [of k] by simp
    then show False using k(1) by simp
  qed
  have "rtc_write 2 0x410060 4 demo = Some (0, demo\<lparr>rtc_freq_divider := (rtc_freq_divider demo)[0 := 4 * sint (2 :: u32)], eflags_if := True\<rparr>)"
    using rtc_write_sets_rate [of demo 0 "0x410060" 2 2 4] w(1) two by simp
  moreover have "rtc_write 2 0x410004 4 demo = Some (-1, demo\<lparr>eflags_if := True\<rparr>)"
    using rtc_write_sets_rate [of demo 0 "0x410004" 1 2 4] w(2) one by simp
  ultimately show ?thesis by simp
qed

subsection \<open>Keyboard commands\<close>

text \<open>\<open>send_cmd\<close> queues a command, all of its bytes behind what waits there already, if there
  is room for it, and otherwise leaves the queue as it is and returns -1.\<close>

theorem send_cmd_queues:
  assumes "queue_ok s" "cmd \<noteq> []"
  shows "let (r, t) = send_cmd cmd s in queue_ok t \<and>
    (if queue_used s + length cmd < 49 then r = 0 \<and> queue_content t = queue_content s @ cmd
     else r = -1 \<and> queue_content t = queue_content s)"
proof -
  have frame: "queue_ok (s\<lparr>eflags_if := b, port_out := l\<rparr>) = queue_ok s"
    "queue_used (s\<lparr>eflags_if := b, port_out := l\<rparr>) = queue_used s"
    "queue_content (s\<lparr>eflags_if := b, port_out := l\<rparr>) = queue_content s"
    "queue_ok (s\<lparr>eflags_if := b\<rparr>) = queue_ok s" "queue_used (s\<lparr>eflags_if := b\<rparr>) = queue_used s"
    "queue_content (s\<lparr>eflags_if := b\<rparr>) = queue_content s" "queue_ok (s\<lparr>port_out := l\<rparr>) = queue_ok s"
    "queue_content (s\<lparr>port_out := l\<rparr>) = queue_content s" for b l and s :: "'a keyboard_scheme"
    by (simp_all add: queue_ok_def queue_used_def queue_content_def)
  have "queue_used s < 50" using length_queue_content [OF assms(1)] by simp
  then have room: "queue_room s > length cmd \<longleftrightarrow> queue_used s + length cmd < 49"
    by (auto simp: queue_room_def)
  note q = queue_bytes_content
  show ?thesis
    using assms(1) room length_queue_content [OF assms(1)] q [of "s\<lparr>eflags_if := False\<rparr>" cmd]
      q [of "s\<lparr>eflags_if := False, port_out := port_out s @ [(KEY_PORT, hd cmd)]\<rparr>" cmd]
    by (auto simp: send_cmd_def cpu_defs frame queue_room_def split: prod.splits)
qed

lemma send_cmd_queues_witness:
  "fst (send_cmd [0xED, 7] demo) = 0 \<and> queue_content (snd (send_cmd [0xED, 7] demo)) = [0xED, 7]"
proof -
  have "queue_ok demo" "queue_used demo = 0" "queue_content demo = []"
    by (simp_all add: queue_ok_def queue_used_def queue_content_def ring_list_def ring_used_def)
  then show ?thesis using send_cmd_queues [of demo "[0xED, 7]"] by (simp split: prod.splits)
qed

subsection \<open>Paging\<close>

text \<open>C22. After \<open>map_page\<close> exactly the addresses of the named page translate to the named frame,
  with their offset kept, and are open to user programs exactly if asked for; after
  \<open>unmap_page\<close> exactly they are gone. This holds for both page sizes.\<close>

theorem map_page_translates:
  assumes "table_installed s"
    and same: "same = (if ps \<noteq> 0 then drop_bit 22 v = drop_bit 22 a else drop_bit 12 v = drop_bit 12 a)"
    and "ps = 0 \<longrightarrow> drop_bit 22 a = 0 \<and> drop_bit 22 v = 0"
  shows "translate (map_page a p rw us ps s) v =
      (if same then Some (if ps \<noteq> 0 then big_frame p v else small_frame p v) else translate s v)
    \<and> user_translate (map_page a p rw us ps s) v =
      (if same then (if us \<noteq> 0 then Some (if ps \<noteq> 0 then big_frame p v else small_frame p v) else None)
       else user_translate s v)
    \<and> translate (unmap_page a ps s) v = (if same then None else translate s v)"
proof (cases "ps = 0")
  case True
  then have "drop_bit 22 a = 0" "drop_bit 22 v = 0" using assms(3) by simp_all
  then show ?thesis
    using True same translate_map_small [OF assms(1), of a v p rw us] translate_unmap_small(1) [OF assms(1), of a v]
    by simp
next
  case False
  then show ?thesis
    using same translate_map_big [OF False, of a p rw us s v] translate_unmap_big(1) [OF False, of a s v] by simp
qed

lemma map_page_translates_witness:
  "translate (map_page 0x8000000 0x800000 1 1 1 demo) 0x8048018 = Some 0x848018 \<and>
   translate (unmap_page 0xB8000 0 demo) 0xB8004 = None"
proof -
  have t: "table_installed demo" by (simp add: table_installed_def)
  show ?thesis
    using map_page_translates [OF t, of True 1 "0x8048018" "0x8000000" "0x800000" 1 1]
      map_page_translates [OF t, of True 0 "0xB8004" "0xB8000" 0 0 0]
    by (simp add: big_frame_def)
qed

text \<open>\<open>paging_init\<close> maps the kernel page, the text screen and its three save pages onto
  themselves and nothing else, and leaves no page to user programs.\<close>

theorem paging_init_maps_kernel:
  "translate (paging_init s) v = (if boot_mapped v then Some v else None) \<and> user_translate (paging_init s) v = None"
  by (rule conjI [OF paging_init_translate paging_init_user])

subsection \<open>Interrupt lines and the linkage\<close>

text \<open>\<open>enable_irq\<close> and \<open>disable_irq\<close> open and close their own line (line 2, the cascade, with
  all lines of the slave), leave the other lines alone up to the cascade, and keep the data
  registers of both chips equal to the masks the driver remembers.\<close>

theorem irq_lines_change:
  assumes "n < 16" "k < 16" "pic_synced s"
  shows "irq_enabled (enable_irq (of_nat n) s) n \<and> \<not> irq_enabled (disable_irq (of_nat n) s) n \<and>
    (k \<noteq> n \<longrightarrow> n \<noteq> SLAVE_IRQ_LINE \<longrightarrow> n < 8 \<longrightarrow>
       irq_enabled (enable_irq (of_nat n) s) k = irq_enabled s k \<and>
       irq_enabled (disable_irq (of_nat n) s) k = irq_enabled s k) \<and>
    (k \<noteq> n \<longrightarrow> 8 \<le> n \<longrightarrow> irq_enabled s SLAVE_IRQ_LINE \<longrightarrow>
       irq_enabled (enable_irq (of_nat n) s) k = irq_enabled s k \<and>
       irq_enabled (disable_irq (of_nat n) s) k = irq_enabled s k) \<and>
    pic_synced (enable_irq (of_nat n) s) \<and> pic_synced (disable_irq (of_nat n) s)"
  using assms irq_enabled_enable [of n k s] irq_enabled_disable [of n k s] irq_enabled_enable [of n n s]
    irq_enabled_disable [of n n s] pic_synced_enable [of s "of_nat n"] pic_synced_disable [of s "of_nat n"]
  by (auto simp: irq_enabled_def)

lemma irq_lines_change_witness:
  "irq_enabled (enable_irq 8 (i8259_init demo)) 8 \<and> \<not> irq_enabled (disable_irq 8 (i8259_init demo)) 8"
  using irq_lines_change [of 8 8 "i8259_init demo"] pic_synced_init [of demo] by simp

text \<open>C24. The assembler linkage of interrupts, exceptions and system calls puts the arguments on top
  of the stack for the C handler, and on the way back restores all registers and the stack, with
  the result of a system call in EAX.\<close>

theorem linkage_restores:
  "(\<exists>rest. common_interrupt_enter irq r (esp, eip # cs # ws) = (esp - 52, irq # esp # cs # rest)) \<and>
   common_interrupt_leave (common_interrupt_enter irq r (esp, eip # cs # ws)) = (r, (esp, eip # cs # ws)) \<and>
   (\<exists>rest. common_exc_enter exc r (esp, ws) = (esp - 40, exc # rest)) \<and>
   common_exc_leave (common_exc_enter exc r (esp, ws)) = (r, (esp, ws)) \<and>
   (\<exists>rest. system_call_enter r (esp, ws) = (esp - 28, r_ebx r # r_ecx r # r_edx r # rest)) \<and>
   system_call_leave eax (system_call_enter r (esp, ws)) = (r\<lparr>r_eax := eax\<rparr>, (esp, ws))"
  by (intro conjI common_interrupt_args common_interrupt_restores common_exc_args common_exc_restores
      system_call_args system_call_restores)

subsection \<open>Library routines\<close>

text \<open>\<open>itoa\<close> writes, into a buffer with room, a NUL-terminated numeral of the number in the given
  base, without leading zeros, that reads back as the number.\<close>

theorem itoa_round_trip:
  assumes "2 \<le> unat r" "unat r \<le> 36" "length (numeral_string (unat r) (unat v)) < length buf"
  shows "\<exists>out. itoa v buf r = Some out \<and> length out = length buf \<and>
    (\<exists>xs. c_string (buf_get out) xs \<and> parse_numeral (unat r) xs = unat v \<and> (hd xs = 48 \<longrightarrow> xs = [48]))"
proof -
  let ?xs = "numeral_string (unat r) (unat v)"
  let ?out = "?xs @ 0 # drop (Suc (length ?xs)) buf"
  have "hd ?xs = 48 \<longrightarrow> ?xs = [48]" using numeral_string_zero [OF assms(1,2)] by simp
  moreover have "c_string (buf_get ?out) ?xs"
    by (rule c_string_buf_get) (use numeral_string_nonzero assms in blast)
  moreover have "itoa v buf r = Some ?out" by (rule itoa_eq [OF assms])
  moreover have "length ?out = length buf" using assms(3) by simp
  ultimately show ?thesis using parse_numeral_string [OF assms(1,2)] by blast
qed

lemma itoa_round_trip_witness:
  "\<exists>out xs. itoa 255 (replicate 11 0) 16 = Some out \<and> c_string (buf_get out) xs \<and> parse_numeral 16 xs = 255"
proof -
  have "length (numeral_string 16 255) < 11" using length_numeral_string [of 16 255 2] by simp
  then show ?thesis using itoa_round_trip [of 16 255 "replicate 11 0"] by auto
qed

text \<open>\<open>memcpy\<close>, aligned words, leftovers and all, copies the bytes of the source to the
  destination when the two do not overlap, and \<open>memset\<close> stores the low byte of its argument
  everywhere.\<close>

theorem memcpy_copies:
  assumes "separate s dest n src n"
  shows "memcpy dest src n s = do { bs \<leftarrow> load_bytes s src n; store_bytes dest bs s }
    \<and> memset dest c n s = store_bytes dest (replicate n (ucast c)) s"
  by (rule conjI [OF memcpy_eq [OF assms] memset_eq])

lemma memcpy_copies_witness:
  "memcpy 0x401001 0x410040 2 demo = store_bytes 0x401001 [104, 105] demo"
proof -
  have "separate demo 0x401001 2 0x410040 2"
    by (simp add: separate_def less_2_cases_iff demo_translate)
  moreover have "load_bytes demo 0x410040 2 = Some [104, 105]"
    using demo_image_byte [of 64] demo_image_byte [of 65]
    by (simp add: numeral_2_eq_2 demo_img_low demo_dir_def nth_append)
  ultimately show ?thesis using memcpy_copies [of demo "0x401001" 2 "0x410040"] by simp
qed

end
