(* ===== verification/UserPrograms.thy ===== *)
theory UserPrograms
  imports System
begin

text \<open>
  User programs and their library (mp3/syscalls): the string functions of ece391support.c, and the
  programs cat, ls, hello and testprint, as clients of the system calls. A program runs alone
  here: its system calls are the functions of \<open>System\<close> in the order of the code, and an array on its
  stack is an address. The address of its \<open>n\<close>th string literal is \<open>lit n\<close>. The result of a program is
  the value that it returns.
\<close>

unbundle bit_operations_syntax

subsection \<open>The library\<close>

definition ece391_strlen :: "reader \<Rightarrow> nat option" where
  "ece391_strlen s = strlen_from s 0"

partial_function (option) ece391_strcpy :: "u32 \<Rightarrow> u32 \<Rightarrow> 'a machine_scheme \<Rightarrow> 'a machine_scheme option" where
  "ece391_strcpy dst src s = do {
     b \<leftarrow> load8 s src;
     s \<leftarrow> store8 dst b s;
     if b \<noteq> 0 then ece391_strcpy (dst + 1) (src + 1) s else Some s
   }"

declare ece391_strcpy.simps [code]

definition ece391_fdputs :: "int \<Rightarrow> u32 \<Rightarrow> 'a keyboard_scheme \<Rightarrow> 'a keyboard_scheme option" where
  "ece391_fdputs fd str s = do {
     n \<leftarrow> ece391_strlen (mem_at s str);
     map_option snd (system_write fd str (sint (word_of_nat n :: u32)) s)
   }"

text \<open>The bytes are \<open>uint8_t\<close>.\<close>

partial_function (option) ece391_strcmp :: "reader \<Rightarrow> reader \<Rightarrow> nat \<Rightarrow> int option" where
  "ece391_strcmp s1 s2 i = do {
     a \<leftarrow> s1 i;
     b \<leftarrow> s2 i;
     if a = b then (if a = 0 then Some 0 else ece391_strcmp s1 s2 (i + 1))
     else Some (uint a - uint b)
   }"

declare ece391_strcmp.simps [code]

fun strncmp_loop :: "reader \<Rightarrow> reader \<Rightarrow> nat \<Rightarrow> nat \<Rightarrow> int option" where
  "strncmp_loop s1 s2 i 0 = Some 0"
| "strncmp_loop s1 s2 i (Suc n) = do {
     a \<leftarrow> s1 i;
     b \<leftarrow> s2 i;
     if a = b then (if a = 0 then Some 0 else strncmp_loop s1 s2 (i + 1) n)
     else Some (uint a - uint b)
   }"

definition ece391_strncmp :: "reader \<Rightarrow> reader \<Rightarrow> u32 \<Rightarrow> int option" where
  "ece391_strncmp s1 s2 n = strncmp_loop s1 s2 0 (unat n)"

subsection \<open>cat\<close>

partial_function (option) cat_loop :: "('a keyboard_scheme \<Rightarrow> 'a keyboard_scheme option) \<Rightarrow> (nat \<Rightarrow> u32) \<Rightarrow> int \<Rightarrow> u32
    \<Rightarrow> 'a keyboard_scheme \<Rightarrow> (int \<times> 'a keyboard_scheme) option" where
  "cat_loop idle lit fd buf s = do {
     (cnt, s) \<leftarrow> system_read idle fd buf 1024 s;
     if cnt = 0 then Some (0, s)
     else if cnt = -1 then map_option (\<lambda>s. (3, s)) (ece391_fdputs 1 (lit 2) s)
     else do {
       (r, s) \<leftarrow> system_write 1 buf cnt s;
       if r = -1 then Some (3, s) else cat_loop idle lit fd buf s
     }
   }"

declare cat_loop.simps [code]

definition cat :: "('a keyboard_scheme \<Rightarrow> 'a keyboard_scheme option) \<Rightarrow> (nat \<Rightarrow> u32) \<Rightarrow> u32
    \<Rightarrow> 'a keyboard_scheme \<Rightarrow> (int \<times> 'a keyboard_scheme) option" where
  "cat idle lit buf s = do {
     (r, s) \<leftarrow> system_getargs buf 1024 s;
     if r \<noteq> 0 then map_option (\<lambda>s. (3, s)) (ece391_fdputs 1 (lit 0) s)
     else do {
       (fd, s) \<leftarrow> system_open (mem_at s buf) s;
       if fd = -1 then map_option (\<lambda>s. (2, s)) (ece391_fdputs 1 (lit 1) s)
       else cat_loop idle lit fd buf s
     }
   }"

subsection \<open>ls\<close>

abbreviation (input) SBUFSIZE :: int where "SBUFSIZE \<equiv> 33"

partial_function (option) ls_loop :: "('a keyboard_scheme \<Rightarrow> 'a keyboard_scheme option) \<Rightarrow> (nat \<Rightarrow> u32) \<Rightarrow> int \<Rightarrow> u32
    \<Rightarrow> 'a keyboard_scheme \<Rightarrow> (int \<times> 'a keyboard_scheme) option" where
  "ls_loop idle lit fd buf s = do {
     (cnt, s) \<leftarrow> system_read idle fd buf (SBUFSIZE - 1) s;
     if cnt = 0 then Some (0, s)
     else if cnt = -1 then map_option (\<lambda>s. (3, s)) (ece391_fdputs 1 (lit 2) s)
     else do {
       s \<leftarrow> store8 (buf + word_of_int cnt) 10 s;
       (r, s) \<leftarrow> system_write 1 buf (cnt + 1) s;
       if r = -1 then Some (3, s) else ls_loop idle lit fd buf s
     }
   }"

declare ls_loop.simps [code]

definition ls :: "('a keyboard_scheme \<Rightarrow> 'a keyboard_scheme option) \<Rightarrow> (nat \<Rightarrow> u32) \<Rightarrow> u32
    \<Rightarrow> 'a keyboard_scheme \<Rightarrow> (int \<times> 'a keyboard_scheme) option" where
  "ls idle lit buf s = do {
     (fd, s) \<leftarrow> system_open (mem_at s (lit 0)) s;
     if fd = -1 then map_option (\<lambda>s. (2, s)) (ece391_fdputs 1 (lit 1) s)
     else ls_loop idle lit fd buf s
   }"

subsection \<open>hello and testprint\<close>

definition hello :: "('a keyboard_scheme \<Rightarrow> 'a keyboard_scheme option) \<Rightarrow> (nat \<Rightarrow> u32) \<Rightarrow> u32
    \<Rightarrow> 'a keyboard_scheme \<Rightarrow> (int \<times> 'a keyboard_scheme) option" where
  "hello idle lit buf s = do {
     s \<leftarrow> ece391_fdputs 1 (lit 0) s;
     (cnt, s) \<leftarrow> system_read idle 0 buf 1023 s;
     if cnt = -1 then map_option (\<lambda>s. (3, s)) (ece391_fdputs 1 (lit 1) s)
     else do {
       s \<leftarrow> store8 (buf + word_of_int cnt) 0 s;
       s \<leftarrow> ece391_fdputs 1 (lit 2) s;
       s \<leftarrow> ece391_fdputs 1 buf s;
       Some (0, s)
     }
   }"

definition testprint :: "(nat \<Rightarrow> u32) \<Rightarrow> 'a keyboard_scheme \<Rightarrow> (int \<times> 'a keyboard_scheme) option" where
  "testprint lit s = map_option (\<lambda>s. (0, s)) (ece391_fdputs 1 (lit 0) s)"

end
