(* ===== verification/CatProps.thy ===== *)
theory CatProps
  imports UserPrograms SyscallProps
begin

text \<open>
  The program cat on the kernel: the file system, the descriptors, the memory of the process and the
  terminal together. Whatever cat reads of a file through its buffer in the program page, it
  prints on the terminal of its group, and the three screens and the image stay apart from the
  buffer.
\<close>

subsection \<open>Addresses above 4 MB\<close>

lemma below_4mb: "x < 0x400000 \<Longrightarrow> drop_bit 22 (x :: u32) = 0"
  by (simp add: word_unat_eq_iff drop_bit_eq_div word_less_nat_alt unat_div)

lemma above_4mb: "drop_bit 22 (p :: u32) \<noteq> 0 \<Longrightarrow> 0x400000 \<le> p"
  using below_4mb [of p] by (cases "p < 0x400000") auto

lemma above_4mb_off_screen:
  assumes "drop_bit 22 (p :: u32) \<noteq> 0" "b \<in> set screen_bases"
  shows "4096 \<le> unat (p - b)"
proof -
  have p: "0x400000 \<le> unat p" using above_4mb [OF assms(1)] by (simp add: word_le_nat_alt)
  have b: "unat b \<le> 0xBC000" using assms(2) by (auto simp: screen_bases_def)
  then have "b \<le> p" using p by (simp add: word_le_nat_alt)
  then show ?thesis using p b by (simp add: unat_sub)
qed

lemma screen_below_4mb:
  assumes "q \<in> set screen_bases" "i < 2000"
  shows "drop_bit 22 (q + of_nat (2 * i)) = 0"
proof (rule below_4mb)
  have "unat q + unat (of_nat (2 * i) :: u32) < 0x400000"
    using assms unat_of_nat_u32 [of "2 * i"] by (auto simp: screen_bases_def)
  then show "q + of_nat (2 * i) < 0x400000" by (simp add: word_less_nat_alt unat_word_ariths)
qed

text \<open>The screens are as they were if the bytes below 4 MB are.\<close>

lemma page_text_low:
  assumes "\<And>a. drop_bit 22 a = 0 \<Longrightarrow> phys t a = phys s a" "q \<in> set screen_bases"
  shows "page_text t q = page_text s q"
  using assms screen_below_4mb [OF assms(2)] by (simp add: page_text_def)

lemma group_terminal_low:
  assumes "visible_group t = visible_group s" "terms t = terms s" "video_mem t = video_mem s"
    and "screen_x t = screen_x s" "screen_y t = screen_y s" "\<And>a. drop_bit 22 a = 0 \<Longrightarrow> phys t a = phys s a"
    and "screens_ok s" "h < 3"
  shows "group_terminal t h = group_terminal s h"
proof -
  have "video_mem s \<in> set screen_bases" using assms(7) kernel_page_base by (simp add: screens_ok_def)
  then show ?thesis
    using assms(1-5) page_text_low [OF assms(6)] save_page_base [OF assms(8)]
    by (simp add: group_terminal_def terminal_of_page)
qed

subsection \<open>Buffers in the program page\<close>

lemma user_frame:
  assumes "1 \<le> pid" "pid < 7" "drop_bit 22 v = 32"
  shows "drop_bit 22 (big_frame (get_prog_phys_addr pid) v) = of_nat (nat pid + 1)" "(of_nat (nat pid + 1) :: u32) \<noteq> 0"
  using prog_frame_number(1) [of pid] pid_cases [of pid] assms by (auto simp: drop_big_frame)

lemma user_off_screens:
  assumes m: "maps_program s pid" "1 \<le> pid" "pid < 7" and n: "k + n \<le> 0x400000"
  shows "off_screens s (user_addr k) n"
  unfolding off_screens_def
proof (intro allI impI exI conjI ballI)
  fix i b assume i: "i < n"
  show "translate s (user_addr k + of_nat i) = Some (big_frame (get_prog_phys_addr pid) (user_addr k + of_nat i))"
    by (rule user_translate_at [OF m(1) n i])
  assume "b \<in> set screen_bases"
  then show "4096 \<le> unat (big_frame (get_prog_phys_addr pid) (user_addr k + of_nat i) - b)"
    using user_frame [OF m(2,3) user_page [OF n i]] by (intro above_4mb_off_screen) simp_all
qed

lemma user_apart:
  assumes "maps_program s pid" "1 \<le> pid" "pid < 7" "k + n \<le> 0x400000" "image_loaded s img"
  shows "apart_from_image s img (user_addr k) n"
  using assms program_apart [OF assms(1-3) user_page [OF assms(4)]]
  by (auto simp: apart_from_image_def image_loaded_def)

lemma user_not_null: "k < 0x400000 \<Longrightarrow> user_addr k \<noteq> 0"
  using prog_page_number [of k] by fastforce

lemma store_bytes_low:
  assumes st: "store_bytes (user_addr k) bs s = Some t" and m: "maps_program s pid" "1 \<le> pid" "pid < 7"
    and n: "k + length bs \<le> 0x400000" and a: "drop_bit 22 a = 0"
  shows "phys t a = phys s a"
proof -
  have "i < length bs \<Longrightarrow> translate s (user_addr k + of_nat i) \<noteq> Some a" for i
    using user_translate_at [OF m(1) n] user_frame [OF m(2,3) user_page [OF n]] a by fastforce
  with st show ?thesis
  proof (induction bs arbitrary: s k)
    case (Cons b bs)
    obtain u where u: "store8 (user_addr k) b s = Some u" "store_bytes (user_addr k + 1) bs u = Some t"
      using Cons.prems(1) by (auto simp: bind_Some_iff)
    note tu = translate_store8 [OF u(1)]
    have "phys u a = phys s a" using u(1) Cons.prems(2) [of 0] by (auto simp: store8_def)
    moreover have "phys t a = phys u a"
    proof (rule Cons.IH)
      show "store_bytes (user_addr (Suc k)) bs u = Some t" using u(2) by (simp add: algebra_simps)
      show "translate u (user_addr (Suc k) + of_nat i) \<noteq> Some a" if "i < length bs" for i
        using Cons.prems(2) [of "Suc i"] that by (simp add: tu algebra_simps)
    qed
    ultimately show ?case by simp
  qed simp
qed

subsection \<open>Writing to the terminal leaves the memory above alone\<close>

lemma con_frame_print_chars: "print_chars buf k s = Some t \<Longrightarrow> con_frame s t"
proof (induction buf k s rule: print_chars.induct)
  case (2 buf k s)
  obtain c u where u: "load8 s buf = Some c" "print_char c s = Some u" "print_chars (buf + 1) k u = Some t"
    using "2.prems" by (auto simp: bind_Some_iff)
  show ?case by (rule con_frame_trans [OF con_frame_print_char [OF u(2)] "2.IH" [OF u]])
qed simp

lemma con_frame_above:
  fixes s t :: "'a terminals_scheme"
  assumes "con_frame s t" "cursor_ok s" "video_mem s \<in> set screen_bases" "drop_bit 22 a \<noteq> 0"
  shows "phys t a = phys s a" "boot_blk t = boot_blk s"
proof -
  have "\<not> on_screen s a"
    using above_4mb_off_screen [OF assms(4,3)] on_screen_range [of s a] by fastforce
  then show "phys t a = phys s a" using assms(1,2) by (simp add: con_frame_def)
  show "boot_blk t = boot_blk s" by (rule procs_con_frame(7) [OF assms(1)])
qed

lemma term_write_above:
  assumes "screens_ok s" "g < 3" "current_group s = int g" "term_write fd buf n s = Some (r, t)" "drop_bit 22 a \<noteq> 0"
  shows "phys t a = phys s a \<and> boot_blk t = boot_blk s"
proof -
  let ?u = "s\<lparr>eflags_if := False\<rparr>"
  have tok: "terms_ok s" and vm: "video_mem s = VIDEO_KERNEL" and cur: "cursor_ok s"
    using assms(1) by (simp_all add: screens_ok_def)
  show ?thesis
  proof (cases "buf = 0 \<or> visible_group s = int g")
    case True
    have "phys w a = phys s a \<and> boot_blk w = boot_blk s" if "print_chars buf (nat n) ?u = Some w" for w
      using con_frame_above [OF con_frame_print_chars [OF that], of a] assms(5) cur vm kernel_page_base
      by (simp add: cursor_ok_def)
    then show ?thesis using True assms(3,4)
      by (auto simp: term_write_def get_current_group_def cli_and_save_def restore_flags_def sti_def bind_Some_iff split: if_splits)
  next
    case False
    let ?tg = "terms s ! g"
    have "?tg \<in> set (terms s)" using tok assms(2) by (simp add: terms_ok_def)
    then have sc: "saved_cursor_ok ?tg" using assms(1) by (simp add: screens_ok_def)
    obtain po where s1: "set_cursor (cursor_x ?tg) (cursor_y ?tg) (?u\<lparr>video_mem := save_page g\<rparr>) =
        ?u\<lparr>video_mem := save_page g, screen_x := cursor_x ?tg, screen_y := cursor_y ?tg, port_out := po\<rparr>"
      (is "_ = ?s")
      using set_cursor_state [of "cursor_x ?tg" "cursor_y ?tg" "?u\<lparr>video_mem := save_page g\<rparr>"]
        sc by (auto simp: saved_cursor_ok_def cursor_in_range)
    have "phys w a = phys s a \<and> boot_blk w = boot_blk s" if "print_chars buf (nat n) ?s = Some w" for w
      using con_frame_above [OF con_frame_print_chars [OF that], of a] assms(5) sc save_page_base [OF assms(2)]
      by (simp add: cursor_ok_def saved_cursor_ok_def)
    note w = this
    have c: "phys (set_cursor x y v) = phys v \<and> boot_blk (set_cursor x y v) = boot_blk v" for x y and v :: "'a terminals_scheme"
      using set_cursor_state [of x y v] by auto
    have p: "phys v' = phys v \<and> boot_blk v' = boot_blk v" if "put_term h f v = Some v'" for h f and v v' :: "'a terminals_scheme"
      using that by (auto simp: put_term_def bind_Some_iff)
    obtain v v' h f where "print_chars buf (nat n) ?s = Some v" "put_term h f v = Some v'"
      "phys t = phys v'" "boot_blk t = boot_blk v'"
      using False assms(3,4) s1 get_term_ok [OF tok assms(2)] get_video_save_page_eq [OF assms(2)] c
      by (auto simp: term_write_def get_current_group_def cli_and_save_def restore_flags_def sti_def bind_Some_iff
          set_video_mem_def get_cursor_def get_video_mem_def get_term_def)
    then show ?thesis using w p by metis
  qed
qed

subsection \<open>One round of the loop\<close>

text \<open>The process \<open>p\<close> of group \<open>g\<close> runs in its page, has its output on the terminal, and the image and the screens are in order.\<close>

definition cat_ready :: "u32 \<Rightarrow> int \<Rightarrow> nat \<Rightarrow> u8 list \<Rightarrow> 'a terminals_scheme \<Rightarrow> bool" where
  "cat_ready p pid g img s \<longleftrightarrow> current_ok s p \<and> maps_program s pid \<and> 1 \<le> pid \<and> pid < 7 \<and> image_loaded s img \<and>
     screens_ok s \<and> g < 3 \<and> current_group s = int g \<and> f_flags (fd_at s p 1) \<noteq> NOT_IN_USE \<and>
     f_ops (fd_at s p 1) = Some Stdout_ops \<and> tables_ready s"

lemma current_ok_kview: "kview t = kview s \<Longrightarrow> current_ok t p = current_ok s p"
  using kview_fields [of t s] by (simp add: current_ok_def get_current_pcb_def get_current_group_def)

lemma cat_ready_kview:
  assumes "kview t = kview s" "image_loaded t img" "screens_ok t" "cat_ready p pid g img s"
  shows "cat_ready p pid g img t"
  using assms(2-4) kview_fields [OF assms(1)] current_ok_kview [OF assms(1)]
  by (simp add: cat_ready_def maps_program_def fd_at_def tables_ready_def)

lemma cat_ready_store:
  assumes st: "store_bytes (user_addr k) bs s = Some t" and n: "k + length bs \<le> 0x400000" and r: "cat_ready p pid g img s"
  shows "cat_ready p pid g img t" "h < 3 \<Longrightarrow> group_terminal t h = group_terminal s h"
proof -
  have m: "maps_program s pid" "1 \<le> pid" "pid < 7" "image_loaded s img" "screens_ok s" using r by (simp_all add: cat_ready_def)
  obtain f where t: "t = s\<lparr>phys := f\<rparr>" using store_bytes_same_but_phys [OF st] by blast
  have "image_loaded t img" by (rule image_loaded_store [OF st user_apart [OF m(1-3) n m(4)] m(4)])
  moreover have "screens_ok t" using m(5) screens_ok_cong [of t s] by (simp add: t)
  ultimately show "cat_ready p pid g img t" using cat_ready_kview [of t s] r by (simp add: t)
  show "group_terminal t h = group_terminal s h" if "h < 3"
    by (rule group_terminal_low [OF _ _ _ _ _ store_bytes_low [OF st m(1-3) n] m(5) that]) (simp_all add: t)
qed

lemma cat_ready_with_fd:
  assumes "cat_ready p pid g img s" "fd < 8" "fd \<noteq> 1"
  shows "cat_ready p pid g img (with_fd p fd f s)" "group_terminal (with_fd p fd f s) h = group_terminal s h"
proof -
  let ?t = "with_fd p fd f s"
  have same: "phys ?t = phys s" "boot_blk ?t = boot_blk s" "op_tables ?t = op_tables s" "current_group ?t = current_group s"
    "page_directory ?t = page_directory s" "visible_group ?t = visible_group s" "terms ?t = terms s" "video_mem ?t = video_mem s"
    "screen_x ?t = screen_x s" "screen_y ?t = screen_y s"
    by (simp_all add: with_fd_def)
  have tr: "translate ?t v = translate s v" for v by (rule translate_cong) (simp_all add: with_fd_def)
  have "fd_at ?t p 1 = fd_at s p 1"
    using fd_at_with_fd [of s p fd 1 f] assms by (simp add: cat_ready_def)
  moreover have "image_loaded ?t img = image_loaded s img"
    by (simp add: image_loaded_def kernel_identity_def tr same(2))
  moreover have "screens_ok ?t = screens_ok s" by (rule screens_ok_cong [OF same(6-10)])
  ultimately show "cat_ready p pid g img ?t" using assms(1) same by (simp add: cat_ready_def maps_program_def tables_ready_def)
  show "group_terminal ?t h = group_terminal s h" by (rule group_terminal_cong [OF same(6,7,1,8-10)])
qed

text \<open>Writing a buffer in the program page.\<close>

lemma cat_write:
  assumes r: "cat_ready p pid g img s" and k: "k < 0x400000" "k + length bs \<le> 0x400000"
    and b: "load_bytes s (user_addr k) (length bs) = Some bs"
  shows "\<exists>t. system_write 1 (user_addr k) (int (length bs)) s = Some (int (length bs), t) \<and> cat_ready p pid g img t \<and>
    kview t = kview s \<and> group_terminal t g = fold terminal_put (echo bs) (group_terminal s g) \<and>
    (\<forall>h<3. h \<noteq> g \<longrightarrow> group_terminal t h = group_terminal s h)"
proof -
  have f: "current_ok s p" "maps_program s pid" "1 \<le> pid" "pid < 7" "image_loaded s img" "screens_ok s" "g < 3" "current_group s = int g"
    "f_flags (fd_at s p 1) \<noteq> NOT_IN_USE" "f_ops (fd_at s p 1) = Some Stdout_ops" "op_write (op_tables s Stdout_ops) = Some Term_write"
    using r by (simp_all add: cat_ready_def tables_ready_def stdout_table_def)
  note off = user_off_screens [OF f(2-4) k(2)]
  obtain t where t: "term_write 1 (user_addr k) (int (length bs)) s = Some (int (length bs), t)" "screens_ok t"
    "group_terminal t g = fold terminal_put (echo bs) (group_terminal s g)"
    "\<forall>h<3. h \<noteq> g \<longrightarrow> group_terminal t h = group_terminal s h"
    using term_write_visible [OF f(6-8) _ user_not_null [OF k(1)] b off, of 1]
      term_write_background [OF f(6-8) _ user_not_null [OF k(1)] b off, of 1] by blast
  have kv: "kview t = kview s" by (rule kview_term_write [OF t(1)])
  have tr: "translate t v = translate s v" for v by (rule translate_cong) (use kview_fields [OF kv] in simp_all)
  have ab: "phys t a = phys s a" "boot_blk t = boot_blk s" if "drop_bit 22 a \<noteq> 0" for a
    using term_write_above [OF f(6-8) t(1) that] by simp_all
  have bb: "boot_blk t = boot_blk s" by (rule ab(2) [of "-1"]) (simp add: drop_bit_eq_div)
  have l8: "load8 t v = load8 s v" if "drop_bit 22 v = 1" for v
    using f(5) that ab(1) [of v] tr by (simp add: load8_def image_loaded_def kernel_identity_def)
  have img: "image_loaded t img"
    using f(5) tr bb l8 by (simp add: image_loaded_def holds_image_def kernel_identity_def)
  have "system_write 1 (user_addr k) (int (length bs)) s = Some (int (length bs), t)"
    using t(1) f get_fd_current [OF f(1), of 1] by (simp add: system_write_def current_ok_def run_write_def)
  then show ?thesis using t kv cat_ready_kview [OF kv img t(2) r] by blast
qed

lemma file_bytes_length: "file_bytes img ino = Some bytes \<Longrightarrow> length bytes < 2 ^ 32"
proof -
  assume "file_bytes img ino = Some bytes"
  then obtain flen :: u32 where "those (map (file_byte img ino) [0..<unat flen]) = Some bytes"
    by (auto simp: file_bytes_def file_length_def bind_Some_iff split: if_splits)
  then have "length bytes = unat flen" using length_those by fastforce
  then show ?thesis using unsigned_less [of flen, where 'a = nat] by simp
qed

lemma echo_append: "echo (xs @ ys) = echo xs @ echo ys"
  by (simp add: echo_def)

lemma cat_read:
  assumes r: "cat_ready p pid g img s" and fd: "fd < 8" "fd \<noteq> 1" and k: "k + 1024 \<le> 0x400000"
    and f: "f_flags (fd_at s p fd) \<noteq> NOT_IN_USE" "f_ops (fd_at s p fd) = Some File_type_ops"
      "f_position (fd_at s p fd) = of_nat q" "q < 2 ^ 32" "file_bytes img (unat (f_inode (fd_at s p fd))) = Some bytes"
  shows "\<exists>t. system_read idle (int fd) (user_addr k) 1024 s = Some (int (length (take 1024 (drop q bytes))), t) \<and>
    cat_ready p pid g img t \<and> load_bytes t (user_addr k) (length (take 1024 (drop q bytes))) = Some (take 1024 (drop q bytes)) \<and>
    fd_at t p fd = (fd_at s p fd)\<lparr>f_position := of_nat (q + length (take 1024 (drop q bytes)))\<rparr> \<and>
    (\<forall>h<3. group_terminal t h = group_terminal s h)"
proof -
  have c: "current_ok s p" "maps_program s pid" "1 \<le> pid" "pid < 7" "image_loaded s img" "op_read (op_tables s File_type_ops) = Some File_read"
    using r by (simp_all add: cat_ready_def tables_ready_def file_type_table_def)
  define out where "out = take 1024 (drop q bytes)"
  have len: "k + length out \<le> 0x400000" using k by (simp add: out_def)
  have q: "unat (f_position (fd_at s p fd)) = q" using f(3,4) unat_of_nat_u32 by simp
  obtain u where u: "store_bytes (user_addr k) out s = Some u" "\<forall>i<length out. load8 u (user_addr k + of_nat i) = Some (out ! i)"
    using store_bytes_range [OF user_range [OF c(2) len]] by blast
  define t where "t = with_fd p fd (\<lambda>f. f\<lparr>f_position := f_position f + of_nat (length out)\<rparr>) u"
  have "file_read (int fd) (user_addr k) 1024 s = Some (int (length out), t)"
    using file_read_slice [OF c(1) fd(1) f(1) user_not_null, of k 1024 img bytes] user_apart [OF c(2-4) k c(5)] c(5) f(5) k u(1)
    by (simp add: image_loaded_def q out_def [symmetric] t_def)
  then have "system_read idle (int fd) (user_addr k) 1024 s = Some (int (length out), t)"
    using c fd(1) f(1,2) get_fd_current [OF c(1) fd(1)] by (simp add: system_read_def current_ok_def run_read_def)
  moreover note ru = cat_ready_store [OF u(1) len r]
  have cu: "current_ok u p" using ru(1) by (simp add: cat_ready_def)
  have same: "fd_at u p fd = fd_at s p fd"
    using store_bytes_same_but_phys [OF u(1)] by (auto simp: fd_at_def)
  have "fd_at t p fd = (fd_at s p fd)\<lparr>f_position := of_nat (q + length out)\<rparr>"
    unfolding t_def using fd_at_with_fd [OF cu fd(1,1)] f(3) by (simp add: same)
  moreover have "load_bytes t (user_addr k) (length out) = Some out"
    using u(2) by (simp add: t_def load_bytes_nth)
  moreover have "cat_ready p pid g img t" "\<forall>h<3. group_terminal t h = group_terminal s h"
    using cat_ready_with_fd [OF ru(1) fd] ru(2) by (simp_all add: t_def)
  ultimately show ?thesis unfolding out_def by blast
qed

subsection \<open>The whole program\<close>

lemma cat_loop_prints:
  assumes "cat_ready p pid g img s" "fd < 8" "fd \<noteq> 1" "k + 1024 \<le> 0x400000"
    and "f_flags (fd_at s p fd) \<noteq> NOT_IN_USE" "f_ops (fd_at s p fd) = Some File_type_ops"
      "f_position (fd_at s p fd) = of_nat q" "q \<le> length bytes" "file_bytes img (unat (f_inode (fd_at s p fd))) = Some bytes"
  shows "\<exists>t. cat_loop idle lit (int fd) (user_addr k) s = Some (0, t) \<and> screens_ok t \<and>
    group_terminal t g = fold terminal_put (echo (drop q bytes)) (group_terminal s g) \<and>
    (\<forall>h<3. h \<noteq> g \<longrightarrow> group_terminal t h = group_terminal s h)"
  using assms
proof (induction "length bytes - q" arbitrary: q s rule: less_induct)
  case less
  have lb: "length bytes < 2 ^ 32" using file_bytes_length [OF less.prems(9)] .
  define out where "out = take 1024 (drop q bytes)"
  obtain t where t: "system_read idle (int fd) (user_addr k) 1024 s = Some (int (length out), t)"
    "cat_ready p pid g img t" "load_bytes t (user_addr k) (length out) = Some out"
    "fd_at t p fd = (fd_at s p fd)\<lparr>f_position := of_nat (q + length out)\<rparr>"
    "\<forall>h<3. group_terminal t h = group_terminal s h"
    using cat_read [OF less.prems(1-7) _ less.prems(9), of idle] lb less.prems(8) unfolding out_def by fastforce
  have g: "g < 3" "screens_ok t" using t(2) by (simp_all add: cat_ready_def)
  show ?case
  proof (cases "out = []")
    case True
    then have "drop q bytes = []" by (simp add: out_def)
    then show ?thesis using t True g by (subst cat_loop.simps) (simp add: echo_def)
  next
    case False
    have n: "k < 0x400000" "k + length out \<le> 0x400000" using less.prems(4) by (simp_all add: out_def)
    obtain u where u: "system_write 1 (user_addr k) (int (length out)) t = Some (int (length out), u)" "cat_ready p pid g img u"
      "kview u = kview t" "group_terminal u g = fold terminal_put (echo out) (group_terminal t g)"
      "\<forall>h<3. h \<noteq> g \<longrightarrow> group_terminal u h = group_terminal t h"
      using cat_write [OF t(2) n t(3)] by blast
    have fu: "fd_at u p fd = (fd_at s p fd)\<lparr>f_position := of_nat (q + length out)\<rparr>"
      using t(4) kview_fields(10) [OF u(3)] by (simp add: fd_at_def)
    have len: "0 < length out" "q + length out \<le> length bytes" using False less.prems(8) by (auto simp: out_def)
    have "\<exists>v. cat_loop idle lit (int fd) (user_addr k) u = Some (0, v) \<and> screens_ok v \<and>
        group_terminal v g = fold terminal_put (echo (drop (q + length out) bytes)) (group_terminal u g) \<and>
        (\<forall>h<3. h \<noteq> g \<longrightarrow> group_terminal v h = group_terminal u h)"
    proof (rule less.hyps [of "q + length out" u])
      show "length bytes - (q + length out) < length bytes - q" using len by linarith
    qed (use u(2) less.prems(2-6,9) len in \<open>simp_all add: fu\<close>)
    then obtain v where v: "cat_loop idle lit (int fd) (user_addr k) u = Some (0, v)" "screens_ok v"
      "group_terminal v g = fold terminal_put (echo (drop (q + length out) bytes)) (group_terminal u g)"
      "\<forall>h<3. h \<noteq> g \<longrightarrow> group_terminal v h = group_terminal u h" by blast
    have "drop q bytes = out @ drop (q + length out) bytes"
      using append_take_drop_id [of 1024 "drop q bytes"] by (simp add: out_def add.commute min_def)
    then have "fold terminal_put (echo (drop q bytes)) (group_terminal s g) = group_terminal v g"
      using v(3) u(4) t(5) g(1) by (simp add: echo_append)
    moreover have "int (length out) \<noteq> 0" "int (length out) \<noteq> -1" using len by simp_all
    ultimately show ?thesis using t(1,5) u(1,5) v by (subst cat_loop.simps) simp
  qed
qed

lemma mem_at_stored:
  assumes "\<forall>i<length xs. load8 s (a + of_nat i) = Some (xs ! i)" "xs = name @ [0]" "0 \<notin> set name"
  shows "c_string (mem_at s a) name"
proof -
  have "load8 s (a + of_nat i) = Some ((name @ [0]) ! i)" if "i \<le> length name" for i
    using assms(1,2) that by simp
  then show ?thesis using assms(3) by (auto simp: c_string_def mem_at_def nth_append)
qed

lemma cat_prints:
  assumes inv: "kinv s" and pid: "1 \<le> running s" and scr: "screens_ok s" and ready: "tables_ready s"
    and img: "image_loaded s img" and nul: "names_end img" and dir: "directory img = Some ds" and count: "word_at img 4 = Some count"
    and args: "take (unat (p_args_len (pcb_of s (running s)))) (p_args (pcb_of s (running s))) = name @ [0]" "0 \<notin> set name"
      "unat (p_args_len (pcb_of s (running s))) \<le> 128"
    and found: "lookup_name img name = Some d" "filetype d = FILE_TYPE" "file_bytes img (unat (word_of_int (inode_num d) :: u32)) = Some bytes"
    and out: "f_flags (fd_at s (get_pcb_addr (running s)) 1) \<noteq> NOT_IN_USE" "f_ops (fd_at s (get_pcb_addr (running s)) 1) = Some Stdout_ops"
    and free: "lowest_free s (get_pcb_addr (running s)) fd" "2 \<le> fd"
    and buf: "k + 1024 \<le> 0x400000" and g: "current_group s = int g"
  shows "\<exists>t. cat idle lit (user_addr k) s = Some (0, t) \<and>
    group_terminal t g = fold terminal_put (echo bytes) (group_terminal s g) \<and>
    (\<forall>h<3. h \<noteq> g \<longrightarrow> group_terminal t h = group_terminal s h)"
proof -
  let ?p = "get_pcb_addr (running s)" and ?len = "unat (p_args_len (pcb_of s (running s)))"
  have ok: "procs_ok s" and mp: "maps_program s (running s)" using inv pid by (auto simp: kinv_def)
  have r7: "running s < 7" using running_live [OF ok] by (auto simp: live_def)
  have cur: "current_ok s ?p" by (rule current_ok_running [OF ok])
  have g3: "g < 3" using ok g by (simp add: procs_ok_def)
  have ready_s: "cat_ready ?p (running s) g img s"
    using cur mp pid r7 img scr g3 g out ready by (simp add: cat_ready_def)
  have len: "length (name @ [0]) \<le> 128" "?len \<noteq> 0"
    using args(3) arg_cong [OF args(1), of length] by (simp, intro notI) (use args(1) in simp)
  have n: "k + length (name @ [0]) \<le> 0x400000" using len buf by simp
  obtain u where u: "store_bytes (user_addr k) (name @ [0]) s = Some u"
    "\<forall>i<length (name @ [0]). load8 u (user_addr k + of_nat i) = Some ((name @ [0]) ! i)"
    using store_bytes_range [OF user_range [OF mp n]] by blast
  have "validate_user_ptr (user_addr k) = SUCCESS"
  proof -
    have "unat (user_addr k) = 0x8000000 + k"
      using unat_of_nat_u32 [of "0x8000000 + k"] buf unfolding of_nat_add of_nat_numeral by simp
    then have "PROG_VIRT_ADDR \<le> user_addr k \<and> user_addr k < 0x8400000" using buf by (simp add: word_le_nat_alt word_less_nat_alt)
    then show ?thesis by (simp add: validate_user_ptr_def)
  qed
  moreover have "p_args_len (pcb_of s (running s)) \<noteq> 0" using len(2) by (intro notI) simp
  moreover have "uint (p_args_len (pcb_of s (running s))) \<le> 1024"
  proof -
    have "uint (p_args_len (pcb_of s (running s))) = int ?len" by simp
    then show ?thesis using args(3) by linarith
  qed
  ultimately have ga: "system_getargs (user_addr k) 1024 s = Some (SUCCESS, u)"
    using getargs_eq [OF ok] args(1,3) u(1) by simp
  note ru = cat_ready_store [OF u(1) n ready_s]
  obtain m where um: "u = s\<lparr>phys := m\<rparr>" using store_bytes_same_but_phys [OF u(1)] by blast
  have iu: "holds_image u img" "current_ok u ?p" "tables_ready u" using ru(1) by (simp_all add: cat_ready_def image_loaded_def)
  have fu: "lowest_free u ?p fd" using free(1) by (simp add: um lowest_free_def fd_at_def)
  have "read_dentry_by_name (mem_at u (user_addr k)) u = Some (SUCCESS, Some d)"
    using read_dentry_by_name_lookup [OF iu(1) mem_at_stored [OF u(2) refl args(2)] nul dir count] found(1)
    by (simp add: lookup_result_def)
  then have op: "system_open (mem_at u (user_addr k)) u = Some (int fd, with_fd ?p fd (\<lambda>_. opened_file d) u)" (is "_ = Some (_, ?v)")
    using system_open_file [OF iu(2) fu iu(3) _ found(2)] by blast
  have fd: "fd < 8" "fd \<noteq> 1" using free by (simp_all add: lowest_free_def)
  note rv = cat_ready_with_fd [OF ru(1) fd, of "\<lambda>_. opened_file d"]
  have "fd_at ?v ?p fd = opened_file d" by (rule fd_at_opened [OF iu(2) fd(1)])
  then obtain t where t: "cat_loop idle lit (int fd) (user_addr k) ?v = Some (0, t)"
    "group_terminal t g = fold terminal_put (echo (drop 0 bytes)) (group_terminal ?v g)"
    "\<forall>h<3. h \<noteq> g \<longrightarrow> group_terminal t h = group_terminal ?v h"
    using cat_loop_prints [OF rv(1) fd buf, of 0 bytes idle lit] found(3) by (auto simp: opened_file_def)
  have "cat idle lit (user_addr k) s = Some (0, t)" using ga op t(1) by (simp add: cat_def)
  moreover have "group_terminal ?v h = group_terminal s h" if "h < 3" for h using rv(2) ru(2) [OF that] by simp
  ultimately show ?thesis using t(2,3) g3 by auto
qed

end
