(* ===== verification/SysErr.thy ===== *)
theory SysErr
  imports UserPrograms Idt
begin

text \<open>
  The program syserr (mp3/syscalls/ece391syserr.c): eight tests that call the system calls with arguments
  that they have to refuse. A test returns 0 if all of them are refused and 2 otherwise. The address of a
  string literal is \<open>lit\<close> of its characters, the buffers of the frames of main and of the tests, of which only
  the one of main is ever read, are at \<open>buf\<close>. \<open>sys\<close> is the dispatcher of the kernel with the registers of the
  program, as a function of EAX.
\<close>

subsection \<open>Constants and the call by number\<close>

abbreviation (input) NEG_FD :: int where "NEG_FD \<equiv> -1073741823"
abbreviation (input) BIG_FD :: int where "BIG_FD \<equiv> 1073741823"
abbreviation (input) BIG_NUM :: int where "BIG_NUM \<equiv> 1073741823"
abbreviation (input) NEG_NUM :: int where "NEG_NUM \<equiv> -1073741823"

type_synonym 'a sys_call = "u32 \<Rightarrow> 'a keyboard_scheme \<Rightarrow> (sys_result \<times> 'a keyboard_scheme) option"

text \<open>A line of output, and the verdict on a test.\<close>

definition ln :: "string \<Rightarrow> string" where
  "ln xs = xs @ [CHR 0x0A]"

definition put_line :: "(string \<Rightarrow> u32) \<Rightarrow> string \<Rightarrow> 'a keyboard_scheme \<Rightarrow> 'a keyboard_scheme option" where
  "put_line lit xs s = ece391_fdputs 1 (lit (ln xs)) s"

text \<open>\<open>int $0x80\<close>; \<open>None\<close> where the kernel does not return to the program through its linkage.\<close>

definition call_sys :: "'a sys_call \<Rightarrow> int \<Rightarrow> 'a keyboard_scheme \<Rightarrow> (int \<times> 'a keyboard_scheme) option" where
  "call_sys sys num s = do {
     (r, s) \<leftarrow> sys (word_of_int num) s;
     (case r of Sys_return v \<Rightarrow> Some (v, s) | _ \<Rightarrow> None)
   }"

text \<open>The statement \<open>if (-1 != call) { fail = 2; ece391_fdputs (...); }\<close> and the end of a test.\<close>

definition refused :: "(string \<Rightarrow> u32) \<Rightarrow> string \<Rightarrow> int \<Rightarrow> int \<times> 'a keyboard_scheme \<Rightarrow> (int \<times> 'a keyboard_scheme) option" where
  "refused lit msg fail = (\<lambda>(r, s). if r \<noteq> -1 then map_option (\<lambda>s. (2, s)) (put_line lit msg s) else Some (fail, s))"

definition verdict :: "(string \<Rightarrow> u32) \<Rightarrow> string \<Rightarrow> int \<Rightarrow> 'a keyboard_scheme \<Rightarrow> (int \<times> 'a keyboard_scheme) option" where
  "verdict lit name fail s =
     map_option (\<lambda>s. (fail, s)) (put_line lit (name @ (if fail \<noteq> 0 then '': FAIL'' else '': PASS'')) s)"

subsection \<open>The tests\<close>

definition err_neg_fd :: "('a keyboard_scheme \<Rightarrow> 'a keyboard_scheme option) \<Rightarrow> (string \<Rightarrow> u32) \<Rightarrow> u32
    \<Rightarrow> 'a keyboard_scheme \<Rightarrow> (int \<times> 'a keyboard_scheme) option" where
  "err_neg_fd idle lit buf s = do {
     c \<leftarrow> system_read idle NEG_FD buf 31 s;
     (fail, s) \<leftarrow> refused lit ''read fail'' 0 c;
     c \<leftarrow> system_write NEG_FD buf 31 s;
     (fail, s) \<leftarrow> refused lit ''write fail'' fail c;
     c \<leftarrow> system_close NEG_FD s;
     (fail, s) \<leftarrow> refused lit ''close fail'' fail c;
     verdict lit ''err_neg_fd'' fail s
   }"

definition err_big_fd :: "('a keyboard_scheme \<Rightarrow> 'a keyboard_scheme option) \<Rightarrow> (string \<Rightarrow> u32) \<Rightarrow> u32
    \<Rightarrow> 'a keyboard_scheme \<Rightarrow> (int \<times> 'a keyboard_scheme) option" where
  "err_big_fd idle lit buf s = do {
     c \<leftarrow> system_read idle BIG_FD buf 31 s;
     (fail, s) \<leftarrow> refused lit ''read fail'' 0 c;
     c \<leftarrow> system_write BIG_FD buf 31 s;
     (fail, s) \<leftarrow> refused lit ''write fail'' fail c;
     c \<leftarrow> system_close BIG_FD s;
     (fail, s) \<leftarrow> refused lit ''close fail'' fail c;
     verdict lit ''err_big_fd'' fail s
   }"

text \<open>The loops of the third test: how many of \<open>k\<close> openings fail, and the closing of \<open>k\<close> descriptors.\<close>

fun open_lots :: "(string \<Rightarrow> u32) \<Rightarrow> nat \<Rightarrow> int \<Rightarrow> 'a keyboard_scheme \<Rightarrow> (int \<times> 'a keyboard_scheme) option" where
  "open_lots lit 0 cnt s = Some (cnt, s)"
| "open_lots lit (Suc k) cnt s = do {
     (r, s) \<leftarrow> system_open (mem_at s (lit ''.'')) s;
     open_lots lit k (if r = -1 then cnt + 1 else cnt) s
   }"

fun close_from :: "int \<Rightarrow> nat \<Rightarrow> 'a keyboard_scheme \<Rightarrow> 'a keyboard_scheme option" where
  "close_from i 0 s = Some s"
| "close_from i (Suc k) s = do { (r, s) \<leftarrow> system_close i s; close_from (i + 1) k s }"

definition err_open_lots :: "(string \<Rightarrow> u32) \<Rightarrow> 'a keyboard_scheme \<Rightarrow> (int \<times> 'a keyboard_scheme) option" where
  "err_open_lots lit s = do {
     (cnt, s) \<leftarrow> open_lots lit 7 0 s;
     s \<leftarrow> close_from 2 6 s;
     verdict lit ''err_open_lots'' (if cnt = 1 then 0 else 2) s
   }"

definition err_open :: "(string \<Rightarrow> u32) \<Rightarrow> 'a keyboard_scheme \<Rightarrow> (int \<times> 'a keyboard_scheme) option" where
  "err_open lit s = do {
     c \<leftarrow> system_open (mem_at s (lit ''helloo'')) s;
     (fail, s) \<leftarrow> refused lit (CHR 0x27 # ''helloo'' @ CHR 0x27 # '' fail'') 0 c;
     c \<leftarrow> system_open (mem_at s (lit ''shel'')) s;
     (fail, s) \<leftarrow> refused lit (CHR 0x27 # ''shel'' @ CHR 0x27 # '' fail'') fail c;
     c \<leftarrow> system_open (mem_at s (lit '''')) s;
     (fail, s) \<leftarrow> refused lit ''empty string fail'' fail c;
     verdict lit ''err_open'' fail s
   }"

fun close_unopened :: "(string \<Rightarrow> u32) \<Rightarrow> int \<Rightarrow> nat \<Rightarrow> int \<Rightarrow> 'a keyboard_scheme \<Rightarrow> (int \<times> 'a keyboard_scheme) option" where
  "close_unopened lit i 0 fail s = Some (fail, s)"
| "close_unopened lit i (Suc k) fail s = do {
     c \<leftarrow> system_close i s;
     (fail, s) \<leftarrow> refused lit ''close unopened or invalid fd fail'' fail c;
     close_unopened lit (i + 1) k fail s
   }"

fun read_unopened :: "('a keyboard_scheme \<Rightarrow> 'a keyboard_scheme option) \<Rightarrow> (string \<Rightarrow> u32) \<Rightarrow> u32 \<Rightarrow> int \<Rightarrow> nat \<Rightarrow> int
    \<Rightarrow> 'a keyboard_scheme \<Rightarrow> (int \<times> 'a keyboard_scheme) option" where
  "read_unopened idle lit buf i 0 fail s = Some (fail, s)"
| "read_unopened idle lit buf i (Suc k) fail s = do {
     c \<leftarrow> system_read idle i buf 31 s;
     (fail, s) \<leftarrow> refused lit ''read from unopened fd fail'' fail c;
     read_unopened idle lit buf (i + 1) k fail s
   }"

fun write_unopened :: "(string \<Rightarrow> u32) \<Rightarrow> u32 \<Rightarrow> int \<Rightarrow> nat \<Rightarrow> int \<Rightarrow> 'a keyboard_scheme \<Rightarrow> (int \<times> 'a keyboard_scheme) option" where
  "write_unopened lit buf i 0 fail s = Some (fail, s)"
| "write_unopened lit buf i (Suc k) fail s = do {
     c \<leftarrow> system_write i buf 31 s;
     (fail, s) \<leftarrow> refused lit ''write to unopened fd fail'' fail c;
     write_unopened lit buf (i + 1) k fail s
   }"

definition err_unopened :: "('a keyboard_scheme \<Rightarrow> 'a keyboard_scheme option) \<Rightarrow> (string \<Rightarrow> u32) \<Rightarrow> u32
    \<Rightarrow> 'a keyboard_scheme \<Rightarrow> (int \<times> 'a keyboard_scheme) option" where
  "err_unopened idle lit buf s = do {
     (fail, s) \<leftarrow> close_unopened lit 0 8 0 s;
     (fail, s) \<leftarrow> read_unopened idle lit buf 2 6 fail s;
     (fail, s) \<leftarrow> write_unopened lit buf 2 6 fail s;
     verdict lit ''err_unopened'' fail s
   }"

definition err_vidmap :: "(string \<Rightarrow> u32) \<Rightarrow> 'a keyboard_scheme \<Rightarrow> (int \<times> 'a keyboard_scheme) option" where
  "err_vidmap lit s = do {
     c \<leftarrow> system_vidmap 0 s;
     (fail, s) \<leftarrow> refused lit ''Null pointer fail'' 0 c;
     c \<leftarrow> system_vidmap 0x400000 s;
     (fail, s) \<leftarrow> refused lit ''Kernel pointer fail fail'' fail c;
     verdict lit ''err_vidmap'' fail s
   }"

definition err_stdin_out :: "('a keyboard_scheme \<Rightarrow> 'a keyboard_scheme option) \<Rightarrow> (string \<Rightarrow> u32) \<Rightarrow> u32
    \<Rightarrow> 'a keyboard_scheme \<Rightarrow> (int \<times> 'a keyboard_scheme) option" where
  "err_stdin_out idle lit buf s = do {
     c \<leftarrow> system_write 0 buf 31 s;
     (fail, s) \<leftarrow> refused lit ''write to stdin fail'' 0 c;
     c \<leftarrow> system_read idle 1 buf 31 s;
     (fail, s) \<leftarrow> refused lit ''read from stdout fail'' fail c;
     verdict lit ''err_stdin_out'' fail s
   }"

definition err_syscall_num :: "'a sys_call \<Rightarrow> (string \<Rightarrow> u32) \<Rightarrow> 'a keyboard_scheme \<Rightarrow> (int \<times> 'a keyboard_scheme) option" where
  "err_syscall_num sys lit s = do {
     c \<leftarrow> call_sys sys BIG_NUM s;
     (fail, s) \<leftarrow> refused lit ''syscall 0 fail'' 0 c;
     c \<leftarrow> call_sys sys NEG_NUM s;
     (fail, s) \<leftarrow> refused lit ''big num syscall fail'' fail c;
     c \<leftarrow> call_sys sys 0 s;
     (fail, s) \<leftarrow> refused lit ''neg num syscall fail'' fail c;
     verdict lit ''err_syscall_num'' fail s
   }"

subsection \<open>The program\<close>

definition all_tests :: "('a keyboard_scheme \<Rightarrow> 'a keyboard_scheme option) \<Rightarrow> 'a sys_call \<Rightarrow> (string \<Rightarrow> u32) \<Rightarrow> u32
    \<Rightarrow> 'a keyboard_scheme \<Rightarrow> (int \<times> 'a keyboard_scheme) option" where
  "all_tests idle sys lit buf s = do {
     (f1, s) \<leftarrow> err_neg_fd idle lit buf s;
     (f2, s) \<leftarrow> err_big_fd idle lit buf s;
     (f3, s) \<leftarrow> err_open_lots lit s;
     (f4, s) \<leftarrow> err_open lit s;
     (f5, s) \<leftarrow> err_unopened idle lit buf s;
     (f6, s) \<leftarrow> err_vidmap lit s;
     (f7, s) \<leftarrow> err_stdin_out idle lit buf s;
     (f8, s) \<leftarrow> err_syscall_num sys lit s;
     let fail = f1 + f2 + f3 + f4 + f5 + f6 + f7 + f8;
     s \<leftarrow> put_line lit (CHR 0x0A # (if fail \<noteq> 0 then ''Overall Tests: FAIL'' else ''Overall Tests: PASS'')) s;
     Some (fail, s)
   }"

text \<open>The \<open>switch\<close> of main.\<close>

definition run_test :: "('a keyboard_scheme \<Rightarrow> 'a keyboard_scheme option) \<Rightarrow> 'a sys_call \<Rightarrow> (string \<Rightarrow> u32) \<Rightarrow> u32 \<Rightarrow> int
    \<Rightarrow> 'a keyboard_scheme \<Rightarrow> (int \<times> 'a keyboard_scheme) option" where
  "run_test idle sys lit buf select s =
     (if select = 0 then all_tests idle sys lit buf s
      else if select = 1 then err_neg_fd idle lit buf s
      else if select = 2 then err_big_fd idle lit buf s
      else if select = 3 then err_open_lots lit s
      else if select = 4 then err_open lit s
      else if select = 5 then err_unopened idle lit buf s
      else if select = 6 then err_vidmap lit s
      else if select = 7 then err_stdin_out idle lit buf s
      else if select = 8 then err_syscall_num sys lit s
      else map_option (\<lambda>s. (0, s))
        (ece391_fdputs 1 (lit ''Invalid test number. Choose from tests 1-8 or 0'') s))"

definition syserr :: "('a keyboard_scheme \<Rightarrow> 'a keyboard_scheme option) \<Rightarrow> 'a sys_call \<Rightarrow> (string \<Rightarrow> u32) \<Rightarrow> u32
    \<Rightarrow> 'a keyboard_scheme \<Rightarrow> (int \<times> 'a keyboard_scheme) option" where
  "syserr idle sys lit buf s = do {
     s \<leftarrow> ece391_fdputs 1 (lit ''Choose from tests 1-8. 0 to run all: '') s;
     (cnt, s) \<leftarrow> system_read idle 0 buf 127 s;
     if cnt = -1 then map_option (\<lambda>s. (2, s)) (put_line lit (''Can'' @ CHR 0x27 # ''t read test #'') s)
     else do {
       b \<leftarrow> load8 s buf;
       run_test idle sys lit buf (uint b - 48) s
     }
   }"

end
