(* ===== verification/SysErrProps.thy ===== *)
theory SysErrProps
  imports CatProps SysErr
begin

text \<open>
  The tests of syserr on the kernel. A test calls the system calls with arguments that they refuse, prints its
  verdict, and leaves the process as it was.
\<close>

subsection \<open>Output of a program\<close>

lemma user_load8_kept:
  fixes s t :: "'a terminals_scheme"
  assumes "maps_program s pid" "1 \<le> pid" "pid < 7" "\<And>v. translate t v = translate s v"
    and "\<And>a. drop_bit 22 a \<noteq> 0 \<Longrightarrow> phys t a = phys s a" "k < 0x400000"
  shows "load8 t (user_addr k) = load8 s (user_addr k)"
proof -
  have k: "k + 1 \<le> 0x400000" using assms(6) by simp
  have tr: "translate s (user_addr k) = Some (big_frame (get_prog_phys_addr pid) (user_addr k))"
    using user_translate_at [OF assms(1) k, of 0] by simp
  have "drop_bit 22 (user_addr k) = 32" using user_page [OF k, of 0] by simp
  then have "drop_bit 22 (big_frame (get_prog_phys_addr pid) (user_addr k)) \<noteq> 0"
    using user_frame [OF assms(2,3)] by metis
  then show ?thesis using assms(4) assms(5) tr by (simp add: load8_def)
qed

text \<open>A string of the program: its address lies in the program page.\<close>

definition prog_string :: "'a machine_scheme \<Rightarrow> u32 \<Rightarrow> u8 list \<Rightarrow> bool" where
  "prog_string s a xs \<longleftrightarrow> (\<exists>k. a = user_addr k \<and> k + length xs < 0x400000) \<and> c_string (mem_at s a) xs"

lemma fdputs_prints:
  fixes s :: "'a keyboard_scheme"
  assumes r: "cat_ready p pid g img s" and str: "prog_string s a xs"
  shows "\<exists>t. ece391_fdputs 1 a s = Some t \<and> cat_ready p pid g img t \<and> kview t = kview s \<and>
    group_terminal t g = fold terminal_put (echo xs) (group_terminal s g) \<and>
    (\<forall>h<3. h \<noteq> g \<longrightarrow> group_terminal t h = group_terminal s h) \<and>
    (\<forall>k<0x400000. load8 t (user_addr k) = load8 s (user_addr k))"
proof -
  have f: "maps_program s pid" "1 \<le> pid" "pid < 7" "screens_ok s" "g < 3" "current_group s = int g"
    "current_ok s p" "f_flags (fd_at s p 1) \<noteq> NOT_IN_USE" "f_ops (fd_at s p 1) = Some Stdout_ops"
    "op_write (op_tables s Stdout_ops) = Some Term_write"
    using r by (simp_all add: cat_ready_def tables_ready_def stdout_table_def)
  obtain k where k: "a = user_addr k" "k + length xs < 0x400000" and c: "c_string (mem_at s a) xs"
    using str by (auto simp: prog_string_def)
  have "load_bytes s (user_addr k) (length xs) = Some xs"
    using c by (simp add: load_bytes_nth c_string_def mem_at_def k(1))
  then obtain t where t: "system_write 1 (user_addr k) (int (length xs)) s = Some (int (length xs), t)" "cat_ready p pid g img t"
    "kview t = kview s" "group_terminal t g = fold terminal_put (echo xs) (group_terminal s g)"
    "\<forall>h<3. h \<noteq> g \<longrightarrow> group_terminal t h = group_terminal s h"
    using cat_write [OF r, of k xs] k(2) by auto
  have "sint (word_of_int (int (length xs)) :: u32) = int (length xs)"
    using k(2) by (simp add: sint_uint uint_word_of_int signed_take_bit_int_eq_self del: of_int_of_nat_eq)
  then have n: "sint (word_of_nat (length xs) :: u32) = int (length xs)" by simp
  have run: "ece391_fdputs 1 a s = Some t"
    using n t(1) strlen_from_c_string [OF c, of 0] by (simp add: ece391_fdputs_def ece391_strlen_def k(1))
  have tw: "term_write 1 (user_addr k) (int (length xs)) s = Some (int (length xs), t)"
    using t(1) f get_fd_current [OF f(7), of 1] by (simp add: system_write_def current_ok_def run_write_def)
  have "load8 t (user_addr j) = load8 s (user_addr j)" if "j < 0x400000" for j
  proof (rule user_load8_kept [OF f(1-3) _ _ that])
    show "translate t v = translate s v" for v by (rule translate_cong) (use kview_fields [OF t(3)] in simp_all)
    show "phys t b = phys s b" if "drop_bit 22 b \<noteq> 0" for b using term_write_above [OF f(4-6) tw that] by simp
  qed
  then show ?thesis using run t by blast
qed

lemma prog_string_kept:
  assumes "prog_string s a xs" "\<forall>k<0x400000. load8 t (user_addr k) = load8 s (user_addr k)"
  shows "prog_string t a xs"
proof -
  obtain k where k: "a = user_addr k" "k + length xs < 0x400000" using assms(1) by (auto simp: prog_string_def)
  have "mem_at t a i = mem_at s a i" if "i \<le> length xs" for i
  proof -
    have "k + i < 0x400000" using k(2) that by simp
    then have "load8 t (user_addr (k + i)) = load8 s (user_addr (k + i))" using assms(2) by blast
    then show ?thesis by (simp add: mem_at_def k(1) add.assoc)
  qed
  then show ?thesis using assms(1) by (auto simp: prog_string_def c_string_def)
qed

subsection \<open>The state between the calls\<close>

definition test_names :: "string list" where
  "test_names = [''err_neg_fd'', ''err_big_fd'', ''err_open_lots'', ''err_open'', ''err_unopened'', ''err_vidmap'', ''err_stdin_out'']"

definition test_strings :: "string list" where
  "test_strings = map (\<lambda>n. ln (n @ '': PASS'')) test_names @ [''.'', ''helloo'', ''shel'', '''']"

text \<open>The process is ready to print, has its strings and the two standard descriptors, and of the others
  those in \<open>U\<close> are open on the directory.\<close>

definition test_state :: "(string \<Rightarrow> u32) \<Rightarrow> u32 \<Rightarrow> int \<Rightarrow> nat \<Rightarrow> u8 list \<Rightarrow> nat set \<Rightarrow> 'a terminals_scheme \<Rightarrow> bool" where
  "test_state lit p pid g img U s \<longleftrightarrow> cat_ready p pid g img s \<and>
     f_flags (fd_at s p 0) \<noteq> NOT_IN_USE \<and> f_ops (fd_at s p 0) = Some Stdin_ops \<and>
     (\<forall>j. 2 \<le> j \<and> j < 8 \<longrightarrow> (if j \<in> U then f_flags (fd_at s p j) \<noteq> NOT_IN_USE \<and> f_ops (fd_at s p j) = Some Dir_type_ops
        else f_flags (fd_at s p j) = NOT_IN_USE)) \<and>
     (\<forall>x \<in> set test_strings. prog_string s (lit x) (str x))"

definition same_screens :: "'a terminals_scheme \<Rightarrow> 'a terminals_scheme \<Rightarrow> bool" where
  "same_screens s t \<longleftrightarrow> (\<forall>h<3. group_terminal t h = group_terminal s h)"

lemma same_screens_trans: "same_screens s t \<Longrightarrow> same_screens t u \<Longrightarrow> same_screens s u"
  by (simp add: same_screens_def)

lemma test_stateD:
  assumes "test_state lit p pid g img U s"
  shows "cat_ready p pid g img s" "current_ok s p" "tables_ready s" "holds_image s img"
  using assms by (auto simp: test_state_def cat_ready_def image_loaded_def)

lemma test_state_free: "test_state lit p pid g img U s \<Longrightarrow> 2 \<le> j \<Longrightarrow> j < 8 \<Longrightarrow> j \<notin> U \<Longrightarrow> f_flags (fd_at s p j) = NOT_IN_USE"
  by (simp add: test_state_def)

lemma test_state_with_fd:
  fixes s :: "'a terminals_scheme"
  assumes t: "test_state lit p pid g img U s" and fd: "2 \<le> fd" "fd < 8"
    and f: "if fd \<in> V then f_flags (F (fd_at s p fd)) \<noteq> NOT_IN_USE \<and> f_ops (F (fd_at s p fd)) = Some Dir_type_ops
      else f_flags (F (fd_at s p fd)) = NOT_IN_USE"
    and V: "V - {fd} = U - {fd}"
  shows "test_state lit p pid g img V (with_fd p fd F s)" "same_screens s (with_fd p fd F s)"
proof -
  let ?t = "with_fd p fd F s"
  note d = test_stateD [OF t]
  have n1: "fd \<noteq> 1" using fd by simp
  have V': "j \<in> V \<longleftrightarrow> j \<in> U" if "j \<noteq> fd" for j using V that by blast
  have at: "fd_at ?t p j = (if j = fd then F (fd_at s p fd) else fd_at s p j)" if "j < 8" for j
    using fd_at_with_fd [OF d(2) fd(2) that] by auto
  have "load8 ?t a = load8 s a" for a
  proof -
    have "translate ?t a = translate s a" by (rule translate_cong) (simp_all add: with_fd_def)
    then show ?thesis by (simp add: load8_def with_fd_def)
  qed
  then have "prog_string ?t a xs = prog_string s a xs" for a xs by (simp add: prog_string_def mem_at_def)
  then show "test_state lit p pid g img V ?t"
    using t f V' fd at cat_ready_with_fd(1) [OF d(1) fd(2) n1] by (auto simp: test_state_def)
  show "same_screens s ?t" using cat_ready_with_fd(2) [OF d(1) fd(2) n1] by (simp add: same_screens_def)
qed

lemma test_state_says:
  assumes t: "test_state lit p pid g img U s" and x: "x \<in> set test_strings"
  shows "\<exists>u. ece391_fdputs 1 (lit x) s = Some u \<and> test_state lit p pid g img U u \<and>
    group_terminal u g = fold terminal_put (echo (str x)) (group_terminal s g) \<and>
    (\<forall>h<3. h \<noteq> g \<longrightarrow> group_terminal u h = group_terminal s h)"
proof -
  have "prog_string s (lit x) (str x)" using t x by (simp add: test_state_def)
  then obtain u where u: "ece391_fdputs 1 (lit x) s = Some u" "cat_ready p pid g img u" "kview u = kview s"
    "group_terminal u g = fold terminal_put (echo (str x)) (group_terminal s g)"
    "\<forall>h<3. h \<noteq> g \<longrightarrow> group_terminal u h = group_terminal s h"
    "\<forall>k<0x400000. load8 u (user_addr k) = load8 s (user_addr k)"
    using fdputs_prints [OF test_stateD(1) [OF t]] by blast
  have "fd_at u p j = fd_at s p j" for j using kview_fields(10) [OF u(3)] by (simp add: fd_at_def)
  then have "test_state lit p pid g img U u"
    using t u(2) prog_string_kept [OF _ u(6)] by (simp add: test_state_def)
  then show ?thesis using u by blast
qed

subsection \<open>The tests\<close>

text \<open>A test passes: it returns 0, prints its verdict and nothing else, and the process is as before.\<close>

definition passes :: "(string \<Rightarrow> u32) \<Rightarrow> u32 \<Rightarrow> int \<Rightarrow> nat \<Rightarrow> u8 list \<Rightarrow> string \<Rightarrow> 'a terminals_scheme
    \<Rightarrow> (int \<times> 'a terminals_scheme) option \<Rightarrow> bool" where
  "passes lit p pid g img name s r \<longleftrightarrow> (\<exists>t. r = Some (0, t) \<and> test_state lit p pid g img {} t \<and>
     group_terminal t g = fold terminal_put (echo (str (ln (name @ '': PASS'')))) (group_terminal s g) \<and>
     (\<forall>h<3. h \<noteq> g \<longrightarrow> group_terminal t h = group_terminal s h))"

lemma passesD: "passes lit p pid g img name s r \<Longrightarrow> \<exists>t. r = Some (0, t) \<and> test_state lit p pid g img {} t"
  by (auto simp: passes_def)

lemma refused_failure [simp]: "refused lit msg fail (-1, s) = Some (fail, s)"
  by (simp add: refused_def)

lemma verdict_passes:
  assumes "test_state lit p pid g img {} s" "name \<in> set test_names"
  shows "passes lit p pid g img name s (verdict lit name 0 s)"
proof -
  have "ln (name @ '': PASS'') \<in> set test_strings" using assms(2) by (simp add: test_strings_def)
  then show ?thesis using test_state_says [OF assms(1)] by (fastforce simp: passes_def verdict_def put_line_def)
qed

lemma err_neg_fd_passes:
  assumes "test_state lit p pid g img {} s"
  shows "passes lit p pid g img ''err_neg_fd'' s (err_neg_fd idle lit buf s)"
  using verdict_passes [OF assms, of "''err_neg_fd''"] bad_descriptor [OF test_stateD(2) [OF assms], of NEG_FD]
  by (simp add: err_neg_fd_def test_names_def)

lemma err_big_fd_passes:
  assumes "test_state lit p pid g img {} s"
  shows "passes lit p pid g img ''err_big_fd'' s (err_big_fd idle lit buf s)"
  using verdict_passes [OF assms, of "''err_big_fd''"] bad_descriptor [OF test_stateD(2) [OF assms], of BIG_FD]
  by (simp add: err_big_fd_def test_names_def)

lemma err_vidmap_passes:
  assumes "test_state lit p pid g img {} s"
  shows "passes lit p pid g img ''err_vidmap'' s (err_vidmap lit s)"
  using verdict_passes [OF assms, of "''err_vidmap''"]
  by (simp add: err_vidmap_def system_vidmap_def validate_user_ptr_def test_names_def)

lemma err_stdin_out_passes:
  assumes t: "test_state lit p pid g img {} s"
  shows "passes lit p pid g img ''err_stdin_out'' s (err_stdin_out idle lit buf s)"
proof -
  note d = test_stateD [OF t]
  have f: "f_flags (fd_at s p 0) \<noteq> NOT_IN_USE" "f_ops (fd_at s p 0) = Some Stdin_ops"
    "f_flags (fd_at s p 1) \<noteq> NOT_IN_USE" "f_ops (fd_at s p 1) = Some Stdout_ops"
    "op_write (op_tables s Stdin_ops) = None" "op_read (op_tables s Stdout_ops) = None"
    using t by (simp_all add: test_state_def cat_ready_def tables_ready_def stdin_table_def stdout_table_def)
  have gp: "get_current_pcb s = Some p" using d(2) by (simp add: current_ok_def)
  have "system_write 0 buf 31 s = Some (FAILURE, s)" "system_read idle 1 buf 31 s = Some (FAILURE, s)"
    using gp f get_fd_current [OF d(2), of 0] get_fd_current [OF d(2), of 1]
    by (simp_all add: system_write_def system_read_def)
  then show ?thesis using verdict_passes [OF t, of "''err_stdin_out''"] by (simp add: err_stdin_out_def test_names_def)
qed

text \<open>The image: the directory itself has an entry, the names of the fourth test have none.\<close>

definition test_image :: "u8 list \<Rightarrow> dentry \<Rightarrow> bool" where
  "test_image img d \<longleftrightarrow> names_end img \<and> directory img \<noteq> None \<and> word_at img 4 \<noteq> None \<and>
     lookup_name img (str ''.'') = Some d \<and> filetype d = DIR_TYPE \<and>
     lookup_name img (str ''helloo'') = None \<and> lookup_name img (str ''shel'') = None \<and> lookup_name img [] = None"

lemma test_lookup:
  assumes "test_state lit p pid g img U s" "test_image img d" "x \<in> set test_strings"
  shows "read_dentry_by_name (mem_at s (lit x)) s = Some (lookup_result (lookup_name img (str x)))"
proof -
  have "c_string (mem_at s (lit x)) (str x)" using assms(1,3) by (simp add: test_state_def prog_string_def)
  then show ?thesis using read_dentry_by_name_lookup [OF test_stateD(4) [OF assms(1)]] assms(2) by (auto simp: test_image_def)
qed

lemma err_open_passes:
  assumes t: "test_state lit p pid g img {} s" and i: "test_image img d"
  shows "passes lit p pid g img ''err_open'' s (err_open lit s)"
proof -
  have "system_open (mem_at s (lit x)) s = Some (FAILURE, s)" if "x \<in> {''helloo'', ''shel'', ''''}" for x
  proof (rule system_open_missing)
    have "x \<in> set test_strings" "lookup_name img (str x) = None"
      using that i by (auto simp: test_strings_def test_image_def str_def)
    then show "read_dentry_by_name (mem_at s (lit x)) s = Some (FAILURE, None)"
      using test_lookup [OF t i] by (simp add: lookup_result_def)
  qed
  then show ?thesis using verdict_passes [OF t, of "''err_open''"] by (simp add: err_open_def test_names_def)
qed

text \<open>Six descriptors are free; the seventh opening finds none.\<close>

lemma open_next:
  assumes t: "test_state lit p pid g img {2..<m} s" and i: "test_image img d" and m: "2 \<le> m" "m < 8"
  shows "\<exists>u. system_open (mem_at s (lit ''.'')) s = Some (int m, u) \<and> test_state lit p pid g img {2..<Suc m} u \<and> same_screens s u"
proof -
  let ?F = "\<lambda>_. (opened_file d)\<lparr>f_ops := Some Dir_type_ops\<rparr>"
  note D = test_stateD [OF t]
  have used: "f_flags (fd_at s p j) \<noteq> NOT_IN_USE" if "j < m" for j
  proof -
    consider "j = 0" | "j = 1" | "2 \<le> j" by linarith
    then show ?thesis using t that m by cases (auto simp: test_state_def cat_ready_def)
  qed
  have low: "lowest_free s p m" using used test_state_free [OF t, of m] m by (simp add: lowest_free_def)
  have "''.'' \<in> set test_strings" by (simp add: test_strings_def)
  then have "read_dentry_by_name (mem_at s (lit ''.'')) s = Some (SUCCESS, Some d)"
    using test_lookup [OF t i] i by (simp add: lookup_result_def test_image_def)
  then have "system_open (mem_at s (lit ''.'')) s = Some (int m, with_fd p m ?F s)"
    using system_open_type [OF D(2) low D(3), of _ d Dir_type_ops] i by (simp add: test_image_def)
  moreover have "{2..<Suc m} - {m} = {2..<m} - {m}" by auto
  then have "test_state lit p pid g img {2..<Suc m} (with_fd p m ?F s)" "same_screens s (with_fd p m ?F s)"
    using test_state_with_fd [OF t m, where F = ?F and V = "{2..<Suc m}"] m by (simp_all add: opened_file_def)
  ultimately show ?thesis by blast
qed

lemma open_none:
  assumes t: "test_state lit p pid g img {2..<8} s" and i: "test_image img d"
  shows "system_open (mem_at s (lit ''.'')) s = Some (FAILURE, s)"
proof -
  note D = test_stateD [OF t]
  let ?tab = "p_fd_table (pcb_mem s p)"
  have len: "length ?tab = 8" and gp: "get_current_pcb s = Some p" "get_pcb p s = Some (pcb_mem s p)"
    using D(2) by (simp_all add: current_ok_def get_pcb_def)
  have used: "f_flags (?tab ! j) \<noteq> NOT_IN_USE" if "j < 8" for j
  proof -
    consider "j = 0" | "j = 1" | "2 \<le> j" by linarith
    then show ?thesis using t that by cases (auto simp: test_state_def cat_ready_def fd_at_def)
  qed
  have "first_free (\<lambda>f. f_flags f = NOT_IN_USE) ?tab 0 = FAILURE"
    using first_free_cases [of "\<lambda>f. f_flags f = NOT_IN_USE" ?tab 0] used len by auto
  then have "get_new_fd s = Some FAILURE" using get_new_fd_eq [OF gp] len by simp
  moreover have "''.'' \<in> set test_strings" by (simp add: test_strings_def)
  then have "read_dentry_by_name (mem_at s (lit ''.'')) s = Some (SUCCESS, Some d)"
    using test_lookup [OF t i] i by (simp add: lookup_result_def test_image_def)
  ultimately show ?thesis by (simp add: system_open_def)
qed

lemma open_lots_fills:
  "test_state lit p pid g img {2..<m} s \<Longrightarrow> test_image img d \<Longrightarrow> 2 \<le> m \<Longrightarrow> m + k = 9 \<Longrightarrow> m \<le> 8 \<Longrightarrow>
    \<exists>u. open_lots lit k 0 s = Some (1, u) \<and> test_state lit p pid g img {2..<8} u \<and> same_screens s u"
proof (induction k arbitrary: m s)
  case (Suc k)
  show ?case
  proof (cases "m = 8")
    case True
    then have "k = 0" using Suc.prems(4) by simp
    then show ?thesis using open_none [of lit p pid g img s d] Suc.prems(1,2) True by (simp add: same_screens_def)
  next
    case False
    then have m: "m < 8" using Suc.prems(5) by simp
    obtain u where u: "system_open (mem_at s (lit ''.'')) s = Some (int m, u)" "test_state lit p pid g img {2..<Suc m} u" "same_screens s u"
      using open_next [OF Suc.prems(1-3) m] by blast
    then show ?thesis using Suc.IH [OF u(2) Suc.prems(2)] Suc.prems(3,4) m same_screens_trans [OF u(3)] by fastforce
  qed
qed simp

lemma close_from_frees:
  "test_state lit p pid g img {m..<8} s \<Longrightarrow> 2 \<le> m \<Longrightarrow> m + k = 8 \<Longrightarrow>
    \<exists>u. close_from (int m) k s = Some u \<and> test_state lit p pid g img {} u \<and> same_screens s u"
proof (induction k arbitrary: m s)
  case 0
  then show ?case by (simp add: same_screens_def)
next
  case (Suc k)
  note D = test_stateD [OF Suc.prems(1)]
  have m: "2 \<le> m" "m < 8" using Suc.prems(2,3) by simp_all
  have f: "f_flags (fd_at s p m) \<noteq> NOT_IN_USE" "f_ops (fd_at s p m) = Some Dir_type_ops"
    using Suc.prems(1) m by (auto simp: test_state_def)
  note c = system_close_in_use [OF D(2,3) m f]
  have "{Suc m..<8} - {m} = {m..<8} - {m}" by auto
  then have u: "test_state lit p pid g img {Suc m..<8} (with_fd p m clear_fd s)" "same_screens s (with_fd p m clear_fd s)"
    using test_state_with_fd [OF Suc.prems(1) m, where F = clear_fd and V = "{Suc m..<8}"] by (simp_all add: clear_fd_def)
  obtain w where "close_from (int (Suc m)) k (with_fd p m clear_fd s) = Some w" "test_state lit p pid g img {} w"
    "same_screens (with_fd p m clear_fd s) w" using Suc.IH [OF u(1)] Suc.prems(2,3) by auto
  then show ?case using c same_screens_trans [OF u(2)] by (auto simp: algebra_simps)
qed

lemma passes_same:
  assumes "same_screens s t" "passes lit p pid g img name t r" "g < 3"
  shows "passes lit p pid g img name s r"
  using assms by (auto simp: passes_def same_screens_def)

lemma err_open_lots_passes:
  assumes t: "test_state lit p pid g img {} s" and i: "test_image img d"
  shows "passes lit p pid g img ''err_open_lots'' s (err_open_lots lit s)"
proof -
  have g: "g < 3" using t by (simp add: test_state_def cat_ready_def)
  obtain u where u: "open_lots lit 7 0 s = Some (1, u)" "test_state lit p pid g img {2..<8} u" "same_screens s u"
    using open_lots_fills [of lit p pid g img 2 s d 7] t i by auto
  obtain w where w: "close_from 2 6 u = Some w" "test_state lit p pid g img {} w" "same_screens u w"
    using close_from_frees [of lit p pid g img 2 u 6] u(2) by auto
  have "passes lit p pid g img ''err_open_lots'' w (verdict lit ''err_open_lots'' 0 w)"
    by (rule verdict_passes [OF w(2)]) (simp add: test_names_def)
  from passes_same [OF same_screens_trans [OF u(3) w(3)] this g] show ?thesis
    using u(1) w(1) by (simp add: err_open_lots_def)
qed

lemma err_unopened_passes:
  assumes t: "test_state lit p pid g img {} s"
  shows "passes lit p pid g img ''err_unopened'' s (err_unopened idle lit buf s)"
proof -
  note D = test_stateD [OF t]
  have bad: "fd < 0 \<or> fd \<ge> 8 \<or> f_flags (fd_at s p (nat fd)) = NOT_IN_USE" if "2 \<le> fd" for fd
    using test_state_free [OF t, of "nat fd"] that by fastforce
  have c: "close_unopened lit i k 0 s = Some (0, s)" for i k
  proof (induction k arbitrary: i)
    case (Suc k)
    have "system_close i s = Some (FAILURE, s)"
      using close_standard [OF D(2)] bad_descriptor(3) [OF D(2) bad] by (cases "i < 2") simp_all
    then show ?case using Suc by simp
  qed simp
  have r: "2 \<le> i \<Longrightarrow> read_unopened idle lit buf i k 0 s = Some (0, s)" for i k
    by (induction k arbitrary: i) (simp_all add: bad_descriptor(1) [OF D(2) bad])
  have w: "2 \<le> i \<Longrightarrow> write_unopened lit buf i k 0 s = Some (0, s)" for i k
    by (induction k arbitrary: i) (simp_all add: bad_descriptor(2) [OF D(2) bad])
  show ?thesis using verdict_passes [OF t, of "''err_unopened''"] c r w by (simp add: err_unopened_def test_names_def)
qed

subsection \<open>The program\<close>

lemma run_test_passes:
  assumes t: "test_state lit p pid g img {} s" and i: "test_image img d" and n: "n < 7"
  shows "passes lit p pid g img (test_names ! n) s (run_test idle sys lit buf (int n + 1) s)"
proof -
  consider "n = 0" | "n = 1" | "n = 2" | "n = 3" | "n = 4" | "n = 5" | "n = 6" using n by linarith
  then show ?thesis
    by cases (use err_neg_fd_passes [OF t] err_big_fd_passes [OF t] err_open_lots_passes [OF t i] err_open_passes [OF t i]
      err_unopened_passes [OF t] err_vidmap_passes [OF t] err_stdin_out_passes [OF t] in \<open>simp_all add: run_test_def test_names_def\<close>)
qed

text \<open>The last test, and with it the choice of all tests, does not come back: the dispatcher leaves the kernel
  without \<open>iret\<close> for a number that is not in its table.\<close>

lemma err_syscall_num_leaves:
  "err_syscall_num (\<lambda>eax. do_system_call idle magic_addr ret_label esp ebp eax ebx ecx edx) lit s = None"
  by (simp add: err_syscall_num_def call_sys_def do_system_call_def)

lemma all_tests_leave:
  assumes t: "test_state lit p pid g img {} s" and i: "test_image img d"
  shows "all_tests idle (\<lambda>eax. do_system_call idle magic_addr ret_label esp ebp eax ebx ecx edx) lit buf s = None"
proof -
  obtain s1 where 1: "err_neg_fd idle lit buf s = Some (0, s1)" "test_state lit p pid g img {} s1"
    using passesD [OF err_neg_fd_passes [OF t]] by blast
  obtain s2 where 2: "err_big_fd idle lit buf s1 = Some (0, s2)" "test_state lit p pid g img {} s2"
    using passesD [OF err_big_fd_passes [OF 1(2)]] by blast
  obtain s3 where 3: "err_open_lots lit s2 = Some (0, s3)" "test_state lit p pid g img {} s3"
    using passesD [OF err_open_lots_passes [OF 2(2) i]] by blast
  obtain s4 where 4: "err_open lit s3 = Some (0, s4)" "test_state lit p pid g img {} s4"
    using passesD [OF err_open_passes [OF 3(2) i]] by blast
  obtain s5 where 5: "err_unopened idle lit buf s4 = Some (0, s5)" "test_state lit p pid g img {} s5"
    using passesD [OF err_unopened_passes [OF 4(2)]] by blast
  obtain s6 where 6: "err_vidmap lit s5 = Some (0, s6)" "test_state lit p pid g img {} s6"
    using passesD [OF err_vidmap_passes [OF 5(2)]] by blast
  obtain s7 where 7: "err_stdin_out idle lit buf s6 = Some (0, s7)"
    using passesD [OF err_stdin_out_passes [OF 6(2)]] by blast
  show ?thesis using 1 2 3 4 5 6 7 by (simp add: all_tests_def err_syscall_num_leaves)
qed

end
