(* ===== verification/UserTheorems.thy ===== *)
theory UserTheorems
  imports SysErrProps Demo
begin

text \<open>
  The property of the user programs, with a run of cat on the machine of \<open>Demo\<close>.
\<close>

text \<open>C11. cat prints the file that its argument names: from the call of \<open>getargs\<close> on, through \<open>open\<close>, as
  many \<open>read\<close>s of 1024 bytes as it takes and the \<open>write\<close>s to descriptor 1, the terminal of its group gets
  exactly the bytes of the file, in order, the other terminals nothing, and cat returns 0.\<close>

theorem cat_prints_file:
  assumes "kinv s" "1 \<le> running s" "screens_ok s" "tables_ready s"
    and "image_loaded s img" "names_end img" "directory img = Some ds" "word_at img 4 = Some count"
    and "take (unat (p_args_len (pcb_of s (running s)))) (p_args (pcb_of s (running s))) = name @ [0]" "0 \<notin> set name"
      "unat (p_args_len (pcb_of s (running s))) \<le> 128"
    and "lookup_name img name = Some d" "filetype d = FILE_TYPE" "file_bytes img (unat (word_of_int (inode_num d) :: u32)) = Some bytes"
    and "f_flags (fd_at s (get_pcb_addr (running s)) 1) \<noteq> NOT_IN_USE" "f_ops (fd_at s (get_pcb_addr (running s)) 1) = Some Stdout_ops"
    and "lowest_free s (get_pcb_addr (running s)) fd" "2 \<le> fd"
    and "k + 1024 \<le> 0x400000" "current_group s = int g"
  shows "\<exists>t. cat idle lit (user_addr k) s = Some (0, t) \<and>
    group_terminal t g = fold terminal_put (echo bytes) (group_terminal s g) \<and>
    (\<forall>h<3. h \<noteq> g \<longrightarrow> group_terminal t h = group_terminal s h)"
  by (rule cat_prints [OF assms])

text \<open>The process of PID 1 called with the argument \<open>hi\<close>.\<close>

definition demo_cat :: keyboard where
  "demo_cat = demo\<lparr>pcb_mem := (pcb_mem demo)(get_pcb_addr 1 :=
     (demo_pcb 1 0)\<lparr>p_args := [104, 105, 0] @ replicate 125 0, p_args_len := 3\<rparr>)\<rparr>"

lemma demo_cat_inv:
  "kinv demo_cat" "running demo_cat = 1" "screens_ok demo_cat" "tables_ready demo_cat" "image_loaded demo_cat demo_img"
  "group_terminal demo_cat h = group_terminal demo h" "current_group demo_cat = 0"
proof -
  have same: "page_directory demo_cat = page_directory demo" "page_table_0 demo_cat = page_table_0 demo" "pt0_addr demo_cat = pt0_addr demo"
    "phys demo_cat = phys demo" "boot_blk demo_cat = boot_blk demo" "visible_group demo_cat = visible_group demo" "terms demo_cat = terms demo"
    "video_mem demo_cat = video_mem demo" "screen_x demo_cat = screen_x demo" "screen_y demo_cat = screen_y demo"
    "procs_rest demo_cat = procs_rest demo"
    by (simp_all add: demo_cat_def)
  have "procs_frame demo demo_cat"
    by (simp add: procs_frame_def demo_cat_def pcb_like_def demo_pcb_def fresh_pcb_def pcb_addr_values zero_pcb_def)
  from kinv_frame [OF this same(1-3)] procs_frame_view(2) [OF this]
  show "kinv demo_cat" "running demo_cat = 1" using demo_kinv demo_running by simp_all
  have "terms_ok demo" by (simp add: terms_ok_def demo_term_def term_ok_def)
  then have "screens_ok demo"
    by (auto simp: screens_ok_def demo_term_def saved_cursor_ok_def cursor_ok_def intro: exI [of _ 0])
  then show "screens_ok demo_cat" using screens_ok_cong [OF same(6-10)] by simp
  show "tables_ready demo_cat" using demo_tables_ready tables_ready_rest [OF same(11)] by simp
  have tr: "translate demo_cat v = translate demo v" for v by (rule translate_cong) (rule same)+
  have "load8 demo_cat v = load8 demo v" for v unfolding load8_def tr same(4) by (rule refl)
  then show "image_loaded demo_cat demo_img"
    using demo_image_loaded unfolding image_loaded_def holds_image_def kernel_identity_def tr same(5) by simp
  show "group_terminal demo_cat h = group_terminal demo h" by (rule group_terminal_cong [OF same(6,7,4,8-10)])
  show "current_group demo_cat = 0" by (simp add: demo_cat_def)
qed

lemma demo_cat_pcb:
  "pcb_of demo_cat 1 = (demo_pcb 1 0)\<lparr>p_args := [104, 105, 0] @ replicate 125 0, p_args_len := 3\<rparr>"
  "p_fd_table (pcb_mem demo_cat (get_pcb_addr 1)) = [std_file Stdin_ops, std_file Stdout_ops] @ replicate 6 zero_file"
  by (simp_all add: pcb_of_def demo_cat_def demo_pcb_def fresh_pcb_def)

lemma cat_prints_file_witness:
  "\<exists>t. cat Some (\<lambda>_. 0) 0x8048100 demo_cat = Some (0, t) \<and>
     group_terminal t 0 = fold terminal_put (echo demo_text) (group_terminal demo 0) \<and>
     group_terminal t 1 = group_terminal demo 1"
proof -
  have free: "lowest_free demo_cat (get_pcb_addr 1) 2"
    by (auto simp: lowest_free_def fd_at_def demo_cat_pcb std_file_def zero_file_def less_2_cases_iff nth_Cons split: nat.splits)
  have out: "fd_at demo_cat (get_pcb_addr 1) (Suc 0) = std_file Stdout_ops" by (simp add: fd_at_def demo_cat_pcb)
  have "\<exists>t. cat Some (\<lambda>_. 0) (user_addr 0x48100) demo_cat = Some (0, t) \<and>
      group_terminal t 0 = fold terminal_put (echo demo_text) (group_terminal demo_cat 0) \<and>
      (\<forall>h<3. h \<noteq> 0 \<longrightarrow> group_terminal t h = group_terminal demo_cat h)"
    by (rule cat_prints_file [OF demo_cat_inv(1) _ demo_cat_inv(3-5) demo_names_end demo_directory demo_img_words(2) _ _ _ demo_lookup(1),
          where fd = 2])
      (use demo_cat_inv(2,7) free in \<open>simp_all add: demo_cat_pcb demo_file_bytes out std_file_def take_Cons'\<close>)
  then show ?thesis unfolding demo_cat_inv(6) by auto
qed

subsection \<open>syserr\<close>

text \<open>C10. The kernel and its error tests. In a process with its standard descriptors and nothing else open, on an
  image with an entry for the directory, seven of the eight tests of syserr pass: bad, closed, and wrongly used
  descriptors, names that are not there, more files than descriptors and bad pointers are refused as the test
  wants it, the test returns 0 and prints its verdict on the terminal of its group, nothing anywhere else, and it
  leaves no descriptor open. The eighth, and the choice of all tests, does not come back through the linkage: for a
  number outside of its table the dispatcher executes \<open>leave; ret\<close> on the stack of the program and continues at
  an address found there, still at the privilege of the kernel; what follows is not part of the model.\<close>

theorem kernel_passes_syserr:
  fixes s :: "'a keyboard_scheme" and idle :: "'a keyboard_scheme \<Rightarrow> 'a keyboard_scheme option"
    and magic_addr ret_label esp ebp ebx ecx edx :: u32
  assumes "test_state lit p pid g img {} s" "test_image img d"
  defines "sys \<equiv> \<lambda>eax. do_system_call idle magic_addr ret_label esp ebp eax ebx ecx edx"
  shows "(\<forall>n<7. \<exists>t. run_test idle sys lit buf (int n + 1) s = Some (0, t) \<and>
      group_terminal t g = fold terminal_put (echo (str (ln (test_names ! n @ '': PASS'')))) (group_terminal s g) \<and>
      (\<forall>h<3. h \<noteq> g \<longrightarrow> group_terminal t h = group_terminal s h) \<and>
      (\<forall>j. 2 \<le> j \<and> j < 8 \<longrightarrow> f_flags (fd_at t p j) = NOT_IN_USE)) \<and>
    run_test idle sys lit buf 8 s = None \<and> run_test idle sys lit buf 0 s = None"
proof (intro conjI allI impI)
  fix n :: nat assume "n < 7"
  from run_test_passes [OF assms(1,2) this]
  obtain t where "run_test idle sys lit buf (int n + 1) s = Some (0, t)" "test_state lit p pid g img {} t"
    "group_terminal t g = fold terminal_put (echo (str (ln (test_names ! n @ '': PASS'')))) (group_terminal s g)"
    "\<forall>h<3. h \<noteq> g \<longrightarrow> group_terminal t h = group_terminal s h" unfolding passes_def by blast
  then show "\<exists>t. run_test idle sys lit buf (int n + 1) s = Some (0, t) \<and>
      group_terminal t g = fold terminal_put (echo (str (ln (test_names ! n @ '': PASS'')))) (group_terminal s g) \<and>
      (\<forall>h<3. h \<noteq> g \<longrightarrow> group_terminal t h = group_terminal s h) \<and>
      (\<forall>j. 2 \<le> j \<and> j < 8 \<longrightarrow> f_flags (fd_at t p j) = NOT_IN_USE)"
    using test_state_free by blast
next
  show "run_test idle sys lit buf 8 s = None" unfolding sys_def by (simp add: run_test_def err_syscall_num_leaves)
  show "run_test idle sys lit buf 0 s = None" unfolding sys_def by (simp add: run_test_def all_tests_leave [OF assms(1,2)])
qed

text \<open>The strings of the tests in the memory of PID 1, 32 bytes for each.\<close>

definition test_slot :: "string \<Rightarrow> nat" where
  "test_slot x = length (takeWhile (\<lambda>y. y \<noteq> x) test_strings)"

definition test_lit :: "string \<Rightarrow> u32" where
  "test_lit x = user_addr (0x48000 + test_slot x * 32)"

definition padded_string :: "string \<Rightarrow> u8 list" where
  "padded_string x = take 32 (str x @ replicate 32 0)"

definition test_data :: "u8 list" where
  "test_data = concat (map padded_string test_strings)"

lemma test_strings_short: "x \<in> set test_strings \<Longrightarrow> length x < 32 \<and> (0 :: u8) \<notin> set (str x)"
  by (auto simp: test_strings_def test_names_def ln_def str_def)

lemma test_data_length: "length test_data = 352"
  by (simp add: test_data_def test_strings_def test_names_def padded_string_def str_def ln_def)

lemma test_slot:
  assumes "x \<in> set test_strings"
  shows "test_slot x < length test_strings \<and> test_strings ! test_slot x = x"
proof -
  let ?w = "takeWhile (\<lambda>y. y \<noteq> x) test_strings"
  have "?w \<noteq> test_strings" using assms takeWhile_eq_all_conv [of "\<lambda>y. y \<noteq> x" test_strings] by auto
  then have "length ?w < length test_strings"
    using length_takeWhile_le [of "\<lambda>y. y \<noteq> x" test_strings] takeWhile_eq_take [of "\<lambda>y. y \<noteq> x" test_strings]
    by (metis order.not_eq_order_implies_strict take_all_iff order_refl)
  then show ?thesis using nth_length_takeWhile [of "\<lambda>y. y \<noteq> x" test_strings] by (simp add: test_slot_def)
qed

lemma test_data_nth:
  assumes "x \<in> set test_strings" "i \<le> length x"
  shows "test_data ! (test_slot x * 32 + i) = (str x @ [0]) ! i" "test_slot x * 32 + i < 352"
proof -
  have l: "length x < 32" using test_strings_short [OF assms(1)] by simp
  have n: "length test_strings = 11" by (simp add: test_strings_def test_names_def)
  note sl = test_slot [OF assms(1)]
  have "test_data ! (test_slot x * 32 + i) = map padded_string test_strings ! test_slot x ! i"
    unfolding test_data_def by (rule concat_nth) (use sl l assms(2) in \<open>auto simp: padded_string_def str_def\<close>)
  also have "\<dots> = padded_string x ! i" using sl by simp
  also have "\<dots> = (str x @ [0]) ! i" using l assms(2) by (auto simp: padded_string_def str_def nth_append)
  finally show "test_data ! (test_slot x * 32 + i) = (str x @ [0]) ! i" .
  show "test_slot x * 32 + i < 352" using sl l assms(2) n by linarith
qed

lemma demo_test_state:
  "\<exists>s :: keyboard. test_state test_lit (get_pcb_addr 1) 1 0 demo_img {} s \<and> (\<forall>h<3. group_terminal s h = group_terminal demo h)"
proof -
  have ok: "procs_ok demo_cat" "maps_program demo_cat 1" using demo_cat_inv(1,2) by (auto simp: kinv_def)
  have cur: "current_ok demo_cat (get_pcb_addr 1)" using current_ok_running [OF ok(1)] demo_cat_inv(2) by simp
  have out: "fd_at demo_cat (get_pcb_addr 1) j = ([std_file Stdin_ops, std_file Stdout_ops] @ replicate 6 zero_file) ! j" for j
    by (simp add: fd_at_def demo_cat_pcb)
  have ready: "cat_ready (get_pcb_addr 1) 1 0 demo_img demo_cat"
    using cur ok(2) demo_cat_inv(3-5,7) by (simp add: cat_ready_def out std_file_def)
  have n: "0x48000 + length test_data \<le> 0x400000" by (simp add: test_data_length)
  obtain s where s: "store_bytes (user_addr 0x48000) test_data demo_cat = Some s"
    "\<forall>i<length test_data. load8 s (user_addr 0x48000 + of_nat i) = Some (test_data ! i)"
    using store_bytes_range [OF user_range [OF ok(2) n]] by blast
  have r: "cat_ready (get_pcb_addr 1) 1 0 demo_img s" using cat_ready_store(1) [OF s(1) n ready] .
  have scr: "group_terminal s h = group_terminal demo h" if "h < 3" for h
    using cat_ready_store(2) [OF s(1) n ready that] demo_cat_inv(6) by simp
  have at: "fd_at s p j = fd_at demo_cat p j" for p j
    using store_bytes_same_but_phys [OF s(1)] by (auto simp: fd_at_def)
  have "prog_string s (test_lit x) (str x)" if x: "x \<in> set test_strings" for x
  proof -
    have "load8 s (test_lit x + of_nat i) = Some ((str x @ [0]) ! i)" if "i \<le> length x" for i
      using s(2) [rule_format, of "test_slot x * 32 + i"] test_data_nth [OF x that]
      by (simp add: test_lit_def test_data_length algebra_simps)
    then have "c_string (mem_at s (test_lit x)) (str x)"
      using test_strings_short [OF x] by (intro mem_at_stored [where xs = "str x @ [0]"]) (auto simp: str_def)
    moreover have "0x48000 + test_slot x * 32 + length (str x) < 0x400000"
      using test_data_nth(2) [OF x, of "length x"] by (simp add: str_def)
    ultimately show ?thesis unfolding prog_string_def test_lit_def by blast
  qed
  then have "test_state test_lit (get_pcb_addr 1) 1 0 demo_img {} s"
    using r unfolding test_state_def at out by (auto simp: std_file_def zero_file_def nth_Cons split: nat.splits)
  then show ?thesis using scr by blast
qed

lemma demo_test_image: "test_image demo_img \<lparr>filename = [46] @ replicate 31 0, filetype = 1, inode_num = 0\<rparr>"
  using demo_lookup(3) demo_names_end
  by (simp add: test_image_def demo_directory demo_img_words str_def lookup_name_def entry_name_def)

lemma kernel_passes_syserr_witness:
  "\<exists>(s :: keyboard) t. run_test Some (\<lambda>eax. do_system_call Some 0 0 0 0 eax 0 0 0) test_lit 0x8048100 3 s = Some (0, t) \<and>
     group_terminal t 0 = fold terminal_put (echo (str (ln ''err_open_lots: PASS''))) (group_terminal demo 0)"
proof -
  obtain s :: keyboard where s: "test_state test_lit (get_pcb_addr 1) 1 0 demo_img {} s"
    "\<forall>h<3. group_terminal s h = group_terminal demo h" using demo_test_state by blast
  have "\<forall>n<7. \<exists>t. run_test Some (\<lambda>eax. do_system_call Some 0 0 0 0 eax 0 0 0) test_lit 0x8048100 (int n + 1) s = Some (0, t) \<and>
      group_terminal t 0 = fold terminal_put (echo (str (ln (test_names ! n @ '': PASS'')))) (group_terminal s 0)"
    using kernel_passes_syserr [OF s(1) demo_test_image] by blast
  from this [rule_format, of 2] show ?thesis using s(2) by (auto simp: test_names_def)
qed

end
