(* ===== verification/UserMem.thy ===== *)
theory UserMem
  imports SysErrProps
begin

text \<open>
  The memory of a running program as a function from offsets in its page to bytes. A process that is
  \<open>cat_ready\<close> and whose memory is \<open>m\<close> is \<open>prog_at\<close>: reading, writing and printing are read off from \<open>m\<close>, a write
  updates it and leaves the screens as they are, and a line that is typed goes from the terminal to the buffer.
\<close>

subsection \<open>The memory\<close>

definition pmem :: "'a machine_scheme \<Rightarrow> nat \<Rightarrow> u8" where
  "pmem s k = (if k < 0x400000 then the (load8 s (user_addr k)) else 0)"

definition prog_at :: "u32 \<Rightarrow> int \<Rightarrow> nat \<Rightarrow> u8 list \<Rightarrow> (nat \<Rightarrow> u8) \<Rightarrow> 'a terminals_scheme \<Rightarrow> bool" where
  "prog_at p pid g img m s \<longleftrightarrow> cat_ready p pid g img s \<and> pmem s = m"

text \<open>Nothing but the memory of the program differs.\<close>

definition quiet :: "'a terminals_scheme \<Rightarrow> 'a terminals_scheme \<Rightarrow> bool" where
  "quiet s t \<longleftrightarrow> (\<exists>f. t = s\<lparr>phys := f\<rparr>) \<and> (\<forall>h<3. group_terminal t h = group_terminal s h)"

lemma quiet_refl [simp]: "quiet s s"
  by (auto simp: quiet_def intro: exI [of _ "phys s"])

lemma quiet_trans: "quiet s t \<Longrightarrow> quiet t u \<Longrightarrow> quiet s u"
  by (auto simp: quiet_def)

lemma quiet_kview: "quiet s t \<Longrightarrow> kview t = kview s"
  by (auto simp: quiet_def)

text \<open>The bytes \<open>xs\<close> from \<open>k\<close> on.\<close>

definition put_at :: "(nat \<Rightarrow> u8) \<Rightarrow> nat \<Rightarrow> u8 list \<Rightarrow> nat \<Rightarrow> u8" where
  "put_at m k xs = (\<lambda>j. if k \<le> j \<and> j < k + length xs then xs ! (j - k) else m j)"

lemma put_at_Nil [simp]: "put_at m k [] = m"
  by (auto simp: put_at_def fun_eq_iff)

lemma put_at_Cons: "put_at m k (x # xs) = put_at (m(k := x)) (Suc k) xs"
  by (auto simp: put_at_def fun_eq_iff nth_Cons')

lemma put_at_snoc: "(put_at m k xs)(k + length xs := x) = put_at m k (xs @ [x])"
  by (auto simp: put_at_def fun_eq_iff nth_append)

lemma put_at_over: "length xs = length ys \<Longrightarrow> put_at (put_at m k xs) k ys = put_at m k ys"
  by (auto simp: put_at_def fun_eq_iff)

lemma user_addr_add: "user_addr k + of_nat i = user_addr (k + i)"
  by simp

lemma user_addr_int: "0 \<le> i \<Longrightarrow> user_addr k + word_of_int i = user_addr (k + nat i)"
  using user_addr_add [of k "nat i"] by simp

lemma load8_pmem: "prog_at p pid g img m s \<Longrightarrow> k < 0x400000 \<Longrightarrow> load8 s (user_addr k) = Some (m k)"
  using user_translate_at [of s pid k 1 0]
  by (auto simp: prog_at_def pmem_def cat_ready_def load8_def)

lemma prog_at_store:
  assumes m: "prog_at p pid g img m s" and n: "k + length bs \<le> 0x400000"
  shows "\<exists>t. store_bytes (user_addr k) bs s = Some t \<and> prog_at p pid g img (put_at m k bs) t \<and> quiet s t"
proof -
  have r: "cat_ready p pid g img s" and mp: "maps_program s pid" using m by (simp_all add: prog_at_def cat_ready_def)
  obtain t where t: "store_bytes (user_addr k) bs s = Some t"
    "\<forall>i<length bs. load8 t (user_addr k + of_nat i) = Some (bs ! i)"
    using store_bytes_range [OF user_range [OF mp n]] by blast
  obtain f where f: "t = s\<lparr>phys := f\<rparr>" using store_bytes_same_but_phys [OF t(1)] by blast
  have other: "load8 t (user_addr j) = load8 s (user_addr j)" if j: "j < 0x400000" "\<not> (k \<le> j \<and> j < k + length bs)" for j
  proof (rule load8_store_bytes_other [OF t(1)])
    fix i assume i: "i < length bs"
    have "user_addr k + of_nat i \<noteq> user_addr j + of_nat 0"
    proof
      assume "user_addr k + of_nat i = user_addr j + of_nat 0"
      then have "user_addr (k + i) = user_addr j" by simp
      then show False using i j n by (subst (asm) word_add_of_nat_eq_iff) auto
    qed
    then show "translate s (user_addr k + of_nat i) \<noteq> translate s (user_addr j)"
      using user_translate_at [OF mp n i] user_translate_at [OF mp, of j 1 0] j(1)
        big_frame_inj [of "get_prog_phys_addr pid" "user_addr k + of_nat i" "user_addr j"]
        user_page [OF n i] user_page [of j 1 0] by auto
  qed
  have "pmem t = put_at m k bs"
  proof
    fix j
    show "pmem t j = put_at m k bs j"
    proof (cases "k \<le> j \<and> j < k + length bs")
      case True
      then have "j - k < length bs" by linarith
      then show ?thesis using t(2) [rule_format, of "j - k"] True n by (simp add: pmem_def put_at_def)
    next
      case False
      then show ?thesis using other [OF _ False] m by (auto simp: pmem_def put_at_def prog_at_def)
    qed
  qed
  then show ?thesis using t(1) f cat_ready_store [OF t(1) n r] by (auto simp: prog_at_def quiet_def)
qed

lemma prog_at_store8:
  assumes m: "prog_at p pid g img m s" and k: "k < 0x400000"
  shows "\<exists>t. store8 (user_addr k) b s = Some t \<and> prog_at p pid g img (m(k := b)) t \<and> quiet s t"
  using prog_at_store [OF m, of k "[b]"] k by (auto simp: put_at_Cons bind_Some_iff)

subsection \<open>Strings and printing\<close>

definition str_in :: "(nat \<Rightarrow> u8) \<Rightarrow> nat \<Rightarrow> u8 list \<Rightarrow> bool" where
  "str_in m k xs \<longleftrightarrow> k + length xs < 0x400000 \<and> 0 \<notin> set xs \<and> (\<forall>i<length xs. m (k + i) = xs ! i) \<and> m (k + length xs) = 0"

lemma c_string_in: "prog_at p pid g img m s \<Longrightarrow> str_in m k xs \<Longrightarrow> c_string (mem_at s (user_addr k)) xs"
  unfolding c_string_def mem_at_def user_addr_add by (simp add: load8_pmem str_in_def del: of_nat_add)

lemma prog_string_in: "prog_at p pid g img m s \<Longrightarrow> str_in m k xs \<Longrightarrow> prog_string s (user_addr k) xs"
  using c_string_in [of p pid g img m s k xs] unfolding prog_string_def str_in_def by blast

lemma str_in_cong: "str_in m k xs \<Longrightarrow> (\<And>j. k \<le> j \<Longrightarrow> j \<le> k + length xs \<Longrightarrow> m' j = m j) \<Longrightarrow> str_in m' k xs"
  by (simp add: str_in_def)

lemma str_in_put: "k + length xs < 0x400000 \<Longrightarrow> 0 \<notin> set xs \<Longrightarrow> str_in (put_at m k (xs @ [0])) k xs"
  by (auto simp: str_in_def put_at_def nth_append)

text \<open>From \<open>s\<close> to \<open>t\<close> the program prints \<open>xs\<close> on its terminal.\<close>

definition says :: "nat \<Rightarrow> u8 list \<Rightarrow> 'a terminals_scheme \<Rightarrow> 'a terminals_scheme \<Rightarrow> bool" where
  "says g xs s t \<longleftrightarrow> kview t = kview s \<and> group_terminal t g = fold terminal_put (echo xs) (group_terminal s g) \<and>
     (\<forall>h<3. h \<noteq> g \<longrightarrow> group_terminal t h = group_terminal s h)"

lemma says_trans [trans]: "says g xs s t \<Longrightarrow> says g ys t u \<Longrightarrow> says g (xs @ ys) s u"
  by (simp add: says_def echo_append)

lemma quiet_says: "quiet s t \<Longrightarrow> g < 3 \<Longrightarrow> says g [] s t"
  using quiet_kview [of s t] by (auto simp: says_def quiet_def echo_def)

lemma says_Nil_left: "says g [] s t \<Longrightarrow> says g xs t u \<Longrightarrow> says g xs s u"
  using says_trans [of g "[]"] by fastforce

lemma prog_group: "prog_at p pid g img m s \<Longrightarrow> g < 3"
  by (simp add: prog_at_def cat_ready_def)

lemma prog_says:
  assumes m: "prog_at p pid g img m s" and x: "str_in m k xs"
  shows "\<exists>t. ece391_fdputs 1 (user_addr k) s = Some t \<and> prog_at p pid g img m t \<and> says g xs s t"
proof -
  have r: "cat_ready p pid g img s" using m by (simp add: prog_at_def)
  obtain t where t: "ece391_fdputs 1 (user_addr k) s = Some t" "cat_ready p pid g img t" "says g xs s t"
    "\<forall>k<0x400000. load8 t (user_addr k) = load8 s (user_addr k)"
    using fdputs_prints [OF r prog_string_in [OF m x]] unfolding says_def by blast
  have "pmem t = pmem s" using t(4) by (simp add: pmem_def fun_eq_iff)
  then show ?thesis using t m by (auto simp: prog_at_def)
qed

text \<open>The string literals \<open>S\<close> of a program, apart from its buffer of \<open>n\<close> bytes at \<open>k\<close>.\<close>

definition lits_in :: "(string \<Rightarrow> u32) \<Rightarrow> string set \<Rightarrow> nat \<Rightarrow> nat \<Rightarrow> (nat \<Rightarrow> u8) \<Rightarrow> bool" where
  "lits_in lit S k n m \<longleftrightarrow>
     (\<forall>x\<in>S. \<exists>q. lit x = user_addr q \<and> str_in m q (str x) \<and> (q + length x < k \<or> k + n \<le> q))"

lemma lits_in_cong:
  assumes "lits_in lit S k n m" "\<And>j. \<not> (k \<le> j \<and> j < k + n) \<Longrightarrow> m' j = m j"
  shows "lits_in lit S k n m'"
  unfolding lits_in_def
proof
  fix x assume "x \<in> S"
  then obtain q where q: "lit x = user_addr q" "str_in m q (str x)" "q + length x < k \<or> k + n \<le> q"
    using assms(1) unfolding lits_in_def by blast
  have "str_in m' q (str x)" by (rule str_in_cong [OF q(2)]) (use q(3) assms(2) in \<open>auto simp: str_def\<close>)
  then show "\<exists>q. lit x = user_addr q \<and> str_in m' q (str x) \<and> (q + length x < k \<or> k + n \<le> q)" using q by blast
qed

lemma lits_in_put: "lits_in lit S k n m \<Longrightarrow> k \<le> j \<Longrightarrow> j + length xs \<le> k + n \<Longrightarrow> lits_in lit S k n (put_at m j xs)"
  by (erule lits_in_cong) (auto simp: put_at_def)

lemma prog_says_lit:
  assumes "prog_at p pid g img m s" "lits_in lit S k n m" "x \<in> S"
  shows "\<exists>t. ece391_fdputs 1 (lit x) s = Some t \<and> prog_at p pid g img m t \<and> says g (str x) s t"
  using assms prog_says [OF assms(1)] unfolding lits_in_def by fastforce

lemma lits_string:
  "prog_at p pid g img m s \<Longrightarrow> lits_in lit S k n m \<Longrightarrow> x \<in> S \<Longrightarrow> c_string (mem_at s (lit x)) (str x)"
  using c_string_in [of p pid g img m s] unfolding lits_in_def by fastforce

subsection \<open>A line that is typed\<close>

text \<open>While a reader of the group \<open>g\<close> waits in \<open>s\<close>, interrupts lead to \<open>u\<close>, where the line \<open>xs\<close> is complete.\<close>

definition types_line :: "('a terminals_scheme \<Rightarrow> 'a terminals_scheme option) \<Rightarrow> nat \<Rightarrow> u8 list
    \<Rightarrow> 'a terminals_scheme \<Rightarrow> 'a terminals_scheme \<Rightarrow> bool" where
  "types_line idle g xs s u \<longleftrightarrow> read_in_progress (terms s ! g) = 0 \<and>
     (\<exists>k. iterate idle k (waiting g s) = Some u \<and>
        (\<forall>j<k. \<forall>w. iterate idle j (waiting g s) = Some w \<longrightarrow> terms_ok w \<and> newline_seen (terms w ! g) = 0)) \<and>
     newline_seen (terms u ! g) \<noteq> 0 \<and> line (terms u ! g) = xs"

text \<open>The descriptor 0 is the keyboard.\<close>

definition stdin_open :: "u32 \<Rightarrow> 'a procs_scheme \<Rightarrow> bool" where
  "stdin_open p s \<longleftrightarrow> f_flags (fd_at s p 0) \<noteq> NOT_IN_USE \<and> f_ops (fd_at s p 0) = Some Stdin_ops"

lemma stdin_open_kview: "kview t = kview s \<Longrightarrow> stdin_open p t = stdin_open p s"
  using kview_fields(10) [of t s] by (simp add: stdin_open_def fd_at_def)

lemma prog_at_put_term:
  assumes m: "prog_at p pid g img m s" and t: "term_ok t" "saved_cursor_ok t"
  shows "prog_at p pid g img m (s\<lparr>terms := (terms s)[h := t]\<rparr>)" (is "prog_at _ _ _ _ _ ?t")
proof -
  have r: "cat_ready p pid g img s" using m by (simp add: prog_at_def)
  then have "screens_ok ?t"
    using t by (auto simp: cat_ready_def screens_ok_def terms_ok_def cursor_ok_def dest!: set_update_subset_insert [THEN subsetD])
  moreover have tr: "translate ?t a = translate s a" for a by (rule translate_cong) simp_all
  moreover have l8: "load8 ?t a = load8 s a" for a by (simp add: load8_def tr)
  then have "image_loaded ?t img"
    using r by (simp add: cat_ready_def image_loaded_def holds_image_def kernel_identity_def tr)
  ultimately have "cat_ready p pid g img ?t" using cat_ready_kview [of ?t s] r by simp
  moreover have "pmem ?t = pmem s" by (simp add: pmem_def fun_eq_iff l8)
  ultimately show ?thesis using m by (simp add: prog_at_def)
qed

lemma prog_reads_line:
  fixes s u :: "'a keyboard_scheme"
  assumes s: "prog_at p pid g img m s" "stdin_open p s" and u: "prog_at p pid g img m' u"
    and line: "types_line idle g xs s u" and k: "k + length xs \<le> 0x400000" "k < 0x400000"
    and n: "int (length xs) \<le> n" "n < 2 ^ 31"
  shows "\<exists>t. system_read idle 0 (user_addr k) n s = Some (int (length xs), t) \<and>
    prog_at p pid g img (put_at m' k xs) t \<and> (\<forall>h<3. group_terminal t h = group_terminal u h) \<and> kview t = kview u"
proof -
  have f: "g < 3" "current_group s = int g" "screens_ok s" "screens_ok u" "current_ok s p" "op_tables s Stdin_ops = stdin_table"
    "terms_ok s" "terms_ok u"
    using s(1) u by (simp_all add: prog_at_def cat_ready_def tables_ready_def screens_ok_def)
  have tk: "take (nat n) xs = xs" using n(1) by simp
  obtain v where v: "store_bytes (user_addr k) xs u = Some v" "prog_at p pid g img (put_at m' k xs) v" "quiet u v"
    using prog_at_store [OF u k(1)] by blast
  obtain j where j: "iterate idle j (waiting g s) = Some u"
    "\<And>i w. i < j \<Longrightarrow> iterate idle i (waiting g s) = Some w \<Longrightarrow> terms_ok w \<and> newline_seen (terms w ! g) = 0"
    "read_in_progress (terms s ! g) = 0" "newline_seen (terms u ! g) \<noteq> 0" "line (terms u ! g) = xs"
    using line unfolding types_line_def by blast
  let ?t = "v\<lparr>terms := (terms u)[g := (terms u ! g)\<lparr>term_buff_size := 0, read_in_progress := 0\<rparr>]\<rparr>"
  have "term_read idle 0 (user_addr k) n s = Some (int (length xs), ?t)"
    using term_read_line [OF user_not_null [OF k(2)] f(2,1,7) j(3,1) f(8) j(4,2), where n = n and v = v and fd = 0] n v(1) j(5) by (simp add: tk)
  then have run: "system_read idle 0 (user_addr k) n s = Some (int (length xs), ?t)"
    using f(5,6) s(2) get_fd_current [OF f(5), of 0]
    by (simp add: system_read_def current_ok_def run_read_def stdin_open_def stdin_table_def)
  have tv: "terms v = terms u" using v(3) by (auto simp: quiet_def)
  have tg: "terms v ! g \<in> set (terms v)" "length (terms u) = 3" using f(1,8) by (simp_all add: terms_ok_def tv)
  then have "term_ok (terms v ! g)" "saved_cursor_ok (terms v ! g)"
    using v(2) by (auto simp: prog_at_def cat_ready_def screens_ok_def terms_ok_def)
  then have "prog_at p pid g img (put_at m' k xs) ?t"
    unfolding tv [symmetric] by (intro prog_at_put_term [OF v(2)]) (simp_all add: term_ok_def saved_cursor_ok_def)
  moreover have "group_terminal ?t h = group_terminal v h" if "h < 3" for h
    using that tg(2) by (cases "h = g") (simp_all add: group_terminal_def terminal_of_page page_text_def tv)
  ultimately show ?thesis using run v(3) quiet_kview [OF v(3)] unfolding quiet_def by auto
qed

lemma prog_at_quiet: "prog_at p pid g img m s \<Longrightarrow> quiet s t \<Longrightarrow> stdin_open p t = stdin_open p s"
  by (rule stdin_open_kview [OF quiet_kview])

end
