(* ===== verification/Programs.thy ===== *)
theory Programs
  imports SysErr
begin

text \<open>
  The other user programs (mp3/syscalls) and the conversion of numbers of their library: itoa and strrev of
  ece391support.c, counter, grep, the shell and pingpong. As in the theory \<open>SysErr\<close>, the address of a string literal
  is \<open>lit\<close> of its characters, and an array of a frame is an address. What \<open>execute\<close> does until it comes back to the
  shell, the whole child, is an argument of the shell.
\<close>

subsection \<open>Numbers in ASCII\<close>

text \<open>The offsets are \<open>int32_t\<close>.\<close>

function strrev_swap :: "u32 \<Rightarrow> int \<Rightarrow> int \<Rightarrow> 'a machine_scheme \<Rightarrow> 'a machine_scheme option" where
  "strrev_swap a beg fin s =
     (if beg < fin then do {
        tmp \<leftarrow> load8 s (a + word_of_int fin);
        b \<leftarrow> load8 s (a + word_of_int beg);
        s \<leftarrow> store8 (a + word_of_int fin) b s;
        s \<leftarrow> store8 (a + word_of_int beg) tmp s;
        strrev_swap a (beg + 1) (fin - 1) s
      }
      else Some s)"
  by pat_completeness auto
termination by (relation "measure (\<lambda>(a, beg, fin, s). nat (fin - beg))") auto

declare strrev_swap.simps [simp del]

definition ece391_strrev :: "u32 \<Rightarrow> 'a machine_scheme \<Rightarrow> 'a machine_scheme option" where
  "ece391_strrev a s = do {
     n \<leftarrow> ece391_strlen (mem_at s a);
     let fin = sint (word_of_nat n - 1 :: u32);
     if fin \<le> 0 then Some s else strrev_swap a 0 fin s
   }"

text \<open>The table ends with the NUL of its initialiser; \<open>newval % radix\<close> and \<open>newval / radix\<close> are unsigned, \<open>None\<close> for
  the radix 0.\<close>

definition itoa_chars :: "u8 list" where
  "itoa_chars = str ''0123456789ABCDEFGHIJKLMNOPQRSTUVWXYZ'' @ [0]"

partial_function (option) itoa_loop :: "u32 \<Rightarrow> u32 \<Rightarrow> u32 \<Rightarrow> 'a machine_scheme \<Rightarrow> (u32 \<times> 'a machine_scheme) option" where
  "itoa_loop newval newbuf radix s =
     (if newval > 0 then
        if radix = 0 then None
        else do {
          c \<leftarrow> arr_get itoa_chars (sint (newval mod radix));
          s \<leftarrow> store8 newbuf c s;
          itoa_loop (newval div radix) (newbuf + 1) radix s
        }
      else Some (newbuf, s))"

declare itoa_loop.simps [code]

definition ece391_itoa :: "u32 \<Rightarrow> u32 \<Rightarrow> int \<Rightarrow> 'a machine_scheme \<Rightarrow> 'a machine_scheme option" where
  "ece391_itoa val buf radix s =
     (if val = 0 then do { s \<leftarrow> store8 buf 48 s; store8 (buf + 1) 0 s }
      else do {
        (newbuf, s) \<leftarrow> itoa_loop val buf (word_of_int radix) s;
        s \<leftarrow> store8 newbuf 0 s;
        ece391_strrev buf s
      })"

subsection \<open>counter\<close>

text \<open>The rounds \<open>i\<close>, \<open>i + 1\<close>, ... of the loop, as many as there are left.\<close>

fun count_loop :: "(string \<Rightarrow> u32) \<Rightarrow> u32 \<Rightarrow> u32 \<Rightarrow> nat \<Rightarrow> 'a keyboard_scheme \<Rightarrow> 'a keyboard_scheme option" where
  "count_loop lit buf i 0 s = Some s"
| "count_loop lit buf i (Suc k) s = do {
     s \<leftarrow> ece391_itoa (i + 1) buf 10 s;
     s \<leftarrow> ece391_fdputs 1 buf s;
     s \<leftarrow> put_line lit '''' s;
     count_loop lit buf (i + 1) k s
   }"

definition counter_max :: "u8 \<Rightarrow> u32" where
  "counter_max b = (if b = 48 then 100 else if b = 49 then 10000 else if b = 50 then 100000 else 0)"

definition counter :: "('a keyboard_scheme \<Rightarrow> 'a keyboard_scheme option) \<Rightarrow> (string \<Rightarrow> u32) \<Rightarrow> u32
    \<Rightarrow> 'a keyboard_scheme \<Rightarrow> (int \<times> 'a keyboard_scheme) option" where
  "counter idle lit buf s = do {
     s \<leftarrow> put_line lit ''Enter the Test Number: (0): 100, (1): 10000, (2): 100000'' s;
     (cnt, s) \<leftarrow> system_read idle 0 buf 1023 s;
     if cnt = -1 then map_option (\<lambda>s. (3, s)) (put_line lit (''Can'' @ CHR 0x27 # ''t read the number from keyboard.'') s)
     else do {
       s \<leftarrow> store8 (buf + word_of_int cnt) 0 s;
       n \<leftarrow> ece391_strlen (mem_at s buf);
       b \<leftarrow> load8 s buf;
       if 2 < n \<or> n = 2 \<and> (b < 48 \<or> 50 < b) then map_option (\<lambda>s. (0, s)) (put_line lit ''Wrong Choice!'' s)
       else map_option (\<lambda>s. (0, s)) (count_loop lit buf 0 (unat (counter_max b)) s)
     }
   }"

subsection \<open>grep\<close>

text \<open>The line that starts at \<open>line_start\<close> ends at the next newline or at \<open>last\<close>, here \<open>lst\<close>.\<close>

function line_end_from :: "u32 \<Rightarrow> int \<Rightarrow> int \<Rightarrow> 'a machine_scheme \<Rightarrow> int option" where
  "line_end_from data line_end lst s =
     (if line_end < lst then do {
        c \<leftarrow> load8 s (data + word_of_int line_end);
        if c \<noteq> 10 then line_end_from data (line_end + 1) lst s else Some line_end
      }
      else Some line_end)"
  by pat_completeness auto
termination by (relation "measure (\<lambda>(data, line_end, lst, s). nat (lst - line_end))") auto

declare line_end_from.simps [simp del]

text \<open>The characters of the pattern are \<open>char\<close>, signed, those of the file unsigned.\<close>

function search_line :: "(string \<Rightarrow> u32) \<Rightarrow> u32 \<Rightarrow> u32 \<Rightarrow> u32 \<Rightarrow> u32 \<Rightarrow> int \<Rightarrow> int \<Rightarrow> int
    \<Rightarrow> 'a keyboard_scheme \<Rightarrow> 'a keyboard_scheme option" where
  "search_line lit data pat s_len fname line_start line_end check s =
     (if check < line_end then do {
        p \<leftarrow> load8 s pat;
        c \<leftarrow> load8 s (data + word_of_int check);
        found \<leftarrow> (if sint p = uint c
                  then map_option (\<lambda>r. r = 0) (ece391_strncmp (mem_at s (data + word_of_int check)) (mem_at s pat) s_len)
                  else Some False);
        if found then do {
          s \<leftarrow> ece391_fdputs 1 fname s;
          s \<leftarrow> ece391_fdputs 1 (lit '':'') s;
          s \<leftarrow> ece391_fdputs 1 (data + word_of_int line_start) s;
          put_line lit '''' s
        }
        else search_line lit data pat s_len fname line_start line_end (check + 1) s
      }
      else Some s)"
  by pat_completeness auto
termination by (relation "measure (\<lambda>(lit, data, pat, s_len, fname, line_start, line_end, check, s). nat (line_end - check))") auto

declare search_line.simps [simp del]

text \<open>The lines of the buffer; the result is the new \<open>lst\<close>.\<close>

partial_function (option) search_lines :: "(string \<Rightarrow> u32) \<Rightarrow> u32 \<Rightarrow> u32 \<Rightarrow> u32 \<Rightarrow> u32 \<Rightarrow> int \<Rightarrow> int \<Rightarrow> int
    \<Rightarrow> 'a keyboard_scheme \<Rightarrow> (int \<times> 'a keyboard_scheme) option" where
  "search_lines lit data pat s_len fname cnt lst line_start s = do {
     line_end \<leftarrow> line_end_from data line_start lst s;
     c \<leftarrow> load8 s (data + word_of_int line_end);
     if c \<noteq> 10 \<and> cnt \<noteq> 0 \<and> line_start \<noteq> 0 then do {
       s \<leftarrow> store8 (data + word_of_int line_end) 0 s;
       s \<leftarrow> ece391_strcpy data (data + word_of_int line_start) s;
       Some (lst - line_start, s)
     }
     else do {
       s \<leftarrow> store8 (data + word_of_int line_end) 0 s;
       s \<leftarrow> search_line lit data pat s_len fname line_start line_end line_start s;
       if line_end + 1 \<ge> lst then Some (0, s)
       else search_lines lit data pat s_len fname cnt lst (line_end + 1) s
     }
   }"

declare search_lines.simps [code]

partial_function (option) file_loop :: "('a keyboard_scheme \<Rightarrow> 'a keyboard_scheme option) \<Rightarrow> (string \<Rightarrow> u32) \<Rightarrow> u32 \<Rightarrow> u32 \<Rightarrow> u32 \<Rightarrow> u32
    \<Rightarrow> int \<Rightarrow> int \<Rightarrow> 'a keyboard_scheme \<Rightarrow> (int \<times> 'a keyboard_scheme) option" where
  "file_loop idle lit data pat s_len fname fd lst s = do {
     (cnt, s) \<leftarrow> system_read idle fd (data + word_of_int lst) (1024 - lst) s;
     if cnt = -1 then map_option (\<lambda>s. (-1, s)) (put_line lit ''file read failed'' s)
     else do {
       (lst, s) \<leftarrow> search_lines lit data pat s_len fname cnt (lst + cnt) 0 s;
       if cnt = 0 then do {
         (r, s) \<leftarrow> system_close fd s;
         if r = -1 then map_option (\<lambda>s. (-1, s)) (put_line lit ''file close failed'' s) else Some (0, s)
       }
       else file_loop idle lit data pat s_len fname fd lst s
     }
   }"

declare file_loop.simps [code]

definition do_one_file :: "('a keyboard_scheme \<Rightarrow> 'a keyboard_scheme option) \<Rightarrow> (string \<Rightarrow> u32) \<Rightarrow> u32 \<Rightarrow> u32 \<Rightarrow> u32
    \<Rightarrow> 'a keyboard_scheme \<Rightarrow> (int \<times> 'a keyboard_scheme) option" where
  "do_one_file idle lit data pat fname s = do {
     n \<leftarrow> ece391_strlen (mem_at s pat);
     (fd, s) \<leftarrow> system_open (mem_at s fname) s;
     if fd = -1 then map_option (\<lambda>s. (-1, s)) (put_line lit ''file open failed'' s)
     else file_loop idle lit data pat (word_of_nat n) fname fd 0 s
   }"

partial_function (option) grep_loop :: "('a keyboard_scheme \<Rightarrow> 'a keyboard_scheme option) \<Rightarrow> (string \<Rightarrow> u32) \<Rightarrow> u32 \<Rightarrow> u32 \<Rightarrow> u32
    \<Rightarrow> int \<Rightarrow> 'a keyboard_scheme \<Rightarrow> (int \<times> 'a keyboard_scheme) option" where
  "grep_loop idle lit data buf search fd s = do {
     (cnt, s) \<leftarrow> system_read idle fd buf (SBUFSIZE - 1) s;
     if cnt = 0 then Some (0, s)
     else if cnt = -1 then map_option (\<lambda>s. (3, s)) (put_line lit ''directory entry read failed'' s)
     else do {
       b \<leftarrow> load8 s buf;
       if b = 46 then grep_loop idle lit data buf search fd s
       else do {
         s \<leftarrow> store8 (buf + word_of_int cnt) 0 s;
         (r, s) \<leftarrow> do_one_file idle lit data search buf s;
         if r \<noteq> 0 then Some (3, s) else grep_loop idle lit data buf search fd s
       }
     }
   }"

declare grep_loop.simps [code]

definition grep :: "('a keyboard_scheme \<Rightarrow> 'a keyboard_scheme option) \<Rightarrow> (string \<Rightarrow> u32) \<Rightarrow> u32 \<Rightarrow> u32 \<Rightarrow> u32
    \<Rightarrow> 'a keyboard_scheme \<Rightarrow> (int \<times> 'a keyboard_scheme) option" where
  "grep idle lit data buf search s = do {
     (r, s) \<leftarrow> system_getargs search 1024 s;
     if r \<noteq> 0 then map_option (\<lambda>s. (3, s)) (put_line lit ''could not read argument'' s)
     else do {
       (fd, s) \<leftarrow> system_open (mem_at s (lit ''.'')) s;
       if fd = -1 then map_option (\<lambda>s. (2, s)) (put_line lit ''directory open failed'' s)
       else grep_loop idle lit data buf search fd s
     }
   }"

subsection \<open>The shell\<close>

type_synonym 'a exec_call = "u32 \<Rightarrow> 'a keyboard_scheme \<Rightarrow> (int \<times> 'a keyboard_scheme) option"

text \<open>What the shell says of the result of \<open>execute\<close>.\<close>

definition shell_report :: "(string \<Rightarrow> u32) \<Rightarrow> int \<Rightarrow> 'a keyboard_scheme \<Rightarrow> 'a keyboard_scheme option" where
  "shell_report lit rval s =
     (if rval = -1 then put_line lit ''no such command'' s
      else if rval = 256 then put_line lit ''program terminated by exception'' s
      else if rval \<noteq> 0 then put_line lit ''program terminated abnormally'' s
      else Some s)"

partial_function (option) shell_rounds :: "('a keyboard_scheme \<Rightarrow> 'a keyboard_scheme option) \<Rightarrow> 'a exec_call \<Rightarrow> (string \<Rightarrow> u32) \<Rightarrow> u32
    \<Rightarrow> 'a keyboard_scheme \<Rightarrow> (int \<times> 'a keyboard_scheme) option" where
  "shell_rounds idle exec lit buf s = do {
     s \<leftarrow> ece391_fdputs 1 (lit ''391OS> '') s;
     (cnt, s) \<leftarrow> system_read idle 0 buf 1023 s;
     if cnt = -1 then map_option (\<lambda>s. (3, s)) (put_line lit ''read from keyboard failed'' s)
     else do {
       cnt \<leftarrow> (if cnt > 0
               then map_option (\<lambda>c. if c = 10 then cnt - 1 else cnt) (load8 s (buf + word_of_int (cnt - 1)))
               else Some cnt);
       s \<leftarrow> store8 (buf + word_of_int cnt) 0 s;
       d \<leftarrow> ece391_strcmp (mem_at s buf) (mem_at s (lit ''exit'')) 0;
       if d = 0 then Some (0, s)
       else do {
         b \<leftarrow> load8 s buf;
         if b = 0 then shell_rounds idle exec lit buf s
         else do {
           (rval, s) \<leftarrow> exec buf s;
           s \<leftarrow> shell_report lit rval s;
           shell_rounds idle exec lit buf s
         }
       }
     }
   }"

declare shell_rounds.simps [code]

definition shell :: "('a keyboard_scheme \<Rightarrow> 'a keyboard_scheme option) \<Rightarrow> 'a exec_call \<Rightarrow> (string \<Rightarrow> u32) \<Rightarrow> u32
    \<Rightarrow> 'a keyboard_scheme \<Rightarrow> (int \<times> 'a keyboard_scheme) option" where
  "shell idle exec lit buf s = do { s \<leftarrow> put_line lit ''Starting 391 Shell'' s; shell_rounds idle exec lit buf s }"

subsection \<open>pingpong\<close>

text \<open>\<open>n\<close> spaces at the address \<open>a\<close>. The inner part of the world is from 2 to 77: BUFMAX is 79 + 2 and LOOPMAX is
  79 + 2 - 2 - 1.\<close>

definition put_spaces :: "u32 \<Rightarrow> nat \<Rightarrow> 'a machine_scheme \<Rightarrow> 'a machine_scheme option" where
  "put_spaces a n s = store_bytes a (replicate n 32) s"

text \<open>The body of the two inner loops: a picture with the character at \<open>j\<close>, and a tick of the clock.\<close>

definition pingpong_frame :: "('a keyboard_scheme \<Rightarrow> 'a keyboard_scheme option) \<Rightarrow> u32 \<Rightarrow> u32 \<Rightarrow> int \<Rightarrow> u8 \<Rightarrow> nat
    \<Rightarrow> 'a keyboard_scheme \<Rightarrow> 'a keyboard_scheme option" where
  "pingpong_frame idle buf garbage rtc_fd curchar j s = do {
     s \<leftarrow> put_spaces (buf + 2) 76 s;
     s \<leftarrow> store8 (buf + word_of_nat j) curchar s;
     s \<leftarrow> ece391_fdputs 1 buf s;
     map_option snd (system_read idle rtc_fd garbage 4 s)
   }"

fun pingpong_frames :: "('a keyboard_scheme \<Rightarrow> 'a keyboard_scheme option) \<Rightarrow> u32 \<Rightarrow> u32 \<Rightarrow> int \<Rightarrow> u8 \<Rightarrow> nat list
    \<Rightarrow> 'a keyboard_scheme \<Rightarrow> 'a keyboard_scheme option" where
  "pingpong_frames idle buf garbage rtc_fd curchar [] s = Some s"
| "pingpong_frames idle buf garbage rtc_fd curchar (j # js) s = do {
     s \<leftarrow> pingpong_frame idle buf garbage rtc_fd curchar j s;
     pingpong_frames idle buf garbage rtc_fd curchar js s
   }"

text \<open>One round of \<open>while (1)\<close>, with the character of the next.\<close>

definition pingpong_round :: "('a keyboard_scheme \<Rightarrow> 'a keyboard_scheme option) \<Rightarrow> u32 \<Rightarrow> u32 \<Rightarrow> int \<Rightarrow> u8
    \<Rightarrow> 'a keyboard_scheme \<Rightarrow> (u8 \<times> 'a keyboard_scheme) option" where
  "pingpong_round idle buf garbage rtc_fd curchar s = do {
     s \<leftarrow> pingpong_frames idle buf garbage rtc_fd curchar [2..<78] s;
     s \<leftarrow> pingpong_frames idle buf garbage rtc_fd curchar (rev [2..<78]) s;
     Some (if curchar = 90 then 65 else curchar + 1, s)
   }"

text \<open>\<open>n\<close> rounds; the program makes one after the other without end.\<close>

fun pingpong_rounds :: "('a keyboard_scheme \<Rightarrow> 'a keyboard_scheme option) \<Rightarrow> u32 \<Rightarrow> u32 \<Rightarrow> int \<Rightarrow> nat \<Rightarrow> u8
    \<Rightarrow> 'a keyboard_scheme \<Rightarrow> (u8 \<times> 'a keyboard_scheme) option" where
  "pingpong_rounds idle buf garbage rtc_fd 0 curchar s = Some (curchar, s)"
| "pingpong_rounds idle buf garbage rtc_fd (Suc n) curchar s = do {
     (curchar, s) \<leftarrow> pingpong_round idle buf garbage rtc_fd curchar s;
     pingpong_rounds idle buf garbage rtc_fd n curchar s
   }"

definition pingpong :: "('a keyboard_scheme \<Rightarrow> 'a keyboard_scheme option) \<Rightarrow> (string \<Rightarrow> u32) \<Rightarrow> u32 \<Rightarrow> u32 \<Rightarrow> u32 \<Rightarrow> nat
    \<Rightarrow> 'a keyboard_scheme \<Rightarrow> (u8 \<times> 'a keyboard_scheme) option" where
  "pingpong idle lit buf garbage ret_val n s = do {
     s \<leftarrow> put_spaces buf 81 s;
     s \<leftarrow> store8 (buf + 80) 0 s;
     s \<leftarrow> store8 (buf + 79) 10 s;
     s \<leftarrow> store8 (buf + 78) 124 s;
     s \<leftarrow> store8 (buf + 1) 124 s;
     (rtc_fd, s) \<leftarrow> system_open (mem_at s (lit ''rtc'')) s;
     s \<leftarrow> store32 ret_val 32 s;
     (r, s) \<leftarrow> system_write rtc_fd ret_val 4 s;
     s \<leftarrow> store32 ret_val (word_of_int r) s;
     pingpong_rounds idle buf garbage rtc_fd n 65 s
   }"

end
