(* ===== verification/NumberProps.thy ===== *)
theory NumberProps
  imports UserMem Programs
begin

text \<open>
  The number routines of the library of the user programs: strrev reverses the string in place, itoa writes the
  digits of the number with the most significant first.
\<close>

subsection \<open>strrev\<close>

text \<open>The bytes from \<open>i\<close> to \<open>j\<close> mirrored.\<close>

definition mirror :: "(nat \<Rightarrow> u8) \<Rightarrow> nat \<Rightarrow> nat \<Rightarrow> nat \<Rightarrow> u8" where
  "mirror m i j = (\<lambda>q. if i \<le> q \<and> q \<le> j then m (i + j - q) else m q)"

lemma mirror_step:
  assumes "i < j"
  shows "mirror (m(j := m i, i := m j)) (Suc i) (j - 1) = mirror m i j"
proof
  fix q
  consider "q = i" | "q = j" | "i < q \<and> q < j" | "q < i \<or> j < q" by linarith
  then show "mirror (m(j := m i, i := m j)) (Suc i) (j - 1) q = mirror m i j q"
    using assms by cases (auto simp: mirror_def)
qed

lemma mirror_id:
  assumes "j \<le> i"
  shows "mirror m i j = m"
proof
  fix q
  have "i \<le> q \<and> q \<le> j \<Longrightarrow> i + j - q = q" using assms by linarith
  then show "mirror m i j q = m q" by (auto simp: mirror_def)
qed

lemma strrev_swap_mirrors:
  assumes "prog_at p pid g img m s" "a + j < 0x400000"
  shows "\<exists>t. strrev_swap (user_addr a) (int i) (int j) s = Some t \<and> prog_at p pid g img (mirror m (a + i) (a + j)) t \<and> quiet s t"
  using assms
proof (induction "j - i" arbitrary: i j m s rule: less_induct)
  case less
  show ?case
  proof (cases "i < j")
    case False
    then show ?thesis using less.prems(1) by (subst strrev_swap.simps) (simp add: mirror_id)
  next
    case True
    have ai: "user_addr a + word_of_int (int i) = user_addr (a + i)" "user_addr a + word_of_int (int j) = user_addr (a + j)"
      by simp_all
    have k: "a + i < 0x400000" "a + j < 0x400000" using True less.prems(2) by simp_all
    obtain u where u: "store8 (user_addr (a + j)) (m (a + i)) s = Some u"
      "prog_at p pid g img (m(a + j := m (a + i))) u" "quiet s u"
      using prog_at_store8 [OF less.prems(1) k(2)] by blast
    obtain v where v: "store8 (user_addr (a + i)) (m (a + j)) u = Some v"
      "prog_at p pid g img (m(a + j := m (a + i), a + i := m (a + j))) v" "quiet u v"
      using prog_at_store8 [OF u(2) k(1)] by blast
    have "j - 1 - Suc i < j - i" "a + (j - 1) < 0x400000" using True less.prems(2) by simp_all
    from less.hyps [OF this(1) v(2) this(2)]
    obtain t where t: "strrev_swap (user_addr a) (int (Suc i)) (int (j - 1)) v = Some t"
      "prog_at p pid g img (mirror (m(a + j := m (a + i), a + i := m (a + j))) (a + Suc i) (a + (j - 1))) t" "quiet v t" by blast
    have "mirror (m(a + j := m (a + i), a + i := m (a + j))) (a + Suc i) (a + (j - 1)) = mirror m (a + i) (a + j)"
      using mirror_step [of "a + i" "a + j" m] True by simp
    moreover have "int (j - 1) = int j - 1" using True by simp
    moreover have "load8 s (user_addr (a + i)) = Some (m (a + i))" "load8 s (user_addr (a + j)) = Some (m (a + j))"
      using load8_pmem [OF less.prems(1)] k by blast+
    ultimately show ?thesis using t u(1,3) v(1,3) True quiet_trans [OF quiet_trans]
      by (subst strrev_swap.simps) (simp add: ai algebra_simps)
  qed
qed

lemma strrev_reverses:
  assumes m: "prog_at p pid g img m s" and x: "str_in m a xs"
  shows "\<exists>t. ece391_strrev (user_addr a) s = Some t \<and> prog_at p pid g img (put_at m a (rev xs)) t \<and> quiet s t"
proof -
  let ?n = "length xs"
  have n: "a + ?n < 0x400000" using x by (simp add: str_in_def)
  have len: "ece391_strlen (mem_at s (user_addr a)) = Some ?n"
    using strlen_from_c_string [OF c_string_in [OF m x], of 0] by (simp add: ece391_strlen_def)
  have fin: "sint (word_of_nat ?n - 1 :: u32) = int ?n - 1"
  proof -
    have "(word_of_nat ?n - 1 :: u32) = word_of_int (int ?n - 1)" by simp
    moreover have "sint (word_of_int (int ?n - 1) :: u32) = int ?n - 1"
      using n by (subst signed_of_int) (simp add: signed_take_bit_int_eq_self)
    ultimately show ?thesis by simp
  qed
  have at: "m (a + i) = xs ! i" if "i < ?n" for i using x that by (simp add: str_in_def)
  show ?thesis
  proof (cases "?n \<le> 1")
    case True
    then have "rev xs = xs" by (cases xs) simp_all
    then have "put_at m a (rev xs) = m" using at by (auto simp: put_at_def fun_eq_iff dest!: le_Suc_ex)
    then show ?thesis using True len fin m by (auto simp: ece391_strrev_def)
  next
    case False
    then obtain c where c: "?n = Suc c" "0 < c" by (cases ?n) auto
    have j: "a + c < 0x400000" using n c by simp
    have "mirror m (a + 0) (a + c) = put_at m a (rev xs)"
    proof
      fix q
      show "mirror m (a + 0) (a + c) q = put_at m a (rev xs) q"
      proof (cases "a \<le> q \<and> q < a + ?n")
        case True
        then obtain i where i: "q = a + i" "i \<le> c" using le_Suc_ex [of a q] by (auto simp: c(1))
        then have "mirror m (a + 0) (a + c) q = m (a + (c - i))" by (simp add: mirror_def)
        then show ?thesis using i at [of "c - i"] c by (simp add: put_at_def rev_nth)
      qed (use c in \<open>auto simp: mirror_def put_at_def\<close>)
    qed
    then show ?thesis using strrev_swap_mirrors [OF m j(1), of 0] len fin c by (simp add: ece391_strrev_def)
  qed
qed

subsection \<open>Digits\<close>

text \<open>The digits of a number, the least significant first, and the number that a list of digits stands for.\<close>

fun radix_digits :: "nat \<Rightarrow> nat \<Rightarrow> nat list" where
  "radix_digits r n = (if r < 2 \<or> n = 0 then [] else n mod r # radix_digits r (n div r))"

declare radix_digits.simps [simp del]

fun digits_value :: "nat \<Rightarrow> nat list \<Rightarrow> nat" where
  "digits_value r [] = 0"
| "digits_value r (d # ds) = d + r * digits_value r ds"

lemma digits_value_digits: "2 \<le> r \<Longrightarrow> digits_value r (radix_digits r n) = n"
  by (induction r n rule: radix_digits.induct) (subst radix_digits.simps, simp)

lemma digits_less: "d \<in> set (radix_digits r n) \<Longrightarrow> d < r"
  by (induction r n rule: radix_digits.induct) (subst (asm) (2) radix_digits.simps, auto split: if_splits)

lemma digits_length: "2 \<le> r \<Longrightarrow> n < 2 ^ b \<Longrightarrow> length (radix_digits r n) \<le> b"
proof (induction r n arbitrary: b rule: radix_digits.induct)
  case (1 r n)
  show ?case
  proof (cases "n = 0")
    case False
    then obtain c where c: "b = Suc c" using 1(3) by (cases b) auto
    have "n div r \<le> n div 2" by (rule div_le_mono2) (use 1(2) in simp_all)
    then have "n div r < 2 ^ c" using 1(3) by (simp add: c)
    then show ?thesis using 1 False c by (subst radix_digits.simps) simp
  qed (simp add: radix_digits.simps)
qed

lemma digits_last: "radix_digits r n \<noteq> [] \<Longrightarrow> last (radix_digits r n) \<noteq> 0"
proof (induction r n rule: radix_digits.induct)
  case (1 r n)
  have d: "\<not> (r < 2 \<or> n = 0)" "radix_digits r n = n mod r # radix_digits r (n div r)" using 1(2) radix_digits.simps [of r n] by (auto split: if_splits)
  then show ?case using 1(1) radix_digits.simps [of r "n div r"] by (auto simp: div_eq_0_iff split: if_splits)
qed

text \<open>The characters, and the text of a number.\<close>

definition itoa_text :: "nat \<Rightarrow> nat \<Rightarrow> u8 list" where
  "itoa_text r n = (if n = 0 then [48] else map (\<lambda>d. itoa_chars ! d) (rev (radix_digits r n)))"

text \<open>How a reader of the text takes it: \<open>0\<close> to \<open>9\<close>, then \<open>A\<close> to \<open>Z\<close>.\<close>

definition char_value :: "u8 \<Rightarrow> nat" where
  "char_value c = (if c < 65 then unat c - 48 else unat c - 55)"

definition text_value :: "nat \<Rightarrow> u8 list \<Rightarrow> nat" where
  "text_value r xs = foldl (\<lambda>a c. a * r + char_value c) 0 xs"

lemma itoa_chars_list:
  "itoa_chars = [48, 49, 50, 51, 52, 53, 54, 55, 56, 57, 65, 66, 67, 68, 69, 70, 71, 72, 73, 74, 75, 76, 77, 78, 79, 80, 81, 82,
     83, 84, 85, 86, 87, 88, 89, 90, 0]"
  by (simp add: itoa_chars_def str_def)

lemma itoa_chars_value: "d < 36 \<Longrightarrow> char_value (itoa_chars ! d) = d \<and> itoa_chars ! d \<noteq> 0"
proof -
  have "\<forall>d\<in>set [0..<36]. char_value (itoa_chars ! d) = d \<and> itoa_chars ! d \<noteq> 0"
    by (simp add: itoa_chars_list char_value_def upt_rec)
  then show "d < 36 \<Longrightarrow> ?thesis" by simp
qed

lemma text_value_digits:
  "\<forall>d\<in>set ds. d < 36 \<Longrightarrow> text_value r (map (\<lambda>d. itoa_chars ! d) (rev ds)) = digits_value r ds"
  by (induction ds) (simp_all add: text_value_def itoa_chars_value)

lemma itoa_text_value: "2 \<le> r \<Longrightarrow> r \<le> 36 \<Longrightarrow> text_value r (itoa_text r n) = n"
  using text_value_digits [of "radix_digits r n" r] digits_less [of _ r n] digits_value_digits [of r n]
  by (force simp: itoa_text_def text_value_def char_value_def)

lemma itoa_text_chars: "r \<le> 36 \<Longrightarrow> 0 \<notin> set (itoa_text r n)"
proof -
  assume "r \<le> 36"
  then have "d \<in> set (radix_digits r n) \<Longrightarrow> itoa_chars ! d \<noteq> 0" for d
    using digits_less [of d r n] itoa_chars_value [of d] by simp
  then show ?thesis by (auto simp: itoa_text_def)
qed

lemma itoa_text_length: "2 \<le> r \<Longrightarrow> n < 2 ^ 32 \<Longrightarrow> length (itoa_text r n) \<le> 32"
  using digits_length [of r n 32] by (simp add: itoa_text_def)

subsection \<open>itoa\<close>

lemma itoa_loop_digits:
  assumes "prog_at p pid g img m s" "2 \<le> r" "r \<le> 36" "n < 2 ^ 32" "k + length (radix_digits r n) \<le> 0x400000"
  shows "\<exists>t. itoa_loop (of_nat n) (user_addr k) (of_nat r) s = Some (user_addr (k + length (radix_digits r n)), t) \<and>
    prog_at p pid g img (put_at m k (map (\<lambda>d. itoa_chars ! d) (radix_digits r n))) t \<and> quiet s t"
  using assms
proof (induction r n arbitrary: k m s rule: radix_digits.induct)
  case (1 r n)
  have u: "unat (of_nat n :: u32) = n" "unat (of_nat r :: u32) = r"
    using 1(4,5) 1(3) unat_of_nat_u32 [of n] unat_of_nat_u32 [of r] "1.prems"(4) by simp_all
  show ?case
  proof (cases "n = 0")
    case True
    then show ?thesis using "1.prems"(1) by (subst itoa_loop.simps) (simp add: radix_digits.simps)
  next
    case False
    have rn: "\<not> (r < 2 \<or> n = 0)" using False 1(3) by simp
    have d: "radix_digits r n = n mod r # radix_digits r (n div r)" using False 1(3) by (subst radix_digits.simps) simp
    have nr: "n mod r < 36" "n div r < 2 ^ 32"
      using 1(3-5) less_le_trans [OF mod_less_divisor [of r n]] le_less_trans [OF div_le_dividend [of n r]] by simp_all
    have w: "(of_nat n :: u32) div of_nat r = of_nat (n div r)" "(of_nat n :: u32) mod of_nat r = of_nat (n mod r)"
      by (simp_all add: word_unat_eq_iff unat_div unat_mod u) (use nr unat_of_nat_u32 in auto)
    have ix: "sint (of_nat (n mod r) :: u32) = int (n mod r)" using nr(1) by (subst signed_of_nat) (simp add: signed_take_bit_int_eq_self)
    have pos: "(0 :: u32) < of_nat n" "(of_nat r :: u32) \<noteq> 0"
      using False 1(3) u by (auto simp: word_less_nat_alt)
    have get: "arr_get itoa_chars (int (n mod r)) = Some (itoa_chars ! (n mod r))"
      using nr(1) by (intro arr_get_Some) (simp add: itoa_chars_list)
    have k: "k < 0x400000" "Suc k + length (radix_digits r (n div r)) \<le> 0x400000" using "1.prems"(5) d by simp_all
    obtain v where v: "store8 (user_addr k) (itoa_chars ! (n mod r)) s = Some v"
      "prog_at p pid g img (m(k := itoa_chars ! (n mod r))) v" "quiet s v"
      using prog_at_store8 [OF "1.prems"(1) k(1)] by blast
    obtain t where t: "itoa_loop (of_nat (n div r)) (user_addr (Suc k)) (of_nat r) v = Some (user_addr (Suc k + length (radix_digits r (n div r))), t)"
      "prog_at p pid g img (put_at (m(k := itoa_chars ! (n mod r))) (Suc k) (map (\<lambda>d. itoa_chars ! d) (radix_digits r (n div r)))) t" "quiet v t"
      using 1(1) [OF rn v(2) 1(3,4) nr(2) k(2)] by blast
    show ?thesis using t v(1,3) pos get quiet_trans [OF v(3) t(3)]
      by (subst itoa_loop.simps) (simp add: w ix d put_at_Cons algebra_simps)
  qed
qed

lemma itoa_writes:
  assumes m: "prog_at p pid g img m s" and r: "2 \<le> r" "r \<le> 36" and n: "n < 2 ^ 32" and k: "k + length (itoa_text r n) < 0x400000"
  shows "\<exists>t. ece391_itoa (of_nat n) (user_addr k) (int r) s = Some t \<and> prog_at p pid g img (put_at m k (itoa_text r n @ [0])) t \<and> quiet s t"
proof (cases "n = 0")
  case True
  then have k2: "k < 0x400000" "Suc k < 0x400000" using k by (simp_all add: itoa_text_def)
  obtain u where u: "store8 (user_addr k) 48 s = Some u" "prog_at p pid g img (m(k := 48)) u" "quiet s u"
    using prog_at_store8 [OF m k2(1)] by blast
  obtain t where "store8 (user_addr (Suc k)) 0 u = Some t" "prog_at p pid g img (m(k := 48, Suc k := 0)) t" "quiet u t"
    using prog_at_store8 [OF u(2) k2(2)] by blast
  then show ?thesis using u quiet_trans [OF u(3)] True
    by (auto simp: ece391_itoa_def itoa_text_def put_at_Cons algebra_simps)
next
  case False
  let ?ds = "map (\<lambda>d. itoa_chars ! d) (radix_digits r n)"
  have tx: "itoa_text r n = rev ?ds" using False by (simp add: itoa_text_def rev_map)
  have nz: "(of_nat n :: u32) \<noteq> 0" using False n unat_of_nat_u32 [of n] by auto
  have len: "k + length (radix_digits r n) \<le> 0x400000" "k + length ?ds < 0x400000" using k by (simp_all add: tx)
  obtain u where u: "itoa_loop (of_nat n) (user_addr k) (of_nat r) s = Some (user_addr (k + length ?ds), u)"
    "prog_at p pid g img (put_at m k ?ds) u" "quiet s u"
    using itoa_loop_digits [OF m r n len(1)] by auto
  obtain v where v: "store8 (user_addr (k + length ?ds)) 0 u = Some v"
    "prog_at p pid g img ((put_at m k ?ds)(k + length ?ds := 0)) v" "quiet u v"
    using prog_at_store8 [OF u(2) len(2)] by blast
  note v2 = v(2) [unfolded put_at_snoc]
  have "0 \<notin> set ?ds" using itoa_text_chars [OF r(2), of n] by (simp add: tx)
  from str_in_put [OF len(2) this]
  obtain t where t: "ece391_strrev (user_addr k) v = Some t"
    "prog_at p pid g img (put_at (put_at m k (?ds @ [0])) k (rev ?ds)) t" "quiet v t"
    using strrev_reverses [OF v2] by blast
  have "put_at (put_at m k (?ds @ [0])) k (rev ?ds) = put_at m k (rev ?ds @ [0])"
    by (auto simp: put_at_def fun_eq_iff nth_append)
  then show ?thesis using t u(1) v(1) nz quiet_trans [OF quiet_trans [OF u(3) v(3)] t(3)]
    by (simp add: ece391_itoa_def tx)
qed

lemma itoa_text_head: "2 \<le> r \<Longrightarrow> r \<le> 36 \<Longrightarrow> 0 < n \<Longrightarrow> hd (itoa_text r n) \<noteq> 48"
proof -
  assume r: "2 \<le> r" "r \<le> 36" and n: "0 < n"
  have ne: "radix_digits r n \<noteq> []" using r n by (subst radix_digits.simps) simp
  have l: "last (radix_digits r n) < 36" "last (radix_digits r n) \<noteq> 0"
    using digits_less [of "last (radix_digits r n)" r n] digits_last [OF ne] ne r(2) by auto
  have h: "hd (itoa_text r n) = itoa_chars ! last (radix_digits r n)" using n ne by (simp add: itoa_text_def hd_map hd_rev)
  have "itoa_chars ! last (radix_digits r n) \<noteq> 48"
  proof
    assume "itoa_chars ! last (radix_digits r n) = 48"
    then have "char_value 48 = last (radix_digits r n)" using itoa_chars_value [OF l(1)] by simp
    then show False using l(2) by (simp add: char_value_def)
  qed
  then show ?thesis by (simp add: h)
qed

end
