(* ===== verification/ProgramProps.thy ===== *)
theory ProgramProps
  imports NumberProps
begin

text \<open>
  counter and the shell on the kernel: what they print for a line that is typed, and the command that the shell
  hands to \<open>execute\<close>.
\<close>

subsection \<open>counter\<close>

definition numbers :: "nat \<Rightarrow> nat \<Rightarrow> u8 list" where
  "numbers i j = concat (map (\<lambda>n. itoa_text 10 n @ [10]) [i..<j])"

lemma numbers_Suc: "i < j \<Longrightarrow> numbers i j = itoa_text 10 i @ [10] @ numbers (Suc i) j"
  by (simp add: numbers_def upt_rec)

lemma count_loop_counts:
  assumes "prog_at p pid g img m s" "lits_in lit S k 1024 m" "ln '''' \<in> S" "k + 1024 \<le> 0x400000" "i + n < 2 ^ 32"
  shows "\<exists>t m'. count_loop lit (user_addr k) (of_nat i) n s = Some t \<and> prog_at p pid g img m' t \<and>
    says g (numbers (Suc i) (Suc (i + n))) s t"
  using assms
proof (induction n arbitrary: i m s)
  case 0
  then show ?case using quiet_says [OF quiet_refl prog_group [OF 0(1)], of s] by (auto simp: numbers_def)
next
  case (Suc n)
  let ?x = "itoa_text 10 (Suc i)"
  have len: "length ?x \<le> 32" using itoa_text_length [of 10 "Suc i"] Suc.prems(5) by simp
  obtain a where a: "ece391_itoa (of_nat (Suc i)) (user_addr k) (int 10) s = Some a"
    "prog_at p pid g img (put_at m k (?x @ [0])) a" "quiet s a"
    using itoa_writes [OF Suc.prems(1), of 10 "Suc i" k] Suc.prems(4,5) len by auto
  have x: "str_in (put_at m k (?x @ [0])) k ?x"
    using str_in_put [of k ?x m] itoa_text_chars [of 10 "Suc i"] Suc.prems(4) len by simp
  obtain b where b: "ece391_fdputs 1 (user_addr k) a = Some b" "prog_at p pid g img (put_at m k (?x @ [0])) b" "says g ?x a b"
    using prog_says [OF a(2) x] by blast
  have l: "lits_in lit S k 1024 (put_at m k (?x @ [0]))" using lits_in_put [OF Suc.prems(2), of k "?x @ [0]"] len by simp
  obtain c where c: "put_line lit '''' b = Some c" "prog_at p pid g img (put_at m k (?x @ [0])) c" "says g (str (ln '''')) b c"
    using prog_says_lit [OF b(2) l Suc.prems(3)] unfolding put_line_def by blast
  obtain t m' where t: "count_loop lit (user_addr k) (of_nat (Suc i)) n c = Some t" "prog_at p pid g img m' t"
    "says g (numbers (Suc (Suc i)) (Suc (Suc i + n))) c t"
    using Suc.IH [OF c(2) l Suc.prems(3,4), of "Suc i"] Suc.prems(5) by auto
  have "says g (?x @ str (ln '''') @ numbers (Suc (Suc i)) (Suc (Suc i + n))) s t"
    using says_Nil_left [OF quiet_says [OF a(3) prog_group [OF Suc.prems(1)]] says_trans [OF b(3) says_trans [OF c(3) t(3)]]] .
  then have "says g (numbers (Suc i) (Suc (i + Suc n))) s t" by (simp add: numbers_Suc [of "Suc i"] str_def ln_def)
  moreover have "count_loop lit (user_addr k) (of_nat i) (Suc n) s = Some t"
    using a(1) b(1) c(1) t(1) by (simp add: add.commute)
  ultimately show ?case using t(2) by blast
qed

abbreviation counter_prompt :: string where
  "counter_prompt \<equiv> ''Enter the Test Number: (0): 100, (1): 10000, (2): 100000''"

definition counter_strings :: "string set" where
  "counter_strings = {ln counter_prompt, ln '''', ln ''Wrong Choice!''}"

text \<open>What counter prints for a line.\<close>

definition counter_output :: "u8 list \<Rightarrow> u8 list" where
  "counter_output xs =
     (if 2 < length xs \<or> length xs = 2 \<and> (hd xs < 48 \<or> 50 < hd xs) then str (ln ''Wrong Choice!'')
      else numbers 1 (Suc (unat (counter_max (hd (xs @ [0]))))))"

lemma counter_prints:
  fixes s u :: "'a keyboard_scheme"
  assumes m: "prog_at p pid g img m s" "stdin_open p s" and lit: "lits_in lit counter_strings k 1024 m" and k: "k + 1024 \<le> 0x400000"
    and s1: "put_line lit counter_prompt s = Some s1" and line: "types_line idle g xs s1 u" and u: "prog_at p pid g img m u"
    and xs: "length xs \<le> 1023" "0 \<notin> set xs"
  shows "\<exists>t. counter idle lit (user_addr k) s = Some (0, t) \<and> group_terminal t g = fold terminal_put (echo (counter_output xs)) (group_terminal u g) \<and>
    (\<forall>h<3. h \<noteq> g \<longrightarrow> group_terminal t h = group_terminal u h)"
proof -
  note [simp] = counter_strings_def
  have p1: "prog_at p pid g img m s1" "says g (str (ln counter_prompt)) s s1"
    using prog_says_lit [OF m(1) lit, of "ln counter_prompt"] s1 by (auto simp: put_line_def)
  have in1: "stdin_open p s1" using stdin_open_kview [of s1 s p] p1(2) m(2) by (simp add: says_def)
  have kx: "k + length xs \<le> 0x400000" "k < 0x400000" using xs(1) k by simp_all
  obtain a where a: "system_read idle 0 (user_addr k) 1023 s1 = Some (int (length xs), a)" "prog_at p pid g img (put_at m k xs) a"
    "\<forall>h<3. group_terminal a h = group_terminal u h"
    using prog_reads_line [OF p1(1) in1 u line kx, of 1023] xs(1) by auto
  obtain b where b: "store8 (user_addr (k + length xs)) 0 a = Some b" "prog_at p pid g img (put_at m k (xs @ [0])) b" "quiet a b"
    using prog_at_store8 [OF a(2), of "k + length xs" 0] xs(1) k by (auto simp: put_at_snoc)
  have g3: "g < 3" by (rule prog_group [OF m(1)])
  have x: "str_in (put_at m k (xs @ [0])) k xs" using str_in_put [of k xs m] xs k by simp
  have n: "ece391_strlen (mem_at b (user_addr k)) = Some (length xs)"
    using strlen_from_c_string [OF c_string_in [OF b(2) x], of 0] by (simp add: ece391_strlen_def)
  have c: "load8 b (user_addr k) = Some (hd (xs @ [0]))"
    using load8_pmem [OF b(2), of k] kx(2) by (cases xs) (simp_all add: put_at_def)
  have l: "lits_in lit counter_strings k 1024 (put_at m k (xs @ [0]))" using lits_in_put [OF lit, of k "xs @ [0]"] xs(1) by simp
  let ?bad = "2 < length xs \<or> length xs = 2 \<and> (hd xs < 48 \<or> 50 < hd xs)"
  have "\<exists>t. (if ?bad then put_line lit ''Wrong Choice!'' b
      else count_loop lit (user_addr k) 0 (unat (counter_max (hd (xs @ [0])))) b) = Some t \<and> says g (counter_output xs) b t"
  proof (cases ?bad)
    case True
    then show ?thesis using prog_says_lit [OF b(2) l, of "ln ''Wrong Choice!''"] by (auto simp: put_line_def counter_output_def)
  next
    case False
    have "unat (counter_max (hd (xs @ [0]))) \<le> 100000" by (simp add: counter_max_def)
    then show ?thesis
      using False count_loop_counts [OF b(2) l _ k, of 0 "unat (counter_max (hd (xs @ [0])))"]
      by (auto simp: counter_output_def)
  qed
  then obtain t where t: "(if ?bad then put_line lit ''Wrong Choice!'' b
      else count_loop lit (user_addr k) 0 (unat (counter_max (hd (xs @ [0])))) b) = Some t" "says g (counter_output xs) b t" by blast
  have hd2: "length xs = 2 \<Longrightarrow> hd (xs @ [0]) = hd xs" by (cases xs) simp_all
  have st: "user_addr k + word_of_int (int (length xs)) = user_addr (k + length xs)" by simp
  have "counter idle lit (user_addr k) s = Some (0, t)"
    using s1 a(1) b(1) n c t(1) hd2 unfolding counter_def by (auto simp: st algebra_simps split: if_splits)
  then show ?thesis using t(2) a(3) b(3) g3 by (auto simp: says_def quiet_def)
qed

subsection \<open>strcmp\<close>

lemma ece391_strcmp_decides:
  assumes "c_string s1 xs" "c_string s2 ys" "i \<le> length xs" "i \<le> length ys" "take i xs = take i ys"
  shows "\<exists>d. ece391_strcmp s1 s2 i = Some d \<and> (d = 0 \<longleftrightarrow> xs = ys)"
  using assms(3-5)
proof (induction "length xs - i" arbitrary: i rule: less_induct)
  case less
  have at: "s1 i = Some ((xs @ [0]) ! i)" "s2 i = Some ((ys @ [0]) ! i)"
    using assms(1,2) less.prems(1,2) by (auto simp: c_string_def nth_append le_less)
  show ?case
  proof (cases "(xs @ [0]) ! i = (ys @ [0]) ! i")
    case False
    then have "xs \<noteq> ys" by auto
    then show ?thesis using False at by (subst ece391_strcmp.simps) (simp add: word_uint_eq_iff)
  next
    case True
    consider "i = length xs" "i = length ys" | "i < length xs" "i < length ys"
      using True less.prems(1,2) assms(1,2) by (auto simp: c_string_def nth_append le_less split: if_splits dest: nth_mem)
    then show ?thesis
    proof cases
      case 1
      then show ?thesis using at less.prems(3) by (subst ece391_strcmp.simps) simp
    next
      case 2
      then have "xs ! i = ys ! i" "xs ! i \<noteq> 0" using True assms(1) by (auto simp: c_string_def nth_append dest: nth_mem)
      then have "\<exists>d. ece391_strcmp s1 s2 (Suc i) = Some d \<and> (d = 0 \<longleftrightarrow> xs = ys)"
        using less.hyps [of "Suc i"] less.prems(3) 2 by (simp add: take_Suc_conv_app_nth)
      then show ?thesis using at 2 \<open>xs ! i = ys ! i\<close> \<open>xs ! i \<noteq> 0\<close> by (subst ece391_strcmp.simps) (simp add: nth_append)
    qed
  qed
qed

subsection \<open>The shell\<close>

definition shell_strings :: "string set" where
  "shell_strings = {''391OS> '', ''exit'', ln ''no such command'', ln ''program terminated by exception'',
     ln ''program terminated abnormally''}"

text \<open>The command of a line, and what the shell says of its result.\<close>

definition line_command :: "u8 list \<Rightarrow> u8 list" where
  "line_command xs = (if xs \<noteq> [] \<and> last xs = 10 then butlast xs else xs)"

definition result_message :: "int \<Rightarrow> u8 list" where
  "result_message rval =
     (if rval = -1 then str (ln ''no such command'') else if rval = 256 then str (ln ''program terminated by exception'')
      else if rval \<noteq> 0 then str (ln ''program terminated abnormally'') else [])"

lemma shell_report_says:
  assumes "prog_at p pid g img m s" "lits_in lit shell_strings k 1024 m"
  shows "\<exists>t. shell_report lit rval s = Some t \<and> prog_at p pid g img m t \<and> says g (result_message rval) s t"
  using prog_says_lit [OF assms] quiet_says [OF quiet_refl prog_group [OF assms(1)], of s] assms(1)
  by (auto simp: shell_report_def put_line_def result_message_def shell_strings_def)

lemma shell_reads_command:
  fixes s u :: "'a keyboard_scheme"
  assumes m: "prog_at p pid g img m s" "stdin_open p s" and lit: "lits_in lit shell_strings k 1024 m" and k: "k + 1024 \<le> 0x400000"
    and s1: "ece391_fdputs 1 (lit ''391OS> '') s = Some s1" and line: "types_line idle g xs s1 u" and u: "prog_at p pid g img m' u"
    and xs: "length xs \<le> 1023" "0 \<notin> set xs" and lit': "lits_in lit shell_strings k 1024 m'"
  defines "cmd \<equiv> line_command xs"
  shows "\<exists>v m''. prog_at p pid g img m'' v \<and> str_in m'' k cmd \<and> lits_in lit shell_strings k 1024 m'' \<and>
    (\<forall>h<3. group_terminal v h = group_terminal u h) \<and> kview v = kview u \<and>
    shell_rounds idle exec lit (user_addr k) s =
      (if cmd = str ''exit'' then Some (0, v)
       else if cmd = [] then shell_rounds idle exec lit (user_addr k) v
       else do {
         (rval, w) \<leftarrow> exec (user_addr k) v;
         w \<leftarrow> shell_report lit rval w;
         shell_rounds idle exec lit (user_addr k) w
       })"
proof -
  note [simp] = shell_strings_def
  have p1: "prog_at p pid g img m s1" "says g (str ''391OS> '') s s1"
    using prog_says_lit [OF m(1) lit, of "''391OS> ''"] s1 by auto
  have in1: "stdin_open p s1" using stdin_open_kview [of s1 s p] p1(2) m(2) by (simp add: says_def)
  have kx: "k + length xs \<le> 0x400000" "k < 0x400000" using xs(1) k by simp_all
  obtain a where a: "system_read idle 0 (user_addr k) 1023 s1 = Some (int (length xs), a)" "prog_at p pid g img (put_at m' k xs) a"
    "\<forall>h<3. group_terminal a h = group_terminal u h" "kview a = kview u"
    using prog_reads_line [OF p1(1) in1 u line kx, of 1023] xs(1) by auto
  have len: "length cmd \<le> length xs" and c0: "0 \<notin> set cmd" using xs(2) in_set_butlastD [of _ xs] by (auto simp: cmd_def line_command_def)
  have cmd_at: "i < length cmd \<Longrightarrow> cmd ! i = xs ! i" for i by (auto simp: cmd_def line_command_def nth_butlast)
  have kc: "k + length cmd < 0x400000" using len xs(1) k by simp
  obtain v where v: "store8 (user_addr (k + length cmd)) 0 a = Some v" "prog_at p pid g img ((put_at m' k xs)(k + length cmd := 0)) v" "quiet a v"
    using prog_at_store8 [OF a(2) kc] by blast
  let ?m = "(put_at m' k xs)(k + length cmd := 0)"
  have x: "str_in ?m k cmd" using kc c0 cmd_at len by (simp add: str_in_def put_at_def)
  have l: "lits_in lit shell_strings k 1024 ?m"
    by (rule lits_in_cong [OF lit']) (use xs(1) len in \<open>auto simp: put_at_def\<close>)
  have last_char: "0 < length xs \<Longrightarrow> load8 a (user_addr (k + (length xs - 1))) = Some (last xs)"
    using load8_pmem [OF a(2), of "k + (length xs - 1)"] kx by (cases xs rule: rev_cases) (simp_all add: put_at_def)
  have cnt: "(if int (length xs) > 0
      then map_option (\<lambda>c. if c = 10 then int (length xs) - 1 else int (length xs)) (load8 a (user_addr k + word_of_int (int (length xs) - 1)))
      else Some (int (length xs))) = Some (int (length cmd))"
  proof (cases "xs = []")
    case False
    then have "user_addr k + word_of_int (int (length xs) - 1) = user_addr (k + (length xs - 1))"
      by (cases xs) simp_all
    then show ?thesis using False last_char by (cases xs rule: rev_cases) (simp_all add: cmd_def line_command_def add.assoc)
  qed (simp add: cmd_def line_command_def)
  obtain d where d: "ece391_strcmp (mem_at v (user_addr k)) (mem_at v (lit ''exit'')) 0 = Some d" "d = 0 \<longleftrightarrow> cmd = str ''exit''"
    using ece391_strcmp_decides [OF c_string_in [OF v(2) x] lits_string [OF v(2) l, of "''exit''"], of 0] by auto
  have b: "load8 v (user_addr k) = Some (hd (cmd @ [0]))"
    using load8_pmem [OF v(2), of k] x kx(2) by (cases cmd) (auto simp: str_in_def)
  have st: "user_addr k + word_of_int (int (length cmd)) = user_addr (k + length cmd)" and ne: "(int (length xs) = -1) = False" by simp_all
  have "shell_rounds idle exec lit (user_addr k) s =
      (if cmd = str ''exit'' then Some (0, v)
       else if cmd = [] then shell_rounds idle exec lit (user_addr k) v
       else do {
         (rval, w) \<leftarrow> exec (user_addr k) v;
         w \<leftarrow> shell_report lit rval w;
         shell_rounds idle exec lit (user_addr k) w
       })"
    by (subst shell_rounds.simps, simp only: s1 a(1) bind.bind_lunit prod.case ne if_False cnt st v(1) d(1) b)
      (use d(2) c0 in \<open>cases cmd; simp\<close>)
  then show ?thesis using v(2) x l a(3,4) v(3) quiet_kview [OF v(3)] by (auto simp: quiet_def)
qed

end
