(* ===== verification/GrepProps.thy ===== *)
theory GrepProps
  imports ProgramProps "HOL-Library.Sublist"
begin

text \<open>
  grep on the kernel: the lines of a file, read in pieces of at most 1024 bytes into one buffer, are each searched
  once, and those that contain the pattern are printed with the name of the file before them.
\<close>

subsection \<open>Lines and what grep prints of them\<close>

function file_lines :: "u8 list \<Rightarrow> u8 list list" where
  "file_lines [] = []"
| "file_lines (x # xs) = takeWhile (\<lambda>c. c \<noteq> 10) (x # xs) # file_lines (drop 1 (dropWhile (\<lambda>c. c \<noteq> 10) (x # xs)))"
  by pat_completeness auto
termination by (relation "measure length") (auto intro: le_less_trans [OF diff_le_self] simp: le_imp_less_Suc length_dropWhile_le)

declare file_lines.simps [simp del]

fun has_pattern :: "u8 list \<Rightarrow> u8 list \<Rightarrow> bool" where
  "has_pattern pat [] = (pat = [])"
| "has_pattern pat (c # cs) = (take (length pat) (c # cs) = pat \<or> has_pattern pat cs)"

definition match_line :: "u8 list \<Rightarrow> u8 list \<Rightarrow> u8 list \<Rightarrow> u8 list" where
  "match_line name pat l = (if has_pattern pat l then name @ [58] @ l @ [10] else [])"

definition grep_output :: "u8 list \<Rightarrow> u8 list \<Rightarrow> u8 list \<Rightarrow> u8 list" where
  "grep_output name pat bs = concat (map (match_line name pat) (file_lines bs))"

lemma file_lines_Nil [simp]: "file_lines [] = []"
  by (simp add: file_lines.simps)

lemma before_newline:
  "10 \<notin> set l \<Longrightarrow> takeWhile (\<lambda>c. c \<noteq> 10) (l @ 10 # bs) = l" "10 \<notin> set l \<Longrightarrow> dropWhile (\<lambda>c. c \<noteq> 10) (l @ 10 # bs) = 10 # bs"
  "10 \<notin> set l \<Longrightarrow> takeWhile (\<lambda>c. c \<noteq> (10 :: u8)) l = l" "10 \<notin> set l \<Longrightarrow> dropWhile (\<lambda>c. c \<noteq> (10 :: u8)) l = []"
  by (induction l) auto

lemma file_lines_newline: "10 \<notin> set l \<Longrightarrow> file_lines (l @ 10 # bs) = l # file_lines bs"
proof -
  assume l: "10 \<notin> set l"
  obtain x xs where x: "l @ 10 # bs = x # xs" by (cases l) auto
  show ?thesis using before_newline(1,2) [OF l, of bs] unfolding x by (simp add: file_lines.simps)
qed

lemma file_lines_rest: "10 \<notin> set l \<Longrightarrow> l \<noteq> [] \<Longrightarrow> file_lines l = [l]"
proof -
  assume l: "10 \<notin> set l" "l \<noteq> []"
  obtain x xs where x: "l = x # xs" using l(2) by (cases l) auto
  show ?thesis using before_newline(3,4) [OF l(1)] unfolding x by (simp add: file_lines.simps)
qed

lemma grep_output_newline: "10 \<notin> set l \<Longrightarrow> grep_output name pat (l @ 10 # bs) = match_line name pat l @ grep_output name pat bs"
  by (simp add: grep_output_def file_lines_newline)

lemma grep_output_rest: "10 \<notin> set l \<Longrightarrow> pat \<noteq> [] \<Longrightarrow> grep_output name pat l = match_line name pat l"
  by (cases "l = []") (simp_all add: grep_output_def file_lines_rest match_line_def)

lemma first_newline:
  obtains l ys where "xs = l @ 10 # ys" "10 \<notin> set l" | "10 \<notin> set (xs :: u8 list)"
  by (metis split_list_first)

lemma grep_output_append:
  "xs = [] \<or> last xs = 10 \<or> ys = [] \<Longrightarrow> grep_output name pat (xs @ ys) = grep_output name pat xs @ grep_output name pat ys"
proof (induction "length xs" arbitrary: xs rule: less_induct)
  case less
  show ?case
  proof (cases xs rule: first_newline)
    case (1 l zs)
    have "grep_output name pat (zs @ ys) = grep_output name pat zs @ grep_output name pat ys"
      by (rule less.hyps) (use less.prems 1 in \<open>auto split: if_splits\<close>)
    then show ?thesis using 1 by (simp add: grep_output_newline)
  next
    case 2
    then have "xs = [] \<or> ys = []" using less.prems last_in_set [of xs] by metis
    then show ?thesis by (auto simp: grep_output_def)
  qed
qed

text \<open>No line longer than \<open>n\<close>.\<close>

definition lines_upto :: "nat \<Rightarrow> u8 list \<Rightarrow> bool" where
  "lines_upto n bs \<longleftrightarrow> (\<forall>l\<in>set (file_lines bs). length l \<le> n)"

lemma lines_upto_newline: "lines_upto n bs \<Longrightarrow> n < k \<Longrightarrow> k \<le> length bs \<Longrightarrow> 10 \<in> set (take k bs)"
proof (rule ccontr)
  assume a: "lines_upto n bs" "n < k" "k \<le> length bs" "10 \<notin> set (take k bs)"
  then obtain x xs where x: "bs = x # xs" by (cases bs) auto
  have "takeWhile (\<lambda>c. c \<noteq> 10) bs = take k bs @ takeWhile (\<lambda>c. c \<noteq> 10) (drop k bs)"
    using takeWhile_append2 [of "take k bs" "\<lambda>c. c \<noteq> 10" "drop k bs"] a(4) by auto
  then have "k \<le> length (takeWhile (\<lambda>c. c \<noteq> 10) bs)" using a(3) by simp
  then show False using a(1,2) by (simp add: lines_upto_def file_lines.simps x)
qed

lemma lines_upto_tail: "lines_upto n (l @ 10 # bs) \<Longrightarrow> 10 \<notin> set l \<Longrightarrow> lines_upto n bs"
  by (simp add: lines_upto_def file_lines_newline)

lemma lines_upto_drop:
  "lines_upto n (xs @ ys) \<Longrightarrow> xs = [] \<or> last xs = 10 \<Longrightarrow> lines_upto n ys"
proof (induction "length xs" arbitrary: xs rule: less_induct)
  case less
  show ?case
  proof (cases xs rule: first_newline)
    case (1 l zs)
    have "lines_upto n (zs @ ys)" using less.prems(1) lines_upto_tail [of n l "zs @ ys"] 1 by simp
    then show ?thesis by (rule less.hyps [rotated]) (use less.prems 1 in \<open>auto split: if_splits\<close>)
  next
    case 2
    then have "xs = []" using less.prems last_in_set [of xs] by metis
    then show ?thesis using less.prems(1) by simp
  qed
qed

subsection \<open>One line\<close>

lemma strncmp_loop_decides:
  assumes "c_string s1 xs" "c_string s2 ys" "i \<le> length xs" "i \<le> length ys"
  shows "\<exists>d. strncmp_loop s1 s2 i n = Some d \<and> (d = 0 \<longleftrightarrow> take n (drop i xs) = take n (drop i ys))"
  using assms(3,4)
proof (induction n arbitrary: i)
  case (Suc n)
  have at: "s1 i = Some ((xs @ [0]) ! i)" "s2 i = Some ((ys @ [0]) ! i)"
    using assms(1,2) Suc.prems by (auto simp: c_string_def nth_append le_less)
  have nz: "xs ! j \<noteq> 0" if "j < length xs" for j using assms(1) nth_mem [OF that] by (auto simp: c_string_def)
  have nz': "ys ! j \<noteq> 0" if "j < length ys" for j using assms(2) nth_mem [OF that] by (auto simp: c_string_def)
  consider "i = length xs" "i = length ys" | "i = length xs" "i < length ys" | "i < length xs" "i = length ys"
    | "i < length xs" "i < length ys" using Suc.prems by linarith
  then show ?case
  proof cases
    case 4
    obtain d where d: "strncmp_loop s1 s2 (i + 1) n = Some d"
      "d = 0 \<longleftrightarrow> take n (drop (Suc i) xs) = take n (drop (Suc i) ys)" using Suc.IH [of "i + 1"] 4 by auto
    have "drop i xs = xs ! i # drop (Suc i) xs" "drop i ys = ys ! i # drop (Suc i) ys" using 4 by (simp_all add: Cons_nth_drop_Suc)
    then show ?thesis using 4 at d nz nz' by (auto simp: nth_append word_uint_eq_iff)
  next
    case 2
    then show ?thesis using at nz' [of i] by (auto simp: nth_append word_uint_eq_iff)
  next
    case 3
    then show ?thesis using at nz [of i] by (auto simp: nth_append word_uint_eq_iff)
  qed (use at in \<open>auto simp: nth_append\<close>)
qed simp

lemma char_match: "p < 128 \<Longrightarrow> sint (p :: u8) = uint c \<longleftrightarrow> p = c"
proof -
  assume "p < 128"
  then have "- (2 ^ 7) \<le> uint p" "uint p < 2 ^ 7" using order_trans [OF _ uint_ge_0 [of p], of "-128"] by (simp_all add: word_less_def)
  then have "sint p = uint p" by (simp add: sint_uint signed_take_bit_int_eq_self)
  then show ?thesis by (simp add: word_uint_eq_iff)
qed

lemma str_in_drop: "str_in m k xs \<Longrightarrow> i \<le> length xs \<Longrightarrow> str_in m (k + i) (drop i xs)"
  by (auto simp: str_in_def add.assoc dest: in_set_dropD)

lemma str_in_at: "str_in m k xs \<Longrightarrow> i \<le> length xs \<Longrightarrow> m (k + i) = (xs @ [0]) ! i"
  by (auto simp: str_in_def nth_append le_less)

lemma has_pattern_at: "i < length l \<Longrightarrow> has_pattern pat (drop i l) \<longleftrightarrow> take (length pat) (drop i l) = pat \<or> has_pattern pat (drop (Suc i) l)"
  by (simp add: Cons_nth_drop_Suc [symmetric])

text \<open>The strings of grep and its two names, apart from the buffer at \<open>d\<close>.\<close>

definition grep_strings :: "string set" where
  "grep_strings = {'':'', ln ''''}"

definition apart_str :: "nat \<Rightarrow> nat \<Rightarrow> u8 list \<Rightarrow> (nat \<Rightarrow> u8) \<Rightarrow> bool" where
  "apart_str d k xs m \<longleftrightarrow> str_in m k xs \<and> (k + length xs < d \<or> d + 1025 \<le> k)"

definition grep_ctx :: "(string \<Rightarrow> u32) \<Rightarrow> nat \<Rightarrow> nat \<Rightarrow> u8 list \<Rightarrow> nat \<Rightarrow> u8 list \<Rightarrow> (nat \<Rightarrow> u8) \<Rightarrow> bool" where
  "grep_ctx lit d q pat f name m \<longleftrightarrow> lits_in lit grep_strings d 1025 m \<and> apart_str d q pat m \<and> apart_str d f name m"

lemma apart_str_cong:
  assumes "apart_str d k xs m" "\<And>j. \<not> (d \<le> j \<and> j < d + 1025) \<Longrightarrow> m' j = m j"
  shows "apart_str d k xs m'"
proof -
  have "str_in m' k xs"
    by (rule str_in_cong [of m]) (use assms in \<open>auto simp: apart_str_def\<close>)
  then show ?thesis using assms(1) by (simp add: apart_str_def)
qed

lemma grep_ctx_cong:
  assumes "grep_ctx lit d q pat f name m" "\<And>j. \<not> (d \<le> j \<and> j < d + 1025) \<Longrightarrow> m' j = m j"
  shows "grep_ctx lit d q pat f name m'"
proof -
  have "lits_in lit grep_strings d 1025 m'" by (rule lits_in_cong [of _ _ _ _ m]) (use assms in \<open>auto simp: grep_ctx_def\<close>)
  moreover have "apart_str d q pat m'" by (rule apart_str_cong [of _ _ _ m]) (use assms in \<open>auto simp: grep_ctx_def\<close>)
  moreover have "apart_str d f name m'" by (rule apart_str_cong [of _ _ _ m]) (use assms in \<open>auto simp: grep_ctx_def\<close>)
  ultimately show ?thesis by (simp add: grep_ctx_def)
qed

lemma search_line_prints:
  fixes s :: "'a keyboard_scheme"
  assumes m: "prog_at p pid g img m s" "grep_ctx lit d q pat f name m" and pat: "pat \<noteq> []" "hd pat < 128"
    and l: "str_in m (d + b0) l" and i: "i \<le> length l"
  shows "\<exists>t. search_line lit (user_addr d) (user_addr q) (of_nat (length pat)) (user_addr f) (int b0) (int (b0 + length l)) (int (b0 + i)) s = Some t \<and>
    prog_at p pid g img m t \<and> says g (if has_pattern pat (drop i l) then name @ [58] @ l @ [10] else []) s t"
  using i
proof (induction "length l - i" arbitrary: i rule: less_induct)
  case less
  note [simp] = grep_strings_def
  have q: "str_in m q pat" and f: "str_in m f name" and lit: "lits_in lit grep_strings d 1025 m"
    using m(2) by (simp_all add: grep_ctx_def apart_str_def)
  have A: "user_addr d + word_of_int (int j) = user_addr (d + j)" for j by simp
  show ?case
  proof (cases "i < length l")
    case False
    then show ?thesis using less.prems pat(1) m(1) quiet_says [OF quiet_refl prog_group [OF m(1)], of s]
      by (subst search_line.simps) simp
  next
    case True
    have pl: "load8 s (user_addr q) = Some (hd pat)"
      using load8_pmem [OF m(1), of q] q pat(1) by (cases pat) (auto simp: str_in_def)
    have li: "d + (b0 + i) < 0x400000" using l True by (simp add: str_in_def)
    have cl: "load8 s (user_addr (d + (b0 + i))) = Some (l ! i)"
      using load8_pmem [OF m(1) li] str_in_at [OF l, of i] True by (simp add: add.assoc nth_append)
    have dl: "drop i l = l ! i # drop (Suc i) l" using True by (simp add: Cons_nth_drop_Suc)
    have x: "str_in m (d + (b0 + i)) (drop i l)" using str_in_drop [OF l, of i] True by (simp add: add.assoc)
    have plen: "unat (of_nat (length pat) :: u32) = length pat" using q unat_of_nat_u32 [of "length pat"] by (simp add: str_in_def)
    obtain r where r: "ece391_strncmp (mem_at s (user_addr (d + (b0 + i)))) (mem_at s (user_addr q)) (of_nat (length pat)) = Some r"
      "r = 0 \<longleftrightarrow> take (length pat) (drop i l) = pat"
      using strncmp_loop_decides [OF c_string_in [OF m(1) x] c_string_in [OF m(1) q], of 0 "length pat"] plen
      by (auto simp: ece391_strncmp_def)
    have hit: "hd pat = l ! i" if "take (length pat) (drop i l) = pat" using that dl pat(1) by (cases pat) auto
    have found: "(if sint (hd pat) = uint (l ! i)
        then map_option (\<lambda>r. r = 0) (ece391_strncmp (mem_at s (user_addr (d + (b0 + i)))) (mem_at s (user_addr q)) (of_nat (length pat)))
        else Some False) = Some (take (length pat) (drop i l) = pat)"
      using r hit char_match [OF pat(2), of "l ! i"] by auto
    have ne: "(int (b0 + i) < int (b0 + length l)) = True" using True by simp
    show ?thesis
    proof (cases "take (length pat) (drop i l) = pat")
      case hit: True
      have x0: "str_in m (d + b0) l" by (rule l)
      obtain a where a: "ece391_fdputs 1 (user_addr f) s = Some a" "prog_at p pid g img m a" "says g name s a"
        using prog_says [OF m(1) f] by blast
      obtain b where b: "ece391_fdputs 1 (lit '':'') a = Some b" "prog_at p pid g img m b" "says g (str '':'') a b"
        using prog_says_lit [OF a(2) lit, of "'':''"] by auto
      obtain c where c: "ece391_fdputs 1 (user_addr (d + b0)) b = Some c" "prog_at p pid g img m c" "says g l b c"
        using prog_says [OF b(2) l] by blast
      obtain t where t: "put_line lit '''' c = Some t" "prog_at p pid g img m t" "says g (str (ln '''')) c t"
        using prog_says_lit [OF c(2) lit, of "ln ''''"] by (auto simp: put_line_def)
      have "says g (name @ [58] @ l @ [10]) s t"
        using says_trans [OF a(3) says_trans [OF b(3) says_trans [OF c(3) t(3)]]] by (simp add: str_def ln_def)
      moreover have "has_pattern pat (drop i l)" using hit dl by simp
      ultimately show ?thesis using t(2) hit
        by (subst search_line.simps, simp only: ne if_True A pl cl bind.bind_lunit found a(1) b(1) c(1) t(1)) simp
    next
      case no: False
      have hp: "has_pattern pat (drop i l) = has_pattern pat (drop (Suc i) l)" using no has_pattern_at [OF True, of pat] by simp
      have "length l - Suc i < length l - i" "Suc i \<le> length l" using True by simp_all
      from less.hyps [OF this] have "\<exists>t. search_line lit (user_addr d) (user_addr q) (of_nat (length pat)) (user_addr f) (int b0) (int (b0 + length l)) (int (b0 + Suc i)) s = Some t \<and>
        prog_at p pid g img m t \<and> says g (if has_pattern pat (drop i l) then name @ [58] @ l @ [10] else []) s t" unfolding hp .
      moreover have "int (b0 + i) + 1 = int (b0 + Suc i)" by simp
      ultimately show ?thesis using no
        by (subst search_line.simps, simp only: ne if_True A pl cl bind.bind_lunit found) simp
    qed
  qed
qed

lemma line_end_from_finds:
  assumes m: "prog_at p pid g img m s" and c: "\<And>i. b0 \<le> i \<Longrightarrow> i < n \<Longrightarrow> m (d + i) = c ! i" and n: "b0 \<le> n" "d + n \<le> 0x400000"
  shows "line_end_from (user_addr d) (int b0) (int n) s = Some (int (b0 + length (takeWhile (\<lambda>b. b \<noteq> 10) (map (\<lambda>i. c ! i) [b0..<n]))))"
  using c n(1)
proof (induction "n - b0" arbitrary: b0 rule: less_induct)
  case less
  show ?case
  proof (cases "b0 < n")
    case False
    then show ?thesis by (subst line_end_from.simps) simp
  next
    case True
    have "load8 s (user_addr (d + b0)) = Some (c ! b0)" using load8_pmem [OF m, of "d + b0"] less.prems(1) [of b0] True n(2) by simp
    moreover have "line_end_from (user_addr d) (int (Suc b0)) (int n) s =
        Some (int (Suc b0 + length (takeWhile (\<lambda>b. b \<noteq> 10) (map (\<lambda>i. c ! i) [Suc b0..<n]))))"
      by (rule less.hyps) (use True less.prems(1) in auto)
    ultimately show ?thesis using True by (subst line_end_from.simps) (simp add: upt_conv_Cons add.commute algebra_simps)
  qed
qed

lemma strcpy_copies:
  assumes "prog_at p pid g img m s" "str_in m a xs" "d < a"
  shows "\<exists>t. ece391_strcpy (user_addr d) (user_addr a) s = Some t \<and> prog_at p pid g img (put_at m d (xs @ [0])) t \<and> quiet s t"
  using assms
proof (induction xs arbitrary: m s a d)
  case Nil
  have k: "d < 0x400000" "a < 0x400000" using Nil(2,3) by (simp_all add: str_in_def)
  have l: "load8 s (user_addr a) = Some 0" using load8_pmem [OF Nil(1) k(2)] Nil(2) by (simp add: str_in_def)
  obtain t where "store8 (user_addr d) 0 s = Some t" "prog_at p pid g img (m(d := 0)) t" "quiet s t"
    using prog_at_store8 [OF Nil(1) k(1)] by blast
  then show ?case using l by (subst ece391_strcpy.simps) (simp add: put_at_Cons)
next
  case (Cons x xs)
  have k: "d < 0x400000" "a < 0x400000" "x \<noteq> 0" using Cons(3,4) by (auto simp: str_in_def)
  have l: "load8 s (user_addr a) = Some x" using load8_pmem [OF Cons(2) k(2)] Cons(3) by (auto simp: str_in_def)
  obtain u where u: "store8 (user_addr d) x s = Some u" "prog_at p pid g img (m(d := x)) u" "quiet s u"
    using prog_at_store8 [OF Cons(2) k(1)] by blast
  have "str_in (m(d := x)) (Suc a) xs"
    by (rule str_in_cong [of m]) (use str_in_drop [OF Cons(3), of 1] Cons(4) in auto)
  from Cons.IH [OF u(2) this, of "Suc d"] Cons(4)
  obtain t where "ece391_strcpy (user_addr (Suc d)) (user_addr (Suc a)) u = Some t"
    "prog_at p pid g img (put_at (m(d := x)) (Suc d) (xs @ [0])) t" "quiet u t" by blast
  then show ?case using l u(1) k(3) quiet_trans [OF u(3)]
    by (subst ece391_strcpy.simps) (simp add: put_at_Cons algebra_simps)
qed

subsection \<open>The lines of the buffer\<close>

text \<open>After a pass over \<open>n\<close> bytes: \<open>pr\<close> is done with, \<open>r\<close> waits at the start of the buffer for the rest of its line.\<close>

definition lines_done :: "int \<Rightarrow> nat \<Rightarrow> nat \<Rightarrow> u8 list \<Rightarrow> u8 list \<Rightarrow> (nat \<Rightarrow> u8) \<Rightarrow> bool" where
  "lines_done cnt d n pr r m \<longleftrightarrow> m (d + 1024) \<noteq> 10 \<and> (\<forall>i<length r. m (d + i) = r ! i) \<and>
     (if r = [] then pr = [] \<or> last pr = 10 \<or> cnt = 0 \<or> n < 1024
      else cnt \<noteq> 0 \<and> (pr = [] \<or> last pr = 10) \<and> 10 \<notin> set r \<and> length r < n)"

lemma search_lines_prints:
  fixes s :: "'a keyboard_scheme" and c :: "u8 list"
  assumes m: "prog_at p pid g img m s" "grep_ctx lit d q pat f name m" and pat: "pat \<noteq> []" "hd pat < 128"
    and d: "d + 1025 \<le> 0x400000" and c: "0 \<notin> set c" "length c \<le> 1024"
    and at: "\<forall>i. b0 \<le> i \<and> i < length c \<longrightarrow> m (d + i) = c ! i" and b0: "b0 < length c \<or> b0 = 0" and stale: "m (d + 1024) \<noteq> 10"
    and short: "cnt \<noteq> 0 \<Longrightarrow> length c = 1024 \<Longrightarrow> b0 = 0 \<Longrightarrow> 10 \<in> set c"
  shows "\<exists>t m' pr r. search_lines lit (user_addr d) (user_addr q) (of_nat (length pat)) (user_addr f) cnt (int (length c)) (int b0) s =
      Some (int (length r), t) \<and> prog_at p pid g img m' t \<and> grep_ctx lit d q pat f name m' \<and> drop b0 c = pr @ r \<and>
    says g (grep_output name pat pr) s t \<and> lines_done cnt d (length c) pr r m'"
  using m at b0 stale short
proof (induction "length c - b0" arbitrary: b0 m s rule: less_induct)
  case less
  let ?n = "length c" and ?rest = "drop b0 c"
  let ?l = "takeWhile (\<lambda>b. b \<noteq> 10) ?rest"
  let ?e = "b0 + length ?l"
  let ?m = "m(d + ?e := 0)"
  have A: "user_addr d + word_of_int (int j) = user_addr (d + j)" for j by simp
  have b0n: "b0 \<le> ?n" using less.prems(4) by auto
  have map: "map (\<lambda>i. c ! i) [b0..<?n] = ?rest" using b0n by (intro nth_equalityI) simp_all
  have e: "line_end_from (user_addr d) (int b0) (int ?n) s = Some (int ?e)"
    using line_end_from_finds [OF less.prems(1), of b0 ?n d c] less.prems(3) b0n d c(2) by (simp add: map)
  have len: "length ?l \<le> length ?rest" by (rule length_takeWhile_le)
  then have en: "?e \<le> ?n" using b0n by simp
  have de: "d + ?e < 0x400000" "?e \<le> 1024" using en c(2) d by simp_all
  have x: "load8 s (user_addr (d + ?e)) = Some (m (d + ?e))" by (rule load8_pmem [OF less.prems(1) de(1)])
  obtain u where u: "store8 (user_addr (d + ?e)) 0 s = Some u" "prog_at p pid g img ?m u" "quiet s u"
    using prog_at_store8 [OF less.prems(1) de(1)] by blast
  have ctx: "grep_ctx lit d q pat f name ?m" by (rule grep_ctx_cong [OF less.prems(2)]) (use de(2) in auto)
  have l0: "0 \<notin> set ?l" "10 \<notin> set ?l" using c(1) set_takeWhileD in_set_dropD by metis+
  have str: "str_in ?m (d + b0) ?l"
    using de l0(1) len less.prems(3) by (auto simp: str_in_def add.assoc takeWhile_nth)
  obtain v where v: "search_line lit (user_addr d) (user_addr q) (of_nat (length pat)) (user_addr f) (int b0) (int ?e) (int b0) u = Some v"
    "prog_at p pid g img ?m v" "says g (match_line name pat ?l) u v"
    using search_line_prints [OF u(2) ctx pat str, of 0] by (auto simp: match_line_def)
  have sv: "says g (match_line name pat ?l) s v"
    using says_Nil_left [OF quiet_says [OF u(3) prog_group [OF m(1)]] v(3)] .
  have stale': "?m (d + 1024) \<noteq> 10" using less.prems(5) by simp
  let ?carry = "m (d + ?e) \<noteq> 10 \<and> cnt \<noteq> 0 \<and> int b0 \<noteq> 0"
  show ?case
  proof (cases ?rest rule: first_newline)
    case (1 l ys)
    then have l: "?l = l" by (simp add: before_newline)
    have el: "?e < ?n" using arg_cong [OF 1(1), of length] b0n by (simp add: l)
    have ys: "drop (Suc ?e) c = ys" using arg_cong [OF 1(1), of "drop (Suc (length l))"] by (simp add: l add.commute)
    have "m (d + ?e) = c ! ?e" using less.prems(3) el by simp
    also have "\<dots> = ?rest ! length l" using b0n by (simp add: l)
    also have "\<dots> = 10" by (simp add: 1(1))
    finally have nc: "?carry = False" by simp
    have out: "grep_output name pat (l @ 10 # zs) = match_line name pat l @ grep_output name pat zs" for zs
      using 1(2) by (rule grep_output_newline)
    show ?thesis
    proof (cases "Suc ?e < ?n")
      case False
      then have "ys = []" using ys by auto
      moreover have ge: "(int ?e + 1 \<ge> int ?n) = True" using False by simp
      moreover have "says g (grep_output name pat (l @ [10])) s v" using out [of "[]"] sv by (simp add: grep_output_def l)
      moreover have "?rest = (l @ [10]) @ []" using 1(1) \<open>ys = []\<close> by simp
      moreover have "lines_done cnt d ?n (l @ [10]) [] ?m" using stale' by (simp add: lines_done_def)
      moreover have "search_lines lit (user_addr d) (user_addr q) (of_nat (length pat)) (user_addr f) cnt (int ?n) (int b0) s = Some (int (length ([] :: u8 list)), v)"
        by (subst search_lines.simps, simp only: e bind.bind_lunit A x nc if_False u(1) v(1) ge if_True) simp
      ultimately show ?thesis using v(2) ctx by blast
    next
      case True
      have at': "\<forall>i. Suc ?e \<le> i \<and> i < ?n \<longrightarrow> ?m (d + i) = c ! i" using less.prems(3) by auto
      have "?n - Suc ?e < ?n - b0" using True by linarith
      from less.hyps [OF this v(2) ctx at' _ stale'] True
      obtain t m' pr r where t: "search_lines lit (user_addr d) (user_addr q) (of_nat (length pat)) (user_addr f) cnt (int ?n) (int (Suc ?e)) v =
          Some (int (length r), t)" "prog_at p pid g img m' t" "grep_ctx lit d q pat f name m'" "drop (Suc ?e) c = pr @ r"
        "says g (grep_output name pat pr) v t" "lines_done cnt d ?n pr r m'" by blast
      have lt: "(int ?e + 1 \<ge> int ?n) = False" and sc: "int ?e + 1 = int (Suc ?e)" using True by simp_all
      have "search_lines lit (user_addr d) (user_addr q) (of_nat (length pat)) (user_addr f) cnt (int ?n) (int b0) s = Some (int (length r), t)"
        by (subst search_lines.simps, simp only: e bind.bind_lunit A x nc if_False u(1) v(1) lt) (simp only: sc t(1))
      moreover have "says g (grep_output name pat (l @ 10 # pr)) s t" using says_trans [OF sv t(5)] by (simp add: out l)
      moreover have "?rest = (l @ 10 # pr) @ r" using 1(1) t(4) ys by simp
      moreover have "lines_done cnt d ?n (l @ 10 # pr) r m'" using t(6) by (auto simp: lines_done_def)
      ultimately show ?thesis using t(2,3) by blast
    qed
  next
    case 2
    then have l: "?l = ?rest" by (simp add: before_newline)
    then have en: "?e = ?n" using b0n unfolding l by simp
    show ?thesis
    proof (cases ?carry)
      case True
      then have b: "0 < b0" "b0 < ?n" using less.prems(4) by auto
      obtain t where t: "ece391_strcpy (user_addr d) (user_addr (d + b0)) u = Some t"
        "prog_at p pid g img (put_at ?m d (?rest @ [0])) t" "quiet u t"
        using strcpy_copies [OF u(2) str, of d] b(1) unfolding l by auto
      have "grep_ctx lit d q pat f name (put_at ?m d (?rest @ [0]))"
        by (rule grep_ctx_cong [OF ctx]) (use b c(2) in \<open>auto simp: put_at_def\<close>)
      moreover have "lines_done cnt d ?n [] ?rest (put_at ?m d (?rest @ [0]))"
        using b c(2) True 2 stale' by (auto simp: lines_done_def put_at_def nth_append)
      moreover have "says g (grep_output name pat []) s t"
        using quiet_says [OF quiet_trans [OF u(3) t(3)] prog_group [OF m(1)]] by (simp add: grep_output_def)
      moreover have diff: "int ?n - int b0 = int (length ?rest)" using b by simp
      moreover have cy: "?carry = True" using True by simp
      have "search_lines lit (user_addr d) (user_addr q) (of_nat (length pat)) (user_addr f) cnt (int ?n) (int b0) s = Some (int (length ?rest), t)"
        by (subst search_lines.simps, simp only: e bind.bind_lunit A x cy if_True u(1) t(1)) (simp only: diff)
      ultimately show ?thesis using t(2) append_Nil [of ?rest] by metis
    next
      case False
      then have nc: "?carry = False" by simp
      have ge: "(int ?e + 1 \<ge> int ?n) = True" using en by simp
      have "lines_done cnt d ?n ?rest [] ?m"
        using False stale' less.prems(5,6) 2 c(2) en by (auto simp: lines_done_def)
      moreover have "says g (grep_output name pat ?rest) s v" using sv grep_output_rest [OF 2 pat(1)] by (simp add: l)
      moreover have "?rest = ?rest @ []" by simp
      moreover have "search_lines lit (user_addr d) (user_addr q) (of_nat (length pat)) (user_addr f) cnt (int ?n) (int b0) s = Some (int (length ([] :: u8 list)), v)"
        by (subst search_lines.simps, simp only: e bind.bind_lunit A x nc if_False u(1) v(1) ge if_True) simp
      ultimately show ?thesis using v(2) ctx by blast
    qed
  qed
qed

subsection \<open>A file\<close>

definition prints :: "nat \<Rightarrow> u8 list \<Rightarrow> 'a terminals_scheme \<Rightarrow> 'a terminals_scheme \<Rightarrow> bool" where
  "prints g xs s t \<longleftrightarrow> group_terminal t g = fold terminal_put (echo xs) (group_terminal s g) \<and>
     (\<forall>h<3. h \<noteq> g \<longrightarrow> group_terminal t h = group_terminal s h)"

lemma says_prints: "says g xs s t \<Longrightarrow> prints g xs s t"
  by (simp add: says_def prints_def)

lemma prints_trans [trans]: "prints g xs s t \<Longrightarrow> prints g ys t u \<Longrightarrow> prints g (xs @ ys) s u"
  by (simp add: prints_def echo_append)

lemma same_prints: "(\<And>h. h < 3 \<Longrightarrow> group_terminal t h = group_terminal s h) \<Longrightarrow> g < 3 \<Longrightarrow> prints g [] s t"
  by (simp add: prints_def echo_def)

lemma prints_Nil_left: "prints g [] s t \<Longrightarrow> prints g xs t u \<Longrightarrow> prints g xs s u"
  using prints_trans [of g "[]"] by fastforce

lemma prog_at_with_fd:
  assumes "prog_at p pid g img m s" "fd < 8" "fd \<noteq> 1"
  shows "prog_at p pid g img m (with_fd p fd f s)" "prints g [] s (with_fd p fd f s)"
proof -
  have "cat_ready p pid g img s" using assms(1) by (simp add: prog_at_def)
  note w = cat_ready_with_fd [OF this assms(2,3), of f]
  have "translate (with_fd p fd f s) v = translate s v" for v by (rule translate_cong) (simp_all add: with_fd_def)
  then have "load8 (with_fd p fd f s) v = load8 s v" for v by (simp add: load8_def with_fd_def)
  then have "pmem (with_fd p fd f s) = pmem s" by (simp add: pmem_def fun_eq_iff)
  then show "prog_at p pid g img m (with_fd p fd f s)"
    using assms(1) w(1) by (simp add: prog_at_def)
  show "prints g [] s (with_fd p fd f s)"
    by (rule same_prints [OF w(2) prog_group [OF assms(1)]])
qed

text \<open>The descriptor \<open>fd\<close> is at the byte \<open>q\<close> of a file with these bytes.\<close>

definition reads_file :: "u32 \<Rightarrow> nat \<Rightarrow> u8 list \<Rightarrow> nat \<Rightarrow> u8 list \<Rightarrow> 'a procs_scheme \<Rightarrow> bool" where
  "reads_file p fd img q bytes s \<longleftrightarrow> f_flags (fd_at s p fd) \<noteq> NOT_IN_USE \<and> f_ops (fd_at s p fd) = Some File_type_ops \<and>
     f_position (fd_at s p fd) = of_nat q \<and> file_bytes img (unat (f_inode (fd_at s p fd))) = Some bytes"

text \<open>The other descriptors of the process are as they were.\<close>

definition other_fds :: "u32 \<Rightarrow> nat \<Rightarrow> 'a procs_scheme \<Rightarrow> 'a procs_scheme \<Rightarrow> bool" where
  "other_fds p fd s t \<longleftrightarrow> (\<forall>j<8. j \<noteq> fd \<longrightarrow> fd_at t p j = fd_at s p j)"

lemma kview_fd_at: "kview t = kview s \<Longrightarrow> fd_at t p j = fd_at s p j"
  using kview_fields(10) [of t s] by (simp add: fd_at_def)

lemma prog_reads_file:
  fixes s :: "'a keyboard_scheme"
  assumes m: "prog_at p pid g img m s" and fd: "fd < 8" "fd \<noteq> 1" and k: "k + n \<le> 0x400000" "k < 0x400000"
    and f: "reads_file p fd img q bytes s" "q \<le> length bytes"
  defines "out \<equiv> take n (drop q bytes)"
  shows "\<exists>t. system_read idle (int fd) (user_addr k) (int n) s = Some (int (length out), t) \<and>
    prog_at p pid g img (put_at m k out) t \<and> reads_file p fd img (q + length out) bytes t \<and> prints g [] s t \<and> other_fds p fd s t"
proof -
  have c: "current_ok s p" "maps_program s pid" "1 \<le> pid" "pid < 7" "image_loaded s img" "op_read (op_tables s File_type_ops) = Some File_read"
    using m by (simp_all add: prog_at_def cat_ready_def tables_ready_def file_type_table_def)
  have b: "file_bytes img (unat (f_inode (fd_at s p fd))) = Some bytes" using f(1) by (simp add: reads_file_def)
  have q: "unat (f_position (fd_at s p fd)) = q"
    using f file_bytes_length [OF b] unat_of_nat_u32 [of q] by (simp add: reads_file_def)
  have len: "k + length out \<le> 0x400000" using k by (simp add: out_def)
  obtain u where u: "store_bytes (user_addr k) out s = Some u" "prog_at p pid g img (put_at m k out) u" "quiet s u"
    using prog_at_store [OF m len] by blast
  define t where "t = with_fd p fd (\<lambda>f. f\<lparr>f_position := f_position f + of_nat (length out)\<rparr>) u"
  have "file_read (int fd) (user_addr k) (int n) s = Some (int (length out), t)"
    using file_read_slice [OF c(1) fd(1) _ user_not_null [OF k(2)], of "int n" img bytes] user_apart [OF c(2-4) k(1) c(5)] c(5) f(1) k b u(1)
    by (simp add: reads_file_def image_loaded_def q out_def [symmetric] t_def)
  then have "system_read idle (int fd) (user_addr k) (int n) s = Some (int (length out), t)"
    using c fd(1) f(1) get_fd_current [OF c(1) fd(1)] by (simp add: system_read_def current_ok_def run_read_def reads_file_def)
  moreover have cu: "current_ok u p" using u(2) by (simp add: prog_at_def cat_ready_def)
  moreover note at = kview_fd_at [OF quiet_kview [OF u(3)], of p]
  have "reads_file p fd img (q + length out) bytes t"
    using f(1) fd_at_with_fd [OF cu fd(1,1)] by (simp add: reads_file_def t_def at)
  moreover have "other_fds p fd s t" using fd_at_with_fd [OF cu fd(1)] at by (simp add: other_fds_def t_def)
  moreover have "prints g [] s t"
    using prints_Nil_left [OF says_prints [OF quiet_says [OF u(3) prog_group [OF m]]] prog_at_with_fd(2) [OF u(2) fd]] by (simp add: t_def)
  ultimately show ?thesis using prog_at_with_fd(1) [OF u(2) fd] t_def by blast
qed

lemma file_loop_prints:
  fixes s :: "'a keyboard_scheme" and r bytes :: "u8 list"
  assumes m: "prog_at p pid g img m s" "grep_ctx lit d q pat f name m" and pat: "pat \<noteq> []" "hd pat < 128"
    and d: "d + 1025 \<le> 0x400000" and fd: "2 \<le> fd" "fd < 8" and fl: "reads_file p fd img pos bytes s" "pos \<le> length bytes" "0 \<notin> set bytes"
    and r: "\<forall>i<length r. m (d + i) = r ! i" "0 \<notin> set r" "length r < 1024" "m (d + 1024) \<noteq> 10" and short: "lines_upto 1023 (r @ drop pos bytes)"
  shows "\<exists>t m'. file_loop idle lit (user_addr d) (user_addr q) (of_nat (length pat)) (user_addr f) (int fd) (int (length r)) s = Some (0, t) \<and>
    prog_at p pid g img m' t \<and> grep_ctx lit d q pat f name m' \<and> m' (d + 1024) \<noteq> 10 \<and> prints g (grep_output name pat (r @ drop pos bytes)) s t \<and>
    f_flags (fd_at t p fd) = NOT_IN_USE \<and> other_fds p fd s t"
  using m fl(1,2) r short
proof (induction "length bytes - pos" arbitrary: pos r m s rule: less_induct)
  case less
  define out where "out = take (1024 - length r) (drop pos bytes)"
  define c where "c = r @ out"
  define m1 where "m1 = put_at m (d + length r) out"
  have fd1: "fd \<noteq> 1" using fd by simp
  have k: "d + length r + (1024 - length r) \<le> 0x400000" "d + length r < 0x400000" using d less.prems(7) by simp_all
  obtain u where u: "system_read idle (int fd) (user_addr (d + length r)) (int (1024 - length r)) s = Some (int (length out), u)"
    "prog_at p pid g img m1 u" "reads_file p fd img (pos + length out) bytes u" "prints g [] s u" "other_fds p fd s u"
    using prog_reads_file [OF less.prems(1) fd(2) fd1 k less.prems(3,4), of idle] unfolding out_def m1_def by blast
  have n: "length c \<le> 1024" using less.prems(7) by (simp add: c_def out_def)
  have ctx: "grep_ctx lit d q pat f name m1"
    by (rule grep_ctx_cong [OF less.prems(2)]) (use n in \<open>auto simp: m1_def put_at_def c_def\<close>)
  have at: "\<forall>i. 0 \<le> i \<and> i < length c \<longrightarrow> m1 (d + i) = c ! i"
    using less.prems(5) by (auto simp: m1_def put_at_def c_def nth_append)
  have stale: "m1 (d + 1024) \<noteq> 10" using less.prems(8) n by (simp add: m1_def put_at_def c_def)
  have c0: "0 \<notin> set c" using less.prems(6) fl(3) in_set_dropD in_set_takeD by (fastforce simp: c_def out_def)
  have cw: "c = take 1024 (r @ drop pos bytes)" using less.prems(7) by (simp add: c_def out_def)
  have nl: "10 \<in> set c" if "length c = 1024"
  proof -
    have "1024 \<le> length (r @ drop pos bytes)" using that arg_cong [OF cw, of length] by simp
    then show ?thesis using lines_upto_newline [OF less.prems(9), of 1024] unfolding cw by simp
  qed
  obtain v m2 pr r2 where v: "search_lines lit (user_addr d) (user_addr q) (of_nat (length pat)) (user_addr f) (int (length out)) (int (length c)) (int 0) u =
      Some (int (length r2), v)" "prog_at p pid g img m2 v" "grep_ctx lit d q pat f name m2" "drop 0 c = pr @ r2"
    "says g (grep_output name pat pr) u v" "lines_done (int (length out)) d (length c) pr r2 m2"
    using search_lines_prints [OF u(2) ctx pat d c0 n at _ stale, of "int (length out)"] nl by blast
  have sv: "prints g (grep_output name pat pr) s v" by (rule prints_Nil_left [OF u(4) says_prints [OF v(5)]])
  have kv: "kview v = kview u" using v(5) by (simp add: says_def)
  note fv = kview_fd_at [OF kv, of p]
  have ov: "other_fds p fd s v" using u(5) by (simp add: other_fds_def fv)
  have B: "user_addr d + word_of_int (int (length r)) = user_addr (d + length r)" "1024 - int (length r) = int (1024 - length r)"
    "int (length r) + int (length out) = int (length c)" "(int (length out) = -1) = False"
    using less.prems(7) by (simp_all add: c_def)
  have stale2: "m2 (d + 1024) \<noteq> 10" using v(6) by (simp add: lines_done_def)
  show ?case
  proof (cases "out = []")
    case True
    then have e: "drop pos bytes = []" using less.prems(7) by (simp add: out_def)
    have cv: "current_ok v p" "tables_ready v" using v(2) by (simp_all add: prog_at_def cat_ready_def)
    have "system_close (int fd) v = Some (SUCCESS, with_fd p fd clear_fd v)" (is "_ = Some (_, ?t)")
      using system_close_in_use [OF cv fd] u(3) by (simp add: reads_file_def fv)
    then have run: "file_loop idle lit (user_addr d) (user_addr q) (of_nat (length pat)) (user_addr f) (int fd) (int (length r)) s = Some (0, ?t)"
      using v(1) by (subst file_loop.simps, simp only: B u(1) bind.bind_lunit prod.case if_False) (simp add: True c_def)
    have "r2 = []" using v(6) True by (simp add: lines_done_def split: if_splits)
    then have "pr = r" using v(4) True by (simp add: c_def)
    then have out: "grep_output name pat (r @ drop pos bytes) = grep_output name pat pr" by (simp add: e)
    have "prints g (grep_output name pat (r @ drop pos bytes)) s ?t"
      unfolding out using prints_trans [OF sv prog_at_with_fd(2) [OF v(2) fd(2) fd1]] by simp
    moreover have "f_flags (fd_at ?t p fd) = NOT_IN_USE" "other_fds p fd s ?t"
      using fd_at_with_fd [OF cv(1) fd(2)] fd(2) ov by (simp_all add: clear_fd_def other_fds_def)
    ultimately show ?thesis using run prog_at_with_fd(1) [OF v(2) fd(2) fd1] v(3) stale2 by blast
  next
    case False
    let ?pos = "pos + length out"
    have pos: "?pos \<le> length bytes" "length bytes - ?pos < length bytes - pos"
      using False less.prems(4) by (auto simp: out_def)
    have rest: "r @ drop pos bytes = pr @ r2 @ drop ?pos bytes"
    proof -
      have "out @ drop (1024 - length r) (drop pos bytes) = drop pos bytes" unfolding out_def by (rule append_take_drop_id)
      then have "drop pos bytes = out @ drop ?pos bytes" by (metis append_eq_conv_conj drop_drop add.commute)
      then show ?thesis using v(4) by (simp add: c_def)
    qed
    have cut: "pr = [] \<or> last pr = 10 \<or> r2 @ drop ?pos bytes = []"
    proof (cases "length c < 1024")
      case True
      then have "length out < 1024 - length r" by (simp add: c_def)
      then have "drop ?pos bytes = []" by (simp add: out_def)
      then show ?thesis using v(6) by (auto simp: lines_done_def split: if_splits)
    next
      case False
      then show ?thesis using v(6) \<open>out \<noteq> []\<close> by (auto simp: lines_done_def split: if_splits)
    qed
    have short2: "lines_upto 1023 (r2 @ drop ?pos bytes)"
    proof (cases "r2 @ drop ?pos bytes = []")
      case False
      then show ?thesis using lines_upto_drop [OF less.prems(9) [unfolded rest]] cut by blast
    next
      case True
      then show ?thesis by (simp add: lines_upto_def)
    qed
    have r2: "\<forall>i<length r2. m2 (d + i) = r2 ! i" "length r2 < 1024"
      using v(6) n by (auto simp: lines_done_def split: if_splits)
    have r20: "0 \<notin> set r2" using c0 v(4) by auto
    have fvv: "reads_file p fd img ?pos bytes v" using u(3) by (simp add: reads_file_def fv)
    obtain t m3 where t: "file_loop idle lit (user_addr d) (user_addr q) (of_nat (length pat)) (user_addr f) (int fd) (int (length r2)) v = Some (0, t)"
      "prog_at p pid g img m3 t" "grep_ctx lit d q pat f name m3" "m3 (d + 1024) \<noteq> 10"
      "prints g (grep_output name pat (r2 @ drop ?pos bytes)) v t" "f_flags (fd_at t p fd) = NOT_IN_USE" "other_fds p fd v t"
      using less.hyps [OF pos(2) v(2,3) fvv pos(1) r2(1) r20 r2(2) stale2 short2] by blast
    have ne: "(int (length out) = 0) = False" using False by simp
    have v1: "search_lines lit (user_addr d) (user_addr q) (of_nat (length pat)) (user_addr f) (int (length out)) (int (length c)) 0 u =
      Some (int (length r2), v)" using v(1) by simp
    have "file_loop idle lit (user_addr d) (user_addr q) (of_nat (length pat)) (user_addr f) (int fd) (int (length r)) s = Some (0, t)"
      by (subst file_loop.simps, simp only: B u(1) bind.bind_lunit prod.case if_False ne v1 t(1))
    moreover have "prints g (grep_output name pat (r @ drop pos bytes)) s t"
      unfolding rest grep_output_append [OF cut] by (rule prints_trans [OF sv t(5)])
    moreover have "other_fds p fd s t" using ov t(7) by (simp add: other_fds_def)
    ultimately show ?thesis using t(2-4,6) by blast
  qed
qed

lemma do_one_file_prints:
  fixes s :: "'a keyboard_scheme"
  assumes m: "prog_at p pid g img m s" "grep_ctx lit d q pat f name m" and pat: "pat \<noteq> []" "hd pat < 128"
    and d: "d + 1025 \<le> 0x400000" and free: "lowest_free s p fd" "2 \<le> fd" and stale: "m (d + 1024) \<noteq> 10"
    and img: "names_end img" "directory img = Some ds" "word_at img 4 = Some count"
    and found: "lookup_name img name = Some dn" "filetype dn = FILE_TYPE" "file_bytes img (unat (word_of_int (inode_num dn) :: u32)) = Some bytes"
    and tx: "0 \<notin> set bytes" "lines_upto 1023 bytes"
  shows "\<exists>t m'. do_one_file idle lit (user_addr d) (user_addr q) (user_addr f) s = Some (0, t) \<and>
    prog_at p pid g img m' t \<and> grep_ctx lit d q pat f name m' \<and> prints g (grep_output name pat bytes) s t \<and>
    f_flags (fd_at t p fd) = NOT_IN_USE \<and> other_fds p fd s t"
proof -
  have c: "current_ok s p" "tables_ready s" "holds_image s img"
    using m(1) by (simp_all add: prog_at_def cat_ready_def image_loaded_def)
  have q: "str_in m q pat" and f: "str_in m f name" using m(2) by (simp_all add: grep_ctx_def apart_str_def)
  have fd: "fd < 8" "fd \<noteq> 1" using free by (simp_all add: lowest_free_def)
  have len: "ece391_strlen (mem_at s (user_addr q)) = Some (length pat)"
    using strlen_from_c_string [OF c_string_in [OF m(1) q], of 0] by (simp add: ece391_strlen_def)
  have "read_dentry_by_name (mem_at s (user_addr f)) s = Some (SUCCESS, Some dn)"
    using read_dentry_by_name_lookup [OF c(3) c_string_in [OF m(1) f] img] found(1) by (simp add: lookup_result_def)
  then have op: "system_open (mem_at s (user_addr f)) s = Some (int fd, with_fd p fd (\<lambda>_. opened_file dn) s)" (is "_ = Some (_, ?u)")
    using system_open_file [OF c(1) free(1) c(2) _ found(2)] by blast
  note u = prog_at_with_fd [OF m(1) fd, of "\<lambda>_. opened_file dn"]
  have rf: "reads_file p fd img 0 bytes ?u"
    using fd_at_opened [OF c(1) fd(1), of "opened_file dn"] found(3) by (simp add: reads_file_def opened_file_def)
  obtain t m' where t: "file_loop idle lit (user_addr d) (user_addr q) (of_nat (length pat)) (user_addr f) (int fd) (int (length ([] :: u8 list))) ?u = Some (0, t)"
    "prog_at p pid g img m' t" "grep_ctx lit d q pat f name m'" "prints g (grep_output name pat ([] @ drop 0 bytes)) ?u t"
    "f_flags (fd_at t p fd) = NOT_IN_USE" "other_fds p fd ?u t"
    using file_loop_prints [OF u(1) m(2) pat d free(2) fd(1) rf _ tx(1), of "[]" idle] stale tx(2) by auto
  have "do_one_file idle lit (user_addr d) (user_addr q) (user_addr f) s = Some (0, t)"
    using t(1) by (simp add: do_one_file_def len op)
  moreover have "other_fds p fd s t" using t(6) fd_at_with_fd [OF c(1) fd(1)] by (simp add: other_fds_def)
  moreover have "prints g (grep_output name pat bytes) s t" using prints_Nil_left [OF u(2) t(4)] by simp
  ultimately show ?thesis using t(2,3,5) by blast
qed

text \<open>Searching for the pattern is looking for a sublist.\<close>

lemma has_pattern_sublist: "pat \<noteq> [] \<Longrightarrow> has_pattern pat l \<longleftrightarrow> sublist pat l"
proof (induction l)
  case (Cons c cs)
  have "take (length pat) (c # cs) = pat \<longleftrightarrow> prefix pat (c # cs)"
    by (metis append_eq_conv_conj prefix_def take_is_prefix)
  then show ?case using Cons by (simp add: sublist_Cons_right)
qed simp

end
