(* ===== verification/ProgramTheorems.thy ===== *)
theory ProgramTheorems
  imports GrepProps UserTheorems
begin

text \<open>
  The properties of itoa, counter, the shell and grep, each tried out in the process of PID 1 on the machine of
  \<open>Demo\<close>, with the strings of the program in its page.
\<close>

subsection \<open>The strings of a program in memory\<close>

definition prog_data :: "string list \<Rightarrow> u8 list" where
  "prog_data xs = concat (map (\<lambda>x. str x @ [0]) xs)"

definition data_offset :: "string list \<Rightarrow> string \<Rightarrow> nat" where
  "data_offset xs x = length (prog_data (takeWhile (\<lambda>y. y \<noteq> x) xs))"

definition data_lit :: "nat \<Rightarrow> string list \<Rightarrow> string \<Rightarrow> u32" where
  "data_lit b xs x = user_addr (b + data_offset xs x)"

lemma prog_data_split:
  assumes "x \<in> set xs"
  obtains ys where "prog_data xs = prog_data (takeWhile (\<lambda>y. y \<noteq> x) xs) @ str x @ 0 # ys"
proof -
  have "xs = takeWhile (\<lambda>y. y \<noteq> x) xs @ dropWhile (\<lambda>y. y \<noteq> x) xs" by simp
  moreover obtain zs where "dropWhile (\<lambda>y. y \<noteq> x) xs = x # zs"
    using assms hd_dropWhile [of "\<lambda>y. y \<noteq> x" xs] by (cases "dropWhile (\<lambda>y. y \<noteq> x) xs") (auto simp: dropWhile_eq_Nil_conv)
  ultimately have "xs = takeWhile (\<lambda>y. y \<noteq> x) xs @ x # zs" by simp
  then have "prog_data xs = prog_data (takeWhile (\<lambda>y. y \<noteq> x) xs @ x # zs)" by (rule arg_cong)
  then have "prog_data xs = prog_data (takeWhile (\<lambda>y. y \<noteq> x) xs) @ str x @ 0 # prog_data zs" by (simp add: prog_data_def)
  then show thesis by (rule that)
qed

lemma str_in_data:
  assumes x: "x \<in> set xs" "0 \<notin> set (str x)" and b: "b + length (prog_data xs) \<le> 0x400000"
  shows "str_in (put_at m b (prog_data xs)) (b + data_offset xs x) (str x)" "data_offset xs x + length x < length (prog_data xs)"
proof -
  let ?d = "prog_data (takeWhile (\<lambda>y. y \<noteq> x) xs)"
  obtain ys where ys: "prog_data xs = ?d @ str x @ 0 # ys" using prog_data_split [OF x(1)] .
  have sl: "length (str x) = length x" by (simp add: str_def)
  show "data_offset xs x + length x < length (prog_data xs)" by (simp add: data_offset_def ys sl)
  have "prog_data xs ! (length ?d + i) = (str x @ 0 # ys) ! i" for i unfolding ys by (rule nth_append_length_plus)
  then show "str_in (put_at m b (prog_data xs)) (b + data_offset xs x) (str x)"
    using b x(2) arg_cong [OF ys, of length]
    by (simp add: str_in_def put_at_def data_offset_def add.assoc nth_append sl)
qed

lemma data_lits_in:
  assumes "S \<subseteq> set xs" "\<forall>x\<in>S. 0 \<notin> set (str x)" "b + length (prog_data xs) \<le> k" "k + n \<le> 0x400000"
  shows "lits_in (data_lit b xs) S k n (put_at m b (prog_data xs))"
  unfolding lits_in_def
proof
  fix x assume "x \<in> S"
  then have "x \<in> set xs" "0 \<notin> set (str x)" "b + length (prog_data xs) \<le> 0x400000" using assms by auto
  from str_in_data(1) [OF this, of m] str_in_data(2) [OF this]
  show "\<exists>q. data_lit b xs x = user_addr q \<and> str_in (put_at m b (prog_data xs)) q (str x) \<and> (q + length x < k \<or> k + n \<le> q)"
    using assms(3) by (intro exI [of _ "b + data_offset xs x"]) (simp add: data_lit_def del: of_nat_add)
qed

text \<open>The process of PID 1.\<close>

lemma demo_prog_at: "prog_at (get_pcb_addr 1) 1 0 demo_img (pmem demo_cat) demo_cat" "stdin_open (get_pcb_addr 1) demo_cat"
proof -
  have ok: "procs_ok demo_cat" "maps_program demo_cat 1" using demo_cat_inv(1,2) by (auto simp: kinv_def)
  have cur: "current_ok demo_cat (get_pcb_addr 1)" using current_ok_running [OF ok(1)] demo_cat_inv(2) by simp
  have at: "fd_at demo_cat (get_pcb_addr 1) j = ([std_file Stdin_ops, std_file Stdout_ops] @ replicate 6 zero_file) ! j" for j
    by (simp add: fd_at_def demo_cat_pcb)
  show "prog_at (get_pcb_addr 1) 1 0 demo_img (pmem demo_cat) demo_cat"
    using cur ok(2) demo_cat_inv(3-5,7) by (simp add: prog_at_def cat_ready_def at std_file_def)
  show "stdin_open (get_pcb_addr 1) demo_cat" by (simp add: stdin_open_def at std_file_def)
qed

lemma demo_with_data:
  assumes "b + length xs \<le> 0x400000"
  obtains s :: keyboard where "prog_at (get_pcb_addr 1) 1 0 demo_img (put_at (pmem demo_cat) b xs) s" "stdin_open (get_pcb_addr 1) s"
    "terms s = terms demo_cat" "visible_group s = visible_group demo_cat" "current_group s = current_group demo_cat"
proof -
  obtain s where s: "prog_at (get_pcb_addr 1) 1 0 demo_img (put_at (pmem demo_cat) b xs) s" "quiet demo_cat s"
    using prog_at_store [OF demo_prog_at(1) assms] by blast
  have "terms s = terms demo_cat" "visible_group s = visible_group demo_cat" "current_group s = current_group demo_cat"
    using s(2) by (auto simp: quiet_def)
  then show thesis
    using that s stdin_open_kview [OF quiet_kview [OF s(2)]] demo_prog_at(2) by blast
qed

subsection \<open>itoa\<close>

text \<open>C15. A number in any base from 2 to 36 survives itoa: the buffer holds a string that reads as the number in that
  base, of at most 32 characters and without leading zeros, and no other byte of the program changes.\<close>

theorem itoa_writes_number:
  assumes "prog_at p pid g img m s" "2 \<le> r" "r \<le> 36" "n < 2 ^ 32" "k + 33 \<le> 0x400000"
  shows "\<exists>t xs. ece391_itoa (of_nat n) (user_addr k) (int r) s = Some t \<and> str_in (pmem t) k xs \<and> text_value r xs = n \<and>
    length xs \<le> 32 \<and> (0 < n \<longrightarrow> hd xs \<noteq> 48) \<and> (\<forall>j. \<not> (k \<le> j \<and> j \<le> k + length xs) \<longrightarrow> pmem t j = pmem s j) \<and> quiet s t"
proof -
  let ?x = "itoa_text r n"
  have len: "length ?x \<le> 32" by (rule itoa_text_length [OF assms(2,4)])
  then obtain t where t: "ece391_itoa (of_nat n) (user_addr k) (int r) s = Some t" "prog_at p pid g img (put_at m k (?x @ [0])) t" "quiet s t"
    using itoa_writes [OF assms(1-4), of k] assms(5) by auto
  have pm: "pmem t = put_at m k (?x @ [0])" "pmem s = m" using t(2) assms(1) by (simp_all add: prog_at_def)
  have "str_in (pmem t) k ?x"
    unfolding pm(1) by (rule str_in_put) (use len assms(5) itoa_text_chars [OF assms(3)] in simp_all)
  moreover have "hd ?x \<noteq> 48" if "0 < n" using itoa_text_head [OF assms(2,3) that] .
  moreover have "pmem t j = pmem s j" if "\<not> (k \<le> j \<and> j \<le> k + length ?x)" for j using that by (auto simp: pm put_at_def)
  ultimately show ?thesis using t(1,3) len itoa_text_value [OF assms(2,3)] by blast
qed

lemma itoa_writes_number_witness:
  "\<exists>t xs. ece391_itoa 3735928559 0x8048100 16 demo_cat = Some t \<and> text_value 16 xs = 3735928559 \<and> str_in (pmem t) 0x48100 xs"
  using itoa_writes_number [OF demo_prog_at(1), of 16 3735928559 "0x48100"] by auto

subsection \<open>counter\<close>


text \<open>Interrupts that leave the line \<open>xs\<close> for the group 0.\<close>

definition type_line :: "u8 list \<Rightarrow> keyboard \<Rightarrow> keyboard option" where
  "type_line xs s = Some (s\<lparr>terms := (terms s)[0 := (terms s ! 0)
     \<lparr>newline_seen := 1, term_buff := xs @ replicate (128 - length xs) 0, term_buff_size := length xs\<rparr>]\<rparr>)"

lemma type_line_types:
  fixes s :: keyboard
  assumes s: "prog_at p pid 0 img m s" "read_in_progress (terms s ! 0) = 0" and xs: "length xs \<le> 128"
  obtains u where "types_line (type_line xs) 0 xs s u" "prog_at p pid 0 img m u"
proof -
  let ?w = "waiting 0 s"
  let ?t = "(terms ?w ! 0)\<lparr>newline_seen := 1, term_buff := xs @ replicate (128 - length xs) 0, term_buff_size := length xs\<rparr>"
  have t: "terms_ok s" "\<forall>t\<in>set (terms s). saved_cursor_ok t" using s(1) by (simp_all add: prog_at_def cat_ready_def screens_ok_def)
  have l: "length (terms s) = 3" using t(1) by (simp add: terms_ok_def)
  then have in0: "terms s ! 0 \<in> set (terms s)" by (intro nth_mem) simp
  then have ok: "term_ok (terms s ! 0)" "saved_cursor_ok (terms s ! 0)" using t by (auto simp: terms_ok_def)
  have "term_ok ((terms s ! 0)\<lparr>read_in_progress := 1, newline_seen := 0\<rparr>)" "saved_cursor_ok ((terms s ! 0)\<lparr>read_in_progress := 1, newline_seen := 0\<rparr>)"
    using ok by (simp_all add: term_ok_def saved_cursor_ok_def)
  from prog_at_put_term [OF s(1) this, of 0] have w: "prog_at p pid 0 img m ?w" by (simp add: waiting_def)
  then have wt: "terms_ok ?w" by (simp add: prog_at_def cat_ready_def screens_ok_def)
  have "term_ok ?t" "saved_cursor_ok ?t" using ok l xs by (simp_all add: waiting_def term_ok_def saved_cursor_ok_def)
  from prog_at_put_term [OF w this, of 0] have u: "prog_at p pid 0 img m (?w\<lparr>terms := (terms ?w)[0 := ?t]\<rparr>)" (is "prog_at _ _ _ _ _ ?u") .
  have "iterate (type_line xs) 1 ?w = Some ?u" by (simp add: type_line_def)
  moreover have "newline_seen (terms ?w ! 0) = 0" using l by (simp add: waiting_def)
  ultimately have "types_line (type_line xs) 0 xs s ?u"
    using s(2) l wt unfolding types_line_def by (auto simp: line_def waiting_def intro!: exI [of _ 1])
  then show thesis using u by (rule that)
qed

subsection \<open>The rounds of counter and the shell\<close>

text \<open>Printing on the visible screen leaves the state of the keyboard line alone.\<close>

lemma fdputs_terms:
  fixes s :: "'a keyboard_scheme"
  assumes m: "prog_at p pid g img m s" and v: "visible_group s = current_group s" and t: "ece391_fdputs 1 a s = Some t"
  shows "terms t = terms s"
proof -
  have f: "current_ok s p" "f_flags (fd_at s p 1) \<noteq> NOT_IN_USE" "f_ops (fd_at s p 1) = Some Stdout_ops"
    "op_write (op_tables s Stdout_ops) = Some Term_write"
    using m by (simp_all add: prog_at_def cat_ready_def tables_ready_def stdout_table_def)
  obtain n r where w: "system_write 1 a n s = Some (r, t)" using t by (auto simp: ece391_fdputs_def bind_Some_iff)
  then have "term_write 1 a n s = Some (r, t)"
    using f get_fd_current [OF f(1), of 1] by (simp add: system_write_def current_ok_def run_write_def)
  moreover have "terms u = terms s" if "print_chars a k (s\<lparr>eflags_if := False\<rparr>) = Some u" for k u
    using terms_con_frame [OF con_frame_print_chars [OF that]] by simp
  ultimately show ?thesis
    using v by (auto simp: term_write_def get_current_group_def cli_and_save_def restore_flags_def sti_def bind_Some_iff split: if_splits)
qed

text \<open>PID 1 with the strings \<open>xs\<close> at 0x48000 and a buffer at 0x48400: it prints one of them, and a line is typed.\<close>

lemma demo_prompt:
  assumes "S \<subseteq> set xs" "\<forall>x\<in>S. 0 \<notin> set (str x)" "length (prog_data xs) \<le> 0x400" "x \<in> S" "length l \<le> 128"
  obtains s s1 u :: keyboard and m where "prog_at (get_pcb_addr 1) 1 0 demo_img m s" "stdin_open (get_pcb_addr 1) s"
    "lits_in (data_lit 0x48000 xs) S 0x48400 1024 m" "ece391_fdputs 1 (data_lit 0x48000 xs x) s = Some s1"
    "types_line (type_line l) 0 l s1 u" "prog_at (get_pcb_addr 1) 1 0 demo_img m u"
proof -
  let ?m = "put_at (pmem demo_cat) 0x48000 (prog_data xs)"
  have "0x48000 + length (prog_data xs) \<le> 0x400000" using assms(3) by simp
  then obtain s :: keyboard where s: "prog_at (get_pcb_addr 1) 1 0 demo_img ?m s" "stdin_open (get_pcb_addr 1) s"
    "terms s = terms demo_cat" "visible_group s = visible_group demo_cat" "current_group s = current_group demo_cat"
    by (rule demo_with_data)
  have l: "lits_in (data_lit 0x48000 xs) S 0x48400 1024 ?m"
    by (rule data_lits_in [OF assms(1,2)]) (use assms(3) in simp_all)
  obtain s1 where s1: "ece391_fdputs 1 (data_lit 0x48000 xs x) s = Some s1" "prog_at (get_pcb_addr 1) 1 0 demo_img ?m s1"
    using prog_says_lit [OF s(1) l assms(4)] by blast
  have "terms s1 = terms demo_cat" using fdputs_terms [OF s(1) _ s1(1)] s(3-5) by (simp add: demo_cat_def)
  then have "read_in_progress (terms s1 ! 0) = 0" by (simp add: demo_cat_def demo_term_def)
  from type_line_types [OF s1(2) this assms(5)]
  obtain u where "types_line (type_line l) 0 l s1 u" "prog_at (get_pcb_addr 1) 1 0 demo_img ?m u" .
  with s(1,2) l s1(1) show thesis by (rule that)
qed



text \<open>C13. The shell hands the line that was typed, without its newline, to \<open>execute\<close>: the line \<open>exit\<close> ends the shell
  with 0, an empty line only starts the next round, and after any other command the shell goes on with a message
  for the results -1, 256 and others that are not 0.\<close>

theorem shell_runs_command:
  fixes s u :: "'a keyboard_scheme"
  assumes "prog_at p pid g img m s" "stdin_open p s" "lits_in lit shell_strings k 1024 m" "k + 1024 \<le> 0x400000"
    and "ece391_fdputs 1 (lit ''391OS> '') s = Some s1" "types_line idle g xs s1 u" "prog_at p pid g img m u"
    and "length xs \<le> 1023" "0 \<notin> set xs"
  shows "\<exists>v. str_in (pmem v) k (line_command xs) \<and> (\<forall>h<3. group_terminal v h = group_terminal u h) \<and>
    (line_command xs = str ''exit'' \<longrightarrow> shell_rounds idle exec lit (user_addr k) s = Some (0, v)) \<and>
    (line_command xs = [] \<longrightarrow> shell_rounds idle exec lit (user_addr k) s = shell_rounds idle exec lit (user_addr k) v) \<and>
    (\<forall>rval w n. line_command xs \<notin> {[], str ''exit''} \<and> exec (user_addr k) v = Some (rval, w) \<and> prog_at p pid g img n w \<and>
        lits_in lit shell_strings k 1024 n \<longrightarrow>
      (\<exists>x. shell_rounds idle exec lit (user_addr k) s = shell_rounds idle exec lit (user_addr k) x \<and>
        prog_at p pid g img n x \<and> says g (result_message rval) w x))"
proof -
  let ?c = "line_command xs"
  obtain v m2 where v: "prog_at p pid g img m2 v" "str_in m2 k ?c" "\<forall>h<3. group_terminal v h = group_terminal u h"
    and run: "shell_rounds idle exec lit (user_addr k) s =
      (if ?c = str ''exit'' then Some (0, v)
       else if ?c = [] then shell_rounds idle exec lit (user_addr k) v
       else do {
         (rval, w) \<leftarrow> exec (user_addr k) v;
         w \<leftarrow> shell_report lit rval w;
         shell_rounds idle exec lit (user_addr k) w
       })"
    using shell_reads_command [OF assms(1-9,3), of exec] by blast
  have ne: "str ''exit'' \<noteq> []" by (simp add: str_def)
  show ?thesis
  proof (rule exI [of _ v], intro conjI allI impI)
    show "str_in (pmem v) k ?c" using v(1,2) by (simp add: prog_at_def)
    show "shell_rounds idle exec lit (user_addr k) s = Some (0, v)" if "?c = str ''exit''" using run that by simp
    show "shell_rounds idle exec lit (user_addr k) s = shell_rounds idle exec lit (user_addr k) v" if "?c = []"
      using run that ne by simp
    show "group_terminal v h = group_terminal u h" if "h < 3" for h using v(3) that by blast
    fix rval w n
    assume a: "?c \<notin> {[], str ''exit''} \<and> exec (user_addr k) v = Some (rval, w) \<and> prog_at p pid g img n w \<and> lits_in lit shell_strings k 1024 n"
    then obtain x where "shell_report lit rval w = Some x" "prog_at p pid g img n x" "says g (result_message rval) w x"
      using shell_report_says by blast
    then show "\<exists>x. shell_rounds idle exec lit (user_addr k) s = shell_rounds idle exec lit (user_addr k) x \<and>
        prog_at p pid g img n x \<and> says g (result_message rval) w x"
      using a run by auto
  qed
qed

text \<open>The command \<open>exit\<close>.\<close>

definition shell_list :: "string list" where
  "shell_list = [''391OS> '', ''exit'', ln ''no such command'', ln ''program terminated by exception'', ln ''program terminated abnormally'']"

lemma shell_runs_command_witness:
  "\<exists>(s :: keyboard) v. shell_rounds (type_line [101, 120, 105, 116, 10]) (\<lambda>_ s. Some (0, s)) (data_lit 0x48000 shell_list) 0x8048400 s = Some (0, v) \<and>
    str_in (pmem v) 0x48400 (str ''exit'')"
proof -
  let ?l = "[101, 120, 105, 116, 10] :: u8 list"
  have z: "\<forall>x\<in>shell_strings. 0 \<notin> set (str x)" by (simp add: shell_strings_def str_def ln_def)
  have n: "length (prog_data shell_list) \<le> 0x400" by (simp add: shell_list_def prog_data_def str_def ln_def)
  have x: "''391OS> '' \<in> shell_strings" "shell_strings \<subseteq> set shell_list" by (simp_all add: shell_strings_def shell_list_def)
  obtain s s1 u :: keyboard and m where s: "prog_at (get_pcb_addr 1) 1 0 demo_img m s" "stdin_open (get_pcb_addr 1) s"
    "lits_in (data_lit 0x48000 shell_list) shell_strings 0x48400 1024 m"
    "ece391_fdputs 1 (data_lit 0x48000 shell_list ''391OS> '') s = Some s1"
    "types_line (type_line ?l) 0 ?l s1 u" "prog_at (get_pcb_addr 1) 1 0 demo_img m u"
    by (rule demo_prompt [OF x(2) z n x(1), of ?l]) simp_all
  have c: "line_command ?l = str ''exit''" by (simp add: line_command_def str_def)
  show ?thesis
    using shell_runs_command [OF s(1-3) _ s(4-6), of "\<lambda>_ s. Some (0, s)"] unfolding c by auto
qed

subsection \<open>grep\<close>

text \<open>C12. grep on a file: whatever its length, the lines of the file that contain the pattern are printed in their
  order, each with the name of the file and a colon before it, on the terminal of its group and nowhere else; the
  descriptor it used is free again, and it returns 0. The lines have at most 1023 bytes and no NUL, the pattern
  starts with a character below 128, and the byte behind the buffer, which grep reads before it has ever
  written it, is not by chance a newline.\<close>

theorem grep_prints_matches:
  fixes s :: "'a keyboard_scheme"
  assumes "prog_at p pid g img m s" "grep_ctx lit d q pat f name m" "pat \<noteq> []" "hd pat < 128" "d + 1025 \<le> 0x400000"
    and "lowest_free s p fd" "2 \<le> fd" "m (d + 1024) \<noteq> 10"
    and "names_end img" "directory img = Some ds" "word_at img 4 = Some count"
    and "lookup_name img name = Some dn" "filetype dn = FILE_TYPE" "file_bytes img (unat (word_of_int (inode_num dn) :: u32)) = Some bytes"
    and "0 \<notin> set bytes" "lines_upto 1023 bytes"
  shows "\<exists>t. do_one_file idle lit (user_addr d) (user_addr q) (user_addr f) s = Some (0, t) \<and>
    group_terminal t g = fold terminal_put
      (echo (concat (map (\<lambda>l. if sublist pat l then name @ [58] @ l @ [10] else []) (file_lines bytes)))) (group_terminal s g) \<and>
    (\<forall>h<3. h \<noteq> g \<longrightarrow> group_terminal t h = group_terminal s h) \<and>
    f_flags (fd_at t p fd) = NOT_IN_USE \<and> (\<forall>j<8. j \<noteq> fd \<longrightarrow> fd_at t p j = fd_at s p j)"
proof -
  have "match_line name pat = (\<lambda>l. if sublist pat l then name @ [58] @ l @ [10] else [])"
    using has_pattern_sublist [OF assms(3)] by (simp add: match_line_def fun_eq_iff)
  then show ?thesis
    using do_one_file_prints [OF assms, of idle] unfolding grep_output_def prints_def other_fds_def by auto
qed

text \<open>An image whose file \<open>hi\<close> is a text of three lines.\<close>

definition demo_lines :: "u8 list" where
  "demo_lines = str ''hello world'' @ [10] @ str ''say hi'' @ [10] @ str ''good day'' @ [10]"

definition text_img :: "u8 list" where
  "text_img = take 8192 demo_img @ demo_lines"

definition text_demo :: keyboard where
  "text_demo = demo_cat\<lparr>phys := \<lambda>a. if 8192 \<le> unat (a - demo_boot) \<and> unat (a - demo_boot) < 8220
     then demo_lines ! (unat (a - demo_boot) - 8192) else demo_phys a\<rparr>"

lemma text_img_length: "length demo_lines = 28" "length text_img = 8220"
  by (simp_all add: text_img_def demo_lines_def str_def)

lemma text_img_nth: "a < 8220 \<Longrightarrow> text_img ! a = (if a < 8192 then demo_img ! a else demo_lines ! (a - 8192))"
  by (simp add: text_img_def nth_append)

lemma text_img_word: "a + 4 \<le> 8192 \<Longrightarrow> word_at text_img a = word_at demo_img a"
  by (simp add: word_at_def text_img_length text_img_nth)

lemma text_img_words:
  "word_at text_img 0 = Some 2" "word_at text_img 4 = Some 1" "word_at text_img 160 = Some 1" "word_at text_img 164 = Some 0"
  "word_at text_img 96 = Some 2" "word_at text_img 100 = Some 0" "word_at text_img 4096 = Some 28" "word_at text_img 4100 = Some 0"
  by (simp_all add: text_img_word demo_img_words)

lemma text_directory:
  "directory text_img = Some [\<lparr>filename = [104, 105] @ replicate 30 0, filetype = 2, inode_num = 0\<rparr>,
     \<lparr>filename = [46] @ replicate 31 0, filetype = 1, inode_num = 0\<rparr>]"
proof -
  have "take 32 (drop 64 text_img) = [104, 105] @ replicate 30 0" "take 32 (drop 128 text_img) = [46] @ replicate 31 0"
    by (simp_all add: text_img_def demo_img_def demo_dir_def)
  moreover have "[0..<nat (sint (2 :: u32))] = [0, 1]" by (simp add: upt_rec)
  ultimately show ?thesis
    by (simp add: directory_def dir_entry_def text_img_words)
qed

lemma text_lookup: "lookup_name text_img [104, 105] = Some \<lparr>filename = [104, 105] @ replicate 30 0, filetype = 2, inode_num = 0\<rparr>"
  by (simp add: lookup_name_def text_directory text_img_words entry_name_def)

lemma text_names_end: "names_end text_img"
  unfolding names_end_def text_img_words
  by (auto intro!: exI [of _ 190] simp: text_img_length text_img_nth demo_img_low demo_dir_def nth_append)

lemma text_file_bytes: "file_bytes text_img 0 = Some demo_lines"
proof -
  have "file_byte text_img 0 p = Some (demo_lines ! p)" if "p < 28" for p
    using that by (simp add: file_byte_def text_img_words byte_at_def text_img_length text_img_nth)
  then have "map (file_byte text_img 0) [0..<28] = map Some demo_lines"
    by (intro nth_equalityI) (simp_all add: text_img_length)
  then show ?thesis
    by (simp add: file_bytes_def file_length_def text_img_words those_map_Some)
qed

lemma text_demo_translate: "translate text_demo v = translate demo v"
  by (rule translate_cong) (simp_all add: text_demo_def demo_cat_def)

lemma text_demo_image: "image_loaded text_demo text_img"
proof -
  have pg: "drop_bit 22 (demo_boot + of_nat a) = 1" if "a < 8220" for a
    using kernel_page_number [of "0x10000 + a"] that by (simp add: demo_boot_def)
  have bb: "boot_blk text_demo = demo_boot" by (simp add: text_demo_def demo_cat_def)
  have "load8 text_demo (demo_boot + of_nat a) = Some (text_img ! a)" if a: "a < 8220" for a
  proof -
    have "load8 demo (demo_boot + of_nat a) = Some (demo_img ! a)"
      using demo_image_loaded a by (simp add: image_loaded_def holds_image_def)
    then have "demo_phys (demo_boot + of_nat a) = demo_img ! a"
      using demo_translate(1) [OF pg [OF a]] by (simp add: load8_def)
    then show ?thesis
      using a demo_translate(1) [OF pg [OF a]] unat_of_nat_u32 [of a]
      by (simp add: load8_def text_demo_translate text_img_nth) (simp add: text_demo_def)
  qed
  then show ?thesis
    using pg demo_translate(1) by (simp add: image_loaded_def holds_image_def kernel_identity_def bb text_img_length text_demo_translate)
qed

lemma text_demo_at: "prog_at (get_pcb_addr 1) 1 0 text_img (pmem text_demo) text_demo" "fd_at text_demo p j = fd_at demo_cat p j"
proof -
  have r: "cat_ready (get_pcb_addr 1) 1 0 demo_img demo_cat" using demo_prog_at(1) by (simp add: prog_at_def)
  have "screens_ok text_demo = screens_ok demo_cat" by (rule screens_ok_cong) (simp_all add: text_demo_def)
  then show "prog_at (get_pcb_addr 1) 1 0 text_img (pmem text_demo) text_demo"
    using r text_demo_image current_ok_kview [of text_demo demo_cat]
    by (simp add: prog_at_def cat_ready_def text_demo_def maps_program_def fd_at_def tables_ready_def)
  show "fd_at text_demo p j = fd_at demo_cat p j" by (simp add: text_demo_def fd_at_def)
qed

lemma text_demo_behind: "pmem text_demo 0x48800 = 0"
proof -
  have "translate text_demo 0x8048800 = Some (big_frame (get_prog_phys_addr 1) 0x8048800)"
    using demo_translate(2) [of "0x8048800"] by (simp add: text_demo_translate)
  moreover have "big_frame (get_prog_phys_addr 1) 0x8048800 = 0x848800"
    by (simp add: get_prog_phys_addr_def big_frame_def)
  ultimately show ?thesis by (simp add: pmem_def load8_def text_demo_def demo_phys_def demo_boot_def)
qed

text \<open>Looking for \<open>say\<close> in the file \<open>hi\<close>.\<close>

definition grep_list :: "string list" where
  "grep_list = ['':'', ln '''', ''hi'', ''say'']"

lemma demo_file_lines: "file_lines demo_lines = [str ''hello world'', str ''say hi'', str ''good day'']"
  by (simp add: demo_lines_def str_def file_lines.simps)

lemma grep_prints_matches_witness:
  "\<exists>(s :: keyboard) t. do_one_file Some (data_lit 0x48000 grep_list) 0x8048400 0x8048007 0x8048004 s = Some (0, t) \<and>
    group_terminal t 0 = fold terminal_put (str ''hi:say hi'' @ [10]) (group_terminal s 0)"
proof -
  let ?m = "put_at (pmem text_demo) 0x48000 (prog_data grep_list)"
  have n: "length (prog_data grep_list) = 11" by (simp add: grep_list_def prog_data_def str_def ln_def)
  obtain s :: keyboard where s: "prog_at (get_pcb_addr 1) 1 0 text_img ?m s" "quiet text_demo s"
    using prog_at_store [OF text_demo_at(1), of "0x48000" "prog_data grep_list"] n by auto
  have lit: "lits_in (data_lit 0x48000 grep_list) grep_strings 0x48400 1025 ?m"
    by (rule data_lits_in) (use n in \<open>simp_all add: grep_strings_def grep_list_def str_def ln_def\<close>)
  have o: "data_offset grep_list ''hi'' = 4" "data_offset grep_list ''say'' = 7"
    by (simp_all add: data_offset_def grep_list_def prog_data_def str_def ln_def)
  have "str_in ?m (0x48000 + data_offset grep_list ''hi'') (str ''hi'')"
    by (rule str_in_data) (use n in \<open>simp_all add: grep_list_def str_def\<close>)
  moreover have "str_in ?m (0x48000 + data_offset grep_list ''say'') (str ''say'')"
    by (rule str_in_data) (use n in \<open>simp_all add: grep_list_def str_def\<close>)
  ultimately have ctx: "grep_ctx (data_lit 0x48000 grep_list) 0x48400 0x48007 (str ''say'') 0x48004 (str ''hi'') ?m"
    using lit by (simp add: grep_ctx_def apart_str_def o str_def)
  have fd: "fd_at s (get_pcb_addr 1) j = fd_at demo_cat (get_pcb_addr 1) j" for j
    using kview_fd_at [OF quiet_kview [OF s(2)]] text_demo_at(2) by simp
  have free: "lowest_free s (get_pcb_addr 1) 2"
    unfolding lowest_free_def fd
    by (auto simp: fd_at_def demo_cat_pcb std_file_def zero_file_def less_2_cases_iff nth_Cons split: nat.splits)
  have behind: "?m (0x48400 + 1024) \<noteq> 10" using n text_demo_behind by (simp add: put_at_def)
  have nm: "str ''hi'' = [104, 105]" by (simp add: str_def)
  have short: "lines_upto 1023 demo_lines" by (simp add: lines_upto_def demo_file_lines) (simp add: str_def)
  have "str ''say'' \<noteq> []" by (simp add: str_def)
  note sub = has_pattern_sublist [OF this, symmetric]
  have out: "concat (map (\<lambda>l. if sublist (str ''say'') l then str ''hi'' @ [58] @ l @ [10] else []) (file_lines demo_lines)) =
      str ''hi:say hi'' @ [10]"
    unfolding sub demo_file_lines by (simp add: str_def)
  have "\<exists>t. do_one_file Some (data_lit 0x48000 grep_list) (user_addr 0x48400) (user_addr 0x48007) (user_addr 0x48004) s = Some (0, t) \<and>
    group_terminal t 0 = fold terminal_put
      (echo (concat (map (\<lambda>l. if sublist (str ''say'') l then str ''hi'' @ [58] @ l @ [10] else []) (file_lines demo_lines)))) (group_terminal s 0) \<and>
    (\<forall>h<3. h \<noteq> 0 \<longrightarrow> group_terminal t h = group_terminal s h) \<and>
    f_flags (fd_at t (get_pcb_addr 1) 2) = NOT_IN_USE \<and> (\<forall>j<8. j \<noteq> 2 \<longrightarrow> fd_at t (get_pcb_addr 1) j = fd_at s (get_pcb_addr 1) j)"
    by (rule grep_prints_matches [OF s(1) ctx _ _ _ free _ behind text_names_end text_directory text_img_words(2)])
      (use text_lookup text_file_bytes short in \<open>simp_all add: nm, simp_all add: str_def demo_lines_def\<close>)
  moreover have "echo (str ''hi:say hi'' @ [10]) = str ''hi:say hi'' @ [10]" by (simp add: echo_def str_def)
  ultimately show ?thesis unfolding out by auto
qed

end
