(* ===== verification/Tux.thy ===== *)
theory Tux
  imports CLib Fifo
begin

text \<open>
  The driver of the Tux controller (mp2/module): the line discipline of tuxctl-ld.c with its two
  ring buffers and the framing of the packets, and the protocol of tuxctl-ioctl.c on top of it.

  The serial driver below is known by what it is asked: \<open>write_room\<close> is the room it reports
  before its \<open>k\<close>-th write, \<open>written\<close> the list of the writes. \<open>copy_to_user\<close> is an argument of the
  operation that uses it, and so is the memory that \<open>kmalloc\<close> returns. The spinlocks serialise
  the operations, which are atomic here. A null pointer or an index outside a buffer is \<open>None\<close>.
\<close>

unbundle bit_operations_syntax

subsection \<open>The protocol (mtcp.h, tuxctl-ioctl.h)\<close>

definition MTCP_RESP :: "u32 \<Rightarrow> u32" where
  "MTCP_RESP n = ((n AND 7) OR push_bit 1 (n AND 0x18)) OR 0x40"

definition MTCP_CMD :: "u8 \<Rightarrow> u8" where
  "MTCP_CMD c = 0xC0 OR c"

abbreviation (input) MTCP_ACK :: u32 where "MTCP_ACK \<equiv> MTCP_RESP 0x0"
abbreviation (input) MTCP_BIOC_EVENT :: u32 where "MTCP_BIOC_EVENT \<equiv> MTCP_RESP 0x1"
abbreviation (input) MTCP_RESET :: u32 where "MTCP_RESET \<equiv> MTCP_RESP 0x6"
abbreviation (input) MTCP_BIOC_ON :: u8 where "MTCP_BIOC_ON \<equiv> MTCP_CMD 0x3"
abbreviation (input) MTCP_LED_SET :: u8 where "MTCP_LED_SET \<equiv> MTCP_CMD 0x6"
abbreviation (input) MTCP_LED_USR :: u8 where "MTCP_LED_USR \<equiv> MTCP_CMD 0x8"

abbreviation (input) NUM_LEDS :: nat where "NUM_LEDS \<equiv> 4"
abbreviation (input) DP_SHIFT :: nat where "DP_SHIFT \<equiv> 24"
abbreviation (input) WHICH_LEDS_SHIFT :: nat where "WHICH_LEDS_SHIFT \<equiv> 16"
abbreviation (input) MASK_LAST_4 :: u32 where "MASK_LAST_4 \<equiv> 0xf"
abbreviation (input) MASK_LAST_BIT :: u32 where "MASK_LAST_BIT \<equiv> 0x1"
abbreviation (input) CLEAR_LAST_BYTE :: u32 where "CLEAR_LAST_BYTE \<equiv> 0xFFFFFF00"
abbreviation (input) DP_MASK :: u8 where "DP_MASK \<equiv> 0x10"
abbreviation (input) D_MASK :: u32 where "D_MASK \<equiv> 0x4"
abbreviation (input) L_MASK :: u32 where "L_MASK \<equiv> 0x2"
abbreviation (input) R00U_MASK :: u32 where "R00U_MASK \<equiv> 0x9"

text \<open>The requests of \<open>ioctl\<close>, by name: their numbers are made by macros of the system.\<close>

datatype tux_cmd = TUX_SET_LED | TUX_READ_LED | TUX_BUTTONS | TUX_INIT | TUX_LED_REQUEST | TUX_LED_ACK
  | Other_cmd u32

datatype errno = EINVAL | ENOMEM

subsection \<open>The state\<close>

abbreviation (input) TUXCTL_MAGIC :: u32 where "TUXCTL_MAGIC \<equiv> 0x74757863"
abbreviation (input) TUXCTL_BUFSIZE :: nat where "TUXCTL_BUFSIZE \<equiv> 64"

record tuxctl_ldisc_data =
  magic :: u32
  rx_buf :: "u8 list"
  rx_start :: nat
  rx_end :: nat
  tx_buf :: "u8 list"
  tx_start :: nat
  tx_end :: nat

text \<open>The variables of tuxctl-ioctl.c, the data of the line discipline (\<open>tty->disc_data\<close>, \<open>None\<close>
  for a null pointer), the leftover bytes of the callback (\<open>saved\<close>, its first \<open>n_saved\<close> bytes),
  the serial driver and the memory of the user.\<close>

record 'u tux =
  ack :: int
  LED_values :: u32
  packetC :: u32
  packetB :: u32
  disc_data :: "tuxctl_ldisc_data option"
  saved :: "u8 list"
  write_room :: "nat \<Rightarrow> int"
  written :: "u8 list list"
  user_mem :: 'u

subsection \<open>The line discipline\<close>

definition buf_empty :: "nat \<Rightarrow> nat \<Rightarrow> bool" where
  "buf_empty a b \<longleftrightarrow> a = b"

definition buf_full :: "nat \<Rightarrow> nat \<Rightarrow> bool" where
  "buf_full a b \<longleftrightarrow> (b + 1) mod TUXCTL_BUFSIZE = a"

definition buf_incidx :: "nat \<Rightarrow> nat" where
  "buf_incidx i = (i + 1) mod TUXCTL_BUFSIZE"

text \<open>\<open>kmalloc\<close> gives a block with arbitrary contents, or nothing.\<close>

definition tuxctl_ldisc_open :: "tuxctl_ldisc_data option \<Rightarrow> 'u tux \<Rightarrow> (errno + unit) \<times> 'u tux" where
  "tuxctl_ldisc_open block s =
     (case block of
        None \<Rightarrow> (Inl ENOMEM, s)
      | Some d \<Rightarrow> (Inr (), s\<lparr>disc_data := Some (d\<lparr>magic := TUXCTL_MAGIC, rx_start := 0, rx_end := 0,
                                              tx_start := 0, tx_end := 0\<rparr>)\<rparr>))"

definition tuxctl_ldisc_close :: "'u tux \<Rightarrow> 'u tux" where
  "tuxctl_ldisc_close s = s\<lparr>disc_data := None\<rparr>"

text \<open>The loop of \<open>write_wakeup\<close>; \<open>out\<close> is the local buffer, of 64 bytes.\<close>

function wakeup_loop :: "int \<Rightarrow> u8 list \<Rightarrow> tuxctl_ldisc_data \<Rightarrow> (u8 list \<times> tuxctl_ldisc_data) option" where
  "wakeup_loop room out d =
     (if int (length out) \<le> room \<and> \<not> buf_empty (tx_start d) (tx_end d) then
        if length out < TUXCTL_BUFSIZE then do {
          b \<leftarrow> arr_get (tx_buf d) (int (tx_start d));
          wakeup_loop room (out @ [b]) (d\<lparr>tx_start := buf_incidx (tx_start d)\<rparr>)
        } else None
      else Some (out, d))"
  by pat_completeness auto
termination by (relation "measure (\<lambda>(room, out, d). TUXCTL_BUFSIZE - length out)") auto

declare wakeup_loop.simps [simp del]

definition tuxctl_ldisc_write_wakeup :: "'u tux \<Rightarrow> 'u tux option" where
  "tuxctl_ldisc_write_wakeup s = do {
     let room = write_room s (length (written s));
     d \<leftarrow> disc_data s;
     (buf, d) \<leftarrow> wakeup_loop room [] d;
     Some (s\<lparr>disc_data := Some d, written := written s @ [buf]\<rparr>)
   }"

fun get_loop :: "nat \<Rightarrow> u8 list \<Rightarrow> tuxctl_ldisc_data \<Rightarrow> (u8 list \<times> tuxctl_ldisc_data) option" where
  "get_loop 0 out d = Some (out, d)"
| "get_loop (Suc n) out d =
     (if buf_empty (rx_start d) (rx_end d) then Some (out, d)
      else do {
        b \<leftarrow> arr_get (rx_buf d) (int (rx_start d));
        get_loop n (out @ [b]) (d\<lparr>rx_start := buf_incidx (rx_start d)\<rparr>)
      })"

text \<open>The bytes read; their number is the result of the function.\<close>

definition tuxctl_ldisc_get :: "int \<Rightarrow> 'u tux \<Rightarrow> (u8 list \<times> 'u tux) option" where
  "tuxctl_ldisc_get n s = do {
     d \<leftarrow> disc_data s;
     (out, d) \<leftarrow> get_loop (nat n) [] d;
     Some (out, s\<lparr>disc_data := Some d\<rparr>)
   }"

fun put_loop :: "u8 list \<Rightarrow> tuxctl_ldisc_data \<Rightarrow> (u8 list \<times> tuxctl_ldisc_data) option" where
  "put_loop [] d = Some ([], d)"
| "put_loop (b # bs) d =
     (if buf_full (tx_start d) (tx_end d) then Some (b # bs, d)
      else do {
        buf \<leftarrow> arr_set (tx_buf d) (int (tx_end d)) b;
        put_loop bs (d\<lparr>tx_buf := buf, tx_end := buf_incidx (tx_end d)\<rparr>)
      })"

definition tuxctl_ldisc_put :: "u8 list \<Rightarrow> 'u tux \<Rightarrow> (nat \<times> 'u tux) option" where
  "tuxctl_ldisc_put buf s = do {
     d \<leftarrow> disc_data s;
     (rest, d) \<leftarrow> put_loop buf d;
     s \<leftarrow> tuxctl_ldisc_write_wakeup (s\<lparr>disc_data := Some d\<rparr>);
     Some (length rest, s)
   }"

subsection \<open>The requests\<close>

definition ledHEX :: "u8 list" where
  "ledHEX = [0xe7, 0x06, 0xcb, 0x8f, 0x2e, 0xad, 0xed, 0x86, 0xef, 0xae, 0xee, 0x6d, 0xe1, 0x4f, 0xe9, 0xe8]"

definition ioctl_tux_init :: "'u tux \<Rightarrow> 'u tux option" where
  "ioctl_tux_init s = map_option snd (tuxctl_ldisc_put [MTCP_LED_USR, MTCP_BIOC_ON] s)"

text \<open>The loop over the LEDs, from \<open>i\<close> on for \<open>k\<close> more.\<close>

fun led_loop :: "u32 \<Rightarrow> nat \<Rightarrow> nat \<Rightarrow> u8 list \<Rightarrow> u8 list" where
  "led_loop arg i 0 buf = buf"
| "led_loop arg i (Suc k) buf =
     (let status = drop_bit (WHICH_LEDS_SHIFT + i) arg AND MASK_LAST_BIT
      in led_loop arg (i + 1) k
        (if status = 1 then
           let num = drop_bit (i * NUM_LEDS) arg AND MASK_LAST_4;
               b = ledHEX ! unat num;
               dp_loc = drop_bit (DP_SHIFT + i) arg AND MASK_LAST_BIT
           in buf @ [if dp_loc \<noteq> 0 then b OR DP_MASK else b]
         else buf))"

definition led_packet :: "u32 \<Rightarrow> u8 list" where
  "led_packet arg =
     led_loop arg 0 NUM_LEDS [MTCP_LED_SET, ucast (drop_bit WHICH_LEDS_SHIFT arg AND MASK_LAST_4)]"

definition ioctl_tux_leds :: "u32 \<Rightarrow> 'u tux \<Rightarrow> 'u tux option" where
  "ioctl_tux_leds arg s =
     (let s = s\<lparr>LED_values := arg\<rparr>
      in if ack s \<noteq> 0 then map_option snd (tuxctl_ldisc_put (led_packet arg) (s\<lparr>ack := 0\<rparr>)) else Some s)"

definition button_byte :: "u32 \<Rightarrow> u32 \<Rightarrow> u32" where
  "button_byte pb pc =
     (let d = drop_bit 1 (pc AND D_MASK);
          l = push_bit 1 (pc AND L_MASK);
          r00u = pc AND R00U_MASK;
          newByte = ((r00u OR d) OR l) AND MASK_LAST_4;
          newByte = push_bit 4 newByte
      in newByte OR (pb AND MASK_LAST_4))"

definition ioctl_tux_buttons :: "(u32 \<Rightarrow> u8 list \<Rightarrow> 'u \<Rightarrow> 'u) \<Rightarrow> u32 \<Rightarrow> 'u tux \<Rightarrow> 'u tux" where
  "ioctl_tux_buttons copy_to_user arg s =
     (let newArg = (arg AND CLEAR_LAST_BYTE) OR button_byte (packetB s) (packetC s)
      in s\<lparr>user_mem := copy_to_user arg (dword_bytes newArg) (user_mem s)\<rparr>)"

definition tuxctl_ioctl :: "(u32 \<Rightarrow> u8 list \<Rightarrow> 'u \<Rightarrow> 'u) \<Rightarrow> tux_cmd \<Rightarrow> u32 \<Rightarrow> 'u tux
    \<Rightarrow> ((errno + unit) \<times> 'u tux) option" where
  "tuxctl_ioctl copy_to_user cmd arg s =
     (case cmd of
        TUX_INIT \<Rightarrow> map_option (\<lambda>s. (Inr (), s)) (ioctl_tux_init s)
      | TUX_BUTTONS \<Rightarrow>
          if arg = 0 then Some (Inl EINVAL, s) else Some (Inr (), ioctl_tux_buttons copy_to_user arg s)
      | TUX_SET_LED \<Rightarrow> map_option (\<lambda>s. (Inr (), s)) (ioctl_tux_leds arg s)
      | _ \<Rightarrow> Some (Inl EINVAL, s))"

subsection \<open>The responses\<close>

definition response_reset :: "'u tux \<Rightarrow> 'u tux option" where
  "response_reset s = do { s \<leftarrow> ioctl_tux_init s; ioctl_tux_leds (LED_values s) s }"

definition response_ack :: "'u tux \<Rightarrow> 'u tux" where
  "response_ack s = s\<lparr>ack := 1\<rparr>"

definition response_bioc :: "u32 \<Rightarrow> u32 \<Rightarrow> 'u tux \<Rightarrow> 'u tux" where
  "response_bioc b c s = s\<lparr>packetC := NOT c AND MASK_LAST_4, packetB := NOT b AND MASK_LAST_4\<rparr>"

fun tuxctl_handle_packet :: "u8 \<times> u8 \<times> u8 \<Rightarrow> 'u tux \<Rightarrow> 'u tux option" where
  "tuxctl_handle_packet (p0, p1, p2) s =
     (let a = ucast p0; b = ucast p1; c = ucast p2
      in if a = MTCP_RESET then response_reset s
         else if a = MTCP_ACK then Some (response_ack s)
         else if a = MTCP_BIOC_EVENT then Some (response_bioc b c s)
         else Some s)"

subsection \<open>Receiving\<close>

text \<open>The framing bits of three bytes in a row.\<close>

definition framed :: "u8 \<Rightarrow> u8 \<Rightarrow> u8 \<Rightarrow> bool" where
  "framed p0 p1 p2 \<longleftrightarrow> p0 AND 0x80 = 0 \<and> p1 AND 0x80 \<noteq> 0 \<and> p2 AND 0x80 \<noteq> 0"

text \<open>The loop of the callback over the rest of \<open>packet\<close>; what remains when fewer than three
  bytes are left is saved for the next time.\<close>

fun packet_loop :: "u8 list \<Rightarrow> 'u tux \<Rightarrow> (u8 list \<times> 'u tux) option" where
  "packet_loop (p0 # p1 # p2 # ps) s =
     (if framed p0 p1 p2 then do { s \<leftarrow> tuxctl_handle_packet (p0, p1, p2) s; packet_loop ps s }
      else packet_loop (p1 # p2 # ps) s)"
| "packet_loop ps s = Some (ps, s)"

definition tuxctl_ldisc_data_callback :: "'u tux \<Rightarrow> 'u tux option" where
  "tuxctl_ldisc_data_callback s = do {
     (bytes, s) \<leftarrow> tuxctl_ldisc_get (12 - int (length (saved s))) s;
     (rest, s) \<leftarrow> packet_loop (saved s @ bytes) s;
     Some (s\<lparr>saved := rest\<rparr>)
   }"

fun rcv_loop :: "u8 list \<Rightarrow> tuxctl_ldisc_data \<Rightarrow> tuxctl_ldisc_data option" where
  "rcv_loop [] d = Some d"
| "rcv_loop (b # bs) d =
     (if buf_full (rx_start d) (rx_end d) then Some d
      else do {
        buf \<leftarrow> arr_set (rx_buf d) (int (rx_end d)) b;
        rcv_loop bs (d\<lparr>rx_buf := buf, rx_end := buf_incidx (rx_end d)\<rparr>)
      })"

definition tuxctl_ldisc_rcv_buf :: "u8 list \<Rightarrow> 'u tux \<Rightarrow> 'u tux option" where
  "tuxctl_ldisc_rcv_buf cp s =
     (case disc_data s of
        None \<Rightarrow> Some s
      | Some d \<Rightarrow> do {
          d \<leftarrow> rcv_loop cp d;
          tuxctl_ldisc_data_callback (s\<lparr>disc_data := Some d\<rparr>)
        })"

end
