(* ===== verification/TuxProps.thy ===== *)
theory TuxProps
  imports Tux
begin

text \<open>
  What the Tux driver does: both ring buffers are queues, bytes are sent in the order they were
  put, the packets that are handled depend on the stream of bytes alone, and the formats of the
  LED command and of the button byte.
\<close>

subsection \<open>The queues\<close>

definition ldisc_ok :: "tuxctl_ldisc_data \<Rightarrow> bool" where
  "ldisc_ok d \<longleftrightarrow> length (rx_buf d) = TUXCTL_BUFSIZE \<and> length (tx_buf d) = TUXCTL_BUFSIZE \<and>
     ring_ok (rx_buf d) (rx_start d) (rx_end d) \<and> ring_ok (tx_buf d) (tx_start d) (tx_end d)"

definition rx :: "tuxctl_ldisc_data \<Rightarrow> u8 list" where
  "rx d = ring_list (rx_buf d) (rx_start d) (rx_end d)"

definition tx :: "tuxctl_ldisc_data \<Rightarrow> u8 list" where
  "tx d = ring_list (tx_buf d) (tx_start d) (tx_end d)"

definition rx_push :: "u8 \<Rightarrow> tuxctl_ldisc_data \<Rightarrow> tuxctl_ldisc_data" where
  "rx_push b d = d\<lparr>rx_buf := (rx_buf d)[rx_end d := b], rx_end := buf_incidx (rx_end d)\<rparr>"

definition rx_pop :: "tuxctl_ldisc_data \<Rightarrow> tuxctl_ldisc_data" where
  "rx_pop d = d\<lparr>rx_start := buf_incidx (rx_start d)\<rparr>"

definition tx_push :: "u8 \<Rightarrow> tuxctl_ldisc_data \<Rightarrow> tuxctl_ldisc_data" where
  "tx_push b d = d\<lparr>tx_buf := (tx_buf d)[tx_end d := b], tx_end := buf_incidx (tx_end d)\<rparr>"

definition tx_pop :: "tuxctl_ldisc_data \<Rightarrow> tuxctl_ldisc_data" where
  "tx_pop d = d\<lparr>tx_start := buf_incidx (tx_start d)\<rparr>"

lemma rx_room: "ldisc_ok d \<Longrightarrow> buf_full (rx_start d) (rx_end d) = (length (rx d) = 63) \<and> length (rx d) \<le> 63"
  using ring_full [of "rx_buf d" "rx_start d" "rx_end d"] ring_used_mod [of "rx_start d" 64 "rx_end d"]
  by (auto simp: ldisc_ok_def rx_def buf_full_def ring_ok_def)

lemma tx_room: "ldisc_ok d \<Longrightarrow> buf_full (tx_start d) (tx_end d) = (length (tx d) = 63) \<and> length (tx d) \<le> 63"
  using ring_full [of "tx_buf d" "tx_start d" "tx_end d"] ring_used_mod [of "tx_start d" 64 "tx_end d"]
  by (auto simp: ldisc_ok_def tx_def buf_full_def ring_ok_def)

lemma rx_empty: "ldisc_ok d \<Longrightarrow> buf_empty (rx_start d) (rx_end d) = (rx d = [])"
  using ring_list_empty [of "rx_buf d" "rx_start d" "rx_end d"] by (simp add: ldisc_ok_def rx_def buf_empty_def)

lemma tx_empty: "ldisc_ok d \<Longrightarrow> buf_empty (tx_start d) (tx_end d) = (tx d = [])"
  using ring_list_empty [of "tx_buf d" "tx_start d" "tx_end d"] by (simp add: ldisc_ok_def tx_def buf_empty_def)

lemma rx_push_ok:
  assumes "ldisc_ok d" "length (rx d) < 63"
  shows "arr_set (rx_buf d) (int (rx_end d)) b = Some (rx_buf (rx_push b d))" "ldisc_ok (rx_push b d)"
    "rx (rx_push b d) = rx d @ [b]" "tx (rx_push b d) = tx d"
  using rx_room [OF assms(1)] ring_push [of "rx_buf d" "rx_start d" "rx_end d" b] assms
  by (auto simp: ldisc_ok_def rx_def tx_def rx_push_def buf_full_def buf_incidx_def ring_ok_def)

lemma tx_push_ok:
  assumes "ldisc_ok d" "length (tx d) < 63"
  shows "arr_set (tx_buf d) (int (tx_end d)) b = Some (tx_buf (tx_push b d))" "ldisc_ok (tx_push b d)"
    "tx (tx_push b d) = tx d @ [b]" "rx (tx_push b d) = rx d"
  using tx_room [OF assms(1)] ring_push [of "tx_buf d" "tx_start d" "tx_end d" b] assms
  by (auto simp: ldisc_ok_def rx_def tx_def tx_push_def buf_full_def buf_incidx_def ring_ok_def)

lemma rx_pop_ok:
  assumes "ldisc_ok d" "rx d = b # bs"
  shows "arr_get (rx_buf d) (int (rx_start d)) = Some b" "ldisc_ok (rx_pop d)"
    "rx (rx_pop d) = bs" "tx (rx_pop d) = tx d"
  using rx_empty [OF assms(1)] ring_pop [of "rx_buf d" "rx_start d" "rx_end d"] assms
  by (auto simp: ldisc_ok_def rx_def tx_def rx_pop_def buf_empty_def buf_incidx_def ring_ok_def)

lemma tx_pop_ok:
  assumes "ldisc_ok d" "tx d = b # bs"
  shows "arr_get (tx_buf d) (int (tx_start d)) = Some b" "ldisc_ok (tx_pop d)"
    "tx (tx_pop d) = bs" "rx (tx_pop d) = rx d"
  using tx_empty [OF assms(1)] ring_pop [of "tx_buf d" "tx_start d" "tx_end d"] assms
  by (auto simp: ldisc_ok_def rx_def tx_def tx_pop_def buf_empty_def buf_incidx_def ring_ok_def)

text \<open>Both directions are bounded queues of bytes.\<close>

interpretation rx_fifo: byte_fifo ldisc_ok rx 63 "fold rx_push" "\<lambda>d. if rx d = [] then d else rx_pop d"
proof unfold_locales
  fix d and bs :: "u8 list" assume "ldisc_ok d" "length (rx d) + length bs \<le> 63"
  then show "ldisc_ok (fold rx_push bs d) \<and> rx (fold rx_push bs d) = rx d @ bs"
    by (induction bs arbitrary: d) (simp_all add: rx_push_ok)
next
  fix d assume "ldisc_ok d"
  then show "ldisc_ok (if rx d = [] then d else rx_pop d) \<and> rx (if rx d = [] then d else rx_pop d) = tl (rx d)"
    using rx_pop_ok [of d "hd (rx d)" "tl (rx d)"] by (cases "rx d") simp_all
qed

interpretation tx_fifo: byte_fifo ldisc_ok tx 63 "fold tx_push" "\<lambda>d. if tx d = [] then d else tx_pop d"
proof unfold_locales
  fix d and bs :: "u8 list" assume "ldisc_ok d" "length (tx d) + length bs \<le> 63"
  then show "ldisc_ok (fold tx_push bs d) \<and> tx (fold tx_push bs d) = tx d @ bs"
    by (induction bs arbitrary: d) (simp_all add: tx_push_ok)
next
  fix d assume "ldisc_ok d"
  then show "ldisc_ok (if tx d = [] then d else tx_pop d) \<and> tx (if tx d = [] then d else tx_pop d) = tl (tx d)"
    using tx_pop_ok [of d "hd (tx d)" "tl (tx d)"] by (cases "tx d") simp_all
qed

subsection \<open>The loops over the queues\<close>

lemma put_loop_eq:
  "ldisc_ok d \<Longrightarrow> put_loop bs d =
     (let k = min (length bs) (63 - length (tx d)) in Some (drop k bs, fold tx_push (take k bs) d))"
proof (induction bs arbitrary: d)
  case (Cons b bs)
  show ?case
  proof (cases "length (tx d) = 63")
    case True
    then show ?thesis using tx_room [OF Cons.prems] by (simp add: Let_def)
  next
    case False
    then have r: "length (tx d) < 63" using tx_room [OF Cons.prems] by simp
    have "put_loop (b # bs) d = put_loop bs (tx_push b d)"
      using tx_room [OF Cons.prems] False tx_push_ok(1) [OF Cons.prems r, of b] by (simp add: tx_push_def)
    moreover have "63 - length (tx d) = Suc (62 - length (tx d))" using r by simp
    ultimately show ?thesis
      using Cons.IH [OF tx_push_ok(2) [OF Cons.prems r]] tx_push_ok(3) [OF Cons.prems r] by (simp add: Let_def)
  qed
qed simp

lemma wakeup_loop_eq:
  "ldisc_ok d \<Longrightarrow> length out + length (tx d) \<le> 64 \<Longrightarrow>
     \<exists>d'. wakeup_loop room out d = Some (out @ take (nat (room + 1 - int (length out))) (tx d), d') \<and>
       ldisc_ok d' \<and> tx d' = drop (nat (room + 1 - int (length out))) (tx d) \<and> rx d' = rx d"
proof (induction room out d rule: wakeup_loop.induct)
  case (1 room out d)
  show ?case
  proof (cases "int (length out) \<le> room \<and> tx d \<noteq> []")
    case False
    then have "\<not> (int (length out) \<le> room \<and> \<not> buf_empty (tx_start d) (tx_end d))"
      using tx_empty [OF "1.prems"(1)] by simp
    then have "wakeup_loop room out d = Some (out, d)" by (subst wakeup_loop.simps) (rule if_not_P)
    then show ?thesis using False "1.prems"(1) by (cases "tx d") auto
  next
    case True
    then obtain b bs where tx: "tx d = b # bs" by (cases "tx d") auto
    note p = tx_pop_ok [OF "1.prems"(1) tx]
    have lo: "length out < 64" using "1.prems"(2) tx by simp
    have step: "wakeup_loop room out d = wakeup_loop room (out @ [b]) (tx_pop d)"
      using True tx_empty [OF "1.prems"(1)] p(1) lo
      by (subst wakeup_loop.simps) (simp add: tx_pop_def)
    have c: "int (length out) \<le> room \<and> \<not> buf_empty (tx_start d) (tx_end d)"
      using True tx_empty [OF "1.prems"(1)] by simp
    have "ldisc_ok (d\<lparr>tx_start := buf_incidx (tx_start d)\<rparr>)"
      "length (out @ [b]) + length (tx (d\<lparr>tx_start := buf_incidx (tx_start d)\<rparr>)) \<le> 64"
      using p "1.prems"(2) tx by (simp_all add: tx_pop_def)
    from "1.IH" [OF c lo p(1) this] step p(3,4) tx True
    have ih: "\<exists>d'. wakeup_loop room out d = Some ((out @ [b]) @ take (nat (room + 1 - int (length (out @ [b])))) bs, d') \<and>
       ldisc_ok d' \<and> tx d' = drop (nat (room + 1 - int (length (out @ [b])))) bs \<and> rx d' = rx d"
      by (simp add: tx_pop_def)
    have "nat (room + 1 - int (length out)) = Suc (nat (room + 1 - int (length (out @ [b]))))"
      using True by simp linarith
    then show ?thesis using ih tx by (simp del: length_append)
  qed
qed

lemma get_loop_eq:
  "ldisc_ok d \<Longrightarrow> \<exists>d'. get_loop n out d = Some (out @ take n (rx d), d') \<and>
     ldisc_ok d' \<and> rx d' = drop n (rx d) \<and> tx d' = tx d"
proof (induction n arbitrary: out d)
  case (Suc n)
  show ?case
  proof (cases "rx d")
    case Nil
    then show ?thesis using rx_empty [OF Suc.prems] Suc.prems by simp
  next
    case (Cons b bs)
    note p = rx_pop_ok [OF Suc.prems Cons]
    show ?thesis using Suc.IH [OF p(2), of "out @ [b]"] p rx_empty [OF Suc.prems] Cons
      by (simp add: rx_pop_def)
  qed
qed simp

lemma rcv_loop_eq:
  "ldisc_ok d \<Longrightarrow> length (rx d) + length bs \<le> 63 \<Longrightarrow> rcv_loop bs d = Some (fold rx_push bs d)"
proof (induction bs arbitrary: d)
  case (Cons b bs)
  have r: "length (rx d) < 63" using Cons.prems by simp
  show ?case
    using Cons.IH [OF rx_push_ok(2) [OF Cons.prems(1) r]] rx_push_ok [OF Cons.prems(1) r]
      rx_room [OF Cons.prems(1)] Cons.prems(2)
    by (simp add: rx_push_def)
qed simp

subsection \<open>The controller as its users see it\<close>

text \<open>The state of the driver without its ring buffers: what waits to be sent is a list, and a
  put queues what fits into 63 bytes and hands the serial driver its next write.\<close>

record port =
  p_ack :: bool
  p_leds :: u32
  p_buttons :: "u32 \<times> u32"
  p_pending :: "u8 list"
  p_written :: "u8 list list"
  p_room :: "nat \<Rightarrow> int"

definition port_put :: "u8 list \<Rightarrow> port \<Rightarrow> port" where
  "port_put bs a =
     (let q = p_pending a @ take (63 - length (p_pending a)) bs;
          m = nat (p_room a (length (p_written a)) + 1)
      in a\<lparr>p_pending := drop m q, p_written := p_written a @ [take m q]\<rparr>)"

definition port_init :: "port \<Rightarrow> port" where
  "port_init = port_put [0xC8, 0xC3]"

definition port_leds :: "u32 \<Rightarrow> port \<Rightarrow> port" where
  "port_leds arg a =
     (if p_ack a then port_put (led_packet arg) (a\<lparr>p_leds := arg, p_ack := False\<rparr>) else a\<lparr>p_leds := arg\<rparr>)"

fun port_packet :: "u8 \<times> u8 \<times> u8 \<Rightarrow> port \<Rightarrow> port" where
  "port_packet (op, b, c) a =
     (if op = 0x46 then port_leds (p_leds a) (port_init a)
      else if op = 0x40 then a\<lparr>p_ack := True\<rparr>
      else if op = 0x41 then a\<lparr>p_buttons := (NOT (ucast b) AND 0xF, NOT (ucast c) AND 0xF)\<rparr>
      else a)"

definition tux_ok :: "'u tux \<Rightarrow> bool" where
  "tux_ok s \<longleftrightarrow> (\<exists>d. disc_data s = Some d \<and> ldisc_ok d)"

definition incoming :: "'u tux \<Rightarrow> u8 list" where
  "incoming s = rx (the (disc_data s))"

definition port_of :: "'u tux \<Rightarrow> port" where
  "port_of s = \<lparr>p_ack = (ack s \<noteq> 0), p_leds = LED_values s, p_buttons = (packetB s, packetC s),
     p_pending = tx (the (disc_data s)), p_written = written s, p_room = write_room s\<rparr>"

text \<open>One operation of the driver against one of the port.\<close>

definition implements :: "(port \<Rightarrow> port) \<Rightarrow> 'u tux \<Rightarrow> 'u tux \<Rightarrow> bool" where
  "implements f s t \<longleftrightarrow> tux_ok t \<and> port_of t = f (port_of s) \<and> incoming t = incoming s \<and>
     saved t = saved s \<and> user_mem t = user_mem s"

lemma implements_trans: "implements f s t \<Longrightarrow> implements g t u \<Longrightarrow> implements (\<lambda>a. g (f a)) s u"
  by (simp add: implements_def)

lemma port_of_leds: "p_leds (port_of s) = LED_values s"
  by (simp add: port_of_def)

lemma ldisc_put_port:
  assumes "tux_ok s"
  shows "\<exists>t. tuxctl_ldisc_put bs s = Some (length bs - (63 - length (p_pending (port_of s))), t) \<and>
    implements (port_put bs) s t"
proof -
  obtain d where d: "disc_data s = Some d" "ldisc_ok d" using assms by (auto simp: tux_ok_def)
  let ?r = "63 - length (tx d)"
  let ?d = "fold tx_push (take ?r bs) d" and ?room = "write_room s (length (written s))"
  have le: "length (tx d) \<le> 63" using tx_room [OF d(2)] by simp
  have mn: "take (min (length bs) ?r) bs = take ?r bs" "drop (min (length bs) ?r) bs = drop ?r bs"
    by (simp_all add: min_def)
  have put: "put_loop bs d = Some (drop ?r bs, ?d)" using put_loop_eq [OF d(2), of bs] by (simp only: Let_def mn)
  have q: "ldisc_ok ?d \<and> tx ?d = tx d @ take ?r bs" by (rule tx_fifo.enq_room [OF d(2)]) (use le in simp)
  have "rx (fold tx_push cs e) = rx e" if "ldisc_ok e" "length (tx e) + length cs \<le> 63" for cs e
    using that by (induction cs arbitrary: e) (simp_all add: tx_push_ok)
  then have rx: "rx ?d = rx d" using d(2) le by simp
  let ?m = "nat (?room + 1 - int (length ([] :: u8 list)))"
  have len: "length ([] :: u8 list) + length (tx ?d) \<le> 64" using q le by simp
  obtain d' where d': "wakeup_loop ?room [] ?d = Some ([] @ take ?m (tx ?d), d')"
    "ldisc_ok d'" "tx d' = drop ?m (tx ?d)" "rx d' = rx ?d"
    using wakeup_loop_eq [OF conjunct1 [OF q] len, of ?room] by blast
  have "tuxctl_ldisc_put bs s = Some (length bs - ?r,
      s\<lparr>disc_data := Some d', written := written s @ [take (nat (?room + 1)) (tx ?d)]\<rparr>)"
    using d(1) put d'(1) by (simp add: tuxctl_ldisc_put_def tuxctl_ldisc_write_wakeup_def)
  then show ?thesis
    using d(1) d'(2-4) q rx
    by (simp add: implements_def tux_ok_def port_of_def port_put_def incoming_def Let_def)
qed

lemma implements_update:
  "tux_ok s \<Longrightarrow> implements (\<lambda>a. a\<lparr>p_ack := v \<noteq> 0\<rparr>) s (s\<lparr>ack := v\<rparr>)"
  "tux_ok s \<Longrightarrow> implements (\<lambda>a. a\<lparr>p_leds := w\<rparr>) s (s\<lparr>LED_values := w\<rparr>)"
  "tux_ok s \<Longrightarrow> implements (\<lambda>a. a\<lparr>p_buttons := (b, c)\<rparr>) s (s\<lparr>packetC := c, packetB := b\<rparr>)"
  by (simp_all add: implements_def tux_ok_def port_of_def incoming_def)

lemma ioctl_tux_init_port:
  "tux_ok s \<Longrightarrow> \<exists>t. ioctl_tux_init s = Some t \<and> implements port_init s t"
  using ldisc_put_port [of s "[0xC8, 0xC3]"] by (auto simp: ioctl_tux_init_def MTCP_CMD_def port_init_def)

lemma ioctl_tux_leds_port:
  assumes "tux_ok s" shows "\<exists>t. ioctl_tux_leds arg s = Some t \<and> implements (port_leds arg) s t"
proof -
  let ?s = "s\<lparr>LED_values := arg\<rparr>"
  have i: "implements (\<lambda>a. a\<lparr>p_leds := arg\<rparr>) s ?s" by (rule implements_update(2) [OF assms])
  show ?thesis
  proof (cases "ack s \<noteq> 0")
    case False
    then have "port_leds arg (port_of s) = (port_of s)\<lparr>p_leds := arg\<rparr>" by (simp add: port_leds_def port_of_def)
    then show ?thesis using False i by (simp add: ioctl_tux_leds_def implements_def)
  next
    case True
    have ok: "tux_ok (?s\<lparr>ack := 0\<rparr>)" using assms by (simp add: tux_ok_def)
    obtain n t where t: "tuxctl_ldisc_put (led_packet arg) (?s\<lparr>ack := 0\<rparr>) = Some (n, t)"
      "implements (port_put (led_packet arg)) (?s\<lparr>ack := 0\<rparr>) t"
      using ldisc_put_port [OF ok] by blast
    have "port_of (?s\<lparr>ack := 0\<rparr>) = (port_of s)\<lparr>p_leds := arg, p_ack := False\<rparr>"
      "incoming (?s\<lparr>ack := 0\<rparr>) = incoming s" "p_ack (port_of s)"
      using True by (simp_all add: port_of_def incoming_def)
    then show ?thesis using t True by (simp add: ioctl_tux_leds_def implements_def port_leds_def)
  qed
qed

lemma ucast_u8_eq: "(ucast (a :: u8) = (ucast (b :: u8) :: u32)) = (a = b)"
proof
  assume eq: "ucast a = (ucast b :: u32)"
  show "a = b"
  proof (rule bit_word_eqI)
    fix n :: nat assume "n < LENGTH(8)"
    moreover have "bit (ucast a :: u32) n = bit (ucast b :: u32) n" using eq by simp
    ultimately show "bit a n = bit b n" by (simp add: bit_ucast_iff)
  qed
qed simp

lemma handle_packet_port:
  assumes "tux_ok s" shows "\<exists>t. tuxctl_handle_packet p s = Some t \<and> implements (port_packet p) s t"
proof -
  obtain op b c where p: "p = (op, b, c)" by (cases p) auto
  have op: "(ucast op = (0x46 :: u32)) = (op = 0x46)" "(ucast op = (0x40 :: u32)) = (op = 0x40)"
    "(ucast op = (0x41 :: u32)) = (op = 0x41)"
    using ucast_u8_eq [of op "0x46"] ucast_u8_eq [of op "0x40"] ucast_u8_eq [of op "0x41"] by simp_all
  have codes: "MTCP_RESET = 0x46" "MTCP_ACK = 0x40" "MTCP_BIOC_EVENT = 0x41" by (simp_all add: MTCP_RESP_def)
  consider "op = 0x46" | "op = 0x40" | "op = 0x41" | "op \<notin> {0x46, 0x40, 0x41}" by blast
  then show ?thesis
  proof cases
    case 1
    obtain t where t: "ioctl_tux_init s = Some t" "implements port_init s t" using ioctl_tux_init_port [OF assms] by blast
    then have tok: "tux_ok t" by (simp add: implements_def)
    obtain u where u: "ioctl_tux_leds (LED_values t) t = Some u" "implements (port_leds (LED_values t)) t u"
      using ioctl_tux_leds_port [OF tok] by blast
    have "p_leds (port_of t) = p_leds (port_init (port_of s))" using t(2) by (simp add: implements_def)
    then have "LED_values t = p_leds (port_init (port_of s))" by (simp only: port_of_leds)
    moreover have "p_leds (port_init a) = p_leds a" for a by (simp add: port_init_def port_put_def Let_def)
    ultimately have "implements (port_packet p) s u"
      using t(2) u(2) 1 by (simp add: p implements_def)
    then show ?thesis using t(1) u(1) 1 codes by (simp add: p response_reset_def op)
  next
    case 2
    then show ?thesis using implements_update(1) [OF assms, of 1] codes
      by (simp add: p op response_ack_def implements_def)
  next
    case 3
    then show ?thesis using implements_update(3) [OF assms] codes
      by (simp add: p op response_bioc_def implements_def)
  next
    case 4
    then show ?thesis using assms codes by (simp add: p op implements_def)
  qed
qed

subsection \<open>The stream of packets\<close>

text \<open>The packets of a stream of bytes, and the bytes that may begin the next one. In a packet the first
  byte has bit 7 clear and the other two have it set.\<close>

definition packet_bytes :: "u8 \<Rightarrow> u8 \<Rightarrow> u8 \<Rightarrow> bool" where
  "packet_bytes a b c \<longleftrightarrow> \<not> bit a 7 \<and> bit b 7 \<and> bit c 7"

lemma framed_packet_bytes: "framed a b c = packet_bytes a b c"
proof -
  have "(x AND 0x80 = 0) = (\<not> bit x 7)" for x :: u8
    using and_exp_eq_0_iff_not_bit [of x 7] by simp
  then show ?thesis by (simp add: framed_def packet_bytes_def)
qed

fun frames :: "u8 list \<Rightarrow> (u8 \<times> u8 \<times> u8) list \<times> u8 list" where
  "frames (a # b # c # xs) =
     (if packet_bytes a b c then let (ps, r) = frames xs in ((a, b, c) # ps, r) else frames (b # c # xs))"
| "frames xs = ([], xs)"

lemma frames_rest: "length (snd (frames xs)) \<le> 2"
  by (induction xs rule: frames.induct) (auto split: prod.splits)

lemma frames_append:
  "frames (xs @ ys) = (let (ps, r) = frames xs; (qs, r') = frames (r @ ys) in (ps @ qs, r'))"
  by (induction xs rule: frames.induct) (auto simp: Let_def split: prod.splits)

lemma packet_loop_port:
  "tux_ok s \<Longrightarrow> \<exists>t. packet_loop xs s = Some (snd (frames xs), t) \<and>
     implements (fold port_packet (fst (frames xs))) s t"
proof (induction xs arbitrary: s rule: frames.induct)
  case (1 a b c xs)
  show ?case
  proof (cases "packet_bytes a b c")
    case True
    obtain u where u: "tuxctl_handle_packet (a, b, c) s = Some u" "implements (port_packet (a, b, c)) s u"
      using handle_packet_port [OF "1.prems"] by blast
    then have uok: "tux_ok u" by (simp add: implements_def)
    obtain t where t: "packet_loop xs u = Some (snd (frames xs), t)"
      "implements (fold port_packet (fst (frames xs))) u t"
      using "1.IH"(1) [OF True uok] by blast
    then show ?thesis
      using True u implements_trans [OF u(2) t(2)]
      by (auto simp: framed_packet_bytes split_beta simp del: tuxctl_handle_packet.simps port_packet.simps)
  next
    case False
    then show ?thesis using "1.IH"(2) [OF False "1.prems"] by (simp add: framed_packet_bytes)
  qed
qed (simp_all add: implements_def)

lemma rcv_buf_port:
  assumes "tux_ok s" "incoming s = []" "length (saved s) \<le> 2" "length cp \<le> 10"
  shows "\<exists>t. tuxctl_ldisc_rcv_buf cp s = Some t \<and> tux_ok t \<and> incoming t = [] \<and>
    port_of t = fold port_packet (fst (frames (saved s @ cp))) (port_of s) \<and>
    saved t = snd (frames (saved s @ cp)) \<and> user_mem t = user_mem s"
proof -
  obtain d where d: "disc_data s = Some d" "ldisc_ok d" using assms(1) by (auto simp: tux_ok_def)
  have rx0: "rx d = []" using assms(2) d(1) by (simp add: incoming_def)
  let ?d = "fold rx_push cp d"
  have rcv: "rcv_loop cp d = Some ?d" by (rule rcv_loop_eq [OF d(2)]) (use rx0 assms(4) in simp)
  have e: "ldisc_ok ?d \<and> rx ?d = rx d @ cp" by (rule rx_fifo.enq_room [OF d(2)]) (use rx0 assms(4) in simp)
  have "tx (fold rx_push cs e) = tx e" if "ldisc_ok e" "length (rx e) + length cs \<le> 63" for cs e
    using that by (induction cs arbitrary: e) (simp_all add: rx_push_ok)
  then have tx: "tx ?d = tx d" using d(2) rx0 assms(4) by simp
  let ?n = "nat (12 - int (length (saved s)))"
  obtain d' where d': "get_loop ?n [] ?d = Some (take ?n (rx ?d), d')" "ldisc_ok d'"
    "rx d' = drop ?n (rx ?d)" "tx d' = tx ?d"
    using get_loop_eq [of ?d ?n "[]"] e by auto
  have all: "take ?n (rx ?d) = cp" "drop ?n (rx ?d) = []" using e rx0 assms(3,4) by simp_all
  let ?s = "s\<lparr>disc_data := Some d'\<rparr>"
  have s: "tux_ok ?s" "port_of ?s = port_of s" "incoming ?s = []"
    using d(1) d' all tx by (simp_all add: tux_ok_def port_of_def incoming_def)
  obtain t where t: "packet_loop (saved s @ cp) ?s = Some (snd (frames (saved s @ cp)), t)"
    "implements (fold port_packet (fst (frames (saved s @ cp)))) ?s t"
    using packet_loop_port [OF s(1)] by blast
  have "tuxctl_ldisc_rcv_buf cp s = Some (t\<lparr>saved := snd (frames (saved s @ cp))\<rparr>)"
    using d(1) rcv d'(1) all(1) t(1)
    by (simp add: tuxctl_ldisc_rcv_buf_def tuxctl_ldisc_data_callback_def tuxctl_ldisc_get_def)
  then show ?thesis
    using t(2) s by (simp add: implements_def tux_ok_def port_of_def incoming_def)
qed

fun receive_all :: "u8 list list \<Rightarrow> 'u tux \<Rightarrow> 'u tux option" where
  "receive_all [] s = Some s"
| "receive_all (c # cs) s = do { s \<leftarrow> tuxctl_ldisc_rcv_buf c s; receive_all cs s }"

lemma receive_all_port:
  assumes "tux_ok s" "incoming s = []" "length (saved s) \<le> 2" "\<forall>c\<in>set chunks. length c \<le> 10"
  shows "\<exists>t. receive_all chunks s = Some t \<and> tux_ok t \<and> incoming t = [] \<and>
    port_of t = fold port_packet (fst (frames (saved s @ concat chunks))) (port_of s) \<and>
    saved t = snd (frames (saved s @ concat chunks))"
  using assms
proof (induction chunks arbitrary: s)
  case Nil
  have "frames xs = ([], xs)" if "length xs \<le> 2" for xs :: "u8 list"
    using that by (cases xs rule: frames.cases) simp_all
  then show ?case using Nil by simp
next
  case (Cons c cs)
  obtain u where u: "tuxctl_ldisc_rcv_buf c s = Some u" "tux_ok u" "incoming u = []"
    "port_of u = fold port_packet (fst (frames (saved s @ c))) (port_of s)" "saved u = snd (frames (saved s @ c))"
    using rcv_buf_port [of s c] Cons.prems by auto
  have "length (saved u) \<le> 2" using u(5) frames_rest by simp
  then obtain t where t: "receive_all cs u = Some t" "tux_ok t" "incoming t = []"
    "port_of t = fold port_packet (fst (frames (saved u @ concat cs))) (port_of u)"
    "saved t = snd (frames (saved u @ concat cs))"
    using Cons.IH [OF u(2,3)] Cons.prems by auto
  have "frames (saved s @ concat (c # cs)) =
      (fst (frames (saved s @ c)) @ fst (frames (saved u @ concat cs)), snd (frames (saved u @ concat cs)))"
    using frames_append [of "saved s @ c" "concat cs"] u(5) by (simp add: Let_def split_beta)
  then show ?case using u t by simp
qed

subsection \<open>The LED command\<close>

text \<open>What the controller does with the command (mtcp.h): the mask says which LEDs a byte follows
  for; a byte has the segments of a digit and the decimal point.\<close>

definition led_digit :: "u8 \<Rightarrow> nat" where
  "led_digit b = length (takeWhile (\<lambda>d. d \<noteq> b AND NOT 0x10) ledHEX)"

fun decode_leds :: "u8 \<Rightarrow> nat \<Rightarrow> nat \<Rightarrow> u8 list \<Rightarrow> (nat \<times> bool) option list" where
  "decode_leds m i 0 bs = []"
| "decode_leds m i (Suc k) bs =
     (if bit m i then Some (led_digit (hd bs), bit (hd bs) 4) # decode_leds m (i + 1) k (tl bs)
      else None # decode_leds m (i + 1) k bs)"

definition led_byte :: "u32 \<Rightarrow> nat \<Rightarrow> u8" where
  "led_byte arg i =
     (let b = ledHEX ! unat (drop_bit (i * 4) arg AND 0xF) in if bit arg (24 + i) then b OR 0x10 else b)"

lemma nibble_less: "unat (w AND (0xF :: u32)) < 16"
  using word_and_le1 [of w "0xF"] by (simp add: word_le_nat_alt)

lemma led_digits: "n < 16 \<Longrightarrow> led_digit (ledHEX ! n) = n \<and> led_digit (ledHEX ! n OR 0x10) = n \<and>
    \<not> bit (ledHEX ! n) 4 \<and> bit (ledHEX ! n OR 0x10) 4"
proof -
  have "list_all (\<lambda>n. led_digit (ledHEX ! n) = n \<and> led_digit (ledHEX ! n OR 0x10) = n \<and>
      \<not> bit (ledHEX ! n) 4 \<and> bit (ledHEX ! n OR 0x10) 4) [0..<16]" by code_simp
  then show "n < 16 \<Longrightarrow> ?thesis" by (simp add: list_all_iff)
qed

lemma led_byte_digit:
  "led_digit (led_byte arg i) = unat (drop_bit (i * 4) arg AND 0xF) \<and> bit (led_byte arg i) 4 = bit arg (24 + i)"
  using led_digits [OF nibble_less [of "drop_bit (i * 4) arg"]] by (simp add: led_byte_def Let_def)

lemma led_loop_eq:
  "led_loop arg i k buf = buf @ map (led_byte arg) (filter (\<lambda>i. bit arg (16 + i)) [i..<i + k])"
proof (induction k arbitrary: i buf)
  case (Suc k)
  have b: "(drop_bit n arg AND 1 = 1) = bit arg n" for n by (simp add: bit_iff_and_drop_bit_eq_1)
  then have z: "(drop_bit n arg AND 1 \<noteq> 0) = bit arg n" for n by (simp add: and_one_eq flip: odd_iff_mod_2_eq_one b)
  show ?case
    by (simp add: Suc.IH b z Let_def led_byte_def mult.commute upt_conv_Cons del: upt_Suc)
qed simp

lemma decode_leds_eq:
  "(\<And>j. j < i + k \<Longrightarrow> bit m j = bit arg (16 + j)) \<Longrightarrow>
   decode_leds m i k (map (led_byte arg) (filter (\<lambda>i. bit arg (16 + i)) [i..<i + k])) =
     map (\<lambda>i. if bit arg (16 + i) then Some (unat (drop_bit (i * 4) arg AND 0xF), bit arg (24 + i)) else None) [i..<i + k]"
proof (induction k arbitrary: i)
  case (Suc k)
  have "bit m j = bit arg (16 + j)" if "j < Suc i + k" for j using Suc.prems [of j] that by simp
  then show ?case
    using Suc.IH [of "Suc i"] Suc.prems [of i] led_byte_digit [of arg i] by (simp add: upt_conv_Cons del: upt_Suc)
qed simp

lemma led_packet_decodes:
  "\<exists>m bs. led_packet arg = 0xC6 # m # bs \<and> decode_leds m 0 4 bs =
     map (\<lambda>i. if bit arg (16 + i) then Some (unat (drop_bit (i * 4) arg AND 0xF), bit arg (24 + i)) else None) [0..<4]"
proof -
  let ?m = "ucast (drop_bit 16 arg AND 0xF) :: u8"
  have f: "(0xF :: u32) = mask 4" by (simp add: mask_eq_exp_minus_1)
  have "bit ?m j = bit arg (16 + j)" if "j < 4" for j
    using that unfolding f by (simp add: bit_simps)
  then have "decode_leds ?m 0 4 (map (led_byte arg) (filter (\<lambda>i. bit arg (16 + i)) [0..<0 + 4])) =
     map (\<lambda>i. if bit arg (16 + i) then Some (unat (drop_bit (i * 4) arg AND 0xF), bit arg (24 + i)) else None) [0..<0 + 4]"
    by (intro decode_leds_eq) simp
  moreover have "led_packet arg = 0xC6 # ?m # map (led_byte arg) (filter (\<lambda>i. bit arg (16 + i)) [0..<0 + 4])"
    by (simp only: led_packet_def led_loop_eq MTCP_CMD_def) simp
  ultimately show ?thesis by (intro exI conjI) simp_all
qed

subsection \<open>The button byte\<close>

lemma button_bits:
  assumes "k < 8"
  shows "bit (button_byte (NOT b AND 0xF) (NOT c AND 0xF)) k =
    (if k < 4 then \<not> bit b k else if k = 4 then \<not> bit c 0 else if k = 5 then \<not> bit c 2
     else if k = 6 then \<not> bit c 1 else \<not> bit c 3)"
proof -
  have f: "(0xF :: u32) = mask 4" by (simp add: mask_eq_exp_minus_1)
  have k: "k = 0 \<or> k = 1 \<or> k = 2 \<or> k = 3 \<or> k = 4 \<or> k = 5 \<or> k = 6 \<or> k = 7" using assms by linarith
  show ?thesis
    unfolding button_byte_def Let_def f bit_or_iff bit_and_iff bit_push_bit_iff bit_drop_bit_eq
    using k by (elim disjE) (simp_all add: bit_simps numeral_2_eq_2)
qed

lemma button_byte_high: "8 \<le> n \<Longrightarrow> \<not> bit (button_byte b c) n"
proof -
  have f: "(0xF :: u32) = mask 4" by (simp add: mask_eq_exp_minus_1)
  show "8 \<le> n \<Longrightarrow> ?thesis"
    unfolding button_byte_def Let_def f bit_or_iff bit_and_iff bit_push_bit_iff bit_mask_iff by auto
qed

end
