(* ===== verification/TuxTheorems.thy ===== *)
theory TuxTheorems
  imports TuxProps
begin

text \<open>
  The properties of the Tux controller driver, each with a run on a concrete state.
\<close>

subsection \<open>A driver to try them on\<close>

definition demo_ldisc :: tuxctl_ldisc_data where
  "demo_ldisc = \<lparr>magic = 0x74757863, rx_buf = replicate 64 0, rx_start = 60, rx_end = 60,
     tx_buf = replicate 64 0, tx_start = 62, tx_end = 62\<rparr>"

definition demo_tux :: "unit tux" where
  "demo_tux = \<lparr>ack = 1, LED_values = 0, packetC = 0, packetB = 0, disc_data = Some demo_ldisc, saved = [],
     write_room = (\<lambda>_. 2), written = [], user_mem = ()\<rparr>"

lemma demo_tux_ok: "tux_ok demo_tux" "incoming demo_tux = []" "saved demo_tux = []"
  "p_pending (port_of demo_tux) = []" "p_buttons (port_of demo_tux) = (0, 0)" "p_ack (port_of demo_tux)"
  by (simp_all add: tux_ok_def ldisc_ok_def demo_tux_def demo_ldisc_def ring_ok_def incoming_def rx_def tx_def
      ring_list_def ring_used_def port_of_def)

subsection \<open>Properties\<close>

text \<open>C25. The packets that the driver handles depend on the bytes received and not on how the serial
  line cuts them into pieces: after any pieces of at most ten bytes the driver has handled, in
  order, exactly the packets of the whole stream, and keeps the bytes that may begin the next.\<close>

theorem packets_of_stream:
  assumes "tux_ok s" "incoming s = []" "length (saved s) \<le> 2" "\<forall>c\<in>set chunks. length c \<le> 10"
  shows "\<exists>t. receive_all chunks s = Some t \<and> tux_ok t \<and> incoming t = [] \<and>
    port_of t = fold port_packet (fst (frames (saved s @ concat chunks))) (port_of s) \<and>
    saved t = snd (frames (saved s @ concat chunks))"
  by (rule receive_all_port [OF assms])

lemma packets_of_stream_witness:
  "\<exists>t. receive_all [[0x99, 0x41], [0x81], [0x82, 0x40, 0xFF]] demo_tux = Some t \<and>
     p_buttons (port_of t) = (0xE, 0xD) \<and> saved t = [0x40, 0xFF]"
  using packets_of_stream [of demo_tux "[[0x99, 0x41], [0x81], [0x82, 0x40, 0xFF]]"] demo_tux_ok
  by (auto simp: packet_bytes_def bit_iff_odd)



text \<open>C27. Every \<open>ioctl\<close> returns; it fails, changing nothing, exactly for an unknown request and for a
  null pointer, and otherwise acts on the controller as its request says: an LED command is
  always remembered, and sent only if the last one was acknowledged.\<close>

theorem ioctl_acts_on_port:
  assumes "tux_ok s"
  shows "\<exists>r t. tuxctl_ioctl copy cmd arg s = Some (r, t) \<and> tux_ok t \<and>
    (r = Inl EINVAL \<longleftrightarrow> cmd \<notin> {TUX_INIT, TUX_BUTTONS, TUX_SET_LED} \<or> cmd = TUX_BUTTONS \<and> arg = 0) \<and>
    (r = Inl EINVAL \<longrightarrow> t = s) \<and>
    port_of t = (if cmd = TUX_INIT then port_init (port_of s)
                 else if cmd = TUX_SET_LED then port_leds arg (port_of s) else port_of s)"
proof -
  have buttons: "tux_ok (ioctl_tux_buttons copy arg s)" "port_of (ioctl_tux_buttons copy arg s) = port_of s"
    using assms by (simp_all add: ioctl_tux_buttons_def Let_def tux_ok_def port_of_def)
  obtain t1 where "ioctl_tux_init s = Some t1" "implements port_init s t1" using ioctl_tux_init_port [OF assms] by blast
  moreover obtain t2 where "ioctl_tux_leds arg s = Some t2" "implements (port_leds arg) s t2"
    using ioctl_tux_leds_port [OF assms] by blast
  ultimately show ?thesis
    using assms buttons by (cases cmd) (auto simp: tuxctl_ioctl_def implements_def)
qed

lemma ioctl_acts_on_port_witness:
  "\<exists>r t. tuxctl_ioctl (\<lambda>_ _ u. u) TUX_SET_LED 0x10008 demo_tux = Some (r, t) \<and> r \<noteq> Inl EINVAL \<and>
     p_leds (port_of t) = 0x10008"
proof -
  obtain r t where "tuxctl_ioctl (\<lambda>_ _ u. u) TUX_SET_LED 0x10008 demo_tux = Some (r, t)" "r \<noteq> Inl EINVAL"
    "port_of t = port_leds 0x10008 (port_of demo_tux)"
    using ioctl_acts_on_port [OF demo_tux_ok(1), of "\<lambda>_ _ u. u" TUX_SET_LED "0x10008"] by auto
  then show ?thesis by (auto simp: port_leds_def port_put_def Let_def)
qed

text \<open>The LED command says what the argument asks for: read as the controller reads it, it lights
  exactly the LEDs of bits 16 to 19, each with its hexadecimal digit and its decimal point.\<close>

theorem led_command_round_trip:
  "\<exists>m bs. led_packet arg = 0xC6 # m # bs \<and> decode_leds m 0 4 bs =
     map (\<lambda>i. if bit arg (16 + i) then Some (unat (drop_bit (i * 4) arg AND 0xF), bit arg (24 + i)) else None) [0..<4]"
  by (rule led_packet_decodes)

text \<open>C28. After a button event the byte that \<open>TUX_BUTTONS\<close> stores first has the eight buttons, pressed
  as 1, in the order right, left, down, up, C, B, A, start; the other three bytes it stores are
  those of the pointer.\<close>

theorem buttons_reach_user:
  "\<exists>x. user_mem (ioctl_tux_buttons copy arg (response_bioc b c s)) =
      copy arg [x, ucast (drop_bit 8 arg), ucast (drop_bit 16 arg), ucast (drop_bit 24 arg)] (user_mem s) \<and>
    map (bit x) [0..<8] = [\<not> bit b 0, \<not> bit b 1, \<not> bit b 2, \<not> bit b 3, \<not> bit c 0, \<not> bit c 2, \<not> bit c 1, \<not> bit c 3]"
proof -
  let ?w = "button_byte (NOT b AND 0xF) (NOT c AND 0xF)"
  let ?new = "(arg AND 0xFFFFFF00) OR ?w"
  have f: "(0xFFFFFF00 :: u32) = NOT (mask 8)" by (simp add: mask_eq_exp_minus_1)
  have hi: "\<not> bit ?w n" if "8 \<le> n" for n by (rule button_byte_high [OF that])
  have low: "\<not> bit (0xFFFFFF00 :: u32) n" if "n < 8" for n using that by (simp only: f bit_simps) simp
  have high: "bit (0xFFFFFF00 :: u32) n" if "8 \<le> n" "n < 32" for n using that by (simp only: f bit_simps) simp
  have new: "bit ?new n = bit arg n" if "8 \<le> n" "n < 32" for n
    using that high [OF that] hi [OF that(1)] by (simp only: bit_or_iff bit_and_iff) simp
  have bytes: "dword_bytes w = [ucast w, ucast (drop_bit 8 arg), ucast (drop_bit 16 arg), ucast (drop_bit 24 arg)]"
    if "\<And>n. 8 \<le> n \<Longrightarrow> n < 32 \<Longrightarrow> bit w n = bit arg n" for w :: u32
    unfolding dword_bytes_def
    by (intro arg_cong2 [where f = Cons] refl bit_word_eqI) (simp_all add: bit_ucast_iff bit_drop_bit_eq that)
  note d = bytes [of ?new, OF new]
  have x: "bit (ucast ?new :: u8) k = bit ?w k" if "k < 8" for k
    using that low [OF that] by (simp add: bit_simps)
  show ?thesis
    using x d by (intro exI [of _ "ucast ?new"])
      (simp add: ioctl_tux_buttons_def response_bioc_def Let_def button_bits upt_rec numeral_2_eq_2 numeral_3_eq_3)
qed

end
