(* ===== verification/Modex.thy ===== *)
theory Modex
  imports Prelude
begin

text \<open>
  The mode X display of the maze game (mp2/modex.c): the build buffer with its four planes and
  the fences around it, the logical view window that moves through it, the drawing of blocks and
  lines, and the copy to the video memory.

  A pointer into the build buffer is an index of the array \<open>build\<close>, and an access outside the
  array is \<open>None\<close>. The callbacks \<open>horiz_line_fn\<close> and \<open>vert_line_fn\<close> are arguments of the operations
  that call them. The display adapter is its map mask register, four planes of video memory and
  the registers of the CRT controller. A right shift of a negative coordinate is arithmetic.
\<close>

unbundle bit_operations_syntax

subsection \<open>Sizes\<close>

abbreviation (input) FONT_HEIGHT :: int where "FONT_HEIGHT \<equiv> 16"
abbreviation (input) STATUS_BAR_HEIGHT :: int where "STATUS_BAR_HEIGHT \<equiv> FONT_HEIGHT + 2"
abbreviation (input) IMAGE_X_DIM :: int where "IMAGE_X_DIM \<equiv> 320"
abbreviation (input) IMAGE_Y_DIM :: int where "IMAGE_Y_DIM \<equiv> 200"
abbreviation (input) SCROLL_X_DIM :: int where "SCROLL_X_DIM \<equiv> IMAGE_X_DIM"
abbreviation (input) SCROLL_X_WIDTH :: int where "SCROLL_X_WIDTH \<equiv> 80"
abbreviation (input) BLOCK_X_DIM :: int where "BLOCK_X_DIM \<equiv> 12"
abbreviation (input) BLOCK_Y_DIM :: int where "BLOCK_Y_DIM \<equiv> 12"

text \<open>
  \<open>SCROLL_Y_DIM\<close> is a macro without parentheses, \<open>IMAGE_Y_DIM - STATUS_BAR_HEIGHT\<close>. Where it is
  added to something its value is 182; in a product or behind a minus sign it is not, and those
  places are written out here as they expand.
\<close>

abbreviation (input) SCROLL_Y_DIM :: int where "SCROLL_Y_DIM \<equiv> 182"

definition SCROLL_SIZE :: int where
  "SCROLL_SIZE = SCROLL_X_WIDTH * IMAGE_Y_DIM - STATUS_BAR_HEIGHT"

definition SCREEN_SIZE :: int where
  "SCREEN_SIZE = SCROLL_SIZE * 4 + 1"

definition BUILD_BUF_SIZE :: int where
  "BUILD_BUF_SIZE = SCREEN_SIZE + 20000"

definition BUILD_BASE_INIT :: int where
  "BUILD_BASE_INIT = (BUILD_BUF_SIZE - SCREEN_SIZE) div 2"

abbreviation (input) MEM_FENCE_WIDTH :: int where "MEM_FENCE_WIDTH \<equiv> 256"
abbreviation (input) MEM_FENCE_MAGIC :: u8 where "MEM_FENCE_MAGIC \<equiv> 0xF3"
abbreviation (input) MODE_X_MEM_SIZE :: nat where "MODE_X_MEM_SIZE \<equiv> 65536"

lemma modex_sizes: "SCROLL_SIZE = 15982" "SCREEN_SIZE = 63929" "BUILD_BUF_SIZE = 83929" "BUILD_BASE_INIT = 10000"
  by (simp_all add: BUILD_BASE_INIT_def BUILD_BUF_SIZE_def SCREEN_SIZE_def SCROLL_SIZE_def)

subsection \<open>The state\<close>

record modex =
  build :: "int \<Rightarrow> u8"            \<comment> \<open>BUILD_BUF_SIZE + 2 MEM_FENCE_WIDTH bytes\<close>
  img3_off :: int
  img3 :: int
  show_x :: int
  show_y :: int
  g_mask :: "u8 list"
  target_img :: u16
  vram :: "nat \<Rightarrow> nat \<Rightarrow> u8"     \<comment> \<open>plane and offset\<close>
  write_mask :: u16               \<comment> \<open>the argument of the last SET_WRITE_MASK\<close>
  crtc :: "u8 \<Rightarrow> u8"

definition build_get :: "int \<Rightarrow> 'a modex_scheme \<Rightarrow> u8 option" where
  "build_get i s = (if 0 \<le> i \<and> i < BUILD_BUF_SIZE + 2 * MEM_FENCE_WIDTH then Some (build s i) else None)"

definition build_put :: "int \<Rightarrow> u8 \<Rightarrow> 'a modex_scheme \<Rightarrow> 'a modex_scheme option" where
  "build_put i b s =
     (if 0 \<le> i \<and> i < BUILD_BUF_SIZE + 2 * MEM_FENCE_WIDTH then Some (s\<lparr>build := (build s)(i := b)\<rparr>) else None)"

text \<open>The place of a pixel in the build buffer.\<close>

definition pixel_index :: "'a modex_scheme \<Rightarrow> int \<Rightarrow> int \<Rightarrow> int" where
  "pixel_index s x y = img3 s + x div 4 + y * SCROLL_X_WIDTH + (3 - x mod 4) * SCROLL_SIZE"

subsection \<open>The adapter\<close>

definition SET_WRITE_MASK :: "u16 \<Rightarrow> 'a modex_scheme \<Rightarrow> 'a modex_scheme" where
  "SET_WRITE_MASK mask_hi_bits s = s\<lparr>write_mask := mask_hi_bits\<rparr>"

definition vram_write :: "nat \<Rightarrow> u8 \<Rightarrow> 'a modex_scheme \<Rightarrow> 'a modex_scheme" where
  "vram_write i b s =
     s\<lparr>vram := (\<lambda>p. if p < 4 \<and> bit (write_mask s) (8 + p) then (vram s p)(i := b) else vram s p)\<rparr>"

text \<open>\<open>OUTW(0x03D4, w)\<close>: the index of the register in the low byte, its value in the high byte.\<close>

definition outw_crtc :: "u16 \<Rightarrow> 'a modex_scheme \<Rightarrow> 'a modex_scheme" where
  "outw_crtc w s = s\<lparr>crtc := (crtc s)(ucast w := ucast (drop_bit 8 w))\<rparr>"

subsection \<open>Mode X\<close>

text \<open>\<open>set_mode_X\<close> without the registers of the adapter, which the theory \<open>Vga\<close> adds: the view
  window, the fences, the first display page, and the cleared video memory. \<open>callbacks\<close> says whether
  both callbacks are there, \<open>opened\<close> whether \<open>open_memory_and_ports\<close> succeeds.\<close>

fun fill_fence :: "int \<Rightarrow> nat \<Rightarrow> 'a modex_scheme \<Rightarrow> 'a modex_scheme option" where
  "fill_fence i 0 s = Some s"
| "fill_fence i (Suc k) s = do {
     s \<leftarrow> build_put i MEM_FENCE_MAGIC s;
     s \<leftarrow> build_put (BUILD_BUF_SIZE + MEM_FENCE_WIDTH + i) MEM_FENCE_MAGIC s;
     fill_fence (i + 1) k s
   }"

fun clear_vram :: "nat \<Rightarrow> nat \<Rightarrow> 'a modex_scheme \<Rightarrow> 'a modex_scheme" where
  "clear_vram i 0 s = s"
| "clear_vram i (Suc k) s = clear_vram (i + 1) k (vram_write i 0 s)"

definition clear_screens :: "'a modex_scheme \<Rightarrow> 'a modex_scheme" where
  "clear_screens s = clear_vram 0 MODE_X_MEM_SIZE (SET_WRITE_MASK 0x0F00 s)"

definition init_buffer :: "'a modex_scheme \<Rightarrow> 'a modex_scheme option" where
  "init_buffer s = do {
     let s = s\<lparr>show_x := 0, show_y := 0, img3_off := BUILD_BASE_INIT\<rparr>;
     let s = s\<lparr>img3 := img3_off s + MEM_FENCE_WIDTH\<rparr>;
     s \<leftarrow> fill_fence 0 (nat MEM_FENCE_WIDTH) s;
     Some (s\<lparr>target_img := 0x05A0\<rparr>)
   }"

definition set_mode_X :: "bool \<Rightarrow> bool \<Rightarrow> 'a modex_scheme \<Rightarrow> (int \<times> 'a modex_scheme) option" where
  "set_mode_X callbacks opened s =
     (if \<not> callbacks then Some (-1, s)
      else do {
        s \<leftarrow> init_buffer s;
        if \<not> opened then Some (-1, s) else Some (0, clear_screens s)
      })"

subsection \<open>Moving the view window\<close>

text \<open>The two directions of the copy, from index \<open>i\<close> on, for \<open>k\<close> more bytes.\<close>

fun copy_down :: "int \<Rightarrow> int \<Rightarrow> nat \<Rightarrow> 'a modex_scheme \<Rightarrow> 'a modex_scheme option" where
  "copy_down target start 0 s = Some s"
| "copy_down target start (Suc i) s = do {
     b \<leftarrow> build_get (start + int i) s;
     s \<leftarrow> build_put (target + int i) b s;
     copy_down target start i s
   }"

fun copy_up :: "int \<Rightarrow> int \<Rightarrow> int \<Rightarrow> nat \<Rightarrow> 'a modex_scheme \<Rightarrow> 'a modex_scheme option" where
  "copy_up target start i 0 s = Some s"
| "copy_up target start i (Suc k) s = do {
     b \<leftarrow> build_get (start + i) s;
     s \<leftarrow> build_put (target + i) b s;
     copy_up target start (i + 1) k s
   }"

definition set_view_window :: "int \<Rightarrow> int \<Rightarrow> 'a modex_scheme \<Rightarrow> 'a modex_scheme option" where
  "set_view_window scr_x scr_y s =
     (let old_x = show_x s; old_y = show_y s;
          s = s\<lparr>show_x := scr_x, show_y := scr_y\<rparr>
      in if img3_off s + scr_x div 4 + scr_y * SCROLL_X_WIDTH \<ge> 0 \<and>
            img3_off s + 3 * SCROLL_SIZE + (scr_x + SCROLL_X_DIM - 1) div 4
              + (scr_y + SCROLL_Y_DIM - 1) * SCROLL_X_WIDTH < BUILD_BUF_SIZE
         then Some s
         else if scr_x \<le> old_x - SCROLL_X_DIM \<or> scr_x \<ge> old_x + SCROLL_X_DIM \<or>
            scr_y \<le> old_y - IMAGE_Y_DIM - STATUS_BAR_HEIGHT \<or> scr_y \<ge> old_y + SCROLL_Y_DIM
         then
           let s = s\<lparr>img3_off := BUILD_BASE_INIT - scr_x div 4 - scr_y * SCROLL_X_WIDTH\<rparr>
           in Some (s\<lparr>img3 := img3_off s + MEM_FENCE_WIDTH\<rparr>)
         else
           let (start_x, end_x) = (if scr_x > old_x then (scr_x, old_x) else (old_x, scr_x));
               end_x = end_x + SCROLL_X_DIM - 1;
               (start_y, end_y) = (if scr_y > old_y then (scr_y, old_y) else (old_y, scr_y));
               end_y = end_y + SCROLL_Y_DIM - 1;
               start_off = start_x div 4 + start_y * SCROLL_X_WIDTH;
               start_addr = img3 s + start_off;
               n = end_x div 4 + end_y * SCROLL_X_WIDTH + 1 - start_off + 3 * SCROLL_SIZE;
               s = s\<lparr>img3_off := BUILD_BASE_INIT - show_x s div 4 - show_y s * SCROLL_X_WIDTH\<rparr>;
               s = s\<lparr>img3 := img3_off s + MEM_FENCE_WIDTH\<rparr>;
               target_addr = img3 s + start_off
           in if start_addr < target_addr then copy_down target_addr start_addr (nat n) s
              else copy_up target_addr start_addr 0 (nat n) s)"

subsection \<open>Showing the view window\<close>

fun copy_bytes :: "int \<Rightarrow> nat \<Rightarrow> nat \<Rightarrow> 'a modex_scheme \<Rightarrow> 'a modex_scheme option" where
  "copy_bytes img scr 0 s = Some s"
| "copy_bytes img scr (Suc k) s = do {
     b \<leftarrow> build_get img s;
     copy_bytes (img + 1) (scr + 1) k (vram_write scr b s)
   }"

definition copy_image :: "int \<Rightarrow> u16 \<Rightarrow> 'a modex_scheme \<Rightarrow> 'a modex_scheme option" where
  "copy_image img scr_addr s = copy_bytes img (unat scr_addr) 16000 s"

text \<open>The loop over the planes, from \<open>i\<close> on for \<open>k\<close> more.\<close>

fun show_planes :: "int \<Rightarrow> int \<Rightarrow> nat \<Rightarrow> nat \<Rightarrow> 'a modex_scheme \<Rightarrow> 'a modex_scheme option" where
  "show_planes addr p_off i 0 s = Some s"
| "show_planes addr p_off i (Suc k) s = do {
     let s = SET_WRITE_MASK (push_bit (i + 8) 1) s;
     s \<leftarrow> copy_image (addr + (p_off - int i + 4) mod 4 * SCROLL_SIZE + of_bool (p_off < int i)) (target_img s) s;
     show_planes addr p_off (i + 1) k s
   }"

definition show_screen :: "'a modex_scheme \<Rightarrow> 'a modex_scheme option" where
  "show_screen s = do {
     let p_off = 3 - show_x s mod 4;
     let s = s\<lparr>target_img := target_img s XOR 0x4000\<rparr>;
     let addr = img3 s + show_x s div 4 + show_y s * SCROLL_X_WIDTH;
     s \<leftarrow> show_planes addr p_off 0 4 s;
     let s = outw_crtc ((target_img s AND 0xFF00) OR 0x0C) s;
     Some (outw_crtc (push_bit 8 (target_img s AND 0x00FF) OR 0x0D) s)
   }"

subsection \<open>Drawing blocks\<close>

text \<open>The clipping at the start of both block functions: the first pixel drawn, the offset of its
  byte in the block, the width and height drawn, and the bytes to skip after a row; \<open>None\<close> when
  the block is off the screen.\<close>

definition clip_block :: "int \<Rightarrow> int \<Rightarrow> 'a modex_scheme \<Rightarrow> (int \<times> int \<times> int \<times> int \<times> int \<times> int) option" where
  "clip_block pos_x pos_y s =
     (if pos_x + BLOCK_X_DIM \<le> show_x s \<or> pos_x \<ge> show_x s + SCROLL_X_DIM \<or>
         pos_y + BLOCK_Y_DIM \<le> show_y s \<or> pos_y \<ge> show_y s + SCROLL_Y_DIM
      then None
      else
        let x_left = show_x s - pos_x; x_left = (if x_left < 0 then 0 else x_left);
            x_right = show_x s + SCROLL_X_DIM - pos_x; x_right = (if x_right > BLOCK_X_DIM then BLOCK_X_DIM else x_right);
            pos_x = pos_x + x_left;
            blk = x_left;
            x_right = x_right - x_left;
            x_left = BLOCK_X_DIM - x_right;
            y_top = show_y s - pos_y; y_top = (if y_top < 0 then 0 else y_top);
            y_bottom = show_y s + SCROLL_Y_DIM - pos_y; y_bottom = (if y_bottom > BLOCK_Y_DIM then BLOCK_Y_DIM else y_bottom);
            pos_y = pos_y + y_top;
            blk = blk + y_top * BLOCK_X_DIM;
            y_bottom = y_bottom - y_top
        in Some (pos_x, pos_y, blk, x_right, y_bottom, x_left))"

fun draw_row :: "u8 list \<Rightarrow> int \<Rightarrow> int \<Rightarrow> int \<Rightarrow> nat \<Rightarrow> 'a modex_scheme \<Rightarrow> 'a modex_scheme option" where
  "draw_row img x y blk 0 s = Some s"
| "draw_row img x y blk (Suc n) s = do {
     b \<leftarrow> arr_get img blk;
     s \<leftarrow> build_put (pixel_index s x y) b s;
     draw_row img (x + 1) y (blk + 1) n s
   }"

fun draw_rows :: "u8 list \<Rightarrow> int \<Rightarrow> int \<Rightarrow> int \<Rightarrow> nat \<Rightarrow> int \<Rightarrow> nat \<Rightarrow> 'a modex_scheme \<Rightarrow> 'a modex_scheme option" where
  "draw_rows img x y blk w skip 0 s = Some s"
| "draw_rows img x y blk w skip (Suc h) s = do {
     s \<leftarrow> draw_row img x y blk w s;
     draw_rows img x (y + 1) (blk + int w + skip) w skip h s
   }"

definition draw_full_block :: "int \<Rightarrow> int \<Rightarrow> u8 list \<Rightarrow> 'a modex_scheme \<Rightarrow> 'a modex_scheme option" where
  "draw_full_block pos_x pos_y img s =
     (case clip_block pos_x pos_y s of
        None \<Rightarrow> Some s
      | Some (x, y, blk, w, h, skip) \<Rightarrow> draw_rows img x y blk (nat w) skip (nat h) s)"

text \<open>With a mask the old pixels are saved to \<open>g_mask\<close>, from its index \<open>m\<close> on; \<open>m\<close> is the index into
  the mask of the player as well.\<close>

fun mask_row :: "u8 list \<Rightarrow> u8 list \<Rightarrow> int \<Rightarrow> int \<Rightarrow> int \<Rightarrow> int \<Rightarrow> nat \<Rightarrow> 'a modex_scheme \<Rightarrow> 'a modex_scheme option" where
  "mask_row img msk x y blk m 0 s = Some s"
| "mask_row img msk x y blk m (Suc n) s = do {
     old \<leftarrow> build_get (pixel_index s x y) s;
     g \<leftarrow> arr_set (g_mask s) m old;
     let s = s\<lparr>g_mask := g\<rparr>;
     opaque \<leftarrow> arr_get msk m;
     s \<leftarrow> (if opaque \<noteq> 0 then do { b \<leftarrow> arr_get img blk; build_put (pixel_index s x y) b s } else Some s);
     mask_row img msk (x + 1) y (blk + 1) (m + 1) n s
   }"

fun mask_rows :: "u8 list \<Rightarrow> u8 list \<Rightarrow> int \<Rightarrow> int \<Rightarrow> int \<Rightarrow> int \<Rightarrow> nat \<Rightarrow> int \<Rightarrow> nat
    \<Rightarrow> 'a modex_scheme \<Rightarrow> 'a modex_scheme option" where
  "mask_rows img msk x y blk m w skip 0 s = Some s"
| "mask_rows img msk x y blk m w skip (Suc h) s = do {
     s \<leftarrow> mask_row img msk x y blk m w s;
     mask_rows img msk x (y + 1) (blk + int w + skip) (m + int w) w skip h s
   }"

definition draw_mask_block :: "int \<Rightarrow> int \<Rightarrow> u8 list \<Rightarrow> u8 list \<Rightarrow> 'a modex_scheme \<Rightarrow> 'a modex_scheme option" where
  "draw_mask_block pos_x pos_y img maskPlayer s =
     (case clip_block pos_x pos_y s of
        None \<Rightarrow> Some s
      | Some (x, y, blk, w, h, skip) \<Rightarrow> mask_rows img maskPlayer x y blk 0 (nat w) skip (nat h) s)"

subsection \<open>Drawing lines\<close>

fun vert_loop :: "u8 list \<Rightarrow> int \<Rightarrow> int \<Rightarrow> int \<Rightarrow> nat \<Rightarrow> 'a modex_scheme \<Rightarrow> 'a modex_scheme option" where
  "vert_loop buf addr p_off i 0 s = Some s"
| "vert_loop buf addr p_off i (Suc k) s = do {
     b \<leftarrow> arr_get buf i;
     s \<leftarrow> build_put (addr + p_off * SCROLL_SIZE) b s;
     vert_loop buf (addr + SCROLL_X_WIDTH) p_off (i + 1) k s
   }"

definition draw_vert_line :: "(int \<Rightarrow> int \<Rightarrow> u8 list option) \<Rightarrow> int \<Rightarrow> 'a modex_scheme
    \<Rightarrow> (int \<times> 'a modex_scheme) option" where
  "draw_vert_line vert_line_fn x s =
     (if x < 0 \<or> x \<ge> SCROLL_X_DIM then Some (-1, s)
      else do {
        let x = x + show_x s;
        buf \<leftarrow> vert_line_fn x (show_y s);
        let addr = img3 s + x div 4 + show_y s * SCROLL_X_WIDTH;
        let p_off = 3 - x mod 4;
        s \<leftarrow> vert_loop buf addr p_off 0 (nat SCROLL_Y_DIM) s;
        Some (0, s)
      })"

fun horiz_loop :: "u8 list \<Rightarrow> int \<Rightarrow> int \<Rightarrow> int \<Rightarrow> nat \<Rightarrow> 'a modex_scheme \<Rightarrow> 'a modex_scheme option" where
  "horiz_loop buf addr p_off i 0 s = Some s"
| "horiz_loop buf addr p_off i (Suc k) s = do {
     b \<leftarrow> arr_get buf i;
     s \<leftarrow> build_put (addr + p_off * SCROLL_SIZE) b s;
     let p_off = p_off - 1;
     if p_off < 0 then horiz_loop buf (addr + 1) 3 (i + 1) k s else horiz_loop buf addr p_off (i + 1) k s
   }"

definition draw_horiz_line :: "(int \<Rightarrow> int \<Rightarrow> u8 list option) \<Rightarrow> int \<Rightarrow> 'a modex_scheme
    \<Rightarrow> (int \<times> 'a modex_scheme) option" where
  "draw_horiz_line horiz_line_fn y s =
     (if y < 0 \<or> y \<ge> SCROLL_Y_DIM then Some (-1, s)
      else do {
        let y = y + show_y s;
        buf \<leftarrow> horiz_line_fn (show_x s) y;
        let addr = img3 s + show_x s div 4 + y * SCROLL_X_WIDTH;
        let p_off = 3 - show_x s mod 4;
        s \<leftarrow> horiz_loop buf addr p_off 0 (nat SCROLL_X_DIM) s;
        Some (0, s)
      })"

end
