(* ===== verification/ModexProps.thy ===== *)
theory ModexProps
  imports Modex
begin

text \<open>
  The build buffer as a picture: \<open>pix s x y\<close> is the pixel at a map coordinate. As long as the view
  window lies in the buffer (\<open>view_ok\<close>), no two pixels of the window share a byte, every drawing
  operation changes the pixels it names and no others, moving the window keeps what both windows
  show, and the video memory gets the picture of the window.
\<close>

subsection \<open>Pixels\<close>

definition pix :: "'a modex_scheme \<Rightarrow> int \<Rightarrow> int \<Rightarrow> u8" where
  "pix s x y = build s (pixel_index s x y)"

definition in_view :: "'a modex_scheme \<Rightarrow> int \<Rightarrow> int \<Rightarrow> bool" where
  "in_view s x y \<longleftrightarrow> show_x s \<le> x \<and> x < show_x s + 320 \<and> show_y s \<le> y \<and> y < show_y s + 182"

definition view_ok :: "'a modex_scheme \<Rightarrow> bool" where
  "view_ok s \<longleftrightarrow> img3 s = img3_off s + 256 \<and> 0 \<le> img3_off s + show_x s div 4 + show_y s * 80 \<and>
     img3_off s + 3 * SCROLL_SIZE + (show_x s + 319) div 4 + (show_y s + 181) * 80 < BUILD_BUF_SIZE"

text \<open>The fences stay as they are, and nothing but the build buffer changes.\<close>

definition drawn :: "'a modex_scheme \<Rightarrow> 'a modex_scheme \<Rightarrow> bool" where
  "drawn s t \<longleftrightarrow> t = s\<lparr>build := build t\<rparr> \<and> (\<forall>i. i < 256 \<or> 256 + BUILD_BUF_SIZE \<le> i \<longrightarrow> build t i = build s i)"

lemma drawn_fields:
  assumes "drawn s t"
  shows "img3 t = img3 s" "img3_off t = img3_off s" "show_x t = show_x s" "show_y t = show_y s" "g_mask t = g_mask s"
    "pixel_index t x y = pixel_index s x y" "in_view t x y = in_view s x y" "view_ok t = view_ok s"
proof -
  obtain b where "t = s\<lparr>build := b\<rparr>" using assms by (auto simp: drawn_def)
  then show "img3 t = img3 s" "img3_off t = img3_off s" "show_x t = show_x s" "show_y t = show_y s" "g_mask t = g_mask s"
    "pixel_index t x y = pixel_index s x y" "in_view t x y = in_view s x y" "view_ok t = view_ok s"
    by (simp_all add: pixel_index_def in_view_def view_ok_def)
qed

lemma drawn_refl [simp]: "drawn s s"
  by (simp add: drawn_def)

lemma drawn_trans:
  assumes "drawn s t" "drawn t u" shows "drawn s u"
proof -
  obtain b where "t = s\<lparr>build := b\<rparr>" using assms(1) unfolding drawn_def by blast
  moreover obtain c where "u = t\<lparr>build := c\<rparr>" using assms(2) unfolding drawn_def by blast
  ultimately show ?thesis using assms by (simp add: drawn_def)
qed

lemma column_bounds: "a \<le> x \<Longrightarrow> x < a + 320 \<Longrightarrow> a div 4 \<le> x div 4 \<and> x div 4 \<le> (a + 319) div 4" for a x :: int
  by (intro conjI zdiv_mono1) simp_all

lemma pixel_index_bounds:
  assumes "view_ok s" "in_view s x y"
  shows "256 \<le> pixel_index s x y" "pixel_index s x y < 256 + BUILD_BUF_SIZE"
proof -
  have r: "0 \<le> x mod 4" "x mod 4 \<le> 3" by simp_all
  have c: "show_x s div 4 \<le> x div 4" "x div 4 \<le> (show_x s + 319) div 4"
    using column_bounds [of "show_x s" x] assms(2) by (simp_all add: in_view_def)
  have v: "img3 s = img3_off s + 256" "0 \<le> img3_off s + show_x s div 4 + show_y s * 80"
    "img3_off s + (show_x s + 319) div 4 + show_y s * 80 < 21503"
    using assms(1) by (simp_all add: view_ok_def modex_sizes)
  have y: "show_y s \<le> y" "y < show_y s + 182" using assms(2) by (simp_all add: in_view_def)
  show "256 \<le> pixel_index s x y" unfolding pixel_index_def modex_sizes left_diff_distrib using r c v y by linarith
  show "pixel_index s x y < 256 + BUILD_BUF_SIZE" unfolding pixel_index_def modex_sizes left_diff_distrib using r c v y by linarith
qed

text \<open>No two pixels of the window share a byte.\<close>

lemma pixel_index_inj:
  assumes "in_view s x y" "in_view s x' y'" "pixel_index s x y = pixel_index s x' y'"
  shows "x = x' \<and> y = y'"
proof -
  define q r q' r' where d: "q = x div 4" "r = x mod 4" "q' = x' div 4" "r' = x' mod 4"
  have x: "x = 4 * q + r" "0 \<le> r" "r < 4" "x' = 4 * q' + r'" "0 \<le> r'" "r' < 4" by (simp_all add: d)
  have eq: "q + y * 80 - r * 15982 = q' + y' * 80 - r' * 15982"
    using assms(3) by (simp add: pixel_index_def modex_sizes d left_diff_distrib)
  have b: "- 320 < x - x'" "x - x' < 320" "- 182 < y - y'" "y - y' < 182" using assms(1,2) by (simp_all add: in_view_def)
  have "\<not> 1 \<le> r - r'" using x b eq by linarith
  moreover have "\<not> 1 \<le> r' - r" using x b eq by linarith
  ultimately have rr: "r = r'" by simp
  then have e: "q - q' = y' * 80 - y * 80" using eq by simp
  have q: "- 80 < q - q' \<and> q - q' < 80" using x b rr by linarith
  have "\<not> 1 \<le> y' - y" using e q by linarith
  moreover have "\<not> 1 \<le> y - y'" using e q by linarith
  ultimately have "y = y'" by simp
  then show ?thesis using e rr x by simp
qed

lemma put_pixel:
  assumes "view_ok s" "in_view s x y"
  shows "\<exists>t. build_put (pixel_index s x y) b s = Some t \<and> drawn s t \<and>
    (\<forall>x' y'. in_view s x' y' \<longrightarrow> pix t x' y' = (if x' = x \<and> y' = y then b else pix s x' y'))"
proof -
  note pb = pixel_index_bounds [OF assms]
  let ?t = "s\<lparr>build := (build s)(pixel_index s x y := b)\<rparr>"
  have "build_put (pixel_index s x y) b s = Some ?t" using pb by (simp add: build_put_def modex_sizes)
  moreover have "drawn s ?t" using pb by (auto simp: drawn_def)
  moreover have "pix ?t x' y' = (if x' = x \<and> y' = y then b else pix s x' y')" if "in_view s x' y'" for x' y'
  proof -
    have "pixel_index ?t x' y' = pixel_index s x' y'" by (simp add: pixel_index_def)
    then show ?thesis using pixel_index_inj [OF that assms(2)] by (auto simp: pix_def)
  qed
  ultimately show ?thesis by blast
qed

subsection \<open>Blocks\<close>

lemma draw_row_pix:
  assumes "view_ok s" "\<forall>x'. x \<le> x' \<and> x' < x + int n \<longrightarrow> in_view s x' y" "k + n \<le> length img"
  shows "\<exists>t. draw_row img x y (int k) n s = Some t \<and> drawn s t \<and>
    (\<forall>x' y'. in_view s x' y' \<longrightarrow>
       pix t x' y' = (if y' = y \<and> x \<le> x' \<and> x' < x + int n then img ! (k + nat (x' - x)) else pix s x' y'))"
  using assms
proof (induction n arbitrary: x k s)
  case (Suc n)
  have v: "in_view s x y" using Suc.prems(2) by simp
  obtain u where u: "build_put (pixel_index s x y) (img ! k) s = Some u" "drawn s u"
    "\<forall>x' y'. in_view s x' y' \<longrightarrow> pix u x' y' = (if x' = x \<and> y' = y then img ! k else pix s x' y')"
    using put_pixel [OF Suc.prems(1) v] by blast
  have "\<exists>t. draw_row img (x + 1) y (int (Suc k)) n u = Some t \<and> drawn u t \<and>
    (\<forall>x' y'. in_view u x' y' \<longrightarrow>
       pix t x' y' = (if y' = y \<and> x + 1 \<le> x' \<and> x' < x + 1 + int n then img ! (Suc k + nat (x' - (x + 1))) else pix u x' y'))"
    by (rule Suc.IH) (use Suc.prems drawn_fields [OF u(2)] in auto)
  then obtain t where t: "draw_row img (x + 1) y (int (Suc k)) n u = Some t" "drawn u t"
    "\<forall>x' y'. in_view u x' y' \<longrightarrow>
       pix t x' y' = (if y' = y \<and> x + 1 \<le> x' \<and> x' < x + 1 + int n then img ! (Suc k + nat (x' - (x + 1))) else pix u x' y')"
    by blast
  have "pix t x' y' = (if y' = y \<and> x \<le> x' \<and> x' < x + int (Suc n) then img ! (k + nat (x' - x)) else pix s x' y')"
    if v': "in_view s x' y'" for x' y'
  proof -
    have "nat (x' - x) = Suc (nat (x' - (x + 1)))" if "x + 1 \<le> x'" using that by simp
    then show ?thesis using t(3) u(3) v' drawn_fields(7) [OF u(2)] by auto
  qed
  moreover have "draw_row img x y (int k) (Suc n) s = Some t"
    using u(1) t(1) Suc.prems(3) by (simp add: add.commute)
  ultimately show ?case using drawn_trans [OF u(2) t(2)] by blast
qed auto

lemma draw_rows_pix:
  assumes "view_ok s" "\<forall>x' y'. x \<le> x' \<and> x' < x + int w \<and> y \<le> y' \<and> y' < y + int h \<longrightarrow> in_view s x' y'"
    and "w + sk = 12" "k + 12 * h \<le> length img + sk"
  shows "\<exists>t. draw_rows img x y (int k) w (int sk) h s = Some t \<and> drawn s t \<and>
    (\<forall>x' y'. in_view s x' y' \<longrightarrow>
       pix t x' y' = (if x \<le> x' \<and> x' < x + int w \<and> y \<le> y' \<and> y' < y + int h
         then img ! (k + 12 * nat (y' - y) + nat (x' - x)) else pix s x' y'))"
  using assms
proof (induction h arbitrary: y k s)
  case (Suc h)
  have kw: "k + w \<le> length img" using Suc.prems(3,4) by simp
  obtain u where u: "draw_row img x y (int k) w s = Some u" "drawn s u"
    "\<forall>x' y'. in_view s x' y' \<longrightarrow>
       pix u x' y' = (if y' = y \<and> x \<le> x' \<and> x' < x + int w then img ! (k + nat (x' - x)) else pix s x' y')"
    using draw_row_pix [OF Suc.prems(1) _ kw, of x y] Suc.prems(2) by auto
  have "\<exists>t. draw_rows img x (y + 1) (int (k + 12)) w (int sk) h u = Some t \<and> drawn u t \<and>
    (\<forall>x' y'. in_view u x' y' \<longrightarrow>
       pix t x' y' = (if x \<le> x' \<and> x' < x + int w \<and> y + 1 \<le> y' \<and> y' < y + 1 + int h
         then img ! (k + 12 + 12 * nat (y' - (y + 1)) + nat (x' - x)) else pix u x' y'))"
    by (rule Suc.IH) (use Suc.prems drawn_fields [OF u(2)] in auto)
  then obtain t where t: "draw_rows img x (y + 1) (int (k + 12)) w (int sk) h u = Some t" "drawn u t"
    "\<forall>x' y'. in_view u x' y' \<longrightarrow>
       pix t x' y' = (if x \<le> x' \<and> x' < x + int w \<and> y + 1 \<le> y' \<and> y' < y + 1 + int h
         then img ! (k + 12 + 12 * nat (y' - (y + 1)) + nat (x' - x)) else pix u x' y')"
    by blast
  have e: "int k + int w + int sk = int (k + 12)" using Suc.prems(3) by simp
  have "draw_rows img x y (int k) w (int sk) (Suc h) s = Some t"
    by (simp only: draw_rows.simps u(1) Option.bind.simps e t(1))
  moreover have "pix t x' y' = (if x \<le> x' \<and> x' < x + int w \<and> y \<le> y' \<and> y' < y + int (Suc h)
         then img ! (k + 12 * nat (y' - y) + nat (x' - x)) else pix s x' y')" if v': "in_view s x' y'" for x' y'
  proof -
    have "nat (y' - y) = Suc (nat (y' - (y + 1)))" if "y + 1 \<le> y'" using that by simp
    then show ?thesis using t(3) u(3) v' drawn_fields(7) [OF u(2)] by (auto simp: algebra_simps)
  qed
  ultimately show ?case using drawn_trans [OF u(2) t(2)] by blast
qed auto

text \<open>What a clipped block covers: the part of the block that is in the window.\<close>

lemma clip_block_cases:
  obtains (off) "clip_block px py s = None"
      "\<And>x y. in_view s x y \<Longrightarrow> \<not> (px \<le> x \<and> x < px + 12 \<and> py \<le> y \<and> y < py + 12)"
  | (on) x y k w h sk where "clip_block px py s = Some (x, y, int k, int w, int h, int sk)"
      "w + sk = 12" "k + 12 * h \<le> 144 + sk" "int k = 12 * (y - py) + (x - px)" "px \<le> x" "py \<le> y" "0 < w" "0 < h"
      "\<And>x' y'. (x \<le> x' \<and> x' < x + int w \<and> y \<le> y' \<and> y' < y + int h) =
         (in_view s x' y' \<and> px \<le> x' \<and> x' < px + 12 \<and> py \<le> y' \<and> y' < py + 12)"
proof (cases "clip_block px py s")
  case None
  then have "px + 12 \<le> show_x s \<or> px \<ge> show_x s + 320 \<or> py + 12 \<le> show_y s \<or> py \<ge> show_y s + 182"
    by (auto simp: clip_block_def Let_def split: if_splits)
  then have "\<not> (px \<le> x \<and> x < px + 12 \<and> py \<le> y \<and> y < py + 12)" if "in_view s x y" for x y
    using that by (auto simp: in_view_def)
  then show ?thesis using that(1) None by blast
next
  case (Some c)
  then have on: "\<not> (px + 12 \<le> show_x s \<or> px \<ge> show_x s + 320 \<or> py + 12 \<le> show_y s \<or> py \<ge> show_y s + 182)"
    by (auto simp: clip_block_def Let_def split: if_splits)
  define xl where "xl = max 0 (show_x s - px)"
  define xr where "xr = min 12 (show_x s + 320 - px)"
  define yt where "yt = max 0 (show_y s - py)"
  define yb where "yb = min 12 (show_y s + 182 - py)"
  note defs = xl_def xr_def yt_def yb_def
  have c: "clip_block px py s = Some (px + xl, py + yt, xl + yt * 12, xr - xl, yb - yt, 12 - (xr - xl))"
    using on by (simp add: clip_block_def Let_def defs max_def min_def not_le not_less)
  have b: "0 \<le> xl" "xl < xr" "xr \<le> 12" "0 \<le> yt" "yt < yb" "yb \<le> 12" using on by (auto simp: defs)
  show ?thesis
  proof (rule that(2))
    show "clip_block px py s = Some (px + xl, py + yt, int (nat (xl + yt * 12)), int (nat (xr - xl)),
        int (nat (yb - yt)), int (nat (12 - (xr - xl))))" using c b by simp
    show "nat (xr - xl) + nat (12 - (xr - xl)) = 12" using b by simp
    show "nat (xl + yt * 12) + 12 * nat (yb - yt) \<le> 144 + nat (12 - (xr - xl))" using b by simp
    show "int (nat (xl + yt * 12)) = 12 * (py + yt - py) + (px + xl - px)" using b by simp
    show "(px + xl \<le> x' \<and> x' < px + xl + int (nat (xr - xl)) \<and> py + yt \<le> y' \<and> y' < py + yt + int (nat (yb - yt))) =
         (in_view s x' y' \<and> px \<le> x' \<and> x' < px + 12 \<and> py \<le> y' \<and> y' < py + 12)" for x' y'
      using b by (auto simp: in_view_def defs)
  qed (use b in simp_all)
qed

lemma draw_full_block_pix:
  assumes "view_ok s" "length img = 144"
  shows "\<exists>t. draw_full_block px py img s = Some t \<and> drawn s t \<and>
    (\<forall>x y. in_view s x y \<longrightarrow>
       pix t x y = (if px \<le> x \<and> x < px + 12 \<and> py \<le> y \<and> y < py + 12
         then img ! nat (12 * (y - py) + (x - px)) else pix s x y))"
proof (cases rule: clip_block_cases [of px py s])
  case off
  then show ?thesis by (auto simp: draw_full_block_def)
next
  case (on x y k w h sk)
  have v: "\<forall>x' y'. x \<le> x' \<and> x' < x + int w \<and> y \<le> y' \<and> y' < y + int h \<longrightarrow> in_view s x' y'" using on(9) by blast
  have len: "k + 12 * h \<le> length img + sk" using on(3) assms(2) by simp
  obtain t where t: "draw_rows img x y (int k) w (int sk) h s = Some t" "drawn s t"
    "\<forall>x' y'. in_view s x' y' \<longrightarrow>
       pix t x' y' = (if x \<le> x' \<and> x' < x + int w \<and> y \<le> y' \<and> y' < y + int h
         then img ! (k + 12 * nat (y' - y) + nat (x' - x)) else pix s x' y')"
    using draw_rows_pix [OF assms(1) v on(2) len] by blast
  have "pix t x' y' = (if px \<le> x' \<and> x' < px + 12 \<and> py \<le> y' \<and> y' < py + 12
         then img ! nat (12 * (y' - py) + (x' - px)) else pix s x' y')" if v': "in_view s x' y'" for x' y'
  proof -
    have "k + 12 * nat (y' - y) + nat (x' - x) = nat (12 * (y' - py) + (x' - px))" if "x \<le> x'" "y \<le> y'"
      using on(4) that by (simp add: eq_nat_nat_iff)
    then show ?thesis using t(3) v' on(9) [of x' y'] by auto
  qed
  then show ?thesis using t(1,2) on(1) by (auto simp: draw_full_block_def)
qed

subsection \<open>Blocks with a mask\<close>

text \<open>What drawing with a mask may change.\<close>

definition masked :: "'a modex_scheme \<Rightarrow> 'a modex_scheme \<Rightarrow> bool" where
  "masked s t \<longleftrightarrow> (\<exists>u. drawn s u \<and> t = u\<lparr>g_mask := g_mask t\<rparr>) \<and> length (g_mask t) = length (g_mask s)"

lemma masked_fields:
  assumes "masked s t"
  shows "img3 t = img3 s" "img3_off t = img3_off s" "show_x t = show_x s" "show_y t = show_y s" "length (g_mask t) = length (g_mask s)"
    "pixel_index t x y = pixel_index s x y" "in_view t x y = in_view s x y" "view_ok t = view_ok s"
proof -
  obtain u g where u: "drawn s u" "t = u\<lparr>g_mask := g\<rparr>" using assms unfolding masked_def by blast
  show "img3 t = img3 s" "img3_off t = img3_off s" "show_x t = show_x s" "show_y t = show_y s" "length (g_mask t) = length (g_mask s)"
    "pixel_index t x y = pixel_index s x y" "in_view t x y = in_view s x y" "view_ok t = view_ok s"
    using drawn_fields [OF u(1)] assms u(2) by (simp_all add: masked_def pixel_index_def in_view_def view_ok_def)
qed

lemma masked_trans:
  assumes "masked s t" "masked t u" shows "masked s u"
proof -
  obtain b where b: "drawn s b" "t = b\<lparr>g_mask := g_mask t\<rparr>" using assms(1) unfolding masked_def by blast
  obtain c where c: "drawn t c" "u = c\<lparr>g_mask := g_mask u\<rparr>" using assms(2) unfolding masked_def by blast
  obtain bb where bb: "b = s\<lparr>build := bb\<rparr>" using b(1) unfolding drawn_def by blast
  obtain cc where cc: "c = t\<lparr>build := cc\<rparr>" using c(1) unfolding drawn_def by blast
  obtain g where g: "t = s\<lparr>build := bb, g_mask := g\<rparr>" using b(2) bb by blast
  have "drawn s (s\<lparr>build := cc\<rparr>)" using b(1) c(1) bb cc g by (simp add: drawn_def)
  moreover have "u = (s\<lparr>build := cc\<rparr>)\<lparr>g_mask := g_mask u\<rparr>" by (subst c(2)) (simp add: cc g)
  ultimately show ?thesis using assms unfolding masked_def by auto
qed

lemma mask_pixel:
  assumes "view_ok s" "in_view s x y" "j < length (g_mask s)" "j < length msk" "k < length img"
  obtains t where "masked s t" "g_mask t = (g_mask s)[j := pix s x y]"
    "\<And>n. mask_row img msk x y (int k) (int j) (Suc n) s = mask_row img msk (x + 1) y (int (Suc k)) (int (Suc j)) n t"
    "\<And>x' y'. in_view s x' y' \<Longrightarrow> pix t x' y' = (if x' = x \<and> y' = y \<and> msk ! j \<noteq> 0 then img ! k else pix s x' y')"
proof -
  let ?u = "s\<lparr>g_mask := (g_mask s)[j := pix s x y]\<rparr>"
  have ok: "view_ok ?u" and v: "in_view ?u x y" using assms(1,2) by (simp_all add: view_ok_def in_view_def)
  have ix: "pixel_index ?u a b = pixel_index s a b" for a b by (simp add: pixel_index_def)
  have old: "build_get (pixel_index s x y) s = Some (pix s x y)"
    using pixel_index_bounds [OF assms(1,2)] by (simp add: build_get_def pix_def modex_sizes)
  have px: "pix ?u a b = pix s a b" for a b unfolding pix_def [of ?u] ix by (simp add: pix_def)
  have iv: "in_view ?u a b = in_view s a b" for a b by (simp add: in_view_def)
  show ?thesis
  proof (cases "msk ! j = 0")
    case True
    have "masked s ?u" unfolding masked_def by (intro conjI exI [of _ s]) simp_all
    moreover have "mask_row img msk x y (int k) (int j) (Suc n) s = mask_row img msk (x + 1) y (int (Suc k)) (int (Suc j)) n ?u" for n
      using old True assms(3-5) by (simp add: add.commute)
    ultimately show ?thesis using that [of ?u] px True by simp
  next
    case False
    obtain t where t: "build_put (pixel_index ?u x y) (img ! k) ?u = Some t" "drawn ?u t"
      "\<forall>x' y'. in_view ?u x' y' \<longrightarrow> pix t x' y' = (if x' = x \<and> y' = y then img ! k else pix ?u x' y')"
      using put_pixel [OF ok v] by blast
    obtain b where b: "t = ?u\<lparr>build := b\<rparr>" using t(2) unfolding drawn_def by blast
    have "drawn s (s\<lparr>build := b\<rparr>)" using t(2) b by (simp add: drawn_def)
    then have "masked s t" unfolding masked_def b by (intro conjI exI [of _ "s\<lparr>build := b\<rparr>"]) simp_all
    moreover have "mask_row img msk x y (int k) (int j) (Suc n) s = mask_row img msk (x + 1) y (int (Suc k)) (int (Suc j)) n t" for n
      using old False assms(3-5) t(1) by (simp add: add.commute)
    moreover have "g_mask t = (g_mask s)[j := pix s x y]" by (simp add: b)
    ultimately show ?thesis using that [of t] t(3) px iv False by simp
  qed
qed

lemma mask_row_pix:
  assumes "view_ok s" "\<forall>x'. x \<le> x' \<and> x' < x + int n \<longrightarrow> in_view s x' y"
    and "j + n \<le> length (g_mask s)" "j + n \<le> length msk" "j + n \<le> length img"
  shows "\<exists>t. mask_row img msk x y (int j) (int j) n s = Some t \<and> masked s t \<and>
    (\<forall>i. g_mask t ! i = (if j \<le> i \<and> i < j + n then pix s (x + int (i - j)) y else g_mask s ! i)) \<and>
    (\<forall>x' y'. in_view s x' y' \<longrightarrow> pix t x' y' = (if y' = y \<and> x \<le> x' \<and> x' < x + int n \<and> msk ! (j + nat (x' - x)) \<noteq> 0
      then img ! (j + nat (x' - x)) else pix s x' y'))"
  using assms
proof (induction n arbitrary: x j s)
  case 0
  have "masked s s" unfolding masked_def by (intro conjI exI [of _ s]) simp_all
  then show ?case by auto
next
  case (Suc n)
  have v: "in_view s x y" using Suc.prems(2) by simp
  have lens: "j < length (g_mask s)" "j < length msk" "j < length img" using Suc.prems(3-5) by simp_all
  obtain u where u: "masked s u" "g_mask u = (g_mask s)[j := pix s x y]"
    "\<And>n. mask_row img msk x y (int j) (int j) (Suc n) s = mask_row img msk (x + 1) y (int (Suc j)) (int (Suc j)) n u"
    "\<And>x' y'. in_view s x' y' \<Longrightarrow> pix u x' y' = (if x' = x \<and> y' = y \<and> msk ! j \<noteq> 0 then img ! j else pix s x' y')"
    using mask_pixel [OF Suc.prems(1) v lens] by blast
  note f = masked_fields [OF u(1)]
  have "\<exists>t. mask_row img msk (x + 1) y (int (Suc j)) (int (Suc j)) n u = Some t \<and> masked u t \<and>
    (\<forall>i. g_mask t ! i = (if Suc j \<le> i \<and> i < Suc j + n then pix u (x + 1 + int (i - Suc j)) y else g_mask u ! i)) \<and>
    (\<forall>x' y'. in_view u x' y' \<longrightarrow> pix t x' y' = (if y' = y \<and> x + 1 \<le> x' \<and> x' < x + 1 + int n \<and> msk ! (Suc j + nat (x' - (x + 1))) \<noteq> 0
      then img ! (Suc j + nat (x' - (x + 1))) else pix u x' y'))"
    by (rule Suc.IH) (use Suc.prems f in auto)
  then obtain t where t: "mask_row img msk (x + 1) y (int (Suc j)) (int (Suc j)) n u = Some t" "masked u t"
    "\<And>i. g_mask t ! i = (if Suc j \<le> i \<and> i < Suc j + n then pix u (x + 1 + int (i - Suc j)) y else g_mask u ! i)"
    "\<And>x' y'. in_view u x' y' \<Longrightarrow> pix t x' y' = (if y' = y \<and> x + 1 \<le> x' \<and> x' < x + 1 + int n \<and> msk ! (Suc j + nat (x' - (x + 1))) \<noteq> 0
      then img ! (Suc j + nat (x' - (x + 1))) else pix u x' y')"
    by blast
  have saved: "g_mask t ! i = (if j \<le> i \<and> i < j + Suc n then pix s (x + int (i - j)) y else g_mask s ! i)" for i
  proof (cases "Suc j \<le> i \<and> i < Suc j + n")
    case True
    then have "in_view s (x + 1 + int (i - Suc j)) y" using Suc.prems(2) by auto
    moreover have "x + 1 + int (i - Suc j) = x + int (i - j)" "x + 1 + int (i - Suc j) \<noteq> x" using True by auto
    ultimately show ?thesis using True t(3) [of i] u(4) by auto
  next
    case False
    then show ?thesis using t(3) [of i] u(2) lens(1) by (cases "i = j") auto
  qed
  have "pix t x' y' = (if y' = y \<and> x \<le> x' \<and> x' < x + int (Suc n) \<and> msk ! (j + nat (x' - x)) \<noteq> 0
      then img ! (j + nat (x' - x)) else pix s x' y')" if v': "in_view s x' y'" for x' y'
  proof (cases "x + 1 \<le> x'")
    case True
    then have "nat (x' - x) = Suc (nat (x' - (x + 1)))" by simp
    then show ?thesis using True t(4) [of x' y'] u(4) [OF v'] v' f(7) by auto
  next
    case False
    then show ?thesis using t(4) [of x' y'] u(4) [OF v'] v' f(7) by auto
  qed
  then show ?case using u(3) [of n] t(1) saved masked_trans [OF u(1) t(2)] by auto
qed

lemma mask_rows_pix:
  assumes "view_ok s" "\<forall>x' y'. x \<le> x' \<and> x' < x + 12 \<and> y \<le> y' \<and> y' < y + int h \<longrightarrow> in_view s x' y'"
    and "j + 12 * h \<le> length (g_mask s)" "j + 12 * h \<le> length msk" "j + 12 * h \<le> length img"
  shows "\<exists>t. mask_rows img msk x y (int j) (int j) 12 0 h s = Some t \<and> masked s t \<and>
    (\<forall>i. g_mask t ! i = (if j \<le> i \<and> i < j + 12 * h then pix s (x + int ((i - j) mod 12)) (y + int ((i - j) div 12)) else g_mask s ! i)) \<and>
    (\<forall>x' y'. in_view s x' y' \<longrightarrow> pix t x' y' = (if y \<le> y' \<and> y' < y + int h \<and> x \<le> x' \<and> x' < x + 12 \<and>
        msk ! (j + 12 * nat (y' - y) + nat (x' - x)) \<noteq> 0
      then img ! (j + 12 * nat (y' - y) + nat (x' - x)) else pix s x' y'))"
  using assms
proof (induction h arbitrary: y j s)
  case 0
  have "masked s s" unfolding masked_def by (intro conjI exI [of _ s]) simp_all
  then show ?case by auto
next
  case (Suc h)
  have v: "\<forall>x'. x \<le> x' \<and> x' < x + int 12 \<longrightarrow> in_view s x' y" using Suc.prems(2) by simp
  have lens: "j + 12 \<le> length (g_mask s)" "j + 12 \<le> length msk" "j + 12 \<le> length img" using Suc.prems(3-5) by simp_all
  obtain u where u: "mask_row img msk x y (int j) (int j) 12 s = Some u" "masked s u"
    "\<And>i. g_mask u ! i = (if j \<le> i \<and> i < j + 12 then pix s (x + int (i - j)) y else g_mask s ! i)"
    "\<And>x' y'. in_view s x' y' \<Longrightarrow> pix u x' y' = (if y' = y \<and> x \<le> x' \<and> x' < x + int 12 \<and> msk ! (j + nat (x' - x)) \<noteq> 0
      then img ! (j + nat (x' - x)) else pix s x' y')"
    using mask_row_pix [OF Suc.prems(1) v lens] by blast
  note f = masked_fields [OF u(2)]
  have "\<exists>t. mask_rows img msk x (y + 1) (int (j + 12)) (int (j + 12)) 12 0 h u = Some t \<and> masked u t \<and>
    (\<forall>i. g_mask t ! i = (if j + 12 \<le> i \<and> i < j + 12 + 12 * h
       then pix u (x + int ((i - (j + 12)) mod 12)) (y + 1 + int ((i - (j + 12)) div 12)) else g_mask u ! i)) \<and>
    (\<forall>x' y'. in_view u x' y' \<longrightarrow> pix t x' y' = (if y + 1 \<le> y' \<and> y' < y + 1 + int h \<and> x \<le> x' \<and> x' < x + 12 \<and>
        msk ! (j + 12 + 12 * nat (y' - (y + 1)) + nat (x' - x)) \<noteq> 0
      then img ! (j + 12 + 12 * nat (y' - (y + 1)) + nat (x' - x)) else pix u x' y'))"
    by (rule Suc.IH) (use Suc.prems f in auto)
  then obtain t where t: "mask_rows img msk x (y + 1) (int (j + 12)) (int (j + 12)) 12 0 h u = Some t" "masked u t"
    "\<And>i. g_mask t ! i = (if j + 12 \<le> i \<and> i < j + 12 + 12 * h
       then pix u (x + int ((i - (j + 12)) mod 12)) (y + 1 + int ((i - (j + 12)) div 12)) else g_mask u ! i)"
    "\<And>x' y'. in_view u x' y' \<Longrightarrow> pix t x' y' = (if y + 1 \<le> y' \<and> y' < y + 1 + int h \<and> x \<le> x' \<and> x' < x + 12 \<and>
        msk ! (j + 12 + 12 * nat (y' - (y + 1)) + nat (x' - x)) \<noteq> 0
      then img ! (j + 12 + 12 * nat (y' - (y + 1)) + nat (x' - x)) else pix u x' y')"
    by blast
  have saved: "g_mask t ! i = (if j \<le> i \<and> i < j + 12 * Suc h
      then pix s (x + int ((i - j) mod 12)) (y + int ((i - j) div 12)) else g_mask s ! i)" for i
  proof (cases "j + 12 \<le> i")
    case True
    then obtain d where d: "i = j + 12 + d" using le_Suc_ex by blast
    have m: "(i - j) mod 12 = d mod 12" "(i - j) div 12 = Suc (d div 12)" "(12 + d) div 12 = Suc (d div 12)"
      by (simp_all add: d)
    show ?thesis
    proof (cases "d < 12 * h")
      case True
      then have "d div 12 < h" by simp
      then have "in_view s (x + int (d mod 12)) (y + 1 + int (d div 12))" using Suc.prems(2) by simp
      then show ?thesis using True t(3) [of i] u(4) by (simp add: d m add.assoc)
    next
      case False
      then show ?thesis using t(3) [of i] u(3) [of i] by (simp add: d)
    qed
  next
    case False
    then have "(i - j) mod 12 = i - j" "(i - j) div 12 = 0" by auto
    then show ?thesis using False t(3) [of i] u(3) [of i] by auto
  qed
  have "pix t x' y' = (if y \<le> y' \<and> y' < y + int (Suc h) \<and> x \<le> x' \<and> x' < x + 12 \<and>
        msk ! (j + 12 * nat (y' - y) + nat (x' - x)) \<noteq> 0
      then img ! (j + 12 * nat (y' - y) + nat (x' - x)) else pix s x' y')" if v': "in_view s x' y'" for x' y'
  proof (cases "y + 1 \<le> y'")
    case True
    then have "12 * nat (y' - y) = 12 + 12 * nat (y' - (y + 1))" by simp
    then show ?thesis using True t(4) [of x' y'] u(4) [OF v'] v' f(7) by (auto simp: add.assoc)
  next
    case False
    then show ?thesis using t(4) [of x' y'] u(4) [OF v'] v' f(7) by auto
  qed
  moreover have "mask_rows img msk x y (int j) (int j) 12 0 (Suc h) s = Some t"
    using u(1) t(1) by (simp add: add.commute)
  ultimately show ?case using saved masked_trans [OF u(2) t(2)] by blast
qed

lemma draw_mask_block_pix:
  assumes ok: "view_ok s" and "show_x s \<le> px" "px + 12 \<le> show_x s + 320" "show_y s \<le> py" "py + 12 \<le> show_y s + 182"
    and "length img = 144" "length msk = 144" "length (g_mask s) = 144"
  shows "\<exists>t. draw_mask_block px py img msk s = Some t \<and> masked s t \<and>
    (\<forall>x y. in_view s x y \<longrightarrow> pix t x y =
      (if px \<le> x \<and> x < px + 12 \<and> py \<le> y \<and> y < py + 12 \<and> msk ! nat (12 * (y - py) + (x - px)) \<noteq> 0
       then img ! nat (12 * (y - py) + (x - px)) else pix s x y)) \<and>
    (\<forall>x y. px \<le> x \<and> x < px + 12 \<and> py \<le> y \<and> y < py + 12 \<longrightarrow> g_mask t ! nat (12 * (y - py) + (x - px)) = pix s x y)"
proof -
  have c: "clip_block px py s = Some (px, py, 0, 12, 12, 0)" using assms(2-5) by (simp add: clip_block_def Let_def)
  have v: "\<forall>x' y'. px \<le> x' \<and> x' < px + 12 \<and> py \<le> y' \<and> y' < py + int 12 \<longrightarrow> in_view s x' y'"
    using assms(2-5) by (auto simp: in_view_def)
  obtain t where t: "mask_rows img msk px py (int 0) (int 0) 12 0 12 s = Some t" "masked s t"
    "\<And>i. g_mask t ! i = (if 0 \<le> i \<and> i < 0 + 12 * 12 then pix s (px + int ((i - 0) mod 12)) (py + int ((i - 0) div 12)) else g_mask s ! i)"
    "\<And>x' y'. in_view s x' y' \<Longrightarrow> pix t x' y' = (if py \<le> y' \<and> y' < py + int 12 \<and> px \<le> x' \<and> x' < px + 12 \<and>
        msk ! (0 + 12 * nat (y' - py) + nat (x' - px)) \<noteq> 0
      then img ! (0 + 12 * nat (y' - py) + nat (x' - px)) else pix s x' y')"
    using mask_rows_pix [OF ok v, of 0 msk img] assms(6-8) by auto
  have n: "nat (12 * (y - py) + (x - px)) = 12 * nat (y - py) + nat (x - px)" if "px \<le> x" "py \<le> y" for x y
    using that by (simp add: nat_add_distrib nat_mult_distrib)
  have "g_mask t ! nat (12 * (y - py) + (x - px)) = pix s x y" if b: "px \<le> x" "x < px + 12" "py \<le> y" "y < py + 12" for x y
  proof -
    have "nat (x - px) < 12" "nat (y - py) < 12" using b by simp_all
    then have "(12 * nat (y - py) + nat (x - px)) mod 12 = nat (x - px)" "(12 * nat (y - py) + nat (x - px)) div 12 = nat (y - py)"
      "12 * nat (y - py) + nat (x - px) < 144" by simp_all
    then show ?thesis using t(3) [of "12 * nat (y - py) + nat (x - px)"] b n by simp
  qed
  moreover have "draw_mask_block px py img msk s = Some t" using t(1) c by (simp add: draw_mask_block_def)
  ultimately show ?thesis using t(2,4) n by (intro exI [of _ t]) auto
qed

subsection \<open>Lines\<close>

lemma vert_loop_pix:
  assumes "view_ok s" "\<forall>y'. y \<le> y' \<and> y' < y + int n \<longrightarrow> in_view s x y'" "i + n \<le> length buf"
  shows "\<exists>t. vert_loop buf (img3 s + x div 4 + y * 80) (3 - x mod 4) (int i) n s = Some t \<and> drawn s t \<and>
    (\<forall>x' y'. in_view s x' y' \<longrightarrow>
       pix t x' y' = (if x' = x \<and> y \<le> y' \<and> y' < y + int n then buf ! (i + nat (y' - y)) else pix s x' y'))"
  using assms
proof (induction n arbitrary: y i s)
  case (Suc n)
  have v: "in_view s x y" using Suc.prems(2) by simp
  obtain u where u: "build_put (pixel_index s x y) (buf ! i) s = Some u" "drawn s u"
    "\<forall>x' y'. in_view s x' y' \<longrightarrow> pix u x' y' = (if x' = x \<and> y' = y then buf ! i else pix s x' y')"
    using put_pixel [OF Suc.prems(1) v] by blast
  have "\<exists>t. vert_loop buf (img3 u + x div 4 + (y + 1) * 80) (3 - x mod 4) (int (Suc i)) n u = Some t \<and> drawn u t \<and>
    (\<forall>x' y'. in_view u x' y' \<longrightarrow>
       pix t x' y' = (if x' = x \<and> y + 1 \<le> y' \<and> y' < y + 1 + int n then buf ! (Suc i + nat (y' - (y + 1))) else pix u x' y'))"
    by (rule Suc.IH) (use Suc.prems drawn_fields [OF u(2)] in auto)
  then obtain t where t: "vert_loop buf (img3 u + x div 4 + (y + 1) * 80) (3 - x mod 4) (int (Suc i)) n u = Some t" "drawn u t"
    "\<forall>x' y'. in_view u x' y' \<longrightarrow>
       pix t x' y' = (if x' = x \<and> y + 1 \<le> y' \<and> y' < y + 1 + int n then buf ! (Suc i + nat (y' - (y + 1))) else pix u x' y')"
    by blast
  have "pix t x' y' = (if x' = x \<and> y \<le> y' \<and> y' < y + int (Suc n) then buf ! (i + nat (y' - y)) else pix s x' y')"
    if v': "in_view s x' y'" for x' y'
  proof -
    have "nat (y' - y) = Suc (nat (y' - (y + 1)))" if "y + 1 \<le> y'" using that by simp
    then show ?thesis using t(3) u(3) v' drawn_fields(7) [OF u(2)] by auto
  qed
  moreover have "vert_loop buf (img3 s + x div 4 + y * 80) (3 - x mod 4) (int i) (Suc n) s = Some t"
    using u(1) t(1) Suc.prems(3) drawn_fields(1) [OF u(2)] by (simp add: pixel_index_def algebra_simps)
  ultimately show ?case using drawn_trans [OF u(2) t(2)] by blast
qed auto

lemma next_column:
  "(x + 1) div 4 = (if x mod 4 = 3 then x div 4 + 1 else x div 4)" "(x + 1) mod 4 = (if x mod 4 = 3 then 0 else x mod 4 + 1)"
  for x :: int
proof -
  have "x mod 4 = 0 \<or> x mod 4 = 1 \<or> x mod 4 = 2 \<or> x mod 4 = 3" by auto
  moreover have "x = 4 * (x div 4) + x mod 4" by simp
  ultimately obtain q r where "x = 4 * q + r" "r = 0 \<or> r = 1 \<or> r = 2 \<or> r = 3" by metis
  then show "(x + 1) div 4 = (if x mod 4 = 3 then x div 4 + 1 else x div 4)"
    "(x + 1) mod 4 = (if x mod 4 = 3 then 0 else x mod 4 + 1)" by (elim disjE; simp)+
qed

lemma horiz_loop_pix:
  assumes "view_ok s" "\<forall>x'. x \<le> x' \<and> x' < x + int n \<longrightarrow> in_view s x' y" "i + n \<le> length buf"
  shows "\<exists>t. horiz_loop buf (img3 s + x div 4 + y * 80) (3 - x mod 4) (int i) n s = Some t \<and> drawn s t \<and>
    (\<forall>x' y'. in_view s x' y' \<longrightarrow>
       pix t x' y' = (if y' = y \<and> x \<le> x' \<and> x' < x + int n then buf ! (i + nat (x' - x)) else pix s x' y'))"
  using assms
proof (induction n arbitrary: x i s)
  case (Suc n)
  have v: "in_view s x y" using Suc.prems(2) by simp
  obtain u where u: "build_put (pixel_index s x y) (buf ! i) s = Some u" "drawn s u"
    "\<forall>x' y'. in_view s x' y' \<longrightarrow> pix u x' y' = (if x' = x \<and> y' = y then buf ! i else pix s x' y')"
    using put_pixel [OF Suc.prems(1) v] by blast
  have "\<exists>t. horiz_loop buf (img3 u + (x + 1) div 4 + y * 80) (3 - (x + 1) mod 4) (int (Suc i)) n u = Some t \<and> drawn u t \<and>
    (\<forall>x' y'. in_view u x' y' \<longrightarrow>
       pix t x' y' = (if y' = y \<and> x + 1 \<le> x' \<and> x' < x + 1 + int n then buf ! (Suc i + nat (x' - (x + 1))) else pix u x' y'))"
    by (rule Suc.IH) (use Suc.prems drawn_fields [OF u(2)] in auto)
  then obtain t where t: "horiz_loop buf (img3 u + (x + 1) div 4 + y * 80) (3 - (x + 1) mod 4) (int (Suc i)) n u = Some t" "drawn u t"
    "\<forall>x' y'. in_view u x' y' \<longrightarrow>
       pix t x' y' = (if y' = y \<and> x + 1 \<le> x' \<and> x' < x + 1 + int n then buf ! (Suc i + nat (x' - (x + 1))) else pix u x' y')"
    by blast
  have "pix t x' y' = (if y' = y \<and> x \<le> x' \<and> x' < x + int (Suc n) then buf ! (i + nat (x' - x)) else pix s x' y')"
    if v': "in_view s x' y'" for x' y'
  proof -
    have "nat (x' - x) = Suc (nat (x' - (x + 1)))" if "x + 1 \<le> x'" using that by simp
    then show ?thesis using t(3) u(3) v' drawn_fields(7) [OF u(2)] by auto
  qed
  moreover have "horiz_loop buf (img3 s + x div 4 + y * 80) (3 - x mod 4) (int i) (Suc n) s = Some t"
  proof -
    have "img3 s + x div 4 + y * 80 + (3 - x mod 4) * SCROLL_SIZE = pixel_index s x y" by (simp add: pixel_index_def)
    moreover have "x mod 4 \<le> 3" by simp
    ultimately show ?thesis
      using u(1) t(1) Suc.prems(3) drawn_fields(1) [OF u(2)] unfolding next_column
      by (cases "x mod 4 = 3") (simp_all add: algebra_simps)
  qed
  ultimately show ?case using drawn_trans [OF u(2) t(2)] by blast
qed auto

lemma draw_vert_line_pix:
  assumes "view_ok s" "0 \<le> x" "x < 320" "fn (x + show_x s) (show_y s) = Some buf" "length buf = 182"
  shows "\<exists>t. draw_vert_line fn x s = Some (0, t) \<and> drawn s t \<and>
    (\<forall>x' y'. in_view s x' y' \<longrightarrow>
       pix t x' y' = (if x' = x + show_x s then buf ! nat (y' - show_y s) else pix s x' y'))"
proof -
  have v: "\<forall>y'. show_y s \<le> y' \<and> y' < show_y s + int 182 \<longrightarrow> in_view s (x + show_x s) y'"
    using assms(2,3) by (simp add: in_view_def)
  obtain t where t: "vert_loop buf (img3 s + (x + show_x s) div 4 + show_y s * 80) (3 - (x + show_x s) mod 4) (int 0) 182 s = Some t"
    "drawn s t" "\<forall>x' y'. in_view s x' y' \<longrightarrow> pix t x' y' =
      (if x' = x + show_x s \<and> show_y s \<le> y' \<and> y' < show_y s + int 182 then buf ! (0 + nat (y' - show_y s)) else pix s x' y')"
    using vert_loop_pix [OF assms(1) v, of 0 buf] assms(5) by auto
  have "draw_vert_line fn x s = Some (0, t)"
    using assms(2-4) t(1) by (simp add: draw_vert_line_def Let_def)
  moreover have "show_y s \<le> y' \<and> y' < show_y s + int 182" if "in_view s x' y'" for x' y'
    using that by (simp add: in_view_def)
  ultimately show ?thesis using t(2,3) by auto
qed

lemma draw_horiz_line_pix:
  assumes "view_ok s" "0 \<le> y" "y < 182" "fn (show_x s) (y + show_y s) = Some buf" "length buf = 320"
  shows "\<exists>t. draw_horiz_line fn y s = Some (0, t) \<and> drawn s t \<and>
    (\<forall>x' y'. in_view s x' y' \<longrightarrow>
       pix t x' y' = (if y' = y + show_y s then buf ! nat (x' - show_x s) else pix s x' y'))"
proof -
  have v: "\<forall>x'. show_x s \<le> x' \<and> x' < show_x s + int 320 \<longrightarrow> in_view s x' (y + show_y s)"
    using assms(2,3) by (simp add: in_view_def)
  obtain t where t: "horiz_loop buf (img3 s + show_x s div 4 + (y + show_y s) * 80) (3 - show_x s mod 4) (int 0) 320 s = Some t"
    "drawn s t" "\<forall>x' y'. in_view s x' y' \<longrightarrow> pix t x' y' =
      (if y' = y + show_y s \<and> show_x s \<le> x' \<and> x' < show_x s + int 320 then buf ! (0 + nat (x' - show_x s)) else pix s x' y')"
    using horiz_loop_pix [OF assms(1) v, of 0 buf] assms(5) by auto
  have "draw_horiz_line fn y s = Some (0, t)"
    using assms(2-4) t(1) by (simp add: draw_horiz_line_def Let_def)
  moreover have "show_x s \<le> x' \<and> x' < show_x s + int 320" if "in_view s x' y'" for x' y'
    using that by (simp add: in_view_def)
  ultimately show ?thesis using t(2,3) by auto
qed

subsection \<open>Moving the view window\<close>

lemma empty_range [simp]:
  "(a \<le> j \<and> j < a) = False" "(a \<le> j \<and> j < a \<and> P) = False" for a j :: "'b :: linorder"
  by auto

lemma copy_down_eq:
  assumes "start < target" "0 \<le> start" "target + int n \<le> BUILD_BUF_SIZE + 512"
  shows "copy_down target start n s =
    Some (s\<lparr>build := (\<lambda>j. if target \<le> j \<and> j < target + int n then build s (j - target + start) else build s j)\<rparr>)"
  using assms(3)
proof (induction n arbitrary: s)
  case (Suc n)
  let ?u = "s\<lparr>build := (build s)(target + int n := build s (start + int n))\<rparr>"
  have "build_get (start + int n) s = Some (build s (start + int n))"
    using assms(1,2) Suc.prems by (simp add: build_get_def)
  moreover have "build_put (target + int n) (build s (start + int n)) s = Some ?u"
    using assms(1,2) Suc.prems by (simp add: build_put_def)
  ultimately have "copy_down target start (Suc n) s =
      Some (?u\<lparr>build := (\<lambda>j. if target \<le> j \<and> j < target + int n then build ?u (j - target + start) else build ?u j)\<rparr>)"
    using Suc.IH [of ?u] Suc.prems by simp
  moreover have "(\<lambda>j. if target \<le> j \<and> j < target + int n then build ?u (j - target + start) else build ?u j) =
      (\<lambda>j. if target \<le> j \<and> j < target + int (Suc n) then build s (j - target + start) else build s j)"
    using assms(1) by (intro ext) (auto simp: add.commute)
  ultimately show ?case by simp
qed simp

lemma copy_up_eq:
  assumes "target \<le> start" "0 \<le> target"
  shows "0 \<le> i \<Longrightarrow> start + i + int n \<le> BUILD_BUF_SIZE + 512 \<Longrightarrow> copy_up target start i n s =
    Some (s\<lparr>build := (\<lambda>j. if target + i \<le> j \<and> j < target + i + int n then build s (j - target + start) else build s j)\<rparr>)"
proof (induction n arbitrary: i s)
  case (Suc n)
  let ?u = "s\<lparr>build := (build s)(target + i := build s (start + i))\<rparr>"
  have "build_get (start + i) s = Some (build s (start + i))"
    using assms Suc.prems by (simp add: build_get_def)
  moreover have "build_put (target + i) (build s (start + i)) s = Some ?u"
    using assms Suc.prems by (simp add: build_put_def)
  ultimately have "copy_up target start i (Suc n) s =
      Some (?u\<lparr>build := (\<lambda>j. if target + (i + 1) \<le> j \<and> j < target + (i + 1) + int n then build ?u (j - target + start) else build ?u j)\<rparr>)"
    using Suc.IH [of "i + 1" ?u] Suc.prems by simp
  moreover have "(\<lambda>j. if target + (i + 1) \<le> j \<and> j < target + (i + 1) + int n then build ?u (j - target + start) else build ?u j) =
      (\<lambda>j. if target + i \<le> j \<and> j < target + i + int (Suc n) then build s (j - target + start) else build s j)"
    using assms(1) by (intro ext) (auto simp: add.commute)
  ultimately show ?case by simp
qed simp

text \<open>Either way the copied bytes arrive as they were.\<close>

lemma copy_either:
  assumes "0 \<le> start" "0 \<le> target" "target + n \<le> BUILD_BUF_SIZE + 512" "start + n \<le> BUILD_BUF_SIZE + 512" "0 \<le> n"
  shows "(if start < target then copy_down target start (nat n) s else copy_up target start 0 (nat n) s) =
    Some (s\<lparr>build := (\<lambda>j. if target \<le> j \<and> j < target + n then build s (j - target + start) else build s j)\<rparr>)"
  using copy_down_eq [of start target "nat n" s] copy_up_eq [of target start 0 "nat n" s] assms by simp

lemma quarter_span: "(a + 319) div 4 \<le> a div 4 + 80" for a :: int
  by presburger

lemma set_view_window_pix:
  assumes ok: "view_ok s"
  shows "\<exists>t. set_view_window X Y s = Some t \<and> view_ok t \<and> show_x t = X \<and> show_y t = Y \<and> g_mask t = g_mask s \<and>
    (\<forall>i. i < 256 \<or> 256 + BUILD_BUF_SIZE \<le> i \<longrightarrow> build t i = build s i) \<and>
    (\<forall>x y. in_view s x y \<and> in_view t x y \<longrightarrow> pix t x y = pix s x y)"
proof -
  have i3: "img3 s = img3_off s + 256" using ok by (simp add: view_ok_def)
  have lo: "0 \<le> img3_off s + show_x s div 4 + show_y s * 80"
    and hi: "img3_off s + (show_x s + 319) div 4 + show_y s * 80 < 21503"
    using ok by (simp_all add: view_ok_def modex_sizes)
  let ?fits = "img3_off s + X div 4 + Y * 80 \<ge> 0 \<and>
    img3_off s + 3 * SCROLL_SIZE + (X + 320 - 1) div 4 + (Y + 182 - 1) * 80 < BUILD_BUF_SIZE"
  let ?apart = "X \<le> show_x s - 320 \<or> X \<ge> show_x s + 320 \<or> Y \<le> show_y s - 200 - 18 \<or> Y \<ge> show_y s + 182"
  have centred: "view_ok (s\<lparr>show_x := X, show_y := Y, img3_off := 10000 - X div 4 - Y * 80,
      img3 := 10000 - X div 4 - Y * 80 + 256, build := b\<rparr>)" for b
    using quarter_span [of X] by (simp add: view_ok_def modex_sizes)
  consider "?fits" | "\<not> ?fits" "?apart" | "\<not> ?fits" "\<not> ?apart" by blast
  then show ?thesis
  proof cases
    case 1
    then have "set_view_window X Y s = Some (s\<lparr>show_x := X, show_y := Y\<rparr>)" by (simp add: set_view_window_def Let_def)
    moreover have "view_ok (s\<lparr>show_x := X, show_y := Y\<rparr>)" using 1 i3 by (simp add: view_ok_def add.commute)
    ultimately show ?thesis by (simp add: pix_def pixel_index_def)
  next
    case 2
    let ?t = "s\<lparr>show_x := X, show_y := Y, img3_off := 10000 - X div 4 - Y * 80, img3 := 10000 - X div 4 - Y * 80 + 256\<rparr>"
    have "set_view_window X Y s = Some ?t"
      unfolding set_view_window_def Let_def
      using 2 by (subst if_not_P, simp add: algebra_simps, subst if_P, simp) (simp add: modex_sizes)
    moreover have "\<not> (in_view s x y \<and> in_view ?t x y)" for x y
      using 2(2) by (auto simp: in_view_def)
    ultimately show ?thesis using centred [of "build s"] by auto
  next
    case 3
    define sx sy where "sx = max X (show_x s)" and "sy = max Y (show_y s)"
    define ex ey where "ex = min X (show_x s) + 319" and "ey = min Y (show_y s) + 181"
    define qs qe qX qE where q: "qs = sx div 4" "qe = ex div 4" "qX = X div 4" "qE = (X + 319) div 4"
    define so where "so = qs + sy * 80"
    define n where "n = qe + ey * 80 + 1 - so + 3 * 15982"
    define off where "off = 10000 - qX - Y * 80"
    define st where "st = img3 s + so"
    define tg where "tg = off + 256 + so"
    let ?u = "s\<lparr>show_x := X, show_y := Y, img3_off := off, img3 := off + 256\<rparr>"
    have dx: "(if X > show_x s then (X, show_x s) else (show_x s, X)) = (sx, ex - 319)"
      and dy: "(if Y > show_y s then (Y, show_y s) else (show_y s, Y)) = (sy, ey - 181)"
      by (simp_all add: sx_def sy_def ex_def ey_def)
    have step: "set_view_window X Y s = (if st < tg then copy_down tg st (nat n) ?u else copy_up tg st 0 (nat n) ?u)"
      unfolding set_view_window_def Let_def
      using 3 by (subst if_not_P, simp add: algebra_simps, subst if_not_P, simp,
          simp only: modex.simps dx dy prod.case)
        (simp add: modex_sizes st_def tg_def so_def n_def off_def q i3)
    obtain qo qO where o: "qo = show_x s div 4" "qO = (show_x s + 319) div 4" by blast
    have mono: "qo \<le> qs" "qX \<le> qs" "qe \<le> qO" "qe \<le> qE"
      unfolding q o by (intro zdiv_mono1; simp add: sx_def ex_def)+
    have span: "qE \<le> qX + 80" unfolding q by (rule quarter_span)
    have y: "show_y s \<le> sy" "Y \<le> sy" "ey \<le> show_y s + 181" "ey \<le> Y + 181" by (simp_all add: sy_def ey_def)
    have near: "sx \<le> ex" "sy - 217 \<le> ey - 181" using 3(2) by (auto simp: sx_def ex_def sy_def ey_def)
    then have "qs \<le> qe" unfolding q by (intro zdiv_mono1) simp_all
    then have n0: "0 \<le> n" using near(2) by (simp add: n_def so_def)
    note lo = lo [folded o] and hi = hi [folded o]
    have st0: "0 \<le> st" using mono y lo i3 by (simp add: st_def so_def)
    have stn: "st + n \<le> BUILD_BUF_SIZE + 512" using mono y hi i3 by (simp add: st_def n_def modex_sizes)
    have tg0: "256 \<le> tg" using mono y by (simp add: tg_def off_def so_def)
    have tgn: "tg + n \<le> BUILD_BUF_SIZE + 256"
      using mono y span by (simp add: tg_def n_def off_def modex_sizes)
    let ?b = "\<lambda>j. if tg \<le> j \<and> j < tg + n then build s (j - tg + st) else build s j"
    have bu: "build ?u = build s" by simp
    have copied: "set_view_window X Y s =
        Some (?u\<lparr>build := (\<lambda>j. if tg \<le> j \<and> j < tg + n then build ?u (j - tg + st) else build ?u j)\<rparr>)"
      unfolding step by (rule copy_either) (use st0 stn tg0 tgn n0 in \<open>simp_all add: modex_sizes\<close>)
    have "set_view_window X Y s = Some (?u\<lparr>build := ?b\<rparr>)"
      using copied by (simp only: bu)
    moreover have "view_ok (?u\<lparr>build := ?b\<rparr>)" using centred [of ?b] by (simp add: off_def q)
    moreover have "\<forall>i. i < 256 \<or> 256 + BUILD_BUF_SIZE \<le> i \<longrightarrow> ?b i = build s i" using tg0 tgn by auto
    moreover have "pix (?u\<lparr>build := ?b\<rparr>) x y = pix s x y"
      if v: "in_view s x y" "in_view (?u\<lparr>build := ?b\<rparr>) x y" for x y
    proof -
      define r qx where rq: "r = x mod 4" "qx = x div 4"
      let ?p = "qx + y * 80 + (3 - r) * 15982"
      have xy: "sx \<le> x" "x \<le> ex" "sy \<le> y" "y \<le> ey" using v by (auto simp: in_view_def sx_def sy_def ex_def ey_def)
      have d: "qs \<le> qx" "qx \<le> qe" using xy by (simp_all add: q rq zdiv_mono1)
      have r: "0 \<le> r" "r \<le> 3" by (simp_all add: rq)
      have "so \<le> ?p" unfolding so_def left_diff_distrib using xy d r by linarith
      moreover have "?p < so + n" unfolding n_def left_diff_distrib using xy d r by linarith
      ultimately have in_range: "tg \<le> off + 256 + ?p \<and> off + 256 + ?p < tg + n" by (simp add: tg_def)
      have "pix (?u\<lparr>build := ?b\<rparr>) x y = ?b (off + 256 + ?p)" by (simp add: pix_def pixel_index_def modex_sizes rq add.assoc)
      also have "\<dots> = build s (off + 256 + ?p - tg + st)" using in_range by simp
      also have "off + 256 + ?p - tg + st = img3 s + ?p" by (simp add: tg_def st_def)
      finally show ?thesis by (simp add: pix_def pixel_index_def modex_sizes rq add.assoc)
    qed
    ultimately show ?thesis by auto
  qed
qed

subsection \<open>Showing the view window\<close>

lemma copy_bytes_eq:
  assumes "0 \<le> img" "img + int k \<le> BUILD_BUF_SIZE + 512"
  shows "copy_bytes img scr k s = Some (s\<lparr>vram := (\<lambda>p i. if p < 4 \<and> bit (write_mask s) (8 + p) \<and> scr \<le> i \<and> i < scr + k
     then build s (img + int (i - scr)) else vram s p i)\<rparr>)"
  using assms
proof (induction k arbitrary: img scr s)
  case (Suc k)
  let ?u = "vram_write scr (build s img) s"
  have "build_get img s = Some (build s img)" using Suc.prems by (simp add: build_get_def)
  moreover have u: "build ?u = build s" "write_mask ?u = write_mask s" by (simp_all add: vram_write_def)
  ultimately have "copy_bytes img scr (Suc k) s = Some (?u\<lparr>vram := (\<lambda>p i. if p < 4 \<and> bit (write_mask s) (8 + p) \<and>
      scr + 1 \<le> i \<and> i < scr + 1 + k then build s (img + 1 + int (i - (scr + 1))) else vram ?u p i)\<rparr>)"
    using Suc.IH [of "img + 1" "scr + 1" ?u] Suc.prems by (simp cong: if_cong)
  moreover have "(\<lambda>p i. if p < 4 \<and> bit (write_mask s) (8 + p) \<and> scr + 1 \<le> i \<and> i < scr + 1 + k
      then build s (img + 1 + int (i - (scr + 1))) else vram ?u p i) =
    (\<lambda>p i. if p < 4 \<and> bit (write_mask s) (8 + p) \<and> scr \<le> i \<and> i < scr + Suc k
      then build s (img + int (i - scr)) else vram s p i)"
  proof (intro ext)
    fix p i
    have "Suc scr \<le> i \<longleftrightarrow> scr \<le> i \<and> i \<noteq> scr" by auto
    then show "(if p < 4 \<and> bit (write_mask s) (8 + p) \<and> scr + 1 \<le> i \<and> i < scr + 1 + k
        then build s (img + 1 + int (i - (scr + 1))) else vram ?u p i) =
      (if p < 4 \<and> bit (write_mask s) (8 + p) \<and> scr \<le> i \<and> i < scr + Suc k
        then build s (img + int (i - scr)) else vram s p i)"
      by (cases "i = scr") (auto simp: vram_write_def of_nat_diff)
  qed
  ultimately show ?case by (simp add: vram_write_def)
qed (simp add: cong: if_cong)

lemma copy_plane:
  assumes "0 \<le> img" "img + int 16000 \<le> BUILD_BUF_SIZE + 512" "\<And>p. (p < 4 \<and> bit w (8 + p)) = (p = i)"
  shows "copy_image img a (s\<lparr>write_mask := w\<rparr>) = Some (s\<lparr>write_mask := w, vram := (\<lambda>p j.
     if p = i \<and> unat a \<le> j \<and> j < unat a + 16000 then build s (img + int (j - unat a)) else vram s p j)\<rparr>)"
proof -
  have "(p < 4 \<and> bit w (8 + p) \<and> P) = (p = i \<and> P)" for p P using assms(3) [of p] by blast
  then show ?thesis
    using copy_bytes_eq [OF assms(1,2), of "unat a" "s\<lparr>write_mask := w\<rparr>"] by (simp add: copy_image_def cong: if_cong)
qed

lemma show_planes_eq:
  assumes "0 \<le> addr" "addr + 3 * SCROLL_SIZE + 1 + 16000 \<le> BUILD_BUF_SIZE + 512" "0 \<le> p_off" "p_off < 4"
  shows "i + k \<le> 4 \<Longrightarrow> \<exists>m. show_planes addr p_off i k s =
    Some (s\<lparr>write_mask := m, vram := (\<lambda>p j. if i \<le> p \<and> p < i + k \<and> unat (target_img s) \<le> j \<and> j < unat (target_img s) + 16000
      then build s (addr + (p_off - int p + 4) mod 4 * SCROLL_SIZE + of_bool (p_off < int p) + int (j - unat (target_img s)))
      else vram s p j)\<rparr>)"
proof (induction k arbitrary: i s)
  case 0
  show ?case by (intro exI [of _ "write_mask s"]) (simp cong: if_cong)
next
  case (Suc k)
  let ?tg = "unat (target_img s)"
  let ?src = "\<lambda>p. addr + (p_off - int p + 4) mod 4 * SCROLL_SIZE + of_bool (p_off < int p)"
  let ?v = "\<lambda>p j. if p = i \<and> ?tg \<le> j \<and> j < ?tg + 16000 then build s (?src i + int (j - ?tg)) else vram s p j"
  let ?u = "s\<lparr>write_mask := push_bit (i + 8) 1, vram := ?v\<rparr>"
  have r: "0 \<le> (p_off - int i + 4) mod 4" "(p_off - int i + 4) mod 4 \<le> 3" by simp_all
  have b: "0 \<le> ?src i" "?src i + int 16000 \<le> BUILD_BUF_SIZE + 512"
    using assms(1,2) r by (auto simp: modex_sizes)
  have i: "i < 4" using Suc.prems by simp
  have bit: "p < 4 \<and> bit (push_bit (i + 8) 1 :: u16) (8 + p) \<longleftrightarrow> p = i" for p
    using i by (auto simp: bit_simps)
  have "copy_image (?src i) (target_img s) (s\<lparr>write_mask := push_bit (i + 8) 1\<rparr>) = Some ?u"
    by (rule copy_plane [OF b bit])
  moreover have "target_img (s\<lparr>write_mask := push_bit (i + 8) 1\<rparr>) = target_img s" by simp
  ultimately have step: "show_planes addr p_off i (Suc k) s = show_planes addr p_off (i + 1) k ?u"
    by (simp only: show_planes.simps SET_WRITE_MASK_def Let_def Option.bind.simps)
  obtain m where m: "show_planes addr p_off (i + 1) k ?u =
    Some (?u\<lparr>write_mask := m, vram := (\<lambda>p j. if i + 1 \<le> p \<and> p < i + 1 + k \<and> ?tg \<le> j \<and> j < ?tg + 16000
      then build s (?src p + int (j - ?tg)) else ?v p j)\<rparr>)"
    using Suc.IH [of "i + 1" ?u] Suc.prems by (auto cong: if_cong)
  have "(\<lambda>p j. if i + 1 \<le> p \<and> p < i + 1 + k \<and> ?tg \<le> j \<and> j < ?tg + 16000
      then build s (?src p + int (j - ?tg)) else ?v p j) =
    (\<lambda>p j. if i \<le> p \<and> p < i + Suc k \<and> ?tg \<le> j \<and> j < ?tg + 16000 then build s (?src p + int (j - ?tg)) else vram s p j)"
    by (intro ext) auto
  then show ?case using step m by (intro exI [of _ m]) simp
qed

lemma plane_of_pixel:
  fixes m i :: int
  assumes "0 \<le> m" "m < 4" "0 \<le> i" "i < 4"
  shows "(3 - m - i + 4) mod 4 = 3 - (m + i) mod 4" "of_bool (3 - m < i) = (m + i) div 4"
proof -
  have "m = 0 \<or> m = 1 \<or> m = 2 \<or> m = 3" "i = 0 \<or> i = 1 \<or> i = 2 \<or> i = 3" using assms by auto
  then show "(3 - m - i + 4) mod 4 = 3 - (m + i) mod 4" "of_bool (3 - m < i) = (m + i) div 4"
    by (elim disjE; simp)+
qed

lemma pixel_column:
  fixes a i k :: int
  shows "(a + (4 * k + i)) div 4 = a div 4 + k + (a mod 4 + i) div 4" "(a + (4 * k + i)) mod 4 = (a mod 4 + i) mod 4"
proof -
  have e: "a + (4 * k + i) = (a mod 4 + i) + (a div 4 + k) * 4"
    using div_mult_mod_eq [of a 4] by (simp only: distrib_right)
  show "(a + (4 * k + i)) div 4 = a div 4 + k + (a mod 4 + i) div 4"
    by (subst e, subst div_mult_self1) simp_all
  show "(a + (4 * k + i)) mod 4 = (a mod 4 + i) mod 4"
    by (subst e, subst mod_mult_self1) simp
qed

lemma show_screen_pix:
  assumes ok: "view_ok s" and room: "img3 s + show_x s div 4 + show_y s * 80 + 3 * SCROLL_SIZE + 16001 \<le> BUILD_BUF_SIZE + 512"
  shows "\<exists>t. show_screen s = Some t \<and> target_img t = target_img s XOR 0x4000 \<and>
    (\<forall>c<320. \<forall>r<182. vram t (c mod 4) (unat (target_img t) + r * 80 + c div 4) = pix s (show_x s + int c) (show_y s + int r)) \<and>
    (\<forall>p j. j < unat (target_img t) \<or> unat (target_img t) + 16000 \<le> j \<longrightarrow> vram t p j = vram s p j)"
proof -
  let ?tg = "target_img s XOR 0x4000" and ?m = "show_x s mod 4"
  let ?addr = "img3 s + show_x s div 4 + show_y s * 80"
  let ?s = "s\<lparr>target_img := ?tg\<rparr>"
  have m: "0 \<le> ?m" "?m < 4" by simp_all
  have a0: "0 \<le> ?addr" using ok by (simp add: view_ok_def)
  have room': "?addr + 3 * SCROLL_SIZE + 1 + 16000 \<le> BUILD_BUF_SIZE + 512" using room by simp
  have p: "0 \<le> 3 - ?m" "3 - ?m < 4" and four: "0 + 4 \<le> (4 :: nat)" using m by simp_all
  obtain w where w: "show_planes ?addr (3 - ?m) 0 4 ?s =
    Some (?s\<lparr>write_mask := w, vram := (\<lambda>p j. if 0 \<le> p \<and> p < 0 + 4 \<and> unat (target_img ?s) \<le> j \<and> j < unat (target_img ?s) + 16000
      then build ?s (?addr + (3 - ?m - int p + 4) mod 4 * SCROLL_SIZE + of_bool (3 - ?m < int p) + int (j - unat (target_img ?s)))
      else vram ?s p j)\<rparr>)"
    using show_planes_eq [OF a0 room' p four, of ?s] by blast
  let ?v = "\<lambda>p j. if p < 4 \<and> unat ?tg \<le> j \<and> j < unat ?tg + 16000
      then build s (?addr + (3 - ?m - int p + 4) mod 4 * SCROLL_SIZE + of_bool (3 - ?m < int p) + int (j - unat ?tg))
      else vram s p j"
  obtain t where t: "show_screen s = Some t" "target_img t = ?tg" "vram t = ?v"
    using w by (simp add: show_screen_def Let_def outw_crtc_def cong: if_cong)
  have "vram t (c mod 4) (unat ?tg + r * 80 + c div 4) = pix s (show_x s + int c) (show_y s + int r)"
    if "c < 320" "r < 182" for c r
  proof -
    let ?i = "int (c mod 4)" and ?k = "int (c div 4)"
    have i: "0 \<le> ?i" "?i < 4" by simp_all
    have c: "int c = 4 * ?k + ?i" by (simp add: zmod_int zdiv_int)
    note xd = pixel_column [of "show_x s" ?k ?i, folded c]
    have "c div 4 < 80" using that(1) by simp
    then have in_page: "r * 80 + c div 4 < 16000" using that(2) by simp
    have "vram t (c mod 4) (unat ?tg + r * 80 + c div 4) =
        build s (?addr + (3 - ?m - ?i + 4) mod 4 * SCROLL_SIZE + of_bool (3 - ?m < ?i) + int (r * 80 + c div 4))"
      using in_page by (simp add: t(3) add.assoc)
    also have "\<dots> = pix s (show_x s + int c) (show_y s + int r)"
      unfolding pix_def pixel_index_def xd plane_of_pixel [OF m i] by (simp add: algebra_simps)
    finally show ?thesis .
  qed
  then show ?thesis using t by auto
qed

subsection \<open>The whole window\<close>

text \<open>The window shows the picture \<open>f\<close>.\<close>

definition shows_pic :: "(int \<Rightarrow> int \<Rightarrow> u8) \<Rightarrow> 'a modex_scheme \<Rightarrow> bool" where
  "shows_pic f s \<longleftrightarrow> (\<forall>x y. in_view s x y \<longrightarrow> pix s x y = f x y)"

text \<open>A picture with the pixels of a block.\<close>

definition with_block :: "int \<Rightarrow> int \<Rightarrow> u8 list \<Rightarrow> (int \<Rightarrow> int \<Rightarrow> u8) \<Rightarrow> int \<Rightarrow> int \<Rightarrow> u8" where
  "with_block px py img f x y =
     (if px \<le> x \<and> x < px + 12 \<and> py \<le> y \<and> y < py + 12 then img ! nat (12 * (y - py) + (x - px)) else f x y)"

text \<open>A picture with the opaque pixels of a block.\<close>

definition with_masked :: "int \<Rightarrow> int \<Rightarrow> u8 list \<Rightarrow> u8 list \<Rightarrow> (int \<Rightarrow> int \<Rightarrow> u8) \<Rightarrow> int \<Rightarrow> int \<Rightarrow> u8" where
  "with_masked px py img msk f x y =
     (if px \<le> x \<and> x < px + 12 \<and> py \<le> y \<and> y < py + 12 \<and> msk ! nat (12 * (y - py) + (x - px)) \<noteq> 0
      then img ! nat (12 * (y - py) + (x - px)) else f x y)"

lemma draw_full_block_shows:
  assumes "view_ok s" "shows_pic f s" "length img = 144"
  shows "\<exists>t. draw_full_block px py img s = Some t \<and> drawn s t \<and> shows_pic (with_block px py img f) t"
  using draw_full_block_pix [OF assms(1,3), of px py] assms(2)
  by (fastforce simp: shows_pic_def with_block_def drawn_fields)

lemma draw_mask_block_shows:
  assumes "view_ok s" "shows_pic f s" "show_x s \<le> px" "px + 12 \<le> show_x s + 320" "show_y s \<le> py" "py + 12 \<le> show_y s + 182"
    and "length img = 144" "length msk = 144" "length (g_mask s) = 144"
  shows "\<exists>t. draw_mask_block px py img msk s = Some t \<and> masked s t \<and> shows_pic (with_masked px py img msk f) t \<and>
    with_block px py (g_mask t) f = f"
proof -
  obtain t where t: "draw_mask_block px py img msk s = Some t" "masked s t"
    "\<forall>x y. in_view s x y \<longrightarrow> pix t x y =
      (if px \<le> x \<and> x < px + 12 \<and> py \<le> y \<and> y < py + 12 \<and> msk ! nat (12 * (y - py) + (x - px)) \<noteq> 0
       then img ! nat (12 * (y - py) + (x - px)) else pix s x y)"
    "\<forall>x y. px \<le> x \<and> x < px + 12 \<and> py \<le> y \<and> y < py + 12 \<longrightarrow> g_mask t ! nat (12 * (y - py) + (x - px)) = pix s x y"
    using draw_mask_block_pix [OF assms(1,3-9)] by blast
  have iv: "in_view s x y" if "px \<le> x" "x < px + 12" "py \<le> y" "y < py + 12" for x y
    using that assms(3-6) by (simp add: in_view_def)
  have "with_block px py (g_mask t) f x y = f x y" for x y
    using t(4) iv assms(2) by (simp add: with_block_def shows_pic_def)
  moreover have "shows_pic (with_masked px py img msk f) t"
    using t(3) assms(2) masked_fields(7) [OF t(2)] by (simp add: shows_pic_def with_masked_def)
  ultimately show ?thesis using t(1,2) by blast
qed

subsection \<open>Nothing outside of the buffer\<close>

lemma mask_row_ok:
  assumes "view_ok s" "\<forall>x'. x \<le> x' \<and> x' < x + int n \<longrightarrow> in_view s x' y"
    and "j + n \<le> length (g_mask s)" "j + n \<le> length msk" "k + n \<le> length img"
  shows "\<exists>t. mask_row img msk x y (int k) (int j) n s = Some t \<and> masked s t"
  using assms
proof (induction n arbitrary: x j k s)
  case 0
  have "masked s s" unfolding masked_def by (intro conjI exI [of _ s]) simp_all
  then show ?case by auto
next
  case (Suc n)
  obtain u where u: "masked s u"
    "\<And>n. mask_row img msk x y (int k) (int j) (Suc n) s = mask_row img msk (x + 1) y (int (Suc k)) (int (Suc j)) n u"
    by (rule mask_pixel [of s x y j msk k img]) (use Suc.prems in auto)
  have "\<exists>t. mask_row img msk (x + 1) y (int (Suc k)) (int (Suc j)) n u = Some t \<and> masked u t"
    by (rule Suc.IH) (use Suc.prems masked_fields [OF u(1)] in auto)
  then show ?case using u masked_trans by metis
qed

lemma mask_rows_ok:
  assumes "view_ok s" "\<forall>x' y'. x \<le> x' \<and> x' < x + int w \<and> y \<le> y' \<and> y' < y + int h \<longrightarrow> in_view s x' y'"
    and "w + sk = 12" "k + 12 * h \<le> length img + sk" "j + w * h \<le> length (g_mask s)" "j + w * h \<le> length msk"
  shows "\<exists>t. mask_rows img msk x y (int k) (int j) w (int sk) h s = Some t \<and> masked s t"
  using assms
proof (induction h arbitrary: y j k s)
  case 0
  have "masked s s" unfolding masked_def by (intro conjI exI [of _ s]) simp_all
  then show ?case by auto
next
  case (Suc h)
  have l: "j + w \<le> length (g_mask s)" "j + w \<le> length msk" "k + w \<le> length img" using Suc.prems(3-6) by simp_all
  obtain u where u: "mask_row img msk x y (int k) (int j) w s = Some u" "masked s u"
    using mask_row_ok [OF Suc.prems(1) _ l, of x y] Suc.prems(2) by auto
  have "\<exists>t. mask_rows img msk x (y + 1) (int (k + 12)) (int (j + w)) w (int sk) h u = Some t \<and> masked u t"
    by (rule Suc.IH) (use Suc.prems masked_fields [OF u(2)] in auto)
  then obtain t where t: "mask_rows img msk x (y + 1) (int (k + 12)) (int (j + w)) w (int sk) h u = Some t" "masked u t"
    by blast
  have e: "int k + int w + int sk = int (k + 12)" "int j + int w = int (j + w)" using Suc.prems(3) by simp_all
  have "mask_rows img msk x y (int k) (int j) w (int sk) (Suc h) s = Some t"
    by (simp only: mask_rows.simps u(1) Option.bind.simps e t(1))
  then show ?case using masked_trans [OF u(2) t(2)] by blast
qed

lemma draw_mask_block_ok:
  assumes "view_ok s" "length img = 144" "length msk = 144" "length (g_mask s) = 144"
  shows "\<exists>t. draw_mask_block px py img msk s = Some t \<and> masked s t"
proof (cases rule: clip_block_cases [of px py s])
  case off
  have "masked s s" unfolding masked_def by (intro conjI exI [of _ s]) simp_all
  then show ?thesis using off by (simp add: draw_mask_block_def)
next
  case (on x y k w h sk)
  have v: "\<forall>x' y'. x \<le> x' \<and> x' < x + int w \<and> y \<le> y' \<and> y' < y + int h \<longrightarrow> in_view s x' y'" using on(9) by blast
  have "w \<le> 12" "h \<le> 12" using on(2,3,7) by linarith+
  then have "w * h \<le> 12 * 12" by (intro mult_mono) auto
  then have "\<exists>t. mask_rows img msk x y (int k) (int 0) w (int sk) h s = Some t \<and> masked s t"
    using on(3) assms by (intro mask_rows_ok [OF assms(1) v on(2)]) auto
  then show ?thesis using on(1) by (simp add: draw_mask_block_def)
qed

subsection \<open>Mode X\<close>

lemma fill_fence_eq:
  assumes "0 \<le> i" "i + int k \<le> 256"
  shows "fill_fence i k s = Some (s\<lparr>build := (\<lambda>j. if (i \<le> j \<and> j < i + int k) \<or>
    (BUILD_BUF_SIZE + 256 + i \<le> j \<and> j < BUILD_BUF_SIZE + 256 + i + int k) then MEM_FENCE_MAGIC else build s j)\<rparr>)"
  using assms
proof (induction k arbitrary: i s)
  case 0
  then show ?case by simp
next
  case (Suc k)
  let ?u = "s\<lparr>build := (build s)(i := MEM_FENCE_MAGIC, BUILD_BUF_SIZE + 256 + i := MEM_FENCE_MAGIC)\<rparr>"
  have "fill_fence i (Suc k) s = fill_fence (i + 1) k ?u"
    using Suc.prems by (simp add: build_put_def modex_sizes)
  also have "\<dots> = Some (?u\<lparr>build := (\<lambda>j. if (i + 1 \<le> j \<and> j < i + 1 + int k) \<or>
    (BUILD_BUF_SIZE + 256 + (i + 1) \<le> j \<and> j < BUILD_BUF_SIZE + 256 + (i + 1) + int k) then MEM_FENCE_MAGIC else build ?u j)\<rparr>)"
    by (rule Suc.IH) (use Suc.prems in simp_all)
  also have "\<dots> = Some (s\<lparr>build := (\<lambda>j. if (i \<le> j \<and> j < i + int (Suc k)) \<or>
    (BUILD_BUF_SIZE + 256 + i \<le> j \<and> j < BUILD_BUF_SIZE + 256 + i + int (Suc k)) then MEM_FENCE_MAGIC else build s j)\<rparr>)"
    by (auto simp: fun_eq_iff)
  finally show ?case .
qed

lemma clear_vram_eq: "\<exists>v. clear_vram i k s = s\<lparr>vram := v\<rparr> \<and>
  (\<forall>p j. v p j = (if p < 4 \<and> bit (write_mask s) (8 + p) \<and> i \<le> j \<and> j < i + k then 0 else vram s p j))"
proof (induction k arbitrary: i s)
  case 0
  show ?case by (rule exI [of _ "vram s"]) simp
next
  case (Suc k)
  obtain v where v: "clear_vram (i + 1) k (vram_write i 0 s) = (vram_write i 0 s)\<lparr>vram := v\<rparr>"
    "\<And>p j. v p j = (if p < 4 \<and> bit (write_mask (vram_write i 0 s)) (8 + p) \<and> i + 1 \<le> j \<and> j < i + 1 + k then 0
       else vram (vram_write i 0 s) p j)"
    using Suc [of "i + 1" "vram_write i 0 s"] by blast
  have "clear_vram i (Suc k) s = s\<lparr>vram := v\<rparr>"
    unfolding clear_vram.simps v(1) by (simp add: vram_write_def)
  moreover have "v p j = (if p < 4 \<and> bit (write_mask s) (8 + p) \<and> i \<le> j \<and> j < i + Suc k then 0 else vram s p j)" for p j
    unfolding v(2) by (auto simp: vram_write_def)
  ultimately show ?case by blast
qed

text \<open>The memory around the build buffer holds what \<open>set_mode_X\<close> put there.\<close>

definition fences_ok :: "'a modex_scheme \<Rightarrow> bool" where
  "fences_ok s \<longleftrightarrow> (\<forall>i. (0 \<le> i \<and> i < 256) \<or> (256 + BUILD_BUF_SIZE \<le> i \<and> i < 512 + BUILD_BUF_SIZE) \<longrightarrow> build s i = MEM_FENCE_MAGIC)"

lemma set_mode_X_ok:
  "\<exists>t. set_mode_X True True s = Some (0, t) \<and> view_ok t \<and> fences_ok t \<and> show_x t = 0 \<and> show_y t = 0 \<and> g_mask t = g_mask s \<and>
    target_img t = 0x05A0 \<and> (\<forall>p<4. \<forall>j<65536. vram t p j = 0)"
proof -
  define r where "r = s\<lparr>show_x := 0, show_y := 0, img3_off := BUILD_BASE_INIT, img3 := BUILD_BASE_INIT + 256\<rparr>"
  define b where "b = (\<lambda>j. if (0 \<le> j \<and> j < 0 + int 256) \<or>
    (BUILD_BUF_SIZE + 256 + 0 \<le> j \<and> j < BUILD_BUF_SIZE + 256 + 0 + int 256) then MEM_FENCE_MAGIC else build r j)"
  define u where "u = r\<lparr>build := b, target_img := 0x05A0, write_mask := 0x0F00\<rparr>"
  have fill: "fill_fence 0 256 r = Some (r\<lparr>build := b\<rparr>)" unfolding b_def by (rule fill_fence_eq) simp_all
  have nat: "nat 256 = 256" by simp
  have mode: "set_mode_X True True s = Some (0, clear_vram 0 65536 u)"
    by (simp add: set_mode_X_def init_buffer_def r_def [symmetric] nat fill Let_def clear_screens_def SET_WRITE_MASK_def u_def del: nat_numeral)
  obtain v where v: "clear_vram 0 65536 u = u\<lparr>vram := v\<rparr>"
    "\<And>p j. v p j = (if p < 4 \<and> bit (write_mask u) (8 + p) \<and> 0 \<le> j \<and> j < 0 + 65536 then 0 else vram u p j)"
    using clear_vram_eq [of 0 65536 u] by blast
  have bits: "bit (0x0F00 :: u16) (8 + p)" if "p < 4" for p
  proof -
    have "p = 0 \<or> p = 1 \<or> p = 2 \<or> p = 3" using that by arith
    then show ?thesis by (elim disjE) simp_all
  qed
  have zero: "v p j = 0" if "p < 4" "j < 65536" for p j using v(2) that bits [OF that(1)] by (simp add: u_def)
  have "view_ok (u\<lparr>vram := v\<rparr>)" by (simp add: view_ok_def modex_sizes u_def r_def)
  moreover have "fences_ok (u\<lparr>vram := v\<rparr>)" by (simp add: fences_ok_def u_def b_def)
  ultimately show ?thesis unfolding mode v(1) using zero by (simp add: u_def r_def)
qed

end
