(* ===== verification/ModexTheorems.thy ===== *)
theory ModexTheorems
  imports ModexProps
begin

text \<open>
  The properties of the mode X display, each with a run on a concrete state.
\<close>

subsection \<open>A display to try them on\<close>

definition demo_display :: modex where
  "demo_display = \<lparr>build = (\<lambda>i. if i < 256 \<or> 256 + BUILD_BUF_SIZE \<le> i then MEM_FENCE_MAGIC else 0), img3_off = 10000, img3 = 10256,
     show_x = 0, show_y = 0, g_mask = replicate 144 0, target_img = 0x05A0, vram = (\<lambda>p j. 0), write_mask = 0, crtc = (\<lambda>i. 0)\<rparr>"

lemma demo_display_ok:
  "view_ok demo_display" "fences_ok demo_display" "length (g_mask demo_display) = 144" "show_x demo_display = 0" "show_y demo_display = 0"
  "target_img demo_display = 0x05A0" "img3 demo_display = 10256"
  by (simp_all add: demo_display_def view_ok_def fences_ok_def modex_sizes)

lemma demo_display_blank: "shows_pic (\<lambda>x y. 0) demo_display"
proof -
  have "pix demo_display x y = 0" if "in_view demo_display x y" for x y
    using pixel_index_bounds [OF demo_display_ok(1) that] by (simp add: pix_def demo_display_def)
  then show ?thesis by (simp add: shows_pic_def)
qed

lemma with_block_masked: "with_block px py g (with_masked px py img msk f) = with_block px py g f"
  by (intro ext) (simp add: with_block_def with_masked_def)

subsection \<open>Operations on the display\<close>

text \<open>One call of an operation on the display with arguments as its callers have them: pictures and
  masks of 144 bytes, and lines of the length of the window from the callbacks.\<close>

inductive display_step :: "modex \<Rightarrow> modex \<Rightarrow> bool" where
  full_block: "length img = 144 \<Longrightarrow> draw_full_block px py img s = Some t \<Longrightarrow> display_step s t"
| mask_block: "length img = 144 \<Longrightarrow> length msk = 144 \<Longrightarrow> draw_mask_block px py img msk s = Some t \<Longrightarrow> display_step s t"
| vert_line: "\<forall>x y. \<exists>buf. fn x y = Some buf \<and> length buf = 182 \<Longrightarrow> draw_vert_line fn x s = Some (r, t) \<Longrightarrow> display_step s t"
| horiz_line: "\<forall>x y. \<exists>buf. fn x y = Some buf \<and> length buf = 320 \<Longrightarrow> draw_horiz_line fn y s = Some (r, t) \<Longrightarrow> display_step s t"
| view_window: "set_view_window x y s = Some t \<Longrightarrow> display_step s t"
| screen: "show_screen s = Some t \<Longrightarrow> display_step s t"

definition display_ok :: "'a modex_scheme \<Rightarrow> bool" where
  "display_ok s \<longleftrightarrow> view_ok s \<and> fences_ok s \<and> length (g_mask s) = 144"

lemma display_ok_drawn: "drawn s t \<Longrightarrow> display_ok s \<Longrightarrow> display_ok t"
  using drawn_fields [of s t] by (simp add: display_ok_def) (auto simp: fences_ok_def drawn_def)

lemma display_ok_masked:
  assumes "masked s t" "display_ok s" shows "display_ok t"
proof -
  obtain u where u: "drawn s u" "t = u\<lparr>g_mask := g_mask t\<rparr>" "length (g_mask t) = length (g_mask s)"
    using assms(1) unfolding masked_def by blast
  have "display_ok u" by (rule display_ok_drawn [OF u(1) assms(2)])
  then have "view_ok (u\<lparr>g_mask := g_mask t\<rparr>) \<and> fences_ok (u\<lparr>g_mask := g_mask t\<rparr>)"
    by (simp add: display_ok_def view_ok_def fences_ok_def)
  then show ?thesis using u(2,3) assms(2) by (simp add: display_ok_def)
qed

definition same_buffer :: "'a modex_scheme \<Rightarrow> 'a modex_scheme \<Rightarrow> bool" where
  "same_buffer s t \<longleftrightarrow> build t = build s \<and> img3_off t = img3_off s \<and> img3 t = img3 s \<and>
     show_x t = show_x s \<and> show_y t = show_y s \<and> g_mask t = g_mask s"

lemma copy_bytes_same: "copy_bytes img scr k s = Some t \<Longrightarrow> same_buffer s t"
proof (induction k arbitrary: img scr s)
  case (Suc k)
  then obtain b where "copy_bytes (img + 1) (scr + 1) k (vram_write scr b s) = Some t" by (auto simp: bind_Some_iff)
  from Suc.IH [OF this] show ?case by (simp add: same_buffer_def vram_write_def)
qed (simp add: same_buffer_def)

lemma show_planes_same: "show_planes addr p i k s = Some t \<Longrightarrow> same_buffer s t"
proof (induction k arbitrary: i s)
  case (Suc k)
  then obtain u where u: "copy_image (addr + (p - int i + 4) mod 4 * SCROLL_SIZE + of_bool (p < int i)) (target_img s)
      (SET_WRITE_MASK (push_bit (i + 8) 1) s) = Some u" "show_planes addr p (i + 1) k u = Some t"
    by (auto simp: bind_Some_iff SET_WRITE_MASK_def)
  have "same_buffer (SET_WRITE_MASK (push_bit (i + 8) 1) s) u"
    using copy_bytes_same u(1) unfolding copy_image_def by blast
  with Suc.IH [OF u(2)] show ?case by (simp add: same_buffer_def SET_WRITE_MASK_def)
qed (simp add: same_buffer_def)

lemma show_screen_same: "show_screen s = Some t \<Longrightarrow> same_buffer s t"
  unfolding show_screen_def Let_def bind_Some_iff outw_crtc_def
  by (elim exE conjE, drule show_planes_same) (auto simp: same_buffer_def)

lemma display_ok_step: "display_step s t \<Longrightarrow> display_ok s \<Longrightarrow> display_ok t"
proof (induction rule: display_step.induct)
  case (full_block img px py s t)
  then show ?case using draw_full_block_pix [of s img px py] display_ok_drawn by (fastforce simp: display_ok_def)
next
  case (mask_block img msk px py s t)
  then show ?case using draw_mask_block_ok [of s img msk px py] display_ok_masked by (fastforce simp: display_ok_def)
next
  case (vert_line fn x s r t)
  show ?case
  proof (cases "0 \<le> x \<and> x < 320")
    case True
    obtain buf where "fn (x + show_x s) (show_y s) = Some buf" "length buf = 182" using vert_line(1) by blast
    then show ?thesis using draw_vert_line_pix [of s x fn buf] True vert_line(2,3) display_ok_drawn
      by (fastforce simp: display_ok_def)
  qed (use vert_line in \<open>auto simp: draw_vert_line_def\<close>)
next
  case (horiz_line fn y s r t)
  show ?case
  proof (cases "0 \<le> y \<and> y < 182")
    case True
    obtain buf where "fn (show_x s) (y + show_y s) = Some buf" "length buf = 320" using horiz_line(1) by blast
    then show ?thesis using draw_horiz_line_pix [of s y fn buf] True horiz_line(2,3) display_ok_drawn
      by (fastforce simp: display_ok_def)
  qed (use horiz_line in \<open>auto simp: draw_horiz_line_def\<close>)
next
  case (view_window x y s t)
  then show ?case using set_view_window_pix [of s x y] by (fastforce simp: display_ok_def fences_ok_def)
next
  case (screen s t)
  then show ?case using show_screen_same [OF screen(1)]
    by (simp add: display_ok_def fences_ok_def view_ok_def same_buffer_def)
qed

interpretation display: step_invariant display_step display_ok
  by unfold_locales (rule display_ok_step)

subsection \<open>Properties\<close>

text \<open>C31. The display never leaves its buffer: after \<open>set_mode_X\<close>, whatever blocks, masked blocks and
  lines are drawn wherever they lie and however the view window moves, the memory fences around
  the build buffer keep their magic bytes and the window lies inside the buffer.\<close>

theorem fences_intact:
  assumes "set_mode_X True True s = Some (0, t)" "length (g_mask s) = 144" "display_step\<^sup>*\<^sup>* t u"
  shows "fences_ok u \<and> view_ok u"
proof -
  have "display_ok t" using set_mode_X_ok [of s] assms(1,2) by (auto simp: display_ok_def)
  with assms(3) have "display_ok u" by (rule display.reachable)
  then show ?thesis by (simp add: display_ok_def)
qed

lemma fences_intact_witness: "\<exists>t u. set_mode_X True True demo_display = Some (0, t) \<and> set_view_window (-5) 3000 t = Some u \<and> fences_ok u"
proof -
  obtain t where t: "set_mode_X True True demo_display = Some (0, t)" "view_ok t" using set_mode_X_ok [of demo_display] by blast
  obtain u where u: "set_view_window (-5) 3000 t = Some u" using set_view_window_pix [OF t(2), of "-5" 3000] by blast
  have "display_step\<^sup>*\<^sup>* t u" using display_step.view_window [OF u] by blast
  then show ?thesis using fences_intact [OF t(1) demo_display_ok(3)] t(1) u by blast
qed

text \<open>\<open>draw_full_block\<close> draws exactly the pixels of the block that are in the window, each from its
  place in the picture, for every position of the block, and never fails.\<close>

theorem draw_full_block_exact:
  assumes "view_ok s" "shows_pic f s" "length img = 144"
  shows "\<exists>t. draw_full_block px py img s = Some t \<and> shows_pic (with_block px py img f) t \<and>
    view_ok t \<and> show_x t = show_x s \<and> show_y t = show_y s"
  using draw_full_block_shows [OF assms, of px py] drawn_fields by (metis assms(1))

lemma draw_full_block_exact_witness:
  "\<exists>t. draw_full_block (-4) 175 (map word_of_nat [0..<144]) demo_display = Some t \<and> pix t 0 181 = 76 \<and> pix t 8 181 = 0"
proof -
  obtain t where t: "draw_full_block (-4) 175 (map word_of_nat [0..<144]) demo_display = Some t"
    "shows_pic (with_block (-4) 175 (map word_of_nat [0..<144]) (\<lambda>x y. 0)) t" "show_x t = 0" "show_y t = 0"
    using draw_full_block_exact [OF demo_display_ok(1) demo_display_blank, of "map word_of_nat [0..<144]" "-4" 175]
    by (auto simp: demo_display_ok)
  have "in_view t 0 181" "in_view t 8 181" using t(3,4) by (simp_all add: in_view_def)
  then show ?thesis using t(1,2) by (simp add: shows_pic_def with_block_def)
qed

text \<open>C32. The player leaves no trace: for a block inside of the window \<open>draw_mask_block\<close> draws the opaque
  pixels of the picture and nothing else, and \<open>draw_full_block\<close> with the pixels it has saved brings
  the old window back.\<close>

theorem mask_block_restores:
  assumes "view_ok s" "shows_pic f s" "show_x s \<le> px" "px + 12 \<le> show_x s + 320" "show_y s \<le> py" "py + 12 \<le> show_y s + 182"
    and "length img = 144" "length msk = 144" "length (g_mask s) = 144"
  shows "\<exists>t u. draw_mask_block px py img msk s = Some t \<and> shows_pic (with_masked px py img msk f) t \<and>
    draw_full_block px py (g_mask t) t = Some u \<and> shows_pic f u"
proof -
  obtain t where t: "draw_mask_block px py img msk s = Some t" "masked s t" "shows_pic (with_masked px py img msk f) t"
    "with_block px py (g_mask t) f = f" using draw_mask_block_shows [OF assms] by blast
  have v: "view_ok t" "length (g_mask t) = 144" using masked_fields [OF t(2)] assms(1,9) by simp_all
  obtain u where u: "draw_full_block px py (g_mask t) t = Some u"
    "shows_pic (with_block px py (g_mask t) (with_masked px py img msk f)) u"
    using draw_full_block_shows [OF v(1) t(3) v(2)] by blast
  then show ?thesis using t by (auto simp: with_block_masked)
qed

lemma mask_block_restores_witness:
  "\<exists>t u. draw_mask_block 100 80 (replicate 144 7) (replicate 143 1 @ [0]) demo_display = Some t \<and>
     draw_full_block 100 80 (g_mask t) t = Some u \<and> shows_pic (\<lambda>x y. 0) u"
  using mask_block_restores [OF demo_display_ok(1) demo_display_blank, of 100 80 "replicate 144 7" "replicate 143 1 @ [0]"]
  by (auto simp: demo_display_ok)



end
