(* ===== verification/Text.thy ===== *)
theory Text
  imports Modex
begin

text \<open>
  The status bar of the maze game: the text of \<open>fill_status_bar\<close> (mp2/modex.c) and its conversion into
  the four planes of the bar with the font (mp2/text.c). The message has 40 characters, so that its NUL
  goes behind the array of the code; here the message is a list of its own.
\<close>

unbundle bit_operations_syntax

subsection \<open>The font\<close>

definition font_data :: "u8 list list" where
  "font_data = [
     [0, 0, 0, 0, 0, 0, 0, 0, 0, 0, 0, 0, 0, 0, 0, 0],
     [0, 0, 0x7E, 0x81, 0xA5, 0x81, 0x81, 0xBD, 0x99, 0x81, 0x81, 0x7E, 0, 0, 0, 0],
     [0, 0, 0x7E, 0xFF, 0xDB, 0xFF, 0xFF, 0xC3, 0xE7, 0xFF, 0xFF, 0x7E, 0, 0, 0, 0],
     [0, 0, 0, 0, 0x6C, 0xFE, 0xFE, 0xFE, 0xFE, 0x7C, 0x38, 0x10, 0, 0, 0, 0],
     [0, 0, 0, 0, 0x10, 0x38, 0x7C, 0xFE, 0x7C, 0x38, 0x10, 0, 0, 0, 0, 0],
     [0, 0, 0, 0x18, 0x3C, 0x3C, 0xE7, 0xE7, 0xE7, 0x18, 0x18, 0x3C, 0, 0, 0, 0],
     [0, 0, 0, 0x18, 0x3C, 0x7E, 0xFF, 0xFF, 0x7E, 0x18, 0x18, 0x3C, 0, 0, 0, 0],
     [0, 0, 0, 0, 0, 0, 0x18, 0x3C, 0x3C, 0x18, 0, 0, 0, 0, 0, 0],
     [0xFF, 0xFF, 0xFF, 0xFF, 0xFF, 0xFF, 0xE7, 0xC3, 0xC3, 0xE7, 0xFF, 0xFF, 0xFF, 0xFF, 0xFF, 0xFF],
     [0, 0, 0, 0, 0, 0x3C, 0x66, 0x42, 0x42, 0x66, 0x3C, 0, 0, 0, 0, 0],
     [0xFF, 0xFF, 0xFF, 0xFF, 0xFF, 0xC3, 0x99, 0xBD, 0xBD, 0x99, 0xC3, 0xFF, 0xFF, 0xFF, 0xFF, 0xFF],
     [0, 0, 0x1E, 0x0E, 0x1A, 0x32, 0x78, 0xCC, 0xCC, 0xCC, 0xCC, 0x78, 0, 0, 0, 0],
     [0, 0, 0x3C, 0x66, 0x66, 0x66, 0x66, 0x3C, 0x18, 0x7E, 0x18, 0x18, 0, 0, 0, 0],
     [0, 0, 0x3F, 0x33, 0x3F, 0x30, 0x30, 0x30, 0x30, 0x70, 0xF0, 0xE0, 0, 0, 0, 0],
     [0, 0, 0x7F, 0x63, 0x7F, 0x63, 0x63, 0x63, 0x63, 0x67, 0xE7, 0xE6, 0xC0, 0, 0, 0],
     [0, 0, 0, 0x18, 0x18, 0xDB, 0x3C, 0xE7, 0x3C, 0xDB, 0x18, 0x18, 0, 0, 0, 0],
     [0, 0x80, 0xC0, 0xE0, 0xF0, 0xF8, 0xFE, 0xF8, 0xF0, 0xE0, 0xC0, 0x80, 0, 0, 0, 0],
     [0, 0x02, 0x06, 0x0E, 0x1E, 0x3E, 0xFE, 0x3E, 0x1E, 0x0E, 0x06, 0x02, 0, 0, 0, 0],
     [0, 0, 0x18, 0x3C, 0x7E, 0x18, 0x18, 0x18, 0x7E, 0x3C, 0x18, 0, 0, 0, 0, 0],
     [0, 0, 0x66, 0x66, 0x66, 0x66, 0x66, 0x66, 0x66, 0, 0x66, 0x66, 0, 0, 0, 0],
     [0, 0, 0x7F, 0xDB, 0xDB, 0xDB, 0x7B, 0x1B, 0x1B, 0x1B, 0x1B, 0x1B, 0, 0, 0, 0],
     [0, 0x7C, 0xC6, 0x60, 0x38, 0x6C, 0xC6, 0xC6, 0x6C, 0x38, 0x0C, 0xC6, 0x7C, 0, 0, 0],
     [0, 0, 0, 0, 0, 0, 0, 0, 0xFE, 0xFE, 0xFE, 0xFE, 0, 0, 0, 0],
     [0, 0, 0x18, 0x3C, 0x7E, 0x18, 0x18, 0x18, 0x7E, 0x3C, 0x18, 0x7E, 0, 0, 0, 0],
     [0, 0, 0x18, 0x3C, 0x7E, 0x18, 0x18, 0x18, 0x18, 0x18, 0x18, 0x18, 0, 0, 0, 0],
     [0, 0, 0x18, 0x18, 0x18, 0x18, 0x18, 0x18, 0x18, 0x7E, 0x3C, 0x18, 0, 0, 0, 0],
     [0, 0, 0, 0, 0, 0x18, 0x0C, 0xFE, 0x0C, 0x18, 0, 0, 0, 0, 0, 0],
     [0, 0, 0, 0, 0, 0x30, 0x60, 0xFE, 0x60, 0x30, 0, 0, 0, 0, 0, 0],
     [0, 0, 0, 0, 0, 0, 0xC0, 0xC0, 0xC0, 0xFE, 0, 0, 0, 0, 0, 0],
     [0, 0, 0, 0, 0, 0x28, 0x6C, 0xFE, 0x6C, 0x28, 0, 0, 0, 0, 0, 0],
     [0, 0, 0, 0, 0x10, 0x38, 0x38, 0x7C, 0x7C, 0xFE, 0xFE, 0, 0, 0, 0, 0],
     [0, 0, 0, 0, 0xFE, 0xFE, 0x7C, 0x7C, 0x38, 0x38, 0x10, 0, 0, 0, 0, 0],
     [0, 0, 0, 0, 0, 0, 0, 0, 0, 0, 0, 0, 0, 0, 0, 0],
     [0, 0, 0x18, 0x3C, 0x3C, 0x3C, 0x18, 0x18, 0x18, 0, 0x18, 0x18, 0, 0, 0, 0],
     [0, 0x66, 0x66, 0x66, 0x24, 0, 0, 0, 0, 0, 0, 0, 0, 0, 0, 0],
     [0, 0, 0, 0x6C, 0x6C, 0xFE, 0x6C, 0x6C, 0x6C, 0xFE, 0x6C, 0x6C, 0, 0, 0, 0],
     [0x18, 0x18, 0x7C, 0xC6, 0xC2, 0xC0, 0x7C, 0x06, 0x06, 0x86, 0xC6, 0x7C, 0x18, 0x18, 0, 0],
     [0, 0, 0, 0, 0xC2, 0xC6, 0x0C, 0x18, 0x30, 0x60, 0xC6, 0x86, 0, 0, 0, 0],
     [0, 0, 0x38, 0x6C, 0x6C, 0x38, 0x76, 0xDC, 0xCC, 0xCC, 0xCC, 0x76, 0, 0, 0, 0],
     [0, 0x30, 0x30, 0x30, 0x60, 0, 0, 0, 0, 0, 0, 0, 0, 0, 0, 0],
     [0, 0, 0x0C, 0x18, 0x30, 0x30, 0x30, 0x30, 0x30, 0x30, 0x18, 0x0C, 0, 0, 0, 0],
     [0, 0, 0x30, 0x18, 0x0C, 0x0C, 0x0C, 0x0C, 0x0C, 0x0C, 0x18, 0x30, 0, 0, 0, 0],
     [0, 0, 0, 0, 0, 0x66, 0x3C, 0xFF, 0x3C, 0x66, 0, 0, 0, 0, 0, 0],
     [0, 0, 0, 0, 0, 0x18, 0x18, 0x7E, 0x18, 0x18, 0, 0, 0, 0, 0, 0],
     [0, 0, 0, 0, 0, 0, 0, 0, 0, 0x18, 0x18, 0x18, 0x30, 0, 0, 0],
     [0, 0, 0, 0, 0, 0, 0, 0xFE, 0, 0, 0, 0, 0, 0, 0, 0],
     [0, 0, 0, 0, 0, 0, 0, 0, 0, 0, 0x18, 0x18, 0, 0, 0, 0],
     [0, 0, 0, 0, 0x02, 0x06, 0x0C, 0x18, 0x30, 0x60, 0xC0, 0x80, 0, 0, 0, 0],
     [0, 0, 0x38, 0x6C, 0xC6, 0xC6, 0xC6, 0xC6, 0xC6, 0xC6, 0x6C, 0x38, 0, 0, 0, 0],
     [0, 0, 0x18, 0x38, 0x78, 0x18, 0x18, 0x18, 0x18, 0x18, 0x18, 0x7E, 0, 0, 0, 0],
     [0, 0, 0x7C, 0xC6, 0x06, 0x0C, 0x18, 0x30, 0x60, 0xC0, 0xC6, 0xFE, 0, 0, 0, 0],
     [0, 0, 0x7C, 0xC6, 0x06, 0x06, 0x3C, 0x06, 0x06, 0x06, 0xC6, 0x7C, 0, 0, 0, 0],
     [0, 0, 0x0C, 0x1C, 0x3C, 0x6C, 0xCC, 0xFE, 0x0C, 0x0C, 0x0C, 0x1E, 0, 0, 0, 0],
     [0, 0, 0xFE, 0xC0, 0xC0, 0xC0, 0xFC, 0x06, 0x06, 0x06, 0xC6, 0x7C, 0, 0, 0, 0],
     [0, 0, 0x38, 0x60, 0xC0, 0xC0, 0xFC, 0xC6, 0xC6, 0xC6, 0xC6, 0x7C, 0, 0, 0, 0],
     [0, 0, 0xFE, 0xC6, 0x06, 0x06, 0x0C, 0x18, 0x30, 0x30, 0x30, 0x30, 0, 0, 0, 0],
     [0, 0, 0x7C, 0xC6, 0xC6, 0xC6, 0x7C, 0xC6, 0xC6, 0xC6, 0xC6, 0x7C, 0, 0, 0, 0],
     [0, 0, 0x7C, 0xC6, 0xC6, 0xC6, 0x7E, 0x06, 0x06, 0x06, 0x0C, 0x78, 0, 0, 0, 0],
     [0, 0, 0, 0, 0x18, 0x18, 0, 0, 0, 0x18, 0x18, 0, 0, 0, 0, 0],
     [0, 0, 0, 0, 0x18, 0x18, 0, 0, 0, 0x18, 0x18, 0x30, 0, 0, 0, 0],
     [0, 0, 0, 0x06, 0x0C, 0x18, 0x30, 0x60, 0x30, 0x18, 0x0C, 0x06, 0, 0, 0, 0],
     [0, 0, 0, 0, 0, 0x7E, 0, 0, 0x7E, 0, 0, 0, 0, 0, 0, 0],
     [0, 0, 0, 0x60, 0x30, 0x18, 0x0C, 0x06, 0x0C, 0x18, 0x30, 0x60, 0, 0, 0, 0],
     [0, 0, 0x7C, 0xC6, 0xC6, 0x0C, 0x18, 0x18, 0x18, 0, 0x18, 0x18, 0, 0, 0, 0],
     [0, 0, 0, 0x7C, 0xC6, 0xC6, 0xDE, 0xDE, 0xDE, 0xDC, 0xC0, 0x7C, 0, 0, 0, 0],
     [0, 0, 0x10, 0x38, 0x6C, 0xC6, 0xC6, 0xFE, 0xC6, 0xC6, 0xC6, 0xC6, 0, 0, 0, 0],
     [0, 0, 0xFC, 0x66, 0x66, 0x66, 0x7C, 0x66, 0x66, 0x66, 0x66, 0xFC, 0, 0, 0, 0],
     [0, 0, 0x3C, 0x66, 0xC2, 0xC0, 0xC0, 0xC0, 0xC0, 0xC2, 0x66, 0x3C, 0, 0, 0, 0],
     [0, 0, 0xF8, 0x6C, 0x66, 0x66, 0x66, 0x66, 0x66, 0x66, 0x6C, 0xF8, 0, 0, 0, 0],
     [0, 0, 0xFE, 0x66, 0x62, 0x68, 0x78, 0x68, 0x60, 0x62, 0x66, 0xFE, 0, 0, 0, 0],
     [0, 0, 0xFE, 0x66, 0x62, 0x68, 0x78, 0x68, 0x60, 0x60, 0x60, 0xF0, 0, 0, 0, 0],
     [0, 0, 0x3C, 0x66, 0xC2, 0xC0, 0xC0, 0xDE, 0xC6, 0xC6, 0x66, 0x3A, 0, 0, 0, 0],
     [0, 0, 0xC6, 0xC6, 0xC6, 0xC6, 0xFE, 0xC6, 0xC6, 0xC6, 0xC6, 0xC6, 0, 0, 0, 0],
     [0, 0, 0x3C, 0x18, 0x18, 0x18, 0x18, 0x18, 0x18, 0x18, 0x18, 0x3C, 0, 0, 0, 0],
     [0, 0, 0x1E, 0x0C, 0x0C, 0x0C, 0x0C, 0x0C, 0xCC, 0xCC, 0xCC, 0x78, 0, 0, 0, 0],
     [0, 0, 0xE6, 0x66, 0x66, 0x6C, 0x78, 0x78, 0x6C, 0x66, 0x66, 0xE6, 0, 0, 0, 0],
     [0, 0, 0xF0, 0x60, 0x60, 0x60, 0x60, 0x60, 0x60, 0x62, 0x66, 0xFE, 0, 0, 0, 0],
     [0, 0, 0xC6, 0xEE, 0xFE, 0xFE, 0xD6, 0xC6, 0xC6, 0xC6, 0xC6, 0xC6, 0, 0, 0, 0],
     [0, 0, 0xC6, 0xE6, 0xF6, 0xFE, 0xDE, 0xCE, 0xC6, 0xC6, 0xC6, 0xC6, 0, 0, 0, 0],
     [0, 0, 0x7C, 0xC6, 0xC6, 0xC6, 0xC6, 0xC6, 0xC6, 0xC6, 0xC6, 0x7C, 0, 0, 0, 0],
     [0, 0, 0xFC, 0x66, 0x66, 0x66, 0x7C, 0x60, 0x60, 0x60, 0x60, 0xF0, 0, 0, 0, 0],
     [0, 0, 0x7C, 0xC6, 0xC6, 0xC6, 0xC6, 0xC6, 0xC6, 0xD6, 0xDE, 0x7C, 0x0C, 0x0E, 0, 0],
     [0, 0, 0xFC, 0x66, 0x66, 0x66, 0x7C, 0x6C, 0x66, 0x66, 0x66, 0xE6, 0, 0, 0, 0],
     [0, 0, 0x7C, 0xC6, 0xC6, 0x60, 0x38, 0x0C, 0x06, 0xC6, 0xC6, 0x7C, 0, 0, 0, 0],
     [0, 0, 0x7E, 0x7E, 0x5A, 0x18, 0x18, 0x18, 0x18, 0x18, 0x18, 0x3C, 0, 0, 0, 0],
     [0, 0, 0xC6, 0xC6, 0xC6, 0xC6, 0xC6, 0xC6, 0xC6, 0xC6, 0xC6, 0x7C, 0, 0, 0, 0],
     [0, 0, 0xC6, 0xC6, 0xC6, 0xC6, 0xC6, 0xC6, 0xC6, 0x6C, 0x38, 0x10, 0, 0, 0, 0],
     [0, 0, 0xC6, 0xC6, 0xC6, 0xC6, 0xD6, 0xD6, 0xD6, 0xFE, 0xEE, 0x6C, 0, 0, 0, 0],
     [0, 0, 0xC6, 0xC6, 0x6C, 0x7C, 0x38, 0x38, 0x7C, 0x6C, 0xC6, 0xC6, 0, 0, 0, 0],
     [0, 0, 0x66, 0x66, 0x66, 0x66, 0x3C, 0x18, 0x18, 0x18, 0x18, 0x3C, 0, 0, 0, 0],
     [0, 0, 0xFE, 0xC6, 0x86, 0x0C, 0x18, 0x30, 0x60, 0xC2, 0xC6, 0xFE, 0, 0, 0, 0],
     [0, 0, 0x3C, 0x30, 0x30, 0x30, 0x30, 0x30, 0x30, 0x30, 0x30, 0x3C, 0, 0, 0, 0],
     [0, 0, 0, 0x80, 0xC0, 0xE0, 0x70, 0x38, 0x1C, 0x0E, 0x06, 0x02, 0, 0, 0, 0],
     [0, 0, 0x3C, 0x0C, 0x0C, 0x0C, 0x0C, 0x0C, 0x0C, 0x0C, 0x0C, 0x3C, 0, 0, 0, 0],
     [0x10, 0x38, 0x6C, 0xC6, 0, 0, 0, 0, 0, 0, 0, 0, 0, 0, 0, 0],
     [0, 0, 0, 0, 0, 0, 0, 0, 0, 0, 0, 0, 0, 0xFF, 0, 0],
     [0x30, 0x30, 0x18, 0, 0, 0, 0, 0, 0, 0, 0, 0, 0, 0, 0, 0],
     [0, 0, 0, 0, 0, 0x78, 0x0C, 0x7C, 0xCC, 0xCC, 0xCC, 0x76, 0, 0, 0, 0],
     [0, 0, 0xE0, 0x60, 0x60, 0x78, 0x6C, 0x66, 0x66, 0x66, 0x66, 0x7C, 0, 0, 0, 0],
     [0, 0, 0, 0, 0, 0x7C, 0xC6, 0xC0, 0xC0, 0xC0, 0xC6, 0x7C, 0, 0, 0, 0],
     [0, 0, 0x1C, 0x0C, 0x0C, 0x3C, 0x6C, 0xCC, 0xCC, 0xCC, 0xCC, 0x76, 0, 0, 0, 0],
     [0, 0, 0, 0, 0, 0x7C, 0xC6, 0xFE, 0xC0, 0xC0, 0xC6, 0x7C, 0, 0, 0, 0],
     [0, 0, 0x38, 0x6C, 0x64, 0x60, 0xF0, 0x60, 0x60, 0x60, 0x60, 0xF0, 0, 0, 0, 0],
     [0, 0, 0, 0, 0, 0x76, 0xCC, 0xCC, 0xCC, 0xCC, 0xCC, 0x7C, 0x0C, 0xCC, 0x78, 0],
     [0, 0, 0xE0, 0x60, 0x60, 0x6C, 0x76, 0x66, 0x66, 0x66, 0x66, 0xE6, 0, 0, 0, 0],
     [0, 0, 0x18, 0x18, 0, 0x38, 0x18, 0x18, 0x18, 0x18, 0x18, 0x3C, 0, 0, 0, 0],
     [0, 0, 0x06, 0x06, 0, 0x0E, 0x06, 0x06, 0x06, 0x06, 0x06, 0x06, 0x66, 0x66, 0x3C, 0],
     [0, 0, 0xE0, 0x60, 0x60, 0x66, 0x6C, 0x78, 0x78, 0x6C, 0x66, 0xE6, 0, 0, 0, 0],
     [0, 0, 0x38, 0x18, 0x18, 0x18, 0x18, 0x18, 0x18, 0x18, 0x18, 0x3C, 0, 0, 0, 0],
     [0, 0, 0, 0, 0, 0xEC, 0xFE, 0xD6, 0xD6, 0xD6, 0xD6, 0xC6, 0, 0, 0, 0],
     [0, 0, 0, 0, 0, 0xDC, 0x66, 0x66, 0x66, 0x66, 0x66, 0x66, 0, 0, 0, 0],
     [0, 0, 0, 0, 0, 0x7C, 0xC6, 0xC6, 0xC6, 0xC6, 0xC6, 0x7C, 0, 0, 0, 0],
     [0, 0, 0, 0, 0, 0xDC, 0x66, 0x66, 0x66, 0x66, 0x66, 0x7C, 0x60, 0x60, 0xF0, 0],
     [0, 0, 0, 0, 0, 0x76, 0xCC, 0xCC, 0xCC, 0xCC, 0xCC, 0x7C, 0x0C, 0x0C, 0x1E, 0],
     [0, 0, 0, 0, 0, 0xDC, 0x76, 0x66, 0x60, 0x60, 0x60, 0xF0, 0, 0, 0, 0],
     [0, 0, 0, 0, 0, 0x7C, 0xC6, 0x60, 0x38, 0x0C, 0xC6, 0x7C, 0, 0, 0, 0],
     [0, 0, 0x10, 0x30, 0x30, 0xFC, 0x30, 0x30, 0x30, 0x30, 0x36, 0x1C, 0, 0, 0, 0],
     [0, 0, 0, 0, 0, 0xCC, 0xCC, 0xCC, 0xCC, 0xCC, 0xCC, 0x76, 0, 0, 0, 0],
     [0, 0, 0, 0, 0, 0x66, 0x66, 0x66, 0x66, 0x66, 0x3C, 0x18, 0, 0, 0, 0],
     [0, 0, 0, 0, 0, 0xC6, 0xC6, 0xD6, 0xD6, 0xD6, 0xFE, 0x6C, 0, 0, 0, 0],
     [0, 0, 0, 0, 0, 0xC6, 0x6C, 0x38, 0x38, 0x38, 0x6C, 0xC6, 0, 0, 0, 0],
     [0, 0, 0, 0, 0, 0xC6, 0xC6, 0xC6, 0xC6, 0xC6, 0xC6, 0x7E, 0x06, 0x0C, 0xF8, 0],
     [0, 0, 0, 0, 0, 0xFE, 0xCC, 0x18, 0x30, 0x60, 0xC6, 0xFE, 0, 0, 0, 0],
     [0, 0, 0x0E, 0x18, 0x18, 0x18, 0x70, 0x18, 0x18, 0x18, 0x18, 0x0E, 0, 0, 0, 0],
     [0, 0, 0x18, 0x18, 0x18, 0x18, 0, 0x18, 0x18, 0x18, 0x18, 0x18, 0, 0, 0, 0],
     [0, 0, 0x70, 0x18, 0x18, 0x18, 0x0E, 0x18, 0x18, 0x18, 0x18, 0x70, 0, 0, 0, 0],
     [0, 0, 0x76, 0xDC, 0, 0, 0, 0, 0, 0, 0, 0, 0, 0, 0, 0],
     [0, 0, 0, 0, 0x10, 0x38, 0x6C, 0xC6, 0xC6, 0xC6, 0xFE, 0, 0, 0, 0, 0],
     [0, 0, 0x3C, 0x66, 0xC2, 0xC0, 0xC0, 0xC0, 0xC2, 0x66, 0x3C, 0x0C, 0x06, 0x7C, 0, 0],
     [0, 0, 0xCC, 0, 0, 0xCC, 0xCC, 0xCC, 0xCC, 0xCC, 0xCC, 0x76, 0, 0, 0, 0],
     [0, 0x0C, 0x18, 0x30, 0, 0x7C, 0xC6, 0xFE, 0xC0, 0xC0, 0xC6, 0x7C, 0, 0, 0, 0],
     [0, 0x10, 0x38, 0x6C, 0, 0x78, 0x0C, 0x7C, 0xCC, 0xCC, 0xCC, 0x76, 0, 0, 0, 0],
     [0, 0, 0xCC, 0, 0, 0x78, 0x0C, 0x7C, 0xCC, 0xCC, 0xCC, 0x76, 0, 0, 0, 0],
     [0, 0x60, 0x30, 0x18, 0, 0x78, 0x0C, 0x7C, 0xCC, 0xCC, 0xCC, 0x76, 0, 0, 0, 0],
     [0, 0x38, 0x6C, 0x38, 0, 0x78, 0x0C, 0x7C, 0xCC, 0xCC, 0xCC, 0x76, 0, 0, 0, 0],
     [0, 0, 0, 0, 0x3C, 0x66, 0x60, 0x60, 0x66, 0x3C, 0x0C, 0x06, 0x3C, 0, 0, 0],
     [0, 0x10, 0x38, 0x6C, 0, 0x7C, 0xC6, 0xFE, 0xC0, 0xC0, 0xC6, 0x7C, 0, 0, 0, 0],
     [0, 0, 0xC6, 0, 0, 0x7C, 0xC6, 0xFE, 0xC0, 0xC0, 0xC6, 0x7C, 0, 0, 0, 0],
     [0, 0x60, 0x30, 0x18, 0, 0x7C, 0xC6, 0xFE, 0xC0, 0xC0, 0xC6, 0x7C, 0, 0, 0, 0],
     [0, 0, 0x66, 0, 0, 0x38, 0x18, 0x18, 0x18, 0x18, 0x18, 0x3C, 0, 0, 0, 0],
     [0, 0x18, 0x3C, 0x66, 0, 0x38, 0x18, 0x18, 0x18, 0x18, 0x18, 0x3C, 0, 0, 0, 0],
     [0, 0x60, 0x30, 0x18, 0, 0x38, 0x18, 0x18, 0x18, 0x18, 0x18, 0x3C, 0, 0, 0, 0],
     [0, 0xC6, 0, 0x10, 0x38, 0x6C, 0xC6, 0xC6, 0xFE, 0xC6, 0xC6, 0xC6, 0, 0, 0, 0],
     [0x38, 0x6C, 0x38, 0, 0x38, 0x6C, 0xC6, 0xC6, 0xFE, 0xC6, 0xC6, 0xC6, 0, 0, 0, 0],
     [0x18, 0x30, 0x60, 0, 0xFE, 0x66, 0x60, 0x7C, 0x60, 0x60, 0x66, 0xFE, 0, 0, 0, 0],
     [0, 0, 0, 0, 0, 0xCC, 0x76, 0x36, 0x7E, 0xD8, 0xD8, 0x6E, 0, 0, 0, 0],
     [0, 0, 0x3E, 0x6C, 0xCC, 0xCC, 0xFE, 0xCC, 0xCC, 0xCC, 0xCC, 0xCE, 0, 0, 0, 0],
     [0, 0x10, 0x38, 0x6C, 0, 0x7C, 0xC6, 0xC6, 0xC6, 0xC6, 0xC6, 0x7C, 0, 0, 0, 0],
     [0, 0, 0xC6, 0, 0, 0x7C, 0xC6, 0xC6, 0xC6, 0xC6, 0xC6, 0x7C, 0, 0, 0, 0],
     [0, 0x60, 0x30, 0x18, 0, 0x7C, 0xC6, 0xC6, 0xC6, 0xC6, 0xC6, 0x7C, 0, 0, 0, 0],
     [0, 0x30, 0x78, 0xCC, 0, 0xCC, 0xCC, 0xCC, 0xCC, 0xCC, 0xCC, 0x76, 0, 0, 0, 0],
     [0, 0x60, 0x30, 0x18, 0, 0xCC, 0xCC, 0xCC, 0xCC, 0xCC, 0xCC, 0x76, 0, 0, 0, 0],
     [0, 0, 0xC6, 0, 0, 0xC6, 0xC6, 0xC6, 0xC6, 0xC6, 0xC6, 0x7E, 0x06, 0x0C, 0x78, 0],
     [0, 0xC6, 0, 0x7C, 0xC6, 0xC6, 0xC6, 0xC6, 0xC6, 0xC6, 0xC6, 0x7C, 0, 0, 0, 0],
     [0, 0xC6, 0, 0xC6, 0xC6, 0xC6, 0xC6, 0xC6, 0xC6, 0xC6, 0xC6, 0x7C, 0, 0, 0, 0],
     [0, 0x18, 0x18, 0x3C, 0x66, 0x60, 0x60, 0x60, 0x66, 0x3C, 0x18, 0x18, 0, 0, 0, 0],
     [0, 0x38, 0x6C, 0x64, 0x60, 0xF0, 0x60, 0x60, 0x60, 0x60, 0xE6, 0xFC, 0, 0, 0, 0],
     [0, 0, 0x66, 0x66, 0x3C, 0x18, 0x7E, 0x18, 0x7E, 0x18, 0x18, 0x18, 0, 0, 0, 0],
     [0, 0xF8, 0xCC, 0xCC, 0xF8, 0xC4, 0xCC, 0xDE, 0xCC, 0xCC, 0xCC, 0xC6, 0, 0, 0, 0],
     [0, 0x0E, 0x1B, 0x18, 0x18, 0x18, 0x7E, 0x18, 0x18, 0x18, 0x18, 0x18, 0xD8, 0x70, 0, 0],
     [0, 0x18, 0x30, 0x60, 0, 0x78, 0x0C, 0x7C, 0xCC, 0xCC, 0xCC, 0x76, 0, 0, 0, 0],
     [0, 0x0C, 0x18, 0x30, 0, 0x38, 0x18, 0x18, 0x18, 0x18, 0x18, 0x3C, 0, 0, 0, 0],
     [0, 0x18, 0x30, 0x60, 0, 0x7C, 0xC6, 0xC6, 0xC6, 0xC6, 0xC6, 0x7C, 0, 0, 0, 0],
     [0, 0x18, 0x30, 0x60, 0, 0xCC, 0xCC, 0xCC, 0xCC, 0xCC, 0xCC, 0x76, 0, 0, 0, 0],
     [0, 0, 0x76, 0xDC, 0, 0xDC, 0x66, 0x66, 0x66, 0x66, 0x66, 0x66, 0, 0, 0, 0],
     [0x76, 0xDC, 0, 0xC6, 0xE6, 0xF6, 0xFE, 0xDE, 0xCE, 0xC6, 0xC6, 0xC6, 0, 0, 0, 0],
     [0, 0x3C, 0x6C, 0x6C, 0x3E, 0, 0x7E, 0, 0, 0, 0, 0, 0, 0, 0, 0],
     [0, 0x38, 0x6C, 0x6C, 0x38, 0, 0x7C, 0, 0, 0, 0, 0, 0, 0, 0, 0],
     [0, 0, 0x30, 0x30, 0, 0x30, 0x30, 0x60, 0xC0, 0xC6, 0xC6, 0x7C, 0, 0, 0, 0],
     [0, 0, 0, 0, 0, 0, 0xFE, 0xC0, 0xC0, 0xC0, 0xC0, 0, 0, 0, 0, 0],
     [0, 0, 0, 0, 0, 0, 0xFE, 0x06, 0x06, 0x06, 0x06, 0, 0, 0, 0, 0],
     [0, 0xC0, 0xC0, 0xC2, 0xC6, 0xCC, 0x18, 0x30, 0x60, 0xDC, 0x86, 0x0C, 0x18, 0x3E, 0, 0],
     [0, 0xC0, 0xC0, 0xC2, 0xC6, 0xCC, 0x18, 0x30, 0x66, 0xCE, 0x9E, 0x3E, 0x06, 0x06, 0, 0],
     [0, 0, 0x18, 0x18, 0, 0x18, 0x18, 0x18, 0x3C, 0x3C, 0x3C, 0x18, 0, 0, 0, 0],
     [0, 0, 0, 0, 0, 0x36, 0x6C, 0xD8, 0x6C, 0x36, 0, 0, 0, 0, 0, 0],
     [0, 0, 0, 0, 0, 0xD8, 0x6C, 0x36, 0x6C, 0xD8, 0, 0, 0, 0, 0, 0],
     [0x11, 0x44, 0x11, 0x44, 0x11, 0x44, 0x11, 0x44, 0x11, 0x44, 0x11, 0x44, 0x11, 0x44, 0x11, 0x44],
     [0x55, 0xAA, 0x55, 0xAA, 0x55, 0xAA, 0x55, 0xAA, 0x55, 0xAA, 0x55, 0xAA, 0x55, 0xAA, 0x55, 0xAA],
     [0xDD, 0x77, 0xDD, 0x77, 0xDD, 0x77, 0xDD, 0x77, 0xDD, 0x77, 0xDD, 0x77, 0xDD, 0x77, 0xDD, 0x77],
     [0x18, 0x18, 0x18, 0x18, 0x18, 0x18, 0x18, 0x18, 0x18, 0x18, 0x18, 0x18, 0x18, 0x18, 0x18, 0x18],
     [0x18, 0x18, 0x18, 0x18, 0x18, 0x18, 0x18, 0xF8, 0x18, 0x18, 0x18, 0x18, 0x18, 0x18, 0x18, 0x18],
     [0x18, 0x18, 0x18, 0x18, 0x18, 0xF8, 0x18, 0xF8, 0x18, 0x18, 0x18, 0x18, 0x18, 0x18, 0x18, 0x18],
     [0x36, 0x36, 0x36, 0x36, 0x36, 0x36, 0x36, 0xF6, 0x36, 0x36, 0x36, 0x36, 0x36, 0x36, 0x36, 0x36],
     [0, 0, 0, 0, 0, 0, 0, 0xFE, 0x36, 0x36, 0x36, 0x36, 0x36, 0x36, 0x36, 0x36],
     [0, 0, 0, 0, 0, 0xF8, 0x18, 0xF8, 0x18, 0x18, 0x18, 0x18, 0x18, 0x18, 0x18, 0x18],
     [0x36, 0x36, 0x36, 0x36, 0x36, 0xF6, 0x06, 0xF6, 0x36, 0x36, 0x36, 0x36, 0x36, 0x36, 0x36, 0x36],
     [0x36, 0x36, 0x36, 0x36, 0x36, 0x36, 0x36, 0x36, 0x36, 0x36, 0x36, 0x36, 0x36, 0x36, 0x36, 0x36],
     [0, 0, 0, 0, 0, 0xFE, 0x06, 0xF6, 0x36, 0x36, 0x36, 0x36, 0x36, 0x36, 0x36, 0x36],
     [0x36, 0x36, 0x36, 0x36, 0x36, 0xF6, 0x06, 0xFE, 0, 0, 0, 0, 0, 0, 0, 0],
     [0x36, 0x36, 0x36, 0x36, 0x36, 0x36, 0x36, 0xFE, 0, 0, 0, 0, 0, 0, 0, 0],
     [0x18, 0x18, 0x18, 0x18, 0x18, 0xF8, 0x18, 0xF8, 0, 0, 0, 0, 0, 0, 0, 0],
     [0, 0, 0, 0, 0, 0, 0, 0xF8, 0x18, 0x18, 0x18, 0x18, 0x18, 0x18, 0x18, 0x18],
     [0x18, 0x18, 0x18, 0x18, 0x18, 0x18, 0x18, 0x1F, 0, 0, 0, 0, 0, 0, 0, 0],
     [0x18, 0x18, 0x18, 0x18, 0x18, 0x18, 0x18, 0xFF, 0, 0, 0, 0, 0, 0, 0, 0],
     [0, 0, 0, 0, 0, 0, 0, 0xFF, 0x18, 0x18, 0x18, 0x18, 0x18, 0x18, 0x18, 0x18],
     [0x18, 0x18, 0x18, 0x18, 0x18, 0x18, 0x18, 0x1F, 0x18, 0x18, 0x18, 0x18, 0x18, 0x18, 0x18, 0x18],
     [0, 0, 0, 0, 0, 0, 0, 0xFF, 0, 0, 0, 0, 0, 0, 0, 0],
     [0x18, 0x18, 0x18, 0x18, 0x18, 0x18, 0x18, 0xFF, 0x18, 0x18, 0x18, 0x18, 0x18, 0x18, 0x18, 0x18],
     [0x18, 0x18, 0x18, 0x18, 0x18, 0x1F, 0x18, 0x1F, 0x18, 0x18, 0x18, 0x18, 0x18, 0x18, 0x18, 0x18],
     [0x36, 0x36, 0x36, 0x36, 0x36, 0x36, 0x36, 0x37, 0x36, 0x36, 0x36, 0x36, 0x36, 0x36, 0x36, 0x36],
     [0x36, 0x36, 0x36, 0x36, 0x36, 0x37, 0x30, 0x3F, 0, 0, 0, 0, 0, 0, 0, 0],
     [0, 0, 0, 0, 0, 0x3F, 0x30, 0x37, 0x36, 0x36, 0x36, 0x36, 0x36, 0x36, 0x36, 0x36],
     [0x36, 0x36, 0x36, 0x36, 0x36, 0xF7, 0, 0xFF, 0, 0, 0, 0, 0, 0, 0, 0],
     [0, 0, 0, 0, 0, 0xFF, 0, 0xF7, 0x36, 0x36, 0x36, 0x36, 0x36, 0x36, 0x36, 0x36],
     [0x36, 0x36, 0x36, 0x36, 0x36, 0x37, 0x30, 0x37, 0x36, 0x36, 0x36, 0x36, 0x36, 0x36, 0x36, 0x36],
     [0, 0, 0, 0, 0, 0xFF, 0, 0xFF, 0, 0, 0, 0, 0, 0, 0, 0],
     [0x36, 0x36, 0x36, 0x36, 0x36, 0xF7, 0, 0xF7, 0x36, 0x36, 0x36, 0x36, 0x36, 0x36, 0x36, 0x36],
     [0x18, 0x18, 0x18, 0x18, 0x18, 0xFF, 0, 0xFF, 0, 0, 0, 0, 0, 0, 0, 0],
     [0x36, 0x36, 0x36, 0x36, 0x36, 0x36, 0x36, 0xFF, 0, 0, 0, 0, 0, 0, 0, 0],
     [0, 0, 0, 0, 0, 0xFF, 0, 0xFF, 0x18, 0x18, 0x18, 0x18, 0x18, 0x18, 0x18, 0x18],
     [0, 0, 0, 0, 0, 0, 0, 0xFF, 0x36, 0x36, 0x36, 0x36, 0x36, 0x36, 0x36, 0x36],
     [0x36, 0x36, 0x36, 0x36, 0x36, 0x36, 0x36, 0x3F, 0, 0, 0, 0, 0, 0, 0, 0],
     [0x18, 0x18, 0x18, 0x18, 0x18, 0x1F, 0x18, 0x1F, 0, 0, 0, 0, 0, 0, 0, 0],
     [0, 0, 0, 0, 0, 0x1F, 0x18, 0x1F, 0x18, 0x18, 0x18, 0x18, 0x18, 0x18, 0x18, 0x18],
     [0, 0, 0, 0, 0, 0, 0, 0x3F, 0x36, 0x36, 0x36, 0x36, 0x36, 0x36, 0x36, 0x36],
     [0x36, 0x36, 0x36, 0x36, 0x36, 0x36, 0x36, 0xFF, 0x36, 0x36, 0x36, 0x36, 0x36, 0x36, 0x36, 0x36],
     [0x18, 0x18, 0x18, 0x18, 0x18, 0xFF, 0x18, 0xFF, 0x18, 0x18, 0x18, 0x18, 0x18, 0x18, 0x18, 0x18],
     [0x18, 0x18, 0x18, 0x18, 0x18, 0x18, 0x18, 0xF8, 0, 0, 0, 0, 0, 0, 0, 0],
     [0, 0, 0, 0, 0, 0, 0, 0x1F, 0x18, 0x18, 0x18, 0x18, 0x18, 0x18, 0x18, 0x18],
     [0xFF, 0xFF, 0xFF, 0xFF, 0xFF, 0xFF, 0xFF, 0xFF, 0xFF, 0xFF, 0xFF, 0xFF, 0xFF, 0xFF, 0xFF, 0xFF],
     [0, 0, 0, 0, 0, 0, 0, 0xFF, 0xFF, 0xFF, 0xFF, 0xFF, 0xFF, 0xFF, 0xFF, 0xFF],
     [0xF0, 0xF0, 0xF0, 0xF0, 0xF0, 0xF0, 0xF0, 0xF0, 0xF0, 0xF0, 0xF0, 0xF0, 0xF0, 0xF0, 0xF0, 0xF0],
     [0x0F, 0x0F, 0x0F, 0x0F, 0x0F, 0x0F, 0x0F, 0x0F, 0x0F, 0x0F, 0x0F, 0x0F, 0x0F, 0x0F, 0x0F, 0x0F],
     [0xFF, 0xFF, 0xFF, 0xFF, 0xFF, 0xFF, 0xFF, 0, 0, 0, 0, 0, 0, 0, 0, 0],
     [0, 0, 0, 0, 0, 0x76, 0xDC, 0xD8, 0xD8, 0xD8, 0xDC, 0x76, 0, 0, 0, 0],
     [0, 0, 0x78, 0xCC, 0xCC, 0xCC, 0xD8, 0xCC, 0xC6, 0xC6, 0xC6, 0xCC, 0, 0, 0, 0],
     [0, 0, 0xFE, 0xC6, 0xC6, 0xC0, 0xC0, 0xC0, 0xC0, 0xC0, 0xC0, 0xC0, 0, 0, 0, 0],
     [0, 0, 0, 0, 0xFE, 0x6C, 0x6C, 0x6C, 0x6C, 0x6C, 0x6C, 0x6C, 0, 0, 0, 0],
     [0, 0, 0, 0xFE, 0xC6, 0x60, 0x30, 0x18, 0x30, 0x60, 0xC6, 0xFE, 0, 0, 0, 0],
     [0, 0, 0, 0, 0, 0x7E, 0xD8, 0xD8, 0xD8, 0xD8, 0xD8, 0x70, 0, 0, 0, 0],
     [0, 0, 0, 0, 0x66, 0x66, 0x66, 0x66, 0x66, 0x7C, 0x60, 0x60, 0xC0, 0, 0, 0],
     [0, 0, 0, 0, 0x76, 0xDC, 0x18, 0x18, 0x18, 0x18, 0x18, 0x18, 0, 0, 0, 0],
     [0, 0, 0, 0x7E, 0x18, 0x3C, 0x66, 0x66, 0x66, 0x3C, 0x18, 0x7E, 0, 0, 0, 0],
     [0, 0, 0, 0x38, 0x6C, 0xC6, 0xC6, 0xFE, 0xC6, 0xC6, 0x6C, 0x38, 0, 0, 0, 0],
     [0, 0, 0x38, 0x6C, 0xC6, 0xC6, 0xC6, 0x6C, 0x6C, 0x6C, 0x6C, 0xEE, 0, 0, 0, 0],
     [0, 0, 0x1E, 0x30, 0x18, 0x0C, 0x3E, 0x66, 0x66, 0x66, 0x66, 0x3C, 0, 0, 0, 0],
     [0, 0, 0, 0, 0, 0x7E, 0xDB, 0xDB, 0xDB, 0x7E, 0, 0, 0, 0, 0, 0],
     [0, 0, 0, 0x03, 0x06, 0x7E, 0xDB, 0xDB, 0xF3, 0x7E, 0x60, 0xC0, 0, 0, 0, 0],
     [0, 0, 0x1C, 0x30, 0x60, 0x60, 0x7C, 0x60, 0x60, 0x60, 0x30, 0x1C, 0, 0, 0, 0],
     [0, 0, 0, 0x7C, 0xC6, 0xC6, 0xC6, 0xC6, 0xC6, 0xC6, 0xC6, 0xC6, 0, 0, 0, 0],
     [0, 0, 0, 0, 0xFE, 0, 0, 0xFE, 0, 0, 0xFE, 0, 0, 0, 0, 0],
     [0, 0, 0, 0, 0x18, 0x18, 0x7E, 0x18, 0x18, 0, 0, 0xFF, 0, 0, 0, 0],
     [0, 0, 0, 0x30, 0x18, 0x0C, 0x06, 0x0C, 0x18, 0x30, 0, 0x7E, 0, 0, 0, 0],
     [0, 0, 0, 0x0C, 0x18, 0x30, 0x60, 0x30, 0x18, 0x0C, 0, 0x7E, 0, 0, 0, 0],
     [0, 0, 0x0E, 0x1B, 0x1B, 0x18, 0x18, 0x18, 0x18, 0x18, 0x18, 0x18, 0x18, 0x18, 0x18, 0x18],
     [0x18, 0x18, 0x18, 0x18, 0x18, 0x18, 0x18, 0x18, 0xD8, 0xD8, 0xD8, 0x70, 0, 0, 0, 0],
     [0, 0, 0, 0, 0x18, 0x18, 0, 0x7E, 0, 0x18, 0x18, 0, 0, 0, 0, 0],
     [0, 0, 0, 0, 0, 0x76, 0xDC, 0, 0x76, 0xDC, 0, 0, 0, 0, 0, 0],
     [0, 0x38, 0x6C, 0x6C, 0x38, 0, 0, 0, 0, 0, 0, 0, 0, 0, 0, 0],
     [0, 0, 0, 0, 0, 0, 0, 0x18, 0x18, 0, 0, 0, 0, 0, 0, 0],
     [0, 0, 0, 0, 0, 0, 0, 0, 0x18, 0, 0, 0, 0, 0, 0, 0],
     [0, 0x0F, 0x0C, 0x0C, 0x0C, 0x0C, 0x0C, 0xEC, 0x6C, 0x6C, 0x3C, 0x1C, 0, 0, 0, 0],
     [0, 0xD8, 0x6C, 0x6C, 0x6C, 0x6C, 0x6C, 0, 0, 0, 0, 0, 0, 0, 0, 0],
     [0, 0x70, 0xD8, 0x30, 0x60, 0xC8, 0xF8, 0, 0, 0, 0, 0, 0, 0, 0, 0],
     [0, 0, 0, 0, 0x7C, 0x7C, 0x7C, 0x7C, 0x7C, 0x7C, 0x7C, 0, 0, 0, 0, 0],
     [0, 0, 0, 0, 0, 0, 0, 0, 0, 0, 0, 0, 0, 0, 0, 0]]"

subsection \<open>Text as planes\<close>

abbreviation (input) NUM_CHARS :: nat where "NUM_CHARS \<equiv> 40"
abbreviation (input) BAR_LEVEL_INDEX :: u8 where "BAR_LEVEL_INDEX \<equiv> 38"
abbreviation (input) PALETTE_WHITE :: u8 where "PALETTE_WHITE \<equiv> 36"
abbreviation (input) PX_PER_PLANE_SB :: nat where "PX_PER_PLANE_SB \<equiv> 1440"

definition pixel_masks :: "u8 list" where
  "pixel_masks = [0x80, 0x40, 0x20, 0x10, 0x08, 0x04, 0x02, 0x01]"

text \<open>The 8 pixels of one byte of the font.\<close>

definition byte_pixels :: "u8 \<Rightarrow> u8 list" where
  "byte_pixels hex = map (\<lambda>m. if hex AND m \<noteq> 0 then PALETTE_WHITE else BAR_LEVEL_INDEX) pixel_masks"

text \<open>The pixels in row-major order: a blank row, the sixteen rows of the font, a blank row. A \<open>char\<close> is
  signed.\<close>

definition font_rows :: "u8 list \<Rightarrow> u8 list list option" where
  "font_rows str = those (map (\<lambda>c. arr_get font_data (sint c)) str)"

definition pixel_rows :: "u8 list list \<Rightarrow> u8 list" where
  "pixel_rows ascii = replicate 320 BAR_LEVEL_INDEX @
     concat (map (\<lambda>row. concat (map (\<lambda>character. byte_pixels (ascii ! character ! row)) [0..<NUM_CHARS])) [0..<nat FONT_HEIGHT]) @
     replicate 320 BAR_LEVEL_INDEX"

text \<open>The array of 40 characters is filled from the front with those of the string; \<open>junk\<close> is what was in it.
  A longer string is written behind it.\<close>

definition ASCII_graphic_conversion :: "u8 list list \<Rightarrow> u8 list \<Rightarrow> u8 list option" where
  "ASCII_graphic_conversion junk str = do {
     assert_opt (length str \<le> NUM_CHARS);
     rows \<leftarrow> font_rows str;
     let pixel_buffer = pixel_rows (rows @ drop (length rows) junk);
     Some (concat (map (\<lambda>plane. map (\<lambda>k. pixel_buffer ! (plane + 4 * k)) [0..<PX_PER_PLANE_SB]) [0..<4]))
   }"

subsection \<open>The message\<close>

text \<open>The conversions \<open>%d\<close> and \<open>%02d\<close> of \<open>sprintf\<close>.\<close>

fun digits :: "nat \<Rightarrow> u8 list" where
  "digits n = (if n < 10 then [48 + word_of_nat n] else digits (n div 10) @ [48 + word_of_nat (n mod 10)])"

declare digits.simps [simp del]

definition print_d :: "int \<Rightarrow> u8 list" where
  "print_d i = (if i < 0 then 45 # digits (nat (- i)) else digits (nat i))"

definition print_02d :: "int \<Rightarrow> u8 list" where
  "print_02d i =
     (if i < 0 then 45 # digits (nat (- i))
      else replicate (2 - length (digits (nat i))) 48 @ digits (nat i))"

abbreviation (input) MAX_LEVEL :: int where "MAX_LEVEL \<equiv> 10"

definition ascii :: "string \<Rightarrow> u8 list" where
  "ascii str = map (\<lambda>c. word_of_nat (of_char c)) str"

definition status_message :: "int \<Rightarrow> int \<Rightarrow> int \<Rightarrow> u8 list" where
  "status_message level fruit time =
     (let seconds = time smod 60; minutes = time sdiv 60
      in if level < MAX_LEVEL \<and> fruit = 1 then
           ascii ''       Level '' @ print_d level @ ascii ''    '' @ print_d fruit @ ascii '' Fruit    '' @ print_02d minutes @ ascii '':'' @ print_02d seconds @ ascii ''      ''
         else if level < MAX_LEVEL \<and> fruit \<noteq> 1 then
           ascii ''       Level '' @ print_d level @ ascii ''    '' @ print_d fruit @ ascii '' Fruits   '' @ print_02d minutes @ ascii '':'' @ print_02d seconds @ ascii ''      ''
         else if level = MAX_LEVEL \<and> fruit = 1 then
           ascii ''       Level '' @ print_02d level @ ascii ''    '' @ print_d fruit @ ascii '' Fruit    '' @ print_02d minutes @ ascii '':'' @ print_02d seconds @ ascii ''     ''
         else
           ascii ''       Level '' @ print_02d level @ ascii ''    '' @ print_d fruit @ ascii '' Fruits   '' @ print_02d minutes @ ascii '':'' @ print_02d seconds @ ascii ''     '')"

subsection \<open>The bar\<close>

text \<open>\<open>memcpy\<close> to the start of the video memory.\<close>

fun vram_copy :: "nat \<Rightarrow> u8 list \<Rightarrow> 'a modex_scheme \<Rightarrow> 'a modex_scheme" where
  "vram_copy i [] s = s"
| "vram_copy i (b # bs) s = vram_copy (i + 1) bs (vram_write i b s)"

fun show_bar :: "u8 list \<Rightarrow> nat \<Rightarrow> nat \<Rightarrow> 'a modex_scheme \<Rightarrow> 'a modex_scheme" where
  "show_bar plane_buffer i 0 s = s"
| "show_bar plane_buffer i (Suc k) s =
     show_bar plane_buffer (i + 1) k
       (vram_copy 0 (take PX_PER_PLANE_SB (drop (i * PX_PER_PLANE_SB) plane_buffer)) (SET_WRITE_MASK (push_bit (i + 8) 1) s))"

definition fill_status_bar :: "u8 list list \<Rightarrow> int \<Rightarrow> int \<Rightarrow> int \<Rightarrow> 'a modex_scheme \<Rightarrow> 'a modex_scheme option" where
  "fill_status_bar junk level fruit time s = do {
     plane_buffer \<leftarrow> ASCII_graphic_conversion junk (status_message level fruit time);
     Some (show_bar plane_buffer 0 4 s)
   }"

end
