(* ===== verification/Vga.thy ===== *)
theory Vga
  imports Text
begin

text \<open>
  The display adapter that mp2/modex.c programs: its sequencer, CRT controller, attribute controller, graphics
  controller and palette as the ports show them, with the index registers, the flip-flop of the attribute port and
  the write protection of the CRT controller, and the video memory as the mode of the adapter decodes it. On them
  the functions that switch between mode X and the text mode, and the program tr that restores the text mode.

  The record extends the display of \<open>Modex\<close>, whose \<open>crtc\<close>, \<open>vram\<close> and \<open>write_mask\<close> are registers of the same
  adapter. \<open>None\<close> is an access that the program may not make (a port without permission, memory that is not mapped)
  or a mode of the adapter that is not modelled: chained planes and the write modes with latches.
\<close>

subsection \<open>The registers\<close>

record vga = modex +
  port_access :: bool             \<comment> \<open>\<open>ioperm\<close> for the ports 0x3C0 to 0x3DA\<close>
  mapped :: bool                  \<comment> \<open>\<open>mem_image\<close> is mapped\<close>
  seq_index :: u8
  seq :: "u8 \<Rightarrow> u8"
  misc :: u8
  crtc_index :: u8
  attr_data_next :: bool          \<comment> \<open>the flip-flop: the next write to 0x3C0 is data\<close>
  attr_index :: u8
  attr :: "u8 \<Rightarrow> u8"
  gfx_index :: u8
  gfx :: "u8 \<Rightarrow> u8"
  dac_index :: u8
  dac_next :: nat                 \<comment> \<open>red, green or blue\<close>
  dac :: "u8 \<Rightarrow> nat \<Rightarrow> u8"
  printed :: "string list"

text \<open>The first eight registers of the CRT controller can be protected by bit 7 of register 0x11; bit 4 of register 7
  always can be written. With bit 0 of the miscellaneous register clear, the controller and the status register
  are at other ports.\<close>

definition crtc_write :: "u8 \<Rightarrow> u8 \<Rightarrow> (u8 \<Rightarrow> u8) \<Rightarrow> u8 \<Rightarrow> u8" where
  "crtc_write i v f =
     (if \<not> (i \<le> 7 \<and> bit (f 0x11) 7) then f(i := v)
      else if i = 7 then f(7 := (f 7 AND 0xEF) OR (v AND 0x10))
      else f)"

definition seq_write :: "u8 \<Rightarrow> 'a vga_scheme \<Rightarrow> 'a vga_scheme" where
  "seq_write v s = (let s = s\<lparr>seq := (seq s)(seq_index s := v)\<rparr>
     in if seq_index s = 2 then SET_WRITE_MASK (push_bit 8 (ucast v)) s else s)"

definition attr_write :: "u8 \<Rightarrow> 'a vga_scheme \<Rightarrow> 'a vga_scheme" where
  "attr_write v s =
     (if attr_data_next s then s\<lparr>attr := (attr s)(attr_index s AND 0x1F := v), attr_data_next := False\<rparr>
      else s\<lparr>attr_index := v, attr_data_next := True\<rparr>)"

definition dac_write :: "u8 \<Rightarrow> 'a vga_scheme \<Rightarrow> 'a vga_scheme" where
  "dac_write v s =
     (let s = s\<lparr>dac := (dac s)(dac_index s := (dac s (dac_index s))(dac_next s := v AND 0x3F)), dac_next := dac_next s + 1\<rparr>
      in if dac_next s = 3 then s\<lparr>dac_index := dac_index s + 1, dac_next := 0\<rparr> else s)"

subsection \<open>The ports\<close>

definition OUTB :: "u16 \<Rightarrow> u8 \<Rightarrow> 'a vga_scheme \<Rightarrow> 'a vga_scheme option" where
  "OUTB port v s =
     (if \<not> port_access s then None
      else if port = 0x3C0 then Some (attr_write v s)
      else if port = 0x3C2 then Some (s\<lparr>misc := v\<rparr>)
      else if port = 0x3C4 then Some (s\<lparr>seq_index := v\<rparr>)
      else if port = 0x3C5 then Some (seq_write v s)
      else if port = 0x3C8 then Some (s\<lparr>dac_index := v, dac_next := 0\<rparr>)
      else if port = 0x3C9 then Some (dac_write v s)
      else if port = 0x3CE then Some (s\<lparr>gfx_index := v\<rparr>)
      else if port = 0x3CF then Some (s\<lparr>gfx := (gfx s)(gfx_index s := v)\<rparr>)
      else if port = 0x3D4 then Some (if bit (misc s) 0 then s\<lparr>crtc_index := v\<rparr> else s)
      else if port = 0x3D5 then Some (if bit (misc s) 0 then s\<lparr>crtc := crtc_write (crtc_index s) v (crtc s)\<rparr> else s)
      else None)"

text \<open>Reading the status register resets the flip-flop; its value is not used by the code.\<close>

definition in_status :: "'a vga_scheme \<Rightarrow> 'a vga_scheme option" where
  "in_status s = (if \<not> port_access s then None else Some (if bit (misc s) 0 then s\<lparr>attr_data_next := False\<rparr> else s))"

definition in_seq :: "'a vga_scheme \<Rightarrow> u8 option" where
  "in_seq s = (if \<not> port_access s then None else Some (seq s (seq_index s)))"

text \<open>A word goes to two consecutive ports; a table goes to the same port, one value after the other.\<close>

definition OUTW :: "u16 \<Rightarrow> u16 \<Rightarrow> 'a vga_scheme \<Rightarrow> 'a vga_scheme option" where
  "OUTW port w s = do { s \<leftarrow> OUTB port (ucast w) s; OUTB (port + 1) (ucast (drop_bit 8 w)) s }"

fun REP_OUTSW :: "u16 \<Rightarrow> u16 list \<Rightarrow> 'a vga_scheme \<Rightarrow> 'a vga_scheme option" where
  "REP_OUTSW port [] s = Some s"
| "REP_OUTSW port (w # ws) s = do { s \<leftarrow> OUTW port w s; REP_OUTSW port ws s }"

fun REP_OUTSB :: "u16 \<Rightarrow> u8 list \<Rightarrow> 'a vga_scheme \<Rightarrow> 'a vga_scheme option" where
  "REP_OUTSB port [] s = Some s"
| "REP_OUTSB port (v # vs) s = do { s \<leftarrow> OUTB port v s; REP_OUTSB port vs s }"

subsection \<open>The video memory\<close>

abbreviation (input) VID_MEM_SIZE :: nat where "VID_MEM_SIZE \<equiv> 131072"

text \<open>Which part of the 128 kB the adapter answers to, and how a byte gets to the planes: to all planes of the map
  mask, or, with odd/even addressing, to the even planes at even addresses and to the odd planes at odd ones.\<close>

definition window :: "'a vga_scheme \<Rightarrow> nat \<times> nat" where
  "window s = (let m = drop_bit 2 (gfx s 6) AND 3
     in if m = 0 then (0, 0x20000) else if m = 1 then (0, 0x10000) else if m = 2 then (0x10000, 0x8000)
        else (0x18000, 0x8000))"

definition plain_writes :: "'a vga_scheme \<Rightarrow> bool" where
  "plain_writes s \<longleftrightarrow> gfx s 1 AND 0x0F = 0 \<and> gfx s 3 AND 0x1F = 0 \<and> gfx s 5 AND 3 = 0 \<and> gfx s 8 = 0xFF \<and> \<not> bit (seq s 4) 3"

definition mem_write :: "nat \<Rightarrow> u8 \<Rightarrow> 'a vga_scheme \<Rightarrow> 'a vga_scheme option" where
  "mem_write off b s =
     (if \<not> mapped s \<or> VID_MEM_SIZE \<le> off \<or> \<not> plain_writes s then None
      else let (first, size) = window s; a = off - first
        in if off < first \<or> size \<le> a then Some s
           else if bit (seq s 4) 2 then Some (vram_write (a mod 0x10000) b s)
           else Some (s\<lparr>vram := (\<lambda>p. if p < 4 \<and> bit (write_mask s) (8 + p) \<and> even p = even a
             then (vram s p)(a - a mod 2 := b) else vram s p)\<rparr>))"

subsection \<open>The register tables\<close>

definition mode_X_seq :: "u16 list" where
  "mode_X_seq = [0x0100, 0x2101, 0x0F02, 0x0003, 0x0604]"

definition mode_X_CRTC :: "u16 list" where
  "mode_X_CRTC =
  [0x5F00, 0x4F01, 0x5002, 0x8203, 0x5404, 0x8005, 0xBF06, 0x1F07,
   0x0008, 0x0109, 0x000A, 0x000B, 0x000C, 0x000D, 0x000E, 0x000F,
   0x9C10, 0x8E11, 0x8F12, 0x2813, 0x0014, 0x9615, 0xB916, 0xE317,
   0x6B18]"

definition mode_X_attr :: "u8 list" where
  "mode_X_attr =
  [0x00, 0x00, 0x01, 0x01, 0x02, 0x02, 0x03, 0x03,
   0x04, 0x04, 0x05, 0x05, 0x06, 0x06, 0x07, 0x07,
   0x08, 0x08, 0x09, 0x09, 0x0A, 0x0A, 0x0B, 0x0B,
   0x0C, 0x0C, 0x0D, 0x0D, 0x0E, 0x0E, 0x0F, 0x0F,
   0x10, 0x41, 0x11, 0x00, 0x12, 0x0F, 0x13, 0x00,
   0x14, 0x00, 0x15, 0x00]"

definition mode_X_graphics :: "u16 list" where
  "mode_X_graphics = [0x0000, 0x0001, 0x0002, 0x0003, 0x0004, 0x4005, 0x0506, 0x0F07, 0xFF08]"

definition text_seq :: "u16 list" where
  "text_seq = [0x0100, 0x2001, 0x0302, 0x0003, 0x0204]"

definition text_CRTC :: "u16 list" where
  "text_CRTC =
  [0x5F00, 0x4F01, 0x5002, 0x8203, 0x5504, 0x8105, 0xBF06, 0x1F07,
   0x0008, 0x4F09, 0x0D0A, 0x0E0B, 0x000C, 0x000D, 0x000E, 0x000F,
   0x9C10, 0x8E11, 0x8F12, 0x2813, 0x1F14, 0x9615, 0xB916, 0xA317,
   0xFF18]"

definition text_attr :: "u8 list" where
  "text_attr =
  [0x00, 0x00, 0x01, 0x01, 0x02, 0x02, 0x03, 0x03,
   0x04, 0x04, 0x05, 0x05, 0x06, 0x06, 0x07, 0x07,
   0x08, 0x08, 0x09, 0x09, 0x0A, 0x0A, 0x0B, 0x0B,
   0x0C, 0x0C, 0x0D, 0x0D, 0x0E, 0x0E, 0x0F, 0x0F,
   0x10, 0x0C, 0x11, 0x00, 0x12, 0x0F, 0x13, 0x08,
   0x14, 0x00, 0x15, 0x00]"

definition text_graphics :: "u16 list" where
  "text_graphics = [0x0000, 0x0001, 0x0002, 0x0003, 0x0004, 0x1005, 0x0E06, 0x0007, 0xFF08]"

definition palette_RGB :: "u8 list list" where
  "palette_RGB =
  [[0x00, 0x00, 0x00], [0x00, 0x00, 0x2A], [0x00, 0x2A, 0x00], [0x00, 0x2A, 0x2A],
   [0x2A, 0x00, 0x00], [0x2A, 0x00, 0x2A], [0x2A, 0x15, 0x00], [0x2A, 0x2A, 0x2A],
   [0x15, 0x15, 0x15], [0x15, 0x15, 0x3F], [0x15, 0x3F, 0x15], [0x15, 0x3F, 0x3F],
   [0x3F, 0x15, 0x15], [0x3F, 0x15, 0x3F], [0x3F, 0x3F, 0x15], [0x3F, 0x3F, 0x3F],
   [0x00, 0x00, 0x00], [0x05, 0x05, 0x05], [0x08, 0x08, 0x08], [0x0B, 0x0B, 0x0B],
   [0x0E, 0x0E, 0x0E], [0x11, 0x11, 0x11], [0x14, 0x14, 0x14], [0x18, 0x18, 0x18],
   [0x1C, 0x1C, 0x1C], [0x20, 0x20, 0x20], [0x24, 0x24, 0x24], [0x28, 0x28, 0x28],
   [0x2D, 0x2D, 0x2D], [0x32, 0x32, 0x32], [0x38, 0x38, 0x38], [0x3F, 0x3F, 0x3F],
   [0x3F, 0x3F, 0x3F], [0x3F, 0x3F, 0x3F], [0x00, 0x00, 0x3F], [0x00, 0x00, 0x00],
   [0xff, 0xff, 0xff], [0x00, 0x00, 0x00], [0xff, 0xff, 0xff], [0x00, 0x00, 0x00],
   [0x00, 0x00, 0x00], [0x00, 0x00, 0x00], [0x00, 0x00, 0x00], [0x00, 0x00, 0x00],
   [0x00, 0x00, 0x00], [0x00, 0x00, 0x00], [0x00, 0x00, 0x00], [0x00, 0x00, 0x00],
   [0x10, 0x08, 0x00], [0x18, 0x0C, 0x00], [0x20, 0x10, 0x00], [0x28, 0x14, 0x00],
   [0x30, 0x18, 0x00], [0x38, 0x1C, 0x00], [0x3F, 0x20, 0x00], [0x3F, 0x20, 0x10],
   [0x20, 0x18, 0x10], [0x28, 0x1C, 0x10], [0x3F, 0x20, 0x10], [0x38, 0x24, 0x10],
   [0x3F, 0x28, 0x10], [0x3F, 0x2C, 0x10], [0x3F, 0x30, 0x10], [0x3F, 0x20, 0x10]]"

subsection \<open>Programming the adapter\<close>

definition VGA_blank :: "u32 \<Rightarrow> 'a vga_scheme \<Rightarrow> 'a vga_scheme option" where
  "VGA_blank blank_bit s = do {
     let blank_bit = push_bit 5 (blank_bit AND 1);
     s \<leftarrow> OUTB 0x3C4 0x01 s;
     old \<leftarrow> in_seq s;
     s \<leftarrow> OUTB 0x3C5 ((old AND 0xDF) OR ucast blank_bit) s;
     s \<leftarrow> in_status s;
     OUTB 0x3C0 0x20 s
   }"

definition set_seq_regs_and_reset :: "u16 list \<Rightarrow> u8 \<Rightarrow> 'a vga_scheme \<Rightarrow> 'a vga_scheme option" where
  "set_seq_regs_and_reset table val s = do {
     s \<leftarrow> REP_OUTSW 0x3C4 table s;
     s \<leftarrow> OUTB 0x3C2 val s;
     OUTW 0x3C4 0x0300 s
   }"

definition set_CRTC_registers :: "u16 list \<Rightarrow> 'a vga_scheme \<Rightarrow> 'a vga_scheme option" where
  "set_CRTC_registers table s = do {
     s \<leftarrow> OUTW 0x3D4 0x0011 s;
     REP_OUTSW 0x3D4 table s
   }"

definition set_attr_registers :: "u8 list \<Rightarrow> 'a vga_scheme \<Rightarrow> 'a vga_scheme option" where
  "set_attr_registers table s = do {
     s \<leftarrow> in_status s;
     REP_OUTSB 0x3C0 table s
   }"

definition set_graphics_registers :: "u16 list \<Rightarrow> 'a vga_scheme \<Rightarrow> 'a vga_scheme option" where
  "set_graphics_registers table s = REP_OUTSW 0x3CE table s"

definition fill_palette :: "'a vga_scheme \<Rightarrow> 'a vga_scheme option" where
  "fill_palette s = do {
     s \<leftarrow> OUTB 0x3C8 0x00 s;
     REP_OUTSB 0x3C9 (concat palette_RGB) s
   }"

definition set_palette_color :: "u8 \<Rightarrow> u8 \<Rightarrow> u8 \<Rightarrow> u8 \<Rightarrow> 'a vga_scheme \<Rightarrow> 'a vga_scheme option" where
  "set_palette_color index r g b s = do {
     s \<leftarrow> OUTB 0x3C8 index s;
     s \<leftarrow> OUTB 0x3C9 r s;
     s \<leftarrow> OUTB 0x3C9 g s;
     OUTB 0x3C9 b s
   }"

text \<open>The loops over the characters of the font and their bytes.\<close>

fun font_bytes :: "nat \<Rightarrow> u8 list \<Rightarrow> 'a vga_scheme \<Rightarrow> 'a vga_scheme option" where
  "font_bytes off [] s = Some s"
| "font_bytes off (b # bs) s = do { s \<leftarrow> mem_write off b s; font_bytes (off + 1) bs s }"

fun font_chars :: "nat \<Rightarrow> u8 list list \<Rightarrow> 'a vga_scheme \<Rightarrow> 'a vga_scheme option" where
  "font_chars fonts [] s = Some s"
| "font_chars fonts (bs # rows) s = do { s \<leftarrow> font_bytes fonts bs s; font_chars (fonts + 32) rows s }"

definition write_font_data :: "'a vga_scheme \<Rightarrow> 'a vga_scheme option" where
  "write_font_data s = do {
     s \<leftarrow> OUTW 0x3C4 0x0402 s;
     s \<leftarrow> OUTW 0x3C4 0x0704 s;
     s \<leftarrow> OUTW 0x3CE 0x0005 s;
     s \<leftarrow> OUTW 0x3CE 0x0406 s;
     s \<leftarrow> OUTW 0x3CE 0x0204 s;
     s \<leftarrow> font_chars 0 font_data s;
     s \<leftarrow> OUTW 0x3C4 0x0302 s;
     s \<leftarrow> OUTW 0x3C4 0x0304 s;
     s \<leftarrow> OUTW 0x3CE 0x1005 s;
     s \<leftarrow> OUTW 0x3CE 0x0E06 s;
     OUTW 0x3CE 0x0004 s
   }"

text \<open>The loop over the text screens writes 0x07200720, a space and its attribute twice.\<close>

fun clear_text :: "nat \<Rightarrow> nat \<Rightarrow> 'a vga_scheme \<Rightarrow> 'a vga_scheme option" where
  "clear_text txt_scr 0 s = Some s"
| "clear_text txt_scr (Suc k) s = do {
     s \<leftarrow> mem_write txt_scr 0x20 s;
     s \<leftarrow> mem_write (txt_scr + 1) 0x07 s;
     s \<leftarrow> mem_write (txt_scr + 2) 0x20 s;
     s \<leftarrow> mem_write (txt_scr + 3) 0x07 s;
     clear_text (txt_scr + 4) k s
   }"

definition set_text_mode_3 :: "int \<Rightarrow> 'a vga_scheme \<Rightarrow> 'a vga_scheme option" where
  "set_text_mode_3 clear_scr s = do {
     s \<leftarrow> VGA_blank 1 s;
     s \<leftarrow> set_seq_regs_and_reset text_seq 0x67 s;
     s \<leftarrow> set_CRTC_registers text_CRTC s;
     s \<leftarrow> set_attr_registers text_attr s;
     s \<leftarrow> set_graphics_registers text_graphics s;
     s \<leftarrow> fill_palette s;
     s \<leftarrow> (if clear_scr \<noteq> 0 then clear_text 0x18000 8192 s else Some s);
     s \<leftarrow> write_font_data s;
     VGA_blank 0 s
   }"

subsection \<open>Entering and leaving mode X\<close>

text \<open>What \<open>ioperm\<close>, \<open>open\<close> and \<open>mmap\<close> answer are the arguments.\<close>

definition open_memory_and_ports :: "bool \<Rightarrow> bool \<Rightarrow> bool \<Rightarrow> 'a vga_scheme \<Rightarrow> int \<times> 'a vga_scheme" where
  "open_memory_and_ports permitted opened mmapped s =
     (if \<not> permitted then (-1, s\<lparr>printed := printed s @ [''set port permissions'']\<rparr>)
      else let s = s\<lparr>port_access := True\<rparr>
      in if \<not> opened then (-1, s\<lparr>printed := printed s @ [''open /dev/mem'']\<rparr>)
      else if \<not> mmapped then (-1, s\<lparr>printed := printed s @ [''mmap video memory'']\<rparr>)
      else (0, s\<lparr>mapped := True\<rparr>))"

text \<open>\<open>clear_screens\<close> on the adapter: \<open>memset\<close> of the mode X memory.\<close>

fun clear_memory :: "nat \<Rightarrow> nat \<Rightarrow> 'a vga_scheme \<Rightarrow> 'a vga_scheme option" where
  "clear_memory i 0 s = Some s"
| "clear_memory i (Suc k) s = do { s \<leftarrow> mem_write i 0 s; clear_memory (i + 1) k s }"

definition vga_clear_screens :: "'a vga_scheme \<Rightarrow> 'a vga_scheme option" where
  "vga_clear_screens s = do { s \<leftarrow> OUTW 0x3C4 0x0F02 s; clear_memory 0 MODE_X_MEM_SIZE s }"

definition vga_set_mode_X :: "bool \<Rightarrow> bool \<Rightarrow> bool \<Rightarrow> bool \<Rightarrow> 'a vga_scheme \<Rightarrow> (int \<times> 'a vga_scheme) option" where
  "vga_set_mode_X callbacks permitted opened mmapped s =
     (if \<not> callbacks then Some (-1, s)
      else do {
        s \<leftarrow> init_buffer s;
        let (r, s) = open_memory_and_ports permitted opened mmapped s;
        if r = -1 then Some (-1, s)
        else do {
          s \<leftarrow> VGA_blank 1 s;
          s \<leftarrow> set_seq_regs_and_reset mode_X_seq 0x63 s;
          s \<leftarrow> set_CRTC_registers mode_X_CRTC s;
          s \<leftarrow> set_attr_registers mode_X_attr s;
          s \<leftarrow> set_graphics_registers mode_X_graphics s;
          s \<leftarrow> fill_palette s;
          s \<leftarrow> vga_clear_screens s;
          s \<leftarrow> VGA_blank 0 s;
          Some (0, s)
        }
      })"

text \<open>The two loops that look for a broken fence.\<close>

fun fence_broken :: "int \<Rightarrow> int \<Rightarrow> nat \<Rightarrow> 'a vga_scheme \<Rightarrow> bool option" where
  "fence_broken base i 0 s = Some False"
| "fence_broken base i (Suc k) s = do {
     b \<leftarrow> build_get (base + i) s;
     if b \<noteq> MEM_FENCE_MAGIC then Some True else fence_broken base (i + 1) k s
   }"

definition clear_mode_X :: "'a vga_scheme \<Rightarrow> 'a vga_scheme option" where
  "clear_mode_X s = do {
     s \<leftarrow> set_text_mode_3 1 s;
     let s = s\<lparr>mapped := False\<rparr>;
     lower \<leftarrow> fence_broken 0 0 (nat MEM_FENCE_WIDTH) s;
     let s = (if lower then s\<lparr>printed := printed s @ [''lower build fence was broken'']\<rparr> else s);
     upper \<leftarrow> fence_broken (BUILD_BUF_SIZE + MEM_FENCE_WIDTH) 0 (nat MEM_FENCE_WIDTH) s;
     Some (if upper then s\<lparr>printed := printed s @ [''upper build fence was broken'']\<rparr> else s)
   }"

text \<open>The program tr.\<close>

definition text_restore :: "bool \<Rightarrow> bool \<Rightarrow> bool \<Rightarrow> 'a vga_scheme \<Rightarrow> (int \<times> 'a vga_scheme) option" where
  "text_restore permitted opened mmapped s = do {
     let (r, s) = open_memory_and_ports permitted opened mmapped s;
     if r = -1 then Some (3, s)
     else do {
       s \<leftarrow> set_text_mode_3 0 s;
       Some (0, s\<lparr>mapped := False\<rparr>)
     }
   }"

end
