(* ===== verification/TextProps.thy ===== *)
theory TextProps
  imports Text ModexProps
begin

text \<open>
  The status bar shows its message: every pixel of the bar, in its plane at its address, is white
  exactly where the font has a pixel for the character of the message at that place.
\<close>

subsection \<open>Pixels of the bar\<close>

lemma byte_pixels_length [simp]: "length (byte_pixels h) = 8"
  by (simp add: byte_pixels_def pixel_masks_def)

lemma byte_pixels_nth:
  assumes "m < 8"
  shows "byte_pixels h ! m = (if bit h (7 - m) then PALETTE_WHITE else BAR_LEVEL_INDEX)"
proof -
  have b: "h AND 2 ^ k \<noteq> 0 \<longleftrightarrow> bit h k" if "k < 8" for k
    using that by (metis bit_iff_and_push_bit_not_eq_0 push_bit_of_1)
  have p: "pixel_masks ! m = 2 ^ (7 - m)"
  proof -
    have "m = 0 \<or> m = 1 \<or> m = 2 \<or> m = 3 \<or> m = 4 \<or> m = 5 \<or> m = 6 \<or> m = 7" using assms by arith
    then show ?thesis by (elim disjE) (simp_all add: pixel_masks_def)
  qed
  have "m < length pixel_masks" using assms by (simp add: pixel_masks_def)
  then show ?thesis using b [of "7 - m"] by (simp add: byte_pixels_def p)
qed

definition char_pixel :: "u8 list \<Rightarrow> nat \<Rightarrow> nat \<Rightarrow> u8" where
  "char_pixel str x r =
     (if 1 \<le> r \<and> r \<le> 16 \<and> bit (font_data ! unat (str ! (x div 8)) ! (r - 1)) (7 - x mod 8) then PALETTE_WHITE else BAR_LEVEL_INDEX)"

lemma pixel_rows_length: "length (pixel_rows a) = 5760"
proof -
  let ?row = "\<lambda>row. concat (map (\<lambda>c. byte_pixels (a ! c ! row)) [0..<40])"
  have "length (?row row) = 320" for row
    by (subst concat_length [where n = 8]) auto
  then have "length (concat (map ?row [0..<16])) = 16 * 320"
    by (subst concat_length [where n = 320]) auto
  then show ?thesis by (simp add: pixel_rows_def)
qed

lemma pixel_rows_nth:
  assumes "x < 320" "r < 18" "length str = 40"
  shows "pixel_rows (map (\<lambda>c. font_data ! unat c) str) ! (r * 320 + x) = char_pixel str x r"
proof -
  let ?a = "map (\<lambda>c. font_data ! unat c) str"
  let ?row = "\<lambda>row. concat (map (\<lambda>c. byte_pixels (?a ! c ! row)) [0..<40])"
  have len: "length (?row row) = 320" for row by (subst concat_length [where n = 8]) auto
  have inner: "length (concat (map ?row [0..<16])) = 16 * 320" by (subst concat_length [where n = 320]) (auto simp: len)
  have pix: "concat (map ?row [0..<16]) ! (q * 320 + x) = char_pixel str x (q + 1)" if q: "q < 16" for q
  proof -
    have "concat (map ?row [0..<16]) ! (q * 320 + x) = map ?row [0..<16] ! q ! x"
      by (rule concat_nth) (use q assms(1) len in auto)
    also have "\<dots> = ?row q ! (x div 8 * 8 + x mod 8)" using q by simp
    also have "\<dots> = map (\<lambda>c. byte_pixels (?a ! c ! q)) [0..<40] ! (x div 8) ! (x mod 8)"
      by (rule concat_nth) (use assms(1) in auto)
    also have "\<dots> = byte_pixels (font_data ! unat (str ! (x div 8)) ! q) ! (x mod 8)"
      using assms(1) assms(3) by (simp add: less_mult_imp_div_less)
    also have "\<dots> = char_pixel str x (q + 1)" using q by (simp add: byte_pixels_nth char_pixel_def)
    finally show ?thesis .
  qed
  have "r = 0 \<or> r = 17 \<or> (\<exists>q<16. r = q + 1)" using assms(2) by presburger
  then consider "r = 0" | "r = 17" | q where "r = q + 1" "q < 16" by blast
  then show ?thesis
  proof cases
    case 1
    then show ?thesis using assms(1) by (simp add: pixel_rows_def nth_append char_pixel_def)
  next
    case 2
    have "\<not> 17 * 320 + x < 320" "17 * 320 + x - 320 = 16 * 320 + x" by simp_all
    then show ?thesis using 2 assms(1) inner by (simp add: pixel_rows_def nth_append char_pixel_def)
  next
    case 3
    have "q * 320 + x < 16 * 320" using 3(2) assms(1) by (simp add: less_mult_imp_div_less)
    moreover have "(q + 1) * 320 + x = 320 + (q * 320 + x)" by simp
    ultimately show ?thesis using pix [OF 3(2)] inner 3(1) by (simp add: pixel_rows_def nth_append)
  qed
qed

subsection \<open>The planes\<close>

lemma font_data_length: "length font_data = 256"
  by (simp add: font_data_def)

lemma font_rows_ascii:
  assumes "\<forall>c \<in> set str. c < 128"
  shows "font_rows str = Some (map (\<lambda>c. font_data ! unat c) str)"
proof -
  have "arr_get font_data (sint c) = Some (font_data ! unat c)" if "c \<in> set str" for c
  proof -
    have c: "c < 128" using assms that by blast
    then have u1: "uint c < 128" by (simp add: word_less_def)
    have u: "unat c < 128" "uint c < 128" using c u1 by (simp add: word_less_nat_alt, simp)
    have "- 128 \<le> uint c" using uint_ge_0 [of c] by linarith
    then have "sint c = int (unat c)" using u(2) signed_take_bit_int_eq_self [of 7 "uint c"] by (simp add: sint_uint)
    then show ?thesis using u by (simp add: arr_get_def font_data_length)
  qed
  then have "map (\<lambda>c. arr_get font_data (sint c)) str = map (\<lambda>c. Some (font_data ! unat c)) str" by simp
  then show ?thesis unfolding font_rows_def by (induction str) simp_all
qed

text \<open>Pixel \<open>(x, r)\<close> of the bar is byte \<open>80 r + x div 4\<close> of plane \<open>x mod 4\<close>.\<close>

lemma conversion_pixels:
  assumes "length str = 40" "\<forall>c \<in> set str. c < 128" "length junk = 40"
  shows "\<exists>pb. ASCII_graphic_conversion junk str = Some pb \<and> length pb = 5760 \<and>
    (\<forall>x<320. \<forall>r<18. pb ! (x mod 4 * 1440 + (r * 80 + x div 4)) = char_pixel str x r)"
proof -
  define px where "px = pixel_rows (map (\<lambda>c. font_data ! unat c) str)"
  let ?pb = "concat (map (\<lambda>plane. map (\<lambda>k. px ! (plane + 4 * k)) [0..<1440]) [0..<4])"
  have "ASCII_graphic_conversion junk str = Some ?pb"
    using assms by (simp add: ASCII_graphic_conversion_def font_rows_ascii px_def del: upt_Suc)
  moreover have "length ?pb = 5760" by (subst concat_length [where n = 1440]) auto
  moreover have "?pb ! (x mod 4 * 1440 + (r * 80 + x div 4)) = char_pixel str x r" if "x < 320" "r < 18" for x r
  proof -
    have k: "r * 80 + x div 4 < 1440" using that by (simp add: less_mult_imp_div_less)
    have "?pb ! (x mod 4 * 1440 + (r * 80 + x div 4)) = map (\<lambda>plane. map (\<lambda>k. px ! (plane + 4 * k)) [0..<1440]) [0..<4] ! (x mod 4) ! (r * 80 + x div 4)"
      by (rule concat_nth) (use k in auto)
    also have "\<dots> = px ! (x mod 4 + 4 * (r * 80 + x div 4))" using k by simp
    also have "x mod 4 + 4 * (r * 80 + x div 4) = r * 320 + x" by simp
    also have "px ! (r * 320 + x) = char_pixel str x r" unfolding px_def by (rule pixel_rows_nth [OF that assms(1)])
    finally show ?thesis .
  qed
  ultimately show ?thesis by blast
qed

subsection \<open>The video memory\<close>

lemma vram_copy_eq:
  "\<exists>v. vram_copy i bs s = s\<lparr>vram := v\<rparr> \<and> (\<forall>p j. v p j =
    (if p < 4 \<and> bit (write_mask s) (8 + p) \<and> i \<le> j \<and> j < i + length bs then bs ! (j - i) else vram s p j))"
proof (induction bs arbitrary: i s)
  case Nil
  then show ?case by (intro exI [of _ "vram s"]) simp
next
  case (Cons b bs)
  obtain v where v: "vram_copy (i + 1) bs (vram_write i b s) = (vram_write i b s)\<lparr>vram := v\<rparr>"
    "\<And>p j. v p j = (if p < 4 \<and> bit (write_mask (vram_write i b s)) (8 + p) \<and> i + 1 \<le> j \<and> j < i + 1 + length bs then bs ! (j - (i + 1))
       else vram (vram_write i b s) p j)" using Cons.IH [of "i + 1" "vram_write i b s"] by blast
  have "vram_copy i (b # bs) s = s\<lparr>vram := v\<rparr>" using v(1) by (simp add: vram_write_def)
  moreover have "v p j = (if p < 4 \<and> bit (write_mask s) (8 + p) \<and> i \<le> j \<and> j < i + length (b # bs) then (b # bs) ! (j - i) else vram s p j)" for p j
  proof (cases "i < j")
    case True
    then have "j - i = Suc (j - (i + 1))" by simp
    then show ?thesis unfolding v(2) using True by (simp add: vram_write_def)
  qed (auto simp: v(2) vram_write_def)
  ultimately show ?case by blast
qed

lemma plane_mask: "i < 4 \<Longrightarrow> p < 4 \<Longrightarrow> bit (push_bit (i + 8) 1 :: u16) (8 + p) \<longleftrightarrow> p = i"
  by (auto simp: bit_simps)

lemma show_bar_eq:
  assumes "length pb = 5760" "i + k = 4"
  shows "\<exists>v m. show_bar pb i k s = s\<lparr>vram := v, write_mask := m\<rparr> \<and> (\<forall>p j. v p j =
    (if i \<le> p \<and> p < 4 \<and> j < 1440 then pb ! (p * 1440 + j) else vram s p j))"
  using assms(2)
proof (induction k arbitrary: i s)
  case 0
  then show ?case by (intro exI [of _ "vram s"] exI [of _ "write_mask s"]) simp
next
  case (Suc k)
  have i: "i < 4" using Suc.prems by simp
  let ?s = "SET_WRITE_MASK (push_bit (i + 8) 1) s" and ?bs = "take 1440 (drop (i * 1440) pb)"
  have len: "length ?bs = 1440" using assms(1) i by simp
  obtain w where w: "vram_copy 0 ?bs ?s = ?s\<lparr>vram := w\<rparr>"
    "\<And>p j. w p j = (if p < 4 \<and> bit (write_mask ?s) (8 + p) \<and> 0 \<le> j \<and> j < 0 + length ?bs then ?bs ! (j - 0) else vram ?s p j)"
    using vram_copy_eq [of 0 ?bs ?s] by blast
  obtain v m where v: "show_bar pb (i + 1) k (?s\<lparr>vram := w\<rparr>) = (?s\<lparr>vram := w\<rparr>)\<lparr>vram := v, write_mask := m\<rparr>"
    "\<And>p j. v p j = (if i + 1 \<le> p \<and> p < 4 \<and> j < 1440 then pb ! (p * 1440 + j) else vram (?s\<lparr>vram := w\<rparr>) p j)"
    using Suc.IH [of "i + 1" "?s\<lparr>vram := w\<rparr>"] Suc.prems by auto
  have "show_bar pb i (Suc k) s = s\<lparr>vram := v, write_mask := m\<rparr>" using v(1) w(1) by (simp add: SET_WRITE_MASK_def)
  moreover have "v p j = (if i \<le> p \<and> p < 4 \<and> j < 1440 then pb ! (p * 1440 + j) else vram s p j)" for p j
  proof (cases "p = i")
    case True
    then show ?thesis using i len plane_mask [OF i i] by (simp add: v(2) w(2) SET_WRITE_MASK_def)
  next
    case False
    then have "\<not> (p < 4 \<and> bit (push_bit (i + 8) 1 :: u16) (8 + p))" using plane_mask [OF i] by blast
    then show ?thesis using False by (auto simp: v(2) w(2) SET_WRITE_MASK_def)
  qed
  ultimately show ?case by blast
qed

subsection \<open>The message\<close>

lemma digits_10: "n < 10 \<Longrightarrow> digits n = [48 + word_of_nat n]"
  by (simp add: digits.simps)

lemma digits_100: "10 \<le> n \<Longrightarrow> n < 100 \<Longrightarrow> digits n = [48 + word_of_nat (n div 10), 48 + word_of_nat (n mod 10)]"
  by (simp add: digits.simps [of n] digits_10 less_mult_imp_div_less)

lemma digit_less: "n < 10 \<Longrightarrow> (48 + word_of_nat n :: u8) < 128"
proof -
  assume "n < 10"
  then have "n = 0 \<or> n = 1 \<or> n = 2 \<or> n = 3 \<or> n = 4 \<or> n = 5 \<or> n = 6 \<or> n = 7 \<or> n = 8 \<or> n = 9" by presburger
  then show ?thesis by (elim disjE) simp_all
qed

lemma print_d_ok: "0 \<le> i \<Longrightarrow> i < 10 \<Longrightarrow> length (print_d i) = 1 \<and> (\<forall>c \<in> set (print_d i). c < 128)"
  using digits_10 [of "nat i"] digit_less [of "nat i"] by (simp add: print_d_def)

lemma print_02d_ok:
  assumes "0 \<le> i" "i < 100"
  shows "length (print_02d i) = 2 \<and> (\<forall>c \<in> set (print_02d i). c < 128)"
proof (cases "i < 10")
  case True
  then show ?thesis using assms digits_10 [of "nat i"] digit_less [of "nat i"] by (simp add: print_02d_def)
next
  case False
  have "nat i div 10 < 10" "nat i mod 10 < 10" "10 \<le> nat i" "nat i < 100" using assms False by (simp_all add: less_mult_imp_div_less)
  then show ?thesis using assms digits_100 [of "nat i"] digit_less [of "nat i div 10"] digit_less [of "nat i mod 10"] by (simp add: print_02d_def)
qed

lemma ascii_ok: "length (ascii str) = length str" "(\<forall>c \<in> set (ascii str). c < 128) \<longleftrightarrow> (\<forall>c \<in> set str. (word_of_nat (of_char c) :: u8) < 128)"
  by (simp_all add: ascii_def)

lemma status_message_ok:
  assumes "1 \<le> level" "level \<le> 10" "0 \<le> fruit" "fruit < 10" "0 \<le> time" "time < 6000"
  shows "length (status_message level fruit time) = 40 \<and> (\<forall>c \<in> set (status_message level fruit time). c < 128)"
proof -
  define a b where "a = time smod 60" and "b = time sdiv 60"
  have ab: "0 \<le> a" "a < 100" "0 \<le> b" "b < 100" using assms(5,6)
    by (simp_all add: a_def b_def smod_nonneg sdiv_nonneg order_less_trans [OF pos_mod_bound])
  note p = print_02d_ok [OF ab(1,2)] print_02d_ok [OF ab(3,4)] print_d_ok [OF assms(3,4)] print_d_ok [of 1]
  show ?thesis
  proof (cases "level < 10")
    case True
    then have "length (print_d level) = 1 \<and> (\<forall>c \<in> set (print_d level). c < 128)" using print_d_ok [of level] assms(1) by simp
    then show ?thesis using True p
      by (simp add: status_message_def a_def [symmetric] b_def [symmetric] ascii_ok Let_def ball_Un)
  next
    case False
    have "length (print_02d level) = 2 \<and> (\<forall>c \<in> set (print_02d level). c < 128)" using print_02d_ok [of level] assms(1,2) by simp
    then show ?thesis using False assms(2) p
      by (simp add: status_message_def a_def [symmetric] b_def [symmetric] ascii_ok Let_def ball_Un)
  qed
qed

lemma fill_status_bar_pixels:
  assumes "1 \<le> level" "level \<le> 10" "0 \<le> fruit" "fruit < 10" "0 \<le> time" "time < 6000" "length junk = 40"
  shows "\<exists>t. fill_status_bar junk level fruit time s = Some t \<and>
    (\<forall>x<320. \<forall>r<18. vram t (x mod 4) (r * 80 + x div 4) = char_pixel (status_message level fruit time) x r) \<and>
    (\<forall>p j. 1440 \<le> j \<longrightarrow> vram t p j = vram s p j)"
proof -
  note m = status_message_ok [OF assms(1-6)]
  obtain pb where pb: "ASCII_graphic_conversion junk (status_message level fruit time) = Some pb" "length pb = 5760"
    "\<forall>x<320. \<forall>r<18. pb ! (x mod 4 * 1440 + (r * 80 + x div 4)) = char_pixel (status_message level fruit time) x r"
    using conversion_pixels [OF _ _ assms(7)] m by blast
  obtain v w where v: "show_bar pb 0 4 s = s\<lparr>vram := v, write_mask := w\<rparr>"
    "\<And>p j. v p j = (if 0 \<le> p \<and> p < 4 \<and> j < 1440 then pb ! (p * 1440 + j) else vram s p j)"
    using show_bar_eq [OF pb(2), of 0 4 s] by auto
  have "v (x mod 4) (r * 80 + x div 4) = char_pixel (status_message level fruit time) x r" if "x < 320" "r < 18" for x r
  proof -
    have "r * 80 + x div 4 < 1440" using that by (simp add: less_mult_imp_div_less)
    then show ?thesis using pb(3) that by (simp add: v(2))
  qed
  then show ?thesis using pb(1) v(1) by (simp add: fill_status_bar_def v(2))
qed

end
