(* ===== verification/VgaProps.thy ===== *)
theory VgaProps
  imports Vga TextProps
begin

text \<open>
  What the functions of \<open>Vga\<close> leave in the registers, whatever they found there: the tables, the palette, the
  memory planes. Each of them is given as the update of the record that it makes.
\<close>

unbundle bit_operations_syntax

subsection \<open>Tables\<close>

definition holds_table :: "(u8 \<Rightarrow> u8) \<Rightarrow> u16 list \<Rightarrow> bool" where
  "holds_table f ws \<longleftrightarrow> (\<forall>w \<in> set ws. f (ucast w) = ucast (drop_bit 8 w))"

fun holds_pairs :: "(u8 \<Rightarrow> u8) \<Rightarrow> u8 list \<Rightarrow> bool" where
  "holds_pairs f (i # v # vs) \<longleftrightarrow> f i = v \<and> holds_pairs f vs"
| "holds_pairs f _ \<longleftrightarrow> True"

definition crtc_puts :: "u16 list \<Rightarrow> (u8 \<Rightarrow> u8) \<Rightarrow> u8 \<Rightarrow> u8" where
  "crtc_puts = fold (\<lambda>w. crtc_write (ucast w) (ucast (drop_bit 8 w)))"

definition table_puts :: "u16 list \<Rightarrow> (u8 \<Rightarrow> u8) \<Rightarrow> u8 \<Rightarrow> u8" where
  "table_puts = fold (\<lambda>w f. f(ucast w := ucast (drop_bit 8 w)))"

fun attr_puts :: "u8 list \<Rightarrow> (u8 \<Rightarrow> u8) \<Rightarrow> u8 \<Rightarrow> u8" where
  "attr_puts [] f = f"
| "attr_puts [i] f = f"
| "attr_puts (i # v # vs) f = attr_puts vs (f(i AND 0x1F := v))"

text \<open>The tables set every register that they name: the word that clears the write protection comes first.\<close>

lemma crtc_table_set:
  "holds_table (crtc_puts mode_X_CRTC (crtc_write 0x11 0 f)) mode_X_CRTC"
  "holds_table (crtc_puts text_CRTC (crtc_write 0x11 0 f)) text_CRTC"
  by (simp_all add: holds_table_def crtc_puts_def mode_X_CRTC_def text_CRTC_def crtc_write_def)

lemma attr_table_set:
  "holds_pairs (attr_puts mode_X_attr f) mode_X_attr" "holds_pairs (attr_puts text_attr f) text_attr"
  by (simp_all add: mode_X_attr_def text_attr_def)

lemma graphics_table_set:
  "holds_table (table_puts mode_X_graphics f) mode_X_graphics" "holds_table (table_puts text_graphics f) text_graphics"
  by (simp_all add: holds_table_def table_puts_def mode_X_graphics_def text_graphics_def)

subsection \<open>Writing a table to a port\<close>

lemma OUTW_seq:
  "port_access s \<Longrightarrow> OUTW 0x3C4 w s = Some (s\<lparr>seq_index := ucast w, seq := (seq s)(ucast w := ucast (drop_bit 8 w)),
     write_mask := if ucast w = (2 :: u8) then push_bit 8 (ucast (ucast (drop_bit 8 w) :: u8)) else write_mask s\<rparr>)"
  by (simp add: OUTW_def OUTB_def seq_write_def SET_WRITE_MASK_def)

lemma OUTW_gfx:
  "port_access s \<Longrightarrow> OUTW 0x3CE w s = Some (s\<lparr>gfx_index := ucast w, gfx := (gfx s)(ucast w := ucast (drop_bit 8 w))\<rparr>)"
  by (simp add: OUTW_def OUTB_def)

lemma OUTW_crtc:
  "port_access s \<Longrightarrow> bit (misc s) 0 \<Longrightarrow>
    OUTW 0x3D4 w s = Some (s\<lparr>crtc_index := ucast w, crtc := crtc_write (ucast w) (ucast (drop_bit 8 w)) (crtc s)\<rparr>)"
  by (simp add: OUTW_def OUTB_def)

lemma REP_OUTSW_crtc:
  "port_access s \<Longrightarrow> bit (misc s) 0 \<Longrightarrow> \<exists>i. REP_OUTSW 0x3D4 ws s = Some (s\<lparr>crtc_index := i, crtc := crtc_puts ws (crtc s)\<rparr>)"
proof (induction ws arbitrary: s)
  case Nil
  show ?case by (rule exI [of _ "crtc_index s"]) (simp add: crtc_puts_def)
next
  case (Cons w ws)
  let ?t = "s\<lparr>crtc_index := ucast w, crtc := crtc_write (ucast w) (ucast (drop_bit 8 w)) (crtc s)\<rparr>"
  obtain i where "REP_OUTSW 0x3D4 ws ?t = Some (?t\<lparr>crtc_index := i, crtc := crtc_puts ws (crtc ?t)\<rparr>)"
    using Cons.IH [of ?t] Cons.prems by auto
  then show ?case using Cons.prems by (auto simp: OUTW_crtc crtc_puts_def)
qed

lemma REP_OUTSW_gfx:
  "port_access s \<Longrightarrow> \<exists>i. REP_OUTSW 0x3CE ws s = Some (s\<lparr>gfx_index := i, gfx := table_puts ws (gfx s)\<rparr>)"
proof (induction ws arbitrary: s)
  case Nil
  show ?case by (rule exI [of _ "gfx_index s"]) (simp add: table_puts_def)
next
  case (Cons w ws)
  let ?t = "s\<lparr>gfx_index := ucast w, gfx := (gfx s)(ucast w := ucast (drop_bit 8 w))\<rparr>"
  have "\<exists>i. REP_OUTSW 0x3CE ws ?t = Some (?t\<lparr>gfx_index := i, gfx := table_puts ws (gfx ?t)\<rparr>)"
    by (rule Cons.IH) (simp add: Cons.prems)
  then show ?case using Cons.prems by (simp add: OUTW_gfx table_puts_def del: fun_upd_apply)
qed

lemma REP_OUTSB_attr:
  "port_access s \<Longrightarrow> \<not> attr_data_next s \<Longrightarrow> even (length vs) \<Longrightarrow>
    \<exists>i. REP_OUTSB 0x3C0 vs s = Some (s\<lparr>attr_index := i, attr := attr_puts vs (attr s), attr_data_next := False\<rparr>)"
proof (induction vs "attr s" arbitrary: s rule: attr_puts.induct)
  case 1
  show ?case by (rule exI [of _ "attr_index s"]) (use 1 in simp)
next
  case (2 i)
  then show ?case by simp
next
  case (3 i v vs)
  let ?t = "s\<lparr>attr_index := i, attr := (attr s)(i AND 0x1F := v), attr_data_next := False\<rparr>"
  have step: "REP_OUTSB 0x3C0 (i # v # vs) s = REP_OUTSB 0x3C0 vs ?t"
    using 3(2,3) by (simp add: OUTB_def attr_write_def)
  have "\<exists>j. REP_OUTSB 0x3C0 vs ?t = Some (?t\<lparr>attr_index := j, attr := attr_puts vs (attr ?t), attr_data_next := False\<rparr>)"
    by (rule 3(1)) (use 3(2-) in simp_all)
  then show ?case unfolding step by simp
qed

subsection \<open>The palette\<close>

fun palette_puts :: "u8 \<Rightarrow> u8 list list \<Rightarrow> (u8 \<Rightarrow> nat \<Rightarrow> u8) \<Rightarrow> u8 \<Rightarrow> nat \<Rightarrow> u8" where
  "palette_puts i [] d = d"
| "palette_puts i (c # cs) d = palette_puts (i + 1) cs
     (d(i := (d i)(0 := c ! 0 AND 0x3F, 1 := c ! 1 AND 0x3F, 2 := c ! 2 AND 0x3F)))"

lemma OUTB_dac: "port_access s \<Longrightarrow> OUTB 0x3C9 v s = Some (dac_write v s)"
  by (simp add: OUTB_def)

lemma dac_write_access [simp]: "port_access (dac_write v s) = port_access s"
  by (simp add: dac_write_def Let_def)

lemma dac_write_colour:
  "dac_next s = 0 \<Longrightarrow> dac_write b (dac_write g (dac_write r s)) =
    s\<lparr>dac := (dac s)(dac_index s := (dac s (dac_index s))(0 := r AND 0x3F, 1 := g AND 0x3F, 2 := b AND 0x3F)),
      dac_index := dac_index s + 1, dac_next := 0\<rparr>"
  by (simp add: dac_write_def Let_def numeral_2_eq_2)

lemma REP_OUTSB_dac:
  "port_access s \<Longrightarrow> dac_next s = 0 \<Longrightarrow> \<forall>c \<in> set cs. length c = 3 \<Longrightarrow>
    REP_OUTSB 0x3C9 (concat cs) s = Some (s\<lparr>dac := palette_puts (dac_index s) cs (dac s),
      dac_index := dac_index s + of_nat (length cs), dac_next := 0\<rparr>)"
proof (induction cs arbitrary: s)
  case Nil
  then show ?case by simp
next
  case (Cons c cs)
  then obtain r g b where c: "c = [r, g, b]" by (auto simp: numeral_3_eq_3 length_Suc_conv)
  let ?t = "dac_write b (dac_write g (dac_write r s))"
  have "REP_OUTSB 0x3C9 (concat cs) ?t = Some (?t\<lparr>dac := palette_puts (dac_index ?t) cs (dac ?t),
      dac_index := dac_index ?t + of_nat (length cs), dac_next := 0\<rparr>)"
    by (rule Cons.IH) (use Cons.prems dac_write_colour [OF Cons.prems(2)] in simp_all)
  then show ?case using Cons.prems(1,2) by (simp add: c OUTB_dac dac_write_colour algebra_simps del: fun_upd_apply)
qed

lemma palette_puts_other:
  "\<forall>k < length cs. x \<noteq> i + of_nat k \<Longrightarrow> palette_puts i cs d x = d x"
proof (induction cs arbitrary: i d)
  case (Cons c cs)
  have "x \<noteq> i" using Cons.prems [rule_format, of 0] by simp
  moreover have "\<forall>k < length cs. x \<noteq> i + 1 + of_nat k" using Cons.prems [rule_format, of "Suc _"] by (simp add: algebra_simps)
  ultimately show ?case using Cons.IH by simp
qed simp

lemma palette_puts_nth:
  "length cs \<le> 256 \<Longrightarrow> k < length cs \<Longrightarrow> j < 3 \<Longrightarrow> palette_puts i cs d (i + of_nat k) j = cs ! k ! j AND 0x3F"
proof (induction cs arbitrary: i d k)
  case (Cons c cs)
  show ?case
  proof (cases k)
    case 0
    have "i \<noteq> i + 1 + of_nat m" if "m < length cs" for m
    proof
      assume "i = i + 1 + of_nat m"
      then have "(of_nat (Suc m) :: u8) = 0" by (simp add: algebra_simps)
      then have "256 dvd Suc m" unfolding word_of_nat_eq_0_iff by simp
      then show False using that Cons.prems(1) by (auto dest: dvd_imp_le)
    qed
    then show ?thesis using 0 Cons.prems(3) palette_puts_other [of cs i "i + 1"]
      by (auto simp: less_Suc_eq numeral_3_eq_3)
  next
    case (Suc m)
    then show ?thesis using Cons.IH [of m "i + 1"] Cons.prems by (simp add: add.assoc)
  qed
qed simp

lemma palette_shape: "length palette_RGB = 64" "\<forall>c \<in> set palette_RGB. length c = 3"
  by (simp_all add: palette_RGB_def)

subsection \<open>The functions that program the adapter\<close>

abbreviation blanked :: "u32 \<Rightarrow> u8 \<Rightarrow> u8" where
  "blanked b v \<equiv> (v AND 0xDF) OR ucast (push_bit 5 (b AND 1))"

lemma VGA_blank_colour:
  "port_access s \<Longrightarrow> bit (misc s) 0 \<Longrightarrow> VGA_blank b s =
    Some (s\<lparr>seq_index := 1, seq := (seq s)(1 := blanked b (seq s 1)), attr_data_next := True, attr_index := 0x20\<rparr>)"
  by (simp add: VGA_blank_def OUTB_def in_seq_def in_status_def seq_write_def attr_write_def Let_def)

text \<open>Before the mode is known, the status register may be elsewhere, and 0x20 may be taken as data.\<close>

lemma VGA_blank_any:
  "port_access s \<Longrightarrow> \<exists>n i a. VGA_blank b s =
    Some (s\<lparr>seq_index := 1, seq := (seq s)(1 := blanked b (seq s 1)), attr_data_next := n, attr_index := i, attr := a\<rparr>)"
proof -
  assume port: "port_access s"
  let ?s = "s\<lparr>seq_index := 1, seq := (seq s)(1 := blanked b (seq s 1))\<rparr>"
  have "VGA_blank b s = Some (if bit (misc s) 0 then attr_write 0x20 (?s\<lparr>attr_data_next := False\<rparr>) else attr_write 0x20 ?s)"
    using port by (simp add: VGA_blank_def OUTB_def in_seq_def in_status_def seq_write_def Let_def)
  moreover have "\<exists>n i a. (if bit (misc s) 0 then attr_write 0x20 (?s\<lparr>attr_data_next := False\<rparr>) else attr_write 0x20 ?s) =
      ?s\<lparr>attr_data_next := n, attr_index := i, attr := a\<rparr>"
    by (cases s) (auto simp: attr_write_def)
  ultimately show ?thesis by auto
qed

lemma set_seq_eq:
  "port_access s \<Longrightarrow> \<exists>i. set_seq_regs_and_reset mode_X_seq m s = Some (s\<lparr>seq_index := i,
     seq := (table_puts mode_X_seq (seq s))(0 := 3), write_mask := 0x0F00, misc := m\<rparr>)"
  "port_access s \<Longrightarrow> \<exists>i. set_seq_regs_and_reset text_seq m s = Some (s\<lparr>seq_index := i,
     seq := (table_puts text_seq (seq s))(0 := 3), write_mask := 0x0300, misc := m\<rparr>)"
proof -
  have zero: "(768 :: u8) = 0" by simp
  show "port_access s \<Longrightarrow> \<exists>i. set_seq_regs_and_reset mode_X_seq m s = Some (s\<lparr>seq_index := i,
      seq := (table_puts mode_X_seq (seq s))(0 := 3), write_mask := 0x0F00, misc := m\<rparr>)"
    by (intro exI [of _ 0]) (simp add: set_seq_regs_and_reset_def mode_X_seq_def table_puts_def OUTW_seq OUTB_def [of "0x3C2"] zero
      del: fun_upd_apply)
  show "port_access s \<Longrightarrow> \<exists>i. set_seq_regs_and_reset text_seq m s = Some (s\<lparr>seq_index := i,
      seq := (table_puts text_seq (seq s))(0 := 3), write_mask := 0x0300, misc := m\<rparr>)"
    by (intro exI [of _ 0]) (simp add: set_seq_regs_and_reset_def text_seq_def table_puts_def OUTW_seq OUTB_def [of "0x3C2"] zero
      del: fun_upd_apply)
qed

lemma set_CRTC_eq:
  assumes "port_access s" "bit (misc s) 0"
  shows "\<exists>i. set_CRTC_registers ws s = Some (s\<lparr>crtc_index := i, crtc := crtc_puts ws (crtc_write 0x11 0 (crtc s))\<rparr>)"
proof -
  let ?t = "s\<lparr>crtc_index := 0x11, crtc := crtc_write 0x11 0 (crtc s)\<rparr>"
  have "\<exists>i. REP_OUTSW 0x3D4 ws ?t = Some (?t\<lparr>crtc_index := i, crtc := crtc_puts ws (crtc ?t)\<rparr>)"
    by (rule REP_OUTSW_crtc) (simp_all add: assms)
  then show ?thesis using assms by (simp add: set_CRTC_registers_def OUTW_crtc)
qed

lemma set_attr_eq:
  assumes "port_access s" "bit (misc s) 0" "even (length vs)"
  shows "\<exists>i. set_attr_registers vs s = Some (s\<lparr>attr_index := i, attr := attr_puts vs (attr s), attr_data_next := False\<rparr>)"
proof -
  let ?t = "s\<lparr>attr_data_next := False\<rparr>"
  have "\<exists>i. REP_OUTSB 0x3C0 vs ?t = Some (?t\<lparr>attr_index := i, attr := attr_puts vs (attr ?t), attr_data_next := False\<rparr>)"
    by (rule REP_OUTSB_attr) (simp_all add: assms)
  then show ?thesis using assms by (simp add: set_attr_registers_def in_status_def)
qed

lemma set_graphics_eq:
  "port_access s \<Longrightarrow> \<exists>i. set_graphics_registers ws s = Some (s\<lparr>gfx_index := i, gfx := table_puts ws (gfx s)\<rparr>)"
  unfolding set_graphics_registers_def by (rule REP_OUTSW_gfx)

lemma fill_palette_eq:
  "port_access s \<Longrightarrow> fill_palette s =
    Some (s\<lparr>dac_index := 64, dac_next := 0, dac := palette_puts 0 palette_RGB (dac s)\<rparr>)"
  using REP_OUTSB_dac [of "s\<lparr>dac_index := 0, dac_next := 0\<rparr>" palette_RGB] palette_shape
  by (simp add: fill_palette_def OUTB_def [of "0x3C8"])

subsection \<open>Memory\<close>

text \<open>Planar mode with the window at the start of the memory, and text mode.\<close>

definition planar :: "'a vga_scheme \<Rightarrow> bool" where
  "planar s \<longleftrightarrow> mapped s \<and> plain_writes s \<and> drop_bit 2 (gfx s 6) AND 3 = 1 \<and> bit (seq s 4) 2"

lemma mem_write_planar: "planar s \<Longrightarrow> i < 65536 \<Longrightarrow> mem_write i b s = Some (vram_write i b s)"
  by (simp add: planar_def mem_write_def window_def Let_def)

lemma planar_vram_write [simp]: "planar (vram_write i b s) = planar s"
  by (simp add: planar_def vram_write_def plain_writes_def)

lemma clear_memory_planar:
  "planar s \<Longrightarrow> i + k \<le> 65536 \<Longrightarrow> clear_memory i k s = Some (clear_vram i k s)"
  by (induction k arbitrary: i s) (simp_all add: mem_write_planar)

definition only_plane_2 :: "'a vga_scheme \<Rightarrow> bool" where
  "only_plane_2 s \<longleftrightarrow> planar s \<and> write_mask s = 0x0400"

lemma mem_write_plane_2:
  "only_plane_2 s \<Longrightarrow> i < 65536 \<Longrightarrow> mem_write i b s = Some (s\<lparr>vram := (vram s)(2 := (vram s 2)(i := b))\<rparr>)"
proof -
  have "p < 4 \<and> bit (0x400 :: u16) (8 + p) \<longleftrightarrow> p = 2" for p :: nat
  proof (cases "p < 4")
    case True
    then have "p = 0 \<or> p = 1 \<or> p = 2 \<or> p = 3" by arith
    then show ?thesis by (elim disjE) simp_all
  qed simp
  then show "only_plane_2 s \<Longrightarrow> i < 65536 \<Longrightarrow> mem_write i b s = Some (s\<lparr>vram := (vram s)(2 := (vram s 2)(i := b))\<rparr>)"
    by (auto simp: only_plane_2_def mem_write_planar vram_write_def fun_eq_iff intro!: modex.fold_congs)
qed

lemma only_plane_2_vram [simp]: "only_plane_2 (s\<lparr>vram := v\<rparr>) = only_plane_2 s"
  by (simp add: only_plane_2_def planar_def plain_writes_def)

lemma font_bytes_eq:
  "only_plane_2 s \<Longrightarrow> off + length bs \<le> 65536 \<Longrightarrow> \<exists>v. font_bytes off bs s = Some (s\<lparr>vram := (vram s)(2 := v)\<rparr>) \<and>
    (\<forall>x. v x = (if off \<le> x \<and> x < off + length bs then bs ! (x - off) else vram s 2 x))"
proof (induction bs arbitrary: off s)
  case Nil
  show ?case by (intro exI [of _ "vram s 2"]) simp
next
  case (Cons b bs)
  let ?t = "s\<lparr>vram := (vram s)(2 := (vram s 2)(off := b))\<rparr>"
  have "\<exists>v. font_bytes (off + 1) bs ?t = Some (?t\<lparr>vram := (vram ?t)(2 := v)\<rparr>) \<and>
    (\<forall>x. v x = (if off + 1 \<le> x \<and> x < off + 1 + length bs then bs ! (x - (off + 1)) else vram ?t 2 x))"
    by (rule Cons.IH) (use Cons.prems in simp_all)
  then obtain v where v: "font_bytes (off + 1) bs ?t = Some (?t\<lparr>vram := (vram ?t)(2 := v)\<rparr>)"
    "\<And>x. v x = (if off + 1 \<le> x \<and> x < off + 1 + length bs then bs ! (x - (off + 1)) else vram ?t 2 x)" by blast
  have "font_bytes off (b # bs) s = Some (s\<lparr>vram := (vram s)(2 := v)\<rparr>)" using v(1) Cons.prems by (simp add: mem_write_plane_2)
  moreover have "v x = (if off \<le> x \<and> x < off + length (b # bs) then (b # bs) ! (x - off) else vram s 2 x)" for x
    unfolding v(2) by (auto simp: nth_Cons')
  ultimately show ?case by blast
qed

lemma font_chars_eq:
  "only_plane_2 s \<Longrightarrow> off + 32 * length cs \<le> 65536 \<Longrightarrow> \<forall>c \<in> set cs. length c = 16 \<Longrightarrow>
    \<exists>v. font_chars off cs s = Some (s\<lparr>vram := (vram s)(2 := v)\<rparr>) \<and>
    (\<forall>i < length cs. \<forall>j < 16. v (off + 32 * i + j) = cs ! i ! j) \<and> (\<forall>x < off. v x = vram s 2 x)"
proof (induction cs arbitrary: off s)
  case Nil
  show ?case by (intro exI [of _ "vram s 2"]) simp
next
  case (Cons c cs)
  have c: "length c = 16" using Cons.prems by simp
  obtain w where w: "font_bytes off c s = Some (s\<lparr>vram := (vram s)(2 := w)\<rparr>)"
    "\<And>x. w x = (if off \<le> x \<and> x < off + length c then c ! (x - off) else vram s 2 x)"
    using font_bytes_eq [of s off c] Cons.prems by auto
  let ?t = "s\<lparr>vram := (vram s)(2 := w)\<rparr>"
  have "\<exists>v. font_chars (off + 32) cs ?t = Some (?t\<lparr>vram := (vram ?t)(2 := v)\<rparr>) \<and>
    (\<forall>i < length cs. \<forall>j < 16. v (off + 32 + 32 * i + j) = cs ! i ! j) \<and> (\<forall>x < off + 32. v x = vram ?t 2 x)"
    by (rule Cons.IH) (use Cons.prems in simp_all)
  then obtain v where v: "font_chars (off + 32) cs ?t = Some (?t\<lparr>vram := (vram ?t)(2 := v)\<rparr>)"
    "\<And>i j. i < length cs \<Longrightarrow> j < 16 \<Longrightarrow> v (off + 32 + 32 * i + j) = cs ! i ! j" "\<And>x. x < off + 32 \<Longrightarrow> v x = w x" by auto
  have "v (off + 32 * i + j) = (c # cs) ! i ! j" if "i < length (c # cs)" "j < 16" for i j
  proof (cases i)
    case 0
    then show ?thesis using v(3) [of "off + j"] w(2) [of "off + j"] that(2) c by simp
  next
    case (Suc k)
    then show ?thesis using v(2) [of k j] that by (simp add: algebra_simps)
  qed
  moreover have "\<forall>x < off. v x = vram s 2 x" using v(3) w(2) by auto
  ultimately show ?case using v(1) w(1) by (intro exI [of _ v]) (simp del: fun_upd_apply)
qed

lemma font_rows_16: "list_all (\<lambda>c. length c = 16) font_data"
  by (simp only: font_data_def list.pred_inject length_Cons list.size(3)) simp

lemma font_shape: "length font_data = 256" "\<forall>c \<in> set font_data. length c = 16"
  using font_data_length font_rows_16 by (simp_all add: list_all_iff)

text \<open>The text mode: the window at 0xB8000, characters in plane 0 and attributes in plane 1, both at even offsets.\<close>

definition text_memory :: "'a vga_scheme \<Rightarrow> bool" where
  "text_memory s \<longleftrightarrow> mapped s \<and> plain_writes s \<and> drop_bit 2 (gfx s 6) AND 3 = 3 \<and> \<not> bit (seq s 4) 2 \<and> write_mask s = 0x0300"

lemma text_memory_vram [simp]: "text_memory (s\<lparr>vram := v\<rparr>) = text_memory s"
  by (simp add: text_memory_def plain_writes_def)

lemma text_planes: "p < 4 \<and> bit (0x0300 :: u16) (8 + p) \<and> even p = even (a :: nat) \<longleftrightarrow> p = a mod 2"
proof (cases "p < 4")
  case True
  then have "p = 0 \<or> p = 1 \<or> p = 2 \<or> p = 3" by arith
  then show ?thesis by (elim disjE) (auto simp: even_iff_mod_2_eq_zero odd_iff_mod_2_eq_one)
qed auto

lemma mem_write_text:
  assumes "text_memory s" "a < 0x8000"
  shows "mem_write (0x18000 + a) b s =
    Some (s\<lparr>vram := (vram s)(a mod 2 := (vram s (a mod 2))(a - a mod 2 := b))\<rparr>)"
proof -
  have "(\<lambda>p. if p < 4 \<and> bit (0x0300 :: u16) (8 + p) \<and> even p = even a then (vram s p)(a - a mod 2 := b) else vram s p) =
      (vram s)(a mod 2 := (vram s (a mod 2))(a - a mod 2 := b))"
    unfolding text_planes by (rule ext) simp
  then show ?thesis using assms by (simp add: text_memory_def mem_write_def window_def Let_def cong: if_cong)
qed

lemma clear_text_eq:
  "text_memory s \<Longrightarrow> i + k \<le> 8192 \<Longrightarrow> \<exists>v. clear_text (0x18000 + 4 * i) k s = Some (s\<lparr>vram := v\<rparr>) \<and>
    (\<forall>a. 2 * i \<le> a \<and> a < 2 * (i + k) \<longrightarrow> v 0 (2 * a) = 0x20 \<and> v 1 (2 * a) = 0x07) \<and>
    (\<forall>a < 2 * i. v 0 (2 * a) = vram s 0 (2 * a) \<and> v 1 (2 * a) = vram s 1 (2 * a)) \<and> (\<forall>p \<ge> 2. v p = vram s p)"
proof (induction k arbitrary: i s)
  case 0
  show ?case by (intro exI [of _ "vram s"]) simp
next
  case (Suc k)
  let ?t = "s\<lparr>vram := (vram s)(0 := (vram s 0)(4 * i := 0x20, 4 * i + 2 := 0x20), 1 := (vram s 1)(4 * i := 7, 4 * i + 2 := 7))\<rparr>"
  have put: "mem_write (0x18000 + (4 * i + c)) b t =
      Some (t\<lparr>vram := (vram t)(c mod 2 := (vram t (c mod 2))(4 * i + (c - c mod 2) := b))\<rparr>)"
    if "text_memory t" "c < 4" for b c and t :: "'a vga_scheme"
  proof -
    have "(4 * i + c) mod 2 = c mod 2" by presburger
    then show ?thesis using mem_write_text [OF that(1), of "4 * i + c" b] that(2) Suc.prems(2) by simp
  qed
  have "clear_text (0x18000 + 4 * i) (Suc k) s = clear_text (0x18000 + 4 * (i + 1)) k ?t"
    using Suc.prems(1) put [of _ 0] put [of _ 1] put [of _ 2] put [of _ 3]
    by (simp add: add.assoc fun_upd_twist [of "Suc 0" 0] numeral_eq_Suc [symmetric] del: add_2_eq_Suc add_2_eq_Suc')
  moreover have "\<exists>v. clear_text (0x18000 + 4 * (i + 1)) k ?t = Some (?t\<lparr>vram := v\<rparr>) \<and>
    (\<forall>a. 2 * (i + 1) \<le> a \<and> a < 2 * (i + 1 + k) \<longrightarrow> v 0 (2 * a) = 0x20 \<and> v 1 (2 * a) = 0x07) \<and>
    (\<forall>a < 2 * (i + 1). v 0 (2 * a) = vram ?t 0 (2 * a) \<and> v 1 (2 * a) = vram ?t 1 (2 * a)) \<and> (\<forall>p \<ge> 2. v p = vram ?t p)"
    by (rule Suc.IH) (use Suc.prems in simp_all)
  then obtain v where v: "clear_text (0x18000 + 4 * (i + 1)) k ?t = Some (?t\<lparr>vram := v\<rparr>)"
    "\<And>a. 2 * (i + 1) \<le> a \<Longrightarrow> a < 2 * (i + 1 + k) \<Longrightarrow> v 0 (2 * a) = 0x20 \<and> v 1 (2 * a) = 0x07"
    "\<And>a. a < 2 * (i + 1) \<Longrightarrow> v 0 (2 * a) = vram ?t 0 (2 * a) \<and> v 1 (2 * a) = vram ?t 1 (2 * a)" "\<And>p. p \<ge> 2 \<Longrightarrow> v p = vram ?t p"
    by blast
  have "v 0 (2 * a) = 0x20 \<and> v 1 (2 * a) = 0x07" if "2 * i \<le> a" "a < 2 * (i + Suc k)" for a
  proof (cases "2 * (i + 1) \<le> a")
    case False
    then have "a = 2 * i \<or> a = 2 * i + 1" using that(1) by presburger
    then show ?thesis using v(3) [of a] by (elim disjE) simp_all
  qed (use v(2) that(2) in simp)
  moreover have "\<forall>a < 2 * i. v 0 (2 * a) = vram s 0 (2 * a) \<and> v 1 (2 * a) = vram s 1 (2 * a)" using v(3) by auto
  ultimately show ?case using v(1,4) by auto
qed

subsection \<open>Setting all registers\<close>

text \<open>The registers of a mode, the palette of the game, and the display switched on.\<close>

definition registers_set :: "u16 list \<Rightarrow> u8 \<Rightarrow> u16 list \<Rightarrow> u8 list \<Rightarrow> u16 list \<Rightarrow> 'a vga_scheme \<Rightarrow> bool" where
  "registers_set sq m ct at gt s \<longleftrightarrow> holds_table (seq s) sq \<and> misc s = m \<and> holds_table (crtc s) ct \<and>
     holds_pairs (attr s) at \<and> attr_index s = 0x20 \<and> holds_table (gfx s) gt \<and>
     (\<forall>i < 64. \<forall>j < 3. dac s (of_nat i) j = palette_RGB ! i ! j AND 0x3F)"

lemma palette_set: "i < 64 \<Longrightarrow> j < 3 \<Longrightarrow> palette_puts 0 palette_RGB d (of_nat i) j = palette_RGB ! i ! j AND 0x3F"
  using palette_puts_nth [of palette_RGB i j 0 d] palette_shape(1) by simp

text \<open>The six steps that both modes begin with, on their tables.\<close>

lemma program_registers:
  fixes s :: "'a vga_scheme"
  assumes "port_access s" "bit m 0" "even (length at)" and seq_step: "\<And>s :: 'a vga_scheme. port_access s \<Longrightarrow>
    \<exists>i. set_seq_regs_and_reset st m s = Some (s\<lparr>seq_index := i, seq := (table_puts st (seq s))(0 := 3), write_mask := wm, misc := m\<rparr>)"
  obtains s1 s2 s3 s4 s5 si ci ai r gi where "VGA_blank 1 s = Some s1" "set_seq_regs_and_reset st m s1 = Some s2"
    "set_CRTC_registers ct s2 = Some s3" "set_attr_registers at s3 = Some s4" "set_graphics_registers gt s4 = Some s5"
    "fill_palette s5 = Some (s\<lparr>seq_index := si, seq := (table_puts st ((seq s)(1 := blanked 1 (seq s 1))))(0 := 3),
       write_mask := wm, misc := m, crtc_index := ci, crtc := crtc_puts ct (crtc_write 0x11 0 (crtc s)),
       attr_data_next := False, attr_index := ai, attr := attr_puts at r, gfx_index := gi, gfx := table_puts gt (gfx s),
       dac_index := 64, dac_next := 0, dac := palette_puts 0 palette_RGB (dac s)\<rparr>)"
proof -
  obtain n i r where "VGA_blank 1 s = Some (s\<lparr>seq_index := 1, seq := (seq s)(1 := blanked 1 (seq s 1)),
      attr_data_next := n, attr_index := i, attr := r\<rparr>)" (is "_ = Some ?s1") using VGA_blank_any [OF assms(1)] by blast
  moreover obtain si where "set_seq_regs_and_reset st m ?s1 = Some (?s1\<lparr>seq_index := si, seq := (table_puts st (seq ?s1))(0 := 3),
      write_mask := wm, misc := m\<rparr>)" (is "_ = Some ?s2") using seq_step [of ?s1] assms(1) by auto
  moreover obtain ci where "set_CRTC_registers ct ?s2 = Some (?s2\<lparr>crtc_index := ci,
      crtc := crtc_puts ct (crtc_write 0x11 0 (crtc ?s2))\<rparr>)" (is "_ = Some ?s3") using set_CRTC_eq [of ?s2 ct] assms(1,2) by auto
  moreover obtain ai where "set_attr_registers at ?s3 = Some (?s3\<lparr>attr_index := ai, attr := attr_puts at (attr ?s3),
      attr_data_next := False\<rparr>)" (is "_ = Some ?s4") using set_attr_eq [of ?s3 at] assms(1-3) by auto
  moreover obtain gi where "set_graphics_registers gt ?s4 = Some (?s4\<lparr>gfx_index := gi, gfx := table_puts gt (gfx ?s4)\<rparr>)"
    (is "_ = Some ?s5") using set_graphics_eq [of ?s4 gt] assms(1) by auto
  moreover have "fill_palette ?s5 = Some (?s5\<lparr>dac_index := 64, dac_next := 0, dac := palette_puts 0 palette_RGB (dac ?s5)\<rparr>)"
    using fill_palette_eq [of ?s5] assms(1) by simp
  ultimately show ?thesis by (intro that [where ?s1.0 = ?s1 and ?s2.0 = ?s2 and ?s3.0 = ?s3 and ?s4.0 = ?s4 and ?s5.0 = ?s5 and
    si = si and ci = ci and ai = ai and r = r and gi = gi])
    (assumption | simp del: fun_upd_apply)+
qed

subsection \<open>Mode X\<close>

lemma mode_X_tables:
  "table_puts mode_X_graphics f 6 = 5" "table_puts mode_X_graphics f 5 = 0x40" "table_puts mode_X_graphics f 8 = 0xFF"
  "table_puts mode_X_graphics f 1 = 0" "table_puts mode_X_graphics f 3 = 0"
  "table_puts mode_X_seq f 1 = 0x21" "table_puts mode_X_seq f 2 = 0x0F" "table_puts mode_X_seq f 3 = 0" "table_puts mode_X_seq f 4 = 6"
  by (simp_all add: table_puts_def mode_X_graphics_def mode_X_seq_def)

definition mode_X_on :: "u16 list" where
  "mode_X_on = [0x0300, 0x0101, 0x0F02, 0x0003, 0x0604]"

lemma mode_X_steps:
  fixes s :: "'a vga_scheme"
  assumes "port_access s" "mapped s"
  shows "\<exists>t. do {
      s \<leftarrow> VGA_blank 1 s;
      s \<leftarrow> set_seq_regs_and_reset mode_X_seq 0x63 s;
      s \<leftarrow> set_CRTC_registers mode_X_CRTC s;
      s \<leftarrow> set_attr_registers mode_X_attr s;
      s \<leftarrow> set_graphics_registers mode_X_graphics s;
      s \<leftarrow> fill_palette s;
      s \<leftarrow> vga_clear_screens s;
      VGA_blank 0 s
    } = Some t \<and> registers_set mode_X_on 0x63 mode_X_CRTC mode_X_attr mode_X_graphics t \<and> planar t \<and>
    (\<forall>p < 4. \<forall>j < 65536. vram t p j = 0) \<and> (\<forall>p j. p \<ge> 4 \<or> j \<ge> 65536 \<longrightarrow> vram t p j = vram s p j) \<and>
    (\<exists>c. modex.truncate t = (modex.truncate s)\<lparr>vram := vram t, write_mask := 0x0F00, crtc := c\<rparr>) \<and>
    port_access t \<and> mapped t \<and> printed t = printed s"
proof -
  obtain s1 s2 s3 s4 s5 si ci ai r gi where st: "VGA_blank 1 s = Some s1" "set_seq_regs_and_reset mode_X_seq 0x63 s1 = Some s2"
    "set_CRTC_registers mode_X_CRTC s2 = Some s3" "set_attr_registers mode_X_attr s3 = Some s4"
    "set_graphics_registers mode_X_graphics s4 = Some s5"
    "fill_palette s5 = Some (s\<lparr>seq_index := si, seq := (table_puts mode_X_seq ((seq s)(1 := blanked 1 (seq s 1))))(0 := 3),
       write_mask := 0x0F00, misc := 0x63, crtc_index := ci, crtc := crtc_puts mode_X_CRTC (crtc_write 0x11 0 (crtc s)),
       attr_data_next := False, attr_index := ai, attr := attr_puts mode_X_attr r, gfx_index := gi,
       gfx := table_puts mode_X_graphics (gfx s), dac_index := 64, dac_next := 0, dac := palette_puts 0 palette_RGB (dac s)\<rparr>)"
    (is "_ = Some ?s6")
    by (rule program_registers [OF assms(1), of "0x63" mode_X_attr mode_X_seq "0x0F00" mode_X_CRTC mode_X_graphics])
      (simp_all add: mode_X_attr_def set_seq_eq(1) del: fun_upd_apply)
  let ?s7 = "?s6\<lparr>seq_index := 2, seq := (seq ?s6)(2 := 0x0F), write_mask := 0x0F00\<rparr>"
  have planar7: "planar ?s7" by (simp add: planar_def plain_writes_def mode_X_tables assms(2))
  obtain v where v: "clear_vram 0 65536 ?s7 = ?s7\<lparr>vram := v\<rparr>"
    "\<And>p j. v p j = (if p < 4 \<and> bit (write_mask ?s7) (8 + p) \<and> 0 \<le> j \<and> j < 0 + 65536 then 0 else vram ?s7 p j)"
    using clear_vram_eq [of 0 65536 ?s7] by blast
  have bits: "bit (0x0F00 :: u16) (8 + p)" if "p < 4" for p
  proof -
    have "p = 0 \<or> p = 1 \<or> p = 2 \<or> p = 3" using that by arith
    then show ?thesis by (elim disjE) simp_all
  qed
  have two: "(3842 :: u8) = 2" by simp
  have "OUTW 0x3C4 0x0F02 ?s6 = Some ?s7" using assms(1) by (simp add: OUTW_seq two)
  then have clear: "vga_clear_screens ?s6 = Some (?s7\<lparr>vram := v\<rparr>)"
    using clear_memory_planar [OF planar7, of 0 65536] v(1) by (simp add: vga_clear_screens_def del: fun_upd_apply)
  let ?t = "?s7\<lparr>vram := v, seq_index := 1, seq := (seq ?s7)(1 := blanked 0 (seq ?s7 1)), attr_data_next := True, attr_index := 0x20\<rparr>"
  have last: "VGA_blank 0 (?s7\<lparr>vram := v\<rparr>) = Some ?t" using assms(1) by (simp add: VGA_blank_colour)
  have four: "(1540 :: u8) = 4" by simp
  have sq: "holds_table (seq ?t) mode_X_on" by (simp add: holds_table_def mode_X_on_def mode_X_tables four)
  have "registers_set mode_X_on 0x63 mode_X_CRTC mode_X_attr mode_X_graphics ?t"
    using crtc_table_set(1) attr_table_set(1) graphics_table_set(1) palette_set sq by (simp add: registers_set_def)
  moreover have "planar ?t" using planar7 by (simp add: planar_def plain_writes_def)
  moreover have "modex.truncate ?t = (modex.truncate s)\<lparr>vram := vram ?t, write_mask := 0x0F00, crtc := crtc ?t\<rparr>"
    by (simp add: modex.truncate_def)
  moreover have "\<forall>p < 4. \<forall>j < 65536. vram ?t p j = 0" "\<forall>p j. p \<ge> 4 \<or> j \<ge> 65536 \<longrightarrow> vram ?t p j = vram s p j"
    using v(2) bits by auto
  ultimately show ?thesis using assms st clear last by auto
qed

subsection \<open>Text mode\<close>

lemma text_tables:
  "table_puts text_graphics f 6 = 0x0E" "table_puts text_graphics f 5 = 0x10" "table_puts text_graphics f 8 = 0xFF"
  "table_puts text_graphics f 1 = 0" "table_puts text_graphics f 3 = 0" "table_puts text_graphics f 4 = 0"
  "table_puts text_graphics f 0 = 0" "table_puts text_graphics f 2 = 0" "table_puts text_graphics f 7 = 0"
  "table_puts text_seq f 1 = 0x20" "table_puts text_seq f 2 = 3" "table_puts text_seq f 3 = 0" "table_puts text_seq f 4 = 2"
  by (simp_all add: table_puts_def text_graphics_def text_seq_def)

text \<open>The sequencer at the end: \<open>write_font_data\<close> leaves 3 in the memory mode, where the table has 2.\<close>

definition text_on :: "u16 list" where
  "text_on = [0x0300, 0x0001, 0x0302, 0x0003, 0x0304]"

lemma write_font_eq:
  assumes "port_access s" "mapped s" "gfx s 1 = 0" "gfx s 3 = 0" "gfx s 8 = 0xFF"
  shows "\<exists>i j v. write_font_data s = Some (s\<lparr>seq_index := i, seq := (seq s)(2 := 3, 4 := 3), write_mask := 0x0300,
      gfx_index := j, gfx := (gfx s)(4 := 0, 5 := 0x10, 6 := 0x0E), vram := (vram s)(2 := v)\<rparr>) \<and>
    (\<forall>i < 256. \<forall>j < 16. v (32 * i + j) = font_data ! i ! j)"
proof -
  let ?a = "s\<lparr>seq_index := 4, seq := (seq s)(2 := 4, 4 := 7), write_mask := 0x0400,
    gfx_index := 4, gfx := (gfx s)(4 := 2, 5 := 0, 6 := 4)\<rparr>"
  have "only_plane_2 ?a" by (simp add: only_plane_2_def planar_def plain_writes_def assms)
  from font_chars_eq [OF this, of 0 font_data] font_shape obtain v where
    v: "font_chars 0 font_data ?a = Some (?a\<lparr>vram := (vram ?a)(2 := v)\<rparr>)" "\<forall>i < 256. \<forall>j < 16. v (32 * i + j) = font_data ! i ! j"
    by auto
  let ?t = "s\<lparr>seq_index := 4, seq := (seq s)(2 := 3, 4 := 3), write_mask := 0x0300,
      gfx_index := 4, gfx := (gfx s)(4 := 0, 5 := 0x10, 6 := 0x0E), vram := (vram s)(2 := v)\<rparr>"
  have idx: "(0x402 :: u8) = 2" "(0x704 :: u8) = 4" "(0x406 :: u8) = 6" "(0x204 :: u8) = 4" "(0x302 :: u8) = 2" "(0x304 :: u8) = 4"
    "(0x1005 :: u8) = 5" "(0xE06 :: u8) = 6" by simp_all
  have twist: "f(5 := a, 6 := b, 4 := c) = f(4 := c, 5 := a, 6 := b)" for f :: "u8 \<Rightarrow> u8" and a b c by auto
  have twist2: "f(4 := a, 5 := b, 6 := c, 5 := d, 6 := e, 4 := g) = f(4 := g, 5 := d, 6 := e)" for f :: "u8 \<Rightarrow> u8" and a b c d e g by auto
  have twist3: "f(2 := a, 4 := b, 2 := c, 4 := d) = f(2 := c, 4 := d)" for f :: "u8 \<Rightarrow> u8" and a b c d by auto
  have "write_font_data s = Some ?t"
    using assms(1) v(1) by (simp add: write_font_data_def OUTW_seq OUTW_gfx idx twist twist2 twist3 del: fun_upd_apply)
  then show ?thesis using v(2) by blast
qed

lemma set_text_mode_3_ok:
  fixes s :: "'a vga_scheme"
  assumes "port_access s" "mapped s"
  shows "\<exists>t. set_text_mode_3 c s = Some t \<and> registers_set text_on 0x67 text_CRTC text_attr text_graphics t \<and>
    (\<forall>i < 256. \<forall>j < 16. vram t 2 (32 * i + j) = font_data ! i ! j) \<and>
    (if c = 0 then \<forall>p. p \<noteq> 2 \<longrightarrow> vram t p = vram s p else \<forall>a < 16384. vram t 0 (2 * a) = 0x20 \<and> vram t 1 (2 * a) = 0x07) \<and>
    build t = build s \<and> port_access t \<and> mapped t \<and> printed t = printed s"
proof -
  obtain s1 s2 s3 s4 s5 si ci ai r gi where st: "VGA_blank 1 s = Some s1" "set_seq_regs_and_reset text_seq 0x67 s1 = Some s2"
    "set_CRTC_registers text_CRTC s2 = Some s3" "set_attr_registers text_attr s3 = Some s4"
    "set_graphics_registers text_graphics s4 = Some s5"
    "fill_palette s5 = Some (s\<lparr>seq_index := si, seq := (table_puts text_seq ((seq s)(1 := blanked 1 (seq s 1))))(0 := 3),
       write_mask := 0x0300, misc := 0x67, crtc_index := ci, crtc := crtc_puts text_CRTC (crtc_write 0x11 0 (crtc s)),
       attr_data_next := False, attr_index := ai, attr := attr_puts text_attr r, gfx_index := gi,
       gfx := table_puts text_graphics (gfx s), dac_index := 64, dac_next := 0, dac := palette_puts 0 palette_RGB (dac s)\<rparr>)"
    (is "_ = Some ?s6")
    by (rule program_registers [OF assms(1), of "0x67" text_attr text_seq "0x0300" text_CRTC text_graphics])
      (simp_all add: text_attr_def set_seq_eq(2) del: fun_upd_apply)
  have "text_memory ?s6" by (simp add: text_memory_def plain_writes_def text_tables assms(2))
  from clear_text_eq [OF this, of 0 8192] obtain w where w: "clear_text 0x18000 8192 ?s6 = Some (?s6\<lparr>vram := w\<rparr>)"
    "\<And>a. a < 16384 \<Longrightarrow> w 0 (2 * a) = 0x20 \<and> w 1 (2 * a) = 0x07" by auto
  let ?s7 = "?s6\<lparr>vram := if c \<noteq> 0 then w else vram s\<rparr>"
  have cleared: "(if c \<noteq> 0 then clear_text 0x18000 8192 ?s6 else Some ?s6) = Some ?s7" using w(1) by simp
  obtain i j v where v: "write_font_data ?s7 = Some (?s7\<lparr>seq_index := i, seq := (seq ?s7)(2 := 3, 4 := 3), write_mask := 0x0300,
      gfx_index := j, gfx := (gfx ?s7)(4 := 0, 5 := 0x10, 6 := 0x0E), vram := (vram ?s7)(2 := v)\<rparr>)" (is "_ = Some ?s8")
    "\<forall>i < 256. \<forall>j < 16. v (32 * i + j) = font_data ! i ! j"
    using write_font_eq [of ?s7] by (auto simp: text_tables assms simp del: fun_upd_apply)
  let ?t = "?s8\<lparr>seq_index := 1, seq := (seq ?s8)(1 := blanked 0 (seq ?s8 1)), attr_data_next := True, attr_index := 0x20\<rparr>"
  have last: "VGA_blank 0 ?s8 = Some ?t" using assms(1) by (simp add: VGA_blank_colour)
  have run: "set_text_mode_3 c s = Some ?t"
    unfolding set_text_mode_3_def using st(1-5) cleared v(1) last
    by (simp only: Option.bind.simps st(6))
  have idx: "(0x302 :: u8) = 2" "(0x304 :: u8) = 4" "(0x1005 :: u8) = 5" "(0xE06 :: u8) = 6" "(768 :: u8) = 0" by simp_all
  have sq: "holds_table (seq ?t) text_on" by (simp add: holds_table_def text_on_def text_tables idx)
  have gt: "holds_table (gfx ?t) text_graphics"
    using graphics_table_set(2) [of "gfx s"] by (simp add: holds_table_def text_graphics_def text_tables)
  have "registers_set text_on 0x67 text_CRTC text_attr text_graphics ?t"
    using crtc_table_set(2) attr_table_set(2) palette_set sq gt by (simp add: registers_set_def)
  then show ?thesis using run v(2) w(2) assms by (intro exI [of _ ?t]) simp
qed

end
