(* ===== verification/VgaTheorems.thy ===== *)
theory VgaTheorems
  imports VgaProps ModexTheorems
begin

text \<open>
  Entering and leaving mode X on the adapter: what the program finds in the registers does not matter, and the
  drawing functions of \<open>Modex\<close> start from what their own \<open>set_mode_X\<close> promises.
\<close>

unbundle bit_operations_syntax

subsection \<open>Entering mode X\<close>

lemma init_buffer_eq:
  "init_buffer s = Some (s\<lparr>show_x := 0, show_y := 0, img3_off := 10000, img3 := 10256, target_img := 0x05A0,
     build := (\<lambda>j. if (0 \<le> j \<and> j < 256) \<or> (BUILD_BUF_SIZE + 256 \<le> j \<and> j < BUILD_BUF_SIZE + 512) then MEM_FENCE_MAGIC else build s j)\<rparr>)"
proof -
  have "nat 256 = 256" by simp
  then show ?thesis
    using fill_fence_eq [of 0 256 "s\<lparr>show_x := 0, show_y := 0, img3_off := 10000, img3 := 10256\<rparr>"]
    by (simp add: init_buffer_def Let_def modex_sizes del: nat_numeral cong: if_cong)
qed

text \<open>C29. Entering mode X. Whatever the registers of the adapter hold, protected registers and the state of the
  attribute port included, \<open>set_mode_X\<close> returns 0 and leaves every register of the five tables, the palette and the
  display switched on as modex.c means them, with planar memory, and on the buffer, the view window and the video
  memory it does what \<open>set_mode_X\<close> of the drawing functions does.\<close>

theorem mode_X_is_set:
  fixes s :: "'a vga_scheme"
  shows "\<exists>t u. vga_set_mode_X True True True True s = Some (0, t) \<and>
    registers_set mode_X_on 0x63 mode_X_CRTC mode_X_attr mode_X_graphics t \<and> planar t \<and> printed t = printed s \<and>
    set_mode_X True True (modex.truncate s) = Some (0, u) \<and> modex.truncate t = u\<lparr>crtc := crtc t\<rparr>"
proof -
  let ?i = "s\<lparr>show_x := 0, show_y := 0, img3_off := 10000, img3 := 10256, target_img := 0x05A0,
     build := (\<lambda>j. if (0 \<le> j \<and> j < 256) \<or> (BUILD_BUF_SIZE + 256 \<le> j \<and> j < BUILD_BUF_SIZE + 512) then MEM_FENCE_MAGIC else build s j)\<rparr>"
  have opened: "open_memory_and_ports True True True ?i = (0, ?i\<lparr>port_access := True, mapped := True\<rparr>)"
    by (simp add: open_memory_and_ports_def)
  obtain t c where t: "do {
      s \<leftarrow> VGA_blank 1 (?i\<lparr>port_access := True, mapped := True\<rparr>);
      s \<leftarrow> set_seq_regs_and_reset mode_X_seq 0x63 s;
      s \<leftarrow> set_CRTC_registers mode_X_CRTC s;
      s \<leftarrow> set_attr_registers mode_X_attr s;
      s \<leftarrow> set_graphics_registers mode_X_graphics s;
      s \<leftarrow> fill_palette s;
      s \<leftarrow> vga_clear_screens s;
      VGA_blank 0 s
    } = Some t" "registers_set mode_X_on 0x63 mode_X_CRTC mode_X_attr mode_X_graphics t" "planar t"
    "\<forall>p < 4. \<forall>j < 65536. vram t p j = 0" "\<forall>p j. p \<ge> 4 \<or> j \<ge> 65536 \<longrightarrow> vram t p j = vram ?i p j"
    "modex.truncate t = (modex.truncate (?i\<lparr>port_access := True, mapped := True\<rparr>))\<lparr>vram := vram t, write_mask := 0x0F00, crtc := c\<rparr>"
    "printed t = printed (?i\<lparr>port_access := True, mapped := True\<rparr>)"
    using mode_X_steps [of "?i\<lparr>port_access := True, mapped := True\<rparr>"] by (simp del: fun_upd_apply) blast
  have run: "vga_set_mode_X True True True True s = Some (0, t)"
    using arg_cong [OF t(1), of "\<lambda>m. m \<bind> (\<lambda>s. Some (0, s))"]
    by (simp add: vga_set_mode_X_def init_buffer_eq opened del: fun_upd_apply)
  let ?u = "(modex.truncate ?i)\<lparr>write_mask := 0x0F00\<rparr>"
  obtain v where v: "clear_vram 0 65536 ?u = ?u\<lparr>vram := v\<rparr>"
    "\<And>p j. v p j = (if p < 4 \<and> bit (write_mask ?u) (8 + p) \<and> 0 \<le> j \<and> j < 0 + 65536 then 0 else vram ?u p j)"
    using clear_vram_eq [of 0 65536 ?u] by blast
  have bits: "bit (0x0F00 :: u16) (8 + p)" if "p < 4" for p
  proof -
    have "p = 0 \<or> p = 1 \<or> p = 2 \<or> p = 3" using that by arith
    then show ?thesis by (elim disjE) simp_all
  qed
  have "v = vram t" using v(2) t(4,5) bits by (intro ext) (auto simp: modex.truncate_def not_less [symmetric])
  moreover have "set_mode_X True True (modex.truncate s) = Some (0, ?u\<lparr>vram := v\<rparr>)"
    using v(1) by (simp add: set_mode_X_def init_buffer_eq clear_screens_def SET_WRITE_MASK_def modex.truncate_def cong: if_cong)
  moreover have "crtc t = c" using arg_cong [OF t(6), of crtc] by (simp add: modex.truncate_def)
  ultimately show ?thesis using run t(2,3,6,7) by (auto simp: modex.truncate_def)
qed

subsection \<open>Leaving mode X\<close>

lemma fence_broken_eq:
  "0 \<le> base + i \<Longrightarrow> base + i + int k \<le> BUILD_BUF_SIZE + 512 \<Longrightarrow>
    fence_broken base i k s = Some (\<exists>j. i \<le> j \<and> j < i + int k \<and> build s (base + j) \<noteq> MEM_FENCE_MAGIC)"
proof (induction k arbitrary: i)
  case 0
  then show ?case by simp
next
  case (Suc k)
  have e: "i \<le> j \<and> j < i + int (Suc k) \<longleftrightarrow> j = i \<or> i + 1 \<le> j \<and> j < i + 1 + int k" for j by auto
  have split: "(\<exists>j. i \<le> j \<and> j < i + int (Suc k) \<and> P j) \<longleftrightarrow> P i \<or> (\<exists>j. i + 1 \<le> j \<and> j < i + 1 + int k \<and> P j)" for P
  proof -
    have "(\<exists>j. i \<le> j \<and> j < i + int (Suc k) \<and> P j) \<longleftrightarrow> (\<exists>j. (i \<le> j \<and> j < i + int (Suc k)) \<and> P j)" by (simp only: conj_assoc)
    also have "... \<longleftrightarrow> (\<exists>j. (j = i \<or> i + 1 \<le> j \<and> j < i + 1 + int k) \<and> P j)" by (simp only: e)
    also have "... \<longleftrightarrow> P i \<or> (\<exists>j. i + 1 \<le> j \<and> j < i + 1 + int k \<and> P j)" by blast
    finally show ?thesis .
  qed
  have "build_get (base + i) s = Some (build s (base + i))" using Suc.prems by (simp add: build_get_def)
  then have "fence_broken base i (Suc k) s = (if build s (base + i) \<noteq> MEM_FENCE_MAGIC then Some True else fence_broken base (i + 1) k s)"
    by simp
  then show ?case unfolding split using Suc.IH [of "i + 1"] Suc.prems by simp
qed

text \<open>C30. Leaving mode X. With the ports open and the memory mapped, \<open>clear_mode_X\<close> puts the adapter into the text
  mode whatever its registers hold: the registers of the five tables (the memory mode as the font loader leaves it),
  the font at 32 bytes for a character in plane 2, spaces with the attribute 7 on all text screens, the memory no
  longer mapped; and it reports a fence if and only if it is broken.\<close>

theorem text_mode_is_restored:
  assumes "port_access s" "mapped s"
  shows "\<exists>t. clear_mode_X s = Some t \<and> registers_set text_on 0x67 text_CRTC text_attr text_graphics t \<and>
    (\<forall>i < 256. \<forall>j < 16. vram t 2 (32 * i + j) = font_data ! i ! j) \<and>
    (\<forall>a < 16384. vram t 0 (2 * a) = 0x20 \<and> vram t 1 (2 * a) = 0x07) \<and> \<not> mapped t \<and>
    printed t = printed s @
      (if \<exists>i. 0 \<le> i \<and> i < 256 \<and> build s i \<noteq> MEM_FENCE_MAGIC then [''lower build fence was broken''] else []) @
      (if \<exists>i. 0 \<le> i \<and> i < 256 \<and> build s (BUILD_BUF_SIZE + 256 + i) \<noteq> MEM_FENCE_MAGIC
       then [''upper build fence was broken''] else [])"
proof -
  obtain t where t: "set_text_mode_3 1 s = Some t" "registers_set text_on 0x67 text_CRTC text_attr text_graphics t"
    "\<forall>i < 256. \<forall>j < 16. vram t 2 (32 * i + j) = font_data ! i ! j" "\<forall>a < 16384. vram t 0 (2 * a) = 0x20 \<and> vram t 1 (2 * a) = 0x07"
    "build t = build s" "printed t = printed s" using set_text_mode_3_ok [OF assms, of 1] by auto
  have nat: "nat 256 = 256" by simp
  define lo where "lo \<longleftrightarrow> (\<exists>i. 0 \<le> i \<and> i < 256 \<and> build s i \<noteq> MEM_FENCE_MAGIC)"
  define up where "up \<longleftrightarrow> (\<exists>i. 0 \<le> i \<and> i < 256 \<and> build s (BUILD_BUF_SIZE + 256 + i) \<noteq> MEM_FENCE_MAGIC)"
  have "fence_broken 0 0 256 u = Some lo" "fence_broken (BUILD_BUF_SIZE + 256) 0 256 u = Some up"
    if "build u = build s" for u :: "'a vga_scheme"
    using fence_broken_eq [of 0 0 256 u] fence_broken_eq [of "BUILD_BUF_SIZE + 256" 0 256 u] that
    by (simp_all add: lo_def up_def modex_sizes)
  then show ?thesis unfolding lo_def [symmetric] up_def [symmetric] using t
    by (simp add: clear_mode_X_def Let_def nat registers_set_def del: nat_numeral)
qed

definition demo_vga :: vga where
  "demo_vga = modex.extend demo_display \<lparr>port_access = True, mapped = True, seq_index = 0, seq = (\<lambda>_. 0), misc = 0,
     crtc_index = 0, attr_data_next = True, attr_index = 0, attr = (\<lambda>_. 0), gfx_index = 0, gfx = (\<lambda>_. 0),
     dac_index = 0, dac_next = 0, dac = (\<lambda>_ _. 0), printed = []\<rparr>"

lemma text_mode_is_restored_witness:
  "\<exists>t. clear_mode_X demo_vga = Some t \<and> printed t = [] \<and> vram t 0 32766 = 0x20 \<and> \<not> mapped t"
proof -
  have ok: "port_access demo_vga" "mapped demo_vga" "printed demo_vga = []" "build demo_vga = build demo_display"
    by (simp_all add: demo_vga_def modex.extend_def)
  have "\<not> (\<exists>i. 0 \<le> i \<and> i < 256 \<and> build demo_vga i \<noteq> MEM_FENCE_MAGIC)"
    "\<not> (\<exists>i. 0 \<le> i \<and> i < 256 \<and> build demo_vga (BUILD_BUF_SIZE + 256 + i) \<noteq> MEM_FENCE_MAGIC)"
    using demo_display_ok(2) by (auto simp: ok fences_ok_def)
  then have "printed demo_vga @ (if \<exists>i. 0 \<le> i \<and> i < 256 \<and> build demo_vga i \<noteq> MEM_FENCE_MAGIC then [''lower build fence was broken''] else []) @
      (if \<exists>i. 0 \<le> i \<and> i < 256 \<and> build demo_vga (BUILD_BUF_SIZE + 256 + i) \<noteq> MEM_FENCE_MAGIC
       then [''upper build fence was broken''] else []) = []" by (simp add: ok(3))
  with text_mode_is_restored [OF ok(1,2)] obtain t where "clear_mode_X demo_vga = Some t"
    "\<forall>a < 16384. vram t 0 (2 * a) = 0x20 \<and> vram t 1 (2 * a) = 0x07" "\<not> mapped t" "printed t = []" by metis
  moreover from this(2) [rule_format, of 16383] have "vram t 0 32766 = 0x20" by simp
  ultimately show ?thesis by auto
qed

end
