(* ===== verification/TextTheorems.thy ===== *)
theory TextTheorems
  imports TextProps ModexTheorems
begin

text \<open>
  The property of the status bar, with a run on a concrete display.
\<close>



end
