(* ===== verification/Maze.thy ===== *)
theory Maze
  imports Vga
begin

text \<open>
  The maze of the maze game (mp2/maze.c): its construction, the search for what is connected, the
  pictures of its spaces and the fruits. The maze is the array of the code, with an access outside
  of it as \<open>None\<close>; a pointer into it is an index.

  \<open>random\<close> is a stream of numbers fixed beforehand (\<open>random_values\<close>), read from \<open>random_calls\<close> on, so
  \<open>srandom\<close> does nothing here. The block pictures (\<open>blocks\<close>, defined in blocks.s) are an argument,
  a list of 144 bytes for every block number.
\<close>

unbundle bit_operations_syntax

subsection \<open>Constants (blocks.h, maze.h)\<close>

abbreviation (input) MAZE_MAX_X_DIM :: int where "MAZE_MAX_X_DIM \<equiv> 50"
abbreviation (input) MAZE_MAX_Y_DIM :: int where "MAZE_MAX_Y_DIM \<equiv> 30"
abbreviation (input) SHOW_MIN :: int where "SHOW_MIN \<equiv> 6"

definition MAZE_MIN_X_DIM :: int where
  "MAZE_MIN_X_DIM = (SCROLL_X_DIM + (BLOCK_X_DIM - 1) + 2 * SHOW_MIN) div (2 * BLOCK_X_DIM)"

definition MAZE_MIN_Y_DIM :: int where
  "MAZE_MIN_Y_DIM = (SCROLL_Y_DIM + (BLOCK_Y_DIM - 1) + 2 * SHOW_MIN) div (2 * BLOCK_Y_DIM)"

abbreviation (input) MAZE_NONE :: u8 where "MAZE_NONE \<equiv> 0"
abbreviation (input) MAZE_WALL :: u8 where "MAZE_WALL \<equiv> 1"
abbreviation (input) MAZE_FRUIT_1 :: u8 where "MAZE_FRUIT_1 \<equiv> 2"
abbreviation (input) MAZE_FRUIT :: u8 where "MAZE_FRUIT \<equiv> 14"
abbreviation (input) MAZE_EXIT :: u8 where "MAZE_EXIT \<equiv> 16"
abbreviation (input) MAZE_REACH :: u8 where "MAZE_REACH \<equiv> 128"

abbreviation (input) BLOCK_EMPTY :: nat where "BLOCK_EMPTY \<equiv> 16"
abbreviation (input) BLOCK_SHADOW :: nat where "BLOCK_SHADOW \<equiv> 17"
abbreviation (input) BLOCK_PLAYER_UP :: nat where "BLOCK_PLAYER_UP \<equiv> 18"
abbreviation (input) BLOCK_PLAYER_MASK_UP :: nat where "BLOCK_PLAYER_MASK_UP \<equiv> 22"
abbreviation (input) BLOCK_FRUIT_1 :: nat where "BLOCK_FRUIT_1 \<equiv> 26"
abbreviation (input) BLOCK_FRUIT_SHADOW :: nat where "BLOCK_FRUIT_SHADOW \<equiv> 33"
abbreviation (input) BLOCK_EXIT :: nat where "BLOCK_EXIT \<equiv> 34"
abbreviation (input) NUM_FRUIT_TYPES :: int where "NUM_FRUIT_TYPES \<equiv> 7"

datatype dir_t = DIR_UP | DIR_RIGHT | DIR_DOWN | DIR_LEFT | DIR_STOP

fun dir_number :: "dir_t \<Rightarrow> nat" where
  "dir_number DIR_UP = 0" | "dir_number DIR_RIGHT = 1" | "dir_number DIR_DOWN = 2" | "dir_number DIR_LEFT = 3"
| "dir_number DIR_STOP = 4"

type_synonym block_images = "nat \<Rightarrow> u8 list"

subsection \<open>The state\<close>

record maze_game = vga +
  maze :: "u8 list"            \<comment> \<open>2 MAZE_MAX_X_DIM (2 MAZE_MAX_Y_DIM + 3) + 1 bytes\<close>
  maze_x_dim :: int
  maze_y_dim :: int
  n_fruits :: int
  exit_x :: int
  exit_y :: int
  global_fnum :: int
  random_values :: "nat \<Rightarrow> int"
  random_calls :: nat

definition MAZE_SIZE :: nat where
  "MAZE_SIZE = nat (2 * MAZE_MAX_X_DIM * (2 * MAZE_MAX_Y_DIM + 3) + 1)"

definition MAZE_INDEX :: "'a maze_game_scheme \<Rightarrow> int \<Rightarrow> int \<Rightarrow> int" where
  "MAZE_INDEX s a b = a + (b + 1) * maze_x_dim s * 2"

definition maze_get :: "int \<Rightarrow> int \<Rightarrow> 'a maze_game_scheme \<Rightarrow> u8 option" where
  "maze_get x y s = arr_get (maze s) (MAZE_INDEX s x y)"

definition maze_put :: "int \<Rightarrow> int \<Rightarrow> u8 \<Rightarrow> 'a maze_game_scheme \<Rightarrow> 'a maze_game_scheme option" where
  "maze_put x y v s = map_option (\<lambda>m. s\<lparr>maze := m\<rparr>) (arr_set (maze s) (MAZE_INDEX s x y) v)"

definition random :: "'a maze_game_scheme \<Rightarrow> int \<times> 'a maze_game_scheme" where
  "random s = (random_values s (random_calls s), s\<lparr>random_calls := Suc (random_calls s)\<rparr>)"

text \<open>A random (odd,odd) lattice point.\<close>

definition random_point :: "'a maze_game_scheme \<Rightarrow> int \<times> int \<times> 'a maze_game_scheme" where
  "random_point s =
     (let (r, s) = random s; x = (r smod maze_x_dim s) * 2 + 1;
          (r, s) = random s; y = (r smod maze_y_dim s) * 2 + 1
      in (x, y, s))"

subsection \<open>What is connected\<close>

text \<open>One of the four directions: \<open>d\<close> is the offset of the adjacent space, \<open>2 * d\<close> that of the point
  behind it. The queue is an array of 1500 pointers, filled so far with \<open>q\<close>.\<close>

definition QUEUE_SIZE :: nat where
  "QUEUE_SIZE = nat (MAZE_MAX_X_DIM * MAZE_MAX_Y_DIM)"

definition explore :: "int \<Rightarrow> int \<Rightarrow> u8 list \<times> int list \<Rightarrow> (u8 list \<times> int list) option" where
  "explore cur d = (\<lambda>(m, q). do {
     w \<leftarrow> arr_get m (cur + d);
     if w AND MAZE_WALL = 0 then do {
       v \<leftarrow> arr_get m (cur + 2 * d);
       if v AND MAZE_REACH = 0 then do {
         m \<leftarrow> arr_set m (cur + 2 * d) (v OR MAZE_REACH);
         assert_opt (length q < QUEUE_SIZE);
         Some (m, q @ [cur + 2 * d])
       } else Some (m, q)
     } else Some (m, q)
   })"

function mark_loop :: "int \<Rightarrow> u8 list \<Rightarrow> int list \<Rightarrow> nat \<Rightarrow> (u8 list \<times> int list) option" where
  "mark_loop X m q q_start =
     (if q_start = length q then Some (m, q)
      else if q_start < QUEUE_SIZE then do {
        cur \<leftarrow> arr_get q (int q_start);
        mq \<leftarrow> explore cur (-2 * X) (m, q);
        mq \<leftarrow> explore cur 1 mq;
        mq \<leftarrow> explore cur (2 * X) mq;
        mq \<leftarrow> explore cur (-1) mq;
        mark_loop X (fst mq) (snd mq) (q_start + 1)
      } else None)"
  by pat_completeness auto
termination by (relation "measure (\<lambda>(X, m, q, q_start). QUEUE_SIZE - q_start)") auto

declare mark_loop.simps [simp del]

definition mark_maze_area :: "int \<Rightarrow> int \<Rightarrow> 'a maze_game_scheme \<Rightarrow> (int \<times> 'a maze_game_scheme) option" where
  "mark_maze_area x y s = do {
     let p = MAZE_INDEX s x y;
     v \<leftarrow> arr_get (maze s) p;
     m \<leftarrow> arr_set (maze s) p (v OR MAZE_REACH);
     (m, q) \<leftarrow> mark_loop (maze_x_dim s) m [p] 0;
     Some (int (length q), s\<lparr>maze := m\<rparr>)
   }"

subsection \<open>Making a maze\<close>

text \<open>The loops that pick a random point, and pick again while its byte is as \<open>again\<close> says.\<close>

partial_function (option) pick_point :: "(u8 \<Rightarrow> bool) \<Rightarrow> 'a maze_game_scheme \<Rightarrow> (int \<times> int \<times> 'a maze_game_scheme) option" where
  "pick_point again s =
     (let (x, y, s) = random_point s
      in do { w \<leftarrow> maze_get x y s; if again w then pick_point again s else Some (x, y, s) })"

declare pick_point.simps [code]

definition pick_wall :: "'a maze_game_scheme \<Rightarrow> (int \<times> int \<times> 'a maze_game_scheme) option" where
  "pick_wall = pick_point (\<lambda>w. w AND MAZE_WALL = 0)"

definition pick_unreached :: "'a maze_game_scheme \<Rightarrow> (int \<times> int \<times> 'a maze_game_scheme) option" where
  "pick_unreached = pick_point (\<lambda>w. w AND MAZE_REACH \<noteq> 0)"

definition pick_unfruited :: "'a maze_game_scheme \<Rightarrow> (int \<times> int \<times> 'a maze_game_scheme) option" where
  "pick_unfruited = pick_point (\<lambda>w. w AND MAZE_FRUIT \<noteq> 0)"

text \<open>The first phase: worms. A worm starts at a random point that is still a wall.\<close>

definition turn_wt :: "int list list" where
  "turn_wt = [[1, 84], [1, 9], [3, 3], [1, 9]]"

text \<open>The weight of a direction, 0 at the border; the index of \<open>turn_wt\<close> is the relative direction.\<close>

definition dir_weight :: "bool \<Rightarrow> int \<Rightarrow> int \<Rightarrow> int \<Rightarrow> 'a maze_game_scheme \<Rightarrow> int option" where
  "dir_weight inside rel x y s =
     (if inside then do {
        v \<leftarrow> maze_get x y s;
        row \<leftarrow> arr_get turn_wt rel;
        arr_get row (if v = MAZE_WALL then 1 else 0)
      } else Some 0)"

fun pick_dir :: "int \<Rightarrow> int list \<Rightarrow> nat \<Rightarrow> nat option" where
  "pick_dir pick [] d = None"
| "pick_dir pick (w # ws) d = (if pick \<ge> w then pick_dir pick ws (d + 1) else Some d)"

text \<open>One move: \<open>Inl\<close> when the worm turns around and is done, \<open>Inr\<close> with the new place, direction and
  number of walls left otherwise.\<close>

definition worm_step :: "int \<Rightarrow> int \<Rightarrow> int \<Rightarrow> int \<Rightarrow> 'a maze_game_scheme
    \<Rightarrow> (('a maze_game_scheme) + (int \<times> int \<times> int \<times> int \<times> 'a maze_game_scheme)) option" where
  "worm_step x y pref_dir remaining s = do {
     w0 \<leftarrow> dir_weight (y > 1) pref_dir x (y - 2) s;
     w1 \<leftarrow> dir_weight (x < maze_x_dim s * 2 - 1) ((pref_dir + 3) smod 4) (x + 2) y s;
     w2 \<leftarrow> dir_weight (y < maze_y_dim s * 2 - 1) ((pref_dir + 2) smod 4) x (y + 2) s;
     w3 \<leftarrow> dir_weight (x > 1) ((pref_dir + 1) smod 4) (x - 2) y s;
     let total = w0 + w1 + w2 + w3;
     assert_opt (total \<noteq> 0);
     let (r, s) = random s;
     dir \<leftarrow> pick_dir (r smod total) [w0, w0 + w1, w0 + w1 + w2, total] 0;
     if (int dir - pref_dir + 4) smod 4 = 2 then Some (Inl s)
     else do {
       let (dx, dy) = ([(0, -1), (1, 0), (0, 1), (-1, 0)] :: (int \<times> int) list) ! dir;
       s \<leftarrow> maze_put (x + dx) (y + dy) MAZE_NONE s;
       let x = x + 2 * dx;
       let y = y + 2 * dy;
       v \<leftarrow> maze_get x y s;
       s \<leftarrow> maze_put x y MAZE_NONE s;
       Some (Inr (x, y, int dir, if v = MAZE_WALL then remaining - 1 else remaining, s))
     }
   }"

partial_function (option) worm :: "int \<Rightarrow> int \<Rightarrow> int \<Rightarrow> int \<Rightarrow> 'a maze_game_scheme
    \<Rightarrow> (int \<times> int \<times> int \<times> 'a maze_game_scheme) option" where
  "worm x y pref_dir remaining s = do {
     r \<leftarrow> worm_step x y pref_dir remaining s;
     (case r of
        Inl s \<Rightarrow> Some (x, y, remaining, s)
      | Inr (x, y, pref_dir, remaining, s) \<Rightarrow> worm x y pref_dir remaining s)
   }"

declare worm.simps [code]

partial_function (option) worms :: "int \<Rightarrow> 'a maze_game_scheme \<Rightarrow> (int \<times> int \<times> 'a maze_game_scheme) option" where
  "worms remaining s = do {
     (x, y, s) \<leftarrow> pick_wall s;
     s \<leftarrow> maze_put x y MAZE_NONE s;
     let (r, s) = random s;
     (x, y, remaining, s) \<leftarrow> worm x y (r smod 4) (remaining - 1) s;
     if remaining > 0 then worms remaining s else Some (x, y, s)
   }"

declare worms.simps [code]

text \<open>The second phase: connect everything to (1,1).\<close>

text \<open>Whether the point \<open>(x, y)\<close> next to it is reached, if it is inside.\<close>

definition reached :: "bool \<Rightarrow> int \<Rightarrow> int \<Rightarrow> 'a maze_game_scheme \<Rightarrow> bool option" where
  "reached inside x y s =
     (if inside then map_option (\<lambda>v. v AND MAZE_REACH \<noteq> 0) (maze_get x y s) else Some False)"

text \<open>Knock down the wall towards a reached point, if there is one; \<open>False\<close> if not.\<close>

definition connect :: "int \<Rightarrow> int \<Rightarrow> 'a maze_game_scheme \<Rightarrow> (bool \<times> 'a maze_game_scheme) option" where
  "connect x y s = do {
     up \<leftarrow> reached (y > 1) x (y - 2) s;
     if up then map_option (\<lambda>s. (True, s)) (maze_put x (y - 1) MAZE_NONE s) else do {
     left \<leftarrow> reached (x > 1) (x - 2) y s;
     if left then map_option (\<lambda>s. (True, s)) (maze_put (x - 1) y MAZE_NONE s) else do {
     right \<leftarrow> reached (x < 2 * maze_x_dim s - 1) (x + 2) y s;
     if right then map_option (\<lambda>s. (True, s)) (maze_put (x + 1) y MAZE_NONE s) else do {
     down \<leftarrow> reached (y < 2 * maze_y_dim s - 1) x (y + 2) s;
     if down then map_option (\<lambda>s. (True, s)) (maze_put x (y + 1) MAZE_NONE s) else Some (False, s)
     }}}
   }"

partial_function (option) connect_all :: "int \<Rightarrow> int \<Rightarrow> int \<Rightarrow> int \<Rightarrow> 'a maze_game_scheme \<Rightarrow> 'a maze_game_scheme option" where
  "connect_all x y remaining trials s = do {
     let scan = (remaining < 20 \<or> trials + 1 > 100);
     let trials = (if remaining < 20 then trials else trials + 1);
     (x, y, s, skip) \<leftarrow>
       (if scan then
          let (x, y) = (if x + 2 > maze_x_dim s * 2
                        then (x + 2 - maze_x_dim s * 2,
                              if y + 2 > 2 * maze_y_dim s then y + 2 - 2 * maze_y_dim s else y + 2)
                        else (x + 2, y))
          in do { w \<leftarrow> maze_get x y s; Some (x, y, s, w AND MAZE_REACH \<noteq> 0) }
        else map_option (\<lambda>(x, y, s). (x, y, s, False)) (pick_unreached s));
     (remaining, s) \<leftarrow>
       (if skip then Some (remaining, s)
        else do {
          (found, s) \<leftarrow> connect x y s;
          if found then map_option (\<lambda>(n, s). (remaining - n, s)) (mark_maze_area x y s)
          else Some (remaining, s)
        });
     if remaining > 0 then connect_all x y remaining trials s else Some s
   }"

declare connect_all.simps [code]

text \<open>The loops that remove the marks.\<close>

definition unmark :: "int \<Rightarrow> int \<Rightarrow> 'a maze_game_scheme \<Rightarrow> 'a maze_game_scheme option" where
  "unmark x y s = do { v \<leftarrow> maze_get x y s; maze_put x y (v AND NOT MAZE_REACH) s }"

fun unmark_column :: "int \<Rightarrow> int \<Rightarrow> nat \<Rightarrow> 'a maze_game_scheme \<Rightarrow> 'a maze_game_scheme option" where
  "unmark_column x y 0 s = Some s"
| "unmark_column x y (Suc k) s = do { s \<leftarrow> unmark x y s; unmark_column x (y + 2) k s }"

fun unmark_all :: "int \<Rightarrow> nat \<Rightarrow> 'a maze_game_scheme \<Rightarrow> 'a maze_game_scheme option" where
  "unmark_all x 0 s = Some s"
| "unmark_all x (Suc k) s = do { s \<leftarrow> unmark_column x 1 (nat (maze_y_dim s)) s; unmark_all (x + 2) k s }"

subsection \<open>Pictures\<close>

definition fruit_number :: "u8 \<Rightarrow> nat" where
  "fruit_number v = unat (v AND MAZE_FRUIT) div unat MAZE_FRUIT_1"

text \<open>The number of the block to draw for a space.\<close>

definition find_block :: "int \<Rightarrow> int \<Rightarrow> 'a maze_game_scheme \<Rightarrow> nat option" where
  "find_block x y s = do {
     v \<leftarrow> maze_get x y s;
     let fnum = fruit_number v;
     if n_fruits s = 0 \<and> v AND MAZE_EXIT \<noteq> 0 then Some BLOCK_EXIT
     else if v AND MAZE_REACH = 0 then Some (if fnum \<noteq> 0 then BLOCK_FRUIT_SHADOW else BLOCK_SHADOW)
     else if fnum \<noteq> 0 then Some (BLOCK_FRUIT_1 + fnum - 1)
     else if v AND MAZE_WALL = 0 then Some BLOCK_EMPTY
     else do {
       up \<leftarrow> maze_get x (y - 1) s;
       right \<leftarrow> maze_get (x + 1) y s;
       down \<leftarrow> maze_get x (y + 1) s;
       left \<leftarrow> maze_get (x - 1) y s;
       Some (of_bool (up AND MAZE_WALL \<noteq> 0) + 2 * of_bool (right AND MAZE_WALL \<noteq> 0)
             + 4 * of_bool (down AND MAZE_WALL \<noteq> 0) + 8 * of_bool (left AND MAZE_WALL \<noteq> 0))
     }
   }"

text \<open>The inner loops of the two fill functions: the pixels of one block, at most \<open>k\<close> of them.\<close>

fun copy_right :: "u8 list \<Rightarrow> int \<Rightarrow> int \<Rightarrow> nat \<Rightarrow> (u8 list \<times> nat) option" where
  "copy_right img p sub_x 0 = Some ([], 0)"
| "copy_right img p sub_x (Suc k) =
     (if sub_x < BLOCK_X_DIM then do {
        b \<leftarrow> arr_get img p;
        (bs, r) \<leftarrow> copy_right img (p + 1) (sub_x + 1) k;
        Some (b # bs, r)
      } else Some ([], Suc k))"

fun copy_down_block :: "u8 list \<Rightarrow> int \<Rightarrow> int \<Rightarrow> nat \<Rightarrow> (u8 list \<times> nat) option" where
  "copy_down_block img p sub_y 0 = Some ([], 0)"
| "copy_down_block img p sub_y (Suc k) =
     (if sub_y < BLOCK_Y_DIM then do {
        b \<leftarrow> arr_get img p;
        (bs, r) \<leftarrow> copy_down_block img (p + BLOCK_X_DIM) (sub_y + 1) k;
        Some (b # bs, r)
      } else Some ([], Suc k))"

text \<open>The outer loops; \<open>k\<close> is the number of pixels left. They end because every block gives at least
  one pixel: a round that gives none is a loop that does not end, \<open>None\<close>.\<close>

function fill_horiz :: "block_images \<Rightarrow> int \<Rightarrow> int \<Rightarrow> int \<Rightarrow> int \<Rightarrow> nat \<Rightarrow> 'a maze_game_scheme \<Rightarrow> u8 list option" where
  "fill_horiz blocks map_x map_y sub_x sub_y k s =
     (if k = 0 then Some []
      else do {
        b \<leftarrow> find_block map_x map_y s;
        (bs, r) \<leftarrow> copy_right (blocks b) (sub_y * BLOCK_X_DIM + sub_x) sub_x k;
        if r < k then do { rest \<leftarrow> fill_horiz blocks (map_x + 1) map_y 0 sub_y r s; Some (bs @ rest) } else None
      })"
  by pat_completeness auto
termination by (relation "measure (\<lambda>(blocks, mx, my, sx, sy, k, s). k)") auto

declare fill_horiz.simps [simp del]

definition fill_horiz_buffer :: "block_images \<Rightarrow> 'a maze_game_scheme \<Rightarrow> int \<Rightarrow> int \<Rightarrow> u8 list option" where
  "fill_horiz_buffer blocks s x y =
     (let map_x = x sdiv BLOCK_X_DIM; map_y = y sdiv BLOCK_Y_DIM;
          sub_x = x - map_x * BLOCK_X_DIM; sub_y = y - map_y * BLOCK_Y_DIM
      in fill_horiz blocks map_x map_y sub_x sub_y (nat SCROLL_X_DIM) s)"

function fill_vert :: "block_images \<Rightarrow> int \<Rightarrow> int \<Rightarrow> int \<Rightarrow> int \<Rightarrow> nat \<Rightarrow> 'a maze_game_scheme \<Rightarrow> u8 list option" where
  "fill_vert blocks map_x map_y sub_x sub_y k s =
     (if k = 0 then Some []
      else do {
        b \<leftarrow> find_block map_x map_y s;
        (bs, r) \<leftarrow> copy_down_block (blocks b) (sub_y * BLOCK_X_DIM + sub_x) sub_y k;
        if r < k then do { rest \<leftarrow> fill_vert blocks map_x (map_y + 1) sub_x 0 r s; Some (bs @ rest) } else None
      })"
  by pat_completeness auto
termination by (relation "measure (\<lambda>(blocks, mx, my, sx, sy, k, s). k)") auto

declare fill_vert.simps [simp del]

definition fill_vert_buffer :: "block_images \<Rightarrow> 'a maze_game_scheme \<Rightarrow> int \<Rightarrow> int \<Rightarrow> u8 list option" where
  "fill_vert_buffer blocks s x y =
     (let map_x = x sdiv BLOCK_X_DIM; map_y = y sdiv BLOCK_Y_DIM;
          sub_x = x - map_x * BLOCK_X_DIM; sub_y = y - map_y * BLOCK_Y_DIM
      in fill_vert blocks map_x map_y sub_x sub_y (nat SCROLL_Y_DIM) s)"

definition draw_space :: "block_images \<Rightarrow> int \<Rightarrow> int \<Rightarrow> 'a maze_game_scheme \<Rightarrow> 'a maze_game_scheme option" where
  "draw_space blocks x y s = do {
     b \<leftarrow> find_block x y s;
     draw_full_block (x * BLOCK_X_DIM) (y * BLOCK_Y_DIM) (blocks b) s
   }"

definition unveil_space :: "block_images \<Rightarrow> int \<Rightarrow> int \<Rightarrow> 'a maze_game_scheme \<Rightarrow> 'a maze_game_scheme option" where
  "unveil_space blocks x y s =
     (if x < 0 \<or> x > 2 * maze_x_dim s \<or> y < 0 \<or> y > 2 * maze_y_dim s then Some s
      else do {
        v \<leftarrow> maze_get x y s;
        if v AND MAZE_REACH \<noteq> 0 then Some s
        else do {
          s \<leftarrow> maze_put x y (v OR MAZE_REACH) s;
          draw_space blocks x y s
        }
      })"

subsection \<open>Fruits and the exit\<close>

definition check_for_fruit :: "block_images \<Rightarrow> int \<Rightarrow> int \<Rightarrow> 'a maze_game_scheme \<Rightarrow> (nat \<times> 'a maze_game_scheme) option" where
  "check_for_fruit blocks x y s =
     (if x < 0 \<or> x \<ge> 2 * maze_x_dim s \<or> y < 0 \<or> y \<ge> 2 * maze_y_dim s then Some (0, s)
      else do {
        v \<leftarrow> maze_get x y s;
        let fnum = fruit_number v;
        s \<leftarrow> (if fnum \<noteq> 0 then do {
               s \<leftarrow> maze_put x y (v AND NOT MAZE_FRUIT) s;
               let s = s\<lparr>n_fruits := n_fruits s - 1\<rparr>;
               s \<leftarrow> (if n_fruits s = 0 then draw_space blocks (exit_x s) (exit_y s) s else Some s);
               draw_space blocks x y s
             } else Some s);
        Some (fnum, s\<lparr>global_fnum := n_fruits s\<rparr>)
      })"

definition check_for_win :: "int \<Rightarrow> int \<Rightarrow> 'a maze_game_scheme \<Rightarrow> bool option" where
  "check_for_win x y s =
     (if x < 0 \<or> x \<ge> 2 * maze_x_dim s \<or> y < 0 \<or> y \<ge> 2 * maze_y_dim s then Some False
      else if n_fruits s = 0 then map_option (\<lambda>v. v AND MAZE_EXIT \<noteq> 0) (maze_get x y s)
      else Some False)"

text \<open>\<open>_add_a_fruit\<close>: the fruit is drawn when \<open>show\<close> is not 0.\<close>

definition add_fruit :: "block_images \<Rightarrow> bool \<Rightarrow> 'a maze_game_scheme \<Rightarrow> 'a maze_game_scheme option" where
  "add_fruit blocks shown s = do {
     (x, y, s) \<leftarrow> pick_unfruited s;
     v \<leftarrow> maze_get x y s;
     let (r, s) = random s;
     s \<leftarrow> maze_put x y (v OR word_of_int ((r smod NUM_FRUIT_TYPES + 1) * uint MAZE_FRUIT_1)) s;
     let s = s\<lparr>n_fruits := n_fruits s + 1\<rparr>;
     if shown then draw_space blocks x y s else Some s
   }"

definition add_a_fruit :: "block_images \<Rightarrow> 'a maze_game_scheme \<Rightarrow> (int \<times> 'a maze_game_scheme) option" where
  "add_a_fruit blocks s = do {
     s \<leftarrow> add_fruit blocks True s;
     s \<leftarrow> (if n_fruits s = 1 then draw_space blocks (exit_x s) (exit_y s) s else Some s);
     Some (n_fruits s, s)
   }"

definition add_a_fruit_internal :: "'a maze_game_scheme \<Rightarrow> 'a maze_game_scheme option" where
  "add_a_fruit_internal s = add_fruit (\<lambda>_. []) False s"

fun add_fruits :: "nat \<Rightarrow> 'a maze_game_scheme \<Rightarrow> 'a maze_game_scheme option" where
  "add_fruits 0 s = Some s"
| "add_fruits (Suc k) s = do { s \<leftarrow> add_a_fruit_internal s; add_fruits k s }"

text \<open>The construction, with the exit at a point without a fruit.\<close>

definition make_maze :: "int \<Rightarrow> int \<Rightarrow> int \<Rightarrow> 'a maze_game_scheme \<Rightarrow> (int \<times> 'a maze_game_scheme) option" where
  "make_maze x_dim y_dim start_fruits s =
     (if x_dim < MAZE_MIN_X_DIM \<or> x_dim > MAZE_MAX_X_DIM \<or> y_dim < MAZE_MIN_Y_DIM \<or> y_dim > MAZE_MAX_Y_DIM
      then Some (-1, s)
      else do {
        let s = s\<lparr>maze_x_dim := x_dim, maze_y_dim := y_dim, maze := replicate MAZE_SIZE MAZE_WALL\<rparr>;
        (x, y, s) \<leftarrow> worms (x_dim * y_dim) s;
        (n, s) \<leftarrow> mark_maze_area 1 1 s;
        s \<leftarrow> connect_all x y (x_dim * y_dim - n) 0 s;
        s \<leftarrow> unmark_all 1 (nat x_dim) s;
        s \<leftarrow> add_fruits (nat start_fruits) (s\<lparr>n_fruits := 0\<rparr>);
        (x, y, s) \<leftarrow> pick_unfruited s;
        v \<leftarrow> maze_get x y s;
        s \<leftarrow> maze_put x y (v OR MAZE_EXIT) s;
        Some (0, s\<lparr>exit_x := x, exit_y := y\<rparr>)
      })"

subsection \<open>The player\<close>

definition get_player_block :: "block_images \<Rightarrow> dir_t \<Rightarrow> u8 list" where
  "get_player_block blocks cur_dir = blocks (BLOCK_PLAYER_UP + dir_number cur_dir)"

definition get_player_mask :: "block_images \<Rightarrow> dir_t \<Rightarrow> u8 list" where
  "get_player_mask blocks cur_dir = blocks (BLOCK_PLAYER_MASK_UP + dir_number cur_dir)"

definition is_open :: "int \<Rightarrow> int \<Rightarrow> 'a maze_game_scheme \<Rightarrow> bool option" where
  "is_open x y s = map_option (\<lambda>v. v AND MAZE_WALL = 0) (maze_get x y s)"

definition find_open_directions :: "int \<Rightarrow> int \<Rightarrow> 'a maze_game_scheme \<Rightarrow> bool list option" where
  "find_open_directions x y s = do {
     up \<leftarrow> is_open x (y - 1) s;
     right \<leftarrow> is_open (x + 1) y s;
     down \<leftarrow> is_open x (y + 1) s;
     left \<leftarrow> is_open (x - 1) y s;
     Some [up, right, down, left]
   }"

end
