(* ===== verification/Game.thy ===== *)
theory Game
  imports Maze
begin

text \<open>
  The maze game (mp2/mazegame.c): the parameters of the levels, the moves of the player with the
  panning of the window, the step of the game for one tick of the clock, the keys, and the time on
  the LEDs of the Tux controller. The three threads share \<open>next_dir\<close> under a mutex; here every
  operation under the mutex is one step on the shared state.
\<close>

unbundle bit_operations_syntax

subsection \<open>The state\<close>

abbreviation (input) PAN_BORDER :: int where "PAN_BORDER \<equiv> 5"
abbreviation (input) MAX_LEVEL :: int where "MAX_LEVEL \<equiv> 10"

record game = maze_game +
  info_number :: int              \<comment> \<open>the fields of \<open>game_info\<close>\<close>
  info_x_dim :: int
  info_y_dim :: int
  initial_fruit_count :: int
  time_to_first_fruit :: int
  time_between_fruits :: int
  tick_usec :: int
  map_x :: u32
  map_y :: u32
  next_dir :: dir_t               \<comment> \<open>the shared globals\<close>
  play_x :: int
  play_y :: int
  last_dir :: dir_t
  dir :: dir_t
  move_cnt :: int

subsection \<open>Moving the player and panning\<close>

text \<open>Shift the window and draw the line that comes into view.\<close>

definition pan_row :: "block_images \<Rightarrow> int \<Rightarrow> 'a game_scheme \<Rightarrow> 'a game_scheme option" where
  "pan_row blocks row s = do {
     s \<leftarrow> set_view_window (sint (map_x s)) (sint (map_y s)) s;
     map_option snd (draw_horiz_line (fill_horiz_buffer blocks s) row s)
   }"

definition pan_column :: "block_images \<Rightarrow> int \<Rightarrow> 'a game_scheme \<Rightarrow> 'a game_scheme option" where
  "pan_column blocks column s = do {
     s \<leftarrow> set_view_window (sint (map_x s)) (sint (map_y s)) s;
     map_option snd (draw_vert_line (fill_vert_buffer blocks s) column s)
   }"

text \<open>The comparisons are unsigned: one of their sides is.\<close>

definition move_up :: "block_images \<Rightarrow> 'a game_scheme \<Rightarrow> 'a game_scheme option" where
  "move_up blocks s =
     (let s = s\<lparr>play_y := play_y s - 1\<rparr>
      in if word_of_int (play_y s) < map_y s + word_of_int (BLOCK_Y_DIM * PAN_BORDER) \<and> map_y s > word_of_int SHOW_MIN
         then pan_row blocks 0 (s\<lparr>map_y := map_y s - 1\<rparr>) else Some s)"

definition move_right :: "block_images \<Rightarrow> 'a game_scheme \<Rightarrow> 'a game_scheme option" where
  "move_right blocks s =
     (let s = s\<lparr>play_x := play_x s + 1\<rparr>
      in if word_of_int (play_x s) > map_x s + word_of_int SCROLL_X_DIM - word_of_int (BLOCK_X_DIM * (PAN_BORDER + 1)) \<and>
            map_x s + word_of_int SCROLL_X_DIM < word_of_int ((2 * info_x_dim s + 1) * BLOCK_X_DIM - SHOW_MIN)
         then pan_column blocks (SCROLL_X_DIM - 1) (s\<lparr>map_x := map_x s + 1\<rparr>) else Some s)"

definition move_down :: "block_images \<Rightarrow> 'a game_scheme \<Rightarrow> 'a game_scheme option" where
  "move_down blocks s =
     (let s = s\<lparr>play_y := play_y s + 1\<rparr>
      in if word_of_int (play_y s) > map_y s + word_of_int SCROLL_Y_DIM - word_of_int (BLOCK_Y_DIM * (PAN_BORDER + 1)) \<and>
            map_y s + word_of_int SCROLL_Y_DIM < word_of_int ((2 * info_y_dim s + 1) * BLOCK_Y_DIM - SHOW_MIN)
         then pan_row blocks (SCROLL_Y_DIM - 1) (s\<lparr>map_y := map_y s + 1\<rparr>) else Some s)"

definition move_left :: "block_images \<Rightarrow> 'a game_scheme \<Rightarrow> 'a game_scheme option" where
  "move_left blocks s =
     (let s = s\<lparr>play_x := play_x s - 1\<rparr>
      in if word_of_int (play_x s) < map_x s + word_of_int (BLOCK_X_DIM * PAN_BORDER) \<and> map_x s > word_of_int SHOW_MIN
         then pan_column blocks 0 (s\<lparr>map_x := map_x s - 1\<rparr>) else Some s)"

definition move_player :: "block_images \<Rightarrow> 'a game_scheme \<Rightarrow> 'a game_scheme option" where
  "move_player blocks s =
     (case dir s of
        DIR_UP \<Rightarrow> move_up blocks s
      | DIR_RIGHT \<Rightarrow> move_right blocks s
      | DIR_DOWN \<Rightarrow> move_down blocks s
      | DIR_LEFT \<Rightarrow> move_left blocks s
      | DIR_STOP \<Rightarrow> Some s)"

subsection \<open>Reaching a space\<close>

fun unveil_spaces :: "block_images \<Rightarrow> (int \<times> int) list \<Rightarrow> 'a maze_game_scheme \<Rightarrow> 'a maze_game_scheme option" where
  "unveil_spaces blocks [] s = Some s"
| "unveil_spaces blocks ((x, y) # ps) s = do { s \<leftarrow> unveil_space blocks x y s; unveil_spaces blocks ps s }"

text \<open>The spaces around the player, in the order of the code.\<close>

definition around :: "int \<Rightarrow> int \<Rightarrow> (int \<times> int) list" where
  "around x y = [(x - 1, y - 1), (x - 1, y), (x - 1, y + 1), (x, y - 1), (x, y), (x, y + 1), (x + 1, y - 1), (x + 1, y), (x + 1, y + 1),
     (x, y - 2), (x + 2, y), (x, y + 2), (x - 2, y)]"

definition unveil_around_player :: "block_images \<Rightarrow> int \<Rightarrow> int \<Rightarrow> 'a maze_game_scheme \<Rightarrow> (bool \<times> 'a maze_game_scheme) option" where
  "unveil_around_player blocks px py s = do {
     let x = px sdiv BLOCK_X_DIM;
     let y = py sdiv BLOCK_Y_DIM;
     (fnum, s) \<leftarrow> check_for_fruit blocks x y s;
     s \<leftarrow> unveil_spaces blocks (around x y) s;
     won \<leftarrow> check_for_win x y s;
     Some (won, s)
   }"

subsection \<open>One tick\<close>

definition opposite :: "dir_t \<Rightarrow> dir_t \<Rightarrow> bool" where
  "opposite d e \<longleftrightarrow> (d = DIR_UP \<and> e = DIR_DOWN) \<or> (d = DIR_DOWN \<and> e = DIR_UP) \<or> (d = DIR_LEFT \<and> e = DIR_RIGHT) \<or> (d = DIR_RIGHT \<and> e = DIR_LEFT)"

text \<open>A turn back takes effect at once.\<close>

definition turn_back :: "'a game_scheme \<Rightarrow> 'a game_scheme" where
  "turn_back s =
     (if next_dir s \<noteq> dir s \<and> opposite (dir s) (next_dir s) then
        let s = (if move_cnt s > 0 then
                   s\<lparr>move_cnt := (if dir s = DIR_UP \<or> dir s = DIR_DOWN then BLOCK_Y_DIM - move_cnt s else BLOCK_X_DIM - move_cnt s)\<rparr>
                 else s)
        in s\<lparr>dir := next_dir s\<rparr>
      else s)"

text \<open>At a space of the maze. The code reads \<open>open[next_dir]\<close>, which is behind the array when \<open>next_dir\<close>
  is still \<open>DIR_STOP\<close>: \<open>beyond\<close> is what is there.\<close>

definition choose_dir :: "bool \<Rightarrow> bool list \<Rightarrow> 'a game_scheme \<Rightarrow> 'a game_scheme option" where
  "choose_dir beyond opn s = do {
     go \<leftarrow> arr_get (opn @ [beyond]) (int (dir_number (next_dir s)));
     let s = (if go then s\<lparr>dir := next_dir s\<rparr> else s);
     if dir s \<noteq> DIR_STOP then do {
       go \<leftarrow> arr_get opn (int (dir_number (dir s)));
       Some (if \<not> go then s\<lparr>dir := DIR_STOP\<rparr>
             else if dir s = DIR_UP \<or> dir s = DIR_DOWN then s\<lparr>move_cnt := BLOCK_Y_DIM\<rparr>
             else s\<lparr>move_cnt := BLOCK_X_DIM\<rparr>)
     } else Some s
   }"

text \<open>The result says whether the level is won.\<close>

definition new_square :: "block_images \<Rightarrow> bool \<Rightarrow> 'a game_scheme \<Rightarrow> (bool \<times> 'a game_scheme) option" where
  "new_square blocks beyond s = do {
     (won, s) \<leftarrow> unveil_around_player blocks (play_x s) (play_y s) s;
     if won then Some (True, s)
     else do {
       opn \<leftarrow> find_open_directions (play_x s sdiv BLOCK_X_DIM) (play_y s sdiv BLOCK_Y_DIM) s;
       map_option (\<lambda>s. (False, s)) (choose_dir beyond opn s)
     }
   }"

definition tick :: "block_images \<Rightarrow> bool \<Rightarrow> 'a game_scheme \<Rightarrow> (bool \<times> 'a game_scheme) option" where
  "tick blocks beyond s = do {
     let s = turn_back s;
     (won, s) \<leftarrow> (if move_cnt s = 0 then new_square blocks beyond s else Some (False, s));
     if won then Some (True, s)
     else if dir s \<noteq> DIR_STOP
       then map_option (\<lambda>s. (False, s)) (move_player blocks (s\<lparr>last_dir := dir s, move_cnt := move_cnt s - 1\<rparr>))
     else Some (False, s)
   }"

text \<open>The ticks of one interrupt, at most eight.\<close>

fun ticks :: "block_images \<Rightarrow> bool \<Rightarrow> nat \<Rightarrow> 'a game_scheme \<Rightarrow> (bool \<times> 'a game_scheme) option" where
  "ticks blocks beyond 0 s = Some (False, s)"
| "ticks blocks beyond (Suc k) s = do {
     (won, s) \<leftarrow> tick blocks beyond s;
     if won then Some (True, s) else ticks blocks beyond k s
   }"

text \<open>The picture after the ticks, with the player on it.\<close>

definition draw_frame :: "block_images \<Rightarrow> 'a game_scheme \<Rightarrow> 'a game_scheme option" where
  "draw_frame blocks s = do {
     s \<leftarrow> draw_mask_block (play_x s) (play_y s) (get_player_block blocks (last_dir s)) (get_player_mask blocks (last_dir s)) s;
     s \<leftarrow> show_screen s;
     draw_full_block (play_x s) (play_y s) (g_mask s) s
   }"

definition rtc_interrupt :: "block_images \<Rightarrow> bool \<Rightarrow> nat \<Rightarrow> 'a game_scheme \<Rightarrow> (bool \<times> 'a game_scheme) option" where
  "rtc_interrupt blocks beyond n s = do {
     (won, s) \<leftarrow> ticks blocks beyond (min n 8) s;
     s \<leftarrow> draw_frame blocks s;
     Some (won, s)
   }"

subsection \<open>Levels\<close>

fun draw_lines :: "block_images \<Rightarrow> int \<Rightarrow> nat \<Rightarrow> 'a maze_game_scheme \<Rightarrow> 'a maze_game_scheme option" where
  "draw_lines blocks i 0 s = Some s"
| "draw_lines blocks i (Suc k) s = do {
     (r, s) \<leftarrow> draw_horiz_line (fill_horiz_buffer blocks s) i s;
     draw_lines blocks (i + 1) k s
   }"

definition set_level :: "int \<Rightarrow> 'a game_scheme \<Rightarrow> 'a game_scheme" where
  "set_level level s =
     s\<lparr>info_number := level,
       info_x_dim := min (MAZE_MIN_X_DIM + 2 * (level - 1)) MAZE_MAX_X_DIM,
       info_y_dim := min (MAZE_MIN_Y_DIM + 2 * (level - 1)) MAZE_MAX_Y_DIM,
       initial_fruit_count := min (1 + (level - 1) sdiv 2) 6,
       time_to_first_fruit := max (300 - 30 * (level - 1)) 120,
       time_between_fruits := max (300 - 60 * (level - 1)) 60,
       tick_usec := max (20000 - 1750 * (level - 1)) 5000,
       map_x := word_of_int SHOW_MIN, map_y := word_of_int SHOW_MIN\<rparr>"

definition prepare_maze_level :: "block_images \<Rightarrow> int \<Rightarrow> 'a game_scheme \<Rightarrow> (int \<times> 'a game_scheme) option" where
  "prepare_maze_level blocks level s = do {
     let s = set_level level s;
     (r, s) \<leftarrow> make_maze (info_x_dim s) (info_y_dim s) (initial_fruit_count s) s;
     if r \<noteq> 0 then Some (-1, s)
     else do {
       s \<leftarrow> set_view_window (sint (map_x s)) (sint (map_y s)) s;
       s \<leftarrow> draw_lines blocks 0 (nat SCROLL_Y_DIM) s;
       Some (0, s)
     }
   }"

text \<open>The player at the start of a level.\<close>

definition place_player :: "'a game_scheme \<Rightarrow> 'a game_scheme" where
  "place_player s =
     s\<lparr>play_x := BLOCK_X_DIM, play_y := BLOCK_Y_DIM, move_cnt := 0, last_dir := DIR_UP, dir := DIR_STOP, next_dir := DIR_STOP\<rparr>"

definition start_level :: "block_images \<Rightarrow> 'a game_scheme \<Rightarrow> 'a game_scheme option" where
  "start_level blocks s = do {
     let s = place_player s;
     (won, s) \<leftarrow> unveil_around_player blocks (play_x s) (play_y s) s;
     s \<leftarrow> show_screen s;
     s \<leftarrow> draw_mask_block (play_x s) (play_y s) (get_player_block blocks (last_dir s)) (get_player_mask blocks (last_dir s)) s;
     draw_full_block (play_x s) (play_y s) (g_mask s) s
   }"

subsection \<open>Keys and buttons\<close>

text \<open>A key, with the state of the escape sequence: whether it quits, the new state, and the direction it
  sets.\<close>

definition arrow_key :: "int \<Rightarrow> dir_t option" where
  "arrow_key key = (if key = 65 then Some DIR_UP else if key = 66 then Some DIR_DOWN
     else if key = 67 then Some DIR_RIGHT else if key = 68 then Some DIR_LEFT else None)"

definition keyboard_key :: "int \<Rightarrow> int \<Rightarrow> 'a game_scheme \<Rightarrow> bool \<times> int \<times> 'a game_scheme" where
  "keyboard_key key state s =
     (if key = 96 then (True, state, s)
      else if key = 27 then (False, 1, s)
      else if key = 91 \<and> state = 1 then (False, 2, s)
      else (False, 0, if key \<ge> 65 \<and> key \<le> 68 \<and> state = 2
                      then case arrow_key key of Some d \<Rightarrow> s\<lparr>next_dir := d\<rparr> | None \<Rightarrow> s else s))"

text \<open>A round of the Tux thread, for the buttons read last.\<close>

definition tux_command :: "u32 \<Rightarrow> 'a game_scheme \<Rightarrow> 'a game_scheme" where
  "tux_command cmd s =
     (let b = cmd AND 0xFF
      in if b = 0x10 then s\<lparr>next_dir := DIR_UP\<rparr> else if b = 0x20 then s\<lparr>next_dir := DIR_DOWN\<rparr>
         else if b = 0x80 then s\<lparr>next_dir := DIR_RIGHT\<rparr> else if b = 0x40 then s\<lparr>next_dir := DIR_LEFT\<rparr> else s)"

subsection \<open>The clock\<close>

definition convertTime :: "int \<Rightarrow> u32" where
  "convertTime seconds =
     (let total_mins = seconds sdiv 60;
          total_secs = seconds smod 60;
          ones_secs = word_of_int (total_secs smod 10);
          tens_secs = push_bit 4 (word_of_int (total_secs sdiv 10));
          ones_mins = push_bit 8 (word_of_int (total_mins smod 10));
          tens_mins = push_bit 12 (word_of_int (total_mins sdiv 10));
          conversion = push_bit 24 0x4;
          which_leds = (if tens_mins \<noteq> 0 then 0xF else 0x7);
          conversion = conversion OR push_bit 16 which_leds;
          val = ((ones_secs OR tens_secs) OR ones_mins) OR tens_mins
      in conversion OR val)"

end
