(* ===== verification/MazeProps.thy ===== *)
theory MazeProps
  imports Maze ModexProps
begin

text \<open>
  The maze as a lattice: which spaces lie in the array, which of them are the same byte (the left
  and right borders are shared), and what the window shows of it.
\<close>

subsection \<open>Spaces of the maze\<close>

definition maze_arr_ok :: "'a maze_game_scheme \<Rightarrow> bool" where
  "maze_arr_ok s \<longleftrightarrow> length (maze s) = MAZE_SIZE \<and> 1 \<le> maze_x_dim s \<and> maze_x_dim s \<le> 50 \<and> 1 \<le> maze_y_dim s \<and> maze_y_dim s \<le> 30"

lemma MAZE_SIZE_eq: "MAZE_SIZE = 6301"
  by (simp add: MAZE_SIZE_def)

text \<open>The spaces that are drawn, the ones next to them included.\<close>

definition near_maze :: "'a maze_game_scheme \<Rightarrow> int \<Rightarrow> int \<Rightarrow> bool" where
  "near_maze s x y \<longleftrightarrow> (- 1 \<le> x \<and> x \<le> 2 * maze_x_dim s + 1 \<and> 0 \<le> y \<and> y \<le> 2 * maze_y_dim s) \<or>
     (0 \<le> x \<and> x \<le> 2 * maze_x_dim s \<and> - 1 \<le> y \<and> y \<le> 2 * maze_y_dim s + 1)"

definition cell :: "'a maze_game_scheme \<Rightarrow> int \<Rightarrow> int \<Rightarrow> u8" where
  "cell s x y = maze s ! nat (MAZE_INDEX s x y)"

lemma near_maze_index:
  assumes "maze_arr_ok s" "near_maze s x y"
  shows "0 \<le> MAZE_INDEX s x y" "nat (MAZE_INDEX s x y) < length (maze s)"
proof -
  define W where "W = 2 * maze_x_dim s"
  have W: "2 \<le> W" "W \<le> 100" using assms(1) by (simp_all add: maze_arr_ok_def W_def)
  have Y: "1 \<le> maze_y_dim s" "maze_y_dim s \<le> 30" using assms(1) by (simp_all add: maze_arr_ok_def)
  have ix: "MAZE_INDEX s x y = x + (y + 1) * W" by (simp add: MAZE_INDEX_def W_def)
  have lo: "1 * W \<le> (y + 1) * W" if "0 \<le> y" by (rule mult_right_mono) (use that W in auto)
  have hi: "(y + 1) * W \<le> 61 * 100" if "y \<le> 60" "0 \<le> y + 1" by (rule mult_mono) (use that W in auto)
  have hi': "(y + 1) * W \<le> 62 * 100" if "y \<le> 61" "0 \<le> y + 1" by (rule mult_mono) (use that W in auto)
  have "0 \<le> x + (y + 1) * W \<and> x + (y + 1) * W \<le> 6300"
    using assms(2) unfolding near_maze_def W_def [symmetric]
  proof
    assume a: "- 1 \<le> x \<and> x \<le> W + 1 \<and> 0 \<le> y \<and> y \<le> 2 * maze_y_dim s"
    then show ?thesis using lo hi W Y by linarith
  next
    assume a: "0 \<le> x \<and> x \<le> W \<and> - 1 \<le> y \<and> y \<le> 2 * maze_y_dim s + 1"
    then have "0 \<le> (y + 1) * W" using W by simp
    then show ?thesis using a hi' W Y by linarith
  qed
  then have "0 \<le> MAZE_INDEX s x y" "MAZE_INDEX s x y < 6301" by (simp_all add: ix)
  then show "0 \<le> MAZE_INDEX s x y" "nat (MAZE_INDEX s x y) < length (maze s)"
    using assms(1) by (simp_all add: maze_arr_ok_def MAZE_SIZE_eq nat_less_iff)
qed

lemma maze_get_cell: "maze_arr_ok s \<Longrightarrow> near_maze s x y \<Longrightarrow> maze_get x y s = Some (cell s x y)"
  using near_maze_index [of s x y] by (simp add: maze_get_def arr_get_def cell_def)

definition set_space :: "int \<Rightarrow> int \<Rightarrow> u8 \<Rightarrow> 'a maze_game_scheme \<Rightarrow> 'a maze_game_scheme" where
  "set_space x y v s = s\<lparr>maze := (maze s)[nat (MAZE_INDEX s x y) := v]\<rparr>"

lemma maze_set_space: "maze_arr_ok s \<Longrightarrow> near_maze s x y \<Longrightarrow> maze_put x y v s = Some (set_space x y v s)"
  using near_maze_index [of s x y] by (simp add: maze_put_def arr_set_def set_space_def)

lemma set_space_fields [simp]:
  "maze_x_dim (set_space x y v s) = maze_x_dim s" "maze_y_dim (set_space x y v s) = maze_y_dim s"
  "n_fruits (set_space x y v s) = n_fruits s" "exit_x (set_space x y v s) = exit_x s" "exit_y (set_space x y v s) = exit_y s"
  "MAZE_INDEX (set_space x y v s) a b = MAZE_INDEX s a b" "near_maze (set_space x y v s) a b = near_maze s a b"
  "maze_arr_ok (set_space x y v s) = maze_arr_ok s" "view_ok (set_space x y v s) = view_ok s"
  "in_view (set_space x y v s) a b = in_view s a b" "pix (set_space x y v s) a b = pix s a b"
  "show_x (set_space x y v s) = show_x s" "show_y (set_space x y v s) = show_y s" "g_mask (set_space x y v s) = g_mask s"
  by (simp_all add: set_space_def MAZE_INDEX_def near_maze_def maze_arr_ok_def view_ok_def in_view_def pix_def pixel_index_def)

lemma cell_set_space:
  assumes "maze_arr_ok s" "near_maze s x y" "near_maze s a b"
  shows "cell (set_space x y v s) a b = (if MAZE_INDEX s a b = MAZE_INDEX s x y then v else cell s a b)"
  using near_maze_index [OF assms(1,2)] near_maze_index [OF assms(1,3)]
  by (simp add: cell_def) (auto simp: set_space_def nth_list_update eq_nat_nat_iff)

text \<open>The spaces of the maze proper. Two of them are the same byte only on the two borders.\<close>

definition in_maze :: "'a maze_game_scheme \<Rightarrow> int \<Rightarrow> int \<Rightarrow> bool" where
  "in_maze s x y \<longleftrightarrow> 0 \<le> x \<and> x \<le> 2 * maze_x_dim s \<and> 0 \<le> y \<and> y \<le> 2 * maze_y_dim s"

lemma in_maze_near:
  "in_maze s x y \<Longrightarrow> near_maze s x y" "in_maze s x y \<Longrightarrow> near_maze s (x - 1) y" "in_maze s x y \<Longrightarrow> near_maze s (x + 1) y"
  "in_maze s x y \<Longrightarrow> near_maze s x (y - 1)" "in_maze s x y \<Longrightarrow> near_maze s x (y + 1)"
  by (auto simp: in_maze_def near_maze_def)

lemma same_space:
  assumes "1 \<le> maze_x_dim s" "0 \<le> x" "x \<le> 2 * maze_x_dim s" "0 \<le> a" "a \<le> 2 * maze_x_dim s" "MAZE_INDEX s a b = MAZE_INDEX s x y"
  shows "(a = x \<and> b = y) \<or> (a = 0 \<and> x = 2 * maze_x_dim s \<and> b = y + 1) \<or> (a = 2 * maze_x_dim s \<and> x = 0 \<and> y = b + 1)"
proof -
  define W where "W = 2 * maze_x_dim s"
  have W: "0 < W" "0 \<le> x" "x \<le> W" "0 \<le> a" "a \<le> W" using assms(1-5) by (simp_all add: W_def)
  have e: "a + (b + 1) * W = x + (y + 1) * W" using assms(6) by (simp add: MAZE_INDEX_def W_def)
  have d: "a - x = (y - b) * W" using e by (simp add: algebra_simps)
  have "b = y \<or> b = y + 1 \<or> y = b + 1"
  proof (rule ccontr)
    assume "\<not> ?thesis"
    then consider "2 \<le> y - b" | "y - b \<le> - 2" by linarith
    then show False
    proof cases
      case 1
      then have "2 * W \<le> (y - b) * W" using W(1) by (intro mult_right_mono) auto
      then show False using d W by linarith
    next
      case 2
      then have "(y - b) * W \<le> - 2 * W" using W(1) by (intro mult_right_mono) auto
      then show False using d W by linarith
    qed
  qed
  then show ?thesis using d W unfolding W_def [symmetric] by auto
qed

subsection \<open>The block of a space\<close>

abbreviation has :: "u8 \<Rightarrow> 'a maze_game_scheme \<Rightarrow> int \<Rightarrow> int \<Rightarrow> bool" where
  "has b s x y \<equiv> cell s x y AND b \<noteq> 0"

definition block_no :: "'a maze_game_scheme \<Rightarrow> int \<Rightarrow> int \<Rightarrow> nat" where
  "block_no s x y =
     (if n_fruits s = 0 \<and> has MAZE_EXIT s x y then BLOCK_EXIT
      else if \<not> has MAZE_REACH s x y then (if fruit_number (cell s x y) \<noteq> 0 then BLOCK_FRUIT_SHADOW else BLOCK_SHADOW)
      else if fruit_number (cell s x y) \<noteq> 0 then BLOCK_FRUIT_1 + fruit_number (cell s x y) - 1
      else if \<not> has MAZE_WALL s x y then BLOCK_EMPTY
      else of_bool (has MAZE_WALL s x (y - 1)) + 2 * of_bool (has MAZE_WALL s (x + 1) y)
             + 4 * of_bool (has MAZE_WALL s x (y + 1)) + 8 * of_bool (has MAZE_WALL s (x - 1) y))"

lemma find_block_eq: "maze_arr_ok s \<Longrightarrow> in_maze s x y \<Longrightarrow> find_block x y s = Some (block_no s x y)"
  by (simp add: find_block_def block_no_def maze_get_cell in_maze_near Let_def)

text \<open>The picture of the maze, pixel by pixel.\<close>

definition maze_pic :: "block_images \<Rightarrow> 'a maze_game_scheme \<Rightarrow> int \<Rightarrow> int \<Rightarrow> u8" where
  "maze_pic blocks s x y = blocks (block_no s (x div 12) (y div 12)) ! nat (12 * (y mod 12) + x mod 12)"

definition pixel_in_maze :: "'a maze_game_scheme \<Rightarrow> int \<Rightarrow> int \<Rightarrow> bool" where
  "pixel_in_maze s x y \<longleftrightarrow> 0 \<le> x \<and> x < 12 * (2 * maze_x_dim s + 1) \<and> 0 \<le> y \<and> y < 12 * (2 * maze_y_dim s + 1)"

lemma pixel_space: "pixel_in_maze s x y \<Longrightarrow> in_maze s (x div 12) (y div 12)"
  by (auto simp: pixel_in_maze_def in_maze_def)

subsection \<open>Lines of the picture\<close>

lemma copy_right_eq:
  assumes "sx \<le> 12" "p + (12 - sx) \<le> length img"
  shows "copy_right img (int p) (int sx) k = Some (map (\<lambda>i. img ! (p + i)) [0..<min k (12 - sx)], k - min k (12 - sx))"
  using assms
proof (induction k arbitrary: p sx)
  case (Suc k)
  show ?case
  proof (cases "sx < 12")
    case True
    have "copy_right img (int (Suc p)) (int (Suc sx)) k =
        Some (map (\<lambda>i. img ! (Suc p + i)) [0..<min k (12 - Suc sx)], k - min k (12 - Suc sx))"
      by (rule Suc.IH) (use Suc.prems True in auto)
    moreover have "min (Suc k) (12 - sx) = Suc (min k (12 - Suc sx))" using True by (simp add: Suc_diff_Suc)
    ultimately show ?thesis using True Suc.prems by (simp add: add.commute upt_conv_Cons map_Suc_upt [symmetric] comp_def del: upt_Suc)
  qed (use Suc.prems in auto)
qed auto

lemma copy_down_block_eq:
  assumes "sy \<le> 12" "p + 12 * (12 - sy) \<le> length img + 11" "p < length img \<or> sy = 12"
  shows "copy_down_block img (int p) (int sy) k = Some (map (\<lambda>i. img ! (p + 12 * i)) [0..<min k (12 - sy)], k - min k (12 - sy))"
  using assms
proof (induction k arbitrary: p sy)
  case (Suc k)
  show ?case
  proof (cases "sy < 12")
    case True
    have "copy_down_block img (int (p + 12)) (int (Suc sy)) k =
        Some (map (\<lambda>i. img ! (p + 12 + 12 * i)) [0..<min k (12 - Suc sy)], k - min k (12 - Suc sy))"
      by (rule Suc.IH) (use Suc.prems True in auto)
    moreover have "min (Suc k) (12 - sy) = Suc (min k (12 - Suc sy))" using True by (simp add: Suc_diff_Suc)
    ultimately show ?thesis using True Suc.prems
      by (simp add: ac_simps upt_conv_Cons map_Suc_upt [symmetric] comp_def del: upt_Suc)
  qed (use Suc.prems in auto)
qed auto

lemma block_pixel:
  assumes "0 \<le> sx" "sx < 12" "0 \<le> sy" "sy < 12"
  shows "maze_pic blocks s (12 * mx + sx) (12 * my + sy) = blocks (block_no s mx my) ! nat (12 * sy + sx)"
  using assms by (simp add: maze_pic_def)

lemma map_upt_split: "n \<le> k \<Longrightarrow> map f [0..<n] @ map (\<lambda>i. f (n + i)) [0..<k - n] = map f [0..<k]"
  by (rule nth_equalityI) (auto simp: nth_append)

text \<open>A line that is put together block by block: \<open>F b c k\<close> gives \<open>k\<close> pixels from pixel \<open>c\<close> of block \<open>b\<close>
  on, \<open>h\<close> is the pixel at a coordinate.\<close>

lemma line_of_blocks:
  assumes step: "\<And>b c k. 0 < k \<Longrightarrow> c < 12 \<Longrightarrow> valid b \<Longrightarrow> F b c k =
      map_option ((@) (map (\<lambda>i. h (12 * b + int (c + i))) [0..<min k (12 - c)])) (F (b + 1) 0 (k - min k (12 - c)))"
    and base: "\<And>b c. F b c 0 = Some []"
  shows "c < 12 \<Longrightarrow> \<forall>i<k. valid ((12 * b + int c + int i) div 12) \<Longrightarrow>
    F b c k = Some (map (\<lambda>i. h (12 * b + int c + int i)) [0..<k])"
proof (induction k arbitrary: b c rule: less_induct)
  case (less k)
  show ?case
  proof (cases "k = 0")
    case False
    define n where "n = min k (12 - c)"
    let ?pic = "\<lambda>i. h (12 * b + int c + int i)"
    have n: "0 < n" "n \<le> k" "n \<le> 12 - c" using less.prems(1) False by (auto simp: n_def)
    have "valid ((12 * b + int c + int 0) div 12)" using less.prems(2) False by blast
    then have m: "valid b" using less.prems(1) by simp
    have shift: "12 * (b + 1) + int 0 + int i = 12 * b + int c + int (n + i)" if "i < k - n" for i
      using that less.prems(1) by (auto simp: n_def min_def split: if_splits)
    have "\<forall>i<k - n. valid ((12 * (b + 1) + int 0 + int i) div 12)"
      using less.prems(2) shift by (metis add.commute less_diff_conv)
    then have "F (b + 1) 0 (k - n) = Some (map (\<lambda>i. h (12 * (b + 1) + int 0 + int i)) [0..<k - n])"
      using less.IH [of "k - n" 0 "b + 1"] n False by simp
    also have "map (\<lambda>i. h (12 * (b + 1) + int 0 + int i)) [0..<k - n] = map (\<lambda>i. ?pic (n + i)) [0..<k - n]"
      by (rule map_cong [OF refl]) (simp only: set_upt atLeastLessThan_iff shift)
    finally have r: "F (b + 1) 0 (k - n) = Some (map (\<lambda>i. ?pic (n + i)) [0..<k - n])" .
    have "F b c k = Some (map ?pic [0..<n] @ map (\<lambda>i. ?pic (n + i)) [0..<k - n])"
      using step [of k c b] False less.prems(1) m r by (simp add: n_def add.assoc)
    also have "map ?pic [0..<n] @ map (\<lambda>i. ?pic (n + i)) [0..<k - n] = map ?pic [0..<k]"
      by (rule map_upt_split [OF n(2)])
    finally show ?thesis .
  qed (simp add: base)
qed

lemma fill_horiz_eq:
  assumes ok: "maze_arr_ok s" and len: "\<And>b. length (blocks b) = 144" and sy: "sy < 12" and sx: "sx < 12"
    and inside: "\<forall>i<k. in_maze s ((12 * mx + int sx + int i) div 12) my"
  shows "fill_horiz blocks mx my (int sx) (int sy) k s =
    Some (map (\<lambda>i. maze_pic blocks s (12 * mx + int sx + int i) (12 * my + int sy)) [0..<k])"
proof (rule line_of_blocks [of "\<lambda>b. in_maze s b my" "\<lambda>b c k. fill_horiz blocks b my (int c) (int sy) k s"
      "\<lambda>x. maze_pic blocks s x (12 * my + int sy)", OF _ _ sx inside])
  fix b :: int and c k :: nat
  assume k: "0 < k" "c < 12" "in_maze s b my"
  let ?n = "min k (12 - c)" and ?bl = "blocks (block_no s b my)"
  have "12 * sy + c + (12 - c) \<le> length ?bl" using len k(2) sy by simp
  then have "copy_right ?bl (int sy * 12 + int c) (int c) k = Some (map (\<lambda>i. ?bl ! (12 * sy + c + i)) [0..<?n], k - ?n)"
    using copy_right_eq [of c "12 * sy + c" ?bl k] k(2) by (simp add: ac_simps)
  also have "map (\<lambda>i. ?bl ! (12 * sy + c + i)) [0..<?n] = map (\<lambda>i. maze_pic blocks s (12 * b + int (c + i)) (12 * my + int sy)) [0..<?n]"
  proof (rule map_cong [OF refl])
    fix i assume "i \<in> set [0..<?n]"
    then have "maze_pic blocks s (12 * b + int (c + i)) (12 * my + int sy) = ?bl ! nat (12 * int sy + int (c + i))"
      by (intro block_pixel) (use sy in auto)
    then show "?bl ! (12 * sy + c + i) = maze_pic blocks s (12 * b + int (c + i)) (12 * my + int sy)"
      by (simp add: nat_plus_as_int ac_simps)
  qed
  finally show "fill_horiz blocks b my (int c) (int sy) k s =
      map_option ((@) (map (\<lambda>i. maze_pic blocks s (12 * b + int (c + i)) (12 * my + int sy)) [0..<?n]))
        (fill_horiz blocks (b + 1) my (int 0) (int sy) (k - ?n) s)"
    using k by (subst fill_horiz.simps) (auto simp: find_block_eq [OF ok k(3)] map_option_bind comp_def split: bind_splits)
qed (simp add: fill_horiz.simps)

lemma fill_vert_eq:
  assumes ok: "maze_arr_ok s" and len: "\<And>b. length (blocks b) = 144" and sx: "sx < 12" and sy: "sy < 12"
    and inside: "\<forall>i<k. in_maze s mx ((12 * my + int sy + int i) div 12)"
  shows "fill_vert blocks mx my (int sx) (int sy) k s =
    Some (map (\<lambda>i. maze_pic blocks s (12 * mx + int sx) (12 * my + int sy + int i)) [0..<k])"
proof (rule line_of_blocks [of "\<lambda>b. in_maze s mx b" "\<lambda>b c k. fill_vert blocks mx b (int sx) (int c) k s"
      "\<lambda>y. maze_pic blocks s (12 * mx + int sx) y", OF _ _ sy inside])
  fix b :: int and c k :: nat
  assume k: "0 < k" "c < 12" "in_maze s mx b"
  let ?n = "min k (12 - c)" and ?bl = "blocks (block_no s mx b)"
  have "12 * c + sx + 12 * (12 - c) \<le> length ?bl + 11" "12 * c + sx < length ?bl" using len k(2) sx by simp_all
  then have "copy_down_block ?bl (int c * 12 + int sx) (int c) k = Some (map (\<lambda>i. ?bl ! (12 * c + sx + 12 * i)) [0..<?n], k - ?n)"
    using copy_down_block_eq [of c "12 * c + sx" ?bl k] k(2) by (simp add: ac_simps)
  also have "map (\<lambda>i. ?bl ! (12 * c + sx + 12 * i)) [0..<?n] = map (\<lambda>i. maze_pic blocks s (12 * mx + int sx) (12 * b + int (c + i))) [0..<?n]"
  proof (rule map_cong [OF refl])
    fix i assume "i \<in> set [0..<?n]"
    then have "maze_pic blocks s (12 * mx + int sx) (12 * b + int (c + i)) = ?bl ! nat (12 * int (c + i) + int sx)"
      by (intro block_pixel) (use sx in auto)
    then show "?bl ! (12 * c + sx + 12 * i) = maze_pic blocks s (12 * mx + int sx) (12 * b + int (c + i))"
      by (simp add: nat_plus_as_int algebra_simps)
  qed
  finally show "fill_vert blocks mx b (int sx) (int c) k s =
      map_option ((@) (map (\<lambda>i. maze_pic blocks s (12 * mx + int sx) (12 * b + int (c + i))) [0..<?n]))
        (fill_vert blocks mx (b + 1) (int sx) (int 0) (k - ?n) s)"
    using k by (subst fill_vert.simps) (auto simp: find_block_eq [OF ok k(3)] map_option_bind comp_def split: bind_splits)
qed (simp add: fill_vert.simps)

text \<open>The two fill functions are the picture, read pixel by pixel.\<close>

definition horiz_pixels :: "block_images \<Rightarrow> 'a maze_game_scheme \<Rightarrow> int \<Rightarrow> int \<Rightarrow> u8 list" where
  "horiz_pixels blocks s x y = map (\<lambda>i. maze_pic blocks s (x + int i) y) [0..<320]"

definition vert_pixels :: "block_images \<Rightarrow> 'a maze_game_scheme \<Rightarrow> int \<Rightarrow> int \<Rightarrow> u8 list" where
  "vert_pixels blocks s x y = map (\<lambda>i. maze_pic blocks s x (y + int i)) [0..<182]"

lemma fill_horiz_buffer_pixels:
  assumes "maze_arr_ok s" "\<And>b. length (blocks b) = 144" "pixel_in_maze s x y" "pixel_in_maze s (x + 319) y"
  shows "fill_horiz_buffer blocks s x y = Some (horiz_pixels blocks s x y)"
proof -
  have x: "x = 12 * (x div 12) + int (nat (x mod 12))" "y = 12 * (y div 12) + int (nat (y mod 12))" by simp_all
  have d: "x sdiv 12 = x div 12" "y sdiv 12 = y div 12" using assms(3) by (simp_all add: pixel_in_maze_def sdiv_nonneg)
  have m: "x - x div 12 * 12 = int (nat (x mod 12))" "y - y div 12 * 12 = int (nat (y mod 12))"
    by (simp_all add: minus_div_mult_eq_mod)
  have "\<forall>i<320. in_maze s ((12 * (x div 12) + int (nat (x mod 12)) + int i) div 12) (y div 12)"
    unfolding x(1) [symmetric] using assms(3,4) by (auto intro!: pixel_space simp: pixel_in_maze_def)
  from fill_horiz_eq [OF assms(1,2) _ _ this, of "nat (y mod 12)"]
  have "fill_horiz blocks (x div 12) (y div 12) (int (nat (x mod 12))) (int (nat (y mod 12))) 320 s =
    Some (horiz_pixels blocks s x y)" unfolding x(1) [symmetric] x(2) [symmetric] horiz_pixels_def by simp
  then show ?thesis by (simp only: fill_horiz_buffer_def Let_def d m) simp
qed

lemma fill_vert_buffer_pixels:
  assumes "maze_arr_ok s" "\<And>b. length (blocks b) = 144" "pixel_in_maze s x y" "pixel_in_maze s x (y + 181)"
  shows "fill_vert_buffer blocks s x y = Some (vert_pixels blocks s x y)"
proof -
  have x: "x = 12 * (x div 12) + int (nat (x mod 12))" "y = 12 * (y div 12) + int (nat (y mod 12))" by simp_all
  have d: "x sdiv 12 = x div 12" "y sdiv 12 = y div 12" using assms(3) by (simp_all add: pixel_in_maze_def sdiv_nonneg)
  have m: "x - x div 12 * 12 = int (nat (x mod 12))" "y - y div 12 * 12 = int (nat (y mod 12))"
    by (simp_all add: minus_div_mult_eq_mod)
  have "\<forall>i<182. in_maze s (x div 12) ((12 * (y div 12) + int (nat (y mod 12)) + int i) div 12)"
    unfolding x(2) [symmetric] using assms(3,4) by (auto intro!: pixel_space simp: pixel_in_maze_def)
  from fill_vert_eq [OF assms(1,2) _ _ this, of "nat (x mod 12)"]
  have "fill_vert blocks (x div 12) (y div 12) (int (nat (x mod 12))) (int (nat (y mod 12))) 182 s =
    Some (vert_pixels blocks s x y)" unfolding x(1) [symmetric] x(2) [symmetric] vert_pixels_def by simp
  then show ?thesis by (simp only: fill_vert_buffer_def Let_def d m) simp
qed

end
