(* ===== verification/MazeView.thy ===== *)
theory MazeView
  imports MazeProps
begin

text \<open>
  The window shows the maze, and the operations that change the maze keep it so: they redraw the
  spaces whose block they change.
\<close>

subsection \<open>What the window shows\<close>

text \<open>All spaces in the window but those in \<open>D\<close> are drawn as they are.\<close>

definition shows_but :: "(int \<times> int) set \<Rightarrow> block_images \<Rightarrow> 'a maze_game_scheme \<Rightarrow> bool" where
  "shows_but D blocks s \<longleftrightarrow>
     (\<forall>x y. in_view s x y \<and> (x div 12, y div 12) \<notin> D \<longrightarrow> pix s x y = maze_pic blocks s x y)"

abbreviation maze_shown :: "block_images \<Rightarrow> 'a maze_game_scheme \<Rightarrow> bool" where
  "maze_shown \<equiv> shows_but {}"

definition visible :: "'a maze_game_scheme \<Rightarrow> int \<Rightarrow> int \<Rightarrow> bool" where
  "visible s a b \<longleftrightarrow> (\<exists>x y. in_view s x y \<and> x div 12 = a \<and> y div 12 = b)"

text \<open>Every block has 12 by 12 pixels.\<close>

definition blocks_ok :: "block_images \<Rightarrow> bool" where
  "blocks_ok blocks \<longleftrightarrow> (\<forall>b. length (blocks b) = 144)"

text \<open>The window lies in the picture of the maze.\<close>

definition window_ok :: "'a maze_game_scheme \<Rightarrow> bool" where
  "window_ok s \<longleftrightarrow> maze_arr_ok s \<and> view_ok s \<and> 0 \<le> show_x s \<and> show_x s + 320 \<le> 12 * (2 * maze_x_dim s + 1) \<and>
     0 \<le> show_y s \<and> show_y s + 182 \<le> 12 * (2 * maze_y_dim s + 1)"

lemma window_pixel: "window_ok s \<Longrightarrow> in_view s x y \<Longrightarrow> pixel_in_maze s x y"
  by (auto simp: window_ok_def in_view_def pixel_in_maze_def)

lemma visible_in_maze: "window_ok s \<Longrightarrow> visible s a b \<Longrightarrow> in_maze s a b"
  using pixel_space window_pixel by (fastforce simp: visible_def)

lemma drawn_maze:
  assumes "drawn s t"
  shows "maze t = maze s" "maze_x_dim t = maze_x_dim s" "maze_y_dim t = maze_y_dim s" "n_fruits t = n_fruits s"
    "exit_x t = exit_x s" "exit_y t = exit_y s" "global_fnum t = global_fnum s" "random_values t = random_values s"
    "random_calls t = random_calls s" "cell t x y = cell s x y" "block_no t x y = block_no s x y"
    "maze_pic blocks t x y = maze_pic blocks s x y" "window_ok t = window_ok s" "visible t x y = visible s x y"
    "in_maze t x y = in_maze s x y" "maze_arr_ok t = maze_arr_ok s" "near_maze t x y = near_maze s x y"
proof -
  obtain b where t: "t = s\<lparr>build := b\<rparr>" using assms unfolding drawn_def by blast
  show f: "maze t = maze s" "maze_x_dim t = maze_x_dim s" "maze_y_dim t = maze_y_dim s" "n_fruits t = n_fruits s"
    "exit_x t = exit_x s" "exit_y t = exit_y s" "global_fnum t = global_fnum s" "random_values t = random_values s"
    "random_calls t = random_calls s" by (simp_all add: t)
  show c: "cell t x y = cell s x y" for x y by (simp add: cell_def MAZE_INDEX_def f)
  show b: "block_no t x y = block_no s x y" for x y by (simp add: block_no_def c f)
  show "maze_pic blocks t x y = maze_pic blocks s x y" by (simp add: maze_pic_def b)
  show a: "maze_arr_ok t = maze_arr_ok s" by (simp add: maze_arr_ok_def f)
  show "window_ok t = window_ok s" using drawn_fields [OF assms] by (simp add: window_ok_def a f)
  show "visible t x y = visible s x y" using drawn_fields [OF assms] by (simp add: visible_def)
  show "in_maze t x y = in_maze s x y" "near_maze t x y = near_maze s x y" by (simp_all add: in_maze_def near_maze_def f)
qed

lemma draw_space_shows:
  assumes "window_ok s" "shows_but D blocks s" "in_maze s x y" "blocks_ok blocks"
  shows "\<exists>t. draw_space blocks x y s = Some t \<and> drawn s t \<and> shows_but (D - {(x, y)}) blocks t"
proof -
  have ok: "maze_arr_ok s" "view_ok s" using assms(1) by (simp_all add: window_ok_def)
  obtain t where t: "draw_full_block (x * 12) (y * 12) (blocks (block_no s x y)) s = Some t" "drawn s t"
    "\<forall>a b. in_view s a b \<longrightarrow> pix t a b = (if x * 12 \<le> a \<and> a < x * 12 + 12 \<and> y * 12 \<le> b \<and> b < y * 12 + 12
         then blocks (block_no s x y) ! nat (12 * (b - y * 12) + (a - x * 12)) else pix s a b)"
    using draw_full_block_pix [OF ok(2), of "blocks (block_no s x y)"] assms(4) unfolding blocks_ok_def by blast
  have "pix t a b = maze_pic blocks t a b" if v: "in_view t a b" and n: "(a div 12, b div 12) \<notin> D - {(x, y)}" for a b
  proof -
    have v': "in_view s a b" using v drawn_fields(7) [OF t(2)] by simp
    have i: "(x * 12 \<le> a \<and> a < x * 12 + 12 \<and> y * 12 \<le> b \<and> b < y * 12 + 12) = (a div 12 = x \<and> b div 12 = y)" by auto
    have p: "pix t a b = (if a div 12 = x \<and> b div 12 = y
        then blocks (block_no s x y) ! nat (12 * (b - y * 12) + (a - x * 12)) else pix s a b)"
      using t(3) [rule_format, OF v'] by (simp only: i)
    show ?thesis
    proof (cases "a div 12 = x \<and> b div 12 = y")
      case True
      then have "b - y * 12 = b mod 12" "a - x * 12 = a mod 12" by (auto simp: minus_div_mult_eq_mod)
      then show ?thesis using p True by (simp add: drawn_maze(11) [OF t(2)] maze_pic_def)
    next
      case False
      then have "(a div 12, b div 12) \<notin> D" using n by auto
      then show ?thesis using p False v' assms(2) by (auto simp: drawn_maze(12) [OF t(2)] shows_but_def)
    qed
  qed
  then have "shows_but (D - {(x, y)}) blocks t" by (simp add: shows_but_def)
  then show ?thesis using t(1,2) by (simp add: draw_space_def find_block_eq [OF ok(1) assms(3)])
qed

lemma draw_space_removes:
  assumes "window_ok s" "shows_but (insert (x, y) D) blocks s" "in_maze s x y" "blocks_ok blocks"
  obtains t where "draw_space blocks x y s = Some t" "drawn s t" "shows_but D blocks t"
proof -
  obtain t where "draw_space blocks x y s = Some t" "drawn s t" "shows_but (insert (x, y) D - {(x, y)}) blocks t"
    using draw_space_shows [OF assms] by blast
  then show ?thesis using that by (auto simp: shows_but_def)
qed

text \<open>Changing the maze: the spaces that get another block are no longer drawn as they are.\<close>

lemma shows_but_change:
  assumes "shows_but D blocks s" "\<And>x y. in_view t x y = in_view s x y" "\<And>x y. pix t x y = pix s x y"
    and "\<And>a b. visible s a b \<Longrightarrow> (a, b) \<notin> D' \<Longrightarrow> (a, b) \<notin> D \<and> block_no t a b = block_no s a b"
  shows "shows_but D' blocks t"
  unfolding shows_but_def
proof (intro allI impI, elim conjE)
  fix x y assume v: "in_view t x y" and n: "(x div 12, y div 12) \<notin> D'"
  have "visible s (x div 12) (y div 12)" using v assms(2) by (auto simp: visible_def)
  then show "pix t x y = maze_pic blocks t x y"
    using assms(4) [of "x div 12" "y div 12"] n v assms(1,2,3) by (auto simp: shows_but_def maze_pic_def)
qed

lemma block_no_cong:
  assumes "cell t a b = cell s a b" "has MAZE_EXIT s a b \<Longrightarrow> n_fruits s = 0 \<longleftrightarrow> n_fruits t = 0"
    and "\<And>x y. (x, y) \<in> {(a, b - 1), (a + 1, b), (a, b + 1), (a - 1, b)} \<Longrightarrow> has MAZE_WALL t x y = has MAZE_WALL s x y"
  shows "block_no t a b = block_no s a b"
  using assms by (cases "has MAZE_EXIT s a b") (simp_all add: block_no_def)

text \<open>Setting a space to a value with the same wall bit changes the block of that space only.\<close>

lemma set_space_wall:
  assumes "maze_arr_ok s" "near_maze s x y" "near_maze s a b" "v AND MAZE_WALL = cell s x y AND MAZE_WALL"
  shows "has MAZE_WALL (set_space x y v s) a b = has MAZE_WALL s a b"
  using assms near_maze_index(1) [OF assms(1,2)] near_maze_index(1) [OF assms(1,3)]
  by (simp add: cell_set_space) (simp add: cell_def)

lemma set_space_block_no:
  assumes "maze_arr_ok s" "in_maze s x y" "in_maze s a b" "v AND MAZE_WALL = cell s x y AND MAZE_WALL"
    and "MAZE_INDEX s a b \<noteq> MAZE_INDEX s x y"
  shows "block_no (set_space x y v s) a b = block_no s a b"
proof (rule block_no_cong)
  show "cell (set_space x y v s) a b = cell s a b" using assms by (simp add: cell_set_space in_maze_near)
  show "n_fruits s = 0 \<longleftrightarrow> n_fruits (set_space x y v s) = 0" by simp
  show "has MAZE_WALL (set_space x y v s) p q = has MAZE_WALL s p q"
    if "(p, q) \<in> {(a, b - 1), (a + 1, b), (a, b + 1), (a - 1, b)}" for p q
  proof (rule set_space_wall [OF assms(1) _ _ assms(4)])
    show "near_maze s p q" using that in_maze_near [OF assms(3)] by auto
  qed (use assms(2) in_maze_near in blast)
qed

subsection \<open>Unveiling\<close>

text \<open>The left and right border are the same spaces; the code redraws one of them only.\<close>

definition border_unseen :: "'a maze_game_scheme \<Rightarrow> int \<Rightarrow> bool" where
  "border_unseen s x \<longleftrightarrow> (x = 0 \<longrightarrow> show_x s + 320 \<le> 24 * maze_x_dim s) \<and> (x = 2 * maze_x_dim s \<longrightarrow> 12 \<le> show_x s)"

lemma visible_columns:
  assumes "visible s a b"
  shows "show_x s < 12 * a + 12" "12 * a < show_x s + 320" "show_y s < 12 * b + 12" "12 * b < show_y s + 182"
proof -
  obtain x y where v: "in_view s x y" "x div 12 = a" "y div 12 = b" using assms unfolding visible_def by blast
  have "12 * a \<le> x" "x < 12 * a + 12" "12 * b \<le> y" "y < 12 * b + 12" using v(2,3) by auto
  then show "show_x s < 12 * a + 12" "12 * a < show_x s + 320" "show_y s < 12 * b + 12" "12 * b < show_y s + 182"
    using v(1) by (auto simp: in_view_def)
qed

lemma same_space_visible:
  assumes "window_ok s" "in_maze s x y" "visible s a b" "border_unseen s x" "MAZE_INDEX s a b = MAZE_INDEX s x y"
  shows "a = x \<and> b = y"
proof -
  have m: "in_maze s a b" by (rule visible_in_maze [OF assms(1,3)])
  have "1 \<le> maze_x_dim s" using assms(1) by (simp add: window_ok_def maze_arr_ok_def)
  then have "(a = x \<and> b = y) \<or> (a = 0 \<and> x = 2 * maze_x_dim s \<and> b = y + 1) \<or> (a = 2 * maze_x_dim s \<and> x = 0 \<and> y = b + 1)"
    using same_space [of s x a b y] m assms(2,5) by (simp add: in_maze_def)
  then show ?thesis using visible_columns [OF assms(3)] assms(4) by (auto simp: border_unseen_def)
qed

lemma set_space_shows:
  assumes "window_ok s" "shows_but D blocks s" "in_maze s x y" "border_unseen s x" "v AND MAZE_WALL = cell s x y AND MAZE_WALL"
  shows "shows_but (insert (x, y) D) blocks (set_space x y v s)"
proof (rule shows_but_change [OF assms(2)])
  fix a b assume v: "visible s a b" and n: "(a, b) \<notin> insert (x, y) D"
  have "MAZE_INDEX s a b \<noteq> MAZE_INDEX s x y" using same_space_visible [OF assms(1,3) v assms(4)] n by auto
  then show "(a, b) \<notin> D \<and> block_no (set_space x y v s) a b = block_no s a b"
    using set_space_block_no [OF _ assms(3) visible_in_maze [OF assms(1) v] assms(5)] assms(1) n by (simp add: window_ok_def)
qed simp_all

lemma set_space_window [simp]: "window_ok (set_space x y v s) = window_ok s"
  by (simp add: window_ok_def)

lemma shows_but_mono: "shows_but D blocks s \<Longrightarrow> D \<subseteq> D' \<Longrightarrow> shows_but D' blocks s"
  by (auto simp: shows_but_def)

lemma unveil_space_shows:
  assumes "window_ok s" "maze_shown blocks s" "border_unseen s x" "blocks_ok blocks"
  shows "\<exists>t. unveil_space blocks x y s = Some t \<and> maze_shown blocks t \<and> (\<exists>u. drawn u t \<and>
    u = (if in_maze s x y \<and> \<not> has MAZE_REACH s x y then set_space x y (cell s x y OR MAZE_REACH) s else s))"
proof (cases "in_maze s x y \<and> \<not> has MAZE_REACH s x y")
  case True
  then have m: "in_maze s x y" "\<not> has MAZE_REACH s x y" by simp_all
  have ok: "maze_arr_ok s" using assms(1) by (simp add: window_ok_def)
  let ?u = "set_space x y (cell s x y OR MAZE_REACH) s"
  have "shows_but {(x, y)} blocks ?u"
    by (rule set_space_shows [OF assms(1,2) m(1) assms(3)]) (simp add: bit.conj_disj_distrib2)
  then obtain t where t: "draw_space blocks x y ?u = Some t" "drawn ?u t" "maze_shown blocks t"
    using draw_space_shows [of ?u "{(x, y)}" blocks x y] assms(1,4) m(1) by (auto simp: in_maze_def)
  have "unveil_space blocks x y s = Some t"
    using m t(1) by (auto simp: unveil_space_def maze_get_cell [OF ok] maze_set_space [OF ok] in_maze_near in_maze_def [of s x y])
  then show ?thesis using t True by auto
next
  case False
  have "unveil_space blocks x y s = Some s"
  proof (cases "in_maze s x y")
    case True
    then have "maze_get x y s = Some (cell s x y)" using assms(1) by (simp add: maze_get_cell in_maze_near window_ok_def)
    then show ?thesis using False True by (auto simp: unveil_space_def)
  qed (auto simp: unveil_space_def in_maze_def)
  then show ?thesis using False assms(2) by (intro exI [of _ s]) auto
qed

subsection \<open>Fruits and the exit\<close>

definition fruit_spaces :: "'a maze_game_scheme \<Rightarrow> (int \<times> int) set" where
  "fruit_spaces s = {(a, b). in_maze s a b \<and> fruit_number (cell s a b) \<noteq> 0}"

text \<open>\<open>n_fruits\<close> counts the fruits, and there are none on the border.\<close>

definition fruits_ok :: "'a maze_game_scheme \<Rightarrow> bool" where
  "fruits_ok s \<longleftrightarrow> n_fruits s = int (card (fruit_spaces s)) \<and>
     (\<forall>(a, b) \<in> fruit_spaces s. 0 < a \<and> a < 2 * maze_x_dim s \<and> 0 < b \<and> b < 2 * maze_y_dim s)"

definition exit_ok :: "'a maze_game_scheme \<Rightarrow> bool" where
  "exit_ok s \<longleftrightarrow> (\<forall>a b. in_maze s a b \<and> has MAZE_EXIT s a b \<longrightarrow> a = exit_x s \<and> b = exit_y s) \<and>
     0 < exit_x s \<and> exit_x s < 2 * maze_x_dim s \<and> 0 < exit_y s \<and> exit_y s < 2 * maze_y_dim s"

text \<open>The state of a level: the window shows the maze, fruits and exit are as recorded.\<close>

definition level_ok :: "block_images \<Rightarrow> 'a maze_game_scheme \<Rightarrow> bool" where
  "level_ok blocks s \<longleftrightarrow> window_ok s \<and> maze_shown blocks s \<and> fruits_ok s \<and> exit_ok s"

text \<open>What the operations of a level may change.\<close>

definition maze_kept :: "'a maze_game_scheme \<Rightarrow> 'a maze_game_scheme \<Rightarrow> bool" where
  "maze_kept s t \<longleftrightarrow> t = s\<lparr>build := build t, maze := maze t, n_fruits := n_fruits t, global_fnum := global_fnum t, random_calls := random_calls t\<rparr> \<and>
     (\<forall>a b. near_maze s a b \<longrightarrow> cell t a b AND MAZE_WALL = cell s a b AND MAZE_WALL \<and> cell t a b AND MAZE_EXIT = cell s a b AND MAZE_EXIT)"

lemma maze_keptD:
  assumes "maze_kept s t"
  shows "maze_x_dim t = maze_x_dim s" "maze_y_dim t = maze_y_dim s" "exit_x t = exit_x s" "exit_y t = exit_y s"
    "show_x t = show_x s" "show_y t = show_y s" "g_mask t = g_mask s" "maze_game.more t = maze_game.more s"
    "near_maze s a b \<Longrightarrow> has MAZE_WALL t a b = has MAZE_WALL s a b" "near_maze t a b = near_maze s a b" "in_maze t a b = in_maze s a b"
    "img3 t = img3 s" "img3_off t = img3_off s" "target_img t = target_img s" "random_values t = random_values s"
    "near_maze s a b \<Longrightarrow> has MAZE_EXIT t a b = has MAZE_EXIT s a b"
proof -
  obtain w m n g c where t: "t = s\<lparr>build := w, maze := m, n_fruits := n, global_fnum := g, random_calls := c\<rparr>" using assms unfolding maze_kept_def by blast
  show "maze_x_dim t = maze_x_dim s" "maze_y_dim t = maze_y_dim s" "exit_x t = exit_x s" "exit_y t = exit_y s"
    "show_x t = show_x s" "show_y t = show_y s" "g_mask t = g_mask s" "maze_game.more t = maze_game.more s"
    "img3 t = img3 s" "img3_off t = img3_off s" "target_img t = target_img s" "random_values t = random_values s" by (simp_all add: t)
  show "near_maze s a b \<Longrightarrow> has MAZE_WALL t a b = has MAZE_WALL s a b" "near_maze s a b \<Longrightarrow> has MAZE_EXIT t a b = has MAZE_EXIT s a b"
    using assms by (simp_all add: maze_kept_def)
  show "near_maze t a b = near_maze s a b" "in_maze t a b = in_maze s a b" by (simp_all add: near_maze_def in_maze_def t)
qed

lemma maze_kept_refl [simp]: "maze_kept s s"
  by (simp add: maze_kept_def)

lemma maze_kept_trans:
  assumes "maze_kept s t" "maze_kept t u" shows "maze_kept s u"
proof -
  obtain w m n g c where t: "t = s\<lparr>build := w, maze := m, n_fruits := n, global_fnum := g, random_calls := c\<rparr>" using assms(1) unfolding maze_kept_def by blast
  have "u = s\<lparr>build := build u, maze := maze u, n_fruits := n_fruits u, global_fnum := global_fnum u, random_calls := random_calls u\<rparr>"
    using assms(2) unfolding maze_kept_def by (simp add: t)
  then show ?thesis using assms maze_keptD(10) [OF assms(1)] unfolding maze_kept_def by simp
qed

lemma maze_kept_drawn:
  assumes "drawn s t" shows "maze_kept s t"
proof -
  obtain b where t: "t = s\<lparr>build := b\<rparr>" using assms unfolding drawn_def by blast
  show ?thesis using drawn_maze(10) [OF assms] by (simp add: maze_kept_def) (simp add: t)
qed

lemma maze_kept_set_space:
  assumes "maze_arr_ok s" "near_maze s x y" "v AND MAZE_WALL = cell s x y AND MAZE_WALL" "v AND MAZE_EXIT = cell s x y AND MAZE_EXIT"
  shows "maze_kept s (set_space x y v s)"
proof -
  have "cell (set_space x y v s) a b AND MAZE_WALL = cell s a b AND MAZE_WALL \<and> cell (set_space x y v s) a b AND MAZE_EXIT = cell s a b AND MAZE_EXIT"
    if "near_maze s a b" for a b
    using assms that near_maze_index(1) by (simp add: cell_set_space) (simp add: cell_def)
  then show ?thesis by (simp add: maze_kept_def) (simp add: set_space_def)
qed

lemma drawn_level:
  assumes "drawn s t"
  shows "fruits_ok t = fruits_ok s" "exit_ok t = exit_ok s"
  by (simp_all add: fruits_ok_def exit_ok_def fruit_spaces_def drawn_maze [OF assms])

lemma fruit_number_0: "fruit_number v = 0 \<longleftrightarrow> v AND MAZE_FRUIT = 0"
proof -
  have "v AND MAZE_FRUIT \<noteq> 1"
  proof
    assume "v AND MAZE_FRUIT = 1"
    then have "bit (v AND MAZE_FRUIT) 0" by simp
    then show False by (simp add: bit_and_iff)
  qed
  moreover have "of_nat (unat (v AND MAZE_FRUIT)) = v AND MAZE_FRUIT" by simp
  ultimately have "unat (v AND MAZE_FRUIT) \<noteq> 1" by (metis of_nat_1)
  then have "unat (v AND MAZE_FRUIT) div 2 = 0 \<longleftrightarrow> unat (v AND MAZE_FRUIT) = 0" by linarith
  then show ?thesis by (simp add: fruit_number_def unat_eq_0)
qed

text \<open>Setting a space to a value with the same fruit and exit bits.\<close>

lemma set_space_level:
  assumes "maze_arr_ok s" "in_maze s x y"
    and "v AND MAZE_FRUIT = cell s x y AND MAZE_FRUIT" "v AND MAZE_EXIT = cell s x y AND MAZE_EXIT"
  shows "fruits_ok (set_space x y v s) = fruits_ok s" "exit_ok (set_space x y v s) = exit_ok s"
proof -
  have same: "cell s a b = cell s x y" if "MAZE_INDEX s a b = MAZE_INDEX s x y" for a b using that by (simp add: cell_def)
  have c: "cell (set_space x y v s) a b = (if MAZE_INDEX s a b = MAZE_INDEX s x y then v else cell s a b)" if "in_maze s a b" for a b
    using that assms(1,2) by (simp add: cell_set_space in_maze_near)
  have m: "in_maze (set_space x y v s) a b = in_maze s a b" for a b by (simp add: in_maze_def)
  have "fruit_number (cell (set_space x y v s) a b) = fruit_number (cell s a b)" if "in_maze s a b" for a b
    by (cases "MAZE_INDEX s a b = MAZE_INDEX s x y") (use c [OF that] same [of a b] assms(3) in \<open>simp_all add: fruit_number_def\<close>)
  then have "fruit_spaces (set_space x y v s) = fruit_spaces s" by (auto simp: fruit_spaces_def m)
  then show "fruits_ok (set_space x y v s) = fruits_ok s" by (simp add: fruits_ok_def)
  have "has MAZE_EXIT (set_space x y v s) a b = has MAZE_EXIT s a b" if "in_maze s a b" for a b
    by (cases "MAZE_INDEX s a b = MAZE_INDEX s x y") (use c [OF that] same [of a b] assms(4) in simp_all)
  then show "exit_ok (set_space x y v s) = exit_ok s" by (simp add: exit_ok_def m cong: conj_cong)
qed

lemma unveil_space_level:
  assumes "level_ok blocks s" "border_unseen s x" "blocks_ok blocks"
  shows "\<exists>t. unveil_space blocks x y s = Some t \<and> level_ok blocks t \<and> maze_kept s t \<and> n_fruits t = n_fruits s \<and>
    (\<forall>a b. in_maze s a b \<longrightarrow> (has MAZE_REACH t a b = (has MAZE_REACH s a b \<or> MAZE_INDEX s a b = MAZE_INDEX s x y \<and> in_maze s x y)))"
proof -
  let ?u = "if in_maze s x y \<and> \<not> has MAZE_REACH s x y then set_space x y (cell s x y OR MAZE_REACH) s else s"
  have ok: "maze_arr_ok s" using assms(1) by (simp add: level_ok_def window_ok_def)
  obtain t where t: "unveil_space blocks x y s = Some t" "maze_shown blocks t" "drawn ?u t"
    using unveil_space_shows [of s blocks x y] assms unfolding level_ok_def by blast
  have bits: "(v OR MAZE_REACH) AND MAZE_WALL = v AND MAZE_WALL" "(v OR MAZE_REACH) AND MAZE_FRUIT = v AND MAZE_FRUIT"
    "(v OR MAZE_REACH) AND MAZE_EXIT = v AND MAZE_EXIT" "(v OR MAZE_REACH) AND MAZE_REACH \<noteq> 0" for v :: u8
    by (simp_all add: bit.conj_disj_distrib2 bit.disj_conj_distrib2)
  have u: "window_ok ?u" "fruits_ok ?u" "exit_ok ?u" "maze_kept s ?u" "n_fruits ?u = n_fruits s"
    using assms(1) ok by (auto simp: level_ok_def set_space_level bits in_maze_near intro!: maze_kept_set_space)
  have "level_ok blocks t" using t(2) u by (simp add: level_ok_def drawn_maze [OF t(3)] drawn_level [OF t(3)])
  moreover have "maze_kept s t" using maze_kept_trans [OF u(4) maze_kept_drawn [OF t(3)]] .
  moreover have "has MAZE_REACH t a b = (has MAZE_REACH s a b \<or> MAZE_INDEX s a b = MAZE_INDEX s x y \<and> in_maze s x y)" if "in_maze s a b" for a b
  proof -
    have same: "cell s a b = cell s x y" if "MAZE_INDEX s a b = MAZE_INDEX s x y" using that by (simp add: cell_def)
    show ?thesis
      by (cases "MAZE_INDEX s a b = MAZE_INDEX s x y") (use that ok same bits(4) in \<open>auto simp: drawn_maze [OF t(3)] cell_set_space in_maze_near\<close>)
  qed
  ultimately show ?thesis using t(1) u(5) drawn_maze(4) [OF t(3)] by auto
qed

subsection \<open>Walls and open spaces\<close>

text \<open>The border is all walls.\<close>

definition border_walls :: "'a maze_game_scheme \<Rightarrow> bool" where
  "border_walls s \<longleftrightarrow> (\<forall>a b. in_maze s a b \<and> (a = 0 \<or> a = 2 * maze_x_dim s \<or> b = 0 \<or> b = 2 * maze_y_dim s) \<longrightarrow> has MAZE_WALL s a b)"

definition open_space :: "'a maze_game_scheme \<Rightarrow> int \<Rightarrow> int \<Rightarrow> bool" where
  "open_space s a b \<longleftrightarrow> 0 < a \<and> a < 2 * maze_x_dim s \<and> 0 < b \<and> b < 2 * maze_y_dim s \<and> \<not> has MAZE_WALL s a b"

end
