(* ===== verification/MazeFruits.thy ===== *)
theory MazeFruits
  imports MazeView
begin

text \<open>
  Eating and adding fruits: the count stays right, and the window goes on showing the maze, with the
  exit as soon as there is no fruit.
\<close>

subsection \<open>Fields that no picture depends on\<close>

lemma counter_fields [simp]:
  fixes s :: "'a maze_game_scheme"
  shows "cell (s\<lparr>n_fruits := n\<rparr>) x y = cell s x y" "in_maze (s\<lparr>n_fruits := n\<rparr>) x y = in_maze s x y"
    "near_maze (s\<lparr>n_fruits := n\<rparr>) x y = near_maze s x y" "visible (s\<lparr>n_fruits := n\<rparr>) x y = visible s x y"
    "in_view (s\<lparr>n_fruits := n\<rparr>) x y = in_view s x y" "pix (s\<lparr>n_fruits := n\<rparr>) x y = pix s x y"
    "window_ok (s\<lparr>n_fruits := n\<rparr>) = window_ok s" "maze_arr_ok (s\<lparr>n_fruits := n\<rparr>) = maze_arr_ok s"
    "fruit_spaces (s\<lparr>n_fruits := n\<rparr>) = fruit_spaces s" "exit_ok (s\<lparr>n_fruits := n\<rparr>) = exit_ok s"
  by (simp_all add: cell_def in_maze_def near_maze_def visible_def in_view_def pix_def pixel_index_def window_ok_def
      maze_arr_ok_def view_ok_def MAZE_INDEX_def fruit_spaces_def exit_ok_def)

lemma level_ok_other [simp]:
  fixes s :: "'a maze_game_scheme"
  shows "level_ok blocks (s\<lparr>global_fnum := n\<rparr>) = level_ok blocks s"
    "level_ok blocks (s\<lparr>random_calls := c\<rparr>) = level_ok blocks s"
proof -
  have g: "cell (s\<lparr>global_fnum := n\<rparr>) x y = cell s x y" "cell (s\<lparr>random_calls := c\<rparr>) x y = cell s x y" for x y
    by (simp_all add: cell_def MAZE_INDEX_def)
  show "level_ok blocks (s\<lparr>global_fnum := n\<rparr>) = level_ok blocks s" "level_ok blocks (s\<lparr>random_calls := c\<rparr>) = level_ok blocks s"
    by (simp_all add: level_ok_def window_ok_def maze_arr_ok_def view_ok_def shows_but_def in_view_def pix_def pixel_index_def
        maze_pic_def block_no_def fruits_ok_def fruit_spaces_def exit_ok_def in_maze_def g)
qed

lemma maze_kept_other:
  fixes s :: "'a maze_game_scheme"
  shows "maze_kept s (s\<lparr>n_fruits := n\<rparr>)" "maze_kept s (s\<lparr>global_fnum := n\<rparr>)" "maze_kept s (s\<lparr>random_calls := c\<rparr>)"
  by (simp_all add: maze_kept_def cell_def MAZE_INDEX_def)

lemma finite_fruit_spaces [simp]: "finite (fruit_spaces s)"
proof (rule finite_subset)
  show "fruit_spaces s \<subseteq> {0..2 * maze_x_dim s} \<times> {0..2 * maze_y_dim s}" by (auto simp: fruit_spaces_def in_maze_def)
qed simp

subsection \<open>A change of one space and of the number of fruits\<close>

text \<open>The spaces whose block changes: the space itself, and the exit when the first fruit comes or the
  last one goes.\<close>

lemma change_shows:
  assumes "level_ok blocks s" "in_maze s x y" "0 < x" "x < 2 * maze_x_dim s" "v AND MAZE_WALL = cell s x y AND MAZE_WALL"
    and "D = insert (x, y) (if (n_fruits s = 0) = (n = 0) then {} else {(exit_x s, exit_y s)})"
  shows "shows_but D blocks ((set_space x y v s)\<lparr>n_fruits := n\<rparr>)"
proof (rule shows_but_change)
  have w: "window_ok s" "maze_arr_ok s" using assms(1) by (simp_all add: level_ok_def window_ok_def)
  show "shows_but {} blocks s" using assms(1) by (simp add: level_ok_def)
  fix a b assume v: "visible s a b" and D: "(a, b) \<notin> D"
  have m: "in_maze s a b" by (rule visible_in_maze [OF w(1) v])
  have "border_unseen s x" using assms(3,4) by (simp add: border_unseen_def)
  then have ne: "MAZE_INDEX s a b \<noteq> MAZE_INDEX s x y" using same_space_visible [OF w(1) assms(2) v] D assms(6) by auto
  have "block_no ((set_space x y v s)\<lparr>n_fruits := n\<rparr>) a b = block_no s a b"
  proof (rule block_no_cong)
    show "cell ((set_space x y v s)\<lparr>n_fruits := n\<rparr>) a b = cell s a b"
      using ne w(2) assms(2) m by (simp add: cell_set_space in_maze_near)
    show "(n_fruits s = 0) = (n_fruits ((set_space x y v s)\<lparr>n_fruits := n\<rparr>) = 0)" if "has MAZE_EXIT s a b"
      using that D m assms(1,6) by (auto simp: level_ok_def exit_ok_def split: if_splits)
    show "has MAZE_WALL ((set_space x y v s)\<lparr>n_fruits := n\<rparr>) p q = has MAZE_WALL s p q"
      if "(p, q) \<in> {(a, b - 1), (a + 1, b), (a, b + 1), (a - 1, b)}" for p q
    proof -
      have "near_maze s p q" using that in_maze_near [OF m] by auto
      then have "has MAZE_WALL (set_space x y v s) p q = has MAZE_WALL s p q"
        using set_space_wall [OF w(2) _ _ assms(5)] assms(2) in_maze_near(1) by blast
      then show ?thesis by simp
    qed
  qed
  then show "(a, b) \<notin> {} \<and> block_no ((set_space x y v s)\<lparr>n_fruits := n\<rparr>) a b = block_no s a b" by simp
qed simp_all

lemma inner_unique:
  assumes "maze_arr_ok s" "in_maze s x y" "0 < x" "x < 2 * maze_x_dim s" "in_maze s a b" "MAZE_INDEX s a b = MAZE_INDEX s x y"
  shows "a = x \<and> b = y"
  using same_space [of s x a b y] assms by (auto simp: in_maze_def maze_arr_ok_def)

lemma set_space_fruits:
  assumes "maze_arr_ok s" "in_maze s x y" "0 < x" "x < 2 * maze_x_dim s"
  shows "fruit_spaces (set_space x y v s) = (if fruit_number v \<noteq> 0 then insert (x, y) (fruit_spaces s) else fruit_spaces s - {(x, y)})"
proof -
  have c: "cell (set_space x y v s) a b = (if a = x \<and> b = y then v else cell s a b)" if "in_maze s a b" for a b
  proof -
    have "(MAZE_INDEX s a b = MAZE_INDEX s x y) = (a = x \<and> b = y)" using inner_unique [OF assms that] by auto
    then show ?thesis using cell_set_space [OF assms(1) in_maze_near(1) [OF assms(2)] in_maze_near(1) [OF that]] by simp
  qed
  have m: "in_maze (set_space x y v s) a b = in_maze s a b" for a b by (simp add: in_maze_def)
  show ?thesis using assms(2) by (auto simp: fruit_spaces_def m c split: if_splits)
qed

lemma set_space_exit:
  assumes "maze_arr_ok s" "in_maze s x y" "v AND MAZE_EXIT = cell s x y AND MAZE_EXIT"
  shows "exit_ok (set_space x y v s) = exit_ok s"
proof -
  have c: "cell (set_space x y v s) a b AND MAZE_EXIT = cell s a b AND MAZE_EXIT" if "in_maze s a b" for a b
  proof (cases "MAZE_INDEX s a b = MAZE_INDEX s x y")
    case True
    then have "cell s a b = cell s x y" by (simp add: cell_def)
    then show ?thesis using True that assms by (simp add: cell_set_space in_maze_near)
  qed (use that assms in \<open>simp add: cell_set_space in_maze_near\<close>)
  have m: "in_maze (set_space x y v s) a b = in_maze s a b" for a b by (simp add: in_maze_def)
  show ?thesis by (simp add: exit_ok_def m c cong: conj_cong)
qed

lemma draw_space_frame:
  assumes "draw_space blocks x y s = Some t" "window_ok s" "blocks_ok blocks" "in_maze s x y"
  shows "drawn s t"
  using draw_space_shows [OF assms(2) _ assms(4,3), of UNIV] assms(1) by (auto simp: shows_but_def)

text \<open>Redrawing the space, and the exit where it appears or disappears.\<close>

lemma redraw_level:
  assumes "window_ok s" "fruits_ok s" "exit_ok s" "shows_but (insert (x, y) (if e then {(exit_x s, exit_y s)} else {})) blocks s"
    and "in_maze s x y" "blocks_ok blocks"
  shows "\<exists>t. do { s \<leftarrow> (if e then draw_space blocks (exit_x s) (exit_y s) s else Some s); draw_space blocks x y s } = Some t \<and>
    level_ok blocks t \<and> drawn s t" (is ?exit_first)
    and "\<exists>t. do { s \<leftarrow> draw_space blocks x y s; if e then draw_space blocks (exit_x s) (exit_y s) s else Some s } = Some t \<and>
    level_ok blocks t \<and> drawn s t" (is ?space_first)
proof -
  have ex: "in_maze s (exit_x s) (exit_y s)" using assms(3) by (simp add: exit_ok_def in_maze_def)
  have level: "level_ok blocks t" if "drawn s t" "maze_shown blocks t" for t
    using that assms(1-3) by (simp add: level_ok_def drawn_maze [OF that(1)] drawn_level [OF that(1)])
  show ?exit_first
  proof (cases e)
    case True
    then have "shows_but (insert (exit_x s, exit_y s) {(x, y)}) blocks s" using assms(4) by (simp add: insert_commute)
    from draw_space_removes [OF assms(1) this ex assms(6)]
    obtain u where u: "draw_space blocks (exit_x s) (exit_y s) s = Some u" "drawn s u" "shows_but {(x, y)} blocks u" .
    have "window_ok u" "in_maze u x y" using assms(1,5) by (simp_all add: drawn_maze [OF u(2)])
    from draw_space_removes [OF this(1) u(3) this(2) assms(6)]
    obtain t where "draw_space blocks x y u = Some t" "drawn u t" "maze_shown blocks t" .
    then show ?thesis using u True level [of t] drawn_trans [OF u(2)] by auto
  next
    case False
    then have "shows_but (insert (x, y) {}) blocks s" using assms(4) by simp
    from draw_space_removes [OF assms(1) this assms(5,6)]
    obtain t where "draw_space blocks x y s = Some t" "drawn s t" "maze_shown blocks t" .
    then show ?thesis using False level [of t] by auto
  qed
  from draw_space_removes [OF assms(1,4,5,6)]
  obtain u where u: "draw_space blocks x y s = Some u" "drawn s u" "shows_but (if e then {(exit_x s, exit_y s)} else {}) blocks u" .
  show ?space_first
  proof (cases e)
    case True
    have eu: "exit_x u = exit_x s" "exit_y u = exit_y s" "window_ok u" "in_maze u (exit_x s) (exit_y s)"
      using assms(1) ex by (simp_all add: drawn_maze [OF u(2)])
    have "shows_but (insert (exit_x s, exit_y s) {}) blocks u" using u(3) True by simp
    from draw_space_removes [OF eu(3) this eu(4) assms(6)]
    obtain t where "draw_space blocks (exit_x s) (exit_y s) u = Some t" "drawn u t" "maze_shown blocks t" .
    then show ?thesis using u eu True level [of t] drawn_trans [OF u(2)] by auto
  next
    case False
    then show ?thesis using u level [of u] by auto
  qed
qed

subsection \<open>Eating a fruit\<close>

lemma fruit_bits:
  "fruit_number (v AND NOT MAZE_FRUIT) = 0" "(v AND NOT MAZE_FRUIT) AND MAZE_WALL = v AND MAZE_WALL"
  "(v AND NOT MAZE_FRUIT) AND MAZE_EXIT = v AND MAZE_EXIT" for v :: u8
  by (simp_all add: fruit_number_0 and.assoc)

lemma check_for_fruit_level:
  fixes s :: "'a maze_game_scheme" and x y :: int
  assumes "level_ok blocks s" "blocks_ok blocks"
  defines "k \<equiv> (if 0 \<le> x \<and> x < 2 * maze_x_dim s \<and> 0 \<le> y \<and> y < 2 * maze_y_dim s then fruit_number (cell s x y) else 0)"
  shows "\<exists>t. check_for_fruit blocks x y s = Some (k, t) \<and> level_ok blocks t \<and> maze_kept s t \<and>
    n_fruits t = n_fruits s - of_bool (k \<noteq> 0) \<and> fruit_spaces t = (if k = 0 then fruit_spaces s else fruit_spaces s - {(x, y)})"
proof -
  have w: "window_ok s" "maze_arr_ok s" "fruits_ok s" "exit_ok s" using assms(1) by (simp_all add: level_ok_def window_ok_def)
  have spaces: "fruit_spaces (t\<lparr>global_fnum := n\<rparr>) = fruit_spaces t" for t :: "'a maze_game_scheme" and n
    by (simp add: fruit_spaces_def cell_def MAZE_INDEX_def in_maze_def)
  show ?thesis
  proof (cases "0 \<le> x \<and> x < 2 * maze_x_dim s \<and> 0 \<le> y \<and> y < 2 * maze_y_dim s")
    case False
    then have "check_for_fruit blocks x y s = Some (k, s)" "k = 0" by (auto simp: check_for_fruit_def k_def)
    then show ?thesis using assms(1) by simp
  next
    case True
    then have m: "in_maze s x y" and k: "k = fruit_number (cell s x y)" by (simp_all add: in_maze_def k_def)
    have got: "maze_get x y s = Some (cell s x y)" by (rule maze_get_cell [OF w(2) in_maze_near(1) [OF m]])
    show ?thesis
    proof (cases "k = 0")
      case k0: True
      then have "check_for_fruit blocks x y s = Some (k, s\<lparr>global_fnum := n_fruits s\<rparr>)"
        using True k got by (simp add: check_for_fruit_def)
      then show ?thesis using assms(1) k0 maze_kept_other(2) spaces by auto
    next
      case kn: False
      then have "(x, y) \<in> fruit_spaces s" using m k by (simp add: fruit_spaces_def)
      then have inner: "0 < x" "x < 2 * maze_x_dim s" and pos: "0 < card (fruit_spaces s)"
        using w(3) by (auto simp: fruits_ok_def card_gt_0_iff)
      have n1: "n_fruits s = int (card (fruit_spaces s))" using w(3) by (simp add: fruits_ok_def)
      have n: "n_fruits s = int (card (fruit_spaces s))" "n_fruits s \<noteq> 0" using n1 pos by linarith+
      define v where "v = cell s x y AND NOT MAZE_FRUIT"
      have vb: "fruit_number v = 0" "v AND MAZE_WALL = cell s x y AND MAZE_WALL" "v AND MAZE_EXIT = cell s x y AND MAZE_EXIT"
        unfolding v_def by (rule fruit_bits)+
      let ?u = "(set_space x y v s)\<lparr>n_fruits := n_fruits s - 1\<rparr>"
      let ?e = "n_fruits s - 1 = 0"
      have sp: "fruit_spaces ?u = fruit_spaces s - {(x, y)}"
        using set_space_fruits [OF w(2) m inner, of v] by (simp add: vb)
      have "card (fruit_spaces s - {(x, y)}) = card (fruit_spaces s) - 1" using \<open>(x, y) \<in> fruit_spaces s\<close> by simp
      then have "n_fruits s - 1 = int (card (fruit_spaces s - {(x, y)}))" using n(1) pos by (simp only: of_nat_diff)
      then have "fruits_ok ?u" using w(3) sp by (auto simp: fruits_ok_def)
      moreover have "exit_ok ?u" using set_space_exit [OF w(2) m, of v] w(4) by (simp add: vb)
      moreover have "shows_but (insert (x, y) (if ?e then {(exit_x ?u, exit_y ?u)} else {})) blocks ?u"
        by (rule change_shows [OF assms(1) m inner vb(2)]) (use n(2) in simp)
      ultimately obtain t where t: "do { s \<leftarrow> (if ?e then draw_space blocks (exit_x ?u) (exit_y ?u) ?u else Some ?u); draw_space blocks x y s } = Some t"
        "level_ok blocks t" "drawn ?u t"
        using redraw_level(1) [of ?u x y ?e blocks] w(1) m assms(2) by (auto simp: in_maze_def)
      have "check_for_fruit blocks x y s = Some (k, t\<lparr>global_fnum := n_fruits t\<rparr>)"
        using True kn k got t(1) by (cases "n_fruits s = 1") (auto simp: check_for_fruit_def v_def [symmetric, simplified] maze_set_space [OF w(2) in_maze_near(1) [OF m]] Let_def bind_Some_iff)
      moreover have "maze_kept s ?u"
        using maze_kept_trans [OF maze_kept_set_space [OF w(2) in_maze_near(1) [OF m]] maze_kept_other(1)] by (simp add: vb)
      then have "maze_kept s (t\<lparr>global_fnum := n_fruits t\<rparr>)"
        using maze_kept_trans maze_kept_drawn [OF t(3)] maze_kept_other(2) by blast
      moreover have "n_fruits t = n_fruits s - 1" "fruit_spaces t = fruit_spaces s - {(x, y)}"
        using drawn_maze [OF t(3)] sp by (simp_all add: fruit_spaces_def)
      ultimately show ?thesis using t(2) kn spaces by auto
    qed
  qed
qed

subsection \<open>Random points\<close>

text \<open>The two random numbers from call \<open>c\<close> on, as a lattice point.\<close>

definition drawn_x :: "'a maze_game_scheme \<Rightarrow> nat \<Rightarrow> int" where
  "drawn_x s c = random_values s c mod maze_x_dim s * 2 + 1"

definition drawn_y :: "'a maze_game_scheme \<Rightarrow> nat \<Rightarrow> int" where
  "drawn_y s c = random_values s c mod maze_y_dim s * 2 + 1"

definition odd_point :: "'a maze_game_scheme \<Rightarrow> int \<Rightarrow> int \<Rightarrow> bool" where
  "odd_point s x y \<longleftrightarrow> odd x \<and> odd y \<and> 0 < x \<and> x < 2 * maze_x_dim s \<and> 0 < y \<and> y < 2 * maze_y_dim s"

lemma odd_point_in_maze: "odd_point s x y \<Longrightarrow> in_maze s x y"
  by (simp add: odd_point_def in_maze_def)

lemma odd_residue: "1 \<le> (n :: int) \<Longrightarrow> odd (r mod n * 2 + 1) \<and> 0 < r mod n * 2 + 1 \<and> r mod n * 2 + 1 < 2 * n"
  using pos_mod_bound [of n r] pos_mod_sign [of n r] by (intro conjI) (simp, linarith, linarith)

lemma drawn_odd_point: "maze_arr_ok s \<Longrightarrow> odd_point s (drawn_x s c) (drawn_y s d)"
  unfolding drawn_x_def drawn_y_def odd_point_def maze_arr_ok_def by (metis odd_residue)

lemma random_point_eq:
  assumes "maze_arr_ok s" "\<forall>n. 0 \<le> random_values s n"
  shows "random_point (s\<lparr>random_calls := c\<rparr>) = (drawn_x s c, drawn_y s (c + 1), s\<lparr>random_calls := c + 2\<rparr>)"
  using assms by (simp add: random_point_def random_def drawn_x_def drawn_y_def smod_nonneg maze_arr_ok_def Let_def)

lemma random_calls_fields [simp]:
  fixes s :: "'a maze_game_scheme"
  shows "cell (s\<lparr>random_calls := c\<rparr>) x y = cell s x y" "in_maze (s\<lparr>random_calls := c\<rparr>) x y = in_maze s x y"
    "near_maze (s\<lparr>random_calls := c\<rparr>) x y = near_maze s x y" "maze_arr_ok (s\<lparr>random_calls := c\<rparr>) = maze_arr_ok s"
    "fruit_spaces (s\<lparr>random_calls := c\<rparr>) = fruit_spaces s" "MAZE_INDEX (s\<lparr>random_calls := c\<rparr>) x y = MAZE_INDEX s x y"
    "odd_point (s\<lparr>random_calls := c\<rparr>) x y = odd_point s x y"
  by (simp_all add: cell_def in_maze_def near_maze_def maze_arr_ok_def MAZE_INDEX_def fruit_spaces_def odd_point_def)

text \<open>The loops that pick a point end as soon as the random numbers name one that is wanted.\<close>

lemma pick_point_ends:
  assumes "maze_arr_ok s" "\<forall>n. 0 \<le> random_values s n"
  shows "\<not> again (cell s (drawn_x s (c + 2 * k)) (drawn_y s (c + 2 * k + 1))) \<Longrightarrow>
    \<exists>x y d. pick_point again (s\<lparr>random_calls := c\<rparr>) = Some (x, y, s\<lparr>random_calls := d\<rparr>) \<and> odd_point s x y \<and> \<not> again (cell s x y) \<and> c < d"
proof (induction k arbitrary: c)
  case 0
  note p = drawn_odd_point [OF assms(1), of c "c + 1"]
  have "maze_get (drawn_x s c) (drawn_y s (c + 1)) (s\<lparr>random_calls := c + 2\<rparr>) = Some (cell s (drawn_x s c) (drawn_y s (c + 1)))"
    using assms(1) odd_point_in_maze [OF p] by (simp add: maze_get_cell in_maze_near)
  then have "pick_point again (s\<lparr>random_calls := c\<rparr>) = Some (drawn_x s c, drawn_y s (c + 1), s\<lparr>random_calls := c + 2\<rparr>)"
    using 0 by (subst pick_point.simps) (simp add: random_point_eq [OF assms])
  then show ?case using 0 p by auto
next
  case (Suc k)
  note p = drawn_odd_point [OF assms(1), of c "c + 1"]
  have got: "maze_get (drawn_x s c) (drawn_y s (c + 1)) (s\<lparr>random_calls := c + 2\<rparr>) = Some (cell s (drawn_x s c) (drawn_y s (c + 1)))"
    using assms(1) odd_point_in_maze [OF p] by (simp add: maze_get_cell in_maze_near)
  obtain x y d where r: "pick_point again (s\<lparr>random_calls := c + 2\<rparr>) = Some (x, y, s\<lparr>random_calls := d\<rparr>)" "odd_point s x y"
    "\<not> again (cell s x y)" "c + 2 < d" using Suc.IH [of "c + 2"] Suc.prems by (auto simp: algebra_simps)
  show ?case
  proof (cases "again (cell s (drawn_x s c) (drawn_y s (c + 1)))")
    case True
    then have "pick_point again (s\<lparr>random_calls := c\<rparr>) = Some (x, y, s\<lparr>random_calls := d\<rparr>)"
      using r(1) got by (subst pick_point.simps) (simp add: random_point_eq [OF assms])
    then show ?thesis using r by auto
  next
    case False
    then have "pick_point again (s\<lparr>random_calls := c\<rparr>) = Some (drawn_x s c, drawn_y s (c + 1), s\<lparr>random_calls := c + 2\<rparr>)"
      using got by (subst pick_point.simps) (simp add: random_point_eq [OF assms])
    then show ?thesis using False p by auto
  qed
qed

subsection \<open>Adding a fruit\<close>

lemma new_fruit:
  fixes v :: u8
  assumes "0 \<le> r" "v AND MAZE_FRUIT = 0"
  defines "w \<equiv> v OR word_of_int ((r smod 7 + 1) * 2)"
  shows "fruit_number w \<noteq> 0" "w AND MAZE_WALL = v AND MAZE_WALL" "w AND MAZE_EXIT = v AND MAZE_EXIT"
    "w AND MAZE_REACH = v AND MAZE_REACH"
proof -
  have "r smod 7 = r mod 7" using assms(1) by (simp add: smod_nonneg)
  moreover have "0 \<le> r mod 7" "r mod 7 < 7" by simp_all
  ultimately consider "r smod 7 = 0" | "r smod 7 = 1" | "r smod 7 = 2" | "r smod 7 = 3" | "r smod 7 = 4" | "r smod 7 = 5" | "r smod 7 = 6"
    by linarith
  then show "fruit_number w \<noteq> 0" "w AND MAZE_WALL = v AND MAZE_WALL" "w AND MAZE_EXIT = v AND MAZE_EXIT"
    "w AND MAZE_REACH = v AND MAZE_REACH"
    unfolding w_def fruit_number_0 by (cases; simp add: bit.conj_disj_distrib2 assms(2))+
qed

lemma add_fruit_level:
  fixes s :: "'a maze_game_scheme"
  assumes "level_ok blocks s" "blocks_ok blocks" "\<forall>n. 0 \<le> random_values s n"
    and "cell s (drawn_x s (random_calls s + 2 * k)) (drawn_y s (random_calls s + 2 * k + 1)) AND MAZE_FRUIT = 0"
  shows "\<exists>x y t. add_a_fruit blocks s = Some (n_fruits s + 1, t) \<and> level_ok blocks t \<and> maze_kept s t \<and> n_fruits t = n_fruits s + 1 \<and>
    odd_point s x y \<and> (x, y) \<notin> fruit_spaces s \<and> fruit_spaces t = insert (x, y) (fruit_spaces s)"
proof -
  have w: "window_ok s" "maze_arr_ok s" "fruits_ok s" "exit_ok s" using assms(1) by (simp_all add: level_ok_def window_ok_def)
  obtain x y d where p: "pick_unfruited s = Some (x, y, s\<lparr>random_calls := d\<rparr>)" "odd_point s x y" "cell s x y AND MAZE_FRUIT = 0"
    using pick_point_ends [OF w(2) assms(3), of "\<lambda>w. w AND MAZE_FRUIT \<noteq> 0" "random_calls s" k] assms(4)
    by (auto simp: pick_unfruited_def)
  note m = odd_point_in_maze [OF p(2)]
  have inner: "0 < x" "x < 2 * maze_x_dim s" "0 < y" "y < 2 * maze_y_dim s" using p(2) by (simp_all add: odd_point_def)
  let ?r = "s\<lparr>random_calls := Suc d\<rparr>"
  define v where "v = cell s x y OR word_of_int ((random_values s d smod 7 + 1) * 2)"
  define u where "u = (set_space x y v ?r)\<lparr>n_fruits := n_fruits s + 1\<rparr>"
  define e where "e \<longleftrightarrow> n_fruits s + 1 = 1"
  have r1: "level_ok blocks ?r" using assms(1) by simp
  have r: "level_ok blocks ?r" "maze_arr_ok ?r" "window_ok ?r" "fruits_ok ?r" "exit_ok ?r" "in_maze ?r x y"
    using r1 w(2) m by (simp_all add: level_ok_def)
  have v: "fruit_number v \<noteq> 0" "v AND MAZE_WALL = cell ?r x y AND MAZE_WALL" "v AND MAZE_EXIT = cell ?r x y AND MAZE_EXIT"
    using new_fruit [OF spec [OF assms(3), of d] p(3)] by (simp_all only: v_def random_calls_fields not_False_eq_True)
  have inner': "0 < x" "x < 2 * maze_x_dim ?r" using inner by simp_all
  have new: "(x, y) \<notin> fruit_spaces s" using p(3) by (simp add: fruit_spaces_def fruit_number_0)
  have sp: "fruit_spaces u = insert (x, y) (fruit_spaces s)"
    using set_space_fruits [OF r(2,6) inner', of v] v(1) by (simp add: u_def)
  have u: "window_ok u" "in_maze u x y" "exit_x u = exit_x s" "exit_y u = exit_y s" "n_fruits u = n_fruits s + 1"
    "maze_x_dim u = maze_x_dim s" "maze_y_dim u = maze_y_dim s" using r(3) m by (simp_all add: u_def in_maze_def)
  have fu: "fruits_ok u" using w(3) sp new inner by (auto simp: fruits_ok_def u)
  have eu: "exit_ok u" using set_space_exit [OF r(2,6) v(3)] r(5) by (simp add: u_def)
  have sh: "shows_but (insert (x, y) (if e then {(exit_x u, exit_y u)} else {})) blocks u"
    unfolding u_def
  proof (rule change_shows [OF r(1,6) inner' v(2)])
    have "0 \<le> n_fruits s" using w(3) by (simp add: fruits_ok_def)
    then show "insert (x, y) (if e then {(exit_x (set_space x y v ?r\<lparr>n_fruits := n_fruits s + 1\<rparr>),
          exit_y (set_space x y v ?r\<lparr>n_fruits := n_fruits s + 1\<rparr>))} else {}) =
        insert (x, y) (if (n_fruits ?r = 0) = (n_fruits s + 1 = 0) then {} else {(exit_x ?r, exit_y ?r)})"
      by (auto simp: e_def)
  qed
  obtain t where t: "do { s \<leftarrow> draw_space blocks x y u; if e then draw_space blocks (exit_x s) (exit_y s) s else Some s } = Some t"
    "level_ok blocks t" "drawn u t" using redraw_level(2) [OF u(1) fu eu sh u(2) assms(2)] by blast
  have n: "n_fruits t = n_fruits s + 1" by (simp add: drawn_maze [OF t(3)] u)
  obtain q where q: "draw_space blocks x y u = Some q" "(if e then draw_space blocks (exit_x q) (exit_y q) q else Some q) = Some t"
    using t(1) by (auto simp: bind_Some_iff)
  have "drawn u q" by (rule draw_space_frame [OF q(1) u(1) assms(2) u(2)])
  note qf = drawn_maze [OF this]
  have "maze_get x y (s\<lparr>random_calls := d\<rparr>) = Some (cell s x y)" "maze_put x y w ?r = Some (set_space x y w ?r)" for w
    using maze_get_cell [of "s\<lparr>random_calls := d\<rparr>" x y] maze_set_space [OF r(2) in_maze_near(1) [OF r(6)]] w(2) in_maze_near(1) [OF m]
    by simp_all
  then have "add_fruit blocks True s = Some q"
    using p(1) q(1) by (simp add: add_fruit_def random_def Let_def v_def u_def)
  then have "add_a_fruit blocks s = Some (n_fruits s + 1, t)"
    using q(2) n by (simp add: add_a_fruit_def qf u e_def cong: if_cong split: if_splits)
  moreover have "maze_kept s t"
  proof -
    have "maze_kept s ?r" by (rule maze_kept_other)
    moreover have "maze_kept ?r (set_space x y v ?r)" by (rule maze_kept_set_space [OF r(2) in_maze_near(1) [OF r(6)] v(2,3)])
    ultimately have "maze_kept s u" unfolding u_def using maze_kept_trans maze_kept_other(1) by blast
    then show ?thesis using maze_kept_trans maze_kept_drawn [OF t(3)] by blast
  qed
  moreover have "fruit_spaces t = insert (x, y) (fruit_spaces s)"
    using sp by (simp add: fruit_spaces_def drawn_maze [OF t(3)])
  ultimately show ?thesis using t(2) n p(2) new by blast
qed

end
