(* ===== verification/GamePan.thy ===== *)
theory GamePan
  imports Game MazeFruits
begin

text \<open>
  Panning: after the window has moved by one pixel and the line that came into view is drawn, the
  window shows the maze again.
\<close>

subsection \<open>Moving the window leaves the maze alone\<close>

definition view_moved :: "'a modex_scheme \<Rightarrow> 'a modex_scheme \<Rightarrow> bool" where
  "view_moved s t \<longleftrightarrow> t = s\<lparr>build := build t, img3_off := img3_off t, img3 := img3 t, show_x := show_x t, show_y := show_y t\<rparr>"

lemma copy_down_frame: "copy_down target start n s = Some t \<Longrightarrow> \<exists>b. t = s\<lparr>build := b\<rparr>"
proof (induction n arbitrary: s)
  case 0
  then show ?case by (intro exI [of _ "build s"]) simp
next
  case (Suc n)
  then obtain u b where "u = s\<lparr>build := b\<rparr>" "copy_down target start n u = Some t"
    by (auto simp: bind_Some_iff build_put_def split: if_splits)
  then show ?case using Suc.IH by fastforce
qed

lemma copy_up_frame: "copy_up target start i n s = Some t \<Longrightarrow> \<exists>b. t = s\<lparr>build := b\<rparr>"
proof (induction n arbitrary: i s)
  case 0
  then show ?case by (intro exI [of _ "build s"]) simp
next
  case (Suc n)
  then obtain u b where "u = s\<lparr>build := b\<rparr>" "copy_up target start (i + 1) n u = Some t"
    by (auto simp: bind_Some_iff build_put_def split: if_splits)
  then show ?case using Suc.IH by fastforce
qed

lemma set_view_window_moved:
  assumes "set_view_window X Y s = Some t"
  shows "view_moved s t"
proof -
  let ?m = "\<lambda>o3 i3. s\<lparr>show_x := X, show_y := Y, img3_off := o3, img3 := i3\<rparr>"
  have "t = s\<lparr>show_x := X, show_y := Y\<rparr> \<or> (\<exists>o3 i3. t = ?m o3 i3) \<or>
      (\<exists>a b n o3 i3. copy_down a b n (?m o3 i3) = Some t) \<or> (\<exists>a b n o3 i3. copy_up a b 0 n (?m o3 i3) = Some t)"
    using assms unfolding set_view_window_def Let_def split_def
    by (simp only: option.inject split: if_split_asm) blast+
  then show ?thesis
  proof (elim disjE exE)
    fix a b n o3 i3 assume "copy_down a b n (?m o3 i3) = Some t"
    then show ?thesis by (auto dest!: copy_down_frame simp: view_moved_def)
  next
    fix a b n o3 i3 assume "copy_up a b 0 n (?m o3 i3) = Some t"
    then show ?thesis by (auto dest!: copy_up_frame simp: view_moved_def)
  qed (simp_all add: view_moved_def)
qed

lemma view_moved_maze:
  fixes s t :: "'a maze_game_scheme"
  assumes "view_moved s t"
  shows "maze_x_dim t = maze_x_dim s" "maze_y_dim t = maze_y_dim s" "maze_arr_ok t = maze_arr_ok s" "cell t x y = cell s x y"
    "maze_pic blocks t x y = maze_pic blocks s x y" "fruits_ok t = fruits_ok s" "exit_ok t = exit_ok s"
    "in_maze t x y = in_maze s x y" "maze_game.more t = maze_game.more s" "g_mask t = g_mask s" "n_fruits t = n_fruits s"
proof -
  obtain b o3 i3 X Y where t: "t = s\<lparr>build := b, img3_off := o3, img3 := i3, show_x := X, show_y := Y\<rparr>"
    using assms unfolding view_moved_def by blast
  show f: "maze_x_dim t = maze_x_dim s" "maze_y_dim t = maze_y_dim s" "maze_arr_ok t = maze_arr_ok s"
    "maze_game.more t = maze_game.more s" "g_mask t = g_mask s" "n_fruits t = n_fruits s"
    by (simp_all add: t maze_arr_ok_def)
  show c: "cell t x y = cell s x y" for x y by (simp add: t cell_def MAZE_INDEX_def)
  show "maze_pic blocks t x y = maze_pic blocks s x y" by (simp add: maze_pic_def block_no_def c f)
  show m: "in_maze t x y = in_maze s x y" for x y by (simp add: in_maze_def f)
  show "fruits_ok t = fruits_ok s" "exit_ok t = exit_ok s"
    by (simp_all add: fruits_ok_def exit_ok_def fruit_spaces_def m c f) (simp_all add: t)
qed

subsection \<open>The line that comes into view\<close>

text \<open>A position of the window inside of the picture.\<close>

definition window_at :: "'a maze_game_scheme \<Rightarrow> int \<Rightarrow> int \<Rightarrow> bool" where
  "window_at s X Y \<longleftrightarrow> 0 \<le> X \<and> X + 320 \<le> 12 * (2 * maze_x_dim s + 1) \<and> 0 \<le> Y \<and> Y + 182 \<le> 12 * (2 * maze_y_dim s + 1)"

lemma moved_window:
  fixes s :: "'a maze_game_scheme"
  assumes "level_ok blocks s" "window_at s X Y"
  obtains u where "set_view_window X Y s = Some u" "view_moved s u" "window_ok u" "fruits_ok u" "exit_ok u" "show_x u = X" "show_y u = Y"
    "\<And>x y. in_view u x y \<Longrightarrow> in_view s x y \<Longrightarrow> pix u x y = maze_pic blocks u x y"
proof -
  have s: "view_ok s" "maze_arr_ok s" "maze_shown blocks s" "fruits_ok s" "exit_ok s" using assms(1) by (simp_all add: level_ok_def window_ok_def)
  obtain u where u: "set_view_window X Y s = Some u" "view_ok u" "show_x u = X" "show_y u = Y"
    "\<forall>x y. in_view s x y \<and> in_view u x y \<longrightarrow> pix u x y = pix s x y" using set_view_window_pix [OF s(1)] by blast
  note m = set_view_window_moved [OF u(1)]
  show ?thesis
  proof (rule that [OF u(1) m])
    show "window_ok u" using u(2-4) s(2) assms(2) by (simp add: window_ok_def window_at_def view_moved_maze [OF m])
    show "pix u x y = maze_pic blocks u x y" if "in_view u x y" "in_view s x y" for x y
      using u(5) s(3) that by (simp add: shows_but_def view_moved_maze [OF m])
  qed (use u(3,4) s(4,5) in \<open>simp_all add: view_moved_maze [OF m]\<close>)
qed

lemma level_ok_lines:
  assumes "window_ok u" "fruits_ok u" "exit_ok u" "drawn u t"
    and "\<And>x y. in_view u x y \<Longrightarrow> pix t x y = maze_pic blocks u x y"
  shows "level_ok blocks t"
  using assms(1-3,5) drawn_fields(7) [OF assms(4)]
  by (simp add: level_ok_def shows_but_def drawn_maze [OF assms(4)] drawn_level [OF assms(4)])

lemma draw_maze_row:
  fixes u :: "'a maze_game_scheme"
  assumes "window_ok u" "blocks_ok blocks" "0 \<le> r" "r < 182"
  shows "\<exists>t. draw_horiz_line (fill_horiz_buffer blocks u) r u = Some (0, t) \<and> drawn u t \<and>
    (\<forall>x y. in_view u x y \<longrightarrow> pix t x y = (if y = r + show_y u then maze_pic blocks u x y else pix u x y))"
proof -
  have p: "pixel_in_maze u (show_x u) (r + show_y u)" "pixel_in_maze u (show_x u + 319) (r + show_y u)"
    using assms by (simp_all add: pixel_in_maze_def window_ok_def)
  have f: "fill_horiz_buffer blocks u (show_x u) (r + show_y u) = Some (horiz_pixels blocks u (show_x u) (r + show_y u))"
    using fill_horiz_buffer_pixels [OF _ _ p] assms(1,2) by (simp add: window_ok_def blocks_ok_def)
  obtain t where t: "draw_horiz_line (fill_horiz_buffer blocks u) r u = Some (0, t)" "drawn u t"
    "\<forall>x y. in_view u x y \<longrightarrow> pix t x y =
       (if y = r + show_y u then horiz_pixels blocks u (show_x u) (r + show_y u) ! nat (x - show_x u) else pix u x y)"
    using draw_horiz_line_pix [where s = u and fn = "fill_horiz_buffer blocks u" and y = r, OF _ assms(3,4) f] assms(1) by (auto simp: window_ok_def horiz_pixels_def)
  have "horiz_pixels blocks u (show_x u) (r + show_y u) ! nat (x - show_x u) = maze_pic blocks u x (r + show_y u)"
    if "in_view u x y" for x y using that by (simp add: horiz_pixels_def in_view_def nat_less_iff)
  then show ?thesis using t by auto
qed

lemma draw_maze_column:
  fixes u :: "'a maze_game_scheme"
  assumes "window_ok u" "blocks_ok blocks" "0 \<le> c" "c < 320"
  shows "\<exists>t. draw_vert_line (fill_vert_buffer blocks u) c u = Some (0, t) \<and> drawn u t \<and>
    (\<forall>x y. in_view u x y \<longrightarrow> pix t x y = (if x = c + show_x u then maze_pic blocks u x y else pix u x y))"
proof -
  have p: "pixel_in_maze u (c + show_x u) (show_y u)" "pixel_in_maze u (c + show_x u) (show_y u + 181)"
    using assms by (simp_all add: pixel_in_maze_def window_ok_def)
  have f: "fill_vert_buffer blocks u (c + show_x u) (show_y u) = Some (vert_pixels blocks u (c + show_x u) (show_y u))"
    using fill_vert_buffer_pixels [OF _ _ p] assms(1,2) by (simp add: window_ok_def blocks_ok_def)
  obtain t where t: "draw_vert_line (fill_vert_buffer blocks u) c u = Some (0, t)" "drawn u t"
    "\<forall>x y. in_view u x y \<longrightarrow> pix t x y =
       (if x = c + show_x u then vert_pixels blocks u (c + show_x u) (show_y u) ! nat (y - show_y u) else pix u x y)"
    using draw_vert_line_pix [where s = u and fn = "fill_vert_buffer blocks u" and x = c, OF _ assms(3,4) f] assms(1) by (auto simp: window_ok_def vert_pixels_def)
  have "vert_pixels blocks u (c + show_x u) (show_y u) ! nat (y - show_y u) = maze_pic blocks u (c + show_x u) y"
    if "in_view u x y" for x y using that by (simp add: vert_pixels_def in_view_def nat_less_iff)
  then show ?thesis using t by auto
qed

text \<open>One pixel in each of the four directions.\<close>

lemma pan_row_level:
  fixes s :: "'a game_scheme"
  assumes "level_ok blocks s" "blocks_ok blocks" "sint (map_x s) = show_x s" "window_at s (show_x s) (sint (map_y s))"
    and "(sint (map_y s) = show_y s - 1 \<and> r = 0) \<or> (sint (map_y s) = show_y s + 1 \<and> r = 181)"
  shows "\<exists>t u. pan_row blocks r s = Some t \<and> level_ok blocks t \<and> view_moved s u \<and> drawn u t \<and> show_x t = show_x s \<and> show_y t = sint (map_y s)"
proof -
  from moved_window [OF assms(1,4)]
  obtain u where u: "set_view_window (show_x s) (sint (map_y s)) s = Some u" "view_moved s u" "window_ok u" "fruits_ok u" "exit_ok u"
    "show_x u = show_x s" "show_y u = sint (map_y s)"
    "\<And>x y. in_view u x y \<Longrightarrow> in_view s x y \<Longrightarrow> pix u x y = maze_pic blocks u x y" by metis
  have r: "0 \<le> r" "r < 182" using assms(5) by auto
  obtain t where t: "draw_horiz_line (fill_horiz_buffer blocks u) r u = Some (0, t)" "drawn u t"
    "\<forall>x y. in_view u x y \<longrightarrow> pix t x y = (if y = r + show_y u then maze_pic blocks u x y else pix u x y)"
    using draw_maze_row [OF u(3) assms(2) r] by blast
  have "level_ok blocks t"
  proof (rule level_ok_lines [OF u(3-5) t(2)])
    fix x y assume v: "in_view u x y"
    then have "y \<noteq> r + show_y u \<Longrightarrow> in_view s x y" using assms(5) u(6,7) by (auto simp: in_view_def)
    then show "pix t x y = maze_pic blocks u x y" using t(3) v u(8) by auto
  qed
  moreover have "pan_row blocks r s = Some t" using u(1) t(1) by (simp add: pan_row_def assms(3))
  ultimately show ?thesis using u(2,6,7) t(2) drawn_fields(3,4) [OF t(2)] by auto
qed

lemma pan_column_level:
  fixes s :: "'a game_scheme"
  assumes "level_ok blocks s" "blocks_ok blocks" "sint (map_y s) = show_y s" "window_at s (sint (map_x s)) (show_y s)"
    and "(sint (map_x s) = show_x s - 1 \<and> c = 0) \<or> (sint (map_x s) = show_x s + 1 \<and> c = 319)"
  shows "\<exists>t u. pan_column blocks c s = Some t \<and> level_ok blocks t \<and> view_moved s u \<and> drawn u t \<and> show_x t = sint (map_x s) \<and> show_y t = show_y s"
proof -
  from moved_window [OF assms(1,4)]
  obtain u where u: "set_view_window (sint (map_x s)) (show_y s) s = Some u" "view_moved s u" "window_ok u" "fruits_ok u" "exit_ok u"
    "show_x u = sint (map_x s)" "show_y u = show_y s"
    "\<And>x y. in_view u x y \<Longrightarrow> in_view s x y \<Longrightarrow> pix u x y = maze_pic blocks u x y" by metis
  have c: "0 \<le> c" "c < 320" using assms(5) by auto
  obtain t where t: "draw_vert_line (fill_vert_buffer blocks u) c u = Some (0, t)" "drawn u t"
    "\<forall>x y. in_view u x y \<longrightarrow> pix t x y = (if x = c + show_x u then maze_pic blocks u x y else pix u x y)"
    using draw_maze_column [OF u(3) assms(2) c] by blast
  have "level_ok blocks t"
  proof (rule level_ok_lines [OF u(3-5) t(2)])
    fix x y assume v: "in_view u x y"
    then have "x \<noteq> c + show_x u \<Longrightarrow> in_view s x y" using assms(5) u(6,7) by (auto simp: in_view_def)
    then show "pix t x y = maze_pic blocks u x y" using t(3) v u(8) by auto
  qed
  moreover have "pan_column blocks c s = Some t" using u(1) t(1) by (simp add: pan_column_def assms(3))
  ultimately show ?thesis using u(2,6,7) t(2) drawn_fields(3,4) [OF t(2)] by auto
qed

text \<open>Drawing all lines of a window shows the maze.\<close>

lemma draw_lines_shows:
  fixes s :: "'a maze_game_scheme"
  assumes "window_ok s" "blocks_ok blocks" "0 \<le> i" "i + int k = 182"
    and "\<And>x y. in_view s x y \<Longrightarrow> y < i + show_y s \<Longrightarrow> pix s x y = maze_pic blocks s x y"
  shows "\<exists>t. draw_lines blocks i k s = Some t \<and> drawn s t \<and> maze_shown blocks t"
  using assms
proof (induction k arbitrary: i s)
  case 0
  then have "pix s x y = maze_pic blocks s x y" if "in_view s x y" for x y using that by (simp add: in_view_def)
  then show ?case by (simp add: shows_but_def)
next
  case (Suc k)
  obtain u where u: "draw_horiz_line (fill_horiz_buffer blocks s) i s = Some (0, u)" "drawn s u"
    "\<forall>x y. in_view s x y \<longrightarrow> pix u x y = (if y = i + show_y s then maze_pic blocks s x y else pix s x y)"
    using draw_maze_row [OF Suc.prems(1,2), of i] Suc.prems(3,4) by auto
  have "\<exists>t. draw_lines blocks (i + 1) k u = Some t \<and> drawn u t \<and> maze_shown blocks t"
  proof (rule Suc.IH)
    show "window_ok u" using Suc.prems(1) by (simp add: drawn_maze [OF u(2)])
    show "pix u x y = maze_pic blocks u x y" if "in_view u x y" "y < i + 1 + show_y u" for x y
      using u(3) that Suc.prems(5) drawn_fields [OF u(2)] by (auto simp: drawn_maze [OF u(2)])
  qed (use Suc.prems in auto)
  then show ?case using u drawn_trans by fastforce
qed

end
