(* ===== verification/GameProps.thy ===== *)
theory GameProps
  imports GamePan
begin

text \<open>
  The invariant of a level: the window shows the maze and lies where \<open>game_info\<close> says, the player
  is on a way through open spaces and inside of the window. Every tick keeps it.
\<close>

subsection \<open>Unsigned coordinates\<close>

lemma u32_less: "0 \<le> a \<Longrightarrow> a < 2 ^ 32 \<Longrightarrow> 0 \<le> b \<Longrightarrow> b < 2 ^ 32 \<Longrightarrow> (word_of_int a :: u32) < word_of_int b \<longleftrightarrow> a < b"
  by (simp add: word_less_def uint_word_of_int)

lemma u32_sint: "0 \<le> a \<Longrightarrow> a < 2 ^ 31 \<Longrightarrow> sint (word_of_int a :: u32) = a"
  by (simp add: sint_uint uint_word_of_int signed_take_bit_int_eq_self)

subsection \<open>Fields of the game\<close>

lemma game_more:
  fixes s t :: "'a game_scheme"
  assumes "maze_game.more t = maze_game.more s"
  shows "info_x_dim t = info_x_dim s" "info_y_dim t = info_y_dim s" "map_x t = map_x s" "map_y t = map_y s" "next_dir t = next_dir s"
    "play_x t = play_x s" "play_y t = play_y s" "last_dir t = last_dir s" "dir t = dir s" "move_cnt t = move_cnt s"
  using assms by (cases t; cases s; simp)+

text \<open>The level does not depend on them.\<close>

lemma level_more:
  fixes s t :: "'a maze_game_scheme"
  assumes "maze_game.truncate t = maze_game.truncate s"
  shows "level_ok blocks t = level_ok blocks s" "cell t x y = cell s x y" "window_at t X Y = window_at s X Y"
    "in_maze t x y = in_maze s x y" "near_maze t x y = near_maze s x y" "show_x t = show_x s" "show_y t = show_y s"
    "maze_x_dim t = maze_x_dim s" "maze_y_dim t = maze_y_dim s" "g_mask t = g_mask s" "n_fruits t = n_fruits s"
    "fruit_spaces t = fruit_spaces s" "target_img t = target_img s" "img3 t = img3 s"
proof -
  obtain m :: 'a where t: "t = s\<lparr>maze_game.more := m\<rparr>"
    using assms by (cases t; cases s) (auto simp: maze_game.truncate_def)
  have c: "cell (s\<lparr>maze_game.more := m\<rparr>) x y = cell s x y" for x y by (simp add: cell_def MAZE_INDEX_def)
  show "level_ok blocks t = level_ok blocks s"
    by (simp add: t level_ok_def window_ok_def maze_arr_ok_def view_ok_def shows_but_def in_view_def pix_def pixel_index_def
        maze_pic_def block_no_def fruits_ok_def fruit_spaces_def exit_ok_def in_maze_def c)
  show "cell t x y = cell s x y" "window_at t X Y = window_at s X Y"
    "in_maze t x y = in_maze s x y" "near_maze t x y = near_maze s x y" "show_x t = show_x s" "show_y t = show_y s"
    "maze_x_dim t = maze_x_dim s" "maze_y_dim t = maze_y_dim s" "g_mask t = g_mask s" "n_fruits t = n_fruits s"
    "fruit_spaces t = fruit_spaces s" "target_img t = target_img s" "img3 t = img3 s"
    by (simp_all add: t c window_at_def in_maze_def near_maze_def fruit_spaces_def)
qed

lemma truncate_game [simp]:
  fixes s :: "'a game_scheme"
  shows "maze_game.truncate (s\<lparr>map_x := u\<rparr>) = maze_game.truncate s" "maze_game.truncate (s\<lparr>map_y := u\<rparr>) = maze_game.truncate s"
    "maze_game.truncate (s\<lparr>play_x := v\<rparr>) = maze_game.truncate s" "maze_game.truncate (s\<lparr>play_y := v\<rparr>) = maze_game.truncate s"
    "maze_game.truncate (s\<lparr>last_dir := d\<rparr>) = maze_game.truncate s" "maze_game.truncate (s\<lparr>dir := d\<rparr>) = maze_game.truncate s"
    "maze_game.truncate (s\<lparr>next_dir := d\<rparr>) = maze_game.truncate s" "maze_game.truncate (s\<lparr>move_cnt := v\<rparr>) = maze_game.truncate s"
  by (simp_all add: maze_game.truncate_def)

lemmas level_fields = level_more [OF truncate_game(1)] level_more [OF truncate_game(2)] level_more [OF truncate_game(3)]
  level_more [OF truncate_game(4)] level_more [OF truncate_game(5)] level_more [OF truncate_game(6)]
  level_more [OF truncate_game(7)] level_more [OF truncate_game(8)]

subsection \<open>The invariant\<close>

text \<open>The window lies where \<open>game_info\<close> says, inside of the picture but for its outermost six pixels.\<close>

definition view_at :: "'a game_scheme \<Rightarrow> bool" where
  "view_at s \<longleftrightarrow> map_x s = word_of_int (show_x s) \<and> map_y s = word_of_int (show_y s) \<and>
     6 \<le> show_x s \<and> show_x s + 320 \<le> 24 * maze_x_dim s + 6 \<and> 6 \<le> show_y s \<and> show_y s + 182 \<le> 24 * maze_y_dim s + 6 \<and>
     info_x_dim s = maze_x_dim s \<and> info_y_dim s = maze_y_dim s \<and>
     14 \<le> maze_x_dim s \<and> maze_x_dim s \<le> 50 \<and> 8 \<le> maze_y_dim s \<and> maze_y_dim s \<le> 30 \<and> length (g_mask s) = 144"

text \<open>The player is at least five blocks away from the sides of the window, unless the window has reached
  the side of the maze.\<close>

definition pan_ok :: "'a game_scheme \<Rightarrow> bool" where
  "pan_ok s \<longleftrightarrow> (show_x s + 60 \<le> play_x s \<or> show_x s = 6) \<and>
     (play_x s \<le> show_x s + 248 \<or> show_x s + 320 = 24 * maze_x_dim s + 6) \<and>
     (show_y s + 60 \<le> play_y s \<or> show_y s = 6) \<and>
     (play_y s \<le> show_y s + 110 \<or> show_y s + 182 = 24 * maze_y_dim s + 6)"

fun step_dir :: "dir_t \<Rightarrow> int \<times> int" where
  "step_dir DIR_UP = (0, -1)" | "step_dir DIR_RIGHT = (1, 0)" | "step_dir DIR_DOWN = (0, 1)" | "step_dir DIR_LEFT = (-1, 0)"
| "step_dir DIR_STOP = (0, 0)"

text \<open>The player stands on an open space \<open>(a, b)\<close>, or has \<open>move_cnt\<close> pixels to go to it from the open
  space before it.\<close>

definition player_at :: "int \<Rightarrow> int \<Rightarrow> 'a game_scheme \<Rightarrow> bool" where
  "player_at a b s \<longleftrightarrow> open_space s a b \<and>
     play_x s = 12 * a - move_cnt s * fst (step_dir (dir s)) \<and> play_y s = 12 * b - move_cnt s * snd (step_dir (dir s)) \<and>
     (move_cnt s = 0 \<or> (0 < move_cnt s \<and> move_cnt s \<le> 12 \<and> dir s \<noteq> DIR_STOP \<and>
        open_space s (a - fst (step_dir (dir s))) (b - snd (step_dir (dir s)))))"

subsection \<open>Moving by one pixel\<close>

text \<open>What a move keeps.\<close>

definition walls_kept :: "'a game_scheme \<Rightarrow> 'a game_scheme \<Rightarrow> bool" where
  "walls_kept s t \<longleftrightarrow> (\<forall>a b. cell t a b = cell s a b) \<and> maze_x_dim t = maze_x_dim s \<and> maze_y_dim t = maze_y_dim s \<and>
     n_fruits t = n_fruits s \<and> length (g_mask t) = length (g_mask s) \<and>
     next_dir t = next_dir s \<and> last_dir t = last_dir s \<and> dir t = dir s \<and> move_cnt t = move_cnt s"

lemma pan_kept:
  fixes s u t :: "'a game_scheme"
  assumes "view_moved s u" "drawn u t"
  shows "walls_kept s t" "play_x t = play_x s" "play_y t = play_y s" "map_x t = map_x s" "map_y t = map_y s"
    "info_x_dim t = info_x_dim s" "info_y_dim t = info_y_dim s"
proof -
  have "maze_game.more t = maze_game.more u" using maze_keptD(8) [OF maze_kept_drawn [OF assms(2)]] .
  then have m: "maze_game.more t = maze_game.more s" using view_moved_maze(9) [OF assms(1)] by simp
  show "walls_kept s t" "play_x t = play_x s" "play_y t = play_y s" "map_x t = map_x s" "map_y t = map_y s"
    "info_x_dim t = info_x_dim s" "info_y_dim t = info_y_dim s"
    using game_more [OF m] drawn_maze [OF assms(2)] drawn_fields [OF assms(2)] view_moved_maze [OF assms(1)]
    by (simp_all add: walls_kept_def)
qed

definition moved_by :: "int \<Rightarrow> int \<Rightarrow> 'a game_scheme \<Rightarrow> 'a game_scheme \<Rightarrow> bool" where
  "moved_by dx dy s t \<longleftrightarrow> walls_kept s t \<and> play_x t = play_x s + dx \<and> play_y t = play_y s + dy"

text \<open>Arithmetic of the window for a level in its bounds.\<close>

lemma view_at_words:
  assumes "view_at s"
  shows "sint (map_x s) = show_x s" "sint (map_y s) = show_y s" "show_x s < 2000" "show_y s < 2000" "6 \<le> show_x s" "6 \<le> show_y s"
  using assms by (simp_all add: view_at_def u32_sint)

lemma view_at_side:
  assumes "view_at s"
  shows "show_x s + 320 \<le> 24 * maze_x_dim s + 6" "show_y s + 182 \<le> 24 * maze_y_dim s + 6"
  using assms by (simp_all add: view_at_def)

text \<open>The window follows by one pixel.\<close>

lemma pan_row_step:
  fixes s :: "'a game_scheme"
  assumes "level_ok blocks s" "blocks_ok blocks" "view_at s"
    and Y: "(Y = show_y s - 1 \<and> r = 0) \<or> (Y = show_y s + 1 \<and> r = 181)" "6 \<le> Y" "Y + 182 \<le> 24 * maze_y_dim s + 6"
  shows "\<exists>t. pan_row blocks r (s\<lparr>play_y := p, map_y := word_of_int Y\<rparr>) = Some t \<and> level_ok blocks t \<and> view_at t \<and>
    show_x t = show_x s \<and> show_y t = Y \<and> moved_by 0 (p - play_y s) s t"
proof -
  let ?q = "s\<lparr>play_y := p, map_y := word_of_int Y\<rparr>"
  note w = view_at_words [OF assms(3)]
  have sm: "sint (word_of_int Y :: u32) = Y" by (rule u32_sint) (use w Y in auto)
  have "\<exists>t u. pan_row blocks r ?q = Some t \<and> level_ok blocks t \<and> view_moved ?q u \<and> drawn u t \<and> show_x t = show_x ?q \<and> show_y t = sint (map_y ?q)"
    by (rule pan_row_level) (use assms sm w in \<open>auto simp: level_fields window_at_def view_at_def\<close>)
  then obtain t u where t: "pan_row blocks r ?q = Some t" "level_ok blocks t" "view_moved ?q u" "drawn u t"
    "show_x t = show_x s" "show_y t = Y" by (auto simp: level_fields sm)
  note k = pan_kept [OF t(3,4)]
  have "moved_by 0 (p - play_y s) s t" using k by (simp add: moved_by_def walls_kept_def level_fields)
  moreover have "view_at t" using assms(3) k t(5,6) Y by (simp add: view_at_def walls_kept_def level_fields)
  ultimately show ?thesis using t by blast
qed

lemma pan_column_step:
  fixes s :: "'a game_scheme"
  assumes "level_ok blocks s" "blocks_ok blocks" "view_at s"
    and X: "(X = show_x s - 1 \<and> c = 0) \<or> (X = show_x s + 1 \<and> c = 319)" "6 \<le> X" "X + 320 \<le> 24 * maze_x_dim s + 6"
  shows "\<exists>t. pan_column blocks c (s\<lparr>play_x := p, map_x := word_of_int X\<rparr>) = Some t \<and> level_ok blocks t \<and> view_at t \<and>
    show_x t = X \<and> show_y t = show_y s \<and> moved_by (p - play_x s) 0 s t"
proof -
  let ?q = "s\<lparr>play_x := p, map_x := word_of_int X\<rparr>"
  note w = view_at_words [OF assms(3)]
  have sm: "sint (word_of_int X :: u32) = X" by (rule u32_sint) (use w X in auto)
  have "\<exists>t u. pan_column blocks c ?q = Some t \<and> level_ok blocks t \<and> view_moved ?q u \<and> drawn u t \<and> show_x t = sint (map_x ?q) \<and> show_y t = show_y ?q"
    by (rule pan_column_level) (use assms sm w in \<open>auto simp: level_fields window_at_def view_at_def\<close>)
  then obtain t u where t: "pan_column blocks c ?q = Some t" "level_ok blocks t" "view_moved ?q u" "drawn u t"
    "show_x t = X" "show_y t = show_y s" by (auto simp: level_fields sm)
  note k = pan_kept [OF t(3,4)]
  have "moved_by (p - play_x s) 0 s t" using k by (simp add: moved_by_def walls_kept_def level_fields)
  moreover have "view_at t" using assms(3) k t(5,6) X by (simp add: view_at_def walls_kept_def level_fields)
  ultimately show ?thesis using t by blast
qed

text \<open>A move without panning.\<close>

lemma stay_step:
  fixes s :: "'a game_scheme"
  assumes "level_ok blocks s" "view_at s"
  shows "level_ok blocks (s\<lparr>play_x := p\<rparr>) \<and> view_at (s\<lparr>play_x := p\<rparr>) \<and> moved_by (p - play_x s) 0 s (s\<lparr>play_x := p\<rparr>)"
    "level_ok blocks (s\<lparr>play_y := p\<rparr>) \<and> view_at (s\<lparr>play_y := p\<rparr>) \<and> moved_by 0 (p - play_y s) s (s\<lparr>play_y := p\<rparr>)"
  using assms by (simp_all add: level_fields view_at_def moved_by_def walls_kept_def)

definition on_map :: "'a game_scheme \<Rightarrow> bool" where
  "on_map s \<longleftrightarrow> 0 < play_x s \<and> play_x s < 2000 \<and> 0 < play_y s \<and> play_y s < 2000"

lemma move_up_level:
  fixes s :: "'a game_scheme"
  assumes ok: "level_ok blocks s" "blocks_ok blocks" "view_at s" and "pan_ok s" "on_map s"
  shows "\<exists>t. move_up blocks s = Some t \<and> level_ok blocks t \<and> view_at t \<and> pan_ok t \<and> moved_by 0 (-1) s t"
proof -
  note w = view_at_words [OF ok(3)]
  have v: "map_y s = word_of_int (show_y s)" using ok(3) by (simp add: view_at_def)
  have c1: "word_of_int (play_y s - 1) < map_y s + word_of_int (12 * 5) \<longleftrightarrow> play_y s - 1 < show_y s + 60"
    using u32_less [of "play_y s - 1" "show_y s + 60"] w assms(5) by (simp add: v on_map_def)
  have c2: "map_y s > word_of_int 6 \<longleftrightarrow> 6 < show_y s" using u32_less [of 6 "show_y s"] w by (simp add: v)
  show ?thesis
  proof (cases "play_y s - 1 < show_y s + 60 \<and> 6 < show_y s")
    case False
    then have "move_up blocks s = Some (s\<lparr>play_y := play_y s - 1\<rparr>)" using c1 c2 by (auto simp: move_up_def Let_def)
    moreover have "show_y s + 60 \<le> play_y s - 1 \<or> show_y s = 6" using False w view_at_side [OF ok(3)] by linarith
    then have "pan_ok (s\<lparr>play_y := play_y s - 1\<rparr>)" using assms(4) by (auto simp: pan_ok_def)
    ultimately show ?thesis using stay_step(2) [OF ok(1,3), of "play_y s - 1"] by auto
  next
    case True
    have "\<exists>t. pan_row blocks 0 (s\<lparr>play_y := play_y s - 1, map_y := word_of_int (show_y s - 1)\<rparr>) = Some t \<and> level_ok blocks t \<and>
        view_at t \<and> show_x t = show_x s \<and> show_y t = show_y s - 1 \<and> moved_by 0 (play_y s - 1 - play_y s) s t"
      by (rule pan_row_step [OF ok]) (use True ok(3) in \<open>auto simp: view_at_def\<close>)
    then obtain t where t: "pan_row blocks 0 (s\<lparr>play_y := play_y s - 1, map_y := word_of_int (show_y s - 1)\<rparr>) = Some t"
      "level_ok blocks t" "view_at t" "show_x t = show_x s" "show_y t = show_y s - 1" "moved_by 0 (-1) s t" by auto
    have "move_up blocks s = Some t" using c1 c2 True t(1) by (simp add: move_up_def Let_def v)
    moreover have "pan_ok t" using assms(4) t(4-6) True by (auto simp: pan_ok_def moved_by_def walls_kept_def)
    ultimately show ?thesis using t by blast
  qed
qed

lemma move_left_level:
  fixes s :: "'a game_scheme"
  assumes ok: "level_ok blocks s" "blocks_ok blocks" "view_at s" and "pan_ok s" "on_map s"
  shows "\<exists>t. move_left blocks s = Some t \<and> level_ok blocks t \<and> view_at t \<and> pan_ok t \<and> moved_by (-1) 0 s t"
proof -
  note w = view_at_words [OF ok(3)]
  have v: "map_x s = word_of_int (show_x s)" using ok(3) by (simp add: view_at_def)
  have c1: "word_of_int (play_x s - 1) < map_x s + word_of_int (12 * 5) \<longleftrightarrow> play_x s - 1 < show_x s + 60"
    using u32_less [of "play_x s - 1" "show_x s + 60"] w assms(5) by (simp add: v on_map_def)
  have c2: "map_x s > word_of_int 6 \<longleftrightarrow> 6 < show_x s" using u32_less [of 6 "show_x s"] w by (simp add: v)
  show ?thesis
  proof (cases "play_x s - 1 < show_x s + 60 \<and> 6 < show_x s")
    case False
    then have "move_left blocks s = Some (s\<lparr>play_x := play_x s - 1\<rparr>)" using c1 c2 by (auto simp: move_left_def Let_def)
    moreover have "show_x s + 60 \<le> play_x s - 1 \<or> show_x s = 6" using False w view_at_side [OF ok(3)] by linarith
    then have "pan_ok (s\<lparr>play_x := play_x s - 1\<rparr>)" using assms(4) by (auto simp: pan_ok_def)
    ultimately show ?thesis using stay_step(1) [OF ok(1,3), of "play_x s - 1"] by auto
  next
    case True
    have "\<exists>t. pan_column blocks 0 (s\<lparr>play_x := play_x s - 1, map_x := word_of_int (show_x s - 1)\<rparr>) = Some t \<and> level_ok blocks t \<and>
        view_at t \<and> show_x t = show_x s - 1 \<and> show_y t = show_y s \<and> moved_by (play_x s - 1 - play_x s) 0 s t"
      by (rule pan_column_step [OF ok]) (use True ok(3) in \<open>auto simp: view_at_def\<close>)
    then obtain t where t: "pan_column blocks 0 (s\<lparr>play_x := play_x s - 1, map_x := word_of_int (show_x s - 1)\<rparr>) = Some t"
      "level_ok blocks t" "view_at t" "show_x t = show_x s - 1" "show_y t = show_y s" "moved_by (-1) 0 s t" by auto
    have "move_left blocks s = Some t" using c1 c2 True t(1) by (simp add: move_left_def Let_def v)
    moreover have "pan_ok t" using assms(4) t(4-6) True by (auto simp: pan_ok_def moved_by_def walls_kept_def)
    ultimately show ?thesis using t by blast
  qed
qed

lemma move_right_level:
  fixes s :: "'a game_scheme"
  assumes ok: "level_ok blocks s" "blocks_ok blocks" "view_at s" and "pan_ok s" "on_map s"
  shows "\<exists>t. move_right blocks s = Some t \<and> level_ok blocks t \<and> view_at t \<and> pan_ok t \<and> moved_by 1 0 s t"
proof -
  note w = view_at_words [OF ok(3)]
  have v: "map_x s = word_of_int (show_x s)" "info_x_dim s = maze_x_dim s" "14 \<le> maze_x_dim s" "maze_x_dim s \<le> 50"
    using ok(3) by (simp_all add: view_at_def)
  have c1: "word_of_int (play_x s + 1) > map_x s + word_of_int 320 - word_of_int (12 * (5 + 1)) \<longleftrightarrow> show_x s + 248 < play_x s + 1"
    using u32_less [of "show_x s + 248" "play_x s + 1"] w assms(5) by (simp add: v on_map_def add.commute)
  have c2: "map_x s + word_of_int 320 < word_of_int ((2 * info_x_dim s + 1) * 12 - 6) \<longleftrightarrow> show_x s + 320 < 24 * maze_x_dim s + 6"
    using u32_less [of "show_x s + 320" "(2 * maze_x_dim s + 1) * 12 - 6"] w v(3,4) by (simp add: v)
  show ?thesis
  proof (cases "show_x s + 248 < play_x s + 1 \<and> show_x s + 320 < 24 * maze_x_dim s + 6")
    case False
    then have "move_right blocks s = Some (s\<lparr>play_x := play_x s + 1\<rparr>)" using c1 c2 by (auto simp: move_right_def Let_def)
    moreover have "play_x s + 1 \<le> show_x s + 248 \<or> show_x s + 320 = 24 * maze_x_dim s + 6" using False w view_at_side [OF ok(3)] by linarith
    then have "pan_ok (s\<lparr>play_x := play_x s + 1\<rparr>)" using assms(4) by (auto simp: pan_ok_def)
    ultimately show ?thesis using stay_step(1) [OF ok(1,3), of "play_x s + 1"] by auto
  next
    case True
    have "\<exists>t. pan_column blocks 319 (s\<lparr>play_x := play_x s + 1, map_x := word_of_int (show_x s + 1)\<rparr>) = Some t \<and> level_ok blocks t \<and>
        view_at t \<and> show_x t = show_x s + 1 \<and> show_y t = show_y s \<and> moved_by (play_x s + 1 - play_x s) 0 s t"
      by (rule pan_column_step [OF ok]) (use True ok(3) in \<open>auto simp: view_at_def\<close>)
    then obtain t where t: "pan_column blocks 319 (s\<lparr>play_x := play_x s + 1, map_x := word_of_int (show_x s + 1)\<rparr>) = Some t"
      "level_ok blocks t" "view_at t" "show_x t = show_x s + 1" "show_y t = show_y s" "moved_by 1 0 s t" by auto
    have "move_right blocks s = Some t" using c1 c2 True t(1) by (simp add: move_right_def Let_def v)
    moreover have "pan_ok t" using assms(4) t(4-6) True by (auto simp: pan_ok_def moved_by_def walls_kept_def)
    ultimately show ?thesis using t by blast
  qed
qed

lemma move_down_level:
  fixes s :: "'a game_scheme"
  assumes ok: "level_ok blocks s" "blocks_ok blocks" "view_at s" and "pan_ok s" "on_map s"
  shows "\<exists>t. move_down blocks s = Some t \<and> level_ok blocks t \<and> view_at t \<and> pan_ok t \<and> moved_by 0 1 s t"
proof -
  note w = view_at_words [OF ok(3)]
  have v: "map_y s = word_of_int (show_y s)" "info_y_dim s = maze_y_dim s" "8 \<le> maze_y_dim s" "maze_y_dim s \<le> 30"
    using ok(3) by (simp_all add: view_at_def)
  have c1: "word_of_int (play_y s + 1) > map_y s + word_of_int (200 - 18) - word_of_int (12 * (5 + 1)) \<longleftrightarrow> show_y s + 110 < play_y s + 1"
    using u32_less [of "show_y s + 110" "play_y s + 1"] w assms(5) by (simp add: v on_map_def add.commute)
  have c2: "map_y s + word_of_int (200 - 18) < word_of_int ((2 * info_y_dim s + 1) * 12 - 6) \<longleftrightarrow> show_y s + 182 < 24 * maze_y_dim s + 6"
    using u32_less [of "show_y s + 182" "(2 * maze_y_dim s + 1) * 12 - 6"] w v(3,4) by (simp add: v)
  show ?thesis
  proof (cases "show_y s + 110 < play_y s + 1 \<and> show_y s + 182 < 24 * maze_y_dim s + 6")
    case False
    then have "move_down blocks s = Some (s\<lparr>play_y := play_y s + 1\<rparr>)" using c1 c2 by (auto simp: move_down_def Let_def)
    moreover have "play_y s + 1 \<le> show_y s + 110 \<or> show_y s + 182 = 24 * maze_y_dim s + 6" using False w view_at_side [OF ok(3)] by linarith
    then have "pan_ok (s\<lparr>play_y := play_y s + 1\<rparr>)" using assms(4) by (auto simp: pan_ok_def)
    ultimately show ?thesis using stay_step(2) [OF ok(1,3), of "play_y s + 1"] by auto
  next
    case True
    have "\<exists>t. pan_row blocks 181 (s\<lparr>play_y := play_y s + 1, map_y := word_of_int (show_y s + 1)\<rparr>) = Some t \<and> level_ok blocks t \<and>
        view_at t \<and> show_x t = show_x s \<and> show_y t = show_y s + 1 \<and> moved_by 0 (play_y s + 1 - play_y s) s t"
      by (rule pan_row_step [OF ok]) (use True ok(3) in \<open>auto simp: view_at_def\<close>)
    then obtain t where t: "pan_row blocks 181 (s\<lparr>play_y := play_y s + 1, map_y := word_of_int (show_y s + 1)\<rparr>) = Some t"
      "level_ok blocks t" "view_at t" "show_x t = show_x s" "show_y t = show_y s + 1" "moved_by 0 1 s t" by auto
    have "move_down blocks s = Some t" using c1 c2 True t(1) by (simp add: move_down_def Let_def v)
    moreover have "pan_ok t" using assms(4) t(4-6) True by (auto simp: pan_ok_def moved_by_def walls_kept_def)
    ultimately show ?thesis using t by blast
  qed
qed

lemma move_player_level:
  fixes s :: "'a game_scheme"
  assumes "level_ok blocks s" "blocks_ok blocks" "view_at s" "pan_ok s" "on_map s"
  shows "\<exists>t. move_player blocks s = Some t \<and> level_ok blocks t \<and> view_at t \<and> pan_ok t \<and>
    moved_by (fst (step_dir (dir s))) (snd (step_dir (dir s))) s t"
proof (cases "dir s")
  case DIR_STOP
  then show ?thesis using assms by (auto simp: move_player_def moved_by_def walls_kept_def)
qed (use move_up_level [OF assms] move_right_level [OF assms] move_down_level [OF assms] move_left_level [OF assms]
  in \<open>simp_all add: move_player_def\<close>)

end
