(* ===== verification/GameTick.thy ===== *)
theory GameTick
  imports GameProps MazeFruits
begin

text \<open>
  A tick of the game keeps the invariant of the level: the player walks through open spaces only,
  the window follows and goes on showing the maze.
\<close>

subsection \<open>What the operations on the maze keep\<close>

lemma in_maze_walls:
  assumes "maze_kept s t" "in_maze s a b" shows "has MAZE_WALL t a b = has MAZE_WALL s a b"
  using maze_keptD(9) [OF assms(1) in_maze_near(1) [OF assms(2)]] .

lemma open_in_maze: "0 < a \<and> a < 2 * maze_x_dim s \<and> 0 < b \<and> b < 2 * maze_y_dim s \<Longrightarrow> in_maze s a b"
  by (simp add: in_maze_def)

lemma kept_walls:
  fixes s t :: "'a maze_game_scheme"
  assumes "maze_kept s t"
  shows "open_space t a b = open_space s a b" "border_walls t = border_walls s"
proof -
  note k = maze_keptD [OF assms]
  show "open_space t a b = open_space s a b"
    using in_maze_walls [OF assms] open_in_maze [of a s b] by (auto simp: open_space_def k)
  show "border_walls t = border_walls s"
    using in_maze_walls [OF assms] by (auto simp: border_walls_def k)
qed

lemma kept_game:
  fixes s t :: "'a game_scheme"
  assumes "maze_kept s t"
  shows "view_at t = view_at s" "pan_ok t = pan_ok s" "player_at a b t = player_at a b s"
    "play_x t = play_x s" "play_y t = play_y s" "next_dir t = next_dir s" "dir t = dir s" "move_cnt t = move_cnt s" "last_dir t = last_dir s"
  using game_more [OF maze_keptD(8) [OF assms]] maze_keptD [OF assms] kept_walls [OF assms]
  by (simp_all add: view_at_def pan_ok_def player_at_def)

lemma walls_kept_walls:
  fixes s t :: "'a game_scheme"
  assumes "walls_kept s t"
  shows "open_space t a b = open_space s a b" "border_walls t = border_walls s"
  using assms by (simp_all add: walls_kept_def open_space_def border_walls_def in_maze_def)

subsection \<open>Unveiling around the player\<close>

lemma unveil_spaces_level:
  fixes s :: "'a maze_game_scheme"
  assumes "level_ok blocks s" "blocks_ok blocks" "\<forall>(x, y) \<in> set ps. border_unseen s x"
  shows "\<exists>t. unveil_spaces blocks ps s = Some t \<and> level_ok blocks t \<and> maze_kept s t \<and> n_fruits t = n_fruits s \<and>
    (\<forall>a b. in_maze s a b \<and> (has MAZE_REACH s a b \<or> (a, b) \<in> set ps) \<longrightarrow> has MAZE_REACH t a b)"
  using assms(1,3)
proof (induction ps arbitrary: s)
  case (Cons p ps)
  obtain x y where p: "p = (x, y)" by (cases p)
  obtain u where u: "unveil_space blocks x y s = Some u" "level_ok blocks u" "maze_kept s u" "n_fruits u = n_fruits s"
    "\<forall>a b. in_maze s a b \<longrightarrow> (has MAZE_REACH u a b = (has MAZE_REACH s a b \<or> MAZE_INDEX s a b = MAZE_INDEX s x y \<and> in_maze s x y))"
    using unveil_space_level [OF Cons.prems(1) _ assms(2), of x y] Cons.prems(2) p by auto
  note k = maze_keptD [OF u(3)]
  have "\<forall>(x, y) \<in> set ps. border_unseen u x" using Cons.prems(2) by (auto simp: border_unseen_def k)
  then obtain t where t: "unveil_spaces blocks ps u = Some t" "level_ok blocks t" "maze_kept u t" "n_fruits t = n_fruits u"
    "\<forall>a b. in_maze u a b \<and> (has MAZE_REACH u a b \<or> (a, b) \<in> set ps) \<longrightarrow> has MAZE_REACH t a b"
    using Cons.IH [OF u(2)] by blast
  have "has MAZE_REACH t a b" if "in_maze s a b" "has MAZE_REACH s a b \<or> (a, b) \<in> set (p # ps)" for a b
    using that u(5) t(5) by (auto simp: k(11) p)
  then show ?case using u(1,4) t(1,2,4) maze_kept_trans [OF u(3) t(3)] by (auto simp: p)
qed auto

text \<open>The border spaces next to the player are seen on one side of the window only.\<close>

lemma border_near_player:
  fixes s :: "'a game_scheme"
  assumes "view_at s" "pan_ok s" "play_x s = 12 * a" "0 < a" "a < 2 * maze_x_dim s" "a - 2 \<le> x" "x \<le> a + 2"
  shows "border_unseen s x"
proof -
  have v: "14 \<le> maze_x_dim s" "show_x s + 60 \<le> 12 * a \<or> show_x s = 6" "12 * a \<le> show_x s + 248 \<or> show_x s + 320 = 24 * maze_x_dim s + 6"
    using assms(1-3) by (simp_all add: view_at_def pan_ok_def)
  have "show_x s + 320 \<le> 24 * maze_x_dim s" if "x = 0" using that v(1,2) assms(4,6) view_at_words(5) [OF assms(1)] by linarith
  moreover have "12 \<le> show_x s" if "x = 2 * maze_x_dim s" using that v(1,3) assms(5,7) by linarith
  ultimately show ?thesis by (simp add: border_unseen_def)
qed

definition exit_reached :: "'a maze_game_scheme \<Rightarrow> int \<Rightarrow> int \<Rightarrow> bool" where
  "exit_reached s a b \<longleftrightarrow> n_fruits s = 0 \<and> has MAZE_EXIT s a b"

lemma around_near: "(x, y) \<in> set (around a b) \<Longrightarrow> a - 2 \<le> x \<and> x \<le> a + 2"
  by (auto simp: around_def)

lemma unveil_around_level:
  fixes s :: "'a game_scheme"
  assumes "level_ok blocks s" "blocks_ok blocks" "view_at s" "pan_ok s"
    and "play_x s = 12 * a" "play_y s = 12 * b" "0 < a" "a < 2 * maze_x_dim s" "0 < b" "b < 2 * maze_y_dim s"
  shows "\<exists>t. unveil_around_player blocks (play_x s) (play_y s) s = Some (exit_reached t a b, t) \<and> level_ok blocks t \<and> maze_kept s t \<and>
    n_fruits t = n_fruits s - of_bool (fruit_number (cell s a b) \<noteq> 0) \<and>
    (\<forall>x y. (x, y) \<in> set (around a b) \<and> in_maze s x y \<longrightarrow> has MAZE_REACH t x y)"
proof -
  have d: "play_x s sdiv 12 = a" "play_y s sdiv 12 = b" using assms(5-10) by (simp_all add: sdiv_nonneg)
  have c: "0 \<le> a \<and> a < 2 * maze_x_dim s \<and> 0 \<le> b \<and> b < 2 * maze_y_dim s" using assms(7-10) by simp
  obtain u where u: "check_for_fruit blocks a b s = Some (fruit_number (cell s a b), u)" "level_ok blocks u" "maze_kept s u"
    "n_fruits u = n_fruits s - of_bool (fruit_number (cell s a b) \<noteq> 0)"
    using check_for_fruit_level [OF assms(1,2), of a b] c by auto
  note k = maze_keptD [OF u(3)]
  have "\<forall>(x, y) \<in> set (around a b). border_unseen u x"
    using border_near_player [OF assms(3,4,5,7,8)] around_near [of _ _ a b] by (auto simp: border_unseen_def k)
  then obtain t where t: "unveil_spaces blocks (around a b) u = Some t" "level_ok blocks t" "maze_kept u t" "n_fruits t = n_fruits u"
    "\<forall>x y. in_maze u x y \<and> (has MAZE_REACH u x y \<or> (x, y) \<in> set (around a b)) \<longrightarrow> has MAZE_REACH t x y"
    using unveil_spaces_level [OF u(2) assms(2)] by blast
  note k' = maze_keptD [OF maze_kept_trans [OF u(3) t(3)]]
  have "in_maze s a b" using c by (simp add: in_maze_def)
  then have "maze_get a b t = Some (cell t a b)"
    using t(2) by (intro maze_get_cell) (simp_all add: level_ok_def window_ok_def k'(10) in_maze_near)
  then have "check_for_win a b t = Some (exit_reached t a b)"
    using c by (simp add: check_for_win_def exit_reached_def k')
  then have "unveil_around_player blocks (play_x s) (play_y s) s = Some (exit_reached t a b, t)"
    using u(1) t(1) by (simp add: unveil_around_player_def Let_def d)
  then show ?thesis using t(2,4,5) u(4) maze_kept_trans [OF u(3) t(3)] by (auto simp: k(11))
qed

subsection \<open>Turning back\<close>

text \<open>The invariant without the maze: it does not depend on what a tick leaves as it is.\<close>

definition walk_ok :: "'a game_scheme \<Rightarrow> bool" where
  "walk_ok s \<longleftrightarrow> (\<exists>a b. player_at a b s \<and> move_cnt s < 12) \<and> (next_dir s = DIR_STOP \<longrightarrow> dir s = DIR_STOP)"

definition game_ok :: "block_images \<Rightarrow> 'a game_scheme \<Rightarrow> bool" where
  "game_ok blocks s \<longleftrightarrow> level_ok blocks s \<and> border_walls s \<and> view_at s \<and> pan_ok s \<and> walk_ok s"

lemma opposite_step:
  assumes "opposite d e"
  shows "fst (step_dir e) = - fst (step_dir d)" "snd (step_dir e) = - snd (step_dir d)" "e \<noteq> DIR_STOP" "d \<noteq> DIR_STOP"
  using assms by (auto simp: opposite_def)

lemma turn_back_walk:
  fixes s :: "'a game_scheme"
  assumes "walk_ok s"
  shows "walk_ok (turn_back s)"
proof (cases "next_dir s \<noteq> dir s \<and> opposite (dir s) (next_dir s)")
  case False
  then have "turn_back s = s" by (auto simp: turn_back_def)
  then show ?thesis using assms by simp
next
  case True
  note o = opposite_step [OF conjunct2 [OF True]]
  obtain a b where p: "player_at a b s" "move_cnt s < 12" using assms by (auto simp: walk_ok_def)
  let ?t = "turn_back s"
  show ?thesis
  proof (cases "move_cnt s > 0")
    case False
    then have "move_cnt s = 0" using p(1) by (auto simp: player_at_def)
    then have "player_at a b ?t \<and> move_cnt ?t < 12" using p(1) True by (simp add: player_at_def turn_back_def open_space_def level_fields)
    moreover have "next_dir ?t \<noteq> DIR_STOP" using True o by (simp add: turn_back_def)
    ultimately show ?thesis unfolding walk_ok_def by blast
  next
    case pos: True
    have t: "?t = s\<lparr>move_cnt := 12 - move_cnt s, dir := next_dir s\<rparr>" using True pos by (simp add: turn_back_def)
    have "player_at (a - fst (step_dir (dir s))) (b - snd (step_dir (dir s))) ?t"
      using p pos o(1-3) by (auto simp: t player_at_def open_space_def level_fields algebra_simps)
    moreover have "move_cnt ?t < 12" "next_dir ?t \<noteq> DIR_STOP" using pos True o by (simp_all add: t)
    ultimately show ?thesis unfolding walk_ok_def by blast
  qed
qed

lemma turn_back_other:
  fixes s :: "'a game_scheme"
  shows "level_ok blocks (turn_back s) = level_ok blocks s" "border_walls (turn_back s) = border_walls s"
    "view_at (turn_back s) = view_at s" "pan_ok (turn_back s) = pan_ok s"
  by (simp_all add: turn_back_def border_walls_def view_at_def pan_ok_def level_fields Let_def)

lemma turn_back_game: "game_ok blocks s \<Longrightarrow> game_ok blocks (turn_back s)"
  by (simp add: game_ok_def turn_back_other turn_back_walk)

subsection \<open>Choosing a direction\<close>

lemma open_neighbour:
  fixes s :: "'a game_scheme"
  assumes "border_walls s" "open_space s a b" "\<not> has MAZE_WALL s (a + fst (step_dir d)) (b + snd (step_dir d))"
  shows "open_space s (a + fst (step_dir d)) (b + snd (step_dir d))"
proof -
  define x where "x = a + fst (step_dir d)"
  define y where "y = b + snd (step_dir d)"
  have "in_maze s x y" using assms(2) unfolding x_def y_def by (cases d) (auto simp: open_space_def in_maze_def)
  then have "x \<noteq> 0 \<and> x \<noteq> 2 * maze_x_dim s \<and> y \<noteq> 0 \<and> y \<noteq> 2 * maze_y_dim s"
    using assms(1,3) unfolding border_walls_def x_def [symmetric] y_def [symmetric] by blast
  then show ?thesis using \<open>in_maze s x y\<close> assms(3) unfolding x_def [symmetric] y_def [symmetric] by (simp add: open_space_def in_maze_def)
qed

lemma find_open_eq:
  assumes "maze_arr_ok s" "in_maze s a b"
  shows "find_open_directions a b s =
    Some (map (\<lambda>d. \<not> has MAZE_WALL s (a + fst (step_dir d)) (b + snd (step_dir d))) [DIR_UP, DIR_RIGHT, DIR_DOWN, DIR_LEFT])"
  using maze_get_cell [OF assms(1)] in_maze_near [OF assms(2)] by (simp add: find_open_directions_def is_open_def)

lemma choose_dir_eq:
  fixes s :: "'a game_scheme" and P :: "dir_t \<Rightarrow> bool"
  assumes "next_dir s = DIR_STOP \<longrightarrow> dir s = DIR_STOP"
  defines "e \<equiv> (if next_dir s \<noteq> DIR_STOP \<and> P (next_dir s) then next_dir s else dir s)"
  shows "choose_dir beyond (map P [DIR_UP, DIR_RIGHT, DIR_DOWN, DIR_LEFT]) s =
    Some (if e = DIR_STOP then s\<lparr>dir := DIR_STOP\<rparr> else if P e then s\<lparr>dir := e, move_cnt := 12\<rparr> else s\<lparr>dir := DIR_STOP\<rparr>)"
proof -
  let ?o = "map P [DIR_UP, DIR_RIGHT, DIR_DOWN, DIR_LEFT]"
  have at: "arr_get ?o (int (dir_number k)) = Some (P k)" if "k \<noteq> DIR_STOP" for k
    using that by (cases k) (simp_all add: arr_get_def)
  have at5: "arr_get (?o @ [beyond]) (int (dir_number k)) = Some (if k = DIR_STOP then beyond else P k)" for k
    by (cases k) (simp_all add: arr_get_def)
  have same: "s\<lparr>dir := dir s\<rparr> = s" by simp
  show ?thesis
  proof (cases "next_dir s = DIR_STOP")
    case True
    then have d: "dir s = DIR_STOP" using assms(1) by simp
    then have "s\<lparr>dir := DIR_STOP\<rparr> = s" using same by simp
    then show ?thesis using True d unfolding e_def choose_dir_def at5 by simp
  next
    case False
    define u where "u = (if P (next_dir s) then s\<lparr>dir := next_dir s\<rparr> else s)"
    have e: "dir u = e" "s\<lparr>dir := e\<rparr> = u" using False by (simp_all add: u_def e_def)
    have c: "choose_dir beyond ?o s = (if e \<noteq> DIR_STOP then do {
       go \<leftarrow> arr_get ?o (int (dir_number e));
       Some (if \<not> go then u\<lparr>dir := DIR_STOP\<rparr> else if e = DIR_UP \<or> e = DIR_DOWN then u\<lparr>move_cnt := 12\<rparr> else u\<lparr>move_cnt := 12\<rparr>)
     } else Some u)" unfolding choose_dir_def at5 Let_def e(1) [symmetric] by (simp only: False if_False u_def bind.bind_lunit)
    show ?thesis unfolding c using at [of e] e(2) by (cases "e = DIR_STOP") auto
  qed
qed

subsection \<open>A tick\<close>

text \<open>At a space: the maze around it is unveiled, and the player goes on to an open neighbour, or stops.
  What is behind the array of open directions does not matter.\<close>

lemma new_square_game:
  fixes s :: "'a game_scheme"
  assumes "game_ok blocks s" "blocks_ok blocks" "move_cnt s = 0" "player_at a b s"
  shows "\<exists>t. (\<forall>beyond. new_square blocks beyond s = Some (exit_reached t a b, t)) \<and> level_ok blocks t \<and> border_walls t \<and> view_at t \<and> pan_ok t \<and>
    play_x t = play_x s \<and> play_y t = play_y s \<and> next_dir t = next_dir s \<and> (next_dir t = DIR_STOP \<longrightarrow> dir t = DIR_STOP) \<and>
    n_fruits t = n_fruits s - of_bool (fruit_number (cell s a b) \<noteq> 0) \<and>
    (\<forall>x y. (x, y) \<in> set (around a b) \<and> in_maze s x y \<longrightarrow> has MAZE_REACH t x y) \<and> has MAZE_EXIT t a b = has MAZE_EXIT s a b \<and>
    (if exit_reached t a b \<or> dir t = DIR_STOP then move_cnt t = 0 \<and> open_space t a b
     else player_at (a + fst (step_dir (dir t))) (b + snd (step_dir (dir t))) t \<and> move_cnt t = 12)"
proof -
  have g: "level_ok blocks s" "border_walls s" "view_at s" "pan_ok s" "next_dir s = DIR_STOP \<longrightarrow> dir s = DIR_STOP"
    using assms(1) by (simp_all add: game_ok_def walk_ok_def)
  have p: "open_space s a b" "play_x s = 12 * a" "play_y s = 12 * b" using assms(3,4) by (simp_all add: player_at_def)
  have i: "0 < a" "a < 2 * maze_x_dim s" "0 < b" "b < 2 * maze_y_dim s" using p(1) by (simp_all add: open_space_def)
  obtain u where u: "unveil_around_player blocks (play_x s) (play_y s) s = Some (exit_reached u a b, u)" "level_ok blocks u" "maze_kept s u"
    "n_fruits u = n_fruits s - of_bool (fruit_number (cell s a b) \<noteq> 0)"
    "\<forall>x y. (x, y) \<in> set (around a b) \<and> in_maze s x y \<longrightarrow> has MAZE_REACH u x y"
    using unveil_around_level [OF g(1) assms(2) g(3,4) p(2,3) i] by blast
  note k = kept_game [OF u(3)] kept_walls [OF u(3)]
  have ex: "has MAZE_EXIT u a b = has MAZE_EXIT s a b"
    using maze_keptD(16) [OF u(3)] in_maze_near(1) [of s a b] i by (simp add: in_maze_def)
  have ok: "border_walls u" "view_at u" "pan_ok u" "open_space u a b" "next_dir u = DIR_STOP \<longrightarrow> dir u = DIR_STOP"
    using g p(1) by (simp_all add: k)
  show ?thesis
  proof (cases "exit_reached u a b")
    case True
    then have "\<forall>beyond. new_square blocks beyond s = Some (exit_reached u a b, u)" using u(1) by (simp add: new_square_def)
    then show ?thesis using u ok ex True assms(3) by (intro exI [of _ u]) (simp add: k)
  next
    case False
    have d: "play_x s sdiv 12 = a" "play_y s sdiv 12 = b" using p i by (simp_all add: sdiv_nonneg)
    let ?P = "\<lambda>d. \<not> has MAZE_WALL u (a + fst (step_dir d)) (b + snd (step_dir d))"
    define e where "e = (if next_dir u \<noteq> DIR_STOP \<and> ?P (next_dir u) then next_dir u else dir u)"
    define t where "t = (if e = DIR_STOP then u\<lparr>dir := DIR_STOP\<rparr> else if ?P e then u\<lparr>dir := e, move_cnt := 12\<rparr> else u\<lparr>dir := DIR_STOP\<rparr>)"
    have "maze_arr_ok u" "in_maze u a b" using u(2) ok(4) by (simp_all add: level_ok_def window_ok_def open_space_def in_maze_def)
    then have "find_open_directions a b u = Some (map ?P [DIR_UP, DIR_RIGHT, DIR_DOWN, DIR_LEFT])" by (rule find_open_eq)
    then have n: "\<forall>beyond. new_square blocks beyond s = Some (False, t)"
      using u(1) False choose_dir_eq [OF ok(5), of _ ?P, folded e_def, folded t_def] d by (simp add: new_square_def k)
    have same: "level_ok blocks t" "border_walls t" "view_at t" "pan_ok t" "play_x t = play_x s" "play_y t = play_y s" "next_dir t = next_dir s"
      "n_fruits t = n_fruits u" "\<And>x y. cell t x y = cell u x y" "\<And>x y. open_space t x y = open_space u x y"
      using u(2) ok by (simp_all add: t_def border_walls_def view_at_def pan_ok_def open_space_def level_fields k)
    have stop: "next_dir t = DIR_STOP \<longrightarrow> dir t = DIR_STOP" using ok(5) by (auto simp: t_def e_def same(7) k)
    have w: "exit_reached t a b = exit_reached u a b" by (simp add: exit_reached_def same)
    show ?thesis
    proof (cases "dir t = DIR_STOP")
      case True
      then have "move_cnt t = 0" using assms(3) by (auto simp: t_def k split: if_splits)
      moreover have "open_space t a b" using ok(4) by (simp only: same(10))
      ultimately have "move_cnt t = 0 \<and> open_space t a b" by blast
      then show ?thesis using n False same u(4,5) True w stop ex by (intro exI [of _ t]) simp
    next
      case run: False
      then have e: "e \<noteq> DIR_STOP" "?P e" "dir t = e" "move_cnt t = 12" by (auto simp: t_def split: if_splits)
      have "open_space t (a + fst (step_dir e)) (b + snd (step_dir e))"
        using open_neighbour [OF ok(1,4) e(2)] by (simp add: same)
      then have "player_at (a + fst (step_dir (dir t))) (b + snd (step_dir (dir t))) t"
        using e ok(4) p by (simp add: player_at_def same)
      then show ?thesis using n False same u(4,5) run e w stop ex by (intro exI [of _ t]) simp
    qed
  qed
qed

lemma player_on_map:
  fixes s :: "'a game_scheme"
  assumes "view_at s" "player_at a b s" shows "on_map s"
proof -
  define dx where "dx = fst (step_dir (dir s))"
  define dy where "dy = snd (step_dir (dir s))"
  have p: "play_x s = 12 * a - move_cnt s * dx" "play_y s = 12 * b - move_cnt s * dy" "open_space s a b"
    "move_cnt s = 0 \<or> (0 < move_cnt s \<and> move_cnt s \<le> 12 \<and> open_space s (a - dx) (b - dy))"
    using assms(2) by (auto simp: player_at_def dx_def dy_def)
  have d: "dx \<in> {-1, 0, 1}" "dy \<in> {-1, 0, 1}" by (cases "dir s"; simp add: dx_def dy_def)+
  have v: "maze_x_dim s \<le> 50" "maze_y_dim s \<le> 30" using assms(1) by (simp_all add: view_at_def)
  show ?thesis using p d v by (auto simp: on_map_def open_space_def)
qed

text \<open>One pixel on the way to the next space.\<close>

lemma step_game:
  fixes s :: "'a game_scheme"
  assumes "level_ok blocks s" "blocks_ok blocks" "border_walls s" "view_at s" "pan_ok s" "player_at a b s" "0 < move_cnt s" "move_cnt s \<le> 12"
    and "next_dir s = DIR_STOP \<longrightarrow> dir s = DIR_STOP"
  shows "\<exists>t. move_player blocks (s\<lparr>last_dir := dir s, move_cnt := move_cnt s - 1\<rparr>) = Some t \<and> game_ok blocks t \<and> n_fruits t = n_fruits s \<and>
    dir t = dir s \<and> last_dir t = dir s \<and> move_cnt t = move_cnt s - 1 \<and> player_at a b t \<and>
    play_x t = play_x s + fst (step_dir (dir s)) \<and> play_y t = play_y s + snd (step_dir (dir s))"
proof -
  let ?s = "s\<lparr>last_dir := dir s, move_cnt := move_cnt s - 1\<rparr>"
  have "on_map ?s" using player_on_map [OF assms(4,6)] by (simp add: on_map_def)
  moreover have "level_ok blocks ?s" "view_at ?s" "pan_ok ?s" using assms by (simp_all add: level_fields view_at_def pan_ok_def)
  ultimately obtain t where t: "move_player blocks ?s = Some t" "level_ok blocks t" "view_at t" "pan_ok t"
    "moved_by (fst (step_dir (dir ?s))) (snd (step_dir (dir ?s))) ?s t" using move_player_level [of blocks ?s] assms(2) by blast
  have w: "walls_kept ?s t" using t(5) by (simp add: moved_by_def)
  have o: "open_space t x y = open_space s x y" for x y using walls_kept_walls(1) [OF w] by (simp add: open_space_def level_fields)
  have "border_walls ?s" using assms(3) by (simp add: border_walls_def level_fields)
  then have b: "border_walls t" using walls_kept_walls(2) [OF w] by simp
  have f: "dir t = dir s" "last_dir t = dir s" "move_cnt t = move_cnt s - 1" "next_dir t = next_dir s" "n_fruits t = n_fruits s"
    using w by (simp_all add: walls_kept_def level_fields)
  have "player_at a b t" using assms(6-8) t(5) by (auto simp: player_at_def o f moved_by_def algebra_simps)
  moreover have "walk_ok t" using calculation assms(8,9) by (auto simp: walk_ok_def f)
  ultimately show ?thesis using t(1-4) b f t(5) by (auto simp: game_ok_def moved_by_def)
qed

text \<open>The whole tick.\<close>

lemma tick_game:
  fixes s :: "'a game_scheme"
  assumes "game_ok blocks s" "blocks_ok blocks"
  shows "\<exists>won t. (\<forall>beyond. tick blocks beyond s = Some (won, t)) \<and> game_ok blocks t \<and> \<bar>play_x t - play_x s\<bar> + \<bar>play_y t - play_y s\<bar> \<le> 1"
proof -
  define s' where "s' = turn_back s"
  have g: "game_ok blocks s'" unfolding s'_def by (rule turn_back_game [OF assms(1)])
  then obtain a b where p: "player_at a b s'" "move_cnt s' < 12" by (auto simp: game_ok_def walk_ok_def)
  note ok = g [unfolded game_ok_def walk_ok_def]
  have pl: "play_x s' = play_x s" "play_y s' = play_y s" by (simp_all add: s'_def turn_back_def Let_def)
  have unit: "\<bar>fst (step_dir d)\<bar> + \<bar>snd (step_dir d)\<bar> \<le> 1" for d by (cases d) simp_all
  show ?thesis
  proof (cases "move_cnt s' = 0")
    case False
    then have c: "0 < move_cnt s'" "move_cnt s' \<le> 12" "dir s' \<noteq> DIR_STOP" using p by (auto simp: player_at_def)
    obtain t where t: "move_player blocks (s'\<lparr>last_dir := dir s', move_cnt := move_cnt s' - 1\<rparr>) = Some t" "game_ok blocks t"
      "play_x t = play_x s' + fst (step_dir (dir s'))" "play_y t = play_y s' + snd (step_dir (dir s'))"
      using step_game [OF _ assms(2) _ _ _ p(1) c(1,2)] ok by blast
    then have "tick blocks beyond s = Some (False, t)" for beyond
      using False c(3) by (simp add: tick_def s'_def [symmetric])
    then show ?thesis using t(2-4) unit [of "dir s'"] by (auto simp: pl)
  next
    case True
    obtain u where u: "\<And>beyond. new_square blocks beyond s' = Some (exit_reached u a b, u)" "level_ok blocks u" "border_walls u" "view_at u" "pan_ok u"
      "play_x u = play_x s'" "play_y u = play_y s'" "next_dir u = DIR_STOP \<longrightarrow> dir u = DIR_STOP"
      "if exit_reached u a b \<or> dir u = DIR_STOP then move_cnt u = 0 \<and> open_space u a b
       else player_at (a + fst (step_dir (dir u))) (b + snd (step_dir (dir u))) u \<and> move_cnt u = 12"
      using new_square_game [OF g assms(2) True p(1)] by blast
    show ?thesis
    proof (cases "exit_reached u a b \<or> dir u = DIR_STOP")
      case stop: True
      then have "player_at a b u" "move_cnt u < 12" using u(6,7,9) p(1) True by (simp_all add: player_at_def)
      then have "game_ok blocks u" using u(2-5,8) by (auto simp: game_ok_def walk_ok_def)
      moreover have "tick blocks beyond s = Some (exit_reached u a b, u)" for beyond
        using stop True u(1) by (auto simp: tick_def s'_def [symmetric])
      ultimately show ?thesis using u(6,7) by (auto simp: pl)
    next
      case run: False
      then have c: "player_at (a + fst (step_dir (dir u))) (b + snd (step_dir (dir u))) u" "move_cnt u = 12" using u(9) by simp_all
      obtain t where t: "move_player blocks (u\<lparr>last_dir := dir u, move_cnt := move_cnt u - 1\<rparr>) = Some t" "game_ok blocks t"
        "play_x t = play_x u + fst (step_dir (dir u))" "play_y t = play_y u + snd (step_dir (dir u))"
        using step_game [OF u(2) assms(2) u(3-5) c(1) _ _ u(8)] c(2) by auto
      have "tick blocks beyond s = Some (False, t)" for beyond
        using run True u(1) t(1) by (simp add: tick_def s'_def [symmetric])
      then show ?thesis using t(2-4) u(6,7) unit [of "dir u"] by (auto simp: pl)
    qed
  qed
qed

end
