(* ===== verification/GameFrame.thy ===== *)
theory GameFrame
  imports GameTick ModexTheorems
begin

text \<open>
  Drawing a frame: the player is drawn into the picture, the picture is shown, and what was under
  the player is put back. With that, everything the threads do keeps the invariant of a level.
\<close>

subsection \<open>Showing the screen\<close>

definition screen_kept :: "'a modex_scheme \<Rightarrow> 'a modex_scheme \<Rightarrow> bool" where
  "screen_kept s t \<longleftrightarrow> t = s\<lparr>build := build t, g_mask := g_mask t, target_img := target_img t, vram := vram t, write_mask := write_mask t,
     crtc := crtc t\<rparr> \<and> length (g_mask t) = length (g_mask s)"

lemma screen_kept_trans:
  assumes "screen_kept s t" "screen_kept t u" shows "screen_kept s u"
proof -
  obtain b g ti v w c where t: "t = s\<lparr>build := b, g_mask := g, target_img := ti, vram := v, write_mask := w, crtc := c\<rparr>"
    using assms(1) unfolding screen_kept_def by blast
  obtain b' g' ti' v' w' c' where u: "u = t\<lparr>build := b', g_mask := g', target_img := ti', vram := v', write_mask := w', crtc := c'\<rparr>"
    using assms(2) unfolding screen_kept_def by blast
  show ?thesis using assms unfolding screen_kept_def by (simp add: t u)
qed

lemma drawn_screen: "drawn s t \<Longrightarrow> screen_kept s t"
  unfolding drawn_def screen_kept_def by (elim conjE, erule ssubst) simp

lemma masked_screen:
  assumes "masked s t" shows "screen_kept s t"
proof -
  obtain u where u: "drawn s u" "t = u\<lparr>g_mask := g_mask t\<rparr>" "length (g_mask t) = length (g_mask s)"
    using assms unfolding masked_def by blast
  obtain b where b: "u = s\<lparr>build := b\<rparr>" using u(1) unfolding drawn_def by blast
  have "t = s\<lparr>build := b, g_mask := g_mask t\<rparr>" using u(2) unfolding b .
  then obtain g where t: "t = s\<lparr>build := b, g_mask := g\<rparr>" by blast
  show ?thesis using u(3) by (simp add: screen_kept_def t)
qed

lemma copy_bytes_screen: "copy_bytes img scr k s = Some t \<Longrightarrow> screen_kept s t"
proof (induction k arbitrary: img scr s)
  case (Suc k)
  then obtain b where "copy_bytes (img + 1) (scr + 1) k (vram_write scr b s) = Some t" by (auto simp: bind_Some_iff)
  from Suc.IH [OF this] show ?case by (rule screen_kept_trans [rotated]) (simp add: screen_kept_def vram_write_def)
qed (simp add: screen_kept_def)

lemma show_planes_screen: "show_planes addr p i k s = Some t \<Longrightarrow> screen_kept s t"
proof (induction k arbitrary: i s)
  case (Suc k)
  let ?s = "SET_WRITE_MASK (push_bit (i + 8) 1) s"
  obtain u where u: "copy_image (addr + (p - int i + 4) mod 4 * SCROLL_SIZE + of_bool (p < int i)) (target_img s) ?s = Some u"
    "show_planes addr p (i + 1) k u = Some t" using Suc.prems by (auto simp: bind_Some_iff SET_WRITE_MASK_def)
  have "screen_kept s ?s" by (simp add: SET_WRITE_MASK_def screen_kept_def)
  moreover have "screen_kept ?s u" using copy_bytes_screen u(1) unfolding copy_image_def by blast
  ultimately show ?case using screen_kept_trans Suc.IH [OF u(2)] by blast
qed (simp add: screen_kept_def)

lemma show_screen_screen:
  assumes "show_screen s = Some t" shows "screen_kept s t"
proof -
  let ?s = "s\<lparr>target_img := target_img s XOR 0x4000\<rparr>"
  obtain u a b where u: "show_planes (img3 s + show_x s div 4 + show_y s * 80) (3 - show_x s mod 4) 0 4 ?s = Some u"
    "t = outw_crtc a (outw_crtc b u)" using assms by (auto simp: show_screen_def Let_def bind_Some_iff)
  have "screen_kept s ?s" "screen_kept u t" by (simp_all add: screen_kept_def u(2) outw_crtc_def)
  then show ?thesis using show_planes_screen [OF u(1)] screen_kept_trans by blast
qed

text \<open>Nothing in the invariant but the picture depends on the screen.\<close>

lemma screen_game:
  fixes s t :: "'a game_scheme"
  assumes "screen_kept s t"
  shows "view_at t = view_at s" "pan_ok t = pan_ok s" "walk_ok t = walk_ok s" "border_walls t = border_walls s"
    "window_ok t = window_ok s" "fruits_ok t = fruits_ok s" "exit_ok t = exit_ok s" "maze_pic blocks t x y = maze_pic blocks s x y"
    "in_view t x y = in_view s x y" "play_x t = play_x s" "play_y t = play_y s" "last_dir t = last_dir s" "cell t x y = cell s x y"
    "maze_x_dim t = maze_x_dim s" "maze_y_dim t = maze_y_dim s" "n_fruits t = n_fruits s" "pixel_index t x y = pixel_index s x y"
proof -
  obtain b g ti v w c where t: "t = s\<lparr>build := b, g_mask := g, target_img := ti, vram := v, write_mask := w, crtc := c\<rparr>"
    and g: "length g = length (g_mask s)" using assms unfolding screen_kept_def by (metis modex.select_convs(6) modex.surjective)
  have cell: "cell t x y = cell s x y" for x y by (simp add: t cell_def MAZE_INDEX_def)
  show "view_at t = view_at s" "pan_ok t = pan_ok s" by (simp_all add: t g view_at_def pan_ok_def)
  have o: "open_space t x y = open_space s x y" for x y by (simp add: open_space_def cell) (simp add: t)
  have f: "move_cnt t = move_cnt s" "dir t = dir s" "next_dir t = next_dir s" "play_x t = play_x s" "play_y t = play_y s" by (simp_all add: t)
  have "player_at x y t = player_at x y s" for x y by (simp add: player_at_def o f)
  then show "walk_ok t = walk_ok s" by (simp add: walk_ok_def f)
  have m: "in_maze t x y = in_maze s x y" "maze_x_dim t = maze_x_dim s" "maze_y_dim t = maze_y_dim s" "n_fruits t = n_fruits s"
    "exit_x t = exit_x s" "exit_y t = exit_y s" for x y by (simp_all add: in_maze_def) (simp_all add: t)
  show "border_walls t = border_walls s" by (simp add: border_walls_def cell m)
  show "window_ok t = window_ok s" by (simp add: t window_ok_def maze_arr_ok_def view_ok_def)
  show "fruits_ok t = fruits_ok s" by (simp add: fruits_ok_def fruit_spaces_def cell m)
  show "exit_ok t = exit_ok s" by (simp add: exit_ok_def cell m)
  show "maze_pic blocks t x y = maze_pic blocks s x y" by (simp add: maze_pic_def block_no_def cell m)
  show "in_view t x y = in_view s x y" "play_x t = play_x s" "play_y t = play_y s" "last_dir t = last_dir s"
    "maze_x_dim t = maze_x_dim s" "maze_y_dim t = maze_y_dim s" "n_fruits t = n_fruits s" "pixel_index t x y = pixel_index s x y"
    by (simp_all add: t in_view_def pixel_index_def)
  show "cell t x y = cell s x y" by (rule cell)
qed

subsection \<open>The player on the picture\<close>

lemma player_inside:
  fixes s :: "'a game_scheme"
  assumes "view_at s" "pan_ok s" "player_at a b s"
  shows "show_x s \<le> play_x s" "play_x s + 12 \<le> show_x s + 320" "show_y s \<le> play_y s" "play_y s + 12 \<le> show_y s + 182"
proof -
  define dx where "dx = fst (step_dir (dir s))"
  define dy where "dy = snd (step_dir (dir s))"
  have p: "play_x s = 12 * a - move_cnt s * dx" "play_y s = 12 * b - move_cnt s * dy" "open_space s a b"
    "move_cnt s = 0 \<or> (0 < move_cnt s \<and> move_cnt s \<le> 12 \<and> open_space s (a - dx) (b - dy))"
    using assms(3) by (auto simp: player_at_def dx_def dy_def)
  have d: "dx \<in> {-1, 0, 1}" "dy \<in> {-1, 0, 1}" by (cases "dir s"; simp add: dx_def dy_def)+
  have "12 \<le> play_x s" "play_x s + 12 \<le> 24 * maze_x_dim s" "12 \<le> play_y s" "play_y s + 12 \<le> 24 * maze_y_dim s"
    using p d by (auto simp: open_space_def)
  then show "show_x s \<le> play_x s" "play_x s + 12 \<le> show_x s + 320" "show_y s \<le> play_y s" "play_y s + 12 \<le> show_y s + 182"
    using assms(2) unfolding pan_ok_def by linarith+
qed

lemma shows_level: "level_ok blocks s \<Longrightarrow> shows_pic (maze_pic blocks s) s"
  by (simp add: level_ok_def shows_but_def shows_pic_def)

lemma same_buffer_pic: "same_buffer s t \<Longrightarrow> shows_pic f t = shows_pic f s" "same_buffer s t \<Longrightarrow> view_ok t = view_ok s"
  by (simp_all add: same_buffer_def shows_pic_def in_view_def pix_def pixel_index_def view_ok_def)

text \<open>The picture with the player, for the player's place and last direction.\<close>

definition player_pic :: "block_images \<Rightarrow> 'a game_scheme \<Rightarrow> int \<Rightarrow> int \<Rightarrow> u8" where
  "player_pic blocks s = with_masked (play_x s) (play_y s) (blocks (BLOCK_PLAYER_UP + dir_number (last_dir s)))
     (blocks (BLOCK_PLAYER_MASK_UP + dir_number (last_dir s))) (maze_pic blocks s)"

lemma draw_player:
  fixes s :: "'a game_scheme"
  assumes "game_ok blocks s" "blocks_ok blocks"
  obtains t where "draw_mask_block (play_x s) (play_y s) (get_player_block blocks (last_dir s)) (get_player_mask blocks (last_dir s)) s = Some t"
    "masked s t" "shows_pic (player_pic blocks s) t" "with_block (play_x s) (play_y s) (g_mask t) (maze_pic blocks s) = maze_pic blocks s"
proof -
  have g: "level_ok blocks s" "view_at s" "pan_ok s" using assms(1) by (simp_all add: game_ok_def)
  obtain a b where p: "player_at a b s" using assms(1) by (auto simp: game_ok_def walk_ok_def)
  have "view_ok s" "length (g_mask s) = 144" using g(1,2) by (simp_all add: level_ok_def window_ok_def view_at_def)
  then show ?thesis
    using draw_mask_block_shows [OF _ shows_level [OF g(1)] player_inside [OF g(2,3) p], of
        "get_player_block blocks (last_dir s)" "get_player_mask blocks (last_dir s)"] assms(2) that
    by (auto simp: player_pic_def get_player_block_def get_player_mask_def blocks_ok_def)
qed

text \<open>Putting back what was under the player.\<close>

lemma remove_player:
  fixes s :: "'a game_scheme"
  assumes "game_ok blocks s" "screen_kept s t" "shows_pic (player_pic blocks s) t"
    and "with_block (play_x s) (play_y s) (g_mask t) (maze_pic blocks s) = maze_pic blocks s"
  obtains u where "draw_full_block (play_x t) (play_y t) (g_mask t) t = Some u" "game_ok blocks u" "drawn t u"
proof -
  note f = screen_game [OF assms(2)]
  have w: "view_ok t" "length (g_mask t) = 144" using assms(1) f(1,5) by (auto simp: game_ok_def level_ok_def window_ok_def view_at_def)
  obtain u where u: "draw_full_block (play_x t) (play_y t) (g_mask t) t = Some u" "drawn t u"
    "shows_pic (with_block (play_x t) (play_y t) (g_mask t) (player_pic blocks s)) u"
    using draw_full_block_shows [OF w(1) assms(3) w(2)] by blast
  have k: "screen_kept s u" using screen_kept_trans [OF assms(2) drawn_screen [OF u(2)]] .
  note f' = screen_game [OF k]
  have "shows_pic (maze_pic blocks u) u" using u(3) assms(4) by (simp add: f(10,11) player_pic_def with_block_masked f'(8) [abs_def])
  then have "maze_shown blocks u" by (simp add: shows_but_def shows_pic_def)
  then have "game_ok blocks u" using assms(1) f'(1-7) by (simp add: game_ok_def level_ok_def)
  then show ?thesis using that u(1,2) by blast
qed

lemma show_player:
  fixes s :: "'a game_scheme"
  assumes "game_ok blocks s" "masked s t" "shows_pic (player_pic blocks s) t" "show_screen t = Some u"
    and "with_block (play_x s) (play_y s) (g_mask t) (maze_pic blocks s) = maze_pic blocks s"
  obtains v where "draw_full_block (play_x u) (play_y u) (g_mask u) u = Some v" "game_ok blocks v" "drawn u v"
proof -
  have b: "same_buffer t u" using show_screen_same [OF assms(4)] .
  have k: "screen_kept s u" using screen_kept_trans [OF masked_screen [OF assms(2)] show_screen_screen [OF assms(4)]] .
  show ?thesis
    using remove_player [OF assms(1) k] that assms(3,5) same_buffer_pic(1) [OF b] b by (auto simp: same_buffer_def)
qed

lemma draw_frame_game:
  fixes s :: "'a game_scheme"
  assumes "game_ok blocks s" "blocks_ok blocks" "draw_frame blocks s = Some v"
  shows "game_ok blocks v"
proof -
  obtain t where t: "draw_mask_block (play_x s) (play_y s) (get_player_block blocks (last_dir s)) (get_player_mask blocks (last_dir s)) s = Some t"
    "masked s t" "shows_pic (player_pic blocks s) t" "with_block (play_x s) (play_y s) (g_mask t) (maze_pic blocks s) = maze_pic blocks s"
    using draw_player [OF assms(1,2)] by blast
  obtain u where u: "show_screen t = Some u" "draw_full_block (play_x u) (play_y u) (g_mask u) u = Some v"
    using assms(3) t(1) by (auto simp: draw_frame_def bind_Some_iff)
  show ?thesis using show_player [OF assms(1) t(2,3) u(1) t(4)] u(2) by auto
qed

lemma draw_frame_shows:
  fixes s :: "'a game_scheme"
  assumes "game_ok blocks s" "blocks_ok blocks"
    and "img3 s + show_x s div 4 + show_y s * 80 + 3 * SCROLL_SIZE + 16001 \<le> BUILD_BUF_SIZE + 512"
  shows "\<exists>v. draw_frame blocks s = Some v \<and> game_ok blocks v \<and> target_img v = target_img s XOR 0x4000 \<and>
    (\<forall>c<320. \<forall>r<182. vram v (c mod 4) (unat (target_img v) + r * 80 + c div 4) = player_pic blocks s (show_x s + int c) (show_y s + int r))"
proof -
  obtain t where t: "draw_mask_block (play_x s) (play_y s) (get_player_block blocks (last_dir s)) (get_player_mask blocks (last_dir s)) s = Some t"
    "masked s t" "shows_pic (player_pic blocks s) t" "with_block (play_x s) (play_y s) (g_mask t) (maze_pic blocks s) = maze_pic blocks s"
    using draw_player [OF assms(1,2)] by blast
  note m = masked_fields [OF t(2)]
  have ok: "view_ok t" using assms(1) m by (simp add: game_ok_def level_ok_def window_ok_def)
  have tt: "target_img t = target_img s" using t(2) unfolding masked_def drawn_def by (metis modex.select_convs(7) modex.surjective modex.update_convs(1,6))
  obtain u where u: "show_screen t = Some u" "target_img u = target_img t XOR 0x4000"
    "\<forall>c<320. \<forall>r<182. vram u (c mod 4) (unat (target_img u) + r * 80 + c div 4) = pix t (show_x t + int c) (show_y t + int r)"
    using show_screen_pix [OF ok] assms(3) m by auto
  obtain v where v: "draw_full_block (play_x u) (play_y u) (g_mask u) u = Some v" "game_ok blocks v" "drawn u v"
    using show_player [OF assms(1) t(2,3) u(1) t(4)] by blast
  obtain b where b: "v = u\<lparr>build := b\<rparr>" using v(3) unfolding drawn_def by blast
  have "pix t (show_x t + int c) (show_y t + int r) = player_pic blocks s (show_x s + int c) (show_y s + int r)" if "c < 320" "r < 182" for c r
    using t(3) that m by (simp add: shows_pic_def in_view_def)
  then have "\<forall>c<320. \<forall>r<182. vram v (c mod 4) (unat (target_img v) + r * 80 + c div 4) = player_pic blocks s (show_x s + int c) (show_y s + int r)"
    using u(3) by (simp add: b)
  moreover have "target_img v = target_img s XOR 0x4000" using u(2) tt by (simp add: b)
  moreover have "draw_frame blocks s = Some v" using t(1) u(1) v(1) by (simp add: draw_frame_def)
  ultimately show ?thesis using v(2) by blast
qed

subsection \<open>The steps of the threads\<close>

text \<open>One step of the clock thread with the mutex held, its drawing, a key, a button. The clock thread
  moves the player after it has released the mutex, but then it reads only what it alone writes.\<close>

inductive game_step :: "block_images \<Rightarrow> 'a game_scheme \<Rightarrow> 'a game_scheme \<Rightarrow> bool" for blocks where
  ticked: "tick blocks beyond s = Some (won, t) \<Longrightarrow> game_step blocks s t"
| framed: "draw_frame blocks s = Some t \<Longrightarrow> game_step blocks s t"
| key: "keyboard_key key state s = (quit, state', t) \<Longrightarrow> game_step blocks s t"
| button: "tux_command c s = t \<Longrightarrow> game_step blocks s t"

lemma steer_game:
  fixes s :: "'a game_scheme"
  assumes "game_ok blocks s" "d \<noteq> DIR_STOP"
  shows "game_ok blocks (s\<lparr>next_dir := d\<rparr>)"
proof -
  have "player_at a b (s\<lparr>next_dir := d\<rparr>) = player_at a b s" for a b by (simp add: player_at_def open_space_def level_fields)
  then show ?thesis using assms by (simp add: game_ok_def walk_ok_def border_walls_def view_at_def pan_ok_def level_fields)
qed

lemma keyboard_key_game:
  assumes "game_ok blocks s" "keyboard_key key state s = (quit, state', t)"
  shows "game_ok blocks t"
  using assms by (auto simp: keyboard_key_def arrow_key_def steer_game split: if_splits)

lemma tux_command_game: "game_ok blocks s \<Longrightarrow> game_ok blocks (tux_command c s)"
  by (simp add: tux_command_def Let_def steer_game)

lemma game_step_ok:
  assumes "game_step blocks s t" "game_ok blocks s" "blocks_ok blocks"
  shows "game_ok blocks t"
  using assms
proof cases
  case (ticked beyond won)
  then show ?thesis using tick_game [OF assms(2,3)] by fastforce
qed (use assms(2,3) draw_frame_game keyboard_key_game tux_command_game in blast)+

interpretation level: step_invariant "game_step blocks" "\<lambda>s. game_ok blocks s \<and> blocks_ok blocks" for blocks
  by unfold_locales (simp add: game_step_ok)

subsection \<open>The start of a level\<close>

lemma start_level_game:
  fixes s :: "'a game_scheme"
  assumes "level_ok blocks s" "blocks_ok blocks" "border_walls s" "view_at s" "show_x s = 6" "show_y s = 6" "open_space s 1 1"
    and "img3 s + show_x s div 4 + show_y s * 80 + 3 * SCROLL_SIZE + 16001 \<le> BUILD_BUF_SIZE + 512"
  shows "\<exists>t. start_level blocks s = Some t \<and> game_ok blocks t \<and> play_x t = 12 \<and> play_y t = 12"
proof -
  let ?p = "place_player s"
  have p: "level_ok blocks ?p" "border_walls ?p" "view_at ?p" "pan_ok ?p" "play_x ?p = 12" "play_y ?p = 12" "open_space ?p 1 1"
    using assms by (simp_all add: place_player_def border_walls_def view_at_def pan_ok_def open_space_def level_fields)
  have i: "1 < 2 * maze_x_dim ?p" "1 < 2 * maze_y_dim ?p" using p(7) by (simp_all add: open_space_def)
  obtain u where u: "unveil_around_player blocks 12 12 ?p = Some (exit_reached u 1 1, u)" "level_ok blocks u" "maze_kept ?p u"
    using unveil_around_level [OF p(1) assms(2) p(3,4), of 1 1] p(5,6) i by auto
  note k = kept_game [OF u(3)] kept_walls [OF u(3)]
  have d: "dir u = DIR_STOP" "move_cnt u = 0" "last_dir u = DIR_UP" "play_x u = 12" "play_y u = 12"
    by (simp_all add: k place_player_def)
  then have "player_at 1 1 u" using p(7) by (simp add: player_at_def k)
  then have g: "game_ok blocks u" using u(2) p(2-4) d by (auto simp: game_ok_def walk_ok_def k)
  have "view_ok u" using u(2) by (simp add: level_ok_def window_ok_def)
  moreover have "img3 u = img3 s" "show_x u = show_x s" "show_y u = show_y s" using maze_keptD [OF u(3)] by (simp_all add: place_player_def)
  ultimately obtain v where v: "show_screen u = Some v" using show_screen_pix [of u] assms(8) by auto
  have b: "same_buffer u v" by (rule show_screen_same [OF v])
  note f = screen_game [OF show_screen_screen [OF v]]
  have "shows_pic (maze_pic blocks v) v"
    using shows_level [OF u(2)] same_buffer_pic(1) [OF b] f(8) by (simp add: shows_pic_def)
  then have gv: "game_ok blocks v" using g f by (simp add: game_ok_def level_ok_def shows_but_def shows_pic_def)
  obtain w where w: "draw_mask_block (play_x v) (play_y v) (get_player_block blocks (last_dir v)) (get_player_mask blocks (last_dir v)) v = Some w"
    "masked v w" "shows_pic (player_pic blocks v) w" "with_block (play_x v) (play_y v) (g_mask w) (maze_pic blocks v) = maze_pic blocks v"
    using draw_player [OF gv assms(2)] by blast
  obtain t where t: "draw_full_block (play_x w) (play_y w) (g_mask w) w = Some t" "game_ok blocks t" "drawn w t"
    using remove_player [OF gv masked_screen [OF w(2)] w(3,4)] by blast
  have "start_level blocks s = Some t" using u(1) p(5,6) v w(1) t(1) by (simp add: start_level_def Let_def)
  moreover have "play_x t = 12" "play_y t = 12"
    using screen_game(10,11) [OF drawn_screen [OF t(3)]] screen_game(10,11) [OF masked_screen [OF w(2)]] f(10,11) d by simp_all
  ultimately show ?thesis using t(2) by blast
qed

end
