(* ===== verification/MazeArea.thy ===== *)
theory MazeArea
  imports MazeFruits
begin

text \<open>
  The search for what is connected (\<open>mark_maze_area\<close>): it ends, its queue is large enough, and it
  marks exactly the points that can be reached through open spaces, and counts them.
\<close>

subsection \<open>The points that are reached\<close>

definition point_index :: "'a maze_game_scheme \<Rightarrow> int \<times> int \<Rightarrow> int" where
  "point_index s p = MAZE_INDEX s (fst p) (snd p)"

definition four_dirs :: "(int \<times> int) list" where
  "four_dirs = [(0, -1), (1, 0), (0, 1), (-1, 0)]"

text \<open>The point two spaces away in direction \<open>d\<close> is reached from \<open>p\<close>: there is no wall between them,
  and it is not marked yet.\<close>

definition opens :: "'a maze_game_scheme \<Rightarrow> int \<times> int \<Rightarrow> int \<times> int \<Rightarrow> bool" where
  "opens s p d \<longleftrightarrow> \<not> has MAZE_WALL s (fst p + fst d) (snd p + snd d) \<and> \<not> has MAZE_REACH s (fst p + 2 * fst d) (snd p + 2 * snd d)"

definition behind :: "int \<times> int \<Rightarrow> int \<times> int \<Rightarrow> int \<times> int" where
  "behind p d = (fst p + 2 * fst d, snd p + 2 * snd d)"

definition spreads :: "'a maze_game_scheme \<Rightarrow> int \<times> int \<Rightarrow> int \<times> int \<Rightarrow> bool" where
  "spreads s p q \<longleftrightarrow> (\<exists>d \<in> set four_dirs. opens s p d \<and> q = behind p d)"

definition area :: "'a maze_game_scheme \<Rightarrow> int \<times> int \<Rightarrow> (int \<times> int) set" where
  "area s p = {q. (spreads s)\<^sup>*\<^sup>* p q}"

definition lattice :: "'a maze_game_scheme \<Rightarrow> (int \<times> int) set" where
  "lattice s = {(x, y). odd_point s x y}"

lemma odd_as_double: "odd (x :: int) \<Longrightarrow> x = 2 * (x div 2) + 1"
  by presburger

lemma lattice_card:
  assumes "maze_arr_ok s"
  shows "finite (lattice s)" "card (lattice s) \<le> 1500"
proof -
  have X: "maze_x_dim s \<le> 50" "maze_y_dim s \<le> 30" using assms by (simp_all add: maze_arr_ok_def)
  let ?f = "\<lambda>p :: int \<times> int. (2 * fst p + 1, 2 * snd p + 1)"
  have "p \<in> ?f ` ({0..<50} \<times> {0..<30})" if p: "p \<in> lattice s" for p
  proof -
    obtain x y where xy: "p = (x, y)" "odd_point s x y" using p by (auto simp: lattice_def)
    have "x div 2 \<in> {0..<50}" "y div 2 \<in> {0..<30}" using xy(2) X by (auto simp: odd_point_def)
    moreover have "p = ?f (x div 2, y div 2)" using xy odd_as_double [of x] odd_as_double [of y] by (simp add: odd_point_def)
    ultimately show ?thesis by (metis (no_types, lifting) SigmaI imageI)
  qed
  then have sub: "lattice s \<subseteq> ?f ` ({0..<50} \<times> {0..<30})" by blast
  show "finite (lattice s)" using finite_subset [OF sub] by simp
  have "card (lattice s) \<le> card (?f ` ({0..<50} \<times> {0..<30}))" by (rule card_mono [OF _ sub]) simp
  also have "\<dots> \<le> card ({0..<50 :: int} \<times> {0..<30 :: int})" by (rule card_image_le) simp
  finally show "card (lattice s) \<le> 1500" by (simp add: card_cartesian_product)
qed

lemma lattice_in_maze: "p \<in> lattice s \<Longrightarrow> in_maze s (fst p) (snd p)"
  by (auto simp: lattice_def odd_point_def in_maze_def)

text \<open>Behind an open space there is a point of the lattice: the border is closed.\<close>

lemma between_in_maze:
  assumes "p \<in> lattice s" "d \<in> set four_dirs"
  shows "in_maze s (fst p + fst d) (snd p + snd d)"
  using assms by (auto simp: lattice_def odd_point_def in_maze_def four_dirs_def)

lemma behind_lattice:
  assumes "border_walls s" "p \<in> lattice s" "d \<in> set four_dirs" "\<not> has MAZE_WALL s (fst p + fst d) (snd p + snd d)"
  shows "behind p d \<in> lattice s"
proof -
  define x where "x = fst p + fst d"
  define y where "y = snd p + snd d"
  have "in_maze s x y" using between_in_maze [OF assms(2,3)] by (simp add: x_def y_def)
  then have "x \<noteq> 0 \<and> x \<noteq> 2 * maze_x_dim s \<and> y \<noteq> 0 \<and> y \<noteq> 2 * maze_y_dim s"
    using assms(1,4) unfolding border_walls_def x_def [symmetric] y_def [symmetric] by blast
  then have "0 < x" "x < 2 * maze_x_dim s" "0 < y" "y < 2 * maze_y_dim s" using \<open>in_maze s x y\<close> by (auto simp: in_maze_def)
  then show ?thesis using assms(2,3) unfolding x_def y_def
    by (auto simp: lattice_def odd_point_def behind_def four_dirs_def) presburger+
qed

lemma point_index_inj:
  assumes "maze_arr_ok s" "p \<in> lattice s" "in_maze s a b" "MAZE_INDEX s a b = point_index s p"
  shows "p = (a, b)"
  using inner_unique [OF assms(1) lattice_in_maze [OF assms(2)] _ _ assms(3)] assms(2,4)
  by (auto simp: lattice_def odd_point_def point_index_def)

lemma area_lattice:
  assumes "border_walls s" "p \<in> lattice s"
  shows "area s p \<subseteq> lattice s"
proof
  fix q assume "q \<in> area s p"
  then have "(spreads s)\<^sup>*\<^sup>* p q" by (simp add: area_def)
  then show "q \<in> lattice s"
    by (induction rule: rtranclp_induct) (use assms behind_lattice in \<open>auto simp: spreads_def opens_def\<close>)
qed

subsection \<open>The marks\<close>

text \<open>The array with the points \<open>ps\<close> marked.\<close>

definition marks :: "'a maze_game_scheme \<Rightarrow> (int \<times> int) list \<Rightarrow> u8 list \<Rightarrow> bool" where
  "marks s ps m \<longleftrightarrow> length m = length (maze s) \<and> (\<forall>a b. near_maze s a b \<longrightarrow>
     m ! nat (MAZE_INDEX s a b) = (if \<exists>p \<in> set ps. MAZE_INDEX s a b = point_index s p then cell s a b OR MAZE_REACH else cell s a b))"

definition found :: "'a maze_game_scheme \<Rightarrow> (int \<times> int) list \<Rightarrow> bool" where
  "found s ps \<longleftrightarrow> distinct ps \<and> set ps \<subseteq> lattice s"

lemma found_length:
  assumes "maze_arr_ok s" "found s ps" shows "length ps \<le> 1500"
proof -
  have "length ps = card (set ps)" using assms(2) by (simp add: found_def distinct_card)
  also have "\<dots> \<le> card (lattice s)" using assms by (intro card_mono) (simp_all add: found_def lattice_card)
  finally show ?thesis using lattice_card(2) [OF assms(1)] by simp
qed

lemma marks_get:
  assumes "maze_arr_ok s" "marks s ps m" "near_maze s a b"
  shows "arr_get m (MAZE_INDEX s a b) =
    Some (if \<exists>p \<in> set ps. MAZE_INDEX s a b = point_index s p then cell s a b OR MAZE_REACH else cell s a b)"
  using near_maze_index [OF assms(1,3)] assms(2,3) by (auto simp: arr_get_def marks_def)

lemma marks_add:
  assumes "maze_arr_ok s" "marks s ps m" "near_maze s a b" "\<not> (\<exists>p \<in> set ps. MAZE_INDEX s a b = point_index s p)"
  shows "\<exists>m'. arr_set m (MAZE_INDEX s a b) (cell s a b OR MAZE_REACH) = Some m' \<and> marks s (ps @ [(a, b)]) m'"
proof -
  let ?m = "m[nat (MAZE_INDEX s a b) := cell s a b OR MAZE_REACH]"
  have len: "length m = length (maze s)" using assms(2) by (simp add: marks_def)
  have i: "0 \<le> MAZE_INDEX s a b" "nat (MAZE_INDEX s a b) < length m" using near_maze_index [OF assms(1,3)] len by simp_all
  have "?m ! nat (MAZE_INDEX s x y) = (if \<exists>p \<in> set (ps @ [(a, b)]). MAZE_INDEX s x y = point_index s p then cell s x y OR MAZE_REACH else cell s x y)"
    if n: "near_maze s x y" for x y
  proof (cases "MAZE_INDEX s x y = MAZE_INDEX s a b")
    case True
    then have "cell s x y = cell s a b" by (simp add: cell_def)
    then show ?thesis using True i by (simp add: point_index_def)
  next
    case False
    then have "nat (MAZE_INDEX s x y) \<noteq> nat (MAZE_INDEX s a b)" using i near_maze_index [OF assms(1) n] by linarith
    then have "?m ! nat (MAZE_INDEX s x y) = m ! nat (MAZE_INDEX s x y)" by simp
    also have "\<dots> = (if \<exists>p \<in> set ps. MAZE_INDEX s x y = point_index s p then cell s x y OR MAZE_REACH else cell s x y)"
      using assms(2) n by (simp add: marks_def)
    finally show ?thesis using False by (simp add: point_index_def)
  qed
  then have "marks s (ps @ [(a, b)]) ?m" using len by (simp add: marks_def)
  moreover have "arr_set m (MAZE_INDEX s a b) (cell s a b OR MAZE_REACH) = Some ?m" using i by (simp add: arr_set_def)
  ultimately show ?thesis by blast
qed

subsection \<open>One direction, and the four of a point\<close>

definition visit :: "'a maze_game_scheme \<Rightarrow> int \<times> int \<Rightarrow> int \<times> int \<Rightarrow> (int \<times> int) list \<Rightarrow> (int \<times> int) list" where
  "visit s p d ps = (if opens s p d \<and> behind p d \<notin> set ps then ps @ [behind p d] else ps)"

definition offset :: "'a maze_game_scheme \<Rightarrow> int \<times> int \<Rightarrow> int" where
  "offset s d = fst d + 2 * maze_x_dim s * snd d"

lemma visit_set: "set (visit s p d ps) = set ps \<union> {q. opens s p d \<and> q = behind p d}"
  by (auto simp: visit_def)

lemma visit_prefix: "\<exists>zs. visit s p d ps = ps @ zs"
  by (simp add: visit_def)

lemma explore_visit:
  assumes ok: "maze_arr_ok s" "border_walls s" and p: "p \<in> lattice s" "d \<in> set four_dirs" and m: "marks s ps m" "found s ps"
  shows "\<exists>m'. explore (point_index s p) (offset s d) (m, map (point_index s) ps) = Some (m', map (point_index s) (visit s p d ps)) \<and>
    marks s (visit s p d ps) m' \<and> found s (visit s p d ps)"
proof -
  define x where "x = fst p + fst d"
  define y where "y = snd p + snd d"
  have i: "point_index s p + offset s d = MAZE_INDEX s x y" "point_index s p + 2 * offset s d = point_index s (behind p d)"
    by (simp_all add: point_index_def offset_def MAZE_INDEX_def behind_def x_def y_def algebra_simps)
  have n: "near_maze s x y" using between_in_maze [OF p] by (simp add: x_def y_def in_maze_near)
  define w where "w = (if \<exists>q \<in> set ps. MAZE_INDEX s x y = point_index s q then cell s x y OR MAZE_REACH else cell s x y)"
  have got: "arr_get m (MAZE_INDEX s x y) = Some w" unfolding w_def by (rule marks_get [OF ok(1) m(1) n])
  have w: "w AND MAZE_WALL = cell s x y AND MAZE_WALL" by (simp add: w_def bit.conj_disj_distrib2)
  have step: "explore (point_index s p) (offset s d) (m, map (point_index s) ps) = (if has MAZE_WALL s x y then Some (m, map (point_index s) ps) else do {
       v \<leftarrow> arr_get m (point_index s (behind p d));
       if v AND MAZE_REACH = 0 then do {
         m \<leftarrow> arr_set m (point_index s (behind p d)) (v OR MAZE_REACH);
         assert_opt (length ps < QUEUE_SIZE);
         Some (m, map (point_index s) (ps @ [behind p d]))
       } else Some (m, map (point_index s) ps) })"
    unfolding explore_def by (simp add: i got w cong: if_cong)
  show ?thesis
  proof (cases "has MAZE_WALL s x y")
    case True
    then have "visit s p d ps = ps" by (simp add: visit_def opens_def x_def y_def)
    then show ?thesis using step True m by simp
  next
    case False
    obtain a b where r: "behind p d = (a, b)" by (cases "behind p d")
    have l: "(a, b) \<in> lattice s" using behind_lattice [OF ok(2) p] False r by (simp add: x_def y_def)
    have near: "near_maze s a b" using in_maze_near(1) lattice_in_maze [OF l] by simp
    have e: "(\<exists>q \<in> set ps. MAZE_INDEX s a b = point_index s q) \<longleftrightarrow> (a, b) \<in> set ps"
      using point_index_inj [OF ok(1) l] m(2) lattice_in_maze by (force simp: found_def point_index_def)
    have o: "opens s p d \<longleftrightarrow> \<not> has MAZE_REACH s a b" using False r by (simp add: opens_def x_def y_def behind_def)
    have v: "arr_get m (point_index s (a, b)) = Some (if (a, b) \<in> set ps then cell s a b OR MAZE_REACH else cell s a b)"
      using marks_get [OF ok(1) m(1) near] by (simp only: e) (simp add: point_index_def)
    show ?thesis
    proof (cases "opens s p d \<and> (a, b) \<notin> set ps")
      case True
      then have f: "found s (ps @ [(a, b)])" using m(2) l by (simp add: found_def)
      have "length ps < 1500" using found_length [OF ok(1) f] by simp
      moreover obtain m' where m': "arr_set m (point_index s (a, b)) (cell s a b OR MAZE_REACH) = Some m'" "marks s (ps @ [(a, b)]) m'"
        using marks_add [OF ok(1) m(1) near] True e by (auto simp: point_index_def)
      moreover have "visit s p d ps = ps @ [(a, b)]" using True r by (simp add: visit_def)
      ultimately show ?thesis using step False r v True o f by (simp add: QUEUE_SIZE_def)
    next
      case stay: False
      then have "visit s p d ps = ps" using r by (auto simp: visit_def)
      moreover have "(if (a, b) \<in> set ps then cell s a b OR MAZE_REACH else cell s a b) AND MAZE_REACH \<noteq> 0"
        using stay o by (auto simp: bit.conj_disj_distrib2)
      ultimately show ?thesis using step False r v m by auto
    qed
  qed
qed

definition visit_all :: "'a maze_game_scheme \<Rightarrow> int \<times> int \<Rightarrow> (int \<times> int) list \<Rightarrow> (int \<times> int) list" where
  "visit_all s p ps = visit s p (-1, 0) (visit s p (0, 1) (visit s p (1, 0) (visit s p (0, -1) ps)))"

lemma visit_all_set: "set (visit_all s p ps) = set ps \<union> {q. spreads s p q}"
  by (auto simp: visit_all_def visit_set spreads_def four_dirs_def)

lemma visit_all_prefix: "\<exists>zs. visit_all s p ps = ps @ zs"
  unfolding visit_all_def by (metis visit_prefix append_assoc)

subsection \<open>The search\<close>

lemma mark_loop_area:
  assumes ok: "maze_arr_ok s" "border_walls s" "p0 \<in> lattice s"
  shows "marks s ps m \<Longrightarrow> found s ps \<Longrightarrow> set ps \<subseteq> area s p0 \<Longrightarrow> p0 \<in> set ps \<Longrightarrow> k \<le> length ps \<Longrightarrow>
    \<forall>p \<in> set (take k ps). \<forall>q. spreads s p q \<longrightarrow> q \<in> set ps \<Longrightarrow>
    \<exists>m' ps'. mark_loop (maze_x_dim s) m (map (point_index s) ps) k = Some (m', map (point_index s) ps') \<and>
      marks s ps' m' \<and> found s ps' \<and> set ps' = area s p0"
proof (induction "1500 - k" arbitrary: k ps m rule: less_induct)
  case less
  show ?case
  proof (cases "k = length ps")
    case True
    have "q \<in> set ps" if "(spreads s)\<^sup>*\<^sup>* p0 q" for q
      using that by (induction rule: rtranclp_induct) (use less.prems(4,6) True in auto)
    then have "set ps = area s p0" using less.prems(3) by (auto simp: area_def)
    moreover have "mark_loop (maze_x_dim s) m (map (point_index s) ps) k = Some (m, map (point_index s) ps)"
      using True by (simp add: mark_loop.simps)
    ultimately show ?thesis using less.prems(1,2) by blast
  next
    case False
    then have k: "k < length ps" using less.prems(5) by simp
    let ?p = "ps ! k" and ?I = "map (point_index s)"
    have p: "?p \<in> lattice s" using k less.prems(2) by (auto simp: found_def)
    have dirs: "(0, -1) \<in> set four_dirs" "(1, 0) \<in> set four_dirs" "(0, 1) \<in> set four_dirs" "(-1, 0) \<in> set four_dirs"
      by (simp_all add: four_dirs_def)
    have offs: "offset s (0, -1) = -2 * maze_x_dim s" "offset s (1, 0) = 1" "offset s (0, 1) = 2 * maze_x_dim s" "offset s (-1, 0) = -1"
      by (simp_all add: offset_def)
    obtain m1 where 1: "explore (point_index s ?p) (-2 * maze_x_dim s) (m, ?I ps) = Some (m1, ?I (visit s ?p (0, -1) ps))"
      "marks s (visit s ?p (0, -1) ps) m1" "found s (visit s ?p (0, -1) ps)"
      using explore_visit [OF ok(1,2) p dirs(1) less.prems(1,2)] unfolding offs by blast
    obtain m2 where 2: "explore (point_index s ?p) 1 (m1, ?I (visit s ?p (0, -1) ps)) = Some (m2, ?I (visit s ?p (1, 0) (visit s ?p (0, -1) ps)))"
      "marks s (visit s ?p (1, 0) (visit s ?p (0, -1) ps)) m2" "found s (visit s ?p (1, 0) (visit s ?p (0, -1) ps))"
      using explore_visit [OF ok(1,2) p dirs(2) 1(2,3)] unfolding offs by blast
    define ps2 where "ps2 = visit s ?p (1, 0) (visit s ?p (0, -1) ps)"
    obtain m3 where 3: "explore (point_index s ?p) (2 * maze_x_dim s) (m2, ?I ps2) = Some (m3, ?I (visit s ?p (0, 1) ps2))"
      "marks s (visit s ?p (0, 1) ps2) m3" "found s (visit s ?p (0, 1) ps2)"
      using explore_visit [OF ok(1,2) p dirs(3) 2(2,3)] unfolding offs ps2_def by blast
    obtain m4 where 4: "explore (point_index s ?p) (-1) (m3, ?I (visit s ?p (0, 1) ps2)) = Some (m4, ?I (visit_all s ?p ps))"
      "marks s (visit_all s ?p ps) m4" "found s (visit_all s ?p ps)"
      using explore_visit [OF ok(1,2) p dirs(4) 3(2,3)] unfolding offs ps2_def visit_all_def by blast
    obtain zs where zs: "visit_all s ?p ps = ps @ zs" using visit_all_prefix by blast
    have k2: "k < 1500" using k found_length [OF ok(1) less.prems(2)] by simp
    have "mark_loop (maze_x_dim s) m (?I ps) k = mark_loop (maze_x_dim s) m4 (?I (visit_all s ?p ps)) (k + 1)"
      using k k2 1(1) 2(1) 3(1) 4(1) unfolding ps2_def by (subst mark_loop.simps) (simp add: arr_get_def QUEUE_SIZE_def)
    moreover have "\<exists>m' ps'. mark_loop (maze_x_dim s) m4 (?I (visit_all s ?p ps)) (k + 1) = Some (m', ?I ps') \<and>
      marks s ps' m' \<and> found s ps' \<and> set ps' = area s p0"
    proof (rule less.hyps [OF _ 4(2,3)])
      show "1500 - (k + 1) < 1500 - k" using k2 by simp
      have "?p \<in> area s p0" using k less.prems(3) by auto
      then show "set (visit_all s ?p ps) \<subseteq> area s p0"
        using less.prems(3) by (auto simp: visit_all_set area_def intro: rtranclp.rtrancl_into_rtrancl)
      show "p0 \<in> set (visit_all s ?p ps)" "k + 1 \<le> length (visit_all s ?p ps)" using less.prems(4) k by (simp_all add: zs)
      have "take (k + 1) (visit_all s ?p ps) = take k ps @ [?p]" using k by (simp add: zs take_Suc_conv_app_nth)
      then show "\<forall>p \<in> set (take (k + 1) (visit_all s ?p ps)). \<forall>q. spreads s p q \<longrightarrow> q \<in> set (visit_all s ?p ps)"
        using less.prems(6) by (auto simp: visit_all_set)
    qed
    ultimately show ?thesis by simp
  qed
qed

lemma mark_area:
  fixes s :: "'a maze_game_scheme"
  assumes "maze_arr_ok s" "border_walls s" "odd_point s x y"
  shows "\<exists>t. mark_maze_area x y s = Some (int (card (area s (x, y))), t) \<and> t = s\<lparr>maze := maze t\<rparr> \<and> length (maze t) = length (maze s) \<and>
    (\<forall>a b. in_maze s a b \<longrightarrow> cell t a b = (if (a, b) \<in> area s (x, y) then cell s a b OR MAZE_REACH else cell s a b))"
proof -
  have l: "(x, y) \<in> lattice s" using assms(3) by (simp add: lattice_def)
  have near: "near_maze s x y" using lattice_in_maze [OF l] by (simp add: in_maze_near)
  have "marks s [] (maze s)" by (simp add: marks_def cell_def)
  from marks_add [OF assms(1) this near] obtain m where m: "arr_set (maze s) (MAZE_INDEX s x y) (cell s x y OR MAZE_REACH) = Some m"
    "marks s [(x, y)] m" by auto
  have "\<exists>m' ps'. mark_loop (maze_x_dim s) m (map (point_index s) [(x, y)]) 0 = Some (m', map (point_index s) ps') \<and>
      marks s ps' m' \<and> found s ps' \<and> set ps' = area s (x, y)"
    by (rule mark_loop_area [OF assms(1,2) l m(2)]) (use l in \<open>simp_all add: found_def area_def\<close>)
  then obtain m' ps' where p: "mark_loop (maze_x_dim s) m [MAZE_INDEX s x y] 0 = Some (m', map (point_index s) ps')"
    "marks s ps' m'" "found s ps'" "set ps' = area s (x, y)" by (auto simp: point_index_def)
  have "arr_get (maze s) (MAZE_INDEX s x y) = Some (cell s x y)"
    using maze_get_cell [OF assms(1) near] by (simp add: maze_get_def)
  then have "mark_maze_area x y s = Some (int (length ps'), s\<lparr>maze := m'\<rparr>)" using m(1) p(1) by (simp add: mark_maze_area_def)
  moreover have "length ps' = card (area s (x, y))" using p(3,4) distinct_card by (fastforce simp: found_def)
  moreover have "cell (s\<lparr>maze := m'\<rparr>) a b = (if (a, b) \<in> area s (x, y) then cell s a b OR MAZE_REACH else cell s a b)" if i: "in_maze s a b" for a b
  proof -
    have "(\<exists>q \<in> set ps'. MAZE_INDEX s a b = point_index s q) \<longleftrightarrow> (a, b) \<in> set ps'"
      using point_index_inj [OF assms(1) _ i] p(3) by (force simp: found_def point_index_def)
    then show ?thesis using p(2,4) in_maze_near(1) [OF i] by (simp add: marks_def) (simp add: cell_def MAZE_INDEX_def)
  qed
  moreover have "length m' = length (maze s)" using p(2) by (simp add: marks_def)
  ultimately show ?thesis by (intro exI [of _ "s\<lparr>maze := m'\<rparr>"]) simp
qed

end
