(* ===== verification/MazeDig.thy ===== *)
theory MazeDig
  imports MazeArea
begin

text \<open>
  The first phase of \<open>make_maze\<close>: the worms. A worm step digs inside the frame only, counts the
  points it clears, and is always possible. Whether a worm ever ends depends on the random numbers:
  \<open>random_fair\<close> says what is needed of them.
\<close>

subsection \<open>What the construction changes\<close>

definition dug :: "'a maze_game_scheme \<Rightarrow> 'a maze_game_scheme \<Rightarrow> bool" where
  "dug s t \<longleftrightarrow> t = s\<lparr>maze := maze t, random_calls := random_calls t\<rparr>"

lemma dug_refl [simp]: "dug s s"
  by (simp add: dug_def)

lemma dugE:
  assumes "dug s t" obtains m c where "t = s\<lparr>maze := m, random_calls := c\<rparr>"
  using assms by (simp add: dug_def)

lemma dugI [intro]: "dug s (s\<lparr>maze := m, random_calls := c\<rparr>)" "dug s (s\<lparr>maze := m\<rparr>)" "dug s (s\<lparr>random_calls := c\<rparr>)"
  by (simp_all add: dug_def)

lemma dug_trans: "dug s t \<Longrightarrow> dug t u \<Longrightarrow> dug s u"
  by (elim dugE) auto

lemma dug_fields:
  assumes "dug s t"
  shows "maze_x_dim t = maze_x_dim s" "maze_y_dim t = maze_y_dim s" "random_values t = random_values s" "in_maze t = in_maze s"
    "near_maze t = near_maze s" "lattice t = lattice s" "odd_point t = odd_point s" "n_fruits t = n_fruits s" "exit_x t = exit_x s" "exit_y t = exit_y s"
  using assms by (auto elim!: dugE simp: in_maze_def near_maze_def lattice_def odd_point_def fun_eq_iff)

text \<open>The frame: the border and the points with both coordinates even are walls, and off the lattice a space is
  a wall or open and nothing else.\<close>

definition frame_walls :: "'a maze_game_scheme \<Rightarrow> bool" where
  "frame_walls s \<longleftrightarrow> maze_arr_ok s \<and> border_walls s \<and> (\<forall>a b. in_maze s a b \<and> even a \<and> even b \<longrightarrow> has MAZE_WALL s a b) \<and>
     (\<forall>a b. in_maze s a b \<and> (even a \<or> even b) \<longrightarrow> cell s a b = MAZE_WALL \<or> cell s a b = MAZE_NONE)"

definition inner :: "'a maze_game_scheme \<Rightarrow> int \<Rightarrow> int \<Rightarrow> bool" where
  "inner s x y \<longleftrightarrow> 0 < x \<and> x < 2 * maze_x_dim s \<and> 0 < y \<and> y < 2 * maze_y_dim s \<and> \<not> (even x \<and> even y)"

lemma inner_in_maze: "inner s x y \<Longrightarrow> in_maze s x y"
  by (simp add: inner_def in_maze_def)

lemma odd_point_inner: "odd_point s x y \<Longrightarrow> inner s x y"
  by (simp add: odd_point_def inner_def)

lemma set_inner:
  assumes f: "frame_walls s" "inner s x y"
  shows "maze_put x y v s = Some (set_space x y v s)" "v = MAZE_NONE \<or> odd x \<and> odd y \<Longrightarrow> frame_walls (set_space x y v s)"
    "dug s (set_space x y v s)"
    "in_maze s a b \<Longrightarrow> cell (set_space x y v s) a b = (if a = x \<and> b = y then v else cell s a b)"
proof -
  have ok: "maze_arr_ok s" "border_walls s" using f(1) by (simp_all add: frame_walls_def)
  note m = inner_in_maze [OF f(2)]
  show "maze_put x y v s = Some (set_space x y v s)" by (rule maze_set_space [OF ok(1) in_maze_near(1) [OF m]])
  show "dug s (set_space x y v s)" unfolding set_space_def by (rule dugI)
  have c: "cell (set_space x y v s) a b = (if a = x \<and> b = y then v else cell s a b)" if i: "in_maze s a b" for a b
  proof -
    have "(MAZE_INDEX s a b = MAZE_INDEX s x y) = (a = x \<and> b = y)"
      using inner_unique [OF ok(1) m _ _ i] f(2) by (auto simp: inner_def)
    then show ?thesis using cell_set_space [OF ok(1) in_maze_near(1) [OF m] in_maze_near(1) [OF i]] by simp
  qed
  then show "in_maze s a b \<Longrightarrow> cell (set_space x y v s) a b = (if a = x \<and> b = y then v else cell s a b)" .
  have "in_maze (set_space x y v s) a b = in_maze s a b" for a b by (simp add: in_maze_def)
  then show "frame_walls (set_space x y v s)" if "v = MAZE_NONE \<or> odd x \<and> odd y"
    using f c that by (auto simp: frame_walls_def border_walls_def inner_def)
qed

lemma frame_walls_calls [simp]: "frame_walls ((s :: 'a maze_game_scheme)\<lparr>random_calls := c\<rparr>) = frame_walls s"
  by (simp add: frame_walls_def border_walls_def)

lemma lattice_point: "p \<in> lattice s \<longleftrightarrow> odd_point s (fst p) (snd p)"
  by (cases p) (simp add: lattice_def)

lemma lattice_get: "maze_arr_ok s \<Longrightarrow> odd_point s x y \<Longrightarrow> maze_get x y s = Some (cell s x y)"
  by (simp add: maze_get_cell in_maze_near odd_point_in_maze)

subsection \<open>Random numbers\<close>

text \<open>What is needed of \<open>random\<close>: it is never negative, every pair of small numbers comes up again at an even
  distance from every call, and so does a run of 200 zeros at some distance.\<close>

definition random_fair :: "(nat \<Rightarrow> int) \<Rightarrow> bool" where
  "random_fair rv \<longleftrightarrow> (\<forall>n. 0 \<le> rv n) \<and>
     (\<forall>c a b. 0 \<le> a \<and> a < 50 \<and> 0 \<le> b \<and> b < 30 \<longrightarrow> (\<exists>k. rv (c + 2 * k) = a \<and> rv (c + 2 * k + 1) = b)) \<and>
     (\<forall>c. \<exists>d\<ge>c. \<forall>i<200. rv (d + i) = 0)"

lemma pick_point_fair:
  assumes ok: "maze_arr_ok s" and rv: "random_fair (random_values s)" and p: "odd_point s x y" "\<not> again (cell s x y)"
  shows "\<exists>x y d. pick_point again s = Some (x, y, s\<lparr>random_calls := d\<rparr>) \<and> odd_point s x y \<and> \<not> again (cell s x y)"
proof -
  have dims: "1 \<le> maze_x_dim s" "maze_x_dim s \<le> 50" "1 \<le> maze_y_dim s" "maze_y_dim s \<le> 30" using ok by (simp_all add: maze_arr_ok_def)
  have xy: "x = 2 * (x div 2) + 1" "y = 2 * (y div 2) + 1" "0 \<le> x div 2" "x div 2 < maze_x_dim s" "0 \<le> y div 2" "y div 2 < maze_y_dim s"
    using p(1) odd_as_double [of x] odd_as_double [of y] by (auto simp: odd_point_def)
  obtain k where k: "random_values s (random_calls s + 2 * k) = x div 2" "random_values s (random_calls s + 2 * k + 1) = y div 2"
    using rv xy dims unfolding random_fair_def by (meson order_less_le_trans)
  have "drawn_x s (random_calls s + 2 * k) = x" "drawn_y s (random_calls s + 2 * k + 1) = y"
    unfolding drawn_x_def drawn_y_def k using xy by simp_all
  then show ?thesis
    using pick_point_ends [OF ok, of again "random_calls s" k] rv p(2) by (auto simp: random_fair_def)
qed

subsection \<open>One step of a worm\<close>

definition digging :: "'a maze_game_scheme \<Rightarrow> bool" where
  "digging s \<longleftrightarrow> frame_walls s \<and> 2 \<le> maze_x_dim s \<and> 2 \<le> maze_y_dim s \<and>
     (\<forall>p \<in> lattice s. cell s (fst p) (snd p) = MAZE_WALL \<or> cell s (fst p) (snd p) = MAZE_NONE)"

definition walls :: "'a maze_game_scheme \<Rightarrow> (int \<times> int) set" where
  "walls s = {p \<in> lattice s. cell s (fst p) (snd p) = MAZE_WALL}"

lemma finite_walls: "maze_arr_ok s \<Longrightarrow> finite (walls s)"
  using lattice_card(1) [of s] by (simp add: walls_def)

lemma digging_set:
  assumes "digging s" "inner s x y"
  shows "digging (set_space x y MAZE_NONE s)" "walls (set_space x y MAZE_NONE s) = walls s - {(x, y)}"
proof -
  have f: "frame_walls s" using assms(1) by (simp add: digging_def)
  note si = set_inner [OF f assms(2), where v = MAZE_NONE]
  note d = dug_fields [OF si(3)]
  have c: "cell (set_space x y MAZE_NONE s) a b = (if a = x \<and> b = y then MAZE_NONE else cell s a b)"
    if "(a, b) \<in> lattice s" for a b
    using si(4) lattice_in_maze [OF that] by simp
  show "digging (set_space x y MAZE_NONE s)" using assms(1) si(2) by (auto simp: digging_def d(6) c)
  show "walls (set_space x y MAZE_NONE s) = walls s - {(x, y)}"
    by (auto simp: walls_def d(6) c split: if_splits)
qed

lemma digging_calls [simp]: "digging ((s :: 'a maze_game_scheme)\<lparr>random_calls := c\<rparr>) = digging s"
  "walls (s\<lparr>random_calls := c\<rparr>) = walls s"
  by (simp_all add: digging_def walls_def lattice_def)

lemma dir_weight_eq:
  assumes "maze_arr_ok s" "0 \<le> rel" "rel < 4" "inside \<Longrightarrow> odd_point s x y"
  shows "\<exists>w. dir_weight inside rel x y s = Some w \<and> 0 \<le> w \<and> (0 < w \<longleftrightarrow> inside)"
proof -
  have "rel = 0 \<or> rel = 1 \<or> rel = 2 \<or> rel = 3" using assms(2,3) by linarith
  then show ?thesis
    using lattice_get [OF assms(1,4)] by (auto simp: dir_weight_def turn_wt_def arr_get_def)
qed

lemma pick_dir_four:
  assumes "0 \<le> p" "p < w0 + w1 + w2 + w3" "0 \<le> w0" "0 \<le> w1" "0 \<le> w2" "0 \<le> w3"
  shows "\<exists>d<4. pick_dir p [w0, w0 + w1, w0 + w1 + w2, w0 + w1 + w2 + w3] 0 = Some d \<and> 0 < [w0, w1, w2, w3] ! d \<and>
    (p = 0 \<longrightarrow> (\<forall>e<d. [w0, w1, w2, w3] ! e = 0))"
proof -
  consider "p < w0" | "w0 \<le> p" "p < w0 + w1" | "w0 + w1 \<le> p" "p < w0 + w1 + w2" | "w0 + w1 + w2 \<le> p" by linarith
  then show ?thesis
  proof cases
    case 1
    then show ?thesis using assms by (intro exI [of _ 0]) simp
  next
    case 2
    then show ?thesis using assms by (intro exI [of _ 1]) simp
  next
    case 3
    then show ?thesis using assms by (intro exI [of _ 2]) (auto simp: less_2_cases_iff)
  next
    case 4
    then show ?thesis using assms by (intro exI [of _ 3]) (auto simp: less_Suc_eq numeral_3_eq_3 numeral_2_eq_2)
  qed
qed

text \<open>The directions that do not lead out of the maze.\<close>

definition ways :: "'a maze_game_scheme \<Rightarrow> int \<Rightarrow> int \<Rightarrow> bool list" where
  "ways s x y = [1 < y, x < 2 * maze_x_dim s - 1, y < 2 * maze_y_dim s - 1, 1 < x]"

lemma below_4: "(d :: nat) < 4 \<Longrightarrow> d = 0 \<or> d = 1 \<or> d = 2 \<or> d = 3"
  by linarith

lemma way_leads:
  assumes "odd_point s x y" "d < 4" "ways s x y ! d"
  shows "odd_point s (fst (behind (x, y) (four_dirs ! d))) (snd (behind (x, y) (four_dirs ! d)))"
    "inner s (x + fst (four_dirs ! d)) (y + snd (four_dirs ! d))"
  using assms below_4 [OF assms(2)] by (auto simp: odd_point_def inner_def behind_def four_dirs_def ways_def) presburger+

lemma worm_step_moves:
  assumes dig: "digging s" and rv: "\<forall>n. 0 \<le> random_values s n" and xy: "odd_point s x y" and pref: "0 \<le> pref" "pref < 4"
  shows "\<exists>d<4. ways s x y ! d \<and> (random_values s (random_calls s) = 0 \<longrightarrow> (\<forall>e<d. \<not> ways s x y ! e)) \<and>
    (let (x', y') = behind (x, y) (four_dirs ! d);
         r = s\<lparr>random_calls := Suc (random_calls s)\<rparr>;
         t = set_space x' y' MAZE_NONE (set_space (x + fst (four_dirs ! d)) (y + snd (four_dirs ! d)) MAZE_NONE r)
     in worm_step x y pref remaining s =
       Some (if (int d - pref + 4) smod 4 = 2 then Inl r
             else Inr (x', y', int d, if cell s x' y' = MAZE_WALL then remaining - 1 else remaining, t)))"
proof -
  have ok: "maze_arr_ok s" "frame_walls s" and dims: "2 \<le> maze_x_dim s" "2 \<le> maze_y_dim s"
    using dig by (simp_all add: digging_def frame_walls_def)
  let ?w = "ways s x y"
  have rel: "0 \<le> (pref + k) smod 4" "(pref + k) smod 4 < 4" if "0 \<le> k" for k
    using pref that by (simp_all add: smod_nonneg)
  have near: "odd_point s x (y - 2)" if "1 < y" using way_leads(1) [OF xy, of 0] that by (simp add: ways_def behind_def four_dirs_def)
  have near1: "odd_point s (x + 2) y" if "x < 2 * maze_x_dim s - 1"
    using way_leads(1) [OF xy, of 1] that by (simp add: ways_def behind_def four_dirs_def)
  have near2: "odd_point s x (y + 2)" if "y < 2 * maze_y_dim s - 1"
    using way_leads(1) [OF xy, of 2] that by (simp add: ways_def behind_def four_dirs_def)
  have near3: "odd_point s (x - 2) y" if "1 < x" using way_leads(1) [OF xy, of 3] that by (simp add: ways_def behind_def four_dirs_def)
  obtain w0 where w0: "dir_weight (y > 1) pref x (y - 2) s = Some w0" "0 \<le> w0" "0 < w0 \<longleftrightarrow> 1 < y"
    using dir_weight_eq [OF ok(1) pref near] by blast
  obtain w1 where w1: "dir_weight (x < maze_x_dim s * 2 - 1) ((pref + 3) smod 4) (x + 2) y s = Some w1" "0 \<le> w1" "0 < w1 \<longleftrightarrow> x < 2 * maze_x_dim s - 1"
    using dir_weight_eq [OF ok(1) rel [of 3] near1] by (auto simp: mult.commute)
  obtain w2 where w2: "dir_weight (y < maze_y_dim s * 2 - 1) ((pref + 2) smod 4) x (y + 2) s = Some w2" "0 \<le> w2" "0 < w2 \<longleftrightarrow> y < 2 * maze_y_dim s - 1"
    using dir_weight_eq [OF ok(1) rel [of 2] near2] by (auto simp: mult.commute)
  obtain w3 where w3: "dir_weight (x > 1) ((pref + 1) smod 4) (x - 2) y s = Some w3" "0 \<le> w3" "0 < w3 \<longleftrightarrow> 1 < x"
    using dir_weight_eq [OF ok(1) rel [of 1] near3] by auto
  let ?total = "w0 + w1 + w2 + w3"
  have "1 < x \<or> x < 2 * maze_x_dim s - 1" using dims by linarith
  then have total: "0 < ?total" using w0 w1 w2 w3 by auto
  let ?v = "random_values s (random_calls s)"
  have r: "?v smod ?total = ?v mod ?total" using total rv by (simp add: smod_nonneg)
  obtain d where d: "d < 4" "pick_dir (?v mod ?total) [w0, w0 + w1, w0 + w1 + w2, ?total] 0 = Some d" "0 < [w0, w1, w2, w3] ! d"
    "?v mod ?total = 0 \<longrightarrow> (\<forall>e<d. [w0, w1, w2, w3] ! e = 0)"
    using pick_dir_four [of "?v mod ?total" w0 w1 w2 w3] total w0 w1 w2 w3 by auto
  have way: "?w ! e \<longleftrightarrow> 0 < [w0, w1, w2, w3] ! e" if "e < 4" for e
    using below_4 [OF that] w0(3) w1(3) w2(3) w3(3) by (auto simp: ways_def)
  have zero: "?v = 0 \<longrightarrow> (\<forall>e<d. \<not> ?w ! e)" using d(1,4) way by auto
  obtain x' y' where b: "behind (x, y) (four_dirs ! d) = (x', y')" by fastforce
  have lead: "odd_point s x' y'" "inner s (x + fst (four_dirs ! d)) (y + snd (four_dirs ! d))"
    using way_leads [OF xy d(1)] d(3) way [OF d(1)] b by simp_all
  let ?r = "s\<lparr>random_calls := Suc (random_calls s)\<rparr>"
  let ?u = "set_space (x + fst (four_dirs ! d)) (y + snd (four_dirs ! d)) MAZE_NONE ?r"
  have fr: "frame_walls ?r" "inner ?r (x + fst (four_dirs ! d)) (y + snd (four_dirs ! d))" using ok(2) lead(2) by (simp_all add: inner_def)
  note su = set_inner [OF fr, where v = MAZE_NONE]
  note du = dug_fields [OF su(3)]
  have ou: "odd_point ?u x' y'" using lead(1) by (simp add: du)
  have "(x', y') \<noteq> (x + fst (four_dirs ! d), y + snd (four_dirs ! d))" using below_4 [OF d(1)] b by (auto simp: behind_def four_dirs_def)
  then have cu: "cell ?u x' y' = cell s x' y'" using su(4) [of x' y'] odd_point_in_maze [OF lead(1)] by auto
  have uok: "maze_arr_ok ?u" "frame_walls ?u" using su(2) by (simp_all add: frame_walls_def)
  note gu = lattice_get [OF uok(1) ou]
  note pu = set_inner(1) [OF uok(2) odd_point_inner [OF ou], of MAZE_NONE]
  have x': "x' = x + 2 * fst (four_dirs ! d)" "y' = y + 2 * snd (four_dirs ! d)" using b by (simp_all add: behind_def)
  have dirs: "([(0, -1), (1, 0), (0, 1), (-1, 0)] :: (int \<times> int) list) ! d = four_dirs ! d" by (simp add: four_dirs_def)
  have "worm_step x y pref remaining s =
      Some (if (int d - pref + 4) smod 4 = 2 then Inl ?r
            else Inr (x', y', int d, if cell s x' y' = MAZE_WALL then remaining - 1 else remaining, set_space x' y' MAZE_NONE ?u))"
    using w0(1) w1(1) w2(1) w3(1) total d(2) su(1) gu pu
    unfolding worm_step_def by (simp add: dirs random_def r split_beta x' [symmetric] cu Let_def del: pick_dir.simps)
  then show ?thesis using d(1) way [OF d(1)] d(3) zero b by (intro exI [of _ d]) (simp add: Let_def)
qed

text \<open>How far a worm can go while the random numbers are 0: up, then right along the border, then down
  and back.\<close>

definition run_length :: "'a maze_game_scheme \<Rightarrow> int \<Rightarrow> int \<Rightarrow> int \<Rightarrow> int" where
  "run_length s x y pref_dir =
     (if 1 < y then (if pref_dir = 2 then 1 else y + (2 * maze_x_dim s - x) + 3) else (2 * maze_x_dim s - x) + 2)"

lemma worm_step_cases:
  assumes dig: "digging s" and rv: "\<forall>n. 0 \<le> random_values s n" and xy: "odd_point s x y" and pref: "0 \<le> pref" "pref < 4"
  obtains (ends) "worm_step x y pref remaining s = Some (Inl (s\<lparr>random_calls := Suc (random_calls s)\<rparr>))"
  | (moves) x' y' p' r' t where "worm_step x y pref remaining s = Some (Inr (x', y', p', r', t))" "digging t" "dug s t"
    "odd_point t x' y'" "0 \<le> p'" "p' < 4" "walls t \<subseteq> walls s" "r' - int (card (walls t)) = remaining - int (card (walls s))"
    "random_calls t = Suc (random_calls s)" "random_values s (random_calls s) = 0 \<Longrightarrow> run_length t x' y' p' < run_length s x y pref"
proof -
  obtain d where d: "d < 4" "ways s x y ! d" "random_values s (random_calls s) = 0 \<longrightarrow> (\<forall>e<d. \<not> ways s x y ! e)"
    and step: "let (x', y') = behind (x, y) (four_dirs ! d);
         r = s\<lparr>random_calls := Suc (random_calls s)\<rparr>;
         t = set_space x' y' MAZE_NONE (set_space (x + fst (four_dirs ! d)) (y + snd (four_dirs ! d)) MAZE_NONE r)
     in worm_step x y pref remaining s =
       Some (if (int d - pref + 4) smod 4 = 2 then Inl r
             else Inr (x', y', int d, if cell s x' y' = MAZE_WALL then remaining - 1 else remaining, t))"
    using worm_step_moves [OF assms, of remaining] by blast
  obtain x' y' where b: "behind (x, y) (four_dirs ! d) = (x', y')" by fastforce
  let ?a = "x + fst (four_dirs ! d)" and ?b = "y + snd (four_dirs ! d)"
  define r where "r = s\<lparr>random_calls := Suc (random_calls s)\<rparr>"
  define u where "u = set_space ?a ?b MAZE_NONE r"
  define t where "t = set_space x' y' MAZE_NONE u"
  have lead: "odd_point s x' y'" "inner s ?a ?b" using way_leads [OF xy d(1,2)] b by simp_all
  have r: "digging r" "inner r ?a ?b" "walls r = walls s" "odd_point r x' y'" "lattice r = lattice s"
    using dig lead by (simp_all add: r_def inner_def lattice_def)
  have fr: "frame_walls r" using r(1) by (simp add: digging_def)
  note du = dug_fields [OF set_inner(3) [OF fr r(2), where v = MAZE_NONE], folded u_def]
  have "(?a, ?b) \<notin> lattice s"
    using xy below_4 [OF d(1)] by (auto simp: lattice_def odd_point_def four_dirs_def)
  then have u: "digging u" "walls u = walls s" "inner u x' y'" "frame_walls u"
    using digging_set [OF r(1,2)] r(3) odd_point_inner [OF r(4)] by (auto simp: u_def walls_def digging_def inner_def)
  have t: "digging t" "walls t = walls s - {(x', y')}" using digging_set [OF u(1,3)] u(2) by (simp_all add: t_def)
  have dt: "dug s t" by (simp add: dug_def t_def u_def r_def set_space_def)
  have calls: "random_calls t = Suc (random_calls s)" by (simp add: t_def u_def r_def set_space_def)
  have run: "worm_step x y pref remaining s =
       Some (if (int d - pref + 4) smod 4 = 2 then Inl r
             else Inr (x', y', int d, if cell s x' y' = MAZE_WALL then remaining - 1 else remaining, t))"
    using step unfolding b r_def [symmetric] u_def [symmetric] t_def [symmetric] Let_def prod.case .
  show thesis
  proof (cases "(int d - pref + 4) smod 4 = 2")
    case True
    then show ?thesis using ends run by (simp add: r_def)
  next
    case turn: False
    have fin: "finite (walls s)" by (rule finite_walls) (use dig in \<open>simp add: digging_def frame_walls_def\<close>)
    have "(x', y') \<in> walls s \<longleftrightarrow> cell s x' y' = MAZE_WALL" using lead(1) by (simp add: walls_def lattice_def)
    then have rem: "(if cell s x' y' = MAZE_WALL then remaining - 1 else remaining) - int (card (walls t)) = remaining - int (card (walls s))"
      using fin card_Suc_Diff1 [OF fin, of "(x', y')"] by (auto simp: t(2))
    have short: "run_length t x' y' (int d) < run_length s x y pref" if "random_values s (random_calls s) = 0"
    proof -
      have dims: "maze_x_dim t = maze_x_dim s" by (rule dug_fields(1) [OF dt])
      have y2: "2 \<le> maze_y_dim s" using dig by (simp add: digging_def)
      have e: "\<not> ways s x y ! e" if "e < d" for e using d(3) \<open>random_values s (random_calls s) = 0\<close> that by blast
      have xy': "x' = x + 2 * fst (four_dirs ! d)" "y' = y + 2 * snd (four_dirs ! d)" using b by (simp_all add: behind_def)
      have in_m: "0 < x" "x < 2 * maze_x_dim s" "0 < y" "y < 2 * maze_y_dim s" "odd y" using xy by (simp_all add: odd_point_def)
      consider "d = 0" | "d = 1" | "d = 2" | "d = 3" using below_4 [OF d(1)] by blast
      then show ?thesis
      proof cases
        case 1
        have "pref \<noteq> 2" using turn 1 by (auto simp: signed_modulo_int_def)
        then show ?thesis using 1 d(2) in_m by (simp add: run_length_def dims xy' four_dirs_def ways_def)
      next
        case 2
        then show ?thesis using e [of 0] d(2) in_m by (simp add: run_length_def dims xy' four_dirs_def ways_def)
      next
        case 3
        then show ?thesis using e [of 0] e [of 1] d(2) in_m by (simp add: run_length_def dims xy' four_dirs_def ways_def)
      next
        case 4
        then have "\<not> 1 < y" "\<not> y < 2 * maze_y_dim s - 1" using e [of 0] e [of 2] by (simp_all add: ways_def)
        then show ?thesis using in_m y2 by linarith
      qed
    qed
    show ?thesis
    proof (rule moves)
      show "worm_step x y pref remaining s = Some (Inr (x', y', int d, if cell s x' y' = MAZE_WALL then remaining - 1 else remaining, t))"
        using run turn by simp
      show "odd_point t x' y'" using lead(1) dug_fields(7) [OF dt] by simp
      show "walls t \<subseteq> walls s" using t(2) by blast
    qed (use t dt d(1) calls rem short in simp_all)
  qed
qed

subsection \<open>A worm ends\<close>

text \<open>What a worm leaves: \<open>remaining\<close> has gone down by the number of points cleared.\<close>

definition worm_result :: "'a maze_game_scheme \<Rightarrow> int \<Rightarrow> (int \<times> int \<times> int \<times> 'a maze_game_scheme) option \<Rightarrow> bool" where
  "worm_result s remaining r \<longleftrightarrow> (\<exists>x y r' t. r = Some (x, y, r', t) \<and> digging t \<and> dug s t \<and> odd_point t x y \<and>
     walls t \<subseteq> walls s \<and> r' - int (card (walls t)) = remaining - int (card (walls s)))"

lemma worm_result_step:
  assumes "worm_step x y pref remaining s = Some (Inr (x', y', p', r', t))" "dug s t" "walls t \<subseteq> walls s"
    and "r' - int (card (walls t)) = remaining - int (card (walls s))" "worm_result t r' (worm x' y' p' r' t)"
  shows "worm_result s remaining (worm x y pref remaining s)"
proof -
  have "worm x y pref remaining s = worm x' y' p' r' t" using assms(1) by (subst worm.simps) simp
  then show ?thesis using assms(2-5) dug_trans unfolding worm_result_def by fastforce
qed

lemma worm_result_end:
  assumes "worm_step x y pref remaining s = Some (Inl (s\<lparr>random_calls := c\<rparr>))" "digging s" "odd_point s x y"
  shows "worm_result s remaining (worm x y pref remaining s)"
proof -
  have "worm x y pref remaining s = Some (x, y, remaining, s\<lparr>random_calls := c\<rparr>)" using assms(1) by (subst worm.simps) simp
  then show ?thesis using assms(2,3) by (auto simp: worm_result_def)
qed

lemma worm_zeros:
  assumes "digging s" "\<forall>n. 0 \<le> random_values s n" "odd_point s x y" "0 \<le> pref" "pref < 4"
    and "run_length s x y pref \<le> int n" "\<forall>i<n. random_values s (random_calls s + i) = 0"
  shows "worm_result s remaining (worm x y pref remaining s)"
  using assms
proof (induction n arbitrary: x y pref remaining s)
  case 0
  then have "x < 2 * maze_x_dim s" "0 < y" by (simp_all add: odd_point_def)
  then show ?case using 0(6) by (auto simp: run_length_def split: if_splits)
next
  case (Suc n)
  show ?case
  proof (rule worm_step_cases [OF Suc.prems(1-5), of remaining])
    assume "worm_step x y pref remaining s = Some (Inl (s\<lparr>random_calls := Suc (random_calls s)\<rparr>))"
    then show ?thesis by (rule worm_result_end [OF _ Suc.prems(1,3)])
  next
    fix x' y' p' r' t
    assume m: "worm_step x y pref remaining s = Some (Inr (x', y', p', r', t))" "digging t" "dug s t"
      "odd_point t x' y'" "0 \<le> p'" "p' < 4" "walls t \<subseteq> walls s" "r' - int (card (walls t)) = remaining - int (card (walls s))"
      "random_calls t = Suc (random_calls s)" "random_values s (random_calls s) = 0 \<Longrightarrow> run_length t x' y' p' < run_length s x y pref"
    note rt = dug_fields(3) [OF m(3)]
    have "random_values s (random_calls s) = 0" using Suc.prems(7) [rule_format, of 0] by simp
    then have "run_length t x' y' p' \<le> int n" using m(10) Suc.prems(6) by simp
    moreover have "\<forall>i<n. random_values t (random_calls t + i) = 0"
      using Suc.prems(7) [rule_format, of "Suc _"] by (simp add: rt m(9))
    ultimately have "worm_result t r' (worm x' y' p' r' t)"
      using Suc.IH [OF m(2) _ m(4-6)] Suc.prems(2) by (simp add: rt)
    then show ?thesis by (rule worm_result_step [OF m(1,3,7,8)])
  qed
qed

lemma run_length_200:
  assumes "maze_arr_ok s" "odd_point s x y" shows "run_length s x y pref \<le> 200"
  using assms by (auto simp: run_length_def odd_point_def maze_arr_ok_def)

lemma worm_ends:
  assumes "digging s" "random_fair (random_values s)" "odd_point s x y" "0 \<le> pref" "pref < 4"
  shows "worm_result s remaining (worm x y pref remaining s)"
proof -
  obtain d where d: "random_calls s \<le> d" "\<forall>i<200. random_values s (d + i) = 0"
    using assms(2) unfolding random_fair_def by blast
  have rv: "\<forall>n. 0 \<le> random_values s n" using assms(2) by (simp add: random_fair_def)
  show ?thesis
    using d rv assms(1,3-5)
  proof (induction "d - random_calls s" arbitrary: x y pref remaining s)
    case 0
    then have "random_calls s = d" "maze_arr_ok s" by (simp_all add: digging_def frame_walls_def)
    then show ?case using 0 run_length_200 [of s x y pref] by (intro worm_zeros [of s x y pref 200]) simp_all
  next
    case (Suc k)
    show ?case
    proof (rule worm_step_cases [OF Suc.prems(4,3,5-7), of remaining])
      assume "worm_step x y pref remaining s = Some (Inl (s\<lparr>random_calls := Suc (random_calls s)\<rparr>))"
      then show ?thesis by (rule worm_result_end [OF _ Suc.prems(4,5)])
    next
      fix x' y' p' r' t
      assume m: "worm_step x y pref remaining s = Some (Inr (x', y', p', r', t))" "digging t" "dug s t"
        "odd_point t x' y'" "0 \<le> p'" "p' < 4" "walls t \<subseteq> walls s" "r' - int (card (walls t)) = remaining - int (card (walls s))"
        "random_calls t = Suc (random_calls s)"
      note rt = dug_fields(3) [OF m(3)]
      have "worm_result t r' (worm x' y' p' r' t)"
        using Suc.hyps Suc.prems(2,3) m by (intro Suc.hyps(1)) (simp_all add: rt)
      then show ?thesis by (rule worm_result_step [OF m(1,3,7,8)])
    qed
  qed
qed

subsection \<open>The worms clear all points\<close>

definition all_open :: "'a maze_game_scheme \<Rightarrow> bool" where
  "all_open s \<longleftrightarrow> frame_walls s \<and> 2 \<le> maze_x_dim s \<and> 2 \<le> maze_y_dim s \<and>
     (\<forall>p \<in> lattice s. cell s (fst p) (snd p) = MAZE_NONE)"

lemma worms_end:
  assumes "digging s" "random_fair (random_values s)" "walls s \<noteq> {}" "remaining = int (card (walls s))"
  shows "\<exists>x y t. worms remaining s = Some (x, y, t) \<and> all_open t \<and> dug s t \<and> odd_point t x y"
  using assms
proof (induction "card (walls s)" arbitrary: remaining s rule: less_induct)
  case less
  have ok: "maze_arr_ok s" and f: "frame_walls s" using less.prems(1) by (simp_all add: digging_def frame_walls_def)
  have fin: "finite (walls s)" by (rule finite_walls [OF ok])
  obtain a b where ab: "odd_point s a b" "cell s a b = MAZE_WALL" using less.prems(3) by (auto simp: walls_def lattice_def)
  obtain x y d where p: "pick_wall s = Some (x, y, s\<lparr>random_calls := d\<rparr>)" "odd_point s x y" "cell s x y AND MAZE_WALL \<noteq> 0"
    using pick_point_fair [OF ok less.prems(2) ab(1), of "\<lambda>w. w AND MAZE_WALL = 0"] ab(2) by (auto simp: pick_wall_def)
  have "cell s x y = MAZE_WALL \<or> cell s x y = MAZE_NONE" using less.prems(1) p(2) by (auto simp: digging_def lattice_def)
  then have w: "(x, y) \<in> walls s" using p(2,3) by (auto simp: walls_def lattice_def)
  let ?s = "s\<lparr>random_calls := d\<rparr>"
  let ?u = "set_space x y MAZE_NONE ?s"
  have i: "digging ?s" "inner ?s x y" "frame_walls ?s" using less.prems(1) f odd_point_inner [OF p(2)] by (simp_all add: inner_def)
  have u: "digging ?u" "walls ?u = walls s - {(x, y)}" "dug s ?u"
    using digging_set [OF i(1,2)] dug_trans [OF dugI(3) set_inner(3) [OF i(3,2)]] by simp_all
  note du = dug_fields [OF u(3)]
  define pref where "pref = random_values s (random_calls ?u) smod 4"
  let ?v = "?u\<lparr>random_calls := Suc (random_calls ?u)\<rparr>"
  have pref: "0 \<le> pref" "pref < 4" using less.prems(2) by (simp_all add: pref_def smod_nonneg random_fair_def)
  have "worm_result ?v (remaining - 1) (worm x y pref (remaining - 1) ?v)"
    by (rule worm_ends) (use u p(2) less.prems(2) pref in \<open>simp_all add: du\<close>)
  then obtain x' y' r' t where t: "worm x y pref (remaining - 1) ?v = Some (x', y', r', t)" "digging t" "dug ?v t" "odd_point t x' y'"
    "walls t \<subseteq> walls ?u" "r' - int (card (walls t)) = remaining - 1 - int (card (walls ?u))"
    unfolding worm_result_def by auto
  have "card (walls ?u) = card (walls s) - 1" "0 < card (walls s)" using u(2) w fin by (auto simp: card_gt_0_iff)
  then have r': "r' = int (card (walls t))" using t(6) less.prems(4) by linarith
  have sub: "walls t \<subset> walls s" using t(5) u(2) w by blast
  have dt: "dug s t" using u(3) t(3) dug_trans by blast
  have run: "worms remaining s = (if r' > 0 then worms r' t else Some (x', y', t))"
    using p(1) set_inner(1) [OF i(3,2), of MAZE_NONE] t(1) by (subst worms.simps) (simp add: random_def Let_def pref_def du)
  show ?case
  proof (cases "walls t = {}")
    case True
    then have "all_open t" using t(2) by (auto simp: all_open_def digging_def walls_def)
    then show ?thesis using run True r' dt t(4) by simp
  next
    case False
    have ft: "finite (walls t)" using fin sub finite_subset by blast
    have "\<exists>x y w. worms r' t = Some (x, y, w) \<and> all_open w \<and> dug t w \<and> odd_point w x y"
      using less.hyps [OF psubset_card_mono [OF fin sub] t(2) _ False r'] less.prems(2) dug_fields(3) [OF dt] by simp
    moreover have "0 < r'" using r' False ft by (simp add: card_gt_0_iff)
    ultimately show ?thesis using run dt dug_trans by fastforce
  qed
qed

end
