(* ===== verification/MazeJoin.thy ===== *)
theory MazeJoin
  imports MazeDig
begin

text \<open>
  The second phase of \<open>make_maze\<close>: joining the parts. The marked points are at all times exactly the
  points connected to (1,1); as long as there are others, one of them lies next to a marked point, the scan
  over the lattice comes to it, and the loop ends.
\<close>

subsection \<open>Passages\<close>

definition passage :: "'a maze_game_scheme \<Rightarrow> int \<times> int \<Rightarrow> int \<times> int \<Rightarrow> bool" where
  "passage s p q \<longleftrightarrow> p \<in> lattice s \<and> (\<exists>d \<in> set four_dirs. \<not> has MAZE_WALL s (fst p + fst d) (snd p + snd d) \<and> q = behind p d)"

definition reached_points :: "'a maze_game_scheme \<Rightarrow> (int \<times> int) set" where
  "reached_points s = {p \<in> lattice s. has MAZE_REACH s (fst p) (snd p)}"

text \<open>The invariant of the loop.\<close>

definition joining :: "'a maze_game_scheme \<Rightarrow> bool" where
  "joining s \<longleftrightarrow> frame_walls s \<and> 2 \<le> maze_x_dim s \<and> 2 \<le> maze_y_dim s \<and>
     (\<forall>p \<in> lattice s. cell s (fst p) (snd p) = MAZE_NONE \<or> cell s (fst p) (snd p) = MAZE_REACH) \<and>
     (1, 1) \<in> reached_points s \<and> (\<forall>p \<in> reached_points s. (passage s)\<^sup>*\<^sup>* (1, 1) p) \<and>
     (\<forall>p \<in> reached_points s. \<forall>q. passage s p q \<longrightarrow> q \<in> reached_points s)"

definition unreached :: "'a maze_game_scheme \<Rightarrow> nat" where
  "unreached s = card (lattice s - reached_points s)"

lemma joining_calls [simp]: "joining ((s :: 'a maze_game_scheme)\<lparr>random_calls := c\<rparr>) = joining s"
  "unreached (s\<lparr>random_calls := c\<rparr>) = unreached s" "reached_points (s\<lparr>random_calls := c\<rparr>) = reached_points s"
  "lattice (s\<lparr>random_calls := c\<rparr>) = lattice s"
proof -
  show l: "lattice (s\<lparr>random_calls := c\<rparr>) = lattice s" by (simp add: lattice_def)
  have p: "passage (s\<lparr>random_calls := c\<rparr>) = passage s" by (simp add: passage_def fun_eq_iff l)
  show r: "reached_points (s\<lparr>random_calls := c\<rparr>) = reached_points s" by (simp add: reached_points_def l)
  show "joining (s\<lparr>random_calls := c\<rparr>) = joining s" "unreached (s\<lparr>random_calls := c\<rparr>) = unreached s"
    by (simp_all add: joining_def p l r unreached_def)
qed

lemma joiningD:
  assumes "joining s"
  shows "maze_arr_ok s" "frame_walls s" "border_walls s" "finite (lattice s)" "reached_points s \<subseteq> lattice s"
proof -
  show f: "frame_walls s" using assms by (simp add: joining_def)
  then show ok: "maze_arr_ok s" "border_walls s" by (simp_all add: frame_walls_def)
  show "finite (lattice s)" by (rule lattice_card(1) [OF ok(1)])
  show "reached_points s \<subseteq> lattice s" by (auto simp: reached_points_def)
qed

lemma lattice_size:
  assumes "maze_arr_ok s"
  shows "card (lattice s) = nat (maze_x_dim s * maze_y_dim s)"
proof -
  let ?f = "\<lambda>p :: int \<times> int. (2 * fst p + 1, 2 * snd p + 1)"
  let ?A = "{0..<maze_x_dim s} \<times> {0..<maze_y_dim s}"
  have "lattice s = ?f ` ?A"
  proof (rule set_eqI)
    fix p :: "int \<times> int"
    show "p \<in> lattice s \<longleftrightarrow> p \<in> ?f ` ?A"
    proof
      assume "p \<in> lattice s"
      then have o: "odd_point s (fst p) (snd p)" by (simp add: lattice_point)
      then have "p = ?f (fst p div 2, snd p div 2)" "(fst p div 2, snd p div 2) \<in> ?A"
        using odd_as_double [of "fst p"] odd_as_double [of "snd p"] by (auto simp: odd_point_def prod_eq_iff)
      then show "p \<in> ?f ` ?A" by blast
    next
      assume "p \<in> ?f ` ?A"
      then show "p \<in> lattice s" by (auto simp: lattice_def odd_point_def)
    qed
  qed
  moreover have "inj_on ?f ?A" by (auto simp: inj_on_def)
  ultimately have "card (lattice s) = card ?A" by (simp add: card_image)
  then show ?thesis using assms by (simp add: card_cartesian_product maze_arr_ok_def nat_mult_distrib)
qed

lemma area_passage:
  assumes "border_walls s" "p \<in> lattice s" "q \<in> area s p"
  shows "(passage s)\<^sup>*\<^sup>* p q"
proof -
  have "(spreads s)\<^sup>*\<^sup>* p q" using assms(3) by (simp add: area_def)
  then show ?thesis
  proof (induction rule: rtranclp_induct)
    case (step u v)
    have "u \<in> lattice s" using area_lattice [OF assms(1,2)] step.hyps(1) by (auto simp: area_def)
    then have "passage s u v" using step.hyps(2) by (auto simp: passage_def spreads_def opens_def)
    then show ?case using step.IH by simp
  qed simp
qed

lemma area_unreached:
  assumes "q \<in> area s p" "\<not> has MAZE_REACH s (fst p) (snd p)"
  shows "\<not> has MAZE_REACH s (fst q) (snd q)"
proof -
  have "(spreads s)\<^sup>*\<^sup>* p q" using assms(1) by (simp add: area_def)
  then show ?thesis using assms(2) by (induction rule: rtranclp_induct) (auto simp: spreads_def opens_def behind_def)
qed

text \<open>From a point of the area a passage leads into the area or to a marked point.\<close>

lemma area_passage_out:
  assumes "u \<in> area s p" "passage s u v"
  shows "v \<in> area s p \<or> has MAZE_REACH s (fst v) (snd v)"
proof (rule disjCI)
  assume "\<not> has MAZE_REACH s (fst v) (snd v)"
  then have "spreads s u v" using assms(2) by (auto simp: passage_def spreads_def opens_def behind_def)
  then show "v \<in> area s p" using assms(1) by (auto simp: area_def intro: rtranclp.rtrancl_into_rtrancl)
qed

text \<open>A passage leads from the lattice to the lattice, and back.\<close>

lemma four_dirs_minus: "d \<in> set four_dirs \<Longrightarrow> (- fst d, - snd d) \<in> set four_dirs"
  by (auto simp: four_dirs_def)

lemma passage_lattice: "border_walls s \<Longrightarrow> passage s p q \<Longrightarrow> p \<in> lattice s \<and> q \<in> lattice s"
  by (auto simp: passage_def intro: behind_lattice)

lemma passage_sym: "border_walls s \<Longrightarrow> passage s p q \<Longrightarrow> passage s q p"
proof -
  assume p: "border_walls s" "passage s p q"
  then obtain d where d: "d \<in> set four_dirs" "\<not> has MAZE_WALL s (fst p + fst d) (snd p + snd d)" "q = behind p d"
    by (auto simp: passage_def)
  let ?e = "(- fst d, - snd d)"
  have e: "fst q + fst ?e = fst p + fst d" "snd q + snd ?e = snd p + snd d" "p = behind q ?e"
    by (simp_all add: d(3) behind_def)
  have "\<not> has MAZE_WALL s (fst q + fst ?e) (snd q + snd ?e)" unfolding e(1,2) by (rule d(2))
  then show ?thesis using passage_lattice [OF p] four_dirs_minus [OF d(1)] e(3) unfolding passage_def by blast
qed

text \<open>Marking what is connected to a point.\<close>

lemma mark_area_reached:
  assumes f: "frame_walls s" and xy: "odd_point s x y"
    and vals: "\<forall>p \<in> lattice s. cell s (fst p) (snd p) = MAZE_NONE \<or> cell s (fst p) (snd p) = MAZE_REACH"
  shows "\<exists>t. mark_maze_area x y s = Some (int (card (area s (x, y))), t) \<and> dug s t \<and> frame_walls t \<and>
    reached_points t = reached_points s \<union> area s (x, y) \<and> passage t = passage s \<and>
    (\<forall>p \<in> lattice t. cell t (fst p) (snd p) = MAZE_NONE \<or> cell t (fst p) (snd p) = MAZE_REACH)"
proof -
  have ok: "maze_arr_ok s" "border_walls s" using f by (simp_all add: frame_walls_def)
  obtain t where t: "mark_maze_area x y s = Some (int (card (area s (x, y))), t)" "t = s\<lparr>maze := maze t\<rparr>" "length (maze t) = length (maze s)"
    "\<forall>a b. in_maze s a b \<longrightarrow> cell t a b = (if (a, b) \<in> area s (x, y) then cell s a b OR MAZE_REACH else cell s a b)"
    using mark_area [OF ok xy] by blast
  have dug: "dug s t" using t(2) dugI(2) by metis
  note d = dug_fields [OF dug]
  have al: "area s (x, y) \<subseteq> lattice s" by (rule area_lattice [OF ok(2)]) (simp add: lattice_def xy)
  have wall: "has MAZE_WALL t a b = has MAZE_WALL s a b" if "in_maze s a b" for a b
    using t(4) [rule_format, OF that] by (simp add: bit.conj_disj_distrib2)
  have "maze_arr_ok t" using ok(1) t(3) d by (simp add: maze_arr_ok_def)
  moreover have "cell t a b = cell s a b" if "in_maze s a b" "even a \<or> even b" for a b
    using t(4) that al by (auto simp: lattice_def odd_point_def)
  ultimately have ft: "frame_walls t" using f wall by (auto simp: frame_walls_def border_walls_def d)
  have lat: "cell t (fst p) (snd p) = (if p \<in> area s (x, y) then cell s (fst p) (snd p) OR MAZE_REACH else cell s (fst p) (snd p))"
    if "p \<in> lattice s" for p using t(4) lattice_in_maze [OF that] by simp
  have vt: "\<forall>p \<in> lattice t. cell t (fst p) (snd p) = MAZE_NONE \<or> cell t (fst p) (snd p) = MAZE_REACH"
    using vals by (auto simp: d lat)
  have rt: "reached_points t = reached_points s \<union> area s (x, y)"
  proof (rule set_eqI)
    fix p
    show "p \<in> reached_points t \<longleftrightarrow> p \<in> reached_points s \<union> area s (x, y)"
    proof (cases "p \<in> lattice s")
      case True
      then show ?thesis using vals by (auto simp: reached_points_def d lat)
    next
      case False
      then show ?thesis using al by (auto simp: reached_points_def d)
    qed
  qed
  have "passage t p q = passage s p q" for p q
    unfolding passage_def d(6) by (intro conj_cong bex_cong refl) (simp add: wall between_in_maze)
  then show ?thesis using t(1) dug ft rt vt by (auto simp: fun_eq_iff)
qed

subsection \<open>Joining a point to the marked ones\<close>

text \<open>A marked neighbour in direction \<open>d\<close>.\<close>

definition joins :: "'a maze_game_scheme \<Rightarrow> int \<Rightarrow> int \<Rightarrow> nat \<Rightarrow> bool" where
  "joins s x y d \<longleftrightarrow> d < 4 \<and> ways s x y ! d \<and> behind (x, y) (four_dirs ! d) \<in> reached_points s"

definition knocked :: "int \<Rightarrow> int \<Rightarrow> nat \<Rightarrow> 'a maze_game_scheme \<Rightarrow> 'a maze_game_scheme" where
  "knocked x y d s = set_space (x + fst (four_dirs ! d)) (y + snd (four_dirs ! d)) MAZE_NONE s"

lemma connect_spec:
  assumes j: "joining s" and xy: "odd_point s x y"
  shows "(\<forall>d. \<not> joins s x y d) \<and> connect x y s = Some (False, s) \<or>
    (\<exists>d. joins s x y d \<and> connect x y s = Some (True, knocked x y d s))"
proof -
  note f = joiningD(2) [OF j]
  have way: "ways s x y ! d \<Longrightarrow> d < 4 \<Longrightarrow> odd_point s (fst (behind (x, y) (four_dirs ! d))) (snd (behind (x, y) (four_dirs ! d)))" for d
    by (rule way_leads(1) [OF xy])
  have put: "maze_put (x + fst (four_dirs ! d)) (y + snd (four_dirs ! d)) MAZE_NONE s = Some (knocked x y d s)" if "ways s x y ! d" "d < 4" for d
    unfolding knocked_def by (rule set_inner(1) [OF f way_leads(2) [OF xy that(2,1)]])
  have r: "reached (ways s x y ! d) (fst (behind (x, y) (four_dirs ! d))) (snd (behind (x, y) (four_dirs ! d))) s = Some (joins s x y d)" if "d < 4" for d
    using lattice_get [OF joiningD(1) [OF j] way [OF _ that]] that
    by (auto simp: reached_def joins_def reached_points_def lattice_point way)
  have r0: "reached (y > 1) x (y - 2) s = Some (joins s x y 0)" using r [of 0] by (simp add: ways_def behind_def four_dirs_def)
  have r1: "reached (x < 2 * maze_x_dim s - 1) (x + 2) y s = Some (joins s x y 1)" using r [of 1] by (simp add: ways_def behind_def four_dirs_def)
  have r2: "reached (y < 2 * maze_y_dim s - 1) x (y + 2) s = Some (joins s x y 2)" using r [of 2] by (simp add: ways_def behind_def four_dirs_def)
  have r3: "reached (x > 1) (x - 2) y s = Some (joins s x y 3)" using r [of 3] by (simp add: ways_def behind_def four_dirs_def)
  have p0: "maze_put x (y - 1) MAZE_NONE s = Some (knocked x y 0 s)" if "joins s x y 0" using put [of 0] that by (simp add: joins_def four_dirs_def)
  have p1: "maze_put (x + 1) y MAZE_NONE s = Some (knocked x y 1 s)" if "joins s x y 1" using put [of 1] that by (simp add: joins_def four_dirs_def)
  have p2: "maze_put x (y + 1) MAZE_NONE s = Some (knocked x y 2 s)" if "joins s x y 2" using put [of 2] that by (simp add: joins_def four_dirs_def)
  have p3: "maze_put (x - 1) y MAZE_NONE s = Some (knocked x y 3 s)" if "joins s x y 3" using put [of 3] that by (simp add: joins_def four_dirs_def)
  consider "joins s x y 0" | "joins s x y 3" "\<not> joins s x y 0" | "joins s x y 1" "\<not> joins s x y 3" "\<not> joins s x y 0"
    | "joins s x y 2" "\<not> joins s x y 1" "\<not> joins s x y 3" "\<not> joins s x y 0" | "\<forall>d<4. \<not> joins s x y d"
    using below_4 by metis
  then show ?thesis
  proof cases
    case 1
    then show ?thesis using r0 p0 by (intro disjI2 exI [of _ 0]) (simp add: connect_def)
  next
    case 2
    then show ?thesis using r0 r3 p3 by (intro disjI2 exI [of _ 3]) (simp add: connect_def)
  next
    case 3
    then show ?thesis using r0 r3 r1 p1 by (intro disjI2 exI [of _ 1]) (simp add: connect_def)
  next
    case 4
    then show ?thesis using r0 r3 r1 r2 p2 by (intro disjI2 exI [of _ 2]) (simp add: connect_def)
  next
    case 5
    then have "connect x y s = Some (False, s)" using r0 r1 r2 r3 by (simp add: connect_def)
    moreover have "\<forall>d. \<not> joins s x y d" using 5 by (auto simp: joins_def)
    ultimately show ?thesis by blast
  qed
qed

text \<open>The space between two neighbours lies between them only.\<close>

lemma between_only:
  assumes "odd_point s x y" "u \<in> lattice s" "e \<in> set four_dirs" "d \<in> set four_dirs"
    and "fst u + fst e = x + fst d" "snd u + snd e = y + snd d"
  shows "u = (x, y) \<and> behind u e = behind (x, y) d \<or> u = behind (x, y) d \<and> behind u e = (x, y)"
proof -
  obtain a b where u: "u = (a, b)" by (cases u)
  have o: "odd x" "odd y" "odd a" "odd b" using assms(1,2) by (auto simp: lattice_def odd_point_def u)
  have "a = x + fst d - fst e" "b = y + snd d - snd e" using assms(5,6) by (simp_all add: u)
  then show ?thesis using assms(3,4) o unfolding u four_dirs_def behind_def by (auto simp: algebra_simps)
qed

lemma knocked_passages:
  assumes f: "frame_walls s" and xy: "odd_point s x y" and d: "d < 4" "ways s x y ! d"
  defines "s1 \<equiv> knocked x y d s" and "q \<equiv> behind (x, y) (four_dirs ! d)"
  shows "frame_walls s1" "dug s s1" "p \<in> lattice s \<Longrightarrow> cell s1 (fst p) (snd p) = cell s (fst p) (snd p)"
    "passage s u v \<Longrightarrow> passage s1 u v" "passage s1 (x, y) q"
    "passage s1 u v \<Longrightarrow> passage s u v \<or> (u, v) = ((x, y), q) \<or> (u, v) = (q, (x, y))"
proof -
  let ?d = "four_dirs ! d"
  have dd: "?d \<in> set four_dirs" using d(1) by (intro nth_mem) (simp add: four_dirs_def)
  note i = way_leads(2) [OF xy d]
  note si = set_inner [OF f i, where v = MAZE_NONE, folded knocked_def s1_def]
  note df = dug_fields [OF si(3)]
  show "frame_walls s1" "dug s s1" using si by simp_all
  show "cell s1 (fst p) (snd p) = cell s (fst p) (snd p)" if "p \<in> lattice s" for p
  proof -
    have "\<not> (fst p = x + fst ?d \<and> snd p = y + snd ?d)"
      using that xy dd by (auto simp: lattice_point odd_point_def four_dirs_def)
    then show ?thesis unfolding si(4) [OF lattice_in_maze [OF that]] by (rule if_not_P)
  qed
  have w: "\<not> has MAZE_WALL s1 (fst u + fst e) (snd u + snd e) \<longleftrightarrow>
      fst u + fst e = x + fst ?d \<and> snd u + snd e = y + snd ?d \<or> \<not> has MAZE_WALL s (fst u + fst e) (snd u + snd e)"
    if "u \<in> lattice s" "e \<in> set four_dirs" for u e
    unfolding si(4) [OF between_in_maze [OF that]] by auto
  show "passage s1 u v" if uv: "passage s u v"
  proof -
    obtain e where "u \<in> lattice s" "e \<in> set four_dirs" "\<not> has MAZE_WALL s (fst u + fst e) (snd u + snd e)" "v = behind u e"
      using uv unfolding passage_def by blast
    then show ?thesis using w unfolding passage_def df by blast
  qed
  have xl: "(x, y) \<in> lattice s" using xy by (simp add: lattice_def)
  show "passage s1 (x, y) q" using w [OF xl dd] xl dd unfolding passage_def df q_def by auto
  show "passage s u v \<or> (u, v) = ((x, y), q) \<or> (u, v) = (q, (x, y))" if uv: "passage s1 u v"
  proof -
    obtain e where e: "u \<in> lattice s" "e \<in> set four_dirs" "\<not> has MAZE_WALL s1 (fst u + fst e) (snd u + snd e)" "v = behind u e"
      using uv unfolding passage_def df by blast
    show ?thesis
    proof (cases "fst u + fst e = x + fst ?d \<and> snd u + snd e = y + snd ?d")
      case True
      then show ?thesis using between_only [OF xy e(1,2) dd] e(4) by (auto simp: q_def)
    next
      case False
      then have "\<not> has MAZE_WALL s (fst u + fst e) (snd u + snd e)" using w [OF e(1,2)] e(3) by blast
      then show ?thesis using e unfolding passage_def by blast
    qed
  qed
qed

lemma join_step:
  assumes j: "joining s" and xy: "odd_point s x y" "(x, y) \<notin> reached_points s" and d: "joins s x y d"
  shows "\<exists>n t. mark_maze_area x y (knocked x y d s) = Some (n, t) \<and> joining t \<and> dug s t \<and>
    int (unreached t) = int (unreached s) - n \<and> unreached t < unreached s"
proof -
  let ?s1 = "knocked x y d s" and ?p = "(x, y)" and ?q = "behind (x, y) (four_dirs ! d)" and ?R = "reached_points s"
  have f: "frame_walls s" "border_walls s" and dw: "d < 4" "ways s x y ! d" "?q \<in> ?R"
    using joiningD(2,3) [OF j] d by (simp_all add: joins_def)
  note k = knocked_passages [OF f(1) xy(1) dw(1,2)]
  note dk = dug_fields [OF k(2)]
  have b1: "border_walls ?s1" using k(1) by (simp add: frame_walls_def)
  have o1: "odd_point ?s1 x y" using xy(1) by (simp add: dk)
  have pl: "?p \<in> lattice s" "?p \<in> lattice ?s1" using xy(1) by (simp_all add: lattice_def dk)
  have v1: "\<forall>p \<in> lattice ?s1. cell ?s1 (fst p) (snd p) = MAZE_NONE \<or> cell ?s1 (fst p) (snd p) = MAZE_REACH"
    using j k(3) by (simp add: joining_def dk)
  have R1: "reached_points ?s1 = ?R" using k(3) by (auto simp: reached_points_def dk)
  obtain t where t: "mark_maze_area x y ?s1 = Some (int (card (area ?s1 ?p)), t)" "dug ?s1 t" "frame_walls t"
    "reached_points t = ?R \<union> area ?s1 ?p" "passage t = passage ?s1"
    "\<forall>p \<in> lattice t. cell t (fst p) (snd p) = MAZE_NONE \<or> cell t (fst p) (snd p) = MAZE_REACH"
    using mark_area_reached [OF k(1) o1 v1] unfolding R1 by blast
  have dt: "dug s t" by (rule dug_trans [OF k(2) t(2)])
  note ft = dug_fields [OF dt]
  have al: "area ?s1 ?p \<subseteq> lattice s" using area_lattice [OF b1 pl(2)] by (simp add: dk)
  have "\<not> has MAZE_REACH ?s1 x y" using xy(2) pl(1) k(3) [OF pl(1)] by (simp add: reached_points_def)
  then have "r \<notin> reached_points ?s1" if "r \<in> area ?s1 ?p" for r using area_unreached [OF that] by (simp add: reached_points_def)
  then have new: "area ?s1 ?p \<inter> ?R = {}" unfolding R1 by blast
  have "(passage s)\<^sup>*\<^sup>* (1, 1) r \<Longrightarrow> (passage ?s1)\<^sup>*\<^sup>* (1, 1) r" for r
    by (erule rtranclp_mono [THEN predicate2D, rotated]) (auto intro: k(4))
  then have old: "(passage ?s1)\<^sup>*\<^sup>* (1, 1) r" if "r \<in> ?R" for r using j that by (simp add: joining_def)
  have "(passage ?s1)\<^sup>*\<^sup>* (1, 1) ?p" using old [OF dw(3)] passage_sym [OF b1 k(5)] by simp
  then have conn: "(passage ?s1)\<^sup>*\<^sup>* (1, 1) r" if "r \<in> ?R \<union> area ?s1 ?p" for r
    using old area_passage [OF b1 pl(2)] that by (metis Un_iff rtranclp_trans)
  have closed: "v \<in> ?R \<union> area ?s1 ?p" if u: "u \<in> ?R \<union> area ?s1 ?p" and uv: "passage ?s1 u v" for u v
  proof (cases "u \<in> ?R")
    case True
    have "?p \<in> area ?s1 ?p" by (simp add: area_def)
    moreover have "passage s u v \<Longrightarrow> v \<in> ?R" using j True unfolding joining_def by blast
    ultimately show ?thesis using k(6) [OF uv] True xy(2) by auto
  next
    case False
    have "v \<in> lattice s" using passage_lattice [OF b1 uv] by (simp add: dk)
    moreover have "v \<in> area ?s1 ?p \<or> has MAZE_REACH ?s1 (fst v) (snd v)"
      using area_passage_out [OF _ uv] u False by blast
    ultimately show ?thesis using k(3) by (auto simp: reached_points_def)
  qed
  have "joining t"
    using t(3,6) j conn closed unfolding joining_def t(4,5) by (simp add: ft)
  moreover have "int (unreached t) = int (unreached s) - int (card (area ?s1 ?p))" "unreached t < unreached s"
  proof -
    have fin: "finite (lattice s)" by (rule joiningD(4) [OF j])
    have e: "lattice t - reached_points t = (lattice s - ?R) - area ?s1 ?p" by (auto simp: t(4) ft)
    have sub: "area ?s1 ?p \<subseteq> lattice s - ?R" using al new by blast
    have c: "card (area ?s1 ?p) \<le> card (lattice s - ?R)" by (rule card_mono [OF _ sub]) (use fin in simp)
    have "unreached t = unreached s - card (area ?s1 ?p)"
      unfolding unreached_def e by (rule card_Diff_subset [OF finite_subset [OF sub]]) (use fin sub in auto)
    moreover have "card (area ?s1 ?p) > 0"
      using finite_subset [OF sub] fin by (auto simp: card_gt_0_iff area_def)
    ultimately show "int (unreached t) = int (unreached s) - int (card (area ?s1 ?p))" "unreached t < unreached s"
      using c by (simp_all add: unreached_def)
  qed
  ultimately show ?thesis using t(1) dt by blast
qed

subsection \<open>The scan comes to every point\<close>

definition scan_next :: "'a maze_game_scheme \<Rightarrow> int \<times> int \<Rightarrow> int \<times> int" where
  "scan_next s p =
     (if fst p + 2 > maze_x_dim s * 2
      then (fst p + 2 - maze_x_dim s * 2, if snd p + 2 > 2 * maze_y_dim s then snd p + 2 - 2 * maze_y_dim s else snd p + 2)
      else (fst p + 2, snd p))"

definition point_number :: "'a maze_game_scheme \<Rightarrow> int \<times> int \<Rightarrow> int" where
  "point_number s p = snd p div 2 * maze_x_dim s + fst p div 2"

lemma scan_next_lattice:
  assumes "p \<in> lattice s" shows "scan_next s p \<in> lattice s"
  using assms by (auto simp: scan_next_def lattice_def odd_point_def) presburger+

lemma lattice_coords:
  assumes "p \<in> lattice s"
  obtains i j where "p = (2 * i + 1, 2 * j + 1)" "0 \<le> i" "i < maze_x_dim s" "0 \<le> j" "j < maze_y_dim s"
proof
  show "p = (2 * (fst p div 2) + 1, 2 * (snd p div 2) + 1)" "0 \<le> fst p div 2" "fst p div 2 < maze_x_dim s"
    "0 \<le> snd p div 2" "snd p div 2 < maze_y_dim s"
    using assms odd_as_double [of "fst p"] odd_as_double [of "snd p"] by (auto simp: lattice_def odd_point_def)
qed

lemma point_number_range:
  assumes "p \<in> lattice s" shows "0 \<le> point_number s p" "point_number s p < maze_x_dim s * maze_y_dim s"
proof -
  obtain i j where p: "p = (2 * i + 1, 2 * j + 1)" "0 \<le> i" "i < maze_x_dim s" "0 \<le> j" "j < maze_y_dim s"
    by (rule lattice_coords [OF assms])
  then have n: "point_number s p = j * maze_x_dim s + i" by (simp add: point_number_def)
  show "0 \<le> point_number s p" unfolding n using p(2-5) by simp
  have "(j + 1) * maze_x_dim s \<le> maze_y_dim s * maze_x_dim s" by (rule mult_right_mono) (use p in auto)
  then show "point_number s p < maze_x_dim s * maze_y_dim s" unfolding n using p(3) by (simp add: algebra_simps)
qed

lemma point_number_inj:
  assumes "p \<in> lattice s" "q \<in> lattice s" "point_number s p = point_number s q" shows "p = q"
proof -
  obtain i j where p: "p = (2 * i + 1, 2 * j + 1)" "0 \<le> i" "i < maze_x_dim s" "0 \<le> j" by (rule lattice_coords [OF assms(1)])
  obtain a b where q: "q = (2 * a + 1, 2 * b + 1)" "0 \<le> a" "a < maze_x_dim s" "0 \<le> b" by (rule lattice_coords [OF assms(2)])
  have e: "j * maze_x_dim s + i = b * maze_x_dim s + a" using assms(3) by (simp add: point_number_def p(1) q(1))
  have "i = a" using arg_cong [OF e, of "\<lambda>n. n mod maze_x_dim s"] p q by simp
  then have "j = b" using e p by simp
  then show ?thesis using \<open>i = a\<close> p q by simp
qed

lemma point_number_next:
  assumes "p \<in> lattice s"
  shows "point_number s (scan_next s p) = (point_number s p + 1) mod (maze_x_dim s * maze_y_dim s)"
proof -
  obtain i j where p: "p = (2 * i + 1, 2 * j + 1)" "0 \<le> i" "i < maze_x_dim s" "0 \<le> j" "j < maze_y_dim s"
    by (rule lattice_coords [OF assms])
  have n: "point_number s p = j * maze_x_dim s + i" by (simp add: p(1) point_number_def)
  note r = point_number_range [OF assms]
  show ?thesis
  proof (cases "i + 1 = maze_x_dim s")
    case False
    then have nx: "scan_next s p = (2 * (i + 1) + 1, 2 * j + 1)" using p by (simp add: scan_next_def)
    then have "scan_next s p \<in> lattice s" using scan_next_lattice [OF assms] by simp
    from point_number_range [OF this] have "(j * maze_x_dim s + i + 1) mod (maze_x_dim s * maze_y_dim s) = j * maze_x_dim s + i + 1"
      by (simp add: nx point_number_def)
    then show ?thesis unfolding n nx by (simp add: point_number_def algebra_simps)
  next
    case x: True
    show ?thesis
    proof (cases "j + 1 = maze_y_dim s")
      case False
      then have nx: "scan_next s p = (2 * 0 + 1, 2 * (j + 1) + 1)" using p x by (simp add: scan_next_def)
      then have "scan_next s p \<in> lattice s" using scan_next_lattice [OF assms] by simp
      from point_number_range [OF this] have "((j + 1) * maze_x_dim s) mod (maze_x_dim s * maze_y_dim s) = (j + 1) * maze_x_dim s"
        by (simp add: nx point_number_def)
      moreover have "j * maze_x_dim s + i + 1 = (j + 1) * maze_x_dim s" using x by (simp add: algebra_simps)
      ultimately show ?thesis unfolding n nx by (auto simp: point_number_def)
    next
      case True
      then have nx: "scan_next s p = (1, 1)" using p x by (simp add: scan_next_def)
      have "j * maze_x_dim s + i + 1 = maze_x_dim s * (j + 1)" using x by (simp add: algebra_simps)
      then show ?thesis unfolding n nx by (simp add: point_number_def True)
    qed
  qed
qed

lemma scan_comes_to:
  assumes "p \<in> lattice s" "q \<in> lattice s"
  shows "\<exists>k. (scan_next s ^^ Suc k) p = q"
proof -
  define N where "N = maze_x_dim s * maze_y_dim s"
  have it: "(scan_next s ^^ k) p \<in> lattice s \<and> point_number s ((scan_next s ^^ k) p) = (point_number s p + int k) mod N" for k
  proof (induction k)
    case 0
    then show ?case using assms(1) point_number_range [OF assms(1)] by (simp add: N_def)
  next
    case (Suc k)
    then show ?case using scan_next_lattice [of "(scan_next s ^^ k) p" s] point_number_next [of "(scan_next s ^^ k) p" s]
      by (simp add: N_def mod_simps add.commute add.left_commute)
  qed
  have N: "0 < N" "0 \<le> point_number s q" "point_number s q < N" using point_number_range [OF assms(2)] by (simp_all add: N_def)
  let ?k = "nat ((point_number s q - point_number s p - 1) mod N)"
  have "int (Suc ?k) = (point_number s q - point_number s p - 1) mod N + 1" using N by simp
  moreover have "(point_number s p + 1 + (point_number s q - point_number s p - 1) mod N) mod N = point_number s q"
    using N unfolding mod_add_right_eq by simp
  ultimately have "(point_number s p + int (Suc ?k)) mod N = point_number s q" by (simp only: ac_simps)
  then have "(scan_next s ^^ Suc ?k) p = q" using it [of "Suc ?k"] point_number_inj [OF _ assms(2)] by metis
  then show ?thesis by blast
qed

subsection \<open>There is always a point to join\<close>

lemma next_to_reached:
  assumes j: "joining s" and p: "odd_point s x y" and d: "d < 4" "ways s x y ! d" "behind (x, y) (four_dirs ! d) \<in> reached_points s"
    and none: "\<forall>(a, b) \<in> lattice s - reached_points s. \<forall>d. \<not> joins s a b d"
  shows "(x, y) \<in> reached_points s"
proof (rule ccontr)
  assume "(x, y) \<notin> reached_points s"
  then have "(x, y) \<in> lattice s - reached_points s" using p by (simp add: lattice_def)
  then show False using none d by (auto simp: joins_def)
qed

lemma joinable_exists:
  assumes j: "joining s" and u: "0 < unreached s"
  shows "\<exists>(x, y) \<in> lattice s - reached_points s. \<exists>d. joins s x y d"
proof (rule ccontr)
  assume "\<not> ?thesis"
  then have none: "\<forall>(a, b) \<in> lattice s - reached_points s. \<forall>d. \<not> joins s a b d" by auto
  have start: "(1, 1) \<in> reached_points s" using j by (simp add: joining_def)
  have y1: "1 \<le> maze_y_dim s" using j by (simp add: joining_def)
  have row: "(2 * int i + 1, 1) \<in> reached_points s" if "int i < maze_x_dim s" for i
    using that
  proof (induction i)
    case 0
    then show ?case using start by simp
  next
    case (Suc i)
    have "(2 * int (Suc i) + 1, 1) \<in> reached_points s"
    proof (rule next_to_reached [OF j _ _ _ _ none, of _ _ 3])
      show "behind (2 * int (Suc i) + 1, 1) (four_dirs ! 3) \<in> reached_points s"
        using Suc by (simp add: behind_def four_dirs_def add.commute)
    qed (use Suc.prems y1 in \<open>auto simp: odd_point_def ways_def\<close>)
    then show ?case .
  qed
  have all: "(2 * int i + 1, 2 * int k + 1) \<in> reached_points s" if "int i < maze_x_dim s" "int k < maze_y_dim s" for i k
    using that(2)
  proof (induction k)
    case 0
    then show ?case using row [OF that(1)] by simp
  next
    case (Suc k)
    have "(2 * int i + 1, 2 * int (Suc k) + 1) \<in> reached_points s"
    proof (rule next_to_reached [OF j _ _ _ _ none, of _ _ 0])
      show "behind (2 * int i + 1, 2 * int (Suc k) + 1) (four_dirs ! 0) \<in> reached_points s"
        using Suc by (simp add: behind_def four_dirs_def add.commute)
    qed (use Suc.prems that(1) in \<open>auto simp: odd_point_def ways_def\<close>)
    then show ?case .
  qed
  have "p \<in> reached_points s" if p: "p \<in> lattice s" for p
  proof -
    obtain i k where "p = (2 * i + 1, 2 * k + 1)" "0 \<le> i" "i < maze_x_dim s" "0 \<le> k" "k < maze_y_dim s"
      by (rule lattice_coords [OF p])
    then show ?thesis using all [of "nat i" "nat k"] by simp
  qed
  then have e: "lattice s - reached_points s = {}" by blast
  have "unreached s = 0" unfolding unreached_def e by simp
  then show False using u by simp
qed

subsection \<open>The loop ends\<close>

text \<open>One round: either a point is joined, or the place or the number of trials has moved on.\<close>

lemma join_or_not:
  assumes j: "joining s" and xy: "odd_point s x y" "(x, y) \<notin> reached_points s"
  shows "\<exists>n t. do { (found, u) \<leftarrow> connect x y s; if found then map_option (\<lambda>(n, u). (remaining - n, u)) (mark_maze_area x y u) else Some (remaining, u) }
      = Some (remaining - n, t) \<and> joining t \<and> dug s t \<and> int (unreached t) = int (unreached s) - n \<and>
    (unreached t < unreached s \<or> t = s \<and> (\<forall>d. \<not> joins s x y d))"
  using connect_spec [OF j xy(1)]
proof
  assume "(\<forall>d. \<not> joins s x y d) \<and> connect x y s = Some (False, s)"
  then show ?thesis using j by (intro exI [of _ 0] exI [of _ s]) simp
next
  assume "\<exists>d. joins s x y d \<and> connect x y s = Some (True, knocked x y d s)"
  then obtain d where d: "joins s x y d" "connect x y s = Some (True, knocked x y d s)" by blast
  show ?thesis using join_step [OF j xy d(1)] d(2) by auto
qed

definition scanning :: "'a maze_game_scheme \<Rightarrow> int \<Rightarrow> bool" where
  "scanning s trials \<longleftrightarrow> int (unreached s) < 20 \<or> trials + 1 > 100"

lemma connect_all_round:
  assumes j: "joining s" and rv: "random_fair (random_values s)" and xy: "odd_point s x y"
  shows "\<exists>x' y' t. odd_point s x' y' \<and> dug s t \<and> joining t \<and>
    connect_all x y (int (unreached s)) trials s =
      (if int (unreached t) > 0 then connect_all x' y' (int (unreached t)) (if int (unreached s) < 20 then trials else trials + 1) t else Some t) \<and>
    (unreached t < unreached s \<or> unreached t = unreached s \<and>
      (scanning s trials \<longrightarrow> t = s \<and> (x', y') = scan_next s (x, y) \<and> ((x', y') \<in> reached_points s \<or> (\<forall>d. \<not> joins s x' y' d))))"
proof -
  define trials' where "trials' = (if int (unreached s) < 20 then trials else trials + 1)"
  have ok: "maze_arr_ok s" by (rule joiningD(1) [OF j])
  have sc: "(int (unreached s) < 20 \<or> trials + 1 > 100) = scanning s trials" by (simp add: scanning_def)
  show ?thesis
  proof (cases "scanning s trials")
    case scan: True
    obtain x' y' where n: "scan_next s (x, y) = (x', y')" by fastforce
    then have nx: "(if x + 2 > maze_x_dim s * 2 then (x + 2 - maze_x_dim s * 2, if y + 2 > 2 * maze_y_dim s then y + 2 - 2 * maze_y_dim s else y + 2)
        else (x + 2, y)) = (x', y')" unfolding scan_next_def fst_conv snd_conv .
    have o: "odd_point s x' y'" using scan_next_lattice [of "(x, y)" s] xy n by (simp add: lattice_def)
    have rch: "cell s x' y' AND MAZE_REACH \<noteq> 0 \<longleftrightarrow> (x', y') \<in> reached_points s" using o by (simp add: reached_points_def lattice_def)
    note run = connect_all.simps [of x y "int (unreached s)" trials s, unfolded Let_def sc nx, folded trials'_def]
    show ?thesis
    proof (cases "(x', y') \<in> reached_points s")
      case True
      have "connect_all x y (int (unreached s)) trials s =
          (if int (unreached s) > 0 then connect_all x' y' (int (unreached s)) trials' s else Some s)"
        using scan True by (subst run) (simp add: lattice_get [OF ok o] rch)
      then show ?thesis using o j n True unfolding trials'_def
        by (intro exI [of _ x'] exI [of _ y'] exI [of _ s]) simp
    next
      case False
      obtain n' t where t: "do { (found, u) \<leftarrow> connect x' y' s;
            if found then map_option (\<lambda>(n, u). (int (unreached s) - n, u)) (mark_maze_area x' y' u) else Some (int (unreached s), u) }
          = Some (int (unreached s) - n', t)" "joining t" "dug s t" "int (unreached t) = int (unreached s) - n'"
        "unreached t < unreached s \<or> t = s \<and> (\<forall>d. \<not> joins s x' y' d)"
        using join_or_not [OF j o False, of "int (unreached s)"] by blast
      have "connect_all x y (int (unreached s)) trials s =
          (if int (unreached t) > 0 then connect_all x' y' (int (unreached t)) trials' t else Some t)"
        using scan False t(1) by (subst run) (simp add: lattice_get [OF ok o] rch t(4))
      then show ?thesis using o n t(2,3,5) unfolding trials'_def
        by (intro exI [of _ x'] exI [of _ y'] exI [of _ t]) auto
    qed
  next
    case False
    then have "0 < unreached s" by (simp add: scanning_def)
    then have "lattice s - reached_points s \<noteq> {}" unfolding unreached_def by (intro notI) simp
    then obtain a b where ab: "odd_point s a b" "\<not> (cell s a b AND MAZE_REACH \<noteq> 0)" by (auto simp: reached_points_def lattice_def)
    obtain x' y' d where p: "pick_unreached s = Some (x', y', s\<lparr>random_calls := d\<rparr>)" "odd_point s x' y'" "cell s x' y' AND MAZE_REACH = 0"
      using pick_point_fair [OF ok rv ab(1), of "\<lambda>w. w AND MAZE_REACH \<noteq> 0"] ab(2) by (auto simp: pick_unreached_def)
    let ?s = "s\<lparr>random_calls := d\<rparr>"
    have "joining ?s" "odd_point ?s x' y'" "(x', y') \<notin> reached_points ?s" using j p by (simp_all add: reached_points_def)
    from join_or_not [OF this, of "int (unreached s)"] obtain n' t where
      t: "do { (found, u) \<leftarrow> connect x' y' ?s;
            if found then map_option (\<lambda>(n, u). (int (unreached s) - n, u)) (mark_maze_area x' y' u) else Some (int (unreached s), u) }
          = Some (int (unreached s) - n', t)" "joining t" "dug ?s t" "int (unreached t) = int (unreached s) - n'"
        "unreached t < unreached s \<or> t = ?s" by auto
    have "dug s t" by (rule dug_trans [OF dugI(3) t(3)])
    moreover have "connect_all x y (int (unreached s)) trials s =
        (if int (unreached t) > 0 then connect_all x' y' (int (unreached t)) trials' t else Some t)"
      unfolding connect_all.simps [of x y "int (unreached s)" trials s] Let_def sc trials'_def [symmetric]
      using False t(1) p(1) by (simp add: t(4))
    ultimately show ?thesis using p(2) t(2,5) False unfolding trials'_def
      by (intro exI [of _ x'] exI [of _ y'] exI [of _ t]) auto
  qed
qed

text \<open>The scan comes to a point that can be joined.\<close>

lemma scanning_next: "scanning s trials \<Longrightarrow> scanning s (if int (unreached s) < 20 then trials else trials + 1)"
  by (auto simp: scanning_def)

definition join_done :: "'a maze_game_scheme \<Rightarrow> 'a maze_game_scheme option \<Rightarrow> bool" where
  "join_done s r \<longleftrightarrow> (\<exists>t. r = Some t \<and> joining t \<and> unreached t = 0 \<and> dug s t)"

lemma join_done_trans: "dug s t \<Longrightarrow> join_done t r \<Longrightarrow> join_done s r"
  unfolding join_done_def using dug_trans by blast

lemma connect_all_scan:
  fixes s :: "'a maze_game_scheme"
  assumes j: "joining s" and rv: "random_fair (random_values s)" and q: "(a, b) \<in> lattice s - reached_points s" "joins s a b d"
    and less: "\<And>(t :: 'a maze_game_scheme) x y trials. unreached t < unreached s \<Longrightarrow> joining t \<Longrightarrow> random_fair (random_values t) \<Longrightarrow> odd_point t x y \<Longrightarrow>
      join_done t (connect_all x y (int (unreached t)) trials t)"
  shows "scanning s trials \<Longrightarrow> odd_point s x y \<Longrightarrow> (scan_next s ^^ Suc k) (x, y) = (a, b) \<Longrightarrow>
    join_done s (connect_all x y (int (unreached s)) trials s)"
proof (induction k arbitrary: x y trials)
  case (0 x y trials)
  obtain x' y' t where t: "odd_point s x' y'" "dug s t" "joining t"
    "connect_all x y (int (unreached s)) trials s =
      (if int (unreached t) > 0 then connect_all x' y' (int (unreached t)) (if int (unreached s) < 20 then trials else trials + 1) t else Some t)"
    "unreached t < unreached s \<or> (x', y') = (a, b) \<and> ((x', y') \<in> reached_points s \<or> (\<forall>d. \<not> joins s x' y' d))"
    using connect_all_round [OF j rv 0(2), of trials] 0(1,3) by auto
  then have lt: "unreached t < unreached s" using q by auto
  have "join_done t (connect_all x y (int (unreached s)) trials s)"
  proof (cases "unreached t = 0")
    case True
    then show ?thesis using t(3,4) by (simp add: join_done_def)
  next
    case False
    then show ?thesis using less [OF lt t(3)] dug_fields [OF t(2)] rv t(1,4) by simp
  qed
  then show ?case by (rule join_done_trans [OF t(2)])
next
  case (Suc k x y trials)
  let ?trials = "if int (unreached s) < 20 then trials else trials + 1"
  obtain x' y' t where t: "odd_point s x' y'" "dug s t" "joining t"
    "connect_all x y (int (unreached s)) trials s =
      (if int (unreached t) > 0 then connect_all x' y' (int (unreached t)) ?trials t else Some t)"
    "unreached t < unreached s \<or> t = s \<and> (x', y') = scan_next s (x, y)"
    using connect_all_round [OF j rv Suc.prems(2), of trials] Suc.prems(1) by auto
  have "join_done t (connect_all x y (int (unreached s)) trials s)"
  proof (cases "unreached t = 0")
    case True
    then show ?thesis using t(3,4) by (simp add: join_done_def)
  next
    case False
    show ?thesis
      using t(5)
    proof
      assume "unreached t < unreached s"
      then show ?thesis using less [of t] dug_fields [OF t(2)] rv t(1,3,4) False by simp
    next
      assume e: "t = s \<and> (x', y') = scan_next s (x, y)"
      have "(scan_next s ^^ Suc (Suc k)) (x, y) = (scan_next s ^^ Suc k) (scan_next s (x, y))" by (simp only: funpow_Suc_right o_apply)
      then have "(scan_next s ^^ Suc k) (x', y') = (a, b)" using Suc.prems(3) e by simp
      then show ?thesis using Suc.IH [OF scanning_next [OF Suc.prems(1)] t(1)] t(4) e False by simp
    qed
  qed
  then show ?case by (rule join_done_trans [OF t(2)])
qed

lemma connect_all_ends:
  fixes s :: "'a maze_game_scheme"
  assumes "joining s" "random_fair (random_values s)" "odd_point s x y"
  shows "join_done s (connect_all x y (int (unreached s)) trials s)"
  using assms
proof (induction "unreached s" arbitrary: x y trials s rule: less_induct)
  case less
  note j = less.prems(1) and rv = less.prems(2) and xy = less.prems(3)
  show ?case
  proof (cases "unreached s = 0")
    case True
    then have sc: "scanning s trials" by (simp add: scanning_def)
    obtain x' y' t where "dug s t" "joining t" "unreached t = 0"
      "connect_all x y (int (unreached s)) trials s = Some t"
      using connect_all_round [OF j rv xy, of trials] True sc by auto
    then show ?thesis by (auto simp: join_done_def)
  next
    case False
    define n where "n = unreached s"
    have hyp: "join_done t (connect_all x y (int (unreached t)) trials t)"
      if "unreached t < n" "joining t" "random_fair (random_values t)" "odd_point t x y" for t :: "'a maze_game_scheme" and x y trials
      using less.hyps that unfolding n_def by blast
    have "join_done w (connect_all x y (int (unreached w)) trials w)"
      if "unreached w = n" "joining w" "random_fair (random_values w)" "odd_point w x y" for x y trials and w :: "'a maze_game_scheme"
      using that
    proof (induction "nat (100 - trials)" arbitrary: x y trials w rule: less_induct)
      case (less trials x y w)
      have u: "0 < unreached w" using less.prems(1) False by (simp add: n_def)
      show ?case
      proof (cases "scanning w trials")
        case True
        obtain a b d where q: "(a, b) \<in> lattice w - reached_points w" "joins w a b d" using joinable_exists [OF less.prems(2) u] by auto
        have "(x, y) \<in> lattice w" using less.prems(4) by (simp add: lattice_def)
        then obtain k where k: "(scan_next w ^^ Suc k) (x, y) = (a, b)" using scan_comes_to q(1) by blast
        show ?thesis by (rule connect_all_scan [OF less.prems(2,3) q _ True less.prems(4) k]) (rule hyp, simp only: less.prems(1))
      next
        case ns: False
        then have big: "\<not> int (unreached w) < 20" "trials < 100" by (simp_all add: scanning_def)
        obtain x' y' t where t: "odd_point w x' y'" "dug w t" "joining t"
          "connect_all x y (int (unreached w)) trials w =
            (if int (unreached t) > 0 then connect_all x' y' (int (unreached t)) (trials + 1) t else Some t)"
          "unreached t < unreached w \<or> unreached t = unreached w"
          using connect_all_round [OF less.prems(2,3,4), of trials] unfolding if_not_P [OF big(1)] by blast
        have ft: "random_fair (random_values t)" "odd_point t x' y'" using dug_fields [OF t(2)] less.prems(3) t(1) by simp_all
        have "join_done t (connect_all x y (int (unreached w)) trials w)"
        proof (cases "unreached t = 0")
          case True
          then show ?thesis using t(3,4) by (simp add: join_done_def)
        next
          case nz: False
          have "join_done t (connect_all x' y' (int (unreached t)) (trials + 1) t)"
            using t(5)
          proof
            assume "unreached t < unreached w"
            then show ?thesis using hyp [OF _ t(3) ft] less.prems(1) by simp
          next
            assume "unreached t = unreached w"
            then show ?thesis using less.hyps [of "trials + 1" t] t(3) ft less.prems(1) big(2) by simp
          qed
          then show ?thesis using t(4) nz by simp
        qed
        then show ?thesis by (rule join_done_trans [OF t(2)])
      qed
    qed
    then show ?thesis using j rv xy by (simp add: n_def)
  qed
qed

end
