(* ===== verification/MazeMade.thy ===== *)
theory MazeMade
  imports MazeJoin
begin

text \<open>
  What \<open>make_maze\<close> gives: from the array of walls to the worms, from there to the joined parts, and the
  loops after them, which remove the marks and put the fruits and the exit.
\<close>

subsection \<open>Before the worms\<close>

lemma all_walls:
  fixes s :: "'a maze_game_scheme"
  assumes "maze s = replicate MAZE_SIZE MAZE_WALL" "2 \<le> maze_x_dim s" "maze_x_dim s \<le> 50" "2 \<le> maze_y_dim s" "maze_y_dim s \<le> 30"
  shows "digging s" "int (card (walls s)) = maze_x_dim s * maze_y_dim s" "walls s \<noteq> {}"
proof -
  have ok: "maze_arr_ok s" using assms by (simp add: maze_arr_ok_def)
  have c: "cell s a b = MAZE_WALL" if "in_maze s a b" for a b
  proof -
    have "nat (MAZE_INDEX s a b) < MAZE_SIZE" using near_maze_index [OF ok in_maze_near(1) [OF that]] by (simp add: assms(1))
    then show ?thesis by (simp add: cell_def assms(1))
  qed
  have "cell s (fst p) (snd p) = MAZE_WALL" if "p \<in> lattice s" for p using c lattice_in_maze [OF that] by simp
  note l = this
  then show "digging s" using ok assms(2,4) c by (simp add: digging_def frame_walls_def border_walls_def)
  have "walls s = lattice s" using l by (auto simp: walls_def)
  then show n: "int (card (walls s)) = maze_x_dim s * maze_y_dim s" using lattice_size [OF ok] assms by simp
  have "0 < maze_x_dim s * maze_y_dim s" using assms by (intro mult_pos_pos) linarith+
  then show "walls s \<noteq> {}" using n by auto
qed

subsection \<open>From the worms to the joined maze\<close>

lemma first_mark:
  fixes s :: "'a maze_game_scheme"
  assumes "all_open s"
  shows "\<exists>t. mark_maze_area 1 1 s = Some (maze_x_dim s * maze_y_dim s - int (unreached t), t) \<and> joining t \<and> dug s t"
proof -
  have f: "frame_walls s" "2 \<le> maze_x_dim s" "2 \<le> maze_y_dim s" and open0: "\<forall>p \<in> lattice s. cell s (fst p) (snd p) = MAZE_NONE"
    using assms by (simp_all add: all_open_def)
  then have ok: "maze_arr_ok s" "border_walls s" by (simp_all add: frame_walls_def)
  have one: "odd_point s 1 1" "(1, 1) \<in> lattice s" using f by (simp_all add: odd_point_def lattice_def)
  obtain t where t: "mark_maze_area 1 1 s = Some (int (card (area s (1, 1))), t)" "dug s t" "frame_walls t"
    "reached_points t = reached_points s \<union> area s (1, 1)" "passage t = passage s"
    "\<forall>p \<in> lattice t. cell t (fst p) (snd p) = MAZE_NONE \<or> cell t (fst p) (snd p) = MAZE_REACH"
    using mark_area_reached [OF f(1) one(1)] open0 by blast
  note d = dug_fields [OF t(2)]
  have none: "reached_points s = {}" using open0 by (auto simp: reached_points_def)
  then have r: "reached_points t = area s (1, 1)" using t(4) by simp
  have "(1, 1) \<in> area s (1, 1)" by (simp add: area_def)
  moreover have "(passage t)\<^sup>*\<^sup>* (1, 1) p" if "p \<in> reached_points t" for p
    using area_passage [OF ok(2) one(2)] that r t(5) by simp
  moreover have "q \<in> reached_points t" if p: "p \<in> reached_points t" "passage t p q" for p q
  proof -
    have "q \<in> lattice s" using passage_lattice [OF ok(2)] p(2) t(5) by metis
    then have "\<not> has MAZE_REACH s (fst q) (snd q)" using open0 by simp
    then show ?thesis using area_passage_out [of p s "(1, 1)" q] p r t(5) by simp
  qed
  ultimately have j: "joining t" using t(3,6) f(2,3) r by (auto simp: joining_def d)
  have "card (reached_points t) + unreached t = card (lattice t)"
    unfolding unreached_def using card_Diff_subset [of "reached_points t" "lattice t"] card_mono [of "lattice t" "reached_points t"] joiningD(4,5) [OF j]
    by (simp add: finite_subset)
  moreover have "int (card (lattice t)) = maze_x_dim s * maze_y_dim s" using lattice_size [OF ok(1)] f(2,3) by (simp add: d)
  ultimately have "int (card (area s (1, 1))) = maze_x_dim s * maze_y_dim s - int (unreached t)" unfolding r by linarith
  then show ?thesis using t(1,2) j by auto
qed


lemma connected_from:
  assumes "joining s" "unreached s = 0" "p \<in> lattice s"
  shows "(passage s)\<^sup>*\<^sup>* (1, 1) p" "p \<in> reached_points s"
proof -
  have "lattice s - reached_points s = {}" using assms(2) joiningD(4) [OF assms(1)] by (simp add: unreached_def)
  then show "p \<in> reached_points s" using assms(3) by blast
  then show "(passage s)\<^sup>*\<^sup>* (1, 1) p" using assms(1) by (simp add: joining_def)
qed

subsection \<open>Removing the marks\<close>

text \<open>The marks at the points \<open>A\<close> are removed.\<close>

definition unmarked :: "'a maze_game_scheme \<Rightarrow> 'a maze_game_scheme \<Rightarrow> (int \<times> int) set \<Rightarrow> bool" where
  "unmarked s t A \<longleftrightarrow> dug s t \<and> frame_walls t \<and>
     (\<forall>a b. in_maze s a b \<longrightarrow> cell t a b = (if (a, b) \<in> A then cell s a b AND NOT MAZE_REACH else cell s a b))"

lemma unmarked_trans: "unmarked s t A \<Longrightarrow> unmarked t u B \<Longrightarrow> unmarked s u (A \<union> B)"
  unfolding unmarked_def using dug_trans [of s t u] dug_fields(4) [of s t] by (auto simp: and.assoc)

lemma unmark_point:
  assumes "frame_walls s" "odd_point s x y"
  shows "\<exists>t. unmark x y s = Some t \<and> unmarked s t {(x, y)}"
proof -
  note i = set_inner [OF assms(1) odd_point_inner [OF assms(2)]]
  have "maze_get x y s = Some (cell s x y)" by (rule lattice_get [OF _ assms(2)]) (use assms(1) in \<open>simp add: frame_walls_def\<close>)
  then have "unmark x y s = Some (set_space x y (cell s x y AND NOT MAZE_REACH) s)" using i(1) by (simp add: unmark_def)
  moreover have "odd x \<and> odd y" using assms(2) by (simp add: odd_point_def)
  ultimately show ?thesis using i(2-4) by (auto simp: unmarked_def)
qed

lemma unmark_column_points:
  "frame_walls s \<Longrightarrow> \<forall>j<k. odd_point s x (y + 2 * int j) \<Longrightarrow>
    \<exists>t. unmark_column x y k s = Some t \<and> unmarked s t ((\<lambda>j. (x, y + 2 * int j)) ` {..<k})"
proof (induction k arbitrary: y s)
  case 0
  then show ?case by (simp add: unmarked_def)
next
  case (Suc k)
  have "odd_point s x y" using Suc.prems(2) by force
  then obtain t where t: "unmark x y s = Some t" "unmarked s t {(x, y)}" using unmark_point [OF Suc.prems(1)] by blast
  have "\<forall>j<k. odd_point t x (y + 2 + 2 * int j)"
    using Suc.prems(2) t(2) dug_fields(7) [of s t] by (fastforce simp: unmarked_def algebra_simps)
  then obtain u where u: "unmark_column x (y + 2) k t = Some u" "unmarked t u ((\<lambda>j. (x, y + 2 + 2 * int j)) ` {..<k})"
    using Suc.IH [of t "y + 2"] t(2) by (auto simp: unmarked_def)
  have "{(x, y)} \<union> (\<lambda>j. (x, y + 2 + 2 * int j)) ` {..<k} = (\<lambda>j. (x, y + 2 * int j)) ` {..<Suc k}"
    by (simp add: lessThan_Suc_eq_insert_0 image_image algebra_simps)
  then show ?case using t(1) u(1) unmarked_trans [OF t(2) u(2)] by simp
qed

lemma unmark_all_points:
  "frame_walls s \<Longrightarrow> \<forall>i<k. \<forall>j<nat (maze_y_dim s). odd_point s (x + 2 * int i) (1 + 2 * int j) \<Longrightarrow>
    \<exists>t. unmark_all x k s = Some t \<and> unmarked s t ((\<lambda>(i, j). (x + 2 * int i, 1 + 2 * int j)) ` ({..<k} \<times> {..<nat (maze_y_dim s)}))"
proof (induction k arbitrary: x s)
  case 0
  then show ?case by (simp add: unmarked_def)
next
  case (Suc k)
  let ?Y = "nat (maze_y_dim s)"
  have "\<forall>j<?Y. odd_point s x (1 + 2 * int j)" using Suc.prems(2) by force
  then obtain t where t: "unmark_column x 1 ?Y s = Some t" "unmarked s t ((\<lambda>j. (x, 1 + 2 * int j)) ` {..<?Y})"
    using unmark_column_points [OF Suc.prems(1)] by blast
  have d: "maze_y_dim t = maze_y_dim s" "odd_point t = odd_point s" using t(2) dug_fields [of s t] by (simp_all add: unmarked_def)
  have "\<forall>i<k. \<forall>j<?Y. odd_point t (x + 2 + 2 * int i) (1 + 2 * int j)"
    using Suc.prems(2) d(2) by (fastforce simp: algebra_simps)
  then obtain u where u: "unmark_all (x + 2) k t = Some u"
    "unmarked t u ((\<lambda>(i, j). (x + 2 + 2 * int i, 1 + 2 * int j)) ` ({..<k} \<times> {..<?Y}))"
    using Suc.IH [of t "x + 2"] t(2) d(1) by (auto simp: unmarked_def)
  have "(\<lambda>j. (x, 1 + 2 * int j)) ` {..<?Y} \<union> (\<lambda>(i, j). (x + 2 + 2 * int i, 1 + 2 * int j)) ` ({..<k} \<times> {..<?Y}) =
    (\<lambda>(i, j). (x + 2 * int i, 1 + 2 * int j)) ` ({..<Suc k} \<times> {..<?Y})"
    by (auto simp: lessThan_Suc_eq_insert_0 image_iff algebra_simps)
  then show ?case using t(1) u(1) unmarked_trans [OF t(2) u(2)] by simp
qed

text \<open>The maze when the walls are done: the points are open, connected, and carry no mark.\<close>

definition connected :: "'a maze_game_scheme \<Rightarrow> bool" where
  "connected s \<longleftrightarrow> (\<forall>p \<in> lattice s. (passage s)\<^sup>*\<^sup>* (1, 1) p)"

lemma passage_cong:
  fixes s t :: "'a maze_game_scheme"
  assumes "lattice t = lattice s" "\<And>a b. in_maze s a b \<Longrightarrow> has MAZE_WALL t a b = has MAZE_WALL s a b"
  shows "passage t = passage s"
proof -
  have "passage t p q = passage s p q" for p q
    unfolding passage_def assms(1) by (intro conj_cong bex_cong refl) (simp add: assms(2) between_in_maze)
  then show ?thesis by (simp add: fun_eq_iff)
qed

lemma lattice_grid:
  assumes "maze_arr_ok s"
  shows "(\<lambda>(i, j). (1 + 2 * int i, 1 + 2 * int j)) ` ({..<nat (maze_x_dim s)} \<times> {..<nat (maze_y_dim s)}) = lattice s"
    and "\<forall>i<nat (maze_x_dim s). \<forall>j<nat (maze_y_dim s). odd_point s (1 + 2 * int i) (1 + 2 * int j)"
proof -
  show o: "\<forall>i<nat (maze_x_dim s). \<forall>j<nat (maze_y_dim s). odd_point s (1 + 2 * int i) (1 + 2 * int j)"
    by (auto simp: odd_point_def)
  have "p \<in> (\<lambda>(i, j). (1 + 2 * int i, 1 + 2 * int j)) ` ({..<nat (maze_x_dim s)} \<times> {..<nat (maze_y_dim s)})" if "p \<in> lattice s" for p
  proof (rule image_eqI)
    have p: "odd_point s (fst p) (snd p)" using that by (simp add: lattice_point)
    then show "p = (\<lambda>(i, j). (1 + 2 * int i, 1 + 2 * int j)) (nat (fst p div 2), nat (snd p div 2))"
      by (auto simp: prod_eq_iff odd_point_def) presburger+
    show "(nat (fst p div 2), nat (snd p div 2)) \<in> {..<nat (maze_x_dim s)} \<times> {..<nat (maze_y_dim s)}"
      using p by (auto simp: odd_point_def)
  qed
  then show "(\<lambda>(i, j). (1 + 2 * int i, 1 + 2 * int j)) ` ({..<nat (maze_x_dim s)} \<times> {..<nat (maze_y_dim s)}) = lattice s"
    using o by (auto simp: lattice_def)
qed

lemma unmark_maze:
  fixes s :: "'a maze_game_scheme"
  assumes "joining s" "unreached s = 0"
  shows "\<exists>t. unmark_all 1 (nat (maze_x_dim s)) s = Some t \<and> dug s t \<and> all_open t \<and> connected t"
proof -
  note j = joiningD [OF assms(1)]
  obtain t where t: "unmark_all 1 (nat (maze_x_dim s)) s = Some t" "unmarked s t (lattice s)"
    using unmark_all_points [OF j(2) lattice_grid(2) [OF j(1)]] lattice_grid(1) [OF j(1)] by auto
  have dug: "dug s t" and f: "frame_walls t" using t(2) by (simp_all add: unmarked_def)
  note d = dug_fields [OF dug]
  have c: "cell t a b = (if (a, b) \<in> lattice s then cell s a b AND NOT MAZE_REACH else cell s a b)" if "in_maze s a b" for a b
    using t(2) that by (simp add: unmarked_def)
  have "cell t (fst p) (snd p) = MAZE_NONE" if "p \<in> lattice s" for p
    using assms(1) that c [OF lattice_in_maze [OF that]] by (auto simp: joining_def)
  then have o: "all_open t" using f assms(1) by (simp add: all_open_def d joining_def)
  have "passage t = passage s" by (rule passage_cong) (simp_all add: d c and.assoc)
  then have "connected t" using connected_from(1) [OF assms] by (simp add: connected_def d)
  then show ?thesis using t(1) dug o by blast
qed


subsection \<open>Fruits and the exit\<close>

definition laid_out :: "'a maze_game_scheme \<Rightarrow> bool" where
  "laid_out s \<longleftrightarrow> frame_walls s \<and> 2 \<le> maze_x_dim s \<and> 2 \<le> maze_y_dim s \<and> connected s \<and>
     (\<forall>p \<in> lattice s. \<not> has MAZE_WALL s (fst p) (snd p) \<and> \<not> has MAZE_REACH s (fst p) (snd p))"

definition exits :: "'a maze_game_scheme \<Rightarrow> (int \<times> int) set" where
  "exits s = {(a, b). in_maze s a b \<and> has MAZE_EXIT s a b}"

lemma laid_out_fields [simp]:
  fixes s :: "'a maze_game_scheme"
  shows "laid_out (s\<lparr>n_fruits := n\<rparr>) = laid_out s" "laid_out (s\<lparr>random_calls := c\<rparr>) = laid_out s"
    "laid_out (s\<lparr>exit_x := ex, exit_y := ey\<rparr>) = laid_out s" "exits (s\<lparr>n_fruits := n\<rparr>) = exits s"
    "exits (s\<lparr>random_calls := c\<rparr>) = exits s" "exits (s\<lparr>exit_x := ex, exit_y := ey\<rparr>) = exits s"
    "fruit_spaces (s\<lparr>exit_x := ex, exit_y := ey\<rparr>) = fruit_spaces s" "odd_point (s\<lparr>exit_x := ex, exit_y := ey\<rparr>) = odd_point s"
    "odd_point (s\<lparr>n_fruits := n\<rparr>) = odd_point s"
proof -
  have c: "cell (s\<lparr>exit_x := ex, exit_y := ey\<rparr>) = cell s" by (simp add: cell_def MAZE_INDEX_def fun_eq_iff)
  have l: "lattice (s\<lparr>n_fruits := n\<rparr>) = lattice s" "lattice (s\<lparr>exit_x := ex, exit_y := ey\<rparr>) = lattice s"
    by (simp_all add: lattice_def odd_point_def)
  have p: "passage (s\<lparr>n_fruits := n\<rparr>) = passage s" "passage (s\<lparr>random_calls := c\<rparr>) = passage s"
    "passage (s\<lparr>exit_x := ex, exit_y := ey\<rparr>) = passage s" for c
    by (simp_all add: passage_def fun_eq_iff l c)
  have m: "in_maze (s\<lparr>exit_x := ex, exit_y := ey\<rparr>) = in_maze s" by (simp add: in_maze_def fun_eq_iff)
  show "laid_out (s\<lparr>n_fruits := n\<rparr>) = laid_out s" "laid_out (s\<lparr>random_calls := c\<rparr>) = laid_out s"
    "laid_out (s\<lparr>exit_x := ex, exit_y := ey\<rparr>) = laid_out s" "exits (s\<lparr>n_fruits := n\<rparr>) = exits s"
    "exits (s\<lparr>random_calls := c\<rparr>) = exits s" "exits (s\<lparr>exit_x := ex, exit_y := ey\<rparr>) = exits s"
    "fruit_spaces (s\<lparr>exit_x := ex, exit_y := ey\<rparr>) = fruit_spaces s" "odd_point (s\<lparr>exit_x := ex, exit_y := ey\<rparr>) = odd_point s"
    "odd_point (s\<lparr>n_fruits := n\<rparr>) = odd_point s"
    by (simp_all add: laid_out_def frame_walls_def border_walls_def connected_def maze_arr_ok_def exits_def fruit_spaces_def
        odd_point_def fun_eq_iff l p c m)
qed

lemma laid_out_set:
  fixes s :: "'a maze_game_scheme"
  assumes "laid_out s" "odd_point s x y" "v AND MAZE_WALL = 0" "v AND MAZE_REACH = 0"
  shows "maze_put x y v s = Some (set_space x y v s)" "laid_out (set_space x y v s)"
    "exits (set_space x y v s) = (if v AND MAZE_EXIT \<noteq> 0 then insert (x, y) (exits s) else exits s - {(x, y)})"
    "fruit_spaces (set_space x y v s) = (if fruit_number v \<noteq> 0 then insert (x, y) (fruit_spaces s) else fruit_spaces s - {(x, y)})"
proof -
  have f: "frame_walls s" "maze_arr_ok s" using assms(1) by (simp_all add: laid_out_def frame_walls_def)
  note i = set_inner [OF f(1) odd_point_inner [OF assms(2)], where v = v]
  show "maze_put x y v s = Some (set_space x y v s)" by (rule i(1))
  note d = dug_fields [OF i(3)]
  have o: "odd x \<and> odd y" "(x, y) \<in> lattice s" "in_maze s x y" "0 < x" "x < 2 * maze_x_dim s"
    using assms(2) odd_point_in_maze [OF assms(2)] by (simp_all add: odd_point_def lattice_def)
  have w: "\<not> has MAZE_WALL s x y" using assms(1) o(2) by (fastforce simp: laid_out_def)
  have c: "cell (set_space x y v s) (fst p) (snd p) = (if p = (x, y) then v else cell s (fst p) (snd p))" if "p \<in> lattice s" for p
    using i(4) lattice_in_maze [OF that] by (simp add: prod_eq_iff)
  have "passage (set_space x y v s) = passage s"
    by (rule passage_cong) (use d i(4) assms(3) w in auto)
  then show "laid_out (set_space x y v s)"
    using assms i(2) o(1) by (auto simp: laid_out_def connected_def d c)
  show "exits (set_space x y v s) = (if v AND MAZE_EXIT \<noteq> 0 then insert (x, y) (exits s) else exits s - {(x, y)})"
    using i(4) o(3) by (auto simp: exits_def d split: if_splits)
  show "fruit_spaces (set_space x y v s) = (if fruit_number v \<noteq> 0 then insert (x, y) (fruit_spaces s) else fruit_spaces s - {(x, y)})"
    by (rule set_space_fruits [OF f(2) o(3-5)])
qed

lemma fruit_spaces_lattice: "frame_walls s \<Longrightarrow> fruit_spaces s \<subseteq> lattice s"
proof
  fix p assume f: "frame_walls s" and p: "p \<in> fruit_spaces s"
  obtain a b where ab: "p = (a, b)" "in_maze s a b" "fruit_number (cell s a b) \<noteq> 0" using p by (auto simp: fruit_spaces_def)
  have "odd a \<and> odd b"
  proof (rule ccontr)
    assume "\<not> (odd a \<and> odd b)"
    then have "cell s a b = MAZE_WALL \<or> cell s a b = MAZE_NONE" using f ab(2) by (auto simp: frame_walls_def)
    then show False using ab(3) by (auto simp: fruit_number_0)
  qed
  moreover have "a \<noteq> 0 \<and> b \<noteq> 0 \<and> a \<noteq> 2 * maze_x_dim s \<and> b \<noteq> 2 * maze_y_dim s" using calculation by auto
  ultimately show "p \<in> lattice s" using ab(1,2) by (auto simp: lattice_def odd_point_def in_maze_def)
qed


text \<open>What changes from the joined maze on.\<close>

definition furnished :: "'a maze_game_scheme \<Rightarrow> 'a maze_game_scheme \<Rightarrow> bool" where
  "furnished s t \<longleftrightarrow> t = s\<lparr>maze := maze t, n_fruits := n_fruits t, random_calls := random_calls t\<rparr>"

lemma furnishedE:
  assumes "furnished s t" obtains m n c where "t = s\<lparr>maze := m, n_fruits := n, random_calls := c\<rparr>"
  using assms by (simp add: furnished_def)

lemma furnished_trans: "furnished s t \<Longrightarrow> furnished t u \<Longrightarrow> furnished s u"
  by (elim furnishedE) (simp add: furnished_def)

lemma furnished_refl [simp]: "furnished s s"
  by (simp add: furnished_def)

lemma furnished_fields:
  assumes "furnished s t"
  shows "maze_x_dim t = maze_x_dim s" "maze_y_dim t = maze_y_dim s" "random_values t = random_values s"
  using assms by (auto elim!: furnishedE)

lemma unfruited_point:
  fixes s :: "'a maze_game_scheme"
  assumes "laid_out s" "random_fair (random_values s)" "int (card (fruit_spaces s)) < maze_x_dim s * maze_y_dim s"
  shows "\<exists>x y d. pick_unfruited s = Some (x, y, s\<lparr>random_calls := d\<rparr>) \<and> odd_point s x y \<and> cell s x y AND MAZE_FRUIT = 0"
proof -
  have f: "frame_walls s" "maze_arr_ok s" using assms(1) by (simp_all add: laid_out_def frame_walls_def)
  have "card (fruit_spaces s) < card (lattice s)" using assms(3) lattice_size [OF f(2)] by linarith
  then have "fruit_spaces s \<noteq> lattice s" by auto
  then obtain p where p: "p \<in> lattice s" "p \<notin> fruit_spaces s" using fruit_spaces_lattice [OF f(1)] by blast
  have "cell s (fst p) (snd p) AND MAZE_FRUIT = 0"
    using p lattice_in_maze [OF p(1)] by (cases p) (simp add: fruit_spaces_def fruit_number_0)
  then show ?thesis
    using pick_point_fair [OF f(2) assms(2), of "fst p" "snd p" "\<lambda>w. w AND MAZE_FRUIT \<noteq> 0"] p(1)
    by (simp add: pick_unfruited_def lattice_point)
qed

lemma add_fruit_laid:
  fixes s :: "'a maze_game_scheme"
  assumes "laid_out s" "random_fair (random_values s)" "n_fruits s = int (card (fruit_spaces s))"
    and "n_fruits s < maze_x_dim s * maze_y_dim s"
  shows "\<exists>t. add_a_fruit_internal s = Some t \<and> laid_out t \<and> furnished s t \<and> exits t = exits s \<and>
    n_fruits t = n_fruits s + 1 \<and> n_fruits t = int (card (fruit_spaces t))"
proof -
  obtain x y d where p: "pick_unfruited s = Some (x, y, s\<lparr>random_calls := d\<rparr>)" "odd_point s x y" "cell s x y AND MAZE_FRUIT = 0"
    using unfruited_point [OF assms(1,2)] assms(3,4) by auto
  let ?r = "s\<lparr>random_calls := Suc d\<rparr>"
  define v where "v = cell s x y OR word_of_int ((random_values s d smod 7 + 1) * 2)"
  have "0 \<le> random_values s d" using assms(2) by (simp add: random_fair_def)
  note v = new_fruit [OF this p(3), folded v_def]
  have l: "(x, y) \<in> lattice s" "in_maze s x y" using p(2) odd_point_in_maze [OF p(2)] by (simp_all add: lattice_def)
  have c: "\<not> has MAZE_WALL s x y" "\<not> has MAZE_REACH s x y" using assms(1) l(1) by (fastforce simp: laid_out_def)+
  have ok: "maze_arr_ok s" using assms(1) by (simp add: laid_out_def frame_walls_def)
  have r: "laid_out ?r" "odd_point ?r x y" using assms(1) p(2) by simp_all
  note st = laid_out_set [OF r(1,2), where v = v]
  define t where "t = (set_space x y v ?r)\<lparr>n_fruits := n_fruits s + 1\<rparr>"
  have t: "add_a_fruit_internal s = Some t"
    using p(1) st(1) v c lattice_get [of "s\<lparr>random_calls := d\<rparr>" x y] ok p(2)
    by (simp add: add_a_fruit_internal_def add_fruit_def random_def Let_def t_def v_def)
  have new: "(x, y) \<notin> fruit_spaces s" using p(3) by (simp add: fruit_spaces_def fruit_number_0)
  have "exits s - {(x, y)} = exits s" if "v AND MAZE_EXIT = 0" using that v(3) by (auto simp: exits_def)
  moreover have "insert (x, y) (exits s) = exits s" if "v AND MAZE_EXIT \<noteq> 0" using that v(3) l(2) by (auto simp: exits_def)
  ultimately have "laid_out t" "exits t = exits s" "fruit_spaces t = insert (x, y) (fruit_spaces s)" "n_fruits t = n_fruits s + 1"
    using st(2-4) v c by (simp_all add: t_def)
  moreover have "furnished s t" by (simp add: furnished_def t_def set_space_def)
  ultimately show ?thesis using t new assms(3) by simp
qed

lemma add_fruits_laid:
  fixes s :: "'a maze_game_scheme"
  assumes "laid_out s" "random_fair (random_values s)" "n_fruits s = int (card (fruit_spaces s))"
    and "n_fruits s + int k \<le> maze_x_dim s * maze_y_dim s"
  shows "\<exists>t. add_fruits k s = Some t \<and> laid_out t \<and> furnished s t \<and> exits t = exits s \<and>
    n_fruits t = n_fruits s + int k \<and> n_fruits t = int (card (fruit_spaces t))"
  using assms
proof (induction k arbitrary: s)
  case 0
  then show ?case by simp
next
  case (Suc k)
  obtain t where t: "add_a_fruit_internal s = Some t" "laid_out t" "furnished s t" "exits t = exits s" "n_fruits t = n_fruits s + 1"
    "n_fruits t = int (card (fruit_spaces t))" using add_fruit_laid [OF Suc.prems(1-3)] Suc.prems(4) by auto
  obtain u where u: "add_fruits k t = Some u" "laid_out u" "furnished t u" "exits u = exits t" "n_fruits u = n_fruits t + int k"
    "n_fruits u = int (card (fruit_spaces u))"
    using Suc.IH [OF t(2) _ t(6)] Suc.prems(2,4) furnished_fields [OF t(3)] t(5) by auto
  show ?case using t(1,4,5) u furnished_trans [OF t(3) u(3)] by auto
qed

subsection \<open>The whole construction\<close>

lemma all_open_plain:
  assumes "all_open s" "in_maze s a b"
  shows "cell s a b = MAZE_WALL \<or> cell s a b = MAZE_NONE"
proof (cases "odd a \<and> odd b")
  case True
  then have "a \<noteq> 0 \<and> b \<noteq> 0 \<and> a \<noteq> 2 * maze_x_dim s \<and> b \<noteq> 2 * maze_y_dim s" by auto
  then have "(a, b) \<in> lattice s" using True assms(2) by (auto simp: lattice_def odd_point_def in_maze_def)
  then show ?thesis using assms(1) by (fastforce simp: all_open_def)
next
  case False
  then show ?thesis using assms by (auto simp: all_open_def frame_walls_def)
qed

definition built :: "'a maze_game_scheme \<Rightarrow> 'a maze_game_scheme \<Rightarrow> bool" where
  "built s t \<longleftrightarrow> t = s\<lparr>maze := maze t, maze_x_dim := maze_x_dim t, maze_y_dim := maze_y_dim t, n_fruits := n_fruits t,
     exit_x := exit_x t, exit_y := exit_y t, random_calls := random_calls t\<rparr>"

lemma make_maze_made:
  fixes s :: "'a maze_game_scheme"
  assumes "MAZE_MIN_X_DIM \<le> x_dim" "x_dim \<le> MAZE_MAX_X_DIM" "MAZE_MIN_Y_DIM \<le> y_dim" "y_dim \<le> MAZE_MAX_Y_DIM"
    and "random_fair (random_values s)" "0 \<le> fruits" "fruits < x_dim * y_dim"
  shows "\<exists>t. make_maze x_dim y_dim fruits s = Some (0, t) \<and> built s t \<and> maze_x_dim t = x_dim \<and> maze_y_dim t = y_dim \<and>
    laid_out t \<and> n_fruits t = fruits \<and> fruits_ok t \<and> exits t = {(exit_x t, exit_y t)} \<and> odd_point t (exit_x t) (exit_y t) \<and>
    (exit_x t, exit_y t) \<notin> fruit_spaces t"
proof -
  let ?s0 = "s\<lparr>maze_x_dim := x_dim, maze_y_dim := y_dim, maze := replicate MAZE_SIZE MAZE_WALL\<rparr>"
  have dims: "2 \<le> x_dim" "2 \<le> y_dim" "x_dim \<le> 50" "y_dim \<le> 30"
    using assms(1-4) by (simp_all add: MAZE_MIN_X_DIM_def MAZE_MIN_Y_DIM_def)
  then have s0: "digging ?s0" "int (card (walls ?s0)) = x_dim * y_dim" "walls ?s0 \<noteq> {}"
    using all_walls [of ?s0] by simp_all
  obtain x y s1 where s1: "worms (x_dim * y_dim) ?s0 = Some (x, y, s1)" "all_open s1" "dug ?s0 s1" "odd_point s1 x y"
    using worms_end [OF s0(1) _ s0(3)] s0(2) assms(5) by auto
  note d1 = dug_fields [OF s1(3)]
  obtain s2 where s2: "mark_maze_area 1 1 s1 = Some (x_dim * y_dim - int (unreached s2), s2)" "joining s2" "dug s1 s2"
    using first_mark [OF s1(2)] by (auto simp: d1)
  note d2 = dug_fields [OF s2(3)]
  have "join_done s2 (connect_all x y (int (unreached s2)) 0 s2)"
    by (rule connect_all_ends [OF s2(2)]) (use s1(4) assms(5) in \<open>simp_all add: d1 d2\<close>)
  then obtain s3 where s3: "connect_all x y (int (unreached s2)) 0 s2 = Some s3" "joining s3" "unreached s3 = 0" "dug s2 s3"
    by (auto simp: join_done_def)
  note d3 = dug_fields [OF s3(4)]
  obtain s4 where s4: "unmark_all 1 (nat x_dim) s3 = Some s4" "dug s3 s4" "all_open s4" "connected s4"
    using unmark_maze [OF s3(2,3)] by (auto simp: d1 d2 d3)
  note d4 = dug_fields [OF s4(2)]
  let ?s5 = "s4\<lparr>n_fruits := 0\<rparr>"
  have plain: "cell s4 a b = MAZE_WALL \<or> cell s4 a b = MAZE_NONE" if "in_maze s4 a b" for a b
    by (rule all_open_plain [OF s4(3) that])
  have none: "fruit_spaces s4 = {}" "exits s4 = {}"
    using plain by (fastforce simp: fruit_spaces_def exits_def fruit_number_0)+
  have "laid_out s4" using s4(3,4) by (simp add: laid_out_def all_open_def)
  then have l4: "laid_out ?s5" by simp
  obtain s6 where s6: "add_fruits (nat fruits) ?s5 = Some s6" "laid_out s6" "furnished ?s5 s6" "exits s6 = {}" "n_fruits s6 = fruits"
    "n_fruits s6 = int (card (fruit_spaces s6))"
    using add_fruits_laid [OF l4, of "nat fruits"] none assms(5-7) by (auto simp: d1 d2 d3 d4)
  note d6 = furnished_fields [OF s6(3)]
  obtain a b d where p: "pick_unfruited s6 = Some (a, b, s6\<lparr>random_calls := d\<rparr>)" "odd_point s6 a b" "cell s6 a b AND MAZE_FRUIT = 0"
    using unfruited_point [OF s6(2)] s6(5,6) assms(5,7) by (auto simp: d1 d2 d3 d4 d6)
  let ?r = "s6\<lparr>random_calls := d\<rparr>"
  define v where "v = cell s6 a b OR MAZE_EXIT"
  have in6: "(a, b) \<in> lattice s6" "maze_arr_ok s6" using p(2) s6(2) by (simp_all add: lattice_def laid_out_def frame_walls_def)
  have "\<not> has MAZE_WALL s6 a b" "\<not> has MAZE_REACH s6 a b" using s6(2) in6(1) by (fastforce simp: laid_out_def)+
  then have v: "v AND MAZE_WALL = 0" "v AND MAZE_REACH = 0" "v AND MAZE_EXIT \<noteq> 0" "fruit_number v = 0"
    using p(3) by (simp_all add: v_def bit.conj_disj_distrib2 fruit_number_0)
  have r: "laid_out ?r" "odd_point ?r a b" using s6(2) p(2) by simp_all
  note st = laid_out_set [OF r v(1,2)]
  define t where "t = (set_space a b v ?r)\<lparr>exit_x := a, exit_y := b\<rparr>"
  have got: "maze_get a b ?r = Some (cell s6 a b)" using lattice_get [of ?r a b] in6(2) p(2) by simp
  have nf: "(a, b) \<notin> fruit_spaces s6" using p(3) by (simp add: fruit_spaces_def fruit_number_0)
  have run: "make_maze x_dim y_dim fruits s = Some (0, t)"
    unfolding make_maze_def using assms(1-4) s1(1) s2(1) s3(1) s4(1) s6(1) p(1) got st(1)
    by (simp add: Let_def v_def t_def)
  have ft: "fruit_spaces t = fruit_spaces s6" "exits t = {(exit_x t, exit_y t)}" "laid_out t" "odd_point t (exit_x t) (exit_y t)"
    "n_fruits t = fruits" "(exit_x t, exit_y t) \<notin> fruit_spaces t"
    using st(2-4) v(3,4) nf s6(4,5) p(2) by (simp_all add: t_def odd_point_def)
  moreover have "fruits_ok t"
    using s6(5,6) ft(1,3,5) fruit_spaces_lattice [of t] by (auto simp: fruits_ok_def laid_out_def lattice_def odd_point_def)
  moreover have "maze_x_dim t = x_dim" "maze_y_dim t = y_dim"
    by (simp_all add: t_def d1 d2 d3 d4 d6)
  moreover have "built s t"
    using s1(3) s2(3) s3(4) s4(2) s6(3) by (elim dugE furnishedE) (simp add: built_def t_def set_space_def)
  ultimately show ?thesis using run by blast
qed

end
