(* ===== verification/GameLevels.thy ===== *)
theory GameLevels
  imports GameFrame MazeMade
begin

text \<open>
  The start of a level as a whole: \<open>prepare_maze_level\<close> computes the parameters, makes the maze, moves the
  window to its corner and draws it; what it gives is what the level starts from.
\<close>

subsection \<open>The view window\<close>

lemma copies_offset: "(if c then copy_down a b n s else copy_up a b 0 n s) = Some t \<Longrightarrow> img3_off t = img3_off s"
  by (auto dest!: copy_down_frame copy_up_frame split: if_splits)

lemma set_view_window_offset:
  assumes "set_view_window X Y s = Some t"
  shows "img3_off t = img3_off s \<or> img3_off t = BUILD_BASE_INIT - X div 4 - Y * 80"
  using assms unfolding set_view_window_def Let_def split_def
  apply (split if_split_asm)
   apply auto[1]
  apply (split if_split_asm)
   apply auto[1]
  apply (drule copies_offset)
  apply simp
  done

subsection \<open>The maze and the picture\<close>

lemma built_fields:
  fixes s t :: "'a maze_game_scheme"
  assumes "built s t"
  shows "view_ok t = view_ok s" "img3_off t = img3_off s" "maze_game.more t = maze_game.more s" "g_mask t = g_mask s"
    "img3 t = img3 s" "random_values t = random_values s"
proof -
  obtain m X Y n ex ey c where t: "t = s\<lparr>maze := m, maze_x_dim := X, maze_y_dim := Y, n_fruits := n, exit_x := ex, exit_y := ey, random_calls := c\<rparr>"
    using assms unfolding built_def by blast
  show "view_ok t = view_ok s" "img3_off t = img3_off s" "maze_game.more t = maze_game.more s" "g_mask t = g_mask s"
    "img3 t = img3 s" "random_values t = random_values s" by (simp_all add: t view_ok_def)
qed

lemma laid_out_level:
  assumes "laid_out s" "exits s = {(exit_x s, exit_y s)}" "odd_point s (exit_x s) (exit_y s)"
  shows "maze_arr_ok s" "border_walls s" "exit_ok s" "open_space s 1 1"
proof -
  show "maze_arr_ok s" "border_walls s" using assms(1) by (simp_all add: laid_out_def frame_walls_def)
  show "exit_ok s" using assms(2,3) by (auto simp: exit_ok_def exits_def odd_point_def)
  have "(1, 1) \<in> lattice s" using assms(1) by (simp add: lattice_def odd_point_def laid_out_def)
  then show "open_space s 1 1" using assms(1) by (fastforce simp: open_space_def laid_out_def lattice_def odd_point_def)
qed


lemma prepare_level:
  fixes s :: "'a game_scheme"
  assumes "view_ok s" "length (g_mask s) = 144" "blocks_ok blocks" "random_fair (random_values s)" "1 \<le> level"
  shows "\<exists>t. prepare_maze_level blocks level s = Some (0, t) \<and> level_ok blocks t \<and> border_walls t \<and> view_at t \<and>
    show_x t = 6 \<and> show_y t = 6 \<and> open_space t 1 1 \<and> connected t \<and>
    n_fruits t = min (1 + (level - 1) div 2) 6 \<and>
    (img3_off t = img3_off s \<or> img3_off t = 9519)"
proof -
  let ?s = "set_level level s"
  have min_dims: "MAZE_MIN_X_DIM = 14" "MAZE_MIN_Y_DIM = 8" by (simp_all add: MAZE_MIN_X_DIM_def MAZE_MIN_Y_DIM_def)
  define X Y where "X = info_x_dim ?s" and "Y = info_y_dim ?s"
  define fruits where "fruits = initial_fruit_count ?s"
  have dims: "MAZE_MIN_X_DIM \<le> X" "X \<le> 50" "MAZE_MIN_Y_DIM \<le> Y" "Y \<le> 30"
    using assms(5) by (simp_all add: X_def Y_def set_level_def min_dims)
  have fr: "fruits = min (1 + (level - 1) div 2) 6" using assms(5) by (simp add: fruits_def set_level_def sdiv_nonneg)
  then have f: "0 \<le> fruits" "fruits \<le> 6" using assms(5) pos_imp_zdiv_nonneg_iff [of 2 "level - 1"] by (simp_all add: min_def)
  have "14 * 8 \<le> X * Y" using dims by (intro mult_mono) (simp_all add: min_dims)
  then have less: "fruits < X * Y" using f(2) by linarith
  have rf: "random_fair (random_values ?s)" using assms(4) by (simp add: set_level_def)
  obtain u where u: "make_maze X Y fruits ?s = Some (0, u)" "built ?s u" "maze_x_dim u = X" "maze_y_dim u = Y" "laid_out u"
    "n_fruits u = fruits" "fruits_ok u" "exits u = {(exit_x u, exit_y u)}" "odd_point u (exit_x u) (exit_y u)"
    using make_maze_made [OF dims rf f(1) less] by blast
  note b = built_fields [OF u(2)]
  note l = laid_out_level [OF u(5,8,9)]
  have vu: "view_ok u" using assms(1) b(1) by (simp add: set_level_def view_ok_def)
  have m: "map_x u = 6" "map_y u = 6" "info_x_dim u = X" "info_y_dim u = Y"
    using game_more [OF b(3)] by (simp_all add: set_level_def X_def Y_def)
  obtain v where v: "set_view_window 6 6 u = Some v" "view_ok v" "show_x v = 6" "show_y v = 6"
    using set_view_window_pix [OF vu] by blast
  note mv = set_view_window_moved [OF v(1)]
  note vm = view_moved_maze [OF mv]
  have off: "img3_off v = img3_off s \<or> img3_off v = 9519"
    using set_view_window_offset [OF v(1)] b(2) by (simp add: set_level_def modex_sizes)
  have w: "window_ok v" using v(2-4) l(1) u(3,4) dims by (simp add: window_ok_def vm min_dims)
  obtain t where t: "draw_lines blocks 0 182 v = Some t" "drawn v t" "maze_shown blocks t"
    using draw_lines_shows [OF w assms(3), of 0 182] v(4) by (auto simp: in_view_def)
  note dm = drawn_maze [OF t(2)]
  note vt = drawn_fields [OF t(2)]
  have cell: "cell t a b = cell u a b" "in_maze t a b = in_maze u a b" for a b by (simp_all add: dm vm)
  have size: "maze_x_dim t = X" "maze_y_dim t = Y" "n_fruits t = fruits" by (simp_all add: dm vm u(3,4,6))
  have "maze_game.more t = maze_game.more u" using vm(9) maze_keptD(8) [OF maze_kept_drawn [OF t(2)]] by simp
  note g = game_more [OF this]
  have "g_mask t = g_mask s" using vt vm(10) b(4) by (simp add: set_level_def)
  then have va: "view_at t" using assms(2) dims g m v(3,4) vt size by (simp add: view_at_def min_dims)
  have lat: "lattice t = lattice u" by (simp add: lattice_def odd_point_def size u(3,4))
  have "passage t = passage u" by (rule passage_cong [OF lat]) (simp add: cell)
  then have con: "connected t" using u(5) by (simp add: connected_def laid_out_def lat)
  have walls: "border_walls t" "open_space t 1 1" using l(2,4) by (simp_all add: border_walls_def open_space_def cell size u(3,4))
  have "exit_ok t" "fruits_ok t" using l(3) u(7) by (simp_all add: drawn_level [OF t(2)] vm)
  then have lev: "level_ok blocks t" using w t(3) by (simp add: level_ok_def dm)
  have run: "prepare_maze_level blocks level s = Some (0, t)"
    using u(1) v(1) t(1) m by (simp add: prepare_maze_level_def Let_def X_def [symmetric] Y_def [symmetric] fruits_def [symmetric])
  obtain c where "t = v\<lparr>build := c\<rparr>" using t(2) unfolding drawn_def by blast
  then have "img3_off t = img3_off v" "show_x t = 6" "show_y t = 6" using v(3,4) by simp_all
  then show ?thesis using run lev walls va con off size fr by auto
qed

text \<open>From anywhere a level can start: the maze is made and shown, and the first frame is drawn.\<close>

lemma level_begins:
  fixes s :: "'a game_scheme"
  assumes "view_ok s" "length (g_mask s) = 144" "blocks_ok blocks" "random_fair (random_values s)" "1 \<le> level" "img3_off s \<le> 18000"
  shows "\<exists>t u. prepare_maze_level blocks level s = Some (0, t) \<and> connected t \<and> n_fruits t = min (1 + (level - 1) div 2) 6 \<and>
    start_level blocks t = Some u \<and> game_ok blocks u \<and> play_x u = 12 \<and> play_y u = 12"
proof -
  obtain t where t: "prepare_maze_level blocks level s = Some (0, t)" "level_ok blocks t" "border_walls t" "view_at t"
    "show_x t = 6" "show_y t = 6" "open_space t 1 1" "connected t" "n_fruits t = min (1 + (level - 1) div 2) 6"
    "img3_off t = img3_off s \<or> img3_off t = 9519" using prepare_level [OF assms(1-5)] by blast
  have "img3 t = img3_off t + 256" using t(2) by (simp add: level_ok_def window_ok_def view_ok_def)
  then have "img3 t + show_x t div 4 + show_y t * 80 + 3 * SCROLL_SIZE + 16001 \<le> BUILD_BUF_SIZE + 512"
    using t(5,6,10) assms(6) by (auto simp: modex_sizes)
  from start_level_game [OF t(2) assms(3) t(3-7) this] t(1,8,9) show ?thesis by blast
qed

end
