(* ===== verification/GameTheorems.thy ===== *)
theory GameTheorems
  imports GameLevels TuxProps
begin

text \<open>
  The properties of the maze game, with their witnesses on a small level: an empty maze of 14 by 8
  points with a fruit next to the player and the exit in the far corner, under black blocks.
\<close>

subsection \<open>A level\<close>

definition demo_space :: "int \<Rightarrow> u8" where
  "demo_space i = (if i \<le> 56 \<or> 476 \<le> i \<or> i mod 28 = 0 then MAZE_WALL else if i = 59 then MAZE_FRUIT_1 else if i = 475 then MAZE_EXIT else 0)"

definition demo_blocks :: block_images where
  "demo_blocks = (\<lambda>b. replicate 144 0)"

definition demo_game :: game where
  "demo_game = \<lparr>build = (\<lambda>i. 0), img3_off = 10000, img3 = 10256, show_x = 6, show_y = 6, g_mask = replicate 144 0,
     target_img = 0x05A0, vram = (\<lambda>p j. 0), write_mask = 0, crtc = (\<lambda>i. 0),
     port_access = True, mapped = True, seq_index = 0, seq = (\<lambda>i. 0), misc = 0, crtc_index = 0, attr_data_next = False,
     attr_index = 0, attr = (\<lambda>i. 0), gfx_index = 0, gfx = (\<lambda>i. 0), dac_index = 0, dac_next = 0, dac = (\<lambda>i j. 0), printed = [],
     maze = map (\<lambda>i. demo_space (int i)) [0..<MAZE_SIZE], maze_x_dim = 14, maze_y_dim = 8, n_fruits = 1, exit_x = 27, exit_y = 15, global_fnum = 1,
     random_values = int, random_calls = 0,
     info_number = 1, info_x_dim = 14, info_y_dim = 8, initial_fruit_count = 1, time_to_first_fruit = 300, time_between_fruits = 300,
     tick_usec = 20000, map_x = 6, map_y = 6, next_dir = DIR_RIGHT, play_x = 12, play_y = 12, last_dir = DIR_UP, dir = DIR_STOP, move_cnt = 0\<rparr>"

lemma demo_game_fields:
  "build demo_game = (\<lambda>i. 0)" "img3_off demo_game = 10000" "img3 demo_game = 10256" "show_x demo_game = 6" "show_y demo_game = 6"
  "length (g_mask demo_game) = 144" "maze demo_game = map (\<lambda>i. demo_space (int i)) [0..<MAZE_SIZE]" "maze_x_dim demo_game = 14" "maze_y_dim demo_game = 8"
  "n_fruits demo_game = 1" "exit_x demo_game = 27" "exit_y demo_game = 15" "random_values demo_game = int" "random_calls demo_game = 0"
  "info_x_dim demo_game = 14" "info_y_dim demo_game = 8" "map_x demo_game = 6" "map_y demo_game = 6" "next_dir demo_game = DIR_RIGHT"
  "play_x demo_game = 12" "play_y demo_game = 12" "last_dir demo_game = DIR_UP" "dir demo_game = DIR_STOP" "move_cnt demo_game = 0"
  by (simp_all add: demo_game_def)

lemma demo_in_maze: "in_maze demo_game a b \<longleftrightarrow> 0 \<le> a \<and> a \<le> 28 \<and> 0 \<le> b \<and> b \<le> 16"
  by (simp add: in_maze_def demo_game_fields)

lemma demo_cell:
  assumes "in_maze demo_game a b" shows "cell demo_game a b = demo_space (a + (b + 1) * 28)"
proof -
  have i: "MAZE_INDEX demo_game a b = a + (b + 1) * 28" by (simp add: MAZE_INDEX_def demo_game_fields)
  have "0 \<le> a + (b + 1) * 28" using assms unfolding demo_in_maze by simp
  moreover have "a + (b + 1) * 28 < 6301" using assms unfolding demo_in_maze by presburger
  ultimately show ?thesis by (simp add: cell_def demo_game_fields i MAZE_SIZE_eq nat_less_iff)
qed

lemma demo_bits: "demo_space i AND MAZE_WALL = 0 \<longleftrightarrow> \<not> (i \<le> 56 \<or> 476 \<le> i \<or> i mod 28 = 0)"
  "demo_space i AND MAZE_FRUIT = 0 \<longleftrightarrow> i \<noteq> 59" "demo_space i AND MAZE_EXIT = 0 \<longleftrightarrow> i \<noteq> 475" "demo_space i AND MAZE_REACH = 0"
  by (auto simp: demo_space_def)

lemma demo_border: "border_walls demo_game"
proof -
  have "has MAZE_WALL demo_game a b" if m: "in_maze demo_game a b" and e: "a = 0 \<or> a = 28 \<or> b = 0 \<or> b = 16" for a b
  proof -
    have "a + (b + 1) * 28 \<le> 56 \<or> 476 \<le> a + (b + 1) * 28 \<or> (a + (b + 1) * 28) mod 28 = 0"
      using e m unfolding demo_in_maze by auto
    then show ?thesis using demo_cell [OF m] demo_bits(1) by simp
  qed
  then show ?thesis by (simp add: border_walls_def demo_game_fields)
qed

lemma demo_fruits: "fruit_spaces demo_game = {(3, 1)}"
proof -
  have "fruit_number (cell demo_game a b) \<noteq> 0 \<longleftrightarrow> a = 3 \<and> b = 1" if m: "in_maze demo_game a b" for a b
  proof -
    have "a + (b + 1) * 28 = 59 \<longleftrightarrow> a = 3 \<and> b = 1" using m unfolding demo_in_maze by presburger
    then show ?thesis using demo_cell [OF m] demo_bits(2) by (simp add: fruit_number_0)
  qed
  then show ?thesis by (auto simp: fruit_spaces_def demo_in_maze)
qed

lemma demo_exit: "exit_ok demo_game"
proof -
  have "a = 27 \<and> b = 15" if m: "in_maze demo_game a b" "has MAZE_EXIT demo_game a b" for a b
  proof -
    have "a + (b + 1) * 28 = 475" using m demo_cell [OF m(1)] demo_bits(3) by simp
    then show ?thesis using m(1) unfolding demo_in_maze by presburger
  qed
  then show ?thesis unfolding exit_ok_def by (auto simp: demo_game_fields)
qed

lemma demo_way:
  assumes "0 < a" "a < 28" "0 < b" "b < 16" shows "open_space demo_game a b"
proof -
  have m: "in_maze demo_game a b" using assms by (simp add: demo_in_maze)
  have "(a + (b + 1) * 28) mod 28 = a" using assms by (simp only: mod_mult_self1) simp
  then have "\<not> (a + (b + 1) * 28 \<le> 56 \<or> 476 \<le> a + (b + 1) * 28 \<or> (a + (b + 1) * 28) mod 28 = 0)" using assms by simp
  then have "\<not> has MAZE_WALL demo_game a b" using demo_cell [OF m] demo_bits(1) by simp
  then show ?thesis using assms by (simp add: open_space_def demo_game_fields)
qed

lemma demo_blocks_ok: "blocks_ok demo_blocks"
  by (simp add: blocks_ok_def demo_blocks_def)

lemma demo_arr_ok: "maze_arr_ok demo_game"
  by (simp add: maze_arr_ok_def demo_game_fields MAZE_SIZE_def)

lemma demo_level: "level_ok demo_blocks demo_game"
proof -
  have "window_ok demo_game" using demo_arr_ok by (simp add: window_ok_def demo_game_fields view_ok_def modex_sizes)
  moreover have "shows_but {} demo_blocks demo_game"
  proof -
    have "nat (12 * (y mod 12) + x mod 12) < 144" for x y :: int
      using pos_mod_bound [of 12 x] pos_mod_bound [of 12 y] pos_mod_sign [of 12 x] pos_mod_sign [of 12 y] by linarith
    then show ?thesis by (simp add: shows_but_def pix_def maze_pic_def demo_blocks_def demo_game_fields)
  qed
  moreover have "fruits_ok demo_game" by (simp add: fruits_ok_def demo_fruits demo_game_fields)
  ultimately show ?thesis using demo_exit by (simp add: level_ok_def)
qed

lemma demo_view: "view_at demo_game" "pan_ok demo_game"
  by (simp_all add: view_at_def pan_ok_def demo_game_fields)

lemma demo_player: "player_at 1 1 demo_game"
  using demo_way [of 1 1] by (simp add: player_at_def demo_game_fields)

lemma demo_game_ok: "game_ok demo_blocks demo_game"
  using demo_level demo_border demo_view demo_player by (auto simp: game_ok_def walk_ok_def demo_game_fields)

subsection \<open>Random numbers\<close>

text \<open>A stream of numbers that is fair: with period 6202 it has 200 zeros, then every pair from an even
  position on, then every pair from an odd position on.\<close>

definition pair_number :: "nat \<Rightarrow> int" where
  "pair_number j = int (if even j then j div 60 else j div 2 mod 30)"

definition fair_numbers :: "nat \<Rightarrow> int" where
  "fair_numbers n = (let i = n mod 6202
     in if i < 200 then 0 else if i < 3200 then pair_number (i - 200) else if 3201 \<le> i \<and> i < 6201 then pair_number (i - 3201) else 0)"

lemma pair_numbers:
  assumes "a < 50" "b < 30"
  shows "60 * a + 2 * b < 2999" "pair_number (60 * a + 2 * b) = int a" "pair_number (Suc (60 * a + 2 * b)) = int b"
proof -
  show "60 * a + 2 * b < 2999" using assms by linarith
  have "(60 * a + 2 * b) div 60 = a" "Suc (60 * a + 2 * b) div 2 = b + 30 * a" using assms by linarith+
  then show "pair_number (60 * a + 2 * b) = int a" "pair_number (Suc (60 * a + 2 * b)) = int b"
    using assms by (simp_all add: pair_number_def)
qed

lemma fair_numbers_at:
  "i < 6202 \<Longrightarrow> fair_numbers (6202 * c + i) = fair_numbers i" "i < 200 \<Longrightarrow> fair_numbers i = 0"
  "j < 3000 \<Longrightarrow> fair_numbers (200 + j) = pair_number j" "j < 3000 \<Longrightarrow> fair_numbers (3201 + j) = pair_number j"
  by (simp_all add: fair_numbers_def)

lemma fair_numbers_pair:
  assumes "a < 50" "b < 30"
  shows "\<exists>k. fair_numbers (c + 2 * k) = int a \<and> fair_numbers (c + 2 * k + 1) = int b"
proof -
  define j where "j = 60 * a + 2 * b"
  define q where "q = (if even c then 200 else 3201) + j"
  note p = pair_numbers [OF assms, folded j_def]
  have q: "fair_numbers q = int a" "fair_numbers (Suc q) = int b" "Suc q < 6202"
    using p fair_numbers_at(3,4) [of j] fair_numbers_at(3,4) [of "Suc j"] by (auto simp: q_def)
  have "even (6202 * c + q - c)" "c \<le> 6202 * c + q" by (auto simp: q_def j_def)
  then have "c + 2 * ((6202 * c + q - c) div 2) = 6202 * c + q" by simp
  then have "fair_numbers (c + 2 * ((6202 * c + q - c) div 2)) = int a"
    "fair_numbers (c + 2 * ((6202 * c + q - c) div 2) + 1) = int b"
    using fair_numbers_at(1) [of q c] fair_numbers_at(1) [of "Suc q" c] q by simp_all
  then show ?thesis by blast
qed

lemma fair_numbers_fair: "random_fair fair_numbers"
proof -
  have "0 \<le> fair_numbers n" for n by (simp add: fair_numbers_def pair_number_def Let_def)
  moreover have "\<exists>k. fair_numbers (c + 2 * k) = a \<and> fair_numbers (c + 2 * k + 1) = b"
    if "0 \<le> a" "a < 50" "0 \<le> b" "b < 30" for c a b
    using fair_numbers_pair [of "nat a" "nat b" c] that by simp
  moreover have "\<exists>d\<ge>c. \<forall>i<200. fair_numbers (d + i) = 0" for c
    by (rule exI [of _ "6202 * c"]) (simp add: fair_numbers_at(1,2))
  ultimately show ?thesis by (simp add: random_fair_def)
qed

definition fair_game :: game where
  "fair_game = demo_game\<lparr>random_values := fair_numbers\<rparr>"

lemma fair_game_ok: "view_ok fair_game" "length (g_mask fair_game) = 144" "img3_off fair_game \<le> 18000" "random_fair (random_values fair_game)"
  using fair_numbers_fair by (simp_all add: fair_game_def view_ok_def demo_game_fields modex_sizes)

subsection \<open>Making a maze\<close>



subsection \<open>The game\<close>

text \<open>Level invariant. From the start of a level on, whatever the three threads do in whatever order
  - ticks, frames, keys, buttons -, the window shows the maze as it is, lies where \<open>game_info\<close> says and
  inside of the picture, the fruits are counted, the exit is at its place, and the player is on an open
  space or between two.\<close>

theorem game_invariant:
  fixes s :: "'a game_scheme"
  assumes "level_ok blocks s" "blocks_ok blocks" "border_walls s" "view_at s" "show_x s = 6" "show_y s = 6" "open_space s 1 1"
    and "img3 s + show_x s div 4 + show_y s * 80 + 3 * SCROLL_SIZE + 16001 \<le> BUILD_BUF_SIZE + 512"
  shows "\<exists>t. start_level blocks s = Some t \<and> (\<forall>u. (game_step blocks)\<^sup>*\<^sup>* t u \<longrightarrow> game_ok blocks u)"
proof -
  obtain t where t: "start_level blocks s = Some t" "game_ok blocks t" using start_level_game [OF assms] by blast
  then show ?thesis using assms(2) level.reachable by blast
qed

lemma game_invariant_witness:
  "\<exists>t. start_level demo_blocks demo_game = Some t \<and> game_ok demo_blocks (tux_command 0x80 t)"
proof -
  obtain t where "start_level demo_blocks demo_game = Some t" "\<And>u. (game_step demo_blocks)\<^sup>*\<^sup>* t u \<Longrightarrow> game_ok demo_blocks u"
    using game_invariant [OF demo_level demo_blocks_ok demo_border demo_view(1) _ _ demo_way [of 1 1]]
    by (auto simp: demo_game_fields modex_sizes)
  moreover have "(game_step demo_blocks)\<^sup>*\<^sup>* t (tux_command 0x80 t)" using game_step.button [OF refl] by blast
  ultimately show ?thesis by blast
qed

text \<open>C36. A level from its start. Every level number gives a level: the maze is made, joined, and shown, with
  the fruits that its number asks for; the player starts on the first point; and from then on, whatever the
  three threads do in whatever order - ticks, frames, keys, buttons -, the window shows the maze as it is, lies
  where \<open>game_info\<close> says and inside of the picture, the fruits are counted, the exit is at its place, and the
  player is on an open space or between two.\<close>

theorem level_from_its_start:
  fixes s :: "'a game_scheme"
  assumes "view_ok s" "length (g_mask s) = 144" "img3_off s \<le> 18000" "blocks_ok blocks" "random_fair (random_values s)" "1 \<le> level"
  shows "\<exists>t u. prepare_maze_level blocks level s = Some (0, t) \<and> connected t \<and> n_fruits t = min (1 + (level - 1) div 2) 6 \<and>
    start_level blocks t = Some u \<and> play_x u = 12 \<and> play_y u = 12 \<and> (\<forall>v. (game_step blocks)\<^sup>*\<^sup>* u v \<longrightarrow> game_ok blocks v)"
proof -
  obtain t u where t: "prepare_maze_level blocks level s = Some (0, t)" "connected t" "n_fruits t = min (1 + (level - 1) div 2) 6"
    "start_level blocks t = Some u" "game_ok blocks u" "play_x u = 12" "play_y u = 12"
    using level_begins [OF assms(1,2,4,5,6,3)] by blast
  then show ?thesis using assms(4) level.reachable by blast
qed

lemma level_from_its_start_witness:
  "\<exists>t u. prepare_maze_level demo_blocks 10 fair_game = Some (0, t) \<and> n_fruits t = 5 \<and> start_level demo_blocks t = Some u \<and>
    game_ok demo_blocks (tux_command 0x80 u)"
proof -
  obtain t u where t: "prepare_maze_level demo_blocks 10 fair_game = Some (0, t)" "n_fruits t = min (1 + (10 - 1) div 2) 6"
    "start_level demo_blocks t = Some u" "\<And>v. (game_step demo_blocks)\<^sup>*\<^sup>* u v \<Longrightarrow> game_ok demo_blocks v"
    using level_from_its_start [OF fair_game_ok(1-3) demo_blocks_ok fair_game_ok(4), of 10] by auto
  have "(game_step demo_blocks)\<^sup>*\<^sup>* u (tux_command 0x80 u)" using game_step.button [OF refl] by blast
  then show ?thesis using t by fastforce
qed

text \<open>C37. Progress and preservation for a tick. In a well-formed state every tick has a result, whatever
  lies behind the array of open directions that the code reads past its end, the state after it is
  well-formed, and the player has moved by at most one pixel.\<close>

theorem tick_well_formed:
  assumes "game_ok blocks s" "blocks_ok blocks"
  shows "\<exists>won t. (\<forall>beyond. tick blocks beyond s = Some (won, t)) \<and> game_ok blocks t \<and>
    \<bar>play_x t - play_x s\<bar> + \<bar>play_y t - play_y s\<bar> \<le> 1"
  by (rule tick_game [OF assms])

lemma tick_well_formed_witness: "\<exists>t. tick demo_blocks True demo_game = Some t \<and> game_ok demo_blocks (snd t)"
  using tick_well_formed [OF demo_game_ok demo_blocks_ok] by fastforce

text \<open>C38. Reaching a space. On a space \<open>(a, b)\<close> the fruit there is eaten, the thirteen spaces around it
  are unveiled, and the level is won exactly on the exit with no fruit left. If it is not, the player
  stops, or sets out for an open neighbour with twelve pixels to go.\<close>

theorem space_reached:
  fixes s :: "'a game_scheme"
  assumes "game_ok blocks s" "blocks_ok blocks" "move_cnt s = 0" "play_x s = 12 * a" "play_y s = 12 * b"
  shows "\<exists>t. new_square blocks beyond s = Some (n_fruits t = 0 \<and> has MAZE_EXIT s a b, t) \<and>
    n_fruits t = n_fruits s - of_bool (fruit_number (cell s a b) \<noteq> 0) \<and>
    (\<forall>(x, y) \<in> set (around a b). in_maze s x y \<longrightarrow> has MAZE_REACH t x y) \<and>
    ((n_fruits t = 0 \<and> has MAZE_EXIT s a b) \<or> (dir t = DIR_STOP \<and> move_cnt t = 0) \<or>
     (move_cnt t = 12 \<and> open_space t (a + fst (step_dir (dir t))) (b + snd (step_dir (dir t)))))"
proof -
  obtain a' b' where "player_at a' b' s" using assms(1) by (auto simp: game_ok_def walk_ok_def)
  then have p: "player_at a b s" using assms(3-5) by (simp add: player_at_def)
  obtain t where t: "\<And>beyond. new_square blocks beyond s = Some (exit_reached t a b, t)" "has MAZE_EXIT t a b = has MAZE_EXIT s a b"
    "n_fruits t = n_fruits s - of_bool (fruit_number (cell s a b) \<noteq> 0)"
    "\<forall>x y. (x, y) \<in> set (around a b) \<and> in_maze s x y \<longrightarrow> has MAZE_REACH t x y"
    "if exit_reached t a b \<or> dir t = DIR_STOP then move_cnt t = 0 \<and> open_space t a b
     else player_at (a + fst (step_dir (dir t))) (b + snd (step_dir (dir t))) t \<and> move_cnt t = 12"
    using new_square_game [OF assms(1-3) p] by blast
  then show ?thesis by (intro exI [of _ t]) (auto simp: exit_reached_def player_at_def split: if_splits)
qed

lemma space_reached_witness:
  "\<exists>t. new_square demo_blocks False demo_game = Some (False, t) \<and> n_fruits t = 1 \<and> has MAZE_REACH t 3 1"
proof -
  have m: "in_maze demo_game 1 1" "in_maze demo_game 3 1" by (simp_all add: demo_in_maze)
  have c: "fruit_number (cell demo_game 1 1) = 0" "\<not> has MAZE_EXIT demo_game 1 1"
    using demo_cell [OF m(1)] demo_bits by (simp_all add: fruit_number_0)
  have p: "play_x demo_game = 12 * 1" "play_y demo_game = 12 * 1" by (simp_all add: demo_game_fields)
  obtain t where t: "new_square demo_blocks False demo_game = Some (n_fruits t = 0 \<and> has MAZE_EXIT demo_game 1 1, t)"
    "n_fruits t = n_fruits demo_game - of_bool (fruit_number (cell demo_game 1 1) \<noteq> 0)"
    "\<forall>(x, y) \<in> set (around 1 1). in_maze demo_game x y \<longrightarrow> has MAZE_REACH t x y"
    using space_reached [OF demo_game_ok demo_blocks_ok demo_game_fields(24) p] by blast
  have "(3, 1) \<in> set (around 1 1)" by (simp add: around_def)
  then have "has MAZE_REACH t 3 1" using t(3) m(2) by fastforce
  then show ?thesis using t(1,2) c by (intro exI [of _ t]) (simp add: demo_game_fields(10))
qed

text \<open>A frame. \<open>draw_frame\<close> brings to the screen the picture of the maze with the player on it - the
  opaque pixels of the picture for the last direction at the player's place -, and leaves a
  well-formed state, without the player in the build buffer.\<close>

theorem frame_shows_player:
  fixes s :: "'a game_scheme"
  assumes "game_ok blocks s" "blocks_ok blocks"
    and "img3 s + show_x s div 4 + show_y s * 80 + 3 * SCROLL_SIZE + 16001 \<le> BUILD_BUF_SIZE + 512"
  shows "\<exists>v. draw_frame blocks s = Some v \<and> game_ok blocks v \<and> target_img v = target_img s XOR 0x4000 \<and>
    (\<forall>c<320. \<forall>r<182. vram v (c mod 4) (unat (target_img v) + r * 80 + c div 4) = player_pic blocks s (show_x s + int c) (show_y s + int r))"
  by (rule draw_frame_shows [OF assms])

lemma frame_shows_player_witness: "\<exists>v. draw_frame demo_blocks demo_game = Some v \<and> game_ok demo_blocks v"
  using frame_shows_player [OF demo_game_ok demo_blocks_ok] by (auto simp: demo_game_fields modex_sizes)

subsection \<open>The maze\<close>

text \<open>The line buffers. The loops over blocks and parts of blocks give the pixels of the picture of
  the maze: block by block, the one that \<open>find_block\<close> names for the space.\<close>

theorem fill_buffers_read_picture:
  fixes s :: "'a maze_game_scheme"
  assumes "maze_arr_ok s" "\<And>b. length (blocks b) = 144" "pixel_in_maze s x y" "pixel_in_maze s (x + 319) y" "pixel_in_maze s x (y + 181)"
  shows "fill_horiz_buffer blocks s x y = Some (map (\<lambda>i. maze_pic blocks s (x + int i) y) [0..<320]) \<and>
    fill_vert_buffer blocks s x y = Some (map (\<lambda>i. maze_pic blocks s x (y + int i)) [0..<182])"
  using fill_horiz_buffer_pixels [OF assms(1-4)] fill_vert_buffer_pixels [OF assms(1-3,5)] by (simp add: horiz_pixels_def vert_pixels_def)

lemma fill_buffers_read_picture_witness:
  "fill_horiz_buffer (\<lambda>b. replicate 144 (word_of_nat b)) demo_game 6 6 =
     Some (map (\<lambda>i. maze_pic (\<lambda>b. replicate 144 (word_of_nat b)) demo_game (6 + int i) 6) [0..<320])"
  using fill_buffers_read_picture [OF demo_arr_ok, of "\<lambda>b. replicate 144 (word_of_nat b)" 6 6] by (simp add: pixel_in_maze_def demo_game_fields)

text \<open>Eating a fruit. \<open>check_for_fruit\<close> returns the number of the fruit at the space, takes it away
  and counts one less, and the window goes on showing the maze - with the exit, when it was the last one.\<close>

theorem fruit_is_eaten:
  fixes s :: "'a maze_game_scheme" and x y :: int
  assumes "level_ok blocks s" "blocks_ok blocks" "(x, y) \<in> fruit_spaces s"
  shows "\<exists>t. check_for_fruit blocks x y s = Some (fruit_number (cell s x y), t) \<and> level_ok blocks t \<and> n_fruits t = n_fruits s - 1 \<and>
    fruit_spaces t = fruit_spaces s - {(x, y)}"
proof -
  have "0 < x" "x < 2 * maze_x_dim s" "0 < y" "y < 2 * maze_y_dim s" "fruit_number (cell s x y) \<noteq> 0"
    using assms(1,3) by (auto simp: level_ok_def fruits_ok_def fruit_spaces_def)
  then show ?thesis using check_for_fruit_level [OF assms(1,2), of x y] by auto
qed

lemma fruit_is_eaten_witness:
  "\<exists>t. check_for_fruit demo_blocks 3 1 demo_game = Some (1, t) \<and> level_ok demo_blocks t \<and> n_fruits t = 0 \<and> fruit_spaces t = {}"
proof -
  have "in_maze demo_game 3 1" by (simp add: demo_in_maze)
  then have "fruit_number (cell demo_game 3 1) = 1" by (simp add: demo_cell demo_space_def fruit_number_def)
  then show ?thesis using fruit_is_eaten [OF demo_level demo_blocks_ok, of 3 1] by (auto simp: demo_fruits demo_game_fields)
qed

text \<open>Adding a fruit ends: as soon as two of the random numbers to come name a point without a fruit,
  \<open>add_a_fruit\<close> returns; it has put one fruit on a point that had none, and the window shows it.\<close>

theorem add_a_fruit_ends:
  fixes s :: "'a maze_game_scheme"
  assumes "level_ok blocks s" "blocks_ok blocks" "\<forall>n. 0 \<le> random_values s n"
    and "cell s (drawn_x s (random_calls s + 2 * k)) (drawn_y s (random_calls s + 2 * k + 1)) AND MAZE_FRUIT = 0"
  shows "\<exists>x y t. add_a_fruit blocks s = Some (n_fruits s + 1, t) \<and> level_ok blocks t \<and> n_fruits t = n_fruits s + 1 \<and>
    odd_point s x y \<and> (x, y) \<notin> fruit_spaces s \<and> fruit_spaces t = insert (x, y) (fruit_spaces s)"
  using add_fruit_level [OF assms] by blast

lemma add_a_fruit_ends_witness: "\<exists>t. add_a_fruit demo_blocks demo_game = Some (2, t) \<and> level_ok demo_blocks t"
proof -
  have d: "drawn_x demo_game 0 = 1" "drawn_y demo_game 1 = 3" by (simp_all add: drawn_x_def drawn_y_def demo_game_fields)
  have "in_maze demo_game 1 3" by (simp add: demo_in_maze)
  then have c: "cell demo_game 1 3 AND MAZE_FRUIT = 0" using demo_bits(2) by (simp add: demo_cell)
  show ?thesis
    using add_a_fruit_ends [OF demo_level demo_blocks_ok, of 0] d c by (auto simp: demo_game_fields)
qed

text \<open>C40. The search of \<open>mark_maze_area\<close> ends, its queue of 1500 pointers never overflows, and it is the
  reachability of the reference definition: exactly the points that can be reached from \<open>(x, y)\<close> by steps
  through open spaces onto points not marked before are marked, no other byte is changed, and the
  result is their number.\<close>

theorem mark_maze_area_is_reachability:
  fixes s :: "'a maze_game_scheme"
  assumes "maze_arr_ok s" "border_walls s" "odd_point s x y"
  shows "\<exists>t. mark_maze_area x y s = Some (int (card (area s (x, y))), t) \<and> t = s\<lparr>maze := maze t\<rparr> \<and>
    (\<forall>a b. in_maze s a b \<longrightarrow> cell t a b = (if (a, b) \<in> area s (x, y) then cell s a b OR MAZE_REACH else cell s a b))"
  using mark_area [OF assms] by blast

lemma mark_maze_area_is_reachability_witness: "\<exists>n t. mark_maze_area 1 1 demo_game = Some (n, t) \<and> has MAZE_REACH t 3 1"
proof -
  have o: "odd_point demo_game 1 1" by (simp add: odd_point_def demo_game_fields)
  have m: "in_maze demo_game 2 1" "in_maze demo_game 3 1" by (simp_all add: demo_in_maze)
  have "\<not> has MAZE_WALL demo_game 2 1" "\<not> has MAZE_REACH demo_game 3 1"
    using demo_cell [OF m(1)] demo_cell [OF m(2)] demo_bits by simp_all
  then have "opens demo_game (1, 1) (1, 0)" by (simp add: opens_def)
  then have "spreads demo_game (1, 1) (3, 1)" unfolding spreads_def by (intro bexI [of _ "(1, 0)"]) (simp_all add: behind_def four_dirs_def)
  then have "(3, 1) \<in> area demo_game (1, 1)" by (simp add: area_def)
  then show ?thesis
    using mark_maze_area_is_reachability [OF demo_arr_ok demo_border o] m(2) by (auto simp: bit.conj_disj_distrib2)
qed

subsection \<open>The clock\<close>

definition leds_word :: "u32 \<Rightarrow> u32 \<Rightarrow> u32 \<Rightarrow> u32 \<Rightarrow> u32 \<Rightarrow> u32" where
  "leds_word a b c d h = (push_bit 24 4 OR push_bit 16 h) OR (((a OR push_bit 4 b) OR push_bit 8 c) OR push_bit 12 d)"

lemma leds_word_bits:
  assumes "\<And>n. bit a n \<Longrightarrow> n < 4" "\<And>n. bit b n \<Longrightarrow> n < 4" "\<And>n. bit c n \<Longrightarrow> n < 4" "\<And>n. bit d n \<Longrightarrow> n < 4" "\<And>n. bit h n \<Longrightarrow> n < 4"
  shows "drop_bit (0 * 4) (leds_word a b c d h) AND 0xF = a" "drop_bit (1 * 4) (leds_word a b c d h) AND 0xF = b"
    "drop_bit (2 * 4) (leds_word a b c d h) AND 0xF = c" "drop_bit (3 * 4) (leds_word a b c d h) AND 0xF = d"
    "i < 4 \<Longrightarrow> bit (leds_word a b c d h) (16 + i) = bit h i" "i < 4 \<Longrightarrow> bit (leds_word a b c d h) (24 + i) = (i = 2)"
proof -
  have f: "(0xF :: u32) = mask 4" by (simp add: mask_eq_exp_minus_1)
  have "(push_bit 24 4 :: u32) = push_bit 26 1" by simp
  then have four: "bit (push_bit 24 4 :: u32) n = (n = 26)" for n by (simp only: bit_push_bit_iff bit_1_iff) auto
  have w: "bit (leds_word a b c d h) n \<longleftrightarrow> n < 32 \<and> ((n = 26) \<or> (16 \<le> n \<and> bit h (n - 16)) \<or> bit a n \<or> (4 \<le> n \<and> bit b (n - 4)) \<or>
      (8 \<le> n \<and> bit c (n - 8)) \<or> (12 \<le> n \<and> bit d (n - 12)))" for n
    unfolding leds_word_def bit_or_iff four unfolding bit_push_bit_iff by (auto dest: bit_imp_le_length)
  show "drop_bit (0 * 4) (leds_word a b c d h) AND 0xF = a" "drop_bit (1 * 4) (leds_word a b c d h) AND 0xF = b"
    "drop_bit (2 * 4) (leds_word a b c d h) AND 0xF = c" "drop_bit (3 * 4) (leds_word a b c d h) AND 0xF = d"
    unfolding f by (rule bit_word_eqI, auto simp: bit_and_iff bit_mask_iff bit_drop_bit_eq w dest: assms)+
  show "i < 4 \<Longrightarrow> bit (leds_word a b c d h) (16 + i) = bit h i" "i < 4 \<Longrightarrow> bit (leds_word a b c d h) (24 + i) = (i = 2)"
    by (auto simp: w dest: assms)
qed

lemma digit_word:
  assumes "0 \<le> k" "k < 16"
  shows "bit (word_of_int k :: u32) n \<Longrightarrow> n < 4" "unat (word_of_int k :: u32) = nat k"
proof -
  have "(word_of_int k :: u32) = word_of_int (take_bit 4 k)" using assms by (simp add: take_bit_int_eq_self)
  then show "bit (word_of_int k :: u32) n \<Longrightarrow> n < 4" by (auto simp: bit_word_of_int_iff bit_take_bit_iff)
  show "unat (word_of_int k :: u32) = nat k" using assms by (simp add: unat_eq_nat_uint uint_word_of_int)
qed

text \<open>The time on the LEDs. For a time below 100 minutes the word that the game hands to
  \<open>TUX_SET_LED\<close> makes the driver light the seconds on the two LEDs on the right and the minutes, with
  the decimal point, on the next, and the tens of minutes only when there are any.\<close>

theorem time_on_leds:
  assumes "0 \<le> t" "t < 6000"
  shows "\<exists>m bs. led_packet (convertTime t) = 0xC6 # m # bs \<and> decode_leds m 0 4 bs =
    [Some (nat (t mod 60 mod 10), False), Some (nat (t mod 60 div 10), False), Some (nat (t div 60 mod 10), True),
     if t < 600 then None else Some (nat (t div 600), False)]"
proof -
  define a b c d where "a = t mod 60 mod 10" and "b = t mod 60 div 10" and "c = t div 60 mod 10" and "d = t div 60 div 10"
  have s: "t sdiv 60 = t div 60" "t smod 60 = t mod 60" "(t mod 60) smod 10 = a" "(t mod 60) sdiv 10 = b" "(t div 60) smod 10 = c" "(t div 60) sdiv 10 = d"
    using assms by (simp_all add: sdiv_nonneg smod_nonneg a_def b_def c_def d_def)
  have r: "0 \<le> a" "a < 16" "0 \<le> b" "b < 16" "0 \<le> c" "c < 16" "0 \<le> d" "d < 10"
    using assms by (simp_all add: a_def b_def c_def d_def div_int_pos_iff)
  have d0: "push_bit 12 (word_of_int d :: u32) \<noteq> 0 \<longleftrightarrow> d \<noteq> 0"
  proof -
    have "d = 0 \<or> d = 1 \<or> d = 2 \<or> d = 3 \<or> d = 4 \<or> d = 5 \<or> d = 6 \<or> d = 7 \<or> d = 8 \<or> d = 9" using r(7,8) by presburger
    then show ?thesis by (elim disjE) simp_all
  qed
  define h :: u32 where "h = (if d \<noteq> 0 then 0xF else 0x7)"
  have conv: "convertTime t = leds_word (word_of_int a) (word_of_int b) (word_of_int c) (word_of_int d) h"
    by (simp add: convertTime_def leds_word_def Let_def s d0 h_def)
  have "h = word_of_int (if d \<noteq> 0 then 15 else 7)" by (simp add: h_def)
  then have hb: "bit h n \<Longrightarrow> n < 4" for n using digit_word(1) [of "if d \<noteq> 0 then 15 else 7"] by (simp split: if_splits)
  have n: "bit (word_of_int a :: u32) n \<Longrightarrow> n < 4" "bit (word_of_int b :: u32) n \<Longrightarrow> n < 4"
    "bit (word_of_int c :: u32) n \<Longrightarrow> n < 4" "bit (word_of_int d :: u32) n \<Longrightarrow> n < 4" for n
    using digit_word(1) r by simp_all
  note w' = leds_word_bits [where a = "word_of_int a" and b = "word_of_int b" and c = "word_of_int c" and d = "word_of_int d" and h = h, OF n hb, folded conv]
  define f where "f i = (if bit (convertTime t) (16 + i) then Some (unat (drop_bit (i * 4) (convertTime t) AND 0xF), bit (convertTime t) (24 + i)) else None)" for i
  have packet: "\<exists>m bs. led_packet (convertTime t) = 0xC6 # m # bs \<and> decode_leds m 0 4 bs = map f [0..<4]"
    unfolding f_def by (rule led_packet_decodes)
  have h: "bit h 0" "bit h 1" "bit h 2" "bit h 3 \<longleftrightarrow> d \<noteq> 0" by (simp_all add: h_def)
  have u: "unat (word_of_int a :: u32) = nat a" "unat (word_of_int b :: u32) = nat b" "unat (word_of_int c :: u32) = nat c" "unat (word_of_int d :: u32) = nat d"
    using r by (simp_all add: digit_word(2))
  have f0: "f 0 = Some (nat a, False)" using w'(1) w'(5) [of 0] w'(6) [of 0] h(1) u(1) unfolding f_def by simp
  have f1: "f 1 = Some (nat b, False)" using w'(2) w'(5) [of 1] w'(6) [of 1] h(2) u(2) unfolding f_def by simp
  have f2: "f 2 = Some (nat c, True)" using w'(3) w'(5) [of 2] w'(6) [of 2] h(3) u(3) unfolding f_def by simp
  have f3: "f 3 = (if d = 0 then None else Some (nat d, False))" using w'(4) w'(5) [of 3] w'(6) [of 3] h(4) u(4) unfolding f_def by simp
  have m: "map f [0..<4] = [f 0, f 1, f 2, f 3]" by (simp add: upt_rec numeral_3_eq_3 numeral_2_eq_2)
  have q: "t div 600 = d" using zdiv_zmult2_eq [of 10 t 60] by (simp add: d_def)
  have z: "d = 0 \<longleftrightarrow> t < 600" using assms(1) unfolding q [symmetric] by (auto simp: zdiv_eq_0_iff)
  show ?thesis using packet unfolding m f0 f1 f2 f3 z q a_def b_def c_def .
qed

lemma time_on_leds_witness: "\<exists>m bs. led_packet (convertTime 754) = 0xC6 # m # bs \<and>
  decode_leds m 0 4 bs = [Some (4, False), Some (3, False), Some (2, True), Some (1, False)]"
  using time_on_leds [of 754] by simp

end
