(* ===== verification/GameThreads.thy ===== *)
theory GameThreads
  imports Game
begin

text \<open>
  The threads of the maze game and its \<open>main\<close> (mp2/mazegame.c). The clock thread plays the levels; what the other two
  threads do between its steps comes with every interrupt of the clock, as the list of the rounds of their loops. A
  round under the mutex is one step. \<open>None\<close> is a failure of an operation below; a run whose list of interrupts is
  used up is still under way.
\<close>

unbundle bit_operations_syntax

subsection \<open>The state of the program\<close>

abbreviation (input) PLAYER_RATE :: int where "PLAYER_RATE \<equiv> 16"
abbreviation (input) BAR_LEVEL_INDEX :: u8 where "BAR_LEVEL_INDEX \<equiv> 38"
abbreviation (input) PLAYER_CENTER_COLOR :: u8 where "PLAYER_CENTER_COLOR \<equiv> 0x20"
abbreviation (input) WALL_FILL_COLOR :: u8 where "WALL_FILL_COLOR \<equiv> 0x22"

record play = game +
  quit_flag :: int
  winner :: int
  cmd :: u32                      \<comment> \<open>the buttons of the Tux controller\<close>
  key_state :: int                \<comment> \<open>\<open>state\<close> of the keyboard thread\<close>
  key_done :: bool                \<comment> \<open>the keyboard thread has left its loop\<close>
  leds :: "u32 list"              \<comment> \<open>what \<open>TUX_SET_LED\<close> was called with, the last one at the end\<close>
  goodcount :: int
  badcount :: int
  total :: int

subsection \<open>The other threads\<close>

text \<open>One round of the loop of the keyboard thread, with the key that \<open>getc\<close> gives.\<close>

definition keyboard_round :: "int \<Rightarrow> 'a play_scheme \<Rightarrow> 'a play_scheme" where
  "keyboard_round key s =
     (if key_done s \<or> winner s \<noteq> 0 then s\<lparr>key_done := True\<rparr>
      else let (quit, state, s) = keyboard_key key (key_state s) s
        in if quit then s\<lparr>quit_flag := 1, key_done := True\<rparr> else s\<lparr>key_state := state\<rparr>)"

text \<open>One round of the Tux thread; without a button it waits for the signal.\<close>

definition tux_round :: "'a play_scheme \<Rightarrow> 'a play_scheme" where
  "tux_round s = (if quit_flag s = 0 \<and> winner s = 0 \<and> cmd s AND 0xFF \<noteq> 0 then tux_command (cmd s) s else s)"

datatype round = Key int | Buttons

fun other_threads :: "round list \<Rightarrow> 'a play_scheme \<Rightarrow> 'a play_scheme" where
  "other_threads [] s = s"
| "other_threads (Key k # rs) s = other_threads rs (keyboard_round k s)"
| "other_threads (Buttons # rs) s = other_threads rs (tux_round s)"

subsection \<open>A pass of the clock thread\<close>

text \<open>What comes with an interrupt: the word read from the device, the time since the start of the level, what is in
  the buffer of the message behind its text, what the other threads do during the wait and before each tick, what
  \<open>TUX_BUTTONS\<close> leaves in \<open>cmd\<close> at each tick, and the int behind the array \<open>open\<close>.\<close>

record interrupt =
  int_data :: u32
  int_time :: int
  int_message :: "u8 list list"
  int_before :: "round list"
  int_buttons :: "nat \<Rightarrow> u32"
  int_rounds :: "nat \<Rightarrow> round list"
  int_beyond :: bool

text \<open>\<open>set_palette_color (index, rand () % 0xff, ...)\<close>: \<open>rand\<close> and \<open>random\<close> share their numbers. The order in which
  the three arguments are computed is open in C; here it is from the last one.\<close>

definition random_colour :: "u8 \<Rightarrow> 'a play_scheme \<Rightarrow> 'a play_scheme option" where
  "random_colour index s =
     (let (b, s) = random s; (g, s) = random s; (r, s) = random s
      in set_palette_color index (word_of_int (r smod 0xFF)) (word_of_int (g smod 0xFF)) (word_of_int (b smod 0xFF)) s)"

definition play_tick :: "block_images \<Rightarrow> interrupt \<Rightarrow> nat \<Rightarrow> 'a play_scheme \<Rightarrow> (bool \<times> 'a play_scheme) option" where
  "play_tick blocks i k s =
     (let s = s\<lparr>cmd := int_buttons i k\<rparr>;
          s = other_threads (int_rounds i k) s
      in tick blocks (int_beyond i) s)"

fun play_ticks :: "block_images \<Rightarrow> interrupt \<Rightarrow> nat \<Rightarrow> nat \<Rightarrow> 'a play_scheme \<Rightarrow> (bool \<times> 'a play_scheme) option" where
  "play_ticks blocks i k 0 s = Some (False, s)"
| "play_ticks blocks i k (Suc n) s = do {
     (won, s) \<leftarrow> play_tick blocks i k s;
     if won then Some (True, s) else play_ticks blocks i (k + 1) n s
   }"

definition clock_pass :: "block_images \<Rightarrow> int \<Rightarrow> interrupt \<Rightarrow> 'a play_scheme \<Rightarrow> (bool \<times> 'a play_scheme) option" where
  "clock_pass blocks level i s = do {
     s \<leftarrow> (if total s smod PLAYER_RATE = 0 then random_colour PLAYER_CENTER_COLOR s else Some s);
     s \<leftarrow> fill_status_bar (int_message i) level (global_fnum s) (int_time i) s;
     let s = s\<lparr>leds := leds s @ [convertTime (int_time i)]\<rparr>;
     let n = unat (drop_bit 8 (int_data i));
     let s = s\<lparr>total := total s + int n\<rparr>;
     let n = min n 8;
     let s = (if n > 1 then s\<lparr>badcount := badcount s + 1\<rparr> else s\<lparr>goodcount := goodcount s + 1\<rparr>);
     (won, s) \<leftarrow> play_ticks blocks i 0 n s;
     s \<leftarrow> draw_frame blocks s;
     Some (won, s)
   }"

subsection \<open>The levels\<close>

text \<open>The loops return whether they have ended, the interrupts that are left, and the state.\<close>

fun play_level :: "block_images \<Rightarrow> int \<Rightarrow> interrupt list \<Rightarrow> 'a play_scheme \<Rightarrow> (bool \<times> interrupt list \<times> 'a play_scheme) option" where
  "play_level blocks level is s =
     (if quit_flag s \<noteq> 0 then Some (True, is, s)
      else case is of
        [] \<Rightarrow> Some (False, [], s)
      | i # is' \<Rightarrow> do {
          let s = other_threads (int_before i) s;
          (won, s) \<leftarrow> clock_pass blocks level i s;
          if won then Some (True, is', s) else play_level blocks level is' s
        })"

declare play_level.simps [simp del]

fun play_levels :: "block_images \<Rightarrow> int \<Rightarrow> nat \<Rightarrow> interrupt list \<Rightarrow> 'a play_scheme \<Rightarrow> (bool \<times> interrupt list \<times> 'a play_scheme) option" where
  "play_levels blocks level 0 is s = Some (True, is, s)"
| "play_levels blocks level (Suc k) is s =
     (if quit_flag s \<noteq> 0 then Some (True, is, s)
      else do {
        s \<leftarrow> random_colour BAR_LEVEL_INDEX s;
        s \<leftarrow> random_colour WALL_FILL_COLOR s;
        (r, s) \<leftarrow> prepare_maze_level blocks level s;
        if r \<noteq> 0 then Some (True, is, s)
        else do {
          s \<leftarrow> start_level blocks s;
          case is of
            [] \<Rightarrow> Some (False, [], s)
          | i # is' \<Rightarrow> do {
              (ended, is', s) \<leftarrow> play_level blocks level is' (other_threads (int_before i) s);
              if ended then play_levels blocks (level + 1) k is' s else Some (False, is', s)
            }
        }
      })"

text \<open>\<open>srandom\<close> selects the numbers; \<open>numbers\<close> are those for the time of the start.\<close>

definition srandom :: "(nat \<Rightarrow> int) \<Rightarrow> 'a maze_game_scheme \<Rightarrow> 'a maze_game_scheme" where
  "srandom numbers s = s\<lparr>random_values := numbers, random_calls := 0\<rparr>"

definition rtc_thread :: "block_images \<Rightarrow> (nat \<Rightarrow> int) \<Rightarrow> interrupt list \<Rightarrow> 'a play_scheme \<Rightarrow> (bool \<times> 'a play_scheme) option" where
  "rtc_thread blocks numbers is s = do {
     (ended, is, s) \<leftarrow> play_levels blocks 1 (nat MAX_LEVEL) is (srandom numbers s);
     Some (ended, if ended \<and> quit_flag s = 0 then s\<lparr>winner := 1\<rparr> else s)
   }"

subsection \<open>The program\<close>

text \<open>\<open>sanity_check\<close>, with the constants of blocks.h and maze.h.\<close>

definition sanity_check :: "'a vga_scheme \<Rightarrow> int \<times> 'a vga_scheme" where
  "sanity_check s =
     (if (2 * uint (8 :: u8)) sdiv uint (2 :: u8) < NUM_FRUIT_TYPES + 1
      then (-1, s\<lparr>printed := printed s @ [''You need to allocate more bits in maze_bit_t to encode fruit.'']\<rparr>)
      else (0, s))"

text \<open>What the system calls of \<open>main\<close> answer are its first arguments. The first part of the result is \<open>None\<close> while the
  game is under way, and else what the program returns.\<close>

definition game_main :: "bool \<Rightarrow> bool \<Rightarrow> bool \<Rightarrow> bool \<Rightarrow> bool \<Rightarrow> bool \<Rightarrow> block_images \<Rightarrow> (nat \<Rightarrow> int) \<Rightarrow> interrupt list
    \<Rightarrow> 'a play_scheme \<Rightarrow> (int option \<times> 'a play_scheme) option" where
  "game_main nonblocking attributes_read attributes_set permitted opened mmapped blocks numbers is s =
     (if \<not> nonblocking then Some (Some (-1), s\<lparr>printed := printed s @ [''fcntl to make stdin non-blocking'']\<rparr>)
      else if \<not> attributes_read then Some (Some (-1), s\<lparr>printed := printed s @ [''tcgetattr to read stdin terminal settings'']\<rparr>)
      else if \<not> attributes_set then Some (Some (-1), s\<lparr>printed := printed s @ [''tcsetattr to set stdin terminal settings'']\<rparr>)
      else do {
        let (r, s) = sanity_check s;
        if r \<noteq> 0 then Some (Some 3, s)
        else do {
          (r, s) \<leftarrow> vga_set_mode_X True permitted opened mmapped s;
          if r \<noteq> 0 then Some (Some 3, s)
          else do {
            (ended, s) \<leftarrow> rtc_thread blocks numbers is s;
            if \<not> ended then Some (None, s)
            else do {
              s \<leftarrow> clear_mode_X s;
              Some (Some 0, s\<lparr>printed := printed s @ [if winner s = 1 then ''You win the game! CONGRATULATIONS!''
                                                    else if quit_flag s = 1 then ''Quitter!''
                                                    else ''Sorry, you lose...'']\<rparr>)
            }
          }
        }
      })"

end
