(* ===== verification/GameRun.thy ===== *)
theory GameRun
  imports GameThreads GameFrame GameLevels VgaProps
begin

text \<open>
  What a pass of the clock thread does as a whole: the invariant of the level does not depend on the state of the
  threads and on the palette, the ticks touch neither the screen nor what the other threads share with nobody, and
  the pass brings the status bar, the LEDs and the picture together.
\<close>

subsection \<open>What a tick does not touch\<close>

definition screen_of :: "'a maze_game_scheme \<Rightarrow> (nat \<Rightarrow> nat \<Rightarrow> u8) \<times> u16 \<times> bool \<times> bool \<times> string list" where
  "screen_of s = (vram s, target_img s, port_access s, mapped s, printed s)"

definition view_of :: "'a maze_game_scheme \<Rightarrow> int \<times> int \<times> int \<times> int" where
  "view_of s = (img3 s, img3_off s, show_x s, show_y s)"

lemma draw_row_build: "draw_row img x y blk n s = Some t \<Longrightarrow> \<exists>b. t = s\<lparr>build := b\<rparr>"
proof (induction n arbitrary: x blk s)
  case 0
  then show ?case by (intro exI [of _ "build s"]) simp
next
  case (Suc n)
  then obtain u b where "u = s\<lparr>build := b\<rparr>" "draw_row img (x + 1) y (blk + 1) n u = Some t"
    by (auto simp: bind_Some_iff build_put_def split: if_splits)
  then show ?case using Suc.IH by fastforce
qed

lemma draw_rows_build: "draw_rows img x y blk w skip h s = Some t \<Longrightarrow> \<exists>b. t = s\<lparr>build := b\<rparr>"
proof (induction h arbitrary: y blk s)
  case 0
  then show ?case by (intro exI [of _ "build s"]) simp
next
  case (Suc h)
  then obtain u where u: "draw_row img x y blk w s = Some u" "draw_rows img x (y + 1) (blk + int w + skip) w skip h u = Some t"
    by (auto simp: bind_Some_iff)
  then show ?case using Suc.IH [OF u(2)] draw_row_build [OF u(1)] by auto
qed

lemma draw_full_block_build: "draw_full_block px py img s = Some t \<Longrightarrow> \<exists>b. t = s\<lparr>build := b\<rparr>"
  unfolding draw_full_block_def
  by (auto split: option.splits prod.splits dest: draw_rows_build intro: exI [of _ "build s"])

lemma vert_loop_build: "vert_loop buf addr p i k s = Some t \<Longrightarrow> \<exists>b. t = s\<lparr>build := b\<rparr>"
proof (induction k arbitrary: addr i s)
  case 0
  then show ?case by (intro exI [of _ "build s"]) simp
next
  case (Suc k)
  then obtain u b where "u = s\<lparr>build := b\<rparr>" "vert_loop buf (addr + 80) p (i + 1) k u = Some t"
    by (auto simp: bind_Some_iff build_put_def split: if_splits)
  then show ?case using Suc.IH by fastforce
qed

lemma horiz_loop_build: "horiz_loop buf addr p i k s = Some t \<Longrightarrow> \<exists>b. t = s\<lparr>build := b\<rparr>"
proof (induction k arbitrary: addr p i s)
  case 0
  then show ?case by (intro exI [of _ "build s"]) simp
next
  case (Suc k)
  then obtain u b a q where "u = s\<lparr>build := b\<rparr>" "horiz_loop buf a q (i + 1) k u = Some t"
    by (auto simp: bind_Some_iff build_put_def Let_def split: if_splits)
  then show ?case using Suc.IH by fastforce
qed

lemma draw_space_outside:
  assumes "draw_space blocks x y s = Some t"
  shows "screen_of t = screen_of s" "view_of t = view_of s" "maze_game.more t = maze_game.more s"
  using assms draw_full_block_build by (fastforce simp: draw_space_def bind_Some_iff screen_of_def view_of_def)+

lemma maze_put_outside:
  assumes "maze_put x y v s = Some t"
  shows "screen_of t = screen_of s" "view_of t = view_of s" "maze_game.more t = maze_game.more s"
  using assms by (auto simp: maze_put_def screen_of_def view_of_def)

lemma unveil_space_outside:
  assumes "unveil_space blocks x y s = Some t"
  shows "screen_of t = screen_of s" "view_of t = view_of s" "maze_game.more t = maze_game.more s"
  using assms by (auto simp: unveil_space_def bind_Some_iff draw_space_outside maze_put_outside split: if_splits)

lemma unveil_spaces_outside:
  "unveil_spaces blocks ps s = Some t \<Longrightarrow> screen_of t = screen_of s \<and> view_of t = view_of s \<and> maze_game.more t = maze_game.more s"
  by (induction ps arbitrary: s) (auto simp: bind_Some_iff unveil_space_outside)

lemma check_for_fruit_outside:
  assumes "check_for_fruit blocks x y s = Some (n, t)"
  shows "screen_of t = screen_of s \<and> view_of t = view_of s \<and> maze_game.more t = maze_game.more s"
proof -
  have f: "screen_of (s\<lparr>n_fruits := k\<rparr>) = screen_of s" "screen_of (s\<lparr>global_fnum := k\<rparr>) = screen_of s"
    "view_of (s\<lparr>n_fruits := k\<rparr>) = view_of s" "view_of (s\<lparr>global_fnum := k\<rparr>) = view_of s" for k and s :: "'a maze_game_scheme"
    by (simp_all add: screen_of_def view_of_def)
  show ?thesis using assms
    by (auto simp: check_for_fruit_def bind_Some_iff Let_def f maze_put_outside draw_space_outside split: if_splits)
qed

lemma unveil_around_outside:
  assumes "unveil_around_player blocks px py s = Some (won, t)"
  shows "screen_of t = screen_of s \<and> view_of t = view_of s \<and> maze_game.more t = maze_game.more s"
  using assms check_for_fruit_outside unveil_spaces_outside
  by (fastforce simp: unveil_around_player_def Let_def bind_Some_iff)

definition outside :: "'a game_scheme \<Rightarrow> _ \<times> 'a" where
  "outside s = (screen_of s, game.more s)"

lemma outside_maze:
  fixes s t :: "'a game_scheme"
  assumes "screen_of t = screen_of s" "maze_game.more t = maze_game.more s" shows "outside t = outside s"
  using assms by (cases s; cases t) (simp add: outside_def)

lemma outside_steps [simp]:
  fixes s :: "'a game_scheme"
  shows "outside (s\<lparr>map_x := a\<rparr>) = outside s" "outside (s\<lparr>map_y := a\<rparr>) = outside s" "outside (s\<lparr>play_x := x\<rparr>) = outside s"
    "outside (s\<lparr>play_y := x\<rparr>) = outside s" "outside (s\<lparr>dir := d\<rparr>) = outside s" "outside (s\<lparr>last_dir := d\<rparr>) = outside s"
    "outside (s\<lparr>next_dir := d\<rparr>) = outside s" "outside (s\<lparr>move_cnt := x\<rparr>) = outside s" "outside (s\<lparr>build := b\<rparr>) = outside s"
  by (simp_all add: outside_def screen_of_def)

lemma set_view_window_outside:
  fixes s :: "'a game_scheme"
  assumes "set_view_window X Y s = Some t" shows "outside t = outside s"
proof -
  obtain b o3 i3 X' Y' where "t = s\<lparr>build := b, img3_off := o3, img3 := i3, show_x := X', show_y := Y'\<rparr>"
    using set_view_window_moved [OF assms] unfolding view_moved_def by blast
  then show ?thesis by (simp add: outside_def screen_of_def)
qed

lemma pan_row_outside: "pan_row blocks r s = Some t \<Longrightarrow> outside t = outside s"
  unfolding pan_row_def draw_horiz_line_def
  by (auto simp: bind_Some_iff Let_def split: if_splits dest!: horiz_loop_build set_view_window_outside)

lemma pan_column_outside: "pan_column blocks r s = Some t \<Longrightarrow> outside t = outside s"
  unfolding pan_column_def draw_vert_line_def
  by (auto simp: bind_Some_iff Let_def split: if_splits dest!: vert_loop_build set_view_window_outside)

lemma move_player_outside: "move_player blocks s = Some t \<Longrightarrow> outside t = outside s"
  by (cases "dir s") (auto simp: move_player_def move_up_def move_down_def move_left_def move_right_def Let_def
    pan_row_outside pan_column_outside split: if_splits)

lemma choose_dir_outside:
  assumes "choose_dir beyond opn s = Some t" shows "outside t = outside s \<and> view_of t = view_of s"
proof -
  obtain go where "arr_get (opn @ [beyond]) (int (dir_number (next_dir s))) = Some go"
    using assms by (auto simp: choose_dir_def bind_Some_iff)
  note go = this
  define u where "u = (if go then s\<lparr>dir := next_dir s\<rparr> else s)"
  have "outside u = outside s \<and> view_of u = view_of s" by (simp add: u_def view_of_def)
  moreover have "(if dir u \<noteq> DIR_STOP then do {
       go \<leftarrow> arr_get opn (int (dir_number (dir u)));
       Some (if \<not> go then u\<lparr>dir := DIR_STOP\<rparr>
             else if dir u = DIR_UP \<or> dir u = DIR_DOWN then u\<lparr>move_cnt := 12\<rparr>
             else u\<lparr>move_cnt := 12\<rparr>)
     } else Some u) = Some t" using assms by (simp only: choose_dir_def Let_def Option.bind.simps go u_def)
  then have "t = u \<or> t = u\<lparr>dir := DIR_STOP\<rparr> \<or> t = u\<lparr>move_cnt := 12\<rparr>" by (auto simp: bind_Some_iff split: if_split_asm)
  ultimately show ?thesis by (auto simp: view_of_def)
qed

lemma new_square_outside:
  assumes "new_square blocks beyond s = Some (won, t)" shows "outside t = outside s" "view_of t = view_of s"
proof -
  obtain wu where wu: "unveil_around_player blocks (play_x s) (play_y s) s = Some wu"
    "(if fst wu then Some (True, snd wu) else do {
       opn \<leftarrow> find_open_directions (play_x (snd wu) sdiv 12) (play_y (snd wu) sdiv 12) (snd wu);
       map_option (\<lambda>s. (False, s)) (choose_dir beyond opn (snd wu))
     }) = Some (won, t)" using assms unfolding new_square_def bind_Some_iff split_def by blast
  have "outside (snd wu) = outside s \<and> view_of (snd wu) = view_of s"
    using unveil_around_outside [of blocks "play_x s" "play_y s" s "fst wu" "snd wu"] wu(1) outside_maze [of "snd wu" s] by simp
  moreover have "outside t = outside (snd wu) \<and> view_of t = view_of (snd wu)"
    using wu(2) by (auto simp: bind_Some_iff split: if_split_asm dest!: choose_dir_outside)
  ultimately show "outside t = outside s" "view_of t = view_of s" by simp_all
qed

lemma turn_back_outside: "outside (turn_back s) = outside s" "view_of (turn_back s) = view_of s"
proof -
  have "turn_back s = s \<or> (\<exists>c. turn_back s = s\<lparr>move_cnt := c, dir := next_dir s\<rparr>) \<or> turn_back s = s\<lparr>dir := next_dir s\<rparr>"
    unfolding turn_back_def Let_def by (cases "move_cnt s > 0") auto
  then show "outside (turn_back s) = outside s" "view_of (turn_back s) = view_of s" by (auto simp: view_of_def)
qed

lemma tick_outside:
  assumes "tick blocks beyond s = Some (won, t)" shows "outside t = outside s"
proof -
  obtain wu where wu: "(if move_cnt (turn_back s) = 0 then new_square blocks beyond (turn_back s) else Some (False, turn_back s)) = Some wu"
    and rest: "(if fst wu then Some (True, snd wu) else if dir (snd wu) \<noteq> DIR_STOP
        then map_option (\<lambda>s. (False, s)) (move_player blocks (snd wu\<lparr>last_dir := dir (snd wu), move_cnt := move_cnt (snd wu) - 1\<rparr>))
      else Some (False, snd wu)) = Some (won, t)"
    using assms unfolding tick_def Let_def bind_Some_iff split_def by blast
  have "outside (snd wu) = outside s"
    using wu new_square_outside(1) [of blocks beyond "turn_back s" "fst wu" "snd wu"] turn_back_outside(1) [of s]
    by (auto split: if_split_asm)
  moreover have "outside t = outside (snd wu)" using rest by (auto split: if_split_asm dest!: move_player_outside)
  ultimately show ?thesis by simp
qed

subsection \<open>Where the window is in the buffer\<close>

definition place :: "'a modex_scheme \<Rightarrow> int" where
  "place s = img3_off s + show_x s div 4 + show_y s * 80"

lemma place_view: "view_of t = view_of s \<Longrightarrow> place t = place s"
  by (simp add: view_of_def place_def)

lemma place_build [simp]: "place (s\<lparr>build := b\<rparr>) = place s"
  by (simp add: place_def)

lemma set_view_window_place:
  assumes "set_view_window X Y s = Some t" "img3_off s + X div 4 + Y * 80 \<le> m" "10000 \<le> m"
  shows "place t \<le> m"
proof -
  have "show_x t = X \<and> show_y t = Y"
    using assms(1) unfolding set_view_window_def Let_def split_def
    by (auto split: if_split_asm dest!: copy_down_frame copy_up_frame)
  then show ?thesis using set_view_window_offset [OF assms(1)] assms(2,3) by (auto simp: place_def modex_sizes)
qed

lemma pan_row_place:
  assumes "pan_row blocks r s = Some t" "img3_off s + sint (map_x s) div 4 + sint (map_y s) * 80 \<le> m" "10000 \<le> m"
  shows "place t \<le> m"
proof -
  obtain u b where "set_view_window (sint (map_x s)) (sint (map_y s)) s = Some u" "t = u \<or> t = u\<lparr>build := b\<rparr>"
    using assms(1) unfolding pan_row_def draw_horiz_line_def
    by (auto simp: bind_Some_iff Let_def split: if_splits dest!: horiz_loop_build)
  then show ?thesis using set_view_window_place [OF _ assms(2,3)] by fastforce
qed

lemma pan_column_place:
  assumes "pan_column blocks r s = Some t" "img3_off s + sint (map_x s) div 4 + sint (map_y s) * 80 \<le> m" "10000 \<le> m"
  shows "place t \<le> m"
proof -
  obtain u b where "set_view_window (sint (map_x s)) (sint (map_y s)) s = Some u" "t = u \<or> t = u\<lparr>build := b\<rparr>"
    using assms(1) unfolding pan_column_def draw_vert_line_def
    by (auto simp: bind_Some_iff Let_def split: if_splits dest!: vert_loop_build)
  then show ?thesis using set_view_window_place [OF _ assms(2,3)] by fastforce
qed

text \<open>A move shifts the window by one pixel at most, or puts it into the middle of the buffer.\<close>

lemma move_player_place:
  assumes "move_player blocks s = Some t" "view_at s"
  shows "place t \<le> max (place s + 80) 10000"
proof -
  note w = view_at_words [OF assms(2)]
  have m: "map_x s = word_of_int (show_x s)" "map_y s = word_of_int (show_y s)" using assms(2) by (simp_all add: view_at_def)
  have near: "sint (map_x s - 1) = show_x s - 1" "sint (map_x s + 1) = show_x s + 1"
    "sint (map_y s - 1) = show_y s - 1" "sint (map_y s + 1) = show_y s + 1"
    using w(3-6) u32_sint [of "show_x s - 1"] u32_sint [of "show_x s + 1"] u32_sint [of "show_y s - 1"] u32_sint [of "show_y s + 1"]
    by (simp_all add: m)
  have "(show_x s - 1) div 4 \<le> show_x s div 4" by (rule zdiv_mono1) simp_all
  moreover have "(show_x s + 1) div 4 \<le> show_x s div 4 + 1" by presburger
  ultimately have steps: "img3_off s + show_x s div 4 + (show_y s - 1) * 80 \<le> max (place s + 80) 10000"
    "img3_off s + show_x s div 4 + (show_y s + 1) * 80 \<le> max (place s + 80) 10000"
    "img3_off s + (show_x s - 1) div 4 + show_y s * 80 \<le> max (place s + 80) 10000"
    "img3_off s + (show_x s + 1) div 4 + show_y s * 80 \<le> max (place s + 80) 10000"
    by (simp_all add: place_def)
  have stay: "place (s\<lparr>play_x := a\<rparr>) \<le> max (place s + 80) 10000" "place (s\<lparr>play_y := a\<rparr>) \<le> max (place s + 80) 10000" for a
    by (simp_all add: place_def)
  have ten: "10000 \<le> max (place s + 80) 10000" by simp
  show ?thesis
  proof (cases "dir s")
    case DIR_UP
    have "pan_row blocks 0 (s\<lparr>play_y := play_y s - 1, map_y := map_y s - 1\<rparr>) = Some u \<Longrightarrow> place u \<le> max (place s + 80) 10000" for u
      by (erule pan_row_place [OF _ _ ten]) (use w(1) near steps in simp)
    then show ?thesis using assms(1) DIR_UP stay by (auto simp: move_player_def move_up_def Let_def split: if_splits)
  next
    case DIR_DOWN
    have "pan_row blocks 181 (s\<lparr>play_y := play_y s + 1, map_y := map_y s + 1\<rparr>) = Some u \<Longrightarrow> place u \<le> max (place s + 80) 10000" for u
      by (erule pan_row_place [OF _ _ ten]) (use w(1) near steps in simp)
    then show ?thesis using assms(1) DIR_DOWN stay by (auto simp: move_player_def move_down_def Let_def split: if_splits)
  next
    case DIR_LEFT
    have "pan_column blocks 0 (s\<lparr>play_x := play_x s - 1, map_x := map_x s - 1\<rparr>) = Some u \<Longrightarrow> place u \<le> max (place s + 80) 10000" for u
      by (erule pan_column_place [OF _ _ ten]) (use w(2) near steps in simp)
    then show ?thesis using assms(1) DIR_LEFT stay by (auto simp: move_player_def move_left_def Let_def split: if_splits)
  next
    case DIR_RIGHT
    have "pan_column blocks 319 (s\<lparr>play_x := play_x s + 1, map_x := map_x s + 1\<rparr>) = Some u \<Longrightarrow> place u \<le> max (place s + 80) 10000" for u
      by (erule pan_column_place [OF _ _ ten]) (use w(2) near steps in simp)
    then show ?thesis using assms(1) DIR_RIGHT stay by (auto simp: move_player_def move_right_def Let_def split: if_splits)
  qed (use assms(1) in \<open>simp add: move_player_def\<close>)
qed

lemma tick_place:
  fixes s :: "'a game_scheme"
  assumes "tick blocks beyond s = Some (won, t)" "game_ok blocks s" "blocks_ok blocks"
  shows "place t \<le> max (place s + 80) 10000"
proof -
  have g: "game_ok blocks (turn_back s)" by (rule turn_back_game [OF assms(2)])
  obtain wu where wu: "(if move_cnt (turn_back s) = 0 then new_square blocks beyond (turn_back s) else Some (False, turn_back s)) = Some wu"
    and rest: "(if fst wu then Some (True, snd wu) else if dir (snd wu) \<noteq> DIR_STOP
        then map_option (\<lambda>s. (False, s)) (move_player blocks (snd wu\<lparr>last_dir := dir (snd wu), move_cnt := move_cnt (snd wu) - 1\<rparr>))
      else Some (False, snd wu)) = Some (won, t)"
    using assms(1) unfolding tick_def Let_def bind_Some_iff split_def by blast
  have u: "view_at (snd wu) \<and> view_of (snd wu) = view_of s"
  proof (cases "move_cnt (turn_back s) = 0")
    case True
    obtain a b where "player_at a b (turn_back s)" using g by (auto simp: game_ok_def walk_ok_def)
    then obtain u w where "new_square blocks beyond (turn_back s) = Some (w, u)" "view_at u"
      using new_square_game [OF g assms(3) True] by blast
    then show ?thesis using wu True new_square_outside(2) turn_back_outside(2) by fastforce
  next
    case False
    then show ?thesis using wu g turn_back_outside(2) [of s] by (auto simp: game_ok_def)
  qed
  let ?u = "snd wu\<lparr>last_dir := dir (snd wu), move_cnt := move_cnt (snd wu) - 1\<rparr>"
  have p: "place (snd wu) = place s" "place ?u = place s" "view_at ?u"
    using u place_view [of "snd wu" s] by (simp_all add: place_def view_at_def)
  have "t = snd wu \<or> move_player blocks ?u = Some t" using rest by (auto split: if_split_asm)
  then show ?thesis using move_player_place [OF _ p(3)] p(1,2) by fastforce
qed

subsection \<open>What the invariant does not depend on\<close>

lemma game_ok_more:
  fixes s t :: "'a game_scheme"
  assumes "game.truncate t = game.truncate s"
  shows "game_ok blocks t = game_ok blocks s" "play_x t = play_x s" "play_y t = play_y s" "screen_of t = screen_of s"
    "global_fnum t = global_fnum s" "place t = place s"
proof -
  obtain m :: 'a where t: "t = s\<lparr>game.more := m\<rparr>"
    using assms by (cases t; cases s) (auto simp: game.truncate_def)
  have "maze_game.truncate t = maze_game.truncate s" by (simp add: t maze_game.truncate_def)
  note l = level_more [OF this]
  have f: "play_x t = play_x s" "play_y t = play_y s" "dir t = dir s" "next_dir t = next_dir s" "move_cnt t = move_cnt s" "last_dir t = last_dir s"
    "map_x t = map_x s" "map_y t = map_y s" "info_x_dim t = info_x_dim s" "info_y_dim t = info_y_dim s" by (simp_all add: t)
  have o: "open_space t x y = open_space s x y" for x y by (simp add: open_space_def l)
  have "player_at x y t = player_at x y s" for x y by (simp add: player_at_def o f)
  then show "game_ok blocks t = game_ok blocks s"
    by (simp add: game_ok_def l f border_walls_def view_at_def pan_ok_def walk_ok_def)
  show "play_x t = play_x s" "play_y t = play_y s" "screen_of t = screen_of s" "global_fnum t = global_fnum s" "place t = place s"
    by (simp_all add: t screen_of_def place_def)
qed

lemma truncate_play [simp]:
  fixes s :: "'a play_scheme"
  shows "game.truncate (s\<lparr>quit_flag := a\<rparr>) = game.truncate s" "game.truncate (s\<lparr>cmd := w\<rparr>) = game.truncate s"
    "game.truncate (s\<lparr>key_state := a\<rparr>) = game.truncate s" "game.truncate (s\<lparr>key_done := b\<rparr>) = game.truncate s"
    "game.truncate (s\<lparr>leds := ws\<rparr>) = game.truncate s" "game.truncate (s\<lparr>goodcount := a\<rparr>) = game.truncate s"
    "game.truncate (s\<lparr>badcount := a\<rparr>) = game.truncate s" "game.truncate (s\<lparr>total := a\<rparr>) = game.truncate s"
  by (simp_all add: game.truncate_def)

lemmas play_fields = game_ok_more [OF truncate_play(1)] game_ok_more [OF truncate_play(2)] game_ok_more [OF truncate_play(3)]
  game_ok_more [OF truncate_play(4)] game_ok_more [OF truncate_play(5)] game_ok_more [OF truncate_play(6)]
  game_ok_more [OF truncate_play(7)] game_ok_more [OF truncate_play(8)]

text \<open>The palette and the random numbers.\<close>

lemma colour_game:
  fixes s :: "'a game_scheme"
  assumes t_def: "t = s\<lparr>random_calls := n, dac_index := i, dac_next := j, dac := d\<rparr>"
  shows "game_ok blocks t = game_ok blocks s" "play_x t = play_x s" "play_y t = play_y s" "screen_of t = screen_of s"
    "global_fnum t = global_fnum s"
proof -
  have c: "cell t x y = cell s x y" for x y by (simp add: t_def cell_def MAZE_INDEX_def)
  have f: "play_x t = play_x s" "play_y t = play_y s" "dir t = dir s" "next_dir t = next_dir s" "move_cnt t = move_cnt s" "last_dir t = last_dir s"
    "map_x t = map_x s" "map_y t = map_y s" "info_x_dim t = info_x_dim s" "info_y_dim t = info_y_dim s"
    "maze_x_dim t = maze_x_dim s" "maze_y_dim t = maze_y_dim s" "n_fruits t = n_fruits s" "exit_x t = exit_x s" "exit_y t = exit_y s"
    "show_x t = show_x s" "show_y t = show_y s" "g_mask t = g_mask s" "img3 t = img3 s" "img3_off t = img3_off s" "build t = build s" "maze t = maze s"
    by (simp_all add: t_def)
  have m: "in_maze t x y = in_maze s x y" for x y by (simp add: in_maze_def f)
  have p: "maze_pic blocks t = maze_pic blocks s" by (intro ext) (simp add: maze_pic_def block_no_def c f)
  have o: "open_space t x y = open_space s x y" for x y by (simp add: open_space_def c f)
  have "player_at x y t = player_at x y s" for x y by (simp add: player_at_def o f)
  moreover have "level_ok blocks t = level_ok blocks s"
    by (simp add: level_ok_def window_ok_def maze_arr_ok_def view_ok_def shows_but_def in_view_def pix_def pixel_index_def p
        fruits_ok_def fruit_spaces_def exit_ok_def c f m)
  ultimately show "game_ok blocks t = game_ok blocks s"
    by (simp add: game_ok_def border_walls_def view_at_def pan_ok_def walk_ok_def c f m)
  show "play_x t = play_x s" "play_y t = play_y s" "screen_of t = screen_of s" "global_fnum t = global_fnum s"
    by (simp_all add: t_def screen_of_def)
qed

lemma set_palette_color_eq:
  "port_access s \<Longrightarrow> set_palette_color i r g b s = Some (s\<lparr>dac_index := i + 1, dac_next := 0,
     dac := (dac s)(i := (dac s i)(0 := r AND 0x3F, 1 := g AND 0x3F, 2 := b AND 0x3F))\<rparr>)"
  using dac_write_colour [of "s\<lparr>dac_index := i, dac_next := 0\<rparr>" b g r]
  by (simp add: set_palette_color_def OUTB_dac) (simp add: OUTB_def OUTB_dac)

lemma random_colour_eq:
  assumes "port_access s"
  shows "\<exists>n i j d. random_colour c s = Some (s\<lparr>random_calls := n, dac_index := i, dac_next := j, dac := d\<rparr>) \<and> (\<forall>x. x \<noteq> c \<longrightarrow> d x = dac s x)"
  using assms by (simp add: random_colour_def random_def Let_def set_palette_color_eq) fastforce

subsection \<open>The other threads\<close>

lemma keyboard_round_game:
  fixes s :: "'a play_scheme"
  assumes "game_ok blocks s"
  shows "game_ok blocks (keyboard_round k s)" "play_x (keyboard_round k s) = play_x s" "play_y (keyboard_round k s) = play_y s"
    "screen_of (keyboard_round k s) = screen_of s" "leds (keyboard_round k s) = leds s" "total (keyboard_round k s) = total s"
    "place (keyboard_round k s) = place s"
proof -
  obtain q st t where t: "keyboard_key k (key_state s) s = (q, st, t)" by (cases "keyboard_key k (key_state s) s") auto
  have "game_ok blocks t" by (rule keyboard_key_game [OF assms t])
  moreover have "play_x t = play_x s" "play_y t = play_y s" "screen_of t = screen_of s" "leds t = leds s" "total t = total s" "place t = place s"
    using t by (auto simp: keyboard_key_def arrow_key_def screen_of_def place_def split: if_splits)
  ultimately show "game_ok blocks (keyboard_round k s)" "play_x (keyboard_round k s) = play_x s" "play_y (keyboard_round k s) = play_y s"
    "screen_of (keyboard_round k s) = screen_of s" "leds (keyboard_round k s) = leds s" "total (keyboard_round k s) = total s"
    "place (keyboard_round k s) = place s"
    using assms by (simp_all add: keyboard_round_def t play_fields)
qed

lemma tux_round_game:
  fixes s :: "'a play_scheme"
  assumes "game_ok blocks s"
  shows "game_ok blocks (tux_round s)" "play_x (tux_round s) = play_x s" "play_y (tux_round s) = play_y s"
    "screen_of (tux_round s) = screen_of s" "leds (tux_round s) = leds s" "total (tux_round s) = total s"
    "place (tux_round s) = place s"
  using assms by (simp_all add: tux_round_def tux_command_game) (simp_all add: tux_command_def screen_of_def place_def Let_def)

lemma other_threads_game:
  fixes s :: "'a play_scheme"
  shows "game_ok blocks s \<Longrightarrow> game_ok blocks (other_threads rs s) \<and> play_x (other_threads rs s) = play_x s \<and>
    play_y (other_threads rs s) = play_y s \<and> screen_of (other_threads rs s) = screen_of s \<and>
    leds (other_threads rs s) = leds s \<and> total (other_threads rs s) = total s \<and> place (other_threads rs s) = place s"
proof (induction rs arbitrary: s)
  case (Cons r rs)
  then show ?case by (cases r) (simp_all add: keyboard_round_game tux_round_game)
qed simp

subsection \<open>The ticks of a pass\<close>

lemma play_more:
  fixes s t :: "'a play_scheme"
  assumes "game.more t = game.more s" shows "leds t = leds s" "total t = total s"
  using assms by (cases s; cases t; simp)+

lemma play_tick_game:
  fixes s :: "'a play_scheme"
  assumes "game_ok blocks s" "blocks_ok blocks"
  shows "\<exists>won t. play_tick blocks i k s = Some (won, t) \<and> game_ok blocks t \<and> \<bar>play_x t - play_x s\<bar> + \<bar>play_y t - play_y s\<bar> \<le> 1 \<and>
    screen_of t = screen_of s \<and> leds t = leds s \<and> total t = total s \<and> place t \<le> max (place s) 10000 + 80"
proof -
  let ?u = "other_threads (int_rounds i k) (s\<lparr>cmd := int_buttons i k\<rparr>)"
  have u: "game_ok blocks ?u" "play_x ?u = play_x s" "play_y ?u = play_y s" "screen_of ?u = screen_of s" "leds ?u = leds s" "total ?u = total s"
    "place ?u = place s"
    using other_threads_game [of blocks "s\<lparr>cmd := int_buttons i k\<rparr>" "int_rounds i k"] assms(1) by (simp_all add: play_fields)
  obtain won t where t: "tick blocks (int_beyond i) ?u = Some (won, t)" "game_ok blocks t"
    "\<bar>play_x t - play_x ?u\<bar> + \<bar>play_y t - play_y ?u\<bar> \<le> 1" using tick_game [OF u(1) assms(2)] by blast
  have o: "screen_of t = screen_of ?u" "game.more t = game.more ?u" using tick_outside [OF t(1)] by (simp_all add: outside_def)
  have "place t \<le> max (place s) 10000 + 80" using tick_place [OF t(1) u(1) assms(2)] u(7) by simp
  then show ?thesis using t u(2-6) o(1) play_more [OF o(2)] by (intro exI [of _ won] exI [of _ t]) (simp add: play_tick_def Let_def)
qed

lemma play_ticks_game:
  fixes s :: "'a play_scheme"
  assumes "game_ok blocks s" "blocks_ok blocks"
  shows "\<exists>won t. play_ticks blocks i k n s = Some (won, t) \<and> game_ok blocks t \<and>
    \<bar>play_x t - play_x s\<bar> + \<bar>play_y t - play_y s\<bar> \<le> int n \<and> screen_of t = screen_of s \<and> leds t = leds s \<and> total t = total s \<and>
    place t \<le> max (place s) 10000 + int n * 80"
  using assms(1)
proof (induction n arbitrary: k s)
  case 0
  then show ?case by auto
next
  case (Suc n)
  obtain w u where u: "play_tick blocks i k s = Some (w, u)" "game_ok blocks u" "\<bar>play_x u - play_x s\<bar> + \<bar>play_y u - play_y s\<bar> \<le> 1"
    "screen_of u = screen_of s" "leds u = leds s" "total u = total s" "place u \<le> max (place s) 10000 + 80" using play_tick_game [OF Suc.prems assms(2)] by blast
  show ?case
  proof (cases w)
    case True
    then show ?thesis using u by auto
  next
    case False
    obtain won t where "play_ticks blocks i (k + 1) n u = Some (won, t)" "game_ok blocks t"
      "\<bar>play_x t - play_x u\<bar> + \<bar>play_y t - play_y u\<bar> \<le> int n" "screen_of t = screen_of u" "leds t = leds u" "total t = total u"
      and p: "place t \<le> max (place u) 10000 + int n * 80" using Suc.IH [OF u(2)] by blast
    have "\<bar>play_x t - play_x s\<bar> + \<bar>play_y t - play_y s\<bar> \<le> int (Suc n)" using u(3) \<open>\<bar>play_x t - _\<bar> + _ \<le> int n\<close> by linarith
    moreover have "place t \<le> max (place s) 10000 + int (Suc n) * 80"
      using p u(7) by (auto simp: max_def algebra_simps split: if_splits)
    ultimately show ?thesis using u False \<open>play_ticks _ _ _ _ _ = _\<close> \<open>game_ok blocks t\<close> \<open>screen_of t = _\<close> \<open>leds t = _\<close> \<open>total t = _\<close>
      by (intro exI [of _ won] exI [of _ t]) simp
  qed
qed

subsection \<open>The status bar\<close>

lemma vram_copy_screen: "screen_kept s (vram_copy i bs s) \<and> build (vram_copy i bs s) = build s \<and> target_img (vram_copy i bs s) = target_img s"
proof (induction bs arbitrary: i s)
  case (Cons b bs)
  have "screen_kept s (vram_write i b s)" by (simp add: screen_kept_def vram_write_def)
  then show ?case using Cons.IH [of "vram_write i b s" "i + 1"] by (auto simp: vram_write_def intro: screen_kept_trans)
qed (simp add: screen_kept_def)

lemma show_bar_screen: "screen_kept s (show_bar pb i k s) \<and> build (show_bar pb i k s) = build s \<and> target_img (show_bar pb i k s) = target_img s"
proof (induction k arbitrary: i s)
  case (Suc k)
  let ?m = "SET_WRITE_MASK (push_bit (i + 8) 1) s"
  let ?c = "vram_copy 0 (take 1440 (drop (i * 1440) pb)) ?m"
  have "screen_kept s ?m" "build ?m = build s" "target_img ?m = target_img s" by (simp_all add: SET_WRITE_MASK_def screen_kept_def)
  moreover have "screen_kept ?m ?c \<and> build ?c = build ?m \<and> target_img ?c = target_img ?m" by (rule vram_copy_screen)
  ultimately show ?case using Suc.IH [of ?c "i + 1"] by (auto intro: screen_kept_trans)
qed (simp add: screen_kept_def)

lemma fill_status_bar_screen:
  "fill_status_bar junk level fruit time s = Some t \<Longrightarrow> screen_kept s t \<and> build t = build s \<and> target_img t = target_img s"
  using show_bar_screen by (auto simp: fill_status_bar_def bind_Some_iff)

lemma screen_kept_play:
  fixes s t :: "'a play_scheme"
  assumes "screen_kept s t"
  shows "leds t = leds s" "total t = total s" "global_fnum t = global_fnum s" "port_access t = port_access s" "quit_flag t = quit_flag s"
    "place t = place s"
proof -
  obtain b g ti v w c where t: "t = s\<lparr>build := b, g_mask := g, target_img := ti, vram := v, write_mask := w, crtc := c\<rparr>"
    using assms unfolding screen_kept_def by blast
  show "leds t = leds s" "total t = total s" "global_fnum t = global_fnum s" "port_access t = port_access s" "quit_flag t = quit_flag s"
    "place t = place s" by (simp_all add: t place_def)
qed

lemma screen_kept_view:
  fixes s t :: "'a modex_scheme"
  assumes "screen_kept s t" shows "show_x t = show_x s" "show_y t = show_y s"
proof -
  obtain b g ti v w c where t: "t = s\<lparr>build := b, g_mask := g, target_img := ti, vram := v, write_mask := w, crtc := c\<rparr>"
    using assms unfolding screen_kept_def by blast
  show "show_x t = show_x s" "show_y t = show_y s" by (simp_all add: t)
qed

lemma screen_game_ok:
  fixes s t :: "'a game_scheme"
  assumes "screen_kept s t" "build t = build s" shows "game_ok blocks t = game_ok blocks s"
proof -
  note f = screen_game [OF assms(1)]
  have "pix t x y = pix s x y" for x y by (simp add: pix_def f assms(2))
  then have "maze_shown blocks t = maze_shown blocks s" by (simp add: shows_but_def f)
  then show ?thesis by (simp add: game_ok_def level_ok_def f)
qed

text \<open>The pages of the display are behind the status bar.\<close>

definition page_set :: "'a modex_scheme \<Rightarrow> bool" where
  "page_set s \<longleftrightarrow> target_img s = 0x05A0 \<or> target_img s = 0x45A0"

lemma page_flip: "page_set s \<Longrightarrow> target_img t = target_img s XOR 0x4000 \<Longrightarrow> page_set t \<and> 1440 \<le> unat (target_img t)"
  by (auto simp: page_set_def)

lemma draw_frame_below:
  fixes s :: "'a game_scheme"
  assumes "draw_frame blocks s = Some v" "page_set s" "view_ok s" "length (g_mask s) = 144" "blocks_ok blocks"
    and "img3 s + show_x s div 4 + show_y s * 80 + 3 * SCROLL_SIZE + 16001 \<le> BUILD_BUF_SIZE + 512"
  shows "screen_kept s v" "j < 1440 \<Longrightarrow> vram v p j = vram s p j"
proof -
  obtain t u where t: "draw_mask_block (play_x s) (play_y s) (get_player_block blocks (last_dir s)) (get_player_mask blocks (last_dir s)) s = Some t"
    "show_screen t = Some u" "draw_full_block (play_x u) (play_y u) (g_mask u) u = Some v"
    using assms(1) by (auto simp: draw_frame_def bind_Some_iff)
  have len: "length (blocks b) = 144" for b using assms(5) by (simp add: blocks_ok_def)
  have m: "masked s t"
    using draw_mask_block_ok [OF assms(3) len len assms(4), of "play_x s" "play_y s"] t(1)
    by (metis get_player_block_def get_player_mask_def option.inject)
  note mf = masked_fields [OF m]
  obtain w b g where w: "w = s\<lparr>build := b\<rparr>" "t = w\<lparr>g_mask := g\<rparr>" using m unfolding masked_def drawn_def by blast
  have vt: "vram t = vram s" "target_img t = target_img s" by (simp_all add: w)
  have "\<exists>x. show_screen t = Some x \<and> target_img x = target_img t XOR 0x4000 \<and>
    (\<forall>p j. j < unat (target_img x) \<or> unat (target_img x) + 16000 \<le> j \<longrightarrow> vram x p j = vram t p j)"
    using show_screen_pix [of t] assms(3,6) mf by auto
  then have u: "target_img u = target_img t XOR 0x4000" "\<And>p j. j < unat (target_img u) \<Longrightarrow> vram u p j = vram t p j" using t(2) by auto
  have "1440 \<le> unat (target_img u)" using page_flip [OF assms(2), of u] u(1) vt(2) by simp
  then have below: "vram u p j = vram s p j" if "j < 1440" for p j using u(2) that vt(1) by simp
  obtain b where b: "v = u\<lparr>build := b\<rparr>" using draw_full_block_build [OF t(3)] by blast
  show "j < 1440 \<Longrightarrow> vram v p j = vram s p j" using below by (simp add: b)
  have "screen_kept u v" by (simp add: b screen_kept_def)
  then show "screen_kept s v" using masked_screen [OF m] show_screen_screen [OF t(2)] by (blast intro: screen_kept_trans)
qed

text \<open>The beginning of a pass, up to the ticks.\<close>

lemma pass_colour:
  fixes s :: "'a play_scheme"
  assumes "game_ok blocks s" "port_access s"
  obtains a where "(if total s smod 16 = 0 then random_colour 0x20 s else Some s) = Some a" "game_ok blocks a" "play_x a = play_x s"
    "play_y a = play_y s" "target_img a = target_img s" "global_fnum a = global_fnum s" "leds a = leds s" "place a = place s"
proof (cases "total s smod 16 = 0")
  case True
  obtain n k j d where c: "random_colour 0x20 s = Some (s\<lparr>random_calls := n, dac_index := k, dac_next := j, dac := d\<rparr>)"
    using random_colour_eq [OF assms(2)] by blast
  let ?t = "s\<lparr>random_calls := n, dac_index := k, dac_next := j, dac := d\<rparr>"
  have "game_ok blocks ?t" using assms(1) by (simp add: colour_game(1) [OF refl])
  then show ?thesis using True c by (intro that [of ?t]) (simp_all add: place_def)
qed (use assms(1) that in simp)

lemma pass_start:
  fixes s :: "'a play_scheme"
  assumes "game_ok blocks s" "port_access s" "page_set s"
    and "1 \<le> level" "level \<le> 10" "0 \<le> global_fnum s" "global_fnum s < 10" "0 \<le> int_time i" "int_time i < 6000" "length (int_message i) = 40"
  obtains c where "clock_pass blocks level i s =
      do { (won, s) \<leftarrow> play_ticks blocks i 0 (min (unat (drop_bit 8 (int_data i))) 8) c; s \<leftarrow> draw_frame blocks s; Some (won, s) }"
    "game_ok blocks c" "play_x c = play_x s" "play_y c = play_y s" "page_set c" "leds c = leds s @ [convertTime (int_time i)]"
    "place c = place s" "\<forall>x<320. \<forall>r<18. vram c (x mod 4) (r * 80 + x div 4) = char_pixel (status_message level (global_fnum s) (int_time i)) x r"
proof -
  obtain a where a: "(if total s smod 16 = 0 then random_colour 0x20 s else Some s) = Some a" "game_ok blocks a" "play_x a = play_x s"
    "play_y a = play_y s" "target_img a = target_img s" "global_fnum a = global_fnum s" "leds a = leds s" "place a = place s"
    by (rule pass_colour [OF assms(1,2)])
  have fn: "0 \<le> global_fnum a" "global_fnum a < 10" using assms(6,7) a(6) by simp_all
  obtain b where b: "fill_status_bar (int_message i) level (global_fnum a) (int_time i) a = Some b"
    "\<forall>x<320. \<forall>r<18. vram b (x mod 4) (r * 80 + x div 4) = char_pixel (status_message level (global_fnum a) (int_time i)) x r"
    using fill_status_bar_pixels [OF assms(4,5) fn assms(8,9,10), of a] by blast
  have bs: "screen_kept a b" "build b = build a" "target_img b = target_img a" using fill_status_bar_screen [OF b(1)] by simp_all
  define n where "n = unat (drop_bit 8 (int_data i))"
  define e where "e = b\<lparr>leds := leds b @ [convertTime (int_time i)]\<rparr>"
  define d where "d = e\<lparr>total := total e + int n\<rparr>"
  define c where "c = (if min n 8 > 1 then d\<lparr>badcount := badcount d + 1\<rparr> else d\<lparr>goodcount := goodcount d + 1\<rparr>)"
  have "game_ok blocks b" "play_x b = play_x s" "play_y b = play_y s" "leds b = leds s" "place b = place s"
    using screen_game_ok [OF bs(1,2)] screen_game(10,11) [OF bs(1)] screen_kept_play [OF bs(1)] a(2-4,7,8) by simp_all
  then have c: "game_ok blocks c" "play_x c = play_x s" "play_y c = play_y s" "leds c = leds s @ [convertTime (int_time i)]"
    "target_img c = target_img b" "vram c = vram b" "place c = place s" by (simp_all add: c_def d_def e_def play_fields)
  have pass: "clock_pass blocks level i s =
      do { (won, s) \<leftarrow> play_ticks blocks i 0 (min n 8) c; s \<leftarrow> draw_frame blocks s; Some (won, s) }"
    unfolding clock_pass_def Let_def n_def [symmetric] a(1) Option.bind.simps b(1) e_def [symmetric] d_def [symmetric] c_def [symmetric]
    by (rule refl)
  have "page_set c" using assms(3) c(5) bs(3) a(5) by (simp add: page_set_def)
  then show ?thesis using that [OF pass [unfolded n_def] c(1-3) _ c(4,7)] b(2) c(6) a(6) by simp
qed

text \<open>A pass.\<close>

lemma clock_pass_shows:
  fixes s :: "'a play_scheme"
  assumes "game_ok blocks s" "blocks_ok blocks" "port_access s" "page_set s" "place s \<le> 19598"
    and "1 \<le> level" "level \<le> 10" "0 \<le> global_fnum s" "global_fnum s < 10" "0 \<le> int_time i" "int_time i < 6000" "length (int_message i) = 40"
  shows "\<exists>won v. clock_pass blocks level i s = Some (won, v) \<and> game_ok blocks v \<and> page_set v \<and>
    \<bar>play_x v - play_x s\<bar> + \<bar>play_y v - play_y s\<bar> \<le> min (uint (drop_bit 8 (int_data i))) 8 \<and>
    leds v = leds s @ [convertTime (int_time i)] \<and>
    (\<forall>c<320. \<forall>r<182. vram v (c mod 4) (unat (target_img v) + r * 80 + c div 4) = player_pic blocks v (show_x v + int c) (show_y v + int r)) \<and>
    (\<forall>x<320. \<forall>r<18. vram v (x mod 4) (r * 80 + x div 4) = char_pixel (status_message level (global_fnum s) (int_time i)) x r)"
proof -
  let ?n = "min (unat (drop_bit 8 (int_data i))) 8"
  obtain c where pass: "clock_pass blocks level i s =
      do { (won, s) \<leftarrow> play_ticks blocks i 0 ?n c; s \<leftarrow> draw_frame blocks s; Some (won, s) }"
    and c: "game_ok blocks c" "play_x c = play_x s" "play_y c = play_y s" "page_set c" "leds c = leds s @ [convertTime (int_time i)]" "place c = place s"
    and bar: "\<forall>x<320. \<forall>r<18. vram c (x mod 4) (r * 80 + x div 4) = char_pixel (status_message level (global_fnum s) (int_time i)) x r"
    by (rule pass_start [OF assms(1,3,4,6-12)])
  obtain won u where u: "play_ticks blocks i 0 ?n c = Some (won, u)" "game_ok blocks u"
    "\<bar>play_x u - play_x c\<bar> + \<bar>play_y u - play_y c\<bar> \<le> int ?n" "screen_of u = screen_of c" "leds u = leds c" "place u \<le> max (place c) 10000 + int ?n * 80"
    using play_ticks_game [OF c(1) assms(2)] by blast
  have pu: "page_set u" "vram u = vram c" using u(4) c(4) by (simp_all add: screen_of_def page_set_def)
  have n: "int ?n = min (uint (drop_bit 8 (int_data i))) 8" by (simp only: of_nat_min uint_nat of_nat_numeral)
  then have near: "\<bar>play_x u - play_x s\<bar> + \<bar>play_y u - play_y s\<bar> \<le> min (uint (drop_bit 8 (int_data i))) 8" using u(3) c(2,3) by simp
  have vu: "view_ok u" "length (g_mask u) = 144" using u(2) by (simp_all add: game_ok_def level_ok_def window_ok_def view_at_def)
  have "int ?n \<le> 8" by simp
  then have "place u \<le> 20238" using u(6) c(6) assms(5) by simp
  moreover have "img3 u = img3_off u + 256" using vu(1) by (simp add: view_ok_def)
  ultimately have room: "img3 u + show_x u div 4 + show_y u * 80 + 3 * SCROLL_SIZE + 16001 \<le> BUILD_BUF_SIZE + 512"
    by (simp add: place_def modex_sizes)
  obtain v where v: "draw_frame blocks u = Some v" "game_ok blocks v" "target_img v = target_img u XOR 0x4000"
    "\<forall>c<320. \<forall>r<182. vram v (c mod 4) (unat (target_img v) + r * 80 + c div 4) = player_pic blocks u (show_x u + int c) (show_y u + int r)"
    using draw_frame_shows [OF u(2) assms(2) room] by blast
  note below = draw_frame_below [OF v(1) pu(1) vu assms(2) room]
  have bar: "\<forall>x<320. \<forall>r<18. vram v (x mod 4) (r * 80 + x div 4) = char_pixel (status_message level (global_fnum s) (int_time i)) x r"
  proof (intro allI impI)
    fix x r :: nat assume xr: "x < 320" "r < 18"
    then have "r * 80 + x div 4 < 1440" using less_mult_imp_div_less [of x 80 4] by simp
    then have "vram v (x mod 4) (r * 80 + x div 4) = vram c (x mod 4) (r * 80 + x div 4)" by (simp add: below(2) pu(2))
    then show "vram v (x mod 4) (r * 80 + x div 4) = char_pixel (status_message level (global_fnum s) (int_time i)) x r"
      using bar [rule_format, OF xr] by (rule trans)
  qed
  have run: "clock_pass blocks level i s = Some (won, v)" unfolding pass u(1) by (simp add: v(1))
  have page: "page_set v" using page_flip [OF pu(1) v(3)] by (rule conjunct1)
  have led: "leds v = leds s @ [convertTime (int_time i)]" unfolding screen_kept_play(1) [OF below(1)] u(5) c(5) by (rule refl)
  note k = screen_game [OF below(1)]
  have sh: "show_x v = show_x u" "show_y v = show_y u" using below(1) by (simp_all add: screen_kept_view)
  have "player_pic blocks v = player_pic blocks u"
    by (intro ext) (simp add: player_pic_def with_masked_def k)
  then have pic: "\<forall>c<320. \<forall>r<182. vram v (c mod 4) (unat (target_img v) + r * 80 + c div 4) = player_pic blocks v (show_x v + int c) (show_y v + int r)"
    using v(4) by (simp add: sh)
  from led pic bar have "leds v = leds s @ [convertTime (int_time i)] \<and>
    (\<forall>c<320. \<forall>r<182. vram v (c mod 4) (unat (target_img v) + r * 80 + c div 4) = player_pic blocks v (show_x v + int c) (show_y v + int r)) \<and>
    (\<forall>x<320. \<forall>r<18. vram v (x mod 4) (r * 80 + x div 4) = char_pixel (status_message level (global_fnum s) (int_time i)) x r)"
    by (intro conjI)
  moreover have "\<bar>play_x v - play_x s\<bar> + \<bar>play_y v - play_y s\<bar> \<le> min (uint (drop_bit 8 (int_data i))) 8" using near by (simp add: k)
  ultimately show ?thesis using run v(2) page by blast
qed

end
