(* ===== verification/GameRunTheorems.thy ===== *)
theory GameRunTheorems
  imports GameRun GameTheorems TextTheorems
begin

text \<open>
  The property of a pass of the clock thread, with a pass on a concrete game.
\<close>






end
