(* ===== verification/Spec2Isabelle.thy ===== *)
theory Spec2Isabelle
  imports ProcessTheorems DriverTheorems UserTheorems ProgramTheorems TuxTheorems ModexTheorems VgaTheorems TextTheorems GameTheorems GameRunTheorems
begin

text \<open>
  The ECE391 systems: the operating system of mp3 (mp3/student-distrib) with programs that run on it
  (mp3/syscalls), and of mp2 the Tux
  controller driver (mp2/module), the mode X display (mp2/modex.c), the maze (mp2/maze.c) and the
  game that is played in it (mp2/mazegame.c).

  \<^bold>\<open>Conventions.\<close> Every component is a record that extends the one below it, every C function a
  definition of the same name that takes the state last and returns it changed. \<open>None\<close> is a
  processor exception (unmapped page, null pointer) or an access outside of an array; a failure
  that the code reports is its return value. Unsigned integers are words of their width, signed
  ones \<open>int\<close>, converted explicitly. Loops are structural recursion on a counter, recursion with a
  measure, or \<open>partial_function (option)\<close> where the code may loop for ever. \<open>Prelude\<close> holds what all
  components share: the integer types, C's division, arrays with bounds, facts on lists and words, and the locale
  \<open>step_invariant\<close>, of which the step relations of the kernel, the display and the game are instances.

  \<^bold>\<open>The kernel.\<close> \<open>Machine\<close> is the memory behind two level paging, the ports (output is a log, input a
  parameter), the interrupt flag. On it stand \<open>CLib\<close> and \<open>Console\<close> (lib.c, lib.h), \<open>Pic\<close> (i8259.c,
  pit.c), \<open>Paging\<close> (paging.c), \<open>FileSys\<close> (file_sys.c), \<open>Pcb\<close> and \<open>Process\<close> (pcb.c), \<open>Files\<close> (the
  descriptor operations as one contract, the locale \<open>fd_closer\<close> and its instances), \<open>Term\<close> (term.c),
  \<open>Rtc\<close> (rtc.c), \<open>Keyboard\<close> (device/keyboard.c, its queue an instance of \<open>Fifo\<close>), \<open>System\<close> (system.c),
  \<open>Scheduler\<close> (scheduler.c), \<open>Idt\<close> (idt.c, x86_desc.h) and \<open>Kernel\<close> (kernel.c). They interact through
  the record: an interrupt handler runs on the state in which it finds the process.
  \<open>KernelView\<close> gives the invariant of the kernel as a function of what the operations keep,
  \<open>SystemProps\<close>, \<open>ProcessProps\<close>, \<open>LoadProps\<close>, \<open>ExecProps\<close>, \<open>ArgProps\<close>, \<open>SyscallProps\<close> and \<open>BootProps\<close> show
  that each operation keeps it and what else it does, \<open>KernelSteps\<close> is the step relation of the whole
  system (system calls, interrupts, user stores) with its reachable states. \<open>Demo\<close> is a
  concrete machine for the runs that stand behind the properties. \<open>ProcessTheorems\<close> and
  \<open>DriverTheorems\<close> hold the properties.

  Assumed of the hardware and of what surrounds the kernel, as arguments of the definitions: the
  addresses the linker chooses, the registers at the entry of an assembler stub, the bytes that
  ports deliver, the contents of the boot module.

  \<^bold>\<open>Programs.\<close> \<open>UserPrograms\<close> models cat, ls, hello, testprint and string functions of their library as
  clients of the system calls; \<open>CatProps\<close> follows cat through the file system, the descriptors, the page of
  the process and the terminal. \<open>SysErr\<close> models the error tests of syserr, \<open>SysErrProps\<close> follows each of them
  through the kernel; \<open>UserTheorems\<close> holds the properties of both. \<open>Programs\<close> models grep, the shell, counter and pingpong,
  with itoa and strrev. \<open>UserMem\<close> reads the page of a program as a function from offsets to bytes, which a store
  updates and printing keeps, and follows a typed line from the terminal into the buffer; on it \<open>NumberProps\<close> shows
  what itoa writes, \<open>ProgramProps\<close> what counter prints and what the shell executes, \<open>GrepProps\<close> that grep searches
  every line of a file once although it reads in pieces of 1024 bytes; \<open>ProgramTheorems\<close> holds their properties. A program runs
  alone here: the interrupts of its waits are the argument \<open>idle\<close> of the calls, a child of the shell is the
  argument \<open>exec\<close>.

  \<^bold>\<open>The Tux driver.\<close> \<open>Tux\<close> models tuxctl-ld.c and tuxctl-ioctl.c with the two rings of the line
  discipline (both instances of \<open>Fifo\<close>); \<open>TuxProps\<close> proves it against an abstract port (pending bytes,
  buttons, LEDs, a partial packet), \<open>TuxTheorems\<close> holds its properties. How many bytes the tty driver
  takes is an argument (\<open>write_room\<close>).

  \<^bold>\<open>The display.\<close> \<open>Modex\<close> models the build buffer, the view window and the video memory of mp2/modex.c;
  \<open>ModexProps\<close> reads the buffer as a picture (\<open>pix\<close>, \<open>shows_pic\<close>) and proves every drawing operation
  against it, \<open>ModexTheorems\<close> holds the properties. \<open>Vga\<close> extends it by the registers of the adapter as its ports
  show them (write protection, flip-flop, palette) and by the modes of its memory, with the functions that enter and
  leave mode X; \<open>VgaProps\<close> gives what each of them leaves in the registers, \<open>VgaTheorems\<close> that the two modes are
  set from any state.
  \<open>Text\<close> models the status bar and the font of mp2/text.c, \<open>TextProps\<close> and \<open>TextTheorems\<close> show which pixel it
  draws where.

  \<^bold>\<open>The maze.\<close> \<open>Maze\<close> models mp2/maze.c; \<open>MazeProps\<close> holds the geometry (which spaces share a byte, the
  lines of the picture), \<open>MazeView\<close> that the window goes on showing the maze, \<open>MazeFruits\<close> that it does
  so while fruits are eaten and added, \<open>MazeArea\<close> the correctness of the search for what is
  connected. \<open>MazeDig\<close>, \<open>MazeJoin\<close> and \<open>MazeMade\<close> follow \<open>make_maze\<close> phase by phase: the worms clear all
  points, the loop after them joins the parts, the marks go, fruits and exit come; each phase ends.
  \<open>random\<close> is a stream of numbers fixed beforehand; that the construction ends needs one that is fair
  (\<open>random_fair\<close>: every pair of small numbers and every run of 200 zeros comes up again), as independent uniform
  numbers are with probability 1.

  \<^bold>\<open>The game.\<close> \<open>Game\<close> extends the maze by the shared state of the threads of mp2/mazegame.c; its
  operations are the steps that the threads take under their mutex. \<open>GamePan\<close> and \<open>GameProps\<close> prove
  that the window follows the player and goes on showing the maze, \<open>GameTick\<close> that a tick keeps the
  invariant \<open>game_ok\<close>, \<open>GameFrame\<close> the same for a frame and for every step of the threads
  (\<open>game_step\<close>). \<open>GameTheorems\<close> holds the properties of the maze and of the game. \<open>GameLevels\<close> composes
  \<open>make_maze\<close>, the view window and the first frame: every level number starts a level that satisfies \<open>game_ok\<close>.
  \<open>GameThreads\<close> models the loops of the three threads and \<open>main\<close>: a run is a list of interrupts of the clock, with
  what the other threads do between them. \<open>GameRun\<close> shows what a pass of the clock thread leaves alone and that the
  copy of the picture stays in the buffer, \<open>GameRunTheorems\<close> what is on the monitor and the LEDs after it.

  \<^bold>\<open>Bounds.\<close> No fuel is used: the loops over strings, files and arguments have counters or measures;
  the loops that wait for interrupts take the interrupts as a list; the loops that wait for a random
  number are partial functions; pingpong, which never ends, is given the number of its rounds.

  \<^bold>\<open>Not modelled.\<close> Assembler sources (boot.S, x86_desc.S, mp1, blink.S) apart from the inline assembler of
  the modelled C files; tests.c; of the adapter, write modes with latches and chained planes; input.c and assert.c, which only call the C library; of the user programs sigtest and fish. Locks and
  threads are not modelled: an operation that the code guards by a lock is one step.
\<close>

end
